(* ===== verification/Prelude.thy ===== *)
theory Prelude
  imports
    Complex_Main
    "HOL-Library.Multiset"
    "HOL-Library.List_Lexorder"
    "HOL-Library.Char_ord"
    "HOL-Library.Product_Lexorder"
begin

text \<open>
  Shared vocabulary of the development: Python exceptions as values, loops that may raise,
  integer counters kept in dictionaries (the idiom \<open>d[k] = d.get(k, 0) + 1\<close> and its inverse,
  which pops the key at zero), decimal printing of naturals, and the lemmas on lists,
  sums and maps that several components use.
\<close>

section \<open>Errors as values\<close>

text \<open>
  The exception classes raised by the modelled code. The text of an error message is not
  modelled; only the class of the exception is.
\<close>

datatype py_error =
    ValueError
  | KeyError
  | RuntimeError
  | TypeError
  | AssertionError
  | NotImplementedError
  | TimeoutError
  | IndexError
  | AttributeError
  | RecursionError
  | ZeroDivisionError
  | OSError

type_synonym 'a res = "py_error + 'a"

text \<open>Sequencing: an exception in the first computation is the result of the whole.\<close>

definition bind_res :: "'a res \<Rightarrow> ('a \<Rightarrow> 'b res) \<Rightarrow> 'b res" where
  "bind_res m f = (case m of Inl e \<Rightarrow> Inl e | Inr a \<Rightarrow> f a)"

text \<open>A \<open>for\<close> loop over a list whose body updates a state and may raise.\<close>

fun for_res :: "('s \<Rightarrow> 'a \<Rightarrow> 's res) \<Rightarrow> 's \<Rightarrow> 'a list \<Rightarrow> 's res" where
  "for_res f s [] = Inr s"
| "for_res f s (x # xs) = bind_res (f s x) (\<lambda>s'. for_res f s' xs)"

text \<open>A dictionary read \<open>d[k]\<close>, which raises \<open>KeyError\<close> on a missing key.\<close>

definition dict_get :: "('k \<Rightarrow> 'v option) \<Rightarrow> 'k \<Rightarrow> 'v res" where
  "dict_get d k = (case d k of None \<Rightarrow> Inl KeyError | Some v \<Rightarrow> Inr v)"

text \<open>\<open>[f(x) for x in xs]\<close> where \<open>f\<close> may raise.\<close>

fun map_res :: "('a \<Rightarrow> 'b res) \<Rightarrow> 'a list \<Rightarrow> 'b list res" where
  "map_res f [] = Inr []"
| "map_res f (x # xs) = bind_res (f x) (\<lambda>y. bind_res (map_res f xs) (\<lambda>ys. Inr (y # ys)))"

section \<open>Counters kept in a dictionary\<close>

text \<open>
  \<open>cget\<close> is \<open>d.get(k, 0)\<close>; \<open>cinc\<close> is \<open>d[k] = d.get(k, 0) + 1\<close>; \<open>cdec\<close> is the release idiom:
  read the count, pop the key when it is at most one, otherwise store the count minus one.
\<close>

type_synonym 'k counter = "'k \<Rightarrow> nat option"

definition cget :: "'k counter \<Rightarrow> 'k \<Rightarrow> nat" where
  "cget d k = (case d k of None \<Rightarrow> 0 | Some n \<Rightarrow> n)"

definition cinc :: "'k counter \<Rightarrow> 'k \<Rightarrow> 'k counter" where
  "cinc d k = d(k := Some (cget d k + 1))"

definition cdec :: "'k counter \<Rightarrow> 'k \<Rightarrow> 'k counter" where
  "cdec d k = (if cget d k \<le> 1 then d(k := None) else d(k := Some (cget d k - 1)))"

section \<open>Decimal printing\<close>

definition digit_char :: "nat \<Rightarrow> char" where
  "digit_char d = (if d = 0 then CHR ''0'' else if d = 1 then CHR ''1''
     else if d = 2 then CHR ''2'' else if d = 3 then CHR ''3'' else if d = 4 then CHR ''4''
     else if d = 5 then CHR ''5'' else if d = 6 then CHR ''6'' else if d = 7 then CHR ''7''
     else if d = 8 then CHR ''8'' else CHR ''9'')"

text \<open>\<open>str(n)\<close> for a non-negative integer.\<close>

fun str_nat :: "nat \<Rightarrow> string" where
  "str_nat n = (if n < 10 then [digit_char n] else str_nat (n div 10) @ [digit_char (n mod 10)])"

declare str_nat.simps [simp del]

section \<open>Collections of simplification rules\<close>

named_theorems py_simps \<open>unfolding of the error-passing combinators\<close>

section \<open>Lemmas\<close>

subsection \<open>Error passing\<close>

lemma bind_res_simps [simp, py_simps]:
  "bind_res (Inl e) f = Inl e"
  "bind_res (Inr a) f = f a"
  by (simp_all add: bind_res_def)

lemma bind_res_eq_Inr:
  "bind_res m f = Inr b \<longleftrightarrow> (\<exists>a. m = Inr a \<and> f a = Inr b)"
  by (cases m) auto

lemma bind_res_eq_Inl:
  "bind_res m f = Inl e \<longleftrightarrow> m = Inl e \<or> (\<exists>a. m = Inr a \<and> f a = Inl e)"
  by (cases m) auto

lemma bind_res_InrE:
  assumes "bind_res m f = Inr b"
  obtains a where "m = Inr a" and "f a = Inr b"
  using assms by (auto simp: bind_res_eq_Inr)

lemma for_res_append:
  "for_res f s (xs @ ys) = bind_res (for_res f s xs) (\<lambda>s'. for_res f s' ys)"
proof (induction xs arbitrary: s)
  case Nil
  show ?case by simp
next
  case (Cons x xs)
  then show ?case by (cases "f s x") auto
qed

text \<open>The invariant rule of a loop that may raise.\<close>

lemma for_res_invariant:
  assumes "P s"
    and "\<And>s x s'. P s \<Longrightarrow> x \<in> set xs \<Longrightarrow> f s x = Inr s' \<Longrightarrow> P s'"
    and "for_res f s xs = Inr t"
  shows "P t"
  using assms
proof (induction xs arbitrary: s)
  case Nil
  then show ?case by simp
next
  case (Cons x xs)
  from Cons.prems(3) obtain s' where s': "f s x = Inr s'" "for_res f s' xs = Inr t"
    by (auto elim: bind_res_InrE)
  have P: "P s'" by (rule Cons.prems(2) [OF Cons.prems(1) _ s'(1)]) simp
  have step: "P b" if "P a" "y \<in> set xs" "f a y = Inr b" for a y b
    by (rule Cons.prems(2) [OF that(1) _ that(3)]) (simp add: that(2))
  show ?case by (rule Cons.IH [OF P step s'(2)])
qed

lemma map_res_Inr: "map_res f xs = Inr ys \<longleftrightarrow> map f xs = map Inr ys"
proof (induction xs arbitrary: ys)
  case Nil
  then show ?case by auto
next
  case (Cons x xs)
  show ?case
  proof (cases ys)
    case Nil
    then show ?thesis by (auto simp: bind_res_eq_Inr)
  next
    case (Cons y ys')
    then show ?thesis using Cons.IH by (auto simp: bind_res_eq_Inr)
  qed
qed

lemma map_res_all2: "map_res f xs = Inr ys \<longleftrightarrow> list_all2 (\<lambda>x y. f x = Inr y) xs ys"
  by (auto simp: map_res_Inr list_all2_conv_all_nth list_eq_iff_nth_eq)

lemma dict_get_eq_Inr [simp]: "dict_get d k = Inr v \<longleftrightarrow> d k = Some v"
  by (auto simp: dict_get_def split: option.splits)

lemma dict_get_eq_Inl [simp]: "dict_get d k = Inl e \<longleftrightarrow> d k = None \<and> e = KeyError"
  by (auto simp: dict_get_def split: option.splits)

subsection \<open>Counters\<close>

lemma cget_empty [simp]: "cget (\<lambda>_. None) k = 0"
  by (simp add: cget_def)

lemma cget_upd_None [simp]: "cget (d(k := None)) j = (if j = k then 0 else cget d j)"
  by (simp add: cget_def)

lemma cget_upd_Some [simp]: "cget (d(k := Some n)) j = (if j = k then n else cget d j)"
  by (simp add: cget_def)

lemma cget_cinc [simp]: "cget (cinc d k) j = cget d j + (if j = k then 1 else 0)"
  by (simp add: cinc_def)

lemma cget_cdec [simp]: "cget (cdec d k) j = cget d j - (if j = k then 1 else 0)"
  by (auto simp: cdec_def)

subsection \<open>Lists\<close>

lemma count_list_set_0: "x \<notin> set xs \<Longrightarrow> count_list xs x = 0"
  by (simp add: count_list_0_iff)

lemma distinct_count_list: "distinct xs \<Longrightarrow> count_list xs x = (if x \<in> set xs then 1 else 0)"
  by (induction xs) auto

lemma sum_list_map_le:
  fixes f g :: "'a \<Rightarrow> nat"
  shows "(\<And>x. x \<in> set xs \<Longrightarrow> f x \<le> g x) \<Longrightarrow> sum_list (map f xs) \<le> sum_list (map g xs)"
  by (induction xs) (auto simp: add_mono)

lemma sum_list_map_zero_iff:
  fixes f :: "'a \<Rightarrow> nat"
  shows "sum_list (map f xs) = 0 \<longleftrightarrow> (\<forall>x \<in> set xs. f x = 0)"
  by (induction xs) auto

subsection \<open>Decimal printing is injective\<close>

lemma digit_char_inj: "a < 10 \<Longrightarrow> b < 10 \<Longrightarrow> digit_char a = digit_char b \<longleftrightarrow> a = b"
  by (simp add: digit_char_def) presburger

lemma str_nat_not_Nil [simp]: "str_nat n \<noteq> []"
  by (subst str_nat.simps) simp

lemmas str_nat_Nil [simp] = str_nat_not_Nil [THEN not_sym]

lemma str_nat_small: "n < 10 \<Longrightarrow> str_nat n = [digit_char n]"
  by (subst str_nat.simps) simp

lemma str_nat_big: "\<not> n < 10 \<Longrightarrow> str_nat n = str_nat (n div 10) @ [digit_char (n mod 10)]"
  by (subst str_nat.simps) simp

lemma str_nat_inj: "str_nat m = str_nat n \<longleftrightarrow> m = n"
proof (induction m arbitrary: n rule: str_nat.induct)
  case (1 m)
  show ?case
  proof (cases "m < 10"; cases "n < 10")
    assume "\<not> m < 10" and "\<not> n < 10"
    moreover have "m = n \<longleftrightarrow> m div 10 = n div 10 \<and> m mod 10 = n mod 10"
      by (metis div_mult_mod_eq)
    ultimately show ?thesis
      using "1.IH" [of "n div 10"] by (auto simp: str_nat_big digit_char_inj)
  qed (auto simp: str_nat_small str_nat_big digit_char_inj)
qed

text \<open>A printed number contains digits only, so it holds no separator.\<close>

lemma digit_char_range: "digit_char d \<in> set ''0123456789''"
  by (simp add: digit_char_def)

lemma set_str_nat: "set (str_nat n) \<subseteq> set ''0123456789''"
proof (induction n rule: str_nat.induct)
  case (1 n)
  then show ?case
    using digit_char_range [of n] digit_char_range [of "n mod 10"]
    by (cases "n < 10") (auto simp: str_nat_small str_nat_big)
qed

end
