(* ===== verification/Protocol.thy ===== *)
theory Protocol
  imports Prelude
begin

text \<open>
  The data model of the runtime (\<open>runtime_v2/protocol.py\<close>). Enumerations are datatypes, data
  classes are records (the field names carry a prefix, since record fields are global
  constants), and every \<open>__post_init__\<close> is a smart constructor \<open>mk_...\<close> that normalises
  the fields the way the class does and returns the exception the class raises.

  Python values that the code stores without a static type (task payloads, metadata) are
  values of \<open>pyval\<close>; a dictionary with string keys is an association list, read with
  \<open>map_of\<close> and written with \<open>AList.update\<close> semantics by \<open>dict_set\<close>.
  Floating point numbers are exact rationals.
\<close>

section \<open>Dynamically typed values\<close>

datatype pyval =
    PyNone
  | PyBool bool
  | PyInt int
  | PyFloat rat
  | PyStr string
  | PyList "pyval list"
  | PyDict "(string \<times> pyval) list"

type_synonym pydict = "(string \<times> pyval) list"

text \<open>\<open>d[k] = v\<close> on an insertion-ordered dictionary.\<close>

fun dict_set :: "('k \<times> 'v) list \<Rightarrow> 'k \<Rightarrow> 'v \<Rightarrow> ('k \<times> 'v) list" where
  "dict_set [] k v = [(k, v)]"
| "dict_set ((k', v') # d) k v = (if k' = k then (k, v) # d else (k', v') # dict_set d k v)"

text \<open>\<open>d.pop(k, None)\<close> on an ordered dictionary.\<close>

definition dict_pop :: "(string \<times> 'v) list \<Rightarrow> string \<Rightarrow> (string \<times> 'v) list" where
  "dict_pop d k = filter (\<lambda>(k', v). k' \<noteq> k) d"

section \<open>Enumerations\<close>

datatype task_kind =
    TEXT_ENCODE
  | DIT_PREPARE
  | TIMESTEP_PREPARE
  | DIT_STEP_CHUNK
  | VAE_DECODE
  | FINALIZE
  | RESHARD

fun task_kind_value :: "task_kind \<Rightarrow> string" where
  "task_kind_value TEXT_ENCODE = ''text_encode''"
| "task_kind_value DIT_PREPARE = ''dit_prepare''"
| "task_kind_value TIMESTEP_PREPARE = ''timestep_prepare''"
| "task_kind_value DIT_STEP_CHUNK = ''dit_step_chunk''"
| "task_kind_value VAE_DECODE = ''vae_decode''"
| "task_kind_value FINALIZE = ''finalize''"
| "task_kind_value RESHARD = ''reshard''"

text \<open>\<open>TaskKind(s)\<close>: the enumeration member with a given value.\<close>

definition task_kind_of_value :: "string \<Rightarrow> task_kind res" where
  "task_kind_of_value s =
     (case filter (\<lambda>k. task_kind_value k = s)
            [TEXT_ENCODE, DIT_PREPARE, TIMESTEP_PREPARE, DIT_STEP_CHUNK, VAE_DECODE, FINALIZE, RESHARD] of
        [] \<Rightarrow> Inl ValueError
      | k # _ \<Rightarrow> Inr k)"

definition RESHARD_PAYLOAD_SRC_GROUP_ID :: string where
  "RESHARD_PAYLOAD_SRC_GROUP_ID = ''src_group_id''"

definition RESHARD_PAYLOAD_DST_GROUP_ID :: string where
  "RESHARD_PAYLOAD_DST_GROUP_ID = ''dst_group_id''"

datatype artifact_kind = REQUEST_STATE | TENSOR | OUTPUT

datatype artifact_layout = HOST | WORKER_LOCAL

datatype tensor_layout_kind = OWNER_ONLY | REPLICATED | SHARDED

datatype task_status = PENDING | READY | DISPATCHED | RUNNING | FINISHED | FAILED

datatype worker_event_kind =
    TASK_LAUNCH_BEGIN
  | TASK_LAUNCH_END
  | TASK_EXEC_BEGIN
  | TASK_EXEC_END
  | TASK_FAILED
  | REQUEST_FINISHED
  | REQUEST_FAILED

fun worker_event_kind_value :: "worker_event_kind \<Rightarrow> string" where
  "worker_event_kind_value TASK_LAUNCH_BEGIN = ''task_launch_begin''"
| "worker_event_kind_value TASK_LAUNCH_END = ''task_launch_end''"
| "worker_event_kind_value TASK_EXEC_BEGIN = ''task_exec_begin''"
| "worker_event_kind_value TASK_EXEC_END = ''task_exec_end''"
| "worker_event_kind_value TASK_FAILED = ''task_failed''"
| "worker_event_kind_value REQUEST_FINISHED = ''request_finished''"
| "worker_event_kind_value REQUEST_FAILED = ''request_failed''"

section \<open>Tensor layouts, slices and migration schedules\<close>

record tensor_shard_spec =
  sh_dim :: int

definition mk_tensor_shard_spec :: "int \<Rightarrow> tensor_shard_spec res" where
  "mk_tensor_shard_spec d = (if d < 0 then Inl ValueError else Inr \<lparr>sh_dim = d\<rparr>)"

record tensor_layout =
  tl_kind :: tensor_layout_kind
  tl_shard :: "tensor_shard_spec option"

definition mk_tensor_layout ::
  "tensor_layout_kind \<Rightarrow> tensor_shard_spec option \<Rightarrow> tensor_layout res" where
  "mk_tensor_layout kind shard =
     (if kind = SHARDED
      then (if shard = None then Inl ValueError else Inr \<lparr>tl_kind = kind, tl_shard = shard\<rparr>)
      else if shard \<noteq> None then Inl ValueError
      else Inr \<lparr>tl_kind = kind, tl_shard = shard\<rparr>)"

record tensor_field_layout =
  fl_path :: "string list"
  fl_local_shape :: "int list"
  fl_dtype :: string
  fl_layout :: tensor_layout
  fl_global_shape :: "int list"
  fl_global_offset :: "int list"

text \<open>The order of the checks is the order of \<open>TensorFieldLayout.__post_init__\<close>.\<close>

definition mk_tensor_field_layout ::
  "string list \<Rightarrow> int list \<Rightarrow> string \<Rightarrow> tensor_layout \<Rightarrow> int list option \<Rightarrow> int list option
   \<Rightarrow> tensor_field_layout res" where
  "mk_tensor_field_layout path local_shape dtype layout gshape goffset =
     (if path = [] then Inl ValueError
      else if \<exists>d \<in> set local_shape. d < 0 then Inl ValueError
      else if dtype = [] then Inl ValueError
      else
        let global_shape = (case gshape of None \<Rightarrow> local_shape | Some s \<Rightarrow> s);
            global_offset = (case goffset of None \<Rightarrow> map (\<lambda>_. 0) global_shape | Some f \<Rightarrow> f)
        in if length local_shape \<noteq> length global_shape then Inl ValueError
           else if length global_offset \<noteq> length global_shape then Inl ValueError
           else if \<exists>d \<in> set global_shape. d < 0 then Inl ValueError
           else if \<exists>d \<in> set global_offset. d < 0 then Inl ValueError
           else if \<exists>(f, l, g) \<in> set (zip global_offset (zip local_shape global_shape)). f + l > g
             then Inl ValueError
           else Inr \<lparr>fl_path = path, fl_local_shape = local_shape, fl_dtype = dtype,
                     fl_layout = layout, fl_global_shape = global_shape,
                     fl_global_offset = global_offset\<rparr>)"

record tensor_slice_spec =
  ts_path :: "string list"
  ts_offset :: "int list"
  ts_shape :: "int list"
  ts_dtype :: string

definition mk_tensor_slice_spec ::
  "string list \<Rightarrow> int list \<Rightarrow> int list \<Rightarrow> string \<Rightarrow> tensor_slice_spec res" where
  "mk_tensor_slice_spec path off shp dtype =
     (if path = [] then Inl ValueError
      else if length off \<noteq> length shp then Inl ValueError
      else if \<exists>d \<in> set off. d < 0 then Inl ValueError
      else if \<exists>d \<in> set shp. d < 0 then Inl ValueError
      else if dtype = [] then Inl ValueError
      else Inr \<lparr>ts_path = path, ts_offset = off, ts_shape = shp, ts_dtype = dtype\<rparr>)"

record tensor_migration_edge =
  me_artifact_id :: string
  me_src_rank :: int
  me_dst_rank :: int
  me_src_slice :: tensor_slice_spec
  me_dst_slice :: tensor_slice_spec
  me_local_copy :: bool

definition mk_tensor_migration_edge ::
  "string \<Rightarrow> int \<Rightarrow> int \<Rightarrow> tensor_slice_spec \<Rightarrow> tensor_slice_spec \<Rightarrow> bool
   \<Rightarrow> tensor_migration_edge res" where
  "mk_tensor_migration_edge aid src dst src_slice dst_slice local_copy =
     (if aid = [] then Inl ValueError
      else if ts_dtype src_slice \<noteq> ts_dtype dst_slice then Inl ValueError
      else if ts_shape src_slice \<noteq> ts_shape dst_slice then Inl ValueError
      else Inr \<lparr>me_artifact_id = aid, me_src_rank = src, me_dst_rank = dst,
                me_src_slice = src_slice, me_dst_slice = dst_slice,
                me_local_copy = local_copy\<rparr>)"

record artifact_migration_schedule =
  ms_migrate_id :: string
  ms_request_id :: string
  ms_src_group_id :: string
  ms_dst_group_id :: string
  ms_src_ranks :: "int list"
  ms_dst_ranks :: "int list"
  ms_participant_ranks :: "int list"
  ms_edges :: "tensor_migration_edge list"

definition mk_artifact_migration_schedule ::
  "string \<Rightarrow> string \<Rightarrow> string \<Rightarrow> string \<Rightarrow> int list \<Rightarrow> int list \<Rightarrow> int list
   \<Rightarrow> tensor_migration_edge list \<Rightarrow> artifact_migration_schedule res" where
  "mk_artifact_migration_schedule mid rid sg dg sr dr pr es =
     (if mid = [] then Inl ValueError
      else if rid = [] then Inl ValueError
      else Inr \<lparr>ms_migrate_id = mid, ms_request_id = rid, ms_src_group_id = sg,
                ms_dst_group_id = dg, ms_src_ranks = sr, ms_dst_ranks = dr,
                ms_participant_ranks = pr, ms_edges = es\<rparr>)"

section \<open>Parallel specifications and execution groups\<close>

record parallel_spec =
  ps_tp :: int
  ps_sp :: int
  ps_cfg :: int
  ps_cfg_parallel :: bool

definition mk_parallel_spec :: "int \<Rightarrow> int \<Rightarrow> int \<Rightarrow> bool \<Rightarrow> parallel_spec res" where
  "mk_parallel_spec tp sp cfg cfg_parallel =
     (if tp < 1 then Inl ValueError
      else if sp < 1 then Inl ValueError
      else if cfg < 1 then Inl ValueError
      else let cfg' = (if cfg_parallel \<and> cfg = 1 then 2 else cfg)
           in Inr \<lparr>ps_tp = tp, ps_sp = sp, ps_cfg = cfg', ps_cfg_parallel = (cfg' > 1)\<rparr>)"

record group_spec =
  g_id :: string
  g_ranks :: "int list"
  g_parallel :: parallel_spec
  g_kinds :: "task_kind list"
  g_ulysses :: int
  g_ring :: int

definition mk_group_spec ::
  "string \<Rightarrow> int list \<Rightarrow> parallel_spec \<Rightarrow> task_kind list \<Rightarrow> int \<Rightarrow> int \<Rightarrow> group_spec res" where
  "mk_group_spec gid ranks par kinds ulysses ring =
     (if ranks = [] then Inl ValueError
      else if ulysses < 1 then Inl ValueError
      else if ring < 1 then Inl ValueError
      else
        let u = (if ps_sp par \<noteq> ulysses * ring \<and> ulysses = 1 \<and> ring = 1 then ps_sp par else ulysses)
        in if ps_sp par \<noteq> u * ring then Inl ValueError
           else Inr \<lparr>g_id = gid, g_ranks = ranks, g_parallel = par, g_kinds = kinds,
                     g_ulysses = u, g_ring = ring\<rparr>)"

section \<open>Artifacts\<close>

record artifact_handle =
  h_request_id :: string
  h_artifact_id :: string
  h_kind :: artifact_kind
  h_layout :: artifact_layout
  h_producer_task_id :: "string option"
  h_codec_id :: "string option"
  h_metadata :: pydict

record output_artifact_layout =
  ol_handle :: artifact_handle
  ol_tensors :: "tensor_field_layout list"

text \<open>\<open>not self.handle.codec_id\<close> holds for \<open>None\<close> and for the empty string.\<close>

definition mk_output_artifact_layout ::
  "artifact_handle \<Rightarrow> tensor_field_layout list \<Rightarrow> output_artifact_layout res" where
  "mk_output_artifact_layout h ts =
     (if h_codec_id h = None \<or> h_codec_id h = Some [] then Inl ValueError
      else Inr \<lparr>ol_handle = h, ol_tensors = ts\<rparr>)"

record worker_local_ref =
  wr_handle :: artifact_handle
  wr_group_id :: string
  wr_worker_rank :: int

text \<open>
  A stored artifact value is either a reference to data held by workers or an opaque host value.
\<close>

datatype artifact_payload = RefVal worker_local_ref | HostVal pyval

record artifact_value =
  av_handle :: artifact_handle
  av_value :: artifact_payload

record migrate_spec =
  mg_handle :: artifact_handle
  mg_source_handle :: "artifact_handle option"

definition mk_migrate_spec :: "artifact_handle \<Rightarrow> artifact_handle option \<Rightarrow> migrate_spec res" where
  "mk_migrate_spec h sh =
     (if h_artifact_id h = [] then Inl ValueError
      else case sh of
        None \<Rightarrow> Inr \<lparr>mg_handle = h, mg_source_handle = None\<rparr>
      | Some s \<Rightarrow>
          if h_artifact_id s = [] then Inl ValueError
          else if h_request_id s \<noteq> h_request_id h then Inl ValueError
          else Inr \<lparr>mg_handle = h, mg_source_handle = Some s\<rparr>)"

definition effective_source_handle :: "migrate_spec \<Rightarrow> artifact_handle" where
  "effective_source_handle m = (case mg_source_handle m of Some s \<Rightarrow> s | None \<Rightarrow> mg_handle m)"

record migrate_plan =
  mp_request_id :: string
  mp_src_group_id :: string
  mp_dst_group_id :: string
  mp_artifacts :: "migrate_spec list"
  mp_request_metadata :: pydict

definition mk_migrate_plan ::
  "string \<Rightarrow> string \<Rightarrow> string \<Rightarrow> migrate_spec list \<Rightarrow> pydict \<Rightarrow> migrate_plan res" where
  "mk_migrate_plan rid src dst arts md =
     (if rid = [] then Inl ValueError
      else if src = [] then Inl ValueError
      else if dst = [] then Inl ValueError
      else if arts = [] then Inl ValueError
      else if \<exists>a \<in> set arts. h_request_id (mg_handle a) \<noteq> rid then Inl ValueError
      else Inr \<lparr>mp_request_id = rid, mp_src_group_id = src, mp_dst_group_id = dst,
                mp_artifacts = arts, mp_request_metadata = md\<rparr>)"

section \<open>Tasks, plans and worker events\<close>

record step_range =
  sr_start :: int
  sr_end :: int

definition mk_step_range :: "int \<Rightarrow> int \<Rightarrow> step_range res" where
  "mk_step_range s e =
     (if s < 0 then Inl ValueError else if e \<le> s then Inl ValueError
      else Inr \<lparr>sr_start = s, sr_end = e\<rparr>)"

record task =
  t_id :: string
  t_request_id :: string
  t_kind :: task_kind
  t_group_id :: "string option"
  t_parallel :: parallel_spec
  t_status :: task_status
  t_priority :: int
  t_dependencies :: "string list"
  t_inputs :: "artifact_handle list"
  t_outputs :: "artifact_handle list"
  t_step_range :: "step_range option"
  t_payload :: pydict

text \<open>\<open>RequestExecutionPlan.tasks\<close> is an insertion-ordered dictionary keyed by task id.\<close>

record plan =
  p_request_id :: string
  p_tasks :: "(string \<times> task) list"
  p_terminal :: "string list"
  p_initial :: "artifact_value list"
  p_metadata :: pydict

record worker_event =
  e_event_id :: string
  e_task_id :: string
  e_request_id :: string
  e_group_id :: string
  e_worker_rank :: int
  e_kind :: worker_event_kind
  e_timestamp_ns :: int
  e_message :: string
  e_metadata :: pydict

section \<open>Lemmas\<close>

lemma map_of_dict_set: "map_of (dict_set d k v) = (map_of d)(k \<mapsto> v)"
  by (induction d k v rule: dict_set.induct) auto

lemma dict_set_keys: "set (map fst (dict_set d k v)) = insert k (set (map fst d))"
  by (induction d k v rule: dict_set.induct) auto

lemma fst_dict_set: "fst ` set (dict_set d k v) = insert k (fst ` set d)"
  by (induction d k v rule: dict_set.induct) auto

lemma distinct_dict_set: "distinct (map fst d) \<Longrightarrow> distinct (map fst (dict_set d k v))"
  by (induction d k v rule: dict_set.induct) (auto simp: fst_dict_set)

lemma map_of_dict_pop: "map_of (dict_pop d k) = (map_of d)(k := None)"
  by (induction d) (auto simp: dict_pop_def fun_eq_iff)

lemma distinct_dict_pop: "distinct (map fst d) \<Longrightarrow> distinct (map fst (dict_pop d k))"
  by (induction d) (auto simp: dict_pop_def)

text \<open>Well-formed slices and fields: what the smart constructors guarantee.\<close>

definition slice_wf :: "tensor_slice_spec \<Rightarrow> bool" where
  "slice_wf s \<longleftrightarrow> ts_path s \<noteq> [] \<and> ts_dtype s \<noteq> [] \<and> length (ts_offset s) = length (ts_shape s)
     \<and> (\<forall>d \<in> set (ts_offset s). 0 \<le> d) \<and> (\<forall>d \<in> set (ts_shape s). 0 \<le> d)"

definition field_wf :: "tensor_field_layout \<Rightarrow> bool" where
  "field_wf f \<longleftrightarrow> fl_path f \<noteq> [] \<and> fl_dtype f \<noteq> []
     \<and> length (fl_local_shape f) = length (fl_global_shape f)
     \<and> length (fl_global_offset f) = length (fl_global_shape f)
     \<and> (\<forall>d \<in> set (fl_local_shape f). 0 \<le> d)
     \<and> (\<forall>d \<in> set (fl_global_shape f). 0 \<le> d)
     \<and> (\<forall>d \<in> set (fl_global_offset f). 0 \<le> d)
     \<and> (\<forall>i < length (fl_global_shape f).
          fl_global_offset f ! i + fl_local_shape f ! i \<le> fl_global_shape f ! i)"

lemma mk_tensor_slice_spec_wf: "mk_tensor_slice_spec p f s d = Inr r \<Longrightarrow> slice_wf r"
  by (auto simp: mk_tensor_slice_spec_def slice_wf_def not_less split: if_splits)

lemma mk_tensor_slice_spec_eq:
  "mk_tensor_slice_spec p f s d = Inr r \<Longrightarrow>
     r = \<lparr>ts_path = p, ts_offset = f, ts_shape = s, ts_dtype = d\<rparr>"
  by (auto simp: mk_tensor_slice_spec_def split: if_splits)

lemma mk_tensor_field_layout_wf:
  assumes "mk_tensor_field_layout p ls d l gs go = Inr r"
  shows "field_wf r"
proof -
  define gs' where "gs' = (case gs of None \<Rightarrow> ls | Some s \<Rightarrow> s)"
  define go' where "go' = (case go of None \<Rightarrow> map (\<lambda>_. 0) gs' | Some f \<Rightarrow> f)"
  have def: "mk_tensor_field_layout p ls d l gs go =
     (if p = [] then Inl ValueError
      else if \<exists>x \<in> set ls. x < 0 then Inl ValueError
      else if d = [] then Inl ValueError
      else if length ls \<noteq> length gs' then Inl ValueError
      else if length go' \<noteq> length gs' then Inl ValueError
      else if \<exists>x \<in> set gs'. x < 0 then Inl ValueError
      else if \<exists>x \<in> set go'. x < 0 then Inl ValueError
      else if \<exists>(f, l, g) \<in> set (zip go' (zip ls gs')). f + l > g then Inl ValueError
      else Inr \<lparr>fl_path = p, fl_local_shape = ls, fl_dtype = d, fl_layout = l,
              fl_global_shape = gs', fl_global_offset = go'\<rparr>)"
    unfolding mk_tensor_field_layout_def Let_def gs'_def go'_def by (rule refl)
  have r: "r = \<lparr>fl_path = p, fl_local_shape = ls, fl_dtype = d, fl_layout = l,
              fl_global_shape = gs', fl_global_offset = go'\<rparr>"
    and c: "p \<noteq> []" "d \<noteq> []" "length ls = length gs'" "length go' = length gs'"
      "\<forall>x \<in> set ls. 0 \<le> x" "\<forall>x \<in> set gs'. 0 \<le> x" "\<forall>x \<in> set go'. 0 \<le> x"
      "\<forall>(f, l, g) \<in> set (zip go' (zip ls gs')). f + l \<le> g"
    using assms by (simp_all add: def not_less split: if_splits) (fastforce simp: not_less)
  have "go' ! i + ls ! i \<le> gs' ! i" if "i < length gs'" for i
  proof -
    have "(go' ! i, ls ! i, gs' ! i) \<in> set (zip go' (zip ls gs'))"
      using that c(3,4) by (auto simp: set_zip intro!: exI [of _ i])
    then show ?thesis using c(8) by auto
  qed
  then show ?thesis using c by (simp add: r field_wf_def)
qed

definition group_wf :: "group_spec \<Rightarrow> bool" where
  "group_wf g \<longleftrightarrow> g_ranks g \<noteq> [] \<and> 1 \<le> g_ulysses g \<and> 1 \<le> g_ring g
     \<and> ps_sp (g_parallel g) = g_ulysses g * g_ring g"

lemma mk_group_spec_wf:
  "mk_group_spec gid rs par ks u r = Inr g \<Longrightarrow> 1 \<le> ps_sp par \<Longrightarrow> group_wf g"
  by (auto simp: mk_group_spec_def group_wf_def Let_def split: if_splits)

lemma mk_parallel_spec_wf:
  "mk_parallel_spec tp sp cfg cp = Inr p \<Longrightarrow>
     1 \<le> ps_tp p \<and> 1 \<le> ps_sp p \<and> 1 \<le> ps_cfg p \<and> (ps_cfg_parallel p \<longleftrightarrow> 1 < ps_cfg p)"
  by (auto simp: mk_parallel_spec_def Let_def split: if_splits)

lemma mk_migrate_plan_eq:
  "mk_migrate_plan rid src dst arts md = Inr p \<longleftrightarrow>
     rid \<noteq> [] \<and> src \<noteq> [] \<and> dst \<noteq> [] \<and> arts \<noteq> []
     \<and> (\<forall>a \<in> set arts. h_request_id (mg_handle a) = rid)
     \<and> p = \<lparr>mp_request_id = rid, mp_src_group_id = src, mp_dst_group_id = dst,
            mp_artifacts = arts, mp_request_metadata = md\<rparr>"
  by (auto simp: mk_migrate_plan_def)

lemma task_kind_roundtrip: "task_kind_of_value (task_kind_value k) = Inr k"
  by (cases k) (simp_all add: task_kind_of_value_def)

end
