(* ===== verification/Topology.thy ===== *)
theory Topology
  imports Protocol
begin

text \<open>
  The runtime topology (\<open>runtime_v2/topology.py\<close>): workers, execution groups and the three
  lookup tables built from them. Registering a group at run time (\<open>ensure_group\<close>) keeps the
  tables consistent with the tuples they index.
\<close>

section \<open>State and operations\<close>

record worker_spec =
  w_rank :: int
  w_device_id :: "int option"
  w_label :: string

record topology =
  tp_workers :: "worker_spec list"
  tp_groups :: "group_spec list"
  tp_workers_by_rank :: "int \<Rightarrow> worker_spec option"
  tp_groups_by_id :: "string \<Rightarrow> group_spec option"
  tp_groups_by_worker_rank :: "int \<Rightarrow> group_spec list option"

text \<open>The loop \<open>for rank in group.ranks: self._groups_by_worker_rank[rank].append(group)\<close>.\<close>

definition index_group_rank ::
  "group_spec \<Rightarrow> (int \<Rightarrow> group_spec list option) \<Rightarrow> int \<Rightarrow> (int \<Rightarrow> group_spec list option) res" where
  "index_group_rank g idx r =
     bind_res (dict_get idx r) (\<lambda>gs. Inr (idx(r := Some (gs @ [g]))))"

definition mk_topology :: "worker_spec list \<Rightarrow> group_spec list \<Rightarrow> topology res" where
  "mk_topology workers groups =
     (if workers = [] then Inl ValueError
      else if groups = [] then Inl ValueError
      else
        let by_rank = map_of (rev (map (\<lambda>w. (w_rank w, w)) workers));
            by_id = map_of (rev (map (\<lambda>g. (g_id g, g)) groups));
            idx0 = (\<lambda>r. if r \<in> set (map w_rank workers) then Some [] else None)
        in if \<not> distinct (map w_rank workers) then Inl ValueError
           else if \<not> distinct (map g_id groups) then Inl ValueError
           else bind_res
             (for_res (\<lambda>idx g.
                 for_res (\<lambda>idx r. if by_rank r = None then Inl ValueError
                                   else index_group_rank g idx r) idx (g_ranks g))
               idx0 groups)
             (\<lambda>idx. if \<exists>w \<in> set workers. idx (w_rank w) = Some [] then Inl ValueError
                     else Inr \<lparr>tp_workers = workers, tp_groups = groups,
                               tp_workers_by_rank = by_rank, tp_groups_by_id = by_id,
                               tp_groups_by_worker_rank = idx\<rparr>))"

definition get_group :: "topology \<Rightarrow> string \<Rightarrow> group_spec res" where
  "get_group T gid = dict_get (tp_groups_by_id T) gid"

definition ensure_group :: "topology \<Rightarrow> group_spec \<Rightarrow> (topology \<times> group_spec) res" where
  "ensure_group T g =
     (case tp_groups_by_id T (g_id g) of
        Some existing \<Rightarrow> if existing \<noteq> g then Inl ValueError else Inr (T, existing)
      | None \<Rightarrow>
          if \<exists>r \<in> set (g_ranks g). tp_workers_by_rank T r = None then Inl ValueError
          else bind_res
            (for_res (index_group_rank g) (tp_groups_by_worker_rank T) (g_ranks g))
            (\<lambda>idx. Inr (T\<lparr>tp_groups := tp_groups T @ [g],
                          tp_groups_by_id := (tp_groups_by_id T)(g_id g \<mapsto> g),
                          tp_groups_by_worker_rank := idx\<rparr>, g)))"

definition get_worker :: "topology \<Rightarrow> int \<Rightarrow> worker_spec res" where
  "get_worker T r = dict_get (tp_workers_by_rank T) r"

definition get_group_leader :: "topology \<Rightarrow> string \<Rightarrow> int res" where
  "get_group_leader T gid =
     bind_res (get_group T gid)
       (\<lambda>g. case g_ranks g of [] \<Rightarrow> Inl IndexError | r # _ \<Rightarrow> Inr r)"

definition get_group_for_worker :: "topology \<Rightarrow> int \<Rightarrow> group_spec res" where
  "get_group_for_worker T r =
     bind_res (dict_get (tp_groups_by_worker_rank T) r)
       (\<lambda>gs. case gs of [] \<Rightarrow> Inl IndexError | g # _ \<Rightarrow> Inr g)"

definition get_groups_for_worker :: "topology \<Rightarrow> int \<Rightarrow> group_spec list res" where
  "get_groups_for_worker T r = dict_get (tp_groups_by_worker_rank T) r"

definition get_groups_for_task :: "topology \<Rightarrow> task_kind \<Rightarrow> group_spec list" where
  "get_groups_for_task T k = filter (\<lambda>g. k \<in> set (g_kinds g)) (tp_groups T)"

fun first_supporting :: "group_spec list \<Rightarrow> task_kind \<Rightarrow> string option" where
  "first_supporting [] k = None"
| "first_supporting (g # gs) k = (if k \<in> set (g_kinds g) then Some (g_id g) else first_supporting gs k)"

definition select_group_for_task :: "topology \<Rightarrow> task_kind \<Rightarrow> string option" where
  "select_group_for_task T k = first_supporting (tp_groups T) k"

section \<open>Invariant\<close>

text \<open>
  The tables index the tuples: the row of a rank lists the groups in registration order,
  once per occurrence of the rank in the group.
\<close>

definition rank_row :: "group_spec list \<Rightarrow> int \<Rightarrow> group_spec list" where
  "rank_row gs r = concat (map (\<lambda>g. replicate (count_list (g_ranks g) r) g) gs)"

definition topology_inv :: "topology \<Rightarrow> bool" where
  "topology_inv T \<longleftrightarrow>
     tp_workers T \<noteq> [] \<and> tp_groups T \<noteq> []
     \<and> distinct (map w_rank (tp_workers T)) \<and> distinct (map g_id (tp_groups T))
     \<and> tp_workers_by_rank T = map_of (map (\<lambda>w. (w_rank w, w)) (tp_workers T))
     \<and> tp_groups_by_id T = map_of (map (\<lambda>g. (g_id g, g)) (tp_groups T))
     \<and> (\<forall>g \<in> set (tp_groups T). set (g_ranks g) \<subseteq> set (map w_rank (tp_workers T)))
     \<and> (\<forall>r. tp_groups_by_worker_rank T r =
           (if r \<in> set (map w_rank (tp_workers T)) then Some (rank_row (tp_groups T) r) else None))
     \<and> (\<forall>w \<in> set (tp_workers T). rank_row (tp_groups T) (w_rank w) \<noteq> [])"

section \<open>Lemmas\<close>

lemma rank_row_append [simp]: "rank_row (gs @ hs) r = rank_row gs r @ rank_row hs r"
  by (simp add: rank_row_def)

lemma rank_row_Nil [simp]: "rank_row [] r = []"
  by (simp add: rank_row_def)

lemma rank_row_single [simp]: "rank_row [g] r = replicate (count_list (g_ranks g) r) g"
  by (simp add: rank_row_def)

lemma set_rank_row: "set (rank_row gs r) = {g \<in> set gs. r \<in> set (g_ranks g)}"
  by (auto simp: rank_row_def set_replicate_conv_if count_list_0_iff split: if_splits)

text \<open>Appending a group to the rows of its ranks.\<close>

lemma index_group_ranks:
  assumes "set rs \<subseteq> R" "\<forall>r. idx r = (if r \<in> R then Some (row r) else None)"
  shows "\<exists>idx'. for_res (index_group_rank g) idx rs = Inr idx'
           \<and> (\<forall>r. idx' r = (if r \<in> R then Some (row r @ replicate (count_list rs r) g) else None))"
  using assms
proof (induction rs arbitrary: idx row)
  case (Cons x xs)
  let ?row = "\<lambda>r. if r = x then row r @ [g] else row r"
  have row: "\<forall>r. (idx(x := Some (row x @ [g]))) r = (if r \<in> R then Some (?row r) else None)"
    using Cons.prems by auto
  have sub: "set xs \<subseteq> R" using Cons.prems(1) by simp
  from Cons.IH [OF sub row] obtain idx' where
    "for_res (index_group_rank g) (idx(x := Some (row x @ [g]))) xs = Inr idx'"
    "\<forall>r. idx' r = (if r \<in> R then Some (?row r @ replicate (count_list xs r) g) else None)"
    by blast
  moreover have "index_group_rank g idx x = Inr (idx(x := Some (row x @ [g])))"
    using Cons.prems by (simp add: index_group_rank_def dict_get_def)
  ultimately show ?case
    by (intro exI [of _ idx']) (auto simp: replicate_app_Cons_same)
qed auto

lemma for_res_guarded:
  assumes "for_res (\<lambda>s x. if bad x then Inl e else f s x) s xs = Inr t"
  shows "(\<forall>x \<in> set xs. \<not> bad x) \<and> for_res f s xs = Inr t"
  using assms by (induction xs arbitrary: s) (auto simp: bind_res_eq_Inr split: if_splits)

lemma index_groups:
  assumes "for_res (\<lambda>idx g. for_res (\<lambda>idx r. if by_rank r = None then Inl ValueError
                     else index_group_rank g idx r) idx (g_ranks g)) idx gs = Inr idx'"
    and "\<forall>r. idx r = (if r \<in> R then Some (row r) else None)"
    and "\<And>r. by_rank r \<noteq> None \<longleftrightarrow> r \<in> R"
  shows "(\<forall>g \<in> set gs. set (g_ranks g) \<subseteq> R)
     \<and> (\<forall>r. idx' r = (if r \<in> R then Some (row r @ rank_row gs r) else None))"
  using assms(1,2)
proof (induction gs arbitrary: idx row)
  case (Cons g gs)
  from Cons.prems(1) obtain i where
    i: "for_res (\<lambda>idx r. if by_rank r = None then Inl ValueError else index_group_rank g idx r)
          idx (g_ranks g) = Inr i" and
    rest: "for_res (\<lambda>idx g. for_res (\<lambda>idx r. if by_rank r = None then Inl ValueError
                     else index_group_rank g idx r) idx (g_ranks g)) i gs = Inr idx'"
    by (auto elim: bind_res_InrE)
  from for_res_guarded [OF i] have
    g: "set (g_ranks g) \<subseteq> R" "for_res (index_group_rank g) idx (g_ranks g) = Inr i"
    using assms(3) by auto
  from index_group_ranks [OF g(1) Cons.prems(2), of g] g(2) have
    "\<forall>r. i r = (if r \<in> R then Some (row r @ replicate (count_list (g_ranks g) r) g) else None)"
    by auto
  from Cons.IH [OF rest this] g(1) show ?case
    by (simp add: rank_row_def)
qed auto

lemma map_of_rev_distinct:
  "distinct (map fst xs) \<Longrightarrow> map_of (rev xs) = map_of xs"
  by (rule map_of_inject_set [THEN iffD2]) (auto simp: rev_map [symmetric])

theorem mk_topology_inv:
  assumes "mk_topology ws gs = Inr T"
  shows "topology_inv T"
proof -
  let ?R = "set (map w_rank ws)"
  let ?by = "map_of (rev (map (\<lambda>w. (w_rank w, w)) ws))"
  let ?byg = "map_of (rev (map (\<lambda>g. (g_id g, g)) gs))"
  from assms obtain idx where c: "ws \<noteq> []" "gs \<noteq> []" "distinct (map w_rank ws)"
      "distinct (map g_id gs)" and
    loop: "for_res (\<lambda>idx g. for_res (\<lambda>idx r. if ?by r = None then Inl ValueError
              else index_group_rank g idx r) idx (g_ranks g))
            (\<lambda>r. if r \<in> ?R then Some [] else None) gs = Inr idx" and
    full: "\<forall>w \<in> set ws. idx (w_rank w) \<noteq> Some []" and
    T: "T = \<lparr>tp_workers = ws, tp_groups = gs, tp_workers_by_rank = ?by,
             tp_groups_by_id = ?byg, tp_groups_by_worker_rank = idx\<rparr>"
    by (auto simp: mk_topology_def Let_def bind_res_eq_Inr split: if_splits)
  have maps: "?by = map_of (map (\<lambda>w. (w_rank w, w)) ws)" "?byg = map_of (map (\<lambda>g. (g_id g, g)) gs)"
    using c by (simp_all add: map_of_rev_distinct o_def)
  have dom: "?by r \<noteq> None \<longleftrightarrow> r \<in> ?R" for r
    unfolding maps by (auto simp: map_of_eq_None_iff image_image)
  from index_groups [OF loop _ dom, of "\<lambda>_. []"] have
    "\<forall>g \<in> set gs. set (g_ranks g) \<subseteq> ?R"
    "\<forall>r. idx r = (if r \<in> ?R then Some (rank_row gs r) else None)" by auto
  then show ?thesis using c full unfolding topology_inv_def T maps by simp
qed

theorem ensure_group_inv:
  assumes "topology_inv T" and "ensure_group T g = Inr (T', g')"
  shows "topology_inv T' \<and> g' = g \<and> get_group T' (g_id g) = Inr g
     \<and> (\<forall>gid. gid \<noteq> g_id g \<longrightarrow> get_group T' gid = get_group T gid)
     \<and> tp_workers T' = tp_workers T
     \<and> set (tp_groups T') = insert g (set (tp_groups T))"
proof (cases "tp_groups_by_id T (g_id g)")
  case (Some e)
  then have "T' = T" "g' = g" "e = g" using assms(2) by (auto simp: ensure_group_def split: if_splits)
  moreover have "g \<in> set (tp_groups T)"
    using Some \<open>e = g\<close> assms(1) by (auto simp: topology_inv_def dest!: map_of_SomeD)
  ultimately show ?thesis using Some assms(1) by (auto simp: get_group_def dict_get_def)
next
  case None
  let ?R = "set (map w_rank (tp_workers T))"
  note inv = assms(1) [unfolded topology_inv_def]
  from None assms(2) obtain idx where
    ok: "\<forall>r \<in> set (g_ranks g). tp_workers_by_rank T r \<noteq> None" and
    loop: "for_res (index_group_rank g) (tp_groups_by_worker_rank T) (g_ranks g) = Inr idx" and
    T': "T' = T\<lparr>tp_groups := tp_groups T @ [g],
                tp_groups_by_id := (tp_groups_by_id T)(g_id g \<mapsto> g),
                tp_groups_by_worker_rank := idx\<rparr>" and g': "g' = g"
    by (auto simp: ensure_group_def bind_res_eq_Inr split: if_splits)
  have sub: "set (g_ranks g) \<subseteq> ?R"
    using ok inv by (auto simp: map_of_eq_None_iff image_image)
  have idx: "\<forall>r. idx r = (if r \<in> ?R then Some (rank_row (tp_groups T @ [g]) r) else None)"
    using index_group_ranks [OF sub, of "tp_groups_by_worker_rank T" "rank_row (tp_groups T)" g]
      loop inv by auto
  have fresh: "g_id g \<notin> set (map g_id (tp_groups T))"
    using None inv by (auto simp: map_of_eq_None_iff image_image)
  have "map_of (map (\<lambda>g. (g_id g, g)) (tp_groups T @ [g]))
      = (map_of (map (\<lambda>g. (g_id g, g)) (tp_groups T)))(g_id g \<mapsto> g)"
    using fresh by (simp add: map_add_upd_left dom_map_of_conv_image_fst image_image)
  then have "topology_inv T'"
    using inv sub idx fresh unfolding topology_inv_def T' by auto
  then show ?thesis by (auto simp: T' g' get_group_def dict_get_def)
qed

lemma ensure_group_idempotent:
  "topology_inv T \<Longrightarrow> ensure_group T g = Inr (T', g') \<Longrightarrow> ensure_group T' g = Inr (T', g)"
  using ensure_group_inv [of T g T' g'] by (auto simp: ensure_group_def get_group_def)

lemma get_group_in:
  "topology_inv T \<Longrightarrow> get_group T gid = Inr g \<Longrightarrow> g \<in> set (tp_groups T) \<and> g_id g = gid"
  by (auto simp: get_group_def topology_inv_def dest!: map_of_SomeD)

lemma get_group_known:
  "topology_inv T \<Longrightarrow> g \<in> set (tp_groups T) \<Longrightarrow> get_group T (g_id g) = Inr g"
  by (auto simp: get_group_def topology_inv_def o_def intro!: map_of_is_SomeI)

lemma get_groups_for_worker_iff:
  "topology_inv T \<Longrightarrow> get_groups_for_worker T r = Inr gs \<Longrightarrow>
     set gs = {g \<in> set (tp_groups T). r \<in> set (g_ranks g)} \<and> gs \<noteq> []"
  by (auto simp: get_groups_for_worker_def topology_inv_def set_rank_row split: if_splits)

lemma first_supporting_Some:
  "first_supporting gs k = Some i \<Longrightarrow> \<exists>g \<in> set gs. g_id g = i \<and> k \<in> set (g_kinds g)"
  by (induction gs) (auto split: if_splits)

lemma select_group_for_task_known:
  "topology_inv T \<Longrightarrow> select_group_for_task T k = Some i \<Longrightarrow>
     \<exists>g. get_group T i = Inr g \<and> k \<in> set (g_kinds g)"
  using first_supporting_Some get_group_known unfolding select_group_for_task_def by blast

section \<open>Lookups in every topology the runtime builds\<close>

text \<open>Construction from well-formed groups, then any number of dynamic registrations.\<close>

inductive topology_reach :: "topology \<Rightarrow> bool" where
  built: "mk_topology ws gs = Inr T \<Longrightarrow> (\<forall>g \<in> set gs. group_wf g) \<Longrightarrow> topology_reach T"
| ensured: "topology_reach T \<Longrightarrow> group_wf g \<Longrightarrow> ensure_group T g = Inr (T', g') \<Longrightarrow> topology_reach T'"

lemma mk_topology_groups: "mk_topology ws gs = Inr T \<Longrightarrow> tp_groups T = gs"
  by (auto simp: mk_topology_def Let_def bind_res_eq_Inr split: if_splits)

lemma topology_reach_inv: "topology_reach T \<Longrightarrow> topology_inv T \<and> (\<forall>g \<in> set (tp_groups T). group_wf g)"
proof (induction rule: topology_reach.induct)
  case (built ws gs T)
  then show ?case using mk_topology_inv [OF built(1)] mk_topology_groups [OF built(1)] by simp
next
  case (ensured T g T' g')
  then show ?case using ensure_group_inv [of T g T' g'] by auto
qed

text \<open>
  C25: Every topology the runtime builds, by construction or by later registration of groups, is well
  formed, and its lookups cannot fail on what it holds: each group is found under its id and
  has a leader, each of its ranks names a worker whose groups include it, each worker has a
  group, and a task kind selects no group only if no group supports it.
\<close>

theorem topology_lookups_total:
  assumes "topology_reach T"
  shows "topology_inv T
    \<and> (\<forall>g. g \<in> set (tp_groups T) \<longrightarrow>
         get_group T (g_id g) = Inr g \<and> get_group_leader T (g_id g) = Inr (hd (g_ranks g))
         \<and> (\<forall>r \<in> set (g_ranks g). \<exists>w gs. get_worker T r = Inr w \<and> w_rank w = r
              \<and> get_groups_for_worker T r = Inr gs \<and> g \<in> set gs))
    \<and> (\<forall>w \<in> set (tp_workers T). \<exists>g. get_group_for_worker T (w_rank w) = Inr g \<and> w_rank w \<in> set (g_ranks g))
    \<and> (select_group_for_task T k = None \<longleftrightarrow> get_groups_for_task T k = [])"
proof (intro conjI allI impI ballI)
  note inv = conjunct1 [OF topology_reach_inv [OF assms]] and wf = conjunct2 [OF topology_reach_inv [OF assms]]
  note i = inv [unfolded topology_inv_def]
  show "topology_inv T" by (rule inv)
  fix g assume g: "g \<in> set (tp_groups T)"
  show gg: "get_group T (g_id g) = Inr g" by (rule get_group_known [OF inv g])
  have "g_ranks g \<noteq> []" using wf g by (simp add: group_wf_def)
  then show "get_group_leader T (g_id g) = Inr (hd (g_ranks g))"
    by (cases "g_ranks g") (simp_all add: get_group_leader_def gg)
  fix r assume r: "r \<in> set (g_ranks g)"
  then have "r \<in> set (map w_rank (tp_workers T))" using i g by blast
  then obtain w where w: "w \<in> set (tp_workers T)" "w_rank w = r" by auto
  have "tp_workers_by_rank T r = Some w"
    using i w by (auto simp: o_def intro!: map_of_is_SomeI)
  moreover have "tp_groups_by_worker_rank T r = Some (rank_row (tp_groups T) r)" using i w by auto
  ultimately show "\<exists>w gs. get_worker T r = Inr w \<and> w_rank w = r \<and> get_groups_for_worker T r = Inr gs \<and> g \<in> set gs"
    using w g r by (simp add: get_worker_def get_groups_for_worker_def set_rank_row)
next
  note inv = conjunct1 [OF topology_reach_inv [OF assms]]
  note i = inv [unfolded topology_inv_def]
  fix w assume w: "w \<in> set (tp_workers T)"
  then obtain g gs where row: "rank_row (tp_groups T) (w_rank w) = g # gs" using i by (meson list.exhaust)
  have "tp_groups_by_worker_rank T (w_rank w) = Some (g # gs)" using i w row by auto
  moreover have "g \<in> set (rank_row (tp_groups T) (w_rank w))" by (simp add: row)
  ultimately show "\<exists>g. get_group_for_worker T (w_rank w) = Inr g \<and> w_rank w \<in> set (g_ranks g)"
    by (simp add: get_group_for_worker_def dict_get_def set_rank_row)
next
  have "first_supporting gs k = None \<longleftrightarrow> filter (\<lambda>g. k \<in> set (g_kinds g)) gs = []" for gs
    by (induction gs) auto
  then show "select_group_for_task T k = None \<longleftrightarrow> get_groups_for_task T k = []"
    by (simp add: select_group_for_task_def get_groups_for_task_def)
qed

definition one_worker :: "group_spec \<Rightarrow> topology res" where
  "one_worker g = mk_topology [\<lparr>w_rank = 0, w_device_id = None, w_label = []\<rparr>] [g]"

definition one_group :: "string \<Rightarrow> group_spec" where
  "one_group gid = \<lparr>g_id = gid, g_ranks = [0],
     g_parallel = \<lparr>ps_tp = 1, ps_sp = 1, ps_cfg = 1, ps_cfg_parallel = False\<rparr>, g_kinds = [TEXT_ENCODE],
     g_ulysses = 1, g_ring = 1\<rparr>"

lemma one_worker_ok:
  "case one_worker (one_group ''a'') of
     Inl _ \<Rightarrow> False
   | Inr T \<Rightarrow> (case ensure_group T (one_group ''b'') of Inl _ \<Rightarrow> False
               | Inr (T', _) \<Rightarrow> tp_groups T' = [one_group ''a'', one_group ''b''])"
  by code_simp

theorem topology_lookups_total_witness:
  "\<exists>T. topology_reach T \<and> get_group T ''b'' = Inr (one_group ''b'') \<and> get_group_leader T ''b'' = Inr 0"
proof -
  obtain T T' g' where t: "one_worker (one_group ''a'') = Inr T" "ensure_group T (one_group ''b'') = Inr (T', g')"
    "tp_groups T' = [one_group ''a'', one_group ''b'']"
    using one_worker_ok by (auto split: sum.splits)
  have wf: "group_wf (one_group x)" for x by (simp add: group_wf_def one_group_def)
  have r: "topology_reach T'"
    by (rule topology_reach.ensured [OF topology_reach.built [OF t(1) [unfolded one_worker_def]] wf t(2)]) (simp add: wf)
  have "one_group ''b'' \<in> set (tp_groups T')" by (simp add: t(3))
  with topology_lookups_total [OF r] have "get_group T' (g_id (one_group ''b'')) = Inr (one_group ''b'')"
    "get_group_leader T' (g_id (one_group ''b'')) = Inr (hd (g_ranks (one_group ''b'')))" by blast+
  then show ?thesis using r by (auto simp: one_group_def)
qed

end
