(* ===== verification/MigrationEngine.thy ===== *)
theory MigrationEngine
  imports Protocol
begin

text \<open>
  The migration handshake engine (\<open>runtime_v2/migration_engine.py\<close>): an event-driven state
  machine that drives every artifact migration through four phases and serialises
  migrations that share a worker rank with one FIFO queue per rank.

  The engine is pure in the source: it talks to its owner through injected functions. The
  commands it sends and the callbacks it invokes are appended to the trace \<open>en_trace\<close>; a
  callback of the owner may begin further migrations while the engine is inside \<open>pump\<close>, and
  it may raise, so it is a parameter \<open>cb\<close> that maps the owner's state and the outcome to a new
  owner state and the list of the \<open>begin\<close> calls it makes.
\<close>

section \<open>State\<close>

datatype phase = DESCRIBE_LAYOUT | BUILD_SCHEDULE | ACCEPT_SCHEDULE | EXECUTE_TRANSFER

fun next_phase :: "phase \<Rightarrow> phase option" where
  "next_phase DESCRIBE_LAYOUT = Some BUILD_SCHEDULE"
| "next_phase BUILD_SCHEDULE = Some ACCEPT_SCHEDULE"
| "next_phase ACCEPT_SCHEDULE = Some EXECUTE_TRANSFER"
| "next_phase EXECUTE_TRANSFER = None"

text \<open>A worker's reply to a phase command (\<open>MigratePhaseResult\<close>).\<close>

record mig_result =
  r_mid :: string
  r_phase :: phase
  r_rank :: int
  r_error :: "string option"
  r_schedule :: "artifact_migration_schedule option"
  r_metadata_payloads :: "pyval list"
  r_src_layouts :: "output_artifact_layout list"
  r_dst_layouts :: "output_artifact_layout list"

record mig_job =
  j_id :: string
  j_seq :: nat
  j_plan :: migrate_plan
  j_src_group :: group_spec
  j_dst_group :: group_spec
  j_ranks :: "int list"
  j_leader :: int
  j_deadline :: rat
  j_phase :: phase
  j_awaiting :: bool
  j_pending :: "int set"
  j_layouts :: "mig_result list"
  j_schedule :: "artifact_migration_schedule option"
  j_metadata :: "pyval list"
  j_finished :: bool
  j_warned :: bool

text \<open>What the engine does to the outside: a command sent to ranks, or a callback.\<close>

datatype mig_out =
    Sent mig_job phase "int list"
  | Done mig_job "artifact_migration_schedule option"
  | Errored mig_job py_error

record engine =
  en_jobs :: "(string \<times> mig_job) list"
  en_queues :: "int \<Rightarrow> string list option"
  en_seq :: nat
  en_trace :: "mig_out list"

definition engine_init :: engine where
  "engine_init = \<lparr>en_jobs = [], en_queues = (\<lambda>_. None), en_seq = 0, en_trace = []\<rparr>"

text \<open>
  The keyword arguments of \<open>begin\<close>; \<open>br_uuid\<close> is the value that \<open>str(uuid.uuid4())\<close> would
  return, used when no id (or the empty one) is given.
\<close>

record begin_req =
  br_plan :: migrate_plan
  br_src_group :: group_spec
  br_dst_group :: group_spec
  br_ranks :: "int list"
  br_leader :: int
  br_deadline :: rat
  br_mid :: "string option"
  br_uuid :: string

section \<open>Operations\<close>

definition resolve_mid :: "begin_req \<Rightarrow> string" where
  "resolve_mid b = (case br_mid b of Some m \<Rightarrow> if m = [] then br_uuid b else m | None \<Rightarrow> br_uuid b)"

definition queue_push :: "(int \<Rightarrow> string list option) \<Rightarrow> int \<Rightarrow> string \<Rightarrow> int \<Rightarrow> string list option" where
  "queue_push q r m = q(r := Some ((case q r of None \<Rightarrow> [] | Some l \<Rightarrow> l) @ [m]))"

definition new_job :: "begin_req \<Rightarrow> nat \<Rightarrow> mig_job" where
  "new_job b n =
     \<lparr>j_id = resolve_mid b, j_seq = n, j_plan = br_plan b, j_src_group = br_src_group b,
      j_dst_group = br_dst_group b, j_ranks = br_ranks b, j_leader = br_leader b,
      j_deadline = br_deadline b, j_phase = DESCRIBE_LAYOUT, j_awaiting = False, j_pending = {},
      j_layouts = [], j_schedule = None, j_metadata = [], j_finished = False, j_warned = False\<rparr>"

definition begin_migration :: "engine \<Rightarrow> begin_req \<Rightarrow> (engine \<times> string) res" where
  "begin_migration e b =
     (if br_leader b \<notin> set (br_ranks b) then Inl AssertionError
      else if map_of (en_jobs e) (resolve_mid b) \<noteq> None then Inl AssertionError
      else
        let mid = resolve_mid b; n = en_seq e + 1
        in Inr (e\<lparr>en_seq := n,
                  en_jobs := dict_set (en_jobs e) mid (new_job b n),
                  en_queues := fold (\<lambda>r q. queue_push q r mid) (br_ranks b) (en_queues e)\<rparr>, mid))"

definition has_pending :: "engine \<Rightarrow> bool" where
  "has_pending e \<longleftrightarrow> en_jobs e \<noteq> []"

text \<open>\<open>queue.remove(job.migrate_id)\<close> when the queue is there and holds the id.\<close>

definition queue_remove :: "(int \<Rightarrow> string list option) \<Rightarrow> int \<Rightarrow> string \<Rightarrow> int \<Rightarrow> string list option" where
  "queue_remove q r m =
     (case q r of None \<Rightarrow> q | Some l \<Rightarrow> if m \<in> set l then q(r := Some (remove1 m l)) else q)"

definition retire :: "engine \<Rightarrow> mig_job \<Rightarrow> engine" where
  "retire e j =
     e\<lparr>en_jobs := filter (\<lambda>(k, _). k \<noteq> j_id j) (en_jobs e),
       en_queues := fold (\<lambda>r q. queue_remove q r (j_id j)) (j_ranks j) (en_queues e)\<rparr>"

type_synonym 'o callback = "'o \<Rightarrow> mig_out \<Rightarrow> ('o \<times> begin_req list) res"

text \<open>Invoking a callback: it is traced, and the migrations it begins are registered.\<close>

definition invoke :: "'o callback \<Rightarrow> mig_out \<Rightarrow> engine \<times> 'o \<Rightarrow> (engine \<times> 'o) res" where
  "invoke cb out s =
     (case s of (e, ow) \<Rightarrow>
        bind_res (cb ow out) (\<lambda>(ow', reqs).
        bind_res (for_res (\<lambda>e b. bind_res (begin_migration e b) (\<lambda>(e', _). Inr e'))
                    (e\<lparr>en_trace := en_trace e @ [out]\<rparr>) reqs)
          (\<lambda>e'. Inr (e', ow'))))"

definition complete_job :: "'o callback \<Rightarrow> mig_job \<Rightarrow> engine \<times> 'o \<Rightarrow> (engine \<times> 'o) res" where
  "complete_job cb j s =
     (case s of (e, ow) \<Rightarrow>
        invoke cb (Done (j\<lparr>j_finished := True\<rparr>) (j_schedule j)) (retire e j, ow))"

definition fail_job :: "'o callback \<Rightarrow> mig_job \<Rightarrow> py_error \<Rightarrow> engine \<times> 'o \<Rightarrow> (engine \<times> 'o) res" where
  "fail_job cb j err s =
     (case s of (e, ow) \<Rightarrow> invoke cb (Errored (j\<lparr>j_finished := True\<rparr>) err) (retire e j, ow))"

definition put_job :: "engine \<Rightarrow> mig_job \<Rightarrow> engine" where
  "put_job e j = e\<lparr>en_jobs := dict_set (en_jobs e) (j_id j) j\<rparr>"

text \<open>A reply for the current phase: the rank has answered, and its answer is kept.\<close>

definition absorb_reply :: "mig_job \<Rightarrow> mig_result \<Rightarrow> mig_job" where
  "absorb_reply j r =
     (let j1 = j\<lparr>j_pending := j_pending j - {r_rank r}\<rparr>
      in if j_phase j = DESCRIBE_LAYOUT then j1\<lparr>j_layouts := j_layouts j @ [r]\<rparr>
         else if j_phase j = BUILD_SCHEDULE
           then j1\<lparr>j_schedule := r_schedule r, j_metadata := r_metadata_payloads r\<rparr>
         else j1)"

definition ingest_one :: "'o callback \<Rightarrow> engine \<times> 'o \<Rightarrow> mig_result \<Rightarrow> (engine \<times> 'o) res" where
  "ingest_one cb s r =
     (case s of (e, ow) \<Rightarrow>
        (case map_of (en_jobs e) (r_mid r) of
           None \<Rightarrow> Inr s
         | Some j \<Rightarrow>
             if j_finished j then Inr s
             else if r_error r \<noteq> None \<and> r_error r \<noteq> Some [] then fail_job cb j RuntimeError s
             else if r_phase r \<noteq> j_phase j then fail_job cb j RuntimeError s
             else Inr (put_job e (absorb_reply j r), ow)))"

definition ingest_results :: "'o callback \<Rightarrow> engine \<times> 'o \<Rightarrow> mig_result list \<Rightarrow> (engine \<times> 'o) res" where
  "ingest_results cb s rs = for_res (ingest_one cb) s rs"

definition is_oldest_on_all_ranks :: "engine \<Rightarrow> mig_job \<Rightarrow> bool" where
  "is_oldest_on_all_ranks e j \<longleftrightarrow>
     (\<forall>r \<in> set (j_ranks j). case en_queues e r of
         None \<Rightarrow> False | Some l \<Rightarrow> l \<noteq> [] \<and> hd l = j_id j)"

definition targets :: "mig_job \<Rightarrow> int list" where
  "targets j = (if j_phase j = BUILD_SCHEDULE then [j_leader j] else j_ranks j)"

text \<open>Sending the command of the job's current phase to its targets.\<close>

definition send_phase :: "mig_job \<Rightarrow> engine \<Rightarrow> engine" where
  "send_phase j e =
     (let j' = j\<lparr>j_pending := set (targets j), j_awaiting := True\<rparr>
      in (put_job e j')\<lparr>en_trace := en_trace e @ [Sent j (j_phase j) (targets j)]\<rparr>)"

definition advance :: "'o callback \<Rightarrow> mig_job \<Rightarrow> engine \<times> 'o \<Rightarrow> (engine \<times> 'o) res" where
  "advance cb j s =
     (case s of (e, ow) \<Rightarrow>
        if \<not> is_oldest_on_all_ranks e j then Inr s
        else if j_awaiting j then
          if j_pending j \<noteq> {} then Inr s
          else (case next_phase (j_phase j) of
                  None \<Rightarrow> complete_job cb j s
                | Some p \<Rightarrow> Inr (send_phase (j\<lparr>j_phase := p, j_awaiting := False\<rparr>) e, ow))
        else Inr (send_phase j e, ow))"

definition in_flight_transfer :: "mig_job \<Rightarrow> bool" where
  "in_flight_transfer j \<longleftrightarrow> j_phase j = EXECUTE_TRANSFER \<and> j_awaiting j"

text \<open>
  One iteration of the loop of \<open>pump\<close>. The loop runs over a snapshot of the jobs; a job
  that was retired meanwhile is finished and skipped.
\<close>

definition pump_one :: "'o callback \<Rightarrow> rat \<Rightarrow> engine \<times> 'o \<Rightarrow> string \<Rightarrow> (engine \<times> 'o) res" where
  "pump_one cb now s mid =
     (case s of (e, ow) \<Rightarrow>
        (case map_of (en_jobs e) mid of
           None \<Rightarrow> Inr s
         | Some j \<Rightarrow>
             if j_finished j then Inr s
             else if now > j_deadline j then
               if \<not> in_flight_transfer j then fail_job cb j TimeoutError s
               else let j' = j\<lparr>j_warned := True\<rparr> in advance cb j' (put_job e j', ow)
             else advance cb j s))"

definition pump :: "'o callback \<Rightarrow> mig_result list \<Rightarrow> rat \<Rightarrow> engine \<times> 'o \<Rightarrow> (engine \<times> 'o) res" where
  "pump cb results now s =
     bind_res (ingest_results cb s results)
       (\<lambda>s'. for_res (pump_one cb now) s' (map fst (sort_key (\<lambda>(k, j). j_seq j) (en_jobs (fst s')))))"

section \<open>Invariant\<close>

text \<open>The phases are ordered by the handshake.\<close>

fun phase_no :: "phase \<Rightarrow> nat" where
  "phase_no DESCRIBE_LAYOUT = 0"
| "phase_no BUILD_SCHEDULE = 1"
| "phase_no ACCEPT_SCHEDULE = 2"
| "phase_no EXECUTE_TRANSFER = 3"

lemma phase_no_inj: "phase_no p = phase_no q \<longleftrightarrow> p = q"
  by (cases p; cases q) auto

instantiation phase :: linorder
begin

definition less_eq_phase :: "phase \<Rightarrow> phase \<Rightarrow> bool" where
  "less_eq_phase p q \<longleftrightarrow> phase_no p \<le> phase_no q"

definition less_phase :: "phase \<Rightarrow> phase \<Rightarrow> bool" where
  "less_phase p q \<longleftrightarrow> phase_no p < phase_no q"

instance
  by standard (auto simp: less_eq_phase_def less_phase_def phase_no_inj)

end

lemma next_phase_less: "next_phase p = Some q \<Longrightarrow> p < q"
  by (cases p) (auto simp: less_phase_def)

abbreviation jobs_of :: "engine \<Rightarrow> mig_job set" where
  "jobs_of e \<equiv> snd ` set (en_jobs e)"

definition started :: "mig_job \<Rightarrow> bool" where
  "started j \<longleftrightarrow> j_awaiting j \<or> j_phase j \<noteq> DESCRIBE_LAYOUT"

definition oq :: "(int \<Rightarrow> string list option) \<Rightarrow> int \<Rightarrow> string list" where
  "oq q r = (case q r of None \<Rightarrow> [] | Some l \<Rightarrow> l)"

text \<open>The queue a rank should have: the ids of its unfinished jobs in order of registration.\<close>

definition live_queue :: "(string \<times> mig_job) list \<Rightarrow> int \<Rightarrow> string list" where
  "live_queue js r = concat (map (\<lambda>(m, j). replicate (count_list (j_ranks j) r) m) js)"

definition job_ok :: "nat \<Rightarrow> string \<times> mig_job \<Rightarrow> bool" where
  "job_ok n = (\<lambda>(m, j). j_id j = m \<and> \<not> j_finished j \<and> 1 \<le> j_seq j \<and> j_seq j \<le> n
     \<and> j_leader j \<in> set (j_ranks j) \<and> j_pending j \<subseteq> set (targets j))"

definition jobs_inv :: "engine \<Rightarrow> bool" where
  "jobs_inv e \<longleftrightarrow>
     distinct (map fst (en_jobs e)) \<and> (\<forall>x \<in> set (en_jobs e). job_ok (en_seq e) x)
     \<and> sorted_wrt (<) (map (j_seq \<circ> snd) (en_jobs e))
     \<and> (\<forall>r. oq (en_queues e) r = live_queue (en_jobs e) r)
     \<and> (\<forall>j \<in> jobs_of e. started j \<longrightarrow> is_oldest_on_all_ranks e j)"

text \<open>Callbacks in the trace, by job number, and the commands a rank was sent, in order.\<close>

fun outcome_seqs :: "mig_out list \<Rightarrow> nat list" where
  "outcome_seqs [] = []"
| "outcome_seqs (Sent j p ts # tr) = outcome_seqs tr"
| "outcome_seqs (Done j sch # tr) = j_seq j # outcome_seqs tr"
| "outcome_seqs (Errored j err # tr) = j_seq j # outcome_seqs tr"

fun sent_at :: "int \<Rightarrow> mig_out list \<Rightarrow> (nat \<times> phase) list" where
  "sent_at r [] = []"
| "sent_at r (Sent j p ts # tr) = (if r \<in> set ts then [(j_seq j, p)] else []) @ sent_at r tr"
| "sent_at r (Done j sch # tr) = sent_at r tr"
| "sent_at r (Errored j err # tr) = sent_at r tr"

definition outcomes_inv :: "engine \<Rightarrow> bool" where
  "outcomes_inv e \<longleftrightarrow>
     distinct (outcome_seqs (en_trace e))
     \<and> set (outcome_seqs (en_trace e)) \<inter> j_seq ` jobs_of e = {}
     \<and> set (outcome_seqs (en_trace e)) \<union> j_seq ` jobs_of e = {1..en_seq e}"

definition sends_inv :: "engine \<Rightarrow> bool" where
  "sends_inv e \<longleftrightarrow>
     (\<forall>r. sorted_wrt (<) (sent_at r (en_trace e))
       \<and> (\<forall>x \<in> set (sent_at r (en_trace e)). fst x \<le> en_seq e
            \<and> (\<forall>j \<in> jobs_of e. r \<in> set (j_ranks j) \<longrightarrow>
                  x < (j_seq j, j_phase j) \<or> x = (j_seq j, j_phase j) \<and> j_awaiting j)))"

definition engine_inv :: "engine \<Rightarrow> bool" where
  "engine_inv e \<longleftrightarrow> jobs_inv e \<and> outcomes_inv e \<and> sends_inv e"

section \<open>Lemmas\<close>

subsection \<open>Queues\<close>

lemma oq_queue_push: "oq (queue_push q r m) x = (if x = r then oq q r @ [m] else oq q x)"
  by (simp add: oq_def queue_push_def)

lemma oq_fold_push:
  "oq (fold (\<lambda>r q. queue_push q r m) rs q) x = oq q x @ replicate (count_list rs x) m"
  by (induction rs arbitrary: q) (auto simp: oq_queue_push replicate_app_Cons_same)

lemma oq_queue_remove: "oq (queue_remove q r m) x = (if x = r then remove1 m (oq q r) else oq q x)"
  by (auto simp: oq_def queue_remove_def remove1_idem split: option.splits)

lemma oq_fold_remove:
  "oq (fold (\<lambda>r q. queue_remove q r m) rs q) x = (remove1 m ^^ count_list rs x) (oq q x)"
  by (induction rs arbitrary: q) (auto simp: oq_queue_remove funpow_swap1)

lemma remove1_funpow_count: "(remove1 m ^^ count_list l m) l = filter (\<lambda>x. x \<noteq> m) l"
proof (induction l)
  case (Cons a l)
  have "(remove1 m ^^ n) (a # l) = a # (remove1 m ^^ n) l" if "a \<noteq> m" for n
    by (induction n) (use that in auto)
  with Cons show ?case by (auto simp: funpow_swap1)
qed simp

lemma live_queue_simps [simp]:
  "live_queue [] r = []"
  "live_queue ((m, j) # js) r = replicate (count_list (j_ranks j) r) m @ live_queue js r"
  "live_queue (js @ js') r = live_queue js r @ live_queue js' r"
  by (simp_all add: live_queue_def)

lemma set_live_queue: "m \<in> set (live_queue js r) \<longleftrightarrow> (\<exists>j. (m, j) \<in> set js \<and> r \<in> set (j_ranks j))"
  by (induction js) (auto simp: count_list_0_iff)

lemma live_queue_filter:
  "live_queue (filter (\<lambda>(k, _). k \<noteq> m) js) r = filter (\<lambda>x. x \<noteq> m) (live_queue js r)"
  by (induction js) (auto simp: filter_empty_conv)

lemma count_live_queue:
  "distinct (map fst js) \<Longrightarrow> (m, j) \<in> set js \<Longrightarrow>
     count_list (live_queue js r) m = count_list (j_ranks j) r"
proof (induction js)
  case (Cons x js)
  obtain k i where x: "x = (k, i)" by (cases x)
  have rep: "count_list (replicate n a) b = (if a = b then n else 0)" for n and a b :: string
    by (induction n) auto
  show ?case
  proof (cases "k = m")
    case True
    then have "m \<notin> fst ` set js" "i = j" using Cons.prems x by force+
    then have "m \<notin> set (live_queue js r)" by (force simp: set_live_queue)
    then show ?thesis using True \<open>i = j\<close> by (simp add: x rep count_list_0_iff)
  next
    case False
    then show ?thesis using Cons by (auto simp: x rep)
  qed
qed simp

subsection \<open>Replacing a job\<close>

lemma dict_set_replace:
  "distinct (map fst js) \<Longrightarrow> (m, j) \<in> set js \<Longrightarrow>
     dict_set js m j' = map (\<lambda>(k, v). if k = m then (m, j') else (k, v)) js"
proof (induction js)
  case (Cons x js)
  obtain k i where x: "x = (k, i)" by (cases x)
  show ?case
  proof (cases "k = m")
    case True
    then have "m \<notin> fst ` set js" using Cons.prems x by auto
    then have "map (\<lambda>(k, v). if k = m then (m, j') else (k, v)) js = js"
      by (force intro: map_idI)
    then show ?thesis using True by (simp add: x)
  next
    case False
    then show ?thesis using Cons by (auto simp: x)
  qed
qed simp

lemma dict_set_fresh: "m \<notin> fst ` set js \<Longrightarrow> dict_set js m j = js @ [(m, j)]"
  by (induction js m j rule: dict_set.induct) auto

lemma job_okD:
  assumes "jobs_inv e" "(m, j) \<in> set (en_jobs e)"
  shows "j_id j = m" "\<not> j_finished j" "1 \<le> j_seq j" "j_seq j \<le> en_seq e"
    "j_leader j \<in> set (j_ranks j)" "j_pending j \<subseteq> set (targets j)"
proof -
  have "job_ok (en_seq e) (m, j)" using assms by (simp add: jobs_inv_def)
  then show "j_id j = m" "\<not> j_finished j" "1 \<le> j_seq j" "j_seq j \<le> en_seq e"
    "j_leader j \<in> set (j_ranks j)" "j_pending j \<subseteq> set (targets j)"
    by (simp_all add: job_ok_def)
qed

lemma jobs_of_pair:
  assumes "jobs_inv e"
  shows "j \<in> jobs_of e \<longleftrightarrow> (j_id j, j) \<in> set (en_jobs e)"
proof
  assume "j \<in> jobs_of e"
  then obtain m where m: "(m, j) \<in> set (en_jobs e)" by auto
  with job_okD(1) [OF assms m] show "(j_id j, j) \<in> set (en_jobs e)" by simp
qed (rule image_eqI [of _ _ "(j_id j, j)"], simp_all)

lemma map_of_jobs: "jobs_inv e \<Longrightarrow> map_of (en_jobs e) m = Some j \<longleftrightarrow> (m, j) \<in> set (en_jobs e)"
  by (simp add: jobs_inv_def)

lemma jobs_unique:
  assumes "jobs_inv e" "j \<in> jobs_of e" "i \<in> jobs_of e" "j_id i = j_id j"
  shows "i = j"
proof -
  have "(j_id j, j) \<in> set (en_jobs e)" "(j_id j, i) \<in> set (en_jobs e)"
    using assms jobs_of_pair [OF assms(1)] by metis+
  then show ?thesis using assms(1) map_of_jobs [OF assms(1)] by (metis option.inject)
qed

text \<open>The front of a rank's queue, read through the invariant.\<close>

lemma oldest_iff:
  assumes "jobs_inv e"
  shows "is_oldest_on_all_ranks e j \<longleftrightarrow>
     (\<forall>r \<in> set (j_ranks j). \<exists>q. live_queue (en_jobs e) r = j_id j # q)"
proof -
  have "(case en_queues e r of None \<Rightarrow> False | Some l \<Rightarrow> l \<noteq> [] \<and> hd l = j_id j)
      \<longleftrightarrow> (\<exists>q. oq (en_queues e) r = j_id j # q)" for r
    by (auto simp: oq_def neq_Nil_conv split: option.splits)
  then show ?thesis
    using assms by (simp add: is_oldest_on_all_ranks_def jobs_inv_def)
qed

lemma started_front:
  assumes "jobs_inv e" "j \<in> jobs_of e" "started j" "r \<in> set (j_ranks j)"
  shows "\<exists>q. oq (en_queues e) r = j_id j # q"
proof -
  have "is_oldest_on_all_ranks e j" using assms(1-3) unfolding jobs_inv_def by blast
  then show ?thesis
    using assms(4) by (fastforce simp: is_oldest_on_all_ranks_def oq_def neq_Nil_conv split: option.splits)
qed

lemma live_queue_front_least:
  assumes "sorted_wrt (<) (map (j_seq \<circ> snd) js)" "distinct (map fst js)"
    and "(m, j) \<in> set js" "(k, i) \<in> set js" "r \<in> set (j_ranks i)"
    and "live_queue js r = m # q" and "k \<noteq> m"
  shows "j_seq j < j_seq i"
  using assms
proof (induction js arbitrary: q)
  case (Cons x js)
  obtain l u where x: "x = (l, u)" by (cases x)
  show ?case
  proof (cases "r \<in> set (j_ranks u)")
    case True
    then obtain n where "count_list (j_ranks u) r = Suc n"
      by (metis count_list_0_iff not0_implies_Suc)
    then have "l = m" using Cons.prems(6) x by simp
    moreover have "m \<notin> fst ` set js" using Cons.prems(2) x \<open>l = m\<close> by auto
    ultimately have "u = j" "(k, i) \<in> set js" using Cons.prems(3,4,7) x by force+
    then show ?thesis using Cons.prems(1) x by auto
  next
    case False
    then have q: "live_queue js r = m # q" using Cons.prems(6) x by (simp add: count_list_0_iff)
    have "m \<in> fst ` set js" using q set_live_queue [of m js r] by force
    then have "(m, j) \<in> set js" "(k, i) \<in> set js" using Cons.prems(2,3,4,5) x False by auto
    then show ?thesis using Cons.IH [OF _ _ _ _ Cons.prems(5) q Cons.prems(7)] Cons.prems(1,2) by simp
  qed
qed simp

subsection \<open>Preservation by the primitive actions\<close>

lemma outcome_seqs_append [simp]: "outcome_seqs (xs @ ys) = outcome_seqs xs @ outcome_seqs ys"
  by (induction xs rule: outcome_seqs.induct) auto

lemma sent_at_append [simp]: "sent_at r (xs @ ys) = sent_at r xs @ sent_at r ys"
  by (induction r xs rule: sent_at.induct) auto

lemma engine_invD:
  assumes "engine_inv e"
  shows "jobs_inv e" "outcomes_inv e" "sends_inv e"
  using assms by (simp_all add: engine_inv_def)

lemma sends_invD:
  assumes "sends_inv e" "x \<in> set (sent_at r (en_trace e))" "j \<in> jobs_of e" "r \<in> set (j_ranks j)"
  shows "x < (j_seq j, j_phase j) \<or> x = (j_seq j, j_phase j) \<and> j_awaiting j"
  using assms unfolding sends_inv_def by blast

lemma begin_migration_eq:
  assumes "jobs_inv e" "begin_migration e b = Inr (e', m)"
  shows "m = resolve_mid b" "m \<notin> fst ` set (en_jobs e)" "br_leader b \<in> set (br_ranks b)"
    "en_jobs e' = en_jobs e @ [(m, new_job b (en_seq e + 1))]"
    "en_seq e' = en_seq e + 1" "en_trace e' = en_trace e"
    "oq (en_queues e') r = oq (en_queues e) r @ replicate (count_list (br_ranks b) r) m"
  using assms(2)
  by (auto simp: begin_migration_def Let_def map_of_eq_None_iff dict_set_fresh oq_fold_push
      split: if_splits)

lemma job_ok_mono: "job_ok n x \<Longrightarrow> n \<le> n' \<Longrightarrow> job_ok n' x"
  by (cases x) (simp add: job_ok_def)

lemma jobs_inv_begin:
  assumes inv: "jobs_inv e" and b: "begin_migration e b = Inr (e', m)"
  shows "jobs_inv e'"
proof -
  note eq = begin_migration_eq [OF inv b]
  let ?j = "new_job b (en_seq e + 1)"
  have new: "job_ok (en_seq e') (m, ?j)" "\<not> started ?j" "j_ranks ?j = br_ranks b" "j_seq ?j = en_seq e + 1"
    using eq(1,3,5) by (simp_all add: job_ok_def new_job_def started_def)
  have ok: "job_ok (en_seq e') x" if "x \<in> set (en_jobs e)" for x
    by (rule job_ok_mono [of "en_seq e"]) (use that inv eq(5) in \<open>simp_all add: jobs_inv_def\<close>)
  have seq: "j_seq i \<le> en_seq e" if "(k, i) \<in> set (en_jobs e)" for k i
    by (rule job_okD(4) [OF inv that])
  have 1: "distinct (map fst (en_jobs e'))" "\<forall>x \<in> set (en_jobs e'). job_ok (en_seq e') x"
      "\<forall>r. oq (en_queues e') r = live_queue (en_jobs e') r"
    using inv eq(2) ok new unfolding eq(4,7) by (auto simp: jobs_inv_def)
  have 2: "sorted_wrt (<) (map (j_seq \<circ> snd) (en_jobs e'))"
  proof -
    have "\<forall>x \<in> set (en_jobs e). (j_seq \<circ> snd) x < en_seq e + 1"
      using seq by (auto simp: less_Suc_eq_le)
    then show ?thesis using inv unfolding eq(4) by (simp add: jobs_inv_def sorted_wrt_append new_job_def)
  qed
  have 3: "is_oldest_on_all_ranks e' j" if "j \<in> jobs_of e'" "started j" for j
  proof -
    have "j \<in> jobs_of e" using that new(2) unfolding eq(4) by auto
    then have "\<forall>r \<in> set (j_ranks j). \<exists>q. oq (en_queues e) r = j_id j # q"
      using started_front [OF inv _ that(2)] by blast
    then have "\<forall>r \<in> set (j_ranks j). \<exists>q. oq (en_queues e') r = j_id j # q"
      using eq(7) by auto
    then show ?thesis
      by (fastforce simp: is_oldest_on_all_ranks_def oq_def split: option.splits)
  qed
  show ?thesis using 1 2 3 unfolding jobs_inv_def by blast
qed

lemma engine_inv_begin:
  assumes "engine_inv e" and b: "begin_migration e b = Inr (e', m)"
  shows "engine_inv e'"
proof -
  note inv = engine_invD [OF assms(1)]
  note eq = begin_migration_eq [OF inv(1) b]
  have new: "j_seq (new_job b n) = n" "j_phase (new_job b n) = DESCRIBE_LAYOUT" for n
    by (simp_all add: new_job_def)
  have "set (outcome_seqs (en_trace e)) \<subseteq> {1..en_seq e}"
    using inv(2) by (auto simp: outcomes_inv_def)
  then have "en_seq e + 1 \<notin> set (outcome_seqs (en_trace e))" by auto
  then have "outcomes_inv e'"
    using inv(2) unfolding outcomes_inv_def eq(4,5,6) by (simp add: new atLeastAtMostSuc_conv)
  moreover have "sends_inv e'"
    unfolding sends_inv_def eq(4,5,6)
  proof (intro allI conjI ballI impI)
    fix r x j
    assume x: "x \<in> set (sent_at r (en_trace e))"
      and j: "j \<in> snd ` set (en_jobs e @ [(m, new_job b (en_seq e + 1))])" "r \<in> set (j_ranks j)"
    show "x < (j_seq j, j_phase j) \<or> x = (j_seq j, j_phase j) \<and> j_awaiting j"
    proof (cases "j \<in> jobs_of e")
      case True
      then show ?thesis by (rule sends_invD [OF inv(3) x _ j(2)])
    next
      case False
      then have "j = new_job b (en_seq e + 1)" using j(1) by auto
      moreover have "fst x \<le> en_seq e" using inv(3) x by (auto simp: sends_inv_def)
      ultimately show ?thesis by (cases x) (simp add: new less_prod_def)
    qed
  qed (use inv(3) in \<open>fastforce simp: sends_inv_def intro: le_SucI\<close>)+
  ultimately show ?thesis using jobs_inv_begin [OF inv(1) b] by (simp add: engine_inv_def)
qed

text \<open>Retiring a job together with the trace entry of its callback.\<close>

lemma retire_eq:
  assumes "jobs_inv e" "(m, j) \<in> set (en_jobs e)"
  shows "en_jobs (retire e j) = filter (\<lambda>(k, _). k \<noteq> m) (en_jobs e)"
    "oq (en_queues (retire e j)) r = live_queue (en_jobs (retire e j)) r"
proof -
  have id: "j_id j = m" by (rule job_okD(1) [OF assms])
  then show jobs: "en_jobs (retire e j) = filter (\<lambda>(k, _). k \<noteq> m) (en_jobs e)"
    by (simp add: retire_def)
  have "oq (en_queues (retire e j)) r
      = (remove1 m ^^ count_list (live_queue (en_jobs e) r) m) (live_queue (en_jobs e) r)"
    using assms id count_live_queue [OF _ assms(2)]
    by (simp add: retire_def oq_fold_remove jobs_inv_def)
  then show "oq (en_queues (retire e j)) r = live_queue (en_jobs (retire e j)) r"
    by (simp add: remove1_funpow_count jobs live_queue_filter)
qed

lemma jobs_inv_retire:
  assumes inv: "jobs_inv e" and j: "(m, j) \<in> set (en_jobs e)"
  shows "jobs_inv (retire e j)"
proof -
  let ?e = "retire e j"
  have jobs: "en_jobs ?e = filter (\<lambda>(k, _). k \<noteq> m) (en_jobs e)" and
    q: "oq (en_queues ?e) r = filter (\<lambda>x. x \<noteq> m) (oq (en_queues e) r)" for r
    using retire_eq [OF inv j] inv by (simp_all add: live_queue_filter jobs_inv_def)
  have 1: "distinct (map fst (en_jobs ?e))" "\<forall>x \<in> set (en_jobs ?e). job_ok (en_seq ?e) x"
    "sorted_wrt (<) (map (j_seq \<circ> snd) (en_jobs ?e))"
    using inv unfolding jobs
    by (auto simp: jobs_inv_def retire_def distinct_map_filter sorted_wrt_map
        intro: sorted_wrt_filter)
  have 2: "is_oldest_on_all_ranks ?e i" if i: "i \<in> jobs_of ?e" "started i" for i
  proof -
    have "(j_id i, i) \<in> set (en_jobs e)" "j_id i \<noteq> m"
      using i(1) job_okD(1) [OF inv] unfolding jobs by auto
    moreover from this have "\<forall>r \<in> set (j_ranks i). \<exists>q. oq (en_queues e) r = j_id i # q"
      using started_front [OF inv _ i(2)] jobs_of_pair [OF inv] by blast
    ultimately have "\<forall>r \<in> set (j_ranks i). \<exists>q. oq (en_queues ?e) r = j_id i # q"
      using q by auto
    then show ?thesis
      by (fastforce simp: is_oldest_on_all_ranks_def oq_def split: option.splits)
  qed
  show ?thesis using 1 2 retire_eq(2) [OF inv j] unfolding jobs_inv_def by blast
qed

lemma engine_inv_close:
  assumes "engine_inv e" and j: "(m, j) \<in> set (en_jobs e)"
    and out: "outcome_seqs [out] = [j_seq j]" "\<And>r. sent_at r [out] = []"
  shows "engine_inv ((retire e j)\<lparr>en_trace := en_trace e @ [out]\<rparr>)"
proof -
  note inv = engine_invD [OF assms(1)]
  let ?e = "(retire e j)\<lparr>en_trace := en_trace e @ [out]\<rparr>"
  have jobs: "jobs_of ?e = jobs_of e - {j}"
  proof -
    have "k = m \<longleftrightarrow> i = j" if "(k, i) \<in> set (en_jobs e)" for k i
      using that j inv(1) job_okD(1) [OF inv(1)] map_of_jobs [OF inv(1)]
      by (metis option.inject)
    then show ?thesis using retire_eq(1) [OF inv(1) j] by (force simp: image_iff)
  qed
  have seq_inj: "j_seq i \<noteq> j_seq j" if i: "i \<in> jobs_of e" "i \<noteq> j" for i
  proof -
    have "distinct (map (j_seq \<circ> snd) (en_jobs e))"
      using inv(1) strict_sorted_iff by (auto simp: jobs_inv_def)
    then have "inj_on (j_seq \<circ> snd) (set (en_jobs e))" by (simp add: distinct_map)
    moreover obtain k where "(k, i) \<in> set (en_jobs e)" using i(1) by auto
    ultimately show ?thesis using inj_onD [of "j_seq \<circ> snd" _ "(k, i)" "(m, j)"] i(2) j by auto
  qed
  have jseq: "j_seq j \<in> j_seq ` jobs_of e" using j by force
  have jobs': "jobs_inv ?e"
    using jobs_inv_retire [OF inv(1) j]
    by (simp add: jobs_inv_def is_oldest_on_all_ranks_def)
  have seqs: "j_seq ` jobs_of ?e = j_seq ` jobs_of e - {j_seq j}"
    using seq_inj unfolding jobs by auto
  have "en_seq ?e = en_seq e" by (simp add: retire_def)
  then have "outcomes_inv ?e"
    using inv(2) jseq unfolding outcomes_inv_def seqs by (auto simp: out)
  moreover have "sends_inv ?e"
    using inv(3) \<open>en_seq ?e = en_seq e\<close> unfolding sends_inv_def jobs by (auto simp: out)
  ultimately show ?thesis using jobs' by (simp add: engine_inv_def)
qed

text \<open>Replacing a job by a later version of itself, with the commands that were sent meanwhile.\<close>

definition same_job :: "mig_job \<Rightarrow> mig_job \<Rightarrow> bool" where
  "same_job i j \<longleftrightarrow> j_id i = j_id j \<and> j_seq i = j_seq j \<and> j_ranks i = j_ranks j
     \<and> j_leader i = j_leader j \<and> j_finished i = j_finished j"

lemma same_oldest: "same_job i j \<Longrightarrow> is_oldest_on_all_ranks e i \<longleftrightarrow> is_oldest_on_all_ranks e j"
  unfolding is_oldest_on_all_ranks_def same_job_def by metis

lemma put_job_eq:
  assumes "jobs_inv e" "(m, j) \<in> set (en_jobs e)" "same_job i j"
  shows "en_jobs (put_job e i) = map (\<lambda>(k, v). if k = m then (m, i) else (k, v)) (en_jobs e)"
    "jobs_of (put_job e i) = insert i (jobs_of e - {j})"
proof -
  have id: "j_id i = m" using job_okD(1) [OF assms(1,2)] assms(3) by (simp add: same_job_def)
  show jobs: "en_jobs (put_job e i) = map (\<lambda>(k, v). if k = m then (m, i) else (k, v)) (en_jobs e)"
    using assms(1) dict_set_replace [OF _ assms(2)] by (simp add: put_job_def id jobs_inv_def)
  let ?f = "\<lambda>(k, v). if k = m then (m, i) else (k, v)"
  have "k = m \<longleftrightarrow> v = j" if "(k, v) \<in> set (en_jobs e)" for k v
    using that assms(2) job_okD(1) [OF assms(1)] map_of_jobs [OF assms(1)] by (metis option.inject)
  then have "snd (?f x) = (if snd x = j then i else snd x)" if "x \<in> set (en_jobs e)" for x
    using that by (cases x) auto
  then have "snd ` set (map ?f (en_jobs e)) = (\<lambda>v. if v = j then i else v) ` jobs_of e"
    by (auto simp: image_image cong: image_cong)
  moreover have "j \<in> jobs_of e" using assms(2) by (rule image_eqI [rotated]) simp
  ultimately show "jobs_of (put_job e i) = insert i (jobs_of e - {j})"
    unfolding jobs by (auto split: if_splits)
qed

lemma jobs_inv_put:
  assumes inv: "jobs_inv e" and j: "(m, j) \<in> set (en_jobs e)" and same: "same_job i j"
    and pend: "j_pending i \<subseteq> set (targets i)"
    and old: "started i \<Longrightarrow> is_oldest_on_all_ranks e j"
  shows "jobs_inv (put_job e i)"
proof -
  note eq = put_job_eq [OF inv j same]
  have keys: "map fst (en_jobs (put_job e i)) = map fst (en_jobs e)"
    unfolding eq(1) by (induction "en_jobs e") auto
  have val: "v = j" if "(m, v) \<in> set (en_jobs e)" for v
    using that j map_of_jobs [OF inv] by (metis option.inject)
  have seqs: "map (j_seq \<circ> snd) (en_jobs (put_job e i)) = map (j_seq \<circ> snd) (en_jobs e)"
    unfolding eq(1) using val same by (auto simp: same_job_def)
  have queue: "live_queue (en_jobs (put_job e i)) r = live_queue (en_jobs e) r" for r
    unfolding eq(1) live_queue_def using val same
    by (auto simp: same_job_def intro!: arg_cong [of _ _ concat])
  have ok: "job_ok (en_seq e) (m, i)"
    using job_okD [OF inv j] same pend by (simp add: job_ok_def same_job_def)
  have 1: "\<forall>x \<in> set (en_jobs (put_job e i)). job_ok (en_seq e) x"
    unfolding eq(1) using inv ok by (auto simp: jobs_inv_def)
  have 2: "is_oldest_on_all_ranks (put_job e i) k" if k: "k \<in> jobs_of (put_job e i)" "started k" for k
  proof (cases "k = i")
    case True
    then show ?thesis
      using old k(2) same_oldest [OF same] by (simp add: is_oldest_on_all_ranks_def put_job_def)
  next
    case False
    then have "k \<in> jobs_of e" using k(1) unfolding eq(2) by auto
    then have "is_oldest_on_all_ranks e k" using inv k(2) unfolding jobs_inv_def by blast
    then show ?thesis by (simp add: is_oldest_on_all_ranks_def put_job_def)
  qed
  have "en_seq (put_job e i) = en_seq e" "en_queues (put_job e i) = en_queues e"
    by (simp_all add: put_job_def)
  then show ?thesis
    using inv 1 2 keys seqs queue unfolding jobs_inv_def by metis
qed

lemma outcomes_inv_put:
  assumes "jobs_inv e" "outcomes_inv e" "(m, j) \<in> set (en_jobs e)" "same_job i j"
    and "outcome_seqs tr = []"
  shows "outcomes_inv ((put_job e i)\<lparr>en_trace := en_trace e @ tr\<rparr>)"
proof -
  note eq = put_job_eq [OF assms(1,3,4)]
  have "j \<in> jobs_of e" using assms(3) by force
  then have "j_seq ` jobs_of (put_job e i) = j_seq ` jobs_of e"
    using assms(4) unfolding eq(2) by (auto simp: same_job_def image_iff)
  moreover have "en_seq (put_job e i) = en_seq e" by (simp add: put_job_def)
  ultimately show ?thesis using assms(2,5) by (simp add: outcomes_inv_def)
qed

lemma engine_inv_put:
  assumes "engine_inv e" "(m, j) \<in> set (en_jobs e)" "same_job i j"
    and "j_pending i \<subseteq> set (targets i)" "j_phase i = j_phase j" "j_awaiting i = j_awaiting j"
  shows "engine_inv (put_job e i)"
proof -
  note inv = engine_invD [OF assms(1)]
  have j: "j \<in> jobs_of e" using assms(2) by force
  have "jobs_inv (put_job e i)"
    by (rule jobs_inv_put [OF inv(1) assms(2-4)])
      (use inv(1) j assms(5,6) in \<open>auto simp: jobs_inv_def started_def\<close>)
  moreover have "outcomes_inv (put_job e i)"
    using outcomes_inv_put [OF inv(1,2) assms(2,3), of "[]"] by (simp add: put_job_def)
  moreover have "sends_inv (put_job e i)"
  proof -
    have "en_trace (put_job e i) = en_trace e" "en_seq (put_job e i) = en_seq e"
      by (simp_all add: put_job_def)
    then show ?thesis
      using inv(3) j assms(3,5,6) put_job_eq(2) [OF inv(1) assms(2,3)]
      unfolding sends_inv_def by (auto simp: same_job_def)
  qed
  ultimately show ?thesis by (simp add: engine_inv_def)
qed

text \<open>Sending the command of a phase that the job's ranks have not seen yet.\<close>

lemma engine_inv_send:
  assumes "engine_inv e" and j: "(m, j) \<in> set (en_jobs e)" and same: "same_job i j"
    and old: "is_oldest_on_all_ranks e j" and next_ph: "j_phase i = j_phase j \<and> \<not> j_awaiting j \<or> j_phase j < j_phase i"
  shows "engine_inv (send_phase i e)"
proof -
  note inv = engine_invD [OF assms(1)]
  let ?i = "i\<lparr>j_pending := set (targets i), j_awaiting := True\<rparr>"
  have same': "same_job ?i j" using same by (simp add: same_job_def)
  have eq: "send_phase i e = (put_job e ?i)\<lparr>en_trace := en_trace e @ [Sent i (j_phase i) (targets i)]\<rparr>"
    by (simp add: send_phase_def)
  have jin: "j \<in> jobs_of e" using j by force
  have "jobs_inv (put_job e ?i)"
    by (rule jobs_inv_put [OF inv(1) j same']) (use old in \<open>auto simp: targets_def\<close>)
  then have "jobs_inv (send_phase i e)"
    unfolding eq jobs_inv_def by (simp add: is_oldest_on_all_ranks_def)
  moreover have "outcomes_inv (send_phase i e)"
    unfolding eq by (rule outcomes_inv_put [OF inv(1,2) j same']) simp
  moreover have "sends_inv (send_phase i e)"
  proof -
    have jobs: "jobs_of (send_phase i e) = insert ?i (jobs_of e - {j})"
      using put_job_eq(2) [OF inv(1) j same'] unfolding eq by simp
    have seq: "en_seq (send_phase i e) = en_seq e" by (simp add: eq put_job_def)
    have tgt: "set (targets i) \<subseteq> set (j_ranks j)"
      using job_okD(5) [OF inv(1) j] same by (auto simp: targets_def same_job_def)
    have less: "x < (j_seq i, j_phase i)" if "x \<in> set (sent_at r (en_trace e))" "r \<in> set (j_ranks j)" for x r
      using sends_invD [OF inv(3) that(1) jin that(2)] next_ph same
      by (cases x) (auto simp: same_job_def less_prod_def)
    have other: "(j_seq i, p) < (j_seq k, j_phase k)"
      if k: "k \<in> jobs_of e" "k \<noteq> j" "r \<in> set (j_ranks k)" "r \<in> set (j_ranks j)" for k r p
    proof -
      obtain q where "live_queue (en_jobs e) r = j_id j # q"
        using old k(4) oldest_iff [OF inv(1)] by blast
      moreover have "(j_id k, k) \<in> set (en_jobs e)" "(j_id j, j) \<in> set (en_jobs e)" "j_id k \<noteq> j_id j"
        using k(1,2) jin jobs_of_pair [OF inv(1)] jobs_unique [OF inv(1) jin] by auto
      ultimately have "j_seq j < j_seq k"
        using inv(1) live_queue_front_least [of "en_jobs e" "j_id j" j "j_id k" k r q] k(3)
        by (simp add: jobs_inv_def)
      then show ?thesis using same by (simp add: same_job_def less_prod_def)
    qed
    have sorted: "sorted_wrt (<) (sent_at r (en_trace (send_phase i e)))" for r
      using inv(3) less tgt by (auto simp: eq sends_inv_def sorted_wrt_append)
    have bound: "fst x \<le> en_seq e" if "x \<in> set (sent_at r (en_trace (send_phase i e)))" for x r
      using that inv(3) job_okD(4) [OF inv(1) j] same
      by (auto simp: eq sends_inv_def same_job_def split: if_splits)
    have pairs: "x < (j_seq k, j_phase k) \<or> x = (j_seq k, j_phase k) \<and> j_awaiting k"
      if x: "x \<in> set (sent_at r (en_trace (send_phase i e)))"
        and k: "k \<in> jobs_of (send_phase i e)" "r \<in> set (j_ranks k)" for x r k
    proof -
      have x': "x \<in> set (sent_at r (en_trace e)) \<or> r \<in> set (targets i) \<and> x = (j_seq i, j_phase i)"
        using x by (auto simp: eq split: if_splits)
      show ?thesis
      proof (cases "k = ?i")
        case True
        then have r: "r \<in> set (j_ranks j)" using k(2) same by (simp add: same_job_def)
        show ?thesis using less [OF _ r, of x] x' True by auto
      next
        case False
        then have "k \<in> jobs_of e" "k \<noteq> j" using k(1) unfolding jobs by auto
        then show ?thesis
          using x' other [of k r] sends_invD [OF inv(3) _ _ k(2)] tgt k(2) by blast
      qed
    qed
    show ?thesis unfolding sends_inv_def seq using sorted bound pairs by blast
  qed
  ultimately show ?thesis by (simp add: engine_inv_def)
qed

subsection \<open>Preservation by the operations\<close>

lemma engine_inv_init: "engine_inv engine_init"
  by (simp add: engine_inv_def jobs_inv_def outcomes_inv_def sends_inv_def engine_init_def oq_def)

lemma engine_inv_invoke:
  assumes "engine_inv (e\<lparr>en_trace := en_trace e @ [out]\<rparr>)"
    and "invoke cb out (e, ow) = Inr s'"
  shows "engine_inv (fst s')"
proof -
  from assms(2) obtain ow' reqs e' where
    loop: "for_res (\<lambda>e b. bind_res (begin_migration e b) (\<lambda>(e', _). Inr e'))
              (e\<lparr>en_trace := en_trace e @ [out]\<rparr>) reqs = Inr e'" and s': "s' = (e', ow')"
    by (auto simp: invoke_def bind_res_eq_Inr split: prod.splits)
  have "engine_inv e'"
    by (rule for_res_invariant [where P = engine_inv, OF assms(1) _ loop])
      (auto simp: bind_res_eq_Inr split: prod.splits intro: engine_inv_begin)
  then show ?thesis by (simp add: s')
qed

lemma engine_inv_complete:
  assumes "engine_inv e" "(m, j) \<in> set (en_jobs e)" "complete_job cb j (e, ow) = Inr s'"
  shows "engine_inv (fst s')"
proof (rule engine_inv_invoke)
  let ?out = "Done (j\<lparr>j_finished := True\<rparr>) (j_schedule j)"
  have "en_trace (retire e j) = en_trace e" by (simp add: retire_def)
  then show "engine_inv ((retire e j)\<lparr>en_trace := en_trace (retire e j) @ [?out]\<rparr>)"
    using engine_inv_close [OF assms(1,2), of ?out] by simp
  show "invoke cb ?out (retire e j, ow) = Inr s'"
    using assms(3) by (simp add: complete_job_def)
qed

lemma engine_inv_fail:
  assumes "engine_inv e" "(m, j) \<in> set (en_jobs e)" "fail_job cb j err (e, ow) = Inr s'"
  shows "engine_inv (fst s')"
proof (rule engine_inv_invoke)
  let ?out = "Errored (j\<lparr>j_finished := True\<rparr>) err"
  have "en_trace (retire e j) = en_trace e" by (simp add: retire_def)
  then show "engine_inv ((retire e j)\<lparr>en_trace := en_trace (retire e j) @ [?out]\<rparr>)"
    using engine_inv_close [OF assms(1,2), of ?out] by simp
  show "invoke cb ?out (retire e j, ow) = Inr s'"
    using assms(3) by (simp add: fail_job_def)
qed

lemma absorb_reply_simps [simp]:
  "same_job (absorb_reply j r) j"
  "j_leader (absorb_reply j r) = j_leader j"
  "j_ranks (absorb_reply j r) = j_ranks j"
  "j_phase (absorb_reply j r) = j_phase j"
  "j_awaiting (absorb_reply j r) = j_awaiting j"
  "j_deadline (absorb_reply j r) = j_deadline j"
  "j_pending (absorb_reply j r) = j_pending j - {r_rank r}"
  "j_id (absorb_reply j r) = j_id j"
  "j_finished (absorb_reply j r) = j_finished j"
  by (simp_all add: absorb_reply_def Let_def same_job_def)

lemma engine_inv_ingest_one:
  assumes "engine_inv (fst s)" "ingest_one cb s r = Inr s'"
  shows "engine_inv (fst s')"
proof -
  obtain e ow where s: "s = (e, ow)" by (cases s)
  show ?thesis
  proof (cases "map_of (en_jobs e) (r_mid r)")
    case None
    then show ?thesis using assms s by (auto simp: ingest_one_def)
  next
    case (Some j)
    have inv: "engine_inv e" using assms(1) s by simp
    have j: "(r_mid r, j) \<in> set (en_jobs e)"
      using Some map_of_jobs [OF engine_invD(1) [OF inv]] by simp
    note ok = job_okD [OF engine_invD(1) [OF inv] j]
    have put: "engine_inv (put_job e (absorb_reply j r))"
      by (rule engine_inv_put [OF inv j])
        (use ok(6) absorb_reply_simps(2) [of j r] in \<open>auto simp: targets_def\<close>)
    show ?thesis
      using assms(2) Some ok(2) engine_inv_fail [OF inv j]
      by (cases s') (auto simp: s ingest_one_def split: if_splits intro: put)
  qed
qed

lemma engine_inv_ingest:
  assumes "engine_inv (fst s)" "ingest_results cb s rs = Inr s'"
  shows "engine_inv (fst s')"
  by (rule for_res_invariant [where P = "\<lambda>s. engine_inv (fst s)",
        OF assms(1) _ assms(2) [unfolded ingest_results_def]])
    (rule engine_inv_ingest_one)

lemma engine_inv_advance:
  assumes inv: "engine_inv e" and j: "(m, j) \<in> set (en_jobs e)" and adv: "advance cb j (e, ow) = Inr s'"
  shows "engine_inv (fst s')"
proof (cases "is_oldest_on_all_ranks e j")
  case False
  then show ?thesis using adv inv by (auto simp: advance_def)
next
  case True
  have again: "engine_inv (send_phase j e)" if "\<not> j_awaiting j"
    by (rule engine_inv_send [OF inv j _ True]) (use that in \<open>auto simp: same_job_def\<close>)
  have nxt: "engine_inv (send_phase (j\<lparr>j_phase := p, j_awaiting := False\<rparr>) e)"
    if "next_phase (j_phase j) = Some p" for p
    by (rule engine_inv_send [OF inv j _ True]) (use next_phase_less [OF that] in \<open>auto simp: same_job_def\<close>)
  show ?thesis
    using adv True inv again nxt engine_inv_complete [OF inv j]
    by (cases s') (auto simp: advance_def split: if_splits option.splits)
qed

lemma engine_inv_pump_one:
  assumes "engine_inv (fst s)" "pump_one cb now s m = Inr s'"
  shows "engine_inv (fst s')"
proof -
  obtain e ow where s: "s = (e, ow)" by (cases s)
  show ?thesis
  proof (cases "map_of (en_jobs e) m")
    case None
    then show ?thesis using assms s by (auto simp: pump_one_def)
  next
    case (Some j)
    have inv: "engine_inv e" using assms(1) s by simp
    note jinv = engine_invD(1) [OF inv]
    have j: "(m, j) \<in> set (en_jobs e)" using Some map_of_jobs [OF jinv] by simp
    note ok = job_okD [OF jinv j]
    let ?i = "j\<lparr>j_warned := True\<rparr>"
    have same: "same_job ?i j" by (simp add: same_job_def)
    have put: "engine_inv (put_job e ?i)"
      by (rule engine_inv_put [OF inv j same]) (use ok(6) in \<open>auto simp: targets_def\<close>)
    have mem: "(m, ?i) \<in> set (en_jobs (put_job e ?i))"
      using put_job_eq(1) [OF jinv j same] j by force
    show ?thesis
      using assms(2) Some ok(2) engine_inv_fail [OF inv j] engine_inv_advance [OF inv j]
        engine_inv_advance [OF put mem]
      by (cases s') (auto simp: s pump_one_def Let_def split: if_splits)
  qed
qed

theorem engine_inv_pump:
  assumes "engine_inv (fst s)" "pump cb rs now s = Inr s'"
  shows "engine_inv (fst s')"
proof -
  from assms(2) obtain s1 where s1: "ingest_results cb s rs = Inr s1" and
    loop: "for_res (pump_one cb now) s1 (map fst (sort_key (\<lambda>(k, j). j_seq j) (en_jobs (fst s1)))) = Inr s'"
    by (auto simp: pump_def bind_res_eq_Inr)
  show ?thesis
    by (rule for_res_invariant [where P = "\<lambda>s. engine_inv (fst s)",
          OF engine_inv_ingest [OF assms(1) s1] _ loop])
      (rule engine_inv_pump_one)
qed

section \<open>Reachable states\<close>

text \<open>
  The owner alternates \<open>begin\<close> calls and \<open>pump\<close> ticks in any order, with any results, any
  clock and any callbacks, and its own state may change between calls.
\<close>

inductive engine_reachable :: "'o callback \<Rightarrow> engine \<times> 'o \<Rightarrow> bool" for cb where
  init: "engine_reachable cb (engine_init, ow)"
| start: "engine_reachable cb (e, ow) \<Longrightarrow> begin_migration e b = Inr (e', m) \<Longrightarrow>
     engine_reachable cb (e', ow')"
| tick: "engine_reachable cb s \<Longrightarrow> pump cb rs now s = Inr s' \<Longrightarrow> engine_reachable cb s'"

lemma engine_reachable_inv: "engine_reachable cb s \<Longrightarrow> engine_inv (fst s)"
  by (induction rule: engine_reachable.induct)
    (auto intro: engine_inv_init engine_inv_begin engine_inv_pump)

section \<open>Progress of the oldest migration\<close>

subsection \<open>What the work on one job leaves alone\<close>

text \<open>\<open>s'\<close> keeps the entry of job \<open>m\<close> and extends the trace.\<close>

definition keeps :: "string \<Rightarrow> engine \<Rightarrow> engine \<Rightarrow> bool" where
  "keeps m e e' \<longleftrightarrow>
     (\<forall>i. map_of (en_jobs e) m = Some i \<longrightarrow> map_of (en_jobs e') m = Some i)
     \<and> (\<exists>tr. en_trace e' = en_trace e @ tr)"

lemma keeps_refl [simp]: "keeps m e e"
  by (simp add: keeps_def)

lemma keeps_trans: "keeps m e e' \<Longrightarrow> keeps m e' e'' \<Longrightarrow> keeps m e e''"
  by (auto simp: keeps_def)

lemma keeps_begin: "begin_migration e b = Inr (e', k) \<Longrightarrow> keeps m e e'"
  by (auto simp: keeps_def begin_migration_def Let_def map_of_dict_set split: if_splits)

lemma keeps_invoke:
  assumes "invoke cb out (e, ow) = Inr s'"
  shows "keeps m e (fst s')" "out \<in> set (en_trace (fst s'))"
proof -
  let ?e = "e\<lparr>en_trace := en_trace e @ [out]\<rparr>"
  from assms obtain ow' reqs e' where
    loop: "for_res (\<lambda>e b. bind_res (begin_migration e b) (\<lambda>(e', _). Inr e')) ?e reqs = Inr e'"
      and s': "s' = (e', ow')"
    by (auto simp: invoke_def bind_res_eq_Inr split: prod.splits)
  have k: "keeps m ?e e'"
    by (rule for_res_invariant [where P = "keeps m ?e", OF keeps_refl _ loop])
      (auto simp: bind_res_eq_Inr split: prod.splits intro: keeps_trans keeps_begin)
  moreover have "keeps m e ?e" by (simp add: keeps_def)
  ultimately show "keeps m e (fst s')" using keeps_trans by (fastforce simp: s')
  show "out \<in> set (en_trace (fst s'))" using k by (auto simp: keeps_def s')
qed

lemma keeps_retire: "j_id j \<noteq> m \<Longrightarrow> keeps m e (retire e j)"
proof -
  assume "j_id j \<noteq> m"
  then have "map_of (filter (\<lambda>(k, _). k \<noteq> j_id j) l) m = map_of l m" for l :: "(string \<times> mig_job) list"
    by (induction l) auto
  then show ?thesis by (simp add: keeps_def retire_def)
qed

lemma keeps_put: "j_id j \<noteq> m \<Longrightarrow> keeps m e (put_job e j)"
  by (simp add: keeps_def put_job_def map_of_dict_set)

lemma keeps_send: "j_id j \<noteq> m \<Longrightarrow> keeps m e (send_phase j e)"
  by (simp add: keeps_def send_phase_def put_job_def map_of_dict_set)

lemma keeps_closing:
  assumes "j_id j \<noteq> m"
  shows "complete_job cb j (e, ow) = Inr s' \<Longrightarrow> keeps m e (fst s')"
    "fail_job cb j err (e, ow) = Inr s' \<Longrightarrow> keeps m e (fst s')"
  by (rule keeps_trans [OF keeps_retire [OF assms] keeps_invoke(1)];
      simp add: complete_job_def fail_job_def)+

lemma keeps_advance:
  assumes "j_id j \<noteq> m" "advance cb j (e, ow) = Inr s'"
  shows "keeps m e (fst s')"
  using assms keeps_closing(1) [OF assms(1)] keeps_send [of j m e] keeps_send [of "j\<lparr>j_phase := p, j_awaiting := False\<rparr>" m e for p]
  by (cases s') (auto simp: advance_def split: if_splits option.splits)

lemma keeps_pump_one:
  assumes "jobs_inv (fst s)" "pump_one cb now s k = Inr s'" "k \<noteq> m"
  shows "keeps m (fst s) (fst s')"
proof -
  obtain e ow where s: "s = (e, ow)" by (cases s)
  show ?thesis
  proof (cases "map_of (en_jobs e) k")
    case None
    then show ?thesis using assms(2) by (auto simp: s pump_one_def)
  next
    case (Some j)
    then have "(k, j) \<in> set (en_jobs e)" using map_of_jobs [OF assms(1)] by (simp add: s)
    then have id: "j_id j \<noteq> m" using job_okD(1) [OF assms(1)] assms(3) by (auto simp: s)
    let ?i = "j\<lparr>j_warned := True\<rparr>"
    have warned: "keeps m e (fst s')" if "advance cb ?i (put_job e ?i, ow) = Inr s'"
      by (rule keeps_trans [OF keeps_put keeps_advance [OF _ that]]) (use id in simp_all)
    show ?thesis
      using assms(2) Some keeps_closing(2) [OF id] keeps_advance [OF id] warned
      by (cases s') (auto simp: s pump_one_def Let_def split: if_splits)
  qed
qed

lemma keeps_pump_rest:
  assumes "engine_inv (fst s)" "for_res (pump_one cb now) s ks = Inr s'" "m \<notin> set ks"
  shows "keeps m (fst s) (fst s')"
proof -
  have "engine_inv (fst s') \<and> keeps m (fst s) (fst s')"
    by (rule for_res_invariant [where P = "\<lambda>t. engine_inv (fst t) \<and> keeps m (fst s) (fst t)",
          OF _ _ assms(2)])
      (use assms(1,3) in \<open>auto intro: engine_inv_pump_one keeps_trans keeps_pump_one engine_invD(1)\<close>)
  then show ?thesis by simp
qed

subsection \<open>One round of the handshake\<close>

text \<open>
  The replies of one tick, in which those of the job are without error and for its current phase;
  whatever comes for other migrations is arbitrary.
\<close>

definition good_replies :: "mig_job \<Rightarrow> mig_result list \<Rightarrow> bool" where
  "good_replies j rs \<longleftrightarrow>
     (\<forall>r \<in> set rs. r_mid r = j_id j \<longrightarrow> r_error r = None \<and> r_phase r = j_phase j)"

definition replied :: "mig_job \<Rightarrow> mig_result list \<Rightarrow> int set" where
  "replied j rs = r_rank ` {r \<in> set rs. r_mid r = j_id j}"

text \<open>The job is the first one in the table, and the trace only grows.\<close>

definition heads :: "string \<Rightarrow> mig_job \<Rightarrow> mig_out list \<Rightarrow> engine \<Rightarrow> bool" where
  "heads m j tr e \<longleftrightarrow> (\<exists>js. en_jobs e = (m, j) # js) \<and> (\<exists>new. en_trace e = tr @ new)"

lemma heads_invoke:
  assumes "heads m j tr e" "invoke cb out (e, ow) = Inr s'"
  shows "heads m j tr (fst s')"
proof -
  from assms(2) obtain ow' reqs e' where
    loop: "for_res (\<lambda>e b. bind_res (begin_migration e b) (\<lambda>(e', _). Inr e')) (e\<lparr>en_trace := en_trace e @ [out]\<rparr>) reqs = Inr e'"
      and s': "s' = (e', ow')"
    by (auto simp: invoke_def bind_res_eq_Inr split: prod.splits)
  have step: "heads m j tr x'" if "heads m j tr x" "begin_migration x b = Inr (x', k)" for x x' b k
    using that by (auto simp: heads_def begin_migration_def Let_def split: if_splits)
  have "heads m j tr (e\<lparr>en_trace := en_trace e @ [out]\<rparr>)" using assms(1) by (auto simp: heads_def)
  then have "heads m j tr e'"
    by (rule for_res_invariant [where P = "heads m j tr", OF _ _ loop])
       (auto simp: bind_res_eq_Inr split: prod.splits intro: step)
  then show ?thesis by (simp add: s')
qed

lemma heads_other_reply:
  assumes "engine_inv e" "heads m j tr e" "r_mid r \<noteq> m" "ingest_one cb (e, ow) r = Inr s'"
  shows "heads m j tr (fst s')"
proof (cases "map_of (en_jobs e) (r_mid r)")
  case None
  then show ?thesis using assms(2,4) by (auto simp: ingest_one_def)
next
  case (Some k)
  then have "(r_mid r, k) \<in> set (en_jobs e)" using map_of_jobs [OF engine_invD(1) [OF assms(1)]] by simp
  then have id: "j_id k \<noteq> m" using job_okD(1) [OF engine_invD(1) [OF assms(1)]] assms(3) by auto
  have "heads m j tr (retire e k)" "heads m j tr (put_job e (absorb_reply k r))"
    using assms(2) id by (auto simp: heads_def retire_def put_job_def)
  then show ?thesis
    using assms(2,4) Some heads_invoke [of m j tr "retire e k" cb _ ow s']
    by (auto simp: ingest_one_def fail_job_def split: if_splits)
qed

lemma ingest_good:
  assumes "engine_inv e" "heads (j_id j) j tr e" "good_replies j rs" "ingest_results cb (e, ow) rs = Inr (e', ow')"
  shows "\<exists>i. heads (j_id j) i tr e' \<and> same_job i j \<and> j_phase i = j_phase j \<and> j_awaiting i = j_awaiting j
     \<and> j_deadline i = j_deadline j \<and> j_pending i = j_pending j - replied j rs"
  using assms
proof (induction rs arbitrary: e j ow)
  case Nil
  then show ?case by (intro exI [of _ j]) (auto simp: ingest_results_def same_job_def replied_def)
next
  case (Cons r rs)
  from Cons.prems(4) obtain e1 ow1 where one: "ingest_one cb (e, ow) r = Inr (e1, ow1)"
    and rest: "ingest_results cb (e1, ow1) rs = Inr (e', ow')"
    by (auto simp: ingest_results_def bind_res_eq_Inr)
  have inv: "engine_inv e1"
    using engine_inv_ingest [of "(e, ow)" cb "[r]" "(e1, ow1)"] Cons.prems(1) one by (simp add: ingest_results_def)
  have "(j_id j, j) \<in> set (en_jobs e)" using Cons.prems(2) by (auto simp: heads_def)
  then have fin: "\<not> j_finished j" by (rule job_okD(2) [OF engine_invD(1) [OF Cons.prems(1)]])
  show ?case
  proof (cases "r_mid r = j_id j")
    case True
    then have "e1 = put_job e (absorb_reply j r)"
      using one Cons.prems(2,3) fin by (auto simp: ingest_one_def heads_def good_replies_def)
    then have "heads (j_id (absorb_reply j r)) (absorb_reply j r) tr e1"
      using Cons.prems(2) by (auto simp: heads_def put_job_def)
    moreover have "good_replies (absorb_reply j r) rs" using Cons.prems(3) by (simp add: good_replies_def)
    ultimately obtain i where "heads (j_id j) i tr e'" "same_job i (absorb_reply j r)" "j_phase i = j_phase j"
        "j_awaiting i = j_awaiting j" "j_deadline i = j_deadline j"
        "j_pending i = j_pending j - {r_rank r} - replied (absorb_reply j r) rs"
      using Cons.IH [of e1 "absorb_reply j r" ow1, OF inv _ _ rest] by auto
    then show ?thesis
      using True absorb_reply_simps(1) [of j r] by (intro exI [of _ i]) (auto simp: same_job_def replied_def)
  next
    case False
    have "heads (j_id j) j tr e1" using heads_other_reply [OF Cons.prems(1,2) False one] by simp
    moreover have "good_replies j rs" "replied j (r # rs) = replied j rs"
      using Cons.prems(3) False by (auto simp: good_replies_def replied_def)
    ultimately show ?thesis using Cons.IH [OF inv _ _ rest] by simp
  qed
qed

lemma head_is_oldest:
  assumes "jobs_inv e" "en_jobs e = (m, j) # js"
  shows "is_oldest_on_all_ranks e j"
proof -
  have id: "j_id j = m" using job_okD(1) [OF assms(1)] assms(2) by simp
  have "\<exists>q. live_queue ((m, j) # js) r = m # q" if r: "r \<in> set (j_ranks j)" for r
  proof -
    obtain n where "count_list (j_ranks j) r = Suc n"
      using r by (metis count_list_0_iff not0_implies_Suc)
    then show ?thesis by simp
  qed
  then show ?thesis using oldest_iff [OF assms(1)] assms(2) id by simp
qed

text \<open>Where the handshake of a job goes next: its current phase if that was not sent yet.\<close>

definition upcoming :: "mig_job \<Rightarrow> phase option" where
  "upcoming j = (if j_awaiting j then next_phase (j_phase j) else Some (j_phase j))"

text \<open>
  What a tick does for a job: it records the phase as sent and awaited, and the command of that
  phase is among what it sends, addressed to every target; or it reports the completion.
\<close>

definition progressed :: "mig_job \<Rightarrow> mig_out list \<Rightarrow> engine \<Rightarrow> bool" where
  "progressed j tr e \<longleftrightarrow>
     (\<exists>new. en_trace e = tr @ new
        \<and> (case upcoming j of
             Some p \<Rightarrow> \<exists>i k. map_of (en_jobs e) (j_id j) = Some i \<and> j_seq i = j_seq j
                  \<and> j_phase i = p \<and> j_awaiting i \<and> j_pending i = set (targets i)
                  \<and> Sent k p (targets i) \<in> set new \<and> j_id k = j_id j \<and> j_seq k = j_seq j
           | None \<Rightarrow> \<exists>i sch. Done i sch \<in> set new \<and> j_id i = j_id j \<and> j_seq i = j_seq j))"

lemma progressed_keeps:
  assumes "progressed j tr e" "keeps (j_id j) e e'"
  shows "progressed j tr e'"
  using assms by (cases "upcoming j") (fastforce simp: progressed_def keeps_def)+

lemma invoke_traced:
  assumes "invoke cb out (e, ow) = Inr s'"
  shows "\<exists>new. en_trace (fst s') = en_trace e @ out # new"
proof -
  from assms obtain ow' reqs e' where
    loop: "for_res (\<lambda>e b. bind_res (begin_migration e b) (\<lambda>(e', _). Inr e')) (e\<lparr>en_trace := en_trace e @ [out]\<rparr>) reqs = Inr e'"
      and s': "s' = (e', ow')"
    by (auto simp: invoke_def bind_res_eq_Inr split: prod.splits)
  have "\<exists>new. en_trace e' = en_trace e @ out # new"
    by (rule for_res_invariant [where P = "\<lambda>x. \<exists>new. en_trace x = en_trace e @ out # new", OF _ _ loop])
       (auto simp: bind_res_eq_Inr begin_migration_def Let_def split: prod.splits if_splits)
  then show ?thesis by (simp add: s')
qed

lemma advance_oldest:
  assumes "is_oldest_on_all_ranks e j" "j_awaiting j \<longrightarrow> j_pending j = {}"
    and "advance cb j (e, ow) = Inr s'" "en_trace e = tr @ new"
  shows "progressed j tr (fst s')"
proof (cases "upcoming j")
  case None
  then have "complete_job cb j (e, ow) = Inr s'"
    using assms by (auto simp: upcoming_def advance_def split: if_splits)
  then obtain new' where "en_trace (fst s') = en_trace e @ Done (j\<lparr>j_finished := True\<rparr>) (j_schedule j) # new'"
    using invoke_traced [of cb _ "retire e j" ow s'] by (auto simp: complete_job_def retire_def)
  then have tr: "en_trace (fst s') = tr @ new @ Done (j\<lparr>j_finished := True\<rparr>) (j_schedule j) # new'"
    using assms(4) by simp
  have "\<exists>i sch. Done i sch \<in> set (new @ Done (j\<lparr>j_finished := True\<rparr>) (j_schedule j) # new') \<and> j_id i = j_id j \<and> j_seq i = j_seq j"
    by (intro exI [of _ "j\<lparr>j_finished := True\<rparr>"] exI [of _ "j_schedule j"]) simp
  then show ?thesis unfolding progressed_def None option.case using tr by blast
next
  case (Some p)
  let ?i = "j\<lparr>j_phase := p, j_awaiting := False\<rparr>"
  have s': "fst s' = send_phase ?i e"
  proof (cases "j_awaiting j")
    case True
    then show ?thesis using assms Some by (auto simp: upcoming_def advance_def)
  next
    case False
    then have "?i = j" using Some by (cases j) (simp add: upcoming_def)
    moreover have "fst s' = send_phase j e" using False assms by (auto simp: advance_def)
    ultimately show ?thesis by (simp only:)
  qed
  let ?j = "?i\<lparr>j_pending := set (targets ?i), j_awaiting := True\<rparr>"
  have "en_trace (fst s') = tr @ new @ [Sent ?i p (targets ?i)]"
    using assms(4) by (simp add: s' send_phase_def)
  moreover have "map_of (en_jobs (fst s')) (j_id j) = Some ?j" by (simp add: s' send_phase_def put_job_def map_of_dict_set)
  moreover have "targets ?j = targets ?i" by (simp add: targets_def)
  ultimately show ?thesis
    unfolding progressed_def Some option.case
    by (intro exI [of _ "new @ [Sent ?i p (targets ?i)]"] conjI exI [of _ ?j] exI [of _ ?i]) simp_all
qed

lemma pump_round:
  assumes inv: "engine_inv e" and jobs: "en_jobs e = (m, j) # js"
    and good: "good_replies j rs" and all: "j_awaiting j \<longrightarrow> j_pending j \<subseteq> replied j rs"
    and time: "now \<le> j_deadline j" and run: "pump cb rs now (e, ow) = Inr s'"
  shows "progressed j (en_trace e) (fst s')"
proof -
  have id: "j_id j = m" and fin: "\<not> j_finished j"
    using job_okD(1,2) [OF engine_invD(1) [OF inv], of m j] jobs by auto
  obtain e1 ow1 where ing: "ingest_results cb (e, ow) rs = Inr (e1, ow1)"
    and loop: "for_res (pump_one cb now) (e1, ow1) (map fst (sort_key (\<lambda>(k, j). j_seq j) (en_jobs e1))) = Inr s'"
    using run by (auto simp: pump_def bind_res_eq_Inr)
  have "heads (j_id j) j (en_trace e) e" using jobs id by (simp add: heads_def)
  from ingest_good [OF inv this good ing] obtain i where
    h: "heads m i (en_trace e) e1" and
    i: "same_job i j" "j_phase i = j_phase j" "j_awaiting i = j_awaiting j"
      "j_deadline i = j_deadline j" "j_pending i = j_pending j - replied j rs"
    using id by auto
  from h obtain js1 new where e1: "en_jobs e1 = (m, i) # js1" and tr: "en_trace e1 = en_trace e @ new"
    by (auto simp: heads_def)
  have inv': "engine_inv e1" using engine_inv_ingest [OF _ ing] inv by simp
  have "sorted (map (\<lambda>(k, j). j_seq j) (en_jobs e1))"
    using engine_invD(1) [OF inv'] by (auto simp: jobs_inv_def case_prod_unfold o_def
        sorted_wrt_map intro: sorted_wrt_mono_rel [of _ "\<lambda>x y. j_seq (snd x) < j_seq (snd y)"])
  then have "sort_key (\<lambda>(k, j). j_seq j) (en_jobs e1) = (m, i) # js1"
    unfolding e1 by (rule sort_key_id_if_sorted)
  then obtain s1 where one: "pump_one cb now (e1, ow1) m = Inr s1" and
    rest: "for_res (pump_one cb now) s1 (map fst js1) = Inr s'"
    using loop by (auto simp: bind_res_eq_Inr)
  have "m \<notin> set (map fst js1)" using engine_invD(1) [OF inv'] e1 by (simp add: jobs_inv_def)
  then have keep: "keeps m (fst s1) (fst s')"
    using keeps_pump_rest [OF engine_inv_pump_one [OF _ one] rest] inv' by simp
  have adv: "advance cb i (e1, ow1) = Inr s1"
    using one time i(1,4) fin e1 by (auto simp: pump_one_def same_job_def)
  have same: "j_id i = m" "j_seq i = j_seq j" "upcoming i = upcoming j"
    using i id by (auto simp: same_job_def upcoming_def)
  have old: "is_oldest_on_all_ranks e1 i" by (rule head_is_oldest [OF engine_invD(1) [OF inv'] e1])
  have pend: "j_awaiting i \<longrightarrow> j_pending i = {}" using all i(3,5) by auto
  have "progressed i (en_trace e) (fst s')"
    using progressed_keeps [OF advance_oldest [OF old pend adv tr]] keep same(1) by simp
  then show ?thesis unfolding progressed_def same id .
qed

section \<open>A concrete run\<close>

text \<open>
  Two migrations between single-rank groups on disjoint ranks, with an owner whose callbacks do
  nothing; after one tick the first phase of both is in flight.
\<close>

definition demo_par :: parallel_spec where
  "demo_par = \<lparr>ps_tp = 1, ps_sp = 1, ps_cfg = 1, ps_cfg_parallel = False\<rparr>"

definition demo_group :: "string \<Rightarrow> int list \<Rightarrow> group_spec" where
  "demo_group gid rs = \<lparr>g_id = gid, g_ranks = rs, g_parallel = demo_par,
     g_kinds = [TEXT_ENCODE, DIT_PREPARE, TIMESTEP_PREPARE, DIT_STEP_CHUNK, VAE_DECODE, FINALIZE],
     g_ulysses = 1, g_ring = 1\<rparr>"

definition demo_req :: "string \<Rightarrow> int \<Rightarrow> int \<Rightarrow> begin_req" where
  "demo_req m src dst =
     \<lparr>br_plan = \<lparr>mp_request_id = ''r'', mp_src_group_id = ''s'', mp_dst_group_id = ''d'',
                 mp_artifacts = [], mp_request_metadata = []\<rparr>,
      br_src_group = demo_group ''s'' [src], br_dst_group = demo_group ''d'' [dst],
      br_ranks = [src, dst], br_leader = src, br_deadline = 10, br_mid = Some m, br_uuid = ''u''\<rparr>"

definition quiet :: "unit callback" where
  "quiet ow out = Inr (ow, [])"

definition demo_e1 :: engine where
  "demo_e1 = (case begin_migration engine_init (demo_req ''a'' 0 1) of Inr (e, _) \<Rightarrow> e | Inl _ \<Rightarrow> engine_init)"

definition demo_e2 :: engine where
  "demo_e2 = (case begin_migration demo_e1 (demo_req ''b'' 2 3) of Inr (e, _) \<Rightarrow> e | Inl _ \<Rightarrow> engine_init)"

definition demo_e3 :: engine where
  "demo_e3 = (case pump quiet [] 0 (demo_e2, ()) of Inr (e, _) \<Rightarrow> e | Inl _ \<Rightarrow> engine_init)"

lemmas demo_defs = demo_par_def demo_group_def demo_req_def begin_migration_def engine_init_def
  resolve_mid_def queue_push_def new_job_def Let_def

lemma demo_begin1: "begin_migration engine_init (demo_req ''a'' 0 1) = Inr (demo_e1, ''a'')"
  by (simp add: demo_e1_def demo_defs)

lemma demo_begin2: "begin_migration demo_e1 (demo_req ''b'' 2 3) = Inr (demo_e2, ''b'')"
  by (simp add: demo_e2_def demo_e1_def demo_defs)

lemma demo_jobs2:
  "en_jobs demo_e2 = [(''a'', new_job (demo_req ''a'' 0 1) 1), (''b'', new_job (demo_req ''b'' 2 3) 2)]"
  by (simp add: demo_e2_def demo_e1_def demo_defs)

lemma demo_pump: "pump quiet [] 0 (demo_e2, ()) = Inr (demo_e3, ())"
  by (simp add: demo_e3_def demo_e2_def demo_e1_def demo_defs pump_def ingest_results_def pump_one_def
      advance_def is_oldest_on_all_ranks_def send_phase_def put_job_def targets_def)

lemma demo_reachable:
  "engine_reachable quiet (demo_e2, ())" "engine_reachable quiet (demo_e3, ())"
proof -
  have "engine_reachable quiet (demo_e1, ())"
    by (rule engine_reachable.start [OF engine_reachable.init demo_begin1])
  then show two: "engine_reachable quiet (demo_e2, ())"
    by (rule engine_reachable.start [OF _ demo_begin2])
  show "engine_reachable quiet (demo_e3, ())"
    by (rule engine_reachable.tick [OF two demo_pump])
qed

definition demo_job :: "string \<Rightarrow> int \<Rightarrow> int \<Rightarrow> nat \<Rightarrow> mig_job" where
  "demo_job m src dst n = (new_job (demo_req m src dst) n)\<lparr>j_pending := {src, dst}, j_awaiting := True\<rparr>"

lemma demo_jobs3: "en_jobs demo_e3 = [(''a'', demo_job ''a'' 0 1 1), (''b'', demo_job ''b'' 2 3 2)]"
  by (simp add: demo_e3_def demo_e2_def demo_e1_def demo_defs pump_def ingest_results_def pump_one_def
      advance_def is_oldest_on_all_ranks_def send_phase_def put_job_def targets_def demo_job_def)

section \<open>Properties\<close>

text \<open>
  C1: Two migrations whose current phase command is in flight never share a worker rank, in
  every state the engine can reach, whatever the workers reply, whenever deadlines pass and
  whatever migrations the callbacks begin.
\<close>

theorem migrations_in_flight_disjoint:
  assumes "engine_reachable cb (e, ow)"
    and "i \<in> jobs_of e" "j \<in> jobs_of e" "i \<noteq> j" "j_awaiting i" "j_awaiting j"
  shows "set (j_ranks i) \<inter> set (j_ranks j) = {}"
proof (rule ccontr)
  have inv: "jobs_inv e" using engine_reachable_inv [OF assms(1)] by (simp add: engine_inv_def)
  assume "set (j_ranks i) \<inter> set (j_ranks j) \<noteq> {}"
  then obtain r where r: "r \<in> set (j_ranks i)" "r \<in> set (j_ranks j)" by auto
  have "j_id i = j_id j"
    using started_front [OF inv assms(2) _ r(1)] started_front [OF inv assms(3) _ r(2)] assms(5,6)
    by (auto simp: started_def)
  then show False using jobs_unique [OF inv assms(3,2)] assms(4) by simp
qed

theorem migrations_in_flight_disjoint_witness:
  "set (j_ranks (demo_job ''a'' 0 1 1)) \<inter> set (j_ranks (demo_job ''b'' 2 3 2)) = {}
   \<and> j_awaiting (demo_job ''a'' 0 1 1) \<and> demo_job ''a'' 0 1 1 \<in> jobs_of demo_e3"
  using migrations_in_flight_disjoint [OF demo_reachable(2), of "demo_job ''a'' 0 1 1" "demo_job ''b'' 2 3 2"]
  by (simp add: demo_jobs3) (simp add: demo_job_def demo_defs)

text \<open>
  C13: Every worker rank is sent migration commands in one global order: by the number of the
  migration, and within a migration by handshake phase; no command is ever repeated.
\<close>

theorem migration_commands_ordered:
  assumes "engine_reachable cb (e, ow)"
  shows "sorted_wrt (<) (sent_at r (en_trace e))"
  using engine_reachable_inv [OF assms] by (simp add: engine_inv_def sends_inv_def)

theorem migration_commands_ordered_witness: "sorted_wrt (<) (sent_at 0 (en_trace demo_e3))"
  by (rule migration_commands_ordered [OF demo_reachable(2)])

text \<open>
  C7: Every migration that was begun gets exactly one of its two callbacks, and gets it exactly
  when it leaves the table of pending jobs: no completion is lost and none is reported twice.
\<close>

theorem migration_callback_exactly_once:
  assumes "engine_reachable cb (e, ow)" and "1 \<le> n" "n \<le> en_seq e"
  shows "count_list (outcome_seqs (en_trace e)) n = (if n \<in> j_seq ` jobs_of e then 0 else 1)"
proof -
  have "outcomes_inv e" using engine_reachable_inv [OF assms(1)] by (simp add: engine_inv_def)
  then have d: "distinct (outcome_seqs (en_trace e))"
    and "n \<in> set (outcome_seqs (en_trace e)) \<longleftrightarrow> n \<notin> j_seq ` jobs_of e"
    using assms(2,3) unfolding outcomes_inv_def by (auto simp del: Un_iff image_eqI)
  then show ?thesis by (simp add: distinct_count_list)
qed

theorem migration_callback_exactly_once_witness:
  "count_list (outcome_seqs (en_trace demo_e3)) 1 = (if 1 \<in> j_seq ` jobs_of demo_e3 then 0 else 1)"
  by (rule migration_callback_exactly_once [OF demo_reachable(2)])
    (simp_all add: demo_e3_def demo_e2_def demo_e1_def demo_defs pump_def ingest_results_def pump_one_def
      advance_def is_oldest_on_all_ranks_def send_phase_def put_job_def targets_def)

text \<open>
  C14: Progress: when the oldest pending migration is within its deadline and every rank it waits
  for has replied for the current phase without error, the next tick sends the command of its next
  phase (of the first one, when nothing was sent yet): the command goes out during the tick, to
  every target of that phase, and the job then waits for exactly these ranks. After the last phase
  the tick reports completion. What else arrives in the tick for other migrations, failures
  included, and what the callbacks of other migrations begin, cannot block it.
\<close>

theorem oldest_migration_progresses:
  assumes "engine_reachable cb (e, ow)" "en_jobs e = (m, j) # js"
    and "good_replies j rs" "j_awaiting j \<longrightarrow> j_pending j \<subseteq> replied j rs"
    and "now \<le> j_deadline j" "pump cb rs now (e, ow) = Inr (e', ow')"
  shows "\<exists>new. en_trace e' = en_trace e @ new
    \<and> (case upcoming j of
         Some p \<Rightarrow> \<exists>i k. map_of (en_jobs e') m = Some i \<and> j_seq i = j_seq j
              \<and> j_phase i = p \<and> j_awaiting i \<and> j_pending i = set (targets i)
              \<and> Sent k p (targets i) \<in> set new \<and> j_id k = m \<and> j_seq k = j_seq j
       | None \<Rightarrow> \<exists>i sch. Done i sch \<in> set new \<and> j_id i = m \<and> j_seq i = j_seq j)"
proof -
  have inv: "engine_inv e" using engine_reachable_inv [OF assms(1)] by simp
  then have "j_id j = m" using job_okD(1) [OF engine_invD(1)] assms(2) by simp
  with pump_round [OF inv assms(2-6)] show ?thesis by (simp only: progressed_def fst_conv)
qed

text \<open>Migration \<open>a\<close> hears from both of its ranks, and in the same tick migration \<open>b\<close> fails.\<close>

definition demo_reply :: "string \<Rightarrow> int \<Rightarrow> string option \<Rightarrow> mig_result" where
  "demo_reply m r err =
     \<lparr>r_mid = m, r_phase = DESCRIBE_LAYOUT, r_rank = r, r_error = err, r_schedule = None,
      r_metadata_payloads = [], r_src_layouts = [], r_dst_layouts = []\<rparr>"

definition demo_replies :: "mig_result list" where
  "demo_replies = [demo_reply ''a'' 0 None, demo_reply ''b'' 3 (Some ''lost''), demo_reply ''a'' 1 None]"

definition demo_e4 :: engine where
  "demo_e4 = (case pump quiet demo_replies 1 (demo_e3, ()) of Inr (e, _) \<Rightarrow> e | Inl _ \<Rightarrow> engine_init)"

lemma demo_pump4: "pump quiet demo_replies 1 (demo_e3, ()) = Inr (demo_e4, ())"
proof -
  have "case pump quiet demo_replies 1 (demo_e3, ()) of Inl _ \<Rightarrow> False | Inr _ \<Rightarrow> True" by code_simp
  then show ?thesis by (auto simp: demo_e4_def split: sum.splits)
qed

theorem oldest_migration_progresses_witness:
  "\<exists>new i k. en_trace demo_e4 = en_trace demo_e3 @ new \<and> map_of (en_jobs demo_e4) ''a'' = Some i
     \<and> j_phase i = BUILD_SCHEDULE \<and> j_awaiting i \<and> j_pending i = set (targets i)
     \<and> Sent k BUILD_SCHEDULE (targets i) \<in> set new \<and> j_id k = ''a'' \<and> j_seq k = 1"
proof -
  have "good_replies (demo_job ''a'' 0 1 1) demo_replies"
    "j_pending (demo_job ''a'' 0 1 1) \<subseteq> replied (demo_job ''a'' 0 1 1) demo_replies"
    "(1::rat) \<le> j_deadline (demo_job ''a'' 0 1 1)" "upcoming (demo_job ''a'' 0 1 1) = Some BUILD_SCHEDULE"
    "j_seq (demo_job ''a'' 0 1 1) = 1"
    by code_simp+
  with oldest_migration_progresses [OF demo_reachable(2) demo_jobs3 _ _ _ demo_pump4] show ?thesis
    by simp blast
qed

end
