(* ===== verification/ShardLayout.thy ===== *)
theory ShardLayout
  imports Protocol
begin

text \<open>
  Tensor field layouts of the model adapters (first part of \<open>runtime_v2/adapters/common.py\<close>):
  replicated fields, balanced one-dimensional sharding and the sequence-parallel rule that
  picks the shard of a group rank. The geometry of boxes (an offset and a shape, both lists
  of integers) is shared with the migration data plane.
\<close>

section \<open>Boxes\<close>

text \<open>A point lies in the box with a given offset and shape.\<close>

fun in_box :: "int list \<Rightarrow> int list \<Rightarrow> int list \<Rightarrow> bool" where
  "in_box [] [] [] = True"
| "in_box (f # fs) (s # ss) (p # ps) = (f \<le> p \<and> p < f + s \<and> in_box fs ss ps)"
| "in_box _ _ _ = False"

definition vadd :: "int list \<Rightarrow> int list \<Rightarrow> int list" where
  "vadd xs ys = map2 (+) xs ys"

definition vsub :: "int list \<Rightarrow> int list \<Rightarrow> int list" where
  "vsub xs ys = map2 (-) xs ys"

definition zeros :: "'a list \<Rightarrow> int list" where
  "zeros xs = map (\<lambda>_. 0) xs"

section \<open>Fields\<close>

definition REPLICATED_TENSOR_LAYOUT :: tensor_layout where
  "REPLICATED_TENSOR_LAYOUT = \<lparr>tl_kind = REPLICATED, tl_shard = None\<rparr>"

definition replicated_tensor_field ::
  "string list \<Rightarrow> int list \<Rightarrow> string \<Rightarrow> tensor_field_layout res" where
  "replicated_tensor_field path local_shape dtype =
     mk_tensor_field_layout path local_shape dtype REPLICATED_TENSOR_LAYOUT
       (Some local_shape) (Some (zeros local_shape))"

definition balanced_shard_bounds :: "int \<Rightarrow> int \<Rightarrow> int \<Rightarrow> (int \<times> int) res" where
  "balanced_shard_bounds n world_size rank =
     (if n < 0 then Inl ValueError
      else if world_size < 1 then Inl ValueError
      else if rank < 0 \<or> rank \<ge> world_size then Inl ValueError
      else
        let base = n div world_size; remainder = n mod world_size
        in Inr (rank * base + min rank remainder, base + (if rank < remainder then 1 else 0)))"

definition sharded_tensor_field ::
  "string list \<Rightarrow> int list \<Rightarrow> string \<Rightarrow> int \<Rightarrow> int \<Rightarrow> int \<Rightarrow> tensor_field_layout res" where
  "sharded_tensor_field path global_shape dtype shard_dim world rank =
     (let d = (if shard_dim < 0 then shard_dim + int (length global_shape) else shard_dim)
      in if d < 0 \<or> d \<ge> int (length global_shape) then Inl ValueError
         else
           bind_res (balanced_shard_bounds (global_shape ! nat d) world rank) (\<lambda>(off, loc).
           bind_res (mk_tensor_shard_spec d) (\<lambda>shard.
           bind_res (mk_tensor_layout SHARDED (Some shard)) (\<lambda>layout.
             mk_tensor_field_layout path (global_shape[nat d := loc]) dtype layout
               (Some global_shape) (Some ((zeros global_shape)[nat d := off]))))))"

text \<open>\<open>int(getattr(group.parallel_spec, "sp", 1) or 1)\<close>: a zero degree counts as one.\<close>

definition sp_sharded_tensor_field ::
  "group_spec \<Rightarrow> int \<Rightarrow> string list \<Rightarrow> int list \<Rightarrow> string \<Rightarrow> int \<Rightarrow> tensor_field_layout res" where
  "sp_sharded_tensor_field g group_rank path global_shape dtype shard_dim =
     (let sp = (if ps_sp (g_parallel g) = 0 then 1 else ps_sp (g_parallel g))
      in if sp \<le> 1 then replicated_tensor_field path global_shape dtype
         else sharded_tensor_field path global_shape dtype shard_dim sp (group_rank mod sp))"

section \<open>Lemmas on boxes\<close>

lemma in_box_length: "in_box fs ss ps \<Longrightarrow> length fs = length ps \<and> length ss = length ps"
  by (induction fs ss ps rule: in_box.induct) auto

lemma in_box_nth:
  "in_box fs ss ps \<longleftrightarrow> length fs = length ps \<and> length ss = length ps
     \<and> (\<forall>i < length ps. fs ! i \<le> ps ! i \<and> ps ! i < fs ! i + ss ! i)"
proof (induction fs ss ps rule: in_box.induct)
  case (2 f fs s ss p ps)
  then show ?case by (auto simp: nth_Cons less_Suc_eq_0_disj split: nat.splits)
qed auto

lemma length_vadd [simp]: "length (vadd xs ys) = min (length xs) (length ys)"
  by (simp add: vadd_def)

lemma length_vsub [simp]: "length (vsub xs ys) = min (length xs) (length ys)"
  by (simp add: vsub_def)

lemma length_zeros [simp]: "length (zeros xs) = length xs"
  by (simp add: zeros_def)

lemma nth_vadd [simp]: "i < length xs \<Longrightarrow> i < length ys \<Longrightarrow> vadd xs ys ! i = xs ! i + ys ! i"
  by (simp add: vadd_def)

lemma nth_vsub [simp]: "i < length xs \<Longrightarrow> i < length ys \<Longrightarrow> vsub xs ys ! i = xs ! i - ys ! i"
  by (simp add: vsub_def)

lemma nth_zeros [simp]: "i < length xs \<Longrightarrow> zeros xs ! i = 0"
  by (simp add: zeros_def)

lemma vadd_zeros: "length xs \<le> length ys \<Longrightarrow> vadd xs (zeros ys) = xs"
  by (rule nth_equalityI) auto

lemma in_box_shift:
  "length fs = length off \<Longrightarrow> length ps = length off \<Longrightarrow>
     in_box (vadd fs off) ss (vadd ps off) \<longleftrightarrow> in_box fs ss ps"
  by (auto simp: in_box_nth)

section \<open>Balanced shards partition a dimension\<close>

lemma balanced_shard_bounds_ok:
  "0 \<le> n \<Longrightarrow> 0 \<le> r \<Longrightarrow> r < w \<Longrightarrow>
     balanced_shard_bounds n w r
       = Inr (r * (n div w) + min r (n mod w), n div w + (if r < n mod w then 1 else 0))"
  by (simp add: balanced_shard_bounds_def Let_def)

text \<open>Start of a shard; the end of a shard is the start of the next one.\<close>

definition shard_start :: "int \<Rightarrow> int \<Rightarrow> int \<Rightarrow> int" where
  "shard_start n w r = r * (n div w) + min r (n mod w)"

lemma shard_start_Suc:
  "shard_start n w r + (n div w + (if r < n mod w then 1 else 0)) = shard_start n w (r + 1)"
  by (simp add: shard_start_def algebra_simps)

lemma shard_start_ends:
  assumes "0 < w"
  shows "0 \<le> n \<Longrightarrow> shard_start n w 0 = 0" "shard_start n w w = n"
proof -
  show "0 \<le> n \<Longrightarrow> shard_start n w 0 = 0" using assms by (simp add: shard_start_def)
  have "n mod w \<le> w" using assms by (simp add: less_imp_le)
  then have "min w (n mod w) = n mod w" by (rule min_absorb2)
  then show "shard_start n w w = n" by (simp add: shard_start_def)
qed

lemma shard_start_mono:
  assumes "0 \<le> n" "0 < w" "r \<le> r'"
  shows "shard_start n w r \<le> shard_start n w r'"
proof -
  have "r * (n div w) \<le> r' * (n div w)"
    using assms by (intro mult_right_mono) (simp_all add: pos_imp_zdiv_nonneg_iff)
  then show ?thesis using assms(3) by (simp add: shard_start_def)
qed

lemma shard_start_cover_upto:
  assumes "0 \<le> n" "0 < w" "0 \<le> x" "x < shard_start n w (int k)"
  shows "\<exists>r. 0 \<le> r \<and> r < int k \<and> shard_start n w r \<le> x \<and> x < shard_start n w (r + 1)"
  using assms(4)
proof (induction k)
  case 0
  then show ?case using shard_start_ends(1) [OF assms(2,1)] assms(3) by simp
next
  case (Suc k)
  show ?case
  proof (cases "x < shard_start n w (int k)")
    case True
    then show ?thesis using Suc.IH by force
  next
    case False
    then show ?thesis using Suc.prems by (intro exI [of _ "int k"]) (simp add: add.commute)
  qed
qed

lemma shard_owner_unique:
  assumes "0 \<le> n" "0 < w" "0 \<le> x" "x < n"
  shows "\<exists>!r. 0 \<le> r \<and> r < w \<and> shard_start n w r \<le> x \<and> x < shard_start n w (r + 1)"
proof -
  obtain r where r: "0 \<le> r" "r < w" "shard_start n w r \<le> x" "x < shard_start n w (r + 1)"
    using shard_start_cover_upto [OF assms(1-3), of "nat w"] shard_start_ends(2) [OF assms(2), of n]
      assms(2,4) by auto
  have "q = r" if "shard_start n w q \<le> x" "x < shard_start n w (q + 1)" for q
  proof (rule ccontr)
    assume "q \<noteq> r"
    then have "q + 1 \<le> r \<or> r + 1 \<le> q" by auto
    then show False
      using shard_start_mono [OF assms(1,2), of "q + 1" r] shard_start_mono [OF assms(1,2), of "r + 1" q]
        that r(3,4) by linarith
  qed
  with r show ?thesis by blast
qed

section \<open>Sharded fields\<close>

definition norm_dim :: "int \<Rightarrow> 'a list \<Rightarrow> nat" where
  "norm_dim d xs = nat (if d < 0 then d + int (length xs) else d)"

lemma mk_tensor_field_layout_eq:
  assumes "mk_tensor_field_layout p ls dt l (Some gs) (Some go) = Inr f"
  shows "f = \<lparr>fl_path = p, fl_local_shape = ls, fl_dtype = dt, fl_layout = l,
      fl_global_shape = gs, fl_global_offset = go\<rparr>"
  using assms by (auto simp: mk_tensor_field_layout_def Let_def split: if_splits)

lemma sharded_tensor_field_eq:
  assumes "sharded_tensor_field path gs dt sd w r = Inr f"
  shows "norm_dim sd gs < length gs" "0 \<le> r" "r < w" "0 \<le> gs ! norm_dim sd gs"
    "fl_global_shape f = gs" "fl_path f = path" "fl_dtype f = dt"
    "tl_kind (fl_layout f) = SHARDED"
    "fl_global_offset f = (zeros gs)[norm_dim sd gs := shard_start (gs ! norm_dim sd gs) w r]"
    "fl_local_shape f = gs[norm_dim sd gs :=
       shard_start (gs ! norm_dim sd gs) w (r + 1) - shard_start (gs ! norm_dim sd gs) w r]"
proof -
  define d where "d = norm_dim sd gs"
  let ?n = "gs ! d"
  from assms obtain off loc shard layout where
    d: "d < length gs" and
    b: "balanced_shard_bounds ?n w r = Inr (off, loc)" and
    l: "mk_tensor_layout SHARDED (Some shard) = Inr layout" and
    m: "mk_tensor_field_layout path (gs[d := loc]) dt layout (Some gs) (Some ((zeros gs)[d := off])) = Inr f"
    by (auto simp: sharded_tensor_field_def Let_def bind_res_eq_Inr norm_dim_def d_def split: if_splits)
  have r: "0 \<le> ?n" "0 \<le> r" "r < w" using b by (auto simp: balanced_shard_bounds_def split: if_splits)
  then have "off = shard_start ?n w r" "loc = shard_start ?n w (r + 1) - shard_start ?n w r"
    using b shard_start_Suc [of ?n w r] balanced_shard_bounds_ok [OF r]
    by (auto simp: shard_start_def)
  moreover have "tl_kind layout = SHARDED"
    using l by (auto simp: mk_tensor_layout_def)
  moreover note mk_tensor_field_layout_eq [OF m]
  ultimately show "norm_dim sd gs < length gs" "0 \<le> r" "r < w" "0 \<le> gs ! norm_dim sd gs"
    "fl_global_shape f = gs" "fl_path f = path" "fl_dtype f = dt"
    "tl_kind (fl_layout f) = SHARDED"
    "fl_global_offset f = (zeros gs)[norm_dim sd gs := shard_start (gs ! norm_dim sd gs) w r]"
    "fl_local_shape f = gs[norm_dim sd gs :=
       shard_start (gs ! norm_dim sd gs) w (r + 1) - shard_start (gs ! norm_dim sd gs) w r]"
    using d r by (simp_all add: d_def)
qed

lemma in_box_sharded:
  assumes "sharded_tensor_field path gs dt sd w r = Inr f"
  shows "in_box (fl_global_offset f) (fl_local_shape f) p \<longleftrightarrow>
     length p = length gs
     \<and> (\<forall>i < length gs. i \<noteq> norm_dim sd gs \<longrightarrow> 0 \<le> p ! i \<and> p ! i < gs ! i)
     \<and> shard_start (gs ! norm_dim sd gs) w r \<le> p ! norm_dim sd gs
     \<and> p ! norm_dim sd gs < shard_start (gs ! norm_dim sd gs) w (r + 1)"
  (is "?box \<longleftrightarrow> ?rhs")
proof -
  note eq = sharded_tensor_field_eq [OF assms]
  let ?d = "norm_dim sd gs"
  show ?thesis
  proof
    assume ?box
    then have len: "length p = length gs" and
      bnd: "\<And>i. i < length gs \<Longrightarrow> fl_global_offset f ! i \<le> p ! i
              \<and> p ! i < fl_global_offset f ! i + fl_local_shape f ! i"
      by (auto simp: in_box_nth eq(9,10))
    have "0 \<le> p ! i \<and> p ! i < gs ! i" if "i < length gs" "i \<noteq> ?d" for i
      using bnd [OF that(1)] that by (simp add: eq(9,10))
    then show ?rhs using len bnd [OF eq(1)] eq(1) by (simp add: eq(9,10))
  next
    assume ?rhs
    then show ?box using eq(1) by (auto simp: in_box_nth eq(9,10) nth_list_update)
  qed
qed

lemma in_box_zeros:
  "in_box (zeros gs) gs p \<longleftrightarrow> length p = length gs \<and> (\<forall>i < length gs. 0 \<le> p ! i \<and> p ! i < gs ! i)"
  by (auto simp: in_box_nth)

text \<open>
  The shards that the ranks of a sequence-parallel group hold partition the tensor: every
  element of the global tensor lies in the shard of exactly one rank.
\<close>

theorem sharded_fields_partition:
  assumes "\<And>r. 0 \<le> r \<Longrightarrow> r < w \<Longrightarrow> sharded_tensor_field path gs dt sd w r = Inr (F r)"
    and "0 < w" and "in_box (zeros gs) gs p"
  shows "\<exists>!r. 0 \<le> r \<and> r < w \<and> in_box (fl_global_offset (F r)) (fl_local_shape (F r)) p"
proof -
  let ?d = "norm_dim sd gs"
  have f0: "sharded_tensor_field path gs dt sd w 0 = Inr (F 0)" using assms(1,2) by simp
  note eq = sharded_tensor_field_eq [OF f0]
  have p: "length p = length gs" "\<And>i. i < length gs \<Longrightarrow> 0 \<le> p ! i \<and> p ! i < gs ! i"
    using assms(3) by (auto simp: in_box_zeros)
  have "in_box (fl_global_offset (F r)) (fl_local_shape (F r)) p \<longleftrightarrow>
      shard_start (gs ! ?d) w r \<le> p ! ?d \<and> p ! ?d < shard_start (gs ! ?d) w (r + 1)"
    if "0 \<le> r" "r < w" for r
    using in_box_sharded [OF assms(1) [OF that]] p by auto
  then have "(0 \<le> r \<and> r < w \<and> in_box (fl_global_offset (F r)) (fl_local_shape (F r)) p) \<longleftrightarrow>
      (0 \<le> r \<and> r < w \<and> shard_start (gs ! ?d) w r \<le> p ! ?d \<and> p ! ?d < shard_start (gs ! ?d) w (r + 1))" for r
    by blast
  then show ?thesis
    using shard_owner_unique [OF eq(4) assms(2), of "p ! ?d"] p(2) [OF eq(1)] by simp
qed

definition demo_field :: "int \<Rightarrow> tensor_field_layout" where
  "demo_field r = (case sharded_tensor_field [''latents''] [2, 5] ''f16'' 1 3 r of
     Inr f \<Rightarrow> f | Inl _ \<Rightarrow> \<lparr>fl_path = [], fl_local_shape = [], fl_dtype = [],
       fl_layout = REPLICATED_TENSOR_LAYOUT, fl_global_shape = [], fl_global_offset = []\<rparr>)"

lemma demo_field_ok:
  assumes "0 \<le> r" "r < 3"
  shows "sharded_tensor_field [''latents''] [2, 5] ''f16'' 1 3 r = Inr (demo_field r)"
proof -
  have "r = 0 \<or> r = 1 \<or> r = 2" using assms by auto
  then show ?thesis
    by (elim disjE)
      (simp_all add: demo_field_def sharded_tensor_field_def Let_def balanced_shard_bounds_def
        mk_tensor_shard_spec_def mk_tensor_layout_def mk_tensor_field_layout_def zeros_def)
qed

theorem sharded_fields_partition_witness:
  "\<exists>!r. 0 \<le> r \<and> r < 3 \<and> in_box (fl_global_offset (demo_field r)) (fl_local_shape (demo_field r)) [1, 4]"
  by (rule sharded_fields_partition [of 3 "[''latents'']" "[2, 5]" "''f16''" 1 demo_field])
    (simp_all add: demo_field_ok zeros_def)

end
