(* ===== verification/DataPlane.thy ===== *)
theory DataPlane
  imports ShardLayout MigrationEngine
begin

text \<open>
  The migration data plane (\<open>runtime_v2/data_plane.py\<close>): slices of tensors, the derivation of
  a migration schedule from the layouts that source and destination ranks describe, the
  point-to-point operations every rank posts for a schedule, and the gather of a sharded
  field. A tensor is a shape, an element type name and a function from indices to values;
  \<open>torch\<close> itself, the process groups and the device transport are not modelled.
\<close>

section \<open>Point-to-point transfers in bounded chunks\<close>

text \<open>
  \<open>_gfc_p2p_chunked\<close> moves a buffer of \<open>nbytes\<close> bytes in chunks of at most \<open>max_bytes\<close>. The
  chunks are the pairs (offset, length) handed to the transport, in order; the loop does not
  end when \<open>max_bytes\<close> is zero and bytes remain.
\<close>

partial_function (option) p2p_chunks_from :: "nat \<Rightarrow> nat \<Rightarrow> nat \<Rightarrow> (nat \<times> nat) list option" where
  "p2p_chunks_from max_bytes nbytes offset =
     (if offset < nbytes
      then let n = min max_bytes (nbytes - offset)
           in Option.bind (p2p_chunks_from max_bytes nbytes (offset + n)) (\<lambda>cs. Some ((offset, n) # cs))
      else Some [])"

definition gfc_p2p_chunked :: "nat \<Rightarrow> nat \<Rightarrow> (nat \<times> nat) list option" where
  "gfc_p2p_chunked max_bytes nbytes = p2p_chunks_from max_bytes nbytes 0"

section \<open>Tensors and slices\<close>

record 'v tensor =
  tn_shape :: "int list"
  tn_dtype :: string
  tn_data :: "int list \<Rightarrow> 'v"

text \<open>
  \<open>known\<close> tells which attribute names of the \<open>torch\<close> module are element types.
\<close>

definition parse_torch_dtype :: "(string \<Rightarrow> bool) \<Rightarrow> string \<Rightarrow> string res" where
  "parse_torch_dtype known s =
     (let name = (if take 6 s = ''torch.'' then drop 6 s else s)
      in if known name then Inr name else Inl ValueError)"

text \<open>\<open>zip(..., strict=True)\<close> raises when the lengths differ.\<close>

definition zip_strict :: "'a list \<Rightarrow> 'b list \<Rightarrow> ('a \<times> 'b) list res" where
  "zip_strict xs ys = (if length xs = length ys then Inr (zip xs ys) else Inl ValueError)"

text \<open>\<open>slice_tuple\<close>: the half-open bounds per dimension.\<close>

definition slice_tuple :: "int list \<Rightarrow> int list \<Rightarrow> (int \<times> int) list res" where
  "slice_tuple off shp = bind_res (zip_strict off shp) (\<lambda>z. Inr (map (\<lambda>(f, s). (f, f + s)) z))"

text \<open>The view of a tensor at an offset, as a tensor of its own.\<close>

definition view_at :: "'v tensor \<Rightarrow> int list \<Rightarrow> int list \<Rightarrow> 'v tensor" where
  "view_at t off shp =
     \<lparr>tn_shape = shp, tn_dtype = tn_dtype t, tn_data = (\<lambda>p. tn_data t (vadd p off))\<rparr>"

definition tensor_slice_view ::
  "(string \<Rightarrow> bool) \<Rightarrow> 'v tensor \<Rightarrow> tensor_slice_spec \<Rightarrow> 'v tensor res" where
  "tensor_slice_view known t spec =
     bind_res (parse_torch_dtype known (ts_dtype spec)) (\<lambda>dt.
       if tn_dtype t \<noteq> dt then Inl RuntimeError
       else if length (ts_offset spec) \<noteq> length (tn_shape t)
               \<or> length (ts_shape spec) \<noteq> length (tn_shape t) then Inl RuntimeError
       else if \<exists>i < length (tn_shape t). ts_offset spec ! i + ts_shape spec ! i > tn_shape t ! i
         then Inl RuntimeError
       else Inr (view_at t (ts_offset spec) (ts_shape spec)))"

text \<open>
  The shape of the Python slice \<open>t[off : off + shp]\<close>, which is clipped at the bounds of the
  tensor, and \<open>copy_\<close>, which broadcasts a source dimension of length one and raises when the
  shapes do not fit.
\<close>

definition clipped_shape :: "int list \<Rightarrow> int list \<Rightarrow> int list \<Rightarrow> int list" where
  "clipped_shape off shp dims =
     map2 (\<lambda>(f, s) d. max 0 (min (f + s) d - min f d)) (zip off shp) dims"

definition broadcast_index :: "int list \<Rightarrow> int list \<Rightarrow> int list" where
  "broadcast_index sshape p = map2 (\<lambda>s i. if s = 1 then 0 else i) sshape p"

definition copy_tensor_slice ::
  "'v tensor \<Rightarrow> int list \<Rightarrow> 'v tensor \<Rightarrow> int list \<Rightarrow> int list \<Rightarrow> 'v tensor res" where
  "copy_tensor_slice dst dst_off src src_off shp =
     (if \<exists>d \<in> set shp. d = 0 then Inr dst
      else
        bind_res (slice_tuple dst_off shp) (\<lambda>_.
        bind_res (slice_tuple src_off shp) (\<lambda>_.
          if length shp \<noteq> length (tn_shape dst) \<or> length shp \<noteq> length (tn_shape src)
            then Inl IndexError
          else
            let ds = clipped_shape dst_off shp (tn_shape dst);
                ss = clipped_shape src_off shp (tn_shape src)
            in if \<exists>i < length ds. ss ! i \<noteq> ds ! i \<and> ss ! i \<noteq> 1 then Inl RuntimeError
               else Inr (dst\<lparr>tn_data := (\<lambda>p.
                      if in_box dst_off ds p
                      then tn_data src (vadd (broadcast_index ss (vsub p dst_off)) src_off)
                      else tn_data dst p)\<rparr>))))"

fun tensor_numel :: "int list \<Rightarrow> int" where
  "tensor_numel [] = 1"
| "tensor_numel (d # ds) = d * tensor_numel ds"

section \<open>Building the schedule\<close>

definition supported_layout :: "tensor_layout_kind \<Rightarrow> bool" where
  "supported_layout k \<longleftrightarrow> k = REPLICATED \<or> k = SHARDED"

definition validate_migration_field_pair ::
  "tensor_field_layout \<Rightarrow> tensor_field_layout \<Rightarrow> unit res" where
  "validate_migration_field_pair src dst =
     (if \<not> supported_layout (tl_kind (fl_layout src)) then Inl NotImplementedError
      else if \<not> supported_layout (tl_kind (fl_layout dst)) then Inl NotImplementedError
      else if fl_dtype src \<noteq> fl_dtype dst then Inl RuntimeError
      else if fl_global_shape src \<noteq> fl_global_shape dst then Inl RuntimeError
      else Inr ())"

text \<open>
  The loop of \<open>intersect_field_slices\<close>: it stops at the first empty dimension, and the strict
  zip raises when one of the four tuples ends early.
\<close>

fun intersect_dims ::
  "int list \<Rightarrow> int list \<Rightarrow> int list \<Rightarrow> int list \<Rightarrow> (int list \<times> int list) option res" where
  "intersect_dims [] [] [] [] = Inr (Some ([], []))"
| "intersect_dims (so # sos) (sl # sls) (do # dos) (dl # dls) =
     (let s = max so do; e = min (so + sl) (do + dl)
      in if e \<le> s then Inr None
         else bind_res (intersect_dims sos sls dos dls)
           (\<lambda>r. Inr (map_option (\<lambda>(ss, ls). (s # ss, (e - s) # ls)) r)))"
| "intersect_dims _ _ _ _ = Inl ValueError"

definition intersect_field_slices ::
  "tensor_field_layout \<Rightarrow> tensor_field_layout \<Rightarrow> (int list \<times> int list) option res" where
  "intersect_field_slices src dst =
     intersect_dims (fl_global_offset src) (fl_local_shape src)
       (fl_global_offset dst) (fl_local_shape dst)"

type_synonym src_entry = "int \<times> tensor_field_layout"

text \<open>\<open>min(entries, key=lambda item: item[0])\<close>: the first entry of least rank.\<close>

fun min_rank_entry :: "src_entry \<Rightarrow> src_entry list \<Rightarrow> src_entry" where
  "min_rank_entry b [] = b"
| "min_rank_entry b (x # xs) = min_rank_entry (if fst x < fst b then x else b) xs"

type_synonym slice_key = "int list \<times> int list \<times> int list \<times> string"

definition slice_key :: "tensor_field_layout \<Rightarrow> slice_key" where
  "slice_key f = (fl_global_offset f, fl_local_shape f, fl_global_shape f, fl_dtype f)"

definition dedup_step ::
  "int \<Rightarrow> int \<Rightarrow> src_entry \<Rightarrow> (slice_key \<times> src_entry) list \<Rightarrow> (slice_key \<times> src_entry) list" where
  "dedup_step dst_rank leader x d =
     (case map_of d (slice_key (snd x)) of
        None \<Rightarrow> dict_set d (slice_key (snd x)) x
      | Some prev \<Rightarrow>
          if fst prev = dst_rank then d
          else if fst x = dst_rank \<or> (fst prev \<noteq> leader \<and> fst x = leader) \<or> fst x < fst prev
            then dict_set d (slice_key (snd x)) x
          else d)"

definition select_source_fields_for_dst ::
  "src_entry list \<Rightarrow> int \<Rightarrow> int \<Rightarrow> src_entry list" where
  "select_source_fields_for_dst entries dst_rank leader =
     (case filter (\<lambda>(r, f). tl_kind (fl_layout f) = REPLICATED) entries of
        x # xs \<Rightarrow>
          (case filter (\<lambda>(r, f). r = dst_rank) (x # xs) of
             y # _ \<Rightarrow> [y]
           | [] \<Rightarrow> (case filter (\<lambda>(r, f). r = leader) (x # xs) of
                       y # _ \<Rightarrow> [y]
                     | [] \<Rightarrow> [min_rank_entry x xs]))
      | [] \<Rightarrow> sort_key (\<lambda>(r, f). (fl_global_offset f, r))
                (map snd (fold (dedup_step dst_rank leader) entries [])))"

text \<open>The helper kept for replicated fields; the tables are per rank and per field path.\<close>

definition select_replicated_source_field ::
  "string list \<Rightarrow> int \<Rightarrow> (int \<times> (string list \<times> tensor_field_layout) list) list \<Rightarrow> int
   \<Rightarrow> (int \<times> tensor_field_layout) res" where
  "select_replicated_source_field path dst_rank by_rank leader =
     (let look = (\<lambda>r. Option.bind (map_of by_rank r) (\<lambda>m. map_of m path))
      in case look dst_rank of
           Some f \<Rightarrow> Inr (dst_rank, f)
         | None \<Rightarrow> (case look leader of
             Some f \<Rightarrow> Inr (leader, f)
           | None \<Rightarrow> (case filter (\<lambda>r. look r \<noteq> None) (sort (map fst by_rank)) of
               [] \<Rightarrow> Inl RuntimeError
             | r # _ \<Rightarrow> (case look r of Some f \<Rightarrow> Inr (r, f) | None \<Rightarrow> Inl RuntimeError))))"

text \<open>The edge for one selected source field, or nothing when it does not meet the destination.\<close>

definition edge_for_source ::
  "string \<Rightarrow> int \<Rightarrow> tensor_field_layout \<Rightarrow> src_entry \<Rightarrow> tensor_migration_edge option res" where
  "edge_for_source aid dst_rank dst x =
     (case x of (src_rank, src) \<Rightarrow>
        bind_res (validate_migration_field_pair src dst) (\<lambda>_.
        bind_res (intersect_field_slices src dst) (\<lambda>inter.
        case inter of
          None \<Rightarrow> Inr None
        | Some (goff, shp) \<Rightarrow>
            if \<exists>d \<in> set shp. d = 0 then Inr None
            else
              bind_res (zip_strict goff (fl_global_offset src)) (\<lambda>zs.
              bind_res (zip_strict goff (fl_global_offset dst)) (\<lambda>zd.
              bind_res (mk_tensor_slice_spec (fl_path src) (map (\<lambda>(a, b). a - b) zs) shp (fl_dtype src)) (\<lambda>ss.
              bind_res (mk_tensor_slice_spec (fl_path dst) (map (\<lambda>(a, b). a - b) zd) shp (fl_dtype dst)) (\<lambda>ds.
              bind_res (mk_tensor_migration_edge aid src_rank dst_rank ss ds (src_rank = dst_rank)) (\<lambda>e.
                Inr (Some e)))))))))"

definition edges_for_field ::
  "string \<Rightarrow> int list \<Rightarrow> src_entry list \<Rightarrow> int \<Rightarrow> tensor_field_layout \<Rightarrow> tensor_migration_edge list res" where
  "edges_for_field aid src_ranks entries dst_rank dst =
     (if entries = [] then Inl RuntimeError
      else case src_ranks of
        [] \<Rightarrow> Inl IndexError
      | leader # _ \<Rightarrow>
        bind_res (for_res (\<lambda>es x. bind_res (edge_for_source aid dst_rank dst x)
                     (\<lambda>eo. Inr (case eo of None \<Rightarrow> es | Some e \<Rightarrow> es @ [e])))
                   [] (select_source_fields_for_dst entries dst_rank leader))
          (\<lambda>es. if es = [] \<and> tensor_numel (fl_local_shape dst) > 0 then Inl RuntimeError else Inr es))"

record mig_command =
  mc_migrate_id :: string
  mc_plan :: migrate_plan
  mc_src_group :: group_spec
  mc_dst_group :: group_spec
  mc_layout_results :: "mig_result list"

text \<open>The layouts of an artifact by rank: a later layout of the same rank replaces an earlier one.\<close>

definition collect_layouts ::
  "(mig_result \<Rightarrow> output_artifact_layout list) \<Rightarrow> string \<Rightarrow> mig_result list
   \<Rightarrow> (int \<times> output_artifact_layout) list" where
  "collect_layouts sel aid results =
     fold (\<lambda>r d. fold (\<lambda>l d. if h_artifact_id (ol_handle l) = aid then dict_set d (r_rank r) l else d)
             (sel r) d) results []"

definition fields_by_path ::
  "(int \<times> output_artifact_layout) list \<Rightarrow> (int \<times> tensor_field_layout) list" where
  "fields_by_path layouts = concat (map (\<lambda>(r, l). map (\<lambda>f. (r, f)) (ol_tensors l)) layouts)"

definition edges_for_artifact :: "mig_command \<Rightarrow> migrate_spec \<Rightarrow> tensor_migration_edge list res" where
  "edges_for_artifact c spec =
     (let aid = h_artifact_id (mg_handle spec);
          srcs = collect_layouts r_src_layouts aid (mc_layout_results c);
          dsts = collect_layouts r_dst_layouts aid (mc_layout_results c)
      in if srcs = [] then Inl RuntimeError
         else if dsts = [] then Inl RuntimeError
         else
           for_res (\<lambda>es (dst_rank, dst).
             bind_res (edges_for_field aid (g_ranks (mc_src_group c))
                         (filter (\<lambda>(r, f). fl_path f = fl_path dst) (fields_by_path srcs)) dst_rank dst)
               (\<lambda>new. Inr (es @ new)))
             [] (fields_by_path dsts))"

definition participant_ranks :: "group_spec \<Rightarrow> group_spec \<Rightarrow> int list" where
  "participant_ranks a b = sorted_list_of_set (set (g_ranks a) \<union> set (g_ranks b))"

definition build_layout_migration_schedule :: "mig_command \<Rightarrow> artifact_migration_schedule res" where
  "build_layout_migration_schedule c =
     bind_res (for_res (\<lambda>es spec. bind_res (edges_for_artifact c spec) (\<lambda>new. Inr (es @ new)))
                 [] (mp_artifacts (mc_plan c)))
       (\<lambda>es. mk_artifact_migration_schedule (mc_migrate_id c) (mp_request_id (mc_plan c))
               (g_id (mc_src_group c)) (g_id (mc_dst_group c)) (g_ranks (mc_src_group c))
               (g_ranks (mc_dst_group c)) (participant_ranks (mc_src_group c) (mc_dst_group c)) es)"

section \<open>Executing a schedule\<close>

text \<open>
  \<open>_execute_migration_transfer\<close>: every rank walks the same sorted list of edges and performs
  the local copies, sends and receives that concern it.
\<close>

definition edge_key ::
  "tensor_migration_edge \<Rightarrow> string \<times> string list \<times> int \<times> int \<times> int list \<times> int list" where
  "edge_key e = (me_artifact_id e, ts_path (me_src_slice e), me_src_rank e, me_dst_rank e,
     ts_offset (me_src_slice e), ts_offset (me_dst_slice e))"

definition sorted_edges :: "tensor_migration_edge list \<Rightarrow> tensor_migration_edge list" where
  "sorted_edges es = sort_key edge_key es"

datatype p2p_op =
    LocalCopy tensor_migration_edge
  | SendTo int tensor_migration_edge
  | RecvFrom int tensor_migration_edge

definition edge_op :: "int \<Rightarrow> tensor_migration_edge \<Rightarrow> p2p_op list" where
  "edge_op r e =
     (if \<exists>d \<in> set (ts_shape (me_src_slice e)). d = 0 then []
      else if me_local_copy e
        then (if me_src_rank e = r \<and> me_dst_rank e = r then [LocalCopy e] else [])
      else if me_src_rank e = r then [SendTo (me_dst_rank e) e]
      else if me_dst_rank e = r then [RecvFrom (me_src_rank e) e]
      else [])"

definition rank_ops :: "int \<Rightarrow> tensor_migration_edge list \<Rightarrow> p2p_op list" where
  "rank_ops r es = concat (map (edge_op r) (sorted_edges es))"

text \<open>
  The tensors of the source ranks, by rank, destination artifact id and field path, and the
  slots a destination rank assembles. A delivered edge copies the slice of the source tensor,
  directly or through a buffer filled by the peer.
\<close>

type_synonym 'v src_store = "int \<Rightarrow> string \<times> string list \<Rightarrow> 'v tensor option"
type_synonym 'v slots = "string \<times> string list \<Rightarrow> 'v tensor option"

definition deliver ::
  "(string \<Rightarrow> bool) \<Rightarrow> 'v src_store \<Rightarrow> 'v slots \<Rightarrow> tensor_migration_edge \<Rightarrow> 'v slots res" where
  "deliver known src slots e =
     bind_res (dict_get (src (me_src_rank e)) (me_artifact_id e, ts_path (me_src_slice e))) (\<lambda>t.
     bind_res (tensor_slice_view known t (me_src_slice e)) (\<lambda>v.
     bind_res (dict_get slots (me_artifact_id e, ts_path (me_dst_slice e))) (\<lambda>d.
     bind_res (copy_tensor_slice d (ts_offset (me_dst_slice e)) v
                 (zeros (ts_shape (me_dst_slice e))) (ts_shape (me_dst_slice e)))
       (\<lambda>d'. Inr (slots((me_artifact_id e, ts_path (me_dst_slice e)) \<mapsto> d'))))))"

fun op_edge_in :: "p2p_op \<Rightarrow> tensor_migration_edge option" where
  "op_edge_in (LocalCopy e) = Some e"
| "op_edge_in (RecvFrom p e) = Some e"
| "op_edge_in (SendTo p e) = None"

fun is_local_op :: "p2p_op \<Rightarrow> bool" where
  "is_local_op (LocalCopy e) = True"
| "is_local_op _ = False"

text \<open>Local copies happen in the loop; received buffers are copied after all transfers are done.\<close>

definition incoming_edges :: "int \<Rightarrow> tensor_migration_edge list \<Rightarrow> tensor_migration_edge list" where
  "incoming_edges r es =
     List.map_filter op_edge_in (filter is_local_op (rank_ops r es))
     @ List.map_filter op_edge_in (filter (\<lambda>x. \<not> is_local_op x) (rank_ops r es))"

definition receive_tensors ::
  "(string \<Rightarrow> bool) \<Rightarrow> 'v src_store \<Rightarrow> int \<Rightarrow> tensor_migration_edge list \<Rightarrow> 'v slots \<Rightarrow> 'v slots res" where
  "receive_tensors known src r es slots = for_res (deliver known src) slots (incoming_edges r es)"

section \<open>Lemmas: chunks\<close>

lemma p2p_chunks_from_Some:
  assumes "0 < m"
  shows "\<exists>cs. p2p_chunks_from m n off = Some cs
     \<and> concat (map (\<lambda>(f, l). [f..<f + l]) cs) = [off..<n] \<and> (\<forall>(f, l) \<in> set cs. 0 < l \<and> l \<le> m)"
proof (induction "n - off" arbitrary: off rule: less_induct)
  case less
  show ?case
  proof (cases "off < n")
    case False
    then show ?thesis by (subst p2p_chunks_from.simps) simp
  next
    case True
    let ?l = "min m (n - off)"
    have l: "0 < ?l" "?l \<le> m" "off + ?l \<le> n" using assms True by auto
    then have dec: "n - (off + ?l) < n - off" by linarith
    obtain cs where cs: "p2p_chunks_from m n (off + ?l) = Some cs"
      "concat (map (\<lambda>(f, l). [f..<f + l]) cs) = [off + ?l..<n]" "\<forall>(f, l) \<in> set cs. 0 < l \<and> l \<le> m"
      using less [OF dec] by blast
    have "[off..<n] = [off..<off + ?l] @ [off + ?l..<n]"
      using upt_add_eq_append [of off "off + ?l" "n - (off + ?l)"] l(3) by simp
    then show ?thesis
      using True cs l by (subst p2p_chunks_from.simps) (auto simp: Let_def)
  qed
qed

section \<open>Lemmas: slices\<close>

lemma intersect_dims_Some:
  assumes "intersect_dims so sl do dl = Inr (Some (st, sh))"
  shows "length so = length st \<and> length sl = length st \<and> length do = length st
     \<and> length dl = length st \<and> length sh = length st \<and> (\<forall>d \<in> set sh. 0 < d)
     \<and> (\<forall>p. in_box st sh p \<longleftrightarrow> in_box so sl p \<and> in_box do dl p)
     \<and> (\<forall>i < length st. so ! i \<le> st ! i \<and> do ! i \<le> st ! i
           \<and> st ! i + sh ! i \<le> so ! i + sl ! i \<and> st ! i + sh ! i \<le> do ! i + dl ! i)"
  using assms
proof (induction so sl do dl arbitrary: st sh rule: intersect_dims.induct)
  case (2 so sos sl sls do dos dl dls)
  let ?s = "max so do" and ?e = "min (so + sl) (do + dl)"
  from "2.prems" obtain ss ls where
    ne: "\<not> ?e \<le> ?s" and r: "intersect_dims sos sls dos dls = Inr (Some (ss, ls))" and
    st: "st = ?s # ss" "sh = (?e - ?s) # ls"
    by (auto simp: Let_def bind_res_eq_Inr split: if_splits)
  note IH = "2.IH" [OF refl refl ne r]
  have "in_box st sh p \<longleftrightarrow> in_box (so # sos) (sl # sls) p \<and> in_box (do # dos) (dl # dls) p" for p
    using IH by (cases p) (auto simp: st)
  moreover have "(so # sos) ! i \<le> st ! i \<and> (do # dos) ! i \<le> st ! i
       \<and> st ! i + sh ! i \<le> (so # sos) ! i + (sl # sls) ! i
       \<and> st ! i + sh ! i \<le> (do # dos) ! i + (dl # dls) ! i" if "i < length st" for i
    using IH that by (cases i) (auto simp: st)
  moreover have "\<forall>d \<in> set sh. 0 < d" using IH ne by (auto simp: st)
  ultimately show ?case using IH by (auto simp: st)
qed auto

lemma intersect_dims_None:
  "intersect_dims so sl do dl = Inr None \<Longrightarrow> \<not> (in_box so sl p \<and> in_box do dl p)"
proof (induction so sl do dl arbitrary: p rule: intersect_dims.induct)
  case (2 so sos sl sls do dos dl dls)
  then show ?case by (cases p) (auto simp: Let_def bind_res_eq_Inr split: if_splits)
qed auto

lemma intersect_dims_total:
  "length so = length sl \<Longrightarrow> length so = length do \<Longrightarrow> length so = length dl \<Longrightarrow>
     \<exists>r. intersect_dims so sl do dl = Inr r"
proof (induction so arbitrary: sl do dl)
  case (Cons a so)
  show ?case
    using Cons.prems Cons.IH [of "tl sl" "tl do" "tl dl"]
    by (cases sl; cases do; cases dl) (auto simp: Let_def)
qed auto

text \<open>An edge derived from a source and a destination field, in global coordinates.\<close>

lemma edge_for_source_Some:
  assumes "edge_for_source aid dr dst (sr, src) = Inr (Some e)"
  shows "me_artifact_id e = aid \<and> me_src_rank e = sr \<and> me_dst_rank e = dr
     \<and> (me_local_copy e \<longleftrightarrow> sr = dr)
     \<and> ts_path (me_src_slice e) = fl_path src \<and> ts_path (me_dst_slice e) = fl_path dst
     \<and> ts_dtype (me_src_slice e) = fl_dtype src \<and> fl_dtype src = fl_dtype dst
     \<and> ts_shape (me_src_slice e) = ts_shape (me_dst_slice e)
     \<and> (\<forall>d \<in> set (ts_shape (me_dst_slice e)). 0 < d)
     \<and> (\<exists>goff. ts_offset (me_src_slice e) = vsub goff (fl_global_offset src)
          \<and> ts_offset (me_dst_slice e) = vsub goff (fl_global_offset dst)
          \<and> intersect_field_slices src dst = Inr (Some (goff, ts_shape (me_dst_slice e))))"
proof -
  from assms obtain goff shp zs zd ss ds where
    v: "validate_migration_field_pair src dst = Inr ()" and
    i: "intersect_field_slices src dst = Inr (Some (goff, shp))" and
    z: "zip_strict goff (fl_global_offset src) = Inr zs" "zip_strict goff (fl_global_offset dst) = Inr zd" and
    s: "mk_tensor_slice_spec (fl_path src) (map (\<lambda>(a, b). a - b) zs) shp (fl_dtype src) = Inr ss"
      "mk_tensor_slice_spec (fl_path dst) (map (\<lambda>(a, b). a - b) zd) shp (fl_dtype dst) = Inr ds" and
    e: "mk_tensor_migration_edge aid sr dr ss ds (sr = dr) = Inr e"
    by (auto elim!: bind_res_InrE simp: edge_for_source_def split: option.splits prod.splits if_splits)
  have "map (\<lambda>(a, b). a - b) zs = vsub goff (fl_global_offset src)"
    "map (\<lambda>(a, b). a - b) zd = vsub goff (fl_global_offset dst)"
    using z by (auto simp: zip_strict_def vsub_def split: if_splits)
  moreover have "e = \<lparr>me_artifact_id = aid, me_src_rank = sr, me_dst_rank = dr,
      me_src_slice = ss, me_dst_slice = ds, me_local_copy = (sr = dr)\<rparr>"
    using e by (auto simp: mk_tensor_migration_edge_def split: if_splits)
  moreover have "fl_dtype src = fl_dtype dst"
    using v by (auto simp: validate_migration_field_pair_def split: if_splits)
  moreover have "\<forall>d \<in> set shp. 0 < d"
    using intersect_dims_Some i unfolding intersect_field_slices_def by blast
  ultimately show ?thesis
    using mk_tensor_slice_spec_eq [OF s(1)] mk_tensor_slice_spec_eq [OF s(2)] i by simp
qed

lemma for_res_collect:
  assumes "for_res (\<lambda>es x. bind_res (f x) (\<lambda>eo. Inr (case eo of None \<Rightarrow> es | Some e \<Rightarrow> es @ [e]))) acc xs
      = Inr es"
  shows "set es = set acc \<union> {e. \<exists>x \<in> set xs. f x = Inr (Some e)} \<and> (\<forall>x \<in> set xs. \<exists>eo. f x = Inr eo)"
  using assms
proof (induction xs arbitrary: acc)
  case (Cons x xs)
  from Cons.prems obtain eo where eo: "f x = Inr eo" and
    rest: "for_res (\<lambda>es x. bind_res (f x) (\<lambda>eo. Inr (case eo of None \<Rightarrow> es | Some e \<Rightarrow> es @ [e])))
       (case eo of None \<Rightarrow> acc | Some e \<Rightarrow> acc @ [e]) xs = Inr es"
    by (auto simp: bind_res_eq_Inr)
  from Cons.IH [OF rest] eo show ?case by (cases eo) auto
qed auto

lemma edges_for_field_set:
  assumes "edges_for_field aid src_ranks entries dr dst = Inr es"
  shows "\<exists>leader. set es = {e. \<exists>x \<in> set (select_source_fields_for_dst entries dr leader).
           edge_for_source aid dr dst x = Inr (Some e)}
     \<and> (\<forall>x \<in> set (select_source_fields_for_dst entries dr leader).
           \<exists>eo. edge_for_source aid dr dst x = Inr eo)"
proof -
  from assms obtain leader where
    "for_res (\<lambda>es x. bind_res (edge_for_source aid dr dst x)
       (\<lambda>eo. Inr (case eo of None \<Rightarrow> es | Some e \<Rightarrow> es @ [e]))) []
       (select_source_fields_for_dst entries dr leader) = Inr es"
    by (auto simp: edges_for_field_def bind_res_eq_Inr split: if_splits list.splits)
  from for_res_collect [OF this] show ?thesis by auto
qed

subsection \<open>The selected sources cover what all sources cover\<close>

lemma min_rank_entry_in: "min_rank_entry b xs \<in> insert b (set xs)"
  by (induction b xs rule: min_rank_entry.induct) (auto split: if_splits)

definition dedup_inv :: "src_entry set \<Rightarrow> (slice_key \<times> src_entry) list \<Rightarrow> bool" where
  "dedup_inv S d \<longleftrightarrow> (\<forall>(k, x) \<in> set d. x \<in> S \<and> slice_key (snd x) = k) \<and> (\<forall>x \<in> S. slice_key (snd x) \<in> fst ` set d)"

lemma set_dict_set: "set (dict_set d k v) \<subseteq> insert (k, v) (set d)"
  by (induction d k v rule: dict_set.induct) auto

lemma dedup_step_inv:
  assumes "dedup_inv S d"
  shows "dedup_inv (insert x S) (dedup_step dr leader x d)"
proof -
  let ?k = "slice_key (snd x)"
  have keys: "fst ` set (dict_set d ?k x) = insert ?k (fst ` set d)"
    using dict_set_keys [of d ?k x] by simp
  have set: "dedup_inv (insert x S) (dict_set d ?k x)"
  proof -
    have "y \<in> insert x S \<and> slice_key (snd y) = k" if "(k, y) \<in> set (dict_set d ?k x)" for k y
      using that assms set_dict_set [of d ?k x] unfolding dedup_inv_def by blast
    moreover have "slice_key (snd y) \<in> fst ` set (dict_set d ?k x)" if "y \<in> insert x S" for y
      using that assms unfolding keys dedup_inv_def by blast
    ultimately show ?thesis unfolding dedup_inv_def by blast
  qed
  have same: "dedup_inv (insert x S) d" if "map_of d ?k = Some y" for y
    using assms map_of_SomeD [OF that] unfolding dedup_inv_def by force
  show ?thesis
    using set same by (auto simp: dedup_step_def split: option.splits)
qed

lemma dedup_fold_inv:
  "dedup_inv S d \<Longrightarrow> dedup_inv (S \<union> set xs) (fold (dedup_step dr leader) xs d)"
proof (induction xs arbitrary: S d)
  case (Cons x xs)
  from Cons.IH [OF dedup_step_inv [OF Cons.prems, of x dr leader]] show ?case by simp
qed simp

lemma filter_Cons_in: "filter P xs = y # ys \<Longrightarrow> y \<in> set xs"
  by (metis filter_is_subset list.set_intros(1) subset_iff)

lemma select_source_replicated:
  assumes "filter (\<lambda>(r, f). tl_kind (fl_layout f) = REPLICATED) entries = z # zs"
  shows "\<exists>y \<in> set (z # zs). select_source_fields_for_dst entries dr leader = [y]"
proof (cases "filter (\<lambda>(r, f). r = dr) (z # zs)")
  case (Cons y ys)
  then have "select_source_fields_for_dst entries dr leader = [y]"
    unfolding select_source_fields_for_dst_def assms list.case by simp
  then show ?thesis using filter_Cons_in [OF Cons] by blast
next
  case dr: Nil
  show ?thesis
  proof (cases "filter (\<lambda>(r, f). r = leader) (z # zs)")
    case (Cons y ys)
    then have "select_source_fields_for_dst entries dr leader = [y]"
      unfolding select_source_fields_for_dst_def assms list.case dr by simp
    then show ?thesis using filter_Cons_in [OF Cons] by blast
  next
    case Nil
    then have "select_source_fields_for_dst entries dr leader = [min_rank_entry z zs]"
      unfolding select_source_fields_for_dst_def assms list.case dr by simp
    then show ?thesis using min_rank_entry_in [of z zs] by simp
  qed
qed

lemma select_source_sharded:
  assumes "filter (\<lambda>(r, f). tl_kind (fl_layout f) = REPLICATED) entries = []"
  shows "set (select_source_fields_for_dst entries dr leader)
       = snd ` set (fold (dedup_step dr leader) entries [])"
    "dedup_inv (set entries) (fold (dedup_step dr leader) entries [])"
  using dedup_fold_inv [of "{}" "[]" entries dr leader]
  by (simp_all add: select_source_fields_for_dst_def assms dedup_inv_def)

lemma select_source_subset:
  "set (select_source_fields_for_dst entries dr leader) \<subseteq> set entries"
proof (cases "filter (\<lambda>(r, f). tl_kind (fl_layout f) = REPLICATED) entries")
  case Nil
  note sel = select_source_sharded [OF Nil, of dr leader]
  show ?thesis
  proof
    fix x assume "x \<in> set (select_source_fields_for_dst entries dr leader)"
    then obtain k where "(k, x) \<in> set (fold (dedup_step dr leader) entries [])"
      unfolding sel(1) by auto
    then show "x \<in> set entries" using sel(2) unfolding dedup_inv_def by blast
  qed
next
  case (Cons x xs)
  have "set (x # xs) \<subseteq> set entries" using Cons by (metis filter_is_subset)
  then show ?thesis using select_source_replicated [OF Cons, of dr leader] by auto
qed

lemma select_source_covers:
  assumes "x \<in> set entries"
  shows "\<exists>y \<in> set (select_source_fields_for_dst entries dr leader).
     slice_key (snd y) = slice_key (snd x) \<or> tl_kind (fl_layout (snd y)) = REPLICATED"
proof (cases "filter (\<lambda>(r, f). tl_kind (fl_layout f) = REPLICATED) entries")
  case Nil
  note sel = select_source_sharded [OF Nil, of dr leader]
  have "slice_key (snd x) \<in> fst ` set (fold (dedup_step dr leader) entries [])"
    using assms sel(2) unfolding dedup_inv_def by blast
  then obtain y where y: "(slice_key (snd x), y) \<in> set (fold (dedup_step dr leader) entries [])"
    by auto
  then have "slice_key (snd y) = slice_key (snd x)" using sel(2) unfolding dedup_inv_def by blast
  moreover have "y \<in> set (select_source_fields_for_dst entries dr leader)"
    unfolding sel(1) using y by (rule rev_image_eqI) simp
  ultimately show ?thesis by blast
next
  case (Cons z zs)
  obtain y where y: "y \<in> set (z # zs)" "select_source_fields_for_dst entries dr leader = [y]"
    using select_source_replicated [OF Cons] by blast
  have "tl_kind (fl_layout (snd y)) = REPLICATED"
    using y(1) unfolding Cons [symmetric] by auto
  then show ?thesis unfolding y(2) by simp
qed

section \<open>Lemmas: delivery\<close>

text \<open>Copying a slice that lies within both tensors.\<close>

definition slice_fits :: "int list \<Rightarrow> int list \<Rightarrow> int list \<Rightarrow> bool" where
  "slice_fits off shp dims \<longleftrightarrow> length off = length dims \<and> length shp = length dims
     \<and> (\<forall>i < length dims. 0 \<le> off ! i \<and> 0 \<le> shp ! i \<and> off ! i + shp ! i \<le> dims ! i)"

lemma clipped_shape_fits:
  assumes "slice_fits off shp dims"
  shows "clipped_shape off shp dims = shp"
  using assms by (intro nth_equalityI) (auto simp: clipped_shape_def slice_fits_def)

lemma broadcast_in_box:
  assumes "in_box off shp p"
  shows "broadcast_index shp (vsub p off) = vsub p off"
proof (rule nth_equalityI)
  show "length (broadcast_index shp (vsub p off)) = length (vsub p off)"
    using in_box_length [OF assms] by (simp add: broadcast_index_def)
  fix i assume "i < length (broadcast_index shp (vsub p off))"
  then show "broadcast_index shp (vsub p off) ! i = vsub p off ! i"
    using assms by (auto simp: broadcast_index_def in_box_nth)
qed

lemma copy_tensor_slice_fits:
  assumes "slice_fits doff shp (tn_shape dst)" "slice_fits soff shp (tn_shape src)"
    and "\<forall>d \<in> set shp. 0 < d"
  shows "copy_tensor_slice dst doff src soff shp = Inr (dst\<lparr>tn_data := (\<lambda>p.
     if in_box doff shp p then tn_data src (vadd (vsub p doff) soff) else tn_data dst p)\<rparr>)"
proof -
  have nz: "\<not> (\<exists>d \<in> set shp. d = 0)" using assms(3) by auto
  have len: "length doff = length shp" "length soff = length shp"
    "length shp = length (tn_shape dst)" "length shp = length (tn_shape src)"
    using assms(1,2) by (auto simp: slice_fits_def)
  have data: "(\<lambda>p. if in_box doff shp p
        then tn_data src (vadd (broadcast_index shp (vsub p doff)) soff) else tn_data dst p)
      = (\<lambda>p. if in_box doff shp p then tn_data src (vadd (vsub p doff) soff) else tn_data dst p)"
    by (auto simp: broadcast_in_box)
  show ?thesis
    unfolding copy_tensor_slice_def Let_def clipped_shape_fits [OF assms(1)]
      clipped_shape_fits [OF assms(2)] data
    using nz len by (simp add: slice_tuple_def zip_strict_def)
qed

text \<open>
  A source and a destination for an artifact field whose global contents are \<open>G\<close>: a tensor that
  holds the part of \<open>G\<close> its layout describes.
\<close>

definition holds ::
  "(string \<Rightarrow> bool) \<Rightarrow> (int list \<Rightarrow> 'v) \<Rightarrow> tensor_field_layout \<Rightarrow> 'v tensor \<Rightarrow> bool" where
  "holds known G f t \<longleftrightarrow> tn_shape t = fl_local_shape f
     \<and> parse_torch_dtype known (fl_dtype f) = Inr (tn_dtype t)
     \<and> (\<forall>p. in_box (zeros (fl_local_shape f)) (fl_local_shape f) p \<longrightarrow>
           tn_data t p = G (vadd p (fl_global_offset f)))"

text \<open>What an edge contributes to a destination field: part of \<open>G\<close> at the right place.\<close>

definition writes ::
  "(string \<Rightarrow> bool) \<Rightarrow> 'v src_store \<Rightarrow> (int list \<Rightarrow> 'v) \<Rightarrow> string \<Rightarrow> tensor_field_layout
   \<Rightarrow> tensor_migration_edge \<Rightarrow> bool" where
  "writes known src G aid dst e \<longleftrightarrow>
     me_artifact_id e = aid \<and> ts_path (me_dst_slice e) = fl_path dst
     \<and> (\<forall>d. tn_shape d = fl_local_shape dst \<longrightarrow>
          (\<exists>t v. src (me_src_rank e) (aid, ts_path (me_src_slice e)) = Some t
             \<and> tensor_slice_view known t (me_src_slice e) = Inr v
             \<and> copy_tensor_slice d (ts_offset (me_dst_slice e)) v
                 (zeros (ts_shape (me_dst_slice e))) (ts_shape (me_dst_slice e))
               = Inr (d\<lparr>tn_data := (\<lambda>p. if in_box (ts_offset (me_dst_slice e)) (ts_shape (me_dst_slice e)) p
                         then G (vadd p (fl_global_offset dst)) else tn_data d p)\<rparr>)))"

lemma edge_writes:
  assumes e: "edge_for_source aid dr dst (sr, sf) = Inr (Some e)"
    and wf: "field_wf sf" "field_wf dst"
    and src: "src sr (aid, fl_path sf) = Some t" "holds known G sf t"
  shows "writes known src G aid dst e"
proof -
  note props = edge_for_source_Some [OF e]
  let ?sh = "ts_shape (me_dst_slice e)" and ?so = "fl_global_offset sf" and ?do = "fl_global_offset dst"
  obtain goff where off: "ts_offset (me_src_slice e) = vsub goff ?so" "ts_offset (me_dst_slice e) = vsub goff ?do"
    and int: "intersect_dims ?so (fl_local_shape sf) ?do (fl_local_shape dst) = Inr (Some (goff, ?sh))"
    using props unfolding intersect_field_slices_def by blast
  note I = intersect_dims_Some [OF int]
  have len: "length ?so = length goff" "length ?do = length goff" "length ?sh = length goff"
    "length (fl_local_shape sf) = length goff" "length (fl_local_shape dst) = length goff"
    using I by auto
  have bnd: "?so ! i \<le> goff ! i \<and> ?do ! i \<le> goff ! i \<and> 0 < ?sh ! i
       \<and> goff ! i + ?sh ! i \<le> ?so ! i + fl_local_shape sf ! i
       \<and> goff ! i + ?sh ! i \<le> ?do ! i + fl_local_shape dst ! i" if "i < length goff" for i
    using I that by (metis nth_mem)
  have fit_s: "slice_fits (vsub goff ?so) ?sh (fl_local_shape sf)"
    and fit_d: "slice_fits (vsub goff ?do) ?sh (fl_local_shape dst)"
    unfolding slice_fits_def
    by (intro conjI allI impI; use bnd len in \<open>force dest: less_imp_le\<close>)+
  have view: "tensor_slice_view known t (me_src_slice e) = Inr (view_at t (vsub goff ?so) ?sh)"
    using src(2) props fit_s off
    by (auto simp: tensor_slice_view_def holds_def slice_fits_def not_less)
  have fit_v: "slice_fits (zeros ?sh) ?sh (tn_shape (view_at t (vsub goff ?so) ?sh))"
    using bnd len by (auto simp: slice_fits_def view_at_def less_imp_le)
  have val: "tn_data (view_at t (vsub goff ?so) ?sh) (vadd (vsub p (vsub goff ?do)) (zeros ?sh)) = G (vadd p ?do)"
    if p: "in_box (vsub goff ?do) ?sh p" for p
  proof -
    let ?q = "vadd (vsub p (vsub goff ?do)) (vsub goff ?so)"
    have pl: "length p = length goff" using in_box_length [OF p] len by simp
    have "in_box (zeros (fl_local_shape sf)) (fl_local_shape sf) ?q"
      unfolding in_box_nth
    proof (intro conjI allI impI)
      fix i assume "i < length ?q"
      then have i: "i < length goff" using len pl by simp
      have "goff ! i - ?do ! i \<le> p ! i" "p ! i < goff ! i - ?do ! i + ?sh ! i"
        using p i len pl by (auto simp: in_box_nth)
      then show "zeros (fl_local_shape sf) ! i \<le> ?q ! i"
        "?q ! i < zeros (fl_local_shape sf) ! i + fl_local_shape sf ! i"
        using bnd [OF i] i len pl by auto
    qed (use len pl in auto)
    then have "tn_data t ?q = G (vadd ?q ?so)" using src(2) by (simp add: holds_def)
    moreover have "vadd ?q ?so = vadd p ?do"
      using len pl by (intro nth_equalityI) auto
    moreover have "vadd (vsub p (vsub goff ?do)) (zeros ?sh) = vsub p (vsub goff ?do)"
      by (rule vadd_zeros) (use len pl in simp)
    ultimately show ?thesis by (simp add: view_at_def)
  qed
  have copy: "copy_tensor_slice d (ts_offset (me_dst_slice e)) (view_at t (vsub goff ?so) ?sh) (zeros ?sh) ?sh
      = Inr (d\<lparr>tn_data := (\<lambda>p. if in_box (ts_offset (me_dst_slice e)) ?sh p
               then G (vadd p ?do) else tn_data d p)\<rparr>)" if d: "tn_shape d = fl_local_shape dst" for d
  proof -
    have "slice_fits (vsub goff ?do) ?sh (tn_shape d)" using fit_d d by simp
    moreover have "(\<lambda>p. if in_box (vsub goff ?do) ?sh p
        then tn_data (view_at t (vsub goff ?so) ?sh) (vadd (vsub p (vsub goff ?do)) (zeros ?sh)) else tn_data d p)
      = (\<lambda>p. if in_box (vsub goff ?do) ?sh p then G (vadd p ?do) else tn_data d p)"
      by (auto simp: val)
    moreover have "\<forall>x \<in> set ?sh. 0 < x" using props by blast
    ultimately show ?thesis using copy_tensor_slice_fits [OF _ fit_v] by (simp only: off)
  qed
  have "src (me_src_rank e) (aid, ts_path (me_src_slice e)) = Some t" using props src(1) by simp
  then show ?thesis unfolding writes_def using props view copy by blast
qed

subsection \<open>Running a list of edges\<close>

type_synonym 'v contents = "string \<times> string list \<Rightarrow> int list \<Rightarrow> 'v"
type_synonym dst_fields = "string \<times> string list \<Rightarrow> tensor_field_layout option"

definition edge_slot :: "tensor_migration_edge \<Rightarrow> string \<times> string list" where
  "edge_slot e = (me_artifact_id e, ts_path (me_dst_slice e))"

definition edge_good ::
  "(string \<Rightarrow> bool) \<Rightarrow> 'v src_store \<Rightarrow> 'v contents \<Rightarrow> dst_fields \<Rightarrow> tensor_migration_edge \<Rightarrow> bool" where
  "edge_good known src G D e \<longleftrightarrow>
     (\<exists>f. D (edge_slot e) = Some f \<and> writes known src (G (edge_slot e)) (me_artifact_id e) f e)"

definition slots_ok :: "dst_fields \<Rightarrow> 'v slots \<Rightarrow> bool" where
  "slots_ok D slots \<longleftrightarrow>
     (\<forall>k f. D k = Some f \<longrightarrow> (\<exists>d. slots k = Some d \<and> tn_shape d = fl_local_shape f))"

text \<open>The value at a point of a slot is the one the global contents prescribe.\<close>

definition point_ok :: "'v contents \<Rightarrow> dst_fields \<Rightarrow> 'v slots \<Rightarrow> string \<times> string list \<Rightarrow> int list \<Rightarrow> bool" where
  "point_ok G D slots k p \<longleftrightarrow>
     (\<forall>f d. D k = Some f \<longrightarrow> slots k = Some d \<longrightarrow> tn_data d p = G k (vadd p (fl_global_offset f)))"

lemma deliver_good:
  assumes "edge_good known src G D e" "slots_ok D slots"
  shows "\<exists>slots'. deliver known src slots e = Inr slots' \<and> slots_ok D slots'
     \<and> (\<forall>k p. point_ok G D slots k p \<or>
            k = edge_slot e \<and> in_box (ts_offset (me_dst_slice e)) (ts_shape (me_dst_slice e)) p
          \<longrightarrow> point_ok G D slots' k p)"
proof -
  let ?k = "edge_slot e" and ?doff = "ts_offset (me_dst_slice e)" and ?sh = "ts_shape (me_dst_slice e)"
  from assms(1) obtain f where f: "D ?k = Some f" "writes known src (G ?k) (me_artifact_id e) f e"
    unfolding edge_good_def by blast
  from assms(2) f(1) obtain d where d: "slots ?k = Some d" "tn_shape d = fl_local_shape f"
    unfolding slots_ok_def by blast
  let ?d = "d\<lparr>tn_data := (\<lambda>p. if in_box ?doff ?sh p then G ?k (vadd p (fl_global_offset f)) else tn_data d p)\<rparr>"
  from f(2) d(2) obtain t v where
    "src (me_src_rank e) (me_artifact_id e, ts_path (me_src_slice e)) = Some t"
    "tensor_slice_view known t (me_src_slice e) = Inr v"
    "copy_tensor_slice d ?doff v (zeros ?sh) ?sh = Inr ?d"
    unfolding writes_def by blast
  then have run: "deliver known src slots e = Inr (slots(?k \<mapsto> ?d))"
    using d(1) by (simp add: deliver_def dict_get_def edge_slot_def)
  have "slots_ok D (slots(?k \<mapsto> ?d))"
    using assms(2) f(1) d(2) by (auto simp: slots_ok_def)
  moreover have "point_ok G D (slots(?k \<mapsto> ?d)) k p"
    if "point_ok G D slots k p \<or> k = ?k \<and> in_box ?doff ?sh p" for k p
    using that f(1) d(1) by (auto simp: point_ok_def)
  ultimately show ?thesis using run by blast
qed

lemma deliver_all:
  assumes "\<forall>e \<in> set es. edge_good known src G D e" "slots_ok D slots"
  shows "\<exists>slots'. for_res (deliver known src) slots es = Inr slots' \<and> slots_ok D slots'
     \<and> (\<forall>k p. point_ok G D slots k p \<or> (\<exists>e \<in> set es. k = edge_slot e
            \<and> in_box (ts_offset (me_dst_slice e)) (ts_shape (me_dst_slice e)) p)
          \<longrightarrow> point_ok G D slots' k p)"
  using assms
proof (induction es arbitrary: slots)
  case (Cons e es)
  from deliver_good [of known src G D e slots] Cons.prems obtain s1 where
    s1: "deliver known src slots e = Inr s1" "slots_ok D s1"
      "\<forall>k p. point_ok G D slots k p \<or>
            k = edge_slot e \<and> in_box (ts_offset (me_dst_slice e)) (ts_shape (me_dst_slice e)) p
          \<longrightarrow> point_ok G D s1 k p"
    by auto
  from Cons.IH [OF _ s1(2)] Cons.prems(1) obtain s2 where
    s2: "for_res (deliver known src) s1 es = Inr s2" "slots_ok D s2"
      "\<forall>k p. point_ok G D s1 k p \<or> (\<exists>e \<in> set es. k = edge_slot e
            \<and> in_box (ts_offset (me_dst_slice e)) (ts_shape (me_dst_slice e)) p)
          \<longrightarrow> point_ok G D s2 k p"
    by auto
  have "point_ok G D s2 k p" if "point_ok G D slots k p \<or> (\<exists>x \<in> set (e # es). k = edge_slot x
            \<and> in_box (ts_offset (me_dst_slice x)) (ts_shape (me_dst_slice x)) p)" for k p
    using that s1(3) s2(3) unfolding list.set(2) by blast
  moreover have "for_res (deliver known src) slots (e # es) = Inr s2" using s1(1) s2(1) by simp
  ultimately show ?case using s2(2) by blast
qed auto

subsection \<open>The edges of a schedule\<close>

lemma for_res_concat:
  assumes "for_res (\<lambda>es x. bind_res (g x) (\<lambda>new. Inr (es @ new))) acc xs = Inr es"
  shows "(\<forall>x \<in> set xs. \<exists>new. g x = Inr new)
     \<and> set es = set acc \<union> {e. \<exists>x \<in> set xs. \<exists>new. g x = Inr new \<and> e \<in> set new}"
  using assms
proof (induction xs arbitrary: acc)
  case (Cons x xs)
  from Cons.prems obtain new where new: "g x = Inr new" and
    rest: "for_res (\<lambda>es x. bind_res (g x) (\<lambda>new. Inr (es @ new))) (acc @ new) xs = Inr es"
    by (auto simp: bind_res_eq_Inr)
  from Cons.IH [OF rest] new show ?case by auto
qed auto

definition src_fields_of :: "mig_command \<Rightarrow> string \<Rightarrow> src_entry list" where
  "src_fields_of c aid = fields_by_path (collect_layouts r_src_layouts aid (mc_layout_results c))"

definition dst_fields_of :: "mig_command \<Rightarrow> string \<Rightarrow> src_entry list" where
  "dst_fields_of c aid = fields_by_path (collect_layouts r_dst_layouts aid (mc_layout_results c))"

abbreviation sources_at :: "mig_command \<Rightarrow> string \<Rightarrow> tensor_field_layout \<Rightarrow> src_entry list" where
  "sources_at c aid f \<equiv> filter (\<lambda>(r, g). fl_path g = fl_path f) (src_fields_of c aid)"

definition field_edges :: "mig_command \<Rightarrow> string \<Rightarrow> int \<Rightarrow> tensor_field_layout \<Rightarrow> tensor_migration_edge list res" where
  "field_edges c aid r f = edges_for_field aid (g_ranks (mc_src_group c)) (sources_at c aid f) r f"

lemma artifact_edges_set:
  assumes "edges_for_artifact c spec = Inr es"
  shows "(\<forall>(r, f) \<in> set (dst_fields_of c (h_artifact_id (mg_handle spec))).
            \<exists>new. field_edges c (h_artifact_id (mg_handle spec)) r f = Inr new)
     \<and> set es = {e. \<exists>(r, f) \<in> set (dst_fields_of c (h_artifact_id (mg_handle spec))).
            \<exists>new. field_edges c (h_artifact_id (mg_handle spec)) r f = Inr new \<and> e \<in> set new}"
proof -
  let ?aid = "h_artifact_id (mg_handle spec)"
  from assms have "for_res (\<lambda>es x. bind_res (case x of (r, f) \<Rightarrow> field_edges c ?aid r f)
      (\<lambda>new. Inr (es @ new))) [] (dst_fields_of c ?aid) = Inr es"
    by (simp add: edges_for_artifact_def Let_def field_edges_def src_fields_of_def dst_fields_of_def
        case_prod_unfold split: if_splits)
  from for_res_concat [OF this] show ?thesis by (auto simp: case_prod_unfold)
qed

lemma schedule_edges_set:
  assumes "build_layout_migration_schedule c = Inr S"
  shows "(\<forall>spec \<in> set (mp_artifacts (mc_plan c)). \<exists>es. edges_for_artifact c spec = Inr es)
     \<and> set (ms_edges S) = {e. \<exists>spec \<in> set (mp_artifacts (mc_plan c)). \<exists>es.
          edges_for_artifact c spec = Inr es \<and> e \<in> set es}"
proof -
  from assms obtain es where
    loop: "for_res (\<lambda>es spec. bind_res (edges_for_artifact c spec) (\<lambda>new. Inr (es @ new)))
             [] (mp_artifacts (mc_plan c)) = Inr es" and S: "ms_edges S = es"
    by (auto simp: build_layout_migration_schedule_def bind_res_eq_Inr
        mk_artifact_migration_schedule_def split: if_splits)
  from for_res_concat [OF loop] show ?thesis by (auto simp: S)
qed

subsection \<open>Covering a destination field\<close>

text \<open>
  The sources of a field jointly hold every element the destination needs, and a replicated
  source holds all of it by itself.
\<close>

definition sources_cover :: "src_entry list \<Rightarrow> tensor_field_layout \<Rightarrow> bool" where
  "sources_cover entries dst \<longleftrightarrow>
     (\<forall>q. in_box (fl_global_offset dst) (fl_local_shape dst) q \<longrightarrow>
        (\<exists>x \<in> set entries. in_box (fl_global_offset (snd x)) (fl_local_shape (snd x)) q)
        \<and> (\<forall>x \<in> set entries. tl_kind (fl_layout (snd x)) = REPLICATED \<longrightarrow>
              in_box (fl_global_offset (snd x)) (fl_local_shape (snd x)) q))"

lemma edge_for_source_meets:
  assumes "edge_for_source aid dr dst (sr, sf) = Inr eo"
    and "in_box (fl_global_offset sf) (fl_local_shape sf) q"
    and "in_box (fl_global_offset dst) (fl_local_shape dst) q"
  shows "\<exists>e. eo = Some e"
proof (cases eo)
  case None
  from assms(1) have "intersect_field_slices sf dst = Inr None
      \<or> (\<exists>g s. intersect_field_slices sf dst = Inr (Some (g, s)) \<and> (\<exists>d \<in> set s. d = 0))"
    unfolding None
    by (auto elim!: bind_res_InrE simp: edge_for_source_def split: option.splits prod.splits if_splits)
  then show ?thesis
  proof
    assume "intersect_field_slices sf dst = Inr None"
    then show ?thesis
      using intersect_dims_None assms(2,3) unfolding intersect_field_slices_def by blast
  next
    assume "\<exists>g s. intersect_field_slices sf dst = Inr (Some (g, s)) \<and> (\<exists>d \<in> set s. d = 0)"
    then obtain g s where "intersect_field_slices sf dst = Inr (Some (g, s))" "0 \<in> set s" by blast
    then show ?thesis
      using intersect_dims_Some unfolding intersect_field_slices_def by blast
  qed
qed simp

lemma in_box_vsub:
  assumes "in_box g sh (vadd p off)" "length off = length g" "length p = length off"
  shows "in_box (vsub g off) sh p"
  unfolding in_box_nth
proof (intro conjI allI impI)
  fix i assume i: "i < length p"
  have "g ! i \<le> p ! i + off ! i \<and> p ! i + off ! i < g ! i + sh ! i"
    using assms i by (auto simp: in_box_nth)
  then show "vsub g off ! i \<le> p ! i" "p ! i < vsub g off ! i + sh ! i"
    using assms i by auto
qed (use assms in_box_length [OF assms(1)] in auto)

lemma field_edges_cover:
  assumes "edges_for_field aid src_ranks entries dr dst = Inr es"
    and "sources_cover entries dst" "field_wf dst"
    and "in_box (zeros (fl_local_shape dst)) (fl_local_shape dst) p"
  shows "\<exists>e \<in> set es. in_box (ts_offset (me_dst_slice e)) (ts_shape (me_dst_slice e)) p"
proof -
  let ?off = "fl_global_offset dst" and ?q = "vadd p (fl_global_offset dst)"
  have len: "length p = length ?off" "length ?off = length (fl_local_shape dst)"
    using assms(3,4) in_box_length [OF assms(4)] by (auto simp: field_wf_def)
  have q: "in_box ?off (fl_local_shape dst) ?q"
    using assms(4) len by (auto simp: in_box_nth)
  from edges_for_field_set [OF assms(1)] obtain leader where
    es: "set es = {e. \<exists>x \<in> set (select_source_fields_for_dst entries dr leader).
           edge_for_source aid dr dst x = Inr (Some e)}" and
    tot: "\<forall>x \<in> set (select_source_fields_for_dst entries dr leader).
           \<exists>eo. edge_for_source aid dr dst x = Inr eo"
    by blast
  obtain x where x: "x \<in> set entries" "in_box (fl_global_offset (snd x)) (fl_local_shape (snd x)) ?q"
    using assms(2) q unfolding sources_cover_def by blast
  obtain y where y: "y \<in> set (select_source_fields_for_dst entries dr leader)"
    "slice_key (snd y) = slice_key (snd x) \<or> tl_kind (fl_layout (snd y)) = REPLICATED"
    using select_source_covers [OF x(1)] by blast
  have yq: "in_box (fl_global_offset (snd y)) (fl_local_shape (snd y)) ?q"
    using y(2)
  proof
    assume "slice_key (snd y) = slice_key (snd x)"
    then show ?thesis using x(2) by (simp add: slice_key_def)
  next
    assume "tl_kind (fl_layout (snd y)) = REPLICATED"
    then show ?thesis
      using assms(2) q y(1) select_source_subset unfolding sources_cover_def by blast
  qed
  obtain sr sf where sy: "y = (sr, sf)" by (cases y)
  obtain eo where "edge_for_source aid dr dst (sr, sf) = Inr eo" using tot y(1) sy by blast
  moreover from this obtain e where "eo = Some e"
    using edge_for_source_meets yq q sy by fastforce
  ultimately have e: "edge_for_source aid dr dst (sr, sf) = Inr (Some e)" by simp
  obtain g where g: "ts_offset (me_dst_slice e) = vsub g ?off"
    "intersect_dims (fl_global_offset sf) (fl_local_shape sf) ?off (fl_local_shape dst)
       = Inr (Some (g, ts_shape (me_dst_slice e)))"
    using edge_for_source_Some [OF e] unfolding intersect_field_slices_def by blast
  note I = intersect_dims_Some [OF g(2)]
  have "in_box g (ts_shape (me_dst_slice e)) ?q" using I yq q sy by auto
  then have "in_box (ts_offset (me_dst_slice e)) (ts_shape (me_dst_slice e)) p"
    unfolding g(1) by (rule in_box_vsub) (use I len in auto)
  moreover have "e \<in> set es" unfolding es using e y(1) sy by blast
  ultimately show ?thesis by blast
qed

subsection \<open>The transfer as a whole\<close>

definition plan_aids :: "mig_command \<Rightarrow> string list" where
  "plan_aids c = map (\<lambda>spec. h_artifact_id (mg_handle spec)) (mp_artifacts (mc_plan c))"

text \<open>The fields that destination rank \<open>r\<close> assembles, by artifact and path.\<close>

definition dst_table_list :: "mig_command \<Rightarrow> int \<Rightarrow> ((string \<times> string list) \<times> tensor_field_layout) list" where
  "dst_table_list c r = concat (map (\<lambda>aid. map (\<lambda>(r', f). ((aid, fl_path f), f))
     (filter (\<lambda>(r', f). r' = r) (dst_fields_of c aid))) (plan_aids c))"

definition dst_table :: "mig_command \<Rightarrow> int \<Rightarrow> dst_fields" where
  "dst_table c r = map_of (dst_table_list c r)"

text \<open>
  The state in which a transfer starts: layouts are well formed, every source tensor holds its
  part of the global contents \<open>G\<close>, the sources cover the destination fields, and a rank
  describes each field of an artifact once.
\<close>

definition migration_ready ::
  "(string \<Rightarrow> bool) \<Rightarrow> 'v src_store \<Rightarrow> 'v contents \<Rightarrow> mig_command \<Rightarrow> bool" where
  "migration_ready known src G c \<longleftrightarrow> (\<forall>aid \<in> set (plan_aids c).
     (\<forall>(r, f) \<in> set (src_fields_of c aid). field_wf f
        \<and> (\<exists>t. src r (aid, fl_path f) = Some t \<and> holds known (G (aid, fl_path f)) f t))
     \<and> (\<forall>(r, f) \<in> set (dst_fields_of c aid). field_wf f \<and> sources_cover (sources_at c aid f) f)
     \<and> (\<forall>(r, f) \<in> set (dst_fields_of c aid). \<forall>(r', f') \<in> set (dst_fields_of c aid).
           r = r' \<longrightarrow> fl_path f = fl_path f' \<longrightarrow> f = f'))"

lemma migration_readyD:
  assumes "migration_ready known src G c" "aid \<in> set (plan_aids c)"
  shows "(r, f) \<in> set (src_fields_of c aid) \<Longrightarrow> field_wf f"
    "(r, f) \<in> set (src_fields_of c aid) \<Longrightarrow>
       \<exists>t. src r (aid, fl_path f) = Some t \<and> holds known (G (aid, fl_path f)) f t"
    "(r, f) \<in> set (dst_fields_of c aid) \<Longrightarrow> field_wf f"
    "(r, f) \<in> set (dst_fields_of c aid) \<Longrightarrow> sources_cover (sources_at c aid f) f"
    "(r, f) \<in> set (dst_fields_of c aid) \<Longrightarrow> (r, f') \<in> set (dst_fields_of c aid) \<Longrightarrow>
       fl_path f = fl_path f' \<Longrightarrow> f = f'"
  using assms unfolding migration_ready_def by blast+

lemma dst_table_list_iff:
  "(k, f) \<in> set (dst_table_list c r) \<longleftrightarrow>
     fst k \<in> set (plan_aids c) \<and> snd k = fl_path f \<and> (r, f) \<in> set (dst_fields_of c (fst k))"
  by (cases k) (auto simp: dst_table_list_def)

lemma dst_table_Some:
  assumes "migration_ready known src G c"
  shows "dst_table c r k = Some f \<longleftrightarrow> (k, f) \<in> set (dst_table_list c r)"
proof
  assume m: "(k, f) \<in> set (dst_table_list c r)"
  then obtain g where g: "map_of (dst_table_list c r) k = Some g"
    by (meson weak_map_of_SomeI)
  have "g = f"
    using map_of_SomeD [OF g] m migration_readyD(5) [OF assms] unfolding dst_table_list_iff by metis
  then show "dst_table c r k = Some f" using g by (simp add: dst_table_def)
qed (simp add: dst_table_def map_of_SomeD)

lemma schedule_edge_cases:
  assumes "build_layout_migration_schedule c = Inr S" "e \<in> set (ms_edges S)"
  obtains aid r f new where "aid \<in> set (plan_aids c)" "(r, f) \<in> set (dst_fields_of c aid)"
    "field_edges c aid r f = Inr new" "e \<in> set new"
proof -
  from schedule_edges_set [OF assms(1)] assms(2) obtain spec es where
    spec: "spec \<in> set (mp_artifacts (mc_plan c))" "edges_for_artifact c spec = Inr es" "e \<in> set es"
    by blast
  from artifact_edges_set [OF spec(2)] spec(3) obtain r f new where
    "(r, f) \<in> set (dst_fields_of c (h_artifact_id (mg_handle spec)))"
    "field_edges c (h_artifact_id (mg_handle spec)) r f = Inr new" "e \<in> set new"
    by blast
  then show thesis using spec(1) by (intro that) (auto simp: plan_aids_def)
qed

lemma schedule_field_edges:
  assumes "build_layout_migration_schedule c = Inr S"
    and "aid \<in> set (plan_aids c)" "(r, f) \<in> set (dst_fields_of c aid)"
  obtains new where "field_edges c aid r f = Inr new" "set new \<subseteq> set (ms_edges S)"
proof -
  from assms(2) obtain spec where
    spec: "spec \<in> set (mp_artifacts (mc_plan c))" "aid = h_artifact_id (mg_handle spec)"
    by (auto simp: plan_aids_def)
  from schedule_edges_set [OF assms(1)] spec(1) obtain es where es: "edges_for_artifact c spec = Inr es"
    "set es \<subseteq> set (ms_edges S)" by blast
  from artifact_edges_set [OF es(1)] assms(3) obtain new where
    "field_edges c aid r f = Inr new" "set new \<subseteq> set es"
    unfolding spec(2) by blast
  then show thesis using es(2) that by blast
qed

lemma field_edges_props:
  assumes "migration_ready known src G c" "aid \<in> set (plan_aids c)" "(r, f) \<in> set (dst_fields_of c aid)"
    and "field_edges c aid r f = Inr new" "e \<in> set new"
  shows "me_dst_rank e = r" "edge_slot e = (aid, fl_path f)" "me_artifact_id e = aid"
    "me_local_copy e \<longleftrightarrow> me_src_rank e = me_dst_rank e"
    "\<forall>d \<in> set (ts_shape (me_src_slice e)). 0 < d"
    "writes known src (G (aid, fl_path f)) aid f e"
proof -
  let ?srcs = "sources_at c aid f"
  from edges_for_field_set [OF assms(4) [unfolded field_edges_def]] assms(5) obtain leader x where
    "x \<in> set (select_source_fields_for_dst ?srcs r leader)" "edge_for_source aid r f x = Inr (Some e)"
    by blast
  moreover from this have "x \<in> set ?srcs" using select_source_subset by blast
  ultimately obtain sr sf where x: "(sr, sf) \<in> set (src_fields_of c aid)" "fl_path sf = fl_path f"
    and e: "edge_for_source aid r f (sr, sf) = Inr (Some e)"
    by (cases x) auto
  note props = edge_for_source_Some [OF e]
  show "me_dst_rank e = r" "edge_slot e = (aid, fl_path f)" "me_artifact_id e = aid"
    "me_local_copy e \<longleftrightarrow> me_src_rank e = me_dst_rank e"
    "\<forall>d \<in> set (ts_shape (me_src_slice e)). 0 < d"
    using props by (simp_all add: edge_slot_def)
  from migration_readyD(2) [OF assms(1,2) x(1)] obtain t where
    "src sr (aid, fl_path sf) = Some t" "holds known (G (aid, fl_path sf)) sf t"
    by blast
  moreover note migration_readyD(1) [OF assms(1,2) x(1)] migration_readyD(3) [OF assms(1-3)]
  ultimately show "writes known src (G (aid, fl_path f)) aid f e"
    using edge_writes [OF e] x(2) by simp
qed

lemma map_filter_set: "set (List.map_filter g xs) = {y. \<exists>x \<in> set xs. g x = Some y}"
  by (induction xs) (auto simp: map_filter_simps split: option.splits)

lemma set_incoming_edges:
  "set (incoming_edges r es) = {e \<in> set es. op_edge_in ` set (edge_op r e) \<inter> {Some e} \<noteq> {}}"
proof -
  have own: "op_edge_in x = Some e' \<Longrightarrow> x \<in> set (edge_op r e) \<Longrightarrow> e' = e" for x e e'
    by (auto simp: edge_op_def split: if_splits)
  have "set (incoming_edges r es) = {e'. \<exists>e \<in> set es. \<exists>x \<in> set (edge_op r e). op_edge_in x = Some e'}"
    unfolding incoming_edges_def rank_ops_def sorted_edges_def set_append map_filter_set by auto
  then show ?thesis using own by blast
qed

lemma incoming_edges_dst:
  assumes "\<forall>e \<in> set es. (me_local_copy e \<longleftrightarrow> me_src_rank e = me_dst_rank e)
      \<and> (\<forall>d \<in> set (ts_shape (me_src_slice e)). 0 < d)"
  shows "set (incoming_edges r es) = {e \<in> set es. me_dst_rank e = r}"
proof -
  have "op_edge_in ` set (edge_op r e) \<inter> {Some e} \<noteq> {} \<longleftrightarrow> me_dst_rank e = r" if "e \<in> set es" for e
  proof -
    have "0 \<notin> set (ts_shape (me_src_slice e))" "me_local_copy e \<longleftrightarrow> me_src_rank e = me_dst_rank e"
      using assms that by auto
    then show ?thesis by (auto simp: edge_op_def)
  qed
  then show ?thesis unfolding set_incoming_edges by blast
qed

text \<open>
  C2: A migration moves the right data: when the source ranks hold the global contents of the
  artifact fields in the layouts they described and together cover the destination layouts,
  executing the schedule that the source leader built gives every destination rank tensors of the
  shapes of its own layout, filled at every index with the global contents at that place, whatever
  the layouts and parallel degrees on both sides; no step of it raises.
\<close>

theorem reshard_transfers_global_contents:
  assumes ready: "migration_ready known src G c"
    and sched: "build_layout_migration_schedule c = Inr S"
    and slots: "slots_ok (dst_table c r) slots"
  shows "\<exists>slots'. receive_tensors known src r (ms_edges S) slots = Inr slots'
     \<and> (\<forall>k f. dst_table c r k = Some f \<longrightarrow>
          (\<exists>t. slots' k = Some t \<and> tn_shape t = fl_local_shape f
             \<and> (\<forall>p. in_box (zeros (fl_local_shape f)) (fl_local_shape f) p \<longrightarrow>
                   tn_data t p = G k (vadd p (fl_global_offset f)))))"
proof -
  let ?D = "dst_table c r" and ?in = "incoming_edges r (ms_edges S)"
  note edge = field_edges_props [OF ready]
  have all: "(me_local_copy e \<longleftrightarrow> me_src_rank e = me_dst_rank e)
      \<and> (\<forall>d \<in> set (ts_shape (me_src_slice e)). 0 < d)" if "e \<in> set (ms_edges S)" for e
    using schedule_edge_cases [OF sched that] edge(4,5) by metis
  then have inc: "set ?in = {e \<in> set (ms_edges S). me_dst_rank e = r}"
    by (intro incoming_edges_dst) blast
  have "edge_good known src G ?D e" if "e \<in> set ?in" for e
  proof -
    have e: "e \<in> set (ms_edges S)" "me_dst_rank e = r" using that inc by auto
    from schedule_edge_cases [OF sched e(1)] obtain aid r' f new where
      c: "aid \<in> set (plan_aids c)" "(r', f) \<in> set (dst_fields_of c aid)"
        "field_edges c aid r' f = Inr new" "e \<in> set new" .
    note p = edge [OF c]
    have "?D (edge_slot e) = Some f"
      unfolding dst_table_Some [OF ready] dst_table_list_iff using c(1,2) p(1,2) e(2) by simp
    then show ?thesis unfolding edge_good_def using p(2,3,6) by auto
  qed
  then obtain slots' where
    run: "for_res (deliver known src) slots ?in = Inr slots'" "slots_ok ?D slots'" and
    pts: "\<And>k p. (\<exists>e \<in> set ?in. k = edge_slot e
            \<and> in_box (ts_offset (me_dst_slice e)) (ts_shape (me_dst_slice e)) p)
          \<Longrightarrow> point_ok G ?D slots' k p"
    using deliver_all [of ?in known src G ?D slots] slots by blast
  have "\<exists>t. slots' k = Some t \<and> tn_shape t = fl_local_shape f
      \<and> (\<forall>p. in_box (zeros (fl_local_shape f)) (fl_local_shape f) p \<longrightarrow>
            tn_data t p = G k (vadd p (fl_global_offset f)))" if k: "?D k = Some f" for k f
  proof -
    obtain t where t: "slots' k = Some t" "tn_shape t = fl_local_shape f"
      using run(2) k unfolding slots_ok_def by blast
    have d: "fst k \<in> set (plan_aids c)" "snd k = fl_path f" "(r, f) \<in> set (dst_fields_of c (fst k))"
      using k unfolding dst_table_Some [OF ready] dst_table_list_iff by auto
    obtain new where new: "field_edges c (fst k) r f = Inr new" "set new \<subseteq> set (ms_edges S)"
      by (rule schedule_field_edges [OF sched d(1,3)])
    have "tn_data t p = G k (vadd p (fl_global_offset f))"
      if p: "in_box (zeros (fl_local_shape f)) (fl_local_shape f) p" for p
    proof -
      obtain e where e: "e \<in> set new" "in_box (ts_offset (me_dst_slice e)) (ts_shape (me_dst_slice e)) p"
        using field_edges_cover [OF new(1) [unfolded field_edges_def]
            migration_readyD(4) [OF ready d(1,3)] migration_readyD(3) [OF ready d(1,3)] p] by blast
      note ep = edge [OF d(1,3) new(1) e(1)]
      have "e \<in> set ?in" "k = edge_slot e" using inc ep(1,2) e(1) new(2) d(2) by (auto simp: prod_eq_iff)
      then have "point_ok G ?D slots' k p" using pts e(2) by blast
      then show ?thesis using k t(1) unfolding point_ok_def by blast
    qed
    then show ?thesis using t by blast
  qed
  then show ?thesis using run(1) unfolding receive_tensors_def by blast
qed

section \<open>Posting order of the point-to-point operations\<close>

text \<open>The list \<open>p2p_ops\<close> a rank hands to the transport: its operations without the local copies.\<close>

definition p2p_ops :: "int \<Rightarrow> tensor_migration_edge list \<Rightarrow> p2p_op list" where
  "p2p_ops r es = filter (\<lambda>x. \<not> is_local_op x) (rank_ops r es)"

text \<open>
  With the symmetric-memory transport a put and the matching receive are a rendezvous: both
  ranks must have reached them. A state is what every rank still has to post.
\<close>

inductive rendezvous :: "(int \<Rightarrow> p2p_op list) \<Rightarrow> (int \<Rightarrow> p2p_op list) \<Rightarrow> bool" where
  meet: "s a = SendTo b e # xs \<Longrightarrow> s b = RecvFrom a e # ys \<Longrightarrow> a \<noteq> b \<Longrightarrow>
     rendezvous s (s(a := xs, b := ys))"

inductive_cases rendezvousE: "rendezvous s s'"

definition remote_ops :: "int \<Rightarrow> tensor_migration_edge list \<Rightarrow> p2p_op list" where
  "remote_ops r R = filter (\<lambda>x. \<not> is_local_op x) (concat (map (edge_op r) R))"

lemma remote_ops_simps [simp]:
  "remote_ops r [] = []"
  "remote_ops r (e # R) = filter (\<lambda>x. \<not> is_local_op x) (edge_op r e) @ remote_ops r R"
  "remote_ops r (R @ R') = remote_ops r R @ remote_ops r R'"
  by (simp_all add: remote_ops_def)

lemma remote_ops_edge:
  "filter (\<lambda>x. \<not> is_local_op x) (edge_op r e) =
     (if (\<exists>d \<in> set (ts_shape (me_src_slice e)). d = 0) \<or> me_local_copy e then []
      else if me_src_rank e = r then [SendTo (me_dst_rank e) e]
      else if me_dst_rank e = r then [RecvFrom (me_src_rank e) e] else [])"
  by (simp add: edge_op_def)

lemma remote_ops_Cons_split:
  assumes "remote_ops r R = x # xs"
  obtains pre e post where "R = pre @ e # post" "remote_ops r pre = []"
    "filter (\<lambda>x. \<not> is_local_op x) (edge_op r e) = [x]" "remote_ops r post = xs"
  using assms
proof (induction R arbitrary: thesis)
  case (Cons e R)
  show ?case
  proof (cases "filter (\<lambda>x. \<not> is_local_op x) (edge_op r e) = []")
    case True
    then have "remote_ops r R = x # xs" using Cons.prems(2) by simp
    then obtain pre e' post where "R = pre @ e' # post" "remote_ops r pre = []"
      "filter (\<lambda>x. \<not> is_local_op x) (edge_op r e') = [x]" "remote_ops r post = xs"
      using Cons.IH by blast
    then show ?thesis using Cons.prems(1) [of "e # pre" e' post] True by simp
  next
    case False
    then have "filter (\<lambda>x. \<not> is_local_op x) (edge_op r e) = [x]" "remote_ops r R = xs"
      using Cons.prems(2) by (auto simp: remote_ops_edge split: if_splits)
    then show ?thesis using Cons.prems(1) [of "[]" e R] by simp
  qed
qed simp

lemma rendezvous_removes:
  assumes "rendezvous (\<lambda>r. remote_ops r R) s'"
  shows "\<exists>e \<in> set R. s' = (\<lambda>r. remote_ops r (remove1 e R))"
proof -
  from assms obtain a b e xs ys where
    1: "s' = (\<lambda>r. remote_ops r R)(a := xs, b := ys)" "remote_ops a R = SendTo b e # xs"
      "remote_ops b R = RecvFrom a e # ys" "a \<noteq> b"
    by (rule rendezvousE) auto
  have first: "remote_ops r (remove1 e R) = zs"
    if ops: "remote_ops r R = x # zs" and x: "x = SendTo p e \<or> x = RecvFrom p e" for r x zs p
  proof -
    from remote_ops_Cons_split [OF ops] obtain pre e' post where
      sp: "R = pre @ e' # post" "remote_ops r pre = []"
        "filter (\<lambda>x. \<not> is_local_op x) (edge_op r e') = [x]" "remote_ops r post = zs" .
    have e': "e' = e" using sp(3) x by (auto simp: remote_ops_edge split: if_splits)
    have "e \<notin> set pre"
    proof
      assume "e \<in> set pre"
      then have "set (filter (\<lambda>x. \<not> is_local_op x) (edge_op r e)) \<subseteq> set (remote_ops r pre)"
        by (auto simp: remote_ops_def)
      then show False using sp(2,3) e' by simp
    qed
    then show ?thesis using sp e' by (simp add: remove1_append)
  qed
  have "me_src_rank e = a \<and> me_dst_rank e = b \<and> e \<in> set R"
  proof -
    from remote_ops_Cons_split [OF 1(2)] obtain pre e' post where
      sp: "R = pre @ e' # post" "filter (\<lambda>x. \<not> is_local_op x) (edge_op a e') = [SendTo b e]" by metis
    then show ?thesis by (auto simp: remote_ops_edge split: if_splits)
  qed
  then have ends: "me_src_rank e = a" "me_dst_rank e = b" "e \<in> set R" by auto
  have other: "remote_ops r (remove1 e R) = remote_ops r R" if "r \<noteq> a" "r \<noteq> b" for r
  proof -
    obtain pre post where "R = pre @ e # post" "e \<notin> set pre" using ends(3) by (meson split_list_first)
    moreover have "filter (\<lambda>x. \<not> is_local_op x) (edge_op r e) = []"
      using that ends by (simp add: remote_ops_edge)
    ultimately show ?thesis by (simp add: remove1_append)
  qed
  have "s' = (\<lambda>r. remote_ops r (remove1 e R))"
    unfolding 1(1) using first [OF 1(2)] first [OF 1(3)] other by (auto simp: fun_eq_iff)
  then show ?thesis using ends(3) by blast
qed

lemma rendezvous_reach:
  assumes "(rendezvous ^^ n) (\<lambda>r. remote_ops r R) s"
  shows "\<exists>R'. set R' \<subseteq> set R \<and> length R' + n = length R \<and> s = (\<lambda>r. remote_ops r R')"
  using assms
proof (induction n arbitrary: s)
  case (Suc n)
  then obtain s1 where s1: "(rendezvous ^^ n) (\<lambda>r. remote_ops r R) s1" "rendezvous s1 s" by auto
  from Suc.IH [OF s1(1)] obtain R' where
    R': "set R' \<subseteq> set R" "length R' + n = length R" "s1 = (\<lambda>r. remote_ops r R')" by blast
  from rendezvous_removes [of R' s] s1(2) R'(3) obtain e where
    e: "e \<in> set R'" "s = (\<lambda>r. remote_ops r (remove1 e R'))" by blast
  have "length (remove1 e R') + Suc n = length R"
  proof -
    have "length (remove1 e R') = length R' - 1" using e(1) by (simp add: length_remove1)
    then show ?thesis using R'(2) length_pos_if_in_set [OF e(1)] by linarith
  qed
  then show ?case using R'(1) set_remove1_subset [of e R'] e(2) by blast
qed auto

lemma rendezvous_enabled:
  assumes "\<forall>e \<in> set R. \<not> me_local_copy e \<longrightarrow> me_src_rank e \<noteq> me_dst_rank e" and "remote_ops r R \<noteq> []"
  shows "\<exists>s'. rendezvous (\<lambda>r. remote_ops r R) s'"
  using assms
proof (induction R)
  case (Cons e R)
  show ?case
  proof (cases "(\<exists>d \<in> set (ts_shape (me_src_slice e)). d = 0) \<or> me_local_copy e")
    case True
    then have "filter (\<lambda>x. \<not> is_local_op x) (edge_op q e) = []" for q by (simp add: remote_ops_edge)
    then show ?thesis using Cons by simp
  next
    case False
    let ?a = "me_src_rank e" and ?b = "me_dst_rank e"
    have "?a \<noteq> ?b" using Cons.prems(1) False by simp
    then have "remote_ops ?a (e # R) = SendTo ?b e # remote_ops ?a R"
      "remote_ops ?b (e # R) = RecvFrom ?a e # remote_ops ?b R"
      using False by (simp_all add: remote_ops_edge)
    from rendezvous.meet [of "\<lambda>r. remote_ops r (e # R)", OF this \<open>?a \<noteq> ?b\<close>] show ?thesis by blast
  qed
qed simp

text \<open>
  C10: The transfer phase cannot deadlock: all ranks post their sends and receives in one global
  order, so in every state reachable by completed rendezvous either every rank has finished or
  some pair of ranks can proceed; and the number of rendezvous is bounded by the number of edges.
\<close>

theorem transfer_deadlock_free:
  assumes "\<forall>e \<in> set es. \<not> me_local_copy e \<longrightarrow> me_src_rank e \<noteq> me_dst_rank e"
    and "(rendezvous ^^ n) (\<lambda>r. p2p_ops r es) s"
  shows "n \<le> length es \<and> ((\<forall>r. s r = []) \<or> (\<exists>s'. rendezvous s s'))"
proof -
  have "p2p_ops r es = remote_ops r (sorted_edges es)" for r
    by (simp add: p2p_ops_def rank_ops_def remote_ops_def)
  then have "(rendezvous ^^ n) (\<lambda>r. remote_ops r (sorted_edges es)) s" using assms(2) by simp
  from rendezvous_reach [OF this] obtain R where
    R: "set R \<subseteq> set (sorted_edges es)" "s = (\<lambda>r. remote_ops r R)" "length R + n = length es"
    by (auto simp: sorted_edges_def)
  have "set R \<subseteq> set es" using R(1) by (simp add: sorted_edges_def)
  then have "\<forall>e \<in> set R. \<not> me_local_copy e \<longrightarrow> me_src_rank e \<noteq> me_dst_rank e" using assms(1) by blast
  then have "(\<forall>r. s r = []) \<or> (\<exists>s'. rendezvous s s')" using rendezvous_enabled [of R] R(2) by blast
  then show ?thesis using R(3) by simp
qed

section \<open>Sequence-parallel groups cover their destinations\<close>

text \<open>
  A source group whose ranks describe a field with \<open>sp_sharded_tensor_field\<close> covers every
  well-formed destination field of the same global shape, whatever its own layout.
\<close>

lemma replicated_tensor_field_eq:
  assumes "replicated_tensor_field path gs dt = Inr f"
  shows "fl_global_offset f = zeros gs" "fl_local_shape f = gs" "fl_global_shape f = gs"
  using mk_tensor_field_layout_eq [OF assms [unfolded replicated_tensor_field_def]] by simp_all

lemma dst_box_in_global:
  assumes "field_wf dst" "in_box (fl_global_offset dst) (fl_local_shape dst) q"
  shows "in_box (zeros (fl_global_shape dst)) (fl_global_shape dst) q"
  unfolding in_box_nth
proof (intro conjI allI impI)
  have len: "length q = length (fl_global_shape dst)" "length (fl_global_offset dst) = length (fl_global_shape dst)"
    using assms in_box_length [OF assms(2)] by (auto simp: field_wf_def)
  then show "length (zeros (fl_global_shape dst)) = length q" "length (fl_global_shape dst) = length q"
    by simp_all
  fix i assume i: "i < length q"
  have "fl_global_offset dst ! i \<le> q ! i" "q ! i < fl_global_offset dst ! i + fl_local_shape dst ! i"
    using assms(2) i by (auto simp: in_box_nth)
  moreover have "0 \<le> fl_global_offset dst ! i"
    "fl_global_offset dst ! i + fl_local_shape dst ! i \<le> fl_global_shape dst ! i"
    using assms(1) i len by (auto simp: field_wf_def)
  ultimately show "zeros (fl_global_shape dst) ! i \<le> q ! i"
    "q ! i < zeros (fl_global_shape dst) ! i + fl_global_shape dst ! i"
    using i len by auto
qed

theorem sp_group_covers:
  assumes fields: "\<And>i. i < length rs \<Longrightarrow> sp_sharded_tensor_field g (int i) path gs dt sd = Inr (F i)"
    and size: "1 \<le> ps_sp (g_parallel g)" "ps_sp (g_parallel g) \<le> int (length rs)"
    and dst: "field_wf dst" "fl_global_shape dst = gs"
  shows "sources_cover (map (\<lambda>i. (rs ! i, F i)) [0..<length rs]) dst"
  unfolding sources_cover_def
proof (intro allI impI)
  fix q assume "in_box (fl_global_offset dst) (fl_local_shape dst) q"
  then have q: "in_box (zeros gs) gs q" using dst_box_in_global dst by blast
  let ?sp = "ps_sp (g_parallel g)" and ?E = "map (\<lambda>i. (rs ! i, F i)) [0..<length rs]"
  show "(\<exists>x \<in> set ?E. in_box (fl_global_offset (snd x)) (fl_local_shape (snd x)) q)
      \<and> (\<forall>x \<in> set ?E. tl_kind (fl_layout (snd x)) = REPLICATED \<longrightarrow>
              in_box (fl_global_offset (snd x)) (fl_local_shape (snd x)) q)"
  proof (cases "?sp = 1")
    case True
    then have "replicated_tensor_field path gs dt = Inr (F i)" if "i < length rs" for i
      using fields [OF that] by (simp add: sp_sharded_tensor_field_def)
    then have "in_box (fl_global_offset (F i)) (fl_local_shape (F i)) q" if "i < length rs" for i
      using replicated_tensor_field_eq q that by metis
    moreover have "0 < length rs" using size by linarith
    ultimately show ?thesis by force
  next
    case False
    have sh: "sharded_tensor_field path gs dt sd ?sp (int i mod ?sp) = Inr (F i)" if "i < length rs" for i
      using fields [OF that] size(1) False by (simp add: sp_sharded_tensor_field_def Let_def)
    have F: "sharded_tensor_field path gs dt sd ?sp r = Inr (F (nat r))" if "0 \<le> r" "r < ?sp" for r
      using sh [of "nat r"] that size by simp
    obtain r where r: "0 \<le> r" "r < ?sp" "in_box (fl_global_offset (F (nat r))) (fl_local_shape (F (nat r))) q"
    proof -
      let ?d = "norm_dim sd gs"
      note eq = sharded_tensor_field_eq [OF F [of 0]]
      have z: "0 < ?sp" using size(1) by simp
      have qd: "length q = length gs" "\<And>i. i < length gs \<Longrightarrow> 0 \<le> q ! i \<and> q ! i < gs ! i"
        using q by (auto simp: in_box_zeros)
      obtain r where "0 \<le> r" "r < ?sp" "shard_start (gs ! ?d) ?sp r \<le> q ! ?d"
        "q ! ?d < shard_start (gs ! ?d) ?sp (r + 1)"
        using shard_owner_unique [OF eq(4) z, of "q ! ?d"] qd(2) [OF eq(1)] z by auto
      then show thesis using that in_box_sharded [OF F] qd by blast
    qed
    have "tl_kind (fl_layout (F i)) = SHARDED" if "i < length rs" for i
      by (rule sharded_tensor_field_eq(8) [OF sh [OF that]])
    moreover have "nat r < length rs" using r(1,2) size by linarith
    ultimately show ?thesis using r(3) by force
  qed
qed

section \<open>A concrete migration\<close>

text \<open>
  A field of four elements moves from two shards (ranks 0 and 1) to one full copy on rank 2.
\<close>

definition ex_handle :: artifact_handle where
  "ex_handle = \<lparr>h_request_id = ''r'', h_artifact_id = ''state'', h_kind = REQUEST_STATE,
     h_layout = WORKER_LOCAL, h_producer_task_id = None, h_codec_id = Some ''c'', h_metadata = []\<rparr>"

definition ex_shard :: "int \<Rightarrow> tensor_field_layout" where
  "ex_shard r = \<lparr>fl_path = [''x''], fl_local_shape = [2], fl_dtype = ''f16'',
     fl_layout = \<lparr>tl_kind = SHARDED, tl_shard = Some \<lparr>sh_dim = 0\<rparr>\<rparr>,
     fl_global_shape = [4], fl_global_offset = [2 * r]\<rparr>"

definition ex_full :: tensor_field_layout where
  "ex_full = \<lparr>fl_path = [''x''], fl_local_shape = [4], fl_dtype = ''f16'',
     fl_layout = \<lparr>tl_kind = REPLICATED, tl_shard = None\<rparr>,
     fl_global_shape = [4], fl_global_offset = [0]\<rparr>"

definition ex_reply :: "int \<Rightarrow> tensor_field_layout list \<Rightarrow> tensor_field_layout list \<Rightarrow> mig_result" where
  "ex_reply r ss ds = \<lparr>r_mid = ''m'', r_phase = DESCRIBE_LAYOUT, r_rank = r, r_error = None,
     r_schedule = None, r_metadata_payloads = [],
     r_src_layouts = map (\<lambda>f. \<lparr>ol_handle = ex_handle, ol_tensors = [f]\<rparr>) ss,
     r_dst_layouts = map (\<lambda>f. \<lparr>ol_handle = ex_handle, ol_tensors = [f]\<rparr>) ds\<rparr>"

definition ex_command :: mig_command where
  "ex_command = \<lparr>mc_migrate_id = ''m'',
     mc_plan = \<lparr>mp_request_id = ''r'', mp_src_group_id = ''s'', mp_dst_group_id = ''d'',
       mp_artifacts = [\<lparr>mg_handle = ex_handle, mg_source_handle = None\<rparr>], mp_request_metadata = []\<rparr>,
     mc_src_group = demo_group ''s'' [0, 1], mc_dst_group = demo_group ''d'' [2],
     mc_layout_results = [ex_reply 0 [ex_shard 0] [], ex_reply 1 [ex_shard 1] [], ex_reply 2 [] [ex_full]]\<rparr>"

definition ex_src :: "int src_store" where
  "ex_src r k = (if r \<in> {0, 1} \<and> k = (''state'', [''x'']) then
     Some \<lparr>tn_shape = [2], tn_dtype = ''f16'', tn_data = (\<lambda>p. 10 * (hd p + 2 * r))\<rparr> else None)"

definition ex_contents :: "int contents" where
  "ex_contents k q = 10 * hd q"

definition ex_slots :: "int slots" where
  "ex_slots k = (if k = (''state'', [''x'']) then
     Some \<lparr>tn_shape = [4], tn_dtype = ''f16'', tn_data = (\<lambda>_. 0)\<rparr> else None)"

definition ex_known :: "string \<Rightarrow> bool" where
  "ex_known s \<longleftrightarrow> s = ''f16''"

definition ex_schedule :: artifact_migration_schedule where
  "ex_schedule = (case build_layout_migration_schedule ex_command of
     Inr S \<Rightarrow> S | Inl _ \<Rightarrow> \<lparr>ms_migrate_id = [], ms_request_id = [], ms_src_group_id = [], ms_dst_group_id = [],
       ms_src_ranks = [], ms_dst_ranks = [], ms_participant_ranks = [], ms_edges = []\<rparr>)"

lemmas ex_defs = ex_command_def ex_reply_def ex_handle_def demo_group_def demo_par_def

lemma ex_fields:
  "plan_aids ex_command = [''state'']"
  "src_fields_of ex_command ''state'' = [(0, ex_shard 0), (1, ex_shard 1)]"
  "dst_fields_of ex_command ''state'' = [(2, ex_full)]"
  by (simp_all add: plan_aids_def src_fields_of_def dst_fields_of_def collect_layouts_def fields_by_path_def ex_defs)

lemma ex_build: "build_layout_migration_schedule ex_command = Inr ex_schedule"
proof -
  have "\<exists>S. build_layout_migration_schedule ex_command = Inr S"
    by (simp add: build_layout_migration_schedule_def edges_for_artifact_def Let_def collect_layouts_def
        fields_by_path_def ex_defs edges_for_field_def select_source_fields_for_dst_def dedup_step_def
        slice_key_def ex_shard_def ex_full_def edge_for_source_def validate_migration_field_pair_def
        supported_layout_def intersect_field_slices_def zip_strict_def mk_tensor_slice_spec_def
        mk_tensor_migration_edge_def mk_artifact_migration_schedule_def)
  then show ?thesis by (auto simp: ex_schedule_def)
qed

lemma in_box_1: "in_box [f] [s] p \<longleftrightarrow> (\<exists>x. p = [x] \<and> f \<le> x \<and> x < f + s)"
  by (cases p; cases "tl p") auto

lemma ex_ready: "migration_ready ex_known ex_src ex_contents ex_command"
proof -
  have h: "holds ex_known (ex_contents k) (ex_shard r)
      \<lparr>tn_shape = [2], tn_dtype = ''f16'', tn_data = (\<lambda>p. 10 * (hd p + 2 * r))\<rparr>" for k r
    by (auto simp: holds_def ex_shard_def parse_torch_dtype_def ex_known_def ex_contents_def zeros_def
        vadd_def in_box_1)
  have cover: "sources_cover [(0, ex_shard 0), (1, ex_shard 1)] ex_full"
  proof -
    have "in_box [0] [2] q \<or> in_box [2] [2] q" if "in_box [0] [4] q" for q
      using that unfolding in_box_1 by force
    then show ?thesis unfolding sources_cover_def by (simp add: ex_full_def ex_shard_def)
  qed
  have path: "fl_path (ex_shard r) = [''x'']" "fl_path ex_full = [''x'']" for r
    by (simp_all add: ex_shard_def ex_full_def)
  have wf: "field_wf (ex_shard 0)" "field_wf (ex_shard 1)" "field_wf ex_full"
    by (simp_all add: ex_shard_def ex_full_def field_wf_def)
  have src: "ex_src r (''state'', [''x'']) =
      Some \<lparr>tn_shape = [2], tn_dtype = ''f16'', tn_data = (\<lambda>p. 10 * (hd p + 2 * r))\<rparr>" if "r = 0 \<or> r = 1" for r
    using that by (auto simp: ex_src_def)
  have "\<forall>x \<in> set (src_fields_of ex_command ''state''). field_wf (snd x) \<and>
      (\<exists>t. ex_src (fst x) (''state'', fl_path (snd x)) = Some t
         \<and> holds ex_known (ex_contents (''state'', fl_path (snd x))) (snd x) t)"
    using wf h [of _ 0] h [of _ 1] src [of 0] src [of 1] by (simp add: ex_fields path)
  then show ?thesis
    using wf(3) cover unfolding migration_ready_def by (simp add: ex_fields path case_prod_unfold)
qed

theorem reshard_transfers_global_contents_witness:
  "\<exists>slots'. receive_tensors ex_known ex_src 2 (ms_edges ex_schedule) ex_slots = Inr slots'
     \<and> (\<exists>t. slots' (''state'', [''x'']) = Some t \<and> tn_data t [3] = 30)"
proof -
  have tab: "dst_table ex_command 2 = [(''state'', [''x'']) \<mapsto> ex_full]"
    by (auto simp: dst_table_def dst_table_list_def ex_fields ex_full_def)
  have "slots_ok (dst_table ex_command 2) ex_slots"
    by (auto simp: tab slots_ok_def ex_slots_def ex_full_def)
  from reshard_transfers_global_contents [OF ex_ready ex_build this] show ?thesis
    by (auto simp: tab ex_full_def ex_contents_def vadd_def zeros_def split: if_splits)
qed

theorem transfer_deadlock_free_witness:
  "(\<forall>r. p2p_ops r (ms_edges ex_schedule) = []) \<or> (\<exists>s'. rendezvous (\<lambda>r. p2p_ops r (ms_edges ex_schedule)) s')"
proof -
  have "\<forall>e \<in> set (ms_edges ex_schedule). \<not> me_local_copy e \<longrightarrow> me_src_rank e \<noteq> me_dst_rank e"
    using schedule_edge_cases [OF ex_build] field_edges_props(4) [OF ex_ready] by metis
  from transfer_deadlock_free [OF this, of 0] show ?thesis by simp
qed

end
