(* ===== verification/SpGather.thy ===== *)
theory SpGather
  imports DataPlane
begin

text \<open>
  Storage of sharded fields inside a sequence-parallel group (\<open>runtime_v2/data_plane.py\<close>): a task's
  full output tensor is cut down to the rank's shard when it is stored, and the shards are
  all-gathered back when a later task reads them. The collective itself belongs to the
  distributed runtime: it hands every rank the list of the tensors of all ranks, in rank order.
\<close>

section \<open>Gathering\<close>

text \<open>\<open>torch.cat\<close> of two tensors along a dimension, and of a non-empty list of them.\<close>

definition cat2 :: "nat \<Rightarrow> 'v tensor \<Rightarrow> 'v tensor \<Rightarrow> 'v tensor" where
  "cat2 d a b = \<lparr>tn_shape = (tn_shape a)[d := tn_shape a ! d + tn_shape b ! d], tn_dtype = tn_dtype a,
     tn_data = (\<lambda>p. if p ! d < tn_shape a ! d then tn_data a p
                    else tn_data b (p[d := p ! d - tn_shape a ! d]))\<rparr>"

fun cat_list :: "nat \<Rightarrow> 'v tensor \<Rightarrow> 'v tensor list \<Rightarrow> 'v tensor" where
  "cat_list d t [] = t"
| "cat_list d t (u # us) = cat2 d t (cat_list d u us)"

text \<open>A shard padded with zeros to \<open>len\<close> along dimension \<open>d\<close>, and \<open>narrow(d, 0, len)\<close>.\<close>

definition pad_to :: "nat \<Rightarrow> int \<Rightarrow> ('v::zero) tensor \<Rightarrow> 'v tensor" where
  "pad_to d len t = \<lparr>tn_shape = (tn_shape t)[d := len], tn_dtype = tn_dtype t,
     tn_data = (\<lambda>p. if in_box (zeros (tn_shape t)) (tn_shape t) p then tn_data t p else 0)\<rparr>"

definition narrow_to :: "nat \<Rightarrow> int \<Rightarrow> 'v tensor \<Rightarrow> 'v tensor" where
  "narrow_to d len t = t\<lparr>tn_shape := (tn_shape t)[d := len]\<rparr>"

text \<open>
  \<open>shards\<close> are the local tensors of all ranks of the group and \<open>me\<close> is the position of this rank;
  \<open>junk\<close> stands for the contents of uninitialised memory.
\<close>

definition all_gather_sharded_tensor ::
  "(int list \<Rightarrow> 'v) \<Rightarrow> ('v::zero) tensor list \<Rightarrow> nat \<Rightarrow> tensor_field_layout \<Rightarrow> 'v tensor res" where
  "all_gather_sharded_tensor junk shards me f =
     (case tl_shard (fl_layout f) of
        None \<Rightarrow> Inl ValueError
      | Some shard \<Rightarrow>
          if length shards = 1 then Inr (shards ! me)
          else if sh_dim shard < 0 \<or> sh_dim shard \<ge> int (length (tn_shape (shards ! me))) then Inl ValueError
          else
            let d = nat (sh_dim shard);
                lens = map (\<lambda>t. tn_shape t ! d) shards;
                max_len = fold max lens 0;
                gathered = map (pad_to d max_len) shards;
                pieces = map (\<lambda>(t, len). narrow_to d len t)
                           (filter (\<lambda>(t, len). len > 0) (zip gathered lens));
                full = (case pieces of
                          [] \<Rightarrow> \<lparr>tn_shape = fl_global_shape f, tn_dtype = tn_dtype (shards ! me), tn_data = junk\<rparr>
                        | t # ts \<Rightarrow> cat_list d t ts)
            in if tn_shape full \<noteq> fl_global_shape f then Inl RuntimeError else Inr full)"

section \<open>Status of a field across the group\<close>

text \<open>The value found at a field path: absent, some other object, or a tensor.\<close>

datatype 'v field_value = Missing | NotATensor | IsTensor "'v tensor"

datatype field_status = SHARDED_FIELD_MISSING | SHARDED_FIELD_LOCAL | SHARDED_FIELD_GLOBAL | SHARDED_FIELD_INVALID

definition classify_sharded_field_tensor :: "'v field_value \<Rightarrow> tensor_field_layout \<Rightarrow> field_status" where
  "classify_sharded_field_tensor v f =
     (case v of
        Missing \<Rightarrow> SHARDED_FIELD_MISSING
      | NotATensor \<Rightarrow> SHARDED_FIELD_INVALID
      | IsTensor t \<Rightarrow>
          if tn_shape t = fl_local_shape f then SHARDED_FIELD_LOCAL
          else if tn_shape t = fl_global_shape f then SHARDED_FIELD_GLOBAL
          else SHARDED_FIELD_INVALID)"

definition validate_sharded_field_status :: "field_status list \<Rightarrow> 'v field_value \<Rightarrow> bool res" where
  "validate_sharded_field_status sts v =
     (if set sts = {SHARDED_FIELD_MISSING} then Inr False
      else if SHARDED_FIELD_INVALID \<in> set sts
        then (case v of IsTensor _ \<Rightarrow> Inl RuntimeError | _ \<Rightarrow> Inl TypeError)
      else if set sts = {SHARDED_FIELD_GLOBAL} then Inr False
      else if set sts \<noteq> {SHARDED_FIELD_LOCAL} then Inl RuntimeError
      else Inr True)"

text \<open>
  One field of \<open>materialize_input_artifact\<close> on the rank at position \<open>group_rank\<close> of its execution
  group. The statuses come from its sequence-parallel group only: \<open>vals\<close> are the values of the
  ranks of that group and \<open>lays\<close> their layouts of the field, in the order of that group, where
  this rank has position \<open>group_rank % sp\<close> (\<open>adapters/common.py\<close>, rank order tp-sp-pp-cfg-dp). The
  status of this rank is then looked up at \<open>group_rank\<close>, which is out of range for the ranks of
  a second branch of classifier-free guidance. The result is the value this rank keeps.
\<close>

definition materialize_field ::
  "(int list \<Rightarrow> 'v) \<Rightarrow> ('v::zero) field_value list \<Rightarrow> tensor_field_layout list \<Rightarrow> nat \<Rightarrow> 'v field_value res" where
  "materialize_field junk vals lays group_rank =
     (let me = group_rank mod length vals
      in if tl_kind (fl_layout (lays ! me)) \<noteq> SHARDED then Inr (vals ! me)
      else if length vals \<le> group_rank then Inl IndexError
      else
        bind_res (validate_sharded_field_status
                    (map2 classify_sharded_field_tensor vals lays) (vals ! me)) (\<lambda>gather.
          if \<not> gather then Inr (vals ! me)
          else case vals ! me of
            IsTensor _ \<Rightarrow>
              bind_res (all_gather_sharded_tensor junk
                 (map (\<lambda>v. case v of IsTensor t \<Rightarrow> t
                     | _ \<Rightarrow> \<lparr>tn_shape = [], tn_dtype = [], tn_data = junk\<rparr>) vals) me (lays ! me))
                (\<lambda>t. Inr (IsTensor t))
          | _ \<Rightarrow> Inl TypeError))"

text \<open>One field of \<open>shard_output_artifact\<close>.\<close>

definition shard_output_field ::
  "(string \<Rightarrow> bool) \<Rightarrow> 'v field_value \<Rightarrow> tensor_field_layout \<Rightarrow> 'v field_value res" where
  "shard_output_field known v f =
     (if tl_kind (fl_layout f) \<noteq> SHARDED then Inr v
      else case v of
        Missing \<Rightarrow> Inr v
      | NotATensor \<Rightarrow> Inl TypeError
      | IsTensor t \<Rightarrow>
          if tn_shape t = fl_local_shape f then Inr v
          else if tn_shape t \<noteq> fl_global_shape f then Inl RuntimeError
          else
            bind_res (mk_tensor_slice_spec (fl_path f) (fl_global_offset f) (fl_local_shape f) (fl_dtype f)) (\<lambda>spec.
            bind_res (tensor_slice_view known t spec) (\<lambda>u. Inr (IsTensor u))))"

section \<open>Lemmas\<close>

text \<open>Two tensors agree on every index within a shape.\<close>

definition same_tensor :: "'v tensor \<Rightarrow> 'v tensor \<Rightarrow> bool" where
  "same_tensor a b \<longleftrightarrow> tn_shape a = tn_shape b \<and> tn_dtype a = tn_dtype b
     \<and> (\<forall>p. in_box (zeros (tn_shape a)) (tn_shape a) p \<longrightarrow> tn_data a p = tn_data b p)"

text \<open>The part of a tensor between two positions of a dimension.\<close>

definition segment :: "nat \<Rightarrow> int \<Rightarrow> int \<Rightarrow> 'v tensor \<Rightarrow> 'v tensor" where
  "segment d a b t = \<lparr>tn_shape = (tn_shape t)[d := b - a], tn_dtype = tn_dtype t,
     tn_data = (\<lambda>p. tn_data t (p[d := p ! d + a]))\<rparr>"

lemma same_tensor_refl [simp]: "same_tensor a a"
  by (simp add: same_tensor_def)

lemma in_box_zeros_update:
  assumes "d < length s" "in_box (zeros (s[d := m + n])) (s[d := m + n]) p" "0 \<le> m"
  shows "p ! d < m \<Longrightarrow> in_box (zeros (s[d := m])) (s[d := m]) p"
    "\<not> p ! d < m \<Longrightarrow> in_box (zeros (s[d := n])) (s[d := n]) (p[d := p ! d - m])"
  using assms by (auto simp: in_box_nth nth_list_update)

lemma cat2_segments:
  assumes "same_tensor u (segment d a b t)" "same_tensor v (segment d b c t)"
    and "d < length (tn_shape t)" "a \<le> b"
  shows "same_tensor (cat2 d u v) (segment d a c t)"
  unfolding same_tensor_def
proof (intro conjI allI impI)
  have su: "tn_shape u = (tn_shape t)[d := b - a]" and sv: "tn_shape v = (tn_shape t)[d := c - b]"
    using assms(1,2) by (simp_all add: same_tensor_def segment_def)
  show sh: "tn_shape (cat2 d u v) = tn_shape (segment d a c t)"
    using assms(3) by (simp add: cat2_def su sv segment_def)
  show "tn_dtype (cat2 d u v) = tn_dtype (segment d a c t)"
    using assms(1) by (simp add: cat2_def same_tensor_def segment_def)
  fix p assume "in_box (zeros (tn_shape (cat2 d u v))) (tn_shape (cat2 d u v)) p"
  then have p: "in_box (zeros ((tn_shape t)[d := (b - a) + (c - b)])) ((tn_shape t)[d := (b - a) + (c - b)]) p"
    unfolding sh by (simp add: segment_def)
  have len: "d < length p" using in_box_length [OF p] assms(3) by simp
  have nn: "0 \<le> b - a" using assms(4) by simp
  note box = in_box_zeros_update [OF assms(3) p nn]
  show "tn_data (cat2 d u v) p = tn_data (segment d a c t) p"
  proof (cases "p ! d < b - a")
    case True
    then have "tn_data u p = tn_data (segment d a b t) p"
      using assms(1) box(1) su by (simp add: same_tensor_def)
    then show ?thesis using True assms(3) su by (simp add: cat2_def segment_def)
  next
    case False
    let ?q = "p[d := p ! d - (b - a)]"
    have "tn_data v ?q = tn_data (segment d b c t) ?q"
      using assms(2) box(2) [OF False] sv by (simp add: same_tensor_def)
    then show ?thesis using False assms(3) su len by (simp add: cat2_def segment_def algebra_simps)
  qed
qed

lemma segment_all: "d < length (tn_shape t) \<Longrightarrow> same_tensor (segment d 0 (tn_shape t ! d) t) t"
  by (simp add: same_tensor_def segment_def)

lemma same_tensor_trans: "same_tensor a b \<Longrightarrow> same_tensor b c \<Longrightarrow> same_tensor a c"
  by (auto simp: same_tensor_def)

text \<open>Padding a shard and narrowing it back changes nothing within its shape.\<close>

lemma narrow_pad: "d < length (tn_shape t) \<Longrightarrow> same_tensor (narrow_to d (tn_shape t ! d) (pad_to d m t)) t"
  by (auto simp: same_tensor_def narrow_to_def pad_to_def)

definition pieces_from :: "nat \<Rightarrow> int \<Rightarrow> (nat \<Rightarrow> ('v::zero) tensor) \<Rightarrow> nat list \<Rightarrow> 'v tensor list" where
  "pieces_from d m S is = map (\<lambda>i. narrow_to d (tn_shape (S i) ! d) (pad_to d m (S i)))
     (filter (\<lambda>i. tn_shape (S i) ! d > 0) is)"

lemma cat_pieces:
  assumes "\<And>i. i < w \<Longrightarrow> same_tensor (S i) (segment d (st i) (st (Suc i)) t)"
    and "\<And>i. i < w \<Longrightarrow> st i \<le> st (Suc i)" and d: "d < length (tn_shape t)" and "k \<le> w"
  shows "case pieces_from d m S [k..<w] of
      [] \<Rightarrow> st k = st w
    | u # us \<Rightarrow> same_tensor (cat_list d u us) (segment d (st k) (st w) t)"
  using assms(4)
proof (induction rule: inc_induct)
  case base
  show ?case by (simp add: pieces_from_def)
next
  case (step k)
  let ?p = "narrow_to d (tn_shape (S k) ! d) (pad_to d m (S k))"
  have sh: "tn_shape (S k) = (tn_shape t)[d := st (Suc k) - st k]"
    using assms(1) [OF step.hyps(2)] by (simp add: same_tensor_def segment_def)
  have list: "pieces_from d m S [k..<w] =
      (if 0 < st (Suc k) - st k then [?p] else []) @ pieces_from d m S [Suc k..<w]"
    using step.hyps(2) d by (simp add: pieces_from_def upt_conv_Cons sh)
  show ?case
  proof (cases "0 < st (Suc k) - st k")
    case False
    then have "st (Suc k) = st k" using assms(2) [OF step.hyps(2)] by simp
    then show ?thesis using step.IH list by (simp split: list.splits)
  next
    case True
    have p: "same_tensor ?p (segment d (st k) (st (Suc k)) t)"
      by (rule same_tensor_trans [OF narrow_pad assms(1) [OF step.hyps(2)]]) (simp add: sh d)
    show ?thesis
    proof (cases "pieces_from d m S [Suc k..<w]")
      case Nil
      then show ?thesis using step.IH list p True by simp
    next
      case (Cons u us)
      then have "same_tensor (cat_list d u us) (segment d (st (Suc k)) (st w) t)" using step.IH by simp
      from cat2_segments [OF p this d assms(2) [OF step.hyps(2)]] show ?thesis
        using list True Cons by simp
    qed
  qed
qed

lemma gather_pieces:
  "map (\<lambda>(t, len). narrow_to d len t)
      (filter (\<lambda>(t, len). len > 0) (zip (map (pad_to d m) (map S [0..<w])) (map (\<lambda>t. tn_shape t ! d) (map S [0..<w]))))
    = pieces_from d m S [0..<w]"
proof -
  have "zip (map (pad_to d m) (map S is)) (map (\<lambda>t. tn_shape t ! d) (map S is))
      = map (\<lambda>i. (pad_to d m (S i), tn_shape (S i) ! d)) is" for "is"
    by (induction "is") auto
  then show ?thesis by (simp add: pieces_from_def filter_map o_def)
qed

lemma all_gather_segments:
  assumes S: "\<And>i. i < w \<Longrightarrow> same_tensor (S i) (segment d (st i) (st (Suc i)) t)"
    and mono: "\<And>i. i < w \<Longrightarrow> st i \<le> st (Suc i)" and d: "d < length (tn_shape t)"
    and ends: "st 0 = 0" "st w = tn_shape t ! d" and me: "me < w"
    and f: "fl_global_shape f = tn_shape t" "tl_shard (fl_layout f) = Some \<lparr>sh_dim = int d\<rparr>"
  shows "\<exists>u. all_gather_sharded_tensor junk (map S [0..<w]) me f = Inr u \<and> same_tensor u t"
proof -
  have all: "same_tensor (segment d (st 0) (st w) t) t" using segment_all [OF d] ends by simp
  show ?thesis
  proof (cases "w = 1")
    case True
    then have "same_tensor (S 0) t" using S [of 0] all by (auto intro: same_tensor_trans)
    then show ?thesis using True me f by (simp add: all_gather_sharded_tensor_def)
  next
    case False
    let ?m = "fold max (map (\<lambda>t. tn_shape t ! d) (map S [0..<w])) 0"
    let ?full = "case pieces_from d ?m S [0..<w] of
        [] \<Rightarrow> \<lparr>tn_shape = fl_global_shape f, tn_dtype = tn_dtype (map S [0..<w] ! me), tn_data = junk\<rparr>
      | t # ts \<Rightarrow> cat_list d t ts"
    have me_sh: "length (tn_shape (map S [0..<w] ! me)) = length (tn_shape t)"
      using S [OF me] me by (simp add: same_tensor_def segment_def)
    have cp: "case pieces_from d ?m S [0..<w] of [] \<Rightarrow> st 0 = st w
        | u # us \<Rightarrow> same_tensor (cat_list d u us) (segment d (st 0) (st w) t)"
      by (rule cat_pieces) (use S mono d in auto)
    have full: "same_tensor ?full t"
    proof (cases "pieces_from d ?m S [0..<w]")
      case Nil
      then have "st 0 = st w" using cp by simp
      then have "tn_shape t ! d = 0" using ends by simp
      then have "\<not> in_box (zeros (tn_shape t)) (tn_shape t) p" for p using d by (auto simp: in_box_nth)
      moreover have "tn_dtype (map S [0..<w] ! me) = tn_dtype t"
        using S [OF me] me by (simp add: same_tensor_def segment_def)
      ultimately show ?thesis using Nil f by (simp add: same_tensor_def)
    next
      case (Cons u us)
      then have "same_tensor (cat_list d u us) (segment d (st 0) (st w) t)"
        using cp by simp
      then show ?thesis using Cons all by (auto intro: same_tensor_trans)
    qed
    then have "tn_shape ?full = fl_global_shape f" using f by (simp add: same_tensor_def)
    then have "all_gather_sharded_tensor junk (map S [0..<w]) me f = Inr ?full"
      unfolding all_gather_sharded_tensor_def f(2) Let_def option.case
        tensor_shard_spec.select_convs nat_int gather_pieces
      using False me_sh d by (simp del: map_map)
    then show ?thesis using full by blast
  qed
qed

section \<open>Storing and reading back a sharded field\<close>

lemma sharded_field_shard:
  assumes "sharded_tensor_field path gs dt sd w r = Inr f"
  shows "tl_shard (fl_layout f) = Some \<lparr>sh_dim = int (norm_dim sd gs)\<rparr>" "field_wf f"
proof -
  from assms obtain off loc shard layout where
    sp: "mk_tensor_shard_spec (int (norm_dim sd gs)) = Inr shard" and
    lay: "mk_tensor_layout SHARDED (Some shard) = Inr layout" and
    mk: "mk_tensor_field_layout path (gs[norm_dim sd gs := loc]) dt layout (Some gs)
       (Some ((zeros gs)[norm_dim sd gs := off])) = Inr f"
    by (auto simp: sharded_tensor_field_def Let_def bind_res_eq_Inr norm_dim_def split: if_splits)
  show "tl_shard (fl_layout f) = Some \<lparr>sh_dim = int (norm_dim sd gs)\<rparr>"
    using mk_tensor_field_layout_eq [OF mk] sp lay
    by (auto simp: mk_tensor_shard_spec_def mk_tensor_layout_def)
  show "field_wf f" by (rule mk_tensor_field_layout_wf [OF mk])
qed

lemma vadd_shard_offset:
  assumes "length p = length gs" "d < length gs"
  shows "vadd p ((zeros gs)[d := x]) = p[d := p ! d + x]"
  using assms by (intro nth_equalityI) (auto simp: nth_list_update)

lemma shard_output_segment:
  assumes f: "sharded_tensor_field path gs dt sd w r = Inr f"
    and t: "tn_shape t = gs" "parse_torch_dtype known dt = Inr (tn_dtype t)"
  defines "d \<equiv> norm_dim sd gs"
  shows "\<exists>u. shard_output_field known (IsTensor t) f = Inr (IsTensor u)
     \<and> tn_shape u = fl_local_shape f
     \<and> same_tensor u (segment d (shard_start (gs ! d) w r) (shard_start (gs ! d) w (r + 1)) t)"
proof -
  note eq = sharded_tensor_field_eq [OF f, folded d_def] and wf = sharded_field_shard(2) [OF f]
  let ?a = "shard_start (gs ! d) w r" and ?b = "shard_start (gs ! d) w (r + 1)"
  have w: "0 < w" using eq(2,3) by simp
  have bnd: "0 \<le> ?a" "?a \<le> ?b" "?b \<le> gs ! d"
    using shard_start_mono [OF eq(4) w, of 0 r] shard_start_mono [OF eq(4) w, of r "r + 1"]
      shard_start_mono [OF eq(4) w, of "r + 1" w] shard_start_ends [OF w, of "gs ! d"] eq(2,3,4) by auto
  show ?thesis
  proof (cases "tn_shape t = fl_local_shape f")
    case True
    have "gs ! d = ?b - ?a" using True eq(1,10) t(1) by (metis nth_list_update_eq)
    then have "?a = 0" "?b = gs ! d" using bnd by linarith+
    then have "same_tensor t (segment d ?a ?b t)"
      using segment_all [of d t] eq(1) t(1) by (simp add: same_tensor_def)
    then show ?thesis using True eq(8) by (simp add: shard_output_field_def)
  next
    case False
    let ?spec = "\<lparr>ts_path = fl_path f, ts_offset = fl_global_offset f, ts_shape = fl_local_shape f, ts_dtype = fl_dtype f\<rparr>"
    have spec: "mk_tensor_slice_spec (fl_path f) (fl_global_offset f) (fl_local_shape f) (fl_dtype f) = Inr ?spec"
      using wf by (auto simp: mk_tensor_slice_spec_def field_wf_def not_less)
    have "tensor_slice_view known t ?spec = Inr (view_at t (fl_global_offset f) (fl_local_shape f))"
      using wf t eq(5,7) by (auto simp: tensor_slice_view_def field_wf_def not_less)
    moreover have "same_tensor (view_at t (fl_global_offset f) (fl_local_shape f)) (segment d ?a ?b t)"
      unfolding same_tensor_def view_at_def segment_def
      using eq(1,9,10) t(1) vadd_shard_offset [of _ gs d ?a] in_box_length
      by (auto dest!: in_box_length)
    ultimately show ?thesis
      using False spec eq(5,8) t(1) by (simp add: shard_output_field_def view_at_def)
  qed
qed

text \<open>
  C16: Round trip of sharded storage: when every rank of a sequence-parallel group stores its shard
  of a full tensor and a later task gathers the field, every rank gets back a tensor of the same
  shape and element type with the same value at every index; no step raises, also when the
  dimension does not divide evenly or some shards are empty. The execution group is the
  sequence-parallel group or starts with it (\<open>group_rank < w\<close>): the ranks of a second guidance
  branch raise \<open>IndexError\<close> before anything is gathered, see \<open>second_cfg_branch_raises\<close>.
\<close>

theorem shard_gather_roundtrip:
  assumes F: "\<And>i. i < w \<Longrightarrow> sharded_tensor_field path gs dt sd (int w) (int i) = Inr (F i)"
    and t: "tn_shape t = gs" "parse_torch_dtype known dt = Inr (tn_dtype t)"
    and V: "\<And>i. i < w \<Longrightarrow> shard_output_field known (IsTensor t) (F i) = Inr (V i)"
    and me: "group_rank < w"
  shows "\<exists>u. materialize_field junk (map V [0..<w]) (map F [0..<w]) group_rank = Inr (IsTensor u)
     \<and> same_tensor u t"
proof -
  define d where "d = norm_dim sd gs"
  let ?st = "\<lambda>i. shard_start (gs ! d) (int w) (int i)"
  note F0 = F [of 0] and eq = sharded_tensor_field_eq [OF F [OF me], folded d_def]
  have w: "0 < int w" using me by simp
  have "\<exists>u. V i = IsTensor u \<and> tn_shape u = fl_local_shape (F i)
      \<and> same_tensor u (segment d (?st i) (?st (Suc i)) t)" if "i < w" for i
    using shard_output_segment [OF F [OF that] t] V [OF that] by (auto simp: d_def algebra_simps)
  then obtain S where S: "\<And>i. i < w \<Longrightarrow> V i = IsTensor (S i)"
    "\<And>i. i < w \<Longrightarrow> tn_shape (S i) = fl_local_shape (F i)"
    "\<And>i. i < w \<Longrightarrow> same_tensor (S i) (segment d (?st i) (?st (Suc i)) t)"
    by metis
  have mono: "?st i \<le> ?st (Suc i)" for i using shard_start_mono [OF eq(4) w, of "int i" "int (Suc i)"] by simp
  have f: "fl_global_shape (F group_rank) = tn_shape t" "tl_shard (fl_layout (F group_rank)) = Some \<lparr>sh_dim = int d\<rparr>"
    using eq(5) t(1) sharded_field_shard(1) [OF F [OF me]] by (simp_all add: d_def)
  have "\<exists>u. all_gather_sharded_tensor junk (map S [0..<w]) group_rank (F group_rank) = Inr u \<and> same_tensor u t"
    by (rule all_gather_segments [where st = ?st and d = d])
      (use S(3) mono eq(1) t(1) me f shard_start_ends [OF w, of "gs ! d"] eq(4) in auto)
  then obtain u where u: "all_gather_sharded_tensor junk (map S [0..<w]) group_rank (F group_rank) = Inr u" "same_tensor u t"
    by blast
  have stat: "set (map2 classify_sharded_field_tensor (map V [0..<w]) (map F [0..<w])) = {SHARDED_FIELD_LOCAL}"
    using S(1,2) me by (force simp: set_zip classify_sharded_field_tensor_def)
  have vals: "map (\<lambda>v. case v of IsTensor t \<Rightarrow> t | _ \<Rightarrow> \<lparr>tn_shape = [], tn_dtype = [], tn_data = junk\<rparr>)
      (map V [0..<w]) = map S [0..<w]"
    using S(1) by simp
  have "materialize_field junk (map V [0..<w]) (map F [0..<w]) group_rank = Inr (IsTensor u)"
    unfolding materialize_field_def validate_sharded_field_status_def Let_def stat vals
    using eq(8) me S(1) [OF me] u(1) by simp
  then show ?thesis using u(2) by blast
qed

text \<open>
  With two guidance branches the ranks of the second one never get that far: their position in the
  execution group is at least the size of the sequence-parallel group.
\<close>

lemma second_cfg_branch_raises:
  assumes "1 < ps_sp (g_parallel g)" "ps_sp (g_parallel g) \<le> int group_rank"
    and "\<And>i. sp_sharded_tensor_field g (int i) path gs dt sd = Inr (F i)"
    and "length vals = nat (ps_sp (g_parallel g))"
  shows "materialize_field junk vals (map F [0..<length vals]) group_rank = Inl IndexError"
proof -
  let ?me = "group_rank mod length vals"
  have n: "0 < length vals" "length vals \<le> group_rank" "int (length vals) = ps_sp (g_parallel g)"
    using assms(1,2,4) by auto
  then have me: "?me < length vals" by simp
  have "sharded_tensor_field path gs dt sd (ps_sp (g_parallel g)) (int ?me mod ps_sp (g_parallel g)) = Inr (F ?me)"
    using assms(1) assms(3) [of ?me] by (simp add: sp_sharded_tensor_field_def Let_def)
  then have "tl_kind (fl_layout (F ?me)) = SHARDED" by (rule sharded_tensor_field_eq(8))
  then show ?thesis using n me by (simp add: materialize_field_def Let_def)
qed

definition ex_full_tensor :: "int tensor" where
  "ex_full_tensor = \<lparr>tn_shape = [2, 5], tn_dtype = ''f16'', tn_data = (\<lambda>p. 7 * p ! 0 + p ! 1)\<rparr>"

definition ex_stored :: "nat \<Rightarrow> int field_value" where
  "ex_stored i = (case shard_output_field ex_known (IsTensor ex_full_tensor) (demo_field (int i)) of
     Inr v \<Rightarrow> v | Inl _ \<Rightarrow> Missing)"

theorem shard_gather_roundtrip_witness:
  "\<exists>u. materialize_field (\<lambda>_. 0) (map ex_stored [0..<3]) (map (\<lambda>i. demo_field (int i)) [0..<3]) 2
      = Inr (IsTensor u) \<and> same_tensor u ex_full_tensor"
proof (rule shard_gather_roundtrip [where known = ex_known and w = 3])
  fix i :: nat assume i: "i < 3"
  then show F: "sharded_tensor_field [''latents''] [2, 5] ''f16'' 1 (int 3) (int i) = Inr (demo_field (int i))"
    using demo_field_ok [of "int i"] by simp
  show "shard_output_field ex_known (IsTensor ex_full_tensor) (demo_field (int i)) = Inr (ex_stored i)"
    using shard_output_segment [OF F, of ex_full_tensor ex_known]
    by (auto simp: ex_stored_def ex_full_tensor_def ex_known_def parse_torch_dtype_def)
qed (simp_all add: ex_full_tensor_def ex_known_def parse_torch_dtype_def)

end
