(* ===== verification/DitPlan.thy ===== *)
theory DitPlan
  imports Protocol
begin

text \<open>
  The compiler of a diffusion request into an execution plan
  (\<open>runtime_v2/adapters/common.py\<close>, \<open>build_chunked_dit_plan\<close>): text encoding, DiT preparation,
  the denoising loop cut into chunks of steps that follow a schedule of execution groups, VAE
  decoding and finalisation, with RESHARD tasks wherever the plan changes group.
\<close>

section \<open>Constants and arguments\<close>

definition STANDARD_TASK_KINDS :: "task_kind list" where
  "STANDARD_TASK_KINDS = [TEXT_ENCODE, DIT_PREPARE, TIMESTEP_PREPARE, DIT_STEP_CHUNK, VAE_DECODE, FINALIZE]"

definition STAGE_AUX :: string where "STAGE_AUX = ''aux''"

definition STAGE_DIT :: string where "STAGE_DIT = ''dit''"

fun task_kind_to_stage :: "task_kind \<Rightarrow> string option" where
  "task_kind_to_stage TEXT_ENCODE = Some STAGE_AUX"
| "task_kind_to_stage VAE_DECODE = Some STAGE_AUX"
| "task_kind_to_stage FINALIZE = Some STAGE_AUX"
| "task_kind_to_stage DIT_PREPARE = Some STAGE_DIT"
| "task_kind_to_stage TIMESTEP_PREPARE = Some STAGE_DIT"
| "task_kind_to_stage DIT_STEP_CHUNK = Some STAGE_DIT"
| "task_kind_to_stage RESHARD = None"

text \<open>
  An entry of the configured step schedule: the keys \<open>start\<close>, \<open>end\<close> and \<open>group_id\<close> of the
  mapping, each of which may be absent.
\<close>

record sched_item =
  si_start :: "int option"
  si_end :: "int option"
  si_group :: "string option"

record plan_args =
  pa_request_id :: string
  pa_request_value :: pyval
  pa_request_type :: string
  pa_num_steps :: int
  pa_chunk_size :: int
  pa_priority :: int
  pa_group_id :: "string option"
  pa_text_seq_len :: int
  pa_latent_seq_len :: int
  pa_state_codec_id :: string
  pa_decoded_codec_id :: "string option"
  pa_metadata :: "pydict option"
  pa_stage_group_ids :: "(string \<times> string) list option"
  pa_dit_step_schedule :: "sched_item list option"
  pa_do_true_cfg :: "bool list option"

section \<open>Effective sequence length of a chunk\<close>

text \<open>Integer square root.\<close>

fun isqrt :: "nat \<Rightarrow> nat" where
  "isqrt n = (if n = 0 then 0 else let m = 2 * isqrt (n div 4) in if (m + 1) * (m + 1) \<le> n then m + 1 else m)"

declare isqrt.simps [simp del]

text \<open>
  \<open>round(L * sqrt(steps))\<close>: the square of the product is an integer, so it is never half-way
  between two integers, and the nearest integer is found by integer arithmetic.
\<close>

definition effective_chunk_seq_len :: "int \<Rightarrow> int \<Rightarrow> int" where
  "effective_chunk_seq_len latent_seq_len chunk_steps =
     (let steps = nat (max 1 chunk_steps); len = nat (max 1 latent_seq_len);
          n = len * len * steps; r = isqrt n
      in max 1 (int (if n > r * r + r then r + 1 else r)))"

section \<open>Schedule of groups over the steps\<close>

type_synonym sched = "(int \<times> int \<times> string option) list"

text \<open>
  The loop state: the normalised entries, the start expected next, and whether the loop was
  left by \<open>break\<close>.
\<close>

definition normalize_item ::
  "int \<Rightarrow> sched \<times> int \<times> bool \<Rightarrow> sched_item \<Rightarrow> (sched \<times> int \<times> bool) res" where
  "normalize_item num_steps st item =
     (case st of (acc, expected, stopped) \<Rightarrow>
        if stopped then Inr st
        else
          let start = (case si_start item of None \<Rightarrow> 0 | Some s \<Rightarrow> s);
              e = (case si_end item of None \<Rightarrow> num_steps | Some x \<Rightarrow> min x num_steps);
              g = (case si_group item of None \<Rightarrow> [] | Some x \<Rightarrow> x)
          in if g = [] then Inl ValueError
             else if start \<noteq> expected then Inl ValueError
             else if e \<le> start then Inl ValueError
             else Inr (acc @ [(start, e, Some g)], e, e \<ge> num_steps))"

definition normalize_dit_step_schedule ::
  "int \<Rightarrow> string option \<Rightarrow> sched_item list option \<Rightarrow> sched res" where
  "normalize_dit_step_schedule num_steps default_group items =
     (case items of
        None \<Rightarrow> Inr [(0, num_steps, default_group)]
      | Some [] \<Rightarrow> Inr [(0, num_steps, default_group)]
      | Some (i # is) \<Rightarrow>
          bind_res (for_res (normalize_item num_steps) ([], 0, False) (i # is))
            (\<lambda>(acc, expected, _). if expected \<noteq> num_steps then Inl ValueError else Inr acc))"

fun group_for_step :: "int \<Rightarrow> sched \<Rightarrow> (int \<times> string option) res" where
  "group_for_step step [] = Inl ValueError"
| "group_for_step step ((s, e, g) # rest) = (if step < e then Inr (e, g) else group_for_step step rest)"

section \<open>Handles and tasks\<close>

definition colon :: "string \<Rightarrow> string \<Rightarrow> string" where
  "colon a b = a @ '':'' @ b"

definition make_request_state_handle :: "string \<Rightarrow> string \<Rightarrow> string \<Rightarrow> string \<Rightarrow> artifact_handle" where
  "make_request_state_handle rid aid suffix codec =
     \<lparr>h_request_id = rid, h_artifact_id = aid, h_kind = REQUEST_STATE, h_layout = WORKER_LOCAL,
      h_producer_task_id = Some (colon rid (colon suffix ''0'')), h_codec_id = Some codec, h_metadata = []\<rparr>"

definition default_parallel :: parallel_spec where
  "default_parallel = \<lparr>ps_tp = 1, ps_sp = 1, ps_cfg = 1, ps_cfg_parallel = False\<rparr>"

definition new_task ::
  "plan_args \<Rightarrow> string \<Rightarrow> task_kind \<Rightarrow> string option \<Rightarrow> string list \<Rightarrow> artifact_handle list
   \<Rightarrow> artifact_handle list \<Rightarrow> step_range option \<Rightarrow> pydict \<Rightarrow> task" where
  "new_task a tid kind gid deps ins outs steps payload =
     \<lparr>t_id = tid, t_request_id = pa_request_id a, t_kind = kind, t_group_id = gid,
      t_parallel = default_parallel, t_status = PENDING, t_priority = pa_priority a,
      t_dependencies = deps, t_inputs = ins, t_outputs = outs, t_step_range = steps,
      t_payload = payload\<rparr>"

definition group_str :: "string option \<Rightarrow> string" where
  "group_str g = (case g of None \<Rightarrow> ''None'' | Some s \<Rightarrow> s)"

definition group_val :: "string option \<Rightarrow> pyval" where
  "group_val g = (case g of None \<Rightarrow> PyNone | Some s \<Rightarrow> PyStr s)"

definition stage_payload :: "int \<Rightarrow> task_kind \<Rightarrow> pydict" where
  "stage_payload len k = [(''seq_len'', PyInt len), (''request_stage'', PyStr (task_kind_value k))]"

definition reshard_payload :: "string option \<Rightarrow> string option \<Rightarrow> pydict" where
  "reshard_payload src dst = [(RESHARD_PAYLOAD_SRC_GROUP_ID, group_val src),
     (RESHARD_PAYLOAD_DST_GROUP_ID, group_val dst), (''request_stage'', PyStr ''reshard'')]"

definition req_handle :: "plan_args \<Rightarrow> artifact_handle" where
  "req_handle a = \<lparr>h_request_id = pa_request_id a, h_artifact_id = ''request'', h_kind = REQUEST_STATE,
     h_layout = HOST, h_producer_task_id = None, h_codec_id = None, h_metadata = []\<rparr>"

definition decoded_handle :: "plan_args \<Rightarrow> artifact_handle" where
  "decoded_handle a = \<lparr>h_request_id = pa_request_id a, h_artifact_id = ''decoded'', h_kind = TENSOR,
     h_layout = HOST, h_producer_task_id = Some (colon (pa_request_id a) ''vae_decode:0''),
     h_codec_id = pa_decoded_codec_id a, h_metadata = []\<rparr>"

definition output_handle :: "plan_args \<Rightarrow> artifact_handle" where
  "output_handle a = \<lparr>h_request_id = pa_request_id a, h_artifact_id = ''output'', h_kind = OUTPUT,
     h_layout = HOST, h_producer_task_id = Some (colon (pa_request_id a) ''finalize:0''),
     h_codec_id = None, h_metadata = []\<rparr>"

definition state_handle :: "plan_args \<Rightarrow> string \<Rightarrow> string \<Rightarrow> artifact_handle" where
  "state_handle a aid suffix = make_request_state_handle (pa_request_id a) aid suffix (pa_state_codec_id a)"

definition tid :: "plan_args \<Rightarrow> string \<Rightarrow> string" where
  "tid a s = colon (pa_request_id a) s"

section \<open>The denoising loop\<close>

record loop_state =
  ls_tasks :: "(string \<times> task) list"
  ls_denoise_ids :: "string list"
  ls_prev_task_id :: string
  ls_prev_state :: artifact_handle
  ls_prev_group :: "string option"
  ls_idx :: nat

text \<open>The part of an iteration that inserts a RESHARD task when the group changes.\<close>

definition insert_reshard :: "plan_args \<Rightarrow> string option \<Rightarrow> loop_state \<Rightarrow> loop_state" where
  "insert_reshard a g s =
     (if ls_prev_group s = g then s
      else
        let idx = str_nat (ls_idx s);
            migrated = state_handle a
              (h_artifact_id (ls_prev_state s) @ ''_to_'' @ group_str g @ ''_'' @ idx)
              (colon ''reshard_dit_step'' idx);
            rt = tid a (colon ''reshard_dit_step'' idx)
        in s\<lparr>ls_tasks := dict_set (ls_tasks s) rt
               (new_task a rt RESHARD None [ls_prev_task_id s] [ls_prev_state s] [migrated] None
                 (reshard_payload (ls_prev_group s) g)),
             ls_prev_task_id := rt, ls_prev_state := migrated, ls_prev_group := g\<rparr>)"

definition chunk_payload :: "plan_args \<Rightarrow> int \<Rightarrow> int \<Rightarrow> pydict" where
  "chunk_payload a start e =
     stage_payload (effective_chunk_seq_len (pa_latent_seq_len a) (e - start)) DIT_STEP_CHUNK
     @ (case pa_do_true_cfg a of
          None \<Rightarrow> []
        | Some flags \<Rightarrow>
            let b = (\<exists>x \<in> set (take (nat (e - start)) (drop (nat start) flags)). x)
            in [(''do_true_cfg'', PyBool b),
                (''cost_model_stage'', PyStr (if b then ''dit_step_chunk_cfg'' else ''dit_step_chunk_nocfg''))])"

definition append_chunk :: "plan_args \<Rightarrow> int \<Rightarrow> int \<Rightarrow> string option \<Rightarrow> loop_state \<Rightarrow> loop_state res" where
  "append_chunk a start e g s =
     bind_res (mk_step_range start e) (\<lambda>sr.
       let idx = str_nat (ls_idx s);
           ct = tid a (colon ''dit_step_chunk'' idx);
           out_state = (if e = pa_num_steps a
                        then state_handle a ''state_denoised'' ''dit_step_chunk:final''
                        else state_handle a (''state_denoised_'' @ idx) (colon ''dit_step_chunk'' idx))
       in Inr (s\<lparr>ls_tasks := dict_set (ls_tasks s) ct
                   (new_task a ct DIT_STEP_CHUNK g [ls_prev_task_id s] [ls_prev_state s] [out_state]
                     (Some sr) (chunk_payload a start e)),
                 ls_denoise_ids := ls_denoise_ids s @ [ct], ls_prev_task_id := ct,
                 ls_prev_state := out_state, ls_prev_group := g, ls_idx := ls_idx s + 1\<rparr>))"

lemma group_for_step_less: "group_for_step st sch = Inr (e, g) \<Longrightarrow> st < e"
  by (induction st sch rule: group_for_step.induct) (auto split: if_splits)

text \<open>
  The loop; it runs after the check that the chunk size is positive, which is repeated as its
  guard here and gives its termination.
\<close>

function chunk_loop :: "plan_args \<Rightarrow> sched \<Rightarrow> int \<Rightarrow> loop_state \<Rightarrow> loop_state res" where
  "chunk_loop a sch start s =
     (if pa_chunk_size a < 1 then Inl ValueError
      else if start < pa_num_steps a then
        (case group_for_step start sch of
           Inl err \<Rightarrow> Inl err
         | Inr (schedule_end, g) \<Rightarrow>
             let e = min (min (start + pa_chunk_size a) schedule_end) (pa_num_steps a)
             in (case append_chunk a start e g (insert_reshard a g s) of
                   Inl err \<Rightarrow> Inl err
                 | Inr s' \<Rightarrow> chunk_loop a sch e s'))
      else Inr s)"
  by pat_completeness auto
termination
  by (relation "measure (\<lambda>(a, sch, start, s). nat (pa_num_steps a - start))")
    (auto dest: group_for_step_less)

declare chunk_loop.simps [simp del]

section \<open>The plan\<close>

text \<open>\<open>stage_group_ids\<close>: absent, or the distinct non-empty groups of the two stages.\<close>

definition stage_groups :: "plan_args \<Rightarrow> (string \<times> string) option res" where
  "stage_groups a =
     (case pa_stage_group_ids a of
        None \<Rightarrow> Inr None
      | Some m \<Rightarrow>
          (case map_of m STAGE_AUX of
             None \<Rightarrow> Inl ValueError
           | Some aux \<Rightarrow>
               (case map_of m STAGE_DIT of
                  None \<Rightarrow> Inl ValueError
                | Some dit \<Rightarrow>
                    if aux = [] \<or> dit = [] then Inl ValueError
                    else if aux = dit then Inl ValueError
                    else Inr (Some (aux, dit)))))"

definition group_for_kind :: "plan_args \<Rightarrow> (string \<times> string) option \<Rightarrow> task_kind \<Rightarrow> string option res" where
  "group_for_kind a stages kind =
     (case stages of
        None \<Rightarrow> Inr (pa_group_id a)
      | Some (aux, dit) \<Rightarrow>
          (case task_kind_to_stage kind of
             None \<Rightarrow> Inl ValueError
           | Some st \<Rightarrow> Inr (Some (if st = STAGE_AUX then aux else dit))))"

definition base_tasks ::
  "plan_args \<Rightarrow> string option \<Rightarrow> string option \<Rightarrow> string option \<Rightarrow> string option \<Rightarrow> (string \<times> task) list" where
  "base_tasks a g_text g_dit g_vae g_fin =
     (let t1 = tid a ''text_encode:0''; t2 = tid a ''dit_prepare:0''; t3 = tid a ''timestep_prepare:0'';
          t4 = tid a ''vae_decode:0''; t5 = tid a ''finalize:0'';
          state_text = state_handle a ''state_text'' ''text_encode'';
          state_latent = state_handle a ''state_latent'' ''dit_prepare'';
          state_timestep = state_handle a ''state_timestep'' ''timestep_prepare''
      in [(t1, new_task a t1 TEXT_ENCODE g_text [] [req_handle a] [state_text] None
             (stage_payload (pa_text_seq_len a) TEXT_ENCODE)),
          (t2, new_task a t2 DIT_PREPARE g_dit [t1] [state_text] [state_latent] None
             (stage_payload (pa_latent_seq_len a) DIT_PREPARE)),
          (t3, new_task a t3 TIMESTEP_PREPARE g_dit [t2] [state_latent] [state_timestep] None
             (stage_payload (pa_latent_seq_len a) TIMESTEP_PREPARE)),
          (t4, new_task a t4 VAE_DECODE g_vae [] [] [decoded_handle a] None
             (stage_payload (pa_latent_seq_len a) VAE_DECODE)),
          (t5, new_task a t5 FINALIZE g_fin [t4] [decoded_handle a] [output_handle a] None
             (stage_payload 1 FINALIZE))])"

text \<open>Rewriting the dependencies and inputs of a task already in the dictionary.\<close>

definition rewire :: "string \<Rightarrow> string list \<Rightarrow> artifact_handle list \<Rightarrow> (string \<times> task) list \<Rightarrow> (string \<times> task) list res" where
  "rewire k deps ins ts =
     (case map_of ts k of
        None \<Rightarrow> Inl KeyError
      | Some t \<Rightarrow> Inr (dict_set ts k (t\<lparr>t_dependencies := deps, t_inputs := ins\<rparr>)))"

text \<open>The RESHARD tasks at the two stage boundaries.\<close>

definition add_stage_reshards ::
  "plan_args \<Rightarrow> string \<Rightarrow> string option \<Rightarrow> string option \<Rightarrow> string \<Rightarrow> (string \<times> task) list \<Rightarrow> (string \<times> task) list res" where
  "add_stage_reshards a aux first_dit last_dit last_chunk ts =
     (let r1 = tid a ''reshard_text_to_dit:0''; r2 = tid a ''reshard_dit_to_aux:0'';
          state_text = state_handle a ''state_text'' ''text_encode'';
          state_denoised = state_handle a ''state_denoised'' ''dit_step_chunk:final'';
          h1 = state_handle a ''state_text_dit'' ''reshard_text_to_dit'';
          h2 = state_handle a ''state_denoised_aux'' ''reshard_dit_to_aux'';
          ts1 = dict_set ts r1 (new_task a r1 RESHARD None [tid a ''text_encode:0''] [state_text] [h1] None
                  (reshard_payload (Some aux) first_dit))
      in bind_res (rewire (tid a ''dit_prepare:0'') [r1] [h1] ts1) (\<lambda>ts2.
           let ts3 = dict_set ts2 r2 (new_task a r2 RESHARD None [last_chunk] [state_denoised] [h2] None
                       (reshard_payload last_dit (Some aux)))
           in rewire (tid a ''vae_decode:0'') [r2] [h2] ts3))"

definition sched_item_val :: "sched_item \<Rightarrow> pyval" where
  "sched_item_val i = PyDict
     ((case si_start i of None \<Rightarrow> [] | Some s \<Rightarrow> [(''start'', PyInt s)])
      @ (case si_end i of None \<Rightarrow> [] | Some e \<Rightarrow> [(''end'', PyInt e)])
      @ (case si_group i of None \<Rightarrow> [] | Some g \<Rightarrow> [(''group_id'', PyStr g)]))"

definition plan_metadata :: "plan_args \<Rightarrow> pydict" where
  "plan_metadata a =
     (let m0 = [(''request_type'', PyStr (pa_request_type a)), (''num_steps'', PyInt (pa_num_steps a)),
                (''chunk_size'', PyInt (pa_chunk_size a)), (''text_seq_len'', PyInt (pa_text_seq_len a)),
                (''latent_seq_len'', PyInt (pa_latent_seq_len a))];
          m1 = (case pa_metadata a of None \<Rightarrow> m0 | Some m \<Rightarrow> fold (\<lambda>(k, v) d. dict_set d k v) m m0)
      in case pa_dit_step_schedule a of
           None \<Rightarrow> m1
         | Some items \<Rightarrow> if items = [] then m1
             else dict_set m1 ''dit_step_schedule'' (PyList (map sched_item_val items)))"

definition build_chunked_dit_plan :: "plan_args \<Rightarrow> plan res" where
  "build_chunked_dit_plan a =
     (if pa_num_steps a < 1 then Inl ValueError
      else if pa_chunk_size a < 1 then Inl ValueError
      else if pa_text_seq_len a < 1 then Inl ValueError
      else if pa_latent_seq_len a < 1 then Inl ValueError
      else if (case pa_do_true_cfg a of None \<Rightarrow> False | Some f \<Rightarrow> int (length f) \<noteq> pa_num_steps a)
        then Inl ValueError
      else
        bind_res (stage_groups a) (\<lambda>stages.
        bind_res (group_for_kind a stages DIT_STEP_CHUNK) (\<lambda>g_default.
        bind_res (normalize_dit_step_schedule (pa_num_steps a) g_default (pa_dit_step_schedule a)) (\<lambda>sch.
        bind_res (group_for_kind a stages TEXT_ENCODE) (\<lambda>g_text.
        bind_res (group_for_kind a stages VAE_DECODE) (\<lambda>g_vae.
        bind_res (group_for_kind a stages FINALIZE) (\<lambda>g_fin.
        let first_dit = snd (snd (hd sch)); last_dit = snd (snd (last sch));
            s0 = \<lparr>ls_tasks = base_tasks a g_text first_dit g_vae g_fin, ls_denoise_ids = [],
                  ls_prev_task_id = tid a ''timestep_prepare:0'',
                  ls_prev_state = state_handle a ''state_timestep'' ''timestep_prepare'',
                  ls_prev_group = first_dit, ls_idx = 0\<rparr>
        in
        bind_res (chunk_loop a sch 0 s0) (\<lambda>s.
        if ls_denoise_ids s = [] then Inl IndexError
        else
        let last_chunk = last (ls_denoise_ids s);
            state_denoised = state_handle a ''state_denoised'' ''dit_step_chunk:final''
        in
        bind_res (rewire (tid a ''vae_decode:0'') [last_chunk] [state_denoised] (ls_tasks s)) (\<lambda>ts1.
        bind_res (case stages of
                    None \<Rightarrow> Inr ts1
                  | Some (aux, dit) \<Rightarrow> add_stage_reshards a aux first_dit last_dit last_chunk ts1) (\<lambda>ts2.
        Inr \<lparr>p_request_id = pa_request_id a,
             p_tasks = map (\<lambda>(k, t). (k, t\<lparr>t_payload :=
               dict_set (t_payload t) ''request_metadata'' (PyDict (plan_metadata a))\<rparr>)) ts2,
             p_terminal = [tid a ''finalize:0''],
             p_initial = [\<lparr>av_handle = req_handle a, av_value = HostVal (pa_request_value a)\<rparr>],
             p_metadata = plan_metadata a\<rparr>))))))))))"

section \<open>Lemmas: integer rounding\<close>

lemma isqrt_correct: "isqrt n * isqrt n \<le> n \<and> n < (isqrt n + 1) * (isqrt n + 1)"
proof (induction n rule: isqrt.induct)
  case (1 n)
  show ?case
  proof (cases "n = 0")
    case True
    then show ?thesis by (simp add: isqrt.simps)
  next
    case False
    define q where "q = isqrt (n div 4)"
    from "1.IH" [OF False] have IH: "q * q \<le> n div 4" "n div 4 < (q + 1) * (q + 1)"
      by (simp_all add: q_def)
    have n: "4 * (n div 4) \<le> n" "n < 4 * (n div 4) + 4" by linarith+
    have lo: "(2 * q) * (2 * q) \<le> n" using IH(1) n(1) by simp
    have hi: "n < (2 * q + 2) * (2 * q + 2)" using IH(2) n(2) by (simp add: algebra_simps)
    have "isqrt n = (if (2 * q + 1) * (2 * q + 1) \<le> n then 2 * q + 1 else 2 * q)"
      using False by (subst isqrt.simps) (simp add: q_def Let_def)
    then show ?thesis using lo hi by (auto simp: algebra_simps)
  qed
qed

lemma effective_chunk_seq_len_pos: "1 \<le> effective_chunk_seq_len l c"
  by (simp add: effective_chunk_seq_len_def Let_def)

lemma effective_chunk_seq_len_round:
  assumes "1 \<le> l" "1 \<le> c"
  shows "\<bar>real_of_int (effective_chunk_seq_len l c) - real_of_int l * sqrt (real_of_int c)\<bar> < 1 / 2"
proof -
  define n where "n = nat l * nat l * nat c"
  define r where "r = isqrt n"
  define x where "x = real_of_int l * sqrt (real_of_int c)"
  have x0: "0 \<le> x" and sq: "x * x = real n"
    using assms by (simp_all add: x_def n_def algebra_simps power2_eq_square [symmetric])
  have r: "r * r \<le> n" "n < (r + 1) * (r + 1)" using isqrt_correct [of n] by (simp_all add: r_def)
  have "0 < n" using assms by (simp add: n_def)
  then have r1: "1 \<le> r" using r(2) by (cases r) auto
  have less: "y < z" if "y * y < z * z" "0 \<le> z" for y z :: real
    using that by (meson linorder_not_less mult_mono order_trans)
  have le: "y \<le> z" if "y * y \<le> z * z" "0 \<le> z" for y z :: real
    using that by (meson linorder_not_less mult_strict_mono' order_less_imp_le not_less)
  have val: "effective_chunk_seq_len l c = int (if n > r * r + r then r + 1 else r)"
    using assms r1 by (simp add: effective_chunk_seq_len_def Let_def n_def [symmetric] r_def [symmetric] max_def)
  have up: "x < real r + 1" using less [of x "real r + 1"] sq r(2)
    by (metis (no_types, opaque_lifting) of_nat_0_le_iff of_nat_1 of_nat_add of_nat_less_iff of_nat_mult)
  have lo: "real r \<le> x" using le [of "real r" x] sq r(1) x0 by (metis of_nat_le_iff of_nat_mult)
  show ?thesis
  proof (cases "n > r * r + r")
    case True
    then have "real n \<ge> real r * real r + real r + 1"
      by (metis Suc_eq_plus1 Suc_leI of_nat_1 of_nat_add of_nat_le_iff of_nat_mult)
    then have "(real r + 1 / 2) * (real r + 1 / 2) < x * x" using sq by (simp add: algebra_simps)
    then have "real r + 1 / 2 < x" using less x0 by blast
    then show ?thesis using True up val by (simp add: x_def)
  next
    case False
    then have "real n \<le> real r * real r + real r"
      by (metis linorder_not_less of_nat_add of_nat_le_iff of_nat_mult)
    then have "x * x < (real r + 1 / 2) * (real r + 1 / 2)" using sq by (simp add: algebra_simps)
    then have "x < real r + 1 / 2" using less [of x "real r + 1 / 2"] by simp
    then show ?thesis using False lo val by (simp add: x_def)
  qed
qed

section \<open>Lemmas: task identifiers\<close>

definition chunk_id :: "plan_args \<Rightarrow> nat \<Rightarrow> string" where
  "chunk_id a i = tid a (colon ''dit_step_chunk'' (str_nat i))"

definition resh_id :: "plan_args \<Rightarrow> nat \<Rightarrow> string" where
  "resh_id a i = tid a (colon ''reshard_dit_step'' (str_nat i))"

lemma tid_inj [simp]: "tid a x = tid a y \<longleftrightarrow> x = y"
  by (simp add: tid_def colon_def)

lemma loop_id_simps [simp]:
  "chunk_id a i = chunk_id a j \<longleftrightarrow> i = j"
  "resh_id a i = resh_id a j \<longleftrightarrow> i = j"
  "chunk_id a i \<noteq> resh_id a j"
  "resh_id a j \<noteq> chunk_id a i"
  by (simp_all add: chunk_id_def resh_id_def colon_def str_nat_inj)

definition fixed_ids :: "plan_args \<Rightarrow> string list" where
  "fixed_ids a = map (tid a) [''text_encode:0'', ''dit_prepare:0'', ''timestep_prepare:0'', ''vae_decode:0'',
     ''finalize:0'', ''reshard_text_to_dit:0'', ''reshard_dit_to_aux:0'']"

lemma fixed_ids_distinct: "distinct (fixed_ids a)"
  by (simp add: fixed_ids_def)

lemma loop_ids_not_fixed: "chunk_id a i \<notin> set (fixed_ids a)" "resh_id a i \<notin> set (fixed_ids a)"
  by (simp_all add: fixed_ids_def chunk_id_def resh_id_def colon_def)

definition loop_ids_from :: "plan_args \<Rightarrow> nat \<Rightarrow> string set" where
  "loop_ids_from a i = {chunk_id a j | j. i \<le> j} \<union> {resh_id a j | j. i \<le> j}"

lemma loop_ids_from_Suc: "loop_ids_from a (Suc i) \<subseteq> loop_ids_from a i - {chunk_id a i, resh_id a i}"
  by (auto simp: loop_ids_from_def)

section \<open>The plan is a pipeline\<close>

text \<open>
  Every task of the list depends on exactly the task before it and reads exactly its outputs;
  the first depends on \<open>deps\<close> and reads \<open>ins\<close>.
\<close>

fun pipeline_from :: "string list \<Rightarrow> artifact_handle list \<Rightarrow> task list \<Rightarrow> bool" where
  "pipeline_from deps ins [] = True"
| "pipeline_from deps ins (t # ts) =
     (t_dependencies t = deps \<and> t_inputs t = ins \<and> pipeline_from [t_id t] (t_outputs t) ts)"

text \<open>Step ranges that follow each other without gap from \<open>s\<close> to \<open>e\<close>, each at most \<open>n\<close> long.\<close>

fun tiles :: "int \<Rightarrow> int \<Rightarrow> int \<Rightarrow> step_range list \<Rightarrow> bool" where
  "tiles n s e [] = (s = e)"
| "tiles n s e (r # rs) =
     (sr_start r = s \<and> s < sr_end r \<and> sr_end r - s \<le> n \<and> tiles n (sr_end r) e rs)"

text \<open>
  Following the list from a task in group \<open>g\<close>, the group only changes at a RESHARD task that
  names the old and the new group.
\<close>

fun group_flow :: "string option \<Rightarrow> task list \<Rightarrow> bool" where
  "group_flow g [] = True"
| "group_flow g (t # ts) =
     (if t_kind t = RESHARD
      then \<exists>g'. g' \<noteq> g \<and> t_group_id t = None
             \<and> map_of (t_payload t) RESHARD_PAYLOAD_SRC_GROUP_ID = Some (group_val g)
             \<and> map_of (t_payload t) RESHARD_PAYLOAD_DST_GROUP_ID = Some (group_val g')
             \<and> group_flow g' ts
      else t_group_id t = g \<and> group_flow g ts)"

fun last_group :: "string option \<Rightarrow> task list \<Rightarrow> string option" where
  "last_group g [] = g"
| "last_group g (t # ts) = last_group (if t_kind t = RESHARD then g else t_group_id t) ts"

definition chunk_ranges :: "task list \<Rightarrow> step_range list" where
  "chunk_ranges ts = List.map_filter t_step_range (filter (\<lambda>t. t_kind t = DIT_STEP_CHUNK) ts)"

text \<open>A chunk runs on the group that the schedule assigns to each of its steps.\<close>

definition chunk_follows :: "sched \<Rightarrow> task \<Rightarrow> bool" where
  "chunk_follows sch t \<longleftrightarrow> (case t_step_range t of
     None \<Rightarrow> True
   | Some r \<Rightarrow> \<forall>x. sr_start r \<le> x \<and> x < sr_end r \<longrightarrow> (\<exists>e. group_for_step x sch = Inr (e, t_group_id t)))"

lemma group_for_step_same:
  "group_for_step st sch = Inr (e, g) \<Longrightarrow> st \<le> x \<Longrightarrow> x < e \<Longrightarrow> group_for_step x sch = Inr (e, g)"
  by (induction st sch rule: group_for_step.induct) (auto split: if_splits)

definition entries :: "task list \<Rightarrow> (string \<times> task) list" where
  "entries ts = map (\<lambda>t. (t_id t, t)) ts"

lemma entries_simps [simp]:
  "entries [] = []" "entries (t # ts) = (t_id t, t) # entries ts" "entries (ts @ us) = entries ts @ entries us"
  "fst ` set (entries ts) = t_id ` set ts"
  by (auto simp: entries_def image_image)

lemma dict_set_new: "k \<notin> fst ` set d \<Longrightarrow> dict_set d k v = d @ [(k, v)]"
  by (induction d k v rule: dict_set.induct) auto

text \<open>What one iteration appends.\<close>

definition chunk_task :: "plan_args \<Rightarrow> int \<Rightarrow> int \<Rightarrow> string option \<Rightarrow> nat \<Rightarrow> string \<Rightarrow> artifact_handle \<Rightarrow> task" where
  "chunk_task a start e g i prev st =
     new_task a (chunk_id a i) DIT_STEP_CHUNK g [prev] [st]
       [if e = pa_num_steps a then state_handle a ''state_denoised'' ''dit_step_chunk:final''
        else state_handle a (''state_denoised_'' @ str_nat i) (colon ''dit_step_chunk'' (str_nat i))]
       (Some \<lparr>sr_start = start, sr_end = e\<rparr>) (chunk_payload a start e)"

lemma insert_reshard_chain:
  assumes "loop_ids_from a (ls_idx s) \<inter> fst ` set (ls_tasks s) = {}"
  shows "\<exists>C. ls_tasks (insert_reshard a g s) = ls_tasks s @ entries C
     \<and> C = (if ls_prev_group s = g then [] else
          [new_task a (resh_id a (ls_idx s)) RESHARD None [ls_prev_task_id s] [ls_prev_state s]
             [ls_prev_state (insert_reshard a g s)] None (reshard_payload (ls_prev_group s) g)])
     \<and> ls_prev_task_id (insert_reshard a g s) = (if ls_prev_group s = g then ls_prev_task_id s else resh_id a (ls_idx s))
     \<and> (ls_prev_group s = g \<longrightarrow> ls_prev_state (insert_reshard a g s) = ls_prev_state s)
     \<and> ls_idx (insert_reshard a g s) = ls_idx s
     \<and> ls_denoise_ids (insert_reshard a g s) = ls_denoise_ids s
     \<and> ls_prev_group (insert_reshard a g s) = g"
proof -
  have "resh_id a (ls_idx s) \<notin> fst ` set (ls_tasks s)"
    using assms by (auto simp: loop_ids_from_def)
  then show ?thesis
    by (simp add: insert_reshard_def Let_def resh_id_def [symmetric] dict_set_new new_task_def)
qed

text \<open>The tasks of one iteration, and of the whole loop, as a continuation of the pipeline.\<close>

definition chain_ok :: "plan_args \<Rightarrow> sched \<Rightarrow> int \<Rightarrow> int \<Rightarrow> loop_state \<Rightarrow> loop_state \<Rightarrow> task list \<Rightarrow> bool" where
  "chain_ok a sch start e s s' C \<longleftrightarrow>
     ls_tasks s' = ls_tasks s @ entries C
     \<and> pipeline_from [ls_prev_task_id s] [ls_prev_state s] C
     \<and> distinct (map t_id C) \<and> t_id ` set C \<subseteq> loop_ids_from a (ls_idx s)
     \<and> tiles (pa_chunk_size a) start e (chunk_ranges C)
     \<and> group_flow (ls_prev_group s) C \<and> last_group (ls_prev_group s) C = ls_prev_group s'
     \<and> (\<forall>t \<in> set C. t_kind t = RESHARD \<or> t_kind t = DIT_STEP_CHUNK \<and> chunk_follows sch t)
     \<and> (if C = [] then s' = s else ls_prev_task_id s' = t_id (last C) \<and> [ls_prev_state s'] = t_outputs (last C)
          \<and> ls_denoise_ids s' \<noteq> [] \<and> last (ls_denoise_ids s') = t_id (last C) \<and> t_kind (last C) \<noteq> RESHARD
          \<and> (\<exists>x. group_for_step (e - 1) sch = Inr (x, t_group_id (last C)))
          \<and> (e = pa_num_steps a \<longrightarrow> t_outputs (last C) = [state_handle a ''state_denoised'' ''dit_step_chunk:final'']))"

lemma pipeline_from_append:
  "pipeline_from deps ins (xs @ ys) \<longleftrightarrow> pipeline_from deps ins xs
     \<and> (if xs = [] then pipeline_from deps ins ys else pipeline_from [t_id (last xs)] (t_outputs (last xs)) ys)"
  by (induction xs arbitrary: deps ins) auto

lemma tiles_append: "tiles n s e (xs @ ys) \<longleftrightarrow> (\<exists>m. tiles n s m xs \<and> tiles n m e ys)"
  by (induction xs arbitrary: s) auto

lemma last_group_last: "xs \<noteq> [] \<Longrightarrow> t_kind (last xs) \<noteq> RESHARD \<Longrightarrow> last_group g xs = t_group_id (last xs)"
  by (induction xs arbitrary: g) auto

lemma group_flow_append:
  assumes "xs \<noteq> []" "t_kind (last xs) \<noteq> RESHARD" "group_flow g xs" "group_flow (t_group_id (last xs)) ys"
  shows "group_flow g (xs @ ys)"
  using assms
proof (induction xs arbitrary: g)
  case (Cons t ts)
  show ?case
  proof (cases "ts = []")
    case True
    then show ?thesis using Cons.prems by auto
  next
    case False
    then show ?thesis using Cons by (auto split: if_splits)
  qed
qed simp

lemma chunk_ranges_append [simp]: "chunk_ranges (xs @ ys) = chunk_ranges xs @ chunk_ranges ys"
  by (simp add: chunk_ranges_def List.map_filter_def)

lemma last_group_append [simp]: "last_group g (xs @ ys) = last_group (last_group g xs) ys"
  by (induction xs arbitrary: g) auto

lemma new_task_simps [simp]:
  "t_id (new_task a i k g d x y r p) = i" "t_kind (new_task a i k g d x y r p) = k"
  "t_group_id (new_task a i k g d x y r p) = g" "t_dependencies (new_task a i k g d x y r p) = d"
  "t_inputs (new_task a i k g d x y r p) = x" "t_outputs (new_task a i k g d x y r p) = y"
  "t_step_range (new_task a i k g d x y r p) = r" "t_payload (new_task a i k g d x y r p) = p"
  by (simp_all add: new_task_def)

lemma reshard_payload_get [simp]:
  "map_of (reshard_payload g g') RESHARD_PAYLOAD_SRC_GROUP_ID = Some (group_val g)"
  "map_of (reshard_payload g g') RESHARD_PAYLOAD_DST_GROUP_ID = Some (group_val g')"
  by (simp_all add: reshard_payload_def RESHARD_PAYLOAD_SRC_GROUP_ID_def RESHARD_PAYLOAD_DST_GROUP_ID_def)

lemma iteration_chain:
  assumes fresh: "loop_ids_from a (ls_idx s) \<inter> fst ` set (ls_tasks s) = {}"
    and grp: "group_for_step start sch = Inr (se, g)" and e: "start < e" "e \<le> se" "e - start \<le> pa_chunk_size a"
    and app: "append_chunk a start e g (insert_reshard a g s) = Inr s'"
  shows "\<exists>C. chain_ok a sch start e s s' C \<and> C \<noteq> [] \<and> ls_idx s' = Suc (ls_idx s)
     \<and> loop_ids_from a (Suc (ls_idx s)) \<inter> fst ` set (ls_tasks s') = {}"
proof -
  let ?s1 = "insert_reshard a g s" and ?i = "ls_idx s"
  from insert_reshard_chain [OF fresh, of g] obtain C1 where
    C1: "ls_tasks ?s1 = ls_tasks s @ entries C1"
      "C1 = (if ls_prev_group s = g then [] else
          [new_task a (resh_id a ?i) RESHARD None [ls_prev_task_id s] [ls_prev_state s]
             [ls_prev_state ?s1] None (reshard_payload (ls_prev_group s) g)])"
      "ls_prev_task_id ?s1 = (if ls_prev_group s = g then ls_prev_task_id s else resh_id a ?i)"
      "ls_prev_group s = g \<longrightarrow> ls_prev_state ?s1 = ls_prev_state s"
      "ls_idx ?s1 = ?i" "ls_denoise_ids ?s1 = ls_denoise_ids s" "ls_prev_group ?s1 = g"
    by blast
  let ?c = "chunk_task a start e g ?i (ls_prev_task_id ?s1) (ls_prev_state ?s1)"
  have cid: "chunk_id a ?i \<notin> fst ` set (ls_tasks ?s1)"
    using fresh unfolding C1(1) by (auto simp: loop_ids_from_def C1(2))
  have s0: "0 \<le> start" using app by (auto simp: append_chunk_def mk_step_range_def split: if_splits)
  have s': "s' = ?s1\<lparr>ls_tasks := ls_tasks ?s1 @ [(chunk_id a ?i, ?c)],
      ls_denoise_ids := ls_denoise_ids ?s1 @ [chunk_id a ?i], ls_prev_task_id := chunk_id a ?i,
      ls_prev_state := hd (t_outputs ?c), ls_prev_group := g, ls_idx := ?i + 1\<rparr>"
    using app s0 e(1) cid
    by (simp add: append_chunk_def mk_step_range_def Let_def C1(5) chunk_id_def [symmetric] dict_set_new chunk_task_def
        new_task_def)
  let ?C = "C1 @ [?c]"
  have fol: "chunk_follows sch ?c"
    using group_for_step_same [OF grp] e by (auto simp: chunk_follows_def chunk_task_def)
  have rng: "chunk_ranges ?C = [\<lparr>sr_start = start, sr_end = e\<rparr>]"
    by (simp add: C1(2) chunk_ranges_def List.map_filter_def chunk_task_def)
  have outs: "t_outputs ?c = [hd (t_outputs ?c)]" by (simp add: chunk_task_def)
  have "chain_ok a sch start e s s' ?C"
    unfolding chain_ok_def
  proof (intro conjI)
    show "ls_tasks s' = ls_tasks s @ entries ?C" using C1(1) by (simp add: s' chunk_task_def)
    show "pipeline_from [ls_prev_task_id s] [ls_prev_state s] ?C"
      using C1(3,4) by (simp add: C1(2) chunk_task_def)
    show "distinct (map t_id ?C)" by (simp add: C1(2) chunk_task_def)
    show "t_id ` set ?C \<subseteq> loop_ids_from a ?i" by (auto simp: C1(2) chunk_task_def loop_ids_from_def)
    show "tiles (pa_chunk_size a) start e (chunk_ranges ?C)" using e unfolding rng by simp
    show "group_flow (ls_prev_group s) ?C" by (auto simp: C1(2) chunk_task_def)
    show "last_group (ls_prev_group s) ?C = ls_prev_group s'" by (simp add: s' chunk_task_def)
    show "\<forall>t \<in> set ?C. t_kind t = RESHARD \<or> t_kind t = DIT_STEP_CHUNK \<and> chunk_follows sch t"
      using fol by (auto simp: C1(2) chunk_task_def)
    show "if ?C = [] then s' = s else ls_prev_task_id s' = t_id (last ?C) \<and> [ls_prev_state s'] = t_outputs (last ?C)
          \<and> ls_denoise_ids s' \<noteq> [] \<and> last (ls_denoise_ids s') = t_id (last ?C) \<and> t_kind (last ?C) \<noteq> RESHARD
          \<and> (\<exists>x. group_for_step (e - 1) sch = Inr (x, t_group_id (last ?C)))
          \<and> (e = pa_num_steps a \<longrightarrow> t_outputs (last ?C) = [state_handle a ''state_denoised'' ''dit_step_chunk:final''])"
      using outs group_for_step_same [OF grp, of "e - 1"] e(1,2) by (simp add: s' chunk_task_def)
  qed
  moreover have "loop_ids_from a (Suc ?i) \<inter> fst ` set (ls_tasks s') = {}"
    using fresh loop_ids_from_Suc [of a ?i] by (auto simp: s' C1(1,2))
  ultimately show ?thesis by (intro exI [of _ ?C]) (simp add: s')
qed

lemma chain_okD:
  assumes "chain_ok a sch start e s s' C"
  shows "ls_tasks s' = ls_tasks s @ entries C"
    "pipeline_from [ls_prev_task_id s] [ls_prev_state s] C"
    "distinct (map t_id C)" "t_id ` set C \<subseteq> loop_ids_from a (ls_idx s)"
    "tiles (pa_chunk_size a) start e (chunk_ranges C)"
    "group_flow (ls_prev_group s) C" "last_group (ls_prev_group s) C = ls_prev_group s'"
    "\<forall>t \<in> set C. t_kind t = RESHARD \<or> t_kind t = DIT_STEP_CHUNK \<and> chunk_follows sch t"
    "C = [] \<Longrightarrow> s' = s" "C = [] \<Longrightarrow> start = e"
    "C \<noteq> [] \<Longrightarrow> ls_prev_task_id s' = t_id (last C)" "C \<noteq> [] \<Longrightarrow> t_outputs (last C) = [ls_prev_state s']"
    "C \<noteq> [] \<Longrightarrow> ls_denoise_ids s' \<noteq> []" "C \<noteq> [] \<Longrightarrow> last (ls_denoise_ids s') = t_id (last C)"
    "C \<noteq> [] \<Longrightarrow> t_kind (last C) \<noteq> RESHARD"
    "C \<noteq> [] \<Longrightarrow> \<exists>x. group_for_step (e - 1) sch = Inr (x, t_group_id (last C))"
    "C \<noteq> [] \<Longrightarrow> e = pa_num_steps a \<Longrightarrow>
       t_outputs (last C) = [state_handle a ''state_denoised'' ''dit_step_chunk:final'']"
  using assms unfolding chain_ok_def by (simp_all add: chunk_ranges_def List.map_filter_def)

lemma chain_compose:
  assumes 1: "chain_ok a sch start m s s1 C1" "C1 \<noteq> []" and 2: "chain_ok a sch m e s1 s' C2"
    and idx: "ls_idx s1 = Suc (ls_idx s)"
    and fresh: "loop_ids_from a (Suc (ls_idx s)) \<inter> fst ` set (ls_tasks s1) = {}"
  shows "chain_ok a sch start e s s' (C1 @ C2)"
proof -
  note d1 = chain_okD [OF 1(1)] and d2 = chain_okD [OF 2]
  have ids: "t_id ` set C2 \<subseteq> loop_ids_from a (Suc (ls_idx s))" using d2(4) idx by simp
  moreover have "t_id ` set C1 \<subseteq> fst ` set (ls_tasks s1)" unfolding d1(1) by (simp add: image_Un)
  ultimately have disj: "t_id ` set C1 \<inter> t_id ` set C2 = {}" using fresh by blast
  have grp: "t_group_id (last C1) = ls_prev_group s1"
    using d1(7) last_group_last [OF 1(2) d1(15) [OF 1(2)]] by metis
  show ?thesis
    unfolding chain_ok_def
  proof (intro conjI)
    show "ls_tasks s' = ls_tasks s @ entries (C1 @ C2)" using d1(1) d2(1) by simp
    show "pipeline_from [ls_prev_task_id s] [ls_prev_state s] (C1 @ C2)"
      unfolding pipeline_from_append using d1(2) d2(2) 1(2) d1(11,12) by simp
    show "distinct (map t_id (C1 @ C2))" using d1(3) d2(3) disj by simp
    show "t_id ` set (C1 @ C2) \<subseteq> loop_ids_from a (ls_idx s)"
      using d1(4) ids loop_ids_from_Suc [of a "ls_idx s"] by (auto simp: image_Un)
    show "tiles (pa_chunk_size a) start e (chunk_ranges (C1 @ C2))"
      unfolding chunk_ranges_append tiles_append using d1(5) d2(5) by blast
    show "group_flow (ls_prev_group s) (C1 @ C2)"
      by (rule group_flow_append [OF 1(2) d1(15) [OF 1(2)] d1(6)]) (simp add: grp d2(6))
    show "last_group (ls_prev_group s) (C1 @ C2) = ls_prev_group s'" by (simp add: d1(7) d2(7))
    show "\<forall>t \<in> set (C1 @ C2). t_kind t = RESHARD \<or> t_kind t = DIT_STEP_CHUNK \<and> chunk_follows sch t"
      using d1(8) d2(8) by auto
    show "if C1 @ C2 = [] then s' = s else ls_prev_task_id s' = t_id (last (C1 @ C2))
          \<and> [ls_prev_state s'] = t_outputs (last (C1 @ C2))
          \<and> ls_denoise_ids s' \<noteq> [] \<and> last (ls_denoise_ids s') = t_id (last (C1 @ C2))
          \<and> t_kind (last (C1 @ C2)) \<noteq> RESHARD
          \<and> (\<exists>x. group_for_step (e - 1) sch = Inr (x, t_group_id (last (C1 @ C2))))
          \<and> (e = pa_num_steps a \<longrightarrow> t_outputs (last (C1 @ C2)) = [state_handle a ''state_denoised'' ''dit_step_chunk:final''])"
    proof (cases "C2 = []")
      case True
      then show ?thesis using d1(11-17) d2(9,10) 1(2) by simp
    next
      case False
      then show ?thesis using d2(11-17) by simp
    qed
  qed
qed

lemma chunk_loop_chain:
  assumes "chunk_loop a sch start s = Inr s'" "start \<le> pa_num_steps a"
    and "loop_ids_from a (ls_idx s) \<inter> fst ` set (ls_tasks s) = {}"
  shows "\<exists>C. chain_ok a sch start (pa_num_steps a) s s' C \<and> (start < pa_num_steps a \<longrightarrow> C \<noteq> [])"
  using assms
proof (induction a sch start s rule: chunk_loop.induct)
  case (1 a sch start s)
  have cs: "\<not> pa_chunk_size a < 1" using "1.prems"(1) by (auto simp: chunk_loop.simps [of a sch start s])
  show ?case
  proof (cases "start < pa_num_steps a")
    case False
    then have "s' = s" using "1.prems"(1) cs by (simp add: chunk_loop.simps [of a sch start s])
    moreover have "start = pa_num_steps a" using False "1.prems"(2) by simp
    ultimately show ?thesis
      by (intro exI [of _ "[]"]) (simp add: chain_ok_def chunk_ranges_def List.map_filter_def)
  next
    case True
    from "1.prems"(1) True cs obtain se g where grp: "group_for_step start sch = Inr (se, g)"
      by (auto simp: chunk_loop.simps [of a sch start s] split: sum.splits)
    let ?e = "min (min (start + pa_chunk_size a) se) (pa_num_steps a)"
    from "1.prems"(1) True cs grp obtain s1 where
      s1: "append_chunk a start ?e g (insert_reshard a g s) = Inr s1" and
      rest: "chunk_loop a sch ?e s1 = Inr s'"
      by (auto simp: chunk_loop.simps [of a sch start s] Let_def split: sum.splits)
    have e: "start < ?e" "?e \<le> se" "?e - start \<le> pa_chunk_size a" "?e \<le> pa_num_steps a"
      using True cs group_for_step_less [OF grp] by auto
    from iteration_chain [OF "1.prems"(3) grp e(1-3) s1] obtain C1 where
      C1: "chain_ok a sch start ?e s s1 C1" "C1 \<noteq> []" "ls_idx s1 = Suc (ls_idx s)"
        "loop_ids_from a (Suc (ls_idx s)) \<inter> fst ` set (ls_tasks s1) = {}"
      by blast
    from "1.IH" [OF cs True grp refl refl s1 rest e(4)] C1(3,4) obtain C2 where
      "chain_ok a sch ?e (pa_num_steps a) s1 s' C2" by auto
    from chain_compose [OF C1(1,2) this C1(3,4)] show ?thesis using C1(2) by blast
  qed
qed

lemma mk_step_range_nonneg: "mk_step_range s e = Inr r \<Longrightarrow> 0 \<le> s"
  by (auto simp: mk_step_range_def split: if_splits)

text \<open>With a schedule that reaches the last step the loop does not raise.\<close>

lemma chunk_loop_total:
  assumes "1 \<le> pa_chunk_size a" "0 \<le> start"
    and "\<And>x. 0 \<le> x \<Longrightarrow> x < pa_num_steps a \<Longrightarrow> \<exists>r. group_for_step x sch = Inr r"
  shows "\<exists>s'. chunk_loop a sch start s = Inr s'"
  using assms
proof (induction a sch start s rule: chunk_loop.induct)
  case (1 a sch start s)
  show ?case
  proof (cases "start < pa_num_steps a")
    case False
    then show ?thesis using "1.prems"(1) by (subst chunk_loop.simps) simp
  next
    case True
    then obtain se g where grp: "group_for_step start sch = Inr (se, g)" using "1.prems"(2,3) by (metis surj_pair)
    let ?e = "min (min (start + pa_chunk_size a) se) (pa_num_steps a)"
    have e: "start < ?e" using True "1.prems"(1) group_for_step_less [OF grp] by auto
    then obtain s1 where s1: "append_chunk a start ?e g (insert_reshard a g s) = Inr s1"
      using "1.prems"(2) by (simp add: append_chunk_def mk_step_range_def Let_def)
    have "\<not> pa_chunk_size a < 1" "0 \<le> ?e" using "1.prems"(1,2) e by linarith+
    from "1.IH" [OF this(1) True grp refl refl s1 "1.prems"(1) this(2) "1.prems"(3)] show ?thesis
      using True grp s1 "1.prems"(1) by (subst chunk_loop.simps) (simp add: Let_def)
  qed
qed

subsection \<open>The normalised schedule\<close>

fun contiguous :: "int \<Rightarrow> int \<Rightarrow> sched \<Rightarrow> bool" where
  "contiguous s e [] = (s = e)"
| "contiguous s e ((s', e', g) # rest) = (s' = s \<and> s < e' \<and> contiguous e' e rest)"

lemma contiguous_snoc: "contiguous s m xs \<Longrightarrow> m < e \<Longrightarrow> contiguous s e (xs @ [(m, e, g)])"
  by (induction s m xs rule: contiguous.induct) auto

lemma normalize_contiguous:
  assumes "normalize_dit_step_schedule n g items = Inr sch" "1 \<le> n"
  shows "contiguous 0 n sch \<and> sch \<noteq> []"
proof (cases "items = None \<or> items = Some []")
  case True
  then show ?thesis using assms by (auto simp: normalize_dit_step_schedule_def)
next
  case False
  then obtain i "is" where items: "items = Some (i # is)" by (cases items; cases "the items") auto
  from assms(1) obtain e b where
    loop: "for_res (normalize_item n) ([], 0, False) (i # is) = Inr (sch, e, b)" and e: "e = n"
    by (auto simp: normalize_dit_step_schedule_def items bind_res_eq_Inr simp del: for_res.simps split: if_splits)
  let ?P = "\<lambda>(acc, e, b). contiguous 0 e acc"
  have "?P (sch, e, b)"
  proof (rule for_res_invariant [where P = ?P, OF _ _ loop])
    show "?P ([], 0, False)" by simp
    fix s x s' assume "?P s" "x \<in> set (i # is)" "normalize_item n s x = Inr s'"
    then show "?P s'"
      by (auto simp: normalize_item_def Let_def contiguous_snoc split: prod.splits if_splits)
  qed
  then show ?thesis using e assms(2) by (cases sch) auto
qed

lemma contiguous_group:
  "contiguous s e sch \<Longrightarrow> s \<le> x \<Longrightarrow> x < e \<Longrightarrow> \<exists>r. group_for_step x sch = Inr r"
  by (induction s e sch rule: contiguous.induct) auto

lemma contiguous_le: "contiguous s e sch \<Longrightarrow> s \<le> e"
  by (induction s e sch rule: contiguous.induct) auto

lemma contiguous_less: "contiguous s e sch \<Longrightarrow> sch \<noteq> [] \<Longrightarrow> s < e"
proof (cases sch)
  case (Cons x xs)
  assume "contiguous s e sch"
  then have "s < fst (snd x)" "contiguous (fst (snd x)) e xs" using Cons by (cases x, auto)+
  then show ?thesis using contiguous_le [of "fst (snd x)" e xs] by simp
qed simp

subsection \<open>Assembling the plan\<close>

abbreviation with_metadata :: "plan_args \<Rightarrow> task \<Rightarrow> task" where
  "with_metadata a t \<equiv> t\<lparr>t_payload := dict_set (t_payload t) ''request_metadata'' (PyDict (plan_metadata a))\<rparr>"

lemma pipeline_from_metadata [simp]:
  "pipeline_from d i (map (\<lambda>t. t\<lparr>t_payload := f t\<rparr>) ts) = pipeline_from d i ts"
  by (induction ts arbitrary: d i) auto

lemma chunk_ranges_metadata [simp]: "chunk_ranges (map (\<lambda>t. t\<lparr>t_payload := f t\<rparr>) ts) = chunk_ranges ts"
  by (induction ts) (auto simp: chunk_ranges_def List.map_filter_def split: option.splits)

lemma chunk_follows_metadata: "chunk_follows sch (t\<lparr>t_payload := x\<rparr>) = chunk_follows sch t"
  by (cases "t_step_range t") (simp_all add: chunk_follows_def)

lemma entries_metadata:
  "map (\<lambda>(k, t). (k, t\<lparr>t_payload := f t\<rparr>)) (entries ts) = entries (map (\<lambda>t. t\<lparr>t_payload := f t\<rparr>) ts)"
  by (simp add: entries_def)

text \<open>The five tasks every plan has, with the links the function gives them in the end.\<close>

definition text_task :: "plan_args \<Rightarrow> string option \<Rightarrow> task" where
  "text_task a g = new_task a (tid a ''text_encode:0'') TEXT_ENCODE g [] [req_handle a]
     [state_handle a ''state_text'' ''text_encode''] None (stage_payload (pa_text_seq_len a) TEXT_ENCODE)"

definition prepare_task :: "plan_args \<Rightarrow> string option \<Rightarrow> string \<Rightarrow> artifact_handle \<Rightarrow> task" where
  "prepare_task a g prev st = new_task a (tid a ''dit_prepare:0'') DIT_PREPARE g [prev] [st]
     [state_handle a ''state_latent'' ''dit_prepare''] None (stage_payload (pa_latent_seq_len a) DIT_PREPARE)"

definition timestep_task :: "plan_args \<Rightarrow> string option \<Rightarrow> task" where
  "timestep_task a g = new_task a (tid a ''timestep_prepare:0'') TIMESTEP_PREPARE g [tid a ''dit_prepare:0'']
     [state_handle a ''state_latent'' ''dit_prepare''] [state_handle a ''state_timestep'' ''timestep_prepare''] None
     (stage_payload (pa_latent_seq_len a) TIMESTEP_PREPARE)"

definition decode_task :: "plan_args \<Rightarrow> string option \<Rightarrow> string \<Rightarrow> artifact_handle \<Rightarrow> task" where
  "decode_task a g prev st = new_task a (tid a ''vae_decode:0'') VAE_DECODE g [prev] [st]
     [decoded_handle a] None (stage_payload (pa_latent_seq_len a) VAE_DECODE)"

definition final_task :: "plan_args \<Rightarrow> string option \<Rightarrow> task" where
  "final_task a g = new_task a (tid a ''finalize:0'') FINALIZE g [tid a ''vae_decode:0'']
     [decoded_handle a] [output_handle a] None (stage_payload 1 FINALIZE)"

definition boundary_task ::
  "plan_args \<Rightarrow> string \<Rightarrow> string \<Rightarrow> string option \<Rightarrow> string option \<Rightarrow> string \<Rightarrow> artifact_handle \<Rightarrow> task" where
  "boundary_task a name aid src dst prev st = new_task a (tid a (name @ '':0'')) RESHARD None [prev] [st]
     [state_handle a aid name] None (reshard_payload src dst)"

lemmas task_defs = text_task_def prepare_task_def timestep_task_def decode_task_def final_task_def boundary_task_def

lemma keys_not_in_chain:
  assumes "t_id ` set C \<subseteq> loop_ids_from a 0" "x \<in> set (fixed_ids a)"
  shows "x \<notin> t_id ` set C"
  using assms loop_ids_not_fixed [of a] by (auto simp: loop_ids_from_def)

text \<open>The assembled tasks in pipeline order, without and with stage groups.\<close>

lemma assemble_plain:
  assumes "t_id ` set C \<subseteq> loop_ids_from a 0"
    and "rewire (tid a ''vae_decode:0'') [lc] [sd] (base_tasks a g1 g2 g4 g5 @ entries C) = Inr ts"
  shows "mset ts = mset (entries ([text_task a g1,
      prepare_task a g2 (tid a ''text_encode:0'') (state_handle a ''state_text'' ''text_encode''), timestep_task a g2]
      @ C @ [decode_task a g4 lc sd, final_task a g5]))"
  using assms(2)
  by (auto simp: rewire_def base_tasks_def Let_def task_defs new_task_def ac_simps)

lemma assemble_staged:
  assumes C: "t_id ` set C \<subseteq> loop_ids_from a 0"
    and 1: "rewire (tid a ''vae_decode:0'') [lc0] [sd0] (base_tasks a g1 g2 g4 g5 @ entries C) = Inr ts1"
    and 2: "add_stage_reshards a aux fd ld lc ts1 = Inr ts"
  shows "mset ts = mset (entries ([text_task a g1,
      boundary_task a ''reshard_text_to_dit'' ''state_text_dit'' (Some aux) fd
        (tid a ''text_encode:0'') (state_handle a ''state_text'' ''text_encode''),
      prepare_task a g2 (tid a ''reshard_text_to_dit:0'') (state_handle a ''state_text_dit'' ''reshard_text_to_dit''),
      timestep_task a g2]
      @ C @ [boundary_task a ''reshard_dit_to_aux'' ''state_denoised_aux'' ld (Some aux) lc
               (state_handle a ''state_denoised'' ''dit_step_chunk:final''),
             decode_task a g4 (tid a ''reshard_dit_to_aux:0'') (state_handle a ''state_denoised_aux'' ''reshard_dit_to_aux''),
             final_task a g5]))"
proof -
  have fresh: "tid a ''reshard_text_to_dit:0'' \<notin> t_id ` set C" "tid a ''reshard_dit_to_aux:0'' \<notin> t_id ` set C"
    using keys_not_in_chain [OF C] by (auto simp: fixed_ids_def)
  have d1: "dict_set (entries C) (tid a ''reshard_text_to_dit:0'') v = entries C @ [(tid a ''reshard_text_to_dit:0'', v)]" for v
    by (rule dict_set_new) (use fresh in simp)
  have d2: "dict_set (entries C @ [(tid a ''reshard_text_to_dit:0'', w)]) (tid a ''reshard_dit_to_aux:0'') v
      = entries C @ [(tid a ''reshard_text_to_dit:0'', w), (tid a ''reshard_dit_to_aux:0'', v)]" for v w
    using fresh by (subst dict_set_new) (auto simp: image_Un)
  show ?thesis
    using 1 2
    by (auto simp: rewire_def add_stage_reshards_def base_tasks_def Let_def task_defs new_task_def d1 d2 ac_simps)
qed

text \<open>The tasks of a plan in pipeline order, with the chain of the denoising loop in the middle.\<close>

lemma base_keys: "fst ` set (base_tasks a g1 g2 g4 g5) \<subseteq> set (fixed_ids a)"
  by (auto simp: base_tasks_def Let_def fixed_ids_def)

lemma mset_entries_metadata:
  assumes "mset ts = mset (entries us)"
  shows "mset (map (\<lambda>(k, t). (k, with_metadata a t)) ts) = mset (entries (map (with_metadata a) us))"
  using arg_cong [OF assms, of "image_mset (\<lambda>(k, t). (k, with_metadata a t))"]
  by (simp only: mset_map [symmetric] entries_metadata)

lemma build_plan_unfold:
  assumes "build_chunked_dit_plan a = Inr p"
  shows "\<exists>stages gd sch g1 g4 g5 s ts1 ts2.
    1 \<le> pa_num_steps a
    \<and> normalize_dit_step_schedule (pa_num_steps a) gd (pa_dit_step_schedule a) = Inr sch
    \<and> chunk_loop a sch 0 \<lparr>ls_tasks = base_tasks a g1 (snd (snd (hd sch))) g4 g5, ls_denoise_ids = [],
                  ls_prev_task_id = tid a ''timestep_prepare:0'',
                  ls_prev_state = state_handle a ''state_timestep'' ''timestep_prepare'',
                  ls_prev_group = snd (snd (hd sch)), ls_idx = 0\<rparr> = Inr s
    \<and> rewire (tid a ''vae_decode:0'') [last (ls_denoise_ids s)]
            [state_handle a ''state_denoised'' ''dit_step_chunk:final''] (ls_tasks s) = Inr ts1
    \<and> (case stages of None \<Rightarrow> Inr ts1
       | Some (aux, dit) \<Rightarrow> add_stage_reshards a aux (snd (snd (hd sch))) (snd (snd (last sch)))
            (last (ls_denoise_ids s)) ts1) = Inr ts2
    \<and> p_tasks p = map (\<lambda>(k, t). (k, with_metadata a t)) ts2 \<and> p_terminal p = [tid a ''finalize:0'']
    \<and> p_initial p = [\<lparr>av_handle = req_handle a, av_value = HostVal (pa_request_value a)\<rparr>]
    \<and> stage_groups a = Inr stages
    \<and> group_for_kind a stages DIT_STEP_CHUNK = Inr gd
    \<and> group_for_kind a stages TEXT_ENCODE = Inr g1 \<and> group_for_kind a stages VAE_DECODE = Inr g4
    \<and> group_for_kind a stages FINALIZE = Inr g5"
  using assms unfolding build_chunked_dit_plan_def Let_def
  by (clarsimp elim!: bind_res_InrE split: if_splits) (intro exI conjI; (assumption | simp))

definition plan_shape :: "plan_args \<Rightarrow> plan \<Rightarrow> task list \<Rightarrow> task list \<Rightarrow> task list \<Rightarrow> sched \<Rightarrow> bool" where
  "plan_shape a p pre C post sch \<longleftrightarrow>
     mset (p_tasks p) = mset (entries (map (with_metadata a) (pre @ C @ post)))
     \<and> pipeline_from [] [req_handle a] (pre @ C @ post)
     \<and> set (map t_id (pre @ post)) \<subseteq> set (fixed_ids a)
     \<and> distinct (map t_id (pre @ post))
     \<and> t_id ` set C \<subseteq> loop_ids_from a 0
     \<and> distinct (map t_id C)
     \<and> chunk_ranges pre = []
     \<and> chunk_ranges post = []
     \<and> tiles (pa_chunk_size a) 0 (pa_num_steps a) (chunk_ranges C)
     \<and> contiguous 0 (pa_num_steps a) sch
     \<and> (\<forall>t \<in> set C. t_kind t = RESHARD \<or> t_kind t = DIT_STEP_CHUNK \<and> chunk_follows sch t)
     \<and> (\<exists>g. normalize_dit_step_schedule (pa_num_steps a) g (pa_dit_step_schedule a) = Inr sch)
     \<and> (\<forall>t \<in> set (pre @ post). t_kind t \<noteq> DIT_STEP_CHUNK)
     \<and> post \<noteq> []
     \<and> t_id (last post) = tid a ''finalize:0''
     \<and> t_outputs (last post) = [output_handle a]
     \<and> p_terminal p = [tid a ''finalize:0'']
     \<and> p_initial p = [\<lparr>av_handle = req_handle a, av_value = HostVal (pa_request_value a)\<rparr>]"

lemma plan_shapeD:
  assumes "plan_shape a p pre C post sch"
  shows "mset (p_tasks p) = mset (entries (map (with_metadata a) (pre @ C @ post)))"
    "pipeline_from [] [req_handle a] (pre @ C @ post)"
    "set (map t_id (pre @ post)) \<subseteq> set (fixed_ids a)"
    "distinct (map t_id (pre @ post))"
    "t_id ` set C \<subseteq> loop_ids_from a 0"
    "distinct (map t_id C)"
    "chunk_ranges pre = []"
    "chunk_ranges post = []"
    "tiles (pa_chunk_size a) 0 (pa_num_steps a) (chunk_ranges C)"
    "contiguous 0 (pa_num_steps a) sch"
    "\<forall>t \<in> set C. t_kind t = RESHARD \<or> t_kind t = DIT_STEP_CHUNK \<and> chunk_follows sch t"
    "\<exists>g. normalize_dit_step_schedule (pa_num_steps a) g (pa_dit_step_schedule a) = Inr sch"
    "\<forall>t \<in> set (pre @ post). t_kind t \<noteq> DIT_STEP_CHUNK"
    "post \<noteq> []"
    "t_id (last post) = tid a ''finalize:0''"
    "t_outputs (last post) = [output_handle a]"
    "p_terminal p = [tid a ''finalize:0'']"
    "p_initial p = [\<lparr>av_handle = req_handle a, av_value = HostVal (pa_request_value a)\<rparr>]"
  using assms unfolding plan_shape_def by blast+

lemma build_plan_shape:
  assumes "build_chunked_dit_plan a = Inr p"
  shows "\<exists>pre C post sch. plan_shape a p pre C post sch"
proof -
  from assms obtain stages :: "(string \<times> string) option" and gd sch g1 g4 g5 s ts1 ts2 where
    n: "1 \<le> pa_num_steps a" and
    sch: "normalize_dit_step_schedule (pa_num_steps a) gd (pa_dit_step_schedule a) = Inr sch" and
    loop: "chunk_loop a sch 0 \<lparr>ls_tasks = base_tasks a g1 (snd (snd (hd sch))) g4 g5, ls_denoise_ids = [],
                  ls_prev_task_id = tid a ''timestep_prepare:0'',
                  ls_prev_state = state_handle a ''state_timestep'' ''timestep_prepare'',
                  ls_prev_group = snd (snd (hd sch)), ls_idx = 0\<rparr> = Inr s" (is "chunk_loop a sch 0 ?s0 = _") and
    ts1: "rewire (tid a ''vae_decode:0'') [last (ls_denoise_ids s)]
            [state_handle a ''state_denoised'' ''dit_step_chunk:final''] (ls_tasks s) = Inr ts1" and
    ts2: "(case stages of None \<Rightarrow> Inr ts1
       | Some (aux, dit) \<Rightarrow> add_stage_reshards a aux (snd (snd (hd sch))) (snd (snd (last sch)))
            (last (ls_denoise_ids s)) ts1) = Inr ts2" and
    p: "p_tasks p = map (\<lambda>(k, t). (k, with_metadata a t)) ts2" "p_terminal p = [tid a ''finalize:0'']"
       "p_initial p = [\<lparr>av_handle = req_handle a, av_value = HostVal (pa_request_value a)\<rparr>]"
    using build_plan_unfold [OF assms] by (elim exE conjE) (rule that)
  note cont = normalize_contiguous [OF sch n]
  have fresh: "loop_ids_from a (ls_idx ?s0) \<inter> fst ` set (ls_tasks ?s0) = {}"
    using base_keys [of a g1 "snd (snd (hd sch))" g4 g5] loop_ids_not_fixed [of a] by (fastforce simp: loop_ids_from_def)
  from chunk_loop_chain [OF loop _ fresh] n obtain C where
    C: "chain_ok a sch 0 (pa_num_steps a) ?s0 s C" "C \<noteq> []" by auto
  note c = chain_okD [OF C(1)]
  let ?g2 = "snd (snd (hd sch))" and ?lc = "t_id (last C)"
    and ?den = "state_handle a ''state_denoised'' ''dit_step_chunk:final''"
  have lc: "last (ls_denoise_ids s) = ?lc" by (rule c(14) [OF C(2)])
  have tasks: "ls_tasks s = base_tasks a g1 ?g2 g4 g5 @ entries C" using c(1) by simp
  have pipe: "pipeline_from [tid a ''timestep_prepare:0''] [state_handle a ''state_timestep'' ''timestep_prepare''] C"
    using c(2) by simp
  have ids: "t_id ` set C \<subseteq> loop_ids_from a 0" using c(4) by simp
  have out: "t_outputs (last C) = [?den]" using c(17) [OF C(2)] by simp
  show ?thesis
  proof (cases stages)
    case None
    let ?pre = "[text_task a g1, prepare_task a ?g2 (tid a ''text_encode:0'') (state_handle a ''state_text'' ''text_encode''),
        timestep_task a ?g2]" and ?post = "[decode_task a g4 ?lc ?den, final_task a g5]"
    have "ts2 = ts1" using ts2 None by simp
    then have ms: "mset ts2 = mset (entries (?pre @ C @ ?post))"
      using assemble_plain [OF ids] ts1 tasks lc by simp
    have "plan_shape a p ?pre C ?post sch"
      unfolding plan_shape_def
    proof (intro conjI)
      show "mset (p_tasks p) = mset (entries (map (with_metadata a) (?pre @ C @ ?post)))"
        unfolding p(1) by (rule mset_entries_metadata [OF ms])
      show "pipeline_from [] [req_handle a] (?pre @ C @ ?post)"
        using pipe C(2) out by (simp add: pipeline_from_append task_defs)
    qed (use cont c(3,5,8) ids sch p(2,3) in \<open>auto simp: task_defs fixed_ids_def chunk_ranges_def List.map_filter_def\<close>)
    then show ?thesis by blast
  next
    case (Some ad)
    obtain aux dit where ad: "ad = (aux, dit)" by (cases ad)
    let ?pre = "[text_task a g1,
      boundary_task a ''reshard_text_to_dit'' ''state_text_dit'' (Some aux) ?g2
        (tid a ''text_encode:0'') (state_handle a ''state_text'' ''text_encode''),
      prepare_task a ?g2 (tid a ''reshard_text_to_dit:0'') (state_handle a ''state_text_dit'' ''reshard_text_to_dit''),
      timestep_task a ?g2]" and
      ?post = "[boundary_task a ''reshard_dit_to_aux'' ''state_denoised_aux'' (snd (snd (last sch))) (Some aux) ?lc ?den,
             decode_task a g4 (tid a ''reshard_dit_to_aux:0'') (state_handle a ''state_denoised_aux'' ''reshard_dit_to_aux''),
             final_task a g5]"
    have "add_stage_reshards a aux ?g2 (snd (snd (last sch))) ?lc ts1 = Inr ts2"
      using ts2 Some ad lc by simp
    then have ms: "mset ts2 = mset (entries (?pre @ C @ ?post))"
      using assemble_staged [OF ids] ts1 tasks by simp
    have "plan_shape a p ?pre C ?post sch"
      unfolding plan_shape_def
    proof (intro conjI)
      show "mset (p_tasks p) = mset (entries (map (with_metadata a) (?pre @ C @ ?post)))"
        unfolding p(1) by (rule mset_entries_metadata [OF ms])
      show "pipeline_from [] [req_handle a] (?pre @ C @ ?post)"
        using pipe C(2) out by (simp add: pipeline_from_append task_defs)
    qed (use cont c(3,5,8) ids sch p(2,3) in \<open>auto simp: task_defs fixed_ids_def chunk_ranges_def List.map_filter_def\<close>)
    then show ?thesis by blast
  qed
qed

section \<open>Properties\<close>

lemma contiguous_last:
  "contiguous s e sch \<Longrightarrow> sch \<noteq> [] \<Longrightarrow> group_for_step (e - 1) sch = Inr (e, snd (snd (last sch)))"
proof (induction s e sch rule: contiguous.induct)
  case (2 s e s' e' g rest)
  show ?case
  proof (cases "rest = []")
    case True
    then show ?thesis using 2 by simp
  next
    case False
    have "e' < e" using contiguous_less [of e' e rest] 2 False by simp
    then show ?thesis using 2 False by simp
  qed
qed simp

lemma distinct_plan_ids:
  assumes "set (map t_id (pre @ post)) \<subseteq> set (fixed_ids a)" "distinct (map t_id (pre @ post))"
    and "t_id ` set C \<subseteq> loop_ids_from a 0" "distinct (map t_id C)"
  shows "distinct (map t_id (pre @ C @ post))"
proof -
  have "t_id ` set C \<inter> set (map t_id (pre @ post)) = {}"
    using assms(1) keys_not_in_chain [OF assms(3)] by blast
  then show ?thesis using assms(2,4) by auto
qed

lemma plan_exists_aux:
  assumes "1 \<le> pa_num_steps a" "1 \<le> pa_chunk_size a" "1 \<le> pa_text_seq_len a" "1 \<le> pa_latent_seq_len a"
    and "case pa_do_true_cfg a of None \<Rightarrow> True | Some f \<Rightarrow> int (length f) = pa_num_steps a"
    and "pa_stage_group_ids a = None" "pa_dit_step_schedule a = None"
  shows "\<exists>p. build_chunked_dit_plan a = Inr p"
proof -
  let ?g = "pa_group_id a" and ?sch = "[(0, pa_num_steps a, pa_group_id a)]"
  let ?s0 = "\<lparr>ls_tasks = base_tasks a ?g ?g ?g ?g, ls_denoise_ids = [],
      ls_prev_task_id = tid a ''timestep_prepare:0'',
      ls_prev_state = state_handle a ''state_timestep'' ''timestep_prepare'', ls_prev_group = ?g, ls_idx = 0\<rparr>"
  obtain s where s: "chunk_loop a ?sch 0 ?s0 = Inr s"
    using chunk_loop_total [of a 0 ?sch ?s0] assms(2) by auto
  have fresh: "loop_ids_from a (ls_idx ?s0) \<inter> fst ` set (ls_tasks ?s0) = {}"
    using base_keys [of a ?g ?g ?g ?g] loop_ids_not_fixed [of a] by (fastforce simp: loop_ids_from_def)
  from chunk_loop_chain [OF s _ fresh] assms(1) obtain C where
    C: "chain_ok a ?sch 0 (pa_num_steps a) ?s0 s C" "C \<noteq> []" by auto
  have "ls_denoise_ids s \<noteq> []" by (rule chain_okD(13) [OF C])
  moreover have "map_of (ls_tasks s) (tid a ''vae_decode:0'') \<noteq> None"
    using chain_okD(1) [OF C(1)] by (simp add: base_tasks_def Let_def)
  ultimately show ?thesis
    using assms s
    by (auto simp: build_chunked_dit_plan_def stage_groups_def group_for_kind_def
        normalize_dit_step_schedule_def Let_def rewire_def split: option.splits)
qed

section \<open>A concrete plan\<close>

definition demo_args :: plan_args where
  "demo_args = \<lparr>pa_request_id = ''q'', pa_request_value = PyNone, pa_request_type = ''t2v'',
     pa_num_steps = 5, pa_chunk_size = 2, pa_priority = 0, pa_group_id = None,
     pa_text_seq_len = 8, pa_latent_seq_len = 16, pa_state_codec_id = ''c'', pa_decoded_codec_id = None,
     pa_metadata = None, pa_stage_group_ids = None, pa_dit_step_schedule = None, pa_do_true_cfg = None\<rparr>"

definition demo_plan :: plan where
  "demo_plan = (case build_chunked_dit_plan demo_args of Inr p \<Rightarrow> p
     | Inl _ \<Rightarrow> \<lparr>p_request_id = [], p_tasks = [], p_terminal = [], p_initial = [], p_metadata = []\<rparr>)"

lemma demo_plan_ok: "build_chunked_dit_plan demo_args = Inr demo_plan"
proof -
  have "\<exists>p. build_chunked_dit_plan demo_args = Inr p"
    by (rule plan_exists_aux) (simp_all add: demo_args_def)
  then show ?thesis by (auto simp: demo_plan_def)
qed

text \<open>
  C5: A compiled plan is one pipeline from the request to the output: its tasks, under distinct
  ids, can be listed so that the first reads the initial request artifact and depends on nothing,
  every other task depends on exactly the task before it and reads exactly the artifacts that
  task produces, and the last is the terminal task that produces the output.
\<close>

theorem plan_is_pipeline:
  assumes "build_chunked_dit_plan a = Inr p"
  shows "\<exists>ts. mset (p_tasks p) = mset (entries ts) \<and> distinct (map t_id ts)
     \<and> pipeline_from [] [req_handle a] ts \<and> map av_handle (p_initial p) = [req_handle a]
     \<and> ts \<noteq> [] \<and> p_terminal p = [t_id (last ts)] \<and> t_outputs (last ts) = [output_handle a]"
proof -
  from build_plan_shape [OF assms] obtain pre C post sch where "plan_shape a p pre C post sch" by blast
  note sh = plan_shapeD [OF this]
  let ?ts = "map (with_metadata a) (pre @ C @ post)"
  have ids: "map t_id ?ts = map t_id (pre @ C @ post)" by simp
  have "distinct (map t_id ?ts)" unfolding ids by (rule distinct_plan_ids [OF sh(3-6)])
  moreover have "pipeline_from [] [req_handle a] ?ts" using sh(2) by (simp only: pipeline_from_metadata)
  moreover have "last ?ts = with_metadata a (last post)" using sh(14) by (simp add: last_map)
  ultimately show ?thesis using sh(1,14-18) by (intro exI [of _ ?ts]) simp
qed

theorem plan_is_pipeline_witness:
  "\<exists>ts. mset (p_tasks demo_plan) = mset (entries ts) \<and> distinct (map t_id ts)
     \<and> pipeline_from [] [req_handle demo_args] ts \<and> map av_handle (p_initial demo_plan) = [req_handle demo_args]
     \<and> ts \<noteq> [] \<and> p_terminal demo_plan = [t_id (last ts)] \<and> t_outputs (last ts) = [output_handle demo_args]"
  by (rule plan_is_pipeline [OF demo_plan_ok])

text \<open>
  C15: The denoising chunks of a plan cover the requested steps: in pipeline order their step ranges
  follow each other without gap or overlap from step 0 to the last step, none is longer than the
  chunk size, and every step runs on the group that the normalised step schedule assigns to it.
\<close>

theorem plan_chunks_tile_steps:
  assumes "build_chunked_dit_plan a = Inr p"
  shows "\<exists>ts g sch. mset (p_tasks p) = mset (entries ts) \<and> pipeline_from [] [req_handle a] ts
     \<and> tiles (pa_chunk_size a) 0 (pa_num_steps a) (chunk_ranges ts)
     \<and> normalize_dit_step_schedule (pa_num_steps a) g (pa_dit_step_schedule a) = Inr sch
     \<and> (\<forall>t \<in> set ts. t_kind t = DIT_STEP_CHUNK \<longrightarrow> chunk_follows sch t)"
proof -
  from build_plan_shape [OF assms] obtain pre C post sch where "plan_shape a p pre C post sch" by blast
  note sh = plan_shapeD [OF this]
  let ?ts = "map (with_metadata a) (pre @ C @ post)"
  have "chunk_ranges ?ts = chunk_ranges C" using sh(7,8) by (simp only: chunk_ranges_metadata chunk_ranges_append) simp
  moreover have "\<forall>t \<in> set ?ts. t_kind t = DIT_STEP_CHUNK \<longrightarrow> chunk_follows sch t"
    using sh(11,13) by (auto simp: chunk_follows_metadata)
  moreover have "pipeline_from [] [req_handle a] ?ts" using sh(2) by (simp only: pipeline_from_metadata)
  moreover obtain g where "normalize_dit_step_schedule (pa_num_steps a) g (pa_dit_step_schedule a) = Inr sch"
    using sh(12) by blast
  ultimately show ?thesis
    using sh(1,9) by (intro exI [of _ ?ts] exI [of _ g] exI [of _ sch] conjI) (simp_all only:)
qed

theorem plan_chunks_tile_steps_witness:
  "\<exists>ts g sch. mset (p_tasks demo_plan) = mset (entries ts) \<and> pipeline_from [] [req_handle demo_args] ts
     \<and> tiles 2 0 5 (chunk_ranges ts)
     \<and> normalize_dit_step_schedule 5 g None = Inr sch
     \<and> (\<forall>t \<in> set ts. t_kind t = DIT_STEP_CHUNK \<longrightarrow> chunk_follows sch t)"
  using plan_chunks_tile_steps [OF demo_plan_ok] by (simp add: demo_args_def)

text \<open>
  The compiler accepts every valid request: with positive step count, chunk size and lengths, flags
  of the right length if any, no stage groups and no step schedule, it returns a plan.
\<close>

theorem plan_exists:
  assumes "1 \<le> pa_num_steps a" "1 \<le> pa_chunk_size a" "1 \<le> pa_text_seq_len a" "1 \<le> pa_latent_seq_len a"
    and "case pa_do_true_cfg a of None \<Rightarrow> True | Some f \<Rightarrow> int (length f) = pa_num_steps a"
    and "pa_stage_group_ids a = None" "pa_dit_step_schedule a = None"
  shows "\<exists>p. build_chunked_dit_plan a = Inr p"
  by (rule plan_exists_aux [OF assms])

theorem plan_exists_witness: "\<exists>p. build_chunked_dit_plan demo_args = Inr p"
  by (rule plan_exists) (simp_all add: demo_args_def)

end
