(* ===== verification/RankLedger.thy ===== *)
theory RankLedger
  imports Prelude
begin

text \<open>
  Counting claims on worker ranks. Policies keep dictionaries from a rank to the number of
  claims on it; claiming a tuple of ranks increments each, releasing it decrements each and
  drops the entry at zero. The locale states the contract the policies rely on; the counters
  of \<open>policies/disaggregate.py\<close> and \<open>policies/edf_greedy.py\<close> satisfy it.
\<close>

section \<open>Exact accounting\<close>

text \<open>
  \<open>cl tk\<close> is the claim of an in-flight task: its class (reshard or not) and the resources it
  occupies. \<open>usage\<close> adds up, for one resource, the claims of one class.
\<close>

type_synonym 'k claims = "string \<Rightarrow> (bool \<times> 'k list) option"

definition claim_part :: "(bool \<times> 'k list) option \<Rightarrow> bool \<Rightarrow> 'k \<Rightarrow> nat" where
  "claim_part c b k = (case c of None \<Rightarrow> 0 | Some (b', ks) \<Rightarrow> if b' = b then count_list ks k else 0)"

definition usage :: "'k claims \<Rightarrow> bool \<Rightarrow> 'k \<Rightarrow> nat" where
  "usage cl b k = (\<Sum>tk \<in> dom cl. claim_part (cl tk) b k)"

definition exclusive :: "'k claims \<Rightarrow> bool" where
  "exclusive cl \<longleftrightarrow>
     (\<forall>tk tk' b ks b' ks'. cl tk = Some (b, ks) \<longrightarrow> cl tk' = Some (b', ks') \<longrightarrow> tk \<noteq> tk'
        \<longrightarrow> set ks \<inter> set ks' = {})"

lemma count_list_pos: "0 < count_list xs x \<longleftrightarrow> x \<in> set xs"
  by (induction xs) auto

lemma claim_part_simps [simp]:
  "claim_part None b k = 0"
  "claim_part (Some (b', ks)) b k = (if b' = b then count_list ks k else 0)"
  by (simp_all add: claim_part_def)

lemma usage_empty [simp]: "usage (\<lambda>_. None) b k = 0"
  by (simp add: usage_def)

lemma usage_upd:
  "finite (dom cl) \<Longrightarrow> cl tk = None \<Longrightarrow> usage (cl(tk \<mapsto> c)) b k = usage cl b k + claim_part (Some c) b k"
  unfolding usage_def
  by (subst dom_fun_upd, simp, subst sum.insert) (auto intro!: sum.cong)

lemma usage_drop:
  assumes "finite (dom cl)" and "cl tk = Some c"
  shows "usage cl b k = usage (cl(tk := None)) b k + claim_part (Some c) b k"
proof -
  have "cl = (cl(tk := None))(tk \<mapsto> c)" using assms(2) by auto
  then show ?thesis using usage_upd [of "cl(tk := None)" tk c b k] assms(1) by simp
qed

lemma usage_pos_iff:
  assumes "finite (dom cl)"
  shows "0 < usage cl b k \<longleftrightarrow> (\<exists>tk ks. cl tk = Some (b, ks) \<and> k \<in> set ks)"
proof -
  have "0 < usage cl b k \<longleftrightarrow> (\<exists>tk \<in> dom cl. 0 < claim_part (cl tk) b k)"
    unfolding usage_def using sum_eq_0_iff [OF assms, of "\<lambda>tk. claim_part (cl tk) b k"]
    by (metis gr_zeroI less_numeral_extra(3))
  also have "\<dots> \<longleftrightarrow> (\<exists>tk. \<exists>ks. cl tk = Some (b, ks) \<and> k \<in> set ks)"
  proof -
    have "tk \<in> dom cl \<and> 0 < claim_part (cl tk) b k \<longleftrightarrow> (\<exists>ks. cl tk = Some (b, ks) \<and> k \<in> set ks)" for tk
      by (cases "cl tk") (auto simp: count_list_pos split: if_splits)
    then show ?thesis by blast
  qed
  finally show ?thesis .
qed

lemma exclusiveD:
  "exclusive cl \<Longrightarrow> cl tk = Some (b, ks) \<Longrightarrow> cl tk' = Some (b', ks') \<Longrightarrow> tk \<noteq> tk' \<Longrightarrow> set ks \<inter> set ks' = {}"
  unfolding exclusive_def by blast

lemma exclusive_empty [simp]: "exclusive (\<lambda>_. None)"
  by (simp add: exclusive_def)

lemma exclusive_upd:
  assumes "exclusive cl" and "\<And>tk' b' ks'. cl tk' = Some (b', ks') \<Longrightarrow> set ks \<inter> set ks' = {}"
  shows "exclusive (cl(tk \<mapsto> (b, ks)))"
  unfolding exclusive_def
proof (intro allI impI)
  fix t t' c js c' js'
  assume t: "(cl(tk \<mapsto> (b, ks))) t = Some (c, js)" "(cl(tk \<mapsto> (b, ks))) t' = Some (c', js')" "t \<noteq> t'"
  show "set js \<inter> set js' = {}"
  proof (cases "t = tk"; cases "t' = tk")
    assume "t = tk" "t' \<noteq> tk"
    then show ?thesis using t assms(2) [of t' c' js'] by simp
  next
    assume "t \<noteq> tk" "t' = tk"
    then show ?thesis using t assms(2) [of t c js] by (simp add: Int_commute)
  next
    assume "t \<noteq> tk" "t' \<noteq> tk"
    then show ?thesis using t exclusiveD [OF assms(1), of t c js t' c' js'] by simp
  qed (use t in simp)
qed

lemma exclusive_drop: "exclusive cl \<Longrightarrow> exclusive (cl(tk := None))"
  unfolding exclusive_def by (auto split: if_splits)

section \<open>The contract\<close>

locale rank_ledger =
  fixes claim :: "'d \<Rightarrow> 'k list \<Rightarrow> 'd"
    and free :: "'d \<Rightarrow> 'k list \<Rightarrow> 'd"
    and load :: "'d \<Rightarrow> 'k \<Rightarrow> nat"
  assumes load_claim: "load (claim d ks) k = load d k + count_list ks k"
    and load_free: "load (free d ks) k = load d k - count_list ks k"
begin

text \<open>Claiming and then releasing restores every count.\<close>

lemma load_free_claim: "load (free (claim d ks) ks) k = load d k"
  by (simp add: load_claim load_free)

text \<open>Operations on other ranks do not matter.\<close>

lemma load_claim_other: "k \<notin> set ks \<Longrightarrow> load (claim d ks) k = load d k"
  by (simp add: load_claim)

lemma load_free_other: "k \<notin> set ks \<Longrightarrow> load (free d ks) k = load d k"
  by (simp add: load_free)

text \<open>Releasing a claim that is still held can be postponed past a claim of other ranks.\<close>

lemma free_claim_swap:
  "(\<And>k. count_list ks k \<le> load d k) \<Longrightarrow> load (free (claim d js) ks) k = load (claim (free d ks) js) k"
  by (simp add: load_claim load_free)

lemma load_claim_distinct: "distinct ks \<Longrightarrow> load (claim d ks) k = load d k + (if k \<in> set ks then 1 else 0)"
  by (simp add: load_claim distinct_count_list)

lemma load_free_distinct: "distinct ks \<Longrightarrow> load (free d ks) k = load d k - (if k \<in> set ks then 1 else 0)"
  by (simp add: load_free distinct_count_list)

text \<open>The books stay exact: \<open>H\<close> counts the claims made outside of tasks.\<close>

definition books :: "'k claims \<Rightarrow> bool \<Rightarrow> ('k \<Rightarrow> nat) \<Rightarrow> 'd \<Rightarrow> bool" where
  "books cl b H d \<longleftrightarrow> (\<forall>k. load d k = usage cl b k + H k)"

lemma books_claim:
  "finite (dom cl) \<Longrightarrow> cl tk = None \<Longrightarrow> books cl b H d \<Longrightarrow> books (cl(tk \<mapsto> (b, ks))) b H (claim d ks)"
  by (simp add: books_def load_claim usage_upd)

lemma books_claim_other:
  "finite (dom cl) \<Longrightarrow> cl tk = None \<Longrightarrow> b' \<noteq> b \<Longrightarrow> books cl b H d \<Longrightarrow> books (cl(tk \<mapsto> (b', ks))) b H d"
  by (simp add: books_def usage_upd)

lemma books_free:
  "finite (dom cl) \<Longrightarrow> cl tk = Some (b, ks) \<Longrightarrow> books cl b H d \<Longrightarrow> books (cl(tk := None)) b H (free d ks)"
  unfolding books_def load_free using usage_drop [of cl tk "(b, ks)" b] by simp

lemma books_free_other:
  "finite (dom cl) \<Longrightarrow> cl tk = Some (b', ks) \<Longrightarrow> b' \<noteq> b \<Longrightarrow> books cl b H d \<Longrightarrow> books (cl(tk := None)) b H d"
  unfolding books_def using usage_drop [of cl tk "(b', ks)" b] by simp

lemma books_hold: "books cl b H d \<Longrightarrow> books cl b (\<lambda>k. H k + count_list ks k) (claim d ks)"
  by (simp add: books_def load_claim)

lemma books_unhold:
  "books cl b H d \<Longrightarrow> (\<And>k. count_list ks k \<le> H k) \<Longrightarrow> books cl b (\<lambda>k. H k - count_list ks k) (free d ks)"
  by (simp add: books_def load_free)

lemma books_load_0:
  "finite (dom cl) \<Longrightarrow> books cl b H d \<Longrightarrow>
     load d k = 0 \<longleftrightarrow> H k = 0 \<and> (\<forall>tk ks. cl tk = Some (b, ks) \<longrightarrow> k \<notin> set ks)"
  using usage_pos_iff [of cl b k] unfolding books_def by (metis add_is_0 gr0I less_numeral_extra(3))

end

section \<open>The counters of the policies\<close>

definition claim_counts :: "'k counter \<Rightarrow> 'k list \<Rightarrow> 'k counter" where
  "claim_counts d ks = fold (\<lambda>k d. cinc d k) ks d"

definition release_counts :: "'k counter \<Rightarrow> 'k list \<Rightarrow> 'k counter" where
  "release_counts d ks = fold (\<lambda>k d. cdec d k) ks d"

lemma cget_claim_counts: "cget (claim_counts d ks) k = cget d k + count_list ks k"
  unfolding claim_counts_def by (induction ks arbitrary: d) auto

lemma cget_release_counts: "cget (release_counts d ks) k = cget d k - count_list ks k"
  unfolding release_counts_def by (induction ks arbitrary: d) auto

interpretation ledger: rank_ledger claim_counts release_counts cget
  by unfold_locales (simp_all add: cget_claim_counts cget_release_counts)

section \<open>Queues of tasks that are not in flight\<close>

definition queues_ok :: "('q \<Rightarrow> string list) \<Rightarrow> 'k claims \<Rightarrow> bool" where
  "queues_ok Q cl \<longleftrightarrow>
     (\<forall>x. distinct (Q x)) \<and> (\<forall>x y. x \<noteq> y \<longrightarrow> set (Q x) \<inter> set (Q y) = {})
     \<and> (\<forall>x. \<forall>tk \<in> set (Q x). cl tk = None)"

lemma queues_okD:
  assumes "queues_ok Q cl"
  shows "distinct (Q x)" "x \<noteq> y \<Longrightarrow> set (Q x) \<inter> set (Q y) = {}" "tk \<in> set (Q x) \<Longrightarrow> cl tk = None"
  using assms unfolding queues_ok_def by blast+

lemma queues_ok_empty [simp]: "queues_ok (\<lambda>_. []) cl"
  by (simp add: queues_ok_def)

lemma queues_ok_weaken:
  assumes "queues_ok Q cl" "\<And>x. distinct (Q' x)" "\<And>x. set (Q' x) \<subseteq> set (Q x)"
    "\<And>tk. cl tk = None \<Longrightarrow> cl' tk = None"
  shows "queues_ok Q' cl'"
  using assms unfolding queues_ok_def by blast

lemma queues_ok_filter:
  assumes "queues_ok Q cl"
  shows "queues_ok (\<lambda>x. filter (P x) (Q x)) cl"
  by (rule queues_ok_weaken [OF assms]) (auto simp: queues_okD(1) [OF assms])

lemma queues_ok_release:
  assumes "queues_ok Q cl"
  shows "queues_ok Q (cl(tk := None))"
  by (rule queues_ok_weaken [OF assms]) (auto simp: queues_okD(1) [OF assms])

lemma queues_ok_push:
  assumes "queues_ok Q cl" "\<And>x. tk \<notin> set (Q x)" "cl tk = None"
    and q: "\<And>x. Q' x = Q x @ (if x = y then [tk] else [])"
  shows "queues_ok Q' cl"
proof -
  note ok = queues_okD [OF assms(1)]
  have "distinct (Q' x)" for x using ok(1) assms(2) q by simp
  moreover have "set (Q' x) \<inter> set (Q' z) = {}" if "x \<noteq> z" for x z
    using ok(2) [OF that] assms(2) q that by auto
  moreover have "cl t = None" if "t \<in> set (Q' x)" for x t
    using that ok(3) q assms(3) by (auto split: if_splits)
  ultimately show ?thesis unfolding queues_ok_def by blast
qed

text \<open>A prefix of one queue goes in flight.\<close>

lemma queues_ok_take:
  assumes "queues_ok Q cl" and q: "\<And>x. Q' x = (if x = y then q' else Q x)" "Q y = out @ q'"
    and cl: "\<And>tk. tk \<notin> set out \<Longrightarrow> cl' tk = cl tk"
  shows "queues_ok Q' cl'"
proof -
  note ok = queues_okD [OF assms(1)]
  have part: "set out \<inter> set (Q' x) = {}" for x
    using ok(1) [of y] ok(2) [of y x] q by (cases "x = y") auto
  have sub: "set (Q' x) \<subseteq> set (Q x)" for x using q by auto
  have "distinct (Q' x)" for x using ok(1) [of x] q by (cases "x = y") auto
  moreover have "set (Q' x) \<inter> set (Q' z) = {}" if "x \<noteq> z" for x z
    using ok(2) [OF that] sub by blast
  moreover have "cl' tk = None" if "tk \<in> set (Q' x)" for x tk
  proof -
    have "tk \<notin> set out" "tk \<in> set (Q x)" using that part sub by blast+
    then show ?thesis using cl ok(3) by metis
  qed
  ultimately show ?thesis unfolding queues_ok_def by blast
qed

section \<open>Dispatch passes\<close>

text \<open>
  A policy that keeps waiting tasks in queues and lets a task go in flight when the resources it
  claims are free: neither claimed by a task in flight nor held from outside. \<open>dispatched\<close> says
  what a pass over the queues may do: the tasks it returns are prefixes of the queues, their
  resources were free, and no other claim changes.
\<close>

locale dispatcher =
  fixes claims :: "'s \<Rightarrow> 'k claims" and inv :: "'s \<Rightarrow> bool" and can :: "'s \<Rightarrow> 'k list \<Rightarrow> bool"
    and queue :: "'s \<Rightarrow> 'q \<Rightarrow> string list" and held :: "'k \<Rightarrow> bool"
  assumes waiting_not_in_flight: "inv st \<Longrightarrow> tk \<in> set (queue st x) \<Longrightarrow> claims st tk = None"
    and can_iff: "inv st \<Longrightarrow> can st rs \<longleftrightarrow>
      (\<forall>r \<in> set rs. \<not> held r \<and> (\<forall>tk b ks. claims st tk = Some (b, ks) \<longrightarrow> r \<notin> set ks))"
begin

definition dispatched :: "'s \<Rightarrow> 's \<Rightarrow> string list \<Rightarrow> bool" where
  "dispatched st st' out \<longleftrightarrow>
     inv st' \<and> (\<forall>x. \<exists>l. set l \<subseteq> set out \<and> queue st x = l @ queue st' x)
     \<and> (\<forall>tk \<in> set out. (\<exists>x. tk \<in> set (queue st x)) \<and> (\<exists>b rs. claims st' tk = Some (b, rs) \<and> can st rs))
     \<and> (\<forall>tk. tk \<notin> set out \<longrightarrow> claims st' tk = claims st tk)"

lemma dispatchedD:
  assumes "dispatched st st' out"
  shows "inv st'" "\<exists>l. set l \<subseteq> set out \<and> queue st x = l @ queue st' x"
    "tk \<in> set out \<Longrightarrow> \<exists>x. tk \<in> set (queue st x)"
    "tk \<in> set out \<Longrightarrow> \<exists>b rs. claims st' tk = Some (b, rs) \<and> can st rs"
    "tk \<notin> set out \<Longrightarrow> claims st' tk = claims st tk"
  using assms unfolding dispatched_def by blast+

lemma dispatched_refl: "inv st \<Longrightarrow> dispatched st st []"
  by (simp add: dispatched_def)

text \<open>A claim survives a pass, so a resource blocked before it is blocked after it.\<close>

lemma dispatched_keeps:
  assumes "inv st" "dispatched st st' out" "claims st tk = Some c"
  shows "claims st' tk = Some c"
proof -
  have "tk \<notin> set out"
    using dispatchedD(3) [OF assms(2)] waiting_not_in_flight [OF assms(1)] assms(3) by fastforce
  then show ?thesis using dispatchedD(5) [OF assms(2)] assms(3) by simp
qed

lemma can_mono:
  assumes "inv st" "dispatched st st' out" "can st' rs"
  shows "can st rs"
  using assms(3) dispatched_keeps [OF assms(1,2)]
  unfolding can_iff [OF assms(1)] can_iff [OF dispatchedD(1) [OF assms(2)]] by blast

lemma dispatched_trans:
  assumes inv: "inv st" and a: "dispatched st st1 o1" and b: "dispatched st1 st2 o2"
  shows "dispatched st st2 (o1 @ o2)"
  unfolding dispatched_def
proof (intro conjI allI ballI impI)
  show "inv st2" by (rule dispatchedD(1) [OF b])
next
  fix x
  obtain l1 l2 where "set l1 \<subseteq> set o1" "queue st x = l1 @ queue st1 x"
      "set l2 \<subseteq> set o2" "queue st1 x = l2 @ queue st2 x"
    using dispatchedD(2) [OF a] dispatchedD(2) [OF b] by metis
  then show "\<exists>l. set l \<subseteq> set (o1 @ o2) \<and> queue st x = l @ queue st2 x"
    by (intro exI [of _ "l1 @ l2"]) auto
next
  fix tk assume tk: "tk \<in> set (o1 @ o2)"
  show "\<exists>x. tk \<in> set (queue st x)"
  proof (cases "tk \<in> set o1")
    case True
    then show ?thesis by (rule dispatchedD(3) [OF a])
  next
    case False
    with tk obtain x where "tk \<in> set (queue st1 x)" using dispatchedD(3) [OF b] by auto
    moreover obtain l where "queue st x = l @ queue st1 x" using dispatchedD(2) [OF a] by blast
    ultimately show ?thesis by (intro exI [of _ x]) simp
  qed
  show "\<exists>c rs. claims st2 tk = Some (c, rs) \<and> can st rs"
  proof (cases "tk \<in> set o1")
    case True
    then show ?thesis
      using dispatchedD(4) [OF a] dispatched_keeps [OF dispatchedD(1) [OF a] b] by blast
  next
    case False
    with tk have "tk \<in> set o2" by simp
    then show ?thesis using dispatchedD(4) [OF b] can_mono [OF inv a] by blast
  qed
next
  fix tk assume "tk \<notin> set (o1 @ o2)"
  then show "claims st2 tk = claims st tk"
    using dispatchedD(5) [OF a] dispatchedD(5) [OF b] by simp
qed

lemma dispatched_one_queue:
  assumes "inv st'" and q: "\<And>x. queue st' x = (if x = y then q' else queue st x)" "queue st y = out @ q'"
    and cl: "\<And>tk. tk \<in> set out \<Longrightarrow> \<exists>b rs. claims st' tk = Some (b, rs) \<and> can st rs"
      "\<And>tk. tk \<notin> set out \<Longrightarrow> claims st' tk = claims st tk"
  shows "dispatched st st' out"
proof -
  have "\<exists>l. set l \<subseteq> set out \<and> queue st x = l @ queue st' x" for x
    using q by (cases "x = y") (auto intro: exI [of _ out] exI [of _ "[]"])
  moreover have "\<exists>x. tk \<in> set (queue st x)" if "tk \<in> set out" for tk
    using q(2) that by (intro exI [of _ y]) simp
  ultimately show ?thesis unfolding dispatched_def using assms(1) cl by blast
qed

end

end
