(* ===== verification/Disaggregate.thy ===== *)
theory Disaggregate
  imports Topology DitPlan RankLedger
begin

text \<open>
  The stage-disaggregated policy and its rank-aware extension
  (\<open>runtime_v2/policies/disaggregate.py\<close>: \<open>DisaggregateSchedulerPolicy\<close> and
  \<open>DynamicStepFCFSSchedulerPolicy\<close>). Tasks are shared mutable objects in the source; here they
  live in a heap indexed by task id and the queues hold ids. The methods that the subclass
  overrides are arguments of the inherited ones.
\<close>

section \<open>State\<close>

type_synonym heap = "string \<Rightarrow> task"

record disaggregate =
  dg_topology :: topology
  dg_stage_group_ids :: "(string \<times> string) list option"
  dg_dit_step_schedule :: "sched_item list"
  dg_group_ready :: "string \<Rightarrow> string list option"
  dg_reshard_ready :: "string list"
  dg_outstanding_per_group :: "string counter"
  dg_reshard_holds :: "string counter"
  dg_reshard_groups_by_task :: "string \<Rightarrow> (string \<times> string) option"
  dg_outstanding_reshards :: nat
  dg_dispatched_kind :: "string \<Rightarrow> string option"

definition max_concurrent_per_group :: nat where "max_concurrent_per_group = 1"

definition max_concurrent_reshards :: nat where "max_concurrent_reshards = 1"

definition reshard_mark :: string where "reshard_mark = ''__reshard__''"

text \<open>An empty mapping of stage groups counts as absent.\<close>

definition disaggregate_init ::
  "topology \<Rightarrow> (string \<times> string) list option \<Rightarrow> sched_item list option \<Rightarrow> disaggregate" where
  "disaggregate_init T stages sched =
     \<lparr>dg_topology = T, dg_stage_group_ids = (if stages = Some [] then None else stages),
      dg_dit_step_schedule = (case sched of None \<Rightarrow> [] | Some s \<Rightarrow> s),
      dg_group_ready = (\<lambda>_. None), dg_reshard_ready = [], dg_outstanding_per_group = (\<lambda>_. None),
      dg_reshard_holds = (\<lambda>_. None), dg_reshard_groups_by_task = (\<lambda>_. None),
      dg_outstanding_reshards = 0, dg_dispatched_kind = (\<lambda>_. None)\<rparr>"

section \<open>Inherited operations\<close>

definition select_group_by_stage :: "'a disaggregate_scheme \<Rightarrow> task \<Rightarrow> string option" where
  "select_group_by_stage st t =
     (case dg_stage_group_ids st of
        None \<Rightarrow> None
      | Some m \<Rightarrow>
          if t_kind t \<in> {TEXT_ENCODE, VAE_DECODE, FINALIZE} then map_of m STAGE_AUX
          else if t_kind t \<in> {DIT_PREPARE, TIMESTEP_PREPARE, DIT_STEP_CHUNK} then map_of m STAGE_DIT
          else None)"

text \<open>A payload entry that must be a non-empty string.\<close>

definition payload_group :: "task \<Rightarrow> string \<Rightarrow> string res" where
  "payload_group t key =
     (case map_of (t_payload t) key of
        Some (PyStr s) \<Rightarrow> if s = [] then Inl ValueError else Inr s
      | _ \<Rightarrow> Inl ValueError)"

definition validate_task :: "topology \<Rightarrow> task \<Rightarrow> unit res" where
  "validate_task T t =
     (if t_kind t = RESHARD then
        if t_group_id t \<noteq> None then Inl ValueError
        else
          bind_res (payload_group t RESHARD_PAYLOAD_SRC_GROUP_ID) (\<lambda>src.
          bind_res (payload_group t RESHARD_PAYLOAD_DST_GROUP_ID) (\<lambda>dst.
          if src = dst then Inl ValueError
          else
            bind_res (get_group T src) (\<lambda>_. bind_res (get_group T dst) (\<lambda>_. Inr ()))))
      else
        case t_group_id t of
          None \<Rightarrow> Inl ValueError
        | Some gid \<Rightarrow>
            bind_res (get_group T gid) (\<lambda>g.
              if t_kind t \<notin> set (g_kinds g) then Inl ValueError else Inr ()))"

definition push_ready :: "(string \<Rightarrow> string list option) \<Rightarrow> string \<Rightarrow> string \<Rightarrow> string \<Rightarrow> string list option" where
  "push_ready q g tk = q(g := Some ((case q g of None \<Rightarrow> [] | Some l \<Rightarrow> l) @ [tk]))"

text \<open>One task of the loop of \<open>on_tasks_runnable\<close>; \<open>sel\<close> is \<open>_select_group_for_task\<close>.\<close>

definition enqueue_task ::
  "('a disaggregate_scheme \<Rightarrow> task \<Rightarrow> string option res) \<Rightarrow> heap \<times> 'a disaggregate_scheme \<Rightarrow> string
   \<Rightarrow> (heap \<times> 'a disaggregate_scheme) res" where
  "enqueue_task sel s tk =
     (case s of (h, st) \<Rightarrow>
        bind_res (if t_group_id (h tk) = None then sel st (h tk) else Inr (t_group_id (h tk))) (\<lambda>gid.
        let t = (h tk)\<lparr>t_group_id := gid\<rparr>
        in bind_res (validate_task (dg_topology st) t) (\<lambda>_.
             let t' = t\<lparr>t_status := READY\<rparr>; h' = h(tk := t')
             in if t_kind t' = RESHARD
                then Inr (h', st\<lparr>dg_reshard_ready := dg_reshard_ready st @ [tk]\<rparr>)
                else (case t_group_id t' of
                        None \<Rightarrow> Inl AssertionError
                      | Some g \<Rightarrow> Inr (h', st\<lparr>dg_group_ready := push_ready (dg_group_ready st) g tk\<rparr>)))))"

type_synonym 'st dispatch = "heap \<times> 'st \<Rightarrow> ((heap \<times> 'st) \<times> string list) res"

definition on_tasks_runnable ::
  "('a disaggregate_scheme \<Rightarrow> task \<Rightarrow> string option res) \<Rightarrow> 'a disaggregate_scheme dispatch
   \<Rightarrow> string list \<Rightarrow> 'a disaggregate_scheme dispatch" where
  "on_tasks_runnable sel dispatch tks s =
     bind_res (for_res (enqueue_task sel) s tks) dispatch"

definition root_tasks :: "plan \<Rightarrow> string list" where
  "root_tasks p = map (\<lambda>(k, t). t_id t) (filter (\<lambda>(k, t). t_dependencies t = []) (p_tasks p))"

definition drop_request :: "heap \<Rightarrow> string \<Rightarrow> 'a disaggregate_scheme \<Rightarrow> 'a disaggregate_scheme" where
  "drop_request h rid st =
     st\<lparr>dg_group_ready := (\<lambda>g.
          case dg_group_ready st g of
            None \<Rightarrow> None
          | Some q \<Rightarrow>
              if \<not> (\<exists>tk \<in> set q. t_request_id (h tk) = rid) then Some q
              else if filter (\<lambda>tk. t_request_id (h tk) \<noteq> rid) q = [] then None
              else Some (filter (\<lambda>tk. t_request_id (h tk) \<noteq> rid) q)),
        dg_reshard_ready := filter (\<lambda>tk. t_request_id (h tk) \<noteq> rid) (dg_reshard_ready st)\<rparr>"

definition on_worker_event ::
  "(string \<Rightarrow> 'a disaggregate_scheme \<Rightarrow> 'a disaggregate_scheme) \<Rightarrow> 'a disaggregate_scheme dispatch
   \<Rightarrow> worker_event \<Rightarrow> 'a disaggregate_scheme dispatch" where
  "on_worker_event release dispatch ev s =
     (case s of (h, st) \<Rightarrow>
        let st1 = (if e_kind ev \<in> {TASK_EXEC_END, TASK_FAILED} then release (e_task_id ev) st else st);
            st2 = (if e_kind ev \<in> {REQUEST_FINISHED, REQUEST_FAILED}
                   then drop_request h (e_request_id ev) st1 else st1)
        in dispatch (h, st2))"

section \<open>Dispatch of the disaggregated policy\<close>

definition can_dispatch_reshard_groups :: "'a disaggregate_scheme \<Rightarrow> string \<Rightarrow> string \<Rightarrow> bool" where
  "can_dispatch_reshard_groups st src dst \<longleftrightarrow>
     (\<forall>g \<in> {src, dst}. cget (dg_outstanding_per_group st) g = 0 \<and> cget (dg_reshard_holds st) g = 0)"

text \<open>\<open>payload[key]\<close> on a task that passed the validation.\<close>

definition payload_str :: "task \<Rightarrow> string \<Rightarrow> string res" where
  "payload_str t key =
     (case map_of (t_payload t) key of None \<Rightarrow> Inl KeyError | Some (PyStr s) \<Rightarrow> Inr s | Some _ \<Rightarrow> Inl TypeError)"

definition begin_reshard :: "string \<Rightarrow> string \<Rightarrow> string \<Rightarrow> 'a disaggregate_scheme \<Rightarrow> 'a disaggregate_scheme" where
  "begin_reshard tk src dst st =
     st\<lparr>dg_outstanding_reshards := dg_outstanding_reshards st + 1,
        dg_reshard_holds := cinc (cinc (dg_reshard_holds st) src) dst,
        dg_reshard_groups_by_task := (dg_reshard_groups_by_task st)(tk \<mapsto> (src, dst)),
        dg_dispatched_kind := (dg_dispatched_kind st)(tk \<mapsto> reshard_mark)\<rparr>"

definition begin_task :: "string \<Rightarrow> string \<Rightarrow> 'a disaggregate_scheme \<Rightarrow> 'a disaggregate_scheme" where
  "begin_task tk g st =
     st\<lparr>dg_outstanding_per_group := cinc (dg_outstanding_per_group st) g,
        dg_dispatched_kind := (dg_dispatched_kind st)(tk \<mapsto> g)\<rparr>"

text \<open>\<open>task.status = DISPATCHED\<close>.\<close>

definition set_dispatched :: "string \<Rightarrow> heap \<Rightarrow> heap" where
  "set_dispatched tk h = h(tk := (h tk)\<lparr>t_status := DISPATCHED\<rparr>)"

fun take_reshards :: "string list \<Rightarrow> heap \<Rightarrow> 'a disaggregate_scheme \<Rightarrow> ((heap \<times> 'a disaggregate_scheme) \<times> string list) res" where
  "take_reshards [] h st = Inr ((h, st\<lparr>dg_reshard_ready := []\<rparr>), [])"
| "take_reshards (tk # q) h st =
     (if dg_outstanding_reshards st < max_concurrent_reshards then
        bind_res (payload_str (h tk) RESHARD_PAYLOAD_SRC_GROUP_ID) (\<lambda>src.
        bind_res (payload_str (h tk) RESHARD_PAYLOAD_DST_GROUP_ID) (\<lambda>dst.
        if \<not> can_dispatch_reshard_groups st src dst
        then Inr ((h, st\<lparr>dg_reshard_ready := tk # q\<rparr>), [])
        else
          bind_res (take_reshards q (set_dispatched tk h) (begin_reshard tk src dst st))
            (\<lambda>(s, out). Inr (s, tk # out))))
      else Inr ((h, st\<lparr>dg_reshard_ready := tk # q\<rparr>), []))"

text \<open>Storing back a group's queue: the key is popped when the queue is empty.\<close>

definition store_queue :: "(string \<Rightarrow> string list option) \<Rightarrow> string \<Rightarrow> string list \<Rightarrow> string \<Rightarrow> string list option" where
  "store_queue qs g q = qs(g := (if q = [] then None else Some q))"

fun take_group :: "string \<Rightarrow> string list \<Rightarrow> heap \<Rightarrow> 'a disaggregate_scheme \<Rightarrow> (heap \<times> 'a disaggregate_scheme) \<times> string list" where
  "take_group g [] h st = ((h, st\<lparr>dg_group_ready := store_queue (dg_group_ready st) g []\<rparr>), [])"
| "take_group g (tk # q) h st =
     (if cget (dg_outstanding_per_group st) g < max_concurrent_per_group \<and> cget (dg_reshard_holds st) g = 0 then
        (let (s, out) = take_group g q (set_dispatched tk h) (begin_task tk g st)
         in (s, tk # out))
      else ((h, st\<lparr>dg_group_ready := store_queue (dg_group_ready st) g (tk # q)\<rparr>), []))"

fun take_groups :: "group_spec list \<Rightarrow> heap \<Rightarrow> 'a disaggregate_scheme \<Rightarrow> (heap \<times> 'a disaggregate_scheme) \<times> string list" where
  "take_groups [] h st = ((h, st), [])"
| "take_groups (g # gs) h st =
     (case dg_group_ready st (g_id g) of
        None \<Rightarrow> take_groups gs h st
      | Some [] \<Rightarrow> take_groups gs h st
      | Some (tk # q) \<Rightarrow>
          (let ((h', st'), out) = take_group (g_id g) (tk # q) h st;
               (s, out') = take_groups gs h' st'
           in (s, out @ out')))"

definition take_dispatchable_tasks :: "'a disaggregate_scheme dispatch" where
  "take_dispatchable_tasks s =
     (case s of (h, st) \<Rightarrow>
        bind_res (take_reshards (dg_reshard_ready st) h st) (\<lambda>((h1, st1), out1).
          let (s2, out2) = take_groups (tp_groups (dg_topology st1)) h1 st1
          in Inr (s2, out1 @ out2)))"

definition release_task :: "string \<Rightarrow> 'a disaggregate_scheme \<Rightarrow> 'a disaggregate_scheme" where
  "release_task tk st =
     (case dg_dispatched_kind st tk of
        None \<Rightarrow> st
      | Some target \<Rightarrow>
          let st1 = st\<lparr>dg_dispatched_kind := (dg_dispatched_kind st)(tk := None)\<rparr>
          in if target = reshard_mark then
               (let st2 = st1\<lparr>dg_outstanding_reshards := dg_outstanding_reshards st1 - 1\<rparr>
                in case dg_reshard_groups_by_task st2 tk of
                     None \<Rightarrow> st2
                   | Some (a, b) \<Rightarrow>
                       st2\<lparr>dg_reshard_groups_by_task := (dg_reshard_groups_by_task st2)(tk := None),
                           dg_reshard_holds := cdec (cdec (dg_reshard_holds st2) a) b\<rparr>)
             else st1\<lparr>dg_outstanding_per_group := cdec (dg_outstanding_per_group st1) target\<rparr>)"

section \<open>The policy\<close>

definition disaggregate_submit :: "plan \<Rightarrow> disaggregate dispatch" where
  "disaggregate_submit p =
     on_tasks_runnable (\<lambda>st t. Inr (select_group_by_stage st t)) take_dispatchable_tasks (root_tasks p)"

definition disaggregate_runnable :: "string list \<Rightarrow> disaggregate dispatch" where
  "disaggregate_runnable = on_tasks_runnable (\<lambda>st t. Inr (select_group_by_stage st t)) take_dispatchable_tasks"

definition disaggregate_event :: "worker_event \<Rightarrow> disaggregate dispatch" where
  "disaggregate_event = on_worker_event release_task take_dispatchable_tasks"

section \<open>Queues\<close>

text \<open>The queue of a group (\<open>Some g\<close>) or of the reshards (\<open>None\<close>).\<close>

definition queue_of :: "'a disaggregate_scheme \<Rightarrow> string option \<Rightarrow> string list" where
  "queue_of st x =
     (case x of None \<Rightarrow> dg_reshard_ready st
      | Some g \<Rightarrow> (case dg_group_ready st g of None \<Rightarrow> [] | Some q \<Rightarrow> q))"

definition fresh_task :: "'a disaggregate_scheme \<Rightarrow> string \<Rightarrow> bool" where
  "fresh_task st tk \<longleftrightarrow> (\<forall>x. tk \<notin> set (queue_of st x)) \<and> dg_dispatched_kind st tk = None"

lemma queue_of_push:
  "queue_of (st\<lparr>dg_group_ready := push_ready (dg_group_ready st) g tk\<rparr>) x = queue_of st x @ (if x = Some g then [tk] else [])"
  "queue_of (st\<lparr>dg_reshard_ready := dg_reshard_ready st @ [tk]\<rparr>) x = queue_of st x @ (if x = None then [tk] else [])"
  by (auto simp: queue_of_def push_ready_def split: option.splits)

lemma queue_of_cong:
  "dg_reshard_ready st' = dg_reshard_ready st \<Longrightarrow>
   dg_group_ready st' = store_queue (dg_group_ready st) g q \<Longrightarrow>
   queue_of st' x = (if x = Some g then q else queue_of st x)"
  by (auto simp: queue_of_def store_queue_def split: option.splits)

lemma enqueue_task_cases:
  assumes "enqueue_task sel (h, st) tk = Inr (h', st')"
  obtains (group) g where "st' = st\<lparr>dg_group_ready := push_ready (dg_group_ready st) g tk\<rparr>"
  | (reshard) "st' = st\<lparr>dg_reshard_ready := dg_reshard_ready st @ [tk]\<rparr>"
  using assms by (auto simp: enqueue_task_def bind_res_eq_Inr Let_def split: if_splits option.splits)

lemma enqueue_task_queues:
  assumes "enqueue_task sel (h, st) tk = Inr (h', st')"
  obtains y where "\<And>x. queue_of st' x = queue_of st x @ (if x = y then [tk] else [])"
  using assms by (cases rule: enqueue_task_cases) (auto simp: queue_of_push)

lemma queue_of_drop:
  "queue_of (drop_request h rid st) x = filter (\<lambda>tk. t_request_id (h tk) \<noteq> rid) (queue_of st x)"
proof (cases x)
  case None
  then show ?thesis by (simp add: queue_of_def drop_request_def)
next
  case (Some g)
  have *: "filter (\<lambda>tk. t_request_id (h tk) \<noteq> rid) q = q"
    if "\<forall>tk \<in> set q. t_request_id (h tk) \<noteq> rid" for q using that by (simp add: filter_id_conv)
  show ?thesis using Some * by (auto simp: queue_of_def drop_request_def split: option.splits)
qed

lemma drop_request_upd:
  "\<exists>q l. drop_request h rid st = st\<lparr>dg_group_ready := q, dg_reshard_ready := l\<rparr>"
  unfolding drop_request_def by blast

text \<open>The loop of \<open>on_tasks_runnable\<close> changes the queues only, and keeps them disjoint.\<close>

lemma enqueue_loop:
  assumes "for_res (enqueue_task sel) (h, st) tks = Inr (h', st')"
    and "queues_ok (queue_of st) cl" "distinct tks"
    and "\<forall>tk \<in> set tks. cl tk = None \<and> (\<forall>x. tk \<notin> set (queue_of st x))"
  shows "queues_ok (queue_of st') cl \<and> (\<exists>q l. st' = st\<lparr>dg_group_ready := q, dg_reshard_ready := l\<rparr>)"
  using assms
proof (induction tks arbitrary: h st)
  case Nil
  have "st = st\<lparr>dg_group_ready := dg_group_ready st, dg_reshard_ready := dg_reshard_ready st\<rparr>" by simp
  then have "\<exists>q l. st = st\<lparr>dg_group_ready := q, dg_reshard_ready := l\<rparr>" by blast
  then show ?case using Nil by simp
next
  case (Cons tk tks)
  then obtain h1 st1 where e: "enqueue_task sel (h, st) tk = Inr (h1, st1)"
    and rest: "for_res (enqueue_task sel) (h1, st1) tks = Inr (h', st')" by (auto simp: bind_res_eq_Inr)
  obtain y where y: "\<And>x. queue_of st1 x = queue_of st x @ (if x = y then [tk] else [])"
    by (rule enqueue_task_queues [OF e]) blast
  have "queues_ok (queue_of st1) cl"
    by (rule queues_ok_push [OF Cons.prems(2) _ _ y]) (use Cons.prems(4) in simp_all)
  moreover have "\<forall>t \<in> set tks. cl t = None \<and> (\<forall>x. t \<notin> set (queue_of st1 x))"
    using Cons.prems(3,4) y by auto
  ultimately have IH: "queues_ok (queue_of st') cl"
      "\<exists>q l. st' = st1\<lparr>dg_group_ready := q, dg_reshard_ready := l\<rparr>"
    using Cons.IH [OF rest] Cons.prems(3) by auto
  have "\<exists>q l. st1 = st\<lparr>dg_group_ready := q, dg_reshard_ready := l\<rparr>"
  proof (rule enqueue_task_cases [OF e])
    fix g assume "st1 = st\<lparr>dg_group_ready := push_ready (dg_group_ready st) g tk\<rparr>"
    then have "st1 = st\<lparr>dg_group_ready := push_ready (dg_group_ready st) g tk, dg_reshard_ready := dg_reshard_ready st\<rparr>" by simp
    then show ?thesis by blast
  next
    assume "st1 = st\<lparr>dg_reshard_ready := dg_reshard_ready st @ [tk]\<rparr>"
    then have "st1 = st\<lparr>dg_group_ready := dg_group_ready st, dg_reshard_ready := dg_reshard_ready st @ [tk]\<rparr>" by simp
    then show ?thesis by blast
  qed
  then have "\<exists>q l. st' = st\<lparr>dg_group_ready := q, dg_reshard_ready := l\<rparr>" using IH(2) by clarsimp blast
  then show ?case using IH(1) by blast
qed

section \<open>Accounting of the disaggregated policy\<close>

text \<open>The groups an in-flight task claims: its own, or both ends of a reshard.\<close>

definition group_claims :: "'a disaggregate_scheme \<Rightarrow> string claims" where
  "group_claims st tk =
     (case dg_dispatched_kind st tk of
        None \<Rightarrow> None
      | Some k \<Rightarrow>
          if k = reshard_mark
          then Some (True, case dg_reshard_groups_by_task st tk of None \<Rightarrow> [] | Some (a, b) \<Rightarrow> [a, b])
          else Some (False, [k]))"

definition reshards_ok :: "'a disaggregate_scheme \<Rightarrow> bool" where
  "reshards_ok st \<longleftrightarrow>
     dg_outstanding_reshards st = card {tk. dg_dispatched_kind st tk = Some reshard_mark}
     \<and> dg_outstanding_reshards st \<le> max_concurrent_reshards"

text \<open>The mark of a reshard is no group id.\<close>

definition mark_free :: "topology \<Rightarrow> bool" where
  "mark_free T \<longleftrightarrow> (\<forall>g \<in> set (tp_groups T). g_id g \<noteq> reshard_mark)"

definition group_books :: "'a disaggregate_scheme \<Rightarrow> bool" where
  "group_books st \<longleftrightarrow>
     finite (dom (dg_dispatched_kind st)) \<and> exclusive (group_claims st)
     \<and> ledger.books (group_claims st) False (\<lambda>_. 0) (dg_outstanding_per_group st)
     \<and> ledger.books (group_claims st) True (\<lambda>_. 0) (dg_reshard_holds st)"

definition group_inv :: "'a disaggregate_scheme \<Rightarrow> bool" where
  "group_inv st \<longleftrightarrow>
     group_books st \<and> queues_ok (queue_of st) (group_claims st) \<and> mark_free (dg_topology st)"

text \<open>The test of \<open>_can_dispatch_reshard\<close> and of the loop over the groups, for any groups.\<close>

definition groups_idle :: "'a disaggregate_scheme \<Rightarrow> string list \<Rightarrow> bool" where
  "groups_idle st gs \<longleftrightarrow>
     (\<forall>g \<in> set gs. cget (dg_outstanding_per_group st) g = 0 \<and> cget (dg_reshard_holds st) g = 0)"

lemma dom_group_claims [simp]: "dom (group_claims st) = dom (dg_dispatched_kind st)"
  by (auto simp: group_claims_def dom_def split: option.splits)

lemma group_claims_None: "group_claims st tk = None \<longleftrightarrow> dg_dispatched_kind st tk = None"
  by (auto simp: group_claims_def split: option.splits)

lemma group_booksD:
  assumes "group_books st"
  shows "finite (dom (group_claims st))" "exclusive (group_claims st)"
    "ledger.books (group_claims st) False (\<lambda>_. 0) (dg_outstanding_per_group st)"
    "ledger.books (group_claims st) True (\<lambda>_. 0) (dg_reshard_holds st)"
  using assms by (simp_all add: group_books_def)

lemma groups_idle_iff:
  assumes "group_books st"
  shows "groups_idle st gs \<longleftrightarrow>
    (\<forall>g \<in> set gs. \<forall>tk b ks. group_claims st tk = Some (b, ks) \<longrightarrow> g \<notin> set ks)"
proof -
  note d = group_booksD [OF assms]
  have "cget (dg_outstanding_per_group st) g = 0 \<and> cget (dg_reshard_holds st) g = 0 \<longleftrightarrow>
      (\<forall>tk b ks. group_claims st tk = Some (b, ks) \<longrightarrow> g \<notin> set ks)" for g
    unfolding ledger.books_load_0 [OF d(1,3)] ledger.books_load_0 [OF d(1,4)] by (metis (full_types))
  then show ?thesis by (auto simp: groups_idle_def)
qed

interpretation grp: dispatcher group_claims group_inv groups_idle queue_of "\<lambda>_. False"
proof unfold_locales
  fix st :: "'a disaggregate_scheme" and tk x
  assume "group_inv st" "tk \<in> set (queue_of st x)"
  then show "group_claims st tk = None" using queues_okD(3) unfolding group_inv_def by metis
next
  fix st :: "'a disaggregate_scheme" and gs assume "group_inv st"
  then have "group_books st" by (simp add: group_inv_def)
  then show "groups_idle st gs \<longleftrightarrow>
      (\<forall>g \<in> set gs. \<not> False \<and> (\<forall>tk b ks. group_claims st tk = Some (b, ks) \<longrightarrow> g \<notin> set ks))"
    using groups_idle_iff by simp
qed

lemma counts_of_two: "claim_counts d [a, b] = cinc (cinc d a) b" "release_counts d [a, b] = cdec (cdec d a) b"
  and counts_of_one: "claim_counts d [a] = cinc d a" "release_counts d [a] = cdec d a"
  by (simp_all add: claim_counts_def release_counts_def)

lemma group_claims_begin:
  "g \<noteq> reshard_mark \<Longrightarrow> group_claims (begin_task tk g st) = (group_claims st)(tk \<mapsto> (False, [g]))"
  "group_claims (begin_reshard tk a b st) = (group_claims st)(tk \<mapsto> (True, [a, b]))"
  by (auto simp: group_claims_def begin_task_def begin_reshard_def fun_eq_iff split: option.splits)

lemma exclusive_groups_idle:
  assumes "group_books st" "groups_idle st gs"
  shows "exclusive ((group_claims st)(tk \<mapsto> (b, gs)))"
proof (rule exclusive_upd [OF group_booksD(2) [OF assms(1)]])
  fix tk' b' ks' assume "group_claims st tk' = Some (b', ks')"
  then show "set gs \<inter> set ks' = {}" using assms(2) unfolding groups_idle_iff [OF assms(1)] by blast
qed

lemma group_books_begin_task:
  assumes "group_books st" "groups_idle st [g]" "dg_dispatched_kind st tk = None" "g \<noteq> reshard_mark"
  shows "group_books (begin_task tk g st)"
proof -
  note d = group_booksD [OF assms(1)]
  have new: "group_claims st tk = None" using assms(3) by (simp add: group_claims_None)
  show ?thesis
    unfolding group_books_def group_claims_begin(1) [OF assms(4)]
    using exclusive_groups_idle [OF assms(1,2)] ledger.books_claim [OF d(1) new d(3), of "[g]"]
      ledger.books_claim_other [OF d(1) new _ d(4), of False "[g]"] d(1)
    by (simp add: begin_task_def counts_of_one)
qed

lemma group_books_begin_reshard:
  assumes "group_books st" "groups_idle st [a, b]" "dg_dispatched_kind st tk = None"
  shows "group_books (begin_reshard tk a b st)"
proof -
  note d = group_booksD [OF assms(1)]
  have new: "group_claims st tk = None" using assms(3) by (simp add: group_claims_None)
  show ?thesis
    unfolding group_books_def group_claims_begin(2)
    using exclusive_groups_idle [OF assms(1,2)] ledger.books_claim [OF d(1) new d(4), of "[a, b]"]
      ledger.books_claim_other [OF d(1) new _ d(3), of True "[a, b]"] d(1)
    by (simp add: begin_reshard_def counts_of_two)
qed

lemma group_claims_release: "group_claims (release_task tk st) = (group_claims st)(tk := None)"
  by (rule ext) (auto simp: group_claims_def release_task_def Let_def split: option.splits)

lemma release_task_simps [simp]:
  "dg_topology (release_task tk st) = dg_topology st"
  "dg_reshard_ready (release_task tk st) = dg_reshard_ready st"
  "dg_group_ready (release_task tk st) = dg_group_ready st"
  "dg_dispatched_kind (release_task tk st) = (dg_dispatched_kind st)(tk := None)"
  by (auto simp: release_task_def Let_def split: option.splits)

lemma group_books_release:
  assumes "group_books st"
  shows "group_books (release_task tk st)"
proof (cases "dg_dispatched_kind st tk")
  case None
  then show ?thesis using assms by (simp add: release_task_def)
next
  case (Some target)
  note d = group_booksD [OF assms]
  show ?thesis
  proof (cases "target = reshard_mark")
    case True
    define gs where "gs = (case dg_reshard_groups_by_task st tk of None \<Rightarrow> [] | Some (a, b) \<Rightarrow> [a, b])"
    have cl: "group_claims st tk = Some (True, gs)" using Some True by (simp add: group_claims_def gs_def)
    have "dg_reshard_holds (release_task tk st) = release_counts (dg_reshard_holds st) gs"
      "dg_outstanding_per_group (release_task tk st) = dg_outstanding_per_group st"
      using Some True by (auto simp: release_task_def Let_def gs_def counts_of_two release_counts_def split: option.splits)
    then show ?thesis
      unfolding group_books_def group_claims_release
      using exclusive_drop [OF d(2)] ledger.books_free [OF d(1) cl d(4)]
        ledger.books_free_other [OF d(1) cl _ d(3)] d(1) by simp
  next
    case False
    have cl: "group_claims st tk = Some (False, [target])" using Some False by (simp add: group_claims_def)
    show ?thesis
      unfolding group_books_def group_claims_release
      using exclusive_drop [OF d(2)] ledger.books_free [OF d(1) cl d(3)]
        ledger.books_free_other [OF d(1) cl _ d(4)] d(1) Some False
      by (simp add: release_task_def counts_of_one)
  qed
qed

lemma queue_upd_group_claims [simp]:
  "group_claims (st\<lparr>dg_group_ready := q\<rparr>) = group_claims st"
  "group_claims (st\<lparr>dg_reshard_ready := l\<rparr>) = group_claims st"
  "groups_idle (st\<lparr>dg_group_ready := q\<rparr>) gs = groups_idle st gs"
  "groups_idle (st\<lparr>dg_reshard_ready := l\<rparr>) gs = groups_idle st gs"
  by (auto simp: group_claims_def groups_idle_def fun_eq_iff split: option.splits)

lemma queue_upd_group_books [simp]:
  "group_books (st\<lparr>dg_group_ready := q\<rparr>) = group_books st"
  "group_books (st\<lparr>dg_reshard_ready := l\<rparr>) = group_books st"
  by (simp_all add: group_books_def)

lemma begin_simps [simp]:
  "dg_topology (begin_task tk g st) = dg_topology st"
  "dg_reshard_ready (begin_task tk g st) = dg_reshard_ready st"
  "dg_group_ready (begin_task tk g st) = dg_group_ready st"
  "dg_dispatched_kind (begin_task tk g st) = (dg_dispatched_kind st)(tk \<mapsto> g)"
  "dg_topology (begin_reshard tk a b st) = dg_topology st"
  "dg_reshard_ready (begin_reshard tk a b st) = dg_reshard_ready st"
  "dg_group_ready (begin_reshard tk a b st) = dg_group_ready st"
  "dg_dispatched_kind (begin_reshard tk a b st) = (dg_dispatched_kind st)(tk \<mapsto> reshard_mark)"
  by (simp_all add: begin_task_def begin_reshard_def)

subsection \<open>One pass of dispatch\<close>

lemma can_take_group:
  "cget (dg_outstanding_per_group st) g < max_concurrent_per_group \<and> cget (dg_reshard_holds st) g = 0 \<longleftrightarrow>
   groups_idle st [g]"
  by (simp add: groups_idle_def max_concurrent_per_group_def)

lemma take_group_spec:
  assumes "take_group g q h st = ((h', st'), out)"
    and "group_books st" "g \<noteq> reshard_mark" "distinct q" "\<forall>tk \<in> set q. dg_dispatched_kind st tk = None"
  shows "\<exists>q'. q = out @ q' \<and> group_books st' \<and> dg_topology st' = dg_topology st
     \<and> dg_reshard_ready st' = dg_reshard_ready st
     \<and> dg_group_ready st' = store_queue (dg_group_ready st) g q'
     \<and> (\<forall>tk. group_claims st' tk = (if tk \<in> set out then Some (False, [g]) else group_claims st tk))
     \<and> (out \<noteq> [] \<longrightarrow> groups_idle st [g]) \<and> (q' \<noteq> [] \<longrightarrow> \<not> groups_idle st' [g])"
  using assms
proof (induction g q h st arbitrary: out rule: take_group.induct)
  case (1 g h st)
  then show ?case by auto
next
  case (2 g tk q h st)
  show ?case
  proof (cases "groups_idle st [g]")
    case False
    then show ?thesis using 2 unfolding take_group.simps can_take_group
      by (intro exI [of _ "tk # q"]) auto
  next
    case True
    obtain out1 where run: "take_group g q (set_dispatched tk h) (begin_task tk g st) = ((h', st'), out1)"
      and out: "out = tk # out1"
      using 2(2) True unfolding take_group.simps can_take_group by (auto simp: Let_def split: prod.splits)
    have "group_books (begin_task tk g st)"
      by (rule group_books_begin_task [OF 2(3) True]) (use 2(4,6) in simp_all)
    moreover have "\<forall>t \<in> set q. dg_dispatched_kind (begin_task tk g st) t = None" using 2(5,6) by auto
    ultimately obtain q' where "q = out1 @ q'" "group_books st'" "dg_topology st' = dg_topology st"
      "dg_reshard_ready st' = dg_reshard_ready st" "dg_group_ready st' = store_queue (dg_group_ready st) g q'"
      "\<forall>t. group_claims st' t = (if t \<in> set out1 then Some (False, [g]) else group_claims (begin_task tk g st) t)"
      "q' \<noteq> [] \<longrightarrow> \<not> groups_idle st' [g]"
      using 2(1) [unfolded can_take_group, OF True run] 2(4,5) by auto
    then show ?thesis using True
      by (intro exI [of _ q']) (auto simp: out group_claims_begin(1) [OF 2(4)])
  qed
qed

lemma group_invD:
  assumes "group_inv st"
  shows "group_books st" "queues_ok (queue_of st) (group_claims st)" "mark_free (dg_topology st)"
  using assms by (simp_all add: group_inv_def)

text \<open>One queue is served, its prefix \<open>out\<close> going in flight.\<close>

lemma grp_one_queue:
  assumes "group_inv st" "group_books st'" "dg_topology st' = dg_topology st"
    and q: "\<And>x. queue_of st' x = (if x = y then q' else queue_of st x)" "queue_of st y = out @ q'"
    and cl: "\<And>tk. tk \<in> set out \<Longrightarrow> \<exists>b rs. group_claims st' tk = Some (b, rs) \<and> groups_idle st rs"
      "\<And>tk. tk \<notin> set out \<Longrightarrow> group_claims st' tk = group_claims st tk"
  shows "grp.dispatched st st' out"
proof (rule grp.dispatched_one_queue [OF _ q cl])
  have "queues_ok (queue_of st') (group_claims st')"
    by (rule queues_ok_take [OF group_invD(2) [OF assms(1)] q cl(2)])
  then show "group_inv st'" using assms(2,3) group_invD(3) [OF assms(1)] by (simp add: group_inv_def)
qed auto

lemma take_groups_spec:
  assumes "take_groups gs h st = ((h', st'), out)" "group_inv st"
    and "set gs \<subseteq> set (tp_groups (dg_topology st))"
  shows "grp.dispatched st st' out \<and> dg_topology st' = dg_topology st
     \<and> (\<forall>g \<in> set gs. queue_of st' (Some (g_id g)) \<noteq> [] \<longrightarrow> \<not> groups_idle st' [g_id g])"
  using assms
proof (induction gs arbitrary: h st out)
  case Nil
  then show ?case by (simp add: grp.dispatched_refl)
next
  case (Cons g gs)
  have "\<exists>h1 st1 out1 out2. grp.dispatched st st1 out1 \<and> dg_topology st1 = dg_topology st
      \<and> (queue_of st1 (Some (g_id g)) \<noteq> [] \<longrightarrow> \<not> groups_idle st1 [g_id g])
      \<and> take_groups gs h1 st1 = ((h', st'), out2) \<and> out = out1 @ out2"
  proof (cases "queue_of st (Some (g_id g))")
    case Nil
    then have "take_groups gs h st = ((h', st'), out)"
      using Cons.prems(1) by (auto simp: queue_of_def split: option.splits)
    then show ?thesis
      using Nil grp.dispatched_refl [OF Cons.prems(2)]
      by (intro exI [of _ h] exI [of _ st] exI [of _ "[]"] exI [of _ out]) simp
  next
    case (Cons tk q)
    then have rd: "dg_group_ready st (g_id g) = Some (tk # q)"
      by (auto simp: queue_of_def split: option.splits)
    obtain h1 st1 out1 where run: "take_group (g_id g) (tk # q) h st = ((h1, st1), out1)"
      by (metis prod.exhaust)
    obtain out2 where run2: "take_groups gs h1 st1 = ((h', st'), out2)" and out: "out = out1 @ out2"
      using Cons.prems(1) rd run by (auto simp: Let_def split: prod.splits)
    note inv = group_invD [OF Cons.prems(2)]
    have mark: "g_id g \<noteq> reshard_mark" using Cons.prems(3) inv(3) by (simp add: mark_free_def)
    have fresh: "distinct (tk # q)" "\<forall>t \<in> set (tk # q). dg_dispatched_kind st t = None"
      using queues_okD(1) [OF inv(2), of "Some (g_id g)"] queues_okD(3) [OF inv(2), of _ "Some (g_id g)"] Cons
        group_claims_None [of st] by auto
    from take_group_spec [OF run inv(1) mark fresh]
    obtain q' where q': "tk # q = out1 @ q'" "group_books st1"
      "dg_topology st1 = dg_topology st" "dg_reshard_ready st1 = dg_reshard_ready st"
      "dg_group_ready st1 = store_queue (dg_group_ready st) (g_id g) q'"
      "\<forall>t. group_claims st1 t = (if t \<in> set out1 then Some (False, [g_id g]) else group_claims st t)"
      "out1 \<noteq> [] \<longrightarrow> groups_idle st [g_id g]" "q' \<noteq> [] \<longrightarrow> \<not> groups_idle st1 [g_id g]" by blast
    note qs = queue_of_cong [OF q'(4,5)]
    have "grp.dispatched st st1 out1"
    proof (rule grp_one_queue [OF Cons.prems(2) q'(2,3) qs])
      show "queue_of st (Some (g_id g)) = out1 @ q'" using Cons q'(1) by simp
    qed (use q'(6,7) in auto)
    then show ?thesis using q'(3,8) run2 out qs [of "Some (g_id g)"] by auto
  qed
  then obtain h1 st1 out1 out2 where st1: "grp.dispatched st st1 out1" "dg_topology st1 = dg_topology st"
      "queue_of st1 (Some (g_id g)) \<noteq> [] \<longrightarrow> \<not> groups_idle st1 [g_id g]"
      "take_groups gs h1 st1 = ((h', st'), out2)" "out = out1 @ out2" by blast
  note inv1 = grp.dispatchedD(1) [OF st1(1)]
  have IH: "grp.dispatched st1 st' out2" "dg_topology st' = dg_topology st1"
      "\<forall>g \<in> set gs. queue_of st' (Some (g_id g)) \<noteq> [] \<longrightarrow> \<not> groups_idle st' [g_id g]"
    using Cons.IH [OF st1(4) inv1] Cons.prems(3) st1(2) by auto
  have "queue_of st' (Some (g_id g)) \<noteq> [] \<Longrightarrow> \<not> groups_idle st' [g_id g]"
    using st1(3) grp.dispatchedD(2) [OF IH(1), of "Some (g_id g)"] grp.can_mono [OF inv1 IH(1)] by auto
  then show ?case
    using grp.dispatched_trans [OF Cons.prems(2) st1(1) IH(1)] IH(2,3) st1(2,5) by auto
qed

lemma can_dispatch_reshard_idle: "can_dispatch_reshard_groups st a b \<longleftrightarrow> groups_idle st [a, b]"
  by (simp add: can_dispatch_reshard_groups_def groups_idle_def)

lemma groups_idle_begin_reshard: "groups_idle (begin_reshard tk a b st) gs \<Longrightarrow> groups_idle st gs"
  by (auto simp: groups_idle_def begin_reshard_def)

lemma take_reshards_step:
  assumes "take_reshards (tk # q) h st = Inr ((h', st'), out)"
  obtains (stop) "st' = st\<lparr>dg_reshard_ready := tk # q\<rparr>" "out = []"
  | (go) a b out1 where "groups_idle st [a, b]"
      "take_reshards q (set_dispatched tk h) (begin_reshard tk a b st) = Inr ((h', st'), out1)" "out = tk # out1"
proof (cases "dg_outstanding_reshards st < max_concurrent_reshards")
  case False
  then show thesis using assms stop by simp
next
  case True
  with assms obtain a b where r: "(if \<not> can_dispatch_reshard_groups st a b
        then Inr ((h, st\<lparr>dg_reshard_ready := tk # q\<rparr>), [])
        else bind_res (take_reshards q (set_dispatched tk h) (begin_reshard tk a b st))
               (\<lambda>(s, out). Inr (s, tk # out))) = Inr ((h', st'), out)"
    by (auto simp: bind_res_eq_Inr)
  show thesis
  proof (cases "can_dispatch_reshard_groups st a b")
    case False
    then show thesis using r stop by simp
  next
    case ok: True
    with r obtain s out1 where "take_reshards q (set_dispatched tk h) (begin_reshard tk a b st) = Inr (s, out1)"
        "s = (h', st')" "out = tk # out1"
      by (auto simp: bind_res_eq_Inr)
    then show thesis using go ok unfolding can_dispatch_reshard_idle by blast
  qed
qed

lemma take_reshards_spec:
  assumes "take_reshards q h st = Inr ((h', st'), out)"
    and "group_books st" "distinct q" "\<forall>tk \<in> set q. dg_dispatched_kind st tk = None"
  shows "\<exists>q'. q = out @ q' \<and> group_books st' \<and> dg_topology st' = dg_topology st
     \<and> dg_group_ready st' = dg_group_ready st \<and> dg_reshard_ready st' = q'
     \<and> (\<forall>tk \<in> set out. \<exists>b gs. group_claims st' tk = Some (b, gs) \<and> groups_idle st gs)
     \<and> (\<forall>tk. tk \<notin> set out \<longrightarrow> group_claims st' tk = group_claims st tk)"
  using assms
proof (induction q arbitrary: h st out)
  case Nil
  then show ?case by auto
next
  case (Cons tk q)
  from Cons.prems(1) show ?case
  proof (cases rule: take_reshards_step)
    case stop
    then show ?thesis using Cons.prems by (intro exI [of _ "tk # q"]) simp
  next
    case (go a b out1)
    let ?st = "begin_reshard tk a b st"
    have new: "dg_dispatched_kind st tk = None" using Cons.prems(4) by simp
    have "group_books ?st" by (rule group_books_begin_reshard [OF Cons.prems(2) go(1) new])
    moreover have "distinct q" "\<forall>t \<in> set q. dg_dispatched_kind ?st t = None" using Cons.prems(3,4) by auto
    ultimately obtain q' where q': "q = out1 @ q'" "group_books st'"
        "dg_topology st' = dg_topology st" "dg_group_ready st' = dg_group_ready st" "dg_reshard_ready st' = q'"
        "\<forall>t \<in> set out1. \<exists>b gs. group_claims st' t = Some (b, gs) \<and> groups_idle ?st gs"
        "\<forall>t. t \<notin> set out1 \<longrightarrow> group_claims st' t = group_claims ?st t"
      using Cons.IH [OF go(2)] by auto
    have "tk \<notin> set out1" using q'(1) Cons.prems(3) by simp
    then have tk: "group_claims st' tk = Some (True, [a, b])"
      using q'(7) group_claims_begin(2) by (metis fun_upd_same)
    have "\<exists>b gs. group_claims st' t = Some (b, gs) \<and> groups_idle st gs" if "t \<in> set out" for t
      using that tk go(1,3) q'(6) groups_idle_begin_reshard by (metis set_ConsD)
    moreover have "group_claims st' t = group_claims st t" if "t \<notin> set out" for t
      using that go(3) q'(7) by (simp add: group_claims_begin)
    ultimately show ?thesis using q'(1-5) go(3) by (intro exI [of _ q']) simp
  qed
qed

lemma take_dispatchable_spec:
  fixes st :: "'a disaggregate_scheme"
  assumes "take_dispatchable_tasks (h, st) = Inr ((h', st'), out)" "group_inv st"
  shows "grp.dispatched st st' out \<and> dg_topology st' = dg_topology st
     \<and> (\<forall>g \<in> set (tp_groups (dg_topology st)). queue_of st' (Some (g_id g)) \<noteq> [] \<longrightarrow> \<not> groups_idle st' [g_id g])"
proof -
  obtain h1 st1 out1 where r1: "take_reshards (dg_reshard_ready st) h st = Inr ((h1, st1), out1)"
      and r2: "(let (s2, out2) = take_groups (tp_groups (dg_topology st1)) h1 st1
                in Inr (s2, out1 @ out2)) = (Inr ((h', st'), out) :: ((heap \<times> 'a disaggregate_scheme) \<times> string list) res)"
    using assms(1) by (auto simp: take_dispatchable_tasks_def bind_res_eq_Inr)
  then obtain out2 where run: "take_groups (tp_groups (dg_topology st1)) h1 st1 = ((h', st'), out2)" "out = out1 @ out2"
    by (cases "take_groups (tp_groups (dg_topology st1)) h1 st1") auto
  note inv = group_invD [OF assms(2)]
  have rd: "queue_of st None = dg_reshard_ready st" by (simp add: queue_of_def)
  have "distinct (dg_reshard_ready st)" "\<forall>tk \<in> set (dg_reshard_ready st). dg_dispatched_kind st tk = None"
    using queues_okD(1) [OF inv(2), of None] queues_okD(3) [OF inv(2), of _ None] rd group_claims_None [of st] by auto
  from take_reshards_spec [OF r1 inv(1) this] obtain q' where
    q': "dg_reshard_ready st = out1 @ q'" "group_books st1" "dg_topology st1 = dg_topology st"
      "dg_group_ready st1 = dg_group_ready st" "dg_reshard_ready st1 = q'"
      "\<forall>tk \<in> set out1. \<exists>b gs. group_claims st1 tk = Some (b, gs) \<and> groups_idle st gs"
      "\<forall>tk. tk \<notin> set out1 \<longrightarrow> group_claims st1 tk = group_claims st tk" by blast
  have d1: "grp.dispatched st st1 out1"
  proof (rule grp_one_queue [OF assms(2) q'(2,3)])
    show "queue_of st1 x = (if x = None then q' else queue_of st x)" for x
      using q'(4,5) by (auto simp: queue_of_def split: option.splits)
    show "queue_of st None = out1 @ q'" using rd q'(1) by simp
  qed (use q'(6,7) in auto)
  note g = take_groups_spec [OF run(1) grp.dispatchedD(1) [OF d1] subset_refl]
  show ?thesis using grp.dispatched_trans [OF assms(2) d1] g run(2) q'(3) by simp
qed

subsection \<open>Runs of the disaggregated policy\<close>

inductive group_reach :: "disaggregate \<Rightarrow> heap \<times> disaggregate \<Rightarrow> bool" for st0 where
  start: "group_reach st0 (h, st0)"
| tasks: "group_reach st0 (h, st) \<Longrightarrow> group_reach st0 (h', st)"
| submit: "group_reach st0 (h, st) \<Longrightarrow> disaggregate_submit p (h, st) = Inr (s', out) \<Longrightarrow>
     distinct (root_tasks p) \<Longrightarrow> \<forall>tk \<in> set (root_tasks p). fresh_task st tk \<Longrightarrow> group_reach st0 s'"
| runnable: "group_reach st0 (h, st) \<Longrightarrow> disaggregate_runnable tks (h, st) = Inr (s', out) \<Longrightarrow>
     distinct tks \<Longrightarrow> \<forall>tk \<in> set tks. fresh_task st tk \<Longrightarrow> group_reach st0 s'"
| event: "group_reach st0 (h, st) \<Longrightarrow> disaggregate_event ev (h, st) = Inr (s', out) \<Longrightarrow> group_reach st0 s'"

lemma group_inv_queue_upd:
  "group_inv st \<Longrightarrow> queues_ok (queue_of (st\<lparr>dg_group_ready := q, dg_reshard_ready := l\<rparr>)) (group_claims st) \<Longrightarrow>
     group_inv (st\<lparr>dg_group_ready := q, dg_reshard_ready := l\<rparr>)"
  by (simp add: group_inv_def)

lemma group_inv_init: "mark_free T \<Longrightarrow> group_inv (disaggregate_init T stages sched)"
proof -
  let ?st = "disaggregate_init T stages sched"
  have "group_claims ?st = (\<lambda>_. None)" "queue_of ?st = (\<lambda>_. [])"
    by (auto simp: group_claims_def queue_of_def disaggregate_init_def fun_eq_iff split: option.splits)
  then show "mark_free T \<Longrightarrow> ?thesis"
    by (simp add: group_inv_def group_books_def ledger.books_def disaggregate_init_def)
qed

lemma group_inv_runnable:
  assumes "on_tasks_runnable sel take_dispatchable_tasks tks (h, st) = Inr ((h', st'), out)"
    and "group_inv st" "distinct tks" "\<forall>tk \<in> set tks. fresh_task st tk"
  shows "group_inv st'"
proof -
  obtain h1 st1 where e: "for_res (enqueue_task sel) (h, st) tks = Inr (h1, st1)"
    and d: "take_dispatchable_tasks (h1, st1) = Inr ((h', st'), out)"
    using assms(1) by (auto simp: on_tasks_runnable_def bind_res_eq_Inr)
  have "queues_ok (queue_of st1) (group_claims st)
      \<and> (\<exists>q l. st1 = st\<lparr>dg_group_ready := q, dg_reshard_ready := l\<rparr>)"
    by (rule enqueue_loop [OF e group_invD(2) [OF assms(2)] assms(3)])
      (use assms(4) in \<open>simp add: fresh_task_def group_claims_None\<close>)
  then have "group_inv st1" using group_inv_queue_upd [OF assms(2)] by blast
  then show ?thesis using take_dispatchable_spec [OF d] grp.dispatchedD(1) by blast
qed

lemma group_inv_release:
  assumes "group_inv st"
  shows "group_inv (release_task tk st)"
proof -
  note inv = group_invD [OF assms]
  have "queue_of (release_task tk st) = queue_of st"
    by (rule ext) (simp add: queue_of_def split: option.split)
  then have "queues_ok (queue_of (release_task tk st)) (group_claims (release_task tk st))"
    using queues_ok_release [OF inv(2)] by (simp add: group_claims_release)
  then show ?thesis using group_books_release [OF inv(1)] inv(3) by (simp add: group_inv_def)
qed

lemma group_inv_drop:
  assumes "group_inv st"
  shows "group_inv (drop_request h rid st)"
proof -
  obtain q l where eq: "drop_request h rid st = st\<lparr>dg_group_ready := q, dg_reshard_ready := l\<rparr>"
    using drop_request_upd by blast
  have "queue_of (drop_request h rid st) = (\<lambda>x. filter (\<lambda>tk. t_request_id (h tk) \<noteq> rid) (queue_of st x))"
    by (rule ext) (rule queue_of_drop)
  then have "queues_ok (queue_of (drop_request h rid st)) (group_claims st)"
    using queues_ok_filter [OF group_invD(2) [OF assms]] by simp
  then show ?thesis using group_inv_queue_upd [OF assms] eq by simp
qed

lemma group_inv_event:
  assumes "disaggregate_event ev (h, st) = Inr ((h', st'), out)" and "group_inv st"
  shows "group_inv st'"
proof -
  define st1 where "st1 = (if e_kind ev \<in> {TASK_EXEC_END, TASK_FAILED} then release_task (e_task_id ev) st else st)"
  define st2 where "st2 = (if e_kind ev \<in> {REQUEST_FINISHED, REQUEST_FAILED}
    then drop_request h (e_request_id ev) st1 else st1)"
  have d: "take_dispatchable_tasks (h, st2) = Inr ((h', st'), out)"
    using assms(1) by (simp only: disaggregate_event_def on_worker_event_def Let_def st1_def st2_def prod.case)
  have "group_inv st1" using assms(2) by (auto simp: st1_def group_inv_release)
  then have "group_inv st2" by (auto simp: st2_def group_inv_drop)
  then show ?thesis using take_dispatchable_spec [OF d] grp.dispatchedD(1) by blast
qed

lemma group_reach_inv:
  assumes "group_reach st0 s" and "group_inv st0"
  shows "group_inv (snd s)"
  using assms(1)
proof induction
  case (submit h st p s' out)
  then show ?case
    using group_inv_runnable unfolding disaggregate_submit_def by (metis prod.collapse snd_conv)
next
  case (runnable h st tks s' out)
  then show ?case
    using group_inv_runnable unfolding disaggregate_runnable_def by (metis prod.collapse snd_conv)
next
  case (event h st ev s' out)
  then show ?case using group_inv_event by (metis prod.collapse snd_conv)
qed (use assms(2) in simp_all)

subsection \<open>Properties of the disaggregated policy\<close>

text \<open>
  In every reachable state of the disaggregated policy the groups are used exclusively: no
  two tasks in flight share a group, and while a reshard is in flight neither its source nor
  its destination group runs a task or takes part in another reshard.
\<close>

theorem disaggregate_groups_exclusive:
  assumes "group_reach (disaggregate_init T stages sched) (h, st)" "mark_free T" "tk \<noteq> tk'"
    and "dg_dispatched_kind st tk = Some g" "g \<noteq> reshard_mark"
  shows "dg_dispatched_kind st tk' \<noteq> Some g
     \<and> (\<forall>a b. dg_dispatched_kind st tk' = Some reshard_mark \<and> dg_reshard_groups_by_task st tk' = Some (a, b)
          \<longrightarrow> g \<notin> {a, b})"
proof -
  have ex: "exclusive (group_claims st)"
    using group_reach_inv [OF assms(1) group_inv_init [OF assms(2)]] by (simp add: group_inv_def group_books_def)
  have tk: "group_claims st tk = Some (False, [g])" using assms(4,5) by (simp add: group_claims_def)
  have "g \<notin> set gs" if "group_claims st tk' = Some (b, gs)" for b gs
    using exclusiveD [OF ex tk that assms(3)] by simp
  then show ?thesis using assms(5) by (auto simp: group_claims_def)
qed

subsection \<open>A concrete run\<close>

text \<open>Groups \<open>a\<close> and \<open>b\<close> overlap on rank 1, group \<open>c\<close> is apart; three tasks become runnable.\<close>

definition ex_group :: "string \<Rightarrow> int list \<Rightarrow> group_spec" where
  "ex_group gid rs =
     \<lparr>g_id = gid, g_ranks = rs, g_parallel = \<lparr>ps_tp = 1, ps_sp = int (length rs), ps_cfg = 1, ps_cfg_parallel = False\<rparr>,
      g_kinds = STANDARD_TASK_KINDS, g_ulysses = int (length rs), g_ring = 1\<rparr>"

definition ex_topology :: topology where
  "ex_topology =
     (case mk_topology (map (\<lambda>r. \<lparr>w_rank = r, w_device_id = None, w_label = []\<rparr>) [0, 1, 2, 3])
             [ex_group ''a'' [0, 1], ex_group ''b'' [1, 2], ex_group ''c'' [3]] of
        Inr T \<Rightarrow> T
      | Inl _ \<Rightarrow> \<lparr>tp_workers = [], tp_groups = [], tp_workers_by_rank = (\<lambda>_. None), tp_groups_by_id = (\<lambda>_. None),
                  tp_groups_by_worker_rank = (\<lambda>_. None)\<rparr>)"

definition ex_task :: "string \<Rightarrow> string \<Rightarrow> task" where
  "ex_task tk gid =
     \<lparr>t_id = tk, t_request_id = ''r'' @ tk, t_kind = DIT_STEP_CHUNK, t_group_id = Some gid,
      t_parallel = \<lparr>ps_tp = 1, ps_sp = 1, ps_cfg = 1, ps_cfg_parallel = False\<rparr>, t_status = PENDING, t_priority = 0,
      t_dependencies = [], t_inputs = [], t_outputs = [], t_step_range = None, t_payload = []\<rparr>"

definition ex_heap :: heap where
  "ex_heap tk = ex_task tk (if tk = ''t1'' then ''a'' else if tk = ''t2'' then ''b'' else ''c'')"

definition ex_event :: worker_event where
  "ex_event = \<lparr>e_event_id = ''e'', e_task_id = ''t1'', e_request_id = ''rt1'', e_group_id = ''a'', e_worker_rank = 0,
     e_kind = TASK_EXEC_END, e_timestamp_ns = 0, e_message = [], e_metadata = []\<rparr>"

lemma ex_topology_inv: "topology_inv ex_topology"
proof -
  let ?ws = "map (\<lambda>r. \<lparr>w_rank = r, w_device_id = None, w_label = []\<rparr>) [0, 1, 2, 3 :: int]"
  let ?gs = "[ex_group ''a'' [0, 1], ex_group ''b'' [1, 2], ex_group ''c'' [3]]"
  have "case mk_topology ?ws ?gs of Inr T \<Rightarrow> True | Inl _ \<Rightarrow> False" by code_simp
  then obtain T where T: "mk_topology ?ws ?gs = Inr T" by (auto split: sum.splits)
  have "ex_topology = T" unfolding ex_topology_def T by simp
  then show ?thesis using mk_topology_inv [OF T] by simp
qed

lemma ex_mark_free: "mark_free ex_topology"
  by code_simp

lemma ex_disaggregate:
  "case disaggregate_runnable [''t1'', ''t2'', ''t3''] (ex_heap, disaggregate_init ex_topology None None) of
     Inl _ \<Rightarrow> False
   | Inr ((h, st), out) \<Rightarrow> out = [''t1'', ''t2'', ''t3''] \<and> dg_dispatched_kind st ''t1'' = Some ''a''"
  by code_simp

theorem disaggregate_groups_exclusive_witness:
  "\<exists>h st. group_reach (disaggregate_init ex_topology None None) (h, st)
     \<and> dg_dispatched_kind st ''t1'' = Some ''a'' \<and> dg_dispatched_kind st ''t3'' \<noteq> Some ''a''"
proof -
  let ?st0 = "disaggregate_init ex_topology None None"
  obtain h st out where run: "disaggregate_runnable [''t1'', ''t2'', ''t3''] (ex_heap, ?st0) = Inr ((h, st), out)"
    using ex_disaggregate by (auto split: sum.splits)
  have r: "group_reach ?st0 (h, st)"
  proof (rule group_reach.runnable [OF group_reach.start run])
    show "\<forall>tk \<in> set [''t1'', ''t2'', ''t3'']. fresh_task ?st0 tk"
      by (simp add: fresh_task_def queue_of_def disaggregate_init_def split: option.split)
  qed simp
  have k: "dg_dispatched_kind st ''t1'' = Some ''a''" using ex_disaggregate [unfolded run] by simp
  have "dg_dispatched_kind st ''t3'' \<noteq> Some ''a''"
    using disaggregate_groups_exclusive [OF r ex_mark_free _ k, of "''t3''"] by (simp add: reshard_mark_def)
  then show ?thesis using r k by blast
qed

end
