(* ===== verification/DynamicStep.thy ===== *)
theory DynamicStep
  imports Disaggregate
begin

text \<open>
  The rank-aware extension of the disaggregated policy
  (\<open>runtime_v2/policies/disaggregate.py\<close>: \<open>DynamicStepFCFSSchedulerPolicy\<close>): groups that
  share ranks exclude each other, and the scheduler may hold ranks for a migration.
\<close>

section \<open>State\<close>

record dynamic_step = disaggregate +
  dy_outstanding_per_rank :: "int counter"
  dy_reshard_holds_by_rank :: "int counter"
  dy_dispatched_ranks_by_task :: "string \<Rightarrow> int list option"

definition dynamic_step_init ::
  "topology \<Rightarrow> (string \<times> string) list option \<Rightarrow> sched_item list option \<Rightarrow> dynamic_step" where
  "dynamic_step_init T stages sched =
     disaggregate.extend (disaggregate_init T stages sched)
       \<lparr>dy_outstanding_per_rank = (\<lambda>_. None), dy_reshard_holds_by_rank = (\<lambda>_. None),
        dy_dispatched_ranks_by_task = (\<lambda>_. None)\<rparr>"

section \<open>Dispatch of the rank-aware policy\<close>

fun scheduled_group :: "int \<Rightarrow> sched_item list \<Rightarrow> string option res" where
  "scheduled_group step [] = Inl ValueError"
| "scheduled_group step (i # is) =
     (let start = (case si_start i of None \<Rightarrow> 0 | Some s \<Rightarrow> s)
      in if start \<le> step \<and> (case si_end i of None \<Rightarrow> True | Some e \<Rightarrow> step < e)
         then (case si_group i of None \<Rightarrow> Inl KeyError | Some g \<Rightarrow> Inr (Some g))
         else scheduled_group step is)"

definition select_group_dynamic :: "'a disaggregate_scheme \<Rightarrow> task \<Rightarrow> string option res" where
  "select_group_dynamic st t =
     (if t_kind t = DIT_STEP_CHUNK \<and> dg_dit_step_schedule st \<noteq> [] then
        (case t_step_range t of
           None \<Rightarrow> Inl ValueError
         | Some r \<Rightarrow> scheduled_group (sr_start r) (dg_dit_step_schedule st))
      else Inr (select_group_by_stage st t))"

definition can_dispatch_ranks :: "'a dynamic_step_scheme \<Rightarrow> int list \<Rightarrow> bool" where
  "can_dispatch_ranks st rs \<longleftrightarrow>
     (\<forall>r \<in> set rs. cget (dy_outstanding_per_rank st) r = 0 \<and> cget (dy_reshard_holds_by_rank st) r = 0)"

definition claim_ranks :: "int list \<Rightarrow> bool \<Rightarrow> 'a dynamic_step_scheme \<Rightarrow> 'a dynamic_step_scheme" where
  "claim_ranks rs reshard st =
     (if reshard then st\<lparr>dy_reshard_holds_by_rank := claim_counts (dy_reshard_holds_by_rank st) rs\<rparr>
      else st\<lparr>dy_outstanding_per_rank := claim_counts (dy_outstanding_per_rank st) rs\<rparr>)"

definition acquire_migration_hold :: "int list \<Rightarrow> 'a dynamic_step_scheme \<Rightarrow> 'a dynamic_step_scheme" where
  "acquire_migration_hold rs st = claim_ranks rs True st"

definition release_migration_hold :: "int list \<Rightarrow> 'a dynamic_step_scheme \<Rightarrow> 'a dynamic_step_scheme" where
  "release_migration_hold rs st =
     st\<lparr>dy_reshard_holds_by_rank := release_counts (dy_reshard_holds_by_rank st) rs\<rparr>"

definition union_ranks :: "topology \<Rightarrow> string \<Rightarrow> string \<Rightarrow> int list res" where
  "union_ranks T src dst =
     bind_res (get_group T src) (\<lambda>a. bind_res (get_group T dst) (\<lambda>b.
       Inr (sorted_list_of_set (set (g_ranks a) \<union> set (g_ranks b)))))"

definition begin_reshard_by_rank ::
  "string \<Rightarrow> string \<Rightarrow> string \<Rightarrow> int list \<Rightarrow> 'a dynamic_step_scheme \<Rightarrow> 'a dynamic_step_scheme" where
  "begin_reshard_by_rank tk src dst ranks st =
     (claim_ranks ranks True st)
       \<lparr>dg_outstanding_reshards := dg_outstanding_reshards st + 1,
        dg_reshard_groups_by_task := (dg_reshard_groups_by_task st)(tk \<mapsto> (src, dst)),
        dg_dispatched_kind := (dg_dispatched_kind st)(tk \<mapsto> reshard_mark),
        dy_dispatched_ranks_by_task := (dy_dispatched_ranks_by_task st)(tk \<mapsto> ranks)\<rparr>"

definition begin_task_by_rank ::
  "string \<Rightarrow> string \<Rightarrow> int list \<Rightarrow> 'a dynamic_step_scheme \<Rightarrow> 'a dynamic_step_scheme" where
  "begin_task_by_rank tk g ranks st =
     (claim_ranks ranks False st)
       \<lparr>dg_outstanding_per_group := cinc (dg_outstanding_per_group st) g,
        dg_dispatched_kind := (dg_dispatched_kind st)(tk \<mapsto> g),
        dy_dispatched_ranks_by_task := (dy_dispatched_ranks_by_task st)(tk \<mapsto> ranks)\<rparr>"

fun take_reshards_by_rank ::
  "string list \<Rightarrow> heap \<Rightarrow> 'a dynamic_step_scheme \<Rightarrow> ((heap \<times> 'a dynamic_step_scheme) \<times> string list) res" where
  "take_reshards_by_rank [] h st = Inr ((h, st\<lparr>dg_reshard_ready := []\<rparr>), [])"
| "take_reshards_by_rank (tk # q) h st =
     (if dg_outstanding_reshards st < max_concurrent_reshards then
        bind_res (payload_str (h tk) RESHARD_PAYLOAD_SRC_GROUP_ID) (\<lambda>src.
        bind_res (payload_str (h tk) RESHARD_PAYLOAD_DST_GROUP_ID) (\<lambda>dst.
        bind_res (union_ranks (dg_topology st) src dst) (\<lambda>ranks.
        if \<not> can_dispatch_ranks st ranks
        then Inr ((h, st\<lparr>dg_reshard_ready := tk # q\<rparr>), [])
        else
          bind_res (take_reshards_by_rank q (set_dispatched tk h) (begin_reshard_by_rank tk src dst ranks st))
            (\<lambda>(s, out). Inr (s, tk # out)))))
      else Inr ((h, st\<lparr>dg_reshard_ready := tk # q\<rparr>), []))"

fun take_group_by_rank ::
  "group_spec \<Rightarrow> string list \<Rightarrow> heap \<Rightarrow> 'a dynamic_step_scheme \<Rightarrow> (heap \<times> 'a dynamic_step_scheme) \<times> string list" where
  "take_group_by_rank g [] h st = ((h, st\<lparr>dg_group_ready := store_queue (dg_group_ready st) (g_id g) []\<rparr>), [])"
| "take_group_by_rank g (tk # q) h st =
     (if can_dispatch_ranks st (g_ranks g) then
        (let (s, out) = take_group_by_rank g q (set_dispatched tk h) (begin_task_by_rank tk (g_id g) (g_ranks g) st)
         in (s, tk # out))
      else ((h, st\<lparr>dg_group_ready := store_queue (dg_group_ready st) (g_id g) (tk # q)\<rparr>), []))"

fun take_groups_by_rank ::
  "group_spec list \<Rightarrow> heap \<Rightarrow> 'a dynamic_step_scheme \<Rightarrow> (heap \<times> 'a dynamic_step_scheme) \<times> string list" where
  "take_groups_by_rank [] h st = ((h, st), [])"
| "take_groups_by_rank (g # gs) h st =
     (case dg_group_ready st (g_id g) of
        None \<Rightarrow> take_groups_by_rank gs h st
      | Some [] \<Rightarrow> take_groups_by_rank gs h st
      | Some (tk # q) \<Rightarrow>
          (let ((h', st'), out) = take_group_by_rank g (tk # q) h st;
               (s, out') = take_groups_by_rank gs h' st'
           in (s, out @ out')))"

definition take_dispatchable_by_rank :: "'a dynamic_step_scheme dispatch" where
  "take_dispatchable_by_rank s =
     (case s of (h, st) \<Rightarrow>
        bind_res (take_reshards_by_rank (dg_reshard_ready st) h st) (\<lambda>((h1, st1), out1).
          let (s2, out2) = take_groups_by_rank (tp_groups (dg_topology st1)) h1 st1
          in Inr (s2, out1 @ out2)))"

definition release_task_by_rank :: "string \<Rightarrow> 'a dynamic_step_scheme \<Rightarrow> 'a dynamic_step_scheme" where
  "release_task_by_rank tk st =
     (case dg_dispatched_kind st tk of
        None \<Rightarrow> st
      | Some target \<Rightarrow>
          let ranks = (case dy_dispatched_ranks_by_task st tk of None \<Rightarrow> [] | Some rs \<Rightarrow> rs);
              st1 = st\<lparr>dg_dispatched_kind := (dg_dispatched_kind st)(tk := None),
                       dy_dispatched_ranks_by_task := (dy_dispatched_ranks_by_task st)(tk := None)\<rparr>
          in if target = reshard_mark
             then st1\<lparr>dg_outstanding_reshards := dg_outstanding_reshards st1 - 1,
                      dg_reshard_groups_by_task := (dg_reshard_groups_by_task st1)(tk := None),
                      dy_reshard_holds_by_rank := release_counts (dy_reshard_holds_by_rank st1) ranks\<rparr>
             else st1\<lparr>dg_outstanding_per_group := cdec (dg_outstanding_per_group st1) target,
                      dy_outstanding_per_rank := release_counts (dy_outstanding_per_rank st1) ranks\<rparr>)"

section \<open>Entry points\<close>

definition dynamic_submit :: "plan \<Rightarrow> 'a dynamic_step_scheme dispatch" where
  "dynamic_submit p = on_tasks_runnable select_group_dynamic take_dispatchable_by_rank (root_tasks p)"

definition dynamic_runnable :: "string list \<Rightarrow> 'a dynamic_step_scheme dispatch" where
  "dynamic_runnable = on_tasks_runnable select_group_dynamic take_dispatchable_by_rank"

definition dynamic_event :: "worker_event \<Rightarrow> 'a dynamic_step_scheme dispatch" where
  "dynamic_event = on_worker_event release_task_by_rank take_dispatchable_by_rank"

section \<open>Accounting of the rank-aware policy\<close>

text \<open>The claim of an in-flight task, read off the tables of the policy.\<close>

definition dyn_claims :: "'a dynamic_step_scheme \<Rightarrow> int claims" where
  "dyn_claims st tk =
     (case dg_dispatched_kind st tk of
        None \<Rightarrow> None
      | Some k \<Rightarrow> Some (k = reshard_mark, case dy_dispatched_ranks_by_task st tk of None \<Rightarrow> [] | Some rs \<Rightarrow> rs))"

text \<open>
  The counters are exact (\<open>H\<close> counts the migration holds of the scheduler), in-flight tasks
  occupy disjoint ranks, and at most one reshard is in flight.
\<close>

definition dyn_books :: "(int \<Rightarrow> nat) \<Rightarrow> 'a dynamic_step_scheme \<Rightarrow> bool" where
  "dyn_books H st \<longleftrightarrow>
     finite (dom (dg_dispatched_kind st)) \<and> exclusive (dyn_claims st)
     \<and> ledger.books (dyn_claims st) False (\<lambda>_. 0) (dy_outstanding_per_rank st)
     \<and> ledger.books (dyn_claims st) True H (dy_reshard_holds_by_rank st)"

definition dyn_inv :: "(int \<Rightarrow> nat) \<Rightarrow> 'a dynamic_step_scheme \<Rightarrow> bool" where
  "dyn_inv H st \<longleftrightarrow> dyn_books H st \<and> queues_ok (queue_of st) (dyn_claims st) \<and> reshards_ok st \<and> mark_free (dg_topology st)"

lemma dom_dyn_claims [simp]: "dom (dyn_claims st) = dom (dg_dispatched_kind st)"
  by (auto simp: dyn_claims_def dom_def split: option.splits)

lemma dyn_claims_None: "dyn_claims st tk = None \<longleftrightarrow> dg_dispatched_kind st tk = None"
  by (auto simp: dyn_claims_def split: option.splits)

lemma dyn_booksD:
  assumes "dyn_books H st"
  shows "finite (dom (dg_dispatched_kind st))" "exclusive (dyn_claims st)"
    "ledger.books (dyn_claims st) False (\<lambda>_. 0) (dy_outstanding_per_rank st)"
    "ledger.books (dyn_claims st) True H (dy_reshard_holds_by_rank st)"
  using assms by (simp_all add: dyn_books_def)

text \<open>The ranks that may be claimed are exactly those no task and no migration holds.\<close>

lemma can_dispatch_ranks_iff:
  assumes "dyn_books H st"
  shows "can_dispatch_ranks st rs \<longleftrightarrow>
    (\<forall>r \<in> set rs. H r = 0 \<and> (\<forall>tk b ks. dyn_claims st tk = Some (b, ks) \<longrightarrow> r \<notin> set ks))"
proof -
  note d = dyn_booksD [OF assms]
  have fin: "finite (dom (dyn_claims st))" using d(1) by simp
  have "cget (dy_outstanding_per_rank st) r = 0 \<and> cget (dy_reshard_holds_by_rank st) r = 0 \<longleftrightarrow>
      H r = 0 \<and> (\<forall>tk b ks. dyn_claims st tk = Some (b, ks) \<longrightarrow> r \<notin> set ks)" for r
    unfolding ledger.books_load_0 [OF fin d(3)] ledger.books_load_0 [OF fin d(4)]
    by (metis (full_types))
  then show ?thesis by (auto simp: can_dispatch_ranks_def)
qed

lemma claimed_rank:
  "(\<exists>tk b ks. dyn_claims st tk = Some (b, ks) \<and> r \<in> set ks) \<longleftrightarrow>
   (\<exists>tk ks. dg_dispatched_kind st tk \<noteq> None \<and> dy_dispatched_ranks_by_task st tk = Some ks \<and> r \<in> set ks)"
proof -
  have "(\<exists>b ks. dyn_claims st tk = Some (b, ks) \<and> r \<in> set ks) \<longleftrightarrow>
      (\<exists>ks. dg_dispatched_kind st tk \<noteq> None \<and> dy_dispatched_ranks_by_task st tk = Some ks \<and> r \<in> set ks)" for tk
    by (cases "dg_dispatched_kind st tk"; cases "dy_dispatched_ranks_by_task st tk") (auto simp: dyn_claims_def)
  then show ?thesis by blast
qed

lemma claims_begin_task:
  "g \<noteq> reshard_mark \<Longrightarrow> dyn_claims (begin_task_by_rank tk g rs st) = (dyn_claims st)(tk \<mapsto> (False, rs))"
  by (rule ext) (auto simp: dyn_claims_def begin_task_by_rank_def claim_ranks_def split: option.splits)

lemma claims_begin_reshard:
  "dyn_claims (begin_reshard_by_rank tk a b rs st) = (dyn_claims st)(tk \<mapsto> (True, rs))"
  by (rule ext) (auto simp: dyn_claims_def begin_reshard_by_rank_def claim_ranks_def split: option.splits)

lemma exclusive_can_dispatch:
  assumes "dyn_books H st" and "can_dispatch_ranks st rs"
  shows "exclusive ((dyn_claims st)(tk \<mapsto> (b, rs)))"
proof (rule exclusive_upd [OF dyn_booksD(2) [OF assms(1)]])
  fix tk' b' ks' assume "dyn_claims st tk' = Some (b', ks')"
  then show "set rs \<inter> set ks' = {}"
    using assms(2) unfolding can_dispatch_ranks_iff [OF assms(1)] by blast
qed

lemma books_begin_task:
  assumes "dyn_books H st" "can_dispatch_ranks st rs" "dg_dispatched_kind st tk = None" "g \<noteq> reshard_mark"
  shows "dyn_books H (begin_task_by_rank tk g rs st)"
proof -
  note d = dyn_booksD [OF assms(1)]
  have fin: "finite (dom (dyn_claims st))" and new: "dyn_claims st tk = None"
    using d(1) assms(3) by (simp_all add: dyn_claims_None)
  show ?thesis
    unfolding dyn_books_def claims_begin_task [OF assms(4)]
    using exclusive_can_dispatch [OF assms(1,2)] ledger.books_claim [OF fin new d(3)]
      ledger.books_claim_other [OF fin new _ d(4), of False] d(1)
    by (simp add: begin_task_by_rank_def claim_ranks_def)
qed

lemma books_begin_reshard:
  assumes "dyn_books H st" "can_dispatch_ranks st rs" "dg_dispatched_kind st tk = None"
  shows "dyn_books H (begin_reshard_by_rank tk a b rs st)"
proof -
  note d = dyn_booksD [OF assms(1)]
  have fin: "finite (dom (dyn_claims st))" and new: "dyn_claims st tk = None"
    using d(1) assms(3) by (simp_all add: dyn_claims_None)
  show ?thesis
    unfolding dyn_books_def claims_begin_reshard
    using exclusive_can_dispatch [OF assms(1,2)] ledger.books_claim [OF fin new d(4)]
      ledger.books_claim_other [OF fin new _ d(3), of True] d(1)
    by (simp add: begin_reshard_by_rank_def claim_ranks_def)
qed

lemma claims_release:
  "dyn_claims (release_task_by_rank tk st) = (dyn_claims st)(tk := None)"
  by (rule ext) (auto simp: dyn_claims_def release_task_by_rank_def Let_def split: option.splits)

lemma books_release:
  assumes "dyn_books H st"
  shows "dyn_books H (release_task_by_rank tk st)"
proof (cases "dg_dispatched_kind st tk")
  case None
  then show ?thesis using assms by (simp add: release_task_by_rank_def)
next
  case (Some target)
  note d = dyn_booksD [OF assms]
  define rs where "rs = (case dy_dispatched_ranks_by_task st tk of None \<Rightarrow> [] | Some rs \<Rightarrow> rs)"
  have cl: "dyn_claims st tk = Some (target = reshard_mark, rs)"
    using Some by (simp add: dyn_claims_def rs_def)
  have fin: "finite (dom (dyn_claims st))" using d(1) by simp
  show ?thesis
  proof (cases "target = reshard_mark")
    case True
    with cl have cl': "dyn_claims st tk = Some (True, rs)" by simp
    show ?thesis
      unfolding dyn_books_def claims_release
      using exclusive_drop [OF d(2)] ledger.books_free [OF fin cl' d(4)]
        ledger.books_free_other [OF fin cl' _ d(3)] d(1) Some True
      by (simp add: release_task_by_rank_def rs_def)
  next
    case False
    with cl have cl': "dyn_claims st tk = Some (False, rs)" by simp
    show ?thesis
      unfolding dyn_books_def claims_release
      using exclusive_drop [OF d(2)] ledger.books_free [OF fin cl' d(3)]
        ledger.books_free_other [OF fin cl' _ d(4)] d(1) Some False
      by (simp add: release_task_by_rank_def rs_def)
  qed
qed

subsection \<open>One pass of dispatch\<close>

lemma begin_task_by_rank_simps [simp]:
  "dg_topology (begin_task_by_rank tk g rs st) = dg_topology st"
  "dg_reshard_ready (begin_task_by_rank tk g rs st) = dg_reshard_ready st"
  "dg_group_ready (begin_task_by_rank tk g rs st) = dg_group_ready st"
  "dg_outstanding_reshards (begin_task_by_rank tk g rs st) = dg_outstanding_reshards st"
  "dg_dispatched_kind (begin_task_by_rank tk g rs st) = (dg_dispatched_kind st)(tk \<mapsto> g)"
  by (simp_all add: begin_task_by_rank_def claim_ranks_def)

lemma begin_reshard_by_rank_simps [simp]:
  "dg_topology (begin_reshard_by_rank tk a b rs st) = dg_topology st"
  "dg_reshard_ready (begin_reshard_by_rank tk a b rs st) = dg_reshard_ready st"
  "dg_group_ready (begin_reshard_by_rank tk a b rs st) = dg_group_ready st"
  "dg_outstanding_reshards (begin_reshard_by_rank tk a b rs st) = dg_outstanding_reshards st + 1"
  "dg_dispatched_kind (begin_reshard_by_rank tk a b rs st) = (dg_dispatched_kind st)(tk \<mapsto> reshard_mark)"
  by (simp_all add: begin_reshard_by_rank_def claim_ranks_def)

text \<open>Changing the queues does not touch the books.\<close>

lemma queue_upd_claims [simp]:
  "dyn_claims (st\<lparr>dg_group_ready := q\<rparr>) = dyn_claims st"
  "dyn_claims (st\<lparr>dg_reshard_ready := l\<rparr>) = dyn_claims st"
  "can_dispatch_ranks (st\<lparr>dg_group_ready := q\<rparr>) rs = can_dispatch_ranks st rs"
  "can_dispatch_ranks (st\<lparr>dg_reshard_ready := l\<rparr>) rs = can_dispatch_ranks st rs"
  by (auto simp: dyn_claims_def can_dispatch_ranks_def fun_eq_iff split: option.splits)

lemma queue_upd_books [simp]:
  "dyn_books H (st\<lparr>dg_group_ready := q\<rparr>) = dyn_books H st"
  "dyn_books H (st\<lparr>dg_reshard_ready := l\<rparr>) = dyn_books H st"
  by (simp_all add: dyn_books_def)

lemma reshards_ok_queue [simp]:
  "reshards_ok (st\<lparr>dg_group_ready := q\<rparr>) = reshards_ok st"
  "reshards_ok (st\<lparr>dg_reshard_ready := l\<rparr>) = reshards_ok st"
  by (simp_all add: reshards_ok_def)

lemma reshards_ok_begin_task:
  "reshards_ok st \<Longrightarrow> g \<noteq> reshard_mark \<Longrightarrow> dg_dispatched_kind st tk = None \<Longrightarrow>
     reshards_ok (begin_task_by_rank tk g rs st)"
  unfolding reshards_ok_def
  by (auto intro!: arg_cong [where f = card])

lemma reshards_ok_begin_reshard:
  assumes "reshards_ok st" "finite (dom (dg_dispatched_kind st))" "dg_dispatched_kind st tk = None"
    "dg_outstanding_reshards st < max_concurrent_reshards"
  shows "reshards_ok (begin_reshard_by_rank tk a b rs st)"
proof -
  have "{t. ((dg_dispatched_kind st)(tk \<mapsto> reshard_mark)) t = Some reshard_mark}
      = insert tk {t. dg_dispatched_kind st t = Some reshard_mark}" by auto
  moreover have "finite {t. dg_dispatched_kind st t = Some reshard_mark}"
    by (rule finite_subset [OF _ assms(2)]) auto
  ultimately show ?thesis using assms unfolding reshards_ok_def by simp
qed

lemma dyn_invD:
  assumes "dyn_inv H st"
  shows "dyn_books H st" "queues_ok (queue_of st) (dyn_claims st)" "reshards_ok st" "mark_free (dg_topology st)"
  using assms by (simp_all add: dyn_inv_def)

interpretation dyn: dispatcher dyn_claims "dyn_inv H" can_dispatch_ranks queue_of "\<lambda>r. H r \<noteq> 0" for H :: "int \<Rightarrow> nat"
proof unfold_locales
  fix st :: "'a dynamic_step_scheme" and tk x
  assume "dyn_inv H st" "tk \<in> set (queue_of st x)"
  then show "dyn_claims st tk = None" using queues_okD(3) unfolding dyn_inv_def by metis
next
  fix st :: "'a dynamic_step_scheme" and rs assume "dyn_inv H st"
  then have "dyn_books H st" by (rule dyn_invD)
  then show "can_dispatch_ranks st rs \<longleftrightarrow>
      (\<forall>r \<in> set rs. \<not> H r \<noteq> 0 \<and> (\<forall>tk b ks. dyn_claims st tk = Some (b, ks) \<longrightarrow> r \<notin> set ks))"
    using can_dispatch_ranks_iff by simp
qed

abbreviation dyn_dispatched ::
  "(int \<Rightarrow> nat) \<Rightarrow> 'a dynamic_step_scheme \<Rightarrow> 'a dynamic_step_scheme \<Rightarrow> string list \<Rightarrow> bool" where
  "dyn_dispatched H \<equiv> dispatcher.dispatched dyn_claims (dyn_inv H) can_dispatch_ranks queue_of"

text \<open>One queue is served, its prefix \<open>out\<close> going in flight.\<close>

lemma dyn_one_queue:
  assumes "dyn_inv H st" "dyn_books H st'" "reshards_ok st'" "dg_topology st' = dg_topology st"
    and q: "\<And>x. queue_of st' x = (if x = y then q' else queue_of st x)" "queue_of st y = out @ q'"
    and cl: "\<And>tk. tk \<in> set out \<Longrightarrow> \<exists>b rs. dyn_claims st' tk = Some (b, rs) \<and> can_dispatch_ranks st rs"
      "\<And>tk. tk \<notin> set out \<Longrightarrow> dyn_claims st' tk = dyn_claims st tk"
  shows "dyn_dispatched H st st' out"
proof (rule dyn.dispatched_one_queue [OF _ q cl])
  have "queues_ok (queue_of st') (dyn_claims st')"
    by (rule queues_ok_take [OF dyn_invD(2) [OF assms(1)] q cl(2)])
  then show "dyn_inv H st'" using assms(2-4) dyn_invD(4) [OF assms(1)] by (simp add: dyn_inv_def)
qed auto

lemma take_group_by_rank_spec:
  assumes "take_group_by_rank g q h st = ((h', st'), out)"
    and "dyn_books H st" "reshards_ok st" "g_id g \<noteq> reshard_mark" "distinct q"
    and "\<forall>tk \<in> set q. dg_dispatched_kind st tk = None"
  shows "\<exists>q'. q = out @ q' \<and> dyn_books H st' \<and> reshards_ok st' \<and> dg_topology st' = dg_topology st
     \<and> dg_reshard_ready st' = dg_reshard_ready st
     \<and> dg_group_ready st' = store_queue (dg_group_ready st) (g_id g) q'
     \<and> (\<forall>tk. dyn_claims st' tk = (if tk \<in> set out then Some (False, g_ranks g) else dyn_claims st tk))
     \<and> (out \<noteq> [] \<longrightarrow> can_dispatch_ranks st (g_ranks g))
     \<and> (q' \<noteq> [] \<longrightarrow> \<not> can_dispatch_ranks st' (g_ranks g))"
  using assms
proof (induction g q h st arbitrary: out rule: take_group_by_rank.induct)
  case (1 g h st)
  then show ?case by auto
next
  case (2 g tk q h st)
  show ?case
  proof (cases "can_dispatch_ranks st (g_ranks g)")
    case False
    then show ?thesis using 2 by (intro exI [of _ "tk # q"]) auto
  next
    case True
    let ?st = "begin_task_by_rank tk (g_id g) (g_ranks g) st"
    have rec: "\<exists>out1. take_group_by_rank g q (set_dispatched tk h) ?st = ((h', st'), out1) \<and> out = tk # out1"
      using 2(2) True by (simp add: Let_def split: prod.splits)
    then obtain out1 where run: "take_group_by_rank g q (set_dispatched tk h) ?st = ((h', st'), out1)"
      and out: "out = tk # out1" by blast
    have "dyn_books H ?st"
      by (rule books_begin_task [OF 2(3) True]) (use 2(5,7) in simp_all)
    moreover have "reshards_ok ?st"
      by (rule reshards_ok_begin_task [OF 2(4,5)]) (use 2(7) in simp)
    moreover have "\<forall>tk \<in> set q. dg_dispatched_kind ?st tk = None" using 2(6,7) by auto
    ultimately obtain q' where q': "q = out1 @ q'" "dyn_books H st'" "reshards_ok st'"
      "dg_topology st' = dg_topology st" "dg_reshard_ready st' = dg_reshard_ready st"
      "dg_group_ready st' = store_queue (dg_group_ready st) (g_id g) q'"
      "\<forall>t. dyn_claims st' t = (if t \<in> set out1 then Some (False, g_ranks g) else dyn_claims ?st t)"
      "q' \<noteq> [] \<longrightarrow> \<not> can_dispatch_ranks st' (g_ranks g)"
      using 2(1) [OF True run] 2(5,6) by auto
    then show ?thesis using True
      by (intro exI [of _ q']) (auto simp: out claims_begin_task [OF 2(5)])
  qed
qed

lemma take_groups_by_rank_spec:
  assumes "take_groups_by_rank gs h st = ((h', st'), out)" "dyn_inv H st"
    and "set gs \<subseteq> set (tp_groups (dg_topology st))"
  shows "dyn_dispatched H st st' out \<and> dg_topology st' = dg_topology st
     \<and> (\<forall>g \<in> set gs. queue_of st' (Some (g_id g)) \<noteq> [] \<longrightarrow> \<not> can_dispatch_ranks st' (g_ranks g))"
  using assms
proof (induction gs arbitrary: h st out)
  case Nil
  then show ?case by (simp add: dyn.dispatched_refl)
next
  case (Cons g gs)
  have "\<exists>h1 st1 out1 out2. dyn_dispatched H st st1 out1
      \<and> (queue_of st1 (Some (g_id g)) \<noteq> [] \<longrightarrow> \<not> can_dispatch_ranks st1 (g_ranks g))
      \<and> dg_topology st1 = dg_topology st
      \<and> take_groups_by_rank gs h1 st1 = ((h', st'), out2) \<and> out = out1 @ out2"
  proof (cases "queue_of st (Some (g_id g))")
    case Nil
    then have "take_groups_by_rank gs h st = ((h', st'), out)"
      using Cons.prems(1) by (auto simp: queue_of_def split: option.splits)
    then show ?thesis
      using Nil dyn.dispatched_refl [OF Cons.prems(2)]
      by (intro exI [of _ h] exI [of _ st] exI [of _ "[]"] exI [of _ out]) simp
  next
    case (Cons tk q)
    then have rd: "dg_group_ready st (g_id g) = Some (tk # q)"
      by (auto simp: queue_of_def split: option.splits)
    obtain h1 st1 out1 where run: "take_group_by_rank g (tk # q) h st = ((h1, st1), out1)"
      by (metis prod.exhaust)
    obtain out2 where run2: "take_groups_by_rank gs h1 st1 = ((h', st'), out2)" and out: "out = out1 @ out2"
      using Cons.prems(1) rd run by (auto simp: Let_def split: prod.splits)
    note inv = dyn_invD [OF Cons.prems(2)]
    have mark: "g_id g \<noteq> reshard_mark" using Cons.prems(3) inv(4) by (simp add: mark_free_def)
    have fresh: "distinct (tk # q)" "\<forall>t \<in> set (tk # q). dg_dispatched_kind st t = None"
      using queues_okD(1) [OF inv(2), of "Some (g_id g)"] queues_okD(3) [OF inv(2), of _ "Some (g_id g)"] Cons
        dyn_claims_None [of st] by auto
    from take_group_by_rank_spec [OF run inv(1,3) mark fresh]
    obtain q' where q': "tk # q = out1 @ q'" "dyn_books H st1" "reshards_ok st1"
      "dg_topology st1 = dg_topology st" "dg_reshard_ready st1 = dg_reshard_ready st"
      "dg_group_ready st1 = store_queue (dg_group_ready st) (g_id g) q'"
      "\<forall>t. dyn_claims st1 t = (if t \<in> set out1 then Some (False, g_ranks g) else dyn_claims st t)"
      "out1 \<noteq> [] \<longrightarrow> can_dispatch_ranks st (g_ranks g)"
      "q' \<noteq> [] \<longrightarrow> \<not> can_dispatch_ranks st1 (g_ranks g)" by blast
    note qs = queue_of_cong [OF q'(5,6)]
    have "dyn_dispatched H st st1 out1"
    proof (rule dyn_one_queue [OF Cons.prems(2) q'(2,3,4) qs])
      show "queue_of st (Some (g_id g)) = out1 @ q'" using Cons q'(1) by simp
    qed (use q'(7,8) in auto)
    then show ?thesis using q'(4,9) run2 out qs [of "Some (g_id g)"] by auto
  qed
  then obtain h1 st1 out1 out2 where st1: "dyn_dispatched H st st1 out1"
      "queue_of st1 (Some (g_id g)) \<noteq> [] \<longrightarrow> \<not> can_dispatch_ranks st1 (g_ranks g)"
      "dg_topology st1 = dg_topology st"
      "take_groups_by_rank gs h1 st1 = ((h', st'), out2)" "out = out1 @ out2" by blast
  note inv1 = dyn.dispatchedD(1) [OF st1(1)]
  have IH: "dyn_dispatched H st1 st' out2"
      "\<forall>g \<in> set gs. queue_of st' (Some (g_id g)) \<noteq> [] \<longrightarrow> \<not> can_dispatch_ranks st' (g_ranks g)"
      "dg_topology st' = dg_topology st1"
    using Cons.IH [OF st1(4) inv1] Cons.prems(3) st1(3) by auto
  have "queue_of st' (Some (g_id g)) \<noteq> [] \<Longrightarrow> \<not> can_dispatch_ranks st' (g_ranks g)"
    using st1(2) dyn.dispatchedD(2) [OF IH(1), of "Some (g_id g)"] dyn.can_mono [OF inv1 IH(1)] by auto
  then show ?case
    using dyn.dispatched_trans [OF Cons.prems(2) st1(1) IH(1)] IH(2,3) st1(3,5) by auto
qed

lemma can_dispatch_begin_reshard:
  "can_dispatch_ranks (begin_reshard_by_rank tk a b rs st) ks \<Longrightarrow> can_dispatch_ranks st ks"
  by (auto simp: can_dispatch_ranks_def begin_reshard_by_rank_def claim_ranks_def cget_claim_counts)

lemma take_reshards_by_rank_step:
  assumes "take_reshards_by_rank (tk # q) h st = Inr ((h', st'), out)"
  obtains (stop) "st' = st\<lparr>dg_reshard_ready := tk # q\<rparr>" "out = []"
  | (go) a b rs out1 where "can_dispatch_ranks st rs" "dg_outstanding_reshards st < max_concurrent_reshards"
      "take_reshards_by_rank q (set_dispatched tk h) (begin_reshard_by_rank tk a b rs st) = Inr ((h', st'), out1)"
      "out = tk # out1"
proof (cases "dg_outstanding_reshards st < max_concurrent_reshards")
  case False
  then show thesis using assms stop by simp
next
  case True
  with assms obtain a b rs where r: "(if \<not> can_dispatch_ranks st rs
        then Inr ((h, st\<lparr>dg_reshard_ready := tk # q\<rparr>), [])
        else bind_res (take_reshards_by_rank q (set_dispatched tk h) (begin_reshard_by_rank tk a b rs st))
               (\<lambda>(s, out). Inr (s, tk # out))) = Inr ((h', st'), out)"
    by (auto simp: bind_res_eq_Inr)
  show thesis
  proof (cases "can_dispatch_ranks st rs")
    case False
    then show thesis using r stop by simp
  next
    case ok: True
    with r obtain s out1 where "take_reshards_by_rank q (set_dispatched tk h) (begin_reshard_by_rank tk a b rs st) = Inr (s, out1)"
        "s = (h', st')" "out = tk # out1"
      by (auto simp: bind_res_eq_Inr)
    then show thesis using go ok True by blast
  qed
qed

lemma take_reshards_by_rank_spec:
  assumes "take_reshards_by_rank q h st = Inr ((h', st'), out)"
    and "dyn_books H st" "reshards_ok st" "distinct q" "\<forall>tk \<in> set q. dg_dispatched_kind st tk = None"
  shows "\<exists>q'. q = out @ q' \<and> dyn_books H st' \<and> reshards_ok st' \<and> dg_topology st' = dg_topology st
     \<and> dg_group_ready st' = dg_group_ready st \<and> dg_reshard_ready st' = q'
     \<and> (\<forall>tk \<in> set out. \<exists>b rs. dyn_claims st' tk = Some (b, rs) \<and> can_dispatch_ranks st rs)
     \<and> (\<forall>tk. tk \<notin> set out \<longrightarrow> dyn_claims st' tk = dyn_claims st tk)"
  using assms
proof (induction q arbitrary: h st out)
  case Nil
  then show ?case by auto
next
  case (Cons tk q)
  from Cons.prems(1) show ?case
  proof (cases rule: take_reshards_by_rank_step)
    case stop
    then show ?thesis using Cons.prems by (intro exI [of _ "tk # q"]) simp
  next
    case (go a b rs out1)
    let ?st = "begin_reshard_by_rank tk a b rs st"
    have new: "dg_dispatched_kind st tk = None" using Cons.prems(5) by simp
    have "dyn_books H ?st" by (rule books_begin_reshard [OF Cons.prems(2) go(1) new])
    moreover have "reshards_ok ?st"
      by (rule reshards_ok_begin_reshard [OF Cons.prems(3) dyn_booksD(1) [OF Cons.prems(2)] new go(2)])
    moreover have "distinct q" "\<forall>t \<in> set q. dg_dispatched_kind ?st t = None" "tk \<notin> set q"
      using Cons.prems(4,5) by auto
    ultimately obtain q' where q': "q = out1 @ q'" "dyn_books H st'" "reshards_ok st'"
        "dg_topology st' = dg_topology st" "dg_group_ready st' = dg_group_ready st" "dg_reshard_ready st' = q'"
        "\<forall>t \<in> set out1. \<exists>b rs. dyn_claims st' t = Some (b, rs) \<and> can_dispatch_ranks ?st rs"
        "\<forall>t. t \<notin> set out1 \<longrightarrow> dyn_claims st' t = dyn_claims ?st t"
      using Cons.IH [OF go(3)] by auto
    have "tk \<notin> set out1" using q'(1) Cons.prems(4) by simp
    then have tk: "dyn_claims st' tk = Some (True, rs)" using q'(8) claims_begin_reshard by (metis fun_upd_same)
    have "\<exists>b rs. dyn_claims st' t = Some (b, rs) \<and> can_dispatch_ranks st rs" if "t \<in> set out" for t
      using that tk go(1,4) q'(7) can_dispatch_begin_reshard by (metis set_ConsD)
    moreover have "dyn_claims st' t = dyn_claims st t" if "t \<notin> set out" for t
      using that go(4) q'(8) by (simp add: claims_begin_reshard)
    ultimately show ?thesis using q'(1-6) go(4) by (intro exI [of _ q']) simp
  qed
qed

text \<open>One call of \<open>_take_dispatchable_tasks\<close>: FIFO prefixes, free ranks only, and no group left waiting for free ranks.\<close>

lemma take_dispatchable_by_rank_spec:
  fixes st :: "'a dynamic_step_scheme"
  assumes "take_dispatchable_by_rank (h, st) = Inr ((h', st'), out)" "dyn_inv H st"
  shows "dyn_dispatched H st st' out \<and> dg_topology st' = dg_topology st
     \<and> (\<forall>g \<in> set (tp_groups (dg_topology st)). queue_of st' (Some (g_id g)) \<noteq> [] \<longrightarrow>
          \<not> can_dispatch_ranks st' (g_ranks g))"
proof -
  obtain h1 st1 out1 where r1: "take_reshards_by_rank (dg_reshard_ready st) h st = Inr ((h1, st1), out1)"
      and r2: "(let (s2, out2) = take_groups_by_rank (tp_groups (dg_topology st1)) h1 st1
                in Inr (s2, out1 @ out2)) = (Inr ((h', st'), out) :: ((heap \<times> 'a dynamic_step_scheme) \<times> string list) res)"
    using assms(1) by (auto simp: take_dispatchable_by_rank_def bind_res_eq_Inr)
  then obtain out2 where run: "take_reshards_by_rank (dg_reshard_ready st) h st = Inr ((h1, st1), out1)"
      "take_groups_by_rank (tp_groups (dg_topology st1)) h1 st1 = ((h', st'), out2)" "out = out1 @ out2"
    by (cases "take_groups_by_rank (tp_groups (dg_topology st1)) h1 st1") auto
  note inv = dyn_invD [OF assms(2)]
  have rd: "queue_of st None = dg_reshard_ready st" by (simp add: queue_of_def)
  have "distinct (dg_reshard_ready st)" "\<forall>tk \<in> set (dg_reshard_ready st). dg_dispatched_kind st tk = None"
    using queues_okD(1) [OF inv(2), of None] queues_okD(3) [OF inv(2), of _ None] rd dyn_claims_None [of st] by auto
  from take_reshards_by_rank_spec [OF run(1) inv(1,3) this] obtain q' where
    q': "dg_reshard_ready st = out1 @ q'" "dyn_books H st1" "reshards_ok st1" "dg_topology st1 = dg_topology st"
      "dg_group_ready st1 = dg_group_ready st" "dg_reshard_ready st1 = q'"
      "\<forall>tk \<in> set out1. \<exists>b rs. dyn_claims st1 tk = Some (b, rs) \<and> can_dispatch_ranks st rs"
      "\<forall>tk. tk \<notin> set out1 \<longrightarrow> dyn_claims st1 tk = dyn_claims st tk" by blast
  have d1: "dyn_dispatched H st st1 out1"
  proof (rule dyn_one_queue [OF assms(2) q'(2,3,4)])
    show "queue_of st1 x = (if x = None then q' else queue_of st x)" for x
      using q'(5,6) by (auto simp: queue_of_def split: option.splits)
    show "queue_of st None = out1 @ q'" using rd q'(1) by simp
  qed (use q'(7,8) in auto)
  note inv1 = dyn.dispatchedD(1) [OF d1]
  note g = take_groups_by_rank_spec [OF run(2) inv1 subset_refl]
  show ?thesis
    using dyn.dispatched_trans [OF assms(2) d1] g run(3) q'(4) by simp
qed

subsection \<open>The other operations\<close>

lemma dyn_inv_queue_upd:
  "dyn_inv H st \<Longrightarrow> queues_ok (queue_of (st\<lparr>dg_group_ready := q, dg_reshard_ready := l\<rparr>)) (dyn_claims st) \<Longrightarrow>
     dyn_inv H (st\<lparr>dg_group_ready := q, dg_reshard_ready := l\<rparr>)"
  by (simp add: dyn_inv_def reshards_ok_def)

lemma enqueue_loop_inv:
  assumes "for_res (enqueue_task sel) (h, st) tks = Inr (h', st')"
    and "dyn_inv H st" "distinct tks" "\<forall>tk \<in> set tks. fresh_task st tk"
  shows "dyn_inv H st' \<and> dg_topology st' = dg_topology st"
proof -
  have "queues_ok (queue_of st') (dyn_claims st)
      \<and> (\<exists>q l. st' = st\<lparr>dg_group_ready := q, dg_reshard_ready := l\<rparr>)"
    by (rule enqueue_loop [OF assms(1) dyn_invD(2) [OF assms(2)] assms(3)])
      (use assms(4) in \<open>simp add: fresh_task_def dyn_claims_None\<close>)
  then obtain q l where st': "queues_ok (queue_of st') (dyn_claims st)"
    "st' = st\<lparr>dg_group_ready := q, dg_reshard_ready := l\<rparr>" by blast
  then show ?thesis using dyn_inv_queue_upd [OF assms(2)] by simp
qed

lemma release_by_rank_simps [simp]:
  "dg_topology (release_task_by_rank tk st) = dg_topology st"
  "dg_reshard_ready (release_task_by_rank tk st) = dg_reshard_ready st"
  "dg_group_ready (release_task_by_rank tk st) = dg_group_ready st"
  "dg_dispatched_kind (release_task_by_rank tk st) = (dg_dispatched_kind st)(tk := None)"
  by (auto simp: release_task_by_rank_def Let_def split: option.splits)

lemma reshards_ok_release:
  assumes "reshards_ok st" "finite (dom (dg_dispatched_kind st))"
  shows "reshards_ok (release_task_by_rank tk st)"
proof -
  let ?R = "{t. dg_dispatched_kind st t = Some reshard_mark}"
  have fin: "finite ?R" by (rule finite_subset [OF _ assms(2)]) auto
  have eq: "{t. ((dg_dispatched_kind st)(tk := None)) t = Some reshard_mark} = ?R - {tk}" by auto
  have n: "dg_outstanding_reshards (release_task_by_rank tk st)
      = dg_outstanding_reshards st - (if dg_dispatched_kind st tk = Some reshard_mark then 1 else 0)"
    by (auto simp: release_task_by_rank_def Let_def split: option.splits)
  show ?thesis
    using assms(1) fin unfolding reshards_ok_def release_by_rank_simps eq n
    by (auto simp: card_Diff_singleton_if)
qed

lemma queue_of_release [simp]: "queue_of (release_task_by_rank tk st) = queue_of st"
  by (rule ext) (simp add: queue_of_def split: option.split)

lemma dyn_inv_release:
  assumes "dyn_inv H st"
  shows "dyn_inv H (release_task_by_rank tk st)"
proof -
  note inv = dyn_invD [OF assms]
  have "queues_ok (queue_of (release_task_by_rank tk st)) (dyn_claims (release_task_by_rank tk st))"
    using queues_ok_release [OF inv(2)] by (simp add: claims_release)
  then show ?thesis
    using books_release [OF inv(1)] reshards_ok_release [OF inv(3) dyn_booksD(1) [OF inv(1)]] inv(4)
    by (simp add: dyn_inv_def)
qed

lemma dyn_inv_drop:
  assumes "dyn_inv H st"
  shows "dyn_inv H (drop_request h rid st)"
proof -
  obtain q l where eq: "drop_request h rid st = st\<lparr>dg_group_ready := q, dg_reshard_ready := l\<rparr>"
    using drop_request_upd by blast
  have "queue_of (drop_request h rid st) = (\<lambda>x. filter (\<lambda>tk. t_request_id (h tk) \<noteq> rid) (queue_of st x))"
    by (rule ext) (rule queue_of_drop)
  then have "queues_ok (queue_of (drop_request h rid st)) (dyn_claims st)"
    using queues_ok_filter [OF dyn_invD(2) [OF assms]] by simp
  then show ?thesis using dyn_inv_queue_upd [OF assms] eq by simp
qed

lemma dyn_inv_hold:
  assumes "dyn_inv H st"
  shows "dyn_inv (\<lambda>r. H r + count_list rs r) (acquire_migration_hold rs st)"
proof -
  let ?st = "acquire_migration_hold rs st"
  note inv = dyn_invD [OF assms]
  have "dyn_claims ?st = dyn_claims st"
    by (rule ext) (auto simp: dyn_claims_def acquire_migration_hold_def claim_ranks_def split: option.splits)
  moreover have "queue_of ?st = queue_of st"
    by (rule ext) (simp add: queue_of_def acquire_migration_hold_def claim_ranks_def split: option.splits)
  ultimately show ?thesis
    using inv ledger.books_hold [OF dyn_booksD(4) [OF inv(1)], of rs]
    by (simp add: dyn_inv_def dyn_books_def reshards_ok_def acquire_migration_hold_def claim_ranks_def)
qed

lemma dyn_inv_unhold:
  assumes "dyn_inv H st" "\<And>r. count_list rs r \<le> H r"
  shows "dyn_inv (\<lambda>r. H r - count_list rs r) (release_migration_hold rs st)"
proof -
  let ?st = "release_migration_hold rs st"
  note inv = dyn_invD [OF assms(1)]
  have "dyn_claims ?st = dyn_claims st"
    by (rule ext) (auto simp: dyn_claims_def release_migration_hold_def split: option.splits)
  moreover have "queue_of ?st = queue_of st"
    by (rule ext) (simp add: queue_of_def release_migration_hold_def split: option.splits)
  ultimately show ?thesis
    using inv ledger.books_unhold [OF dyn_booksD(4) [OF inv(1)] assms(2)]
    by (simp add: dyn_inv_def dyn_books_def reshards_ok_def release_migration_hold_def)
qed

subsection \<open>Runs of the rank-aware policy\<close>

text \<open>
  The calls of the scheduler in any order: submissions and runnable tasks that the policy does
  not know yet, worker events, migration holds and their releases; the tasks themselves are
  shared with the scheduler, which may change them between two calls. \<open>H\<close> counts the
  holds. A call that raises ends the run.
\<close>

inductive dyn_reach :: "dynamic_step \<Rightarrow> heap \<times> dynamic_step \<Rightarrow> (int \<Rightarrow> nat) \<Rightarrow> bool" for st0 where
  start: "dyn_reach st0 (h, st0) (\<lambda>_. 0)"
| tasks: "dyn_reach st0 (h, st) H \<Longrightarrow> dyn_reach st0 (h', st) H"
| submit: "dyn_reach st0 (h, st) H \<Longrightarrow> dynamic_submit p (h, st) = Inr (s', out) \<Longrightarrow>
     distinct (root_tasks p) \<Longrightarrow> \<forall>tk \<in> set (root_tasks p). fresh_task st tk \<Longrightarrow> dyn_reach st0 s' H"
| runnable: "dyn_reach st0 (h, st) H \<Longrightarrow> dynamic_runnable tks (h, st) = Inr (s', out) \<Longrightarrow>
     distinct tks \<Longrightarrow> \<forall>tk \<in> set tks. fresh_task st tk \<Longrightarrow> dyn_reach st0 s' H"
| event: "dyn_reach st0 (h, st) H \<Longrightarrow> dynamic_event ev (h, st) = Inr (s', out) \<Longrightarrow> dyn_reach st0 s' H"
| hold: "dyn_reach st0 (h, st) H \<Longrightarrow>
     dyn_reach st0 (h, acquire_migration_hold rs st) (\<lambda>r. H r + count_list rs r)"
| unhold: "dyn_reach st0 (h, st) H \<Longrightarrow> (\<And>r. count_list rs r \<le> H r) \<Longrightarrow>
     dyn_reach st0 (h, release_migration_hold rs st) (\<lambda>r. H r - count_list rs r)"

lemma dyn_inv_init: "mark_free T \<Longrightarrow> dyn_inv (\<lambda>_. 0) (dynamic_step_init T stages sched)"
proof -
  let ?st = "dynamic_step_init T stages sched"
  have "dyn_claims ?st = (\<lambda>_. None)" "queue_of ?st = (\<lambda>_. [])"
    by (auto simp: dyn_claims_def queue_of_def dynamic_step_init_def disaggregate_init_def
        disaggregate.extend_def fun_eq_iff split: option.splits)
  then show "mark_free T \<Longrightarrow> ?thesis"
    by (simp add: dyn_inv_def dyn_books_def reshards_ok_def ledger.books_def
        dynamic_step_init_def disaggregate_init_def disaggregate.extend_def)
qed

lemma runnable_spec:
  assumes "on_tasks_runnable sel take_dispatchable_by_rank tks (h, st) = Inr ((h', st'), out)"
    and "dyn_inv H st" "distinct tks" "\<forall>tk \<in> set tks. fresh_task st tk"
  obtains st1 where "dyn_inv H st1" "dyn_dispatched H st1 st' out" "dg_topology st1 = dg_topology st"
    "\<forall>g \<in> set (tp_groups (dg_topology st1)). queue_of st' (Some (g_id g)) \<noteq> [] \<longrightarrow>
       \<not> can_dispatch_ranks st' (g_ranks g)"
proof -
  obtain h1 st1 where e: "for_res (enqueue_task sel) (h, st) tks = Inr (h1, st1)"
    and d: "take_dispatchable_by_rank (h1, st1) = Inr ((h', st'), out)"
    using assms(1) by (auto simp: on_tasks_runnable_def bind_res_eq_Inr)
  have "dyn_inv H st1" "dg_topology st1 = dg_topology st" using enqueue_loop_inv [OF e assms(2-4)] by auto
  then show thesis using that take_dispatchable_by_rank_spec [OF d] by blast
qed

lemma event_spec:
  assumes "dynamic_event ev (h, st) = Inr ((h', st'), out)" and "dyn_inv H st"
  obtains st1 where "dyn_inv H st1" "dyn_dispatched H st1 st' out" "dg_topology st1 = dg_topology st"
    "\<forall>g \<in> set (tp_groups (dg_topology st1)). queue_of st' (Some (g_id g)) \<noteq> [] \<longrightarrow>
       \<not> can_dispatch_ranks st' (g_ranks g)"
    "\<And>x. queue_of st1 x = (if e_kind ev \<in> {REQUEST_FINISHED, REQUEST_FAILED}
       then filter (\<lambda>tk. t_request_id (h tk) \<noteq> e_request_id ev) (queue_of st x) else queue_of st x)"
proof -
  define st1 where "st1 = (if e_kind ev \<in> {TASK_EXEC_END, TASK_FAILED}
    then release_task_by_rank (e_task_id ev) st else st)"
  define st2 where "st2 = (if e_kind ev \<in> {REQUEST_FINISHED, REQUEST_FAILED}
    then drop_request h (e_request_id ev) st1 else st1)"
  have d: "take_dispatchable_by_rank (h, st2) = Inr ((h', st'), out)"
    using assms(1) by (simp only: dynamic_event_def on_worker_event_def Let_def st1_def st2_def prod.case)
  have "dyn_inv H st2" "dg_topology st2 = dg_topology st"
    using assms(2) dyn_inv_release [OF assms(2)] dyn_inv_drop
    by (auto simp: st1_def st2_def drop_request_def)
  moreover have "queue_of st2 x = (if e_kind ev \<in> {REQUEST_FINISHED, REQUEST_FAILED}
       then filter (\<lambda>tk. t_request_id (h tk) \<noteq> e_request_id ev) (queue_of st x) else queue_of st x)" for x
    by (auto simp: st1_def st2_def queue_of_drop)
  ultimately show thesis using that take_dispatchable_by_rank_spec [OF d] by blast
qed

lemma dyn_reach_inv:
  assumes "dyn_reach st0 s H" and "dyn_inv (\<lambda>_. 0) st0"
  shows "dyn_inv H (snd s)"
  using assms(1)
proof induction
  case (start h)
  then show ?case using assms(2) by simp
next
  case (tasks h st H h')
  then show ?case by simp
next
  case (submit h st H p s' out)
  obtain h' st' where s': "s' = (h', st')" by (cases s')
  show ?case
    using submit.IH submit.hyps runnable_spec dyn.dispatchedD(1) unfolding dynamic_submit_def s' snd_conv
    by metis
next
  case (runnable h st H tks s' out)
  obtain h' st' where s': "s' = (h', st')" by (cases s')
  show ?case
    using runnable.IH runnable.hyps runnable_spec dyn.dispatchedD(1) unfolding dynamic_runnable_def s' snd_conv
    by metis
next
  case (event h st H ev s' out)
  obtain h' st' where s': "s' = (h', st')" by (cases s')
  show ?case
    using event.IH event.hyps event_spec dyn.dispatchedD(1) unfolding s' snd_conv by metis
next
  case (hold h st H rs)
  then show ?case by (simp add: dyn_inv_hold)
next
  case (unhold h st H rs)
  then show ?case by (simp add: dyn_inv_unhold)
qed

subsection \<open>Properties of the rank-aware policy\<close>

text \<open>
  C11: In every reachable state of the rank-aware policy, two different tasks in flight occupy
  disjoint ranks, also when their execution groups overlap and when one of them is a reshard
  over two groups.
\<close>

theorem dynamic_ranks_exclusive:
  assumes "dyn_reach (dynamic_step_init T stages sched) (h, st) H" "mark_free T"
    and "dg_dispatched_kind st tk \<noteq> None" "dy_dispatched_ranks_by_task st tk = Some rs"
    and "dg_dispatched_kind st tk' \<noteq> None" "dy_dispatched_ranks_by_task st tk' = Some rs'" "tk \<noteq> tk'"
  shows "set rs \<inter> set rs' = {}"
proof -
  have "exclusive (dyn_claims st)"
    using dyn_reach_inv [OF assms(1) dyn_inv_init [OF assms(2)]] by (simp add: dyn_inv_def dyn_books_def)
  moreover have "\<exists>b. dyn_claims st tk = Some (b, rs)" "\<exists>b. dyn_claims st tk' = Some (b, rs')"
    using assms(3-6) by (auto simp: dyn_claims_def)
  ultimately show ?thesis using exclusiveD assms(7) by blast
qed

text \<open>
  The counters never leak: in every reachable state, a rank may be claimed exactly when no
  task in flight occupies it and the scheduler holds it for no migration.
\<close>

theorem dynamic_free_ranks_exact:
  assumes "dyn_reach (dynamic_step_init T stages sched) (h, st) H" "mark_free T"
  shows "can_dispatch_ranks st rs \<longleftrightarrow>
    (\<forall>r \<in> set rs. H r = 0 \<and>
       (\<forall>tk ks. dg_dispatched_kind st tk \<noteq> None \<and> dy_dispatched_ranks_by_task st tk = Some ks \<longrightarrow> r \<notin> set ks))"
proof -
  have "dyn_books H st"
    using dyn_reach_inv [OF assms(1) dyn_inv_init [OF assms(2)]] by (simp add: dyn_inv_def)
  then show ?thesis using can_dispatch_ranks_iff claimed_rank [of st] by metis
qed

text \<open>
  A pass takes tasks from the fronts of the queues: what it dispatches is exactly what left them,
  and no dispatched task is still waiting anywhere.
\<close>

lemma dyn_dispatched_prefixes:
  assumes "dyn_dispatched H st st' out"
  shows "\<exists>l. (\<forall>x. l x @ queue_of st' x = queue_of st x) \<and> set out = (\<Union>x. set (l x))
    \<and> (\<forall>tk \<in> set out. \<forall>x. tk \<notin> set (queue_of st' x))"
proof -
  note D = dyn.dispatchedD [OF assms]
  have "\<exists>l. \<forall>x. set (l x) \<subseteq> set out \<and> queue_of st x = l x @ queue_of st' x"
    using D(2) by (intro choice allI)
  then obtain l where l: "\<And>x. set (l x) \<subseteq> set out" "\<And>x. queue_of st x = l x @ queue_of st' x" by blast
  have gone: "tk \<notin> set (queue_of st' x)" if "tk \<in> set out" for tk x
    using dyn.waiting_not_in_flight [OF D(1)] D(4) [OF that] by fastforce
  have "\<exists>x. tk \<in> set (l x)" if t: "tk \<in> set out" for tk
  proof -
    obtain x where "tk \<in> set (queue_of st x)" using D(3) [OF t] by blast
    then have "tk \<in> set (l x)" using gone [OF t, of x] unfolding l(2) [of x] by simp
    then show ?thesis by blast
  qed
  then have "set out \<subseteq> (\<Union>x. set (l x))" by (intro subsetI UN_iff [THEN iffD2]) simp
  moreover have "(\<Union>x. set (l x)) \<subseteq> set out" by (intro UN_least l(1))
  ultimately have "set out = (\<Union>x. set (l x))" by (rule equalityI)
  then show ?thesis using l(2) gone by (intro exI [of _ l] conjI allI ballI) simp_all
qed

text \<open>
  C17: Handling a worker event dispatches in FIFO order and wastes no free group. Every queue loses
  a prefix of what it held (after the drop of a finished request) and keeps the rest in order; the
  dispatched tasks are exactly the tasks of these prefixes, so only tasks that were waiting are
  dispatched and none of them is still queued; all of them are in flight; and a group whose queue
  is not empty afterwards has a rank that is occupied by a task in flight or held for a migration.
\<close>

theorem dynamic_event_fifo_no_idle:
  assumes "dyn_reach (dynamic_step_init T stages sched) (h, st) H" "mark_free T"
    and "dynamic_event ev (h, st) = Inr ((h', st'), out)"
  shows "(\<forall>tk \<in> set out. dg_dispatched_kind st' tk \<noteq> None)
    \<and> (\<forall>g \<in> set (tp_groups (dg_topology st)). queue_of st' (Some (g_id g)) \<noteq> [] \<longrightarrow>
        (\<exists>r \<in> set (g_ranks g). 0 < H r \<or>
          (\<exists>tk ks. dg_dispatched_kind st' tk \<noteq> None \<and> dy_dispatched_ranks_by_task st' tk = Some ks \<and> r \<in> set ks)))
    \<and> (\<exists>l. (\<forall>x. l x @ queue_of st' x =
              (if e_kind ev \<in> {REQUEST_FINISHED, REQUEST_FAILED}
               then filter (\<lambda>tk. t_request_id (h tk) \<noteq> e_request_id ev) (queue_of st x) else queue_of st x))
         \<and> set out = (\<Union>x. set (l x))
         \<and> (\<forall>tk \<in> set out. \<forall>x. tk \<notin> set (queue_of st' x)))"
proof -
  have inv: "dyn_inv H st" using dyn_reach_inv [OF assms(1) dyn_inv_init [OF assms(2)]] by simp
  from event_spec [OF assms(3) inv] obtain st1 where st1: "dyn_inv H st1" "dyn_dispatched H st1 st' out"
      "dg_topology st1 = dg_topology st"
      "\<forall>g \<in> set (tp_groups (dg_topology st1)). queue_of st' (Some (g_id g)) \<noteq> [] \<longrightarrow> \<not> can_dispatch_ranks st' (g_ranks g)"
      "\<And>x. queue_of st1 x = (if e_kind ev \<in> {REQUEST_FINISHED, REQUEST_FAILED}
         then filter (\<lambda>tk. t_request_id (h tk) \<noteq> e_request_id ev) (queue_of st x) else queue_of st x)" by blast
  note b' = dyn_invD(1) [OF dyn.dispatchedD(1) [OF st1(2)]]
  have "dg_dispatched_kind st' tk \<noteq> None" if "tk \<in> set out" for tk
    using dyn.dispatchedD(4) [OF st1(2) that] dyn_claims_None [of st' tk] by auto
  moreover have "\<exists>r \<in> set (g_ranks g). 0 < H r \<or> (\<exists>tk ks. dg_dispatched_kind st' tk \<noteq> None
      \<and> dy_dispatched_ranks_by_task st' tk = Some ks \<and> r \<in> set ks)"
    if "g \<in> set (tp_groups (dg_topology st))" "queue_of st' (Some (g_id g)) \<noteq> []" for g
  proof -
    have "\<not> can_dispatch_ranks st' (g_ranks g)" using st1(3,4) that by simp
    then show ?thesis
      unfolding can_dispatch_ranks_iff [OF b'] claimed_rank [symmetric] neq0_conv [symmetric] by blast
  qed
  ultimately show ?thesis by (intro conjI ballI impI dyn_dispatched_prefixes [OF st1(2), unfolded st1(5)])
qed

subsection \<open>A concrete run\<close>

definition ex_dyn0 :: dynamic_step where "ex_dyn0 = dynamic_step_init ex_topology None None"

lemma ex_run1:
  "case dynamic_runnable [''t1'', ''t2'', ''t3''] (ex_heap, ex_dyn0) of
     Inl _ \<Rightarrow> False
   | Inr ((h, st), out) \<Rightarrow> out = [''t1'', ''t3'']
       \<and> dg_dispatched_kind st ''t1'' = Some ''a'' \<and> dg_dispatched_kind st ''t3'' = Some ''c''
       \<and> dy_dispatched_ranks_by_task st ''t1'' = Some [0, 1] \<and> dy_dispatched_ranks_by_task st ''t3'' = Some [3]
       \<and> \<not> can_dispatch_ranks st [1, 2]
       \<and> (case dynamic_event ex_event (h, st) of Inl _ \<Rightarrow> False | Inr ((h2, st2), out2) \<Rightarrow> out2 = [''t2''])"
  by code_simp

lemma ex_reach:
  "\<exists>h st. dyn_reach ex_dyn0 (h, st) (\<lambda>_. 0)
     \<and> dg_dispatched_kind st ''t1'' = Some ''a'' \<and> dg_dispatched_kind st ''t3'' = Some ''c''
     \<and> dy_dispatched_ranks_by_task st ''t1'' = Some [0, 1] \<and> dy_dispatched_ranks_by_task st ''t3'' = Some [3]
     \<and> \<not> can_dispatch_ranks st [1, 2]
     \<and> (\<exists>h2 st2. dynamic_event ex_event (h, st) = Inr ((h2, st2), [''t2'']))"
proof -
  obtain h st out where run: "dynamic_runnable [''t1'', ''t2'', ''t3''] (ex_heap, ex_dyn0) = Inr ((h, st), out)"
    using ex_run1 by (auto split: sum.splits)
  have "\<exists>h2 st2. dynamic_event ex_event (h, st) = Inr ((h2, st2), [''t2''])"
    using ex_run1 [unfolded run] by (auto split: sum.splits)
  moreover have "dyn_reach ex_dyn0 (h, st) (\<lambda>_. 0)"
  proof (rule dyn_reach.runnable [OF dyn_reach.start run])
    show "\<forall>tk \<in> set [''t1'', ''t2'', ''t3'']. fresh_task ex_dyn0 tk"
      by (simp add: fresh_task_def queue_of_def ex_dyn0_def dynamic_step_init_def disaggregate_init_def
          disaggregate.extend_def split: option.split)
  qed simp
  ultimately show ?thesis using ex_run1 [unfolded run] by (intro exI [of _ h] exI [of _ st]) simp
qed

theorem dynamic_ranks_exclusive_witness:
  "\<exists>h st. dyn_reach ex_dyn0 (h, st) (\<lambda>_. 0) \<and> dy_dispatched_ranks_by_task st ''t1'' = Some [0, 1]
     \<and> dy_dispatched_ranks_by_task st ''t3'' = Some [3] \<and> set [0, 1] \<inter> set [3 :: int] = {}"
proof -
  obtain h st where "dyn_reach ex_dyn0 (h, st) (\<lambda>_. 0)"
    "dg_dispatched_kind st ''t1'' = Some ''a''" "dg_dispatched_kind st ''t3'' = Some ''c''"
    "dy_dispatched_ranks_by_task st ''t1'' = Some [0, 1]" "dy_dispatched_ranks_by_task st ''t3'' = Some [3]"
    using ex_reach by blast
  then show ?thesis
    using dynamic_ranks_exclusive [OF _ ex_mark_free, of None None h st "\<lambda>_. 0" "''t1''" "[0, 1]" "''t3''" "[3]"]
    unfolding ex_dyn0_def by auto
qed

theorem dynamic_free_ranks_exact_witness:
  "\<exists>h st. dyn_reach ex_dyn0 (h, st) (\<lambda>_. 0) \<and> \<not> can_dispatch_ranks st [1, 2]
     \<and> (\<exists>r \<in> set [1, 2]. \<exists>tk ks. dy_dispatched_ranks_by_task st tk = Some ks \<and> r \<in> set ks)"
proof -
  obtain h st where "dyn_reach ex_dyn0 (h, st) (\<lambda>_. 0)" "\<not> can_dispatch_ranks st [1, 2]"
    using ex_reach by blast
  then show ?thesis
    using dynamic_free_ranks_exact [OF _ ex_mark_free, of None None h st "\<lambda>_. 0" "[1, 2]"]
    unfolding ex_dyn0_def by blast
qed

theorem dynamic_event_fifo_no_idle_witness:
  "\<exists>h st h2 st2. dyn_reach ex_dyn0 (h, st) (\<lambda>_. 0) \<and> dynamic_event ex_event (h, st) = Inr ((h2, st2), [''t2''])
     \<and> dg_dispatched_kind st2 ''t2'' \<noteq> None \<and> (\<exists>x. ''t2'' \<in> set (queue_of st x) \<and> ''t2'' \<notin> set (queue_of st2 x))"
proof -
  obtain h st h2 st2 where s: "dyn_reach ex_dyn0 (h, st) (\<lambda>_. 0)"
    "dynamic_event ex_event (h, st) = Inr ((h2, st2), [''t2''])" using ex_reach by blast
  note p = dynamic_event_fifo_no_idle [OF s(1) [unfolded ex_dyn0_def] ex_mark_free s(2)]
  have k: "e_kind ex_event \<notin> {REQUEST_FINISHED, REQUEST_FAILED}" by (simp add: ex_event_def)
  from conjunct2 [OF conjunct2 [OF p], unfolded if_not_P [OF k]]
  obtain l where l: "\<forall>x. l x @ queue_of st2 x = queue_of st x" "set [''t2''] = (\<Union>x. set (l x))"
    "\<forall>tk \<in> set [''t2'']. \<forall>x. tk \<notin> set (queue_of st2 x)"
    by (elim exE conjE)
  have gone: "''t2'' \<notin> set (queue_of st2 x)" for x using l(3) by simp
  have "''t2'' \<in> (\<Union>x. set (l x))" unfolding l(2) [symmetric] by simp
  then obtain x where "''t2'' \<in> set (l x)" by (rule UN_E)
  then have "''t2'' \<in> set (queue_of st x)" unfolding l(1) [rule_format, of x, symmetric] by simp
  moreover have "dg_dispatched_kind st2 ''t2'' \<noteq> None" using conjunct1 [OF p] by simp
  ultimately show ?thesis using s gone by blast
qed

end
