(* ===== verification/CostModel.thy ===== *)
theory CostModel
  imports Protocol
begin

text \<open>
  The store of stage cost models (\<open>runtime_v2/cost_model.py\<close>) and the default runtime estimate
  of \<open>runtime_v2/policies/common.py\<close>. A cost-model file is read as a typed record: integers for
  the degrees of parallelism, exact rationals for the coefficients (floating-point rounding is
  not modelled).
\<close>

section \<open>Keys\<close>

record cost_key =
  ck_tp :: int
  ck_sp :: int
  ck_ulysses :: int
  ck_ring :: int
  ck_cfg :: int

text \<open>An entry of \<open>stages\<close>: \<open>coeffs\<close> and the name of the variable.\<close>

record stage_entry =
  se_coeffs :: "(string \<times> rat) list option"
  se_x_name :: "string option"

type_synonym stage_table = "(string \<times> stage_entry) list"

text \<open>The parsed contents of one JSON file; absent objects are \<open>None\<close>.\<close>

record cost_file =
  cf_parallelism :: "(string \<times> int) list option"
  cf_stages :: "stage_table option"

definition get_or :: "(string \<times> 'v) list \<Rightarrow> string \<Rightarrow> 'v \<Rightarrow> 'v" where
  "get_or d k v = (case map_of d k of None \<Rightarrow> v | Some x \<Rightarrow> x)"

definition key_from_cost_model :: "cost_file \<Rightarrow> cost_key" where
  "key_from_cost_model data =
     (let p = (case cf_parallelism data of None \<Rightarrow> [] | Some d \<Rightarrow> d)
      in \<lparr>ck_tp = get_or p ''tp'' 1, ck_sp = get_or p ''sp'' 1,
          ck_ulysses = get_or p ''ulysses'' (get_or p ''sp'' 1),
          ck_ring = get_or p ''ring'' 1, ck_cfg = get_or p ''cfg'' 1\<rparr>)"

definition key_from_group :: "group_spec \<Rightarrow> cost_key" where
  "key_from_group g =
     \<lparr>ck_tp = ps_tp (g_parallel g), ck_sp = ps_sp (g_parallel g), ck_ulysses = g_ulysses g,
      ck_ring = g_ring g, ck_cfg = ps_cfg (g_parallel g)\<rparr>"

definition key_from_parallel_spec :: "parallel_spec \<Rightarrow> int option \<Rightarrow> int \<Rightarrow> cost_key" where
  "key_from_parallel_spec p ulysses ring =
     \<lparr>ck_tp = ps_tp p, ck_sp = ps_sp p,
      ck_ulysses = (case ulysses of Some u \<Rightarrow> u | None \<Rightarrow> ps_sp p), ck_ring = ring, ck_cfg = ps_cfg p\<rparr>"

section \<open>Stage models\<close>

datatype stage_cost_model =
  StageCostModel (scm_path: string) (scm_key: cost_key) (scm_stages: stage_table)
    (scm_sp1_fallback: "stage_cost_model option")

definition NON_PARALLEL_STAGES :: "string list" where
  "NON_PARALLEL_STAGES = [''text_encode'', ''dit_prepare'', ''timestep_prepare'', ''vae_decode'', ''finalize'']"

definition has_stage :: "stage_table \<Rightarrow> string \<Rightarrow> bool" where
  "has_stage t s \<longleftrightarrow> map_of t s \<noteq> None"

fun resolve_stage :: "stage_cost_model \<Rightarrow> string \<Rightarrow> (stage_table \<times> string \<times> rat) res" where
  "resolve_stage (StageCostModel path key stages fallback) stage =
     (let rest =
        (if stage \<in> set NON_PARALLEL_STAGES
         then (case fallback of Some m \<Rightarrow> resolve_stage m stage | None \<Rightarrow> Inl KeyError)
         else Inl KeyError)
      in if has_stage stages stage then Inr (stages, stage, 1)
         else if stage = ''dit_step_chunk_cfg'' then
           (if has_stage stages ''dit_step_chunk'' then Inr (stages, ''dit_step_chunk'', 1) else rest)
         else if stage = ''dit_step_chunk_nocfg'' then
           (if has_stage stages ''dit_step_chunk_cfg'' then Inr (stages, ''dit_step_chunk_cfg'', 1 / 2)
            else if has_stage stages ''dit_step_chunk'' then Inr (stages, ''dit_step_chunk'', 1 / 2)
            else rest)
         else rest)"

definition stage_x_name :: "stage_cost_model \<Rightarrow> string \<Rightarrow> string res" where
  "stage_x_name m stage =
     bind_res (resolve_stage m stage) (\<lambda>(stages, resolved, scale).
       bind_res (dict_get (map_of stages) resolved) (\<lambda>e.
         Inr (case se_x_name e of None \<Rightarrow> ''seq_len'' | Some n \<Rightarrow> n)))"

definition estimate_ms :: "stage_cost_model \<Rightarrow> string \<Rightarrow> rat \<Rightarrow> rat res" where
  "estimate_ms m stage x =
     bind_res (resolve_stage m stage) (\<lambda>(stages, resolved, scale).
       bind_res (dict_get (map_of stages) resolved) (\<lambda>e.
         case se_coeffs e of
           None \<Rightarrow> Inl KeyError
         | Some cs \<Rightarrow>
             let a = get_or cs ''a'' 0; b = get_or cs ''b'' 0; c = get_or cs ''c'' 0
             in Inr (max 0 ((a * x * x + b * x + c) * scale))))"

section \<open>The store\<close>

type_synonym cost_store = "(cost_key \<times> stage_cost_model) list"

text \<open>The first loop of \<open>load_dir\<close>, over the files in the order of their paths.\<close>

definition load_file :: "cost_store \<Rightarrow> string \<times> cost_file \<Rightarrow> cost_store res" where
  "load_file models f =
     (case f of (path, data) \<Rightarrow>
        let key = key_from_cost_model data
        in if map_of models key \<noteq> None then Inl ValueError
           else case cf_stages data of
                  None \<Rightarrow> Inl KeyError
                | Some st \<Rightarrow> Inr (models @ [(key, StageCostModel path key st None)]))"

definition sp1_key :: "cost_key \<Rightarrow> cost_key" where
  "sp1_key k = \<lparr>ck_tp = ck_tp k, ck_sp = 1, ck_ulysses = 1, ck_ring = ck_ring k, ck_cfg = ck_cfg k\<rparr>"

text \<open>The second loop assigns \<open>sp1_fallback\<close>; the siblings it reads are never assigned one.\<close>

definition wire_model :: "cost_store \<Rightarrow> cost_key \<times> stage_cost_model \<Rightarrow> cost_key \<times> stage_cost_model" where
  "wire_model models e =
     (case e of (key, m) \<Rightarrow>
        if ck_sp key = 1 \<and> ck_ulysses key = 1 then (key, m)
        else case map_of models (sp1_key key) of
               None \<Rightarrow> (key, m)
             | Some sp1 \<Rightarrow> (key, StageCostModel (scm_path m) (scm_key m) (scm_stages m) (Some sp1)))"

definition load_dir :: "(string \<times> cost_file) list \<Rightarrow> cost_store res" where
  "load_dir files =
     bind_res (for_res load_file [] (sort_key fst files)) (\<lambda>models.
       if models = [] then Inl ValueError else Inr (map (wire_model models) models))"

definition lookup_model :: "cost_store \<Rightarrow> cost_key \<Rightarrow> stage_cost_model res" where
  "lookup_model s k = dict_get (map_of s) k"

definition for_group :: "cost_store \<Rightarrow> group_spec \<Rightarrow> stage_cost_model res" where
  "for_group s g = lookup_model s (key_from_group g)"

definition for_parallel_spec :: "cost_store \<Rightarrow> parallel_spec \<Rightarrow> int option \<Rightarrow> int \<Rightarrow> stage_cost_model res" where
  "for_parallel_spec s p ulysses ring = lookup_model s (key_from_parallel_spec p ulysses ring)"

definition available_sp_sizes :: "cost_store \<Rightarrow> int \<Rightarrow> int \<Rightarrow> int \<Rightarrow> int list" where
  "available_sp_sizes s tp cfg ring =
     sorted_list_of_set (ck_sp ` {k \<in> set (map fst s). ck_tp k = tp \<and> ck_cfg k = cfg \<and> ck_ring k = ring})"

section \<open>Lemmas\<close>

lemma load_file_Inr:
  "load_file models (path, data) = Inr models' \<longleftrightarrow>
     map_of models (key_from_cost_model data) = None \<and>
     (\<exists>st. cf_stages data = Some st \<and>
       models' = models @ [(key_from_cost_model data, StageCostModel path (key_from_cost_model data) st None)])"
  by (auto simp: load_file_def Let_def split: option.splits)

text \<open>What the first loop has built: one model per file, under its own key, no fallback yet.\<close>

definition loaded :: "cost_store \<Rightarrow> bool" where
  "loaded models \<longleftrightarrow> distinct (map fst models)
     \<and> (\<forall>(k, m) \<in> set models. scm_key m = k \<and> scm_sp1_fallback m = None)"

lemma load_files:
  assumes "for_res load_file models files = Inr models'" and "loaded models"
  shows "loaded models' \<and> map fst models' = map fst models @ map (key_from_cost_model \<circ> snd) files
    \<and> (\<forall>(path, data) \<in> set files. \<exists>st. cf_stages data = Some st \<and>
         map_of models' (key_from_cost_model data) = Some (StageCostModel path (key_from_cost_model data) st None))
    \<and> (\<forall>k m. map_of models k = Some m \<longrightarrow> map_of models' k = Some m)"
  using assms
proof (induction files arbitrary: models)
  case Nil
  then show ?case by simp
next
  case (Cons f files)
  obtain path data where f: "f = (path, data)" by (cases f)
  let ?k = "key_from_cost_model data"
  from Cons.prems(1) obtain m1 where s: "load_file models f = Inr m1" "for_res load_file m1 files = Inr models'"
    by (auto simp: bind_res_eq_Inr)
  then obtain st where st: "map_of models ?k = None" "cf_stages data = Some st"
      "m1 = models @ [(?k, StageCostModel path ?k st None)]"
    using f by (auto simp: load_file_Inr)
  have "?k \<notin> fst ` set models" using st(1) by (simp add: map_of_eq_None_iff)
  then have l1: "loaded m1" using Cons.prems(2) st(3) by (auto simp: loaded_def)
  have new: "map_of m1 ?k = Some (StageCostModel path ?k st None)" using st by (simp add: map_add_def)
  have old: "map_of m1 k = Some m" if "map_of models k = Some m" for k m
    using that st by (auto simp: map_add_def)
  note IH = Cons.IH [OF s(2) l1]
  have keys: "map fst models' = map fst models @ map (key_from_cost_model \<circ> snd) (f # files)"
    using IH st(3) f by simp
  have "\<exists>st. cf_stages d = Some st \<and>
      map_of models' (key_from_cost_model d) = Some (StageCostModel p (key_from_cost_model d) st None)"
    if "(p, d) \<in> set (f # files)" for p d
    using that IH new st(2) f by (cases "(p, d) = f") auto
  then show ?case using IH keys old by blast
qed

lemma map_of_wire: "map_of (map (wire_model ms) l) k = map_option (\<lambda>m. snd (wire_model ms (k, m))) (map_of l k)"
  by (induction l) (auto simp: wire_model_def split: option.splits)

lemma map_fst_wire: "map fst (map (wire_model ms) l) = map fst l"
  by (induction l) (auto simp: wire_model_def split: option.splits prod.splits)

lemma loaded_Nil [simp]: "loaded []"
  by (simp add: loaded_def)

lemma load_files_ok:
  assumes "\<forall>f \<in> set files. cf_stages (snd f) \<noteq> None"
    and "distinct (map (key_from_cost_model \<circ> snd) files)"
    and "\<forall>f \<in> set files. map_of models (key_from_cost_model (snd f)) = None"
  shows "\<exists>models'. for_res load_file models files = Inr models'"
  using assms
proof (induction files arbitrary: models)
  case Nil
  then show ?case by simp
next
  case (Cons f files)
  obtain path data where f: "f = (path, data)" by (cases f)
  let ?k = "key_from_cost_model data"
  from Cons.prems(1) f obtain st where st: "cf_stages data = Some st" by auto
  let ?m1 = "models @ [(?k, StageCostModel path ?k st None)]"
  have s: "load_file models f = Inr ?m1" using Cons.prems(3) st f by (simp add: load_file_Inr)
  have "map_of ?m1 (key_from_cost_model (snd g)) = None" if "g \<in> set files" for g
    using Cons.prems(2,3) that f by (force simp: map_add_def)
  then show ?case using Cons.IH [of ?m1] Cons.prems s by auto
qed

lemma distinct_map_sort_key: "distinct (map f (sort_key k xs)) \<longleftrightarrow> distinct (map f xs)"
  by (intro mset_eq_imp_distinct_iff) simp

lemma load_dirD:
  assumes "load_dir files = Inr s"
  obtains models where "for_res load_file [] (sort_key fst files) = Inr models" "models \<noteq> []"
    "s = map (wire_model models) models" "loaded models"
proof -
  from assms obtain models where m: "for_res load_file [] (sort_key fst files) = Inr models" "models \<noteq> []"
      "s = map (wire_model models) models"
    by (auto simp: load_dir_def bind_res_eq_Inr split: if_splits)
  moreover have "loaded models" using load_files [OF m(1) loaded_Nil] by blast
  ultimately show thesis using that by blast
qed

text \<open>
  A directory of cost models loads exactly when it has a file, every file has its stages, and
  no two files declare the same degrees of parallelism; otherwise loading raises.
\<close>

theorem load_dir_succeeds_iff:
  "(\<exists>s. load_dir files = Inr s) \<longleftrightarrow>
     files \<noteq> [] \<and> (\<forall>f \<in> set files. cf_stages (snd f) \<noteq> None)
     \<and> distinct (map (key_from_cost_model \<circ> snd) files)"
proof
  assume "\<exists>s. load_dir files = Inr s"
  then obtain models where m: "for_res load_file [] (sort_key fst files) = Inr models" "models \<noteq> []"
    using load_dirD by blast
  note lf = load_files [OF m(1) loaded_Nil]
  have l: "loaded models" "map fst models = map (key_from_cost_model \<circ> snd) (sort_key fst files)" using lf by simp_all
  have st: "cf_stages (snd f) \<noteq> None" if "f \<in> set files" for f using lf that by fastforce
  have "distinct (map (key_from_cost_model \<circ> snd) files)"
    using l(1,2) distinct_map_sort_key by (metis loaded_def)
  moreover have "files \<noteq> []" using m l(2) by auto
  ultimately show "files \<noteq> [] \<and> (\<forall>f \<in> set files. cf_stages (snd f) \<noteq> None)
      \<and> distinct (map (key_from_cost_model \<circ> snd) files)" using st by blast
next
  assume a: "files \<noteq> [] \<and> (\<forall>f \<in> set files. cf_stages (snd f) \<noteq> None)
      \<and> distinct (map (key_from_cost_model \<circ> snd) files)"
  have "\<exists>models. for_res load_file [] (sort_key fst files) = Inr models"
    by (rule load_files_ok) (use a distinct_map_sort_key in auto)
  then obtain models where m: "for_res load_file [] (sort_key fst files) = Inr models" ..
  from load_files [OF m] have "map fst models = map (key_from_cost_model \<circ> snd) (sort_key fst files)"
    by (simp add: loaded_def)
  then have "models \<noteq> []" using a by (metis length_0_conv length_map length_sort list.size(3))
  then show "\<exists>s. load_dir files = Inr s" using m by (simp add: load_dir_def)
qed

lemma cost_store_fallback:
  assumes "load_dir files = Inr s" and "map_of s k = Some m"
  shows "scm_key m = k" "distinct (map fst s)"
    "scm_sp1_fallback m = (if ck_sp k = 1 \<and> ck_ulysses k = 1 then None else map_of s (sp1_key k))"
    "scm_sp1_fallback m = Some p \<Longrightarrow> scm_sp1_fallback p = None"
proof -
  obtain models where s: "s = map (wire_model models) models" and l: "loaded models"
    using load_dirD [OF assms(1)] by blast
  obtain m0 where m0: "map_of models k = Some m0" and m: "m = snd (wire_model models (k, m0))"
    using assms(2) unfolding s map_of_wire by auto
  have flat: "scm_key m' = j \<and> scm_sp1_fallback m' = None" if "map_of models j = Some m'" for j m'
    using l map_of_SomeD [OF that] by (auto simp: loaded_def)
  have sib: "map_of s (sp1_key k) = map_of models (sp1_key k)"
    unfolding s map_of_wire by (cases "map_of models (sp1_key k)") (auto simp: wire_model_def sp1_key_def)
  show "distinct (map fst s)" using l unfolding s map_fst_wire by (simp add: loaded_def)
  show "scm_key m = k" using flat [OF m0] m by (auto simp: wire_model_def split: option.splits)
  show fb: "scm_sp1_fallback m = (if ck_sp k = 1 \<and> ck_ulysses k = 1 then None else map_of s (sp1_key k))"
    using flat [OF m0] m unfolding sib by (auto simp: wire_model_def split: option.splits)
  show "scm_sp1_fallback m = Some p \<Longrightarrow> scm_sp1_fallback p = None"
    using flat [of "sp1_key k" p] unfolding fb sib by (simp split: if_splits)
qed

text \<open>
  In a loaded store every model sits under its own key, and its fallback is the model of the
  same tp, ring and cfg degrees with sp and ulysses one, present exactly when the store has it and
  the model is not that sibling itself; fallbacks never chain.
\<close>

theorem cost_store_wiring:
  assumes "load_dir files = Inr s" and "map_of s k = Some m"
  shows "scm_key m = k \<and> distinct (map fst s)
    \<and> scm_sp1_fallback m =
        (if ck_sp k = 1 \<and> ck_ulysses k = 1 then None else map_of s (sp1_key k))
    \<and> (\<forall>p. scm_sp1_fallback m = Some p \<longrightarrow> scm_sp1_fallback p = None)"
  using cost_store_fallback [OF assms] by blast

text \<open>
  A stage without a parallel implementation that a parallel cost model does not list is priced
  by the single-rank model of the same store, with the same result and the same errors.
\<close>

theorem aux_stage_priced_at_sp1:
  assumes "load_dir files = Inr s" and "map_of s k = Some m" and "map_of s (sp1_key k) = Some p"
    and "stage \<in> set NON_PARALLEL_STAGES" and "\<not> has_stage (scm_stages m) stage"
  shows "estimate_ms m stage x = estimate_ms p stage x"
proof (cases "ck_sp k = 1 \<and> ck_ulysses k = 1")
  case True
  then have "sp1_key k = k" by (simp add: sp1_key_def)
  then show ?thesis using assms(2,3) by simp
next
  case False
  then have fb: "scm_sp1_fallback m = Some p" using cost_store_fallback [OF assms(1,2)] assms(3) by simp
  have "resolve_stage m stage = resolve_stage p stage"
    using assms(4,5) fb by (cases m) (auto simp: NON_PARALLEL_STAGES_def)
  then show ?thesis by (simp add: estimate_ms_def)
qed

text \<open>
  A denoising chunk without classifier-free guidance that has no entry of its own costs exactly
  half of the chunk with guidance, and is unpriced exactly when that one is.
\<close>

theorem nocfg_chunk_is_half:
  assumes "\<not> has_stage (scm_stages m) ''dit_step_chunk_nocfg''"
  shows "estimate_ms m ''dit_step_chunk_nocfg'' x =
    map_sum id (\<lambda>t. t / 2) (estimate_ms m ''dit_step_chunk_cfg'' x)"
proof -
  obtain path key stages fb where m: "m = StageCostModel path key stages fb" by (cases m)
  let ?pick = "\<lambda>s q. bind_res (dict_get (map_of stages) s) (\<lambda>e. case se_coeffs e of
      None \<Rightarrow> Inl KeyError
    | Some cs \<Rightarrow> Inr (max 0 ((get_or cs ''a'' 0 * x * x + get_or cs ''b'' 0 * x + get_or cs ''c'' 0) * q)))"
  have half: "?pick s (1 / 2) = map_sum id (\<lambda>t. t / 2) (?pick s (1 :: rat))" for s
    by (cases "map_of stages s") (auto simp: dict_get_def max_def zero_le_mult_iff split: option.splits)
  have res: "estimate_ms m ''dit_step_chunk_nocfg'' x = (if has_stage stages ''dit_step_chunk_cfg'' then ?pick ''dit_step_chunk_cfg'' (1 / 2)
      else if has_stage stages ''dit_step_chunk'' then ?pick ''dit_step_chunk'' (1 / 2) else Inl KeyError)"
    using assms unfolding m estimate_ms_def resolve_stage.simps Let_def by (simp add: NON_PARALLEL_STAGES_def)
  have res': "estimate_ms m ''dit_step_chunk_cfg'' x = (if has_stage stages ''dit_step_chunk_cfg'' then ?pick ''dit_step_chunk_cfg'' 1
      else if has_stage stages ''dit_step_chunk'' then ?pick ''dit_step_chunk'' 1 else Inl KeyError)"
    unfolding m estimate_ms_def resolve_stage.simps Let_def by (simp add: NON_PARALLEL_STAGES_def)
  show ?thesis unfolding res res' using half by simp
qed

subsection \<open>A concrete directory\<close>

definition ex_cost_entry :: "rat \<Rightarrow> stage_entry" where
  "ex_cost_entry c = \<lparr>se_coeffs = Some [(''b'', 2), (''c'', c)], se_x_name = None\<rparr>"

definition ex_cost_files :: "(string \<times> cost_file) list" where
  "ex_cost_files =
     [(''sp2.json'', \<lparr>cf_parallelism = Some [(''sp'', 2)], cf_stages = Some [(''dit_step_chunk'', ex_cost_entry 10)]\<rparr>),
      (''sp1.json'', \<lparr>cf_parallelism = None,
         cf_stages = Some [(''dit_step_chunk'', ex_cost_entry 20), (''vae_decode'', ex_cost_entry 7)]\<rparr>)]"

definition ex_key :: "int \<Rightarrow> cost_key" where
  "ex_key sp = \<lparr>ck_tp = 1, ck_sp = sp, ck_ulysses = sp, ck_ring = 1, ck_cfg = 1\<rparr>"

definition ex_sp1_model :: stage_cost_model where
  "ex_sp1_model = StageCostModel ''sp1.json'' (ex_key 1)
     [(''dit_step_chunk'', ex_cost_entry 20), (''vae_decode'', ex_cost_entry 7)] None"

definition ex_sp2_model :: stage_cost_model where
  "ex_sp2_model = StageCostModel ''sp2.json'' (ex_key 2) [(''dit_step_chunk'', ex_cost_entry 10)] (Some ex_sp1_model)"

lemma ex_load: "load_dir ex_cost_files = Inr [(ex_key 1, ex_sp1_model), (ex_key 2, ex_sp2_model)]"
  by code_simp

theorem load_dir_succeeds_iff_witness:
  "(\<exists>s. load_dir ex_cost_files = Inr s) \<and> \<not> (\<exists>s. load_dir (ex_cost_files @ ex_cost_files) = Inr s)"
  unfolding load_dir_succeeds_iff by (simp add: ex_cost_files_def key_from_cost_model_def get_or_def)

theorem cost_store_wiring_witness:
  "scm_sp1_fallback ex_sp2_model = Some ex_sp1_model \<and> scm_sp1_fallback ex_sp1_model = None"
  using cost_store_wiring [OF ex_load, of "ex_key 2" ex_sp2_model]
  by (simp add: ex_key_def sp1_key_def)

theorem aux_stage_priced_at_sp1_witness:
  "estimate_ms ex_sp2_model ''vae_decode'' 3 = Inr 13"
proof -
  have "estimate_ms ex_sp2_model ''vae_decode'' 3 = estimate_ms ex_sp1_model ''vae_decode'' 3"
    by (rule aux_stage_priced_at_sp1 [OF ex_load, of "ex_key 2"])
      (simp_all add: ex_key_def sp1_key_def NON_PARALLEL_STAGES_def has_stage_def ex_sp2_model_def)
  also have "\<dots> = Inr 13" by code_simp
  finally show ?thesis .
qed

theorem nocfg_chunk_is_half_witness:
  "estimate_ms ex_sp1_model ''dit_step_chunk_nocfg'' 3 = Inr 13"
proof -
  have "\<not> has_stage (scm_stages ex_sp1_model) ''dit_step_chunk_nocfg''"
    by (simp add: has_stage_def ex_sp1_model_def)
  from nocfg_chunk_is_half [OF this, of 3] show ?thesis
    by (simp add: estimate_ms_def ex_sp1_model_def has_stage_def ex_cost_entry_def get_or_def dict_get_def)
qed

end
