(* ===== verification/PolicyCommon.thy ===== *)
theory PolicyCommon
  imports Topology
begin

text \<open>
  Shared helpers of the scheduler policies (\<open>runtime_v2/policies/common.py\<close>). Times and costs are
  exact rationals with an explicit infinity; the task runtime estimator of the policies is a
  parameter, which may also raise.
\<close>

section \<open>Floats with infinity\<close>

datatype xrat = Fin rat | Infty

instantiation xrat :: linorder
begin

fun less_eq_xrat :: "xrat \<Rightarrow> xrat \<Rightarrow> bool" where
  "less_eq_xrat (Fin a) (Fin b) = (a \<le> b)"
| "less_eq_xrat _ Infty = True"
| "less_eq_xrat Infty (Fin _) = False"

definition less_xrat :: "xrat \<Rightarrow> xrat \<Rightarrow> bool" where
  "less_xrat a b = (a \<le> b \<and> \<not> b \<le> a)"

instance
proof
  fix x y z :: xrat
  show "(x < y) = (x \<le> y \<and> \<not> y \<le> x)" by (simp add: less_xrat_def)
  show "x \<le> x" by (cases x) simp_all
  show "x \<le> y \<Longrightarrow> y \<le> z \<Longrightarrow> x \<le> z" by (cases x; cases y; cases z) simp_all
  show "x \<le> y \<Longrightarrow> y \<le> x \<Longrightarrow> x = y" by (cases x; cases y) simp_all
  show "x \<le> y \<or> y \<le> x" by (cases x; cases y) auto
qed

end

lemma xrat_less_simps [simp]:
  "Fin a < Fin b \<longleftrightarrow> a < b" "Fin a < Infty" "\<not> Infty < x"
  by (auto simp: less_xrat_def)

section \<open>The estimator\<close>

type_synonym estimator = "parallel_spec \<Rightarrow> int \<Rightarrow> string \<Rightarrow> xrat res"

text \<open>\<open>min(xs, key=f)\<close>: the first of the minimal elements.\<close>

fun min_by :: "('a \<Rightarrow> 'b :: linorder) \<Rightarrow> 'a \<Rightarrow> 'a list \<Rightarrow> 'a" where
  "min_by f x [] = x"
| "min_by f x (y # ys) = (if f y < f x then min_by f y ys else min_by f x ys)"

lemma min_by_spec: "min_by f x xs \<in> set (x # xs) \<and> (\<forall>y \<in> set (x # xs). f (min_by f x xs) \<le> f y)"
proof (induction f x xs rule: min_by.induct)
  case (2 f x y ys)
  show ?case
  proof (cases "f y < f x")
    case True
    then show ?thesis using 2(1) [OF True] by (auto intro: order_trans)
  next
    case False
    then show ?thesis using 2(2) [OF False] by (auto intro: order_trans)
  qed
qed simp

section \<open>Reading a task\<close>

definition seq_len_keys :: "string list" where
  "seq_len_keys = [''seqlen'', ''seq_len'', ''sequence_length'', ''max_sequence_length'']"

definition stage_keys :: "string list" where
  "stage_keys = [''cost_model_stage'', ''request_stage'', ''req_stage'', ''stage'']"

text \<open>\<open>isinstance(value, int) and value > 0\<close>; a Python bool is an int.\<close>

definition positive_int :: "pyval option \<Rightarrow> int option" where
  "positive_int v =
     (case v of Some (PyInt i) \<Rightarrow> if 0 < i then Some i else None
              | Some (PyBool True) \<Rightarrow> Some 1
              | _ \<Rightarrow> None)"

fun first_Some :: "'a option list \<Rightarrow> 'a option" where
  "first_Some [] = None"
| "first_Some (None # xs) = first_Some xs"
| "first_Some (Some x # xs) = Some x"

definition resolve_seq_len :: "task \<Rightarrow> plan \<Rightarrow> int" where
  "resolve_seq_len t p =
     (case first_Some (map (\<lambda>k. positive_int (map_of (t_payload t) k)) seq_len_keys
                     @ map (\<lambda>k. positive_int (map_of (p_metadata p) k)) seq_len_keys) of
        Some v \<Rightarrow> v
      | None \<Rightarrow> (case t_step_range t of Some r \<Rightarrow> sr_end r - sr_start r | None \<Rightarrow> 1))"

definition nonempty_str :: "pyval option \<Rightarrow> string option" where
  "nonempty_str v = (case v of Some (PyStr s) \<Rightarrow> if s = [] then None else Some s | _ \<Rightarrow> None)"

definition resolve_request_stage :: "task \<Rightarrow> string" where
  "resolve_request_stage t =
     (case first_Some (map (\<lambda>k. nonempty_str (map_of (t_payload t) k)) stage_keys) of
        Some s \<Rightarrow> s | None \<Rightarrow> task_kind_value (t_kind t))"

section \<open>Groups for a plan\<close>

text \<open>The arguments are the tasks of the plan; their \<open>group_id\<close> may have been assigned meanwhile.\<close>

definition resolve_explicit_request_group :: "task list \<Rightarrow> string option res" where
  "resolve_explicit_request_group ts =
     (case remdups (map the (filter (\<lambda>g. g \<noteq> None) (map t_group_id ts))) of
        [] \<Rightarrow> Inr None
      | [g] \<Rightarrow> Inr (Some g)
      | _ \<Rightarrow> Inl ValueError)"

definition candidate_groups_for_plan :: "topology \<Rightarrow> task list \<Rightarrow> string list" where
  "candidate_groups_for_plan T ts =
     map g_id (filter (\<lambda>g. \<forall>t \<in> set ts. t_kind t \<in> set (g_kinds g)) (tp_groups T))"

section \<open>The default runtime estimate\<close>

definition srtf_stage_base_cost :: "string \<Rightarrow> real" where
  "srtf_stage_base_cost s =
     (case map_of [(''text_encode'', 1), (''dit_prepare'', 0.2), (''timestep_prepare'', 0.05),
                   (''dit_step_chunk'', 1), (''dit_step_chunk_cfg'', 1), (''dit_step_chunk_nocfg'', 0.5),
                   (''vae_decode'', 0.3), (''finalize'', 0.01)] s of
        None \<Rightarrow> 1 | Some c \<Rightarrow> c)"

definition srtf_stage_workload_exponent :: "string \<Rightarrow> real" where
  "srtf_stage_workload_exponent s =
     (case map_of [(''text_encode'', 1.2), (''dit_prepare'', 1), (''dit_step_chunk'', 2),
                   (''dit_step_chunk_cfg'', 2), (''dit_step_chunk_nocfg'', 2), (''timestep_prepare'', 1),
                   (''vae_decode'', 1.3), (''finalize'', 1)] s of
        None \<Rightarrow> 1 | Some c \<Rightarrow> c)"

text \<open>\<open>str.lower\<close> on ASCII text.\<close>

definition str_lower :: "string \<Rightarrow> string" where
  "str_lower = map (\<lambda>c. let n = (of_char c :: nat) in if 65 \<le> n \<and> n \<le> 90 then char_of (n + 32) else c)"

definition effective_parallel :: "parallel_spec \<Rightarrow> int" where
  "effective_parallel p =
     (let e = max 1 (ps_tp p) * max 1 (ps_sp p)
      in if ps_cfg_parallel p then e * max 1 (ps_cfg p) else e)"

definition default_srtf_task_runtime_estimator :: "parallel_spec \<Rightarrow> int \<Rightarrow> string \<Rightarrow> real" where
  "default_srtf_task_runtime_estimator p seq_len stage =
     (let stage = str_lower stage
      in max (1 / 10 ^ 6)
           (srtf_stage_base_cost stage * (real_of_int (max 1 seq_len) powr srtf_stage_workload_exponent stage)
            / (real_of_int (effective_parallel p) powr 0.8)))"

section \<open>Lemmas\<close>

lemma resolve_explicit_Some:
  assumes "resolve_explicit_request_group ts = Inr (Some g)" and "t \<in> set ts"
  shows "t_group_id t = None \<or> t_group_id t = Some g"
proof -
  let ?l = "map the (filter (\<lambda>g. g \<noteq> None) (map t_group_id ts))"
  have "remdups ?l = [g]"
    using assms(1) by (auto simp: resolve_explicit_request_group_def split: list.splits)
  then have "set ?l = {g}" by (metis list.set(1,2) set_remdups)
  moreover have "the (t_group_id t) \<in> set ?l" if "t_group_id t \<noteq> None" using assms(2) that by simp
  ultimately show ?thesis by (cases "t_group_id t") auto
qed

lemma resolve_explicit_None:
  assumes "resolve_explicit_request_group ts = Inr None" and "t \<in> set ts"
  shows "t_group_id t = None"
proof -
  have "filter (\<lambda>g. g \<noteq> None) (map t_group_id ts) = []"
    using assms(1) by (auto simp: resolve_explicit_request_group_def split: list.splits)
  then show ?thesis using assms(2) by (auto simp: filter_empty_conv)
qed

lemma candidate_groups_support:
  assumes "topology_inv T" "gid \<in> set (candidate_groups_for_plan T ts)"
  shows "\<exists>g. get_group T gid = Inr g \<and> (\<forall>t \<in> set ts. t_kind t \<in> set (g_kinds g))"
  using assms get_group_known by (fastforce simp: candidate_groups_for_plan_def)

lemma effective_parallel_ge_1: "1 \<le> effective_parallel p"
proof -
  have "1 \<le> max 1 a * max 1 (b :: int)" for a b using mult_mono [of 1 "max 1 a" 1 "max 1 b"] by simp
  then show ?thesis using mult_mono [of 1 "max 1 (ps_tp p) * max 1 (ps_sp p)" 1 "max 1 (ps_cfg p)"]
    by (simp add: effective_parallel_def Let_def)
qed

lemma srtf_base_cost_pos: "0 < srtf_stage_base_cost s"
  by (simp add: srtf_stage_base_cost_def)

lemma srtf_exponent_pos: "0 < srtf_stage_workload_exponent s"
  by (simp add: srtf_stage_workload_exponent_def)

text \<open>
  The default estimate is positive, never smaller for a longer sequence, and never larger for a
  larger effective parallelism.
\<close>

theorem default_estimate_bounds:
  assumes "n \<le> m" and "effective_parallel p \<le> effective_parallel q"
  shows "1 / 10 ^ 6 \<le> default_srtf_task_runtime_estimator p n stage
    \<and> default_srtf_task_runtime_estimator p n stage \<le> default_srtf_task_runtime_estimator p m stage
    \<and> default_srtf_task_runtime_estimator q n stage \<le> default_srtf_task_runtime_estimator p n stage"
proof -
  let ?b = "srtf_stage_base_cost (str_lower stage)" and ?e = "srtf_stage_workload_exponent (str_lower stage)"
  have len: "real_of_int (max 1 n) powr ?e \<le> real_of_int (max 1 m) powr ?e"
    using srtf_exponent_pos [of "str_lower stage"] assms(1) by (intro powr_mono2) auto
  have par: "real_of_int (effective_parallel p) powr 0.8 \<le> real_of_int (effective_parallel q) powr 0.8"
    using effective_parallel_ge_1 [of p] assms(2) by (intro powr_mono2) auto
  have pos: "0 < real_of_int (effective_parallel p) powr 0.8" using effective_parallel_ge_1 [of p] by simp
  have num: "0 \<le> ?b * real_of_int (max 1 n) powr ?e" using srtf_base_cost_pos [of "str_lower stage"] by simp
  have le1: "?b * real_of_int (max 1 n) powr ?e / real_of_int (effective_parallel p) powr 0.8
      \<le> ?b * real_of_int (max 1 m) powr ?e / real_of_int (effective_parallel p) powr 0.8"
    using len pos srtf_base_cost_pos [of "str_lower stage"] by (intro divide_right_mono mult_left_mono) auto
  have le2: "?b * real_of_int (max 1 n) powr ?e / real_of_int (effective_parallel q) powr 0.8
      \<le> ?b * real_of_int (max 1 n) powr ?e / real_of_int (effective_parallel p) powr 0.8"
    by (rule frac_le [OF num order_refl pos par])
  show ?thesis
    unfolding default_srtf_task_runtime_estimator_def Let_def using le1 le2 by (auto intro: max.mono)
qed

theorem default_estimate_bounds_witness:
  "default_srtf_task_runtime_estimator \<lparr>ps_tp = 1, ps_sp = 4, ps_cfg = 1, ps_cfg_parallel = False\<rparr> 10 ''vae_decode''
   \<le> default_srtf_task_runtime_estimator \<lparr>ps_tp = 1, ps_sp = 2, ps_cfg = 1, ps_cfg_parallel = False\<rparr> 10 ''vae_decode''"
proof -
  have "effective_parallel \<lparr>ps_tp = 1, ps_sp = 2, ps_cfg = 1, ps_cfg_parallel = False\<rparr>
      \<le> effective_parallel \<lparr>ps_tp = 1, ps_sp = 4, ps_cfg = 1, ps_cfg_parallel = False\<rparr>"
    by (simp add: effective_parallel_def)
  from default_estimate_bounds [OF order_refl this] show ?thesis by blast
qed

end
