(* ===== verification/EdfGreedy.thy ===== *)
theory EdfGreedy
  imports DynamicStep PolicyCommon
begin

text \<open>
  Earliest-deadline-first ordering with greedy placement on free ranks
  (\<open>runtime_v2/policies/edf_greedy.py\<close>). The policy extends the rank-aware one: it inherits the
  rank counters and the migration holds and replaces the queues by one queue per request. The
  builtin \<open>float\<close> on strings, the runtime estimator and the monotonic clock are arguments. The
  attribute \<open>_task_index\<close>, which is written and never read, is left out.
\<close>

section \<open>State\<close>

record edf_meta =
  em_deadline_ms :: xrat
  em_priority :: int
  em_arrival_ms :: rat
  em_order :: int

record edf = dynamic_step +
  ed_ready_by_request :: "(string \<times> string list) list"
  ed_request_meta :: "string \<Rightarrow> edf_meta option"
  ed_plans :: "string \<Rightarrow> plan option"
  ed_request_inflight :: "string counter"
  ed_request_last_group :: "string \<Rightarrow> string option"
  ed_request_seq :: int
  ed_now_ms :: rat
  ed_allowed_sp_sizes :: "int list"

definition SINGLE_RANK_TASK_KINDS :: "task_kind list" where
  "SINGLE_RANK_TASK_KINDS = [TEXT_ENCODE, VAE_DECODE, FINALIZE]"

definition DIT_TASK_KINDS :: "task_kind list" where
  "DIT_TASK_KINDS = [DIT_PREPARE, TIMESTEP_PREPARE, DIT_STEP_CHUNK]"

definition EDF_STANDARD_TASK_KINDS :: "task_kind list" where
  "EDF_STANDARD_TASK_KINDS = SINGLE_RANK_TASK_KINDS @ DIT_TASK_KINDS"

text \<open>The powers of two up to \<open>max_size\<close>, starting from \<open>n\<close>.\<close>

function doublings :: "nat \<Rightarrow> nat \<Rightarrow> nat list" where
  "doublings n max_size = (if 0 < n \<and> n \<le> max_size then n # doublings (n * 2) max_size else [])"
  by pat_completeness auto
termination by (relation "measure (\<lambda>(s, m). m + 1 - s)") auto

declare doublings.simps [simp del]

definition normalize_allowed_sp_sizes :: "topology \<Rightarrow> int list option \<Rightarrow> int list res" where
  "normalize_allowed_sp_sizes T allowed =
     (let max_size = max 1 (length (tp_workers T));
          sizes = (case allowed of
                     None \<Rightarrow> set (1 # map int (doublings 2 max_size) @ [int max_size])
                   | Some l \<Rightarrow> set (1 # l));
          valid = rev (sorted_list_of_set {s \<in> sizes. 1 \<le> s \<and> s \<le> int max_size})
      in if valid = [] then Inl ValueError else Inr valid)"

definition edf_init :: "topology \<Rightarrow> int list option \<Rightarrow> edf res" where
  "edf_init T allowed =
     bind_res (normalize_allowed_sp_sizes T allowed) (\<lambda>sizes.
       Inr (dynamic_step.extend (dynamic_step_init T None None)
         \<lparr>ed_ready_by_request = [], ed_request_meta = (\<lambda>_. None), ed_plans = (\<lambda>_. None),
          ed_request_inflight = (\<lambda>_. None), ed_request_last_group = (\<lambda>_. None), ed_request_seq = 0,
          ed_now_ms = 0, ed_allowed_sp_sizes = sizes\<rparr>))"

section \<open>Request metadata\<close>

text \<open>\<open>float(raw)\<close>; \<open>fstr\<close> is the builtin on strings, \<open>None\<close> where it raises.\<close>

fun py_float :: "(string \<Rightarrow> rat option) \<Rightarrow> pyval \<Rightarrow> rat option" where
  "py_float fstr (PyInt i) = Some (of_int i)"
| "py_float fstr (PyFloat q) = Some q"
| "py_float fstr (PyBool b) = Some (if b then 1 else 0)"
| "py_float fstr (PyStr s) = fstr s"
| "py_float fstr _ = None"

text \<open>An object with attributes is a dictionary of them.\<close>

definition py_attr :: "pyval option \<Rightarrow> string \<Rightarrow> pyval option" where
  "py_attr v name = (case v of Some (PyDict d) \<Rightarrow> map_of d name | _ \<Rightarrow> None)"

definition metadata_values :: "pyval option \<Rightarrow> string list \<Rightarrow> pyval list" where
  "metadata_values v names =
     map the (filter (\<lambda>x. x \<noteq> None) (map (py_attr v) names))
     @ map the (filter (\<lambda>x. x \<noteq> None) (map (py_attr (py_attr (py_attr v ''sampling_params'') ''extra_args'')) names))"

definition metadata_number :: "(string \<Rightarrow> rat option) \<Rightarrow> pyval option \<Rightarrow> string list \<Rightarrow> xrat \<Rightarrow> xrat" where
  "metadata_number fstr v names dflt =
     (case first_Some (map (py_float fstr) (filter (\<lambda>x. x \<noteq> PyNone) (metadata_values v names))) of
        Some q \<Rightarrow> Fin q
      | None \<Rightarrow> dflt)"

text \<open>\<open>int(x)\<close> of a finite float truncates toward zero.\<close>

definition trunc :: "rat \<Rightarrow> int" where
  "trunc q = (if 0 \<le> q then \<lfloor>q\<rfloor> else \<lceil>q\<rceil>)"

definition fin_of :: "xrat \<Rightarrow> rat" where
  "fin_of x = (case x of Fin q \<Rightarrow> q | Infty \<Rightarrow> 0)"

definition initial_value :: "plan \<Rightarrow> pyval option" where
  "initial_value p =
     (case p_initial p of
        [] \<Rightarrow> None
      | a # _ \<Rightarrow> (case av_value a of HostVal v \<Rightarrow> Some v | RefVal _ \<Rightarrow> None))"

definition plan_priority :: "plan \<Rightarrow> int" where
  "plan_priority p = (if p_tasks p = [] then 0 else Max (set (map (\<lambda>(k, t). t_priority t) (p_tasks p))))"

text \<open>
  \<open>_meta_from_plan\<close>: the clock reading also moves \<open>now_ms\<close>. Numbers found in the metadata are
  finite, so priority and arrival are finite too.
\<close>

definition meta_from_plan ::
  "(string \<Rightarrow> rat option) \<Rightarrow> int \<Rightarrow> plan \<Rightarrow> int \<Rightarrow> rat \<Rightarrow> edf_meta \<times> rat" where
  "meta_from_plan fstr clock_ns p order now =
     (let v = initial_value p;
          priority = trunc (fin_of (metadata_number fstr v [''runtime_v2_priority'', ''priority''] (Fin (of_int (plan_priority p)))));
          arrival = fin_of (metadata_number fstr v [''runtime_v2_arrival_ms'', ''arrival_ms''] (Fin 0));
          raw_deadline = metadata_number fstr v [''runtime_v2_deadline_ms'', ''deadline_ms''] Infty;
          submit = of_int clock_ns / 1000000;
          deadline = (case raw_deadline of Fin d \<Rightarrow> Fin (submit + (d - arrival)) | Infty \<Rightarrow> Infty)
      in (\<lparr>em_deadline_ms = deadline, em_priority = priority, em_arrival_ms = arrival, em_order = order\<rparr>,
          max now submit))"

definition request_sort_key :: "'a edf_scheme \<Rightarrow> string \<Rightarrow> xrat \<times> int \<times> rat \<times> int \<times> string" where
  "request_sort_key st rid =
     (case ed_request_meta st rid of
        None \<Rightarrow> (Infty, 0, 0, 0, rid)
      | Some m \<Rightarrow> (em_deadline_ms m, - em_priority m, em_arrival_ms m, em_order m, rid))"

section \<open>Groups on demand\<close>

definition free_rank_set :: "'a dynamic_step_scheme \<Rightarrow> int set" where
  "free_rank_set st =
     {r \<in> set (map w_rank (tp_workers (dg_topology st))).
        cget (dy_outstanding_per_rank st) r = 0 \<and> cget (dy_reshard_holds_by_rank st) r = 0}"

definition find_existing_group :: "topology \<Rightarrow> int list \<Rightarrow> task_kind list \<Rightarrow> group_spec option" where
  "find_existing_group T ranks kinds =
     find (\<lambda>g. g_ranks g = ranks \<and> ps_tp (g_parallel g) = 1 \<and> ps_cfg (g_parallel g) = 1
             \<and> ps_sp (g_parallel g) = int (length ranks) \<and> set kinds \<subseteq> set (g_kinds g)) (tp_groups T)"

definition str_int :: "int \<Rightarrow> string" where
  "str_int i = (if 0 \<le> i then str_nat (nat i) else ''-'' @ str_nat (nat (- i)))"

fun join_ranks :: "int list \<Rightarrow> string" where
  "join_ranks [] = []"
| "join_ranks [r] = str_int r"
| "join_ranks (r # rs) = str_int r @ ''_'' @ join_ranks rs"

definition edf_group_id :: "int list \<Rightarrow> string" where
  "edf_group_id ranks = ''edf_sp'' @ str_nat (length ranks) @ ''_r'' @ join_ranks ranks"

definition ensure_group_for_ranks :: "topology \<Rightarrow> int list \<Rightarrow> task_kind list \<Rightarrow> (topology \<times> group_spec) res" where
  "ensure_group_for_ranks T ranks kinds =
     (case find_existing_group T ranks kinds of
        Some g \<Rightarrow> Inr (T, g)
      | None \<Rightarrow>
          bind_res (mk_parallel_spec 1 (int (length ranks)) 1 False) (\<lambda>par.
          bind_res (mk_group_spec (edf_group_id ranks) ranks par kinds (int (length ranks)) 1) (\<lambda>g.
            ensure_group T g)))"

section \<open>Placement\<close>

definition pick_ranks_for_request :: "'a edf_scheme \<Rightarrow> string \<Rightarrow> int \<Rightarrow> int set \<Rightarrow> int list" where
  "pick_ranks_for_request st rid sp free_ranks =
     (let last_ranks =
        (case ed_request_last_group st rid of
           None \<Rightarrow> None
         | Some gid \<Rightarrow> (case get_group (dg_topology st) gid of Inr g \<Rightarrow> Some (g_ranks g) | Inl _ \<Rightarrow> Some []))
      in case last_ranks of
           Some rs \<Rightarrow>
             if int (length rs) = sp \<and> set rs \<subseteq> free_ranks then rs
             else take (nat sp) (sorted_list_of_set free_ranks)
         | None \<Rightarrow> take (nat sp) (sorted_list_of_set free_ranks))"

text \<open>The loop over the free ranks; the topology may grow.\<close>

fun single_rank_loop :: "'a edf_scheme \<Rightarrow> task \<Rightarrow> int list \<Rightarrow> ('a edf_scheme \<times> (string \<times> int list) option) res" where
  "single_rank_loop st t [] = Inr (st, None)"
| "single_rank_loop st t (r # rs) =
     bind_res (ensure_group_for_ranks (dg_topology st) [r] EDF_STANDARD_TASK_KINDS) (\<lambda>(T, g).
       let st' = st\<lparr>dg_topology := T\<rparr>
       in if t_kind t \<notin> set (g_kinds g) then single_rank_loop st' t rs
          else Inr (st', Some (g_id g, [r])))"

definition select_single_rank_group ::
  "'a edf_scheme \<Rightarrow> task \<Rightarrow> int set \<Rightarrow> ('a edf_scheme \<times> (string \<times> int list) option) res" where
  "select_single_rank_group st t free_ranks = single_rank_loop st t (sorted_list_of_set free_ranks)"

text \<open>\<open>_cost\<close>: an estimate of zero means that the cost model has no entry.\<close>

definition sp_cost :: "estimator \<Rightarrow> int \<Rightarrow> string \<Rightarrow> int \<Rightarrow> (xrat \<times> int) res" where
  "sp_cost est seq_len stage sp =
     bind_res (mk_parallel_spec 1 sp 1 False) (\<lambda>spec.
     bind_res (est spec seq_len stage) (\<lambda>c.
       Inr (if Fin 0 < c then c else Infty, sp)))"

definition candidates_order ::
  "'a edf_scheme \<Rightarrow> estimator option \<Rightarrow> task \<Rightarrow> int list \<Rightarrow> int list res" where
  "candidates_order st est t fitting =
     (case (est, ed_plans st (t_request_id t)) of
        (Some e, Some p) \<Rightarrow>
          bind_res (map_res (sp_cost e (resolve_seq_len t p) (resolve_request_stage t)) fitting) (\<lambda>costs.
            Inr (map snd (sort_key fst (zip costs fitting))))
      | _ \<Rightarrow> Inr (rev (sort fitting)))"

fun dit_group_loop ::
  "'a edf_scheme \<Rightarrow> task \<Rightarrow> int set \<Rightarrow> int list \<Rightarrow> ('a edf_scheme \<times> (string \<times> int list) option) res" where
  "dit_group_loop st t free_ranks [] = Inr (st, None)"
| "dit_group_loop st t free_ranks (sp # sps) =
     (let ranks = pick_ranks_for_request st (t_request_id t) sp free_ranks
      in bind_res (ensure_group_for_ranks (dg_topology st) ranks DIT_TASK_KINDS) (\<lambda>(T, g).
           let st' = st\<lparr>dg_topology := T\<rparr>
           in if t_kind t \<in> set (g_kinds g) then Inr (st', Some (g_id g, ranks))
              else dit_group_loop st' t free_ranks sps))"

definition select_dit_group ::
  "'a edf_scheme \<Rightarrow> estimator option \<Rightarrow> task \<Rightarrow> int set \<Rightarrow> ('a edf_scheme \<times> (string \<times> int list) option) res" where
  "select_dit_group st est t free_ranks =
     (if free_ranks = {} then Inr (st, None)
      else
        let fitting = filter (\<lambda>s. s \<le> int (card free_ranks)) (ed_allowed_sp_sizes st)
        in if fitting = [] then Inr (st, None)
           else bind_res (candidates_order st est t fitting) (dit_group_loop st t free_ranks))"

definition select_placement ::
  "'a edf_scheme \<Rightarrow> estimator option \<Rightarrow> task \<Rightarrow> int set \<Rightarrow> ('a edf_scheme \<times> (string \<times> int list) option) res" where
  "select_placement st est t free_ranks =
     (case t_group_id t of
        Some gid \<Rightarrow>
          bind_res (get_group (dg_topology st) gid) (\<lambda>g.
            if t_kind t \<in> set SINGLE_RANK_TASK_KINDS \<and> length (g_ranks g) \<noteq> 1 then Inl ValueError
            else if set (g_ranks g) \<subseteq> free_ranks then Inr (st, Some (g_id g, g_ranks g))
            else Inr (st, None))
      | None \<Rightarrow>
          if t_kind t \<in> set SINGLE_RANK_TASK_KINDS then select_single_rank_group st t free_ranks
          else if t_kind t \<in> set DIT_TASK_KINDS then select_dit_group st est t free_ranks
          else Inl ValueError)"

section \<open>Dispatch and release\<close>

definition queue_for :: "'a edf_scheme \<Rightarrow> string \<Rightarrow> string list option" where
  "queue_for st rid = map_of (ed_ready_by_request st) rid"

definition edf_dispatch_task ::
  "string \<Rightarrow> string \<Rightarrow> string \<Rightarrow> int list \<Rightarrow> heap \<times> 'a edf_scheme \<Rightarrow> (heap \<times> 'a edf_scheme) res" where
  "edf_dispatch_task tk rid gid ranks s =
     (case s of (h, st) \<Rightarrow>
        bind_res (dict_get (map_of (ed_ready_by_request st)) rid) (\<lambda>queue.
        case queue of
          [] \<Rightarrow> Inr (h, st)
        | tk' # q \<Rightarrow>
            if tk' \<noteq> tk then Inr (h, st)
            else
              let ready = (if q = [] then dict_pop (ed_ready_by_request st) rid
                           else dict_set (ed_ready_by_request st) rid q)
              in Inr (h(tk := (h tk)\<lparr>t_group_id := Some gid, t_status := DISPATCHED\<rparr>),
                      (begin_task_by_rank tk gid ranks (st\<lparr>ed_ready_by_request := ready\<rparr>))
                        \<lparr>ed_request_inflight := cinc (ed_request_inflight st) rid\<rparr>)))"

text \<open>The heads of the queues of the requests that have no task in flight.\<close>

definition ready_heads :: "'a edf_scheme \<Rightarrow> (string \<times> string) list" where
  "ready_heads st =
     map (\<lambda>(rid, q). (rid, hd q))
       (filter (\<lambda>(rid, q). q \<noteq> [] \<and> cget (ed_request_inflight st) rid = 0) (ed_ready_by_request st))"

definition edf_order :: "'a edf_scheme \<Rightarrow> (string \<times> string) list" where
  "edf_order st = sort_key (\<lambda>(rid, tk). request_sort_key st rid) (ready_heads st)"

text \<open>The dispatch loop: placements in order, the free ranks shrinking.\<close>

fun edf_place ::
  "estimator option \<Rightarrow> (string \<times> string) list \<Rightarrow> int set \<Rightarrow> heap \<times> 'a edf_scheme
   \<Rightarrow> ((heap \<times> 'a edf_scheme) \<times> string list) res" where
  "edf_place est [] free_ranks s = Inr (s, [])"
| "edf_place est ((rid, tk) # ready) free_ranks (h, st) =
     bind_res (select_placement st est (h tk) free_ranks) (\<lambda>(st1, placement).
       case placement of
         None \<Rightarrow> edf_place est ready free_ranks (h, st1)
       | Some (gid, ranks) \<Rightarrow>
           bind_res (edf_dispatch_task tk rid gid ranks (h, st1)) (\<lambda>s2.
           bind_res (edf_place est ready (free_ranks - set ranks) s2) (\<lambda>(s3, out).
             Inr (s3, tk # out))))"

definition edf_take_dispatchable :: "estimator option \<Rightarrow> 'a edf_scheme dispatch" where
  "edf_take_dispatchable est s =
     (case s of (h, st) \<Rightarrow> edf_place est (edf_order st) (free_rank_set st) (h, st))"

definition validate_explicit_task_group :: "topology \<Rightarrow> task \<Rightarrow> unit res" where
  "validate_explicit_task_group T t =
     bind_res (get_group T (case t_group_id t of None \<Rightarrow> [] | Some g \<Rightarrow> g)) (\<lambda>g.
       if t_kind t \<notin> set (g_kinds g) then Inl ValueError else Inr ())"

definition edf_enqueue :: "heap \<times> 'a edf_scheme \<Rightarrow> string \<Rightarrow> (heap \<times> 'a edf_scheme) res" where
  "edf_enqueue s tk =
     (case s of (h, st) \<Rightarrow>
        let t = (h tk)\<lparr>t_status := READY\<rparr>
        in bind_res (if t_group_id t \<noteq> None then validate_explicit_task_group (dg_topology st) t else Inr ()) (\<lambda>_.
             Inr (h(tk := t), st\<lparr>ed_ready_by_request :=
               dict_set (ed_ready_by_request st) (t_request_id t)
                 ((case queue_for st (t_request_id t) of None \<Rightarrow> [] | Some q \<Rightarrow> q) @ [tk])\<rparr>)))"

definition edf_runnable :: "'a edf_scheme dispatch \<Rightarrow> string list \<Rightarrow> 'a edf_scheme dispatch" where
  "edf_runnable take_tasks tks s = bind_res (for_res edf_enqueue s tks) take_tasks"

definition edf_submit ::
  "(string \<Rightarrow> rat option) \<Rightarrow> int \<Rightarrow> 'a edf_scheme dispatch \<Rightarrow> plan \<Rightarrow> 'a edf_scheme dispatch" where
  "edf_submit fstr clock_ns take_tasks p s =
     (case s of (h, st) \<Rightarrow>
        let seq = ed_request_seq st + 1; (m, now) = meta_from_plan fstr clock_ns p seq (ed_now_ms st)
        in edf_runnable take_tasks (root_tasks p)
             (h, st\<lparr>ed_request_seq := seq, ed_now_ms := now,
                    ed_request_meta := (ed_request_meta st)(p_request_id p \<mapsto> m),
                    ed_plans := (ed_plans st)(p_request_id p \<mapsto> p)\<rparr>))"

definition release_dispatched_task :: "worker_event \<Rightarrow> 'a edf_scheme \<Rightarrow> 'a edf_scheme" where
  "release_dispatched_task ev st =
     (let tk = e_task_id ev; target = dg_dispatched_kind st tk;
          ranks = (case dy_dispatched_ranks_by_task st tk of None \<Rightarrow> [] | Some rs \<Rightarrow> rs);
          st1 = st\<lparr>dg_dispatched_kind := (dg_dispatched_kind st)(tk := None),
                   dy_dispatched_ranks_by_task := (dy_dispatched_ranks_by_task st)(tk := None)\<rparr>;
          st2 = (case target of
                   None \<Rightarrow> st1
                 | Some g \<Rightarrow> st1\<lparr>dg_outstanding_per_group := cdec (dg_outstanding_per_group st1) g,
                                dy_outstanding_per_rank := release_counts (dy_outstanding_per_rank st1) ranks\<rparr>);
          rid = e_request_id ev;
          st3 = st2\<lparr>ed_request_inflight := cdec (ed_request_inflight st2) rid\<rparr>
      in if e_group_id ev \<noteq> []
         then st3\<lparr>ed_request_last_group := (ed_request_last_group st3)(rid \<mapsto> e_group_id ev)\<rparr> else st3)"

definition edf_drop_request :: "string \<Rightarrow> 'a edf_scheme \<Rightarrow> 'a edf_scheme" where
  "edf_drop_request rid st =
     st\<lparr>ed_ready_by_request := dict_pop (ed_ready_by_request st) rid,
        ed_request_meta := (ed_request_meta st)(rid := None), ed_plans := (ed_plans st)(rid := None),
        ed_request_inflight := (ed_request_inflight st)(rid := None),
        ed_request_last_group := (ed_request_last_group st)(rid := None)\<rparr>"

definition edf_event ::
  "(string \<Rightarrow> 'a edf_scheme \<Rightarrow> 'a edf_scheme) \<Rightarrow> 'a edf_scheme dispatch \<Rightarrow> worker_event \<Rightarrow> 'a edf_scheme dispatch" where
  "edf_event drop_req take_tasks ev s =
     (case s of (h, st) \<Rightarrow>
        let st0 = st\<lparr>ed_now_ms := max (ed_now_ms st) (of_int (e_timestamp_ns ev) / 1000000)\<rparr>;
            st1 = (if e_kind ev \<in> {TASK_EXEC_END, TASK_FAILED} then release_dispatched_task ev st0 else st0);
            st2 = (if e_kind ev \<in> {REQUEST_FINISHED, REQUEST_FAILED} then drop_req (e_request_id ev) st1 else st1)
        in take_tasks (h, st2))"

section \<open>Invariant\<close>

definition edf_queue :: "'a edf_scheme \<Rightarrow> string \<Rightarrow> string list" where
  "edf_queue st rid = (case map_of (ed_ready_by_request st) rid of None \<Rightarrow> [] | Some q \<Rightarrow> q)"

definition edf_inv :: "(int \<Rightarrow> nat) \<Rightarrow> 'a edf_scheme \<Rightarrow> bool" where
  "edf_inv H st \<longleftrightarrow>
     dyn_books H st \<and> queues_ok (edf_queue st) (dyn_claims st) \<and> distinct (map fst (ed_ready_by_request st))
     \<and> topology_inv (dg_topology st) \<and> mark_free (dg_topology st)
     \<and> (\<forall>tk. dg_dispatched_kind st tk \<noteq> Some reshard_mark)
     \<and> 1 \<in> set (ed_allowed_sp_sizes st) \<and> (\<forall>s \<in> set (ed_allowed_sp_sizes st). 1 \<le> s)"

lemma edf_invD:
  assumes "edf_inv H st"
  shows "dyn_books H st" "queues_ok (edf_queue st) (dyn_claims st)" "distinct (map fst (ed_ready_by_request st))"
    "topology_inv (dg_topology st)" "mark_free (dg_topology st)" "dg_dispatched_kind st tk \<noteq> Some reshard_mark"
    "1 \<in> set (ed_allowed_sp_sizes st)" "\<forall>s \<in> set (ed_allowed_sp_sizes st). 1 \<le> s"
  using assms by (simp_all add: edf_inv_def)

interpretation edf: dispatcher dyn_claims "edf_inv H" can_dispatch_ranks edf_queue "\<lambda>r. H r \<noteq> 0" for H :: "int \<Rightarrow> nat"
proof unfold_locales
  fix st :: "'a edf_scheme" and tk x
  assume "edf_inv H st" "tk \<in> set (edf_queue st x)"
  then show "dyn_claims st tk = None" using queues_okD(3) edf_invD(2) by metis
next
  fix st :: "'a edf_scheme" and rs assume "edf_inv H st"
  then show "can_dispatch_ranks st rs \<longleftrightarrow>
      (\<forall>r \<in> set rs. \<not> H r \<noteq> 0 \<and> (\<forall>tk b ks. dyn_claims st tk = Some (b, ks) \<longrightarrow> r \<notin> set ks))"
    using can_dispatch_ranks_iff edf_invD(1) by fastforce
qed

abbreviation edf_dispatched :: "(int \<Rightarrow> nat) \<Rightarrow> 'a edf_scheme \<Rightarrow> 'a edf_scheme \<Rightarrow> string list \<Rightarrow> bool" where
  "edf_dispatched H \<equiv> dispatcher.dispatched dyn_claims (edf_inv H) can_dispatch_ranks edf_queue"

subsection \<open>The topology may grow\<close>

definition topology_grows :: "topology \<Rightarrow> topology \<Rightarrow> bool" where
  "topology_grows T T' \<longleftrightarrow> topology_inv T' \<and> mark_free T' \<and> tp_workers T' = tp_workers T
     \<and> (\<forall>gid g. get_group T gid = Inr g \<longrightarrow> get_group T' gid = Inr g)"

lemma topology_grows_refl: "topology_inv T \<Longrightarrow> mark_free T \<Longrightarrow> topology_grows T T"
  by (simp add: topology_grows_def)

lemma topology_grows_trans: "topology_grows T T' \<Longrightarrow> topology_grows T' T'' \<Longrightarrow> topology_grows T T''"
  unfolding topology_grows_def by auto

lemma topology_growsD: "topology_grows T T' \<Longrightarrow> topology_inv T' \<and> mark_free T' \<and> tp_workers T' = tp_workers T"
  by (simp add: topology_grows_def)

lemma edf_group_id_not_mark: "edf_group_id ranks \<noteq> reshard_mark"
  by (simp add: edf_group_id_def reshard_mark_def)

lemma ensure_group_for_ranks_spec:
  assumes "ensure_group_for_ranks T ranks kinds = Inr (T', g)" "topology_inv T" "mark_free T"
  shows "topology_grows T T' \<and> get_group T' (g_id g) = Inr g \<and> g_ranks g = ranks \<and> set kinds \<subseteq> set (g_kinds g)
     \<and> g_id g \<noteq> reshard_mark"
proof (cases "find_existing_group T ranks kinds")
  case (Some g')
  then have g: "T' = T" "g' = g" using assms(1) by (simp_all add: ensure_group_for_ranks_def)
  have "g \<in> set (tp_groups T)" "g_ranks g = ranks" "set kinds \<subseteq> set (g_kinds g)"
    using Some g(2) by (auto simp: find_existing_group_def find_Some_iff in_set_conv_nth)
  then show ?thesis
    using g assms(2,3) get_group_known topology_grows_refl by (auto simp: mark_free_def)
next
  case None
  then obtain par g0 where g0: "mk_group_spec (edf_group_id ranks) ranks par kinds (int (length ranks)) 1 = Inr g0"
      "ensure_group T g0 = Inr (T', g)"
    using assms(1) by (auto simp: ensure_group_for_ranks_def bind_res_eq_Inr)
  have f: "g_id g0 = edf_group_id ranks" "g_ranks g0 = ranks" "g_kinds g0 = kinds"
    using g0(1) by (auto simp: mk_group_spec_def Let_def split: if_splits)
  note e = ensure_group_inv [OF assms(2) g0(2)]
  have "mark_free T'" using e assms(3) f(1) edf_group_id_not_mark by (auto simp: mark_free_def)
  moreover have "get_group T' gid = Inr g'" if "get_group T gid = Inr g'" for gid g'
  proof (cases "gid = g_id g0")
    case True
    then show ?thesis using that e g0(2) by (auto simp: ensure_group_def get_group_def split: if_splits)
  next
    case False
    then show ?thesis using that e by auto
  qed
  ultimately show ?thesis using e f edf_group_id_not_mark by (auto simp: topology_grows_def)
qed

lemma edf_queue_topology [simp]: "edf_queue (st\<lparr>dg_topology := T\<rparr>) = edf_queue st"
  by (rule ext) (simp add: edf_queue_def split: option.split)

lemma claims_topology [simp]:
  "dyn_claims (st\<lparr>dg_topology := T\<rparr>) = dyn_claims st"
  "can_dispatch_ranks (st\<lparr>dg_topology := T\<rparr>) rs = can_dispatch_ranks st rs"
  "dyn_books H (st\<lparr>dg_topology := T\<rparr>) = dyn_books H st"
proof -
  show cl: "dyn_claims (st\<lparr>dg_topology := T\<rparr>) = dyn_claims st"
    by (rule ext) (simp add: dyn_claims_def split: option.split)
  show "can_dispatch_ranks (st\<lparr>dg_topology := T\<rparr>) rs = can_dispatch_ranks st rs"
    by (simp add: can_dispatch_ranks_def)
  show "dyn_books H (st\<lparr>dg_topology := T\<rparr>) = dyn_books H st"
    unfolding dyn_books_def cl by simp
qed

lemma edf_inv_topology: "edf_inv H st \<Longrightarrow> topology_grows (dg_topology st) T \<Longrightarrow> edf_inv H (st\<lparr>dg_topology := T\<rparr>)"
  by (simp add: edf_inv_def topology_grows_def)

text \<open>What a placement is: a registered group whose ranks are among the free ones.\<close>

definition placement_ok :: "'a edf_scheme \<Rightarrow> int set \<Rightarrow> 'a edf_scheme \<times> (string \<times> int list) option \<Rightarrow> bool" where
  "placement_ok st F r \<longleftrightarrow>
     (\<exists>T. fst r = st\<lparr>dg_topology := T\<rparr> \<and> topology_grows (dg_topology st) T)
     \<and> (\<forall>gid ranks. snd r = Some (gid, ranks) \<longrightarrow> gid \<noteq> reshard_mark \<and> set ranks \<subseteq> F
          \<and> (\<exists>g. get_group (dg_topology (fst r)) gid = Inr g \<and> g_ranks g = ranks))"

lemma placement_ok_same:
  assumes "topology_inv (dg_topology st)" "mark_free (dg_topology st)"
    and "\<And>gid ranks. pl = Some (gid, ranks) \<Longrightarrow> gid \<noteq> reshard_mark \<and> set ranks \<subseteq> F
          \<and> (\<exists>g. get_group (dg_topology st) gid = Inr g \<and> g_ranks g = ranks)"
  shows "placement_ok st F (st, pl)"
proof -
  have "st = st\<lparr>dg_topology := dg_topology st\<rparr>" by simp
  then have "\<exists>T. st = st\<lparr>dg_topology := T\<rparr> \<and> topology_grows (dg_topology st) T"
    using topology_grows_refl [OF assms(1,2)] by metis
  then show ?thesis using assms(3) by (simp add: placement_ok_def)
qed

lemma placement_ok_grow:
  assumes "placement_ok (st\<lparr>dg_topology := T\<rparr>) F r" "topology_grows (dg_topology st) T"
  shows "placement_ok st F r"
  using assms topology_grows_trans [OF assms(2)] unfolding placement_ok_def by auto

lemma single_rank_loop_ok:
  assumes "single_rank_loop st t rs = Inr r" "topology_inv (dg_topology st)" "mark_free (dg_topology st)" "set rs \<subseteq> F"
  shows "placement_ok st F r"
  using assms
proof (induction st t rs rule: single_rank_loop.induct)
  case (1 st t)
  then show ?case using placement_ok_same [OF 1(2,3)] by auto
next
  case (2 st t x rs)
  from 2(2) obtain T g where e: "ensure_group_for_ranks (dg_topology st) [x] EDF_STANDARD_TASK_KINDS = Inr (T, g)"
    and r: "(if t_kind t \<notin> set (g_kinds g) then single_rank_loop (st\<lparr>dg_topology := T\<rparr>) t rs
             else Inr (st\<lparr>dg_topology := T\<rparr>, Some (g_id g, [x]))) = Inr r"
    by (auto simp: bind_res_eq_Inr Let_def)
  note sp = ensure_group_for_ranks_spec [OF e 2(3,4)]
  then have gr: "topology_grows (dg_topology st) T" "topology_inv T" "mark_free T" using topology_growsD by auto
  show ?case
  proof (cases "t_kind t \<in> set (g_kinds g)")
    case False
    then have "single_rank_loop (st\<lparr>dg_topology := T\<rparr>) t rs = Inr r" using r by simp
    then have "placement_ok (st\<lparr>dg_topology := T\<rparr>) F r"
      using 2(1) [OF refl False] gr 2(5) by simp
    then show ?thesis using placement_ok_grow gr(1) by blast
  next
    case True
    then have "r = (st\<lparr>dg_topology := T\<rparr>, Some (g_id g, [x]))" using r by simp
    then show ?thesis using sp gr(1) 2(5) by (auto simp: placement_ok_def)
  qed
qed

lemma pick_ranks_subset: "finite F \<Longrightarrow> set (pick_ranks_for_request st rid sp F) \<subseteq> F"
  by (auto simp: pick_ranks_for_request_def Let_def split: option.splits sum.splits dest!: in_set_takeD)

lemma dit_group_loop_ok:
  assumes "dit_group_loop st t F sps = Inr r" "topology_inv (dg_topology st)" "mark_free (dg_topology st)" "finite F"
  shows "placement_ok st F r"
  using assms
proof (induction st t F sps rule: dit_group_loop.induct)
  case (1 st t F)
  then show ?case using placement_ok_same [OF 1(2,3)] by auto
next
  case (2 st t F sp sps)
  let ?rs = "pick_ranks_for_request st (t_request_id t) sp F"
  from 2(2) obtain T g where e: "ensure_group_for_ranks (dg_topology st) ?rs DIT_TASK_KINDS = Inr (T, g)"
    and r: "(if t_kind t \<in> set (g_kinds g) then Inr (st\<lparr>dg_topology := T\<rparr>, Some (g_id g, ?rs))
             else dit_group_loop (st\<lparr>dg_topology := T\<rparr>) t F sps) = Inr r"
    by (auto simp: bind_res_eq_Inr Let_def)
  note sp = ensure_group_for_ranks_spec [OF e 2(3,4)]
  then have gr: "topology_grows (dg_topology st) T" "topology_inv T" "mark_free T" using topology_growsD by auto
  show ?case
  proof (cases "t_kind t \<in> set (g_kinds g)")
    case False
    then have "dit_group_loop (st\<lparr>dg_topology := T\<rparr>) t F sps = Inr r" using r by simp
    then have "placement_ok (st\<lparr>dg_topology := T\<rparr>) F r"
      using 2(1) [OF refl refl False] gr 2(5) by simp
    then show ?thesis using placement_ok_grow gr(1) by blast
  next
    case True
    then have "r = (st\<lparr>dg_topology := T\<rparr>, Some (g_id g, ?rs))" using r by simp
    then show ?thesis using sp gr(1) pick_ranks_subset [OF 2(5)] by (auto simp: placement_ok_def)
  qed
qed

lemma select_dit_group_cases:
  assumes "select_dit_group st est t F = Inr r"
  obtains "r = (st, None)" | sps where "dit_group_loop st t F sps = Inr r"
proof (cases "F = {} \<or> filter (\<lambda>s. s \<le> int (card F)) (ed_allowed_sp_sizes st) = []")
  case True
  then have "r = (st, None)" using assms unfolding select_dit_group_def Let_def by (simp split: if_splits)
  then show thesis using that(1) by blast
next
  case False
  then have "bind_res (candidates_order st est t (filter (\<lambda>s. s \<le> int (card F)) (ed_allowed_sp_sizes st)))
      (dit_group_loop st t F) = Inr r"
    using assms unfolding select_dit_group_def Let_def by (simp split: if_splits)
  then show thesis using that(2) unfolding bind_res_eq_Inr by blast
qed

lemma select_placement_ok:
  assumes "select_placement st est t F = Inr r" "edf_inv H st" "finite F"
  shows "placement_ok st F r"
proof -
  note top = edf_invD(4,5) [OF assms(2)]
  show ?thesis
  proof (cases "t_group_id t")
    case (Some gid)
    then obtain g where g: "get_group (dg_topology st) gid = Inr g"
      and r: "r = (st, None) \<or> set (g_ranks g) \<subseteq> F \<and> r = (st, Some (g_id g, g_ranks g))"
      using assms(1) by (auto simp: select_placement_def bind_res_eq_Inr split: if_splits)
    have "g \<in> set (tp_groups (dg_topology st))" "g_id g = gid" using get_group_in [OF top(1) g] by auto
    then have "g_id g \<noteq> reshard_mark" "get_group (dg_topology st) (g_id g) = Inr g"
      using top(2) g by (auto simp: mark_free_def)
    then show ?thesis using r by (auto intro!: placement_ok_same top)
  next
    case None
    consider "t_kind t \<in> set SINGLE_RANK_TASK_KINDS" "single_rank_loop st t (sorted_list_of_set F) = Inr r"
      | "select_dit_group st est t F = Inr r"
      using assms(1) None by (auto simp: select_placement_def select_single_rank_group_def split: if_splits)
    then show ?thesis
    proof cases
      case 1
      then show ?thesis using single_rank_loop_ok [OF 1(2) top] assms(3) by simp
    next
      case 2
      then consider "r = (st, None)" | sps where "dit_group_loop st t F sps = Inr r"
        by (rule select_dit_group_cases)
      then show ?thesis
      proof cases
        case 1
        then show ?thesis by (auto intro!: placement_ok_same top)
      next
        case (2 sps)
        then show ?thesis using dit_group_loop_ok [OF 2 top assms(3)] by simp
      qed
    qed
  qed
qed

subsection \<open>One dispatch\<close>

definition store_ready :: "'a edf_scheme \<Rightarrow> string \<Rightarrow> string list \<Rightarrow> (string \<times> string list) list" where
  "store_ready st rid q =
     (if q = [] then dict_pop (ed_ready_by_request st) rid else dict_set (ed_ready_by_request st) rid q)"

lemma free_rank_can: "set rs \<subseteq> free_rank_set st \<Longrightarrow> can_dispatch_ranks st rs"
  by (auto simp: free_rank_set_def can_dispatch_ranks_def)

lemma finite_free_rank_set [simp]: "finite (free_rank_set st)"
  by (simp add: free_rank_set_def)

definition edf_started :: "string \<Rightarrow> string \<Rightarrow> string \<Rightarrow> int list \<Rightarrow> string list \<Rightarrow> 'a edf_scheme \<Rightarrow> 'a edf_scheme" where
  "edf_started tk rid gid ranks q st =
     (begin_task_by_rank tk gid ranks (st\<lparr>ed_ready_by_request := store_ready st rid q\<rparr>))
       \<lparr>ed_request_inflight := cinc (ed_request_inflight st) rid\<rparr>"

lemma edf_dispatch_task_eq:
  assumes "edf_queue st rid = tk # q"
  shows "edf_dispatch_task tk rid gid ranks (h, st) =
    Inr (h(tk := (h tk)\<lparr>t_group_id := Some gid, t_status := DISPATCHED\<rparr>), edf_started tk rid gid ranks q st)"
  using assms
  by (auto simp: edf_dispatch_task_def edf_queue_def edf_started_def store_ready_def dict_get_def Let_def split: option.splits)

lemma claims_edf_started:
  "gid \<noteq> reshard_mark \<Longrightarrow> dyn_claims (edf_started tk rid gid ranks q st) = (dyn_claims st)(tk \<mapsto> (False, ranks))"
  by (rule ext) (auto simp: dyn_claims_def edf_started_def begin_task_by_rank_def claim_ranks_def split: option.splits)

lemma queue_edf_started:
  "edf_queue (edf_started tk rid gid ranks q st) x = (if x = rid then q else edf_queue st x)"
  by (simp add: edf_queue_def edf_started_def begin_task_by_rank_def claim_ranks_def store_ready_def
      map_of_dict_pop map_of_dict_set)

lemma dyn_books_ext:
  assumes "dg_dispatched_kind st' = dg_dispatched_kind st" "dy_dispatched_ranks_by_task st' = dy_dispatched_ranks_by_task st"
    "dy_outstanding_per_rank st' = dy_outstanding_per_rank st" "dy_reshard_holds_by_rank st' = dy_reshard_holds_by_rank st"
  shows "dyn_claims st' = dyn_claims st" "dyn_books H st' = dyn_books H st" "can_dispatch_ranks st' rs = can_dispatch_ranks st rs"
proof -
  show cl: "dyn_claims st' = dyn_claims st" unfolding dyn_claims_def [abs_def] assms ..
  show "dyn_books H st' = dyn_books H st" unfolding dyn_books_def cl assms ..
  show "can_dispatch_ranks st' rs = can_dispatch_ranks st rs" by (simp add: can_dispatch_ranks_def assms)
qed

lemma edf_started_ok:
  assumes "edf_inv H st" "edf_queue st rid = tk # q" "set ranks \<subseteq> free_rank_set st" "gid \<noteq> reshard_mark"
  shows "edf_dispatched H st (edf_started tk rid gid ranks q st) [tk]"
    and "free_rank_set (edf_started tk rid gid ranks q st) = free_rank_set st - set ranks"
proof -
  let ?sa = "st\<lparr>ed_ready_by_request := store_ready st rid q\<rparr>"
  let ?st = "edf_started tk rid gid ranks q st"
  note inv = edf_invD [OF assms(1)]
  have can: "can_dispatch_ranks st ranks" by (rule free_rank_can [OF assms(3)])
  have free: "dyn_claims st tk = None" using queues_okD(3) [OF inv(2), of tk rid] assms(2) by simp
  have "dyn_books H ?sa" "can_dispatch_ranks ?sa ranks"
    using dyn_books_ext [of ?sa st] inv(1) can by simp_all
  then have "dyn_books H (begin_task_by_rank tk gid ranks ?sa)"
    using books_begin_task [of H ?sa ranks tk gid] free assms(4) by (simp add: dyn_claims_None)
  then have books: "dyn_books H ?st"
    using dyn_books_ext(2) [of ?st "begin_task_by_rank tk gid ranks ?sa" H] by (simp add: edf_started_def)
  have Q: "queues_ok (edf_queue ?st) (dyn_claims ?st)"
    by (rule queues_ok_take [OF inv(2) queue_edf_started, where out = "[tk]"])
      (simp_all add: assms(2) claims_edf_started [OF assms(4)])
  have d: "distinct (map fst (ed_ready_by_request ?st))"
    using inv(3) by (simp add: edf_started_def begin_task_by_rank_def claim_ranks_def store_ready_def
        distinct_dict_pop distinct_dict_set)
  have "dg_topology ?st = dg_topology st" "\<forall>t. dg_dispatched_kind ?st t \<noteq> Some reshard_mark"
    "ed_allowed_sp_sizes ?st = ed_allowed_sp_sizes st"
    using inv(6) assms(4) by (simp_all add: edf_started_def begin_task_by_rank_def claim_ranks_def)
  then have "edf_inv H ?st" using books Q d inv(4,5,7,8) by (simp add: edf_inv_def)
  then show "edf_dispatched H st ?st [tk]"
    by (rule edf.dispatched_one_queue [OF _ queue_edf_started])
      (use assms(2,4) can in \<open>auto simp: claims_edf_started\<close>)
  show "free_rank_set ?st = free_rank_set st - set ranks"
    by (auto simp: free_rank_set_def edf_started_def begin_task_by_rank_def claim_ranks_def
        cget_claim_counts count_list_0_iff)
qed

subsection \<open>The dispatch loop\<close>

text \<open>The entries still to be placed are heads of their queues.\<close>

definition heads_ok :: "'a edf_scheme \<Rightarrow> (string \<times> string) list \<Rightarrow> bool" where
  "heads_ok st ready \<longleftrightarrow> distinct (map fst ready) \<and> (\<forall>(rid, tk) \<in> set ready. \<exists>q. edf_queue st rid = tk # q)"

lemma heads_okD: "heads_ok st ready \<Longrightarrow> (rid, tk) \<in> set ready \<Longrightarrow> \<exists>q. edf_queue st rid = tk # q"
  by (auto simp: heads_ok_def)

lemma heads_ok_Cons:
  "heads_ok st ((rid, tk) # ready) \<longleftrightarrow> rid \<notin> fst ` set ready \<and> heads_ok st ready \<and> (\<exists>q. edf_queue st rid = tk # q)"
  by (auto simp: heads_ok_def)

lemma heads_ok_cong:
  assumes "heads_ok st ready" "\<And>rid. rid \<in> fst ` set ready \<Longrightarrow> edf_queue st' rid = edf_queue st rid"
  shows "heads_ok st' ready"
  using assms unfolding heads_ok_def by fastforce

lemma edf_place_ok:
  assumes "edf_place est ready F (h, st) = Inr ((h', st'), out)"
    and "edf_inv H st" "F \<subseteq> free_rank_set st" "heads_ok st ready"
  shows "edf_dispatched H st st' out"
  using assms
proof (induction ready arbitrary: F h st out)
  case Nil
  then show ?case using edf.dispatched_refl by auto
next
  case (Cons e ready)
  obtain rid tk where e: "e = (rid, tk)" by (cases e)
  obtain st1 pl where sel: "select_placement st est (h tk) F = Inr (st1, pl)"
    and rest: "(case pl of None \<Rightarrow> edf_place est ready F (h, st1)
        | Some (gid, ranks) \<Rightarrow> bind_res (edf_dispatch_task tk rid gid ranks (h, st1)) (\<lambda>s2.
            bind_res (edf_place est ready (F - set ranks) s2) (\<lambda>(s3, out). Inr (s3, tk # out))))
      = Inr ((h', st'), out)"
    using Cons.prems(1) e by (auto simp: bind_res_eq_Inr)
  have "finite F" using Cons.prems(3) finite_free_rank_set finite_subset by blast
  from select_placement_ok [OF sel Cons.prems(2) this] obtain T where
    st1: "st1 = st\<lparr>dg_topology := T\<rparr>" and gr: "topology_grows (dg_topology st) T"
    and pl: "\<And>gid ranks. pl = Some (gid, ranks) \<Longrightarrow> gid \<noteq> reshard_mark \<and> set ranks \<subseteq> F"
    by (auto simp: placement_ok_def)
  have inv1: "edf_inv H st1" unfolding st1 by (rule edf_inv_topology [OF Cons.prems(2) gr])
  have d1: "edf_dispatched H st st1 []"
    using inv1 unfolding st1 by (intro edf.dispatched_one_queue [where y = "[]"]) auto
  have F1: "F \<subseteq> free_rank_set st1"
    using Cons.prems(3) topology_growsD [OF gr] by (auto simp: st1 free_rank_set_def)
  have heads: "heads_ok st1 ready" "rid \<notin> fst ` set ready" and q: "\<exists>q. edf_queue st1 rid = tk # q"
    using Cons.prems(4) by (auto simp: e heads_ok_Cons st1 heads_ok_def)
  show ?case
  proof (cases pl)
    case None
    then have "edf_place est ready F (h, st1) = Inr ((h', st'), out)" using rest by simp
    from Cons.IH [OF this inv1 F1 heads(1)] show ?thesis
      using edf.dispatched_trans [OF Cons.prems(2) d1] by simp
  next
    case (Some a)
    then obtain gid ranks where a: "pl = Some (gid, ranks)" by (cases a) auto
    note g = pl [OF a]
    obtain q where q: "edf_queue st1 rid = tk # q" using q by blast
    let ?st = "edf_started tk rid gid ranks q st1"
    obtain out1 where place: "edf_place est ready (F - set ranks)
          (h(tk := (h tk)\<lparr>t_group_id := Some gid, t_status := DISPATCHED\<rparr>), ?st) = Inr ((h', st'), out1)"
      and out: "out = tk # out1"
      using rest unfolding a edf_dispatch_task_eq [OF q] by (auto simp: bind_res_eq_Inr)
    have sub: "set ranks \<subseteq> free_rank_set st1" using g F1 by blast
    note started = edf_started_ok [OF inv1 q sub conjunct1 [OF g]]
    have "heads_ok ?st ready"
      by (rule heads_ok_cong [OF heads(1)]) (use heads(2) in \<open>auto simp: queue_edf_started\<close>)
    then have "edf_dispatched H ?st st' out1"
      using Cons.IH [OF place edf.dispatchedD(1) [OF started(1)]] started(2) F1 by blast
    then have "edf_dispatched H st1 st' ([tk] @ out1)"
      by (rule edf.dispatched_trans [OF inv1 started(1)])
    then show ?thesis using edf.dispatched_trans [OF Cons.prems(2) d1] out by simp
  qed
qed

lemma heads_ok_ready:
  assumes "distinct (map fst (ed_ready_by_request st))"
  shows "heads_ok st (edf_order st)"
proof -
  have sub: "map fst (ready_heads st) = map fst (filter (\<lambda>(rid, q). q \<noteq> [] \<and> cget (ed_request_inflight st) rid = 0)
      (ed_ready_by_request st))"
    by (auto simp: ready_heads_def)
  have "distinct (map fst (ready_heads st))"
    unfolding sub using assms by (simp add: distinct_map inj_on_def)
  then have "distinct (map fst (edf_order st))"
    unfolding edf_order_def by (metis mset_eq_imp_distinct_iff mset_map mset_sort)
  moreover have "\<exists>q. edf_queue st rid = tk # q" if "(rid, tk) \<in> set (edf_order st)" for rid tk
  proof -
    from that obtain l where l: "(rid, l) \<in> set (ed_ready_by_request st)" "l \<noteq> []" "tk = hd l"
      by (auto simp: edf_order_def ready_heads_def)
    then have "map_of (ed_ready_by_request st) rid = Some l" using assms by simp
    then show ?thesis using l by (cases l) (auto simp: edf_queue_def)
  qed
  ultimately show ?thesis unfolding heads_ok_def by blast
qed

lemma edf_take_ok:
  assumes "edf_take_dispatchable est (h, st) = Inr ((h', st'), out)" "edf_inv H st"
  shows "edf_dispatched H st st' out"
  using edf_place_ok [OF _ assms(2) subset_refl heads_ok_ready [OF edf_invD(3) [OF assms(2)]]] assms(1)
  by (simp add: edf_take_dispatchable_def)

subsection \<open>The other operations\<close>

definition edf_fresh :: "'a edf_scheme \<Rightarrow> string \<Rightarrow> bool" where
  "edf_fresh st tk \<longleftrightarrow> (\<forall>rid. tk \<notin> set (edf_queue st rid)) \<and> dg_dispatched_kind st tk = None"

text \<open>Fields that the accounting does not read.\<close>

lemma edf_inv_same:
  assumes "edf_inv H st"
    and "dg_dispatched_kind st' = dg_dispatched_kind st" "dy_dispatched_ranks_by_task st' = dy_dispatched_ranks_by_task st"
    "dy_outstanding_per_rank st' = dy_outstanding_per_rank st" "dy_reshard_holds_by_rank st' = dy_reshard_holds_by_rank st"
    "dg_topology st' = dg_topology st" "ed_ready_by_request st' = ed_ready_by_request st"
    "ed_allowed_sp_sizes st' = ed_allowed_sp_sizes st"
  shows "edf_inv H st'"
proof -
  have "edf_queue st' = edf_queue st" by (rule ext) (simp add: edf_queue_def assms(7))
  then show ?thesis
    using assms(1) unfolding edf_inv_def dyn_books_ext(1,2) [OF assms(2-5)] assms(2,6,7,8) by simp
qed

lemma edf_enqueue_loop:
  assumes "for_res edf_enqueue (h, st) tks = Inr (h', st')"
    and "edf_inv H st" "distinct tks" "\<forall>tk \<in> set tks. edf_fresh st tk"
  shows "edf_inv H st'"
  using assms
proof (induction tks arbitrary: h st)
  case Nil
  then show ?case by simp
next
  case (Cons tk tks)
  then obtain h1 st1 where e: "edf_enqueue (h, st) tk = Inr (h1, st1)"
    and rest: "for_res edf_enqueue (h1, st1) tks = Inr (h', st')" by (auto simp: bind_res_eq_Inr)
  obtain rid where st1: "st1 = st\<lparr>ed_ready_by_request := dict_set (ed_ready_by_request st) rid (edf_queue st rid @ [tk])\<rparr>"
    using e by (auto simp: edf_enqueue_def Let_def bind_res_eq_Inr edf_queue_def queue_for_def)
  have q: "edf_queue st1 x = edf_queue st x @ (if x = rid then [tk] else [])" for x
    by (simp add: st1 edf_queue_def map_of_dict_set split: option.split)
  note inv = edf_invD [OF Cons.prems(2)]
  have cl: "dyn_claims st1 = dyn_claims st" "dyn_books H st1 = dyn_books H st"
    using dyn_books_ext(1,2) [of st1 st] by (simp_all add: st1)
  have "queues_ok (edf_queue st1) (dyn_claims st)"
    by (rule queues_ok_push [OF inv(2) _ _ q]) (use Cons.prems(4) in \<open>simp_all add: edf_fresh_def dyn_claims_None\<close>)
  then have "edf_inv H st1"
    using inv unfolding edf_inv_def cl by (simp add: st1 distinct_dict_set)
  moreover have "\<forall>t \<in> set tks. edf_fresh st1 t"
    using Cons.prems(3,4) q by (auto simp: edf_fresh_def st1)
  ultimately show ?case using Cons.IH [OF rest] Cons.prems(3) by simp
qed

lemma claims_edf_release:
  "dyn_claims (release_dispatched_task ev st) = (dyn_claims st)(e_task_id ev := None)"
  by (rule ext) (auto simp: dyn_claims_def release_dispatched_task_def Let_def split: option.splits)

lemma release_dispatched_simps [simp]:
  "dg_topology (release_dispatched_task ev st) = dg_topology st"
  "ed_ready_by_request (release_dispatched_task ev st) = ed_ready_by_request st"
  "dg_dispatched_kind (release_dispatched_task ev st) = (dg_dispatched_kind st)(e_task_id ev := None)"
  "dy_reshard_holds_by_rank (release_dispatched_task ev st) = dy_reshard_holds_by_rank st"
  "ed_allowed_sp_sizes (release_dispatched_task ev st) = ed_allowed_sp_sizes st"
  by (auto simp: release_dispatched_task_def Let_def split: option.splits)

lemma edf_inv_release:
  assumes "edf_inv H st"
  shows "edf_inv H (release_dispatched_task ev st)"
proof -
  let ?st = "release_dispatched_task ev st"
  note inv = edf_invD [OF assms] and d = dyn_booksD [OF edf_invD(1) [OF assms]]
  have "ledger.books (dyn_claims ?st) False (\<lambda>_. 0) (dy_outstanding_per_rank ?st)
      \<and> ledger.books (dyn_claims ?st) True H (dy_reshard_holds_by_rank ?st)"
  proof (cases "dg_dispatched_kind st (e_task_id ev)")
    case None
    then have "dyn_claims st (e_task_id ev) = None" by (simp add: dyn_claims_None)
    then have "dyn_claims ?st = dyn_claims st" by (auto simp: claims_edf_release)
    moreover have "dy_outstanding_per_rank ?st = dy_outstanding_per_rank st"
      using None by (simp add: release_dispatched_task_def Let_def)
    ultimately show ?thesis using d(3,4) by simp
  next
    case (Some g)
    define rs where "rs = (case dy_dispatched_ranks_by_task st (e_task_id ev) of None \<Rightarrow> [] | Some rs \<Rightarrow> rs)"
    have "g \<noteq> reshard_mark" using inv(6) Some by metis
    then have cl: "dyn_claims st (e_task_id ev) = Some (False, rs)"
      using Some by (simp add: dyn_claims_def rs_def)
    have fin: "finite (dom (dyn_claims st))" using d(1) by simp
    have "dy_outstanding_per_rank ?st = release_counts (dy_outstanding_per_rank st) rs"
      using Some by (simp add: release_dispatched_task_def Let_def rs_def)
    then show ?thesis
      unfolding claims_edf_release
      using ledger.books_free [OF fin cl d(3)] ledger.books_free_other [OF fin cl _ d(4)] by simp
  qed
  moreover have "edf_queue ?st = edf_queue st" by (rule ext) (simp add: edf_queue_def)
  ultimately show ?thesis
    using inv(3,4,5,6,7,8) queues_ok_release [OF inv(2)] exclusive_drop [OF d(2)] d(1)
    by (simp add: edf_inv_def dyn_books_def claims_edf_release)
qed

lemma edf_inv_drop:
  assumes "edf_inv H st"
  shows "edf_inv H (edf_drop_request rid st)"
proof -
  let ?st = "edf_drop_request rid st"
  note inv = edf_invD [OF assms]
  have q: "edf_queue ?st = (\<lambda>x. filter (\<lambda>_. x \<noteq> rid) (edf_queue st x))"
    by (rule ext) (auto simp: edf_queue_def edf_drop_request_def map_of_dict_pop split: option.split)
  have cl: "dyn_claims ?st = dyn_claims st" "dyn_books H ?st = dyn_books H st"
    using dyn_books_ext(1,2) [of ?st st] by (simp_all add: edf_drop_request_def)
  show ?thesis
    using inv queues_ok_filter [OF inv(2), of "\<lambda>x _. x \<noteq> rid"] unfolding edf_inv_def cl q
    by (simp add: edf_drop_request_def distinct_dict_pop)
qed

lemma edf_inv_holds:
  assumes "edf_inv H st"
  shows "edf_inv (\<lambda>r. H r + count_list rs r) (acquire_migration_hold rs st)"
    and "(\<And>r. count_list rs r \<le> H r) \<Longrightarrow> edf_inv (\<lambda>r. H r - count_list rs r) (release_migration_hold rs st)"
proof -
  note inv = edf_invD [OF assms] and b = dyn_booksD [OF edf_invD(1) [OF assms]]
  have cl: "dyn_claims (acquire_migration_hold rs st) = dyn_claims st" "dyn_claims (release_migration_hold rs st) = dyn_claims st"
    by (rule ext, simp add: dyn_claims_def acquire_migration_hold_def claim_ranks_def release_migration_hold_def split: option.split)+
  have q: "edf_queue (acquire_migration_hold rs st) = edf_queue st" "edf_queue (release_migration_hold rs st) = edf_queue st"
    by (rule ext, simp add: edf_queue_def acquire_migration_hold_def claim_ranks_def release_migration_hold_def)+
  show "edf_inv (\<lambda>r. H r + count_list rs r) (acquire_migration_hold rs st)"
    using inv b ledger.books_hold [OF b(4), of rs] unfolding edf_inv_def dyn_books_def cl q
    by (simp add: acquire_migration_hold_def claim_ranks_def)
  show "edf_inv (\<lambda>r. H r - count_list rs r) (release_migration_hold rs st)" if "\<And>r. count_list rs r \<le> H r"
    using inv b ledger.books_unhold [OF b(4) that] unfolding edf_inv_def dyn_books_def cl q
    by (simp add: release_migration_hold_def)
qed

subsection \<open>Runs\<close>

text \<open>
  The calls of the scheduler, in any order. What a submission records beforehand, the dispatch
  function and the dropping of a request are arguments because the best-fit policy replaces them.
\<close>

definition no_prep :: "(string \<Rightarrow> rat option) \<Rightarrow> plan \<Rightarrow> 'a edf_scheme \<Rightarrow> 'a edf_scheme" where
  "no_prep fstr p st = st"

inductive edf_reach ::
  "((string \<Rightarrow> rat option) \<Rightarrow> plan \<Rightarrow> 'a edf_scheme \<Rightarrow> 'a edf_scheme) \<Rightarrow> 'a edf_scheme dispatch \<Rightarrow> (string \<Rightarrow> 'a edf_scheme \<Rightarrow> 'a edf_scheme) \<Rightarrow> 'a edf_scheme
   \<Rightarrow> heap \<times> 'a edf_scheme \<Rightarrow> (int \<Rightarrow> nat) \<Rightarrow> bool"
  for prep take_tasks drop_req st0 where
  start: "edf_reach prep take_tasks drop_req st0 (h, st0) (\<lambda>_. 0)"
| tasks: "edf_reach prep take_tasks drop_req st0 (h, st) H \<Longrightarrow> edf_reach prep take_tasks drop_req st0 (h', st) H"
| submit: "edf_reach prep take_tasks drop_req st0 (h, st) H \<Longrightarrow> edf_submit fstr clock_ns take_tasks p (h, prep fstr p st) = Inr (s', out) \<Longrightarrow>
     distinct (root_tasks p) \<Longrightarrow> \<forall>tk \<in> set (root_tasks p). edf_fresh st tk \<Longrightarrow> edf_reach prep take_tasks drop_req st0 s' H"
| runnable: "edf_reach prep take_tasks drop_req st0 (h, st) H \<Longrightarrow> edf_runnable take_tasks tks (h, st) = Inr (s', out) \<Longrightarrow>
     distinct tks \<Longrightarrow> \<forall>tk \<in> set tks. edf_fresh st tk \<Longrightarrow> edf_reach prep take_tasks drop_req st0 s' H"
| event: "edf_reach prep take_tasks drop_req st0 (h, st) H \<Longrightarrow> edf_event drop_req take_tasks ev (h, st) = Inr (s', out) \<Longrightarrow>
     edf_reach prep take_tasks drop_req st0 s' H"
| hold: "edf_reach prep take_tasks drop_req st0 (h, st) H \<Longrightarrow>
     edf_reach prep take_tasks drop_req st0 (h, acquire_migration_hold rs st) (\<lambda>r. H r + count_list rs r)"
| unhold: "edf_reach prep take_tasks drop_req st0 (h, st) H \<Longrightarrow> (\<And>r. count_list rs r \<le> H r) \<Longrightarrow>
     edf_reach prep take_tasks drop_req st0 (h, release_migration_hold rs st) (\<lambda>r. H r - count_list rs r)"

lemma edf_inv_runnable:
  assumes "edf_runnable take_tasks tks (h, st) = Inr ((h', st'), out)"
    and "\<And>h st h' st' out. edf_inv H st \<Longrightarrow> take_tasks (h, st) = Inr ((h', st'), out) \<Longrightarrow> edf_inv H st'"
    and "edf_inv H st" "distinct tks" "\<forall>tk \<in> set tks. edf_fresh st tk"
  shows "edf_inv H st'"
proof -
  obtain h1 st1 where "for_res edf_enqueue (h, st) tks = Inr (h1, st1)" "take_tasks (h1, st1) = Inr ((h', st'), out)"
    using assms(1) by (auto simp: edf_runnable_def bind_res_eq_Inr)
  then show ?thesis using edf_enqueue_loop assms(2-5) by blast
qed

lemma edf_reach_inv:
  assumes "edf_reach prep take_tasks drop_req st0 s H" and "edf_inv (\<lambda>_. 0) st0"
    and take: "\<And>H h st h' st' out. edf_inv H st \<Longrightarrow> take_tasks (h, st) = Inr ((h', st'), out) \<Longrightarrow> edf_inv H st'"
    and drop: "\<And>H rid st. edf_inv H st \<Longrightarrow> edf_inv H (drop_req rid st)"
    and prep: "\<And>H fstr p st. edf_inv H st \<Longrightarrow> edf_inv H (prep fstr p st)"
      "\<And>fstr p st tk. edf_fresh st tk \<Longrightarrow> edf_fresh (prep fstr p st) tk"
  shows "edf_inv H (snd s)"
  using assms(1)
proof induction
  case (submit h st H fstr clock_ns p s' out)
  obtain h' st' where s': "s' = (h', st')" by (cases s')
  let ?sp = "prep fstr p st"
  obtain m now where m: "meta_from_plan fstr clock_ns p (ed_request_seq ?sp + 1) (ed_now_ms ?sp) = (m, now)"
    by (metis surj_pair)
  let ?sa = "?sp\<lparr>ed_request_seq := ed_request_seq ?sp + 1, ed_now_ms := now,
      ed_request_meta := (ed_request_meta ?sp)(p_request_id p \<mapsto> m), ed_plans := (ed_plans ?sp)(p_request_id p \<mapsto> p)\<rparr>"
  have run: "edf_runnable take_tasks (root_tasks p) (h, ?sa) = Inr ((h', st'), out)"
    using submit.hyps(2) s' by (simp add: edf_submit_def Let_def m)
  have inv: "edf_inv H ?sa" by (rule edf_inv_same [of H ?sp]) (use prep(1) submit.IH in simp_all)
  have "edf_queue ?sa = edf_queue ?sp" by (rule ext) (simp add: edf_queue_def)
  then have "\<forall>tk \<in> set (root_tasks p). edf_fresh ?sa tk" using submit.hyps(4) prep(2) [of st] by (simp add: edf_fresh_def)
  from edf_inv_runnable [OF run take inv submit.hyps(3) this] show ?case by (simp add: s')
next
  case (runnable h st H tks s' out)
  obtain h' st' where s': "s' = (h', st')" by (cases s')
  show ?case
    using edf_inv_runnable [OF runnable.hyps(2) [unfolded s'] take _ runnable.hyps(3,4)] runnable.IH
    by (simp add: s')
next
  case (event h st H ev s' out)
  obtain h' st' where s': "s' = (h', st')" by (cases s')
  define sa where "sa = st\<lparr>ed_now_ms := max (ed_now_ms st) (of_int (e_timestamp_ns ev) / 1000000)\<rparr>"
  define sb where "sb = (if e_kind ev \<in> {TASK_EXEC_END, TASK_FAILED} then release_dispatched_task ev sa else sa)"
  define sc where "sc = (if e_kind ev \<in> {REQUEST_FINISHED, REQUEST_FAILED} then drop_req (e_request_id ev) sb else sb)"
  have t: "take_tasks (h, sc) = Inr ((h', st'), out)"
    using event.hyps(2) s' by (simp only: edf_event_def Let_def sa_def sb_def sc_def prod.case)
  have "edf_inv H sa" unfolding sa_def by (rule edf_inv_same [of H st]) (use event.IH in simp_all)
  then have "edf_inv H sb" by (auto simp: sb_def edf_inv_release)
  then have "edf_inv H sc" by (auto simp: sc_def drop)
  then show ?case using take [OF _ t] by (simp add: s')
qed (use assms(2) in \<open>auto intro: edf_inv_holds\<close>)

lemma normalize_sizes:
  assumes "normalize_allowed_sp_sizes T allowed = Inr sizes"
  shows "1 \<in> set sizes" "\<forall>s \<in> set sizes. 1 \<le> s \<and> s \<le> int (max 1 (length (tp_workers T)))"
proof -
  define M where "M = max 1 (length (tp_workers T))"
  define S where "S = (case allowed of None \<Rightarrow> set (1 # map int (doublings 2 M) @ [int M]) | Some l \<Rightarrow> set (1 # l))"
  have "finite S" "1 \<in> S" by (auto simp: S_def split: option.splits)
  moreover have "sizes = rev (sorted_list_of_set {s \<in> S. 1 \<le> s \<and> s \<le> int M})"
    using assms unfolding normalize_allowed_sp_sizes_def Let_def M_def [symmetric] S_def [symmetric]
    by (simp split: if_splits)
  ultimately show "1 \<in> set sizes" "\<forall>s \<in> set sizes. 1 \<le> s \<and> s \<le> int (max 1 (length (tp_workers T)))"
    by (auto simp: M_def)
qed

lemma edf_init_inv:
  assumes "edf_init T allowed = Inr st0" "topology_inv T" "mark_free T"
  shows "edf_inv (\<lambda>_. 0) st0"
proof -
  obtain sizes where st0: "st0 = dynamic_step.extend (dynamic_step_init T None None)
      \<lparr>ed_ready_by_request = [], ed_request_meta = (\<lambda>_. None), ed_plans = (\<lambda>_. None),
       ed_request_inflight = (\<lambda>_. None), ed_request_last_group = (\<lambda>_. None), ed_request_seq = 0,
       ed_now_ms = 0, ed_allowed_sp_sizes = sizes\<rparr>"
    and sizes: "normalize_allowed_sp_sizes T allowed = Inr sizes"
    using assms(1) by (auto simp: edf_init_def bind_res_eq_Inr)
  note defs = st0 dynamic_step_init_def disaggregate_init_def disaggregate.extend_def dynamic_step.extend_def
  have "dyn_claims st0 = (\<lambda>_. None)" "edf_queue st0 = (\<lambda>_. [])"
    by (auto simp: dyn_claims_def edf_queue_def fun_eq_iff defs)
  then show ?thesis
    using assms(2,3) normalize_sizes [OF sizes]
    by (simp add: edf_inv_def dyn_books_def ledger.books_def) (simp add: defs)
qed

lemma edf_greedy_inv:
  assumes "edf_init T allowed = Inr st0" "topology_inv T" "mark_free T"
    and "edf_reach no_prep (edf_take_dispatchable est) edf_drop_request st0 s H"
  shows "edf_inv H (snd s)"
  by (rule edf_reach_inv [OF assms(4) edf_init_inv [OF assms(1-3)]])
    (use edf_take_ok edf.dispatchedD(1) edf_inv_drop no_prep_def in metis)+

section \<open>Properties\<close>

text \<open>
  In every reachable state of the greedy EDF policy, tasks in flight occupy disjoint ranks,
  and the ranks offered for placement are exactly the worker ranks that no task in flight
  occupies and that are held for no migration.
\<close>

theorem edf_ranks_exclusive:
  assumes "edf_init T allowed = Inr st0" "topology_inv T" "mark_free T"
    and "edf_reach no_prep (edf_take_dispatchable est) edf_drop_request st0 (h, st) H"
  shows "free_rank_set st = {r \<in> set (map w_rank (tp_workers (dg_topology st))). H r = 0 \<and>
          (\<forall>tk ks. dg_dispatched_kind st tk \<noteq> None \<and> dy_dispatched_ranks_by_task st tk = Some ks \<longrightarrow> r \<notin> set ks)}
     \<and> (\<forall>tk tk' rs rs'. tk \<noteq> tk' \<and> dg_dispatched_kind st tk \<noteq> None \<and> dy_dispatched_ranks_by_task st tk = Some rs
          \<and> dg_dispatched_kind st tk' \<noteq> None \<and> dy_dispatched_ranks_by_task st tk' = Some rs'
          \<longrightarrow> set rs \<inter> set rs' = {})"
proof -
  have books: "dyn_books H st" using edf_greedy_inv [OF assms] edf_invD(1) by auto
  have cl: "\<exists>b. dyn_claims st tk = Some (b, rs)"
    if "dg_dispatched_kind st tk \<noteq> None" "dy_dispatched_ranks_by_task st tk = Some rs" for tk rs
    using that by (auto simp: dyn_claims_def)
  have can: "can_dispatch_ranks st [r] \<longleftrightarrow> H r = 0 \<and> (\<forall>tk ks. dg_dispatched_kind st tk \<noteq> None
      \<and> dy_dispatched_ranks_by_task st tk = Some ks \<longrightarrow> r \<notin> set ks)" for r
  proof -
    have "can_dispatch_ranks st [r] \<longleftrightarrow> H r = 0 \<and> \<not> (\<exists>tk b ks. dyn_claims st tk = Some (b, ks) \<and> r \<in> set ks)"
      unfolding can_dispatch_ranks_iff [OF books] by simp
    then show ?thesis unfolding claimed_rank by blast
  qed
  have "free_rank_set st = {r \<in> set (map w_rank (tp_workers (dg_topology st))). can_dispatch_ranks st [r]}"
    by (simp add: free_rank_set_def can_dispatch_ranks_def)
  then have 1: "free_rank_set st = {r \<in> set (map w_rank (tp_workers (dg_topology st))). H r = 0 \<and>
      (\<forall>tk ks. dg_dispatched_kind st tk \<noteq> None \<and> dy_dispatched_ranks_by_task st tk = Some ks \<longrightarrow> r \<notin> set ks)}"
    unfolding can .
  have 2: "set rs \<inter> set rs' = {}" if "tk \<noteq> tk'" "dg_dispatched_kind st tk \<noteq> None" "dy_dispatched_ranks_by_task st tk = Some rs"
      "dg_dispatched_kind st tk' \<noteq> None" "dy_dispatched_ranks_by_task st tk' = Some rs'" for tk tk' rs rs'
    using cl [OF that(2,3)] cl [OF that(4,5)] exclusiveD [OF dyn_booksD(2) [OF books] _ _ that(1)] by blast
  show ?thesis using 1 2 by blast
qed

subsection \<open>Deadline order\<close>

lemma single_rank_loop_None:
  assumes "single_rank_loop st t rs = Inr (st', None)" "topology_inv (dg_topology st)" "mark_free (dg_topology st)"
    "t_kind t \<in> set EDF_STANDARD_TASK_KINDS"
  shows "rs = []"
proof (cases rs)
  case (Cons r l)
  then obtain T g where e: "ensure_group_for_ranks (dg_topology st) [r] EDF_STANDARD_TASK_KINDS = Inr (T, g)"
    "t_kind t \<notin> set (g_kinds g)"
    using assms(1) by (auto simp: bind_res_eq_Inr Let_def split: if_splits)
  then show ?thesis using ensure_group_for_ranks_spec [OF e(1) assms(2,3)] assms(4) by auto
qed

lemma dit_group_loop_None:
  assumes "dit_group_loop st t F sps = Inr (st', None)" "topology_inv (dg_topology st)" "mark_free (dg_topology st)"
    "t_kind t \<in> set DIT_TASK_KINDS"
  shows "sps = []"
proof (cases sps)
  case (Cons sp l)
  then obtain T g rs where e: "ensure_group_for_ranks (dg_topology st) rs DIT_TASK_KINDS = Inr (T, g)"
    "t_kind t \<notin> set (g_kinds g)"
    using assms(1) by (auto simp: bind_res_eq_Inr Let_def split: if_splits)
  then show ?thesis using ensure_group_for_ranks_spec [OF e(1) assms(2,3)] assms(4) by auto
qed

lemma candidates_order_length:
  assumes "candidates_order st est t fitting = Inr sps"
  shows "length sps = length fitting"
proof -
  have len: "length costs = length xs" if "map_res f xs = Inr costs" for f :: "int \<Rightarrow> (xrat \<times> int) res" and xs costs
    using that unfolding map_res_Inr by (metis length_map)
  show ?thesis using assms len
    by (auto simp: candidates_order_def bind_res_eq_Inr split: option.splits)
qed

text \<open>An unpinned task of a standard kind is passed over only when no rank is free.\<close>

lemma select_placement_None:
  assumes "select_placement st est t F = Inr (st', None)" "edf_inv H st" "finite F"
    and "t_group_id t = None" "t_kind t \<in> set EDF_STANDARD_TASK_KINDS"
  shows "F = {}"
proof (rule ccontr)
  assume F: "F \<noteq> {}"
  note top = edf_invD(4,5) [OF assms(2)]
  show False
  proof (cases "t_kind t \<in> set SINGLE_RANK_TASK_KINDS")
    case True
    then have "single_rank_loop st t (sorted_list_of_set F) = Inr (st', None)"
      using assms(1,4) by (simp add: select_placement_def select_single_rank_group_def)
    from single_rank_loop_None [OF this top assms(5)] show False using F assms(3) by simp
  next
    case False
    then have dit: "t_kind t \<in> set DIT_TASK_KINDS" using assms(5) by (simp add: EDF_STANDARD_TASK_KINDS_def)
    let ?fit = "filter (\<lambda>s. s \<le> int (card F)) (ed_allowed_sp_sizes st)"
    have "1 \<le> int (card F)" using F assms(3) by (simp add: Suc_le_eq card_gt_0_iff)
    then have "1 \<in> set ?fit" using edf_invD(7) [OF assms(2)] by simp
    then have fit: "?fit \<noteq> []" by (metis empty_iff empty_set)
    have "select_dit_group st est t F = Inr (st', None)"
      using assms(1,4) False dit by (simp add: select_placement_def)
    then have "bind_res (candidates_order st est t ?fit) (dit_group_loop st t F) = Inr (st', None)"
      using F fit unfolding select_dit_group_def Let_def by simp
    then obtain sps where sps: "candidates_order st est t ?fit = Inr sps" "dit_group_loop st t F sps = Inr (st', None)"
      unfolding bind_res_eq_Inr by blast
    have "sps = []" by (rule dit_group_loop_None [OF sps(2) top dit])
    then show False using candidates_order_length [OF sps(1)] fit by simp
  qed
qed

lemma select_placement_empty:
  assumes "t_group_id t = None" "t_kind t \<in> set EDF_STANDARD_TASK_KINDS"
  shows "select_placement st est t {} = Inr (st, None)"
  using assms by (auto simp: select_placement_def select_single_rank_group_def select_dit_group_def EDF_STANDARD_TASK_KINDS_def)

definition unpinned :: "heap \<Rightarrow> (string \<times> string) list \<Rightarrow> bool" where
  "unpinned h ready \<longleftrightarrow>
     (\<forall>(rid, tk) \<in> set ready. t_group_id (h tk) = None \<and> t_kind (h tk) \<in> set EDF_STANDARD_TASK_KINDS)"

lemma edf_place_empty: "unpinned h ready \<Longrightarrow> edf_place est ready {} (h, st) = Inr ((h, st), [])"
proof (induction ready)
  case (Cons e ready)
  then show ?case by (cases e) (auto simp: unpinned_def select_placement_empty)
qed simp

lemma edf_place_prefix:
  assumes "edf_place est ready F (h, st) = Inr ((h', st'), out)"
    and "edf_inv H st" "F = free_rank_set st" "heads_ok st ready" "unpinned h ready" "distinct (map snd ready)"
  shows "\<exists>n \<le> length ready. out = take n (map snd ready) \<and> (n < length ready \<longrightarrow> free_rank_set st' = {})"
  using assms
proof (induction ready arbitrary: F h st out)
  case Nil
  then show ?case by simp
next
  case (Cons e ready)
  obtain rid tk where e: "e = (rid, tk)" by (cases e)
  have t: "t_group_id (h tk) = None" "t_kind (h tk) \<in> set EDF_STANDARD_TASK_KINDS" "unpinned h ready"
    using Cons.prems(5) by (auto simp: e unpinned_def)
  have fin: "finite F" using Cons.prems(3) by simp
  show ?case
  proof (cases "F = {}")
    case True
    then have "st' = st" "out = []"
      using Cons.prems(1) edf_place_empty [OF Cons.prems(5), of est st] by auto
    then show ?thesis using True Cons.prems(3) by (intro exI [of _ 0]) simp
  next
    case False
    obtain st1 pl where sel: "select_placement st est (h tk) F = Inr (st1, pl)"
      and rest: "(case pl of None \<Rightarrow> edf_place est ready F (h, st1)
        | Some (gid, ranks) \<Rightarrow> bind_res (edf_dispatch_task tk rid gid ranks (h, st1)) (\<lambda>s2.
            bind_res (edf_place est ready (F - set ranks) s2) (\<lambda>(s3, out). Inr (s3, tk # out))))
      = Inr ((h', st'), out)"
      using Cons.prems(1) e by (auto simp: bind_res_eq_Inr)
    have "pl \<noteq> None"
    proof
      assume "pl = None"
      with sel have "select_placement st est (h tk) F = Inr (st1, None)" by simp
      from select_placement_None [OF this Cons.prems(2) fin t(1,2)] show False using False by simp
    qed
    then obtain gid ranks where a: "pl = Some (gid, ranks)" by auto
    from select_placement_ok [OF sel Cons.prems(2) fin] obtain T where
      st1: "st1 = st\<lparr>dg_topology := T\<rparr>" and gr: "topology_grows (dg_topology st) T"
      and g: "gid \<noteq> reshard_mark" "set ranks \<subseteq> F"
      using a by (auto simp: placement_ok_def)
    have inv1: "edf_inv H st1" unfolding st1 by (rule edf_inv_topology [OF Cons.prems(2) gr])
    have F1: "free_rank_set st1 = F"
      using Cons.prems(3) topology_growsD [OF gr] by (simp add: st1 free_rank_set_def)
    have heads: "heads_ok st1 ready" "rid \<notin> fst ` set ready" and q: "\<exists>q. edf_queue st1 rid = tk # q"
      using Cons.prems(4) by (auto simp: e heads_ok_Cons st1 heads_ok_def)
    obtain q where q: "edf_queue st1 rid = tk # q" using q by blast
    let ?st = "edf_started tk rid gid ranks q st1"
    let ?h = "h(tk := (h tk)\<lparr>t_group_id := Some gid, t_status := DISPATCHED\<rparr>)"
    obtain out1 where place: "edf_place est ready (F - set ranks) (?h, ?st) = Inr ((h', st'), out1)"
      and out: "out = tk # out1"
      using rest unfolding a edf_dispatch_task_eq [OF q] by (auto simp: bind_res_eq_Inr)
    note started = edf_started_ok [OF inv1 q _ g(1), unfolded F1, OF g(2)]
    have heads': "heads_ok ?st ready"
      by (rule heads_ok_cong [OF heads(1)]) (use heads(2) in \<open>auto simp: queue_edf_started\<close>)
    have unp: "unpinned ?h ready" using t(3) Cons.prems(6) by (force simp: unpinned_def e)
    have "distinct (map snd ready)" using Cons.prems(6) by simp
    from Cons.IH [OF place edf.dispatchedD(1) [OF started(1)] started(2) [symmetric] heads' unp this]
    obtain n where "n \<le> length ready" "out1 = take n (map snd ready)"
        "n < length ready \<longrightarrow> free_rank_set st' = {}" by blast
    then show ?thesis using out by (intro exI [of _ "Suc n"]) (simp add: e)
  qed
qed

lemma edf_order_distinct:
  assumes "edf_inv H st"
  shows "distinct (map snd (edf_order st))"
proof -
  note heads = heads_ok_ready [OF edf_invD(3) [OF assms]]
  have "inj_on snd (set (edf_order st))"
  proof (rule inj_onI)
    fix a b assume ab: "a \<in> set (edf_order st)" "b \<in> set (edf_order st)" "snd a = snd b"
    obtain q q' where "edf_queue st (fst a) = snd a # q" "edf_queue st (fst b) = snd b # q'"
      using heads_okD [OF heads] ab(1,2) by (metis prod.collapse)
    then have "fst a = fst b"
      using queues_okD(2) [OF edf_invD(2) [OF assms], of "fst a" "fst b"] ab(3) by auto
    then show "a = b" using ab(3) by (rule prod_eqI)
  qed
  moreover have "distinct (edf_order st)" using heads unfolding heads_ok_def by (metis distinct_map)
  ultimately show ?thesis by (simp add: distinct_map)
qed

text \<open>
  C18: Deadline order is never inverted for lack of looking: when the waiting tasks are unpinned, one
  dispatch pass serves exactly a prefix of the requests sorted by deadline, priority, arrival
  and submission, and if it stops before the end no rank is left free.
\<close>

theorem edf_greedy_serves_prefix:
  assumes "edf_init T allowed = Inr st0" "topology_inv T" "mark_free T"
    and "edf_reach no_prep (edf_take_dispatchable est) edf_drop_request st0 (h, st) H"
    and "edf_take_dispatchable est (h, st) = Inr ((h', st'), out)"
    and "\<forall>(rid, tk) \<in> set (edf_order st). t_group_id (h tk) = None \<and> t_kind (h tk) \<in> set EDF_STANDARD_TASK_KINDS"
  shows "sorted (map (\<lambda>(rid, tk). request_sort_key st rid) (edf_order st))
     \<and> (\<exists>n \<le> length (edf_order st). out = take n (map snd (edf_order st))
          \<and> (n < length (edf_order st) \<longrightarrow> free_rank_set st' = {}))"
proof -
  have inv: "edf_inv H st" using edf_greedy_inv [OF assms(1-4)] by simp
  have "edf_place est (edf_order st) (free_rank_set st) (h, st) = Inr ((h', st'), out)"
    using assms(5) by (simp add: edf_take_dispatchable_def)
  moreover have "unpinned h (edf_order st)" using assms(6) by (simp add: unpinned_def)
  ultimately have "\<exists>n \<le> length (edf_order st). out = take n (map snd (edf_order st))
      \<and> (n < length (edf_order st) \<longrightarrow> free_rank_set st' = {})"
    using edf_place_prefix [OF _ inv refl heads_ok_ready [OF edf_invD(3) [OF inv]] _ edf_order_distinct [OF inv]] by blast
  moreover have "sorted (map (\<lambda>(rid, tk). request_sort_key st rid) (edf_order st))"
    unfolding edf_order_def by (rule sorted_sort_key)
  ultimately show ?thesis by blast
qed

subsection \<open>A concrete run\<close>

text \<open>
  All ranks are held while two denoising chunks become runnable; once the hold is released the
  first takes all four ranks.
\<close>

definition ex_edf0 :: edf where
  "ex_edf0 = (case edf_init ex_topology None of Inr st \<Rightarrow> st | Inl _ \<Rightarrow>
     dynamic_step.extend (dynamic_step_init ex_topology None None)
       \<lparr>ed_ready_by_request = [], ed_request_meta = (\<lambda>_. None), ed_plans = (\<lambda>_. None),
        ed_request_inflight = (\<lambda>_. None), ed_request_last_group = (\<lambda>_. None), ed_request_seq = 0,
        ed_now_ms = 0, ed_allowed_sp_sizes = []\<rparr>)"

definition ex_edf_heap :: heap where
  "ex_edf_heap tk = (ex_task tk [])\<lparr>t_group_id := None\<rparr>"

definition ex_all :: "int list" where "ex_all = [0, 1, 2, 3]"

lemma ex_edf_init: "edf_init ex_topology None = Inr ex_edf0"
proof -
  have "case edf_init ex_topology None of Inl _ \<Rightarrow> False | Inr _ \<Rightarrow> True" by code_simp
  then show ?thesis by (auto simp: ex_edf0_def split: sum.splits)
qed

lemma ex_edf_run:
  "case edf_runnable (edf_take_dispatchable None) [''t1'', ''t2''] (ex_edf_heap, acquire_migration_hold ex_all ex_edf0) of
     Inl _ \<Rightarrow> False
   | Inr ((h, st), out) \<Rightarrow> out = []
       \<and> list_all (\<lambda>(rid, tk). t_group_id (h tk) = None \<and> t_kind (h tk) \<in> set EDF_STANDARD_TASK_KINDS)
           (edf_order (release_migration_hold ex_all st))
       \<and> map snd (edf_order (release_migration_hold ex_all st)) = [''t1'', ''t2'']
       \<and> (case edf_take_dispatchable None (h, release_migration_hold ex_all st) of
            Inl _ \<Rightarrow> False
          | Inr ((h', st'), out') \<Rightarrow> out' = [''t1''] \<and> dy_dispatched_ranks_by_task st' ''t1'' = Some [0, 1, 2, 3])"
  by code_simp

lemma ex_edf_reach:
  "\<exists>h st h' st' H. edf_reach no_prep (edf_take_dispatchable None) edf_drop_request ex_edf0 (h, st) H
     \<and> unpinned h (edf_order st) \<and> map snd (edf_order st) = [''t1'', ''t2'']
     \<and> edf_take_dispatchable None (h, st) = Inr ((h', st'), [''t1''])"
proof -
  let ?sa = "acquire_migration_hold ex_all ex_edf0"
  obtain h st out where run: "edf_runnable (edf_take_dispatchable None) [''t1'', ''t2''] (ex_edf_heap, ?sa) = Inr ((h, st), out)"
    using ex_edf_run by (auto split: sum.splits)
  let ?st = "release_migration_hold ex_all st"
  have r1: "edf_reach no_prep (edf_take_dispatchable None) edf_drop_request ex_edf0 (ex_edf_heap, ?sa) (\<lambda>r. 0 + count_list ex_all r)"
    by (rule edf_reach.hold [OF edf_reach.start])
  have q: "ed_ready_by_request ?sa = []" "dg_dispatched_kind ?sa = (\<lambda>_. None)"
    by code_simp (simp add: ex_edf0_def ex_edf_init acquire_migration_hold_def claim_ranks_def edf_init_def
        bind_res_def dynamic_step.extend_def dynamic_step_init_def disaggregate.extend_def disaggregate_init_def
        normalize_allowed_sp_sizes_def Let_def split: sum.split)
  have "edf_reach no_prep (edf_take_dispatchable None) edf_drop_request ex_edf0 (h, st) (\<lambda>r. 0 + count_list ex_all r)"
    by (rule edf_reach.runnable [OF r1 run]) (simp_all add: edf_fresh_def edf_queue_def q)
  then have "edf_reach no_prep (edf_take_dispatchable None) edf_drop_request ex_edf0 (h, ?st)
      (\<lambda>r. 0 + count_list ex_all r - count_list ex_all r)"
    by (rule edf_reach.unhold) simp
  moreover have "unpinned h (edf_order ?st)" "map snd (edf_order ?st) = [''t1'', ''t2'']"
    using ex_edf_run [unfolded run] by (simp_all add: unpinned_def list_all_iff)
  moreover obtain h' st' where "edf_take_dispatchable None (h, ?st) = Inr ((h', st'), [''t1''])"
    using ex_edf_run [unfolded run] by (auto split: sum.splits)
  ultimately show ?thesis by (intro exI conjI)
qed

theorem edf_ranks_exclusive_witness:
  "\<exists>h st H. edf_reach no_prep (edf_take_dispatchable None) edf_drop_request ex_edf0 (h, st) H
     \<and> free_rank_set st \<subseteq> {r. H r = 0}"
proof -
  obtain h st H where r: "edf_reach no_prep (edf_take_dispatchable None) edf_drop_request ex_edf0 (h, st) H"
    using ex_edf_reach by blast
  from edf_ranks_exclusive [OF ex_edf_init ex_topology_inv ex_mark_free r]
  have "free_rank_set st \<subseteq> {r. H r = 0}" by blast
  then show ?thesis using r by blast
qed

theorem edf_greedy_serves_prefix_witness:
  "\<exists>h st h' st' H. edf_reach no_prep (edf_take_dispatchable None) edf_drop_request ex_edf0 (h, st) H
     \<and> edf_take_dispatchable None (h, st) = Inr ((h', st'), [''t1'']) \<and> free_rank_set st' = {}"
proof -
  obtain h st h' st' H where r: "edf_reach no_prep (edf_take_dispatchable None) edf_drop_request ex_edf0 (h, st) H"
    "unpinned h (edf_order st)" "map snd (edf_order st) = [''t1'', ''t2'']" "edf_take_dispatchable None (h, st) = Inr ((h', st'), [''t1''])"
    using ex_edf_reach by (elim exE conjE)
  from edf_greedy_serves_prefix [OF ex_edf_init ex_topology_inv ex_mark_free r(1,4) r(2) [unfolded unpinned_def]]
  obtain n where n: "[''t1''] = take n [''t1'', ''t2'']" "n < length (edf_order st) \<longrightarrow> free_rank_set st' = {}"
    unfolding r(3) by blast
  have "length (edf_order st) = 2" using arg_cong [OF r(3), of length] by simp
  moreover have "n < 2"
  proof (rule ccontr)
    assume "\<not> n < 2"
    then have "take n [''t1'', ''t2''] = [''t1'', ''t2'']" by simp
    then show False using n(1) by simp
  qed
  ultimately show ?thesis using r n(2) by auto
qed

subsection \<open>Conflicting on-demand groups\<close>

text \<open>
  C23: The id of an on-demand group does not mention the task kinds it supports. Once a group for the
  denoising kinds has been created on some ranks, asking for a group of all kinds on the same ranks
  raises: the same id would denote two different groups.
\<close>

theorem on_demand_group_conflict:
  assumes "topology_inv T" "find_existing_group T ranks DIT_TASK_KINDS = None"
    and "ensure_group_for_ranks T ranks DIT_TASK_KINDS = Inr (T', g)"
  shows "ensure_group_for_ranks T' ranks EDF_STANDARD_TASK_KINDS = Inl ValueError"
proof -
  obtain par where par: "mk_parallel_spec 1 (int (length ranks)) 1 False = Inr par"
    and g: "mk_group_spec (edf_group_id ranks) ranks par DIT_TASK_KINDS (int (length ranks)) 1 = Inr g"
    and e: "ensure_group T g = Inr (T', g)"
    using assms(2,3) ensure_group_inv [OF assms(1)] by (fastforce simp: ensure_group_for_ranks_def bind_res_eq_Inr)
  have G: "g_id g = edf_group_id ranks" "g_kinds g = DIT_TASK_KINDS"
    using g by (auto simp: mk_group_spec_def Let_def split: if_splits)
  note E = ensure_group_inv [OF assms(1) e]
  have sub: "set DIT_TASK_KINDS \<subseteq> set EDF_STANDARD_TASK_KINDS" "TEXT_ENCODE \<in> set EDF_STANDARD_TASK_KINDS"
      "TEXT_ENCODE \<notin> set DIT_TASK_KINDS"
    by (auto simp: EDF_STANDARD_TASK_KINDS_def SINGLE_RANK_TASK_KINDS_def DIT_TASK_KINDS_def)
  have none: "find_existing_group T' ranks EDF_STANDARD_TASK_KINDS = None"
    using assms(2) E sub G(2) unfolding find_existing_group_def find_None_iff by (metis (no_types, lifting) insert_iff subset_trans subsetD)
  have "\<exists>g2. mk_group_spec (edf_group_id ranks) ranks par EDF_STANDARD_TASK_KINDS (int (length ranks)) 1 = Inr g2
      \<and> g_id g2 = edf_group_id ranks \<and> g_kinds g2 = EDF_STANDARD_TASK_KINDS"
    using g by (auto simp: mk_group_spec_def Let_def split: if_splits)
  then obtain g2 where g2: "mk_group_spec (edf_group_id ranks) ranks par EDF_STANDARD_TASK_KINDS (int (length ranks)) 1 = Inr g2"
      "g_id g2 = edf_group_id ranks" "g_kinds g2 = EDF_STANDARD_TASK_KINDS" by blast
  have "tp_groups_by_id T' (g_id g2) = Some g" using E G(1) g2(2) by (simp add: get_group_def)
  moreover have "g \<noteq> g2" using G(2) g2(3) sub by auto
  ultimately show ?thesis using none par g2(1) by (simp add: ensure_group_for_ranks_def ensure_group_def)
qed

text \<open>A denoising chunk runs on rank 0 alone; a text encoding on rank 0 then raises.\<close>

theorem on_demand_group_conflict_witness:
  "\<exists>T' g. ensure_group_for_ranks ex_topology [0] DIT_TASK_KINDS = Inr (T', g)
     \<and> ensure_group_for_ranks T' [0] EDF_STANDARD_TASK_KINDS = Inl ValueError"
proof -
  have "find_existing_group ex_topology [0] DIT_TASK_KINDS = None" by code_simp
  moreover have "case ensure_group_for_ranks ex_topology [0] DIT_TASK_KINDS of Inl _ \<Rightarrow> False | Inr _ \<Rightarrow> True" by code_simp
  then obtain T' g where "ensure_group_for_ranks ex_topology [0] DIT_TASK_KINDS = Inr (T', g)"
    by (auto split: sum.splits)
  ultimately show ?thesis using on_demand_group_conflict [OF ex_topology_inv] by blast
qed

end
