(* ===== verification/EdfBestFit.thy ===== *)
theory EdfBestFit
  imports EdfGreedy "HOL-Library.Sublist"
begin

text \<open>
  Deadline-aware best fit with redistribution of the surplus
  (\<open>runtime_v2/policies/edf_best_fit.py\<close>), an extension of the greedy EDF policy. The set
  \<open>_estimate_warned\<close> and the dispatch trace only control logging and are left out; the payload
  entry \<open>cost_model_stage\<close> is read as a string.
\<close>

section \<open>State\<close>

record bf_shape =
  bs_latent_seq_len :: int
  bs_voxels :: int
  bs_text_seq_len :: int
  bs_num_steps :: int
  bs_chunk_steps :: int

text \<open>The request metadata of this policy are those of the greedy one together with a shape.\<close>

record best_fit = edf +
  bf_request_shape :: "string \<Rightarrow> bf_shape option"
  bf_request_tasks :: "string \<Rightarrow> string list option"

definition best_fit_init :: "topology \<Rightarrow> int list option \<Rightarrow> best_fit res" where
  "best_fit_init T allowed =
     bind_res (edf_init T allowed) (\<lambda>st.
       Inr (edf.extend st \<lparr>bf_request_shape = (\<lambda>_. None), bf_request_tasks = (\<lambda>_. None)\<rparr>))"

text \<open>\<open>int(x)\<close>; \<open>istr\<close> is the builtin on strings, \<open>None\<close> where it raises.\<close>

fun py_int :: "(string \<Rightarrow> int option) \<Rightarrow> pyval \<Rightarrow> int option" where
  "py_int istr (PyInt i) = Some i"
| "py_int istr (PyFloat q) = Some (trunc q)"
| "py_int istr (PyBool b) = Some (if b then 1 else 0)"
| "py_int istr (PyStr s) = istr s"
| "py_int istr _ = None"

text \<open>\<open>lookup_int\<close>; the missing number (\<open>nan\<close> in the source) is \<open>Infty\<close> here.\<close>

definition lookup_int ::
  "(string \<Rightarrow> rat option) \<Rightarrow> (string \<Rightarrow> int option) \<Rightarrow> plan \<Rightarrow> string list \<Rightarrow> int \<Rightarrow> int" where
  "lookup_int fstr istr p names dflt =
     (case first_Some (map (\<lambda>n. case map_of (p_metadata p) n of None \<Rightarrow> None | Some x \<Rightarrow> py_int istr x) names) of
        Some i \<Rightarrow> i
      | None \<Rightarrow> (case metadata_number fstr (initial_value p) names Infty of Fin q \<Rightarrow> trunc q | Infty \<Rightarrow> dflt))"

definition shape_from_plan :: "(string \<Rightarrow> rat option) \<Rightarrow> (string \<Rightarrow> int option) \<Rightarrow> plan \<Rightarrow> bf_shape" where
  "shape_from_plan fstr istr p =
     \<lparr>bs_latent_seq_len = lookup_int fstr istr p [''latent_seq_len''] 0,
      bs_voxels = lookup_int fstr istr p [''voxels''] 0,
      bs_text_seq_len = lookup_int fstr istr p [''text_seq_len''] 512,
      bs_num_steps = lookup_int fstr istr p [''num_steps''] 0,
      bs_chunk_steps = lookup_int fstr istr p [''denoise_chunk_size'', ''chunk_size''] 1\<rparr>"

definition bf_prepare ::
  "(string \<Rightarrow> int option) \<Rightarrow> (string \<Rightarrow> rat option) \<Rightarrow> plan \<Rightarrow> 'a best_fit_scheme \<Rightarrow> 'a best_fit_scheme" where
  "bf_prepare istr fstr p st =
     st\<lparr>bf_request_tasks := (bf_request_tasks st)(p_request_id p \<mapsto> map (\<lambda>(k, t). t_id t) (p_tasks p)),
        bf_request_shape := (bf_request_shape st)(p_request_id p \<mapsto> shape_from_plan fstr istr p)\<rparr>"

definition best_fit_submit ::
  "(string \<Rightarrow> rat option) \<Rightarrow> (string \<Rightarrow> int option) \<Rightarrow> int \<Rightarrow> 'a best_fit_scheme dispatch \<Rightarrow> plan
   \<Rightarrow> 'a best_fit_scheme dispatch" where
  "best_fit_submit fstr istr clock_ns take_tasks p s =
     (case s of (h, st) \<Rightarrow> edf_submit fstr clock_ns take_tasks p (h, bf_prepare istr fstr p st))"

definition best_fit_drop_request :: "string \<Rightarrow> 'a best_fit_scheme \<Rightarrow> 'a best_fit_scheme" where
  "best_fit_drop_request rid st =
     edf_drop_request rid
       (st\<lparr>bf_request_tasks := (bf_request_tasks st)(rid := None),
           bf_request_shape := (bf_request_shape st)(rid := None)\<rparr>)"

section \<open>Estimated finish\<close>

fun xadd :: "xrat \<Rightarrow> xrat \<Rightarrow> xrat" where
  "xadd (Fin a) (Fin b) = Fin (a + b)"
| "xadd _ _ = Infty"

fun xscale :: "xrat \<Rightarrow> int \<Rightarrow> xrat" where
  "xscale (Fin a) n = Fin (a * of_int n)"
| "xscale Infty n = Infty"

definition sp_spec :: "int \<Rightarrow> parallel_spec" where
  "sp_spec sp = \<lparr>ps_tp = 1, ps_sp = sp, ps_cfg = 1, ps_cfg_parallel = False\<rparr>"

text \<open>An estimator that raises counts as zero.\<close>

definition safe_estimate :: "estimator \<Rightarrow> parallel_spec \<Rightarrow> int \<Rightarrow> string \<Rightarrow> xrat" where
  "safe_estimate e spec n stage = (case e spec n stage of Inr x \<Rightarrow> x | Inl _ \<Rightarrow> Fin 0)"

definition task_estimate :: "estimator \<Rightarrow> bf_shape \<Rightarrow> int \<Rightarrow> task \<Rightarrow> xrat" where
  "task_estimate e m sp t =
     (case t_kind t of
        DIT_STEP_CHUNK \<Rightarrow>
          let steps = (case t_step_range t of None \<Rightarrow> 1 | Some r \<Rightarrow> max 1 (sr_end r - sr_start r));
              stage = (case nonempty_str (map_of (t_payload t) ''cost_model_stage'') of
                         Some s \<Rightarrow> s | None \<Rightarrow> ''dit_step_chunk'')
          in xscale (safe_estimate e (sp_spec sp) (bs_latent_seq_len m) stage) steps
      | DIT_PREPARE \<Rightarrow> safe_estimate e (sp_spec sp) (bs_latent_seq_len m) ''dit_prepare''
      | TIMESTEP_PREPARE \<Rightarrow> safe_estimate e (sp_spec sp) (bs_num_steps m) ''timestep_prepare''
      | TEXT_ENCODE \<Rightarrow> safe_estimate e (sp_spec 1) (bs_text_seq_len m) ''text_encode''
      | VAE_DECODE \<Rightarrow> safe_estimate e (sp_spec 1) (bs_voxels m) ''vae_decode''
      | FINALIZE \<Rightarrow> safe_estimate e (sp_spec 1) 1 ''finalize''
      | RESHARD \<Rightarrow> Fin 0)"

definition estimate_finish_ms :: "heap \<Rightarrow> 'a best_fit_scheme \<Rightarrow> estimator option \<Rightarrow> string \<Rightarrow> int \<Rightarrow> xrat" where
  "estimate_finish_ms h st est rid sp =
     (case (bf_request_shape st rid, est) of
        (Some m, Some e) \<Rightarrow>
          let ts = map h (case bf_request_tasks st rid of None \<Rightarrow> [] | Some l \<Rightarrow> l)
          in xadd (Fin (ed_now_ms st))
               (fold (\<lambda>t total. if t_status t = FINISHED then total else xadd total (task_estimate e m sp t)) ts (Fin 0))
      | _ \<Rightarrow> Infty)"

section \<open>Pass 1: best fit\<close>

fun first_meeting :: "(int \<Rightarrow> xrat) \<Rightarrow> xrat \<Rightarrow> int list \<Rightarrow> int option" where
  "first_meeting fin d [] = None"
| "first_meeting fin d (s # ss) = (if fin s \<le> d then Some s else first_meeting fin d ss)"

definition best_fit_sp ::
  "heap \<Rightarrow> 'a best_fit_scheme \<Rightarrow> estimator option \<Rightarrow> string \<Rightarrow> task \<Rightarrow> int \<Rightarrow> int option" where
  "best_fit_sp h st est rid t budget =
     (if budget \<le> 0 then None
      else if t_kind t \<in> set SINGLE_RANK_TASK_KINDS then
        (let sp = (if 1 \<in> set (ed_allowed_sp_sizes st) then 1 else Min (set (ed_allowed_sp_sizes st)))
         in if sp \<le> budget then Some sp else None)
      else if t_kind t \<notin> set DIT_TASK_KINDS then None
      else
        case sort (filter (\<lambda>s. s \<le> budget) (ed_allowed_sp_sizes st)) of
          [] \<Rightarrow> None
        | c # cs \<Rightarrow>
            (case (ed_request_meta st rid, est) of
               (Some m, Some e) \<Rightarrow>
                 (case em_deadline_ms m of
                    Infty \<Rightarrow> Some (last (c # cs))
                  | Fin d \<Rightarrow>
                      (case first_meeting (estimate_finish_ms h st est rid) (Fin d) (c # cs) of
                         Some s \<Rightarrow> Some s
                       | None \<Rightarrow> Some (min_by (estimate_finish_ms h st est rid) c cs)))
             | _ \<Rightarrow> Some (last (c # cs))))"

text \<open>An entry of the tentative plan: request, task and size.\<close>

type_synonym bf_entry = "string \<times> string \<times> int"

fun bf_pass1 ::
  "heap \<Rightarrow> 'a best_fit_scheme \<Rightarrow> estimator option \<Rightarrow> (string \<times> string) list \<Rightarrow> int \<Rightarrow> bf_entry list \<times> int" where
  "bf_pass1 h st est [] budget = ([], budget)"
| "bf_pass1 h st est ((rid, tk) # ready) budget =
     (case best_fit_sp h st est rid (h tk) budget of
        None \<Rightarrow> bf_pass1 h st est ready budget
      | Some sp \<Rightarrow> (let (es, b) = bf_pass1 h st est ready (budget - sp) in ((rid, tk, sp) # es, b)))"

section \<open>Pass 2: redistribution of the surplus\<close>

text \<open>The smallest larger size that fits the budget and finishes earlier.\<close>

fun find_upgrade :: "(int \<Rightarrow> xrat) \<Rightarrow> int \<Rightarrow> int \<Rightarrow> int list \<Rightarrow> int option" where
  "find_upgrade fin cur budget [] = None"
| "find_upgrade fin cur budget (s # ss) =
     (if s \<le> cur then find_upgrade fin cur budget ss
      else if s - cur > budget then None
      else if fin s < fin cur then Some s
      else find_upgrade fin cur budget ss)"

fun promote ::
  "heap \<Rightarrow> 'a best_fit_scheme \<Rightarrow> estimator option \<Rightarrow> bf_entry list \<Rightarrow> int \<Rightarrow> (bf_entry list \<times> int) option" where
  "promote h st est [] budget = None"
| "promote h st est ((rid, tk, cur) # es) budget =
     (case (if t_kind (h tk) \<in> set DIT_TASK_KINDS
            then find_upgrade (estimate_finish_ms h st est rid) cur budget (sort (ed_allowed_sp_sizes st)) else None) of
        Some s \<Rightarrow> Some ((rid, tk, s) # es, budget - (s - cur))
      | None \<Rightarrow> map_option (\<lambda>(es', b). ((rid, tk, cur) # es', b)) (promote h st est es budget))"

lemma find_upgrade_Some:
  "find_upgrade fin cur budget ss = Some s \<Longrightarrow> s \<in> set ss \<and> cur < s \<and> s - cur \<le> budget \<and> fin s < fin cur"
  by (induction ss) (auto split: if_splits)

lemma promote_decreases: "promote h st est es budget = Some (es', b) \<Longrightarrow> 0 \<le> b \<and> b < budget"
  by (induction es arbitrary: es' b)
    (auto split: option.splits if_splits dest!: find_upgrade_Some)

function bf_pass2 ::
  "heap \<Rightarrow> 'a best_fit_scheme \<Rightarrow> estimator option \<Rightarrow> bf_entry list \<Rightarrow> int \<Rightarrow> bf_entry list \<times> int" where
  "bf_pass2 h st est es budget =
     (if budget \<le> 0 then (es, budget)
      else case promote h st est es budget of
             None \<Rightarrow> (es, budget)
           | Some (es', b) \<Rightarrow> bf_pass2 h st est es' b)"
  by pat_completeness auto
termination
  by (relation "measure (\<lambda>(h, st, est, es, budget). nat budget)") (auto dest: promote_decreases)

declare bf_pass2.simps [simp del]

section \<open>Pass 3 and the whole pass\<close>

definition bf_ranks :: "'a best_fit_scheme \<Rightarrow> task \<Rightarrow> string \<Rightarrow> int \<Rightarrow> int set \<Rightarrow> (int list \<times> task_kind list) res" where
  "bf_ranks st t rid sp free_ranks =
     (if t_kind t \<in> set SINGLE_RANK_TASK_KINDS
      then (if free_ranks = {} then Inl ValueError else Inr ([Min free_ranks], EDF_STANDARD_TASK_KINDS))
      else Inr (pick_ranks_for_request st rid sp free_ranks, DIT_TASK_KINDS))"

fun bf_pass3 ::
  "bf_entry list \<Rightarrow> int set \<Rightarrow> heap \<times> 'a best_fit_scheme \<Rightarrow> ((heap \<times> 'a best_fit_scheme) \<times> string list) res" where
  "bf_pass3 [] free_ranks s = Inr (s, [])"
| "bf_pass3 ((rid, tk, sp) # es) free_ranks (h, st) =
     bind_res (bf_ranks st (h tk) rid sp free_ranks) (\<lambda>(ranks, kinds).
     bind_res (ensure_group_for_ranks (dg_topology st) ranks kinds) (\<lambda>(T, g).
     bind_res (edf_dispatch_task tk rid (g_id g) ranks (h, st\<lparr>dg_topology := T\<rparr>)) (\<lambda>s2.
     bind_res (bf_pass3 es (free_ranks - set ranks) s2) (\<lambda>(s3, out). Inr (s3, tk # out)))))"

text \<open>Tasks pinned to a group are placed first; the others are returned with the remaining free ranks.\<close>

fun bf_pinned ::
  "estimator option \<Rightarrow> (string \<times> string) list \<Rightarrow> int set \<Rightarrow> heap \<times> 'a best_fit_scheme
   \<Rightarrow> ((heap \<times> 'a best_fit_scheme) \<times> int set \<times> (string \<times> string) list \<times> string list) res" where
  "bf_pinned est [] free_ranks s = Inr (s, free_ranks, [], [])"
| "bf_pinned est ((rid, tk) # ready) free_ranks (h, st) =
     (if t_group_id (h tk) = None then
        bind_res (bf_pinned est ready free_ranks (h, st)) (\<lambda>(s, F, rest, out). Inr (s, F, (rid, tk) # rest, out))
      else
        bind_res (select_placement st est (h tk) free_ranks) (\<lambda>(st1, placement).
          case placement of
            None \<Rightarrow> bf_pinned est ready free_ranks (h, st1)
          | Some (gid, ranks) \<Rightarrow>
              bind_res (edf_dispatch_task tk rid gid ranks (h, st1)) (\<lambda>s2.
              bind_res (bf_pinned est ready (free_ranks - set ranks) s2) (\<lambda>(s, F, rest, out).
                Inr (s, F, rest, tk # out)))))"

definition bf_plan ::
  "heap \<Rightarrow> 'a best_fit_scheme \<Rightarrow> estimator option \<Rightarrow> (string \<times> string) list \<Rightarrow> int \<Rightarrow> bf_entry list \<times> int" where
  "bf_plan h st est ready budget =
     (let (es, b) = bf_pass1 h st est ready budget in bf_pass2 h st est es b)"

definition best_fit_take :: "estimator option \<Rightarrow> 'a best_fit_scheme dispatch" where
  "best_fit_take est s =
     (case s of (h, st) \<Rightarrow>
        bind_res (bf_pinned est (edf_order st) (free_rank_set st) (h, st)) (\<lambda>((h1, st1), F, rest, out1).
          let (es, b) = bf_plan h1 st1 est rest (int (card F))
          in bind_res (bf_pass3 es F (h1, st1)) (\<lambda>(s2, out2). Inr (s2, out1 @ out2))))"

section \<open>What best fit chooses\<close>

lemma first_meeting_Some:
  assumes "first_meeting fin d ss = Some s" "sorted ss"
  shows "s \<in> set ss \<and> fin s \<le> d \<and> (\<forall>x \<in> set ss. fin x \<le> d \<longrightarrow> s \<le> x)"
  using assms by (induction ss) (auto split: if_splits)

lemma first_meeting_None: "first_meeting fin d ss = None \<longleftrightarrow> (\<forall>x \<in> set ss. \<not> fin x \<le> d)"
  by (induction ss) auto

text \<open>
  C19: For a denoising task with a finite deadline and a runtime estimate, best fit takes the
  smallest allowed size within the budget whose estimated finish meets the deadline; when no size
  meets it, it takes a size with the earliest estimated finish.
\<close>

theorem best_fit_sp_optimal:
  assumes "best_fit_sp h st (Some e) rid t budget = Some sp" "t_kind t \<in> set DIT_TASK_KINDS"
    and "ed_request_meta st rid = Some m" "em_deadline_ms m = Fin d"
  shows "sp \<in> set (ed_allowed_sp_sizes st) \<and> sp \<le> budget
    \<and> (if \<exists>s \<in> set (ed_allowed_sp_sizes st). s \<le> budget \<and> estimate_finish_ms h st (Some e) rid s \<le> Fin d
       then estimate_finish_ms h st (Some e) rid sp \<le> Fin d
         \<and> (\<forall>s \<in> set (ed_allowed_sp_sizes st). s \<le> budget \<and> estimate_finish_ms h st (Some e) rid s \<le> Fin d \<longrightarrow> sp \<le> s)
       else \<forall>s \<in> set (ed_allowed_sp_sizes st). s \<le> budget \<longrightarrow>
         estimate_finish_ms h st (Some e) rid sp \<le> estimate_finish_ms h st (Some e) rid s)"
proof -
  let ?fin = "estimate_finish_ms h st (Some e) rid"
  let ?cs = "sort (filter (\<lambda>s. s \<le> budget) (ed_allowed_sp_sizes st))"
  have kind: "t_kind t \<notin> set SINGLE_RANK_TASK_KINDS"
    using assms(2) by (auto simp: DIT_TASK_KINDS_def SINGLE_RANK_TASK_KINDS_def)
  have mem: "x \<in> set ?cs \<longleftrightarrow> x \<in> set (ed_allowed_sp_sizes st) \<and> x \<le> budget" for x by auto
  obtain c cs where cs: "?cs = c # cs" and sp: "sp = (case first_meeting ?fin (Fin d) (c # cs) of
      Some s \<Rightarrow> s | None \<Rightarrow> min_by ?fin c cs)"
    using assms kind unfolding best_fit_sp_def by (auto split: if_splits list.splits option.splits)
  have sorted: "sorted (c # cs)" using cs by (metis sorted_sort)
  show ?thesis
  proof (cases "first_meeting ?fin (Fin d) (c # cs)")
    case None
    then have "sp = min_by ?fin c cs" using sp by simp
    then have "sp \<in> set ?cs" "\<forall>y \<in> set ?cs. ?fin sp \<le> ?fin y" using min_by_spec [of ?fin c cs] cs by auto
    then show ?thesis using None unfolding first_meeting_None cs [symmetric] mem by auto
  next
    case (Some s)
    then have "sp = s" using sp by simp
    then show ?thesis using first_meeting_Some [OF Some sorted] unfolding cs [symmetric] mem by auto
  qed
qed

section \<open>The plan respects the budget\<close>

definition sizes_ok :: "'a best_fit_scheme \<Rightarrow> bool" where
  "sizes_ok st \<longleftrightarrow> 1 \<in> set (ed_allowed_sp_sizes st) \<and> (\<forall>s \<in> set (ed_allowed_sp_sizes st). 1 \<le> s)"

abbreviation total_sp :: "bf_entry list \<Rightarrow> int" where
  "total_sp es \<equiv> sum_list (map (\<lambda>(rid, tk, sp). sp) es)"

text \<open>An entry that can be placed: an allowed size, and one rank for the single-rank stages.\<close>

definition entry_ok :: "heap \<Rightarrow> 'a best_fit_scheme \<Rightarrow> bf_entry \<Rightarrow> bool" where
  "entry_ok h st e =
     (case e of (rid, tk, sp) \<Rightarrow> sp \<in> set (ed_allowed_sp_sizes st)
        \<and> t_kind (h tk) \<in> set EDF_STANDARD_TASK_KINDS
        \<and> (t_kind (h tk) \<in> set SINGLE_RANK_TASK_KINDS \<longrightarrow> sp = 1))"

lemma best_fit_sp_ok:
  assumes "best_fit_sp h st est rid (h tk) budget = Some sp" "sizes_ok st"
  shows "entry_ok h st (rid, tk, sp) \<and> 1 \<le> sp \<and> sp \<le> budget"
proof (cases "t_kind (h tk) \<in> set SINGLE_RANK_TASK_KINDS")
  case True
  then show ?thesis using assms
    by (auto simp: best_fit_sp_def sizes_ok_def entry_ok_def EDF_STANDARD_TASK_KINDS_def split: if_splits)
next
  case False
  let ?cs = "sort (filter (\<lambda>s. s \<le> budget) (ed_allowed_sp_sizes st))"
  let ?fin = "estimate_finish_ms h st est rid"
  have dit: "t_kind (h tk) \<in> set DIT_TASK_KINDS" using assms(1) False by (auto simp: best_fit_sp_def split: if_splits)
  have "sp \<in> set ?cs"
  proof (cases ?cs)
    case Nil
    then show ?thesis using assms(1) False dit by (auto simp: best_fit_sp_def split: if_splits)
  next
    case (Cons c cs)
    then have sorted: "sorted (c # cs)" by (metis sorted_sort)
    have "last (c # cs) \<in> set (c # cs)" by (rule last_in_set) simp
    moreover have "min_by ?fin c cs \<in> set (c # cs)" using min_by_spec [of ?fin c cs] by blast
    moreover have "s \<in> set (c # cs)" if "first_meeting ?fin x (c # cs) = Some s" for x s
      using first_meeting_Some [OF that sorted] by blast
    moreover have "sp = last (c # cs) \<or> sp = min_by ?fin c cs \<or> (\<exists>x. first_meeting ?fin x (c # cs) = Some sp)"
      using assms(1) False dit unfolding best_fit_sp_def Cons
      by (auto split: if_splits option.splits xrat.splits simp del: first_meeting.simps last.simps)
    ultimately show ?thesis unfolding Cons by blast
  qed
  then show ?thesis using assms(2) dit False by (auto simp: sizes_ok_def entry_ok_def EDF_STANDARD_TASK_KINDS_def)
qed

lemma bf_pass1_ok:
  assumes "bf_pass1 h st est ready budget = (es, b)" "sizes_ok st" "0 \<le> budget"
  shows "0 \<le> b \<and> total_sp es + b = budget \<and> (\<forall>e \<in> set es. entry_ok h st e)
    \<and> subseq (map (\<lambda>(rid, tk, sp). (rid, tk)) es) ready"
  using assms
proof (induction ready arbitrary: budget es b)
  case Nil
  then show ?case by simp
next
  case (Cons x ready)
  obtain rid tk where x: "x = (rid, tk)" by (cases x)
  show ?case
  proof (cases "best_fit_sp h st est rid (h tk) budget")
    case None
    then show ?thesis using Cons x by auto
  next
    case (Some sp)
    obtain es1 where es1: "bf_pass1 h st est ready (budget - sp) = (es1, b)" "es = (rid, tk, sp) # es1"
      using Cons.prems(1) x Some by (auto split: prod.splits)
    note ok = best_fit_sp_ok [OF Some Cons.prems(2)]
    then have "0 \<le> budget - sp" by simp
    from Cons.IH [OF es1(1) Cons.prems(2) this] show ?thesis using ok es1(2) x by auto
  qed
qed

text \<open>Promotion keeps the tasks and never makes an estimated finish later.\<close>

definition not_slower :: "heap \<Rightarrow> 'a best_fit_scheme \<Rightarrow> estimator option \<Rightarrow> bf_entry list \<Rightarrow> bf_entry list \<Rightarrow> bool" where
  "not_slower h st est es es' \<longleftrightarrow>
     list_all2 (\<lambda>(rid, tk, sp) (rid', tk', sp'). rid' = rid \<and> tk' = tk \<and> sp \<le> sp'
       \<and> estimate_finish_ms h st est rid sp' \<le> estimate_finish_ms h st est rid sp) es es'"

lemma not_slower_refl: "not_slower h st est es es"
  by (auto simp: not_slower_def list_all2_conv_all_nth split: prod.splits)

lemma not_slower_trans:
  assumes "not_slower h st est a b" "not_slower h st est b c"
  shows "not_slower h st est a c"
  unfolding not_slower_def
  by (rule list_all2_trans [OF _ assms [unfolded not_slower_def]]) (auto split: prod.splits intro: order_trans)

lemma not_slower_tasks:
  "not_slower h st est es es' \<Longrightarrow> map (\<lambda>(rid, tk, sp). (rid, tk)) es' = map (\<lambda>(rid, tk, sp). (rid, tk)) es"
  unfolding not_slower_def by (induction rule: list_all2_induct) auto

lemma promote_ok:
  assumes "promote h st est es budget = Some (es', b)" "\<forall>e \<in> set es. entry_ok h st e" "0 \<le> budget"
  shows "0 \<le> b \<and> total_sp es' + b = total_sp es + budget \<and> (\<forall>e \<in> set es'. entry_ok h st e) \<and> not_slower h st est es es'"
  using assms
proof (induction es arbitrary: es' b)
  case Nil
  then show ?case by simp
next
  case (Cons e es)
  obtain rid tk cur where e: "e = (rid, tk, cur)" by (cases e)
  let ?up = "if t_kind (h tk) \<in> set DIT_TASK_KINDS
    then find_upgrade (estimate_finish_ms h st est rid) cur budget (sort (ed_allowed_sp_sizes st)) else None"
  show ?case
  proof (cases ?up)
    case None
    then obtain es1 where es1: "promote h st est es budget = Some (es1, b)" "es' = e # es1"
      using Cons.prems(1) e by auto
    from Cons.IH [OF es1(1)] Cons.prems(2,3) have "0 \<le> b" "total_sp es1 + b = total_sp es + budget"
      "\<forall>e \<in> set es1. entry_ok h st e" "not_slower h st est es es1" by auto
    then show ?thesis using es1(2) Cons.prems(2) by (auto simp: not_slower_def e)
  next
    case (Some s)
    then have fu: "find_upgrade (estimate_finish_ms h st est rid) cur budget (sort (ed_allowed_sp_sizes st)) = Some s"
        "t_kind (h tk) \<in> set DIT_TASK_KINDS"
      by (auto split: if_splits)
    have up: "s \<in> set (ed_allowed_sp_sizes st)" "cur < s" "s - cur \<le> budget"
        "estimate_finish_ms h st est rid s < estimate_finish_ms h st est rid cur" "t_kind (h tk) \<in> set DIT_TASK_KINDS"
      using find_upgrade_Some [OF fu(1)] fu(2) by simp_all
    have es': "es' = (rid, tk, s) # es" "b = budget - (s - cur)" using Cons.prems(1) e Some by auto
    have "entry_ok h st (rid, tk, s)"
      using up(1,5) by (auto simp: entry_ok_def EDF_STANDARD_TASK_KINDS_def DIT_TASK_KINDS_def SINGLE_RANK_TASK_KINDS_def)
    then show ?thesis
      using up(2,3,4) es' Cons.prems(2) not_slower_refl [of h st est es] by (auto simp: e not_slower_def)
  qed
qed

lemma bf_pass2_ok:
  assumes "bf_pass2 h st est es budget = (es', b)" "\<forall>e \<in> set es. entry_ok h st e" "0 \<le> budget"
  shows "0 \<le> b \<and> total_sp es' + b = total_sp es + budget \<and> (\<forall>e \<in> set es'. entry_ok h st e) \<and> not_slower h st est es es'"
  using assms
proof (induction h st est es budget rule: bf_pass2.induct)
  case (1 h st est es budget)
  show ?case
  proof (cases "budget \<le> 0 \<or> promote h st est es budget = None")
    case True
    then have "es' = es" "b = budget" using 1(2) by (auto simp: bf_pass2.simps [of h st est es budget] split: if_splits)
    then show ?thesis using 1(3,4) not_slower_refl by auto
  next
    case False
    then obtain es1 b1 where p: "promote h st est es budget = Some (es1, b1)" by auto
    then have run: "bf_pass2 h st est es1 b1 = (es', b)"
      using 1(2) False by (simp add: bf_pass2.simps [of h st est es budget])
    note pr = promote_ok [OF p 1(3,4)]
    have "0 \<le> b \<and> total_sp es' + b = total_sp es1 + b1 \<and> (\<forall>e \<in> set es'. entry_ok h st e) \<and> not_slower h st est es1 es'"
      using 1(1) [OF _ p refl run] False pr by auto
    then show ?thesis using pr not_slower_trans by auto
  qed
qed

text \<open>
  C20: The tentative sizes of a pass never exceed the free ranks: after both planning passes the
  sizes and the rest of the budget add up to the number of free ranks, every size is allowed, a
  single-rank stage has size one, and the redistribution of the surplus never postpones the
  estimated finish of a request.
\<close>

theorem best_fit_plan_within_budget:
  assumes "bf_pass1 h st est ready budget = (es1, b1)" "bf_plan h st est ready budget = (es, b)"
    and "sizes_ok st" "0 \<le> budget"
  shows "0 \<le> b \<and> total_sp es + b = budget \<and> (\<forall>e \<in> set es. entry_ok h st e) \<and> not_slower h st est es1 es
    \<and> subseq (map (\<lambda>(rid, tk, sp). (rid, tk)) es) ready"
proof -
  have run: "bf_pass2 h st est es1 b1 = (es, b)" using assms(1,2) by (simp add: bf_plan_def)
  note p1 = bf_pass1_ok [OF assms(1,3,4)]
  have p2: "0 \<le> b \<and> total_sp es + b = total_sp es1 + b1 \<and> (\<forall>e \<in> set es. entry_ok h st e) \<and> not_slower h st est es1 es"
    by (rule bf_pass2_ok [OF run]) (use p1 in auto)
  have "map (\<lambda>(rid, tk, sp). (rid, tk)) es = map (\<lambda>(rid, tk, sp). (rid, tk)) es1"
    using p2 not_slower_tasks by blast
  then show ?thesis using p1 p2 by auto
qed

section \<open>Materialization\<close>

lemma pick_ranks_length:
  assumes "finite F" "0 \<le> sp" "sp \<le> int (card F)"
  shows "length (pick_ranks_for_request st rid sp F) = nat sp"
  using assms by (auto simp: pick_ranks_for_request_def Let_def min_def split: option.splits sum.splits)

lemma bf_ranks_ok:
  assumes "bf_ranks st t rid sp F = Inr (ranks, kinds)" "finite F" "1 \<le> sp" "sp \<le> int (card F)"
    and "t_kind t \<in> set SINGLE_RANK_TASK_KINDS \<longrightarrow> sp = 1"
  shows "set ranks \<subseteq> F \<and> int (length ranks) = sp"
proof (cases "t_kind t \<in> set SINGLE_RANK_TASK_KINDS")
  case True
  then have "F \<noteq> {}" "ranks = [Min F]" using assms(1) by (auto simp: bf_ranks_def split: if_splits)
  then show ?thesis using True assms(2,5) by simp
next
  case False
  then have "ranks = pick_ranks_for_request st rid sp F" using assms(1) by (simp add: bf_ranks_def)
  then show ?thesis
    using pick_ranks_subset [OF assms(2), of st rid sp] pick_ranks_length [OF assms(2), of sp st rid] assms(3,4) by simp
qed

text \<open>While the planned sizes fit the free ranks, choosing the ranks of an entry never fails.\<close>

lemma bf_ranks_total:
  assumes "finite F" "1 \<le> sp" "sp \<le> int (card F)"
  shows "\<exists>ranks kinds. bf_ranks st t rid sp F = Inr (ranks, kinds)"
proof -
  have "F \<noteq> {}" using assms by auto
  then show ?thesis by (auto simp: bf_ranks_def)
qed

text \<open>Every planned task has claimed as many ranks as planned.\<close>

definition planned_claims :: "'a dynamic_step_scheme \<Rightarrow> bf_entry list \<Rightarrow> bool" where
  "planned_claims st es \<longleftrightarrow>
     (\<forall>rid tk sp. (rid, tk, sp) \<in> set es \<longrightarrow> 1 \<le> sp \<and> (\<exists>ranks. dyn_claims st tk = Some (False, ranks) \<and> int (length ranks) = sp))"

lemma planned_claims_Cons:
  "dyn_claims st tk = Some (False, ranks) \<Longrightarrow> int (length ranks) = sp \<Longrightarrow> 1 \<le> sp \<Longrightarrow> planned_claims st es \<Longrightarrow>
     planned_claims st ((rid, tk, sp) # es)"
  by (auto simp: planned_claims_def)

lemma planned_claims_Nil [simp]: "planned_claims st []"
  by (simp add: planned_claims_def)

lemma bf_pass3_ok:
  assumes "bf_pass3 es F (h, st) = Inr ((h', st'), out)" "edf_inv H st" "F \<subseteq> free_rank_set st"
    and "heads_ok st (map (\<lambda>(rid, tk, sp). (rid, tk)) es)" "distinct (map (\<lambda>(rid, tk, sp). tk) es)"
    and "\<forall>e \<in> set es. entry_ok h st e" "total_sp es \<le> int (card F)" "sizes_ok st"
  shows "edf_dispatched H st st' out \<and> out = map (\<lambda>(rid, tk, sp). tk) es
    \<and> planned_claims st' es"
  using assms
proof (induction es arbitrary: F h st out)
  case Nil
  then show ?case using edf.dispatched_refl by auto
next
  case (Cons e es)
  obtain rid tk sp where e: "e = (rid, tk, sp)" by (cases e)
  obtain ranks kinds T g s2 out1 where r: "bf_ranks st (h tk) rid sp F = Inr (ranks, kinds)"
      "ensure_group_for_ranks (dg_topology st) ranks kinds = Inr (T, g)"
      "edf_dispatch_task tk rid (g_id g) ranks (h, st\<lparr>dg_topology := T\<rparr>) = Inr s2"
      "bf_pass3 es (F - set ranks) s2 = Inr ((h', st'), out1)" "out = tk # out1"
    using Cons.prems(1) e by (auto simp: bind_res_eq_Inr)
  note inv = edf_invD [OF Cons.prems(2)]
  note g = ensure_group_for_ranks_spec [OF r(2) inv(4,5)]
  let ?sa = "st\<lparr>dg_topology := T\<rparr>"
  have inva: "edf_inv H ?sa" by (rule edf_inv_topology [OF Cons.prems(2)]) (use g in blast)
  have Fa: "F \<subseteq> free_rank_set ?sa" using Cons.prems(3) g by (auto simp: free_rank_set_def topology_grows_def)
  have fin: "finite F" using Cons.prems(3) finite_free_rank_set finite_subset by blast
  have ok: "entry_ok h st e" and pos: "1 \<le> sp"
    using Cons.prems(6,8) e by (auto simp: entry_ok_def sizes_ok_def)
  have rest0: "0 \<le> total_sp es"
    using Cons.prems(6,8) by (intro sum_list_nonneg) (fastforce simp: entry_ok_def sizes_ok_def)
  have le: "sp \<le> int (card F)" using Cons.prems(7) rest0 e by simp
  have ranks: "set ranks \<subseteq> F" "int (length ranks) = sp"
    using bf_ranks_ok [OF r(1) fin pos le] ok e by (auto simp: entry_ok_def)
  obtain q where q: "edf_queue ?sa rid = tk # q" and heads: "heads_ok ?sa (map (\<lambda>(rid, tk, sp). (rid, tk)) es)"
      "rid \<notin> fst ` set (map (\<lambda>(rid, tk, sp). (rid, tk)) es)"
    using Cons.prems(4) by (auto simp: e heads_ok_Cons heads_ok_def)
  let ?st = "edf_started tk rid (g_id g) ranks q ?sa"
  let ?h = "h(tk := (h tk)\<lparr>t_group_id := Some (g_id g), t_status := DISPATCHED\<rparr>)"
  have s2: "s2 = (?h, ?st)" using r(3) edf_dispatch_task_eq [OF q] by simp
  have sub: "set ranks \<subseteq> free_rank_set ?sa" using ranks Fa by blast
  have mark: "g_id g \<noteq> reshard_mark" using g by blast
  note started = edf_started_ok [OF inva q sub mark]
  have h1: "heads_ok ?st (map (\<lambda>(rid, tk, sp). (rid, tk)) es)"
    by (rule heads_ok_cong [OF heads(1)]) (metis heads(2) queue_edf_started)
  have allowed: "ed_allowed_sp_sizes ?st = ed_allowed_sp_sizes st"
    by (simp add: edf_started_def begin_task_by_rank_def claim_ranks_def)
  have dist: "distinct (map (\<lambda>(rid, tk, sp). tk) es)" "tk \<notin> set (map (\<lambda>(rid, tk, sp). tk) es)"
    using Cons.prems(5) e by auto
  have oks: "\<forall>e \<in> set es. entry_ok ?h ?st e"
    using Cons.prems(6) dist(2) by (force simp: entry_ok_def allowed)
  have "int (card F) - sp \<le> int (card (F - set ranks))"
    using card_Diff_subset_Int [of F "set ranks"] ranks card_length [of ranks] fin
      diff_card_le_card_Diff [of "set ranks" F] by simp
  then have tot: "total_sp es \<le> int (card (F - set ranks))" using Cons.prems(7) e by simp
  have F2: "F - set ranks \<subseteq> free_rank_set ?st" using started(2) Fa by blast
  have sz: "sizes_ok ?st" using Cons.prems(8) by (simp add: sizes_ok_def allowed)
  have IH: "edf_dispatched H ?st st' out1" "out1 = map (\<lambda>(rid, tk, sp). tk) es"
      "planned_claims st' es"
    using Cons.IH [OF r(4) [unfolded s2] edf.dispatchedD(1) [OF started(1)] F2 h1 dist(1) oks tot sz] by blast+
  have "edf_dispatched H st ?sa []"
    using inva by (intro edf.dispatched_one_queue [where y = "[]"]) auto
  then have "edf_dispatched H st st' ([] @ [tk] @ out1)"
    by (rule edf.dispatched_trans [OF Cons.prems(2)]) (rule edf.dispatched_trans [OF inva started(1) IH(1)])
  moreover have "dyn_claims st' tk = Some (False, ranks)"
    by (rule edf.dispatched_keeps [OF edf.dispatchedD(1) [OF started(1)] IH(1)]) (simp add: claims_edf_started [OF mark])
  ultimately show ?case using IH(2) planned_claims_Cons [OF _ ranks(2) pos IH(3)] r(5) by (simp add: e)
qed

lemma set_subseq: "subseq xs ys \<Longrightarrow> set xs \<subseteq> set ys"
  by (induction rule: list_emb.induct) auto

lemma bf_pinned_ok:
  assumes "bf_pinned est ready F (h, st) = Inr ((h', st'), F', rest, out)" "edf_inv H st" "F \<subseteq> free_rank_set st"
    and "heads_ok st ready"
  shows "edf_dispatched H st st' out \<and> F' \<subseteq> free_rank_set st' \<and> heads_ok st' rest \<and> subseq rest ready
    \<and> (\<forall>rid. rid \<notin> fst ` set ready \<longrightarrow> edf_queue st' rid = edf_queue st rid)"
  using assms
proof (induction ready arbitrary: F h st out rest)
  case Nil
  then show ?case using edf.dispatched_refl by auto
next
  case (Cons e ready)
  obtain rid tk where e: "e = (rid, tk)" by (cases e)
  have fin: "finite F" using Cons.prems(3) finite_free_rank_set finite_subset by blast
  show ?case
  proof (cases "t_group_id (h tk)")
    case None
    then obtain rest1 where r: "bf_pinned est ready F (h, st) = Inr ((h', st'), F', rest1, out)" "rest = e # rest1"
      using Cons.prems(1) by (auto simp: e bind_res_eq_Inr)
    have heads: "heads_ok st ready" "rid \<notin> fst ` set ready" "\<exists>q. edf_queue st rid = tk # q"
      using Cons.prems(4) by (auto simp: e heads_ok_Cons)
    note IH = Cons.IH [OF r(1) Cons.prems(2,3) heads(1)]
    then have "edf_queue st' rid = edf_queue st rid" using heads(2) by blast
    moreover have "rid \<notin> fst ` set rest1"
    proof -
      have "set rest1 \<subseteq> set ready" using IH set_subseq by blast
      then show ?thesis using heads(2) by blast
    qed
    ultimately have "heads_ok st' rest" using IH heads(3) by (simp add: r(2) e heads_ok_Cons)
    then show ?thesis using IH r(2) by auto
  next
    case (Some pin)
    obtain st1 pl where sel: "select_placement st est (h tk) F = Inr (st1, pl)"
      and step: "(case pl of None \<Rightarrow> bf_pinned est ready F (h, st1)
        | Some (gid, ranks) \<Rightarrow> bind_res (edf_dispatch_task tk rid gid ranks (h, st1)) (\<lambda>s2.
            bind_res (bf_pinned est ready (F - set ranks) s2) (\<lambda>(s, F, rest, out). Inr (s, F, rest, tk # out))))
        = Inr ((h', st'), F', rest, out)"
      using Cons.prems(1) Some by (auto simp: e bind_res_eq_Inr)
    from select_placement_ok [OF sel Cons.prems(2) fin] obtain T where
      st1: "st1 = st\<lparr>dg_topology := T\<rparr>" and gr: "topology_grows (dg_topology st) T"
      and pl: "\<And>gid ranks. pl = Some (gid, ranks) \<Longrightarrow> gid \<noteq> reshard_mark \<and> set ranks \<subseteq> F"
      by (auto simp: placement_ok_def)
    have inv1: "edf_inv H st1" unfolding st1 by (rule edf_inv_topology [OF Cons.prems(2) gr])
    have q1: "edf_queue st1 = edf_queue st" by (simp add: st1)
    have d1: "edf_dispatched H st st1 []"
      using inv1 unfolding st1 by (intro edf.dispatched_one_queue [where y = "[]"]) auto
    have F1: "F \<subseteq> free_rank_set st1"
      using Cons.prems(3) topology_growsD [OF gr] by (auto simp: st1 free_rank_set_def)
    have heads: "heads_ok st1 ready" "rid \<notin> fst ` set ready" and q: "\<exists>q. edf_queue st1 rid = tk # q"
      using Cons.prems(4) by (auto simp: e heads_ok_Cons q1 heads_ok_def)
    show ?thesis
    proof (cases pl)
      case None
      then have "bf_pinned est ready F (h, st1) = Inr ((h', st'), F', rest, out)" using step by simp
      note IH = Cons.IH [OF this inv1 F1 heads(1)]
      then show ?thesis using edf.dispatched_trans [OF Cons.prems(2) d1] by (auto simp: q1 e)
    next
      case (Some a)
      then obtain gid ranks where a: "pl = Some (gid, ranks)" by (cases a) auto
      note g = pl [OF a]
      obtain q where q: "edf_queue st1 rid = tk # q" using q by blast
      let ?st = "edf_started tk rid gid ranks q st1"
      obtain out1 where run: "bf_pinned est ready (F - set ranks)
            (h(tk := (h tk)\<lparr>t_group_id := Some gid, t_status := DISPATCHED\<rparr>), ?st) = Inr ((h', st'), F', rest, out1)"
        and out: "out = tk # out1"
        using step unfolding a edf_dispatch_task_eq [OF q] by (auto simp: bind_res_eq_Inr)
      have sub: "set ranks \<subseteq> free_rank_set st1" using g F1 by blast
      note started = edf_started_ok [OF inv1 q sub conjunct1 [OF g]]
      have h1: "heads_ok ?st ready"
        by (rule heads_ok_cong [OF heads(1)]) (metis heads(2) queue_edf_started)
      have F2: "F - set ranks \<subseteq> free_rank_set ?st" using started(2) F1 by blast
      note IH = Cons.IH [OF run edf.dispatchedD(1) [OF started(1)] F2 h1]
      then have "edf_dispatched H st1 st' ([tk] @ out1)"
        using edf.dispatched_trans [OF inv1 started(1)] by blast
      then have "edf_dispatched H st st' out" using edf.dispatched_trans [OF Cons.prems(2) d1] out by simp
      then show ?thesis using IH by (auto simp: q1 e queue_edf_started)
    qed
  qed
qed

lemma distinct_subseq: "subseq xs ys \<Longrightarrow> distinct ys \<Longrightarrow> distinct xs"
  by (induction rule: list_emb.induct) (auto dest: set_subseq)

lemma heads_ok_subseq:
  assumes "heads_ok st ready" "subseq l ready"
  shows "heads_ok st l"
proof -
  have "subseq (map fst l) (map fst ready)" using assms(2) by (rule subseq_map)
  then have "distinct (map fst l)" using assms(1) distinct_subseq unfolding heads_ok_def by blast
  then show ?thesis using assms(1) set_subseq [OF assms(2)] unfolding heads_ok_def by blast
qed

lemma heads_distinct_tasks:
  assumes "edf_inv H st" "heads_ok st ready"
  shows "distinct (map snd ready)"
proof -
  have "inj_on snd (set ready)"
  proof (rule inj_onI)
    fix a b assume ab: "a \<in> set ready" "b \<in> set ready" "snd a = snd b"
    obtain q q' where "edf_queue st (fst a) = snd a # q" "edf_queue st (fst b) = snd b # q'"
      using heads_okD [OF assms(2)] ab(1,2) by (metis prod.collapse)
    then have "fst a = fst b"
      using queues_okD(2) [OF edf_invD(2) [OF assms(1)], of "fst a" "fst b"] ab(3) by auto
    then show "a = b" using ab(3) by (rule prod_eqI)
  qed
  moreover have "distinct ready" using assms(2) unfolding heads_ok_def by (metis distinct_map)
  ultimately show ?thesis by (simp add: distinct_map)
qed

text \<open>One whole pass; \<open>es\<close> is the plan that it carries out.\<close>

lemma best_fit_take_ok:
  assumes "best_fit_take est (h, st) = Inr ((h', st'), out)" "edf_inv H st"
  obtains h1 st1 F rest out1 es b where
    "bf_pinned est (edf_order st) (free_rank_set st) (h, st) = Inr ((h1, st1), F, rest, out1)"
    "bf_plan h1 st1 est rest (int (card F)) = (es, b)"
    "out = out1 @ map (\<lambda>(rid, tk, sp). tk) es" "edf_dispatched H st st' out"
    "planned_claims st' es"
proof -
  obtain h1 st1 F rest out1 where pin: "bf_pinned est (edf_order st) (free_rank_set st) (h, st) = Inr ((h1, st1), F, rest, out1)"
    and r: "(let (es, b) = bf_plan h1 st1 est rest (int (card F))
          in bind_res (bf_pass3 es F (h1, st1)) (\<lambda>(s2, out2). Inr (s2, out1 @ out2))) = Inr ((h', st'), out)"
    using assms(1) by (auto simp: best_fit_take_def bind_res_eq_Inr)
  obtain es b where plan: "bf_plan h1 st1 est rest (int (card F)) = (es, b)" by fastforce
  obtain out2 where p3: "bf_pass3 es F (h1, st1) = Inr ((h', st'), out2)" and out: "out = out1 @ out2"
    using r plan by (auto simp: bind_res_eq_Inr)
  note heads = heads_ok_ready [OF edf_invD(3) [OF assms(2)]]
  note p = bf_pinned_ok [OF pin assms(2) subset_refl heads]
  then have d1: "edf_dispatched H st st1 out1" by blast
  have inv1: "edf_inv H st1" by (rule edf.dispatchedD(1) [OF d1])
  have sz: "sizes_ok st1" using edf_invD(7,8) [OF inv1] by (simp add: sizes_ok_def)
  obtain es1 b1 where p1: "bf_pass1 h1 st1 est rest (int (card F)) = (es1, b1)" by fastforce
  note o1 = bf_pass1_ok [OF p1 sz]
  have run: "bf_pass2 h1 st1 est es1 b1 = (es, b)" using p1 plan by (simp add: bf_plan_def)
  have o2: "0 \<le> b \<and> total_sp es + b = total_sp es1 + b1 \<and> (\<forall>e \<in> set es. entry_ok h1 st1 e) \<and> not_slower h1 st1 est es1 es"
    by (rule bf_pass2_ok [OF run]) (use o1 in auto)
  have tasks: "map (\<lambda>(rid, tk, sp). (rid, tk)) es = map (\<lambda>(rid, tk, sp). (rid, tk)) es1"
    using o2 not_slower_tasks by blast
  have h1: "heads_ok st1 (map (\<lambda>(rid, tk, sp). (rid, tk)) es)"
    by (rule heads_ok_subseq [of _ rest]) (use p o1 tasks in auto)
  have "map snd (map (\<lambda>(rid, tk, sp). (rid, tk)) es) = map (\<lambda>(rid, tk, sp). tk) es" by auto
  then have dist: "distinct (map (\<lambda>(rid, tk, sp). tk) es)" using heads_distinct_tasks [OF inv1 h1] by metis
  have "F \<subseteq> free_rank_set st1" "\<forall>e \<in> set es. entry_ok h1 st1 e" "total_sp es \<le> int (card F)"
    using p o1 o2 by auto
  from bf_pass3_ok [OF p3 inv1 this(1) h1 dist this(2,3) sz]
  have d2: "edf_dispatched H st1 st' out2" "out2 = map (\<lambda>(rid, tk, sp). tk) es"
    "planned_claims st' es" by blast+
  have "edf_dispatched H st st' (out1 @ out2)" by (rule edf.dispatched_trans [OF assms(2) d1 d2(1)])
  then show thesis using that [OF pin plan] d2(2,3) out by blast
qed

section \<open>Runs\<close>

lemma best_fit_init_inv:
  assumes "best_fit_init T allowed = Inr st0" "topology_inv T" "mark_free T"
  shows "edf_inv (\<lambda>_. 0) st0"
proof -
  obtain st where st: "edf_init T allowed = Inr st"
    and st0: "st0 = edf.extend st \<lparr>bf_request_shape = (\<lambda>_. None), bf_request_tasks = (\<lambda>_. None)\<rparr>"
    using assms(1) by (auto simp: best_fit_init_def bind_res_eq_Inr)
  note inv = edf_init_inv [OF st assms(2,3)]
  have q: "edf_queue st0 = edf_queue st" by (rule ext) (simp add: edf_queue_def st0 edf.extend_def)
  have cl: "dyn_claims st0 = dyn_claims st"
    by (rule ext) (simp add: dyn_claims_def st0 edf.extend_def split: option.split)
  show ?thesis
    using inv unfolding edf_inv_def dyn_books_def q cl by (simp add: st0 edf.extend_def)
qed

lemma best_fit_inv:
  assumes "best_fit_init T allowed = Inr st0" "topology_inv T" "mark_free T"
    and "edf_reach (bf_prepare istr) (best_fit_take est) best_fit_drop_request st0 s H"
  shows "edf_inv H (snd s)"
proof (rule edf_reach_inv [OF assms(4) best_fit_init_inv [OF assms(1-3)]])
  fix H h st h' st' out assume inv: "edf_inv H st" and t: "best_fit_take est (h, st) = Inr ((h', st'), out)"
  show "edf_inv H st'" by (rule best_fit_take_ok [OF t inv]) (rule edf.dispatchedD(1))
next
  fix H rid st assume "edf_inv H (st :: best_fit)"
  then have "edf_inv H (st\<lparr>bf_request_tasks := (bf_request_tasks st)(rid := None),
      bf_request_shape := (bf_request_shape st)(rid := None)\<rparr>)"
    by (rule edf_inv_same) simp_all
  then show "edf_inv H (best_fit_drop_request rid st)"
    unfolding best_fit_drop_request_def by (rule edf_inv_drop)
next
  fix H fstr p st assume "edf_inv H (st :: best_fit)"
  then show "edf_inv H (bf_prepare istr fstr p st)" by (rule edf_inv_same) (simp_all add: bf_prepare_def)
next
  fix fstr p tk and st :: best_fit assume "edf_fresh st tk"
  then show "edf_fresh (bf_prepare istr fstr p st) tk"
    by (simp add: edf_fresh_def edf_queue_def bf_prepare_def)
qed

text \<open>
  In every reachable state of the best-fit policy, a dispatch pass claims for every task it plans
  exactly the number of ranks planned for it, only ranks that were free before the pass, and
  disjoint ones for different tasks.
\<close>

theorem best_fit_dispatch_sound:
  assumes "best_fit_init T allowed = Inr st0" "topology_inv T" "mark_free T"
    and "edf_reach (bf_prepare istr) (best_fit_take est) best_fit_drop_request st0 (h, st) H"
    and "best_fit_take est (h, st) = Inr ((h', st'), out)"
    and "bf_pinned est (edf_order st) (free_rank_set st) (h, st) = Inr ((h1, st1), F, rest, out1)"
    and "bf_plan h1 st1 est rest (int (card F)) = (es, b)"
  shows "out = out1 @ map (\<lambda>(rid, tk, sp). tk) es
    \<and> (\<forall>(rid, tk, sp) \<in> set es. \<exists>ranks. dy_dispatched_ranks_by_task st' tk = Some ranks \<and> int (length ranks) = sp)
    \<and> (\<forall>tk \<in> set out. \<forall>ranks. dy_dispatched_ranks_by_task st' tk = Some ranks \<longrightarrow> can_dispatch_ranks st ranks
         \<and> (\<forall>tk' ranks'. tk' \<noteq> tk \<and> dg_dispatched_kind st' tk' \<noteq> None \<and> dy_dispatched_ranks_by_task st' tk' = Some ranks'
              \<longrightarrow> set ranks \<inter> set ranks' = {}))"
proof -
  have inv: "edf_inv H st" using best_fit_inv [OF assms(1-4)] by simp
  obtain h1' st1' F' rest' out1' es' b' where t:
      "bf_pinned est (edf_order st) (free_rank_set st) (h, st) = Inr ((h1', st1'), F', rest', out1')"
      "bf_plan h1' st1' est rest' (int (card F')) = (es', b')"
      "out = out1' @ map (\<lambda>(rid, tk, sp). tk) es'" "edf_dispatched H st st' out"
      "planned_claims st' es'"
    by (rule best_fit_take_ok [OF assms(5) inv])
  have eq: "es' = es" "out1' = out1" using t(1,2) assms(6,7) by simp_all
  note inv' = edf_invD [OF edf.dispatchedD(1) [OF t(4)]]
  have kinds: "dg_dispatched_kind st' tk \<noteq> None" if "dyn_claims st' tk = Some c" for tk c
    using that dyn_claims_None [of st' tk] by auto
  have cl: "dyn_claims st' tk = Some (dg_dispatched_kind st' tk = Some reshard_mark, rs)"
    if "dg_dispatched_kind st' tk \<noteq> None" "dy_dispatched_ranks_by_task st' tk = Some rs" for tk rs
    using that by (auto simp: dyn_claims_def)
  have planned: "\<exists>ranks. dy_dispatched_ranks_by_task st' tk = Some ranks \<and> int (length ranks) = sp"
    if mem: "(rid, tk, sp) \<in> set es" for rid tk sp
  proof -
    obtain ranks where r: "dyn_claims st' tk = Some (False, ranks)" "int (length ranks) = sp" "1 \<le> sp"
      using t(5) mem eq unfolding planned_claims_def by blast
    then have "dy_dispatched_ranks_by_task st' tk = Some ranks"
      by (auto simp: dyn_claims_def split: option.splits)
    then show ?thesis using r(2) by blast
  qed
  have free: "can_dispatch_ranks st ranks \<and> (\<forall>tk' ranks'. tk' \<noteq> tk \<and> dg_dispatched_kind st' tk' \<noteq> None
      \<and> dy_dispatched_ranks_by_task st' tk' = Some ranks' \<longrightarrow> set ranks \<inter> set ranks' = {})"
    if out: "tk \<in> set out" and ranks: "dy_dispatched_ranks_by_task st' tk = Some ranks" for tk ranks
  proof -
    obtain b rs where c: "dyn_claims st' tk = Some (b, rs)" "can_dispatch_ranks st rs"
      using edf.dispatchedD(4) [OF t(4) out] by blast
    have "rs = ranks" using cl [OF kinds [OF c(1)] ranks] c(1) by simp
    moreover have "set ranks \<inter> set ranks' = {}" if "tk' \<noteq> tk" "dg_dispatched_kind st' tk' \<noteq> None"
        "dy_dispatched_ranks_by_task st' tk' = Some ranks'" for tk' ranks'
      using exclusiveD [OF dyn_booksD(2) [OF inv'(1)] cl [OF kinds [OF c(1)] ranks] cl [OF that(2,3)] that(1) [symmetric]] .
    ultimately show ?thesis using c(2) by blast
  qed
  show ?thesis using t(3) eq planned free by auto
qed

subsection \<open>Concrete runs\<close>

definition ex_bf0 :: best_fit where
  "ex_bf0 = edf.extend ex_edf0 \<lparr>bf_request_shape = (\<lambda>_. None), bf_request_tasks = (\<lambda>_. None)\<rparr>"

lemma ex_bf_init: "best_fit_init ex_topology None = Inr ex_bf0"
  by (simp add: best_fit_init_def ex_edf_init ex_bf0_def)

text \<open>A task of 100 ms on one rank, twice as fast on two; the deadline is at 60 ms.\<close>

definition ex_est :: estimator where
  "ex_est spec n stage = Inr (Fin (100 / of_int (ps_sp spec)))"

definition ex_bf_meta :: edf_meta where
  "ex_bf_meta = \<lparr>em_deadline_ms = Fin 60, em_priority = 0, em_arrival_ms = 0, em_order = 1\<rparr>"

definition ex_bf1 :: best_fit where
  "ex_bf1 = ex_bf0\<lparr>ed_request_meta := [''rt1'' \<mapsto> ex_bf_meta],
     bf_request_shape := [''rt1'' \<mapsto> \<lparr>bs_latent_seq_len = 8, bs_voxels = 0, bs_text_seq_len = 0, bs_num_steps = 1, bs_chunk_steps = 1\<rparr>],
     bf_request_tasks := [''rt1'' \<mapsto> [''t1'']]\<rparr>"

lemma ex_bf_sp: "best_fit_sp ex_edf_heap ex_bf1 (Some ex_est) ''rt1'' (ex_edf_heap ''t1'') 4 = Some 2"
  by code_simp

lemma ex_bf_sizes: "sizes_ok ex_bf1"
  by code_simp

theorem best_fit_sp_optimal_witness:
  "estimate_finish_ms ex_edf_heap ex_bf1 (Some ex_est) ''rt1'' 2 \<le> Fin 60 \<and> 2 \<in> set (ed_allowed_sp_sizes ex_bf1)"
proof -
  have k: "t_kind (ex_edf_heap ''t1'') \<in> set DIT_TASK_KINDS"
    by (simp add: ex_edf_heap_def ex_task_def DIT_TASK_KINDS_def)
  have m: "ed_request_meta ex_bf1 ''rt1'' = Some ex_bf_meta" "em_deadline_ms ex_bf_meta = Fin 60"
    by (simp_all add: ex_bf1_def ex_bf_meta_def)
  have "estimate_finish_ms ex_edf_heap ex_bf1 (Some ex_est) ''rt1'' 4 \<le> Fin 60" "(4 :: int) \<in> set (ed_allowed_sp_sizes ex_bf1)"
    by code_simp+
  then have "\<exists>s \<in> set (ed_allowed_sp_sizes ex_bf1). s \<le> 4 \<and> estimate_finish_ms ex_edf_heap ex_bf1 (Some ex_est) ''rt1'' s \<le> Fin 60"
    by (intro bexI [of _ 4]) simp_all
  then show ?thesis using best_fit_sp_optimal [OF ex_bf_sp k m] by simp
qed

theorem best_fit_plan_within_budget_witness:
  "\<exists>es b. bf_plan ex_edf_heap ex_bf1 (Some ex_est) [(''rt1'', ''t1'')] 4 = (es, b) \<and> total_sp es + b = 4 \<and> 0 \<le> b"
proof -
  obtain es1 b1 where p1: "bf_pass1 ex_edf_heap ex_bf1 (Some ex_est) [(''rt1'', ''t1'')] 4 = (es1, b1)" by fastforce
  obtain es b where p: "bf_plan ex_edf_heap ex_bf1 (Some ex_est) [(''rt1'', ''t1'')] 4 = (es, b)" by fastforce
  from best_fit_plan_within_budget [OF p1 p ex_bf_sizes] p show ?thesis by simp
qed

lemma ex_bf_run:
  "case edf_runnable (best_fit_take None) [''t1'', ''t2''] (ex_edf_heap, acquire_migration_hold ex_all ex_bf0) of
     Inl _ \<Rightarrow> False
   | Inr ((h, st), out) \<Rightarrow> out = []
       \<and> (case bf_pinned None (edf_order (release_migration_hold ex_all st)) (free_rank_set (release_migration_hold ex_all st))
                 (h, release_migration_hold ex_all st) of
            Inl _ \<Rightarrow> False
          | Inr ((h1, st1), F, rest, out1) \<Rightarrow>
              bf_plan h1 st1 None rest (int (card F)) = ([(''rt1'', ''t1'', 4)], 0))
       \<and> (case best_fit_take None (h, release_migration_hold ex_all st) of
            Inl _ \<Rightarrow> False
          | Inr ((h', st'), out') \<Rightarrow> out' = [''t1''])"
  by code_simp

theorem best_fit_dispatch_sound_witness:
  "\<exists>h st h' st' H ranks. edf_reach (bf_prepare (\<lambda>_. None)) (best_fit_take None) best_fit_drop_request ex_bf0 (h, st) H
     \<and> best_fit_take None (h, st) = Inr ((h', st'), [''t1''])
     \<and> dy_dispatched_ranks_by_task st' ''t1'' = Some ranks \<and> length ranks = 4"
proof -
  let ?sa = "acquire_migration_hold ex_all ex_bf0"
  obtain h st out where run: "edf_runnable (best_fit_take None) [''t1'', ''t2''] (ex_edf_heap, ?sa) = Inr ((h, st), out)"
    using ex_bf_run by (auto split: sum.splits)
  let ?st = "release_migration_hold ex_all st"
  let ?reach = "edf_reach (bf_prepare (\<lambda>_. None)) (best_fit_take None) best_fit_drop_request ex_bf0"
  have r1: "?reach (ex_edf_heap, ?sa) (\<lambda>r. 0 + count_list ex_all r)"
    by (rule edf_reach.hold [OF edf_reach.start])
  have "ed_ready_by_request ?sa = []" "dg_dispatched_kind ?sa ''t1'' = None" "dg_dispatched_kind ?sa ''t2'' = None"
    by code_simp+
  then have "?reach (h, st) (\<lambda>r. 0 + count_list ex_all r)"
    by (intro edf_reach.runnable [OF r1 run]) (simp_all add: edf_fresh_def edf_queue_def)
  then have reach: "?reach (h, ?st) (\<lambda>r. 0 + count_list ex_all r - count_list ex_all r)"
    by (rule edf_reach.unhold) simp
  obtain h' st' where take: "best_fit_take None (h, ?st) = Inr ((h', st'), [''t1''])"
    using ex_bf_run [unfolded run] by (auto split: sum.splits)
  obtain h1 st1 F rest out1 where pin: "bf_pinned None (edf_order ?st) (free_rank_set ?st) (h, ?st) = Inr ((h1, st1), F, rest, out1)"
    and plan: "bf_plan h1 st1 None rest (int (card F)) = ([(''rt1'', ''t1'', 4)], 0)"
    using ex_bf_run [unfolded run] by (auto split: sum.splits)
  from best_fit_dispatch_sound [OF ex_bf_init ex_topology_inv ex_mark_free reach take pin plan]
  obtain ranks where "dy_dispatched_ranks_by_task st' ''t1'' = Some ranks" "int (length ranks) = 4" by auto
  then have "dy_dispatched_ranks_by_task st' ''t1'' = Some ranks" "length ranks = 4" by simp_all
  with reach take show ?thesis by (intro exI conjI)
qed

end
