(* ===== verification/WorkAccount.thy ===== *)
theory WorkAccount
  imports Disaggregate PolicyCommon
begin

text \<open>
  Request binding and work accounting, which \<open>policies/fcfs.py\<close> and \<open>policies/srtf.py\<close> share:
  a request is bound to one group when it is submitted, the estimated work of its tasks is
  entered in three tables (per task, per request, per group), and the tables are charged when a
  task completes and cleaned when the request ends. Work is an exact non-negative rational.
\<close>

section \<open>State\<close>

record work_account =
  wa_topology :: topology
  wa_group_order :: "(string \<times> nat) list"
  wa_request_group :: "string \<Rightarrow> string option"
  wa_group_backlog_work :: "string \<Rightarrow> rat option"
  wa_request_remaining_work :: "string \<Rightarrow> rat option"
  wa_task_work :: "string \<Rightarrow> rat option"
  wa_request_task_ids :: "string \<Rightarrow> string set option"

definition group_order :: "topology \<Rightarrow> (string \<times> nat) list" where
  "group_order T = fold (\<lambda>(i, g) d. dict_set d (g_id g) i) (enumerate 0 (tp_groups T)) []"

definition work_account_init :: "topology \<Rightarrow> work_account" where
  "work_account_init T =
     \<lparr>wa_topology = T, wa_group_order = group_order T, wa_request_group = (\<lambda>_. None),
      wa_group_backlog_work = (\<lambda>_. None), wa_request_remaining_work = (\<lambda>_. None),
      wa_task_work = (\<lambda>_. None), wa_request_task_ids = (\<lambda>_. None)\<rparr>"

text \<open>\<open>d.get(k, 0.0)\<close>.\<close>

definition work_at :: "(string \<Rightarrow> rat option) \<Rightarrow> string \<Rightarrow> rat" where
  "work_at d k = (case d k of None \<Rightarrow> 0 | Some w \<Rightarrow> w)"

section \<open>Estimates\<close>

text \<open>\<open>plan.tasks.values()\<close> in their current state.\<close>

definition plan_tasks :: "heap \<Rightarrow> plan \<Rightarrow> task list" where
  "plan_tasks h p = map (\<lambda>(k, t). h (t_id t)) (p_tasks p)"

definition estimate_task_work :: "estimator \<Rightarrow> task \<Rightarrow> plan \<Rightarrow> parallel_spec \<Rightarrow> rat res" where
  "estimate_task_work est t p spec =
     bind_res (est spec (resolve_seq_len t p) (resolve_request_stage t)) (\<lambda>estimate.
       case estimate of
         Infty \<Rightarrow> Inl ValueError
       | Fin q \<Rightarrow> if q < 0 then Inl ValueError else Inr q)"

definition estimate_plan_work :: "estimator \<Rightarrow> task list \<Rightarrow> plan \<Rightarrow> parallel_spec \<Rightarrow> rat res" where
  "estimate_plan_work est ts p spec =
     for_res (\<lambda>total_work t. bind_res (estimate_task_work est t p spec) (\<lambda>w. Inr (total_work + w))) 0 ts"

section \<open>Binding a request to a group\<close>

text \<open>The key of the earliest-free choice: backlog plus estimate, then configuration order, then id.\<close>

definition bind_key ::
  "estimator \<Rightarrow> task list \<Rightarrow> plan \<Rightarrow> 'a work_account_scheme \<Rightarrow> string \<Rightarrow> (rat \<times> nat \<times> string) res" where
  "bind_key est ts p st gid =
     bind_res (get_group (wa_topology st) gid) (\<lambda>g.
     bind_res (estimate_plan_work est ts p (g_parallel g)) (\<lambda>w.
       Inr (work_at (wa_group_backlog_work st) gid + w,
            (case map_of (wa_group_order st) gid of Some i \<Rightarrow> i | None \<Rightarrow> length (wa_group_order st)),
            gid)))"

definition select_request_group ::
  "estimator \<Rightarrow> plan \<Rightarrow> task list \<Rightarrow> 'a work_account_scheme \<Rightarrow> string res" where
  "select_request_group est p ts st =
     bind_res (resolve_explicit_request_group ts) (\<lambda>explicit.
       let candidates = candidate_groups_for_plan (wa_topology st) ts
       in case explicit of
            Some gid \<Rightarrow> if gid \<notin> set candidates then Inl ValueError else Inr gid
          | None \<Rightarrow>
              (case candidates of
                 [] \<Rightarrow> Inl ValueError
               | [gid] \<Rightarrow> Inr gid
               | gid # gids \<Rightarrow>
                   bind_res (bind_key est ts p st gid) (\<lambda>k.
                   bind_res (map_res (bind_key est ts p st) gids) (\<lambda>ks.
                     Inr (fst (min_by snd (gid, k) (zip gids ks)))))))"

definition assign_group :: "string \<Rightarrow> heap \<Rightarrow> string \<Rightarrow> heap res" where
  "assign_group gid h tk =
     (case t_group_id (h tk) of
        None \<Rightarrow> Inr (h(tk := (h tk)\<lparr>t_group_id := Some gid\<rparr>))
      | Some g \<Rightarrow> if g \<noteq> gid then Inl ValueError else Inr h)"

definition bind_request_group ::
  "estimator \<Rightarrow> plan \<Rightarrow> heap \<times> 'a work_account_scheme \<Rightarrow> ((heap \<times> 'a work_account_scheme) \<times> string) res" where
  "bind_request_group est p s =
     (case s of (h, st) \<Rightarrow>
        bind_res (select_request_group est p (plan_tasks h p) st) (\<lambda>gid.
        bind_res (for_res (assign_group gid) h (map (\<lambda>(k, t). t_id t) (p_tasks p))) (\<lambda>h'.
          Inr ((h', st\<lparr>wa_request_group := (wa_request_group st)(p_request_id p \<mapsto> gid)\<rparr>), gid))))"

text \<open>
  The loop of \<open>on_request_submitted\<close> over the tasks, then the three tables. \<open>spec\<close> gives the
  parallel specification under which a task is priced.
\<close>

definition price_task ::
  "estimator \<Rightarrow> plan \<Rightarrow> (task \<Rightarrow> parallel_spec res) \<Rightarrow> heap \<Rightarrow> (string \<Rightarrow> rat option) \<times> rat \<Rightarrow> string
   \<Rightarrow> ((string \<Rightarrow> rat option) \<times> rat) res" where
  "price_task est p spec h acc tk =
     (case acc of (tw, total_work) \<Rightarrow>
        bind_res (spec (h tk)) (\<lambda>ps.
        bind_res (estimate_task_work est (h tk) p ps) (\<lambda>w.
          Inr (tw(t_id (h tk) \<mapsto> w), total_work + w))))"

definition enter_plan ::
  "estimator \<Rightarrow> plan \<Rightarrow> (task \<Rightarrow> parallel_spec res) \<Rightarrow> string \<Rightarrow> heap \<Rightarrow> 'a work_account_scheme
   \<Rightarrow> 'a work_account_scheme res" where
  "enter_plan est p spec gid h st =
     bind_res (for_res (price_task est p spec h) (wa_task_work st, 0) (map (\<lambda>(k, t). t_id t) (p_tasks p)))
       (\<lambda>(tw, total_work).
         Inr (st\<lparr>wa_task_work := tw,
                 wa_request_task_ids := (wa_request_task_ids st)(p_request_id p \<mapsto> set (map fst (p_tasks p))),
                 wa_request_remaining_work := (wa_request_remaining_work st)(p_request_id p \<mapsto> total_work),
                 wa_group_backlog_work :=
                   (wa_group_backlog_work st)(gid \<mapsto> work_at (wa_group_backlog_work st) gid + total_work)\<rparr>))"

section \<open>Charging and cleaning\<close>

text \<open>The backlog entry is dropped when at most \<open>1e-9\<close> would remain.\<close>

definition reduce_backlog :: "(string \<Rightarrow> rat option) \<Rightarrow> string \<Rightarrow> rat \<Rightarrow> string \<Rightarrow> rat option" where
  "reduce_backlog b gid amount =
     (let backlog = work_at b gid - amount
      in if backlog \<le> 1 / 10 ^ 9 then b(gid := None) else b(gid \<mapsto> backlog))"

definition charge_completed_task :: "string \<Rightarrow> string \<Rightarrow> 'a work_account_scheme \<Rightarrow> 'a work_account_scheme" where
  "charge_completed_task rid tk st =
     (let st1 = st\<lparr>wa_task_work := (wa_task_work st)(tk := None),
                   wa_request_task_ids := (case wa_request_task_ids st rid of
                        None \<Rightarrow> wa_request_task_ids st
                      | Some ids \<Rightarrow> (wa_request_task_ids st)(rid \<mapsto> ids - {tk}))\<rparr>
      in case (wa_request_remaining_work st rid, wa_task_work st tk) of
           (Some remaining, Some work) \<Rightarrow>
             let new_remaining = max 0 (remaining - work);
                 charged = remaining - new_remaining;
                 st2 = st1\<lparr>wa_request_remaining_work := (wa_request_remaining_work st)
                             (rid := if new_remaining \<le> 0 then None else Some new_remaining)\<rparr>
             in (case wa_request_group st rid of
                   Some gid \<Rightarrow>
                     if 0 < charged
                     then st2\<lparr>wa_group_backlog_work := reduce_backlog (wa_group_backlog_work st) gid charged\<rparr>
                     else st2
                 | None \<Rightarrow> st2)
         | _ \<Rightarrow> st1)"

text \<open>\<open>a or b\<close> on an optional string: \<open>None\<close> and the empty string are false.\<close>

definition or_group :: "string option \<Rightarrow> string option \<Rightarrow> string option" where
  "or_group a b = (if a = None \<or> a = Some [] then b else a)"

definition cleanup_request_work ::
  "string \<Rightarrow> string option \<Rightarrow> 'a work_account_scheme \<Rightarrow> 'a work_account_scheme" where
  "cleanup_request_work rid group_id st =
     (let ids = (case wa_request_task_ids st rid of None \<Rightarrow> {} | Some ids \<Rightarrow> ids);
          remaining = work_at (wa_request_remaining_work st) rid;
          final_group_id = or_group group_id (wa_request_group st rid);
          st1 = st\<lparr>wa_request_task_ids := (wa_request_task_ids st)(rid := None),
                   wa_task_work := (\<lambda>tk. if tk \<in> ids then None else wa_task_work st tk),
                   wa_request_remaining_work := (wa_request_remaining_work st)(rid := None),
                   wa_request_group := (wa_request_group st)(rid := None)\<rparr>
      in case final_group_id of
           Some gid \<Rightarrow>
             if 0 < remaining
             then st1\<lparr>wa_group_backlog_work := reduce_backlog (wa_group_backlog_work st) gid remaining\<rparr>
             else st1
         | None \<Rightarrow> st1)"

section \<open>Invariant\<close>

definition ids_of :: "'a work_account_scheme \<Rightarrow> string \<Rightarrow> string set" where
  "ids_of st rid = (case wa_request_task_ids st rid of None \<Rightarrow> {} | Some ids \<Rightarrow> ids)"

text \<open>The work of the requests bound to a group.\<close>

definition bound_work :: "'a work_account_scheme \<Rightarrow> string \<Rightarrow> rat" where
  "bound_work st gid =
     (\<Sum>rid \<in> {r \<in> dom (wa_request_task_ids st). wa_request_group st r = Some gid}.
        work_at (wa_request_remaining_work st) rid)"

text \<open>An event of a request concerns no task of another request.\<close>

definition owned :: "'a work_account_scheme \<Rightarrow> string \<Rightarrow> string \<Rightarrow> bool" where
  "owned st rid tk \<longleftrightarrow> (\<forall>r. tk \<in> ids_of st r \<longrightarrow> r = rid)"

definition account_inv :: "'a work_account_scheme \<Rightarrow> bool" where
  "account_inv st \<longleftrightarrow>
     finite (dom (wa_request_task_ids st))
     \<and> (\<forall>rid. finite (ids_of st rid))
     \<and> (\<forall>rid rid'. rid \<noteq> rid' \<longrightarrow> ids_of st rid \<inter> ids_of st rid' = {})
     \<and> dom (wa_task_work st) = (\<Union>rid. ids_of st rid)
     \<and> (\<forall>tk. 0 \<le> work_at (wa_task_work st) tk)
     \<and> dom (wa_request_remaining_work st) \<subseteq> dom (wa_request_task_ids st)
     \<and> dom (wa_request_task_ids st) \<subseteq> dom (wa_request_group st)
     \<and> (\<forall>rid. work_at (wa_request_remaining_work st) rid = (\<Sum>tk \<in> ids_of st rid. work_at (wa_task_work st) tk))
     \<and> (\<forall>gid. 0 \<le> work_at (wa_group_backlog_work st) gid
              \<and> work_at (wa_group_backlog_work st) gid \<le> bound_work st gid)"

section \<open>Lemmas\<close>

lemma work_at_simps [simp]:
  "work_at (\<lambda>_. None) k = 0"
  "work_at (d(j := None)) k = (if k = j then 0 else work_at d k)"
  "work_at (d(j \<mapsto> w)) k = (if k = j then w else work_at d k)"
  by (simp_all add: work_at_def)

lemma account_invD:
  assumes "account_inv st"
  shows "finite (dom (wa_request_task_ids st))" "finite (ids_of st rid)"
    "rid \<noteq> rid' \<Longrightarrow> ids_of st rid \<inter> ids_of st rid' = {}"
    "dom (wa_task_work st) = (\<Union>rid. ids_of st rid)" "0 \<le> work_at (wa_task_work st) tk"
    "dom (wa_request_remaining_work st) \<subseteq> dom (wa_request_task_ids st)"
    "dom (wa_request_task_ids st) \<subseteq> dom (wa_request_group st)"
    "work_at (wa_request_remaining_work st) rid = (\<Sum>tk \<in> ids_of st rid. work_at (wa_task_work st) tk)"
    "0 \<le> work_at (wa_group_backlog_work st) gid" "work_at (wa_group_backlog_work st) gid \<le> bound_work st gid"
  using assms unfolding account_inv_def by blast+

lemma owned_member:
  assumes "account_inv st" "tk \<in> ids_of st rid"
  shows "owned st rid tk"
  unfolding owned_def
proof (intro allI impI, rule ccontr)
  fix r assume "tk \<in> ids_of st r" "r \<noteq> rid"
  then show False using account_invD(3) [OF assms(1), of r rid] assms(2) by blast
qed

lemma account_inv_init: "account_inv (work_account_init T)"
  by (simp add: account_inv_def work_account_init_def ids_of_def bound_work_def)

text \<open>The invariant reads only the accounting fields.\<close>

lemma account_inv_cong:
  assumes "account_inv st" "wa_request_group st' = wa_request_group st"
    "wa_group_backlog_work st' = wa_group_backlog_work st"
    "wa_request_remaining_work st' = wa_request_remaining_work st"
    "wa_task_work st' = wa_task_work st" "wa_request_task_ids st' = wa_request_task_ids st"
  shows "account_inv st'"
  using assms(1) unfolding account_inv_def ids_of_def bound_work_def assms(2-6) .

lemma remaining_nonneg: "account_inv st \<Longrightarrow> 0 \<le> work_at (wa_request_remaining_work st) rid"
  using account_invD(5,8) by (metis sum_nonneg)

lemma bound_work_nonneg: "account_inv st \<Longrightarrow> 0 \<le> bound_work st gid"
  unfolding bound_work_def by (intro sum_nonneg remaining_nonneg)

lemma remaining_le_bound:
  assumes "account_inv st" "rid \<in> dom (wa_request_task_ids st)" "wa_request_group st rid = Some gid"
  shows "work_at (wa_request_remaining_work st) rid \<le> bound_work st gid"
  unfolding bound_work_def using assms account_invD(1) [OF assms(1)]
  by (intro member_le_sum) (auto simp: remaining_nonneg)

text \<open>Dropping small remainders keeps the backlog below the work it stands for.\<close>

lemma reduce_backlog_bounds:
  assumes "\<And>k. B' k = B k - (if k = gid then c else 0)"
    and "\<And>k. 0 \<le> work_at b k \<and> work_at b k \<le> B k" and "0 \<le> B' gid"
  shows "0 \<le> work_at (reduce_backlog b gid c) k \<and> work_at (reduce_backlog b gid c) k \<le> B' k"
  using assms(1) [of k] assms(2) [of k] assms(3)
  by (cases "k = gid") (auto simp: reduce_backlog_def Let_def not_le intro: less_imp_le order_trans)

lemma sum_shift_one:
  fixes f g :: "'k \<Rightarrow> rat"
  assumes "finite A" "\<And>x. x \<noteq> k \<Longrightarrow> g x = f x" "g k = f k - c"
  shows "sum g A = sum f A - (if k \<in> A then c else 0)"
proof (cases "k \<in> A")
  case True
  then have "sum g A = g k + sum g (A - {k})" "sum f A = f k + sum f (A - {k})"
    using assms(1) by (simp_all add: sum.remove)
  moreover have "sum g (A - {k}) = sum f (A - {k})" by (rule sum.cong) (auto simp: assms(2))
  ultimately show ?thesis using True assms(3) by simp
next
  case False
  then have "sum g A = sum f A" using assms(2) by (intro sum.cong) metis+
  then show ?thesis using False by simp
qed

subsection \<open>Charging\<close>

lemma charge_no_work:
  "wa_task_work st tk = None \<Longrightarrow>
     wa_request_remaining_work (charge_completed_task rid tk st) = wa_request_remaining_work st
     \<and> wa_group_backlog_work (charge_completed_task rid tk st) = wa_group_backlog_work st"
  by (cases "wa_request_remaining_work st rid") (simp_all add: charge_completed_task_def Let_def)

lemma charge_no_remaining:
  "wa_request_remaining_work st rid = None \<Longrightarrow>
     wa_request_remaining_work (charge_completed_task rid tk st) = wa_request_remaining_work st
     \<and> wa_group_backlog_work (charge_completed_task rid tk st) = wa_group_backlog_work st"
  by (simp add: charge_completed_task_def Let_def)

lemma charge_remaining:
  assumes "wa_request_remaining_work st rid = Some v" "wa_task_work st tk = Some w"
  shows "wa_request_remaining_work (charge_completed_task rid tk st) =
     (wa_request_remaining_work st)(rid := if v - w \<le> 0 then None else Some (v - w))"
  using assms by (auto simp: charge_completed_task_def Let_def max_def split: option.split)

lemma charge_backlog:
  assumes "wa_request_remaining_work st rid = Some v" "wa_task_work st tk = Some w" "w \<le> v"
    "wa_request_group st rid = Some gid"
  shows "wa_group_backlog_work (charge_completed_task rid tk st) =
     (if 0 < w then reduce_backlog (wa_group_backlog_work st) gid w else wa_group_backlog_work st)"
  using assms by (auto simp: charge_completed_task_def Let_def max_def)

text \<open>What a charge does to the tables, on a task of the request.\<close>

lemma charge_tables:
  assumes inv: "account_inv st" and own: "owned st rid tk"
  defines "st' \<equiv> charge_completed_task rid tk st" and "c \<equiv> work_at (wa_task_work st) tk"
  shows "wa_task_work st' = (wa_task_work st)(tk := None)" "ids_of st' r = ids_of st r - {tk}"
    "dom (wa_request_task_ids st') = dom (wa_request_task_ids st)" "wa_request_group st' = wa_request_group st"
    "dom (wa_request_remaining_work st') \<subseteq> dom (wa_request_remaining_work st)"
    "work_at (wa_request_remaining_work st') r =
       work_at (wa_request_remaining_work st) r - (if r = rid then c else 0)"
    "wa_group_backlog_work st' = wa_group_backlog_work st \<and> c = 0
     \<or> (\<exists>gid. wa_request_group st rid = Some gid \<and> tk \<in> ids_of st rid
          \<and> wa_group_backlog_work st' = reduce_backlog (wa_group_backlog_work st) gid c)"
proof -
  note I = account_invD [OF inv]
  show "wa_task_work st' = (wa_task_work st)(tk := None)" "wa_request_group st' = wa_request_group st"
      "dom (wa_request_task_ids st') = dom (wa_request_task_ids st)"
      "dom (wa_request_remaining_work st') \<subseteq> dom (wa_request_remaining_work st)"
    by (auto simp: st'_def charge_completed_task_def Let_def split: option.splits if_splits)
  show "ids_of st' r = ids_of st r - {tk}"
  proof -
    have "ids_of st' r = (if r = rid then ids_of st r - {tk} else ids_of st r)"
      by (simp add: ids_of_def st'_def charge_completed_task_def Let_def split: option.split)
    then show ?thesis using own unfolding owned_def by auto
  qed
  have mem: "tk \<in> ids_of st rid" if "wa_task_work st tk = Some w" for w using that I(4) own unfolding owned_def by blast
  have le: "c \<le> work_at (wa_request_remaining_work st) rid" if "tk \<in> ids_of st rid"
    unfolding I(8) c_def using that I(2) I(5) by (intro member_le_sum) auto
  have pos: "0 \<le> c" unfolding c_def by (rule I(5))
  show "work_at (wa_request_remaining_work st') r =
       work_at (wa_request_remaining_work st) r - (if r = rid then c else 0)"
  proof (cases "wa_task_work st tk")
    case None
    then show ?thesis by (simp add: st'_def charge_no_work c_def work_at_def [of "wa_task_work st"])
  next
    case (Some w)
    then have w: "c = w" by (simp add: c_def work_at_def)
    show ?thesis
    proof (cases "wa_request_remaining_work st rid")
      case None
      then have "c = 0" using le [OF mem [OF Some]] pos by (simp add: work_at_def [of "wa_request_remaining_work st"])
      then show ?thesis using None by (simp add: st'_def charge_no_remaining)
    next
      case rem: (Some v)
      then have "w \<le> v" using le [OF mem [OF Some]] w by (simp add: work_at_def [of "wa_request_remaining_work st"])
      then show ?thesis using rem by (auto simp: st'_def charge_remaining [OF rem Some] w work_at_def [of "wa_request_remaining_work st"])
    qed
  qed
  show "wa_group_backlog_work st' = wa_group_backlog_work st \<and> c = 0
     \<or> (\<exists>gid. wa_request_group st rid = Some gid \<and> tk \<in> ids_of st rid
          \<and> wa_group_backlog_work st' = reduce_backlog (wa_group_backlog_work st) gid c)"
  proof (cases "wa_task_work st tk")
    case None
    then show ?thesis by (simp add: st'_def charge_no_work c_def work_at_def)
  next
    case (Some w)
    then have w: "c = w" by (simp add: c_def work_at_def)
    obtain gid where g: "wa_request_group st rid = Some gid"
      using mem [OF Some] I(7) by (auto simp: ids_of_def dom_def split: option.splits)
    show ?thesis
    proof (cases "wa_request_remaining_work st rid")
      case None
      then have "c = 0" using le [OF mem [OF Some]] pos by (simp add: work_at_def [of "wa_request_remaining_work st"])
      then show ?thesis using None by (simp add: st'_def charge_no_remaining)
    next
      case rem: (Some v)
      then have "w \<le> v" using le [OF mem [OF Some]] w by (simp add: work_at_def [of "wa_request_remaining_work st"])
      then have "wa_group_backlog_work st' = (if 0 < w then reduce_backlog (wa_group_backlog_work st) gid w
          else wa_group_backlog_work st)"
        unfolding st'_def by (rule charge_backlog [OF rem Some _ g])
      then show ?thesis using g mem [OF Some] pos w by (auto split: if_splits)
    qed
  qed
qed

lemma charge_account_inv:
  assumes inv: "account_inv st" and own: "owned st rid tk"
  shows "account_inv (charge_completed_task rid tk st)"
proof -
  define st' where "st' = charge_completed_task rid tk st"
  define c where "c = work_at (wa_task_work st) tk"
  note I = account_invD [OF inv]
  note T = charge_tables [OF inv own, folded st'_def c_def]
  have rem: "work_at (wa_request_remaining_work st') r = (\<Sum>t \<in> ids_of st' r. work_at (wa_task_work st') t)" for r
  proof -
    have "(\<Sum>t \<in> ids_of st' r. work_at (wa_task_work st') t) = (\<Sum>t \<in> ids_of st r - {tk}. work_at (wa_task_work st) t)"
      by (rule sum.cong) (auto simp: T(1,2))
    also have "\<dots> = work_at (wa_request_remaining_work st) r - (if tk \<in> ids_of st r then c else 0)"
      using I(2) [of r] by (simp add: I(8) sum_diff1 c_def)
    moreover have "c = 0" if "tk \<notin> ids_of st rid"
    proof -
      have "wa_task_work st tk = None" using that own I(4) unfolding owned_def by blast
      then show ?thesis by (simp add: c_def work_at_def)
    qed
    ultimately show ?thesis using own unfolding owned_def by (auto simp: T(6))
  qed
  have bound: "bound_work st' gid = bound_work st gid
      - (if rid \<in> dom (wa_request_task_ids st) \<and> wa_request_group st rid = Some gid then c else 0)" for gid
    unfolding bound_work_def T(3,4)
    by (subst sum_shift_one [where k = rid and c = c and f = "work_at (wa_request_remaining_work st)"])
      (use I(1) in \<open>auto simp: T(6)\<close>)
  have nonneg: "0 \<le> bound_work st' gid" for gid
    unfolding bound_work_def using rem by (intro sum_nonneg) (simp add: rem T(1) I(5) sum_nonneg)
  have "0 \<le> work_at (wa_group_backlog_work st') k \<and> work_at (wa_group_backlog_work st') k \<le> bound_work st' k" for k
    using T(7)
  proof (elim disjE exE conjE)
    assume "wa_group_backlog_work st' = wa_group_backlog_work st" "c = 0"
    then show ?thesis using I(9,10) bound by simp
  next
    fix gid assume g: "wa_request_group st rid = Some gid" "tk \<in> ids_of st rid"
      "wa_group_backlog_work st' = reduce_backlog (wa_group_backlog_work st) gid c"
    have "rid \<in> dom (wa_request_task_ids st)" using g(2) by (auto simp: ids_of_def split: option.splits)
    then have "bound_work st' j = bound_work st j - (if j = gid then c else 0)" for j using bound g(1) by auto
    then show ?thesis unfolding g(3)
      by (rule reduce_backlog_bounds [where B = "bound_work st"]) (simp_all add: I(9,10) nonneg)
  qed
  moreover have "dom (wa_task_work st') = (\<Union>r. ids_of st' r)" using I(4) by (auto simp: T(1,2))
  moreover have "0 \<le> work_at (wa_task_work st') t" for t using I(5) by (simp add: T(1))
  moreover have "ids_of st' r \<inter> ids_of st' r' = {}" if "r \<noteq> r'" for r r' using I(3) [OF that] by (auto simp: T(2))
  moreover have "dom (wa_request_remaining_work st') \<subseteq> dom (wa_request_task_ids st')" using T(3,5) I(6) by blast
  ultimately show ?thesis
    unfolding st'_def [symmetric] account_inv_def using I(1,2,7) rem by (simp add: T(2,3,4))
qed

subsection \<open>Cleaning\<close>

lemma UN_drop_one:
  assumes "\<And>r. r \<noteq> k \<Longrightarrow> f r \<inter> f k = {}"
  shows "(\<Union>r. if r = k then {} else f r) = (\<Union>r. f r) - f k"
proof -
  have "(\<Union>r. if r = k then {} else f r) = (\<Union>r \<in> UNIV - {k}. f r)" by (auto split: if_splits)
  also have "\<dots> = (\<Union>r. f r) - f k" using assms by blast
  finally show ?thesis .
qed

text \<open>What cleaning does to the tables.\<close>

lemma cleanup_tables:
  fixes st :: "'a work_account_scheme" and rid :: string and group_id :: "string option"
  defines "st' \<equiv> cleanup_request_work rid group_id st"
  shows "wa_task_work st' = (\<lambda>tk. if tk \<in> ids_of st rid then None else wa_task_work st tk)"
      "wa_request_task_ids st' = (wa_request_task_ids st)(rid := None)"
      "wa_request_remaining_work st' = (wa_request_remaining_work st)(rid := None)"
      "wa_request_group st' = (wa_request_group st)(rid := None)"
      "ids_of st' r = (if r = rid then {} else ids_of st r)"
  by (simp_all add: st'_def cleanup_request_work_def Let_def ids_of_def split: option.split)

lemma cleanup_bound_work:
  assumes inv: "account_inv st"
  shows "bound_work (cleanup_request_work rid group_id st) g = bound_work st g
     - (if wa_request_group st rid = Some g then work_at (wa_request_remaining_work st) rid else 0)"
proof -
  define st' where "st' = cleanup_request_work rid group_id st"
  note T = cleanup_tables [of rid group_id st, folded st'_def]
  let ?A = "{r \<in> dom (wa_request_task_ids st). wa_request_group st r = Some g}"
  let ?r = "work_at (wa_request_remaining_work st) rid"
  have A: "{r \<in> dom (wa_request_task_ids st'). wa_request_group st' r = Some g} = ?A - {rid}"
    by (auto simp: T(2,4))
  have "bound_work st' g = (\<Sum>r \<in> ?A - {rid}. work_at (wa_request_remaining_work st) r)"
    unfolding bound_work_def A by (rule sum.cong) (auto simp: T(3))
  also have "\<dots> = bound_work st g - (if rid \<in> ?A then ?r else 0)"
    using account_invD(1) [OF inv] by (simp add: bound_work_def sum_diff1)
  finally have b: "bound_work st' g = bound_work st g - (if rid \<in> ?A then ?r else 0)" .
  have "?r = 0" if "rid \<notin> dom (wa_request_task_ids st)"
    using that account_invD(6) [OF inv] by (auto simp: work_at_def split: option.split)
  then show ?thesis using b unfolding st'_def by auto
qed

lemma cleanup_backlog:
  assumes inv: "account_inv st"
    and gid: "group_id = None \<or> group_id = Some [] \<or> wa_request_group st rid = None \<or> group_id = wa_request_group st rid"
  shows "wa_group_backlog_work (cleanup_request_work rid group_id st) =
      (case wa_request_group st rid of
         Some g \<Rightarrow>
           if 0 < work_at (wa_request_remaining_work st) rid
           then reduce_backlog (wa_group_backlog_work st) g (work_at (wa_request_remaining_work st) rid)
           else wa_group_backlog_work st
       | None \<Rightarrow> wa_group_backlog_work st)"
proof (cases "wa_request_group st rid")
  case None
  then have "work_at (wa_request_remaining_work st) rid = 0"
    using account_invD(6,7) [OF inv] by (auto simp: work_at_def split: option.split)
  then show ?thesis using None by (simp add: cleanup_request_work_def Let_def split: option.split)
next
  case (Some g)
  then have "or_group group_id (wa_request_group st rid) = Some g" using gid by (auto simp: or_group_def)
  then show ?thesis using Some by (simp add: cleanup_request_work_def Let_def)
qed

lemma cleanup_backlog_bounds:
  assumes inv: "account_inv st"
    and gid: "group_id = None \<or> group_id = Some [] \<or> wa_request_group st rid = None \<or> group_id = wa_request_group st rid"
  shows "0 \<le> work_at (wa_group_backlog_work (cleanup_request_work rid group_id st)) k
     \<and> work_at (wa_group_backlog_work (cleanup_request_work rid group_id st)) k
         \<le> bound_work (cleanup_request_work rid group_id st) k"
proof (cases "wa_request_group st rid = None \<or> work_at (wa_request_remaining_work st) rid = 0")
  case True
  then show ?thesis using account_invD(9,10) [OF inv]
    by (auto simp: cleanup_backlog [OF assms] cleanup_bound_work [OF inv] split: option.split)
next
  case False
  then obtain g where g: "wa_request_group st rid = Some g" by auto
  have pos: "0 < work_at (wa_request_remaining_work st) rid" using False remaining_nonneg [OF inv, of rid] by simp
  have "0 \<le> work_at (wa_request_remaining_work (cleanup_request_work rid group_id st)) r" for r
    using remaining_nonneg [OF inv, of r] by (simp add: cleanup_tables)
  then have nonneg: "0 \<le> bound_work (cleanup_request_work rid group_id st) g"
    unfolding bound_work_def by (intro sum_nonneg)
  have "bound_work (cleanup_request_work rid group_id st) j
      = bound_work st j - (if j = g then work_at (wa_request_remaining_work st) rid else 0)" for j
    using g by (auto simp: cleanup_bound_work [OF inv])
  then have "0 \<le> work_at (reduce_backlog (wa_group_backlog_work st) g (work_at (wa_request_remaining_work st) rid)) k
      \<and> work_at (reduce_backlog (wa_group_backlog_work st) g (work_at (wa_request_remaining_work st) rid)) k
          \<le> bound_work (cleanup_request_work rid group_id st) k"
    by (rule reduce_backlog_bounds [where B = "bound_work st"])
      (simp_all add: account_invD(9,10) [OF inv] nonneg)
  then show ?thesis using g pos by (simp add: cleanup_backlog [OF assms])
qed

lemma cleanup_account_inv:
  assumes inv: "account_inv st"
    and gid: "group_id = None \<or> group_id = Some [] \<or> wa_request_group st rid = None \<or> group_id = wa_request_group st rid"
  shows "account_inv (cleanup_request_work rid group_id st)"
proof -
  define st' where "st' = cleanup_request_work rid group_id st"
  note I = account_invD [OF inv]
  note T = cleanup_tables [of rid group_id st, folded st'_def]
  have rem: "work_at (wa_request_remaining_work st') r = (\<Sum>t \<in> ids_of st' r. work_at (wa_task_work st') t)" for r
  proof (cases "r = rid")
    case False
    have "(\<Sum>t \<in> ids_of st r. work_at (wa_task_work st') t) = (\<Sum>t \<in> ids_of st r. work_at (wa_task_work st) t)"
      using I(3) [OF False] by (intro sum.cong) (auto simp: T(1) work_at_def)
    then show ?thesis using False by (simp add: T(3,5) I(8))
  qed (simp add: T(3,5))
  have "dom (wa_task_work st') = dom (wa_task_work st) - ids_of st rid" by (auto simp: T(1) split: if_splits)
  then have "dom (wa_task_work st') = (\<Union>r. ids_of st' r)"
    unfolding T(5) I(4) using I(3) by (subst UN_drop_one) auto
  moreover have "0 \<le> work_at (wa_task_work st') t" for t
    using I(5) [of t] by (auto simp: T(1) work_at_def)
  moreover have "ids_of st' r \<inter> ids_of st' r' = {}" if "r \<noteq> r'" for r r' using I(3) [OF that] by (simp add: T(5))
  moreover have "dom (wa_request_remaining_work st') \<subseteq> dom (wa_request_task_ids st')"
    "dom (wa_request_task_ids st') \<subseteq> dom (wa_request_group st')" using I(6,7) by (auto simp: T(2-4))
  ultimately show ?thesis
    unfolding st'_def [symmetric] account_inv_def
    using I(1,2) rem cleanup_backlog_bounds [OF assms, folded st'_def] by (simp add: T(2,5))
qed

subsection \<open>Entering a plan\<close>

lemma UN_add_one:
  assumes "f k = {}"
  shows "(\<Union>r. if r = k then K else f r) = (\<Union>r. f r) \<union> K"
proof -
  have "(\<Union>r. if r = k then K else f r) = K \<union> (\<Union>r \<in> UNIV - {k}. f r)" by (auto split: if_splits)
  also have "\<dots> = (\<Union>r. f r) \<union> K" using assms by blast
  finally show ?thesis .
qed

definition plan_keyed :: "plan \<Rightarrow> bool" where
  "plan_keyed p \<longleftrightarrow> map fst (p_tasks p) = map (\<lambda>(k, t). t_id t) (p_tasks p) \<and> distinct (map fst (p_tasks p))"

lemma estimate_task_work_nonneg: "estimate_task_work est t p spec = Inr w \<Longrightarrow> 0 \<le> w"
  unfolding estimate_task_work_def
  by (erule bind_res_InrE, rename_tac a, case_tac a) (auto split: if_splits)

lemma price_task_Inr:
  "price_task est p spec h (tw, c) tk = Inr r \<longleftrightarrow>
     (\<exists>ps w. spec (h tk) = Inr ps \<and> estimate_task_work est (h tk) p ps = Inr w \<and> r = (tw(t_id (h tk) \<mapsto> w), c + w))"
  by (auto simp: price_task_def bind_res_eq_Inr)

lemma price_tasks:
  assumes "for_res (price_task est p spec h) (tw, c) tks = Inr (tw', c')"
    and "distinct tks" "\<And>tk. tk \<in> set tks \<Longrightarrow> t_id (h tk) = tk"
  shows "(\<forall>tk. tk \<notin> set tks \<longrightarrow> tw' tk = tw tk) \<and> (\<forall>tk \<in> set tks. \<exists>w. tw' tk = Some w \<and> 0 \<le> w)
    \<and> c' = c + (\<Sum>tk \<in> set tks. work_at tw' tk)"
  using assms
proof (induction tks arbitrary: tw c)
  case (Cons x xs)
  from Cons.prems(1,3) obtain w where w: "0 \<le> w" "for_res (price_task est p spec h) (tw(x \<mapsto> w), c + w) xs = Inr (tw', c')"
    by (auto simp: price_task_Inr bind_res_eq_Inr dest: estimate_task_work_nonneg)
  note IH = Cons.IH [OF w(2)]
  have d: "distinct xs" "x \<notin> set xs" using Cons.prems(2) by simp_all
  have "work_at tw' x = w" using IH d Cons.prems(3) by (simp add: work_at_def)
  then show ?case using IH d Cons.prems(3) w(1) by (auto simp: work_at_def)
qed auto

lemma enter_plan_account_inv:
  assumes inv: "account_inv st" and e: "enter_plan est p spec gid h st = Inr st'"
    and key: "plan_keyed p" and hd: "\<And>tk. tk \<in> fst ` set (p_tasks p) \<Longrightarrow> t_id (h tk) = tk"
    and new: "wa_request_task_ids st (p_request_id p) = None"
      "\<And>r. ids_of st r \<inter> fst ` set (p_tasks p) = {}"
    and gid: "wa_request_group st (p_request_id p) = Some gid"
  shows "account_inv st'"
proof -
  note I = account_invD [OF inv]
  let ?r = "p_request_id p" and ?K = "fst ` set (p_tasks p)"
  have K: "set (map (\<lambda>(k, t). t_id t) (p_tasks p)) = ?K" "distinct (map (\<lambda>(k, t). t_id t) (p_tasks p))"
    using key unfolding plan_keyed_def by (metis list.set_map)+
  obtain tw c where loop: "for_res (price_task est p spec h) (wa_task_work st, 0) (map (\<lambda>(k, t). t_id t) (p_tasks p)) = Inr (tw, c)"
    and st': "st' = st\<lparr>wa_task_work := tw, wa_request_task_ids := (wa_request_task_ids st)(?r \<mapsto> set (map fst (p_tasks p))),
         wa_request_remaining_work := (wa_request_remaining_work st)(?r \<mapsto> c),
         wa_group_backlog_work := (wa_group_backlog_work st)(gid \<mapsto> work_at (wa_group_backlog_work st) gid + c)\<rparr>"
    using e by (auto simp: enter_plan_def bind_res_eq_Inr)
  have P: "\<And>tk. tk \<notin> ?K \<Longrightarrow> tw tk = wa_task_work st tk" "\<And>tk. tk \<in> ?K \<Longrightarrow> \<exists>w. tw tk = Some w \<and> 0 \<le> w"
      "c = (\<Sum>tk \<in> ?K. work_at tw tk)"
    using price_tasks [OF loop K(2)] hd unfolding K(1) by auto
  have twpos: "0 \<le> work_at tw tk" for tk
    using P(1,2) [of tk] I(5) [of tk] by (cases "tk \<in> ?K") (auto simp: work_at_def)
  have c0: "0 \<le> c" unfolding P(3) using twpos by (intro sum_nonneg)
  have ids: "ids_of st' r = (if r = ?r then ?K else ids_of st r)" for r by (simp add: st' ids_of_def)
  have rem: "work_at (wa_request_remaining_work st') r = (\<Sum>t \<in> ids_of st' r. work_at (wa_task_work st') t)" for r
  proof (cases "r = ?r")
    case False
    have "(\<Sum>t \<in> ids_of st r. work_at tw t) = (\<Sum>t \<in> ids_of st r. work_at (wa_task_work st) t)"
    proof (intro sum.cong refl)
      fix t assume "t \<in> ids_of st r"
      then have "t \<notin> ?K" using new(2) [of r] by blast
      then show "work_at tw t = work_at (wa_task_work st) t" using P(1) by (simp add: work_at_def)
    qed
    then show ?thesis using False by (simp add: ids) (simp add: st' I(8))
  qed (simp add: ids P(3), simp add: st' P(3))
  have bound: "bound_work st' g = bound_work st g + (if g = gid then c else 0)" for g
  proof -
    let ?A = "{r \<in> dom (wa_request_task_ids st). wa_request_group st r = Some g}"
    have A: "{r \<in> dom (wa_request_task_ids st'). wa_request_group st' r = Some g} = (if g = gid then insert ?r ?A else ?A)"
      using gid new(1) by (auto simp: st')
    have "(\<Sum>r \<in> ?A. work_at (wa_request_remaining_work st') r) = bound_work st g"
      unfolding bound_work_def using new(1) by (intro sum.cong) (auto simp: st')
    moreover have "?r \<notin> ?A" "finite ?A" using new(1) I(1) by auto
    moreover have "work_at (wa_request_remaining_work st') ?r = c" by (simp add: st')
    ultimately show ?thesis unfolding bound_work_def [of st'] A by (cases "g = gid") (auto simp: add.commute)
  qed
  have "dom tw = dom (wa_task_work st) \<union> ?K" using P(1,2) by (auto simp: dom_def) metis+
  then have "dom (wa_task_work st') = (\<Union>r. ids_of st' r)"
    unfolding ids using I(4) new(1) by (subst UN_add_one) (simp_all add: ids_of_def [of st "?r"], simp add: st')
  moreover have "ids_of st' r \<inter> ids_of st' r' = {}" if "r \<noteq> r'" for r r'
    using I(3) [OF that] new(2) that unfolding ids by auto
  moreover have "0 \<le> work_at (wa_group_backlog_work st') k \<and> work_at (wa_group_backlog_work st') k \<le> bound_work st' k" for k
    using I(9,10) [of k] c0 by (auto simp: bound) (auto simp: st' add_nonneg_nonneg)
  ultimately show ?thesis unfolding account_inv_def using I(1,2) rem twpos I(6,7) gid
    by (simp add: ids) (auto simp: st')
qed

text \<open>Binding a request that is not in the books changes no amount.\<close>

lemma bind_account_inv:
  assumes inv: "account_inv st" and new: "wa_request_task_ids st rid = None"
  shows "account_inv (st\<lparr>wa_request_group := (wa_request_group st)(rid := v)\<rparr>)"
proof -
  have "{r \<in> dom (wa_request_task_ids st). ((wa_request_group st)(rid := v)) r = Some g}
      = {r \<in> dom (wa_request_task_ids st). wa_request_group st r = Some g}" for g
    using new by auto
  then show ?thesis using inv new unfolding account_inv_def ids_of_def bound_work_def by auto
qed

text \<open>An idle group has no backlog entry left, and nothing is remembered of requests that ended.\<close>

lemma account_idle:
  assumes "account_inv st" "\<And>r. r \<in> dom (wa_request_task_ids st) \<Longrightarrow> wa_request_group st r \<noteq> Some gid"
  shows "work_at (wa_group_backlog_work st) gid = 0"
proof -
  have "{r \<in> dom (wa_request_task_ids st). wa_request_group st r = Some gid} = {}" using assms(2) by blast
  then have "bound_work st gid = 0" unfolding bound_work_def by (simp only: sum.empty)
  then show ?thesis using account_invD(9,10) [OF assms(1), of gid] by simp
qed

subsection \<open>Binding\<close>

lemma assign_groups:
  assumes "for_res (assign_group gid) h tks = Inr h'"
  shows "(\<forall>tk \<in> set tks. t_group_id (h' tk) = Some gid)
    \<and> (\<forall>tk. h' tk = (h tk)\<lparr>t_group_id := t_group_id (h' tk)\<rparr>)
    \<and> (\<forall>tk. tk \<notin> set tks \<longrightarrow> h' tk = h tk)"
  using assms
proof (induction tks arbitrary: h)
  case (Cons x xs)
  from Cons.prems obtain h1 where h1: "assign_group gid h x = Inr h1" "for_res (assign_group gid) h1 xs = Inr h'"
    by (auto elim: bind_res_InrE)
  have g: "t_group_id (h1 x) = Some gid" "\<forall>tk. h1 tk = (h tk)\<lparr>t_group_id := t_group_id (h1 tk)\<rparr>" "\<forall>tk. tk \<noteq> x \<longrightarrow> h1 tk = h tk"
    using h1(1) by (auto simp: assign_group_def split: option.splits if_splits)
  note IH = Cons.IH [OF h1(2)]
  have "t_group_id (h' x) = Some gid" using IH g(1) by (cases "x \<in> set xs") auto
  moreover have "h' tk = (h tk)\<lparr>t_group_id := t_group_id (h' tk)\<rparr>" for tk
  proof -
    have "h' tk = (h1 tk)\<lparr>t_group_id := t_group_id (h' tk)\<rparr>" using IH by blast
    also have "\<dots> = (h tk)\<lparr>t_group_id := t_group_id (h' tk)\<rparr>" by (subst g(2) [rule_format]) simp
    finally show ?thesis .
  qed
  ultimately show ?case using IH g(3) by auto
qed simp

lemma zip_keys_min:
  assumes "map_res f xs = Inr ks" "f x = Inr k" "(y, m) = min_by snd (x, k) (zip xs ks)"
  shows "y \<in> set (x # xs) \<and> f y = Inr m \<and> (\<forall>z \<in> set (x # xs). \<exists>l. f z = Inr l \<and> m \<le> l)"
proof -
  have ks: "map f xs = map Inr ks" using assms(1) by (simp add: map_res_Inr)
  then have len: "length ks = length xs" by (metis length_map)
  have at: "f (xs ! i) = Inr (ks ! i)" if "i < length xs" for i
    using ks that len by (metis nth_map)
  have pair: "z \<in> set (x # xs) \<and> f z = Inr l" if "(z, l) \<in> set ((x, k) # zip xs ks)" for z l
    using that assms(2) at len by (auto simp: set_zip)
  have all: "\<exists>l. (z, l) \<in> set ((x, k) # zip xs ks)" if "z \<in> set (x # xs)" for z
    using that len by (auto simp: set_zip in_set_conv_nth)
  have min: "(y, m) \<in> set ((x, k) # zip xs ks)" "\<And>q. q \<in> set ((x, k) # zip xs ks) \<Longrightarrow> m \<le> snd q"
    using min_by_spec [of snd "(x, k)" "zip xs ks"] assms(3) [symmetric] by auto
  show ?thesis
  proof (intro conjI ballI)
    show "y \<in> set (x # xs)" "f y = Inr m" using pair [OF min(1)] by blast+
  next
    fix z assume "z \<in> set (x # xs)"
    then obtain l where l: "(z, l) \<in> set ((x, k) # zip xs ks)" using all by blast
    then show "\<exists>l. f z = Inr l \<and> m \<le> l" using pair [OF l] min(2) [OF l] by auto
  qed
qed

lemma select_request_group_spec:
  assumes "select_request_group est p ts st = Inr gid"
  shows "gid \<in> set (candidate_groups_for_plan (wa_topology st) ts)
    \<and> (\<forall>t \<in> set ts. t_group_id t = None \<or> t_group_id t = Some gid)
    \<and> ((\<forall>t \<in> set ts. t_group_id t = None) \<longrightarrow> 1 < length (candidate_groups_for_plan (wa_topology st) ts) \<longrightarrow>
        (\<exists>k. bind_key est ts p st gid = Inr k
           \<and> (\<forall>g \<in> set (candidate_groups_for_plan (wa_topology st) ts). \<exists>l. bind_key est ts p st g = Inr l \<and> k \<le> l)))"
proof -
  let ?C = "candidate_groups_for_plan (wa_topology st) ts"
  from assms obtain ex where ex: "resolve_explicit_request_group ts = Inr ex"
    by (auto simp: select_request_group_def elim: bind_res_InrE)
  show ?thesis
  proof (cases ex)
    case (Some g)
    then have g: "gid = g" "g \<in> set ?C" using assms ex by (auto simp: select_request_group_def Let_def split: if_splits)
    have "\<exists>t \<in> set ts. t_group_id t \<noteq> None"
    proof (rule ccontr)
      assume "\<not> (\<exists>t \<in> set ts. t_group_id t \<noteq> None)"
      then have none: "filter (\<lambda>g. g \<noteq> None) (map t_group_id ts) = []" by (auto simp: filter_empty_conv)
      have "resolve_explicit_request_group ts = Inr None"
        unfolding resolve_explicit_request_group_def none by simp
      then show False using ex Some by simp
    qed
    then have pinned: "\<not> (\<forall>t \<in> set ts. t_group_id t = None)" by simp
    have all: "\<forall>t \<in> set ts. t_group_id t = None \<or> t_group_id t = Some gid"
      using resolve_explicit_Some [OF ex [unfolded Some]] g(1) by simp
    show ?thesis by (intro conjI impI) (simp add: g, rule all, erule notE [OF pinned])
  next
    case None
    note free = resolve_explicit_None [OF ex [unfolded None]]
    show ?thesis
    proof (cases ?C)
      case Nil
      then show ?thesis using assms ex None by (simp add: select_request_group_def Let_def)
    next
      case C: (Cons c cs)
      show ?thesis
      proof (cases cs)
        case Nil
        then show ?thesis using assms ex None C free by (simp add: select_request_group_def Let_def)
      next
        case (Cons c' cs')
        then obtain k ks where k: "bind_key est ts p st c = Inr k" "map_res (bind_key est ts p st) cs = Inr ks"
            "gid = fst (min_by snd (c, k) (zip cs ks))"
          using assms ex None C by (auto simp: select_request_group_def Let_def simp del: map_res.simps elim!: bind_res_InrE)
        obtain m where "(gid, m) = min_by snd (c, k) (zip cs ks)" using k(3) by (metis prod.collapse)
        from zip_keys_min [OF k(2,1) this] show ?thesis using free C by auto
      qed
    qed
  qed
qed

subsection \<open>What the policies rely on from their callers\<close>

text \<open>A submitted plan names its tasks consistently and neither it nor its tasks are known.\<close>

definition plan_new :: "heap \<Rightarrow> 'a work_account_scheme \<Rightarrow> plan \<Rightarrow> bool" where
  "plan_new h st p \<longleftrightarrow>
     plan_keyed p \<and> (\<forall>tk \<in> fst ` set (p_tasks p). t_id (h tk) = tk)
     \<and> wa_request_task_ids st (p_request_id p) = None
     \<and> (\<forall>r. ids_of st r \<inter> fst ` set (p_tasks p) = {})"

text \<open>An event names the request of its task, and the group of its request when it names one.\<close>

definition event_fits :: "'a work_account_scheme \<Rightarrow> worker_event \<Rightarrow> bool" where
  "event_fits st ev \<longleftrightarrow>
     owned st (e_request_id ev) (e_task_id ev)
     \<and> (e_group_id ev = [] \<or> wa_request_group st (e_request_id ev) = None
        \<or> wa_request_group st (e_request_id ev) = Some (e_group_id ev))"

lemma root_tasks_keyed:
  assumes "plan_keyed p"
  shows "set (root_tasks p) \<subseteq> fst ` set (p_tasks p)" "distinct (root_tasks p)"
proof -
  have k: "map fst (p_tasks p) = map (\<lambda>(k, t). t_id t) (p_tasks p)" "distinct (map fst (p_tasks p))"
    using assms by (simp_all add: plan_keyed_def)
  have "fst ` set (p_tasks p) = (\<lambda>(k, t). t_id t) ` set (p_tasks p)" using k(1) by (metis list.set_map)
  then show "set (root_tasks p) \<subseteq> fst ` set (p_tasks p)" by (auto simp: root_tasks_def)
  show "distinct (root_tasks p)"
    using k unfolding root_tasks_def by (simp add: distinct_map inj_on_def)
qed

lemma bind_enter_account_inv:
  assumes inv: "account_inv st" and new: "plan_new h st p"
    and b: "bind_request_group est p (h, st) = Inr ((h1, st1), gid)"
    and e: "enter_plan est p spec gid h1 st1 = Inr st2"
  shows "account_inv st2"
proof -
  have st1: "st1 = st\<lparr>wa_request_group := (wa_request_group st)(p_request_id p \<mapsto> gid)\<rparr>"
    and h1: "for_res (assign_group gid) h (map (\<lambda>(k, t). t_id t) (p_tasks p)) = Inr h1"
    using b by (auto simp: bind_request_group_def bind_res_eq_Inr)
  have id: "t_id (h1 tk) = t_id (h tk)" for tk
  proof -
    have "h1 tk = (h tk)\<lparr>t_group_id := t_group_id (h1 tk)\<rparr>" using assign_groups [OF h1] by blast
    then show ?thesis by (metis task.select_convs(1) task.surjective task.update_convs(4))
  qed
  have inv1: "account_inv st1" unfolding st1 by (rule bind_account_inv [OF inv]) (use new in \<open>simp add: plan_new_def\<close>)
  show ?thesis
    by (rule enter_plan_account_inv [OF inv1 e])
      (use new in \<open>auto simp: plan_new_def st1 ids_of_def id\<close>)
qed

section \<open>Properties\<close>

text \<open>
  A request is bound to one group: every task of the plan gets that group, the group supports
  all kinds of tasks of the plan, and among several candidates of an unpinned plan no other one
  has a smaller backlog plus estimate (then configuration order).
\<close>

theorem bind_request_group_earliest_free:
  assumes "topology_inv (wa_topology st)" and "bind_request_group est p (h, st) = Inr ((h', st'), gid)"
  shows "wa_request_group st' (p_request_id p) = Some gid
    \<and> (\<forall>(k, t) \<in> set (p_tasks p). t_group_id (h' (t_id t)) = Some gid)
    \<and> (\<exists>g. get_group (wa_topology st) gid = Inr g \<and> (\<forall>t \<in> set (plan_tasks h p). t_kind t \<in> set (g_kinds g)))
    \<and> ((\<forall>t \<in> set (plan_tasks h p). t_group_id t = None) \<longrightarrow>
        1 < length (candidate_groups_for_plan (wa_topology st) (plan_tasks h p)) \<longrightarrow>
        (\<exists>k. bind_key est (plan_tasks h p) p st gid = Inr k
           \<and> (\<forall>g \<in> set (candidate_groups_for_plan (wa_topology st) (plan_tasks h p)).
                \<exists>l. bind_key est (plan_tasks h p) p st g = Inr l \<and> k \<le> l)))"
proof -
  have sel: "select_request_group est p (plan_tasks h p) st = Inr gid"
    and h': "for_res (assign_group gid) h (map (\<lambda>(k, t). t_id t) (p_tasks p)) = Inr h'"
    and st': "st' = st\<lparr>wa_request_group := (wa_request_group st)(p_request_id p \<mapsto> gid)\<rparr>"
    using assms(2) by (auto simp: bind_request_group_def bind_res_eq_Inr)
  note S = select_request_group_spec [OF sel]
  have "\<exists>g. get_group (wa_topology st) gid = Inr g \<and> (\<forall>t \<in> set (plan_tasks h p). t_kind t \<in> set (g_kinds g))"
    by (rule candidate_groups_support [OF assms(1)]) (use S in blast)
  moreover have "\<forall>(k, t) \<in> set (p_tasks p). t_group_id (h' (t_id t)) = Some gid"
    using assign_groups [OF h'] by auto
  moreover have "wa_request_group st' (p_request_id p) = Some gid" by (simp add: st')
  ultimately show ?thesis using S by blast
qed

subsection \<open>A concrete plan\<close>

definition ex_work_task :: "string \<Rightarrow> string \<Rightarrow> task" where
  "ex_work_task rid tk = (ex_task tk [])\<lparr>t_request_id := rid, t_group_id := None\<rparr>"

text \<open>Requests \<open>r1\<close> and \<open>r2\<close>; tasks \<open>r1a\<close>, \<open>r1b\<close> and \<open>r2a\<close>.\<close>

definition ex_work_heap :: heap where
  "ex_work_heap tk = ex_work_task (take 2 tk) tk"

definition ex_plan :: "string \<Rightarrow> string list \<Rightarrow> plan" where
  "ex_plan rid tks =
     \<lparr>p_request_id = rid, p_tasks = map (\<lambda>tk. (tk, ex_work_task rid tk)) tks, p_terminal = [], p_initial = [],
      p_metadata = []\<rparr>"

text \<open>A wider group is faster.\<close>

definition ex_work_est :: estimator where
  "ex_work_est ps n stage = Inr (Fin (12 / of_int (ps_sp ps)))"

lemma ex_bind:
  "case bind_request_group ex_work_est (ex_plan ''r1'' [''r1a'', ''r1b'']) (ex_work_heap, work_account_init ex_topology) of
     Inl _ \<Rightarrow> False
   | Inr ((h, st), gid) \<Rightarrow> gid = ''a''"
  by code_simp

theorem bind_request_group_earliest_free_witness:
  "\<exists>h st. bind_request_group ex_work_est (ex_plan ''r1'' [''r1a'', ''r1b'']) (ex_work_heap, work_account_init ex_topology)
      = Inr ((h, st), ''a'') \<and> t_group_id (h ''r1b'') = Some ''a''"
proof -
  obtain h st where b: "bind_request_group ex_work_est (ex_plan ''r1'' [''r1a'', ''r1b''])
      (ex_work_heap, work_account_init ex_topology) = Inr ((h, st), ''a'')"
    using ex_bind by (auto split: sum.splits)
  have "topology_inv (wa_topology (work_account_init ex_topology))"
    using ex_topology_inv by (simp add: work_account_init_def)
  from bind_request_group_earliest_free [OF this b] b show ?thesis
    by (auto simp: ex_plan_def ex_work_task_def ex_task_def)
qed

end
