(* ===== verification/Srtf.thy ===== *)
theory Srtf
  imports WorkAccount
begin

text \<open>
  Shortest remaining time first at task boundaries (\<open>runtime_v2/policies/srtf.py\<close>). The choice of
  the request and the cleaning, which the subclass of \<open>policies/sjf.py\<close> replaces, are arguments of
  the operations. The locale states what the dispatch relies on from them. Work is an exact rational.
\<close>

section \<open>State\<close>

record srtf = work_account +
  sr_runnable_by_group :: "string \<Rightarrow> (string \<times> string list) list option"
  sr_active_request_by_group :: "string \<Rightarrow> string option"
  sr_outstanding_tasks_by_group :: "string counter"
  sr_launch_pending_by_group :: "string counter"
  sr_tasks_pending_launch :: "string set"
  sr_dispatched_task_group :: "string \<Rightarrow> string option"
  sr_submit_counter :: int
  sr_request_submit_seq :: "string \<Rightarrow> int option"

definition max_queue_ahead_per_group :: nat where "max_queue_ahead_per_group = 1"

definition srtf_init :: "topology \<Rightarrow> srtf" where
  "srtf_init T = work_account.extend (work_account_init T)
     \<lparr>sr_runnable_by_group = (\<lambda>_. None), sr_active_request_by_group = (\<lambda>_. None),
      sr_outstanding_tasks_by_group = (\<lambda>_. None), sr_launch_pending_by_group = (\<lambda>_. None),
      sr_tasks_pending_launch = {}, sr_dispatched_task_group = (\<lambda>_. None),
      sr_submit_counter = 0, sr_request_submit_seq = (\<lambda>_. None)\<rparr>"

section \<open>Choice of the request\<close>

type_synonym 'st select = "'st \<Rightarrow> string \<Rightarrow> (string \<times> string list) list \<Rightarrow> 'st \<times> string option"

text \<open>\<open>d.get(k, float("inf"))\<close>.\<close>

definition work_or_inf :: "(string \<Rightarrow> rat option) \<Rightarrow> string \<Rightarrow> xrat" where
  "work_or_inf d k = (case d k of None \<Rightarrow> Infty | Some w \<Rightarrow> Fin w)"

definition submit_seq :: "'a srtf_scheme \<Rightarrow> string \<Rightarrow> int" where
  "submit_seq st rid = (case sr_request_submit_seq st rid of None \<Rightarrow> sr_submit_counter st | Some i \<Rightarrow> i)"

definition srtf_key :: "'a srtf_scheme \<Rightarrow> string \<Rightarrow> string \<Rightarrow> xrat \<times> nat \<times> int \<times> string" where
  "srtf_key st gid rid =
     (work_or_inf (wa_request_remaining_work st) rid,
      (if sr_active_request_by_group st gid = Some rid then 0 else 1), submit_seq st rid, rid)"

definition select_shortest_request :: "'a srtf_scheme select" where
  "select_shortest_request st gid by_request =
     (st, case map fst by_request of [] \<Rightarrow> None | r # rs \<Rightarrow> Some (min_by (srtf_key st gid) r rs))"

section \<open>Dispatch\<close>

definition dispatch_group ::
  "'a srtf_scheme select \<Rightarrow> (heap \<times> 'a srtf_scheme) \<times> string list \<Rightarrow> string
   \<Rightarrow> ((heap \<times> 'a srtf_scheme) \<times> string list) res" where
  "dispatch_group sel s gid =
     (case s of ((h, st), out) \<Rightarrow>
        if 0 < cget (sr_launch_pending_by_group st) gid then Inr s
        else if 1 + max_queue_ahead_per_group \<le> cget (sr_outstanding_tasks_by_group st) gid then Inr s
        else case sr_runnable_by_group st gid of
          None \<Rightarrow> Inr s
        | Some by_request \<Rightarrow>
            if by_request = [] then Inr s
            else (case sel st gid by_request of
               (st1, None) \<Rightarrow> Inr ((h, st1), out)
             | (st1, Some rid) \<Rightarrow>
                 bind_res (dict_get (map_of by_request) rid) (\<lambda>queue.
                 case queue of
                   [] \<Rightarrow> Inl IndexError
                 | tk # queue' \<Rightarrow>
                     let by_request' = (if queue' = [] then dict_pop by_request rid else dict_set by_request rid queue')
                     in Inr ((h(tk := (h tk)\<lparr>t_status := DISPATCHED\<rparr>),
                       st1\<lparr>sr_runnable_by_group := (sr_runnable_by_group st1)
                              (gid := if by_request' = [] then None else Some by_request'),
                           sr_active_request_by_group := (sr_active_request_by_group st1)(gid \<mapsto> rid),
                           sr_outstanding_tasks_by_group := cinc (sr_outstanding_tasks_by_group st1) gid,
                           sr_dispatched_task_group := (sr_dispatched_task_group st1)(tk \<mapsto> gid),
                           sr_tasks_pending_launch := insert tk (sr_tasks_pending_launch st1),
                           sr_launch_pending_by_group := cinc (sr_launch_pending_by_group st1) gid\<rparr>),
                       out @ [tk]))))"

definition srtf_take :: "'a srtf_scheme select \<Rightarrow> 'a srtf_scheme dispatch" where
  "srtf_take sel s =
     (case s of (h, st) \<Rightarrow> for_res (dispatch_group sel) ((h, st), []) (map g_id (tp_groups (wa_topology st))))"

section \<open>Runnable tasks and submission\<close>

text \<open>One task of the loop of \<open>on_tasks_runnable\<close>.\<close>

definition srtf_enqueue :: "heap \<times> 'a srtf_scheme \<Rightarrow> string \<Rightarrow> (heap \<times> 'a srtf_scheme) res" where
  "srtf_enqueue s tk =
     (case s of (h, st) \<Rightarrow>
        let t = h tk;
            t1 = (if t_group_id t = None then t\<lparr>t_group_id := wa_request_group st (t_request_id t)\<rparr> else t)
        in case t_group_id t1 of
             None \<Rightarrow> Inl ValueError
           | Some gid \<Rightarrow>
               let req_group = (case wa_request_group st (t_request_id t1) of None \<Rightarrow> gid | Some g \<Rightarrow> g);
                   st1 = st\<lparr>wa_request_group := (wa_request_group st)(t_request_id t1 \<mapsto> req_group)\<rparr>
               in if req_group \<noteq> gid then Inl ValueError
                  else
                    let by_request = (case sr_runnable_by_group st1 gid of None \<Rightarrow> [] | Some d \<Rightarrow> d);
                        queue = (case map_of by_request (t_request_id t1) of None \<Rightarrow> [] | Some q \<Rightarrow> q)
                    in Inr (h(tk := t1\<lparr>t_status := READY\<rparr>),
                         st1\<lparr>sr_runnable_by_group := (sr_runnable_by_group st1)
                               (gid \<mapsto> dict_set by_request (t_request_id t1) (queue @ [tk]))\<rparr>))"

definition srtf_runnable :: "'a srtf_scheme dispatch \<Rightarrow> string list \<Rightarrow> 'a srtf_scheme dispatch" where
  "srtf_runnable take_tasks tks s = bind_res (for_res srtf_enqueue s tks) take_tasks"

text \<open>\<open>_resolve_parallel_spec\<close>.\<close>

definition resolve_parallel_spec :: "topology \<Rightarrow> task \<Rightarrow> parallel_spec res" where
  "resolve_parallel_spec T t =
     (case t_group_id t of
        None \<Rightarrow> Inl ValueError
      | Some gid \<Rightarrow> bind_res (get_group T gid) (\<lambda>g. Inr (g_parallel g)))"

definition note_submission :: "string \<Rightarrow> 'a srtf_scheme \<Rightarrow> 'a srtf_scheme" where
  "note_submission rid st =
     (if sr_request_submit_seq st rid = None
      then st\<lparr>sr_request_submit_seq := (sr_request_submit_seq st)(rid \<mapsto> sr_submit_counter st),
              sr_submit_counter := sr_submit_counter st + 1\<rparr>
      else st)"

definition srtf_submit ::
  "estimator \<Rightarrow> 'a srtf_scheme dispatch \<Rightarrow> plan \<Rightarrow> 'a srtf_scheme dispatch" where
  "srtf_submit est take_tasks p s =
     (case s of (h, st) \<Rightarrow>
        bind_res (bind_request_group est p (h, note_submission (p_request_id p) st)) (\<lambda>((h1, st1), gid).
        bind_res (enter_plan est p (resolve_parallel_spec (wa_topology st1)) gid h1 st1) (\<lambda>st2.
          srtf_runnable take_tasks (root_tasks p) (h1, st2))))"

section \<open>Worker events\<close>

definition mark_task_launch_finished :: "string \<Rightarrow> 'a srtf_scheme \<Rightarrow> 'a srtf_scheme" where
  "mark_task_launch_finished tk st =
     (if tk \<notin> sr_tasks_pending_launch st then st
      else
        let st1 = st\<lparr>sr_tasks_pending_launch := sr_tasks_pending_launch st - {tk}\<rparr>
        in case sr_dispatched_task_group st tk of
             None \<Rightarrow> st1
           | Some gid \<Rightarrow> st1\<lparr>sr_launch_pending_by_group := cdec (sr_launch_pending_by_group st) gid\<rparr>)"

definition srtf_release_task :: "string \<Rightarrow> 'a srtf_scheme \<Rightarrow> 'a srtf_scheme" where
  "srtf_release_task tk st =
     (case sr_dispatched_task_group st tk of
        None \<Rightarrow> st
      | Some gid \<Rightarrow>
          st\<lparr>sr_dispatched_task_group := (sr_dispatched_task_group st)(tk := None),
             sr_outstanding_tasks_by_group := cdec (sr_outstanding_tasks_by_group st) gid\<rparr>)"

definition srtf_cleanup :: "string \<Rightarrow> string option \<Rightarrow> 'a srtf_scheme \<Rightarrow> 'a srtf_scheme" where
  "srtf_cleanup rid gid st =
     cleanup_request_work rid gid (st\<lparr>sr_request_submit_seq := (sr_request_submit_seq st)(rid := None)\<rparr>)"

text \<open>The queues of a request that ended are dropped and its hold on the group is given up.\<close>

definition srtf_forget :: "string \<Rightarrow> string option \<Rightarrow> 'a srtf_scheme \<Rightarrow> 'a srtf_scheme" where
  "srtf_forget rid group_id st =
     (case group_id of
        None \<Rightarrow> st
      | Some gid \<Rightarrow>
          st\<lparr>sr_runnable_by_group := (sr_runnable_by_group st)
               (gid := (case sr_runnable_by_group st gid of
                          None \<Rightarrow> None
                        | Some d \<Rightarrow> if dict_pop d rid = [] then None else Some (dict_pop d rid))),
             sr_active_request_by_group :=
               (if sr_active_request_by_group st gid = Some rid
                then (sr_active_request_by_group st)(gid := None) else sr_active_request_by_group st)\<rparr>)"

definition srtf_event ::
  "(string \<Rightarrow> string option \<Rightarrow> 'a srtf_scheme \<Rightarrow> 'a srtf_scheme) \<Rightarrow> 'a srtf_scheme dispatch
   \<Rightarrow> worker_event \<Rightarrow> 'a srtf_scheme dispatch" where
  "srtf_event cleanup take_tasks ev s =
     (case s of (h, st) \<Rightarrow>
        let rid = e_request_id ev; tk = e_task_id ev;
            st1 = (if e_kind ev \<in> {TASK_LAUNCH_END, TASK_EXEC_END, TASK_FAILED}
                   then mark_task_launch_finished tk st else st);
            st2 = (if e_kind ev \<in> {TASK_EXEC_END, TASK_FAILED} then srtf_release_task tk st1 else st1)
        in if e_kind ev = TASK_LAUNCH_END then Inr ((h, charge_completed_task rid tk st2), [])
           else
             let st3 = (if e_kind ev = TASK_EXEC_END then charge_completed_task rid tk st2 else st2);
                 gid = or_group (Some (e_group_id ev)) (wa_request_group st3 rid);
                 st4 = (if e_kind ev \<in> {REQUEST_FINISHED, REQUEST_FAILED}
                        then cleanup rid gid (srtf_forget rid gid st3) else st3)
             in take_tasks (h, st4))"

section \<open>Invariant\<close>

text \<open>The queue of a request on a group, and the tasks in flight as claims on their group.\<close>

definition sq :: "'a srtf_scheme \<Rightarrow> string \<times> string \<Rightarrow> string list" where
  "sq st x =
     (case sr_runnable_by_group st (fst x) of
        None \<Rightarrow> []
      | Some d \<Rightarrow> (case map_of d (snd x) of None \<Rightarrow> [] | Some q \<Rightarrow> q))"

definition srtf_claims :: "'a srtf_scheme \<Rightarrow> string claims" where
  "srtf_claims st tk = map_option (\<lambda>gid. (False, [gid])) (sr_dispatched_task_group st tk)"

definition launch_claims :: "'a srtf_scheme \<Rightarrow> string claims" where
  "launch_claims st tk = (if tk \<in> sr_tasks_pending_launch st then srtf_claims st tk else None)"

definition runnable_wf :: "'a srtf_scheme \<Rightarrow> bool" where
  "runnable_wf st \<longleftrightarrow>
     (\<forall>gid d. sr_runnable_by_group st gid = Some d \<longrightarrow> d \<noteq> [] \<and> distinct (map fst d) \<and> [] \<notin> snd ` set d)"

definition srtf_inv :: "'a srtf_scheme \<Rightarrow> bool" where
  "srtf_inv st \<longleftrightarrow>
     queues_ok (sq st) (srtf_claims st) \<and> runnable_wf st \<and> finite (dom (sr_dispatched_task_group st))
     \<and> sr_tasks_pending_launch st \<subseteq> dom (sr_dispatched_task_group st)
     \<and> ledger.books (srtf_claims st) False (\<lambda>_. 0) (sr_outstanding_tasks_by_group st)
     \<and> ledger.books (launch_claims st) False (\<lambda>_. 0) (sr_launch_pending_by_group st)
     \<and> (\<forall>gid. cget (sr_outstanding_tasks_by_group st) gid \<le> 1 + max_queue_ahead_per_group)
     \<and> (\<forall>gid. cget (sr_launch_pending_by_group st) gid \<le> 1)"

text \<open>Two states with the same queues and the same tasks in flight.\<close>

definition same_dispatch :: "'a srtf_scheme \<Rightarrow> 'b srtf_scheme \<Rightarrow> bool" where
  "same_dispatch st st' \<longleftrightarrow>
     wa_topology st' = wa_topology st \<and> sr_runnable_by_group st' = sr_runnable_by_group st
     \<and> sr_active_request_by_group st' = sr_active_request_by_group st
     \<and> sr_outstanding_tasks_by_group st' = sr_outstanding_tasks_by_group st
     \<and> sr_launch_pending_by_group st' = sr_launch_pending_by_group st
     \<and> sr_tasks_pending_launch st' = sr_tasks_pending_launch st
     \<and> sr_dispatched_task_group st' = sr_dispatched_task_group st"

definition same_account :: "'a srtf_scheme \<Rightarrow> 'b srtf_scheme \<Rightarrow> bool" where
  "same_account st st' \<longleftrightarrow>
     wa_request_group st' = wa_request_group st \<and> wa_group_backlog_work st' = wa_group_backlog_work st
     \<and> wa_request_remaining_work st' = wa_request_remaining_work st
     \<and> wa_task_work st' = wa_task_work st \<and> wa_request_task_ids st' = wa_request_task_ids st
     \<and> sr_submit_counter st' = sr_submit_counter st \<and> sr_request_submit_seq st' = sr_request_submit_seq st"

lemma same_dispatchD:
  assumes "same_dispatch st st'"
  shows "wa_topology st' = wa_topology st" "sr_runnable_by_group st' = sr_runnable_by_group st"
    "sr_active_request_by_group st' = sr_active_request_by_group st"
    "sr_outstanding_tasks_by_group st' = sr_outstanding_tasks_by_group st"
    "sr_launch_pending_by_group st' = sr_launch_pending_by_group st"
    "sr_tasks_pending_launch st' = sr_tasks_pending_launch st"
    "sr_dispatched_task_group st' = sr_dispatched_task_group st"
    "sq st' = sq st" "srtf_claims st' = srtf_claims st" "launch_claims st' = launch_claims st"
    "runnable_wf st' = runnable_wf st"
  using assms unfolding same_dispatch_def
  by (auto simp: fun_eq_iff sq_def srtf_claims_def launch_claims_def runnable_wf_def)

lemma same_dispatch_inv: "same_dispatch st st' \<Longrightarrow> srtf_inv st' \<longleftrightarrow> srtf_inv st"
  unfolding srtf_inv_def by (simp add: same_dispatchD)

lemma same_account_inv: "same_account st st' \<Longrightarrow> account_inv st \<Longrightarrow> account_inv st'"
  unfolding same_account_def by (elim conjE, rule account_inv_cong)

lemma same_account_refl [simp]: "same_account st st" "same_dispatch st st"
  by (simp_all add: same_account_def same_dispatch_def)

lemma same_account_trans: "same_account st st1 \<Longrightarrow> same_account st1 st2 \<Longrightarrow> same_account st st2"
  by (simp add: same_account_def)

lemma srtf_invD:
  assumes "srtf_inv st"
  shows "queues_ok (sq st) (srtf_claims st)" "runnable_wf st" "finite (dom (srtf_claims st))"
    "sr_tasks_pending_launch st \<subseteq> dom (sr_dispatched_task_group st)"
    "ledger.books (srtf_claims st) False (\<lambda>_. 0) (sr_outstanding_tasks_by_group st)"
    "ledger.books (launch_claims st) False (\<lambda>_. 0) (sr_launch_pending_by_group st)"
    "cget (sr_outstanding_tasks_by_group st) gid \<le> 1 + max_queue_ahead_per_group"
    "cget (sr_launch_pending_by_group st) gid \<le> 1" "finite (dom (launch_claims st))"
proof -
  have "dom (srtf_claims st) = dom (sr_dispatched_task_group st)" by (auto simp: srtf_claims_def)
  then show f: "finite (dom (srtf_claims st))" using assms by (simp add: srtf_inv_def)
  have "dom (launch_claims st) \<subseteq> dom (srtf_claims st)" by (auto simp: launch_claims_def split: if_splits)
  then show "finite (dom (launch_claims st))" using f finite_subset by blast
qed (use assms in \<open>auto simp: srtf_inv_def\<close>)

lemma srtf_init_inv: "srtf_inv (srtf_init T)" "account_inv (srtf_init T)"
proof -
  have c: "srtf_claims (srtf_init T) = (\<lambda>_. None)" "launch_claims (srtf_init T) = (\<lambda>_. None)" "sq (srtf_init T) = (\<lambda>_. [])"
    by (auto simp: fun_eq_iff srtf_claims_def launch_claims_def sq_def srtf_init_def work_account.defs)
  show "srtf_inv (srtf_init T)"
    unfolding srtf_inv_def c by (simp add: srtf_init_def work_account.defs runnable_wf_def ledger.books_def)
  show "account_inv (srtf_init T)"
    by (rule account_inv_cong [OF account_inv_init [of T]]) (simp_all add: srtf_init_def work_account.defs)
qed

subsection \<open>Single steps\<close>

lemma claim_counts_single: "claim_counts d [k] = cinc d k" "release_counts d [k] = cdec d k"
  by (simp_all add: claim_counts_def release_counts_def)

lemma mark_inv:
  assumes inv: "srtf_inv st"
  shows "srtf_inv (mark_task_launch_finished tk st)"
proof (cases "tk \<in> sr_tasks_pending_launch st")
  case True
  note I = srtf_invD [OF inv]
  obtain gid where g: "sr_dispatched_task_group st tk = Some gid" using I(4) True by auto
  define st' where "st' = mark_task_launch_finished tk st"
  have st': "st' = st\<lparr>sr_tasks_pending_launch := sr_tasks_pending_launch st - {tk},
      sr_launch_pending_by_group := cdec (sr_launch_pending_by_group st) gid\<rparr>"
    using True g by (simp add: st'_def mark_task_launch_finished_def Let_def)
  have c: "launch_claims st' = (launch_claims st)(tk := None)" "srtf_claims st' = srtf_claims st" "sq st' = sq st"
    by (auto simp: fun_eq_iff launch_claims_def srtf_claims_def st' sq_def)
  have "launch_claims st tk = Some (False, [gid])" using True g by (simp add: launch_claims_def srtf_claims_def)
  from ledger.books_free [OF I(9) this I(6)]
  have "ledger.books (launch_claims st') False (\<lambda>_. 0) (sr_launch_pending_by_group st')"
    unfolding c by (simp add: st' claim_counts_single)
  moreover have "cget (sr_launch_pending_by_group st') k \<le> 1" for k using I(8) [of k] by (simp add: st')
  ultimately show ?thesis using inv unfolding st'_def [symmetric] srtf_inv_def c
    by (auto simp: st' runnable_wf_def)
qed (use inv in \<open>simp add: mark_task_launch_finished_def\<close>)

lemma release_inv:
  assumes inv: "srtf_inv st" and tk: "tk \<notin> sr_tasks_pending_launch st"
  shows "srtf_inv (srtf_release_task tk st)"
proof (cases "sr_dispatched_task_group st tk")
  case (Some gid)
  note I = srtf_invD [OF inv]
  define st' where "st' = srtf_release_task tk st"
  have st': "st' = st\<lparr>sr_dispatched_task_group := (sr_dispatched_task_group st)(tk := None),
             sr_outstanding_tasks_by_group := cdec (sr_outstanding_tasks_by_group st) gid\<rparr>"
    using Some by (simp add: st'_def srtf_release_task_def)
  have c: "srtf_claims st' = (srtf_claims st)(tk := None)" "launch_claims st' = launch_claims st" "sq st' = sq st"
    using tk by (auto simp: fun_eq_iff launch_claims_def srtf_claims_def st' sq_def)
  have "srtf_claims st tk = Some (False, [gid])" using Some by (simp add: srtf_claims_def)
  from ledger.books_free [OF I(3) this I(5)]
  have "ledger.books (srtf_claims st') False (\<lambda>_. 0) (sr_outstanding_tasks_by_group st')"
    unfolding c by (simp add: st' claim_counts_single)
  moreover have "cget (sr_outstanding_tasks_by_group st') k \<le> 1 + max_queue_ahead_per_group" for k
    using I(7) [of k] by (simp add: st')
  moreover have "queues_ok (sq st') (srtf_claims st')" unfolding c by (rule queues_ok_release [OF I(1)])
  moreover have "sr_tasks_pending_launch st \<subseteq> dom (sr_dispatched_task_group st) - {tk}" using I(4) tk by auto
  ultimately show ?thesis using inv unfolding st'_def [symmetric] srtf_inv_def c
    by (auto simp: st' runnable_wf_def)
qed (use inv in \<open>simp add: srtf_release_task_def\<close>)

lemma mark_frame:
  "same_account st (mark_task_launch_finished tk st)" "wa_topology (mark_task_launch_finished tk st) = wa_topology st"
  "tk \<notin> sr_tasks_pending_launch (mark_task_launch_finished tk st)"
  "sr_active_request_by_group (mark_task_launch_finished tk st) = sr_active_request_by_group st"
  by (auto simp: same_account_def mark_task_launch_finished_def Let_def split: option.split)

lemma release_frame:
  "same_account st (srtf_release_task tk st)" "wa_topology (srtf_release_task tk st) = wa_topology st"
  "sr_active_request_by_group (srtf_release_task tk st) = sr_active_request_by_group st"
  by (auto simp: same_account_def srtf_release_task_def split: option.split)

lemma charge_frame:
  fixes st :: "'a srtf_scheme"
  shows "same_dispatch st (charge_completed_task rid tk st)"
    "wa_request_group (charge_completed_task rid tk st) = wa_request_group st"
  by (auto simp: same_dispatch_def charge_completed_task_def Let_def split: option.split)

text \<open>The part of the event handler before requests are forgotten.\<close>

definition settle_task :: "worker_event \<Rightarrow> 'a srtf_scheme \<Rightarrow> 'a srtf_scheme" where
  "settle_task ev st =
     (let tk = e_task_id ev;
          st1 = (if e_kind ev \<in> {TASK_LAUNCH_END, TASK_EXEC_END, TASK_FAILED}
                 then mark_task_launch_finished tk st else st);
          st2 = (if e_kind ev \<in> {TASK_EXEC_END, TASK_FAILED} then srtf_release_task tk st1 else st1)
      in if e_kind ev \<in> {TASK_LAUNCH_END, TASK_EXEC_END} then charge_completed_task (e_request_id ev) tk st2 else st2)"

lemma srtf_event_eq:
  "srtf_event cleanup take_tasks ev (h, st) =
     (if e_kind ev = TASK_LAUNCH_END then Inr ((h, settle_task ev st), [])
      else
        let st3 = settle_task ev st;
            gid = or_group (Some (e_group_id ev)) (wa_request_group st3 (e_request_id ev))
        in take_tasks (h, if e_kind ev \<in> {REQUEST_FINISHED, REQUEST_FAILED}
             then cleanup (e_request_id ev) gid (srtf_forget (e_request_id ev) gid st3) else st3))"
  by (simp add: srtf_event_def settle_task_def Let_def)

lemma settle_inv:
  assumes inv: "srtf_inv st" and acc: "account_inv st" and own: "owned st (e_request_id ev) (e_task_id ev)"
  shows "srtf_inv (settle_task ev st)" "account_inv (settle_task ev st)"
    "wa_request_group (settle_task ev st) = wa_request_group st" "wa_topology (settle_task ev st) = wa_topology st"
    "sr_active_request_by_group (settle_task ev st) = sr_active_request_by_group st"
proof -
  let ?tk = "e_task_id ev" and ?k = "e_kind ev"
  define st1 where "st1 = (if ?k \<in> {TASK_LAUNCH_END, TASK_EXEC_END, TASK_FAILED} then mark_task_launch_finished ?tk st else st)"
  define st2 where "st2 = (if ?k \<in> {TASK_EXEC_END, TASK_FAILED} then srtf_release_task ?tk st1 else st1)"
  have s: "settle_task ev st = (if ?k \<in> {TASK_LAUNCH_END, TASK_EXEC_END}
      then charge_completed_task (e_request_id ev) ?tk st2 else st2)"
    unfolding settle_task_def st1_def st2_def Let_def by (rule refl)
  have 1: "srtf_inv st1" "same_account st st1" "wa_topology st1 = wa_topology st"
      "sr_active_request_by_group st1 = sr_active_request_by_group st"
    using mark_inv [OF inv] by (auto simp: st1_def mark_frame inv)
  have "?tk \<notin> sr_tasks_pending_launch st1" if "?k \<in> {TASK_EXEC_END, TASK_FAILED}"
    using that by (auto simp: st1_def mark_frame)
  then have 2: "srtf_inv st2" "same_account st1 st2" "wa_topology st2 = wa_topology st"
      "sr_active_request_by_group st2 = sr_active_request_by_group st"
    using release_inv [OF 1(1)] 1 by (auto simp: st2_def release_frame)
  have a: "same_account st st2" by (rule same_account_trans [OF 1(2) 2(2)])
  have acc2: "account_inv st2" by (rule same_account_inv [OF a acc])
  have own2: "owned st2 (e_request_id ev) ?tk" using own a by (simp add: owned_def ids_of_def same_account_def)
  show "srtf_inv (settle_task ev st)" using 2(1) same_dispatch_inv [OF charge_frame(1) [where st = st2]] by (simp add: s)
  show "account_inv (settle_task ev st)" using acc2 charge_account_inv [OF acc2 own2] by (simp add: s)
  show "wa_request_group (settle_task ev st) = wa_request_group st" using a by (simp add: s charge_frame(2) same_account_def)
  show "wa_topology (settle_task ev st) = wa_topology st" using 2(3) same_dispatchD(1) [OF charge_frame(1) [where st = st2]] by (simp add: s)
  show "sr_active_request_by_group (settle_task ev st) = sr_active_request_by_group st"
    using 2(4) same_dispatchD(3) [OF charge_frame(1) [where st = st2]] by (simp add: s)
qed

lemma settle_sq: "sq (settle_task ev st) = sq st"
  by (rule ext) (simp add: sq_def settle_task_def Let_def mark_task_launch_finished_def srtf_release_task_def
      charge_completed_task_def split: option.split)

text \<open>A runnable task joins the queue of its request.\<close>

definition srtf_fresh :: "'a srtf_scheme \<Rightarrow> string \<Rightarrow> bool" where
  "srtf_fresh st tk \<longleftrightarrow> sr_dispatched_task_group st tk = None \<and> (\<forall>x. tk \<notin> set (sq st x))"

lemma enqueue_cases:
  assumes "srtf_enqueue (h, st) tk = Inr (h', st')"
  obtains gid where "wa_request_group st (t_request_id (h tk)) = None \<or> wa_request_group st (t_request_id (h tk)) = Some gid"
    "st' = st\<lparr>wa_request_group := (wa_request_group st)(t_request_id (h tk) \<mapsto> gid),
       sr_runnable_by_group := (sr_runnable_by_group st)(gid \<mapsto>
         dict_set (case sr_runnable_by_group st gid of None \<Rightarrow> [] | Some d \<Rightarrow> d) (t_request_id (h tk))
           (sq st (gid, t_request_id (h tk)) @ [tk]))\<rparr>"
proof -
  let ?rid = "t_request_id (h tk)"
  obtain gid where g: "t_group_id (if t_group_id (h tk) = None then (h tk)\<lparr>t_group_id := wa_request_group st ?rid\<rparr> else h tk) = Some gid"
    using assms by (auto simp: srtf_enqueue_def Let_def split: option.splits)
  have rid: "t_request_id (if t_group_id (h tk) = None then (h tk)\<lparr>t_group_id := wa_request_group st ?rid\<rparr> else h tk) = ?rid"
    by simp
  have sq: "(case map_of (case sr_runnable_by_group st gid of None \<Rightarrow> [] | Some d \<Rightarrow> d) ?rid of None \<Rightarrow> [] | Some q \<Rightarrow> q)
      = sq st (gid, ?rid)"
    by (simp add: sq_def split: option.split)
  have e: "(case wa_request_group st ?rid of None \<Rightarrow> gid | Some g \<Rightarrow> g) = gid"
    "st' = st\<lparr>wa_request_group := (wa_request_group st)(?rid \<mapsto> gid),
       sr_runnable_by_group := (sr_runnable_by_group st)(gid \<mapsto>
         dict_set (case sr_runnable_by_group st gid of None \<Rightarrow> [] | Some d \<Rightarrow> d) ?rid (sq st (gid, ?rid) @ [tk]))\<rparr>"
    using assms unfolding srtf_enqueue_def Let_def prod.case g option.case rid
    by (auto simp: sq split: if_splits)
  show thesis by (rule that [of gid]) (use e in \<open>auto split: option.splits\<close>)
qed

lemma snd_dict_set: "snd ` set (dict_set d k v) \<subseteq> insert v (snd ` set d)"
  by (induction d k v rule: dict_set.induct) auto

lemma sq_push:
  assumes "sr_runnable_by_group st' = (sr_runnable_by_group st)(gid \<mapsto>
      dict_set (case sr_runnable_by_group st gid of None \<Rightarrow> [] | Some d \<Rightarrow> d) rid q)"
  shows "sq st' x = (if x = (gid, rid) then q else sq st x)"
  using assms by (cases x) (auto simp: sq_def map_of_dict_set split: option.split)

lemma dict_set_not_Nil [simp]: "dict_set d k v \<noteq> []"
  by (induction d k v rule: dict_set.induct) auto

lemma runnable_wf_push:
  assumes "runnable_wf st" "sr_runnable_by_group st' = (sr_runnable_by_group st)(gid \<mapsto>
      dict_set (case sr_runnable_by_group st gid of None \<Rightarrow> [] | Some d \<Rightarrow> d) rid q)" "q \<noteq> []"
  shows "runnable_wf st'"
  unfolding runnable_wf_def
proof (intro allI impI)
  fix g d assume d: "sr_runnable_by_group st' g = Some d"
  show "d \<noteq> [] \<and> distinct (map fst d) \<and> [] \<notin> snd ` set d"
  proof (cases "g = gid")
    case True
    let ?d = "case sr_runnable_by_group st gid of None \<Rightarrow> [] | Some d \<Rightarrow> d"
    have "d = dict_set ?d rid q" using d True assms(2) by simp
    moreover have "distinct (map fst ?d)" "[] \<notin> snd ` set ?d"
      using assms(1) unfolding runnable_wf_def by (cases "sr_runnable_by_group st gid"; simp)+
    ultimately show ?thesis using distinct_dict_set [of ?d rid q] snd_dict_set [of ?d rid q] assms(3)
      by (simp del: set_map) blast
  next
    case False
    then show ?thesis using d assms(1,2) by (auto simp: runnable_wf_def)
  qed
qed

lemma enqueue_inv:
  assumes inv: "srtf_inv st" and acc: "account_inv st" and fresh: "srtf_fresh st tk"
    and e: "srtf_enqueue (h, st) tk = Inr (h', st')"
  shows "srtf_inv st'" "account_inv st'" "srtf_fresh st tk' \<Longrightarrow> tk' \<noteq> tk \<Longrightarrow> srtf_fresh st' tk'"
    "sr_dispatched_task_group st' = sr_dispatched_task_group st" "wa_topology st' = wa_topology st"
    "sr_active_request_by_group st' = sr_active_request_by_group st"
proof -
  let ?rid = "t_request_id (h tk)"
  obtain gid where g: "wa_request_group st ?rid = None \<or> wa_request_group st ?rid = Some gid"
    and st': "st' = st\<lparr>wa_request_group := (wa_request_group st)(?rid \<mapsto> gid),
       sr_runnable_by_group := (sr_runnable_by_group st)(gid \<mapsto>
         dict_set (case sr_runnable_by_group st gid of None \<Rightarrow> [] | Some d \<Rightarrow> d) ?rid (sq st (gid, ?rid) @ [tk]))\<rparr>"
    using enqueue_cases [OF e] by metis
  note I = srtf_invD [OF inv]
  have sq: "sq st' x = sq st x @ (if x = (gid, ?rid) then [tk] else [])" for x
    by (subst sq_push [of st' st gid ?rid "sq st (gid, ?rid) @ [tk]"]) (auto simp: st')
  have c: "srtf_claims st' = srtf_claims st" "launch_claims st' = launch_claims st"
    by (auto simp: fun_eq_iff srtf_claims_def launch_claims_def st')
  have "queues_ok (sq st') (srtf_claims st)"
    by (rule queues_ok_push [OF I(1) _ _ sq]) (use fresh in \<open>auto simp: srtf_fresh_def srtf_claims_def\<close>)
  moreover have "runnable_wf st'" by (rule runnable_wf_push [OF I(2)]) (auto simp: st')
  ultimately show "srtf_inv st'" using inv unfolding srtf_inv_def c by (simp add: st')
  show "srtf_fresh st' tk'" if "srtf_fresh st tk'" "tk' \<noteq> tk"
    using that unfolding srtf_fresh_def sq by (auto simp: st')
  have "account_inv (st\<lparr>wa_request_group := (wa_request_group st)(?rid \<mapsto> gid)\<rparr>)"
  proof (cases "wa_request_task_ids st ?rid")
    case None
    then show ?thesis by (rule bind_account_inv [OF acc])
  next
    case (Some ids)
    then have "wa_request_group st ?rid = Some gid" using g account_invD(7) [OF acc] by auto
    then show ?thesis using acc by (simp add: fun_upd_idem)
  qed
  then show "account_inv st'" by (rule account_inv_cong) (simp_all add: st')
  show "sr_dispatched_task_group st' = sr_dispatched_task_group st" "wa_topology st' = wa_topology st"
    "sr_active_request_by_group st' = sr_active_request_by_group st" by (simp_all add: st')
qed

text \<open>A request that ended leaves the queues.\<close>

lemma forget_sq:
  assumes "runnable_wf st"
  shows "sq (srtf_forget rid group_id st) x = (if group_id = Some (fst x) \<and> snd x = rid then [] else sq st x)"
proof -
  have pop: "(case (if dict_pop d rid = [] then None else Some (dict_pop d rid)) of None \<Rightarrow> []
        | Some d \<Rightarrow> (case map_of d k of None \<Rightarrow> [] | Some q \<Rightarrow> q))
      = (if k = rid then [] else case map_of d k of None \<Rightarrow> [] | Some q \<Rightarrow> q)"
    for d :: "(string \<times> string list) list" and k
    using map_of_dict_pop [of d rid] by (cases "dict_pop d rid = []") (auto simp: fun_eq_iff dest!: spec [of _ k])
  show ?thesis
  proof (cases "group_id = Some (fst x)")
    case True
    then show ?thesis using pop [where k = "snd x"]
      by (cases "sr_runnable_by_group st (fst x)") (simp_all add: srtf_forget_def sq_def)
  next
    case False
    then show ?thesis by (cases group_id) (auto simp: srtf_forget_def sq_def)
  qed
qed

lemma forget_runnable_wf:
  assumes "runnable_wf st"
  shows "runnable_wf (srtf_forget rid group_id st)"
proof -
  have "distinct (map fst (dict_pop d k)) \<and> [] \<notin> snd ` set (dict_pop d k)"
    if "distinct (map fst d)" "[] \<notin> snd ` set d" for d :: "(string \<times> string list) list" and k
    using that distinct_dict_pop [of d k] by (auto simp: dict_pop_def)
  then show ?thesis using assms
    by (cases group_id) (auto simp: runnable_wf_def srtf_forget_def split: option.splits if_splits)
qed

lemma forget_inv:
  assumes inv: "srtf_inv st" and acc: "account_inv st"
  shows "srtf_inv (srtf_forget rid group_id st)" "account_inv (srtf_forget rid group_id st)"
proof -
  let ?st = "srtf_forget rid group_id st"
  note I = srtf_invD [OF inv]
  have c: "srtf_claims ?st = srtf_claims st" "launch_claims ?st = launch_claims st"
    by (auto simp: fun_eq_iff srtf_claims_def launch_claims_def srtf_forget_def split: option.split)
  have "queues_ok (sq ?st) (srtf_claims st)"
    by (rule queues_ok_weaken [OF I(1)]) (auto simp: forget_sq [OF I(2)] queues_okD(1) [OF I(1)])
  then show "srtf_inv ?st" using inv forget_runnable_wf [OF I(2)] unfolding srtf_inv_def c
    by (auto simp: srtf_forget_def split: option.split)
  show "account_inv ?st"
    by (rule account_inv_cong [OF acc]) (simp_all add: srtf_forget_def split: option.split)
qed

subsection \<open>Dispatch of one task\<close>

definition throttled :: "'a srtf_scheme \<Rightarrow> string \<Rightarrow> bool" where
  "throttled st gid \<longleftrightarrow> 0 < cget (sr_launch_pending_by_group st) gid
     \<or> 1 + max_queue_ahead_per_group \<le> cget (sr_outstanding_tasks_by_group st) gid"

text \<open>The head \<open>tk\<close> of the queue of \<open>rid\<close> goes in flight on \<open>gid\<close>.\<close>

definition launches :: "'a srtf_scheme \<Rightarrow> 'a srtf_scheme \<Rightarrow> string \<Rightarrow> string \<Rightarrow> string \<Rightarrow> bool" where
  "launches st st' gid rid tk \<longleftrightarrow>
     \<not> throttled st gid \<and> same_account st st' \<and> wa_topology st' = wa_topology st
     \<and> (\<exists>q. sq st (gid, rid) = tk # q \<and> (\<forall>x. sq st' x = (if x = (gid, rid) then q else sq st x)))
     \<and> runnable_wf st' \<and> (\<forall>g. g \<noteq> gid \<longrightarrow> sr_runnable_by_group st' g = sr_runnable_by_group st g)
     \<and> sr_active_request_by_group st' = (sr_active_request_by_group st)(gid \<mapsto> rid)
     \<and> sr_outstanding_tasks_by_group st' = cinc (sr_outstanding_tasks_by_group st) gid
     \<and> sr_dispatched_task_group st' = (sr_dispatched_task_group st)(tk \<mapsto> gid)
     \<and> sr_tasks_pending_launch st' = insert tk (sr_tasks_pending_launch st)
     \<and> sr_launch_pending_by_group st' = cinc (sr_launch_pending_by_group st) gid"

lemma launchesD:
  assumes "launches st st' gid rid tk"
  shows "\<not> throttled st gid" "same_account st st'" "wa_topology st' = wa_topology st"
    "\<exists>q. sq st (gid, rid) = tk # q \<and> (\<forall>x. sq st' x = (if x = (gid, rid) then q else sq st x))" "runnable_wf st'"
    "sr_active_request_by_group st' = (sr_active_request_by_group st)(gid \<mapsto> rid)"
    "sr_outstanding_tasks_by_group st' = cinc (sr_outstanding_tasks_by_group st) gid"
    "sr_dispatched_task_group st' = (sr_dispatched_task_group st)(tk \<mapsto> gid)"
    "sr_tasks_pending_launch st' = insert tk (sr_tasks_pending_launch st)"
    "sr_launch_pending_by_group st' = cinc (sr_launch_pending_by_group st) gid"
    "g \<noteq> gid \<Longrightarrow> sr_runnable_by_group st' g = sr_runnable_by_group st g"
  using assms unfolding launches_def by blast+

lemma launches_inv:
  assumes inv: "srtf_inv st" and l: "launches st st' gid rid tk"
  shows "srtf_inv st'"
proof -
  note I = srtf_invD [OF inv] and L = launchesD [OF l]
  obtain q where q: "sq st (gid, rid) = tk # q" "\<And>x. sq st' x = (if x = (gid, rid) then q else sq st x)"
    using L(4) by blast
  have none: "srtf_claims st tk = None" using queues_okD(3) [OF I(1), of tk "(gid, rid)"] q(1) by simp
  then have none': "launch_claims st tk = None" by (simp add: launch_claims_def)
  have c: "srtf_claims st' = (srtf_claims st)(tk \<mapsto> (False, [gid]))" "launch_claims st' = (launch_claims st)(tk \<mapsto> (False, [gid]))"
    by (auto simp: fun_eq_iff srtf_claims_def launch_claims_def L(8,9))
  have "queues_ok (sq st') (srtf_claims st')"
    by (rule queues_ok_take [OF I(1) q(2), of "[tk]"]) (simp_all add: q(1) c)
  moreover have "ledger.books (srtf_claims st') False (\<lambda>_. 0) (sr_outstanding_tasks_by_group st')"
    using ledger.books_claim [OF I(3) none I(5), of "[gid]"] unfolding c by (simp add: L(7) claim_counts_single)
  moreover have "ledger.books (launch_claims st') False (\<lambda>_. 0) (sr_launch_pending_by_group st')"
    using ledger.books_claim [OF I(9) none' I(6), of "[gid]"] unfolding c by (simp add: L(10) claim_counts_single)
  moreover have "cget (sr_outstanding_tasks_by_group st') k \<le> 1 + max_queue_ahead_per_group" for k
    using I(7) [of k] L(1) by (auto simp: L(7) throttled_def)
  moreover have "cget (sr_launch_pending_by_group st') k \<le> 1" for k
    using I(8) [of k] L(1) by (auto simp: L(10) throttled_def)
  ultimately show ?thesis using inv L(5) unfolding srtf_inv_def by (auto simp: L(8,9))
qed

lemma pop_runnable:
  assumes wf: "runnable_wf st" and d: "sr_runnable_by_group st gid = Some d" and q: "map_of d rid = Some (tk # q)"
    and st': "sr_runnable_by_group st' = (sr_runnable_by_group st)
       (gid := let d' = (if q = [] then dict_pop d rid else dict_set d rid q) in if d' = [] then None else Some d')"
  shows "runnable_wf st'" "sq st (gid, rid) = tk # q" "sq st' x = (if x = (gid, rid) then q else sq st x)"
proof -
  let ?d = "if q = [] then dict_pop d rid else dict_set d rid q"
  have dwf: "distinct (map fst d)" "[] \<notin> snd ` set d" using wf d by (auto simp: runnable_wf_def)
  have "distinct (map fst (dict_pop d rid))" "[] \<notin> snd ` set (dict_pop d rid)"
    using dwf distinct_dict_pop [of d rid] by (auto simp: dict_pop_def)
  moreover have "distinct (map fst (dict_set d rid q))" "q \<noteq> [] \<Longrightarrow> [] \<notin> snd ` set (dict_set d rid q)"
    using dwf distinct_dict_set [of d rid q] snd_dict_set [of d rid q] by (simp, blast)
  ultimately show "runnable_wf st'"
    using wf unfolding runnable_wf_def st' by (auto simp: Let_def split: if_splits)
  show "sq st (gid, rid) = tk # q" using d q by (simp add: sq_def)
  have m: "map_of ?d k = (if k = rid then (if q = [] then None else Some q) else map_of d k)" for k
    by (simp add: map_of_dict_pop map_of_dict_set)
  show "sq st' x = (if x = (gid, rid) then q else sq st x)"
  proof (cases "fst x = gid")
    case True
    have "sq st' x = (case map_of ?d (snd x) of None \<Rightarrow> [] | Some q \<Rightarrow> q)"
      using True by (cases "?d = []") (simp_all add: sq_def st' Let_def)
    then have "sq st' x = (if snd x = rid then q else sq st x)" unfolding m using True d by (simp add: sq_def [of st])
    then show ?thesis using True by (cases x) auto
  next
    case False
    then show ?thesis by (cases x) (simp add: sq_def st')
  qed
qed

subsection \<open>Groups are independent\<close>

definition group_frame :: "'a srtf_scheme \<Rightarrow> 'a srtf_scheme \<Rightarrow> string \<Rightarrow> bool" where
  "group_frame st st' gid \<longleftrightarrow>
     sr_runnable_by_group st' gid = sr_runnable_by_group st gid
     \<and> sr_active_request_by_group st' gid = sr_active_request_by_group st gid
     \<and> cget (sr_launch_pending_by_group st') gid = cget (sr_launch_pending_by_group st) gid
     \<and> cget (sr_outstanding_tasks_by_group st') gid = cget (sr_outstanding_tasks_by_group st) gid"

lemma group_frameD:
  assumes "group_frame st st' gid"
  shows "sr_runnable_by_group st' gid = sr_runnable_by_group st gid"
    "sr_active_request_by_group st' gid = sr_active_request_by_group st gid"
    "throttled st' gid \<longleftrightarrow> throttled st gid" "sq st' (gid, r) = sq st (gid, r)"
  using assms unfolding group_frame_def throttled_def sq_def by simp_all

lemma group_frame_trans: "group_frame st st1 g \<Longrightarrow> group_frame st1 st2 g \<Longrightarrow> group_frame st st2 g"
  by (simp add: group_frame_def)

lemma same_dispatch_frame: "same_dispatch st st' \<Longrightarrow> group_frame st st' g"
  by (simp add: same_dispatch_def group_frame_def)

lemma launches_frame: "launches st st' gid rid tk \<Longrightarrow> g \<noteq> gid \<Longrightarrow> group_frame st st' g"
  unfolding group_frame_def by (simp add: launchesD)

text \<open>
  What a pass may do on one group: nothing, because the group is throttled or no request was
  chosen; or launch the first task of the chosen request. \<open>good\<close> characterises the choice.
\<close>

type_synonym 'st choice = "'st \<Rightarrow> string \<Rightarrow> (string \<times> string list) list \<Rightarrow> string option \<Rightarrow> bool"

definition outcome_idle :: "'a srtf_scheme choice \<Rightarrow> 'a srtf_scheme \<Rightarrow> 'a srtf_scheme \<Rightarrow> string \<Rightarrow> bool" where
  "outcome_idle good st st' gid \<longleftrightarrow>
     group_frame st st' gid
     \<and> (throttled st gid \<or> (\<forall>d. sr_runnable_by_group st gid = Some d \<longrightarrow> good st gid d None))"

definition outcome_launch ::
  "'a srtf_scheme choice \<Rightarrow> 'a srtf_scheme \<Rightarrow> 'a srtf_scheme \<Rightarrow> string \<Rightarrow> string \<Rightarrow> string \<Rightarrow> bool" where
  "outcome_launch good st st' gid rid tk \<longleftrightarrow>
     \<not> throttled st gid \<and> (\<exists>d. sr_runnable_by_group st gid = Some d \<and> good st gid d (Some rid))
     \<and> sq st (gid, rid) = tk # sq st' (gid, rid) \<and> (\<forall>r. r \<noteq> rid \<longrightarrow> sq st' (gid, r) = sq st (gid, r))
     \<and> sr_active_request_by_group st' gid = Some rid \<and> sr_dispatched_task_group st' tk = Some gid"

lemma launches_outcome:
  assumes "launches st st' gid rid tk" "sr_runnable_by_group st gid = Some d" "good st gid d (Some rid)"
  shows "outcome_launch good st st' gid rid tk"
proof -
  note L = launchesD [OF assms(1)]
  obtain q where "sq st (gid, rid) = tk # q" "\<And>x. sq st' x = (if x = (gid, rid) then q else sq st x)"
    using L(4) by blast
  then show ?thesis using L(1) assms(2,3) unfolding outcome_launch_def by (auto simp: L(6,8))
qed

lemma outcome_launch_later:
  assumes "outcome_launch good st st1 gid rid tk" "group_frame st1 st2 gid"
    "sr_dispatched_task_group st2 tk = sr_dispatched_task_group st1 tk"
  shows "outcome_launch good st st2 gid rid tk"
  using assms(1) unfolding outcome_launch_def by (simp add: group_frameD [OF assms(2)] assms(3))

section \<open>Reachable states\<close>

text \<open>
  The operations are arguments, so that the relation serves the preemptive policy and its
  variant. Tasks may be changed from outside at any time; a task becomes runnable once.
\<close>

inductive srtf_reach ::
  "(plan \<Rightarrow> 'a srtf_scheme dispatch) \<Rightarrow> (string list \<Rightarrow> 'a srtf_scheme dispatch)
   \<Rightarrow> (worker_event \<Rightarrow> 'a srtf_scheme dispatch) \<Rightarrow> 'a srtf_scheme \<Rightarrow> heap \<times> 'a srtf_scheme \<Rightarrow> bool"
  for sub run handle st0 where
  start: "srtf_reach sub run handle st0 (h, st0)"
| tasks: "srtf_reach sub run handle st0 (h, st) \<Longrightarrow> srtf_reach sub run handle st0 (h', st)"
| submit: "srtf_reach sub run handle st0 (h, st) \<Longrightarrow> plan_new h st p \<Longrightarrow>
     \<forall>tk \<in> fst ` set (p_tasks p). srtf_fresh st tk \<Longrightarrow> sub p (h, st) = Inr (s', out) \<Longrightarrow>
     srtf_reach sub run handle st0 s'"
| runnable: "srtf_reach sub run handle st0 (h, st) \<Longrightarrow> distinct tks \<Longrightarrow> \<forall>tk \<in> set tks. srtf_fresh st tk \<Longrightarrow>
     run tks (h, st) = Inr (s', out) \<Longrightarrow> srtf_reach sub run handle st0 s'"
| event: "srtf_reach sub run handle st0 (h, st) \<Longrightarrow> event_fits st ev \<Longrightarrow> handle ev (h, st) = Inr (s', out) \<Longrightarrow>
     srtf_reach sub run handle st0 s'"

lemma usage_groups:
  assumes "finite (dom f)"
  shows "usage (\<lambda>tk. map_option (\<lambda>g. (False, [g])) (f tk)) False gid = card {tk. f tk = Some gid}"
proof -
  have "usage (\<lambda>tk. map_option (\<lambda>g. (False, [g])) (f tk)) False gid = (\<Sum>tk \<in> dom f. if f tk = Some gid then 1 else 0)"
    unfolding usage_def by (rule sum.cong) (auto split: option.splits)
  also have "\<dots> = card {tk \<in> dom f. f tk = Some gid}" using assms by (simp add: sum.If_cases Int_def)
  also have "{tk \<in> dom f. f tk = Some gid} = {tk. f tk = Some gid}" by auto
  finally show ?thesis .
qed

text \<open>The counters are the numbers of tasks in flight, and of those not yet launched.\<close>

lemma counters_exact:
  assumes inv: "srtf_inv st"
  shows "cget (sr_outstanding_tasks_by_group st) gid = card {tk. sr_dispatched_task_group st tk = Some gid}"
    "cget (sr_launch_pending_by_group st) gid
       = card {tk \<in> sr_tasks_pending_launch st. sr_dispatched_task_group st tk = Some gid}"
proof -
  note I = srtf_invD [OF inv]
  have fin: "finite (dom (sr_dispatched_task_group st))" using inv by (simp add: srtf_inv_def)
  have "cget (sr_outstanding_tasks_by_group st) gid = usage (srtf_claims st) False gid"
    using I(5) by (simp add: ledger.books_def)
  then show "cget (sr_outstanding_tasks_by_group st) gid = card {tk. sr_dispatched_task_group st tk = Some gid}"
    unfolding srtf_claims_def [abs_def] usage_groups [OF fin] .
  let ?f = "\<lambda>tk. if tk \<in> sr_tasks_pending_launch st then sr_dispatched_task_group st tk else None"
  have l: "launch_claims st = (\<lambda>tk. map_option (\<lambda>g. (False, [g])) (?f tk))"
    by (auto simp: fun_eq_iff launch_claims_def srtf_claims_def)
  have fin': "finite (dom ?f)" by (rule finite_subset [OF _ fin]) (auto split: if_splits)
  have "{tk. ?f tk = Some gid} = {tk \<in> sr_tasks_pending_launch st. sr_dispatched_task_group st tk = Some gid}"
    by (auto split: if_splits)
  moreover have "cget (sr_launch_pending_by_group st) gid = usage (launch_claims st) False gid"
    using I(6) by (simp add: ledger.books_def)
  ultimately show "cget (sr_launch_pending_by_group st) gid
       = card {tk \<in> sr_tasks_pending_launch st. sr_dispatched_task_group st tk = Some gid}"
    unfolding l usage_groups [OF fin'] by simp
qed

section \<open>The contract of a request selection\<close>

text \<open>
  What the dispatch relies on: choosing a request changes neither queues nor books and returns a
  request that waits; cleaning changes no queue and keeps the books balanced.
\<close>

locale request_selection =
  fixes sel :: "'a srtf_scheme select"
    and cleanup :: "string \<Rightarrow> string option \<Rightarrow> 'a srtf_scheme \<Rightarrow> 'a srtf_scheme"
  assumes sel_dispatch: "sel st gid d = (st1, r) \<Longrightarrow> same_dispatch st st1"
    and sel_account: "sel st gid d = (st1, r) \<Longrightarrow> same_account st st1"
    and sel_waiting: "sel st gid d = (st1, Some rid) \<Longrightarrow> rid \<in> fst ` set d"
    and cleanup_dispatch: "same_dispatch st (cleanup rid group_id st)"
    and cleanup_balanced: "account_inv st \<Longrightarrow>
      group_id = None \<or> group_id = Some [] \<or> wa_request_group st rid = None
        \<or> group_id = wa_request_group st rid \<Longrightarrow>
      account_inv (cleanup rid group_id st)"
begin

lemma dispatch_group_step:
  assumes inv: "srtf_inv st"
  obtains (idle) st1 where "dispatch_group sel ((h, st), out) gid = Inr ((h, st1), out)"
      "same_dispatch st st1" "same_account st st1"
      "throttled st gid \<or> (\<forall>d. sr_runnable_by_group st gid = Some d \<longrightarrow> snd (sel st gid d) = None)"
  | (launch) st2 d rid tk where "sr_runnable_by_group st gid = Some d" "snd (sel st gid d) = Some rid"
      "launches st st2 gid rid tk"
      "dispatch_group sel ((h, st), out) gid = Inr ((h(tk := (h tk)\<lparr>t_status := DISPATCHED\<rparr>), st2), out @ [tk])"
proof (cases "throttled st gid \<or> sr_runnable_by_group st gid = None")
  case True
  then have "dispatch_group sel ((h, st), out) gid = Inr ((h, st), out)"
    by (auto simp: dispatch_group_def throttled_def)
  then show thesis using True by (intro idle [of st]) (auto simp: same_dispatch_def same_account_def)
next
  case False
  then obtain d where d: "sr_runnable_by_group st gid = Some d" by auto
  have wf: "d \<noteq> []" "[] \<notin> snd ` set d" using srtf_invD(2) [OF inv] d by (auto simp: runnable_wf_def)
  obtain st1 r where s: "sel st gid d = (st1, r)" by (cases "sel st gid d")
  have free: "\<not> 0 < cget (sr_launch_pending_by_group st) gid"
      "\<not> 1 + max_queue_ahead_per_group \<le> cget (sr_outstanding_tasks_by_group st) gid"
    using False by (auto simp: throttled_def)
  show thesis
  proof (cases r)
    case None
    then have "dispatch_group sel ((h, st), out) gid = Inr ((h, st1), out)"
      using free d wf(1) s by (simp add: dispatch_group_def)
    then show thesis using None d s sel_dispatch [OF s] sel_account [OF s] by (intro idle [of st1]) auto
  next
    case (Some rid)
    then obtain q0 where q0: "map_of d rid = Some q0" using sel_waiting [of st gid d st1 rid] s
      by (metis map_of_eq_None_iff option.exhaust)
    then have "q0 \<noteq> []" using wf(2) map_of_SomeD [OF q0] by force
    then obtain tk q where q: "map_of d rid = Some (tk # q)" using q0 by (cases q0) auto
    note D = same_dispatchD [OF sel_dispatch [OF s]]
    let ?d = "if q = [] then dict_pop d rid else dict_set d rid q"
    let ?st2 = "st1\<lparr>sr_runnable_by_group := (sr_runnable_by_group st1)(gid := if ?d = [] then None else Some ?d),
           sr_active_request_by_group := (sr_active_request_by_group st1)(gid \<mapsto> rid),
           sr_outstanding_tasks_by_group := cinc (sr_outstanding_tasks_by_group st1) gid,
           sr_dispatched_task_group := (sr_dispatched_task_group st1)(tk \<mapsto> gid),
           sr_tasks_pending_launch := insert tk (sr_tasks_pending_launch st1),
           sr_launch_pending_by_group := cinc (sr_launch_pending_by_group st1) gid\<rparr>"
    have run: "sr_runnable_by_group ?st2 = (sr_runnable_by_group st)
        (gid := let d' = ?d in if d' = [] then None else Some d')" by (simp add: D(2) Let_def)
    note P = pop_runnable [OF srtf_invD(2) [OF inv] d q run]
    have acc: "same_account st ?st2" using sel_account [OF s] by (simp add: same_account_def)
    have "launches st ?st2 gid rid tk"
      unfolding launches_def
      by (intro conjI exI [of _ q] allI) (use False acc P in \<open>simp_all add: D\<close>)
    moreover have "dispatch_group sel ((h, st), out) gid = Inr ((h(tk := (h tk)\<lparr>t_status := DISPATCHED\<rparr>), ?st2), out @ [tk])"
      using free d wf(1) s Some q by (simp add: dispatch_group_def Let_def dict_get_def)
    ultimately show thesis using d s Some by (intro launch) auto
  qed
qed

lemma dispatch_loop_inv:
  assumes "srtf_inv st" "account_inv st"
  shows "\<exists>h' st' out'. for_res (dispatch_group sel) ((h, st), out) gids = Inr ((h', st'), out')
    \<and> srtf_inv st' \<and> account_inv st' \<and> wa_topology st' = wa_topology st"
  using assms
proof (induction gids arbitrary: h st out)
  case (Cons g gs)
  show ?case
  proof (rule dispatch_group_step [OF Cons.prems(1), of h out g])
    fix st1 assume s: "dispatch_group sel ((h, st), out) g = Inr ((h, st1), out)" "same_dispatch st st1" "same_account st st1"
    show ?thesis using Cons.IH [of st1 h out] Cons.prems same_dispatch_inv [OF s(2)] same_account_inv [OF s(3)]
        same_dispatchD(1) [OF s(2)] s(1) by simp
  next
    fix st2 rid tk assume s: "launches st st2 g rid tk"
      "dispatch_group sel ((h, st), out) g = Inr ((h(tk := (h tk)\<lparr>t_status := DISPATCHED\<rparr>), st2), out @ [tk])"
    note L = launchesD [OF s(1)]
    show ?thesis
      using Cons.IH [OF launches_inv [OF Cons.prems(1) s(1)] same_account_inv [OF L(2) Cons.prems(2)]] L(3) s(2) by simp
  qed
qed simp

lemma take_inv:
  assumes "srtf_inv st" "account_inv st"
  shows "\<exists>h' st' out. srtf_take sel (h, st) = Inr ((h', st'), out)
    \<and> srtf_inv st' \<and> account_inv st' \<and> wa_topology st' = wa_topology st"
  using dispatch_loop_inv [OF assms] unfolding srtf_take_def by simp

lemma event_inv:
  assumes inv: "srtf_inv st" and acc: "account_inv st" and own: "owned st (e_request_id ev) (e_task_id ev)"
    and grp: "e_group_id ev = [] \<or> wa_request_group st (e_request_id ev) = None
       \<or> wa_request_group st (e_request_id ev) = Some (e_group_id ev)"
  shows "\<exists>h' st' out. srtf_event cleanup (srtf_take sel) ev (h, st) = Inr ((h', st'), out)
    \<and> srtf_inv st' \<and> account_inv st' \<and> wa_topology st' = wa_topology st"
proof -
  note S = settle_inv [OF inv acc own]
  show ?thesis
  proof (cases "e_kind ev = TASK_LAUNCH_END")
    case True
    then show ?thesis using S unfolding srtf_event_eq by simp
  next
    case False
    let ?st3 = "settle_task ev st"
    let ?gid = "or_group (Some (e_group_id ev)) (wa_request_group ?st3 (e_request_id ev))"
    let ?st4 = "if e_kind ev \<in> {REQUEST_FINISHED, REQUEST_FAILED}
        then cleanup (e_request_id ev) ?gid (srtf_forget (e_request_id ev) ?gid ?st3) else ?st3"
    have f: "wa_request_group (srtf_forget r g ?st3) = wa_request_group st" "wa_topology (srtf_forget r g ?st3) = wa_topology st"
      for r g using S(3,4) by (simp_all add: srtf_forget_def split: option.split)
    have ok: "?gid = None \<or> ?gid = Some [] \<or> wa_request_group (srtf_forget (e_request_id ev) ?gid ?st3) (e_request_id ev) = None
        \<or> ?gid = wa_request_group (srtf_forget (e_request_id ev) ?gid ?st3) (e_request_id ev)"
      using grp unfolding f S(3) or_group_def by auto
    have "srtf_inv ?st4" using S(1) forget_inv [OF S(1,2)] same_dispatch_inv [OF cleanup_dispatch] by simp
    moreover have "account_inv ?st4" using S(2) cleanup_balanced [OF forget_inv(2) [OF S(1,2)] ok] by simp
    moreover have "wa_topology ?st4 = wa_topology st"
      using S(4) f(2) same_dispatchD(1) [OF cleanup_dispatch] by simp
    ultimately show ?thesis using take_inv [of ?st4 h] False unfolding srtf_event_eq Let_def by simp
  qed
qed

lemma runnable_inv:
  assumes "srtf_inv st" "account_inv st" "distinct tks" "\<forall>tk \<in> set tks. srtf_fresh st tk"
    and "srtf_runnable (srtf_take sel) tks (h, st) = Inr ((h', st'), out)"
  shows "srtf_inv st' \<and> account_inv st' \<and> wa_topology st' = wa_topology st"
proof -
  obtain h1 st1 where s: "for_res srtf_enqueue (h, st) tks = Inr (h1, st1)" "srtf_take sel (h1, st1) = Inr ((h', st'), out)"
    using assms(5) by (auto simp: srtf_runnable_def bind_res_eq_Inr)
  have "srtf_inv st1 \<and> account_inv st1 \<and> wa_topology st1 = wa_topology st"
    using s(1) assms(1-4)
  proof (induction tks arbitrary: h st)
    case (Cons x xs)
    from Cons.prems(1) obtain ha sa where a: "srtf_enqueue (h, st) x = Inr (ha, sa)" "for_res srtf_enqueue (ha, sa) xs = Inr (h1, st1)"
      by (auto elim: bind_res_InrE)
    have "srtf_fresh st x" using Cons.prems(5) by simp
    note E = enqueue_inv [OF Cons.prems(2,3) this a(1)]
    have "\<forall>tk \<in> set xs. srtf_fresh sa tk" using Cons.prems(4,5) E(3) by auto
    from Cons.IH [OF a(2) E(1,2) _ this] show ?case using Cons.prems(4) E(5) by simp
  qed simp
  moreover from this obtain h2 st2 out2 where "srtf_take sel (h1, st1) = Inr ((h2, st2), out2)"
      "srtf_inv st2 \<and> account_inv st2 \<and> wa_topology st2 = wa_topology st1"
    using take_inv [of st1 h1] by blast
  ultimately show ?thesis using s(2) by simp
qed

lemma submit_inv:
  assumes inv: "srtf_inv st" and acc: "account_inv st" and new: "plan_new h st p"
    and fresh: "\<forall>tk \<in> fst ` set (p_tasks p). srtf_fresh st tk"
    and s: "srtf_submit est (srtf_take sel) p (h, st) = Inr ((h', st'), out)"
  shows "srtf_inv st' \<and> account_inv st' \<and> wa_topology st' = wa_topology st"
proof -
  define st0 where "st0 = note_submission (p_request_id p) st"
  have 0: "same_dispatch st st0" "account_inv st0" "plan_new h st0 p"
    using acc new by (auto simp: st0_def note_submission_def same_dispatch_def plan_new_def ids_of_def intro: account_inv_cong)
  obtain h1 st1 gid st2 where b: "bind_request_group est p (h, st0) = Inr ((h1, st1), gid)"
    and e: "enter_plan est p (resolve_parallel_spec (wa_topology st1)) gid h1 st1 = Inr st2"
    and r: "srtf_runnable (srtf_take sel) (root_tasks p) (h1, st2) = Inr ((h', st'), out)"
    using s unfolding srtf_submit_def prod.case st0_def [symmetric] by (auto simp: bind_res_eq_Inr)
  have acc2: "account_inv st2" by (rule bind_enter_account_inv [OF 0(2,3) b e])
  have "same_dispatch st0 st1" using b by (auto simp: bind_request_group_def bind_res_eq_Inr same_dispatch_def)
  moreover have "same_dispatch st1 st2" using e by (auto simp: enter_plan_def bind_res_eq_Inr same_dispatch_def)
  ultimately have d: "same_dispatch st st2" using 0(1) by (simp add: same_dispatch_def)
  have "srtf_inv st2" using inv same_dispatch_inv [OF d] by simp
  moreover have "srtf_fresh st2 tk \<longleftrightarrow> srtf_fresh st tk" for tk by (simp add: srtf_fresh_def same_dispatchD(7,8) [OF d])
  then have "\<forall>tk \<in> set (root_tasks p). srtf_fresh st2 tk"
    using fresh root_tasks_keyed(1) [of p] new unfolding plan_new_def by blast
  ultimately show ?thesis
    using runnable_inv [OF _ acc2 _ _ r] root_tasks_keyed(2) new same_dispatchD(1) [OF d] by (simp add: plan_new_def)
qed

lemma reach_inv:
  assumes "srtf_reach sub (srtf_runnable (srtf_take sel)) (srtf_event cleanup (srtf_take sel)) st0 s"
    and "srtf_inv st0" "account_inv st0"
    and sub: "\<And>h st p h' st' out. srtf_inv st \<Longrightarrow> account_inv st \<Longrightarrow> plan_new h st p \<Longrightarrow>
      \<forall>tk \<in> fst ` set (p_tasks p). srtf_fresh st tk \<Longrightarrow> sub p (h, st) = Inr ((h', st'), out) \<Longrightarrow>
      srtf_inv st' \<and> account_inv st' \<and> wa_topology st' = wa_topology st"
  shows "srtf_inv (snd s) \<and> account_inv (snd s) \<and> wa_topology (snd s) = wa_topology st0"
  using assms(1)
proof (induction rule: srtf_reach.induct)
  case (submit h st p s' out)
  then show ?case using sub [of st h p "fst s'" "snd s'" out] by simp
next
  case (runnable h st tks s' out)
  then show ?case using runnable_inv [of st tks h "fst s'" "snd s'" out] by simp
next
  case (event h st ev s' out)
  then obtain h' st' out' where "srtf_event cleanup (srtf_take sel) ev (h, st) = Inr ((h', st'), out')"
      "srtf_inv st' \<and> account_inv st' \<and> wa_topology st' = wa_topology st"
    using event_inv [of st ev h] by (auto simp: event_fits_def)
  then show ?case using event by auto
qed (simp_all add: assms(2,3))

end

text \<open>A selection whose choice is characterised by the state of the request tables and of its group.\<close>

locale ranked_selection = request_selection +
  fixes good :: "'a srtf_scheme choice"
  assumes sel_good: "good st gid d (snd (sel st gid d))"
    and good_cong: "same_account st st' \<Longrightarrow> sr_active_request_by_group st' gid = sr_active_request_by_group st gid \<Longrightarrow>
      good st' gid d r \<Longrightarrow> good st gid d r"
begin

lemma outcome_idle_shift:
  assumes "same_account st st1" "group_frame st st1 g" "outcome_idle good st1 st' g"
  shows "outcome_idle good st st' g"
  using assms(3) good_cong [OF assms(1) group_frameD(2) [OF assms(2)]] group_frame_trans [OF assms(2)]
  unfolding outcome_idle_def group_frameD [OF assms(2)] by blast

lemma outcome_launch_shift:
  assumes "same_account st st1" "group_frame st st1 g" "outcome_launch good st1 st' g rid tk"
  shows "outcome_launch good st st' g rid tk"
  using assms(3) good_cong [OF assms(1) group_frameD(2) [OF assms(2)]]
  unfolding outcome_launch_def group_frameD [OF assms(2)] by blast

lemma outcome_shift:
  assumes "same_account st st1" "group_frame st st1 g"
    "outcome_idle good st1 st' g \<or> (\<exists>rid tk. tk \<in> set ls \<and> outcome_launch good st1 st' g rid tk)"
  shows "outcome_idle good st st' g \<or> (\<exists>rid tk. tk \<in> set ls \<and> outcome_launch good st st' g rid tk)"
  using assms(3) outcome_idle_shift [OF assms(1,2)] outcome_launch_shift [OF assms(1,2)] by blast

lemma outcome_idle_later: "outcome_idle good st st1 g \<Longrightarrow> group_frame st1 st2 g \<Longrightarrow> outcome_idle good st st2 g"
  unfolding outcome_idle_def using group_frame_trans by blast

text \<open>The pass decides for every group as if it were alone.\<close>

definition pass_of :: "'a srtf_scheme \<Rightarrow> 'a srtf_scheme \<Rightarrow> string list \<Rightarrow> string list \<Rightarrow> bool" where
  "pass_of st st' gids ls \<longleftrightarrow>
     same_account st st' \<and> (\<forall>g. g \<notin> set gids \<longrightarrow> group_frame st st' g)
     \<and> (\<forall>g \<in> set gids. outcome_idle good st st' g \<or> (\<exists>rid tk. tk \<in> set ls \<and> outcome_launch good st st' g rid tk))
     \<and> (\<forall>tk \<in> set ls. \<exists>g \<in> set gids. \<exists>rid. outcome_launch good st st' g rid tk)
     \<and> (\<forall>tk. sr_dispatched_task_group st tk \<noteq> None \<longrightarrow> sr_dispatched_task_group st' tk = sr_dispatched_task_group st tk)"

lemma pass_ofD:
  assumes "pass_of st st' gids ls"
  shows "same_account st st'" "g \<notin> set gids \<Longrightarrow> group_frame st st' g"
    "g \<in> set gids \<Longrightarrow> outcome_idle good st st' g \<or> (\<exists>rid tk. tk \<in> set ls \<and> outcome_launch good st st' g rid tk)"
    "tk \<in> set ls \<Longrightarrow> \<exists>g \<in> set gids. \<exists>rid. outcome_launch good st st' g rid tk"
    "sr_dispatched_task_group st tk \<noteq> None \<Longrightarrow> sr_dispatched_task_group st' tk = sr_dispatched_task_group st tk"
  using assms unfolding pass_of_def by blast+

lemma pass_of_idle:
  assumes p: "pass_of st1 st' gs ls" and s: "same_dispatch st st1" "same_account st st1" and g: "g \<notin> set gs"
    and why: "throttled st g \<or> (\<forall>d. sr_runnable_by_group st g = Some d \<longrightarrow> snd (sel st g d) = None)"
  shows "pass_of st st' (g # gs) ls"
  unfolding pass_of_def
proof (intro conjI allI ballI impI)
  note P = pass_ofD [OF p] and F = same_dispatch_frame [OF s(1)]
  have idle: "outcome_idle good st st' g"
    unfolding outcome_idle_def using group_frame_trans [OF F P(2) [OF g]] why sel_good by metis
  show "same_account st st'" by (rule same_account_trans [OF s(2) P(1)])
  show "group_frame st st' k" if "k \<notin> set (g # gs)" for k using that group_frame_trans [OF F P(2)] by simp
  show "outcome_idle good st st' k \<or> (\<exists>rid tk. tk \<in> set ls \<and> outcome_launch good st st' k rid tk)"
    if "k \<in> set (g # gs)" for k
    using that idle P(3) [of k] outcome_shift [OF s(2) F] by (cases "k = g") simp_all
  show "\<exists>k \<in> set (g # gs). \<exists>rid. outcome_launch good st st' k rid tk" if "tk \<in> set ls" for tk
    using P(4) [OF that] outcome_launch_shift [OF s(2) F] by (meson list.set_intros(2))
  show "sr_dispatched_task_group st' tk = sr_dispatched_task_group st tk" if "sr_dispatched_task_group st tk \<noteq> None" for tk
    using P(5) [of tk] same_dispatchD(7) [OF s(1)] that by simp
qed

lemma pass_of_launch:
  assumes p: "pass_of st1 st' gs ls" and inv: "srtf_inv st" and l: "launches st st1 g rid tk" and g: "g \<notin> set gs"
    and d: "sr_runnable_by_group st g = Some d" "snd (sel st g d) = Some rid"
  shows "pass_of st st' (g # gs) (tk # ls)"
  unfolding pass_of_def
proof (intro conjI allI ballI impI)
  note P = pass_ofD [OF p] and L = launchesD [OF l] and F = launches_frame [OF l]
  have "good st g d (Some rid)" using sel_good [of st g d] d(2) by simp
  note o1 = launches_outcome [where good = good, OF l d(1) this]
  have out: "outcome_launch good st st' g rid tk"
    by (rule outcome_launch_later [OF o1 P(2) [OF g]]) (simp add: P(5) L(8))
  have ne: "k \<noteq> g" if "k \<in> set gs" for k using that g by auto
  show "same_account st st'" by (rule same_account_trans [OF L(2) P(1)])
  show "group_frame st st' k" if "k \<notin> set (g # gs)" for k using that group_frame_trans [OF F P(2)] by simp
  show "outcome_idle good st st' k \<or> (\<exists>r t. t \<in> set (tk # ls) \<and> outcome_launch good st st' k r t)"
    if "k \<in> set (g # gs)" for k
  proof (cases "k = g")
    case True
    then show ?thesis using out by auto
  next
    case False
    then have "k \<in> set gs" using that by simp
    from outcome_shift [OF L(2) F [OF False] P(3) [OF this]] show ?thesis by auto
  qed
  show "\<exists>k \<in> set (g # gs). \<exists>r. outcome_launch good st st' k r t" if "t \<in> set (tk # ls)" for t
  proof (cases "t = tk")
    case True
    then show ?thesis using out by auto
  next
    case False
    then have "t \<in> set ls" using that by simp
    then obtain k r where "k \<in> set gs" "outcome_launch good st1 st' k r t" using P(4) by blast
    then show ?thesis using outcome_launch_shift [OF L(2) F [OF ne]] by (meson list.set_intros(2))
  qed
  have none: "sr_dispatched_task_group st tk = None"
    using queues_okD(3) [OF srtf_invD(1) [OF inv], of tk "(g, rid)"] L(4) by (auto simp: srtf_claims_def)
  show "sr_dispatched_task_group st' t = sr_dispatched_task_group st t" if "sr_dispatched_task_group st t \<noteq> None" for t
    using P(5) [of t] L(8) that none by (cases "t = tk") auto
qed

lemma dispatch_loop_pass:
  assumes "srtf_inv st" "distinct gids" "for_res (dispatch_group sel) ((h, st), out) gids = Inr ((h', st'), out')"
  shows "\<exists>ls. out' = out @ ls \<and> pass_of st st' gids ls"
  using assms
proof (induction gids arbitrary: h st out)
  case Nil
  then show ?case by (auto simp: pass_of_def group_frame_def)
next
  case (Cons g gs)
  from Cons.prems(3) obtain s1 where s1: "dispatch_group sel ((h, st), out) g = Inr s1" "for_res (dispatch_group sel) s1 gs = Inr ((h', st'), out')"
    by (auto elim: bind_res_InrE)
  have g: "g \<notin> set gs" "distinct gs" using Cons.prems(2) by auto
  show ?case
  proof (rule dispatch_group_step [OF Cons.prems(1), of h out g])
    fix st1 assume s: "dispatch_group sel ((h, st), out) g = Inr ((h, st1), out)" "same_dispatch st st1" "same_account st st1"
      "throttled st g \<or> (\<forall>d. sr_runnable_by_group st g = Some d \<longrightarrow> snd (sel st g d) = None)"
    have inv1: "srtf_inv st1" using Cons.prems(1) same_dispatch_inv [OF s(2)] by simp
    have "for_res (dispatch_group sel) ((h, st1), out) gs = Inr ((h', st'), out')" using s1 s(1) by simp
    from Cons.IH [OF inv1 g(2) this] show ?thesis using pass_of_idle [OF _ s(2,3) g(1) s(4)] by blast
  next
    fix st2 d rid tk assume s: "sr_runnable_by_group st g = Some d" "snd (sel st g d) = Some rid" "launches st st2 g rid tk"
      "dispatch_group sel ((h, st), out) g = Inr ((h(tk := (h tk)\<lparr>t_status := DISPATCHED\<rparr>), st2), out @ [tk])"
    have "for_res (dispatch_group sel) ((h(tk := (h tk)\<lparr>t_status := DISPATCHED\<rparr>), st2), out @ [tk]) gs = Inr ((h', st'), out')"
      using s1 s(4) by simp
    from Cons.IH [OF launches_inv [OF Cons.prems(1) s(3)] g(2) this]
    show ?thesis using pass_of_launch [OF _ Cons.prems(1) s(3) g(1) s(1,2)] by fastforce
  qed
qed

lemma take_pass:
  assumes "srtf_inv st" "distinct (map g_id (tp_groups (wa_topology st)))" "srtf_take sel (h, st) = Inr ((h', st'), out)"
  shows "pass_of st st' (map g_id (tp_groups (wa_topology st))) out"
  using dispatch_loop_pass [OF assms(1,2)] assms(3) unfolding srtf_take_def by fastforce

end

section \<open>Shortest remaining time first\<close>

definition srtf_good :: "'a srtf_scheme choice" where
  "srtf_good st gid d r =
     (case r of
        None \<Rightarrow> d = []
      | Some rid \<Rightarrow> rid \<in> fst ` set d \<and> (\<forall>k \<in> fst ` set d. srtf_key st gid rid \<le> srtf_key st gid k))"

lemma select_shortest_good: "srtf_good st gid d (snd (select_shortest_request st gid d))"
proof (cases "map fst d")
  case (Cons r rs)
  then have "fst ` set d = set (r # rs)" by (metis list.set_map)
  then show ?thesis using Cons min_by_spec [of "srtf_key st gid" r rs]
    unfolding srtf_good_def select_shortest_request_def by simp
qed (simp add: srtf_good_def select_shortest_request_def)

lemma srtf_cleanup_frame: "same_dispatch st (srtf_cleanup rid group_id st)"
  by (simp add: same_dispatch_def srtf_cleanup_def cleanup_request_work_def Let_def split: option.split)

lemma srtf_cleanup_balanced:
  assumes "account_inv st"
    "group_id = None \<or> group_id = Some [] \<or> wa_request_group st rid = None \<or> group_id = wa_request_group st rid"
  shows "account_inv (srtf_cleanup rid group_id st)"
  unfolding srtf_cleanup_def
  by (rule cleanup_account_inv) (use assms in \<open>auto intro: account_inv_cong\<close>)

lemma srtf_key_cong:
  "same_account st st' \<Longrightarrow> sr_active_request_by_group st' gid = sr_active_request_by_group st gid \<Longrightarrow>
     srtf_key st' gid = srtf_key st gid"
  by (rule ext) (simp add: srtf_key_def submit_seq_def same_account_def split: option.split)

interpretation shortest: ranked_selection select_shortest_request srtf_cleanup srtf_good
proof unfold_locales
  fix st st1 st' :: "'a srtf_scheme" and gid rid :: string and d r group_id
  show "same_dispatch st st1" "same_account st st1" if "select_shortest_request st gid d = (st1, r)"
    using that by (simp_all add: select_shortest_request_def)
  show "rid \<in> fst ` set d" if "select_shortest_request st gid d = (st1, Some rid)"
    using select_shortest_good [of st gid d] that by (simp add: srtf_good_def)
  show "same_dispatch st (srtf_cleanup rid group_id st)" by (rule srtf_cleanup_frame)
  show "account_inv (srtf_cleanup rid group_id st)" if "account_inv st"
    "group_id = None \<or> group_id = Some [] \<or> wa_request_group st rid = None \<or> group_id = wa_request_group st rid"
    by (rule srtf_cleanup_balanced [OF that])
  show "srtf_good st gid d (snd (select_shortest_request st gid d))" by (rule select_shortest_good)
  show "srtf_good st gid d r" if "same_account st st'" "sr_active_request_by_group st' gid = sr_active_request_by_group st gid"
    "srtf_good st' gid d r"
    using that(3) unfolding srtf_good_def srtf_key_cong [OF that(1,2)] .
qed

definition srtf_run :: "estimator \<Rightarrow> topology \<Rightarrow> heap \<times> srtf \<Rightarrow> bool" where
  "srtf_run est T s \<longleftrightarrow>
     srtf_reach (srtf_submit est (srtf_take select_shortest_request)) (srtf_runnable (srtf_take select_shortest_request))
       (srtf_event srtf_cleanup (srtf_take select_shortest_request)) (srtf_init T) s"

lemma srtf_run_inv:
  assumes "srtf_run est T (h, st)"
  shows "srtf_inv st" "account_inv st" "wa_topology st = T"
proof -
  have "srtf_inv (snd (h, st)) \<and> account_inv (snd (h, st)) \<and> wa_topology (snd (h, st)) = wa_topology (srtf_init T)"
    by (rule shortest.reach_inv [OF assms [unfolded srtf_run_def] srtf_init_inv]) (rule shortest.submit_inv)
  then show "srtf_inv st" "account_inv st" "wa_topology st = T"
    by (simp_all add: srtf_init_def work_account_init_def work_account.defs)
qed

section \<open>Properties\<close>

text \<open>
  Throttling. In every reachable state at most two tasks are in flight on a group, at most one
  of them has not finished launching, and the two counters are exactly these numbers.
\<close>

theorem srtf_throttles:
  assumes "srtf_run est T (h, st)"
  shows "cget (sr_outstanding_tasks_by_group st) gid = card {tk. sr_dispatched_task_group st tk = Some gid}
    \<and> card {tk. sr_dispatched_task_group st tk = Some gid} \<le> 2
    \<and> cget (sr_launch_pending_by_group st) gid
        = card {tk \<in> sr_tasks_pending_launch st. sr_dispatched_task_group st tk = Some gid}
    \<and> card {tk \<in> sr_tasks_pending_launch st. sr_dispatched_task_group st tk = Some gid} \<le> 1"
  using counters_exact [OF srtf_run_inv(1) [OF assms], of gid] srtf_invD(7,8) [OF srtf_run_inv(1) [OF assms], of gid]
  by (simp add: max_queue_ahead_per_group_def)

lemma enqueue_all_inv:
  assumes "for_res srtf_enqueue (h, st) tks = Inr (h1, st1)" "srtf_inv st" "account_inv st" "distinct tks"
    "\<forall>tk \<in> set tks. srtf_fresh st tk"
  shows "srtf_inv st1 \<and> account_inv st1 \<and> wa_topology st1 = wa_topology st
    \<and> sr_active_request_by_group st1 = sr_active_request_by_group st"
  using assms
proof (induction tks arbitrary: h st)
  case (Cons x xs)
  from Cons.prems(1) obtain ha sa where a: "srtf_enqueue (h, st) x = Inr (ha, sa)" "for_res srtf_enqueue (ha, sa) xs = Inr (h1, st1)"
    by (auto elim: bind_res_InrE)
  have "srtf_fresh st x" using Cons.prems(5) by simp
  note E = enqueue_inv [OF Cons.prems(2,3) this a(1)]
  have "\<forall>tk \<in> set xs. srtf_fresh sa tk" using Cons.prems(4,5) E(3) by auto
  from Cons.IH [OF a(2) E(1,2) _ this] show ?case using Cons.prems(4) E(5,6) by simp
qed simp

lemma sq_runnable:
  assumes "srtf_inv st" "sr_runnable_by_group st gid = Some d"
  shows "sq st (gid, r) \<noteq> [] \<longleftrightarrow> r \<in> fst ` set d"
proof
  show "r \<in> fst ` set d" if "sq st (gid, r) \<noteq> []"
    using that assms(2) by (auto simp: sq_def image_iff split: option.splits dest!: map_of_SomeD) force
next
  assume "r \<in> fst ` set d"
  then obtain q where q: "map_of d r = Some q" by (metis map_of_eq_None_iff option.exhaust)
  have "[] \<notin> snd ` set d" using srtf_invD(2) [OF assms(1)] assms(2) by (simp add: runnable_wf_def)
  then have "q \<noteq> []" using map_of_SomeD [OF q] by force
  then show "sq st (gid, r) \<noteq> []" using q assms(2) by (simp add: sq_def)
qed

text \<open>
  C21: Shortest first. When tasks become runnable in a reachable state, the dispatch that follows
  does not raise. On a group that is throttled or has no waiting request nothing is launched; on
  every other group exactly the first task of a waiting request with the least remaining work is
  (ties: the active request, then the earlier submission).
\<close>

theorem srtf_dispatches_shortest:
  assumes "topology_inv T" "srtf_run est T (h0, st0)" "distinct tks" "\<forall>tk \<in> set tks. srtf_fresh st0 tk"
    and "for_res srtf_enqueue (h0, st0) tks = Inr (h, st)"
  shows "\<exists>h' st' out. srtf_runnable (srtf_take select_shortest_request) tks (h0, st0) = Inr ((h', st'), out)
    \<and> (\<forall>gid \<in> set (map g_id (tp_groups T)).
         if throttled st gid \<or> (\<forall>r. sq st (gid, r) = []) then \<forall>r. sq st' (gid, r) = sq st (gid, r)
         else \<exists>rid tk. tk \<in> set out \<and> sq st (gid, rid) = tk # sq st' (gid, rid)
            \<and> (\<forall>r. r \<noteq> rid \<longrightarrow> sq st' (gid, r) = sq st (gid, r))
            \<and> (\<forall>r. sq st (gid, r) \<noteq> [] \<longrightarrow> srtf_key st gid rid \<le> srtf_key st gid r)
            \<and> sr_active_request_by_group st' gid = Some rid \<and> sr_dispatched_task_group st' tk = Some gid)"
proof -
  note R = srtf_run_inv [OF assms(2)]
  have S: "srtf_inv st" "account_inv st" "wa_topology st = T"
    using enqueue_all_inv [OF assms(5) R(1,2) assms(3,4)] R(3) by auto
  obtain h' st' out where t: "srtf_take select_shortest_request (h, st) = Inr ((h', st'), out)"
    using shortest.take_inv [OF S(1,2), of h] by blast
  have d: "distinct (map g_id (tp_groups (wa_topology st)))" using assms(1) S(3) by (simp add: topology_inv_def)
  note P = shortest.pass_ofD [OF shortest.take_pass [OF S(1) d t]]
  have out: "if throttled st gid \<or> (\<forall>r. sq st (gid, r) = []) then \<forall>r. sq st' (gid, r) = sq st (gid, r)
         else \<exists>rid tk. tk \<in> set out \<and> sq st (gid, rid) = tk # sq st' (gid, rid)
            \<and> (\<forall>r. r \<noteq> rid \<longrightarrow> sq st' (gid, r) = sq st (gid, r))
            \<and> (\<forall>r. sq st (gid, r) \<noteq> [] \<longrightarrow> srtf_key st gid rid \<le> srtf_key st gid r)
            \<and> sr_active_request_by_group st' gid = Some rid \<and> sr_dispatched_task_group st' tk = Some gid"
    if g: "gid \<in> set (map g_id (tp_groups T))" for gid
  proof (cases "outcome_idle srtf_good st st' gid")
    case True
    have "throttled st gid \<or> (\<forall>r. sq st (gid, r) = [])"
      using True srtf_invD(2) [OF S(1)]
      by (auto simp: outcome_idle_def srtf_good_def runnable_wf_def sq_def split: option.splits)
    then show ?thesis using True by (auto simp: outcome_idle_def group_frameD)
  next
    case False
    then obtain rid tk where o: "tk \<in> set out" "outcome_launch srtf_good st st' gid rid tk"
      using P(3) [of gid] g S(3) by auto
    obtain d where d: "sr_runnable_by_group st gid = Some d" "srtf_good st gid d (Some rid)"
      using o(2) by (auto simp: outcome_launch_def)
    have "srtf_key st gid rid \<le> srtf_key st gid r" if "sq st (gid, r) \<noteq> []" for r
      using that d(2) unfolding sq_runnable [OF S(1) d(1)] srtf_good_def option.case by blast
    then have "\<exists>rid tk. tk \<in> set out \<and> sq st (gid, rid) = tk # sq st' (gid, rid)
            \<and> (\<forall>r. r \<noteq> rid \<longrightarrow> sq st' (gid, r) = sq st (gid, r))
            \<and> (\<forall>r. sq st (gid, r) \<noteq> [] \<longrightarrow> srtf_key st gid rid \<le> srtf_key st gid r)
            \<and> sr_active_request_by_group st' gid = Some rid \<and> sr_dispatched_task_group st' tk = Some gid"
      using o unfolding outcome_launch_def by (intro exI [of _ rid] exI [of _ tk]) simp
    moreover have "\<not> throttled st gid" "sq st (gid, rid) \<noteq> []" using o(2) by (simp_all add: outcome_launch_def)
    ultimately show ?thesis by auto
  qed
  have "srtf_runnable (srtf_take select_shortest_request) tks (h0, st0) = Inr ((h', st'), out)"
    unfolding srtf_runnable_def assms(5) by (simp add: t)
  then show ?thesis using out by blast
qed

text \<open>
  C22: The books balance. In every reachable state the remaining work of a request is the sum of the
  work of its tasks that are not yet charged, the backlog of a group lies between zero and the
  remaining work of the requests bound to it, and a group without requests has no backlog.
\<close>

theorem srtf_books_balance:
  assumes "srtf_run est T (h, st)"
  shows "work_at (wa_request_remaining_work st) rid = (\<Sum>tk \<in> ids_of st rid. work_at (wa_task_work st) tk)
    \<and> 0 \<le> work_at (wa_group_backlog_work st) gid
    \<and> work_at (wa_group_backlog_work st) gid \<le> bound_work st gid
    \<and> ((\<forall>r. wa_request_group st r \<noteq> Some gid) \<longrightarrow> work_at (wa_group_backlog_work st) gid = 0)"
  using account_invD(8-10) [OF srtf_run_inv(2) [OF assms]] account_idle [OF srtf_run_inv(2) [OF assms], of gid] by blast

subsection \<open>A concrete run\<close>

lemma ex_srtf_submit:
  "case srtf_submit ex_work_est (srtf_take select_shortest_request) (ex_plan ''r1'' [''r1a'', ''r1b''])
          (ex_work_heap, srtf_init ex_topology) of
     Inl _ \<Rightarrow> False
   | Inr ((h, st), out) \<Rightarrow> out = [''r1a''] \<and> sr_dispatched_task_group st ''r1a'' = Some ''a''
        \<and> work_at (wa_request_remaining_work st) ''r1'' = 12"
  by code_simp

lemma ex_plan_new: "plan_new ex_work_heap (srtf_init ex_topology) (ex_plan ''r1'' [''r1a'', ''r1b''])"
  by (simp add: plan_new_def plan_keyed_def ex_plan_def ex_work_heap_def ex_work_task_def ex_task_def
      srtf_init_def work_account_init_def work_account.defs ids_of_def)

lemma srtf_init_fresh: "srtf_fresh (srtf_init T) tk"
  by (simp add: srtf_fresh_def sq_def srtf_init_def work_account.defs)

lemma ex_srtf_run:
  "\<exists>h st. srtf_run ex_work_est ex_topology (h, st) \<and> sr_dispatched_task_group st ''r1a'' = Some ''a''
     \<and> work_at (wa_request_remaining_work st) ''r1'' = 12"
proof -
  obtain h st out where s: "srtf_submit ex_work_est (srtf_take select_shortest_request) (ex_plan ''r1'' [''r1a'', ''r1b''])
      (ex_work_heap, srtf_init ex_topology) = Inr ((h, st), out)"
    using ex_srtf_submit by (auto split: sum.splits)
  have "srtf_run ex_work_est ex_topology (h, st)"
    unfolding srtf_run_def
    by (rule srtf_reach.submit, rule srtf_reach.start, rule ex_plan_new, simp add: srtf_init_fresh, rule s)
  then show ?thesis using ex_srtf_submit s by auto
qed

theorem srtf_throttles_witness:
  "\<exists>h st. srtf_run ex_work_est ex_topology (h, st) \<and> sr_dispatched_task_group st ''r1a'' = Some ''a''
     \<and> card {tk. sr_dispatched_task_group st tk = Some ''a''} \<le> 2"
  using ex_srtf_run srtf_throttles by blast

lemma ex_srtf_enqueue:
  "case for_res srtf_enqueue (ex_heap, srtf_init ex_topology) [''t1''] of
     Inl _ \<Rightarrow> False
   | Inr (h, st) \<Rightarrow> \<not> throttled st ''a'' \<and> sq st (''a'', ''rt1'') = [''t1''] \<and> ''a'' \<in> set (map g_id (tp_groups ex_topology))"
  by code_simp

theorem srtf_dispatches_shortest_witness:
  "\<exists>h' st' out tk. srtf_runnable (srtf_take select_shortest_request) [''t1''] (ex_heap, srtf_init ex_topology) = Inr ((h', st'), out)
     \<and> tk \<in> set out \<and> sr_dispatched_task_group st' tk = Some ''a''"
proof -
  have r: "srtf_run ex_work_est ex_topology (ex_heap, srtf_init ex_topology)"
    unfolding srtf_run_def by (rule srtf_reach.start)
  obtain h st where e: "for_res srtf_enqueue (ex_heap, srtf_init ex_topology) [''t1''] = Inr (h, st)"
    using ex_srtf_enqueue by (auto split: sum.splits)
  have q: "\<not> throttled st ''a''" "sq st (''a'', ''rt1'') = [''t1'']" "''a'' \<in> set (map g_id (tp_groups ex_topology))"
    using ex_srtf_enqueue unfolding e by simp_all
  then have busy: "\<not> (throttled st ''a'' \<or> (\<forall>r. sq st (''a'', r) = []))" by (metis list.distinct(1))
  have fresh: "\<forall>tk \<in> set [''t1'']. srtf_fresh (srtf_init ex_topology) tk" by (simp add: srtf_init_fresh)
  note D = srtf_dispatches_shortest [OF ex_topology_inv r _ fresh e]
  show ?thesis
  proof (rule exE [OF D], simp, elim exE conjE)
    fix h' st' out
    assume d: "srtf_runnable (srtf_take select_shortest_request) [''t1''] (ex_heap, srtf_init ex_topology) = Inr ((h', st'), out)"
    assume "\<forall>gid \<in> set (map g_id (tp_groups ex_topology)).
         if throttled st gid \<or> (\<forall>r. sq st (gid, r) = []) then \<forall>r. sq st' (gid, r) = sq st (gid, r)
         else \<exists>rid tk. tk \<in> set out \<and> sq st (gid, rid) = tk # sq st' (gid, rid)
            \<and> (\<forall>r. r \<noteq> rid \<longrightarrow> sq st' (gid, r) = sq st (gid, r))
            \<and> (\<forall>r. sq st (gid, r) \<noteq> [] \<longrightarrow> srtf_key st gid rid \<le> srtf_key st gid r)
            \<and> sr_active_request_by_group st' gid = Some rid \<and> sr_dispatched_task_group st' tk = Some gid"
    from bspec [OF this q(3)] have "\<exists>tk. tk \<in> set out \<and> sr_dispatched_task_group st' tk = Some ''a''"
      unfolding if_not_P [OF busy] by (elim exE conjE) (intro exI conjI)
    with d show ?thesis by (elim exE conjE) (intro exI conjI)
  qed
qed

theorem srtf_books_balance_witness:
  "\<exists>h st. srtf_run ex_work_est ex_topology (h, st) \<and> work_at (wa_request_remaining_work st) ''r1'' = 12
     \<and> (\<Sum>tk \<in> ids_of st ''r1''. work_at (wa_task_work st) tk) = 12"
proof -
  obtain h st where r: "srtf_run ex_work_est ex_topology (h, st)" "work_at (wa_request_remaining_work st) ''r1'' = 12"
    using ex_srtf_run by blast
  then show ?thesis using srtf_books_balance [OF r(1), of "''r1''"] by auto
qed

end
