(* ===== verification/Sjf.thy ===== *)
theory Sjf
  imports Srtf
begin

text \<open>
  Non-preemptive shortest job first (\<open>runtime_v2/policies/sjf.py\<close>): the choice of the request and
  the cleaning replace those of the preemptive policy.
\<close>

section \<open>State and operations\<close>

record sjf = srtf +
  sj_request_total_work :: "string \<Rightarrow> xrat option"

definition sjf_init :: "topology \<Rightarrow> sjf" where
  "sjf_init T = srtf.extend (srtf_init T) \<lparr>sj_request_total_work = (\<lambda>_. None)\<rparr>"

text \<open>The loop that takes a snapshot of the remaining work of the requests without one.\<close>

definition snapshot_work :: "string list \<Rightarrow> 'a sjf_scheme \<Rightarrow> 'a sjf_scheme" where
  "snapshot_work rids st =
     fold (\<lambda>rid st.
        if sj_request_total_work st rid = None
        then st\<lparr>sj_request_total_work := (sj_request_total_work st)(rid \<mapsto> work_or_inf (wa_request_remaining_work st) rid)\<rparr>
        else st) rids st"

definition sjf_key :: "'a sjf_scheme \<Rightarrow> string \<Rightarrow> xrat \<times> int \<times> string" where
  "sjf_key st rid =
     ((case sj_request_total_work st rid of None \<Rightarrow> Infty | Some w \<Rightarrow> w), submit_seq st rid, rid)"

definition sjf_select :: "'a sjf_scheme select" where
  "sjf_select st gid by_request =
     (case map fst by_request of
        [] \<Rightarrow> (st, None)
      | r # rs \<Rightarrow>
          (case sr_active_request_by_group st gid of
             Some a \<Rightarrow> (st, if a \<in> set (r # rs) then Some a else None)
           | None \<Rightarrow>
               let st1 = snapshot_work (r # rs) st
               in (st1, Some (min_by (sjf_key st1) r rs))))"

definition sjf_submit :: "estimator \<Rightarrow> plan \<Rightarrow> 'a sjf_scheme dispatch" where
  "sjf_submit est p s =
     bind_res (srtf_submit est (srtf_take sjf_select) p s) (\<lambda>((h, st), out).
       Inr ((h, st\<lparr>sj_request_total_work := (sj_request_total_work st)
                     (p_request_id p \<mapsto> work_or_inf (wa_request_remaining_work st) (p_request_id p))\<rparr>), out))"

definition sjf_cleanup :: "string \<Rightarrow> string option \<Rightarrow> 'a sjf_scheme \<Rightarrow> 'a sjf_scheme" where
  "sjf_cleanup rid gid st =
     srtf_cleanup rid gid (st\<lparr>sj_request_total_work := (sj_request_total_work st)(rid := None)\<rparr>)"

section \<open>The contract holds\<close>

definition sjf_good :: "'a sjf_scheme choice" where
  "sjf_good st gid d r \<longleftrightarrow>
     (\<forall>a. sr_active_request_by_group st gid = Some a \<longrightarrow> r = (if a \<in> fst ` set d then Some a else None))"

lemma snapshot_frame:
  "same_dispatch st (snapshot_work rids st)" "same_account st (snapshot_work rids st)"
  unfolding snapshot_work_def
  by (induction rids arbitrary: st) (simp_all add: same_dispatch_def same_account_def)

lemma sjf_select_frame:
  assumes "sjf_select st gid d = (st1, r)"
  shows "same_dispatch st st1" "same_account st st1" "r = Some rid \<Longrightarrow> rid \<in> fst ` set d" "sjf_good st gid d r"
proof -
  have k: "fst ` set d = set (map fst d)" by simp
  have "same_dispatch st st1 \<and> same_account st st1 \<and> (\<forall>rid. r = Some rid \<longrightarrow> rid \<in> fst ` set d) \<and> sjf_good st gid d r"
  proof (cases "map fst d")
    case Nil
    then show ?thesis using assms by (auto simp: sjf_select_def sjf_good_def)
  next
    case (Cons x xs)
    then show ?thesis using assms min_by_spec [of "sjf_key (snapshot_work (x # xs) st)" x xs] unfolding k sjf_good_def
      by (auto simp: sjf_select_def Let_def snapshot_frame k split: option.splits if_splits)
  qed
  then show "same_dispatch st st1" "same_account st st1" "r = Some rid \<Longrightarrow> rid \<in> fst ` set d" "sjf_good st gid d r"
    by blast+
qed

lemma sjf_cleanup_frame: "same_dispatch st (sjf_cleanup rid group_id st)"
  using srtf_cleanup_frame [of "st\<lparr>sj_request_total_work := (sj_request_total_work st)(rid := None)\<rparr>" rid group_id]
  by (simp add: sjf_cleanup_def same_dispatch_def)

interpretation job: ranked_selection sjf_select sjf_cleanup sjf_good
proof unfold_locales
  fix st st1 st' :: "'a sjf_scheme" and gid rid :: string and d r group_id
  show "same_dispatch st st1" "same_account st st1" if "sjf_select st gid d = (st1, r)"
    using sjf_select_frame [OF that] by blast+
  show "rid \<in> fst ` set d" if "sjf_select st gid d = (st1, Some rid)"
    using sjf_select_frame(3) [OF that] by blast
  show "same_dispatch st (sjf_cleanup rid group_id st)" by (rule sjf_cleanup_frame)
  show "account_inv (sjf_cleanup rid group_id st)" if "account_inv st"
    "group_id = None \<or> group_id = Some [] \<or> wa_request_group st rid = None \<or> group_id = wa_request_group st rid"
    unfolding sjf_cleanup_def
    by (rule srtf_cleanup_balanced) (use that in \<open>auto intro: account_inv_cong\<close>)
  show "sjf_good st gid d (snd (sjf_select st gid d))"
    by (rule sjf_select_frame(4) [of st gid d "fst (sjf_select st gid d)"]) simp
  show "sjf_good st gid d r" if "same_account st st'" "sr_active_request_by_group st' gid = sr_active_request_by_group st gid"
    "sjf_good st' gid d r"
    using that(2,3) unfolding sjf_good_def by simp
qed

definition sjf_run :: "estimator \<Rightarrow> topology \<Rightarrow> heap \<times> sjf \<Rightarrow> bool" where
  "sjf_run est T s \<longleftrightarrow>
     srtf_reach (sjf_submit est) (srtf_runnable (srtf_take sjf_select)) (srtf_event sjf_cleanup (srtf_take sjf_select))
       (sjf_init T) s"

lemma sjf_run_inv:
  assumes "sjf_run est T (h, st)"
  shows "srtf_inv st" "account_inv st" "wa_topology st = T"
proof -
  have same: "same_dispatch (srtf_init T) (sjf_init T)" "same_account (srtf_init T) (sjf_init T)"
    by (simp_all add: same_dispatch_def same_account_def sjf_init_def srtf.defs)
  have init: "srtf_inv (sjf_init T)" "account_inv (sjf_init T)"
    using srtf_init_inv [of T] same_dispatch_inv [OF same(1)] same_account_inv [OF same(2)] by simp_all
  have sub: "srtf_inv st' \<and> account_inv st' \<and> wa_topology st' = wa_topology st"
    if ok: "srtf_inv st" "account_inv st" "plan_new h st p" "\<forall>tk \<in> fst ` set (p_tasks p). srtf_fresh st tk"
      and s: "sjf_submit est p (h, st) = Inr ((h', st'), out)" for h st p h' out and st' :: sjf
  proof -
    obtain st1 where 1: "srtf_submit est (srtf_take sjf_select) p (h, st) = Inr ((h', st1), out)"
      "same_dispatch st1 st'" "same_account st1 st'"
      using s by (auto simp: sjf_submit_def bind_res_eq_Inr same_dispatch_def same_account_def)
    then show ?thesis using job.submit_inv [OF ok 1(1)] same_dispatch_inv [OF 1(2)] same_account_inv [OF 1(3)]
        same_dispatchD(1) [OF 1(2)] by simp
  qed
  have "srtf_inv (snd (h, st)) \<and> account_inv (snd (h, st)) \<and> wa_topology (snd (h, st)) = wa_topology (sjf_init T)"
    by (rule job.reach_inv [OF assms [unfolded sjf_run_def] init]) (rule sub)
  then show "srtf_inv st" "account_inv st" "wa_topology st = T"
    by (simp_all add: same_dispatchD(1) [OF same(1)] srtf_init_def work_account_init_def work_account.defs)
qed

section \<open>Properties\<close>

text \<open>
  Non-preemptive. While a request is active on a group, no event other than the end of that
  request changes this: after the event the request is still active, and whatever the dispatch
  launched on the group comes from the head of its queue. The handler does not raise.
\<close>

theorem sjf_non_preemptive:
  assumes "topology_inv T" "sjf_run est T (h, st)" "gid \<in> set (map g_id (tp_groups T))"
    and act: "sr_active_request_by_group st gid = Some a" and fits: "event_fits st ev"
    and other: "\<not> (e_kind ev \<in> {REQUEST_FINISHED, REQUEST_FAILED} \<and> e_request_id ev = a)"
  shows "\<exists>h' st' out. srtf_event sjf_cleanup (srtf_take sjf_select) ev (h, st) = Inr ((h', st'), out)
    \<and> sr_active_request_by_group st' gid = Some a
    \<and> (\<forall>tk \<in> set out. sr_dispatched_task_group st' tk = Some gid \<longrightarrow> (\<exists>q. sq st (gid, a) = tk # q))"
proof -
  note R = sjf_run_inv [OF assms(2)]
  have own: "owned st (e_request_id ev) (e_task_id ev)" using fits by (simp add: event_fits_def)
  note S = settle_inv [OF R(1,2) own]
  obtain h' st' out where e: "srtf_event sjf_cleanup (srtf_take sjf_select) ev (h, st) = Inr ((h', st'), out)"
    using job.event_inv [OF R(1,2) own, of h] fits unfolding event_fits_def by blast
  show ?thesis
  proof (cases "e_kind ev = TASK_LAUNCH_END")
    case True
    then show ?thesis using e S(5) act unfolding srtf_event_eq by simp
  next
    case False
    let ?st3 = "settle_task ev st"
    let ?g = "or_group (Some (e_group_id ev)) (wa_request_group ?st3 (e_request_id ev))"
    let ?f = "srtf_forget (e_request_id ev) ?g ?st3"
    define st4 where "st4 = (if e_kind ev \<in> {REQUEST_FINISHED, REQUEST_FAILED}
        then sjf_cleanup (e_request_id ev) ?g ?f else ?st3)"
    have t: "srtf_take sjf_select (h, st4) = Inr ((h', st'), out)"
      using e False unfolding srtf_event_eq Let_def st4_def by simp
    note C = same_dispatchD [OF sjf_cleanup_frame [of ?f "e_request_id ev" ?g]]
    have i4: "srtf_inv st4"
      using S(1) forget_inv(1) [OF S(1,2)] same_dispatch_inv [OF sjf_cleanup_frame [of ?f "e_request_id ev" ?g]]
      by (simp add: st4_def)
    have "wa_topology ?f = T" using S(4) R(3) by (simp add: srtf_forget_def split: option.split)
    then have top: "wa_topology st4 = T" using C(1) S(4) R(3) by (simp add: st4_def)
    have act4: "sr_active_request_by_group st4 gid = Some a"
      using act other S(5) C(3) by (auto simp: st4_def srtf_forget_def split: option.split)
    have sq4: "sq st4 (gid, a) = sq st (gid, a)"
      using other C(8) forget_sq [OF srtf_invD(2) [OF S(1)]] by (auto simp: st4_def settle_sq)
    have d: "distinct (map g_id (tp_groups (wa_topology st4)))" using assms(1) by (simp add: top topology_inv_def)
    note P = job.pass_ofD [OF job.take_pass [OF i4 d t], unfolded top]
    have own: "rid = a" if "outcome_launch sjf_good st4 st' gid rid tk" for rid tk
      using that act4 by (auto simp: outcome_launch_def sjf_good_def split: if_splits)
    have "sr_active_request_by_group st' gid = Some a"
      using P(3) [OF assms(3)] act4 own by (auto simp: outcome_idle_def outcome_launch_def group_frameD)
    moreover have "\<exists>q. sq st (gid, a) = tk # q" if tk: "tk \<in> set out" "sr_dispatched_task_group st' tk = Some gid" for tk
    proof -
      obtain g rid where o: "outcome_launch sjf_good st4 st' g rid tk" using P(4) [OF tk(1)] by blast
      then have "g = gid" using tk(2) by (simp add: outcome_launch_def)
      with o have "sq st4 (gid, rid) = tk # sq st' (gid, rid)" "rid = a" using own by (auto simp: outcome_launch_def)
      then show ?thesis using sq4 by simp
    qed
    ultimately show ?thesis using e by blast
  qed
qed

text \<open>The size by which a waiting request is ranked: its snapshot, or what remains when it has none.\<close>

definition job_size :: "'a sjf_scheme \<Rightarrow> string \<Rightarrow> xrat" where
  "job_size st rid =
     (case sj_request_total_work st rid of Some w \<Rightarrow> w | None \<Rightarrow> work_or_inf (wa_request_remaining_work st) rid)"

lemma snapshot_total:
  "sj_request_total_work (snapshot_work rids st) r =
     (if r \<in> set rids then Some (job_size st r) else sj_request_total_work st r)"
proof (induction rids arbitrary: st)
  case (Cons x xs)
  let ?s = "if sj_request_total_work st x = None
    then st\<lparr>sj_request_total_work := (sj_request_total_work st)(x \<mapsto> work_or_inf (wa_request_remaining_work st) x)\<rparr> else st"
  have "snapshot_work (x # xs) st = snapshot_work xs ?s" by (simp add: snapshot_work_def)
  moreover have "job_size ?s r = job_size st r" by (auto simp: job_size_def split: option.split)
  moreover have "sj_request_total_work ?s r = (if r = x then Some (job_size st r) else sj_request_total_work st r)"
    by (auto simp: job_size_def split: option.split)
  ultimately show ?case using Cons.IH [of ?s] by auto
qed (simp add: snapshot_work_def)

text \<open>
  Shortest job. On a group without an active request the waiting request with the smallest job is
  chosen (ties: the earlier submission); a job keeps the size it was first ranked with.
\<close>

theorem sjf_admits_shortest_job:
  assumes "sr_active_request_by_group st gid = None" "d \<noteq> []"
  shows "\<exists>st1 rid. sjf_select st gid d = (st1, Some rid) \<and> rid \<in> fst ` set d
    \<and> (\<forall>r \<in> fst ` set d. (job_size st rid, submit_seq st rid, rid) \<le> (job_size st r, submit_seq st r, r))
    \<and> (\<forall>r. job_size st1 r = job_size st r)"
proof -
  obtain x xs where k: "map fst d = x # xs" using assms(2) by (cases d) auto
  then have kd: "fst ` set d = set (x # xs)" by (metis list.set_map)
  let ?s = "snapshot_work (x # xs) st"
  have sel: "sjf_select st gid d = (?s, Some (min_by (sjf_key ?s) x xs))"
    using assms(1) k by (simp add: sjf_select_def Let_def)
  have seq: "submit_seq ?s r = submit_seq st r" for r
    using snapshot_frame(2) [where st = st and rids = "x # xs"] by (simp add: submit_seq_def same_account_def split: option.split)
  have size_eq: "job_size ?s r = job_size st r" for r
  proof (cases "r \<in> set (x # xs)")
    case True
    then have "sj_request_total_work ?s r = Some (job_size st r)" unfolding snapshot_total by simp
    then show ?thesis by (simp add: job_size_def [of ?s])
  next
    case False
    then have "sj_request_total_work ?s r = sj_request_total_work st r" unfolding snapshot_total by simp
    then show ?thesis using snapshot_frame(2) [where st = st and rids = "x # xs"]
      by (simp add: job_size_def same_account_def split: option.split)
  qed
  have key: "sjf_key ?s r = (job_size st r, submit_seq st r, r)" if "r \<in> set (x # xs)" for r
    using that unfolding sjf_key_def snapshot_total seq by simp
  have m: "min_by (sjf_key ?s) x xs \<in> set (x # xs)"
      "\<And>r. r \<in> set (x # xs) \<Longrightarrow> sjf_key ?s (min_by (sjf_key ?s) x xs) \<le> sjf_key ?s r"
    using min_by_spec [of "sjf_key ?s" x xs] by blast+
  show ?thesis
    unfolding kd sel using m key size_eq by (intro exI conjI ballI allI) (rule refl, simp_all)
qed

subsection \<open>A concrete run\<close>

text \<open>A submitted request is active on group \<open>a\<close> when one of its tasks fails.\<close>

definition ex_failure :: worker_event where
  "ex_failure = ex_event\<lparr>e_task_id := ''r1a'', e_request_id := ''r1'', e_group_id := ''a'', e_kind := TASK_FAILED\<rparr>"

lemma ex_sjf_submit:
  "case sjf_submit ex_work_est (ex_plan ''r1'' [''r1a'', ''r1b'']) (ex_work_heap, sjf_init ex_topology) of
     Inl _ \<Rightarrow> False
   | Inr ((h, st), out) \<Rightarrow> sr_active_request_by_group st ''a'' = Some ''r1'' \<and> ''a'' \<in> set (map g_id (tp_groups ex_topology))
       \<and> wa_request_group st ''r1'' = Some ''a'' \<and> ''r1a'' \<in> ids_of st ''r1''"
  by code_simp

lemma sjf_init_fresh: "srtf_fresh (sjf_init T) tk"
  by (simp add: srtf_fresh_def sq_def sjf_init_def srtf_init_def work_account.defs srtf.defs)

lemma ex_sjf_plan_new: "plan_new ex_work_heap (sjf_init ex_topology) (ex_plan ''r1'' [''r1a'', ''r1b''])"
  using ex_plan_new by (simp add: plan_new_def ids_of_def sjf_init_def srtf.defs)

theorem sjf_non_preemptive_witness:
  "\<exists>h st h' st' out. sjf_run ex_work_est ex_topology (h, st)
     \<and> srtf_event sjf_cleanup (srtf_take sjf_select) ex_failure (h, st) = Inr ((h', st'), out)
     \<and> sr_active_request_by_group st' ''a'' = Some ''r1''"
proof -
  obtain h st out where s: "sjf_submit ex_work_est (ex_plan ''r1'' [''r1a'', ''r1b'']) (ex_work_heap, sjf_init ex_topology)
      = Inr ((h, st), out)"
    using ex_sjf_submit by (auto split: sum.splits)
  have q: "sr_active_request_by_group st ''a'' = Some ''r1''" "''a'' \<in> set (map g_id (tp_groups ex_topology))"
      "wa_request_group st ''r1'' = Some ''a''" "''r1a'' \<in> ids_of st ''r1''"
    using ex_sjf_submit unfolding s by simp_all
  have run: "sjf_run ex_work_est ex_topology (h, st)"
    unfolding sjf_run_def
    by (rule srtf_reach.submit, rule srtf_reach.start, rule ex_sjf_plan_new, simp add: sjf_init_fresh, rule s)
  have "owned st ''r1'' ''r1a''"
    by (rule owned_member [OF sjf_run_inv(2) [OF run] q(4)])
  then have fits: "event_fits st ex_failure"
    using q(3) by (simp add: event_fits_def ex_failure_def)
  have other: "\<not> (e_kind ex_failure \<in> {REQUEST_FINISHED, REQUEST_FAILED} \<and> e_request_id ex_failure = ''r1'')"
    by (simp add: ex_failure_def)
  from sjf_non_preemptive [OF ex_topology_inv run q(2,1) fits other] run show ?thesis
    by (elim exE conjE) (intro exI conjI)
qed

theorem sjf_admits_shortest_job_witness:
  "\<exists>st1 rid. sjf_select (sjf_init ex_topology) ''a'' [(''r1'', [''r1a''])] = (st1, Some rid) \<and> rid = ''r1''"
proof -
  have "sr_active_request_by_group (sjf_init ex_topology) ''a'' = None"
    by (simp add: sjf_init_def srtf_init_def work_account.defs srtf.defs)
  from sjf_admits_shortest_job [OF this, of "[(''r1'', [''r1a''])]"] show ?thesis by auto
qed

end
