(* ===== verification/Fcfs.thy ===== *)
theory Fcfs
  imports WorkAccount
begin

text \<open>
  First come, first served admission with one active request per group
  (\<open>runtime_v2/policies/fcfs.py\<close>). Binding, estimates and charging are those of the work account;
  the source repeats them.
\<close>

section \<open>State and operations\<close>

record fcfs = work_account +
  fc_ready_queue :: "string list"
  fc_active_request_by_group :: "string \<Rightarrow> string option"
  fc_pending_requests_by_group :: "string \<Rightarrow> string list option"
  fc_blocked_tasks_by_request :: "string \<Rightarrow> string list option"

definition fcfs_init :: "topology \<Rightarrow> fcfs" where
  "fcfs_init T = work_account.extend (work_account_init T)
     \<lparr>fc_ready_queue = [], fc_active_request_by_group = (\<lambda>_. None),
      fc_pending_requests_by_group = (\<lambda>_. None), fc_blocked_tasks_by_request = (\<lambda>_. None)\<rparr>"

definition set_status :: "task_status \<Rightarrow> string list \<Rightarrow> heap \<Rightarrow> heap" where
  "set_status s tks h = fold (\<lambda>tk h. h(tk := (h tk)\<lparr>t_status := s\<rparr>)) tks h"

text \<open>\<open>_take_dispatchable_tasks\<close> empties the ready queue.\<close>

definition fcfs_take :: "fcfs dispatch" where
  "fcfs_take s =
     (case s of (h, st) \<Rightarrow>
        Inr ((set_status DISPATCHED (fc_ready_queue st) h, st\<lparr>fc_ready_queue := []\<rparr>), fc_ready_queue st))"

text \<open>A task of a request that is not active on its group waits with the request.\<close>

definition block_task :: "string \<Rightarrow> string \<Rightarrow> string \<Rightarrow> fcfs \<Rightarrow> fcfs" where
  "block_task gid rid tk st =
     (let q = (case fc_pending_requests_by_group st gid of None \<Rightarrow> [] | Some q \<Rightarrow> q);
          l = (case fc_blocked_tasks_by_request st rid of None \<Rightarrow> [] | Some l \<Rightarrow> l)
      in st\<lparr>fc_pending_requests_by_group :=
              (fc_pending_requests_by_group st)(gid \<mapsto> if rid \<in> set q then q else q @ [rid]),
            fc_blocked_tasks_by_request := (fc_blocked_tasks_by_request st)(rid \<mapsto> l @ [tk])\<rparr>)"

definition fcfs_enqueue :: "heap \<times> fcfs \<Rightarrow> string \<Rightarrow> (heap \<times> fcfs) res" where
  "fcfs_enqueue s tk =
     (case s of (h, st) \<Rightarrow>
        let t = h tk; rid = t_request_id t;
            t1 = (if t_group_id t = None then t\<lparr>t_group_id := wa_request_group st rid\<rparr> else t)
        in case t_group_id t1 of
             None \<Rightarrow> Inl ValueError
           | Some gid \<Rightarrow>
               let req_group = (case wa_request_group st rid of None \<Rightarrow> gid | Some g \<Rightarrow> g);
                   st1 = st\<lparr>wa_request_group := (wa_request_group st)(rid \<mapsto> req_group)\<rparr>
               in if req_group \<noteq> gid then Inl ValueError
                  else
                    let active = (case fc_active_request_by_group st1 gid of None \<Rightarrow> rid | Some a \<Rightarrow> a);
                        st2 = st1\<lparr>fc_active_request_by_group := (fc_active_request_by_group st1)(gid \<mapsto> active)\<rparr>
                    in if active = rid
                       then Inr (h(tk := t1\<lparr>t_status := READY\<rparr>), st2\<lparr>fc_ready_queue := fc_ready_queue st2 @ [tk]\<rparr>)
                       else Inr (h(tk := t1), block_task gid rid tk st2))"

definition fcfs_runnable :: "string list \<Rightarrow> fcfs dispatch" where
  "fcfs_runnable tks s = bind_res (for_res fcfs_enqueue s tks) fcfs_take"

definition fcfs_submit :: "estimator \<Rightarrow> plan \<Rightarrow> fcfs dispatch" where
  "fcfs_submit est p s =
     bind_res (bind_request_group est p s) (\<lambda>((h1, st1), gid).
     bind_res (enter_plan est p (\<lambda>_. bind_res (get_group (wa_topology st1) gid) (\<lambda>g. Inr (g_parallel g))) gid h1 st1) (\<lambda>st2.
       fcfs_runnable (root_tasks p) (h1, st2)))"

text \<open>
  The loop that admits the next pending request of a group: requests without blocked tasks are
  skipped; the remaining queue is returned.
\<close>

fun admit_next :: "string \<Rightarrow> string list \<Rightarrow> heap \<times> fcfs \<Rightarrow> string list \<times> heap \<times> fcfs" where
  "admit_next gid [] s = ([], s)"
| "admit_next gid (rid # queue) (h, st) =
     (let blocked = (case fc_blocked_tasks_by_request st rid of None \<Rightarrow> [] | Some l \<Rightarrow> l);
          st1 = st\<lparr>fc_blocked_tasks_by_request := (fc_blocked_tasks_by_request st)(rid := None)\<rparr>
      in if blocked = [] then admit_next gid queue (h, st1)
         else (queue, set_status READY blocked h,
               st1\<lparr>fc_active_request_by_group := (fc_active_request_by_group st1)(gid \<mapsto> rid),
                   fc_ready_queue := fc_ready_queue st1 @ blocked\<rparr>))"

definition fcfs_cleanup :: "string \<Rightarrow> string option \<Rightarrow> fcfs \<Rightarrow> fcfs" where
  "fcfs_cleanup rid gid st =
     (let st1 = cleanup_request_work rid gid st
      in st1\<lparr>fc_blocked_tasks_by_request := (fc_blocked_tasks_by_request st1)(rid := None)\<rparr>)"

definition finish_request :: "string \<Rightarrow> string option \<Rightarrow> heap \<times> fcfs \<Rightarrow> heap \<times> fcfs" where
  "finish_request rid group_id s =
     (case s of (h, st) \<Rightarrow>
        case group_id of
          None \<Rightarrow> (h, fcfs_cleanup rid None st)
        | Some gid \<Rightarrow>
            let st1 = (if fc_active_request_by_group st gid = Some rid
                       then st\<lparr>fc_active_request_by_group := (fc_active_request_by_group st)(gid := None)\<rparr> else st)
            in case fc_pending_requests_by_group st1 gid of
                 None \<Rightarrow> (h, fcfs_cleanup rid group_id st1)
               | Some [] \<Rightarrow> (h, fcfs_cleanup rid group_id st1)
               | Some (r # rs) \<Rightarrow>
                   (case admit_next gid (r # rs) (h, st1) of (queue, h2, st2) \<Rightarrow>
                      (h2, fcfs_cleanup rid group_id
                         (st2\<lparr>fc_pending_requests_by_group := (fc_pending_requests_by_group st2)
                                (gid := if queue = [] then None else Some queue)\<rparr>))))"

definition fcfs_event :: "worker_event \<Rightarrow> fcfs dispatch" where
  "fcfs_event ev s =
     (case s of (h, st) \<Rightarrow>
        let rid = e_request_id ev;
            st1 = (if e_kind ev \<in> {TASK_LAUNCH_END, TASK_EXEC_END}
                   then charge_completed_task rid (e_task_id ev) st else st)
        in fcfs_take
             (if e_kind ev \<in> {REQUEST_FINISHED, REQUEST_FAILED}
              then finish_request rid (or_group (Some (e_group_id ev)) (wa_request_group st1 rid)) (h, st1)
              else (h, st1)))"

section \<open>Invariant\<close>

text \<open>A task that may run now: its group is bound and its request is active there.\<close>

definition may_run :: "heap \<Rightarrow> fcfs \<Rightarrow> string \<Rightarrow> bool" where
  "may_run h st tk \<longleftrightarrow>
     (\<exists>gid. t_group_id (h tk) = Some gid \<and> fc_active_request_by_group st gid = Some (t_request_id (h tk)))"

definition active_ok :: "fcfs \<Rightarrow> bool" where
  "active_ok st \<longleftrightarrow>
     (\<forall>gid rid. fc_active_request_by_group st gid = Some rid \<longrightarrow>
        wa_request_group st rid = Some gid \<and> fc_blocked_tasks_by_request st rid = None)"

definition pending_ok :: "fcfs \<Rightarrow> bool" where
  "pending_ok st \<longleftrightarrow>
     (\<forall>gid q. fc_pending_requests_by_group st gid = Some q \<longrightarrow>
        q \<noteq> [] \<and> distinct q \<and> fc_active_request_by_group st gid \<noteq> None
        \<and> (\<forall>rid \<in> set q. fc_blocked_tasks_by_request st rid \<noteq> None \<and> wa_request_group st rid = Some gid))"

definition waits :: "fcfs \<Rightarrow> string \<Rightarrow> bool" where
  "waits st rid \<longleftrightarrow> (\<exists>gid q. fc_pending_requests_by_group st gid = Some q \<and> rid \<in> set q)"

definition blocked_ok :: "heap \<Rightarrow> fcfs \<Rightarrow> bool" where
  "blocked_ok h st \<longleftrightarrow>
     (\<forall>rid l. fc_blocked_tasks_by_request st rid = Some l \<longrightarrow>
        l \<noteq> [] \<and> waits st rid
        \<and> (\<forall>tk \<in> set l. t_request_id (h tk) = rid \<and> t_group_id (h tk) = wa_request_group st rid))"

definition fcfs_inv :: "heap \<Rightarrow> fcfs \<Rightarrow> bool" where
  "fcfs_inv h st \<longleftrightarrow>
     (\<forall>tk \<in> set (fc_ready_queue st). may_run h st tk) \<and> active_ok st \<and> pending_ok st \<and> blocked_ok h st"

lemma fcfs_invD:
  assumes "fcfs_inv h st"
  shows "tk \<in> set (fc_ready_queue st) \<Longrightarrow> may_run h st tk"
    "fc_active_request_by_group st gid = Some rid \<Longrightarrow> wa_request_group st rid = Some gid"
    "fc_active_request_by_group st gid = Some rid \<Longrightarrow> fc_blocked_tasks_by_request st rid = None"
    "fc_pending_requests_by_group st gid = Some q \<Longrightarrow> q \<noteq> []"
    "fc_pending_requests_by_group st gid = Some q \<Longrightarrow> distinct q"
    "fc_pending_requests_by_group st gid = Some q \<Longrightarrow> fc_active_request_by_group st gid \<noteq> None"
    "fc_pending_requests_by_group st gid = Some q \<Longrightarrow> rid \<in> set q \<Longrightarrow> fc_blocked_tasks_by_request st rid \<noteq> None"
    "fc_pending_requests_by_group st gid = Some q \<Longrightarrow> rid \<in> set q \<Longrightarrow> wa_request_group st rid = Some gid"
    "fc_blocked_tasks_by_request st rid = Some l \<Longrightarrow> l \<noteq> []"
    "fc_blocked_tasks_by_request st rid = Some l \<Longrightarrow> waits st rid"
    "fc_blocked_tasks_by_request st rid = Some l \<Longrightarrow> tk \<in> set l \<Longrightarrow> t_request_id (h tk) = rid"
    "fc_blocked_tasks_by_request st rid = Some l \<Longrightarrow> tk \<in> set l \<Longrightarrow> t_group_id (h tk) = wa_request_group st rid"
  using assms unfolding fcfs_inv_def active_ok_def pending_ok_def blocked_ok_def by blast+

text \<open>A request that waits is bound to the group it waits for, which has an active request.\<close>

lemma blocked_pending:
  assumes inv: "fcfs_inv h st" and "fc_blocked_tasks_by_request st rid = Some l"
  obtains gid q where "fc_pending_requests_by_group st gid = Some q" "rid \<in> set q" "wa_request_group st rid = Some gid"
    "fc_active_request_by_group st gid \<noteq> None"
  using fcfs_invD(10) [OF assms] fcfs_invD(6,8) [OF inv] unfolding waits_def by blast

lemma unbound_not_blocked:
  assumes "fcfs_inv h st" "wa_request_group st rid = None"
  shows "fc_blocked_tasks_by_request st rid = None"
proof (rule ccontr)
  assume "\<not> ?thesis"
  then obtain l where "fc_blocked_tasks_by_request st rid = Some l" by auto
  from blocked_pending [OF assms(1) this] assms(2) show False by simp
qed

lemma fcfs_init_inv: "fcfs_inv h (fcfs_init T)" "account_inv (fcfs_init T)"
proof -
  show "fcfs_inv h (fcfs_init T)"
    by (simp add: fcfs_inv_def active_ok_def pending_ok_def blocked_ok_def fcfs_init_def work_account.defs)
  show "account_inv (fcfs_init T)"
    by (rule account_inv_cong [OF account_inv_init [of T]]) (simp_all add: fcfs_init_def work_account.defs)
qed

text \<open>Changes of tasks that keep their request and a group once bound.\<close>

definition heap_keeps :: "heap \<Rightarrow> heap \<Rightarrow> bool" where
  "heap_keeps h h' \<longleftrightarrow>
     (\<forall>tk. t_request_id (h' tk) = t_request_id (h tk) \<and> (t_group_id (h tk) \<noteq> None \<longrightarrow> t_group_id (h' tk) = t_group_id (h tk)))"

lemma heap_keepsD:
  assumes "heap_keeps h h'"
  shows "t_request_id (h' tk) = t_request_id (h tk)" "t_group_id (h tk) = Some g \<Longrightarrow> t_group_id (h' tk) = Some g"
  using assms unfolding heap_keeps_def by auto

lemma heap_keeps_inv:
  assumes k: "heap_keeps h h'" and inv: "fcfs_inv h st"
  shows "fcfs_inv h' st"
proof -
  note K = heap_keepsD [OF k]
  have "may_run h' st tk" if "tk \<in> set (fc_ready_queue st)" for tk
    using fcfs_invD(1) [OF inv that] K unfolding may_run_def by metis
  moreover have "t_group_id (h' tk) = wa_request_group st rid"
    if b: "fc_blocked_tasks_by_request st rid = Some l" and tk: "tk \<in> set l" for rid l tk
  proof -
    obtain gid where "wa_request_group st rid = Some gid" using blocked_pending [OF inv b] by metis
    then show ?thesis using fcfs_invD(12) [OF inv b tk] K(2) by simp
  qed
  moreover have "blocked_ok h st" "active_ok st" "pending_ok st" using inv by (simp_all add: fcfs_inv_def)
  ultimately show ?thesis unfolding fcfs_inv_def blocked_ok_def by (simp add: K(1))
qed

lemma set_status_keeps: "heap_keeps h (set_status s tks h)"
proof -
  have "t_request_id (set_status s tks h tk) = t_request_id (h tk) \<and> t_group_id (set_status s tks h tk) = t_group_id (h tk)" for tk
    unfolding set_status_def by (induction tks arbitrary: h) simp_all
  then show ?thesis by (simp add: heap_keeps_def)
qed

lemma fcfs_take_inv:
  assumes inv: "fcfs_inv h st"
  obtains h' where "fcfs_take (h, st) = Inr ((h', st\<lparr>fc_ready_queue := []\<rparr>), fc_ready_queue st)"
    "fcfs_inv h' (st\<lparr>fc_ready_queue := []\<rparr>)" "heap_keeps h h'"
    "\<And>tk. tk \<in> set (fc_ready_queue st) \<Longrightarrow> may_run h' (st\<lparr>fc_ready_queue := []\<rparr>) tk"
proof -
  let ?h = "set_status DISPATCHED (fc_ready_queue st) h"
  note k = set_status_keeps [of h DISPATCHED "fc_ready_queue st"]
  have i: "fcfs_inv ?h st" by (rule heap_keeps_inv [OF k inv])
  have e: "fcfs_take (h, st) = Inr ((?h, st\<lparr>fc_ready_queue := []\<rparr>), fc_ready_queue st)" by (simp add: fcfs_take_def)
  have "fcfs_inv ?h (st\<lparr>fc_ready_queue := []\<rparr>)"
    using i by (simp add: fcfs_inv_def active_ok_def pending_ok_def blocked_ok_def waits_def)
  moreover have "may_run ?h (st\<lparr>fc_ready_queue := []\<rparr>) tk" if "tk \<in> set (fc_ready_queue st)" for tk
    using fcfs_invD(1) [OF i that] by (simp add: may_run_def)
  ultimately show thesis by (rule that [OF e _ k])
qed

subsection \<open>Runnable tasks\<close>

lemma enqueue_forms:
  assumes e: "fcfs_enqueue (h, st) tk = Inr (h', st')"
  defines "rid \<equiv> t_request_id (h tk)"
  obtains gid where "wa_request_group st rid = None \<or> wa_request_group st rid = Some gid"
    "heap_keeps h h'" "t_group_id (h' tk) = Some gid"
    "fc_active_request_by_group st gid = None \<and>
       st' = st\<lparr>wa_request_group := (wa_request_group st)(rid \<mapsto> gid),
           fc_active_request_by_group := (fc_active_request_by_group st)(gid \<mapsto> rid),
           fc_ready_queue := fc_ready_queue st @ [tk]\<rparr>
     \<or> fc_active_request_by_group st gid = Some rid \<and>
       st' = st\<lparr>wa_request_group := (wa_request_group st)(rid \<mapsto> gid), fc_ready_queue := fc_ready_queue st @ [tk]\<rparr>
     \<or> (\<exists>a. fc_active_request_by_group st gid = Some a \<and> a \<noteq> rid) \<and>
       st' = block_task gid rid tk (st\<lparr>wa_request_group := (wa_request_group st)(rid \<mapsto> gid)\<rparr>)"
proof -
  let ?t = "if t_group_id (h tk) = None then (h tk)\<lparr>t_group_id := wa_request_group st rid\<rparr> else h tk"
  obtain gid where g: "t_group_id ?t = Some gid"
    using e unfolding rid_def by (auto simp: fcfs_enqueue_def Let_def split: option.splits)
  let ?st1 = "st\<lparr>wa_request_group := (wa_request_group st)(rid \<mapsto> case wa_request_group st rid of None \<Rightarrow> gid | Some g \<Rightarrow> g)\<rparr>"
  let ?a = "case fc_active_request_by_group st gid of None \<Rightarrow> rid | Some a \<Rightarrow> a"
  let ?st2 = "?st1\<lparr>fc_active_request_by_group := (fc_active_request_by_group st)(gid \<mapsto> ?a)\<rparr>"
  have def: "fcfs_enqueue (h, st) tk =
      (if (case wa_request_group st rid of None \<Rightarrow> gid | Some g \<Rightarrow> g) \<noteq> gid then Inl ValueError
       else if ?a = rid then Inr (h(tk := ?t\<lparr>t_status := READY\<rparr>), ?st2\<lparr>fc_ready_queue := fc_ready_queue st @ [tk]\<rparr>)
       else Inr (h(tk := ?t), block_task gid rid tk ?st2))"
    unfolding fcfs_enqueue_def Let_def prod.case rid_def [symmetric] g option.case by simp
  have r: "(case wa_request_group st rid of None \<Rightarrow> gid | Some g \<Rightarrow> g) = gid" using e unfolding def by (auto split: if_splits)
  then have wr: "wa_request_group st rid = None \<or> wa_request_group st rid = Some gid" by (auto split: option.splits)
  have h': "h' tk = ?t\<lparr>t_status := t_status (h' tk)\<rparr>" "\<And>k. k \<noteq> tk \<Longrightarrow> h' k = h k"
    using e unfolding def by (auto split: if_splits)
  have h1: "t_group_id (h' tk) = Some gid" using g by (subst h'(1)) (auto split: if_splits)
  have h2: "t_request_id (h' tk) = t_request_id (h tk)" by (subst h'(1)) simp
  have keeps: "heap_keeps h h'"
    unfolding heap_keeps_def
  proof (intro allI)
    fix k show "t_request_id (h' k) = t_request_id (h k) \<and> (t_group_id (h k) \<noteq> None \<longrightarrow> t_group_id (h' k) = t_group_id (h k))"
      using h'(2) h1 h2 g by (cases "k = tk") (auto split: if_splits)
  qed
  show thesis
  proof (rule that [OF wr keeps h1])
    show "fc_active_request_by_group st gid = None \<and>
       st' = st\<lparr>wa_request_group := (wa_request_group st)(rid \<mapsto> gid),
           fc_active_request_by_group := (fc_active_request_by_group st)(gid \<mapsto> rid),
           fc_ready_queue := fc_ready_queue st @ [tk]\<rparr>
     \<or> fc_active_request_by_group st gid = Some rid \<and>
       st' = st\<lparr>wa_request_group := (wa_request_group st)(rid \<mapsto> gid), fc_ready_queue := fc_ready_queue st @ [tk]\<rparr>
     \<or> (\<exists>a. fc_active_request_by_group st gid = Some a \<and> a \<noteq> rid) \<and>
       st' = block_task gid rid tk (st\<lparr>wa_request_group := (wa_request_group st)(rid \<mapsto> gid)\<rparr>)"
      using e unfolding def r
      by (cases "fc_active_request_by_group st gid") (auto split: if_splits simp: fun_upd_idem)
  qed
qed

lemma enqueue_ready_inv:
  assumes inv: "fcfs_inv h st" and g: "wa_request_group st rid = None \<or> wa_request_group st rid = Some gid"
    and h: "t_group_id (h tk) = Some gid" "t_request_id (h tk) = rid"
    and a: "fc_active_request_by_group st gid = None \<or> fc_active_request_by_group st gid = Some rid"
  shows "fcfs_inv h (st\<lparr>wa_request_group := (wa_request_group st)(rid \<mapsto> gid),
           fc_active_request_by_group := (fc_active_request_by_group st)(gid \<mapsto> rid),
           fc_ready_queue := fc_ready_queue st @ [tk]\<rparr>)" (is "fcfs_inv h ?st")
proof -
  note I = fcfs_invD [OF inv]
  have nb: "fc_blocked_tasks_by_request st rid = None"
  proof (rule ccontr)
    assume "\<not> ?thesis"
    then obtain l where l: "fc_blocked_tasks_by_request st rid = Some l" by auto
    obtain k where "wa_request_group st rid = Some k" "fc_active_request_by_group st k \<noteq> None"
      using blocked_pending [OF inv l] by metis
    then show False using a g I(3) l by auto
  qed
  have w: "waits ?st = waits st" by (simp add: fun_eq_iff waits_def)
  have "active_ok ?st"
    unfolding active_ok_def using I(2,3) nb g by auto
  moreover have "pending_ok ?st"
    unfolding pending_ok_def
  proof (intro allI impI)
    fix k q assume "fc_pending_requests_by_group ?st k = Some q"
    then have q: "fc_pending_requests_by_group st k = Some q" by simp
    have "rid \<notin> set q" using I(7) [OF q, of rid] nb by auto
    then show "q \<noteq> [] \<and> distinct q \<and> fc_active_request_by_group ?st k \<noteq> None
        \<and> (\<forall>r \<in> set q. fc_blocked_tasks_by_request ?st r \<noteq> None \<and> wa_request_group ?st r = Some k)"
      using I(4-6) [OF q] I(7,8) [OF q] by auto
  qed
  moreover have "blocked_ok h ?st"
    unfolding blocked_ok_def w
  proof (intro allI impI)
    fix r l assume "fc_blocked_tasks_by_request ?st r = Some l"
    then have l: "fc_blocked_tasks_by_request st r = Some l" by simp
    then have "r \<noteq> rid" using nb by auto
    then show "l \<noteq> [] \<and> waits st r \<and> (\<forall>t \<in> set l. t_request_id (h t) = r \<and> t_group_id (h t) = wa_request_group ?st r)"
      using I(9,10) [OF l] I(11,12) [OF l] by simp
  qed
  moreover have "may_run h ?st k" if "k \<in> set (fc_ready_queue ?st)" for k
  proof (cases "k = tk")
    case True
    then show ?thesis using h by (simp add: may_run_def)
  next
    case False
    then have "may_run h st k" using that I(1) by simp
    then obtain g where "t_group_id (h k) = Some g" "fc_active_request_by_group st g = Some (t_request_id (h k))"
      unfolding may_run_def by blast
    then show ?thesis using a unfolding may_run_def by (cases "g = gid") auto
  qed
  ultimately show ?thesis unfolding fcfs_inv_def by blast
qed

lemma enqueue_blocked_inv:
  assumes inv: "fcfs_inv h st" and g: "wa_request_group st rid = None \<or> wa_request_group st rid = Some gid"
    and h: "t_group_id (h tk) = Some gid" "t_request_id (h tk) = rid"
    and a: "fc_active_request_by_group st gid = Some a" "a \<noteq> rid"
  shows "fcfs_inv h (block_task gid rid tk (st\<lparr>wa_request_group := (wa_request_group st)(rid \<mapsto> gid)\<rparr>))" (is "fcfs_inv h ?st")
proof -
  note I = fcfs_invD [OF inv]
  define q where "q = (case fc_pending_requests_by_group st gid of None \<Rightarrow> [] | Some q \<Rightarrow> q)"
  define l where "l = (case fc_blocked_tasks_by_request st rid of None \<Rightarrow> [] | Some l \<Rightarrow> l)"
  have f: "fc_pending_requests_by_group ?st = (fc_pending_requests_by_group st)(gid \<mapsto> if rid \<in> set q then q else q @ [rid])"
      "fc_blocked_tasks_by_request ?st = (fc_blocked_tasks_by_request st)(rid \<mapsto> l @ [tk])"
      "wa_request_group ?st = (wa_request_group st)(rid \<mapsto> gid)"
      "fc_active_request_by_group ?st = fc_active_request_by_group st" "fc_ready_queue ?st = fc_ready_queue st"
    by (cases "fc_pending_requests_by_group st gid"; cases "fc_blocked_tasks_by_request st rid";
        simp add: block_task_def Let_def q_def l_def)+
  have q: "distinct q" "\<And>r. r \<in> set q \<Longrightarrow> fc_blocked_tasks_by_request st r \<noteq> None"
      "\<And>r. r \<in> set q \<Longrightarrow> wa_request_group st r = Some gid"
    using I(5,7,8) [of gid] by (cases "fc_pending_requests_by_group st gid"; simp add: q_def)+
  have "active_ok ?st" unfolding active_ok_def f using I(2,3) a g by auto
  moreover have "pending_ok ?st"
    unfolding pending_ok_def f
  proof (intro allI impI)
    fix k p assume p: "((fc_pending_requests_by_group st)(gid \<mapsto> if rid \<in> set q then q else q @ [rid])) k = Some p"
    show "p \<noteq> [] \<and> distinct p \<and> fc_active_request_by_group st k \<noteq> None
        \<and> (\<forall>r \<in> set p. ((fc_blocked_tasks_by_request st)(rid \<mapsto> l @ [tk])) r \<noteq> None
             \<and> ((wa_request_group st)(rid \<mapsto> gid)) r = Some k)"
    proof (cases "k = gid")
      case True
      then have "p = (if rid \<in> set q then q else q @ [rid])" using p by simp
      then show ?thesis using q a True by (auto split: if_splits)
    next
      case False
      then have pk: "fc_pending_requests_by_group st k = Some p" using p by simp
      have "rid \<notin> set p" using I(8) [OF pk, of rid] g False by auto
      then show ?thesis using I(4-6) [OF pk] I(7,8) [OF pk] by auto
    qed
  qed
  moreover have "blocked_ok h ?st"
    unfolding blocked_ok_def
  proof (intro allI impI)
    fix r m assume m: "fc_blocked_tasks_by_request ?st r = Some m"
    show "m \<noteq> [] \<and> waits ?st r \<and> (\<forall>t \<in> set m. t_request_id (h t) = r \<and> t_group_id (h t) = wa_request_group ?st r)"
    proof (cases "r = rid")
      case True
      have "waits ?st rid" unfolding waits_def f by (intro exI [of _ gid]) auto
      moreover have "t_request_id (h t) = rid \<and> t_group_id (h t) = Some gid" if tl: "t \<in> set l" for t
      proof -
        obtain l' where l': "fc_blocked_tasks_by_request st rid = Some l'" "t \<in> set l'"
          using tl by (cases "fc_blocked_tasks_by_request st rid") (auto simp: l_def)
        obtain k where "wa_request_group st rid = Some k" using blocked_pending [OF inv l'(1)] by metis
        then show ?thesis using I(11,12) [OF l'] g by auto
      qed
      ultimately show ?thesis using True m h unfolding f by auto
    next
      case False
      then have m': "fc_blocked_tasks_by_request st r = Some m" using m by (simp add: f)
      have "waits st r" by (rule I(10) [OF m'])
      then obtain k p where "fc_pending_requests_by_group st k = Some p" "r \<in> set p" unfolding waits_def by blast
      then have "waits ?st r" unfolding waits_def f by (intro exI [of _ k]) (auto simp: q_def)
      then show ?thesis using I(9) [OF m'] I(11,12) [OF m'] False by (simp add: f)
    qed
  qed
  moreover have "may_run h ?st k" if "k \<in> set (fc_ready_queue ?st)" for k
    using I(1) that unfolding may_run_def f by simp
  ultimately show ?thesis unfolding fcfs_inv_def by blast
qed

lemma fcfs_enqueue_inv:
  assumes inv: "fcfs_inv h st" and e: "fcfs_enqueue (h, st) tk = Inr (h', st')"
  shows "fcfs_inv h' st'" "heap_keeps h h'"
proof -
  obtain gid where g: "wa_request_group st (t_request_id (h tk)) = None \<or> wa_request_group st (t_request_id (h tk)) = Some gid"
    and k: "heap_keeps h h'" and t: "t_group_id (h' tk) = Some gid" and f:
    "fc_active_request_by_group st gid = None \<and>
       st' = st\<lparr>wa_request_group := (wa_request_group st)(t_request_id (h tk) \<mapsto> gid),
           fc_active_request_by_group := (fc_active_request_by_group st)(gid \<mapsto> t_request_id (h tk)),
           fc_ready_queue := fc_ready_queue st @ [tk]\<rparr>
     \<or> fc_active_request_by_group st gid = Some (t_request_id (h tk)) \<and>
       st' = st\<lparr>wa_request_group := (wa_request_group st)(t_request_id (h tk) \<mapsto> gid), fc_ready_queue := fc_ready_queue st @ [tk]\<rparr>
     \<or> (\<exists>a. fc_active_request_by_group st gid = Some a \<and> a \<noteq> t_request_id (h tk)) \<and>
       st' = block_task gid (t_request_id (h tk)) tk (st\<lparr>wa_request_group := (wa_request_group st)(t_request_id (h tk) \<mapsto> gid)\<rparr>)"
    by (rule enqueue_forms [OF e])
  show "heap_keeps h h'" by (rule k)
  note i = heap_keeps_inv [OF k inv]
  note r = enqueue_ready_inv [OF i g t heap_keepsD(1) [OF k]] and b = enqueue_blocked_inv [OF i g t heap_keepsD(1) [OF k]]
  show "fcfs_inv h' st'"
    using f
  proof (elim disjE exE conjE)
    assume a: "fc_active_request_by_group st gid = Some (t_request_id (h tk))"
      "st' = st\<lparr>wa_request_group := (wa_request_group st)(t_request_id (h tk) \<mapsto> gid), fc_ready_queue := fc_ready_queue st @ [tk]\<rparr>"
    then have "(fc_active_request_by_group st)(gid \<mapsto> t_request_id (h tk)) = fc_active_request_by_group st" by (simp add: fun_upd_idem)
    then show ?thesis using r a by simp
  qed (use r b in auto)
qed

lemma enqueue_account_inv:
  assumes acc: "account_inv st" and e: "fcfs_enqueue (h, st) tk = Inr (h', st')"
  shows "account_inv st'" "wa_topology st' = wa_topology st" "wa_request_task_ids st' = wa_request_task_ids st"
proof -
  let ?rid = "t_request_id (h tk)"
  obtain gid where g: "wa_request_group st ?rid = None \<or> wa_request_group st ?rid = Some gid"
    and f: "wa_request_group st' = (wa_request_group st)(?rid \<mapsto> gid)" "wa_group_backlog_work st' = wa_group_backlog_work st"
      "wa_request_remaining_work st' = wa_request_remaining_work st" "wa_task_work st' = wa_task_work st"
      "wa_request_task_ids st' = wa_request_task_ids st" "wa_topology st' = wa_topology st"
    by (rule enqueue_forms [OF e]) (auto simp: block_task_def Let_def)
  have "account_inv (st\<lparr>wa_request_group := (wa_request_group st)(?rid \<mapsto> gid)\<rparr>)"
  proof (cases "wa_request_task_ids st ?rid")
    case None
    then show ?thesis by (rule bind_account_inv [OF acc])
  next
    case (Some ids)
    then have "wa_request_group st ?rid = Some gid" using g account_invD(7) [OF acc] by auto
    then show ?thesis using acc by (simp add: fun_upd_idem)
  qed
  then show "account_inv st'" by (rule account_inv_cong) (simp_all add: f)
  show "wa_topology st' = wa_topology st" "wa_request_task_ids st' = wa_request_task_ids st" by (rule f)+
qed

lemma fcfs_runnable_inv:
  assumes inv: "fcfs_inv h st" "account_inv st" and r: "fcfs_runnable tks (h, st) = Inr ((h', st'), out)"
  shows "fcfs_inv h' st'" "account_inv st'" "fc_ready_queue st' = []" "tk \<in> set out \<Longrightarrow> may_run h' st' tk" "heap_keeps h h'"
proof -
  obtain h1 st1 where e: "for_res fcfs_enqueue (h, st) tks = Inr (h1, st1)" and t: "fcfs_take (h1, st1) = Inr ((h', st'), out)"
    using r by (auto simp: fcfs_runnable_def bind_res_eq_Inr)
  have 1: "fcfs_inv h1 st1 \<and> account_inv st1 \<and> heap_keeps h h1"
    using e inv
  proof (induction tks arbitrary: h st)
    case Nil
    then show ?case by (simp add: heap_keeps_def)
  next
    case (Cons x xs)
    from Cons.prems(1) obtain ha sa where a: "fcfs_enqueue (h, st) x = Inr (ha, sa)" "for_res fcfs_enqueue (ha, sa) xs = Inr (h1, st1)"
      by (auto elim: bind_res_InrE)
    note E = fcfs_enqueue_inv [OF Cons.prems(2) a(1)] enqueue_account_inv(1) [OF Cons.prems(3) a(1)]
    from Cons.IH [OF a(2) E(1,3)] show ?case using E(2) by (auto simp: heap_keeps_def)
  qed
  then obtain h2 where 2: "fcfs_take (h1, st1) = Inr ((h2, st1\<lparr>fc_ready_queue := []\<rparr>), fc_ready_queue st1)"
    "fcfs_inv h2 (st1\<lparr>fc_ready_queue := []\<rparr>)" "heap_keeps h1 h2"
    "\<And>tk. tk \<in> set (fc_ready_queue st1) \<Longrightarrow> may_run h2 (st1\<lparr>fc_ready_queue := []\<rparr>) tk"
    using fcfs_take_inv [of h1 st1] by metis
  have eq: "h' = h2" "st' = st1\<lparr>fc_ready_queue := []\<rparr>" "out = fc_ready_queue st1" using t 2(1) by auto
  show "fcfs_inv h' st'" "fc_ready_queue st' = []" using 2(2) by (simp_all add: eq)
  show "account_inv st'" by (rule account_inv_cong [of st1]) (use 1 in \<open>simp_all add: eq\<close>)
  show "may_run h' st' tk" if "tk \<in> set out" using 2(4) that by (simp add: eq)
  show "heap_keeps h h'" using 1 2(3) by (auto simp: heap_keeps_def eq)
qed

lemma assign_groups_keep:
  assumes "for_res (assign_group gid) h tks = Inr h'"
  shows "t_request_id (h' tk) = t_request_id (h tk) \<and> (t_group_id (h tk) \<noteq> None \<longrightarrow> t_group_id (h' tk) = t_group_id (h tk))"
  using assms
proof (induction tks arbitrary: h)
  case (Cons x xs)
  from Cons.prems obtain h1 where h1: "assign_group gid h x = Inr h1" "for_res (assign_group gid) h1 xs = Inr h'"
    by (auto elim: bind_res_InrE)
  have "t_request_id (h1 tk) = t_request_id (h tk) \<and> (t_group_id (h tk) \<noteq> None \<longrightarrow> t_group_id (h1 tk) = t_group_id (h tk))"
    using h1(1) by (auto simp: assign_group_def split: option.splits if_splits)
  then show ?case using Cons.IH [OF h1(2)] by auto
qed simp

text \<open>Binding a request that is unknown to the queues.\<close>

lemma bind_fcfs_inv:
  assumes inv: "fcfs_inv h st" and new: "wa_request_group st rid = None"
    and f: "fc_ready_queue st' = fc_ready_queue st" "fc_active_request_by_group st' = fc_active_request_by_group st"
      "fc_pending_requests_by_group st' = fc_pending_requests_by_group st"
      "fc_blocked_tasks_by_request st' = fc_blocked_tasks_by_request st" "wa_request_group st' = (wa_request_group st)(rid \<mapsto> gid)"
  shows "fcfs_inv h st'"
proof -
  note I = fcfs_invD [OF inv]
  have w: "waits st' = waits st" by (simp add: fun_eq_iff waits_def f)
  have b: "fc_blocked_tasks_by_request st rid = None"
    by (rule unbound_not_blocked [OF inv new])
  have "active_ok st'" unfolding active_ok_def f using I(2,3) new by auto
  moreover have "pending_ok st'"
    unfolding pending_ok_def f
  proof (intro allI impI)
    fix k q assume q: "fc_pending_requests_by_group st k = Some q"
    have "rid \<notin> set q" using I(8) [OF q, of rid] new by auto
    then show "q \<noteq> [] \<and> distinct q \<and> fc_active_request_by_group st k \<noteq> None
        \<and> (\<forall>r \<in> set q. fc_blocked_tasks_by_request st r \<noteq> None \<and> ((wa_request_group st)(rid \<mapsto> gid)) r = Some k)"
      using I(4-6) [OF q] I(7,8) [OF q] by auto
  qed
  moreover have "blocked_ok h st'"
    unfolding blocked_ok_def w f
  proof (intro allI impI)
    fix r l assume l: "fc_blocked_tasks_by_request st r = Some l"
    then have "r \<noteq> rid" using b by auto
    then show "l \<noteq> [] \<and> waits st r
        \<and> (\<forall>t \<in> set l. t_request_id (h t) = r \<and> t_group_id (h t) = ((wa_request_group st)(rid \<mapsto> gid)) r)"
      using I(9,10) [OF l] I(11,12) [OF l] by simp
  qed
  moreover have "may_run h st' k" if "k \<in> set (fc_ready_queue st')" for k
    using I(1) that unfolding may_run_def f by simp
  ultimately show ?thesis unfolding fcfs_inv_def by blast
qed

lemma fcfs_submit_inv:
  assumes inv: "fcfs_inv h st" "account_inv st" and new: "plan_new h st p" "wa_request_group st (p_request_id p) = None"
    and s: "fcfs_submit est p (h, st) = Inr ((h', st'), out)"
  shows "fcfs_inv h' st'" "account_inv st'" "fc_ready_queue st' = []" "tk \<in> set out \<Longrightarrow> may_run h' st' tk" "heap_keeps h h'"
proof -
  let ?rid = "p_request_id p"
  obtain h1 st1 gid st2 where b: "bind_request_group est p (h, st) = Inr ((h1, st1), gid)"
    and e: "enter_plan est p (\<lambda>_. bind_res (get_group (wa_topology st1) gid) (\<lambda>g. Inr (g_parallel g))) gid h1 st1 = Inr st2"
    and r: "fcfs_runnable (root_tasks p) (h1, st2) = Inr ((h', st'), out)"
    using s unfolding fcfs_submit_def by (auto simp: bind_res_eq_Inr)
  have acc: "account_inv st2" by (rule bind_enter_account_inv [OF inv(2) new(1) b e])
  have st1: "st1 = st\<lparr>wa_request_group := (wa_request_group st)(?rid \<mapsto> gid)\<rparr>"
    and h1: "for_res (assign_group gid) h (map (\<lambda>(k, t). t_id t) (p_tasks p)) = Inr h1"
    using b by (auto simp: bind_request_group_def bind_res_eq_Inr)
  have keep: "heap_keeps h h1"
  proof -
    have "t_request_id (h1 tk) = t_request_id (h tk) \<and> (t_group_id (h tk) \<noteq> None \<longrightarrow> t_group_id (h1 tk) = t_group_id (h tk))" for tk
      using assign_groups_keep [OF h1] by blast
    then show ?thesis by (simp add: heap_keeps_def)
  qed
  note i1 = heap_keeps_inv [OF keep inv(1)]
  have f: "fc_ready_queue st2 = fc_ready_queue st" "fc_active_request_by_group st2 = fc_active_request_by_group st"
      "fc_pending_requests_by_group st2 = fc_pending_requests_by_group st"
      "fc_blocked_tasks_by_request st2 = fc_blocked_tasks_by_request st" "wa_request_group st2 = (wa_request_group st)(?rid \<mapsto> gid)"
    using e by (auto simp: enter_plan_def bind_res_eq_Inr st1)
  have "fcfs_inv h1 st2" by (rule bind_fcfs_inv [OF i1 new(2) f])
  from fcfs_runnable_inv [OF this acc r] show "fcfs_inv h' st'" "account_inv st'" "fc_ready_queue st' = []"
    "tk \<in> set out \<Longrightarrow> may_run h' st' tk" "heap_keeps h h'"
    using keep by (auto simp: heap_keeps_def)
qed

subsection \<open>The active request ends\<close>

lemma cleanup_fields:
  "wa_request_group (fcfs_cleanup rid g st) = (wa_request_group st)(rid := None)"
  "fc_blocked_tasks_by_request (fcfs_cleanup rid g st) = (fc_blocked_tasks_by_request st)(rid := None)"
  "fc_ready_queue (fcfs_cleanup rid g st) = fc_ready_queue st"
  "fc_active_request_by_group (fcfs_cleanup rid g st) = fc_active_request_by_group st"
  "fc_pending_requests_by_group (fcfs_cleanup rid g st) = fc_pending_requests_by_group st"
  by (simp_all add: fcfs_cleanup_def cleanup_request_work_def Let_def split: option.split)

lemma finish_last:
  assumes inv: "fcfs_inv h st" "fc_ready_queue st = []" and act: "fc_active_request_by_group st gid = Some rid"
    and p: "fc_pending_requests_by_group st gid = None"
    and fin: "finish_request rid (Some gid) (h, st) = (h', st')"
  shows "fcfs_inv h' st'" "heap_keeps h h'" "fc_ready_queue st' = []"
    "fc_active_request_by_group st' = (fc_active_request_by_group st)(gid := None)"
    "fc_pending_requests_by_group st' = fc_pending_requests_by_group st"
proof -
  note I = fcfs_invD [OF inv(1)]
  have e: "h' = h" "st' = fcfs_cleanup rid (Some gid) (st\<lparr>fc_active_request_by_group := (fc_active_request_by_group st)(gid := None)\<rparr>)"
    using fin act p by (simp_all add: finish_request_def Let_def)
  have f: "wa_request_group st' = (wa_request_group st)(rid := None)"
      "fc_blocked_tasks_by_request st' = (fc_blocked_tasks_by_request st)(rid := None)" "fc_ready_queue st' = []"
      "fc_active_request_by_group st' = (fc_active_request_by_group st)(gid := None)"
      "fc_pending_requests_by_group st' = fc_pending_requests_by_group st"
    unfolding e(2) cleanup_fields using inv(2) by simp_all
  show "heap_keeps h h'" by (simp add: e heap_keeps_def)
  show "fc_ready_queue st' = []" "fc_active_request_by_group st' = (fc_active_request_by_group st)(gid := None)"
    "fc_pending_requests_by_group st' = fc_pending_requests_by_group st" by (fact f)+
  have grp: "wa_request_group st rid = Some gid" by (rule I(2) [OF act])
  have w: "waits st' = waits st" by (simp add: fun_eq_iff waits_def f)
  have nb: "fc_blocked_tasks_by_request st' = fc_blocked_tasks_by_request st" using I(3) [OF act] by (simp add: f fun_upd_idem)
  have "active_ok st'"
    unfolding active_ok_def nb
  proof (intro allI impI)
    fix k r assume "fc_active_request_by_group st' k = Some r"
    then have k: "k \<noteq> gid" "fc_active_request_by_group st k = Some r" by (auto simp: f split: if_splits)
    then have "r \<noteq> rid" using I(2) [OF k(2)] grp by auto
    then show "wa_request_group st' r = Some k \<and> fc_blocked_tasks_by_request st r = None" using I(2,3) [OF k(2)] by (simp add: f)
  qed
  moreover have "pending_ok st'"
    unfolding pending_ok_def nb
  proof (intro allI impI)
    fix k q assume "fc_pending_requests_by_group st' k = Some q"
    then have q: "fc_pending_requests_by_group st k = Some q" by (simp add: f)
    have k: "k \<noteq> gid" using q p by auto
    then have "rid \<notin> set q" using I(8) [OF q, of rid] grp by auto
    then show "q \<noteq> [] \<and> distinct q \<and> fc_active_request_by_group st' k \<noteq> None
        \<and> (\<forall>r \<in> set q. fc_blocked_tasks_by_request st r \<noteq> None \<and> wa_request_group st' r = Some k)"
      using I(4-6) [OF q] I(7,8) [OF q] k by (auto simp: f)
  qed
  moreover have "blocked_ok h st'"
    unfolding blocked_ok_def nb w
  proof (intro allI impI)
    fix r l assume l: "fc_blocked_tasks_by_request st r = Some l"
    then have "r \<noteq> rid" using I(3) [OF act] by auto
    then show "l \<noteq> [] \<and> waits st r \<and> (\<forall>t \<in> set l. t_request_id (h t) = r \<and> t_group_id (h t) = wa_request_group st' r)"
      using I(9,10) [OF l] I(11,12) [OF l] by (simp add: f)
  qed
  ultimately show "fcfs_inv h' st'" unfolding fcfs_inv_def e(1) by (simp add: f(3))
qed

lemma finish_next:
  assumes inv: "fcfs_inv h st" "fc_ready_queue st = []" and act: "fc_active_request_by_group st gid = Some rid"
    and p: "fc_pending_requests_by_group st gid = Some (r0 # rs)"
    and fin: "finish_request rid (Some gid) (h, st) = (h', st')"
  shows "fcfs_inv h' st'" "heap_keeps h h'" "fc_blocked_tasks_by_request st r0 = Some (fc_ready_queue st')"
    "fc_active_request_by_group st' = (fc_active_request_by_group st)(gid \<mapsto> r0)"
    "fc_pending_requests_by_group st' = (fc_pending_requests_by_group st)(gid := if rs = [] then None else Some rs)"
proof -
  note I = fcfs_invD [OF inv(1)]
  obtain l where l: "fc_blocked_tasks_by_request st r0 = Some l" using I(7) [OF p, of r0] by auto
  have ln: "l \<noteq> []" by (rule I(9) [OF l])
  have e: "h' = set_status READY l h" "st' = fcfs_cleanup rid (Some gid)
      (st\<lparr>fc_blocked_tasks_by_request := (fc_blocked_tasks_by_request st)(r0 := None),
         fc_active_request_by_group := (fc_active_request_by_group st)(gid \<mapsto> r0), fc_ready_queue := l,
         fc_pending_requests_by_group := (fc_pending_requests_by_group st)(gid := if rs = [] then None else Some rs)\<rparr>)"
    using fin act p l ln inv(2) by (auto simp: finish_request_def Let_def)
  have ne: "r0 \<noteq> rid" using I(3) [OF act] l by auto
  have f: "wa_request_group st' = (wa_request_group st)(rid := None)"
      "fc_blocked_tasks_by_request st' = (fc_blocked_tasks_by_request st)(r0 := None)" "fc_ready_queue st' = l"
      "fc_active_request_by_group st' = (fc_active_request_by_group st)(gid \<mapsto> r0)"
      "fc_pending_requests_by_group st' = (fc_pending_requests_by_group st)(gid := if rs = [] then None else Some rs)"
    unfolding e(2) cleanup_fields using I(3) [OF act] ne by (simp_all add: fun_eq_iff)
  show k: "heap_keeps h h'" unfolding e by (rule set_status_keeps)
  show "fc_blocked_tasks_by_request st r0 = Some (fc_ready_queue st')" "fc_active_request_by_group st' = (fc_active_request_by_group st)(gid \<mapsto> r0)"
    "fc_pending_requests_by_group st' = (fc_pending_requests_by_group st)(gid := if rs = [] then None else Some rs)"
    by (simp_all add: f l)
  have grp: "wa_request_group st rid = Some gid" by (rule I(2) [OF act])
  have grp0: "wa_request_group st r0 = Some gid" by (rule I(8) [OF p]) simp
  have "active_ok st'"
    unfolding active_ok_def
  proof (intro allI impI)
    fix k r assume a: "fc_active_request_by_group st' k = Some r"
    show "wa_request_group st' r = Some k \<and> fc_blocked_tasks_by_request st' r = None"
    proof (cases "k = gid")
      case True
      then show ?thesis using a grp0 ne by (simp add: f)
    next
      case False
      then have k: "fc_active_request_by_group st k = Some r" using a by (simp add: f)
      then have "r \<noteq> rid" using I(2) [OF k] grp False by auto
      then show ?thesis using I(2,3) [OF k] by (simp add: f)
    qed
  qed
  moreover have "pending_ok st'"
    unfolding pending_ok_def
  proof (intro allI impI)
    fix k q assume a: "fc_pending_requests_by_group st' k = Some q"
    show "q \<noteq> [] \<and> distinct q \<and> fc_active_request_by_group st' k \<noteq> None
        \<and> (\<forall>r \<in> set q. fc_blocked_tasks_by_request st' r \<noteq> None \<and> wa_request_group st' r = Some k)"
    proof (cases "k = gid")
      case True
      then have q: "q = rs" "q \<noteq> []" using a by (auto simp: f split: if_splits)
      have "r0 \<notin> set rs" "distinct rs" using I(5) [OF p] by auto
      moreover have "rid \<notin> set rs" using I(7) [OF p, of rid] I(3) [OF act] by auto
      ultimately show ?thesis using q True I(7,8) [OF p] by (auto simp: f)
    next
      case False
      then have q: "fc_pending_requests_by_group st k = Some q" using a by (simp add: f)
      have "rid \<notin> set q" "r0 \<notin> set q" using I(8) [OF q, of rid] I(8) [OF q, of r0] grp grp0 False by auto
      then show ?thesis using I(4-6) [OF q] I(7,8) [OF q] False by (auto simp: f)
    qed
  qed
  moreover have "blocked_ok h st'"
    unfolding blocked_ok_def
  proof (intro allI impI)
    fix r m assume "fc_blocked_tasks_by_request st' r = Some m"
    then have m: "r \<noteq> r0" "fc_blocked_tasks_by_request st r = Some m" by (auto simp: f split: if_splits)
    then have nr: "r \<noteq> rid" using I(3) [OF act] by auto
    obtain k q where kq: "fc_pending_requests_by_group st k = Some q" "r \<in> set q" using I(10) [OF m(2)] unfolding waits_def by blast
    have "waits st' r" unfolding waits_def
    proof (cases "k = gid")
      case True
      then have "r \<in> set rs" using kq p m(1) by auto
      then show "\<exists>gid q. fc_pending_requests_by_group st' gid = Some q \<and> r \<in> set q" by (intro exI [of _ gid] exI [of _ rs]) (auto simp: f)
    next
      case False
      then show "\<exists>gid q. fc_pending_requests_by_group st' gid = Some q \<and> r \<in> set q" using kq by (intro exI [of _ k] exI [of _ q]) (simp add: f)
    qed
    then show "m \<noteq> [] \<and> waits st' r \<and> (\<forall>t \<in> set m. t_request_id (h t) = r \<and> t_group_id (h t) = wa_request_group st' r)"
      using I(9) [OF m(2)] I(11,12) [OF m(2)] nr by (simp add: f)
  qed
  moreover have "may_run h st' t" if "t \<in> set (fc_ready_queue st')" for t
    using I(11,12) [OF l, of t] that grp0 unfolding may_run_def f by simp
  ultimately have "fcfs_inv h st'" unfolding fcfs_inv_def by blast
  then show "fcfs_inv h' st'" by (rule heap_keeps_inv [OF k])
qed

subsection \<open>Events\<close>

text \<open>The end of a request is reported while the request is active on its group.\<close>

definition ends_active :: "fcfs \<Rightarrow> worker_event \<Rightarrow> bool" where
  "ends_active st ev \<longleftrightarrow>
     (e_kind ev \<in> {REQUEST_FINISHED, REQUEST_FAILED} \<longrightarrow>
        (\<exists>gid. or_group (Some (e_group_id ev)) (wa_request_group st (e_request_id ev)) = Some gid
             \<and> fc_active_request_by_group st gid = Some (e_request_id ev)))"

lemma fcfs_charge_frame:
  fixes st :: fcfs
  shows "wa_request_group (charge_completed_task rid tk st) = wa_request_group st"
    "fc_ready_queue (charge_completed_task rid tk st) = fc_ready_queue st"
    "fc_active_request_by_group (charge_completed_task rid tk st) = fc_active_request_by_group st"
    "fc_pending_requests_by_group (charge_completed_task rid tk st) = fc_pending_requests_by_group st"
    "fc_blocked_tasks_by_request (charge_completed_task rid tk st) = fc_blocked_tasks_by_request st"
  by (simp_all add: charge_completed_task_def Let_def split: option.split)

lemma charge_fcfs_inv: "fcfs_inv h st \<Longrightarrow> fcfs_inv h (charge_completed_task rid tk st)"
  unfolding fcfs_inv_def active_ok_def pending_ok_def blocked_ok_def waits_def may_run_def
  by (simp only: fcfs_charge_frame)

lemma finish_inv:
  assumes inv: "fcfs_inv h st" "fc_ready_queue st = []" and act: "fc_active_request_by_group st gid = Some rid"
    and fin: "finish_request rid (Some gid) (h, st) = (h', st')"
  shows "fcfs_inv h' st'" "heap_keeps h h'"
proof -
  have "fcfs_inv h' st' \<and> heap_keeps h h'"
  proof (cases "fc_pending_requests_by_group st gid")
    case None
    then show ?thesis using finish_last [OF assms(1-3) _ fin] by blast
  next
    case (Some q)
    then obtain r rs where "q = r # rs" using fcfs_invD(4) [OF inv(1) Some] by (cases q) auto
    then show ?thesis using finish_next [OF assms(1-3) _ fin] Some by blast
  qed
  then show "fcfs_inv h' st'" "heap_keeps h h'" by blast+
qed

lemma admit_account:
  assumes "admit_next gid q (h, st) = (q', h', st')"
  shows "wa_request_group st' = wa_request_group st" "wa_group_backlog_work st' = wa_group_backlog_work st"
    "wa_request_remaining_work st' = wa_request_remaining_work st" "wa_task_work st' = wa_task_work st"
    "wa_request_task_ids st' = wa_request_task_ids st"
  using assms by (induction gid q "(h, st)" arbitrary: h st rule: admit_next.induct) (auto simp: Let_def split: if_splits)

lemma fcfs_cleanup_account:
  assumes "account_inv st"
    "g = None \<or> g = Some [] \<or> wa_request_group st rid = None \<or> g = wa_request_group st rid"
  shows "account_inv (fcfs_cleanup rid g st)"
  by (rule account_inv_cong [OF cleanup_account_inv [OF assms]]) (simp_all add: fcfs_cleanup_def Let_def)

lemma finish_account_inv:
  assumes acc: "account_inv st" and g: "wa_request_group st rid = Some gid"
    and fin: "finish_request rid (Some gid) (h, st) = (h', st')"
  shows "account_inv st'"
proof -
  define st1 where "st1 = (if fc_active_request_by_group st gid = Some rid
      then st\<lparr>fc_active_request_by_group := (fc_active_request_by_group st)(gid := None)\<rparr> else st)"
  have 1: "account_inv st1" "wa_request_group st1 rid = Some gid"
    using acc g by (auto simp: st1_def intro: account_inv_cong)
  have c: "account_inv (fcfs_cleanup rid (Some gid) st2)" if "account_inv st2" "wa_request_group st2 rid = Some gid" for st2
    by (rule fcfs_cleanup_account) (use that in auto)
  show ?thesis
  proof (cases "fc_pending_requests_by_group st1 gid = None \<or> fc_pending_requests_by_group st1 gid = Some []")
    case True
    then have "st' = fcfs_cleanup rid (Some gid) st1"
      using fin unfolding finish_request_def prod.case option.case Let_def st1_def [symmetric] by auto
    then show ?thesis using c [OF 1] by simp
  next
    case False
    then obtain r rs where p: "fc_pending_requests_by_group st1 gid = Some (r # rs)"
      by (metis list.exhaust option.exhaust)
    obtain q h2 st2 where a: "admit_next gid (r # rs) (h, st1) = (q, h2, st2)" by (metis prod_cases3)
    have st': "st' = fcfs_cleanup rid (Some gid) (st2\<lparr>fc_pending_requests_by_group := (fc_pending_requests_by_group st2)
        (gid := if q = [] then None else Some q)\<rparr>)"
      using fin unfolding finish_request_def prod.case option.case Let_def st1_def [symmetric] p list.case a by simp
    have "account_inv st2" by (rule account_inv_cong [OF 1(1) admit_account [OF a]])
    then have "account_inv (st2\<lparr>fc_pending_requests_by_group := (fc_pending_requests_by_group st2)
        (gid := if q = [] then None else Some q)\<rparr>)" by (rule account_inv_cong) simp_all
    then show ?thesis unfolding st' using 1(2) admit_account(1) [OF a] by (intro c) simp_all
  qed
qed

lemma fcfs_event_inv:
  assumes inv: "fcfs_inv h st" "account_inv st" "fc_ready_queue st = []" and fits: "event_fits st ev" "ends_active st ev"
  obtains h' st' out where "fcfs_event ev (h, st) = Inr ((h', st'), out)" "fcfs_inv h' st'" "account_inv st'"
    "fc_ready_queue st' = []" "\<And>tk. tk \<in> set out \<Longrightarrow> may_run h' st' tk" "heap_keeps h h'"
proof -
  let ?rid = "e_request_id ev"
  define st1 where "st1 = (if e_kind ev \<in> {TASK_LAUNCH_END, TASK_EXEC_END} then charge_completed_task ?rid (e_task_id ev) st else st)"
  have 1: "fcfs_inv h st1" "account_inv st1" "fc_ready_queue st1 = []" "wa_request_group st1 = wa_request_group st"
      "fc_active_request_by_group st1 = fc_active_request_by_group st"
    using inv fits(1) charge_fcfs_inv [OF inv(1)] charge_account_inv [OF inv(2)]
    by (auto simp: st1_def fcfs_charge_frame event_fits_def)
  define s2 where "s2 = (if e_kind ev \<in> {REQUEST_FINISHED, REQUEST_FAILED}
      then finish_request ?rid (or_group (Some (e_group_id ev)) (wa_request_group st1 ?rid)) (h, st1) else (h, st1))"
  have "fcfs_inv (fst s2) (snd s2) \<and> account_inv (snd s2) \<and> heap_keeps h (fst s2)"
  proof (cases "e_kind ev \<in> {REQUEST_FINISHED, REQUEST_FAILED}")
    case True
    then obtain gid where g: "or_group (Some (e_group_id ev)) (wa_request_group st ?rid) = Some gid"
        "fc_active_request_by_group st gid = Some ?rid"
      using fits(2) by (auto simp: ends_active_def)
    have s2: "finish_request ?rid (Some gid) (h, st1) = (fst s2, snd s2)" using True g(1) by (simp add: s2_def 1(4))
    show ?thesis
      using finish_inv [OF 1(1,3) _ s2] finish_account_inv [OF 1(2) _ s2] g(2) fcfs_invD(2) [OF inv(1) g(2)] by (simp add: 1(4,5))
  next
    case False
    then show ?thesis using 1 by (simp add: s2_def heap_keeps_def)
  qed
  then have 2: "fcfs_inv (fst s2) (snd s2)" "account_inv (snd s2)" "heap_keeps h (fst s2)" by blast+
  obtain h' where t: "fcfs_take (fst s2, snd s2) = Inr ((h', (snd s2)\<lparr>fc_ready_queue := []\<rparr>), fc_ready_queue (snd s2))"
    "fcfs_inv h' ((snd s2)\<lparr>fc_ready_queue := []\<rparr>)" "heap_keeps (fst s2) h'"
    "\<And>tk. tk \<in> set (fc_ready_queue (snd s2)) \<Longrightarrow> may_run h' ((snd s2)\<lparr>fc_ready_queue := []\<rparr>) tk"
    using fcfs_take_inv [OF 2(1)] by metis
  show thesis
  proof (rule that)
    show "fcfs_event ev (h, st) = Inr ((h', (snd s2)\<lparr>fc_ready_queue := []\<rparr>), fc_ready_queue (snd s2))"
      using t(1) unfolding fcfs_event_def prod.case Let_def st1_def [symmetric] s2_def [symmetric] by simp
    show "account_inv ((snd s2)\<lparr>fc_ready_queue := []\<rparr>)" by (rule account_inv_cong [OF 2(2)]) simp_all
    show "heap_keeps h h'" using 2(3) t(3) by (auto simp: heap_keeps_def)
  qed (use t in auto)
qed

section \<open>Reachable states\<close>

inductive fcfs_reach :: "estimator \<Rightarrow> topology \<Rightarrow> heap \<times> fcfs \<Rightarrow> bool" for est T where
  start: "fcfs_reach est T (h, fcfs_init T)"
| tasks: "fcfs_reach est T (h, st) \<Longrightarrow> heap_keeps h h' \<Longrightarrow> fcfs_reach est T (h', st)"
| submit: "fcfs_reach est T (h, st) \<Longrightarrow> plan_new h st p \<Longrightarrow> wa_request_group st (p_request_id p) = None \<Longrightarrow>
     fcfs_submit est p (h, st) = Inr (s', out) \<Longrightarrow> fcfs_reach est T s'"
| runnable: "fcfs_reach est T (h, st) \<Longrightarrow> fcfs_runnable tks (h, st) = Inr (s', out) \<Longrightarrow> fcfs_reach est T s'"
| event: "fcfs_reach est T (h, st) \<Longrightarrow> event_fits st ev \<Longrightarrow> ends_active st ev \<Longrightarrow>
     fcfs_event ev (h, st) = Inr (s', out) \<Longrightarrow> fcfs_reach est T s'"

lemma fcfs_reach_inv:
  assumes "fcfs_reach est T s"
  shows "fcfs_inv (fst s) (snd s) \<and> account_inv (snd s) \<and> fc_ready_queue (snd s) = []"
  using assms
proof (induction rule: fcfs_reach.induct)
  case (start h)
  then show ?case using fcfs_init_inv by (simp add: fcfs_init_def work_account.defs)
next
  case (tasks h st h')
  then show ?case using heap_keeps_inv by simp
next
  case (submit h st p s' out)
  then show ?case using fcfs_submit_inv [of h st p est "fst s'" "snd s'" out] by simp
next
  case (runnable h st tks s' out)
  then show ?case using fcfs_runnable_inv [of h st tks "fst s'" "snd s'" out] by simp
next
  case (event h st ev s' out)
  then have i: "fcfs_inv h st" "account_inv st" "fc_ready_queue st = []" by simp_all
  show ?case by (rule fcfs_event_inv [OF i event(2,3)]) (use event(4) in auto)
qed

section \<open>Properties\<close>

text \<open>
  One active request per group. In every reachable state, provided ends of requests are
  reported while the request is active: an event is handled without an exception, and whatever an
  event or newly runnable tasks dispatch belongs to the request that is active on its group.
\<close>

theorem fcfs_serves_active_only:
  assumes "fcfs_reach est T (h, st)"
  shows "(event_fits st ev \<longrightarrow> ends_active st ev \<longrightarrow>
      (\<exists>h' st' out. fcfs_event ev (h, st) = Inr ((h', st'), out) \<and> (\<forall>tk \<in> set out. may_run h' st' tk)))
    \<and> (\<forall>h' st' out. fcfs_runnable tks (h, st) = Inr ((h', st'), out) \<longrightarrow> (\<forall>tk \<in> set out. may_run h' st' tk))"
proof -
  have i: "fcfs_inv h st" "account_inv st" "fc_ready_queue st = []" using fcfs_reach_inv [OF assms] by simp_all
  have "\<exists>h' st' out. fcfs_event ev (h, st) = Inr ((h', st'), out) \<and> (\<forall>tk \<in> set out. may_run h' st' tk)"
    if "event_fits st ev" "ends_active st ev"
    by (rule fcfs_event_inv [OF i that]) blast
  moreover have "may_run h' st' tk" if "fcfs_runnable tks (h, st) = Inr ((h', st'), out)" "tk \<in> set out" for h' st' out tk
    by (rule fcfs_runnable_inv(4) [OF i(1,2) that])
  ultimately show ?thesis by blast
qed

text \<open>
  First come, first served. When the active request of a group ends, the first pending request
  of the group becomes active and exactly its blocked tasks are dispatched, in their order; with no
  pending request the group becomes free and nothing is dispatched. Other groups keep their request.
\<close>

theorem fcfs_admits_in_order:
  assumes "fcfs_reach est T (h, st)" and k: "e_kind ev \<in> {REQUEST_FINISHED, REQUEST_FAILED}"
    and g: "or_group (Some (e_group_id ev)) (wa_request_group st (e_request_id ev)) = Some gid"
    and a: "fc_active_request_by_group st gid = Some (e_request_id ev)"
  shows "\<exists>h' st' out. fcfs_event ev (h, st) = Inr ((h', st'), out)
    \<and> (case fc_pending_requests_by_group st gid of
         None \<Rightarrow> fc_active_request_by_group st' = (fc_active_request_by_group st)(gid := None) \<and> out = []
       | Some q \<Rightarrow> fc_active_request_by_group st' = (fc_active_request_by_group st)(gid \<mapsto> hd q)
           \<and> fc_blocked_tasks_by_request st (hd q) = Some out \<and> out \<noteq> []
           \<and> fc_pending_requests_by_group st' = (fc_pending_requests_by_group st)(gid := if tl q = [] then None else Some (tl q)))"
proof -
  have i: "fcfs_inv h st" "fc_ready_queue st = []" using fcfs_reach_inv [OF assms(1)] by simp_all
  obtain h1 st1 where f: "finish_request (e_request_id ev) (Some gid) (h, st) = (h1, st1)" by (metis surj_pair)
  have e: "fcfs_event ev (h, st) = fcfs_take (h1, st1)"
    using k g f by (auto simp: fcfs_event_def Let_def)
  show ?thesis
  proof (cases "fc_pending_requests_by_group st gid")
    case None
    note F = finish_last [OF i a None f]
    show ?thesis using None F(3,4) unfolding e fcfs_take_def by simp
  next
    case (Some q)
    then obtain r rs where q: "q = r # rs" using fcfs_invD(4) [OF i(1) Some] by (cases q) auto
    note F = finish_next [OF i a Some [unfolded q] f]
    show ?thesis using Some q F(3-5) fcfs_invD(9) [OF i(1) F(3)] unfolding e fcfs_take_def by simp
  qed
qed

subsection \<open>A concrete run\<close>

text \<open>Two requests on group \<open>a\<close>: the first is active, the second waits.\<close>

definition ex_fcfs_heap :: heap where
  "ex_fcfs_heap tk = (ex_work_task (take 2 tk) tk)\<lparr>t_group_id := Some ''a''\<rparr>"

definition ex_end :: "string \<Rightarrow> worker_event" where
  "ex_end rid = ex_event\<lparr>e_task_id := [], e_request_id := rid, e_group_id := ''a'', e_kind := REQUEST_FAILED\<rparr>"

lemma ex_fcfs_runnable:
  "case fcfs_runnable [''r1a'', ''r2a''] (ex_fcfs_heap, fcfs_init ex_topology) of
     Inl _ \<Rightarrow> False
   | Inr ((h, st), out) \<Rightarrow> out = [''r1a''] \<and> fc_active_request_by_group st ''a'' = Some ''r1''
       \<and> fc_pending_requests_by_group st ''a'' = Some [''r2''] \<and> fc_blocked_tasks_by_request st ''r2'' = Some [''r2a'']"
  by code_simp

lemma ex_fcfs_reach:
  "\<exists>h st. fcfs_reach ex_work_est ex_topology (h, st) \<and> fc_active_request_by_group st ''a'' = Some ''r1''
     \<and> fc_pending_requests_by_group st ''a'' = Some [''r2''] \<and> fc_blocked_tasks_by_request st ''r2'' = Some [''r2a'']"
proof -
  obtain h st out where r: "fcfs_runnable [''r1a'', ''r2a''] (ex_fcfs_heap, fcfs_init ex_topology) = Inr ((h, st), out)"
    using ex_fcfs_runnable by (auto split: sum.splits)
  have "fcfs_reach ex_work_est ex_topology (h, st)" by (rule fcfs_reach.runnable [OF fcfs_reach.start r])
  then show ?thesis using ex_fcfs_runnable r by auto
qed

theorem fcfs_serves_active_only_witness:
  "\<exists>h' st' out. fcfs_runnable [''r1a'', ''r2a''] (ex_fcfs_heap, fcfs_init ex_topology) = Inr ((h', st'), out)
     \<and> out = [''r1a''] \<and> may_run h' st' ''r1a''"
proof -
  obtain h st out where r: "fcfs_runnable [''r1a'', ''r2a''] (ex_fcfs_heap, fcfs_init ex_topology) = Inr ((h, st), out)"
    using ex_fcfs_runnable by (auto split: sum.splits)
  have "out = [''r1a'']" using ex_fcfs_runnable r by auto
  then show ?thesis using r fcfs_serves_active_only [OF fcfs_reach.start] by fastforce
qed

theorem fcfs_admits_in_order_witness:
  "\<exists>h st h' st'. fcfs_reach ex_work_est ex_topology (h, st)
     \<and> fcfs_event (ex_end ''r1'') (h, st) = Inr ((h', st'), [''r2a'']) \<and> fc_active_request_by_group st' ''a'' = Some ''r2''"
proof -
  obtain h st where r: "fcfs_reach ex_work_est ex_topology (h, st)" "fc_active_request_by_group st ''a'' = Some ''r1''"
      "fc_pending_requests_by_group st ''a'' = Some [''r2'']" "fc_blocked_tasks_by_request st ''r2'' = Some [''r2a'']"
    using ex_fcfs_reach by blast
  have g: "or_group (Some (e_group_id (ex_end ''r1''))) (wa_request_group st (e_request_id (ex_end ''r1''))) = Some ''a''"
    "e_kind (ex_end ''r1'') \<in> {REQUEST_FINISHED, REQUEST_FAILED}" "e_request_id (ex_end ''r1'') = ''r1''"
    by (simp_all add: or_group_def ex_end_def)
  have "\<exists>h' st'. fcfs_event (ex_end ''r1'') (h, st) = Inr ((h', st'), [''r2a'']) \<and> fc_active_request_by_group st' ''a'' = Some ''r2''"
    using fcfs_admits_in_order [OF r(1) g(2,1)] r(2-4) g(3) by auto
  with r(1) show ?thesis by (elim exE conjE) (intro exI conjI)
qed

text \<open>
  C24: The end of a request that is not active on its group admits the next pending request beside
  the active one: the pending request becomes the active one of the group and its blocked tasks are
  dispatched, while the request that was active is not finished.
\<close>

theorem fcfs_end_of_waiting_request_admits:
  assumes k: "e_kind ev \<in> {REQUEST_FINISHED, REQUEST_FAILED}"
    and g: "or_group (Some (e_group_id ev)) (wa_request_group st (e_request_id ev)) = Some gid"
    and a: "fc_active_request_by_group st gid = Some a" "a \<noteq> e_request_id ev"
    and p: "fc_pending_requests_by_group st gid = Some (r # rs)" "fc_blocked_tasks_by_request st r = Some l" "l \<noteq> []"
    and q: "fc_ready_queue st = []"
  shows "\<exists>h' st'. fcfs_event ev (h, st) = Inr ((h', st'), l) \<and> fc_active_request_by_group st' gid = Some r"
proof -
  let ?st2 = "st\<lparr>fc_blocked_tasks_by_request := (fc_blocked_tasks_by_request st)(r := None),
     fc_active_request_by_group := (fc_active_request_by_group st)(gid \<mapsto> r), fc_ready_queue := l,
     fc_pending_requests_by_group := (fc_pending_requests_by_group st)(gid := if rs = [] then None else Some rs)\<rparr>"
  have "finish_request (e_request_id ev) (Some gid) (h, st)
      = (set_status READY l h, fcfs_cleanup (e_request_id ev) (Some gid) ?st2)"
    using a p q by (auto simp: finish_request_def Let_def)
  then have "fcfs_event ev (h, st) = fcfs_take (set_status READY l h, fcfs_cleanup (e_request_id ev) (Some gid) ?st2)"
    using k g by (auto simp: fcfs_event_def Let_def)
  then show ?thesis unfolding fcfs_take_def by (simp add: cleanup_fields)
qed

text \<open>Here the failed request itself takes over the group of the running one.\<close>

theorem fcfs_end_of_waiting_request_admits_witness:
  "\<exists>h st h' st'. fcfs_reach ex_work_est ex_topology (h, st) \<and> fc_active_request_by_group st ''a'' = Some ''r1''
     \<and> fcfs_event (ex_end ''r2'') (h, st) = Inr ((h', st'), [''r2a'']) \<and> fc_active_request_by_group st' ''a'' = Some ''r2''"
proof -
  obtain h st where r: "fcfs_reach ex_work_est ex_topology (h, st)" "fc_active_request_by_group st ''a'' = Some ''r1''"
      "fc_pending_requests_by_group st ''a'' = Some [''r2'']" "fc_blocked_tasks_by_request st ''r2'' = Some [''r2a'']"
    using ex_fcfs_reach by blast
  have "fc_ready_queue st = []" using fcfs_reach_inv [OF r(1)] by simp
  moreover have "or_group (Some (e_group_id (ex_end ''r2''))) (wa_request_group st (e_request_id (ex_end ''r2''))) = Some ''a''"
    "e_kind (ex_end ''r2'') \<in> {REQUEST_FINISHED, REQUEST_FAILED}" "''r1'' \<noteq> e_request_id (ex_end ''r2'')"
    by (simp_all add: or_group_def ex_end_def)
  ultimately have "\<exists>h' st'. fcfs_event (ex_end ''r2'') (h, st) = Inr ((h', st'), [''r2a'']) \<and> fc_active_request_by_group st' ''a'' = Some ''r2''"
    using fcfs_end_of_waiting_request_admits [OF _ _ r(2) _ r(3,4)] by simp
  with r(1,2) show ?thesis by (elim exE conjE) (intro exI conjI)
qed

end
