(* ===== verification/Scheduler.thy ===== *)
theory Scheduler
  imports Disaggregate
begin

text \<open>
  The event-driven task-graph scheduler (\<open>runtime_v2/scheduler.py\<close>): the artifact store, the
  bookkeeping of \<open>GlobalScheduler\<close>, the dispatch path with its implicit migrations and
  RESHARD tasks, the handling of worker events, the output fetch and the clean-up.

  Task objects live in the heap of the policies, and \<open>task_index\<close> is the set of the ids it
  maps; the object of an id is its heap cell. The policy and the worker pool are the two
  collaborators of the scheduler: their operations are the records \<open>policy_ops\<close> and
  \<open>pool_ops\<close>, and their states are components of the scheduler's state. The callbacks that
  \<open>begin_migration\<close> registers are closures in the source; here they are data
  (\<open>mig_callback\<close>), which \<open>fire_callback\<close> runs. The topology is the object the policy
  also uses, so it is read from the policy's state.

  The methods \<open>_dispatch_tasks\<close>, \<open>_handle_worker_event\<close> and \<open>_fail_parked_task\<close> call each
  other. The first two take the third as an argument and the recursion is tied in
  \<open>fail_parked_task\<close>, whose first argument is the recursion depth that is left; at depth zero
  the result is \<open>RecursionError\<close>, as for the interpreter's stack.
\<close>

section \<open>Artifact store\<close>

type_synonym akey = "string \<times> string"

type_synonym store = "akey \<Rightarrow> artifact_payload option"

definition artifact_key :: "artifact_handle \<Rightarrow> akey" where
  "artifact_key a = (h_request_id a, h_artifact_id a)"

definition store_put :: "store \<Rightarrow> artifact_handle \<Rightarrow> artifact_payload \<Rightarrow> store" where
  "store_put m a v = m(artifact_key a \<mapsto> v)"

definition store_get :: "store \<Rightarrow> artifact_handle \<Rightarrow> artifact_payload res" where
  "store_get m a = dict_get m (artifact_key a)"

definition store_is_ready :: "store \<Rightarrow> artifact_handle \<Rightarrow> bool" where
  "store_is_ready m a \<longleftrightarrow> m (artifact_key a) \<noteq> None"

definition store_evict_request :: "store \<Rightarrow> string \<Rightarrow> store" where
  "store_evict_request m rid = (\<lambda>k. if fst k = rid then None else m k)"

section \<open>Collaborators\<close>

record 'p policy_ops =
  po_topology :: "'p \<Rightarrow> topology"
  po_on_request_submitted :: "plan \<Rightarrow> 'p dispatch"
  po_on_tasks_runnable :: "string list \<Rightarrow> 'p dispatch"
  po_on_worker_event :: "worker_event \<Rightarrow> 'p dispatch"
  po_acquire_migration_hold :: "int list \<Rightarrow> 'p \<Rightarrow> 'p"
  po_release_migration_hold :: "int list \<Rightarrow> 'p \<Rightarrow> 'p"

text \<open>
  The closures passed to \<open>begin_migration\<close>, by the variables they capture: the task, and for an
  implicit migration the artifact, the destination group and the ranks held.
\<close>

datatype mig_callback =
    ImplicitCallback string artifact_handle string "int list"
  | ReshardCallback string string

record fetch_result =
  fr_fetch_id :: string
  fr_artifacts :: "artifact_value list"
  fr_error :: "string option"

text \<open>
  The operations of the worker pool the scheduler uses. \<open>begin_migration\<close> raises before it
  registers anything; the scheduler catches the exception and uses its text only. The fetch
  operations that the source looks up with \<open>hasattr\<close> are optional.
\<close>

record 'w pool_ops =
  wo_dispatch :: "task \<Rightarrow> artifact_value list \<Rightarrow> string list \<Rightarrow> 'w \<Rightarrow> 'w res"
  wo_begin_migration :: "migrate_plan \<Rightarrow> mig_callback \<Rightarrow> 'w \<Rightarrow> string + 'w"
  wo_evict_request :: "string \<Rightarrow> 'w \<Rightarrow> 'w"
  wo_fetch_artifacts :: "string \<Rightarrow> string \<Rightarrow> string list \<Rightarrow> 'w \<Rightarrow> ('w \<times> fetch_result) res"
  wo_start_fetch_artifacts :: "(string \<Rightarrow> string \<Rightarrow> string list \<Rightarrow> 'w \<Rightarrow> ('w \<times> string) res) option"
  wo_poll_fetch_artifacts :: "(string \<Rightarrow> 'w \<Rightarrow> ('w \<times> fetch_result option) res) option"
  wo_discard_fetch :: "(string \<Rightarrow> 'w \<Rightarrow> 'w) option"

section \<open>State\<close>

record pending_output_fetch =
  pf_fetch_id :: string
  pf_output_handle :: artifact_handle
  pf_group_id :: string

record ('p, 'w) scheduler =
  sc_heap :: heap
  sc_policy :: 'p
  sc_pool :: 'w
  sc_now :: int
  sc_store :: store
  sc_plans :: "string \<Rightarrow> plan option"
  sc_task_index :: "string set"
  sc_pending_dependencies :: "string \<Rightarrow> int option"
  sc_dependents :: "string \<Rightarrow> string list option"
  sc_parked_pending :: "string \<Rightarrow> int option"
  sc_failed_requests :: "string \<Rightarrow> string option"
  sc_released_requests :: "string set"
  sc_cleaned_requests :: "string set"
  sc_failed_tasks :: "string set"
  sc_artifact_refcounts :: "akey counter"
  sc_request_artifacts :: "string \<Rightarrow> akey set option"
  sc_pending_output_fetches :: "string \<Rightarrow> pending_output_fetch option"
  sc_completed_outputs :: "string \<Rightarrow> artifact_payload option"

text \<open>\<open>sc_now\<close> is what \<open>time.monotonic_ns()\<close> returns; it only stamps synthetic events.\<close>

definition scheduler_init :: "heap \<Rightarrow> 'p \<Rightarrow> 'w \<Rightarrow> ('p, 'w) scheduler" where
  "scheduler_init h p w =
     \<lparr>sc_heap = h, sc_policy = p, sc_pool = w, sc_now = 0, sc_store = (\<lambda>_. None),
      sc_plans = (\<lambda>_. None), sc_task_index = {}, sc_pending_dependencies = (\<lambda>_. None),
      sc_dependents = (\<lambda>_. None), sc_parked_pending = (\<lambda>_. None),
      sc_failed_requests = (\<lambda>_. None), sc_released_requests = {}, sc_cleaned_requests = {},
      sc_failed_tasks = {}, sc_artifact_refcounts = (\<lambda>_. None),
      sc_request_artifacts = (\<lambda>_. None), sc_pending_output_fetches = (\<lambda>_. None),
      sc_completed_outputs = (\<lambda>_. None)\<rparr>"

text \<open>A call of the policy: it may change task objects and its own state, and returns tasks.\<close>

definition call_policy ::
  "'p dispatch \<Rightarrow> ('p, 'w) scheduler \<Rightarrow> (('p, 'w) scheduler \<times> string list) res" where
  "call_policy op s =
     bind_res (op (sc_heap s, sc_policy s))
       (\<lambda>((h, p), tks). Inr (s\<lparr>sc_heap := h, sc_policy := p\<rparr>, tks))"

definition sc_topology :: "'p policy_ops \<Rightarrow> ('p, 'w) scheduler \<Rightarrow> topology" where
  "sc_topology P s = po_topology P (sc_policy s)"

text \<open>\<open>task.status = st\<close>.\<close>

definition set_task_status :: "string \<Rightarrow> task_status \<Rightarrow> ('p, 'w) scheduler \<Rightarrow> ('p, 'w) scheduler" where
  "set_task_status tk x s = s\<lparr>sc_heap := (sc_heap s)(tk := (sc_heap s tk)\<lparr>t_status := x\<rparr>)\<rparr>"

section \<open>Clean-up\<close>

definition cleanup_tasks :: "plan option \<Rightarrow> ('p, 'w) scheduler \<Rightarrow> ('p, 'w) scheduler" where
  "cleanup_tasks p s =
     (case p of
        None \<Rightarrow> s
      | Some pl \<Rightarrow>
          let ks = set (map fst (p_tasks pl))
          in s\<lparr>sc_task_index := sc_task_index s - ks,
               sc_pending_dependencies := (\<lambda>k. if k \<in> ks then None else sc_pending_dependencies s k),
               sc_dependents := (\<lambda>k. if k \<in> ks then None else sc_dependents s k),
               sc_parked_pending := (\<lambda>k. if k \<in> ks then None else sc_parked_pending s k)\<rparr>)"

definition discard_pending_fetch ::
  "'w pool_ops \<Rightarrow> string \<Rightarrow> ('p, 'w) scheduler \<Rightarrow> ('p, 'w) scheduler" where
  "discard_pending_fetch W rid s =
     s\<lparr>sc_pending_output_fetches := (sc_pending_output_fetches s)(rid := None),
       sc_pool := (case (sc_pending_output_fetches s rid, wo_discard_fetch W) of
                     (Some pf, Some discard) \<Rightarrow> discard (pf_fetch_id pf) (sc_pool s)
                   | _ \<Rightarrow> sc_pool s)\<rparr>"

definition drop_refcounts :: "string \<Rightarrow> ('p, 'w) scheduler \<Rightarrow> ('p, 'w) scheduler" where
  "drop_refcounts rid s =
     (let ks = (case sc_request_artifacts s rid of None \<Rightarrow> {} | Some ks \<Rightarrow> ks)
      in s\<lparr>sc_request_artifacts := (sc_request_artifacts s)(rid := None),
           sc_artifact_refcounts := (\<lambda>k. if k \<in> ks then None else sc_artifact_refcounts s k)\<rparr>)"

definition cleanup_request_worker_state ::
  "'w pool_ops \<Rightarrow> string \<Rightarrow> ('p, 'w) scheduler \<Rightarrow> ('p, 'w) scheduler" where
  "cleanup_request_worker_state W rid s =
     (if rid \<in> sc_cleaned_requests s then s
      else
        let s1 = s\<lparr>sc_cleaned_requests := insert rid (sc_cleaned_requests s)\<rparr>;
            s2 = drop_refcounts rid (discard_pending_fetch W rid s1);
            s3 = s2\<lparr>sc_pool := wo_evict_request W rid (sc_pool s2),
                    sc_store := store_evict_request (sc_store s2) rid\<rparr>
        in cleanup_tasks (sc_plans s3 rid) (s3\<lparr>sc_plans := (sc_plans s3)(rid := None)\<rparr>))"

definition release_request ::
  "'w pool_ops \<Rightarrow> string \<Rightarrow> ('p, 'w) scheduler \<Rightarrow> ('p, 'w) scheduler" where
  "release_request W rid s =
     (let s1 = cleanup_request_worker_state W rid s
      in s1\<lparr>sc_completed_outputs := (sc_completed_outputs s1)(rid := None),
            sc_failed_requests := (sc_failed_requests s1)(rid := None)\<rparr>)"

section \<open>Dispatch\<close>

definition needs_migration :: "store \<Rightarrow> task \<Rightarrow> artifact_handle \<Rightarrow> bool res" where
  "needs_migration m t a =
     bind_res (store_get m a) (\<lambda>stored.
       Inr (case stored of RefVal r \<Rightarrow> t_group_id t \<noteq> Some (wr_group_id r) | HostVal _ \<Rightarrow> False))"

fun cross_group_inputs :: "store \<Rightarrow> task \<Rightarrow> artifact_handle list \<Rightarrow> artifact_handle list res" where
  "cross_group_inputs m t [] = Inr []"
| "cross_group_inputs m t (a # as) =
     bind_res (needs_migration m t a) (\<lambda>b.
     bind_res (cross_group_inputs m t as) (\<lambda>rest. Inr (if b then a # rest else rest)))"

text \<open>
  Dropping one reference to an input: the key is popped with its last reference. The result
  says whether it was the last.
\<close>

definition drop_ref :: "akey \<Rightarrow> akey counter \<Rightarrow> akey counter \<times> bool" where
  "drop_ref k d =
     (case d k of
        None \<Rightarrow> (d, False)
      | Some n \<Rightarrow> if n \<le> 1 then (d(k := None), True) else (d(k \<mapsto> n - 1), False))"

definition finalize_input ::
  "store \<Rightarrow> akey counter \<times> artifact_value list \<times> string list \<Rightarrow> artifact_handle
   \<Rightarrow> (akey counter \<times> artifact_value list \<times> string list) res" where
  "finalize_input m acc a =
     (case acc of (d, inl, rel) \<Rightarrow>
        bind_res (store_get m a) (\<lambda>stored.
          let inl' = (case stored of
                        RefVal _ \<Rightarrow> inl
                      | HostVal _ \<Rightarrow> inl @ [\<lparr>av_handle = a, av_value = stored\<rparr>]);
              (d', last) = drop_ref (artifact_key a) d
          in Inr (d', inl', if last then rel @ [h_artifact_id a] else rel)))"

definition finalize_task_dispatch ::
  "'w pool_ops \<Rightarrow> string \<Rightarrow> ('p, 'w) scheduler \<Rightarrow> ('p, 'w) scheduler res" where
  "finalize_task_dispatch W tk s =
     bind_res (for_res (finalize_input (sc_store s)) (sc_artifact_refcounts s, [], []) (t_inputs (sc_heap s tk)))
       (\<lambda>(d, inl, rel).
          bind_res (wo_dispatch W (sc_heap s tk) inl rel (sc_pool s)) (\<lambda>w.
            Inr (s\<lparr>sc_artifact_refcounts := d, sc_pool := w\<rparr>)))"

type_synonym ('p, 'w) fail_op =
  "string \<Rightarrow> string \<Rightarrow> string option \<Rightarrow> ('p, 'w) scheduler \<Rightarrow> ('p, 'w) scheduler res"

text \<open>\<open>not artifact.codec_id\<close>.\<close>

definition no_codec :: "artifact_handle \<Rightarrow> bool" where
  "no_codec a \<longleftrightarrow> h_codec_id a = None \<or> h_codec_id a = Some []"

definition on_error_implicit ::
  "'p policy_ops \<Rightarrow> ('p, 'w) fail_op \<Rightarrow> string \<Rightarrow> int list \<Rightarrow> string
   \<Rightarrow> ('p, 'w) scheduler \<Rightarrow> ('p, 'w) scheduler res" where
  "on_error_implicit P fail tk hold exc s =
     (let s1 = s\<lparr>sc_policy := po_release_migration_hold P hold (sc_policy s),
                 sc_parked_pending := (sc_parked_pending s)(tk := None)\<rparr>
      in fail tk (''implicit migration failed: '' @ exc) None s1)"

text \<open>The group a stored reference names; the attribute access fails on a host value.\<close>

definition stored_group :: "artifact_payload \<Rightarrow> string res" where
  "stored_group v = (case v of RefVal r \<Rightarrow> Inr (wr_group_id r) | HostVal _ \<Rightarrow> Inl AttributeError)"

definition group_of_task :: "topology \<Rightarrow> task \<Rightarrow> group_spec res" where
  "group_of_task T t = (case t_group_id t of None \<Rightarrow> Inl KeyError | Some g \<Rightarrow> get_group T g)"

definition begin_implicit_migration ::
  "'p policy_ops \<Rightarrow> 'w pool_ops \<Rightarrow> ('p, 'w) fail_op \<Rightarrow> string \<Rightarrow> ('p, 'w) scheduler \<Rightarrow> artifact_handle
   \<Rightarrow> ('p, 'w) scheduler res" where
  "begin_implicit_migration P W fail tk s a =
     (let t = sc_heap s tk; T = sc_topology P s
      in bind_res (store_get (sc_store s) a) (\<lambda>stored.
         if no_codec a then Inl RuntimeError
         else
           bind_res (stored_group stored) (\<lambda>src.
           bind_res (get_group T src) (\<lambda>sg.
           bind_res (group_of_task T t) (\<lambda>dg.
           let hold = sorted_list_of_set (set (g_ranks sg) \<union> set (g_ranks dg));
               s1 = s\<lparr>sc_policy := po_acquire_migration_hold P hold (sc_policy s)\<rparr>;
               dst = the (t_group_id t)
           in bind_res (mk_migrate_spec a None) (\<lambda>spec.
              bind_res (dict_get (sc_plans s1) (t_request_id t)) (\<lambda>p.
              bind_res (mk_migrate_plan (t_request_id t) src dst [spec] (p_metadata p)) (\<lambda>mp.
              case wo_begin_migration W mp (ImplicitCallback tk a dst hold) (sc_pool s1) of
                Inl exc \<Rightarrow> on_error_implicit P fail tk hold exc s1
              | Inr w \<Rightarrow> Inr (s1\<lparr>sc_pool := w\<rparr>)))))))))"

section \<open>RESHARD tasks\<close>

fun reshard_specs :: "(artifact_handle \<times> artifact_handle) list \<Rightarrow> migrate_spec list res" where
  "reshard_specs [] = Inr []"
| "reshard_specs ((i, out) # rest) =
     (if no_codec out then Inl ValueError
      else
        bind_res (mk_migrate_spec out (if h_artifact_id i \<noteq> h_artifact_id out then Some i else None)) (\<lambda>spec.
        bind_res (reshard_specs rest) (\<lambda>specs. Inr (spec # specs))))"

definition check_reshard_input :: "store \<Rightarrow> string \<Rightarrow> artifact_handle \<Rightarrow> unit res" where
  "check_reshard_input m src a =
     bind_res (store_get m a) (\<lambda>stored.
       case stored of
         HostVal _ \<Rightarrow> Inl RuntimeError
       | RefVal r \<Rightarrow> if wr_group_id r \<noteq> src then Inl RuntimeError else Inr ())"

definition drop_input_refs :: "artifact_handle list \<Rightarrow> akey counter \<Rightarrow> akey counter" where
  "drop_input_refs as d = fold (\<lambda>a d. fst (drop_ref (artifact_key a) d)) as d"

definition on_error_reshard ::
  "('p, 'w) fail_op \<Rightarrow> string \<Rightarrow> string \<Rightarrow> string \<Rightarrow> ('p, 'w) scheduler \<Rightarrow> ('p, 'w) scheduler res" where
  "on_error_reshard fail tk dst exc s = fail tk (''reshard task '' @ tk @ '' failed: '' @ exc) (Some dst) s"

definition dispatch_reshard_task ::
  "'w pool_ops \<Rightarrow> ('p, 'w) fail_op \<Rightarrow> string \<Rightarrow> ('p, 'w) scheduler \<Rightarrow> ('p, 'w) scheduler res" where
  "dispatch_reshard_task W fail tk s =
     (let t = sc_heap s tk
      in bind_res (payload_group t RESHARD_PAYLOAD_SRC_GROUP_ID) (\<lambda>src.
         bind_res (payload_group t RESHARD_PAYLOAD_DST_GROUP_ID) (\<lambda>dst.
         if t_inputs t = [] then Inl ValueError
         else if t_outputs t = [] then Inl ValueError
         else if length (t_inputs t) \<noteq> length (t_outputs t) then Inl ValueError
         else
           bind_res (reshard_specs (zip (t_inputs t) (t_outputs t))) (\<lambda>specs.
           bind_res (for_res (\<lambda>_ a. check_reshard_input (sc_store s) src a) () (t_inputs t)) (\<lambda>_.
           let s1 = s\<lparr>sc_artifact_refcounts := drop_input_refs (t_inputs t) (sc_artifact_refcounts s)\<rparr>
           in bind_res (dict_get (sc_plans s1) (t_request_id t)) (\<lambda>p.
              bind_res (mk_migrate_plan (t_request_id t) src dst specs (p_metadata p)) (\<lambda>mp.
              let s2 = set_task_status tk RUNNING s1
              in case wo_begin_migration W mp (ReshardCallback tk dst) (sc_pool s2) of
                   Inl exc \<Rightarrow> on_error_reshard fail tk dst exc s2
                 | Inr w \<Rightarrow> Inr (s2\<lparr>sc_pool := w\<rparr>))))))))"

definition dispatch_task ::
  "'p policy_ops \<Rightarrow> 'w pool_ops \<Rightarrow> ('p, 'w) fail_op \<Rightarrow> ('p, 'w) scheduler \<Rightarrow> string
   \<Rightarrow> ('p, 'w) scheduler res" where
  "dispatch_task P W fail s tk =
     (if t_kind (sc_heap s tk) = RESHARD then dispatch_reshard_task W fail tk s
      else case t_group_id (sc_heap s tk) of
        None \<Rightarrow> Inl ValueError
      | Some gid \<Rightarrow>
          bind_res (get_group (sc_topology P s) gid) (\<lambda>g.
          let s1 = s\<lparr>sc_heap := (sc_heap s)(tk := (sc_heap s tk)\<lparr>t_parallel := g_parallel g\<rparr>)\<rparr>
          in bind_res (cross_group_inputs (sc_store s1) (sc_heap s1 tk) (t_inputs (sc_heap s1 tk))) (\<lambda>cross.
             if cross = [] then finalize_task_dispatch W tk s1
             else for_res (begin_implicit_migration P W fail tk)
                    (s1\<lparr>sc_parked_pending := (sc_parked_pending s1)(tk \<mapsto> int (length cross))\<rparr>) cross)))"

definition dispatch_tasks ::
  "'p policy_ops \<Rightarrow> 'w pool_ops \<Rightarrow> ('p, 'w) fail_op \<Rightarrow> string list \<Rightarrow> ('p, 'w) scheduler
   \<Rightarrow> ('p, 'w) scheduler res" where
  "dispatch_tasks P W fail tks s = for_res (dispatch_task P W fail) s tks"

text \<open>The statement \<open>self._dispatch_tasks(self.policy...)\<close>.\<close>

definition dispatch_policy ::
  "'p policy_ops \<Rightarrow> 'w pool_ops \<Rightarrow> ('p, 'w) fail_op \<Rightarrow> 'p dispatch \<Rightarrow> ('p, 'w) scheduler
   \<Rightarrow> ('p, 'w) scheduler res" where
  "dispatch_policy P W fail op s = bind_res (call_policy op s) (\<lambda>(s1, tks). dispatch_tasks P W fail tks s1)"

section \<open>Worker events\<close>

text \<open>
  An item of the worker pool's event queue: a worker's death notice, or an event with the
  references under its metadata key \<open>published_outputs\<close>.
\<close>

datatype pool_event =
    WorkerReadyMessage int string string
  | WorkerEvent worker_event "worker_local_ref list"

definition released_key :: "string \<Rightarrow> worker_event_kind \<Rightarrow> string" where
  "released_key rid k = rid @ '':'' @ worker_event_kind_value k"

definition mark_request_event_delivered ::
  "string \<Rightarrow> worker_event_kind \<Rightarrow> ('p, 'w) scheduler \<Rightarrow> ('p, 'w) scheduler option" where
  "mark_request_event_delivered rid k s =
     (if released_key rid k \<in> sc_released_requests s then None
      else Some (s\<lparr>sc_released_requests := insert (released_key rid k) (sc_released_requests s)\<rparr>))"

definition request_event ::
  "string \<Rightarrow> string \<Rightarrow> worker_event_kind \<Rightarrow> string \<Rightarrow> ('p, 'w) scheduler \<Rightarrow> worker_event" where
  "request_event rid gid k msg s =
     \<lparr>e_event_id = ''request:'' @ rid @ '':'' @ worker_event_kind_value k, e_task_id = [],
      e_request_id = rid, e_group_id = gid, e_worker_rank = -1, e_kind = k,
      e_timestamp_ns = sc_now s, e_message = msg, e_metadata = []\<rparr>"

definition emit_request_event ::
  "'p policy_ops \<Rightarrow> 'w pool_ops \<Rightarrow> ('p, 'w) fail_op \<Rightarrow> string \<Rightarrow> string \<Rightarrow> worker_event_kind \<Rightarrow> string
   \<Rightarrow> ('p, 'w) scheduler \<Rightarrow> ('p, 'w) scheduler res" where
  "emit_request_event P W fail rid gid k msg s =
     (case mark_request_event_delivered rid k s of
        None \<Rightarrow> Inr s
      | Some s1 \<Rightarrow> dispatch_policy P W fail (po_on_worker_event P (request_event rid gid k msg s1)) s1)"

text \<open>\<open>self.failed_requests.setdefault(request_id, message)\<close>.\<close>

definition fail_request :: "string \<Rightarrow> string \<Rightarrow> ('p, 'w) scheduler \<Rightarrow> ('p, 'w) scheduler" where
  "fail_request rid msg s =
     (if sc_failed_requests s rid = None
      then s\<lparr>sc_failed_requests := (sc_failed_requests s)(rid \<mapsto> msg)\<rparr> else s)"

definition message_or :: "string \<Rightarrow> string \<Rightarrow> string" where
  "message_or msg dflt = (if msg = [] then dflt else msg)"

text \<open>The loop over the dependents of a launched task; it returns the tasks that became runnable.\<close>

fun count_down ::
  "string list \<Rightarrow> string set \<Rightarrow> (string \<Rightarrow> int option) \<Rightarrow> ((string \<Rightarrow> int option) \<times> string list) res" where
  "count_down [] idx pd = Inr (pd, [])"
| "count_down (d # ds) idx pd =
     (case pd d of
        None \<Rightarrow> count_down ds idx pd
      | Some n \<Rightarrow>
          if n - 1 = 0 then
            (if d \<notin> idx then Inl KeyError
             else bind_res (count_down ds idx (pd(d \<mapsto> n - 1))) (\<lambda>(pd', out). Inr (pd', d # out)))
          else count_down ds idx (pd(d \<mapsto> n - 1)))"

definition launch_dependents ::
  "string \<Rightarrow> ('p, 'w) scheduler \<Rightarrow> (('p, 'w) scheduler \<times> string list) res" where
  "launch_dependents tk s =
     (if sc_failed_requests s (t_request_id (sc_heap s tk)) \<noteq> None then Inr (s, [])
      else
        bind_res (count_down (case sc_dependents s tk of None \<Rightarrow> [] | Some ds \<Rightarrow> ds)
                    (sc_task_index s) (sc_pending_dependencies s))
          (\<lambda>(pd, out). Inr (s\<lparr>sc_pending_dependencies := pd\<rparr>, out)))"

definition publish_outputs :: "worker_local_ref list \<Rightarrow> store \<Rightarrow> store" where
  "publish_outputs refs m = fold (\<lambda>r m. store_put m (wr_handle r) (RefVal r)) refs m"

definition handle_launch_end ::
  "'p policy_ops \<Rightarrow> 'w pool_ops \<Rightarrow> ('p, 'w) fail_op \<Rightarrow> worker_event \<Rightarrow> worker_local_ref list
   \<Rightarrow> ('p, 'w) scheduler \<Rightarrow> ('p, 'w) scheduler res" where
  "handle_launch_end P W fail ev refs s =
     bind_res (dispatch_policy P W fail (po_on_worker_event P ev) s) (\<lambda>s1.
     bind_res (launch_dependents (e_task_id ev) (s1\<lparr>sc_store := publish_outputs refs (sc_store s1)\<rparr>))
       (\<lambda>(s2, out). dispatch_policy P W fail (po_on_tasks_runnable P out) s2))"

definition handle_exec_end ::
  "'p policy_ops \<Rightarrow> 'w pool_ops \<Rightarrow> ('p, 'w) fail_op \<Rightarrow> worker_event
   \<Rightarrow> ('p, 'w) scheduler \<Rightarrow> ('p, 'w) scheduler res" where
  "handle_exec_end P W fail ev s =
     bind_res (dispatch_policy P W fail (po_on_worker_event P ev) (set_task_status (e_task_id ev) FINISHED s)) (\<lambda>s1.
     let rid = t_request_id (sc_heap s1 (e_task_id ev))
     in bind_res (dict_get (sc_plans s1) rid) (\<lambda>p.
        if e_task_id ev \<in> set (p_terminal p)
        then emit_request_event P W fail rid (e_group_id ev) REQUEST_FINISHED [] s1
        else Inr s1))"

definition handle_task_failed ::
  "'p policy_ops \<Rightarrow> 'w pool_ops \<Rightarrow> ('p, 'w) fail_op \<Rightarrow> worker_event
   \<Rightarrow> ('p, 'w) scheduler \<Rightarrow> ('p, 'w) scheduler res" where
  "handle_task_failed P W fail ev s =
     (let tk = e_task_id ev; rid = t_request_id (sc_heap s tk)
      in if tk \<in> sc_failed_tasks s then Inr s
         else
           let s1 = set_task_status tk FAILED (s\<lparr>sc_failed_tasks := insert tk (sc_failed_tasks s)\<rparr>);
               s2 = fail_request rid (message_or (e_message ev) (''task '' @ tk @ '' failed'')) s1
           in bind_res (dispatch_policy P W fail (po_on_worker_event P ev) s2) (\<lambda>s3.
              bind_res (emit_request_event P W fail rid (e_group_id ev) REQUEST_FAILED (e_message ev) s3) (\<lambda>s4.
              Inr (cleanup_request_worker_state W rid s4))))"

definition handle_task_event ::
  "'p policy_ops \<Rightarrow> 'w pool_ops \<Rightarrow> ('p, 'w) fail_op \<Rightarrow> worker_event \<Rightarrow> worker_local_ref list
   \<Rightarrow> ('p, 'w) scheduler \<Rightarrow> ('p, 'w) scheduler res" where
  "handle_task_event P W fail ev refs s =
     (if e_task_id ev \<notin> sc_task_index s then Inr s
      else case e_kind ev of
        TASK_EXEC_BEGIN \<Rightarrow> Inr (set_task_status (e_task_id ev) RUNNING s)
      | TASK_LAUNCH_BEGIN \<Rightarrow> Inr s
      | TASK_LAUNCH_END \<Rightarrow> handle_launch_end P W fail ev refs s
      | TASK_EXEC_END \<Rightarrow> handle_exec_end P W fail ev s
      | TASK_FAILED \<Rightarrow> handle_task_failed P W fail ev s
      | _ \<Rightarrow> Inr s)"

definition handle_request_finished ::
  "'p policy_ops \<Rightarrow> 'w pool_ops \<Rightarrow> ('p, 'w) fail_op \<Rightarrow> worker_event
   \<Rightarrow> ('p, 'w) scheduler \<Rightarrow> ('p, 'w) scheduler res" where
  "handle_request_finished P W fail ev s =
     (case mark_request_event_delivered (e_request_id ev) (e_kind ev) s of
        None \<Rightarrow> Inr s
      | Some s1 \<Rightarrow> dispatch_policy P W fail (po_on_worker_event P ev) s1)"

definition handle_request_failed ::
  "'p policy_ops \<Rightarrow> 'w pool_ops \<Rightarrow> ('p, 'w) fail_op \<Rightarrow> worker_event
   \<Rightarrow> ('p, 'w) scheduler \<Rightarrow> ('p, 'w) scheduler res" where
  "handle_request_failed P W fail ev s =
     (case mark_request_event_delivered (e_request_id ev) (e_kind ev) s of
        None \<Rightarrow> Inr s
      | Some s1 \<Rightarrow>
          let rid = e_request_id ev;
              s2 = fail_request rid (message_or (e_message ev) (''request '' @ rid @ '' failed'')) s1
          in bind_res (dispatch_policy P W fail (po_on_worker_event P ev) s2) (\<lambda>s3.
             Inr (cleanup_request_worker_state W rid s3)))"

definition handle_worker_event ::
  "'p policy_ops \<Rightarrow> 'w pool_ops \<Rightarrow> ('p, 'w) fail_op \<Rightarrow> pool_event
   \<Rightarrow> ('p, 'w) scheduler \<Rightarrow> ('p, 'w) scheduler res" where
  "handle_worker_event P W fail pe s =
     (case pe of
        WorkerReadyMessage rank status msg \<Rightarrow> Inl RuntimeError
      | WorkerEvent ev refs \<Rightarrow>
          if e_kind ev = REQUEST_FINISHED then handle_request_finished P W fail ev s
          else if e_kind ev = REQUEST_FAILED then handle_request_failed P W fail ev s
          else handle_task_event P W fail ev refs s)"

section \<open>Synthetic events and callbacks\<close>

definition synthetic_event ::
  "string \<Rightarrow> worker_event_kind \<Rightarrow> string \<Rightarrow> string \<Rightarrow> ('p, 'w) scheduler \<Rightarrow> worker_event" where
  "synthetic_event tk k gid msg s =
     \<lparr>e_event_id = ''reshard:'' @ tk @ '':'' @ worker_event_kind_value k, e_task_id = tk,
      e_request_id = t_request_id (sc_heap s tk), e_group_id = gid, e_worker_rank = -1, e_kind = k,
      e_timestamp_ns = sc_now s, e_message = msg, e_metadata = []\<rparr>"

definition fire_synthetic_event ::
  "'p policy_ops \<Rightarrow> 'w pool_ops \<Rightarrow> ('p, 'w) fail_op \<Rightarrow> string \<Rightarrow> worker_event_kind \<Rightarrow> string \<Rightarrow> string
   \<Rightarrow> worker_local_ref list \<Rightarrow> ('p, 'w) scheduler \<Rightarrow> ('p, 'w) scheduler res" where
  "fire_synthetic_event P W fail tk k gid msg refs s =
     handle_worker_event P W fail (WorkerEvent (synthetic_event tk k gid msg s) refs) s"

definition fail_group :: "string option \<Rightarrow> task \<Rightarrow> string" where
  "fail_group gid t =
     (case gid of Some g \<Rightarrow> g | None \<Rightarrow> (case t_group_id t of None \<Rightarrow> [] | Some g \<Rightarrow> g))"

primrec fail_parked_task :: "nat \<Rightarrow> 'p policy_ops \<Rightarrow> 'w pool_ops \<Rightarrow> ('p, 'w) fail_op" where
  "fail_parked_task 0 P W = (\<lambda>tk reason gid s.
     if tk \<in> sc_failed_tasks s then Inr s else Inl RecursionError)"
| "fail_parked_task (Suc n) P W = (\<lambda>tk reason gid s.
     if tk \<in> sc_failed_tasks s then Inr s
     else fire_synthetic_event P W (fail_parked_task n P W) tk TASK_FAILED
            (fail_group gid (sc_heap s tk)) reason [] s)"

definition on_done_implicit ::
  "'p policy_ops \<Rightarrow> 'w pool_ops \<Rightarrow> ('p, 'w) fail_op \<Rightarrow> string \<Rightarrow> artifact_handle \<Rightarrow> string \<Rightarrow> int list
   \<Rightarrow> ('p, 'w) scheduler \<Rightarrow> ('p, 'w) scheduler res" where
  "on_done_implicit P W fail tk a dst hold s =
     (let s1 = s\<lparr>sc_policy := po_release_migration_hold P hold (sc_policy s)\<rparr>
      in if sc_parked_pending s1 tk = None \<or> sc_failed_requests s1 (t_request_id (sc_heap s1 tk)) \<noteq> None
         then fail tk ''request failed during implicit migration'' None
                (s1\<lparr>sc_parked_pending := (sc_parked_pending s1)(tk := None)\<rparr>)
         else
           bind_res (get_group_leader (sc_topology P s1) dst) (\<lambda>leader.
           let m = store_put (sc_store s1) a
                     (RefVal \<lparr>wr_handle = a, wr_group_id = dst, wr_worker_rank = leader\<rparr>);
               n = the (sc_parked_pending s1 tk) - 1;
               s2 = s1\<lparr>sc_store := m, sc_parked_pending := (sc_parked_pending s1)(tk \<mapsto> n)\<rparr>
           in if n = 0
              then finalize_task_dispatch W tk (s2\<lparr>sc_parked_pending := (sc_parked_pending s2)(tk := None)\<rparr>)
              else Inr s2))"

definition on_done_reshard ::
  "'p policy_ops \<Rightarrow> 'w pool_ops \<Rightarrow> ('p, 'w) fail_op \<Rightarrow> string \<Rightarrow> string
   \<Rightarrow> ('p, 'w) scheduler \<Rightarrow> ('p, 'w) scheduler res" where
  "on_done_reshard P W fail tk dst s =
     (if sc_failed_requests s (t_request_id (sc_heap s tk)) \<noteq> None \<or> tk \<in> sc_failed_tasks s
      then fail tk ''request failed during reshard'' None s
      else
        bind_res (get_group_leader (sc_topology P s) dst) (\<lambda>leader.
        let refs = map (\<lambda>a. \<lparr>wr_handle = a, wr_group_id = dst, wr_worker_rank = leader\<rparr>)
                     (t_outputs (sc_heap s tk))
        in bind_res (fire_synthetic_event P W fail tk TASK_LAUNCH_END dst [] refs s)
             (fire_synthetic_event P W fail tk TASK_EXEC_END dst [] [])))"

text \<open>The outcome of a migration: \<open>None\<close> for success, or the text of the exception.\<close>

definition fire_callback ::
  "'p policy_ops \<Rightarrow> 'w pool_ops \<Rightarrow> ('p, 'w) fail_op \<Rightarrow> mig_callback \<Rightarrow> string option
   \<Rightarrow> ('p, 'w) scheduler \<Rightarrow> ('p, 'w) scheduler res" where
  "fire_callback P W fail cb outcome s =
     (case cb of
        ImplicitCallback tk a dst hold \<Rightarrow>
          (case outcome of None \<Rightarrow> on_done_implicit P W fail tk a dst hold s
           | Some exc \<Rightarrow> on_error_implicit P fail tk hold exc s)
      | ReshardCallback tk dst \<Rightarrow>
          (case outcome of None \<Rightarrow> on_done_reshard P W fail tk dst s
           | Some exc \<Rightarrow> on_error_reshard fail tk dst exc s))"

section \<open>Submission\<close>

text \<open>The checks of one task; every violation but an unknown group is a \<open>ValueError\<close>.\<close>

definition check_plan_task :: "topology \<Rightarrow> task \<Rightarrow> unit res" where
  "check_plan_task T t =
     (if t_kind t = RESHARD then validate_task T t
      else case t_group_id t of
        Some gid \<Rightarrow>
          bind_res (get_group T gid) (\<lambda>g. if t_kind t \<notin> set (g_kinds g) then Inl ValueError else Inr ())
      | None \<Rightarrow> if select_group_for_task T (t_kind t) = None then Inl ValueError else Inr ())"

definition add_dependent ::
  "string \<Rightarrow> string \<Rightarrow> (string \<Rightarrow> string list option) \<Rightarrow> (string \<Rightarrow> string list option)" where
  "add_dependent tk d m = m(d \<mapsto> (case m d of None \<Rightarrow> [] | Some l \<Rightarrow> l) @ [tk])"

definition register_task ::
  "topology \<Rightarrow> ('p, 'w) scheduler \<times> akey set \<Rightarrow> task \<Rightarrow> (('p, 'w) scheduler \<times> akey set) res" where
  "register_task T acc t =
     (case acc of (s, arts) \<Rightarrow>
        bind_res (check_plan_task T t) (\<lambda>_.
          Inr (s\<lparr>sc_task_index := insert (t_id t) (sc_task_index s),
                 sc_pending_dependencies :=
                   (sc_pending_dependencies s)(t_id t \<mapsto> int (length (t_dependencies t))),
                 sc_artifact_refcounts :=
                   fold (\<lambda>a d. cinc d (artifact_key a)) (t_inputs t) (sc_artifact_refcounts s),
                 sc_dependents := fold (add_dependent (t_id t)) (t_dependencies t) (sc_dependents s)\<rparr>,
               arts \<union> artifact_key ` set (t_inputs t) \<union> artifact_key ` set (t_outputs t))))"

text \<open>The task objects the compiler created.\<close>

definition install_tasks :: "task list \<Rightarrow> heap \<Rightarrow> heap" where
  "install_tasks ts h = fold (\<lambda>t h. h(t_id t := t)) ts h"

definition submit_request ::
  "'p policy_ops \<Rightarrow> 'w pool_ops \<Rightarrow> ('p, 'w) fail_op \<Rightarrow> plan res \<Rightarrow> ('p, 'w) scheduler
   \<Rightarrow> (('p, 'w) scheduler \<times> string) res" where
  "submit_request P W fail compiled s =
     bind_res compiled (\<lambda>p.
       let ts = map snd (p_tasks p);
           s1 = s\<lparr>sc_heap := install_tasks ts (sc_heap s),
                  sc_plans := (sc_plans s)(p_request_id p \<mapsto> p),
                  sc_store := fold (\<lambda>v m. store_put m (av_handle v) (av_value v)) (p_initial p) (sc_store s)\<rparr>
       in bind_res (for_res (register_task (sc_topology P s)) (s1, {}) ts) (\<lambda>(s2, arts).
          let s3 = s2\<lparr>sc_request_artifacts := (sc_request_artifacts s2)
                        (p_request_id p \<mapsto> arts \<union> artifact_key ` av_handle ` set (p_initial p))\<rparr>
          in bind_res (dispatch_policy P W fail (po_on_request_submitted P p) s3) (\<lambda>s4.
             Inr (s4, p_request_id p))))"

section \<open>Output fetch and status\<close>

datatype req_status =
    StatusPending
  | StatusFinished artifact_payload
  | StatusFailed string

definition fail_request_from_fetch_error ::
  "'w pool_ops \<Rightarrow> string \<Rightarrow> string \<Rightarrow> ('p, 'w) scheduler \<Rightarrow> ('p, 'w) scheduler" where
  "fail_request_from_fetch_error W rid msg s =
     cleanup_request_worker_state W rid (fail_request rid msg s)"

definition complete_output ::
  "'w pool_ops \<Rightarrow> string \<Rightarrow> artifact_payload \<Rightarrow> ('p, 'w) scheduler \<Rightarrow> ('p, 'w) scheduler" where
  "complete_output W rid v s =
     cleanup_request_worker_state W rid (s\<lparr>sc_completed_outputs := (sc_completed_outputs s)(rid \<mapsto> v)\<rparr>)"

text \<open>What both fetch paths do with a result; \<open>detail\<close> is the text of the empty-result error.\<close>

definition accept_fetch ::
  "'w pool_ops \<Rightarrow> string \<Rightarrow> string \<Rightarrow> fetch_result \<Rightarrow> ('p, 'w) scheduler \<Rightarrow> ('p, 'w) scheduler" where
  "accept_fetch W rid detail f s =
     (if fr_error f \<noteq> None \<and> fr_error f \<noteq> Some []
      then fail_request_from_fetch_error W rid (the (fr_error f)) s
      else case fr_artifacts f of
        [] \<Rightarrow> fail_request_from_fetch_error W rid detail s
      | v # _ \<Rightarrow>
          complete_output W rid (av_value v) (s\<lparr>sc_store := store_put (sc_store s) (av_handle v) (av_value v)\<rparr>))"

definition empty_fetch_message :: "string \<Rightarrow> string option \<Rightarrow> string" where
  "empty_fetch_message rid fid =
     ''runtime_v2 fetch returned empty artifacts: request_id='' @ rid
       @ (case fid of None \<Rightarrow> [] | Some f \<Rightarrow> '' fetch_id='' @ f)"

definition try_finish_request_output_fetch ::
  "'w pool_ops \<Rightarrow> string \<Rightarrow> ('p, 'w) scheduler \<Rightarrow> ('p, 'w) scheduler res" where
  "try_finish_request_output_fetch W rid s =
     (case (sc_pending_output_fetches s rid, wo_poll_fetch_artifacts W) of
        (Some pf, Some poll) \<Rightarrow>
          bind_res (poll (pf_fetch_id pf) (sc_pool s)) (\<lambda>(w, r).
          case r of
            None \<Rightarrow> Inr (s\<lparr>sc_pool := w\<rparr>)
          | Some f \<Rightarrow>
              Inr (accept_fetch W rid (empty_fetch_message rid (Some (pf_fetch_id pf))) f
                (s\<lparr>sc_pool := w, sc_pending_output_fetches := (sc_pending_output_fetches s)(rid := None)\<rparr>)))
      | _ \<Rightarrow> Inr s)"

text \<open>The statuses of the terminal tasks, each read through \<open>task_index\<close>.\<close>

fun all_finished :: "string list \<Rightarrow> ('p, 'w) scheduler \<Rightarrow> bool res" where
  "all_finished [] s = Inr True"
| "all_finished (tk # tks) s =
     (if tk \<notin> sc_task_index s then Inl KeyError
      else bind_res (all_finished tks s) (\<lambda>b. Inr (t_status (sc_heap s tk) = FINISHED \<and> b)))"

text \<open>The last part of \<open>_try_start_request_output_fetch\<close>, for the stored value of the output.\<close>

definition start_fetch :: "'w pool_ops \<Rightarrow> string \<Rightarrow> artifact_handle \<Rightarrow> ('p, 'w) scheduler \<Rightarrow> artifact_payload
    \<Rightarrow> ('p, 'w) scheduler res" where
  "start_fetch W rid out s stored =
     (case stored of
        HostVal v \<Rightarrow> Inr (complete_output W rid stored s)
      | RefVal r \<Rightarrow>
          (case wo_start_fetch_artifacts W of
             None \<Rightarrow>
               bind_res (wo_fetch_artifacts W rid (wr_group_id r) [h_artifact_id out] (sc_pool s))
                 (\<lambda>(w, f). Inr (accept_fetch W rid (empty_fetch_message rid None) f (s\<lparr>sc_pool := w\<rparr>)))
           | Some start \<Rightarrow>
               bind_res (start rid (wr_group_id r) [h_artifact_id out] (sc_pool s)) (\<lambda>(w, fid).
                 Inr (s\<lparr>sc_pool := w, sc_pending_output_fetches := (sc_pending_output_fetches s)
                        (rid \<mapsto> \<lparr>pf_fetch_id = fid, pf_output_handle = out, pf_group_id = wr_group_id r\<rparr>)\<rparr>))))"

definition try_start_request_output_fetch ::
  "'w pool_ops \<Rightarrow> string \<Rightarrow> ('p, 'w) scheduler \<Rightarrow> ('p, 'w) scheduler res" where
  "try_start_request_output_fetch W rid s =
     bind_res (dict_get (sc_plans s) rid) (\<lambda>p.
     bind_res (all_finished (p_terminal p) s) (\<lambda>done.
     if \<not> done then Inr s
     else if sc_pending_output_fetches s rid \<noteq> None then Inr s
     else case p_terminal p of
       [] \<Rightarrow> Inl IndexError
     | tk # _ \<Rightarrow>
         (case t_outputs (sc_heap s tk) of
            [] \<Rightarrow> Inr s
          | out # _ \<Rightarrow>
              bind_res (store_get (sc_store s) out) (start_fetch W rid out s))))"

definition try_collect_request_output ::
  "'w pool_ops \<Rightarrow> string \<Rightarrow> ('p, 'w) scheduler \<Rightarrow> ('p, 'w) scheduler res" where
  "try_collect_request_output W rid s =
     (if sc_completed_outputs s rid \<noteq> None then Inr s
      else bind_res (try_finish_request_output_fetch W rid s) (\<lambda>s1.
        if sc_completed_outputs s1 rid \<noteq> None then Inr s1
        else if sc_plans s1 rid = None then Inr s1
        else try_start_request_output_fetch W rid s1))"

definition get_request_status ::
  "'w pool_ops \<Rightarrow> string \<Rightarrow> ('p, 'w) scheduler \<Rightarrow> (('p, 'w) scheduler \<times> req_status) res" where
  "get_request_status W rid s =
     (case sc_failed_requests s rid of
        Some msg \<Rightarrow> Inr (s, StatusFailed msg)
      | None \<Rightarrow>
          (case sc_completed_outputs s rid of
             Some v \<Rightarrow> Inr (s, StatusFinished v)
           | None \<Rightarrow>
               if sc_plans s rid = None \<and> sc_pending_output_fetches s rid = None
               then Inr (s, StatusPending)
               else bind_res (try_collect_request_output W rid s) (\<lambda>s1.
                 case sc_completed_outputs s1 rid of
                   Some v \<Rightarrow> Inr (s1, StatusFinished v)
                 | None \<Rightarrow>
                     (case sc_failed_requests s1 rid of
                        Some msg \<Rightarrow> Inr (s1, StatusFailed msg)
                      | None \<Rightarrow> Inr (s1, StatusPending)))))"

record request_progress =
  rp_total :: nat
  rp_finished :: nat
  rp_running :: nat
  rp_pending :: nat
  rp_failed :: nat

definition count_progress :: "task_status \<Rightarrow> request_progress \<Rightarrow> request_progress" where
  "count_progress x r =
     (if x = FINISHED then r\<lparr>rp_finished := rp_finished r + 1\<rparr>
      else if x = RUNNING then r\<lparr>rp_running := rp_running r + 1\<rparr>
      else if x \<in> {PENDING, READY, DISPATCHED} then r\<lparr>rp_pending := rp_pending r + 1\<rparr>
      else if x = FAILED then r\<lparr>rp_failed := rp_failed r + 1\<rparr>
      else r)"

definition get_request_progress :: "string \<Rightarrow> ('p, 'w) scheduler \<Rightarrow> request_progress" where
  "get_request_progress rid s =
     (let zero = \<lparr>rp_total = 0, rp_finished = 0, rp_running = 0, rp_pending = 0, rp_failed = 0\<rparr>
      in case sc_plans s rid of
           None \<Rightarrow> zero
         | Some p \<Rightarrow>
             fold (\<lambda>(k, t). count_progress (t_status (sc_heap s (t_id t)))) (p_tasks p)
               (zero\<lparr>rp_total := length (p_tasks p)\<rparr>))"

section \<open>The poll loop\<close>

text \<open>
  One call of \<open>poll_once\<close>: the callbacks fired by the first \<open>pump_migrations\<close>, the events that
  \<open>poll\<close> returned, and the callbacks fired by the second \<open>pump_migrations\<close>, which precedes the
  handling of the events.
\<close>

record poll_tick =
  pt_pump1 :: "(mig_callback \<times> string option) list"
  pt_pump2 :: "(mig_callback \<times> string option) list"
  pt_events :: "pool_event list"

definition poll_once ::
  "'p policy_ops \<Rightarrow> 'w pool_ops \<Rightarrow> ('p, 'w) fail_op \<Rightarrow> poll_tick \<Rightarrow> ('p, 'w) scheduler
   \<Rightarrow> ('p, 'w) scheduler res" where
  "poll_once P W fail tick s =
     bind_res (for_res (\<lambda>s (cb, oc). fire_callback P W fail cb oc s) s (pt_pump1 tick @ pt_pump2 tick)) (\<lambda>s1.
       for_res (\<lambda>s pe. handle_worker_event P W fail pe s) s1 (pt_events tick))"

text \<open>
  \<open>run_until_request_done\<close> over the ticks to come; a tick carries whether the deadline has
  passed. \<open>None\<close> means that the ticks are used up and the loop still runs.
\<close>

fun run_until_request_done ::
  "'p policy_ops \<Rightarrow> 'w pool_ops \<Rightarrow> ('p, 'w) fail_op \<Rightarrow> string \<Rightarrow> (bool \<times> poll_tick) list
   \<Rightarrow> ('p, 'w) scheduler \<Rightarrow> (('p, 'w) scheduler \<times> artifact_payload) res option" where
  "run_until_request_done P W fail rid ticks s =
     (case get_request_status W rid s of
        Inl e \<Rightarrow> Some (Inl e)
      | Inr (s1, StatusFailed msg) \<Rightarrow> Some (Inl RuntimeError)
      | Inr (s1, StatusFinished v) \<Rightarrow> Some (Inr (release_request W rid s1, v))
      | Inr (s1, StatusPending) \<Rightarrow>
          (case ticks of
             [] \<Rightarrow> None
           | (late, tick) # rest \<Rightarrow>
               if late then Some (Inl TimeoutError)
               else (case poll_once P W fail tick s1 of
                       Inl e \<Rightarrow> Some (Inl e)
                     | Inr s2 \<Rightarrow> run_until_request_done P W fail rid rest s2)))"

definition execute ::
  "'p policy_ops \<Rightarrow> 'w pool_ops \<Rightarrow> ('p, 'w) fail_op \<Rightarrow> plan res \<Rightarrow> (bool \<times> poll_tick) list
   \<Rightarrow> ('p, 'w) scheduler \<Rightarrow> (('p, 'w) scheduler \<times> artifact_payload) res option" where
  "execute P W fail compiled ticks s =
     (case submit_request P W fail compiled s of
        Inl e \<Rightarrow> Some (Inl e)
      | Inr (s1, rid) \<Rightarrow> run_until_request_done P W fail rid ticks s1)"

end
