(* ===== verification/SchedulerSteps.thy ===== *)
theory SchedulerSteps
  imports Scheduler
begin

text \<open>
  The small steps of the scheduler. Every method that dispatches tasks or reports a failure
  changes the state by a sequence of the elementary steps \<open>inner\<close>, whatever the depth of the
  recursion; an invariant of the scheduler only has to be checked on these steps and on the
  few assignments of the entry points. The recursion itself is bounded: each nested failure
  removes one task from those that are registered and have not failed.
\<close>

section \<open>Elementary steps\<close>

inductive inner ::
  "'p policy_ops \<Rightarrow> 'w pool_ops \<Rightarrow> ('p, 'w) scheduler \<Rightarrow> ('p, 'w) scheduler \<Rightarrow> bool"
  for P W where
  acquire: "inner P W s (s\<lparr>sc_policy := po_acquire_migration_hold P hold (sc_policy s)\<rparr>)"
| release: "inner P W s (s\<lparr>sc_policy := po_release_migration_hold P hold (sc_policy s)\<rparr>)"
| parallel: "inner P W s (s\<lparr>sc_heap := (sc_heap s)(tk := (sc_heap s tk)\<lparr>t_parallel := x\<rparr>)\<rparr>)"
| status: "inner P W s (set_task_status tk x s)"
| park: "inner P W s (s\<lparr>sc_parked_pending := m\<rparr>)"
| finalize: "finalize_task_dispatch W tk s = Inr s' \<Longrightarrow> inner P W s s'"
| reshard_refs: "inner P W s (s\<lparr>sc_artifact_refcounts := drop_input_refs (t_inputs (sc_heap s tk)) (sc_artifact_refcounts s)\<rparr>)"
| begin_mig: "wo_begin_migration W mp cb (sc_pool s) = Inr w \<Longrightarrow> inner P W s (s\<lparr>sc_pool := w\<rparr>)"
| request_event: "mark_request_event_delivered (e_request_id ev) (e_kind ev) s = Some s1 \<Longrightarrow>
    e_kind ev \<in> {REQUEST_FINISHED, REQUEST_FAILED} \<Longrightarrow>
    call_policy (po_on_worker_event P ev) s1 = Inr (s', tks) \<Longrightarrow> inner P W s s'"
| fail_request: "inner P W s (fail_request rid msg s)"
| task_failed: "tk \<in> sc_task_index s \<Longrightarrow> tk \<notin> sc_failed_tasks s \<Longrightarrow> e_kind ev = TASK_FAILED \<Longrightarrow>
    e_task_id ev = tk \<Longrightarrow>
    call_policy (po_on_worker_event P ev)
      (fail_request (t_request_id (sc_heap s tk)) msg
         (set_task_status tk FAILED (s\<lparr>sc_failed_tasks := insert tk (sc_failed_tasks s)\<rparr>))) = Inr (s', tks) \<Longrightarrow>
    inner P W s s'"
| cleanup: "inner P W s (cleanup_request_worker_state W rid s)"

abbreviation inners :: "'p policy_ops \<Rightarrow> 'w pool_ops \<Rightarrow> ('p, 'w) scheduler \<Rightarrow> ('p, 'w) scheduler \<Rightarrow> bool" where
  "inners P W \<equiv> (inner P W)\<^sup>*\<^sup>*"

text \<open>A failure handler whose successful results are sequences of elementary steps.\<close>

definition fail_ok :: "'p policy_ops \<Rightarrow> 'w pool_ops \<Rightarrow> ('p, 'w) fail_op \<Rightarrow> bool" where
  "fail_ok P W fail \<longleftrightarrow> (\<forall>tk r g s s'. fail tk r g s = Inr s' \<longrightarrow> inners P W s s')"

lemma fail_okD: "fail_ok P W fail \<Longrightarrow> fail tk r g s = Inr s' \<Longrightarrow> inners P W s s'"
  unfolding fail_ok_def by blast

lemma for_res_inners:
  assumes "\<And>s x s'. x \<in> set xs \<Longrightarrow> f s x = Inr s' \<Longrightarrow> inners P W s s'" and "for_res f s xs = Inr t"
  shows "inners P W s t"
proof (rule for_res_invariant [where P = "inners P W s", OF _ _ assms(2)])
  fix s1 x s2
  assume "inners P W s s1" and "x \<in> set xs" and "f s1 x = Inr s2"
  then show "inners P W s s2" using assms(1) by (blast intro: rtranclp_trans)
qed simp

lemmas inner_single = r_into_rtranclp [where r = "inner P W" for P W]

lemma inners_step: "inner P W s s1 \<Longrightarrow> inners P W s1 s2 \<Longrightarrow> inners P W s s2"
  by (rule converse_rtranclp_into_rtranclp)

subsection \<open>Dispatch\<close>

lemma on_error_implicit_inners:
  assumes "fail_ok P W fail" "on_error_implicit P fail tk hold exc s = Inr s'"
  shows "inners P W s s'"
proof -
  let ?a = "s\<lparr>sc_policy := po_release_migration_hold P hold (sc_policy s)\<rparr>"
  have "fail tk (''implicit migration failed: '' @ exc) None
          (?a\<lparr>sc_parked_pending := (sc_parked_pending s)(tk := None)\<rparr>) = Inr s'"
    using assms(2) by (simp add: on_error_implicit_def Let_def)
  from fail_okD [OF assms(1) this] show ?thesis
    by (rule inners_step [OF inner.release inners_step [OF inner.park]])
qed

lemma begin_implicit_migration_inners:
  assumes "fail_ok P W fail" "begin_implicit_migration P W fail tk s a = Inr s'"
  shows "inners P W s s'"
proof -
  from assms(2) obtain hold mp cb where
    "(case wo_begin_migration W mp cb (sc_pool s) of
        Inl exc \<Rightarrow> on_error_implicit P fail tk hold exc
                    (s\<lparr>sc_policy := po_acquire_migration_hold P hold (sc_policy s)\<rparr>)
      | Inr w \<Rightarrow> Inr (s\<lparr>sc_policy := po_acquire_migration_hold P hold (sc_policy s), sc_pool := w\<rparr>)) = Inr s'"
    unfolding begin_implicit_migration_def Let_def
    by (auto simp: bind_res_eq_Inr split: if_splits)
  then have "inners P W (s\<lparr>sc_policy := po_acquire_migration_hold P hold (sc_policy s)\<rparr>) s'"
  proof (cases "wo_begin_migration W mp cb (sc_pool s)")
    case (Inl exc)
    then show ?thesis
      using \<open>(case _ of Inl exc \<Rightarrow> _ exc | Inr w \<Rightarrow> _ w) = Inr s'\<close> on_error_implicit_inners [OF assms(1)] by simp
  next
    case (Inr w)
    then have "s' = s\<lparr>sc_policy := po_acquire_migration_hold P hold (sc_policy s)\<rparr>\<lparr>sc_pool := w\<rparr>"
      using \<open>(case _ of Inl exc \<Rightarrow> _ exc | Inr w \<Rightarrow> _ w) = Inr s'\<close> by simp
    moreover have "inner P W (s\<lparr>sc_policy := po_acquire_migration_hold P hold (sc_policy s)\<rparr>)
        (s\<lparr>sc_policy := po_acquire_migration_hold P hold (sc_policy s)\<rparr>\<lparr>sc_pool := w\<rparr>)"
      by (rule inner.begin_mig) (use Inr in simp)
    ultimately show ?thesis by blast
  qed
  then show ?thesis by (rule inners_step [OF inner.acquire])
qed

lemma dispatch_reshard_task_inners:
  assumes "fail_ok P W fail" "dispatch_reshard_task W fail tk s = Inr s'"
  shows "inners P W s s'"
proof -
  define s2 where "s2 = set_task_status tk RUNNING (s\<lparr>sc_artifact_refcounts :=
    drop_input_refs (t_inputs (sc_heap s tk)) (sc_artifact_refcounts s)\<rparr>)"
  from assms(2) obtain dst mp where c:
    "(case wo_begin_migration W mp (ReshardCallback tk dst) (sc_pool s2) of
        Inl exc \<Rightarrow> on_error_reshard fail tk dst exc s2
      | Inr w \<Rightarrow> Inr (s2\<lparr>sc_pool := w\<rparr>)) = Inr s'"
    unfolding dispatch_reshard_task_def Let_def s2_def
    by (auto simp: bind_res_eq_Inr split: if_splits)
  have "inners P W s2 s'"
  proof (cases "wo_begin_migration W mp (ReshardCallback tk dst) (sc_pool s2)")
    case (Inl exc)
    then show ?thesis using c fail_okD [OF assms(1)] by (simp add: on_error_reshard_def)
  next
    case (Inr w)
    then show ?thesis using c inner.begin_mig [OF Inr, of P] by auto
  qed
  then show ?thesis unfolding s2_def
    by (rule inners_step [OF inner.reshard_refs inners_step [OF inner.status]])
qed

lemma dispatch_task_inners:
  assumes "fail_ok P W fail" "dispatch_task P W fail s tk = Inr s'"
  shows "inners P W s s'"
proof (cases "t_kind (sc_heap s tk) = RESHARD")
  case True
  then show ?thesis using assms dispatch_reshard_task_inners by (simp add: dispatch_task_def)
next
  case False
  define s1 where "s1 g = s\<lparr>sc_heap := (sc_heap s)(tk := (sc_heap s tk)\<lparr>t_parallel := g_parallel g\<rparr>)\<rparr>" for g :: group_spec
  have s1: "inner P W s (s1 g)" for g unfolding s1_def by (rule inner.parallel)
  from False assms(2) obtain gid where "t_group_id (sc_heap s tk) = Some gid"
    by (cases "t_group_id (sc_heap s tk)") (simp_all add: dispatch_task_def)
  define F where "F g cross = (if cross = [] then finalize_task_dispatch W tk (s1 g)
      else for_res (begin_implicit_migration P W fail tk)
             (s1 g\<lparr>sc_parked_pending := (sc_parked_pending (s1 g))(tk \<mapsto> int (length cross))\<rparr>) cross)" for g cross
  have "bind_res (get_group (sc_topology P s) gid) (\<lambda>g.
          bind_res (cross_group_inputs (sc_store (s1 g)) (sc_heap (s1 g) tk) (t_inputs (sc_heap (s1 g) tk))) (F g)) = Inr s'"
    using False assms(2) \<open>t_group_id _ = _\<close> unfolding dispatch_task_def Let_def s1_def F_def by simp
  then obtain g cross where "F g cross = Inr s'" by (auto simp: bind_res_eq_Inr)
  then consider (final) "finalize_task_dispatch W tk (s1 g) = Inr s'"
    | (migrate) m where "for_res (begin_implicit_migration P W fail tk) (s1 g\<lparr>sc_parked_pending := m\<rparr>) cross = Inr s'"
    unfolding F_def by meson
  then show ?thesis
  proof cases
    case final
    then show ?thesis by (rule inners_step [OF s1 inner_single [OF inner.finalize]])
  next
    case (migrate m)
    have "inners P W (s1 g\<lparr>sc_parked_pending := m\<rparr>) s'"
      by (rule for_res_inners [OF begin_implicit_migration_inners [OF assms(1)] migrate])
    then show ?thesis by (rule inners_step [OF s1 inners_step [OF inner.park]])
  qed
qed

lemma dispatch_tasks_inners:
  assumes "fail_ok P W fail" "dispatch_tasks P W fail tks s = Inr s'"
  shows "inners P W s s'"
  by (rule for_res_inners [OF dispatch_task_inners [OF assms(1)] assms(2) [unfolded dispatch_tasks_def]])

text \<open>A call of the policy followed by the dispatch of what it returns.\<close>

lemma dispatch_policyE:
  assumes "fail_ok P W fail" "dispatch_policy P W fail op s = Inr s'"
  obtains s1 tks where "call_policy op s = Inr (s1, tks)" "inners P W s1 s'"
  using assms(2) dispatch_tasks_inners [OF assms(1)]
  by (auto simp: dispatch_policy_def bind_res_eq_Inr)

subsection \<open>Events\<close>

lemma emit_request_event_inners:
  assumes "fail_ok P W fail" "k \<in> {REQUEST_FINISHED, REQUEST_FAILED}"
    and "emit_request_event P W fail rid gid k msg s = Inr s'"
  shows "inners P W s s'"
proof (cases "mark_request_event_delivered rid k s")
  case None
  then show ?thesis using assms(3) by (simp add: emit_request_event_def)
next
  case (Some s1)
  let ?ev = "request_event rid gid k msg s1"
  from Some assms(3) have "dispatch_policy P W fail (po_on_worker_event P ?ev) s1 = Inr s'"
    by (simp add: emit_request_event_def)
  then obtain s2 tks where "call_policy (po_on_worker_event P ?ev) s1 = Inr (s2, tks)" "inners P W s2 s'"
    by (rule dispatch_policyE [OF assms(1)])
  moreover from this have "inner P W s s2"
    by (intro inner.request_event [where ev = ?ev, OF _ _ \<open>call_policy _ s1 = _\<close>])
       (use Some assms(2) in \<open>auto simp: request_event_def\<close>)
  ultimately show ?thesis by (blast intro: inners_step)
qed

lemma handle_task_failed_inners:
  assumes "fail_ok P W fail" "handle_task_failed P W fail ev s = Inr s'"
    and "e_kind ev = TASK_FAILED" "e_task_id ev \<in> sc_task_index s"
  shows "inners P W s s'"
proof (cases "e_task_id ev \<in> sc_failed_tasks s")
  case True
  then show ?thesis using assms(2) by (simp add: handle_task_failed_def Let_def)
next
  case False
  define s2 where "s2 = fail_request (t_request_id (sc_heap s (e_task_id ev)))
    (message_or (e_message ev) (''task '' @ e_task_id ev @ '' failed''))
    (set_task_status (e_task_id ev) FAILED (s\<lparr>sc_failed_tasks := insert (e_task_id ev) (sc_failed_tasks s)\<rparr>))"
  from False assms(2) obtain s3 s4 rid where
    a: "dispatch_policy P W fail (po_on_worker_event P ev) s2 = Inr s3"
    and b: "emit_request_event P W fail rid (e_group_id ev) REQUEST_FAILED (e_message ev) s3 = Inr s4"
    and c: "s' = cleanup_request_worker_state W rid s4"
    by (auto simp: handle_task_failed_def Let_def bind_res_eq_Inr s2_def)
  from a obtain s2' tks where d: "call_policy (po_on_worker_event P ev) s2 = Inr (s2', tks)" "inners P W s2' s3"
    by (rule dispatch_policyE [OF assms(1)])
  have "inner P W s s2'"
    by (rule inner.task_failed [where ev = ev, OF assms(4) False assms(3) refl d(1) [unfolded s2_def]])
  moreover have "inners P W s3 s4" by (rule emit_request_event_inners [OF assms(1) _ b]) simp
  moreover have "inner P W s4 s'" unfolding c by (rule inner.cleanup)
  ultimately show ?thesis using d(2) by (meson inners_step rtranclp.rtrancl_into_rtrancl rtranclp_trans)
qed

lemma mark_some_iff:
  "mark_request_event_delivered rid k s = Some s1 \<longleftrightarrow>
     released_key rid k \<notin> sc_released_requests s
     \<and> s1 = s\<lparr>sc_released_requests := insert (released_key rid k) (sc_released_requests s)\<rparr>"
  by (auto simp: mark_request_event_delivered_def)

lemma fail_request_mark:
  assumes "mark_request_event_delivered rid k s = Some s1"
  shows "mark_request_event_delivered rid k (fail_request r msg s) = Some (fail_request r msg s1)"
  using assms by (simp add: mark_some_iff fail_request_def)

lemma handle_request_event_inners:
  assumes "fail_ok P W fail"
  shows "handle_request_finished P W fail ev s = Inr s' \<Longrightarrow> e_kind ev = REQUEST_FINISHED \<Longrightarrow> inners P W s s'"
    and "handle_request_failed P W fail ev s = Inr s' \<Longrightarrow> e_kind ev = REQUEST_FAILED \<Longrightarrow> inners P W s s'"
proof -
  assume h: "handle_request_finished P W fail ev s = Inr s'" and k: "e_kind ev = REQUEST_FINISHED"
  show "inners P W s s'"
  proof (cases "mark_request_event_delivered (e_request_id ev) (e_kind ev) s")
    case None
    then show ?thesis using h by (simp add: handle_request_finished_def)
  next
    case (Some s1)
    with h have "dispatch_policy P W fail (po_on_worker_event P ev) s1 = Inr s'"
      by (simp add: handle_request_finished_def)
    then obtain s2 tks where c: "call_policy (po_on_worker_event P ev) s1 = Inr (s2, tks)" "inners P W s2 s'"
      by (rule dispatch_policyE [OF assms])
    show ?thesis by (rule inners_step [OF inner.request_event [OF Some _ c(1)] c(2)]) (simp add: k)
  qed
next
  assume h: "handle_request_failed P W fail ev s = Inr s'" and k: "e_kind ev = REQUEST_FAILED"
  show "inners P W s s'"
  proof (cases "mark_request_event_delivered (e_request_id ev) (e_kind ev) s")
    case None
    then show ?thesis using h by (simp add: handle_request_failed_def)
  next
    case (Some s1)
    let ?msg = "message_or (e_message ev) (''request '' @ e_request_id ev @ '' failed'')"
    from h Some obtain s3 where "dispatch_policy P W fail (po_on_worker_event P ev) (fail_request (e_request_id ev) ?msg s1) = Inr s3"
      and s': "s' = cleanup_request_worker_state W (e_request_id ev) s3"
      by (auto simp: handle_request_failed_def Let_def bind_res_eq_Inr)
    then obtain s2 tks where c: "call_policy (po_on_worker_event P ev) (fail_request (e_request_id ev) ?msg s1) = Inr (s2, tks)"
        "inners P W s2 s3" by (auto elim: dispatch_policyE [OF assms])
    have "inner P W (fail_request (e_request_id ev) ?msg s) s2"
      by (rule inner.request_event [OF fail_request_mark [OF Some] _ c(1)]) (simp add: k)
    moreover have "inner P W s3 s'" unfolding s' by (rule inner.cleanup)
    ultimately show ?thesis
      using c(2) inner.fail_request [of P W s "e_request_id ev" ?msg]
      by (meson inners_step rtranclp.rtrancl_into_rtrancl)
  qed
qed

subsection \<open>The recursion\<close>

lemma fail_parked_task_ok: "fail_ok P W (fail_parked_task n P W)"
proof (induction n)
  case 0
  show ?case by (auto simp: fail_ok_def split: if_splits)
next
  case (Suc n)
  show ?case unfolding fail_ok_def
  proof (intro allI impI)
    fix tk r g and s s' :: "('a, 'b) scheduler"
    assume a: "fail_parked_task (Suc n) P W tk r g s = Inr s'"
    show "inners P W s s'"
    proof (cases "tk \<in> sc_failed_tasks s \<or> tk \<notin> sc_task_index s")
      case True
      then show ?thesis using a
        by (auto simp: fire_synthetic_event_def handle_worker_event_def handle_task_event_def synthetic_event_def
            split: if_splits)
    next
      case False
      let ?ev = "synthetic_event tk TASK_FAILED (fail_group g (sc_heap s tk)) r s"
      have "handle_task_failed P W (fail_parked_task n P W) ?ev s = Inr s'"
        using a False
        by (simp add: fire_synthetic_event_def handle_worker_event_def handle_task_event_def synthetic_event_def)
      then show ?thesis
        by (rule handle_task_failed_inners [OF Suc.IH]) (use False in \<open>simp_all add: synthetic_event_def\<close>)
    qed
  qed
qed

section \<open>Frames\<close>

lemma call_policyE:
  assumes "call_policy op s = Inr (s', tks)"
  obtains h p where "op (sc_heap s, sc_policy s) = Inr ((h, p), tks)" "s' = s\<lparr>sc_heap := h, sc_policy := p\<rparr>"
  using assms by (auto simp: call_policy_def bind_res_eq_Inr)

lemma finalizeE:
  assumes "finalize_task_dispatch W tk s = Inr s'"
  obtains d inl rel w where
    "for_res (finalize_input (sc_store s)) (sc_artifact_refcounts s, [], []) (t_inputs (sc_heap s tk)) = Inr (d, inl, rel)"
    "wo_dispatch W (sc_heap s tk) inl rel (sc_pool s) = Inr w"
    "s' = s\<lparr>sc_artifact_refcounts := d, sc_pool := w\<rparr>"
  using assms by (auto simp: finalize_task_dispatch_def bind_res_eq_Inr)

lemma set_task_status_frame [simp]:
  "sc_task_index (set_task_status tk x s) = sc_task_index s"
  "sc_failed_tasks (set_task_status tk x s) = sc_failed_tasks s"
  "sc_failed_requests (set_task_status tk x s) = sc_failed_requests s"
  "sc_released_requests (set_task_status tk x s) = sc_released_requests s"
  "sc_cleaned_requests (set_task_status tk x s) = sc_cleaned_requests s"
  "sc_plans (set_task_status tk x s) = sc_plans s"
  "sc_pending_dependencies (set_task_status tk x s) = sc_pending_dependencies s"
  "sc_dependents (set_task_status tk x s) = sc_dependents s"
  "sc_policy (set_task_status tk x s) = sc_policy s"
  "sc_pool (set_task_status tk x s) = sc_pool s"
  "sc_store (set_task_status tk x s) = sc_store s"
  "sc_completed_outputs (set_task_status tk x s) = sc_completed_outputs s"
  "sc_artifact_refcounts (set_task_status tk x s) = sc_artifact_refcounts s"
  "sc_request_artifacts (set_task_status tk x s) = sc_request_artifacts s"
  "sc_pending_output_fetches (set_task_status tk x s) = sc_pending_output_fetches s"
  "sc_heap (set_task_status tk x s) = (sc_heap s)(tk := (sc_heap s tk)\<lparr>t_status := x\<rparr>)"
  by (simp_all add: set_task_status_def)

lemma fail_request_frame [simp]:
  "sc_task_index (fail_request r m s) = sc_task_index s"
  "sc_failed_tasks (fail_request r m s) = sc_failed_tasks s"
  "sc_released_requests (fail_request r m s) = sc_released_requests s"
  "sc_cleaned_requests (fail_request r m s) = sc_cleaned_requests s"
  "sc_plans (fail_request r m s) = sc_plans s"
  "sc_pending_dependencies (fail_request r m s) = sc_pending_dependencies s"
  "sc_dependents (fail_request r m s) = sc_dependents s"
  "sc_policy (fail_request r m s) = sc_policy s"
  "sc_pool (fail_request r m s) = sc_pool s"
  "sc_heap (fail_request r m s) = sc_heap s"
  "sc_store (fail_request r m s) = sc_store s"
  "sc_completed_outputs (fail_request r m s) = sc_completed_outputs s"
  "sc_artifact_refcounts (fail_request r m s) = sc_artifact_refcounts s"
  "sc_request_artifacts (fail_request r m s) = sc_request_artifacts s"
  "sc_pending_output_fetches (fail_request r m s) = sc_pending_output_fetches s"
  by (simp_all add: fail_request_def)

lemma sc_failed_requests_fail_request:
  "sc_failed_requests (fail_request r m s) =
     (if sc_failed_requests s r = None then (sc_failed_requests s)(r \<mapsto> m) else sc_failed_requests s)"
  by (simp add: fail_request_def)

lemmas cleanup_defs =
  cleanup_request_worker_state_def Let_def cleanup_tasks_def drop_refcounts_def discard_pending_fetch_def

lemma cleanup_frame [simp]:
  "sc_heap (cleanup_request_worker_state W r s) = sc_heap s"
  "sc_policy (cleanup_request_worker_state W r s) = sc_policy s"
  "sc_failed_requests (cleanup_request_worker_state W r s) = sc_failed_requests s"
  "sc_failed_tasks (cleanup_request_worker_state W r s) = sc_failed_tasks s"
  "sc_released_requests (cleanup_request_worker_state W r s) = sc_released_requests s"
  "sc_completed_outputs (cleanup_request_worker_state W r s) = sc_completed_outputs s"
  by (simp_all add: cleanup_defs split: option.split)

text \<open>What a clean-up removes: everything of the request, and nothing of another one.\<close>

lemma sc_cleaned_cleanup [simp]:
  "sc_cleaned_requests (cleanup_request_worker_state W r s) = insert r (sc_cleaned_requests s)"
  by (auto simp: cleanup_defs split: option.split)

lemma sc_plans_cleanup:
  "sc_plans (cleanup_request_worker_state W r s) =
     (if r \<in> sc_cleaned_requests s then sc_plans s else (sc_plans s)(r := None))"
  by (simp add: cleanup_defs split: option.split)

definition plan_keys :: "plan option \<Rightarrow> string set" where
  "plan_keys p = (case p of None \<Rightarrow> {} | Some pl \<Rightarrow> set (map fst (p_tasks pl)))"

lemma sc_task_index_cleanup:
  "sc_task_index (cleanup_request_worker_state W r s) =
     (if r \<in> sc_cleaned_requests s then sc_task_index s else sc_task_index s - plan_keys (sc_plans s r))"
  by (simp add: cleanup_defs plan_keys_def split: option.split)

lemma sc_pending_cleanup:
  "sc_pending_dependencies (cleanup_request_worker_state W r s) k =
     (if r \<notin> sc_cleaned_requests s \<and> k \<in> plan_keys (sc_plans s r) then None else sc_pending_dependencies s k)"
  by (simp add: cleanup_defs plan_keys_def split: option.split)

lemma sc_dependents_cleanup:
  "sc_dependents (cleanup_request_worker_state W r s) k =
     (if r \<notin> sc_cleaned_requests s \<and> k \<in> plan_keys (sc_plans s r) then None else sc_dependents s k)"
  by (simp add: cleanup_defs plan_keys_def split: option.split)

lemma inner_failed_tasks:
  assumes "inner P W s s'"
  shows "sc_task_index s' \<subseteq> sc_task_index s \<and> sc_failed_tasks s \<subseteq> sc_failed_tasks s'"
  using assms
  by cases
    (auto elim!: call_policyE finalizeE simp: mark_some_iff sc_task_index_cleanup split: if_splits)

section \<open>The recursion ends\<close>

text \<open>The tasks that a failure can still be reported for bound the depth of the recursion.\<close>

definition shallow :: "nat \<Rightarrow> ('p, 'w) scheduler \<Rightarrow> bool" where
  "shallow n s \<longleftrightarrow> finite (sc_task_index s) \<and> card (sc_task_index s - sc_failed_tasks s) < n"

lemma shallow_inner:
  assumes "shallow n s" "inner P W s s'"
  shows "shallow n s'"
proof -
  have sub: "sc_task_index s' - sc_failed_tasks s' \<subseteq> sc_task_index s - sc_failed_tasks s"
    and "finite (sc_task_index s')"
    using inner_failed_tasks [OF assms(2)] assms(1) by (auto simp: shallow_def intro: finite_subset)
  moreover have "card (sc_task_index s' - sc_failed_tasks s') \<le> card (sc_task_index s - sc_failed_tasks s)"
    by (rule card_mono [OF _ sub]) (use assms(1) in \<open>simp add: shallow_def\<close>)
  ultimately show ?thesis using assms(1) by (simp add: shallow_def)
qed

lemma shallow_inners: "inners P W s s' \<Longrightarrow> shallow n s \<Longrightarrow> shallow n s'"
  by (induction rule: rtranclp_induct) (auto intro: shallow_inner)

text \<open>The collaborators themselves do not exhaust the stack.\<close>

definition calm :: "'p policy_ops \<Rightarrow> 'w pool_ops \<Rightarrow> bool" where
  "calm P W \<longleftrightarrow>
     (\<forall>p x. po_on_request_submitted P p x \<noteq> Inl RecursionError)
     \<and> (\<forall>tks x. po_on_tasks_runnable P tks x \<noteq> Inl RecursionError)
     \<and> (\<forall>ev x. po_on_worker_event P ev x \<noteq> Inl RecursionError)
     \<and> (\<forall>t i r w. wo_dispatch W t i r w \<noteq> Inl RecursionError)"

lemma calmD:
  assumes "calm P W"
  shows "po_on_request_submitted P p x \<noteq> Inl RecursionError" "po_on_tasks_runnable P tks x \<noteq> Inl RecursionError"
    "po_on_worker_event P ev x \<noteq> Inl RecursionError" "wo_dispatch W t i r w \<noteq> Inl RecursionError"
  using assms unfolding calm_def by blast+

definition fail_safe :: "nat \<Rightarrow> ('p, 'w) fail_op \<Rightarrow> bool" where
  "fail_safe n fail \<longleftrightarrow> (\<forall>tk r g s. shallow n s \<longrightarrow> fail tk r g s \<noteq> Inl RecursionError)"

lemma for_res_safe:
  assumes "J s" and "\<And>s x. J s \<Longrightarrow> f s x \<noteq> Inl e" and "\<And>s x s'. J s \<Longrightarrow> f s x = Inr s' \<Longrightarrow> J s'"
  shows "for_res f s xs \<noteq> Inl e"
  using assms(1)
proof (induction xs arbitrary: s)
  case (Cons x xs)
  then show ?case using assms(2,3) [OF Cons.prems] by (cases "f s x") auto
qed simp

lemma for_res_never: "(\<And>s x. f s x \<noteq> Inl e) \<Longrightarrow> for_res f s xs \<noteq> Inl e"
  by (rule for_res_safe [where J = "\<lambda>_. True"]) simp_all

lemma bind_res_never: "m \<noteq> Inl e \<Longrightarrow> (\<And>a. m = Inr a \<Longrightarrow> f a \<noteq> Inl e) \<Longrightarrow> bind_res m f \<noteq> Inl e"
  by (cases m) auto

text \<open>The operations below the collaborators raise other exceptions only.\<close>

lemma never_recursion [simp]:
  "dict_get d k \<noteq> Inl RecursionError"
  "store_get m a \<noteq> Inl RecursionError"
  "get_group T g \<noteq> Inl RecursionError"
  "get_group_leader T g \<noteq> Inl RecursionError"
  "group_of_task T t \<noteq> Inl RecursionError"
  "stored_group v \<noteq> Inl RecursionError"
  "payload_group t k \<noteq> Inl RecursionError"
  "mk_migrate_spec a sh \<noteq> Inl RecursionError"
  "mk_migrate_plan r x y as md \<noteq> Inl RecursionError"
  "needs_migration m t a \<noteq> Inl RecursionError"
  "check_reshard_input m g a \<noteq> Inl RecursionError"
  "finalize_input m acc a \<noteq> Inl RecursionError"
  by (auto simp: store_get_def get_group_def get_group_leader_def group_of_task_def stored_group_def
      payload_group_def mk_migrate_spec_def mk_migrate_plan_def needs_migration_def check_reshard_input_def
      finalize_input_def Let_def bind_res_eq_Inl
      split: if_splits option.splits pyval.splits artifact_payload.splits list.splits prod.splits)

lemma cross_group_inputs_never [simp]: "cross_group_inputs m t as \<noteq> Inl RecursionError"
  by (induction as) (auto simp: bind_res_eq_Inl)

lemma reshard_specs_never [simp]: "reshard_specs ps \<noteq> Inl RecursionError"
  by (induction ps rule: reshard_specs.induct) (auto simp: bind_res_eq_Inl)

lemma count_down_never [simp]: "count_down ds idx pd \<noteq> Inl RecursionError"
  by (induction ds arbitrary: pd) (auto simp: bind_res_eq_Inl split: option.split)

lemma finalize_never: "calm P W \<Longrightarrow> finalize_task_dispatch W tk s \<noteq> Inl RecursionError"
  unfolding finalize_task_dispatch_def calm_def
  by (intro bind_res_never for_res_never) (auto simp: bind_res_eq_Inl split: prod.splits)

lemma on_error_implicit_safe:
  "fail_safe n fail \<Longrightarrow> shallow n s \<Longrightarrow> on_error_implicit P fail tk hold exc s \<noteq> Inl RecursionError"
  by (simp add: on_error_implicit_def Let_def fail_safe_def shallow_def)

lemma begin_implicit_migration_safe:
  assumes "fail_safe n fail" "shallow n s"
  shows "begin_implicit_migration P W fail tk s a \<noteq> Inl RecursionError"
proof -
  have *: "shallow n (s\<lparr>sc_policy := x\<rparr>)" for x using assms(2) by (simp add: shallow_def)
  show ?thesis
    unfolding begin_implicit_migration_def Let_def
    by (auto simp: bind_res_eq_Inl on_error_implicit_safe [OF assms(1)] * split: sum.splits)
qed

lemma dispatch_reshard_task_safe:
  assumes "fail_safe n fail" "shallow n s"
  shows "dispatch_reshard_task W fail tk s \<noteq> Inl RecursionError"
proof -
  have *: "shallow n (set_task_status tk x (s\<lparr>sc_artifact_refcounts := d\<rparr>))" for x d
    using assms(2) by (simp add: shallow_def)
  have f: "fail tk r g (set_task_status tk x (s\<lparr>sc_artifact_refcounts := d\<rparr>)) \<noteq> Inl RecursionError" for x d r g
    using assms(1) * by (simp add: fail_safe_def)
  show ?thesis
    unfolding dispatch_reshard_task_def Let_def on_error_reshard_def
    by (auto simp: bind_res_eq_Inl for_res_never f split: sum.splits)
qed

lemma dispatch_task_safe:
  assumes "calm P W" "fail_ok P W fail" "fail_safe n fail" "shallow n s"
  shows "dispatch_task P W fail s tk \<noteq> Inl RecursionError"
proof -
  have *: "shallow n (s\<lparr>sc_heap := h, sc_parked_pending := m\<rparr>)" "shallow n (s\<lparr>sc_heap := h\<rparr>)" for h m
    using assms(4) by (simp_all add: shallow_def)
  have mig: "for_res (begin_implicit_migration P W fail tk) s' as \<noteq> Inl RecursionError" if "shallow n s'" for s' as
    by (rule for_res_safe [where J = "shallow n", OF that begin_implicit_migration_safe [OF assms(3)]])
       (auto intro: shallow_inners [OF begin_implicit_migration_inners [OF assms(2)]])
  show ?thesis
    unfolding dispatch_task_def Let_def
    by (auto simp: bind_res_eq_Inl mig * finalize_never [OF assms(1)] dispatch_reshard_task_safe [OF assms(3,4)]
        split: option.split if_splits)
qed

lemma dispatch_policy_safe:
  assumes "calm P W" "fail_ok P W fail" "fail_safe n fail" "shallow n s"
    and "op (sc_heap s, sc_policy s) \<noteq> Inl RecursionError"
  shows "dispatch_policy P W fail op s \<noteq> Inl RecursionError"
proof -
  have "dispatch_tasks P W fail tks s' \<noteq> Inl RecursionError" if "shallow n s'" for tks s'
    unfolding dispatch_tasks_def
    by (rule for_res_safe [where J = "shallow n", OF that dispatch_task_safe [OF assms(1,2,3)]])
       (auto intro: shallow_inners [OF dispatch_task_inners [OF assms(2)]])
  moreover have "shallow n (s\<lparr>sc_heap := h, sc_policy := p\<rparr>)" for h p using assms(4) by (simp add: shallow_def)
  ultimately show ?thesis using assms(5)
    by (auto simp: dispatch_policy_def call_policy_def bind_res_eq_Inl bind_res_eq_Inr)
qed

lemma emit_request_event_safe:
  assumes "calm P W" "fail_ok P W fail" "fail_safe n fail" "shallow n s"
  shows "emit_request_event P W fail rid gid k msg s \<noteq> Inl RecursionError"
proof -
  have "shallow n (s\<lparr>sc_released_requests := x\<rparr>)" for x using assms(4) by (simp add: shallow_def)
  then show ?thesis
    by (auto simp: emit_request_event_def mark_some_iff dispatch_policy_safe [OF assms(1-3)] calmD [OF assms(1)]
        split: option.split)
qed

lemma dispatch_policy_shallow:
  assumes "fail_ok P W fail" "shallow n s" "dispatch_policy P W fail op s = Inr s'"
  shows "shallow n s'"
proof -
  from assms(3) obtain s1 tks where c: "call_policy op s = Inr (s1, tks)" "inners P W s1 s'"
    by (rule dispatch_policyE [OF assms(1)])
  then have "shallow n s1" using assms(2) by (auto elim!: call_policyE simp: shallow_def)
  then show ?thesis by (rule shallow_inners [OF c(2)])
qed

text \<open>A nested failure leaves one level less.\<close>

lemma handle_task_failed_safe:
  assumes "calm P W" "fail_ok P W fail" "fail_safe n fail" "shallow (Suc n) s"
    and "e_task_id ev \<in> sc_task_index s"
  shows "handle_task_failed P W fail ev s \<noteq> Inl RecursionError"
proof (cases "e_task_id ev \<in> sc_failed_tasks s")
  case True
  then show ?thesis by (simp add: handle_task_failed_def)
next
  case False
  define s2 where "s2 = fail_request (t_request_id (sc_heap s (e_task_id ev)))
    (message_or (e_message ev) (''task '' @ e_task_id ev @ '' failed''))
    (set_task_status (e_task_id ev) FAILED (s\<lparr>sc_failed_tasks := insert (e_task_id ev) (sc_failed_tasks s)\<rparr>))"
  have fin: "finite (sc_task_index s)" using assms(4) by (simp add: shallow_def)
  have "sc_task_index s - insert (e_task_id ev) (sc_failed_tasks s)
      = (sc_task_index s - sc_failed_tasks s) - {e_task_id ev}" by blast
  then have "card (sc_task_index s - insert (e_task_id ev) (sc_failed_tasks s)) < card (sc_task_index s - sc_failed_tasks s)"
    using False assms(5) fin by (metis Diff_iff card_Diff1_less finite_Diff)
  then have 2: "shallow n s2" using assms(4) by (simp add: shallow_def s2_def)
  note ev = calmD(3) [OF assms(1)]
  show ?thesis
    unfolding handle_task_failed_def Let_def s2_def [symmetric]
  proof (simp add: False, intro bind_res_never)
    show "dispatch_policy P W fail (po_on_worker_event P ev) s2 \<noteq> Inl RecursionError"
      by (rule dispatch_policy_safe [OF assms(1-3) 2 ev])
  next
    fix s3 assume "dispatch_policy P W fail (po_on_worker_event P ev) s2 = Inr s3"
    then have "shallow n s3" by (rule dispatch_policy_shallow [OF assms(2) 2])
    then show "emit_request_event P W fail (t_request_id (sc_heap s (e_task_id ev))) (e_group_id ev) REQUEST_FAILED (e_message ev) s3
        \<noteq> Inl RecursionError"
      by (rule emit_request_event_safe [OF assms(1-3)])
  qed simp
qed

lemma fail_parked_task_safe:
  assumes "calm P W"
  shows "fail_safe n (fail_parked_task n P W)"
proof (induction n)
  case 0
  show ?case by (simp add: fail_safe_def shallow_def)
next
  case (Suc n)
  show ?case unfolding fail_safe_def
  proof (intro allI impI)
    fix tk r g and s :: "('a, 'b) scheduler"
    assume sh: "shallow (Suc n) s"
    let ?ev = "synthetic_event tk TASK_FAILED (fail_group g (sc_heap s tk)) r s"
    have "handle_task_failed P W (fail_parked_task n P W) ?ev s \<noteq> Inl RecursionError" if "tk \<in> sc_task_index s"
      by (rule handle_task_failed_safe [OF assms fail_parked_task_ok Suc.IH sh])
         (simp add: that synthetic_event_def)
    then show "fail_parked_task (Suc n) P W tk r g s \<noteq> Inl RecursionError"
      by (auto simp: fire_synthetic_event_def handle_worker_event_def handle_task_event_def synthetic_event_def)
  qed
qed

text \<open>The entry points.\<close>

lemma launch_dependentsE:
  assumes "launch_dependents tk s = Inr (s', out)"
  obtains pd where "s' = s\<lparr>sc_pending_dependencies := pd\<rparr>"
proof (cases "sc_failed_requests s (t_request_id (sc_heap s tk)) = None")
  case True
  then show ?thesis using assms that by (auto simp: launch_dependents_def bind_res_eq_Inr)
next
  case False
  then have "s' = s\<lparr>sc_pending_dependencies := sc_pending_dependencies s\<rparr>"
    using assms by (simp add: launch_dependents_def)
  then show ?thesis by (rule that)
qed

lemma handle_task_event_safe:
  assumes "calm P W" "fail_ok P W fail" "fail_safe n fail" "shallow n s"
  shows "handle_task_event P W fail ev refs s \<noteq> Inl RecursionError"
proof -
  note safe = dispatch_policy_safe [OF assms(1-3)] and calm = calmD [OF assms(1)]
  have st: "shallow n (set_task_status tk x s)" for tk x using assms(4) by (simp add: shallow_def)
  have "handle_launch_end P W fail ev refs s \<noteq> Inl RecursionError"
    unfolding handle_launch_end_def
  proof (intro bind_res_never)
    show "dispatch_policy P W fail (po_on_worker_event P ev) s \<noteq> Inl RecursionError"
      by (rule safe [OF assms(4) calm(3)])
    fix s1 assume "dispatch_policy P W fail (po_on_worker_event P ev) s = Inr s1"
    then have s1: "shallow n s1" by (rule dispatch_policy_shallow [OF assms(2,4)])
    show "launch_dependents (e_task_id ev) (s1\<lparr>sc_store := publish_outputs refs (sc_store s1)\<rparr>) \<noteq> Inl RecursionError"
      by (auto simp: launch_dependents_def bind_res_eq_Inl)
    fix x assume "launch_dependents (e_task_id ev) (s1\<lparr>sc_store := publish_outputs refs (sc_store s1)\<rparr>) = Inr x"
    then have "shallow n (fst x)" using s1 by (cases x) (auto elim!: launch_dependentsE simp: shallow_def)
    then show "(case x of (s2, out) \<Rightarrow> dispatch_policy P W fail (po_on_tasks_runnable P out) s2) \<noteq> Inl RecursionError"
      by (cases x) (auto simp: safe calm)
  qed
  moreover have "handle_exec_end P W fail ev s \<noteq> Inl RecursionError"
    unfolding handle_exec_end_def Let_def
    using dispatch_policy_shallow [OF assms(2) st] emit_request_event_safe [OF assms(1-3)]
    by (auto simp: bind_res_eq_Inl safe [OF st calm(3)] split: if_splits)
  moreover have "handle_task_failed P W fail ev s \<noteq> Inl RecursionError" if "e_task_id ev \<in> sc_task_index s"
    by (rule handle_task_failed_safe [OF assms(1-3) _ that]) (use assms(4) in \<open>simp add: shallow_def\<close>)
  ultimately show ?thesis
    by (simp add: handle_task_event_def split: worker_event_kind.split)
qed

lemma handle_worker_event_safe:
  assumes "calm P W" "fail_ok P W fail" "fail_safe n fail" "shallow n s"
  shows "handle_worker_event P W fail pe s \<noteq> Inl RecursionError"
proof (cases pe)
  case (WorkerEvent ev refs)
  note safe = dispatch_policy_safe [OF assms(1-3)] and calm = calmD [OF assms(1)]
  have m: "shallow n (s\<lparr>sc_released_requests := x\<rparr>)" "shallow n (fail_request r msg (s\<lparr>sc_released_requests := x\<rparr>))" for x r msg
    using assms(4) by (simp_all add: shallow_def)
  have "handle_request_finished P W fail ev s \<noteq> Inl RecursionError"
    by (auto simp: handle_request_finished_def mark_some_iff safe [OF m(1) calm(3)] split: option.split)
  moreover have "handle_request_failed P W fail ev s \<noteq> Inl RecursionError"
    by (auto simp: handle_request_failed_def Let_def mark_some_iff bind_res_eq_Inl safe [OF m(2) calm(3)] split: option.split)
  ultimately show ?thesis
    using handle_task_event_safe [OF assms] by (simp add: handle_worker_event_def WorkerEvent)
qed (simp add: handle_worker_event_def)


lemma handle_worker_event_shallow:
  assumes "fail_ok P W fail" "shallow n s" "handle_worker_event P W fail pe s = Inr s'"
  shows "shallow n s'"
proof (cases pe)
  case (WorkerReadyMessage r st m)
  then show ?thesis using assms(3) by (simp add: handle_worker_event_def)
next
  case (WorkerEvent ev refs)
  note sh = dispatch_policy_shallow [OF assms(1)]
  have launch: "shallow n s'" if "handle_launch_end P W fail ev refs s = Inr s'"
  proof -
    from that obtain s1 s2 out where
      1: "dispatch_policy P W fail (po_on_worker_event P ev) s = Inr s1"
      and 2: "launch_dependents (e_task_id ev) (s1\<lparr>sc_store := publish_outputs refs (sc_store s1)\<rparr>) = Inr (s2, out)"
      and 3: "dispatch_policy P W fail (po_on_tasks_runnable P out) s2 = Inr s'"
      by (auto simp: handle_launch_end_def bind_res_eq_Inr)
    have "shallow n s2" using 2 sh [OF assms(2) 1] by (auto elim!: launch_dependentsE simp: shallow_def)
    then show ?thesis by (rule sh [OF _ 3])
  qed
  have exec: "shallow n s'" if "handle_exec_end P W fail ev s = Inr s'"
  proof -
    from that obtain s1 where 1: "dispatch_policy P W fail (po_on_worker_event P ev) (set_task_status (e_task_id ev) FINISHED s) = Inr s1"
      and 2: "s' = s1 \<or> (\<exists>rid. emit_request_event P W fail rid (e_group_id ev) REQUEST_FINISHED [] s1 = Inr s')"
      by (auto simp: handle_exec_end_def Let_def bind_res_eq_Inr split: if_splits)
    have "shallow n s1" by (rule sh [OF _ 1]) (use assms(2) in \<open>simp add: shallow_def\<close>)
    then show ?thesis using 2 shallow_inners [OF emit_request_event_inners [OF assms(1)]] by blast
  qed
  have st: "shallow n (set_task_status tk x s)" for tk x using assms(2) by (simp add: shallow_def)
  have task: "shallow n s'" if "handle_task_event P W fail ev refs s = Inr s'"
    using that launch exec st assms(2) shallow_inners [OF handle_task_failed_inners [OF assms(1)]]
    by (auto simp: handle_task_event_def split: if_splits worker_event_kind.splits)
  show ?thesis
    using assms(2,3) task shallow_inners [OF handle_request_event_inners(1) [OF assms(1)]]
      shallow_inners [OF handle_request_event_inners(2) [OF assms(1)]]
    by (auto simp: handle_worker_event_def WorkerEvent split: if_splits)
qed

lemma fire_callback_safe:
  assumes "calm P W" "fail_ok P W fail" "fail_safe n fail" "shallow n s"
  shows "fire_callback P W fail cb oc s \<noteq> Inl RecursionError"
proof -
  have f: "fail tk r g s' \<noteq> Inl RecursionError" if "shallow n s'" for tk r g s'
    using assms(3) that by (simp add: fail_safe_def)
  note ev = handle_worker_event_safe [OF assms(1-3)]
  have p: "shallow n (s\<lparr>sc_policy := p, sc_parked_pending := m\<rparr>)" for p m using assms(4) by (simp add: shallow_def)
  have "on_done_implicit P W fail tk a dst hold s \<noteq> Inl RecursionError" for tk a dst hold
    by (auto simp: on_done_implicit_def Let_def bind_res_eq_Inl f [OF p] finalize_never [OF assms(1)] split: if_splits)
  moreover have "on_done_reshard P W fail tk dst s \<noteq> Inl RecursionError" for tk dst
    using handle_worker_event_shallow [OF assms(2,4)]
    by (auto simp: on_done_reshard_def Let_def bind_res_eq_Inl f [OF assms(4)] fire_synthetic_event_def ev assms(4) split: if_splits)
  ultimately show ?thesis
    using on_error_implicit_safe [OF assms(3,4)] f [OF assms(4)]
    by (simp add: fire_callback_def on_error_reshard_def split: mig_callback.split option.split)
qed


section \<open>More depth does not change a result\<close>

text \<open>\<open>approx m m'\<close>: either \<open>m\<close> ran out of stack, or \<open>m'\<close> is the same result.\<close>

definition approx :: "'a res \<Rightarrow> 'a res \<Rightarrow> bool" where
  "approx m m' \<longleftrightarrow> m = Inl RecursionError \<or> m' = m"

named_theorems approx_intros \<open>congruence of approximation\<close>

lemma approx_refl [simp, approx_intros]: "approx m m"
  by (simp add: approx_def)

lemma approx_bind [approx_intros]:
  "approx m m' \<Longrightarrow> (\<And>a. approx (f a) (f' a)) \<Longrightarrow> approx (bind_res m f) (bind_res m' f')"
  by (cases m) (auto simp: approx_def)

lemma approx_for:
  assumes "\<And>s x. approx (f s x) (f' s x)"
  shows "approx (for_res f s xs) (for_res f' s xs)"
  by (induction xs arbitrary: s) (auto intro!: approx_intros assms)

lemma approx_if [approx_intros]: "approx a a' \<Longrightarrow> approx b b' \<Longrightarrow> approx (if c then a else b) (if c then a' else b')"
  by simp

definition fail_le :: "('p, 'w) fail_op \<Rightarrow> ('p, 'w) fail_op \<Rightarrow> bool" where
  "fail_le f g \<longleftrightarrow> (\<forall>tk r x s. approx (f tk r x s) (g tk r x s))"

lemma fail_leD: "fail_le f g \<Longrightarrow> approx (f tk r x s) (g tk r x s)"
  by (simp add: fail_le_def)

lemma begin_implicit_migration_approx:
  "fail_le f g \<Longrightarrow> approx (begin_implicit_migration P W f tk s a) (begin_implicit_migration P W g tk s a)"
  unfolding begin_implicit_migration_def on_error_implicit_def Let_def
  by (intro approx_intros) (auto split: sum.split intro: fail_leD)

lemma dispatch_reshard_task_approx:
  "fail_le f g \<Longrightarrow> approx (dispatch_reshard_task W f tk s) (dispatch_reshard_task W g tk s)"
  unfolding dispatch_reshard_task_def on_error_reshard_def Let_def
  by (intro approx_intros) (auto split: sum.split intro: fail_leD)

lemma dispatch_policy_approx:
  assumes "fail_le f g"
  shows "approx (dispatch_policy P W f op s) (dispatch_policy P W g op s)"
proof -
  have "approx (dispatch_task P W f s tk) (dispatch_task P W g s tk)" for s :: "('a, 'b) scheduler" and tk
    using begin_implicit_migration_approx [OF assms] dispatch_reshard_task_approx [OF assms]
    by (auto simp: dispatch_task_def Let_def split: option.split intro!: approx_intros approx_for)
  then show ?thesis
    unfolding dispatch_policy_def dispatch_tasks_def by (auto intro!: approx_intros approx_for split: prod.split)
qed

lemma emit_request_event_approx:
  "fail_le f g \<Longrightarrow> approx (emit_request_event P W f rid gid k msg s) (emit_request_event P W g rid gid k msg s)"
  by (auto simp: emit_request_event_def dispatch_policy_approx split: option.split)

lemma handle_worker_event_approx:
  assumes "fail_le f g"
  shows "approx (handle_worker_event P W f pe s) (handle_worker_event P W g pe s)"
proof -
  note d = dispatch_policy_approx [OF assms] and e = emit_request_event_approx [OF assms]
  have "approx (handle_launch_end P W f ev refs s) (handle_launch_end P W g ev refs s)"
    "approx (handle_exec_end P W f ev s) (handle_exec_end P W g ev s)"
    "approx (handle_task_failed P W f ev s) (handle_task_failed P W g ev s)"
    "approx (handle_request_finished P W f ev s) (handle_request_finished P W g ev s)"
    "approx (handle_request_failed P W f ev s) (handle_request_failed P W g ev s)" for ev refs
    unfolding handle_launch_end_def handle_exec_end_def handle_task_failed_def Let_def
      handle_request_finished_def handle_request_failed_def
    by (auto intro!: approx_intros d e split: prod.split option.split)
  then show ?thesis
    by (auto simp: handle_worker_event_def handle_task_event_def split: pool_event.split worker_event_kind.split)
qed

lemma fire_callback_approx:
  assumes "fail_le f g"
  shows "approx (fire_callback P W f cb oc s) (fire_callback P W g cb oc s)"
  using fail_leD [OF assms] handle_worker_event_approx [OF assms]
  by (auto simp: fire_callback_def on_done_implicit_def on_done_reshard_def on_error_implicit_def on_error_reshard_def
      fire_synthetic_event_def Let_def split: mig_callback.split option.split intro!: approx_intros)

lemma fail_parked_task_le: "fail_le (fail_parked_task n P W) (fail_parked_task (n + k) P W)"
proof (induction n)
  case 0
  show ?case by (cases k) (auto simp: fail_le_def approx_def)
next
  case (Suc n)
  then show ?case
    using handle_worker_event_approx [OF Suc] by (auto simp: fail_le_def fire_synthetic_event_def)
qed

text \<open>
  C6: The mutual recursion of dispatch and failure handling ends. When the recursion may go as
  deep as the number of registered tasks that have not failed, plus one, neither the handling of
  an event nor a migration callback runs out of stack (if the policy and the pool do not), and
  any larger depth gives the same result.
\<close>

theorem recursion_ends:
  fixes s :: "('p, 'w) scheduler"
  assumes "calm P W" and "finite (sc_task_index s)" and "card (sc_task_index s - sc_failed_tasks s) < n"
  shows "handle_worker_event P W (fail_parked_task n P W) pe s \<noteq> Inl RecursionError
    \<and> fire_callback P W (fail_parked_task n P W) cb oc s \<noteq> Inl RecursionError
    \<and> handle_worker_event P W (fail_parked_task (n + k) P W) pe s
          = handle_worker_event P W (fail_parked_task n P W) pe s
    \<and> fire_callback P W (fail_parked_task (n + k) P W) cb oc s
          = fire_callback P W (fail_parked_task n P W) cb oc s"
proof -
  have sh: "shallow n s" using assms(2,3) by (simp add: shallow_def)
  note ctx = fail_parked_task_ok [of P W n] fail_parked_task_safe [OF assms(1), of n]
    and le = fail_parked_task_le [of n P W k]
  have "handle_worker_event P W (fail_parked_task n P W) pe s \<noteq> Inl RecursionError"
    by (rule handle_worker_event_safe [OF assms(1) ctx sh])
  moreover have "fire_callback P W (fail_parked_task n P W) cb oc s \<noteq> Inl RecursionError"
    by (rule fire_callback_safe [OF assms(1) ctx sh])
  ultimately show ?thesis
    using handle_worker_event_approx [OF le, of P W pe s] fire_callback_approx [OF le, of P W cb oc s]
    by (simp add: approx_def)
qed

section \<open>The disaggregated policy under the scheduler\<close>

definition disaggregate_ops :: "disaggregate policy_ops" where
  "disaggregate_ops =
     \<lparr>po_topology = dg_topology, po_on_request_submitted = disaggregate_submit,
      po_on_tasks_runnable = disaggregate_runnable, po_on_worker_event = disaggregate_event,
      po_acquire_migration_hold = (\<lambda>_ p. p), po_release_migration_hold = (\<lambda>_ p. p)\<rparr>"

text \<open>A worker pool that records the calls it gets and refuses migrations of some requests.\<close>

datatype pool_call =
    PoolDispatch string "artifact_value list" "string list"
  | PoolBegin migrate_plan mig_callback
  | PoolEvict string
  | PoolFetch string string "string list"
  | PoolDiscard string

definition recording_pool :: "(string \<Rightarrow> bool) \<Rightarrow> pool_call list pool_ops" where
  "recording_pool refuse =
     \<lparr>wo_dispatch = (\<lambda>t inl rel w. Inr (w @ [PoolDispatch (t_id t) inl rel])),
      wo_begin_migration = (\<lambda>mp cb w. if refuse (mp_request_id mp) then Inl ''refused'' else Inr (w @ [PoolBegin mp cb])),
      wo_evict_request = (\<lambda>rid w. w @ [PoolEvict rid]),
      wo_fetch_artifacts = (\<lambda>rid gid aids w. Inl TimeoutError),
      wo_start_fetch_artifacts = Some (\<lambda>rid gid aids w. Inr (w @ [PoolFetch rid gid aids], ''f'' @ rid)),
      wo_poll_fetch_artifacts = Some (\<lambda>fid w. Inr (w, Some \<lparr>fr_fetch_id = fid, fr_artifacts = [], fr_error = Some ''lost''\<rparr>)),
      wo_discard_fetch = Some (\<lambda>fid w. w @ [PoolDiscard fid])\<rparr>"

lemma validate_task_never [simp]: "validate_task T t \<noteq> Inl RecursionError"
  by (auto simp: validate_task_def bind_res_eq_Inl split: option.splits)

lemma take_reshards_never [simp]: "take_reshards q h st \<noteq> Inl RecursionError"
proof (induction q arbitrary: h st)
  case (Cons tk q)
  have "payload_str t k \<noteq> Inl RecursionError" for t k
    by (auto simp: payload_str_def split: option.splits pyval.splits)
  then show ?case using Cons by (auto simp: bind_res_eq_Inl)
qed simp

lemma take_dispatchable_tasks_never [simp]: "take_dispatchable_tasks x \<noteq> Inl RecursionError"
  by (cases x) (auto simp: take_dispatchable_tasks_def bind_res_eq_Inl Let_def split: prod.splits)

lemma disaggregate_runnable_never: "disaggregate_runnable tks x \<noteq> Inl RecursionError"
  unfolding disaggregate_runnable_def on_tasks_runnable_def
  by (intro bind_res_never for_res_never)
     (auto simp: enqueue_task_def bind_res_eq_Inl Let_def split: prod.splits if_splits option.splits)

lemma disaggregate_calm: "calm disaggregate_ops (recording_pool refuse)"
proof -
  have "disaggregate_submit p x \<noteq> Inl RecursionError" for p x
    using disaggregate_runnable_never [of "root_tasks p" x] by (simp add: disaggregate_submit_def disaggregate_runnable_def)
  moreover have "disaggregate_event ev x \<noteq> Inl RecursionError" for ev x
    by (cases x) (simp add: disaggregate_event_def on_worker_event_def Let_def)
  ultimately show ?thesis
    by (auto simp: calm_def disaggregate_ops_def recording_pool_def disaggregate_runnable_never)
qed

text \<open>
  A request of two tasks on different groups: the second reads what the first published, so it
  needs an implicit migration, which the pool refuses for request \<open>x\<close>.
\<close>

definition ex_request_handle :: "string \<Rightarrow> string \<Rightarrow> artifact_handle" where
  "ex_request_handle rid aid =
     \<lparr>h_request_id = rid, h_artifact_id = aid, h_kind = TENSOR, h_layout = WORKER_LOCAL,
      h_producer_task_id = None, h_codec_id = Some ''codec'', h_metadata = []\<rparr>"

definition ex_encode :: "string \<Rightarrow> task" where
  "ex_encode rid = (ex_task (rid @ ''1'') ''a'')\<lparr>t_request_id := rid, t_kind := TEXT_ENCODE,
     t_inputs := [ex_request_handle rid ''req''], t_outputs := [ex_request_handle rid ''state'']\<rparr>"

definition ex_final :: "string \<Rightarrow> task" where
  "ex_final rid = (ex_task (rid @ ''2'') ''c'')\<lparr>t_request_id := rid, t_kind := FINALIZE,
     t_dependencies := [rid @ ''1''], t_inputs := [ex_request_handle rid ''state''],
     t_outputs := [ex_request_handle rid ''out'']\<rparr>"

definition ex_pipeline :: "string \<Rightarrow> plan" where
  "ex_pipeline rid =
     \<lparr>p_request_id = rid, p_tasks = [(rid @ ''1'', ex_encode rid), (rid @ ''2'', ex_final rid)],
      p_terminal = [rid @ ''2''],
      p_initial = [\<lparr>av_handle = ex_request_handle rid ''req'', av_value = HostVal PyNone\<rparr>], p_metadata = []\<rparr>"

definition ex_launched :: "string \<Rightarrow> pool_event" where
  "ex_launched rid =
     WorkerEvent
       \<lparr>e_event_id = ''e'', e_task_id = rid @ ''1'', e_request_id = rid, e_group_id = ''a'', e_worker_rank = 0,
        e_kind = TASK_LAUNCH_END, e_timestamp_ns = 0, e_message = [], e_metadata = []\<rparr>
       [\<lparr>wr_handle = ex_request_handle rid ''state'', wr_group_id = ''a'', wr_worker_rank = 0\<rparr>]"

abbreviation ex_pool :: "pool_call list pool_ops" where
  "ex_pool \<equiv> recording_pool (\<lambda>rid. rid = ''x'')"

abbreviation ex_fail :: "nat \<Rightarrow> (disaggregate, pool_call list) fail_op" where
  "ex_fail n \<equiv> fail_parked_task n disaggregate_ops ex_pool"

definition ex_start :: "(disaggregate, pool_call list) scheduler" where
  "ex_start = scheduler_init ex_heap (disaggregate_init ex_topology None None) []"

lemma ex_submit:
  "case submit_request disaggregate_ops ex_pool (ex_fail 3) (Inr (ex_pipeline ''x'')) ex_start of
     Inl _ \<Rightarrow> False
   | Inr (s, rid) \<Rightarrow> rid = ''x'' \<and> sc_task_index s = {''x1'', ''x2''} \<and> sc_failed_tasks s = {}
       \<and> sc_pool s = [PoolDispatch ''x1'' [\<lparr>av_handle = ex_request_handle ''x'' ''req'', av_value = HostVal PyNone\<rparr>] [''req'']]
       \<and> (case handle_worker_event disaggregate_ops ex_pool (ex_fail 3) (ex_launched ''x'') s of
            Inl _ \<Rightarrow> False
          | Inr s' \<Rightarrow> sc_failed_tasks s' = {''x2''} \<and> sc_task_index s' = {} \<and> sc_cleaned_requests s' = {''x''})"
  by code_simp

theorem recursion_ends_witness:
  "\<exists>s. submit_request disaggregate_ops ex_pool (ex_fail 3) (Inr (ex_pipeline ''x'')) ex_start = Inr (s, ''x'')
     \<and> handle_worker_event disaggregate_ops ex_pool (ex_fail 3) (ex_launched ''x'') s \<noteq> Inl RecursionError
     \<and> handle_worker_event disaggregate_ops ex_pool (ex_fail (3 + 4)) (ex_launched ''x'') s
         = handle_worker_event disaggregate_ops ex_pool (ex_fail 3) (ex_launched ''x'') s"
proof -
  obtain s where s: "submit_request disaggregate_ops ex_pool (ex_fail 3) (Inr (ex_pipeline ''x'')) ex_start = Inr (s, ''x'')"
    "sc_task_index s = {''x1'', ''x2''}" "sc_failed_tasks s = {}"
    using ex_submit by (auto split: sum.splits)
  have "finite (sc_task_index s)" "card (sc_task_index s - sc_failed_tasks s) < 3" by (simp_all add: s(2,3))
  from recursion_ends [OF disaggregate_calm this] s(1) show ?thesis by blast
qed

end
