(* ===== verification/SchedulerRuns.thy ===== *)
theory SchedulerRuns
  imports SchedulerSteps
begin

text \<open>
  Runs of the scheduler: all its entry points, in any order, with any policy and any worker pool.
  What the policy is told is observed by wrapping its operations with a log, so that the
  statements hold for every policy. Shown here: which notifications a policy gets at most once,
  and what the scheduler keeps of a failed request.
\<close>

section \<open>Observing the policy\<close>

datatype policy_call =
    Submitted plan
  | Offered "string list"
  | Notified worker_event
  | Held "int list"
  | Unheld "int list"

definition log_call :: "policy_call \<Rightarrow> 'p dispatch \<Rightarrow> ('p \<times> policy_call list) dispatch" where
  "log_call c op s =
     (case s of (h, p, l) \<Rightarrow> bind_res (op (h, p)) (\<lambda>((h', p'), tks). Inr ((h', p', l @ [c]), tks)))"

definition log_policy :: "'p policy_ops \<Rightarrow> ('p \<times> policy_call list) policy_ops" where
  "log_policy P =
     \<lparr>po_topology = (\<lambda>(p, l). po_topology P p),
      po_on_request_submitted = (\<lambda>p. log_call (Submitted p) (po_on_request_submitted P p)),
      po_on_tasks_runnable = (\<lambda>tks. log_call (Offered tks) (po_on_tasks_runnable P tks)),
      po_on_worker_event = (\<lambda>ev. log_call (Notified ev) (po_on_worker_event P ev)),
      po_acquire_migration_hold = (\<lambda>rs (p, l). (po_acquire_migration_hold P rs p, l @ [Held rs])),
      po_release_migration_hold = (\<lambda>rs (p, l). (po_release_migration_hold P rs p, l @ [Unheld rs]))\<rparr>"

definition sc_log :: "('p \<times> policy_call list, 'w) scheduler \<Rightarrow> policy_call list" where
  "sc_log s = snd (sc_policy s)"

text \<open>The logged calls, as rules for the simplifier.\<close>

lemma call_logE:
  assumes "call_policy (log_call c op) s = Inr (s', tks)"
  obtains h p where "op (sc_heap s, fst (sc_policy s)) = Inr ((h, p), tks)"
    "s' = s\<lparr>sc_heap := h, sc_policy := (p, sc_log s @ [c])\<rparr>"
  using assms by (cases "sc_policy s") (auto simp: call_policy_def log_call_def sc_log_def bind_res_eq_Inr)

lemma log_policy_sel [simp]:
  "po_on_request_submitted (log_policy P) p = log_call (Submitted p) (po_on_request_submitted P p)"
  "po_on_tasks_runnable (log_policy P) tks = log_call (Offered tks) (po_on_tasks_runnable P tks)"
  "po_on_worker_event (log_policy P) ev = log_call (Notified ev) (po_on_worker_event P ev)"
  "snd (po_acquire_migration_hold (log_policy P) rs x) = snd x @ [Held rs]"
  "snd (po_release_migration_hold (log_policy P) rs x) = snd x @ [Unheld rs]"
  by (simp_all add: log_policy_def split_beta)

section \<open>Steps of the entry points\<close>

text \<open>The state in which \<open>submit_request\<close> calls the policy.\<close>

definition register_plan ::
  "topology \<Rightarrow> plan \<Rightarrow> ('p, 'w) scheduler \<Rightarrow> ('p, 'w) scheduler res" where
  "register_plan T p s =
     bind_res (for_res (register_task T)
         (s\<lparr>sc_heap := install_tasks (map snd (p_tasks p)) (sc_heap s),
            sc_plans := (sc_plans s)(p_request_id p \<mapsto> p),
            sc_store := fold (\<lambda>v m. store_put m (av_handle v) (av_value v)) (p_initial p) (sc_store s)\<rparr>, {})
         (map snd (p_tasks p)))
       (\<lambda>(s2, arts). Inr (s2\<lparr>sc_request_artifacts := (sc_request_artifacts s2)
          (p_request_id p \<mapsto> arts \<union> artifact_key ` av_handle ` set (p_initial p))\<rparr>))"

lemma submit_request_register:
  "submit_request P W fail (Inr p) s =
     bind_res (register_plan (sc_topology P s) p s) (\<lambda>s1.
     bind_res (dispatch_policy P W fail (po_on_request_submitted P p) s1) (\<lambda>s2. Inr (s2, p_request_id p)))"
  unfolding submit_request_def register_plan_def Let_def
  by (cases "for_res (register_task (sc_topology P s))
         (s\<lparr>sc_heap := install_tasks (map snd (p_tasks p)) (sc_heap s),
            sc_plans := (sc_plans s)(p_request_id p \<mapsto> p),
            sc_store := fold (\<lambda>v m. store_put m (av_handle v) (av_value v)) (p_initial p) (sc_store s)\<rparr>, {})
         (map snd (p_tasks p))") auto

text \<open>
  The quiet steps: nothing is launched, offered, submitted or released. A worker event adds the
  launch of a task and the offer of the tasks it makes runnable; the remaining entry points add
  the submission of a plan and the release of a request.
\<close>

inductive quiet_step ::
  "'p policy_ops \<Rightarrow> 'w pool_ops \<Rightarrow> ('p, 'w) scheduler \<Rightarrow> ('p, 'w) scheduler \<Rightarrow> bool"
  for P W where
  small: "inner P W s s' \<Longrightarrow> quiet_step P W s s'"
| exec_end: "e_kind ev = TASK_EXEC_END \<Longrightarrow>
    call_policy (po_on_worker_event P ev) s = Inr (s', tks) \<Longrightarrow> quiet_step P W s s'"
| store: "quiet_step P W s (s\<lparr>sc_store := m\<rparr>)"
| fetch: "x = None \<or> sc_plans s rid \<noteq> None \<Longrightarrow>
    quiet_step P W s (s\<lparr>sc_pool := w, sc_pending_output_fetches := (sc_pending_output_fetches s)(rid := x)\<rparr>)"
| pool: "quiet_step P W s (s\<lparr>sc_pool := w\<rparr>)"
| complete: "quiet_step P W s (s\<lparr>sc_completed_outputs := c\<rparr>)"
| clock: "quiet_step P W s (s\<lparr>sc_now := t\<rparr>)"

inductive event_step ::
  "'p policy_ops \<Rightarrow> 'w pool_ops \<Rightarrow> ('p, 'w) scheduler \<Rightarrow> ('p, 'w) scheduler \<Rightarrow> bool"
  for P W where
  quiet_step: "quiet_step P W s s' \<Longrightarrow> event_step P W s s'"
| launch: "e_kind ev = TASK_LAUNCH_END \<Longrightarrow>
    call_policy (po_on_worker_event P ev) s = Inr (s', tks) \<Longrightarrow> event_step P W s s'"
| offer: "launch_dependents tk s = Inr (s1, out) \<Longrightarrow>
    call_policy (po_on_tasks_runnable P out) s1 = Inr (s', tks) \<Longrightarrow> event_step P W s s'"

inductive outer ::
  "'p policy_ops \<Rightarrow> 'w pool_ops \<Rightarrow> ('p, 'w) scheduler \<Rightarrow> ('p, 'w) scheduler \<Rightarrow> bool"
  for P W where
  event_step: "event_step P W s s' \<Longrightarrow> outer P W s s'"
| submit: "register_plan (sc_topology P s) p s = Inr s1 \<Longrightarrow>
    call_policy (po_on_request_submitted P p) s1 = Inr (s', tks) \<Longrightarrow> outer P W s s'"
| retire: "outer P W s (release_request W rid s)"

abbreviation quiet_steps :: "'p policy_ops \<Rightarrow> 'w pool_ops \<Rightarrow> ('p, 'w) scheduler \<Rightarrow> ('p, 'w) scheduler \<Rightarrow> bool" where
  "quiet_steps P W \<equiv> (quiet_step P W)\<^sup>*\<^sup>*"

abbreviation event_steps :: "'p policy_ops \<Rightarrow> 'w pool_ops \<Rightarrow> ('p, 'w) scheduler \<Rightarrow> ('p, 'w) scheduler \<Rightarrow> bool" where
  "event_steps P W \<equiv> (event_step P W)\<^sup>*\<^sup>*"

abbreviation outers :: "'p policy_ops \<Rightarrow> 'w pool_ops \<Rightarrow> ('p, 'w) scheduler \<Rightarrow> ('p, 'w) scheduler \<Rightarrow> bool" where
  "outers P W \<equiv> (outer P W)\<^sup>*\<^sup>*"

lemma inners_quiets: "inners P W s s' \<Longrightarrow> quiet_steps P W s s'"
  by (rule mono_rtranclp [rule_format]) (rule quiet_step.small)

lemma quiets_events: "quiet_steps P W s s' \<Longrightarrow> event_steps P W s s'"
  by (rule mono_rtranclp [rule_format]) (rule event_step.quiet_step)

lemma events_outers: "event_steps P W s s' \<Longrightarrow> outers P W s s'"
  by (rule mono_rtranclp [rule_format]) (rule outer.event_step)

lemmas quiets_outers = events_outers [OF quiets_events]

lemma quiets_step: "quiet_step P W s s1 \<Longrightarrow> quiet_steps P W s1 s2 \<Longrightarrow> quiet_steps P W s s2"
  by (rule converse_rtranclp_into_rtranclp)

lemma events_step: "event_step P W s s1 \<Longrightarrow> event_steps P W s1 s2 \<Longrightarrow> event_steps P W s s2"
  by (rule converse_rtranclp_into_rtranclp)

lemma outers_step: "outer P W s s1 \<Longrightarrow> outers P W s1 s2 \<Longrightarrow> outers P W s s2"
  by (rule converse_rtranclp_into_rtranclp)

lemmas quiet_single = r_into_rtranclp [where r = "quiet_step P W" for P W]

subsection \<open>Worker events\<close>

lemma handle_launch_endE:
  assumes "fail_ok P W fail" "handle_launch_end P W fail ev refs s = Inr s'"
  obtains sa tks s1 s2 out sb tks' where
    "call_policy (po_on_worker_event P ev) s = Inr (sa, tks)" "inners P W sa s1"
    "launch_dependents (e_task_id ev) (s1\<lparr>sc_store := publish_outputs refs (sc_store s1)\<rparr>) = Inr (s2, out)"
    "call_policy (po_on_tasks_runnable P out) s2 = Inr (sb, tks')" "inners P W sb s'"
proof -
  from assms(2) obtain s1 s2 out where
    1: "dispatch_policy P W fail (po_on_worker_event P ev) s = Inr s1"
    and 2: "launch_dependents (e_task_id ev) (s1\<lparr>sc_store := publish_outputs refs (sc_store s1)\<rparr>) = Inr (s2, out)"
    and 3: "dispatch_policy P W fail (po_on_tasks_runnable P out) s2 = Inr s'"
    by (auto simp: handle_launch_end_def bind_res_eq_Inr)
  show thesis
    by (rule dispatch_policyE [OF assms(1) 1], rule dispatch_policyE [OF assms(1) 3]) (rule that [OF _ _ 2])
qed

lemma handle_launch_end_steps:
  assumes "fail_ok P W fail" "handle_launch_end P W fail ev refs s = Inr s'" "e_kind ev = TASK_LAUNCH_END"
  shows "event_steps P W s s'"
proof -
  obtain sa tks s1 s2 out sb tks' where
    a: "call_policy (po_on_worker_event P ev) s = Inr (sa, tks)" "inners P W sa s1"
    and 2: "launch_dependents (e_task_id ev) (s1\<lparr>sc_store := publish_outputs refs (sc_store s1)\<rparr>) = Inr (s2, out)"
    and b: "call_policy (po_on_tasks_runnable P out) s2 = Inr (sb, tks')" "inners P W sb s'"
    by (rule handle_launch_endE [OF assms(1,2)])
  have "event_steps P W (s1\<lparr>sc_store := publish_outputs refs (sc_store s1)\<rparr>) s'"
    by (rule events_step [OF event_step.offer [OF 2 b(1)] quiets_events [OF inners_quiets [OF b(2)]]])
  then show ?thesis
    using event_step.launch [OF assms(3) a(1), of W] quiets_events [OF inners_quiets [OF a(2)]]
      event_step.quiet_step [OF quiet_step.store [of P W s1 "publish_outputs refs (sc_store s1)"]]
    by (meson events_step rtranclp_trans)
qed

lemma handle_exec_end_quiets:
  assumes "fail_ok P W fail" "handle_exec_end P W fail ev s = Inr s'" "e_kind ev = TASK_EXEC_END"
  shows "quiet_steps P W s s'"
proof -
  from assms(2) obtain s1 where 1: "dispatch_policy P W fail (po_on_worker_event P ev) (set_task_status (e_task_id ev) FINISHED s) = Inr s1"
    and 2: "s' = s1 \<or> (\<exists>rid. emit_request_event P W fail rid (e_group_id ev) REQUEST_FINISHED [] s1 = Inr s')"
    by (auto simp: handle_exec_end_def Let_def bind_res_eq_Inr split: if_splits)
  from 1 obtain sa tks where a: "call_policy (po_on_worker_event P ev) (set_task_status (e_task_id ev) FINISHED s) = Inr (sa, tks)"
    "inners P W sa s1" by (rule dispatch_policyE [OF assms(1)])
  have "inners P W s1 s'" using 2 emit_request_event_inners [OF assms(1)] by blast
  then show ?thesis
    using a(2) quiet_step.exec_end [OF assms(3) a(1), of W] quiet_step.small [OF inner.status [of P W s "e_task_id ev" FINISHED]]
      inners_quiets
    by (meson quiets_step rtranclp_trans)
qed

lemma handle_worker_event_quiets:
  assumes "fail_ok P W fail" "handle_worker_event P W fail (WorkerEvent ev refs) s = Inr s'" "e_kind ev \<noteq> TASK_LAUNCH_END"
  shows "quiet_steps P W s s'"
proof -
  have "quiet_steps P W s (set_task_status tk x s)" for tk x by (rule quiet_single [OF quiet_step.small [OF inner.status]])
  then have "quiet_steps P W s s'" if "handle_task_event P W fail ev refs s = Inr s'"
    using that assms(3) handle_exec_end_quiets [OF assms(1)] inners_quiets [OF handle_task_failed_inners [OF assms(1)]]
    by (auto simp: handle_task_event_def split: if_splits worker_event_kind.splits)
  then show ?thesis
    using assms(2) inners_quiets [OF handle_request_event_inners(1) [OF assms(1)]]
      inners_quiets [OF handle_request_event_inners(2) [OF assms(1)]]
    by (auto simp: handle_worker_event_def split: if_splits)
qed

lemma handle_launch_event:
  "e_kind ev = TASK_LAUNCH_END \<Longrightarrow>
   handle_worker_event P W fail (WorkerEvent ev refs) s =
     (if e_task_id ev \<in> sc_task_index s then handle_launch_end P W fail ev refs s else Inr s)"
  by (simp add: handle_worker_event_def handle_task_event_def)

lemma handle_worker_event_steps:
  assumes "fail_ok P W fail" "handle_worker_event P W fail pe s = Inr s'"
  shows "event_steps P W s s'"
proof (cases pe)
  case (WorkerReadyMessage r st m)
  then show ?thesis using assms(2) by (simp add: handle_worker_event_def)
next
  case (WorkerEvent ev refs)
  show ?thesis
  proof (cases "e_kind ev = TASK_LAUNCH_END")
    case True
    then show ?thesis
      using assms(2) handle_launch_end_steps [OF assms(1) _ True]
      by (auto simp: WorkerEvent handle_launch_event split: if_splits)
  next
    case False
    then show ?thesis
      using assms(2) handle_worker_event_quiets [OF assms(1)] by (auto simp: WorkerEvent intro: quiets_events)
  qed
qed

subsection \<open>Migration callbacks\<close>

lemma on_done_implicit_quiets:
  assumes "fail_ok P W fail" "on_done_implicit P W fail tk a dst hold s = Inr s'"
  shows "quiet_steps P W s s'"
proof -
  define s1 where "s1 = s\<lparr>sc_policy := po_release_migration_hold P hold (sc_policy s)\<rparr>"
  have s1: "quiet_step P W s s1" unfolding s1_def by (rule quiet_step.small [OF inner.release])
  from assms(2) consider (dead) m r where "fail tk r None (s1\<lparr>sc_parked_pending := m\<rparr>) = Inr s'"
    | (more) m q where "s' = s1\<lparr>sc_store := m, sc_parked_pending := q\<rparr>"
    | (go) m q where "finalize_task_dispatch W tk (s1\<lparr>sc_store := m, sc_parked_pending := q\<rparr>) = Inr s'"
    unfolding on_done_implicit_def Let_def s1_def [symmetric]
    by (auto simp: bind_res_eq_Inr split: if_splits)
  then have "quiet_steps P W s1 s'"
  proof cases
    case dead
    then show ?thesis
      by (rule quiets_step [OF quiet_step.small [OF inner.park] inners_quiets [OF fail_okD [OF assms(1)]]])
  next
    case more
    then show ?thesis
      using quiets_step [OF quiet_step.store quiet_single [OF quiet_step.small [OF inner.park]]] by simp
  next
    case (go m q)
    have "inners P W (s1\<lparr>sc_store := m\<rparr>) s'"
      by (rule inners_step [OF inner.park inner_single [OF inner.finalize]]) (use go in simp)
    then show ?thesis by (rule quiets_step [OF quiet_step.store inners_quiets])
  qed
  then show ?thesis by (rule quiets_step [OF s1])
qed

text \<open>Every callback but the success of a reshard is quiet; that one fires two synthetic events.\<close>

lemma fire_callback_cases:
  assumes "fail_ok P W fail" "fire_callback P W fail cb oc s = Inr s'"
  obtains (silent) "quiet_steps P W s s'"
  | (reshard) tk dst refs s1 where "cb = ReshardCallback tk dst"
      "handle_worker_event P W fail (WorkerEvent (synthetic_event tk TASK_LAUNCH_END dst [] s) refs) s = Inr s1"
      "handle_worker_event P W fail (WorkerEvent (synthetic_event tk TASK_EXEC_END dst [] s1) []) s1 = Inr s'"
proof (cases cb)
  case (ImplicitCallback tk a dst hold)
  then have "quiet_steps P W s s'"
    using assms(2) on_done_implicit_quiets [OF assms(1)] inners_quiets [OF on_error_implicit_inners [OF assms(1)]]
    by (auto simp: fire_callback_def split: option.splits)
  then show thesis by (rule silent)
next
  case (ReshardCallback tk dst)
  show thesis
  proof (cases oc)
    case (Some exc)
    then have "quiet_steps P W s s'" using assms ReshardCallback inners_quiets [OF fail_okD [OF assms(1)]]
      by (simp add: fire_callback_def on_error_reshard_def)
    then show thesis by (rule silent)
  next
    case None
    then have fin: "on_done_reshard P W fail tk dst s = Inr s'"
      using assms(2) ReshardCallback by (simp add: fire_callback_def)
    then consider (dead) r where "fail tk r None s = Inr s'"
      | (fin) refs s1 where
        "handle_worker_event P W fail (WorkerEvent (synthetic_event tk TASK_LAUNCH_END dst [] s) refs) s = Inr s1"
        "handle_worker_event P W fail (WorkerEvent (synthetic_event tk TASK_EXEC_END dst [] s1) []) s1 = Inr s'"
      unfolding on_done_reshard_def Let_def fire_synthetic_event_def
      by (auto simp: bind_res_eq_Inr split: if_splits)
    then show thesis
      using silent reshard [OF ReshardCallback] inners_quiets [OF fail_okD [OF assms(1)]] by cases blast+
  qed
qed

lemma fire_callback_steps:
  assumes "fail_ok P W fail" "fire_callback P W fail cb oc s = Inr s'"
  shows "event_steps P W s s'"
  by (rule fire_callback_cases [OF assms])
     (use handle_worker_event_steps [OF assms(1)] in \<open>auto intro: quiets_events rtranclp_trans\<close>)

subsection \<open>Submission and status\<close>

lemma submit_requestE:
  assumes "fail_ok P W fail" "submit_request P W fail (Inr p) s = Inr (s', rid)"
  obtains s1 sa tks where "register_plan (sc_topology P s) p s = Inr s1"
    "call_policy (po_on_request_submitted P p) s1 = Inr (sa, tks)" "inners P W sa s'" "rid = p_request_id p"
proof -
  from assms(2) obtain s1 where 1: "register_plan (sc_topology P s) p s = Inr s1"
    and 2: "dispatch_policy P W fail (po_on_request_submitted P p) s1 = Inr s'" and r: "rid = p_request_id p"
    by (auto simp: submit_request_register bind_res_eq_Inr)
  show thesis by (rule dispatch_policyE [OF assms(1) 2]) (rule that [OF 1 _ _ r])
qed

lemma submit_request_outers:
  assumes "fail_ok P W fail" "submit_request P W fail (Inr p) s = Inr (s', rid)"
  shows "outers P W s s'"
  by (rule submit_requestE [OF assms])
     (rule outers_step [OF outer.submit quiets_outers [OF inners_quiets]])

lemma complete_output_quiets: "quiet_steps P W s (complete_output W rid v s)"
  unfolding complete_output_def
  by (rule quiets_step [OF quiet_step.complete quiet_single [OF quiet_step.small [OF inner.cleanup]]])

lemma accept_fetch_quiets: "quiet_steps P W s (accept_fetch W rid d f s)"
proof -
  have "quiet_steps P W s (fail_request_from_fetch_error W rid m s)" for m
    unfolding fail_request_from_fetch_error_def
    by (rule inners_quiets [OF inners_step [OF inner.fail_request inner_single [OF inner.cleanup]]])
  moreover have "quiet_steps P W s (complete_output W rid v (s\<lparr>sc_store := m\<rparr>))" for v m
    by (rule quiets_step [OF quiet_step.store complete_output_quiets])
  ultimately show ?thesis by (simp add: accept_fetch_def split: list.split)
qed

lemma fetch_quiets:
  "quiet_steps P W s (s\<lparr>sc_pool := w\<rparr>)"
  "quiet_steps P W s (accept_fetch W rid d f (s\<lparr>sc_pool := w\<rparr>))"
  "quiet_steps P W s
     (accept_fetch W rid d f (s\<lparr>sc_pool := w, sc_pending_output_fetches := (sc_pending_output_fetches s)(rid := None)\<rparr>))"
  by (rule quiet_single [OF quiet_step.pool] quiets_step [OF quiet_step.pool accept_fetch_quiets]
      quiets_step [OF quiet_step.fetch accept_fetch_quiets], simp?)+

lemma try_finish_quiets: "try_finish_request_output_fetch W rid s = Inr s' \<Longrightarrow> quiet_steps P W s s'"
  by (auto simp: try_finish_request_output_fetch_def bind_res_eq_Inr fetch_quiets split: option.splits)

lemma start_fetch_quiets:
  "start_fetch W rid out s v = Inr s' \<Longrightarrow> sc_plans s rid \<noteq> None \<Longrightarrow> quiet_steps P W s s'"
  unfolding start_fetch_def
  by (cases v; cases "wo_start_fetch_artifacts W")
     (auto simp: bind_res_eq_Inr fetch_quiets complete_output_quiets quiet_single [OF quiet_step.fetch])

lemma try_start_quiets:
  assumes "try_start_request_output_fetch W rid s = Inr s'"
  shows "quiet_steps P W s s'"
proof -
  define F where "F p b = (if \<not> b then Inr s else if sc_pending_output_fetches s rid \<noteq> None then Inr s
      else case p_terminal p of [] \<Rightarrow> Inl IndexError
        | tk # _ \<Rightarrow> (case t_outputs (sc_heap s tk) of [] \<Rightarrow> Inr s
            | out # _ \<Rightarrow> bind_res (store_get (sc_store s) out) (start_fetch W rid out s)))" for p :: plan and b
  have "bind_res (dict_get (sc_plans s) rid) (\<lambda>p. bind_res (all_finished (p_terminal p) s) (F p)) = Inr s'"
    using assms unfolding try_start_request_output_fetch_def F_def .
  then obtain p b where *: "F p b = Inr s'" and pl: "sc_plans s rid \<noteq> None"
    by (auto simp: bind_res_eq_Inr dict_get_def split: option.splits)
  note * = * [unfolded F_def]
  show ?thesis
  proof (cases "\<not> b \<or> sc_pending_output_fetches s rid \<noteq> None")
    case True
    then show ?thesis using * by (auto split: if_splits)
  next
    case False
    then obtain tk tks where "p_terminal p = tk # tks" using * by (cases "p_terminal p") auto
    then show ?thesis using * False start_fetch_quiets [of W rid _ s _ s' P, OF _ pl]
      by (cases "t_outputs (sc_heap s tk)") (auto simp: bind_res_eq_Inr)
  qed
qed

lemma get_request_status_quiets:
  assumes "get_request_status W rid s = Inr (s', x)"
  shows "quiet_steps P W s s'"
proof -
  from assms have "s' = s \<or> try_collect_request_output W rid s = Inr s'"
    by (auto simp: get_request_status_def bind_res_eq_Inr split: option.splits if_splits)
  moreover have "quiet_steps P W s s'" if "try_collect_request_output W rid s = Inr s'"
    using that try_finish_quiets [of W rid s _ P] try_start_quiets [of W rid _ s' P]
    by (auto simp: try_collect_request_output_def bind_res_eq_Inr split: if_splits intro: rtranclp_trans)
  ultimately show ?thesis by auto
qed

section \<open>Runs\<close>

text \<open>Every entry point, with any recursion depth; \<open>tick\<close> is the passing of time.\<close>

inductive sched_reach ::
  "'p policy_ops \<Rightarrow> 'w pool_ops \<Rightarrow> ('p, 'w) scheduler \<Rightarrow> ('p, 'w) scheduler \<Rightarrow> bool"
  for P W s0 where
  start: "sched_reach P W s0 s0"
| submit: "sched_reach P W s0 s \<Longrightarrow> submit_request P W (fail_parked_task n P W) (Inr p) s = Inr (s', rid)
    \<Longrightarrow> sched_reach P W s0 s'"
| event: "sched_reach P W s0 s \<Longrightarrow> handle_worker_event P W (fail_parked_task n P W) pe s = Inr s'
    \<Longrightarrow> sched_reach P W s0 s'"
| callback: "sched_reach P W s0 s \<Longrightarrow> fire_callback P W (fail_parked_task n P W) cb oc s = Inr s'
    \<Longrightarrow> sched_reach P W s0 s'"
| status: "sched_reach P W s0 s \<Longrightarrow> get_request_status W rid s = Inr (s', x) \<Longrightarrow> sched_reach P W s0 s'"
| release: "sched_reach P W s0 s \<Longrightarrow> sched_reach P W s0 (release_request W rid s)"
| tick: "sched_reach P W s0 s \<Longrightarrow> sched_reach P W s0 (s\<lparr>sc_now := t\<rparr>)"

lemma sched_reach_outers: "sched_reach P W s0 s \<Longrightarrow> outers P W s0 s"
proof (induction rule: sched_reach.induct)
  case (submit s n p s' rid)
  then show ?case using submit_request_outers [OF fail_parked_task_ok] by (meson rtranclp_trans)
next
  case (event s n pe s')
  then show ?case using events_outers [OF handle_worker_event_steps [OF fail_parked_task_ok]] by (meson rtranclp_trans)
next
  case (callback s n cb oc s')
  then show ?case using events_outers [OF fire_callback_steps [OF fail_parked_task_ok]] by (meson rtranclp_trans)
next
  case (status s rid s' x)
  then show ?case using quiets_outers [OF get_request_status_quiets] by (meson rtranclp_trans)
next
  case (release s rid)
  then show ?case using outer.retire [of P W s rid] by auto
next
  case (tick s t)
  then show ?case using quiets_outers [OF quiet_single [OF quiet_step.clock [of P W s t]]] by auto
qed simp

text \<open>The run loop only composes entry points.\<close>

lemma poll_once_reach:
  assumes "sched_reach P W s0 s" "poll_once P W (fail_parked_task n P W) tick s = Inr s'"
  shows "sched_reach P W s0 s'"
proof -
  let ?cb = "\<lambda>s (cb, oc). fire_callback P W (fail_parked_task n P W) cb oc s"
  let ?ev = "\<lambda>s pe. handle_worker_event P W (fail_parked_task n P W) pe s"
  from assms(2) obtain s1 where 1: "for_res ?cb s (pt_pump1 tick @ pt_pump2 tick) = Inr s1"
    and 2: "for_res ?ev s1 (pt_events tick) = Inr s'"
    by (auto simp: poll_once_def bind_res_eq_Inr)
  have "sched_reach P W s0 s1"
    by (rule for_res_invariant [where P = "sched_reach P W s0", OF assms(1) _ 1]) (auto intro: sched_reach.callback)
  then show ?thesis
    by (rule for_res_invariant [where P = "sched_reach P W s0", OF _ _ 2]) (auto intro: sched_reach.event)
qed

section \<open>Notifications at most once\<close>

fun notices :: "policy_call list \<Rightarrow> worker_event list" where
  "notices [] = []"
| "notices (Notified ev # l) = ev # notices l"
| "notices (c # l) = notices l"

lemma notices_append [simp]: "notices (l @ l') = notices l @ notices l'"
  by (induction l rule: notices.induct) simp_all

definition request_notices :: "policy_call list \<Rightarrow> worker_event_kind \<Rightarrow> string \<Rightarrow> nat" where
  "request_notices l k rid = length (filter (\<lambda>ev. e_kind ev = k \<and> e_request_id ev = rid) (notices l))"

definition task_notices :: "policy_call list \<Rightarrow> worker_event_kind \<Rightarrow> string \<Rightarrow> nat" where
  "task_notices l k tk = length (filter (\<lambda>ev. e_kind ev = k \<and> e_task_id ev = tk) (notices l))"

text \<open>The tombstones count exactly what the policy has been told.\<close>

definition notices_counted :: "('p \<times> policy_call list, 'w) scheduler \<Rightarrow> bool" where
  "notices_counted s \<longleftrightarrow>
     (\<forall>rid k. k \<in> {REQUEST_FINISHED, REQUEST_FAILED} \<longrightarrow>
        request_notices (sc_log s) k rid = (if released_key rid k \<in> sc_released_requests s then 1 else 0))
     \<and> (\<forall>tk. task_notices (sc_log s) TASK_FAILED tk = (if tk \<in> sc_failed_tasks s then 1 else 0))"

lemma released_key_inj:
  assumes "k \<in> {REQUEST_FINISHED, REQUEST_FAILED}" "k' \<in> {REQUEST_FINISHED, REQUEST_FAILED}"
  shows "released_key r k = released_key r' k' \<longleftrightarrow> r = r' \<and> k = k'"
proof -
  have "last (released_key r REQUEST_FINISHED) = CHR ''d''" "last (released_key r REQUEST_FAILED) = CHR ''d''" for r
    by (simp_all add: released_key_def)
  have "r @ '':request_finished'' \<noteq> r' @ '':request_failed''" for r r'
  proof
    assume "r @ '':request_finished'' = r' @ '':request_failed''"
    then have "rev (r @ '':request_finished'') = rev (r' @ '':request_failed'')" by simp
    then show False by simp
  qed
  then show ?thesis using assms by (auto simp: released_key_def dest: sym)
qed

lemma notices_counted_cong:
  "notices (sc_log s') = notices (sc_log s) \<Longrightarrow> sc_released_requests s' = sc_released_requests s \<Longrightarrow>
   sc_failed_tasks s' = sc_failed_tasks s \<Longrightarrow> notices_counted s \<Longrightarrow> notices_counted s'"
  by (simp add: notices_counted_def request_notices_def task_notices_def)

lemma notices_counted_inner:
  assumes "notices_counted s" "inner (log_policy P) W s s'"
  shows "notices_counted s'"
  using assms(2)
proof cases
  case (request_event ev s1 tks)
  then obtain h p where s': "s' = s1\<lparr>sc_heap := h, sc_policy := (p, sc_log s1 @ [Notified ev])\<rparr>"
    by (auto elim: call_logE)
  show ?thesis
    using assms(1) request_event(1,2) released_key_inj [of _ "e_kind ev"]
    by (auto simp: notices_counted_def s' mark_some_iff sc_log_def request_notices_def task_notices_def)
next
  case (task_failed tk ev msg tks)
  then obtain h p where s': "s' = (fail_request (t_request_id (sc_heap s tk)) msg
      (set_task_status tk FAILED (s\<lparr>sc_failed_tasks := insert tk (sc_failed_tasks s)\<rparr>)))
      \<lparr>sc_heap := h, sc_policy := (p, sc_log s @ [Notified ev])\<rparr>"
    by (auto elim!: call_logE simp: sc_log_def)
  show ?thesis
    using assms(1) task_failed(2-4)
    by (auto simp: notices_counted_def s' sc_log_def request_notices_def task_notices_def)
qed (use assms(1) in \<open>auto elim!: notices_counted_cong [rotated -1] finalizeE simp: sc_log_def\<close>)

text \<open>What the registration of a plan leaves alone.\<close>

lemma register_tasks_frame:
  assumes "for_res (register_task T) (s, arts) ts = Inr (s', arts')"
  shows "sc_policy s' = sc_policy s \<and> sc_released_requests s' = sc_released_requests s
    \<and> sc_failed_tasks s' = sc_failed_tasks s \<and> sc_failed_requests s' = sc_failed_requests s
    \<and> sc_cleaned_requests s' = sc_cleaned_requests s \<and> sc_heap s' = sc_heap s \<and> sc_plans s' = sc_plans s
    \<and> sc_store s' = sc_store s \<and> sc_pool s' = sc_pool s"
proof -
  let ?J = "\<lambda>(x, a :: akey set). sc_policy x = sc_policy s \<and> sc_released_requests x = sc_released_requests s
    \<and> sc_failed_tasks x = sc_failed_tasks s \<and> sc_failed_requests x = sc_failed_requests s
    \<and> sc_cleaned_requests x = sc_cleaned_requests s \<and> sc_heap x = sc_heap s \<and> sc_plans x = sc_plans s
    \<and> sc_store x = sc_store s \<and> sc_pool x = sc_pool s"
  have "?J (s', arts')"
    by (rule for_res_invariant [where P = ?J, OF _ _ assms]) (auto simp: register_task_def bind_res_eq_Inr)
  then show ?thesis by simp
qed

lemma register_plan_frame:
  assumes "register_plan T p s = Inr s'"
  shows "sc_policy s' = sc_policy s" "sc_released_requests s' = sc_released_requests s"
    "sc_failed_tasks s' = sc_failed_tasks s" "sc_failed_requests s' = sc_failed_requests s"
    "sc_cleaned_requests s' = sc_cleaned_requests s"
    "sc_heap s' = install_tasks (map snd (p_tasks p)) (sc_heap s)"
    "sc_plans s' = (sc_plans s)(p_request_id p \<mapsto> p)"
  using assms by (auto simp: register_plan_def bind_res_eq_Inr dest!: register_tasks_frame)

lemma notices_counted_notify:
  assumes "notices_counted s" "e_kind ev \<in> {TASK_LAUNCH_END, TASK_EXEC_END}"
    and "call_policy (po_on_worker_event (log_policy P) ev) s = Inr (s', tks)"
  shows "notices_counted s'"
proof -
  from assms(3) obtain h p where "s' = s\<lparr>sc_heap := h, sc_policy := (p, sc_log s @ [Notified ev])\<rparr>"
    by (auto elim: call_logE)
  then show ?thesis
    using assms(1,2) by (auto simp: notices_counted_def sc_log_def request_notices_def task_notices_def)
qed

lemma notices_counted_quiet:
  assumes "notices_counted s" "quiet_step (log_policy P) W s s'"
  shows "notices_counted s'"
  using assms(2)
proof cases
  case small
  then show ?thesis by (rule notices_counted_inner [OF assms(1)])
next
  case (exec_end ev tks)
  show ?thesis by (rule notices_counted_notify [OF assms(1) _ exec_end(2)]) (simp add: exec_end(1))
qed (auto intro!: notices_counted_cong [OF _ _ _ assms(1)] simp: sc_log_def)

lemma notices_counted_event:
  assumes "notices_counted s" "event_step (log_policy P) W s s'"
  shows "notices_counted s'"
  using assms(2)
proof cases
  case quiet_step
  then show ?thesis by (rule notices_counted_quiet [OF assms(1)])
next
  case (launch ev tks)
  show ?thesis by (rule notices_counted_notify [OF assms(1) _ launch(2)]) (simp add: launch(1))
next
  case (offer tk s1 out tks)
  then obtain h p where "s' = s1\<lparr>sc_heap := h, sc_policy := (p, sc_log s1 @ [Offered out])\<rparr>" by (auto elim: call_logE)
  with offer(1) show ?thesis
    by (auto elim!: launch_dependentsE intro!: notices_counted_cong [OF _ _ _ assms(1)] simp: sc_log_def)
qed

lemma notices_counted_outer:
  assumes "notices_counted s" "outer (log_policy P) W s s'"
  shows "notices_counted s'"
  using assms(2)
proof cases
  case event_step
  then show ?thesis by (rule notices_counted_event [OF assms(1)])
next
  case (retire rid)
  then show ?thesis
    by (auto intro!: notices_counted_cong [OF _ _ _ assms(1)] simp: sc_log_def release_request_def Let_def)
next
  case (submit p s1 tks)
  then obtain h q where "s' = s1\<lparr>sc_heap := h, sc_policy := (q, sc_log s1 @ [Submitted p])\<rparr>" by (auto elim: call_logE)
  with register_plan_frame [OF submit(1)] show ?thesis
    by (auto intro!: notices_counted_cong [OF _ _ _ assms(1)] simp: sc_log_def)
qed

lemma notices_counted_reach:
  assumes "sched_reach (log_policy P) W (scheduler_init h (p, []) w) s"
  shows "notices_counted s"
  using sched_reach_outers [OF assms]
proof (induction rule: rtranclp_induct)
  case base
  show ?case
    by (simp add: notices_counted_def scheduler_init_def sc_log_def request_notices_def task_notices_def)
next
  case (step y z)
  then show ?case by (blast intro: notices_counted_outer)
qed

text \<open>
  C4: In every run of the scheduler, with any policy and any worker pool, the policy is told at most
  once that a request has finished, at most once that it has failed, and at most once that a
  task has failed, however often workers, callbacks and output fetches report the same thing;
  and it is told exactly when the corresponding tombstone is set.
\<close>

theorem terminal_notices_once:
  assumes "sched_reach (log_policy P) W (scheduler_init h (p, []) w) s"
  shows "request_notices (sc_log s) REQUEST_FINISHED rid \<le> 1
    \<and> request_notices (sc_log s) REQUEST_FAILED rid \<le> 1
    \<and> task_notices (sc_log s) TASK_FAILED tk \<le> 1
    \<and> (request_notices (sc_log s) REQUEST_FAILED rid = 1 \<longleftrightarrow> released_key rid REQUEST_FAILED \<in> sc_released_requests s)
    \<and> (task_notices (sc_log s) TASK_FAILED tk = 1 \<longleftrightarrow> tk \<in> sc_failed_tasks s)"
  using notices_counted_reach [OF assms] by (auto simp: notices_counted_def)

section \<open>A failed request\<close>

lemma drop_ref_dom: "dom (fst (drop_ref k d)) \<subseteq> dom d"
  by (auto simp: drop_ref_def split: option.splits if_splits)

lemma finalize_input_refs:
  "finalize_input m (d, inl, rel) a = Inr (d', inl', rel') \<Longrightarrow> d' = fst (drop_ref (artifact_key a) d)"
  by (cases "drop_ref (artifact_key a) d") (auto simp: finalize_input_def Let_def bind_res_eq_Inr)

lemma finalize_input_dom:
  assumes "for_res (finalize_input m) (d, inl, rel) as = Inr (d', inl', rel')"
  shows "dom d' \<subseteq> dom d"
proof -
  have "(\<lambda>(x, y, z). dom x \<subseteq> dom d) (d', inl', rel')"
  proof (rule for_res_invariant [OF _ _ assms])
    fix s a s'
    assume "case s of (x, y, z) \<Rightarrow> dom x \<subseteq> dom d" and "finalize_input m s a = Inr s'"
    then show "case s' of (x, y, z) \<Rightarrow> dom x \<subseteq> dom d"
      using drop_ref_dom by (cases s; cases s') (metis (mono_tags, lifting) case_prod_conv finalize_input_refs subset_trans)
  qed simp
  then show ?thesis by simp
qed

lemma drop_input_refs_dom: "dom (drop_input_refs as d) \<subseteq> dom d"
  unfolding drop_input_refs_def
proof (induction as arbitrary: d)
  case (Cons a as)
  show ?case using subset_trans [OF Cons.IH drop_ref_dom] by simp
qed simp

text \<open>What stays when a request has been cleaned up, through any sequence of small steps.\<close>

definition request_gone :: "string \<Rightarrow> string set \<Rightarrow> akey set \<Rightarrow> ('p, 'w) scheduler \<Rightarrow> bool" where
  "request_gone rid tks ks s \<longleftrightarrow>
     sc_plans s rid = None \<and> sc_pending_output_fetches s rid = None \<and> sc_request_artifacts s rid = None
     \<and> (\<forall>k. fst k = rid \<longrightarrow> sc_store s k = None) \<and> (\<forall>k \<in> ks. sc_artifact_refcounts s k = None)
     \<and> (\<forall>tk \<in> tks. tk \<notin> sc_task_index s \<and> sc_pending_dependencies s tk = None \<and> sc_dependents s tk = None)"

abbreviation artifacts_of :: "('p, 'w) scheduler \<Rightarrow> string \<Rightarrow> akey set" where
  "artifacts_of s rid \<equiv> (case sc_request_artifacts s rid of None \<Rightarrow> {} | Some ks \<Rightarrow> ks)"

lemma cleanup_gone:
  "rid \<notin> sc_cleaned_requests s \<Longrightarrow>
   request_gone rid (plan_keys (sc_plans s rid)) (artifacts_of s rid) (cleanup_request_worker_state W rid s)"
  by (auto simp: request_gone_def sc_plans_cleanup sc_task_index_cleanup sc_pending_cleanup sc_dependents_cleanup)
     (auto simp: cleanup_defs store_evict_request_def split: option.split)

lemma cleanup_other:
  assumes "r \<noteq> rid"
  shows "sc_plans (cleanup_request_worker_state W r s) rid = sc_plans s rid"
    "sc_pending_output_fetches (cleanup_request_worker_state W r s) rid = sc_pending_output_fetches s rid"
    "sc_request_artifacts (cleanup_request_worker_state W r s) rid = sc_request_artifacts s rid"
  using assms by (simp_all add: cleanup_defs split: option.split)

lemma cleanup_shrinks:
  "sc_store s k = None \<Longrightarrow> sc_store (cleanup_request_worker_state W r s) k = None"
  "sc_artifact_refcounts s k = None \<Longrightarrow> sc_artifact_refcounts (cleanup_request_worker_state W r s) k = None"
  by (simp_all add: cleanup_defs store_evict_request_def split: option.split)

lemma request_gone_cleanup:
  assumes "request_gone rid tks ks s"
  shows "request_gone rid tks ks (cleanup_request_worker_state W r s)"
proof (cases "r = rid")
  case True
  then show ?thesis
    using assms by (auto simp: request_gone_def cleanup_defs store_evict_request_def split: option.split)
next
  case False
  then show ?thesis
    using assms
    by (auto simp: cleanup_other [OF False] request_gone_def sc_task_index_cleanup sc_pending_cleanup sc_dependents_cleanup cleanup_shrinks)
qed

lemma request_gone_refs:
  "request_gone rid tks ks s \<Longrightarrow> dom d \<subseteq> dom (sc_artifact_refcounts s) \<Longrightarrow>
   request_gone rid tks ks (s\<lparr>sc_artifact_refcounts := d, sc_pool := w\<rparr>)"
  unfolding request_gone_def by (auto simp del: split_paired_All simp: domIff subset_iff)

lemma request_gone_inner:
  assumes "request_gone rid tks ks s" "inner P W s s'"
  shows "request_gone rid tks ks s'"
  using assms(2)
proof cases
  case (finalize tk)
  then show ?thesis using assms(1) by (auto elim!: finalizeE intro!: request_gone_refs dest: finalize_input_dom)
next
  case (reshard_refs tk)
  then show ?thesis
    using request_gone_refs [OF assms(1) drop_input_refs_dom [of "t_inputs (sc_heap s tk)"], of "sc_pool s"] by simp
next
  case (cleanup r)
  then show ?thesis using assms(1) by (simp add: request_gone_cleanup)
qed (use assms(1) in \<open>auto elim!: call_policyE simp: request_gone_def mark_some_iff\<close>)

text \<open>A request is either untouched by a sequence of small steps or cleaned up by it.\<close>

definition intact_or_gone :: "('p, 'w) scheduler \<Rightarrow> string \<Rightarrow> ('p, 'w) scheduler \<Rightarrow> bool" where
  "intact_or_gone s0 rid s \<longleftrightarrow>
     (if rid \<in> sc_cleaned_requests s
      then request_gone rid (plan_keys (sc_plans s0 rid)) (artifacts_of s0 rid) s
      else sc_plans s rid = sc_plans s0 rid \<and> sc_request_artifacts s rid = sc_request_artifacts s0 rid)"

lemma intact_or_gone_inner:
  assumes "intact_or_gone s0 rid s" "inner P W s s'"
  shows "intact_or_gone s0 rid s'"
proof (cases "rid \<in> sc_cleaned_requests s")
  case True
  then have "request_gone rid (plan_keys (sc_plans s0 rid)) (artifacts_of s0 rid) s'"
    using assms(1) by (auto simp: intact_or_gone_def intro: request_gone_inner [OF _ assms(2)])
  moreover have "rid \<in> sc_cleaned_requests s'"
    using assms(2) True by cases (auto elim!: call_policyE finalizeE simp: mark_some_iff)
  ultimately show ?thesis by (simp add: intact_or_gone_def)
next
  case False
  note i = assms(1) [unfolded intact_or_gone_def, simplified False if_False]
  show ?thesis using assms(2)
  proof cases
    case (cleanup r)
    show ?thesis
    proof (cases "r = rid")
      case True
      then show ?thesis using cleanup_gone [OF False, of W] i by (simp add: intact_or_gone_def cleanup)
    next
      case r: False
      then show ?thesis using i False by (simp add: cleanup_other [OF r] intact_or_gone_def cleanup)
    qed
  qed (use i False in \<open>auto elim!: call_policyE finalizeE simp: intact_or_gone_def mark_some_iff\<close>)
qed

lemma inner_failed_requests:
  "inner P W s s' \<Longrightarrow> sc_failed_requests s rid = Some m \<Longrightarrow> sc_failed_requests s' rid = Some m"
  by (erule inner.cases) (auto elim!: call_policyE finalizeE simp: mark_some_iff sc_failed_requests_fail_request)

lemma inners_keep:
  assumes "inners P W s s'"
  shows "intact_or_gone s0 rid s \<Longrightarrow> intact_or_gone s0 rid s'"
    and "sc_failed_requests s rid = Some m \<Longrightarrow> sc_failed_requests s' rid = Some m"
  using assms
  by (induction rule: rtranclp_induct) (auto intro: intact_or_gone_inner inner_failed_requests)

subsection \<open>What happens to it later\<close>

text \<open>
  The request stays failed: its message and its tombstones are kept, its plan and its output
  fetch do not come back, and none of its tasks is registered or counted as pending again.
\<close>

definition failed_for_good :: "string \<Rightarrow> string set \<Rightarrow> string \<Rightarrow> ('p, 'w) scheduler \<Rightarrow> bool" where
  "failed_for_good rid tks msg s \<longleftrightarrow>
     sc_failed_requests s rid = Some msg \<and> rid \<in> sc_cleaned_requests s
     \<and> released_key rid REQUEST_FAILED \<in> sc_released_requests s
     \<and> sc_plans s rid = None \<and> sc_pending_output_fetches s rid = None
     \<and> (\<forall>tk \<in> tks. tk \<notin> sc_task_index s \<and> sc_pending_dependencies s tk = None)"

text \<open>
  A later run: any entry point, in any order and with any arguments, except that the request is
  neither released nor submitted again and that new plans use other task ids.
\<close>

inductive later_run ::
  "'p policy_ops \<Rightarrow> 'w pool_ops \<Rightarrow> string \<Rightarrow> string set \<Rightarrow> ('p, 'w) scheduler \<Rightarrow> ('p, 'w) scheduler \<Rightarrow> bool"
  for P W rid tks s0 where
  start: "later_run P W rid tks s0 s0"
| submit: "later_run P W rid tks s0 s \<Longrightarrow> p_request_id p \<noteq> rid \<Longrightarrow> t_id ` snd ` set (p_tasks p) \<inter> tks = {} \<Longrightarrow>
    submit_request P W (fail_parked_task n P W) (Inr p) s = Inr (s', r) \<Longrightarrow> later_run P W rid tks s0 s'"
| event: "later_run P W rid tks s0 s \<Longrightarrow> handle_worker_event P W (fail_parked_task n P W) pe s = Inr s' \<Longrightarrow>
    later_run P W rid tks s0 s'"
| callback: "later_run P W rid tks s0 s \<Longrightarrow> fire_callback P W (fail_parked_task n P W) cb oc s = Inr s' \<Longrightarrow>
    later_run P W rid tks s0 s'"
| status: "later_run P W rid tks s0 s \<Longrightarrow> get_request_status W r s = Inr (s', x) \<Longrightarrow> later_run P W rid tks s0 s'"
| release: "later_run P W rid tks s0 s \<Longrightarrow> r \<noteq> rid \<Longrightarrow> later_run P W rid tks s0 (release_request W r s)"
| tick: "later_run P W rid tks s0 s \<Longrightarrow> later_run P W rid tks s0 (s\<lparr>sc_now := t\<rparr>)"

lemma failed_for_good_cleanup:
  "failed_for_good rid tks msg s \<Longrightarrow> failed_for_good rid tks msg (cleanup_request_worker_state W r s)"
  by (cases "r = rid")
     (auto simp: failed_for_good_def cleanup_other sc_task_index_cleanup sc_pending_cleanup,
      auto simp: cleanup_request_worker_state_def)

lemma failed_for_good_inner:
  assumes "failed_for_good rid tks msg s" "inner P W s s'"
  shows "failed_for_good rid tks msg s'"
  using assms(2)
proof cases
  case (cleanup r)
  then show ?thesis using assms(1) by (simp add: failed_for_good_cleanup)
qed (use assms(1) in \<open>auto elim!: call_policyE finalizeE
      simp: failed_for_good_def mark_some_iff sc_failed_requests_fail_request\<close>)

lemma count_down_none:
  "count_down ds idx pd = Inr (pd', out) \<Longrightarrow> pd tk = None \<Longrightarrow> pd' tk = None"
proof (induction ds arbitrary: pd pd' out)
  case (Cons d ds)
  have "(pd(d \<mapsto> n)) tk = None" if "pd d \<noteq> None" for n using Cons.prems(2) that by auto
  then show ?case using Cons.prems Cons.IH by (auto simp: bind_res_eq_Inr split: option.splits if_splits)
qed simp

lemma launch_dependents_none:
  assumes "launch_dependents tk s = Inr (s', out)"
  shows "sc_pending_dependencies s d = None \<Longrightarrow> sc_pending_dependencies s' d = None"
  using assms count_down_none by (auto simp: launch_dependents_def bind_res_eq_Inr split: if_splits)

lemma failed_for_good_event:
  assumes "failed_for_good rid tks msg s" "event_step P W s s'"
  shows "failed_for_good rid tks msg s'"
  using assms(2)
proof cases
  case quiet_step
  then show ?thesis
  proof cases
    case small
    then show ?thesis by (rule failed_for_good_inner [OF assms(1)])
  qed (use assms(1) in \<open>auto elim!: call_policyE simp: failed_for_good_def\<close>)
next
  case (launch ev tks')
  then show ?thesis using assms(1) by (auto elim!: call_policyE simp: failed_for_good_def)
next
  case (offer tk s1 out tks')
  obtain pd where s1: "s1 = s\<lparr>sc_pending_dependencies := pd\<rparr>" by (rule launch_dependentsE [OF offer(1)])
  have "failed_for_good rid tks msg s1"
    using assms(1) launch_dependents_none [OF offer(1)] by (auto simp: failed_for_good_def s1)
  then show ?thesis using offer(2) by (auto elim!: call_policyE simp: failed_for_good_def)
qed

lemma failed_for_good_events:
  "event_steps P W s s' \<Longrightarrow> failed_for_good rid tks msg s \<Longrightarrow> failed_for_good rid tks msg s'"
  by (induction rule: rtranclp_induct) (auto intro: failed_for_good_event)

lemma failed_for_good_register:
  assumes "failed_for_good rid tks msg s" "p_request_id p \<noteq> rid" "t_id ` snd ` set (p_tasks p) \<inter> tks = {}"
    and "register_plan T p s = Inr s'"
  shows "failed_for_good rid tks msg s'"
proof -
  let ?J = "\<lambda>(x, a :: akey set). failed_for_good rid tks msg x"
  have new: "t_id t \<notin> tks" if "(k, t) \<in> set (p_tasks p)" for k t using assms(3) that by (auto simp: disjoint_iff image_iff)
  have "?J (x, a)" if "for_res (register_task T) (s\<lparr>sc_heap := h, sc_plans := (sc_plans s)(p_request_id p \<mapsto> p), sc_store := m\<rparr>, {})
      (map snd (p_tasks p)) = Inr (x, a)" for x a h m
    by (rule for_res_invariant [where P = ?J, OF _ _ that])
       (use assms(1,2) new in \<open>auto simp: failed_for_good_def register_task_def bind_res_eq_Inr\<close>)
  then show ?thesis using assms(4) by (auto simp: register_plan_def bind_res_eq_Inr failed_for_good_def)
qed

lemma failed_for_good_submit:
  assumes "failed_for_good rid tks msg s" "p_request_id p \<noteq> rid" "t_id ` snd ` set (p_tasks p) \<inter> tks = {}"
    and "submit_request P W (fail_parked_task n P W) (Inr p) s = Inr (s', r)"
  shows "failed_for_good rid tks msg s'"
proof (rule submit_requestE [OF fail_parked_task_ok assms(4)])
  fix s1 sa ts
  assume 1: "register_plan (sc_topology P s) p s = Inr s1" "call_policy (po_on_request_submitted P p) s1 = Inr (sa, ts)"
    and i: "inners P W sa s'"
  have "failed_for_good rid tks msg sa"
    using failed_for_good_register [OF assms(1-3) 1(1)] 1(2) by (auto elim!: call_policyE simp: failed_for_good_def)
  then show ?thesis by (rule failed_for_good_events [OF quiets_events [OF inners_quiets [OF i]]])
qed

lemma failed_for_good_later:
  assumes "later_run P W rid tks s0 s" "failed_for_good rid tks msg s0"
  shows "failed_for_good rid tks msg s"
  using assms(1)
proof (induction rule: later_run.induct)
  case start
  show ?case by (rule assms(2))
next
  case (submit s p n s' r)
  show ?case by (rule failed_for_good_submit [OF submit.IH submit.hyps(2-4)])
next
  case (event s n pe s')
  show ?case
    by (rule failed_for_good_events [OF handle_worker_event_steps [OF fail_parked_task_ok event.hyps(2)] event.IH])
next
  case (callback s n cb oc s')
  show ?case
    by (rule failed_for_good_events [OF fire_callback_steps [OF fail_parked_task_ok callback.hyps(2)] callback.IH])
next
  case (status s r s' x)
  show ?case
    by (rule failed_for_good_events [OF quiets_events [OF get_request_status_quiets [OF status.hyps(2)]] status.IH])
next
  case (release s r)
  then show ?case
    using failed_for_good_cleanup [OF release.IH, of W r] by (auto simp: failed_for_good_def release_request_def Let_def)
next
  case (tick s t)
  then show ?case by (simp add: failed_for_good_def)
qed

text \<open>A late report of the request: any task event of one of its tasks, or its failure.\<close>

definition late_report :: "string \<Rightarrow> string set \<Rightarrow> worker_event \<Rightarrow> bool" where
  "late_report rid tks ev \<longleftrightarrow>
     (if e_kind ev = REQUEST_FAILED then e_request_id ev = rid
      else e_kind ev \<noteq> REQUEST_FINISHED \<and> e_task_id ev \<in> tks)"

lemma late_report_ignored:
  "failed_for_good rid tks msg s \<Longrightarrow> late_report rid tks ev \<Longrightarrow>
   handle_worker_event P W fail (WorkerEvent ev refs) s = Inr s"
  by (auto simp: failed_for_good_def late_report_def handle_worker_event_def handle_task_event_def
      handle_request_failed_def mark_request_event_delivered_def split: if_splits)

text \<open>The event that announces a failure is marked as delivered.\<close>

lemma emit_request_event_marked:
  assumes "fail_ok P W fail" "emit_request_event P W fail rid gid k msg s = Inr s'"
  shows "released_key rid k \<in> sc_released_requests s'"
proof (cases "mark_request_event_delivered rid k s")
  case None
  then show ?thesis using assms(2) by (auto simp: emit_request_event_def mark_request_event_delivered_def split: if_splits)
next
  case (Some s1)
  have keep: "inner P W x y \<Longrightarrow> released_key rid k \<in> sc_released_requests x \<Longrightarrow> released_key rid k \<in> sc_released_requests y" for x y
    by (erule inner.cases) (auto elim!: call_policyE finalizeE simp: mark_some_iff)
  from Some assms(2) have "dispatch_policy P W fail (po_on_worker_event P (request_event rid gid k msg s1)) s1 = Inr s'"
    by (simp add: emit_request_event_def)
  then obtain s2 tks where c: "call_policy (po_on_worker_event P (request_event rid gid k msg s1)) s1 = Inr (s2, tks)"
    "inners P W s2 s'" by (rule dispatch_policyE [OF assms(1)])
  have "released_key rid k \<in> sc_released_requests s2" using c(1) Some by (auto elim!: call_policyE simp: mark_some_iff)
  with c(2) show ?thesis by (induction rule: rtranclp_induct) (auto intro: keep)
qed

lemma task_failed_cleans:
  assumes "e_kind ev = TASK_FAILED" and "e_task_id ev \<in> sc_task_index s" and "e_task_id ev \<notin> sc_failed_tasks s"
    and "rid = t_request_id (sc_heap s (e_task_id ev))" and "rid \<notin> sc_cleaned_requests s"
    and "msg = (case sc_failed_requests s rid of
                  None \<Rightarrow> message_or (e_message ev) (''task '' @ e_task_id ev @ '' failed'') | Some m \<Rightarrow> m)"
    and "handle_worker_event P W (fail_parked_task n P W) (WorkerEvent ev refs) s = Inr s'"
  shows "request_gone rid (plan_keys (sc_plans s rid)) (artifacts_of s rid) s'
    \<and> failed_for_good rid (plan_keys (sc_plans s rid)) msg s'"
proof -
  let ?fail = "fail_parked_task n P W"
  define s2 where "s2 = fail_request rid (message_or (e_message ev) (''task '' @ e_task_id ev @ '' failed''))
    (set_task_status (e_task_id ev) FAILED (s\<lparr>sc_failed_tasks := insert (e_task_id ev) (sc_failed_tasks s)\<rparr>))"
  from assms(1-3,7) obtain s3 s4 where
    a: "dispatch_policy P W ?fail (po_on_worker_event P ev) s2 = Inr s3"
    and b: "emit_request_event P W ?fail rid (e_group_id ev) REQUEST_FAILED (e_message ev) s3 = Inr s4"
    and c: "s' = cleanup_request_worker_state W rid s4"
    by (auto simp: handle_worker_event_def handle_task_event_def handle_task_failed_def Let_def bind_res_eq_Inr s2_def
        assms(4) [symmetric])
  from a obtain sa tks where d: "call_policy (po_on_worker_event P ev) s2 = Inr (sa, tks)" "inners P W sa s3"
    by (rule dispatch_policyE [OF fail_parked_task_ok])
  have "inners P W s3 s4" by (rule emit_request_event_inners [OF fail_parked_task_ok _ b]) simp
  then have e: "inners P W sa s'"
    using d(2) inner.cleanup [of P W s4 rid] unfolding c by (meson rtranclp.rtrancl_into_rtrancl rtranclp_trans)
  have sa: "sc_failed_requests sa rid = Some msg" "intact_or_gone s rid sa"
    using d(1) assms(5,6)
    by (auto elim!: call_policyE simp: s2_def sc_failed_requests_fail_request intact_or_gone_def split: option.splits)
  have f: "sc_failed_requests s' rid = Some msg" by (rule inners_keep(2) [OF e sa(1)])
  moreover have "rid \<in> sc_cleaned_requests s'" by (simp add: c)
  moreover from this have g: "request_gone rid (plan_keys (sc_plans s rid)) (artifacts_of s rid) s'"
    using inners_keep(1) [OF e sa(2)] by (simp add: intact_or_gone_def)
  moreover have "released_key rid REQUEST_FAILED \<in> sc_released_requests s'"
    using emit_request_event_marked [OF fail_parked_task_ok b] by (simp add: c)
  ultimately show ?thesis by (auto simp: failed_for_good_def request_gone_def)
qed

text \<open>
  C8: When a worker reports the failure of a registered task, the request ends as failed, for good.
  Right after the report the scheduler has let go of everything it kept for the request: the
  plan, the task entries, the artifacts in the store, their reference counts and a pending output
  fetch, also when the report makes the policy dispatch further tasks that fail in turn. And
  through every later run of the scheduler, whatever events, callbacks, polls, submissions and
  releases of other requests it consists of, every status poll returns the first failure recorded
  for the request and changes nothing, its plan, its output fetch and its tasks do not come back,
  and a late report of the request (an event of one of its tasks, or its failure again) leaves
  the scheduler exactly as it is. The later run neither releases the request nor submits it
  again, and its new plans use other task ids.
\<close>

theorem failure_is_final:
  assumes "e_kind ev = TASK_FAILED" and "e_task_id ev \<in> sc_task_index s" and "e_task_id ev \<notin> sc_failed_tasks s"
    and "rid = t_request_id (sc_heap s (e_task_id ev))" and "rid \<notin> sc_cleaned_requests s"
    and "msg = (case sc_failed_requests s rid of
                  None \<Rightarrow> message_or (e_message ev) (''task '' @ e_task_id ev @ '' failed'') | Some m \<Rightarrow> m)"
    and "handle_worker_event P W (fail_parked_task n P W) (WorkerEvent ev refs) s = Inr s'"
    and "later_run P W rid (plan_keys (sc_plans s rid)) s' s''"
  shows "request_gone rid (plan_keys (sc_plans s rid)) (artifacts_of s rid) s'
    \<and> sc_failed_requests s'' rid = Some msg
    \<and> get_request_status W rid s'' = Inr (s'', StatusFailed msg)
    \<and> sc_plans s'' rid = None \<and> sc_pending_output_fetches s'' rid = None
    \<and> (\<forall>tk \<in> plan_keys (sc_plans s rid). tk \<notin> sc_task_index s'' \<and> sc_pending_dependencies s'' tk = None)
    \<and> (\<forall>late refs'. late_report rid (plan_keys (sc_plans s rid)) late \<longrightarrow>
         handle_worker_event P W (fail_parked_task n P W) (WorkerEvent late refs') s'' = Inr s'')"
proof -
  have g: "request_gone rid (plan_keys (sc_plans s rid)) (artifacts_of s rid) s'"
    and f: "failed_for_good rid (plan_keys (sc_plans s rid)) msg s''"
    using task_failed_cleans [OF assms(1-7)] failed_for_good_later [OF assms(8)] by blast+
  then show ?thesis
    using late_report_ignored [OF f] by (simp add: failed_for_good_def get_request_status_def)
qed

section \<open>Concrete runs\<close>

abbreviation ex_log_ops :: "(disaggregate \<times> policy_call list) policy_ops" where
  "ex_log_ops \<equiv> log_policy disaggregate_ops"

abbreviation ex_log_fail :: "nat \<Rightarrow> (disaggregate \<times> policy_call list, pool_call list) fail_op" where
  "ex_log_fail n \<equiv> fail_parked_task n ex_log_ops ex_pool"

definition ex_log_start :: "(disaggregate \<times> policy_call list, pool_call list) scheduler" where
  "ex_log_start = scheduler_init ex_heap (disaggregate_init ex_topology None None, []) []"

definition ex_task_failure :: worker_event where
  "ex_task_failure =
     \<lparr>e_event_id = ''e'', e_task_id = ''x1'', e_request_id = ''x'', e_group_id = ''a'', e_worker_rank = 0,
      e_kind = TASK_FAILED, e_timestamp_ns = 0, e_message = ''out of memory'', e_metadata = []\<rparr>"

text \<open>Request \<open>x\<close> is submitted; its first task launches, and the migration for the second is refused.\<close>

lemma ex_log_run:
  "case submit_request ex_log_ops ex_pool (ex_log_fail 3) (Inr (ex_pipeline ''x'')) ex_log_start of
     Inl _ \<Rightarrow> False
   | Inr (s, rid) \<Rightarrow>
       (case handle_worker_event ex_log_ops ex_pool (ex_log_fail 3) (ex_launched ''x'') s of
          Inl _ \<Rightarrow> False
        | Inr s' \<Rightarrow> task_notices (sc_log s') TASK_FAILED ''x2'' = 1 \<and> request_notices (sc_log s') REQUEST_FAILED ''x'' = 1)"
  by code_simp

theorem terminal_notices_once_witness:
  "\<exists>s. sched_reach ex_log_ops ex_pool ex_log_start s
     \<and> task_notices (sc_log s) TASK_FAILED ''x2'' = 1 \<and> ''x2'' \<in> sc_failed_tasks s
     \<and> request_notices (sc_log s) REQUEST_FINISHED ''x'' \<le> 1"
proof -
  obtain s rid s' where s: "submit_request ex_log_ops ex_pool (ex_log_fail 3) (Inr (ex_pipeline ''x'')) ex_log_start = Inr (s, rid)"
    "handle_worker_event ex_log_ops ex_pool (ex_log_fail 3) (ex_launched ''x'') s = Inr s'"
    "task_notices (sc_log s') TASK_FAILED ''x2'' = 1"
    using ex_log_run by (auto split: sum.splits)
  have r: "sched_reach ex_log_ops ex_pool ex_log_start s'"
    by (rule sched_reach.event [OF sched_reach.submit [OF sched_reach.start s(1)] s(2)])
  from terminal_notices_once [OF this [unfolded ex_log_start_def], of "''x''" "''x2''"] r s(3)
  show ?thesis by blast
qed

lemma case_InrE: "(case x of Inl e \<Rightarrow> False | Inr y \<Rightarrow> Q y) \<Longrightarrow> (\<And>y. x = Inr y \<Longrightarrow> Q y \<Longrightarrow> thesis) \<Longrightarrow> thesis"
  by (cases x) simp_all

lemma ex_fail_run:
  "case submit_request disaggregate_ops ex_pool (ex_fail 3) (Inr (ex_pipeline ''x'')) ex_start of
     Inl _ \<Rightarrow> False
   | Inr (s, rid) \<Rightarrow> sc_failed_requests s ''x'' = None \<and> sc_cleaned_requests s = {} \<and> sc_failed_tasks s = {}
       \<and> ''x1'' \<in> sc_task_index s \<and> t_request_id (sc_heap s ''x1'') = ''x'' \<and> plan_keys (sc_plans s ''x'') = {''x1'', ''x2''}
       \<and> (case handle_worker_event disaggregate_ops ex_pool (ex_fail 3) (WorkerEvent ex_task_failure []) s of
            Inl _ \<Rightarrow> False
          | Inr s' \<Rightarrow>
              (case submit_request disaggregate_ops ex_pool (ex_fail 3) (Inr (ex_pipeline ''y'')) s' of
                 Inl _ \<Rightarrow> False
               | Inr (s'', r) \<Rightarrow> ''y1'' \<in> sc_task_index s''))"
  by code_simp

text \<open>Request \<open>x\<close> fails, request \<open>y\<close> is submitted after it, and \<open>x1\<close> reports its failure again.\<close>

theorem failure_is_final_witness:
  "\<exists>s s' s''. handle_worker_event disaggregate_ops ex_pool (ex_fail 3) (WorkerEvent ex_task_failure []) s = Inr s'
     \<and> ''x1'' \<in> sc_task_index s \<and> request_gone ''x'' {''x1'', ''x2''} (artifacts_of s ''x'') s'
     \<and> later_run disaggregate_ops ex_pool ''x'' {''x1'', ''x2''} s' s'' \<and> ''y1'' \<in> sc_task_index s''
     \<and> get_request_status ex_pool ''x'' s'' = Inr (s'', StatusFailed ''out of memory'')
     \<and> handle_worker_event disaggregate_ops ex_pool (ex_fail 3) (WorkerEvent ex_task_failure []) s'' = Inr s''"
proof -
  obtain s rid s' s'' r where s: "submit_request disaggregate_ops ex_pool (ex_fail 3) (Inr (ex_pipeline ''x'')) ex_start = Inr (s, rid)"
    "handle_worker_event disaggregate_ops ex_pool (ex_fail 3) (WorkerEvent ex_task_failure []) s = Inr s'"
    "sc_failed_requests s ''x'' = None" "sc_cleaned_requests s = {}" "sc_failed_tasks s = {}"
    "''x1'' \<in> sc_task_index s" "t_request_id (sc_heap s ''x1'') = ''x''" "plan_keys (sc_plans s ''x'') = {''x1'', ''x2''}"
    "submit_request disaggregate_ops ex_pool (ex_fail 3) (Inr (ex_pipeline ''y'')) s' = Inr (s'', r)" "''y1'' \<in> sc_task_index s''"
    using ex_fail_run by (auto elim!: case_InrE)
  have k: "e_kind ex_task_failure = TASK_FAILED" "e_task_id ex_task_failure = ''x1''" by (simp_all add: ex_task_failure_def)
  have msg: "''out of memory'' = (case sc_failed_requests s ''x'' of
      None \<Rightarrow> message_or (e_message ex_task_failure) (''task '' @ e_task_id ex_task_failure @ '' failed'') | Some m \<Rightarrow> m)"
    by (simp add: s(3) ex_task_failure_def message_or_def)
  have st: "e_task_id ex_task_failure \<in> sc_task_index s" "e_task_id ex_task_failure \<notin> sc_failed_tasks s"
    "''x'' = t_request_id (sc_heap s (e_task_id ex_task_failure))" "''x'' \<notin> sc_cleaned_requests s"
    by (simp_all only: k s(4-7) empty_iff not_False_eq_True)
  have l: "later_run disaggregate_ops ex_pool ''x'' (plan_keys (sc_plans s ''x'')) s' s''"
    unfolding s(8) by (rule later_run.submit [OF later_run.start _ _ s(9)]) code_simp+
  have late: "late_report ''x'' (plan_keys (sc_plans s ''x'')) ex_task_failure"
    by (simp add: late_report_def s(8) k)
  from failure_is_final [OF k(1) st msg s(2) l] late l s(2,6,10) show ?thesis unfolding s(8) by blast
qed

section \<open>Failures that escape the failure path\<close>

text \<open>
  A migration that cannot start fails its task and cleans up the request at once. Two callers then
  still use what was cleaned up. A task with two inputs to migrate: the loop goes on with the
  second input, whose artifact is no longer in the store. And the end of a task whose successor
  fails in the dispatch that follows: the plan it looks up is gone. Both raise \<open>KeyError\<close> out of
  the poll loop instead of ending as a failed request.
\<close>

definition ex_two_inputs :: "(disaggregate, pool_call list) scheduler" where
  "ex_two_inputs =
     (let t = (ex_final ''x'')\<lparr>t_inputs := [ex_request_handle ''x'' ''s1'', ex_request_handle ''x'' ''s2'']\<rparr>;
          ref = (\<lambda>aid. RefVal \<lparr>wr_handle = ex_request_handle ''x'' aid, wr_group_id = ''a'', wr_worker_rank = 0\<rparr>)
      in ex_start\<lparr>sc_heap := (sc_heap ex_start)(''x2'' := t), sc_task_index := {''x2''},
           sc_plans := [''x'' \<mapsto> (ex_pipeline ''x'')\<lparr>p_tasks := [(''x2'', t)]\<rparr>],
           sc_store := [(''x'', ''s1'') \<mapsto> ref ''s1'', (''x'', ''s2'') \<mapsto> ref ''s2'']\<rparr>)"

lemma second_input_raises:
  "case dispatch_tasks disaggregate_ops ex_pool (ex_fail 3) [''x2''] ex_two_inputs of
     Inl e \<Rightarrow> e = KeyError | Inr _ \<Rightarrow> False"
  by code_simp

text \<open>Tasks \<open>x0\<close> on group \<open>c\<close>, \<open>x1\<close> on group \<open>a\<close>, and \<open>x2\<close> on group \<open>a\<close> that reads what \<open>x0\<close> publishes.\<close>

definition ex_diamond :: plan where
  "ex_diamond =
     \<lparr>p_request_id = ''x'',
      p_tasks = [(''x0'', (ex_task ''x0'' ''c'')\<lparr>t_request_id := ''x'', t_outputs := [ex_request_handle ''x'' ''s0'']\<rparr>),
                 (''x1'', (ex_task ''x1'' ''a'')\<lparr>t_request_id := ''x''\<rparr>),
                 (''x2'', (ex_task ''x2'' ''a'')\<lparr>t_request_id := ''x'', t_dependencies := [''x0''],
                            t_inputs := [ex_request_handle ''x'' ''s0'']\<rparr>)],
      p_terminal = [''x2''], p_initial = [], p_metadata = []\<rparr>"

definition ex_task_event :: "string \<Rightarrow> worker_event_kind \<Rightarrow> worker_event" where
  "ex_task_event tk k =
     \<lparr>e_event_id = ''e'', e_task_id = tk, e_request_id = ''x'', e_group_id = ''a'', e_worker_rank = 0,
      e_kind = k, e_timestamp_ns = 0, e_message = [], e_metadata = []\<rparr>"

lemma exec_end_raises:
  "case submit_request disaggregate_ops ex_pool (ex_fail 4) (Inr ex_diamond) ex_start of
     Inl _ \<Rightarrow> False
   | Inr (s, _) \<Rightarrow>
       (case handle_worker_event disaggregate_ops ex_pool (ex_fail 4)
               (WorkerEvent (ex_task_event ''x0'' TASK_LAUNCH_END)
                  [\<lparr>wr_handle = ex_request_handle ''x'' ''s0'', wr_group_id = ''c'', wr_worker_rank = 3\<rparr>]) s of
          Inl _ \<Rightarrow> False
        | Inr s1 \<Rightarrow>
            (case handle_worker_event disaggregate_ops ex_pool (ex_fail 4)
                    (WorkerEvent (ex_task_event ''x1'' TASK_EXEC_END) []) s1 of
               Inl e \<Rightarrow> e = KeyError | Inr _ \<Rightarrow> False))"
  by code_simp

end
