(* ===== verification/TaskGraph.thy ===== *)
theory TaskGraph
  imports SchedulerRuns DynamicStep
begin

text \<open>
  What the scheduler promises about the order of tasks. The abstract system \<open>dag_step\<close> knows the
  dependencies of the tasks, which of them were launched and which were offered to the policy; a
  launch offers at once exactly the live tasks whose last missing dependency it was. The
  scheduler implements this with the counters \<open>pending_dependencies\<close> and the lists
  \<open>dependents\<close>; the refinement shows that they never miss and never repeat an offer.
\<close>

section \<open>Abstract specification\<close>

record dag =
  dag_deps :: "string \<Rightarrow> string list"
  dag_live :: "string set"
  dag_launched :: "string set"
  dag_offered :: "string list"

definition dag_init :: "(string \<Rightarrow> string list) \<Rightarrow> dag" where
  "dag_init D = \<lparr>dag_deps = D, dag_live = {}, dag_launched = {}, dag_offered = []\<rparr>"

inductive dag_step :: "dag \<Rightarrow> dag \<Rightarrow> bool" where
  submit: "(\<And>t. t \<in> ts \<Longrightarrow> t \<notin> dag_live g \<and> t \<notin> dag_launched g \<and> t \<notin> set (dag_offered g)
             \<and> set (D t) \<inter> dag_launched g = {}) \<Longrightarrow>
    (\<And>t. t \<notin> ts \<Longrightarrow> D t = dag_deps g t) \<Longrightarrow>
    dag_step g (g\<lparr>dag_deps := D, dag_live := dag_live g \<union> ts\<rparr>)"
| launch: "tk \<notin> dag_launched g \<Longrightarrow> distinct out \<Longrightarrow>
    set out = {d \<in> dag_live g. tk \<in> set (dag_deps g d) \<and> set (dag_deps g d) \<subseteq> insert tk (dag_launched g)} \<Longrightarrow>
    dag_step g (g\<lparr>dag_launched := insert tk (dag_launched g), dag_offered := dag_offered g @ out\<rparr>)"
| retire: "A \<subseteq> dag_live g \<Longrightarrow> dag_step g (g\<lparr>dag_live := A\<rparr>)"

text \<open>
  What the specification guarantees: an offer comes after all dependencies were launched, no task
  is offered twice, and a live task whose dependencies were all launched has been offered.
\<close>

definition dag_inv :: "dag \<Rightarrow> bool" where
  "dag_inv g \<longleftrightarrow>
     distinct (dag_offered g)
     \<and> (\<forall>d \<in> set (dag_offered g). dag_deps g d \<noteq> [] \<and> set (dag_deps g d) \<subseteq> dag_launched g)
     \<and> (\<forall>d \<in> dag_live g. dag_deps g d \<noteq> [] \<longrightarrow> set (dag_deps g d) \<subseteq> dag_launched g \<longrightarrow> d \<in> set (dag_offered g))"

lemma dag_init_inv: "dag_inv (dag_init D)"
  by (simp add: dag_inv_def dag_init_def)

lemma dag_step_inv: "dag_step g g' \<Longrightarrow> dag_inv g \<Longrightarrow> dag_inv g'"
proof (induction rule: dag_step.induct)
  case (submit ts g D)
  have D: "D d = dag_deps g d" if "d \<in> set (dag_offered g)" for d
  proof (rule submit(2))
    show "d \<notin> ts"
    proof
      assume "d \<in> ts"
      from submit(1) [OF this] that show False by simp
    qed
  qed
  have live: "d \<in> set (dag_offered g)"
    if "d \<in> dag_live g \<union> ts" "D d \<noteq> []" "set (D d) \<subseteq> dag_launched g" for d
  proof (cases "d \<in> ts")
    case True
    have "set (D d) \<inter> dag_launched g = {}" using submit(1) [OF True] by simp
    then show ?thesis using that(2,3) by (auto simp: Int_absorb2)
  next
    case False
    then show ?thesis using that submit(2) [OF False] submit(3) by (simp add: dag_inv_def)
  qed
  have offered: "D d \<noteq> [] \<and> set (D d) \<subseteq> dag_launched g" if "d \<in> set (dag_offered g)" for d
    using submit(3) that unfolding D [OF that] by (simp add: dag_inv_def)
  have "distinct (dag_offered g)" using submit(3) by (simp add: dag_inv_def)
  then show ?case unfolding dag_inv_def using live offered by simp
next
  case (launch tk g out)
  have "set out \<inter> set (dag_offered g) = {}" using launch(1,3,4) by (auto simp: dag_inv_def)
  then show ?case using launch by (auto simp: dag_inv_def)
next
  case (retire A g)
  then show ?case by (auto simp: dag_inv_def)
qed

section \<open>Counting down\<close>

lemma count_down_pending:
  "count_down ds idx pd = Inr (pd', out) \<Longrightarrow> pd' d = map_option (\<lambda>n. n - int (count_list ds d)) (pd d)"
proof (induction ds arbitrary: pd pd' out)
  case Nil
  then show ?case by (cases "pd d") simp_all
next
  case (Cons x ds)
  show ?case
  proof (cases "pd x")
    case None
    then show ?thesis using Cons.IH [of pd pd' out] Cons.prems by (cases "x = d") auto
  next
    case (Some n)
    then obtain out' where "count_down ds idx (pd(x \<mapsto> n - 1)) = Inr (pd', out')"
      using Cons.prems by (auto simp: bind_res_eq_Inr split: if_splits)
    from Cons.IH [OF this] Some show ?thesis by auto
  qed
qed

lemma count_down_out:
  assumes "count_down ds idx pd = Inr (pd', out)" "\<And>d n. d \<in> set ds \<Longrightarrow> pd d = Some n \<Longrightarrow> int (count_list ds d) \<le> n"
  shows "distinct out \<and> set out = {d \<in> set ds. pd d = Some (int (count_list ds d))}"
  using assms
proof (induction ds arbitrary: pd pd' out)
  case Nil
  then show ?case by simp
next
  case (Cons x ds)
  show ?case
  proof (cases "pd x")
    case None
    then have "count_down ds idx pd = Inr (pd', out)" using Cons.prems(1) by simp
    moreover have "int (count_list ds d) \<le> n" if "d \<in> set ds" "pd d = Some n" for d n
      using Cons.prems(2) [OF _ that(2)] None that by (auto split: if_splits)
    ultimately have "distinct out \<and> set out = {d \<in> set ds. pd d = Some (int (count_list ds d))}" by (rule Cons.IH)
    moreover have "{d \<in> set (x # ds). pd d = Some (int (count_list (x # ds) d))} = {d \<in> set ds. pd d = Some (int (count_list ds d))}"
    proof (rule Collect_cong)
      fix d show "d \<in> set (x # ds) \<and> pd d = Some (int (count_list (x # ds) d)) \<longleftrightarrow> d \<in> set ds \<and> pd d = Some (int (count_list ds d))"
        by (cases "d = x") (simp_all add: None)
    qed
    ultimately show ?thesis by (simp only:)
  next
    case (Some n)
    let ?pd = "pd(x \<mapsto> n - 1)"
    have nx: "int (count_list ds x) + 1 \<le> n" using Cons.prems(2) [OF _ Some] by simp
    obtain out' where cd: "count_down ds idx ?pd = Inr (pd', out')" and out: "out = (if n = 1 then x # out' else out')"
      using Cons.prems(1) Some by (auto simp: bind_res_eq_Inr split: if_splits)
    have le: "int (count_list ds d) \<le> m" if "d \<in> set ds" "?pd d = Some m" for d m
      using Cons.prems(2) [of d m] that nx by (auto split: if_splits)
    note IH = Cons.IH [OF cd le]
    have x': "x \<in> set out' \<longleftrightarrow> x \<in> set ds \<and> n - 1 = int (count_list ds x)" using IH by simp
    have x: "(x \<in> set out \<longleftrightarrow> n = int (count_list (x # ds) x)) \<and> distinct out"
    proof (cases "n = 1")
      case True
      then have "count_list ds x = 0" using nx by simp
      then show ?thesis using IH x' by (simp add: out True count_list_0_iff)
    next
      case False
      then have "n - 1 = int (count_list ds x) \<Longrightarrow> x \<in> set ds" by (cases "x \<in> set ds") (simp_all add: count_list_0_iff)
      then have "x \<in> set out' \<longleftrightarrow> n - 1 = int (count_list ds x)" using x' by blast
      then have "x \<in> set out \<longleftrightarrow> n = int (count_list (x # ds) x)" using False by (simp add: out) linarith
      then show ?thesis using IH False by (simp add: out)
    qed
    have "d \<in> set out \<longleftrightarrow> d \<in> set (x # ds) \<and> pd d = Some (int (count_list (x # ds) d))" for d
    proof (cases "d = x")
      case True
      then show ?thesis using x Some by simp
    next
      case False
      then show ?thesis using IH by (simp add: out)
    qed
    then show ?thesis using x by blast
  qed
qed


section \<open>The state the abstraction reads\<close>

text \<open>The static part of a task: policies assign groups and statuses, nothing else.\<close>

definition same_graph :: "heap \<Rightarrow> heap \<Rightarrow> bool" where
  "same_graph h h' \<longleftrightarrow>
     (\<forall>tk. t_request_id (h' tk) = t_request_id (h tk) \<and> t_dependencies (h' tk) = t_dependencies (h tk))"

lemma same_graph_refl [simp]: "same_graph h h"
  by (simp add: same_graph_def)

lemma same_graph_trans: "same_graph h h' \<Longrightarrow> same_graph h' h'' \<Longrightarrow> same_graph h h''"
  by (simp add: same_graph_def)

lemma same_graph_status [simp]:
  "same_graph h (h(tk := (h tk)\<lparr>t_status := x\<rparr>))" "same_graph h (h(tk := (h tk)\<lparr>t_parallel := y\<rparr>))"
  by (simp_all add: same_graph_def)

definition depl :: "('p, 'w) scheduler \<Rightarrow> string \<Rightarrow> string list" where
  "depl s tk = (case sc_dependents s tk of None \<Rightarrow> [] | Some l \<Rightarrow> l)"

abbreviation deps_of :: "('p, 'w) scheduler \<Rightarrow> string \<Rightarrow> string list" where
  "deps_of s d \<equiv> t_dependencies (sc_heap s d)"

abbreviation req_of :: "('p, 'w) scheduler \<Rightarrow> string \<Rightarrow> string" where
  "req_of s d \<equiv> t_request_id (sc_heap s d)"

definition live_tasks :: "('p, 'w) scheduler \<Rightarrow> string set" where
  "live_tasks s = {d. sc_pending_dependencies s d \<noteq> None \<and> sc_failed_requests s (req_of s d) = None}"

text \<open>
  The coupling between the counters and the set \<open>L\<close> of launched tasks: plans are closed under
  dependencies and disjoint, a counter is the number of dependencies that were not launched,
  and a task is listed once per dependency under every task that was not launched.
\<close>

definition plans_closed :: "('p, 'w) scheduler \<Rightarrow> bool" where
  "plans_closed s \<longleftrightarrow>
     (\<forall>rid p. sc_plans s rid = Some p \<longrightarrow> rid \<notin> sc_cleaned_requests s
        \<and> (\<forall>k \<in> plan_keys (Some p). req_of s k = rid \<and> set (deps_of s k) \<subseteq> plan_keys (Some p)))"

definition tables_owned :: "('p, 'w) scheduler \<Rightarrow> bool" where
  "tables_owned s \<longleftrightarrow>
     (\<forall>d. sc_pending_dependencies s d \<noteq> None \<longrightarrow> d \<in> plan_keys (sc_plans s (req_of s d)))
     \<and> (\<forall>tk d. d \<in> set (depl s tk) \<longrightarrow> (\<exists>rid. d \<in> plan_keys (sc_plans s rid) \<and> tk \<in> plan_keys (sc_plans s rid)))"

definition deps_counted :: "string set \<Rightarrow> ('p, 'w) scheduler \<Rightarrow> bool" where
  "deps_counted L s \<longleftrightarrow>
     (\<forall>d n. sc_pending_dependencies s d = Some n \<longrightarrow> sc_failed_requests s (req_of s d) = None \<longrightarrow>
        n = int (length (filter (\<lambda>x. x \<notin> L) (deps_of s d))))
     \<and> (\<forall>d tk. sc_pending_dependencies s d \<noteq> None \<longrightarrow> tk \<notin> L \<longrightarrow>
          count_list (depl s tk) d = count_list (deps_of s d) tk)"

definition coupled :: "string set \<Rightarrow> ('p, 'w) scheduler \<Rightarrow> bool" where
  "coupled L s \<longleftrightarrow> plans_closed s \<and> tables_owned s \<and> deps_counted L s"

lemma plan_keys_Some: "k \<in> plan_keys x \<Longrightarrow> \<exists>p. x = Some p"
  by (cases x) (simp_all add: plan_keys_def)

lemma plans_closedD:
  assumes "plans_closed s" "k \<in> plan_keys (sc_plans s rid)"
  shows "req_of s k = rid" "set (deps_of s k) \<subseteq> plan_keys (sc_plans s rid)" "rid \<notin> sc_cleaned_requests s"
proof -
  obtain p where p: "sc_plans s rid = Some p" using plan_keys_Some [OF assms(2)] by blast
  show "req_of s k = rid" "set (deps_of s k) \<subseteq> plan_keys (sc_plans s rid)" "rid \<notin> sc_cleaned_requests s"
    using assms p unfolding plans_closed_def by auto
qed

lemma coupled_cong:
  assumes "same_graph (sc_heap s) (sc_heap s')" "sc_plans s' = sc_plans s"
    "sc_cleaned_requests s' = sc_cleaned_requests s" "sc_pending_dependencies s' = sc_pending_dependencies s"
    "sc_dependents s' = sc_dependents s"
    and "\<And>r. sc_failed_requests s' r = None \<Longrightarrow> sc_failed_requests s r = None"
    and "coupled L s"
  shows "coupled L s' \<and> live_tasks s' \<subseteq> live_tasks s"
proof -
  have g: "req_of s' k = req_of s k" "deps_of s' k = deps_of s k" for k
    using assms(1) by (simp_all add: same_graph_def)
  have "depl s' = depl s" by (simp add: depl_def assms(5) fun_eq_iff)
  then show ?thesis
    using assms(6,7)
    by (auto simp: coupled_def plans_closed_def tables_owned_def deps_counted_def live_tasks_def g assms(2-5))
qed

text \<open>A clean-up removes whole plans, so what remains is still coupled.\<close>

lemma coupled_cleanup:
  assumes "coupled L s"
  shows "coupled L (cleanup_request_worker_state W r s)
    \<and> live_tasks (cleanup_request_worker_state W r s) \<subseteq> live_tasks s
    \<and> (\<forall>d. sc_pending_dependencies (cleanup_request_worker_state W r s) d \<noteq> None \<longrightarrow> req_of s d \<noteq> r)"
proof -
  let ?s = "cleanup_request_worker_state W r s"
  note c = assms [unfolded coupled_def]
  have gone: "sc_plans ?s r = None"
  proof (cases "r \<in> sc_cleaned_requests s")
    case True
    then have "sc_plans s r = None" using c unfolding plans_closed_def by (cases "sc_plans s r") auto
    then show ?thesis by (simp add: sc_plans_cleanup True)
  qed (simp add: sc_plans_cleanup)
  have plans: "sc_plans ?s x = (if x = r then None else sc_plans s x)" for x
    using gone by (auto simp: sc_plans_cleanup)
  have keys: "k \<notin> plan_keys (sc_plans s r)" if "k \<in> plan_keys (sc_plans ?s rid)" for k rid
    using that plans_closedD(1) [of s] c by (auto simp: plans plan_keys_def split: if_splits)
  have pend: "sc_pending_dependencies ?s d = (if d \<in> plan_keys (sc_plans s r) then None else sc_pending_dependencies s d)" for d
    using gone by (auto simp: sc_pending_cleanup sc_plans_cleanup plan_keys_def split: if_splits)
  have depl: "depl ?s tk = (if tk \<in> plan_keys (sc_plans s r) then [] else depl s tk)" for tk
    using gone by (auto simp: depl_def sc_dependents_cleanup sc_plans_cleanup plan_keys_def split: if_splits)
  have own: "d \<in> plan_keys (sc_plans s (req_of s d))" if "sc_pending_dependencies s d \<noteq> None" for d
    using c that by (simp add: tables_owned_def)
  have other: "req_of s d \<noteq> r" if "sc_pending_dependencies ?s d \<noteq> None" for d
    using that own [of d] by (auto simp: pend split: if_splits)
  have 1: "plans_closed ?s"
    using c unfolding plans_closed_def by (auto simp: plans split: if_splits)
  have 2: "tables_owned ?s"
    unfolding tables_owned_def
  proof (intro conjI allI impI)
    fix d assume d: "sc_pending_dependencies ?s d \<noteq> None"
    then show "d \<in> plan_keys (sc_plans ?s (req_of ?s d))"
      using own [of d] other [OF d] by (auto simp: pend plans split: if_splits)
  next
    fix tk d assume "d \<in> set (depl ?s tk)"
    then have d: "d \<in> set (depl s tk)" "tk \<notin> plan_keys (sc_plans s r)" by (auto simp: depl split: if_splits)
    then obtain rid where "d \<in> plan_keys (sc_plans s rid)" "tk \<in> plan_keys (sc_plans s rid)"
      using c unfolding tables_owned_def by blast
    moreover from this d(2) have "rid \<noteq> r" by blast
    ultimately show "\<exists>rid. d \<in> plan_keys (sc_plans ?s rid) \<and> tk \<in> plan_keys (sc_plans ?s rid)"
      by (auto simp: plans intro!: exI [of _ rid])
  qed
  have 3: "deps_counted L ?s"
    unfolding deps_counted_def
  proof (intro conjI allI impI)
    fix d n assume "sc_pending_dependencies ?s d = Some n" "sc_failed_requests ?s (req_of ?s d) = None"
    then show "n = int (length (filter (\<lambda>x. x \<notin> L) (deps_of ?s d)))"
      using c unfolding deps_counted_def by (auto simp: pend split: if_splits)
  next
    fix d tk assume d: "sc_pending_dependencies ?s d \<noteq> None" and tk: "tk \<notin> L"
    have d': "sc_pending_dependencies s d \<noteq> None" using d by (auto simp: pend split: if_splits)
    have "tk \<notin> set (deps_of s d)" if "tk \<in> plan_keys (sc_plans s r)"
    proof
      assume "tk \<in> set (deps_of s d)"
      then have "tk \<in> plan_keys (sc_plans s (req_of s d))"
        using plans_closedD(2) [OF conjunct1 [OF c] own [OF d']] by (rule subsetD [rotated])
      then have "req_of s tk = req_of s d" by (rule plans_closedD(1) [OF conjunct1 [OF c]])
      then show False using plans_closedD(1) [OF conjunct1 [OF c] that] other [OF d] by simp
    qed
    then show "count_list (depl ?s tk) d = count_list (deps_of ?s d) tk"
      using c d' tk unfolding deps_counted_def by (auto simp: depl)
  qed
  show ?thesis using 1 2 3 other by (auto simp: coupled_def live_tasks_def pend split: if_splits)
qed


text \<open>A step that keeps the coupling and adds no live task.\<close>

definition settles :: "string set \<Rightarrow> ('p, 'w) scheduler \<Rightarrow> ('p, 'w) scheduler \<Rightarrow> bool" where
  "settles L s s' \<longleftrightarrow> (coupled L s \<longrightarrow> coupled L s' \<and> live_tasks s' \<subseteq> live_tasks s)
     \<and> same_graph (sc_heap s) (sc_heap s')"

lemma settles_cong:
  assumes "same_graph (sc_heap s) (sc_heap s')" "sc_plans s' = sc_plans s"
    "sc_cleaned_requests s' = sc_cleaned_requests s" "sc_pending_dependencies s' = sc_pending_dependencies s"
    "sc_dependents s' = sc_dependents s"
    and "\<And>r. sc_failed_requests s' r = None \<Longrightarrow> sc_failed_requests s r = None"
  shows "settles L s s'"
  using assms(1) coupled_cong [OF assms] by (auto simp: settles_def)

lemma settles_release: "settles L s (release_request W r s)"
proof (cases "coupled L s")
  case assms: True
  let ?c = "cleanup_request_worker_state W r s"
  note c = coupled_cleanup [OF assms, of W r]
  have r: "release_request W r s = ?c\<lparr>sc_completed_outputs := (sc_completed_outputs ?c)(r := None),
      sc_failed_requests := (sc_failed_requests ?c)(r := None)\<rparr>"
    by (simp add: release_request_def Let_def)
  have o: "req_of s d \<noteq> r" if "sc_pending_dependencies ?c d \<noteq> None" for d using c that by blast
  have "deps_counted L (release_request W r s)"
    using c o unfolding coupled_def deps_counted_def r depl_def by (auto split: if_splits)
  moreover have "plans_closed (release_request W r s)" "tables_owned (release_request W r s)"
    using c unfolding coupled_def plans_closed_def tables_owned_def r depl_def by simp_all
  moreover have "live_tasks (release_request W r s) = live_tasks ?c"
    using o by (auto simp: live_tasks_def r)
  ultimately show ?thesis using c by (simp add: coupled_def settles_def release_request_def Let_def)
qed (simp add: settles_def release_request_def Let_def)

section \<open>The contract of a policy\<close>

text \<open>A policy may reassign and requeue tasks, but it never changes what they depend on.\<close>

locale graph_policy =
  fixes P :: "'p policy_ops"
  assumes submitted_keeps: "po_on_request_submitted P p (h, x) = Inr ((h', x'), tks) \<Longrightarrow> same_graph h h'"
    and runnable_keeps: "po_on_tasks_runnable P ts (h, x) = Inr ((h', x'), tks) \<Longrightarrow> same_graph h h'"
    and event_keeps: "po_on_worker_event P ev (h, x) = Inr ((h', x'), tks) \<Longrightarrow> same_graph h h'"
begin

lemma call_keeps:
  "call_policy (po_on_request_submitted P p) s = Inr (s', tks) \<Longrightarrow>
     \<exists>h x. s' = s\<lparr>sc_heap := h, sc_policy := x\<rparr> \<and> same_graph (sc_heap s) h"
  "call_policy (po_on_tasks_runnable P ts) s = Inr (s', tks) \<Longrightarrow>
     \<exists>h x. s' = s\<lparr>sc_heap := h, sc_policy := x\<rparr> \<and> same_graph (sc_heap s) h"
  "call_policy (po_on_worker_event P ev) s = Inr (s', tks) \<Longrightarrow>
     \<exists>h x. s' = s\<lparr>sc_heap := h, sc_policy := x\<rparr> \<and> same_graph (sc_heap s) h"
  by (auto elim!: call_policyE dest: submitted_keeps runnable_keeps event_keeps)

lemma settles_inner:
  assumes "inner P W s s'"
  shows "settles L s s'"
  using assms
proof cases
  case (request_event ev s1 tks)
  then show ?thesis
    using call_keeps(3) [OF request_event(3)] by (auto intro!: settles_cong simp: mark_some_iff)
next
  case (task_failed tk ev msg tks)
  have "same_graph (sc_heap s) ((sc_heap s)(tk := (sc_heap s tk)\<lparr>t_status := FAILED\<rparr>))" by simp
  then show ?thesis
    using call_keeps(3) [OF task_failed(5)]
    by (auto intro!: settles_cong intro: same_graph_trans [OF same_graph_status(1)] simp: sc_failed_requests_fail_request split: if_splits)
next
  case (cleanup r)
  then show ?thesis using coupled_cleanup [of L s W r] by (simp add: settles_def)
qed (auto elim!: finalizeE intro!: settles_cong simp: sc_failed_requests_fail_request split: if_splits)

lemma settles_quiet:
  assumes "quiet_step P W s s'"
  shows "settles L s s'"
  using assms
proof cases
  case small
  then show ?thesis by (rule settles_inner)
next
  case (exec_end ev tks)
  then show ?thesis using call_keeps(3) [OF exec_end(2)] by (auto intro!: settles_cong)
qed (auto intro!: settles_cong)

lemma settles_quiets:
  assumes "quiet_steps P W s s'"
  shows "settles L s s'"
  using assms
proof (induction rule: rtranclp_induct)
  case base
  show ?case by (simp add: settles_def)
next
  case (step y z)
  then show ?case
    using settles_quiet [OF step(2), of L] by (auto simp: settles_def intro: same_graph_trans)
qed

lemmas settles_inners = settles_quiets [OF inners_quiets]

end

text \<open>Logging does not change the contract.\<close>

lemma log_call_Inr:
  "log_call c op (h, x) = Inr ((h', x'), tks) \<Longrightarrow> \<exists>y'. op (h, fst x) = Inr ((h', y'), tks)"
  by (cases x) (auto simp: log_call_def bind_res_eq_Inr)

lemma log_graph_policy:
  assumes "graph_policy P"
  shows "graph_policy (log_policy P)"
proof (rule graph_policy.intro)
  fix p h x h' x' tks
  assume "po_on_request_submitted (log_policy P) p (h, x) = Inr ((h', x'), tks)"
  then show "same_graph h h'"
    using log_call_Inr graph_policy.submitted_keeps [OF assms] unfolding log_policy_sel by blast
next
  fix ts h x h' x' tks
  assume "po_on_tasks_runnable (log_policy P) ts (h, x) = Inr ((h', x'), tks)"
  then show "same_graph h h'"
    using log_call_Inr graph_policy.runnable_keeps [OF assms] unfolding log_policy_sel by blast
next
  fix ev h x h' x' tks
  assume "po_on_worker_event (log_policy P) ev (h, x) = Inr ((h', x'), tks)"
  then show "same_graph h h'"
    using log_call_Inr graph_policy.event_keeps [OF assms] unfolding log_policy_sel by blast
qed

section \<open>Launching\<close>

lemma count_list_filter_le: "count_list xs tk \<le> length (filter (\<lambda>x. x \<notin> L) xs)" if "tk \<notin> L"
  using that by (induction xs) auto

lemma filter_insert_length:
  "tk \<notin> L \<Longrightarrow> length (filter (\<lambda>x. x \<notin> insert tk L) xs) + count_list xs tk = length (filter (\<lambda>x. x \<notin> L) xs)"
  by (induction xs) auto

text \<open>The loop over the dependents implements the launch of the specification.\<close>

lemma launch_refines:
  assumes c: "coupled L s" and tk: "tk \<notin> L" and l: "launch_dependents tk s = Inr (s', out)"
  shows "coupled (insert tk L) s' \<and> live_tasks s' = live_tasks s \<and> distinct out
    \<and> set out = {d \<in> live_tasks s. tk \<in> set (deps_of s d) \<and> set (deps_of s d) \<subseteq> insert tk L}"
proof -
  note cl = c [unfolded coupled_def]
  have own: "d \<in> plan_keys (sc_plans s (req_of s d))" if "sc_pending_dependencies s d \<noteq> None" for d
    using cl that by (simp add: tables_owned_def)
  have same: "req_of s d = req_of s tk" if "sc_pending_dependencies s d \<noteq> None" "tk \<in> set (deps_of s d)" for d
  proof -
    have "tk \<in> plan_keys (sc_plans s (req_of s d))"
      using plans_closedD(2) [OF conjunct1 [OF cl] own [OF that(1)]] that(2) by (rule subsetD)
    then show ?thesis by (rule plans_closedD(1) [OF conjunct1 [OF cl], symmetric])
  qed
  have cnt: "count_list (depl s tk) d = count_list (deps_of s d) tk" if "sc_pending_dependencies s d \<noteq> None" for d
    using cl tk that by (simp add: deps_counted_def)
  have num: "n = int (length (filter (\<lambda>x. x \<notin> L) (deps_of s d)))"
    if "sc_pending_dependencies s d = Some n" "sc_failed_requests s (req_of s d) = None" for d n
    using cl that unfolding deps_counted_def by blast
  have all: "set (deps_of s d) \<subseteq> insert tk L \<longleftrightarrow> length (filter (\<lambda>x. x \<notin> L) (deps_of s d)) = count_list (deps_of s d) tk" for d
  proof -
    have "set (deps_of s d) \<subseteq> insert tk L \<longleftrightarrow> length (filter (\<lambda>x. x \<notin> insert tk L) (deps_of s d)) = 0"
      by (auto simp: filter_empty_conv)
    then show ?thesis using filter_insert_length [OF tk, of "deps_of s d"] by linarith
  qed
  show ?thesis
  proof (cases "sc_failed_requests s (req_of s tk) = None")
    case False
    then have s': "s' = s" "out = []" using l by (auto simp: launch_dependents_def)
    have no: "tk \<notin> set (deps_of s d)"
      if "sc_pending_dependencies s d \<noteq> None" "sc_failed_requests s (req_of s d) = None" for d
      using same [OF that(1)] that(2) False by auto
    have "deps_counted (insert tk L) s"
      unfolding deps_counted_def
    proof (intro conjI allI impI)
      fix d n assume d: "sc_pending_dependencies s d = Some n" "sc_failed_requests s (req_of s d) = None"
      then have "count_list (deps_of s d) tk = 0" using no [of d] by (simp add: count_list_0_iff)
      then show "n = int (length (filter (\<lambda>x. x \<notin> insert tk L) (deps_of s d)))"
        using num [OF d] filter_insert_length [OF tk, of "deps_of s d"] by simp
    next
      fix d x assume "sc_pending_dependencies s d \<noteq> None" "x \<notin> insert tk L"
      then show "count_list (depl s x) d = count_list (deps_of s d) x" using cl by (simp add: deps_counted_def)
    qed
    moreover have "{d \<in> live_tasks s. tk \<in> set (deps_of s d) \<and> set (deps_of s d) \<subseteq> insert tk L} = {}"
      using no by (auto simp: live_tasks_def)
    ultimately show ?thesis using cl unfolding s' by (simp add: coupled_def)
  next
    case True
    then obtain pd where cd: "count_down (depl s tk) (sc_task_index s) (sc_pending_dependencies s) = Inr (pd, out)"
      and s': "s' = s\<lparr>sc_pending_dependencies := pd\<rparr>"
      using l by (auto simp: launch_dependents_def bind_res_eq_Inr depl_def)
    have pd: "pd d = map_option (\<lambda>n. n - int (count_list (depl s tk) d)) (sc_pending_dependencies s d)" for d
      by (rule count_down_pending [OF cd])
    have ok: "sc_failed_requests s (req_of s d) = None"
      if "sc_pending_dependencies s d \<noteq> None" "0 < count_list (deps_of s d) tk" for d
      using same [OF that(1)] that(2) True by (simp add: count_list_pos)
    have dep: "d \<in> set (depl s tk) \<longleftrightarrow> tk \<in> set (deps_of s d)" if "sc_pending_dependencies s d \<noteq> None" for d
      using cnt [OF that] by (metis count_list_pos)
    have live: "sc_failed_requests s (req_of s d) = None"
      if "sc_pending_dependencies s d \<noteq> None" "d \<in> set (depl s tk)" for d
      using same [OF that(1)] dep [OF that(1)] that(2) True by simp
    have le: "int (count_list (depl s tk) d) \<le> n"
      if "d \<in> set (depl s tk)" "sc_pending_dependencies s d = Some n" for d n
      using num [OF that(2) live [OF _ that(1)]] cnt [of d] that(2) count_list_filter_le [OF tk, of "deps_of s d"] by simp
    note out = count_down_out [OF cd le]
    have "d \<in> set out \<longleftrightarrow> d \<in> live_tasks s \<and> tk \<in> set (deps_of s d) \<and> set (deps_of s d) \<subseteq> insert tk L" for d
    proof (cases "sc_pending_dependencies s d")
      case None
      then show ?thesis using out by (simp add: live_tasks_def)
    next
      case (Some n)
      show ?thesis
      proof (cases "tk \<in> set (deps_of s d)")
        case True
        then have d: "d \<in> set (depl s tk)" using dep [of d] Some by simp
        then have "n = int (length (filter (\<lambda>x. x \<notin> L) (deps_of s d)))" using num [OF Some] live [of d] Some by simp
        then show ?thesis
          using out True d Some live [of d] all [of d] cnt [of d] by (auto simp: live_tasks_def)
      next
        case False
        then show ?thesis using out dep [of d] Some by simp
      qed
    qed
    then have set_out: "set out = {d \<in> live_tasks s. tk \<in> set (deps_of s d) \<and> set (deps_of s d) \<subseteq> insert tk L}" by blast
    have "deps_counted (insert tk L) s'"
      unfolding deps_counted_def
    proof (intro conjI allI impI)
      fix d n assume d: "sc_pending_dependencies s' d = Some n" "sc_failed_requests s' (req_of s' d) = None"
      then obtain m where m: "sc_pending_dependencies s d = Some m" "n = m - int (count_list (depl s tk) d)"
        by (auto simp: s' pd)
      then show "n = int (length (filter (\<lambda>x. x \<notin> insert tk L) (deps_of s' d)))"
        using num [OF m(1)] d(2) cnt [of d] filter_insert_length [OF tk, of "deps_of s d"] by (simp add: s')
    next
      fix d x assume "sc_pending_dependencies s' d \<noteq> None" "x \<notin> insert tk L"
      then show "count_list (depl s' x) d = count_list (deps_of s' d) x"
        using cl by (auto simp: deps_counted_def s' pd depl_def)
    qed
    moreover have "plans_closed s'" "tables_owned s'" "live_tasks s' = live_tasks s"
      using cl by (auto simp: plans_closed_def tables_owned_def live_tasks_def s' pd depl_def)
    ultimately show ?thesis using out set_out by (simp add: coupled_def)
  qed
qed


section \<open>Abstraction\<close>

definition launched_in :: "policy_call list \<Rightarrow> string set" where
  "launched_in l = e_task_id ` set (filter (\<lambda>ev. e_kind ev = TASK_LAUNCH_END) (notices l))"

fun offered_in :: "policy_call list \<Rightarrow> string list" where
  "offered_in [] = []"
| "offered_in (Offered tks # l) = tks @ offered_in l"
| "offered_in (c # l) = offered_in l"

lemma offered_in_append [simp]: "offered_in (l @ l') = offered_in l @ offered_in l'"
  by (induction l rule: offered_in.induct) simp_all

lemma launched_in_append [simp]: "launched_in (l @ l') = launched_in l \<union> launched_in l'"
  by (simp add: launched_in_def image_Un)

definition dag_of :: "('p \<times> policy_call list, 'w) scheduler \<Rightarrow> dag" where
  "dag_of s = \<lparr>dag_deps = deps_of s, dag_live = live_tasks s, dag_launched = launched_in (sc_log s),
               dag_offered = offered_in (sc_log s)\<rparr>"

lemma call_log_log: "call_policy (log_call c op) s = Inr (s', tks) \<Longrightarrow> sc_log s' = sc_log s @ [c]"
  by (auto elim!: call_logE simp: sc_log_def)

lemma inner_log:
  assumes "inner (log_policy P) W s s'"
  shows "launched_in (sc_log s') = launched_in (sc_log s) \<and> offered_in (sc_log s') = offered_in (sc_log s)"
  using assms
proof cases
  case (request_event ev s1 tks)
  then show ?thesis by (auto elim!: call_logE simp: mark_some_iff sc_log_def launched_in_def)
next
  case (task_failed tk ev msg tks)
  then show ?thesis by (auto elim!: call_logE simp: sc_log_def launched_in_def)
qed (auto elim!: finalizeE simp: sc_log_def launched_in_def)

lemma quiet_log:
  assumes "quiet_step (log_policy P) W s s'"
  shows "launched_in (sc_log s') = launched_in (sc_log s) \<and> offered_in (sc_log s') = offered_in (sc_log s)"
  using assms
proof cases
  case small
  then show ?thesis by (rule inner_log)
next
  case (exec_end ev tks)
  then show ?thesis by (auto elim!: call_logE simp: sc_log_def launched_in_def)
qed (simp_all add: sc_log_def)

lemma quiets_log:
  "quiet_steps (log_policy P) W s s' \<Longrightarrow>
   launched_in (sc_log s') = launched_in (sc_log s) \<and> offered_in (sc_log s') = offered_in (sc_log s)"
  by (induction rule: rtranclp_induct) (auto dest: quiet_log)

definition simulated :: "('p \<times> policy_call list, 'w) scheduler \<Rightarrow> ('p \<times> policy_call list, 'w) scheduler \<Rightarrow> bool" where
  "simulated s s' \<longleftrightarrow> coupled (launched_in (sc_log s')) s' \<and> dag_step\<^sup>*\<^sup>* (dag_of s) (dag_of s')"

lemma simulated_trans: "simulated s s1 \<Longrightarrow> simulated s1 s2 \<Longrightarrow> simulated s s2"
  by (auto simp: simulated_def intro: rtranclp_trans)

text \<open>Quiet steps and the release of a request only retire tasks.\<close>

lemma settles_simulated:
  assumes "settles (launched_in (sc_log s)) s s'" "coupled (launched_in (sc_log s)) s"
    and "launched_in (sc_log s') = launched_in (sc_log s) \<and> offered_in (sc_log s') = offered_in (sc_log s)"
  shows "simulated s s'"
proof -
  have st: "coupled (launched_in (sc_log s)) s'" "live_tasks s' \<subseteq> live_tasks s" "same_graph (sc_heap s) (sc_heap s')"
    using assms(1,2) by (simp_all add: settles_def)
  have "dag_of s' = (dag_of s)\<lparr>dag_live := live_tasks s'\<rparr>"
    using st(3) assms(3) by (simp add: dag_of_def same_graph_def)
  moreover have "dag_step (dag_of s) ((dag_of s)\<lparr>dag_live := live_tasks s'\<rparr>)"
    by (rule dag_step.retire) (simp add: dag_of_def st(2))
  ultimately show ?thesis using st(1) assms(3) by (auto simp: simulated_def)
qed

lemma quiets_simulated:
  assumes "graph_policy P" "quiet_steps (log_policy P) W s s'" "coupled (launched_in (sc_log s)) s"
  shows "simulated s s'"
  by (rule settles_simulated [OF graph_policy.settles_quiets [OF log_graph_policy [OF assms(1)] assms(2)] assms(3) quiets_log [OF assms(2)]])

lemma release_simulated:
  assumes "simulated s0 s"
  shows "simulated s0 (release_request W rid s)"
proof -
  have "coupled (launched_in (sc_log s)) s" using assms by (simp add: simulated_def)
  then have "simulated s (release_request W rid s)"
    by (rule settles_simulated [OF settles_release]) (simp add: sc_log_def release_request_def Let_def)
  then show ?thesis by (rule simulated_trans [OF assms])
qed

text \<open>The end of a launch is the launch of the specification, between two retirements.\<close>

lemma launch_end_simulated:
  assumes g: "graph_policy P" and f: "fail_ok (log_policy P) W fail"
    and h: "handle_launch_end (log_policy P) W fail ev refs s = Inr s'" and k: "e_kind ev = TASK_LAUNCH_END"
    and c: "coupled (launched_in (sc_log s)) s" and new: "e_task_id ev \<notin> launched_in (sc_log s)"
  shows "simulated s s'"
proof -
  let ?tk = "e_task_id ev" and ?L = "launched_in (sc_log s)"
  note lp = log_graph_policy [OF g]
  obtain sa tks s1 s2 out sb tks' where
    a: "call_policy (po_on_worker_event (log_policy P) ev) s = Inr (sa, tks)" "inners (log_policy P) W sa s1"
    and l: "launch_dependents ?tk (s1\<lparr>sc_store := publish_outputs refs (sc_store s1)\<rparr>) = Inr (s2, out)"
    and b: "call_policy (po_on_tasks_runnable (log_policy P) out) s2 = Inr (sb, tks')" "inners (log_policy P) W sb s'"
    by (rule handle_launch_endE [OF f h])
  let ?s1 = "s1\<lparr>sc_store := publish_outputs refs (sc_store s1)\<rparr>"
  have sa: "settles ?L s sa" "sc_log sa = sc_log s @ [Notified ev]"
    using graph_policy.call_keeps(3) [OF lp a(1)] call_log_log [OF a(1) [unfolded log_policy_sel]]
    by (auto intro!: settles_cong)
  have s1: "coupled ?L ?s1" "live_tasks ?s1 \<subseteq> live_tasks s" "same_graph (sc_heap s) (sc_heap ?s1)"
    using sa(1) graph_policy.settles_inners [OF lp a(2), of ?L] c coupled_cong [of s1 ?s1 ?L]
    by (auto simp: settles_def intro: same_graph_trans)
  have log1: "launched_in (sc_log ?s1) = insert ?tk ?L" "offered_in (sc_log ?s1) = offered_in (sc_log s)"
    using quiets_log [OF inners_quiets [OF a(2)]] sa(2) k by (auto simp: sc_log_def launched_in_def)
  note r = launch_refines [OF s1(1) new l]
  obtain pd where s2: "s2 = ?s1\<lparr>sc_pending_dependencies := pd\<rparr>" by (rule launch_dependentsE [OF l])
  have sb: "settles (insert ?tk ?L) s2 sb" "sc_log sb = sc_log s2 @ [Offered out]"
    using graph_policy.call_keeps(2) [OF lp b(1)] call_log_log [OF b(1) [unfolded log_policy_sel]]
    by (auto intro!: settles_cong)
  have s': "coupled (insert ?tk ?L) s'" "live_tasks s' \<subseteq> live_tasks ?s1" "same_graph (sc_heap s) (sc_heap s')"
    using sb(1) graph_policy.settles_inners [OF lp b(2), of "insert ?tk ?L"] r s1(3)
    by (auto simp: settles_def s2 intro: same_graph_trans)
  have log': "launched_in (sc_log s') = insert ?tk ?L" "offered_in (sc_log s') = offered_in (sc_log s) @ out"
    using quiets_log [OF inners_quiets [OF b(2)]] sb(2) log1 by (auto simp: s2 sc_log_def launched_in_def)
  let ?g1 = "(dag_of s)\<lparr>dag_live := live_tasks ?s1\<rparr>"
  let ?g2 = "?g1\<lparr>dag_launched := insert ?tk (dag_launched ?g1), dag_offered := dag_offered ?g1 @ out\<rparr>"
  have 1: "dag_step (dag_of s) ?g1" by (rule dag_step.retire) (simp add: dag_of_def s1(2))
  have 2: "dag_step ?g1 ?g2"
    by (rule dag_step.launch) (use new r s1(3) in \<open>auto simp: dag_of_def same_graph_def\<close>)
  have 3: "dag_step ?g2 (?g2\<lparr>dag_live := live_tasks s'\<rparr>)"
    by (rule dag_step.retire) (simp add: s'(2))
  have "dag_of s' = ?g2\<lparr>dag_live := live_tasks s'\<rparr>"
    using s'(3) log' by (simp add: dag_of_def same_graph_def)
  then show ?thesis
    using 1 2 3 s'(1) log'(1) by (auto simp: simulated_def intro: converse_rtranclp_into_rtranclp)
qed


section \<open>Submission\<close>

text \<open>What the compiler guarantees of a plan.\<close>

definition plan_wf :: "plan \<Rightarrow> bool" where
  "plan_wf p \<longleftrightarrow>
     map fst (p_tasks p) = map (\<lambda>(k, t). t_id t) (p_tasks p) \<and> distinct (map fst (p_tasks p))
     \<and> (\<forall>t \<in> set (map snd (p_tasks p)). t_request_id t = p_request_id p
          \<and> set (t_dependencies t) \<subseteq> set (map fst (p_tasks p)))"

text \<open>A request the scheduler has not seen: neither its id nor the ids of its tasks are in use.\<close>

definition fresh_plan :: "plan \<Rightarrow> ('p \<times> policy_call list, 'w) scheduler \<Rightarrow> bool" where
  "fresh_plan p s \<longleftrightarrow>
     plan_wf p \<and> sc_plans s (p_request_id p) = None \<and> p_request_id p \<notin> sc_cleaned_requests s
     \<and> sc_failed_requests s (p_request_id p) = None
     \<and> (\<forall>k \<in> plan_keys (Some p). (\<forall>rid. k \<notin> plan_keys (sc_plans s rid))
          \<and> k \<notin> launched_in (sc_log s) \<and> k \<notin> set (offered_in (sc_log s)))"

lemma install_tasks_other: "d \<notin> t_id ` set ts \<Longrightarrow> install_tasks ts h d = h d"
  unfolding install_tasks_def by (induction ts arbitrary: h) auto

lemma install_tasks_own: "distinct (map t_id ts) \<Longrightarrow> t \<in> set ts \<Longrightarrow> install_tasks ts h (t_id t) = t"
proof (induction ts arbitrary: h)
  case (Cons u ts)
  have "install_tasks ts (h(t_id u := u)) (t_id u) = u"
    using Cons.prems(1) by (subst install_tasks_other) auto
  then show ?case using Cons by (auto simp: install_tasks_def)
qed simp

definition dlist :: "(string \<Rightarrow> string list option) \<Rightarrow> string \<Rightarrow> string list" where
  "dlist m tk = (case m tk of None \<Rightarrow> [] | Some l \<Rightarrow> l)"

lemma dlist_add: "dlist (fold (add_dependent x) ds m) tk = dlist m tk @ replicate (count_list ds tk) x"
  by (induction ds arbitrary: m) (auto simp: dlist_def add_dependent_def replicate_app_Cons_same)

lemma register_tasks_tables:
  assumes "for_res (register_task T) (s, arts) ts = Inr (s', arts')" "distinct (map t_id ts)"
  shows "(\<forall>d. sc_pending_dependencies s' d =
            (if d \<in> t_id ` set ts then Some (int (length (t_dependencies (install_tasks ts h d)))) else sc_pending_dependencies s d))
    \<and> (\<forall>tk d. count_list (depl s' tk) d = count_list (depl s tk) d
            + (if d \<in> t_id ` set ts then count_list (t_dependencies (install_tasks ts h d)) tk else 0))
    \<and> (\<forall>tk d. d \<in> set (depl s' tk) \<longrightarrow> d \<in> set (depl s tk)
          \<or> (d \<in> t_id ` set ts \<and> tk \<in> set (t_dependencies (install_tasks ts h d))))"
  using assms
proof (induction ts arbitrary: s arts h)
  case Nil
  then show ?case by simp
next
  case (Cons t ts)
  from Cons.prems(1) obtain s1 arts1 where 1: "register_task T (s, arts) t = Inr (s1, arts1)"
    and 2: "for_res (register_task T) (s1, arts1) ts = Inr (s', arts')" by (auto simp: bind_res_eq_Inr)
  have s1: "sc_pending_dependencies s1 = (sc_pending_dependencies s)(t_id t \<mapsto> int (length (t_dependencies t)))"
    "depl s1 x = depl s x @ replicate (count_list (t_dependencies t) x) (t_id t)" for x
    using 1 dlist_add [of "t_id t" "t_dependencies t" "sc_dependents s" x]
    by (auto simp: register_task_def bind_res_eq_Inr depl_def dlist_def)
  have t: "install_tasks (t # ts) h (t_id t) = t" by (rule install_tasks_own [OF Cons.prems(2)]) simp
  have i: "install_tasks (t # ts) h = install_tasks ts (h(t_id t := t))" by (simp add: install_tasks_def)
  have nt: "t_id t \<notin> t_id ` set ts" using Cons.prems(2) by auto
  have dist: "distinct (map t_id ts)" using Cons.prems(2) by simp
  have rep: "count_list (replicate n x) d = (if d = x then n else 0)" for n and x d :: string by (induction n) auto
  have IH: "sc_pending_dependencies s' d =
        (if d \<in> t_id ` set ts then Some (int (length (t_dependencies (install_tasks (t # ts) h d)))) else sc_pending_dependencies s1 d)"
    "count_list (depl s' tk) d = count_list (depl s1 tk) d
        + (if d \<in> t_id ` set ts then count_list (t_dependencies (install_tasks (t # ts) h d)) tk else 0)"
    "d \<in> set (depl s' tk) \<Longrightarrow> d \<in> set (depl s1 tk)
        \<or> (d \<in> t_id ` set ts \<and> tk \<in> set (t_dependencies (install_tasks (t # ts) h d)))" for d tk
    using Cons.IH [OF 2 dist, of "h(t_id t := t)", folded i] by blast+
  show ?case
  proof (intro conjI allI impI)
    fix d tk
    show "sc_pending_dependencies s' d =
        (if d \<in> t_id ` set (t # ts) then Some (int (length (t_dependencies (install_tasks (t # ts) h d)))) else sc_pending_dependencies s d)"
      by (cases "d = t_id t") (simp_all add: IH(1) s1(1) t nt)
    show "count_list (depl s' tk) d = count_list (depl s tk) d
        + (if d \<in> t_id ` set (t # ts) then count_list (t_dependencies (install_tasks (t # ts) h d)) tk else 0)"
      by (cases "d = t_id t") (simp_all add: IH(2) s1(2) t nt rep)
    show "d \<in> set (depl s tk) \<or> (d \<in> t_id ` set (t # ts) \<and> tk \<in> set (t_dependencies (install_tasks (t # ts) h d)))"
      if "d \<in> set (depl s' tk)"
    proof (cases "d = t_id t")
      case True
      then show ?thesis using IH(3) [OF that] nt by (auto simp: s1(2) t in_set_replicate count_list_0_iff split: if_splits)
    next
      case False
      then show ?thesis using IH(3) [OF that] by (auto simp: s1(2))
    qed
  qed
qed


lemma register_plan_coupled:
  assumes reg: "register_plan T p s = Inr s1" and fresh: "fresh_plan p s" and c: "coupled (launched_in (sc_log s)) s"
  shows "coupled (launched_in (sc_log s)) s1 \<and> live_tasks s1 = live_tasks s \<union> plan_keys (Some p)
    \<and> (\<forall>d. d \<notin> plan_keys (Some p) \<longrightarrow> sc_heap s1 d = sc_heap s d)
    \<and> (\<forall>d \<in> plan_keys (Some p). set (deps_of s1 d) \<subseteq> plan_keys (Some p))"
proof -
  define ts where "ts = map snd (p_tasks p)"
  define K where "K = plan_keys (Some p)"
  let ?L = "launched_in (sc_log s)" and ?rid = "p_request_id p"
  note fr = fresh [unfolded fresh_plan_def, folded K_def] and cl = c [unfolded coupled_def]
  have ids: "map t_id ts = map fst (p_tasks p)"
    using fr by (simp add: plan_wf_def ts_def split_beta)
  then have K: "K = t_id ` set ts" by (metis K_def option.simps(5) plan_keys_def list.set_map)
  have dist: "distinct (map t_id ts)" using fr ids by (simp add: plan_wf_def)
  have wf: "\<forall>t \<in> set ts. t_request_id t = ?rid \<and> set (t_dependencies t) \<subseteq> K"
  proof -
    have "K = set (map fst (p_tasks p))" by (simp add: K_def plan_keys_def)
    then show ?thesis using fr unfolding plan_wf_def ts_def [symmetric] by blast
  qed
  note frame = register_plan_frame [OF reg, folded ts_def]
  obtain s2 arts where loop: "for_res (register_task T)
      (s\<lparr>sc_heap := install_tasks ts (sc_heap s), sc_plans := (sc_plans s)(?rid \<mapsto> p),
         sc_store := fold (\<lambda>v m. store_put m (av_handle v) (av_value v)) (p_initial p) (sc_store s)\<rparr>, {}) ts = Inr (s2, arts)"
    and s1: "sc_pending_dependencies s1 = sc_pending_dependencies s2" "sc_dependents s1 = sc_dependents s2"
    using reg by (auto simp: register_plan_def bind_res_eq_Inr ts_def)
  have d1: "depl s1 = depl s2" by (simp add: depl_def s1 fun_eq_iff)
  note tab = register_tasks_tables [OF loop dist, of "sc_heap s", folded K frame(6)]
  have pend: "sc_pending_dependencies s1 d = (if d \<in> K then Some (int (length (deps_of s1 d))) else sc_pending_dependencies s d)" for d
    using tab by (simp add: s1)
  have cnt: "count_list (depl s1 tk) d = count_list (depl s tk) d + (if d \<in> K then count_list (deps_of s1 d) tk else 0)" for tk d
    using tab by (simp add: d1 depl_def)
  have sub: "d \<in> set (depl s tk) \<or> (d \<in> K \<and> tk \<in> set (deps_of s1 d))" if "d \<in> set (depl s1 tk)" for tk d
    using tab that by (simp add: d1 depl_def)
  have own: "req_of s1 d = ?rid" "set (deps_of s1 d) \<subseteq> K" if dK: "d \<in> K" for d
  proof -
    obtain t where t: "t \<in> set ts" "d = t_id t" using dK K by blast
    then have "sc_heap s1 d = t" using install_tasks_own [OF dist t(1)] frame(6) by simp
    then show "req_of s1 d = ?rid" "set (deps_of s1 d) \<subseteq> K" using wf t(1) by blast+
  qed
  have old: "sc_heap s1 d = sc_heap s d" if "d \<notin> K" for d
    using install_tasks_other [of d ts "sc_heap s"] that K frame(6) by simp
  have notin: "d \<notin> K" if "d \<in> plan_keys (sc_plans s rid)" for d rid using fr that by blast
  have notrid: "rid \<noteq> ?rid" if "d \<in> plan_keys (sc_plans s rid)" for d rid
    using fr that by (auto simp: plan_keys_def)
  have po: "d \<in> plan_keys (sc_plans s (req_of s d))" if "sc_pending_dependencies s d \<noteq> None" for d
    using cl that by (simp add: tables_owned_def)
  have pl: "d \<notin> set (depl s tk)" if "d \<in> K" for d tk
    using cl notin that unfolding tables_owned_def by blast
  have "plans_closed s1"
    unfolding plans_closed_def
  proof (intro allI impI)
    fix rid q assume q: "sc_plans s1 rid = Some q"
    show "rid \<notin> sc_cleaned_requests s1 \<and> (\<forall>k \<in> plan_keys (Some q). req_of s1 k = rid \<and> set (deps_of s1 k) \<subseteq> plan_keys (Some q))"
    proof (cases "rid = ?rid")
      case True
      then have "q = p" using q frame(7) by simp
      then show ?thesis using own fr True frame(5) by (simp add: K_def)
    next
      case False
      then have q': "sc_plans s rid = Some q" using q frame(7) by simp
      have "req_of s1 k = rid \<and> set (deps_of s1 k) \<subseteq> plan_keys (Some q)" if "k \<in> plan_keys (Some q)" for k
        using plans_closedD [OF conjunct1 [OF cl], of k rid] that q' old [of k] notin [of k rid] by simp
      moreover have "rid \<notin> sc_cleaned_requests s" using cl q' by (simp add: plans_closed_def)
      ultimately show ?thesis using frame(5) by simp
    qed
  qed
  moreover have "tables_owned s1"
    unfolding tables_owned_def
  proof (intro conjI allI impI)
    fix d assume d: "sc_pending_dependencies s1 d \<noteq> None"
    show "d \<in> plan_keys (sc_plans s1 (req_of s1 d))"
    proof (cases "d \<in> K")
      case True
      then show ?thesis using own(1) frame(7) by (simp add: K_def)
    next
      case False
      then have "sc_pending_dependencies s d \<noteq> None" using d by (simp add: pend)
      then show ?thesis using po [of d] notrid [of d] old [OF False] frame(7) by simp
    qed
  next
    fix tk d assume "d \<in> set (depl s1 tk)"
    from sub [OF this] show "\<exists>rid. d \<in> plan_keys (sc_plans s1 rid) \<and> tk \<in> plan_keys (sc_plans s1 rid)"
    proof
      assume "d \<in> set (depl s tk)"
      then obtain rid where r: "d \<in> plan_keys (sc_plans s rid)" "tk \<in> plan_keys (sc_plans s rid)"
        using cl unfolding tables_owned_def by blast
      then show ?thesis using notrid [OF r(1)] frame(7) by (intro exI [of _ rid]) simp
    next
      assume "d \<in> K \<and> tk \<in> set (deps_of s1 d)"
      then show ?thesis using own(2) [of d] frame(7) by (intro exI [of _ ?rid]) (auto simp: K_def)
    qed
  qed
  moreover have "deps_counted ?L s1"
    unfolding deps_counted_def
  proof (intro conjI allI impI)
    fix d n assume d: "sc_pending_dependencies s1 d = Some n" "sc_failed_requests s1 (req_of s1 d) = None"
    show "n = int (length (filter (\<lambda>x. x \<notin> ?L) (deps_of s1 d)))"
    proof (cases "d \<in> K")
      case True
      then have "\<forall>x \<in> set (deps_of s1 d). x \<notin> ?L" using own(2) fr by blast
      then have "filter (\<lambda>x. x \<notin> ?L) (deps_of s1 d) = deps_of s1 d" by (simp add: filter_id_conv)
      then show ?thesis using d(1) True by (simp add: pend)
    next
      case False
      then show ?thesis using d cl old [OF False] frame(4) by (simp add: pend deps_counted_def)
    qed
  next
    fix d tk assume d: "sc_pending_dependencies s1 d \<noteq> None" and tk: "tk \<notin> ?L"
    show "count_list (depl s1 tk) d = count_list (deps_of s1 d) tk"
    proof (cases "d \<in> K")
      case True
      then show ?thesis using pl [OF True, of tk] by (simp add: cnt count_list_0_iff)
    next
      case False
      then show ?thesis using d tk cl old [OF False] by (simp add: cnt pend deps_counted_def)
    qed
  qed
  moreover have "live_tasks s1 = live_tasks s \<union> K"
  proof (rule set_eqI)
    fix d show "d \<in> live_tasks s1 \<longleftrightarrow> d \<in> live_tasks s \<union> K"
      using own(1) [of d] old [of d] fr frame(4) by (cases "d \<in> K") (simp_all add: live_tasks_def pend)
  qed
  ultimately show ?thesis using old own(2) by (simp add: coupled_def K_def)
qed


lemma submit_simulated:
  assumes g: "graph_policy P" and f: "fail_ok (log_policy P) W fail"
    and sub: "submit_request (log_policy P) W fail (Inr p) s = Inr (s', rid)"
    and fresh: "fresh_plan p s" and c: "coupled (launched_in (sc_log s)) s"
  shows "simulated s s'"
proof -
  let ?K = "plan_keys (Some p)" and ?L = "launched_in (sc_log s)"
  note lp = log_graph_policy [OF g]
  obtain s1 sa tks where reg: "register_plan (sc_topology (log_policy P) s) p s = Inr s1"
    and a: "call_policy (po_on_request_submitted (log_policy P) p) s1 = Inr (sa, tks)" "inners (log_policy P) W sa s'"
    by (rule submit_requestE [OF f sub])
  note r = register_plan_coupled [OF reg fresh c]
  have sa: "settles ?L s1 sa" "sc_log sa = sc_log s1 @ [Submitted p]"
    using graph_policy.call_keeps(1) [OF lp a(1)] call_log_log [OF a(1) [unfolded log_policy_sel]]
    by (auto intro!: settles_cong)
  have log1: "sc_log s1 = sc_log s" using register_plan_frame(1) [OF reg] by (simp add: sc_log_def)
  have s': "coupled ?L s'" "live_tasks s' \<subseteq> live_tasks s1" "same_graph (sc_heap s1) (sc_heap s')"
    using sa(1) graph_policy.settles_inners [OF lp a(2), of ?L] r
    by (auto simp: settles_def intro: same_graph_trans)
  have log': "launched_in (sc_log s') = ?L" "offered_in (sc_log s') = offered_in (sc_log s)"
    using quiets_log [OF inners_quiets [OF a(2)]] sa(2) log1 by (auto simp: launched_in_def)
  let ?g1 = "(dag_of s)\<lparr>dag_deps := deps_of s1, dag_live := dag_live (dag_of s) \<union> ?K\<rparr>"
  have new: "t \<notin> live_tasks s" if "t \<in> ?K" for t
  proof
    assume "t \<in> live_tasks s"
    then have "t \<in> plan_keys (sc_plans s (req_of s t))" using c by (auto simp: coupled_def tables_owned_def live_tasks_def)
    then show False using fresh that by (simp add: fresh_plan_def)
  qed
  have "dag_step (dag_of s) ?g1"
  proof (rule dag_step.submit)
    fix t assume t: "t \<in> ?K"
    have "set (deps_of s1 t) \<subseteq> ?K" using r t by blast
    moreover have "\<forall>k \<in> ?K. k \<notin> ?L \<and> k \<notin> set (offered_in (sc_log s))" using fresh by (simp add: fresh_plan_def)
    ultimately show "t \<notin> dag_live (dag_of s) \<and> t \<notin> dag_launched (dag_of s) \<and> t \<notin> set (dag_offered (dag_of s))
        \<and> set (deps_of s1 t) \<inter> dag_launched (dag_of s) = {}"
      using new [OF t] t by (auto simp: dag_of_def)
  next
    fix t assume "t \<notin> ?K"
    then show "deps_of s1 t = dag_deps (dag_of s) t" using r by (simp add: dag_of_def)
  qed
  moreover have "dag_step ?g1 (?g1\<lparr>dag_live := live_tasks s'\<rparr>)"
    by (rule dag_step.retire) (use s'(2) r in \<open>simp add: dag_of_def\<close>)
  moreover have "dag_of s' = ?g1\<lparr>dag_live := live_tasks s'\<rparr>"
    using s'(3) log' by (simp add: dag_of_def same_graph_def)
  ultimately show ?thesis
    using s'(1) log'(1) by (auto simp: simulated_def intro: converse_rtranclp_into_rtranclp)
qed

section \<open>Refinement\<close>

text \<open>
  Orderly runs: requests come with fresh ids, and a task is reported launched once. The workers and
  the aggregation of their events give the second; a repeated report would count a dependency twice.
\<close>

definition launch_is_new :: "pool_event \<Rightarrow> ('p \<times> policy_call list, 'w) scheduler \<Rightarrow> bool" where
  "launch_is_new pe s \<longleftrightarrow>
     (case pe of WorkerEvent ev refs \<Rightarrow> e_kind ev = TASK_LAUNCH_END \<longrightarrow> e_task_id ev \<notin> launched_in (sc_log s)
      | WorkerReadyMessage r st m \<Rightarrow> True)"

definition reshard_is_new :: "mig_callback \<Rightarrow> ('p \<times> policy_call list, 'w) scheduler \<Rightarrow> bool" where
  "reshard_is_new cb s \<longleftrightarrow>
     (case cb of ReshardCallback tk dst \<Rightarrow> tk \<notin> launched_in (sc_log s) | ImplicitCallback tk a dst hold \<Rightarrow> True)"

inductive orderly_reach ::
  "'p policy_ops \<Rightarrow> 'w pool_ops \<Rightarrow> ('p \<times> policy_call list, 'w) scheduler \<Rightarrow> ('p \<times> policy_call list, 'w) scheduler \<Rightarrow> bool"
  for P W s0 where
  start: "orderly_reach P W s0 s0"
| submit: "orderly_reach P W s0 s \<Longrightarrow> fresh_plan p s \<Longrightarrow>
    submit_request (log_policy P) W (fail_parked_task n (log_policy P) W) (Inr p) s = Inr (s', rid) \<Longrightarrow>
    orderly_reach P W s0 s'"
| event: "orderly_reach P W s0 s \<Longrightarrow> launch_is_new pe s \<Longrightarrow>
    handle_worker_event (log_policy P) W (fail_parked_task n (log_policy P) W) pe s = Inr s' \<Longrightarrow>
    orderly_reach P W s0 s'"
| callback: "orderly_reach P W s0 s \<Longrightarrow> reshard_is_new cb s \<Longrightarrow>
    fire_callback (log_policy P) W (fail_parked_task n (log_policy P) W) cb oc s = Inr s' \<Longrightarrow>
    orderly_reach P W s0 s'"
| status: "orderly_reach P W s0 s \<Longrightarrow> get_request_status W rid s = Inr (s', x) \<Longrightarrow> orderly_reach P W s0 s'"
| release: "orderly_reach P W s0 s \<Longrightarrow> orderly_reach P W s0 (release_request W rid s)"
| tick: "orderly_reach P W s0 s \<Longrightarrow> orderly_reach P W s0 (s\<lparr>sc_now := t\<rparr>)"

lemma event_simulated:
  assumes "graph_policy P" "fail_ok (log_policy P) W fail"
    and "handle_worker_event (log_policy P) W fail pe s = Inr s'"
    and "coupled (launched_in (sc_log s)) s" "launch_is_new pe s"
  shows "simulated s s'"
proof (cases pe)
  case (WorkerReadyMessage r st m)
  then show ?thesis using assms(3) by (simp add: handle_worker_event_def)
next
  case (WorkerEvent ev refs)
  have refl: "simulated s s" using assms(4) by (simp add: simulated_def)
  show ?thesis
  proof (cases "e_kind ev = TASK_LAUNCH_END")
    case True
    have "simulated s s'" if "handle_launch_end (log_policy P) W fail ev refs s = Inr s'"
      by (rule launch_end_simulated [OF assms(1,2) that True assms(4)])
         (use assms(5) True in \<open>simp add: launch_is_new_def WorkerEvent\<close>)
    then show ?thesis using assms(3) refl by (auto simp: WorkerEvent handle_launch_event [OF True] split: if_splits)
  next
    case False
    show ?thesis
      by (rule quiets_simulated [OF assms(1) handle_worker_event_quiets [OF assms(2) assms(3) [unfolded WorkerEvent] False] assms(4)])
  qed
qed

lemma callback_simulated:
  assumes "graph_policy P" "fail_ok (log_policy P) W fail"
    and "fire_callback (log_policy P) W fail cb oc s = Inr s'"
    and "coupled (launched_in (sc_log s)) s" "reshard_is_new cb s"
  shows "simulated s s'"
proof (rule fire_callback_cases [OF assms(2,3)])
  assume "quiet_steps (log_policy P) W s s'"
  then show ?thesis by (rule quiets_simulated [OF assms(1) _ assms(4)])
next
  fix tk dst refs s1
  assume cb: "cb = ReshardCallback tk dst"
    and 1: "handle_worker_event (log_policy P) W fail (WorkerEvent (synthetic_event tk TASK_LAUNCH_END dst [] s) refs) s = Inr s1"
    and 2: "handle_worker_event (log_policy P) W fail (WorkerEvent (synthetic_event tk TASK_EXEC_END dst [] s1) []) s1 = Inr s'"
  have s1: "simulated s s1"
    by (rule event_simulated [OF assms(1,2) 1 assms(4)])
       (use assms(5) in \<open>simp add: launch_is_new_def reshard_is_new_def cb synthetic_event_def\<close>)
  moreover have "simulated s1 s'"
    by (rule event_simulated [OF assms(1,2) 2]) (use s1 in \<open>simp_all add: simulated_def launch_is_new_def synthetic_event_def\<close>)
  ultimately show ?thesis by (rule simulated_trans)
qed

lemma quiets_simulated':
  assumes "graph_policy P" "simulated s0 s" "quiet_steps (log_policy P) W s s'"
  shows "simulated s0 s'"
proof -
  have "coupled (launched_in (sc_log s)) s" using assms(2) by (simp add: simulated_def)
  from simulated_trans [OF assms(2) quiets_simulated [OF assms(1,3) this]] show ?thesis .
qed

lemma orderly_simulated:
  assumes "graph_policy P" "orderly_reach P W s0 s" "coupled (launched_in (sc_log s0)) s0"
  shows "simulated s0 s"
  using assms(2)
proof (induction rule: orderly_reach.induct)
  case start
  then show ?case using assms(3) by (simp add: simulated_def)
next
  case (submit s p n s' rid)
  then show ?case
    using submit_simulated [OF assms(1) fail_parked_task_ok] by (meson simulated_def simulated_trans)
next
  case (event s pe n s')
  then show ?case
    using event_simulated [OF assms(1) fail_parked_task_ok] by (meson simulated_def simulated_trans)
next
  case (callback s cb n oc s')
  then show ?case
    using callback_simulated [OF assms(1) fail_parked_task_ok] by (meson simulated_def simulated_trans)
next
  case (status s rid s' x)
  show ?case by (rule quiets_simulated' [OF assms(1) status.IH get_request_status_quiets [OF status.hyps(2)]])
next
  case (release s rid)
  show ?case by (rule release_simulated [OF release.IH])
next
  case (tick s t)
  show ?case by (rule quiets_simulated' [OF assms(1) tick.IH quiet_single [OF quiet_step.clock]])
qed

lemma coupled_init: "coupled L (scheduler_init h p w)"
  by (simp add: coupled_def plans_closed_def tables_owned_def deps_counted_def scheduler_init_def depl_def)

text \<open>
  C3: The scheduler refines the task-graph specification: for every policy that leaves the
  dependencies of tasks alone, every orderly run is, seen through the abstraction, a run of
  \<open>dag_step\<close>. In particular a task is offered to the policy at most once, only after all of its
  dependencies were launched, and a task whose request is alive has been offered as soon as
  its last dependency was launched.
\<close>

theorem scheduler_refines_dag:
  assumes "graph_policy P" and "orderly_reach P W (scheduler_init h (p, []) w) s"
  shows "dag_step\<^sup>*\<^sup>* (dag_init (\<lambda>d. t_dependencies (h d))) (dag_of s)
    \<and> distinct (offered_in (sc_log s))
    \<and> (\<forall>d. d \<in> set (offered_in (sc_log s)) \<longrightarrow> set (deps_of s d) \<subseteq> launched_in (sc_log s))
    \<and> (\<forall>d \<in> live_tasks s. deps_of s d \<noteq> [] \<longrightarrow>
         (d \<in> set (offered_in (sc_log s)) \<longleftrightarrow> set (deps_of s d) \<subseteq> launched_in (sc_log s)))"
proof -
  let ?s0 = "scheduler_init h (p, []) w"
  have init: "dag_of ?s0 = dag_init (\<lambda>d. t_dependencies (h d))"
    by (simp add: dag_of_def dag_init_def scheduler_init_def live_tasks_def sc_log_def launched_in_def)
  have "simulated ?s0 s" by (rule orderly_simulated [OF assms coupled_init])
  then have run: "dag_step\<^sup>*\<^sup>* (dag_init (\<lambda>d. t_dependencies (h d))) (dag_of s)"
    by (simp add: simulated_def init)
  then have inv: "dag_inv (dag_of s)"
    by (induction rule: rtranclp_induct) (auto intro: dag_init_inv dag_step_inv)
  have "distinct (offered_in (sc_log s))"
    "\<forall>d \<in> set (offered_in (sc_log s)). set (deps_of s d) \<subseteq> launched_in (sc_log s)"
    "\<forall>d \<in> live_tasks s. deps_of s d \<noteq> [] \<longrightarrow> set (deps_of s d) \<subseteq> launched_in (sc_log s) \<longrightarrow> d \<in> set (offered_in (sc_log s))"
    using inv by (simp_all add: dag_inv_def dag_of_def)
  then show ?thesis using run by blast
qed


section \<open>Policies that keep the contract\<close>

definition keeps_graph :: "'st dispatch \<Rightarrow> bool" where
  "keeps_graph op \<longleftrightarrow> (\<forall>h st h' st' out. op (h, st) = Inr ((h', st'), out) \<longrightarrow> same_graph h h')"

lemma keeps_graphD: "keeps_graph op \<Longrightarrow> op (h, st) = Inr ((h', st'), out) \<Longrightarrow> same_graph h h'"
  unfolding keeps_graph_def by blast

lemma same_graph_dispatched: "same_graph (set_dispatched tk h) h' \<Longrightarrow> same_graph h h'"
  by (simp add: same_graph_def set_dispatched_def)

lemma enqueue_task_keeps:
  assumes "enqueue_task sel (h, st) tk = Inr (h', st')"
  shows "same_graph h h'"
proof -
  obtain g where "h' = h(tk := (h tk)\<lparr>t_group_id := g, t_status := READY\<rparr>)"
    using assms by (auto simp: enqueue_task_def bind_res_eq_Inr Let_def split: if_splits option.splits)
  then show ?thesis by (simp add: same_graph_def)
qed

lemma on_tasks_runnable_keeps:
  assumes "keeps_graph dispatch"
  shows "keeps_graph (on_tasks_runnable sel dispatch tks)"
  unfolding keeps_graph_def
proof (intro allI impI)
  fix h st h' st' out assume "on_tasks_runnable sel dispatch tks (h, st) = Inr ((h', st'), out)"
  then obtain h1 st1 where 1: "for_res (enqueue_task sel) (h, st) tks = Inr (h1, st1)"
    and 2: "dispatch (h1, st1) = Inr ((h', st'), out)"
    by (auto simp: on_tasks_runnable_def bind_res_eq_Inr)
  have "(\<lambda>x. same_graph h (fst x)) (h1, st1)"
  proof (rule for_res_invariant [OF _ _ 1])
    fix x tk y assume hx: "same_graph h (fst x)" and e: "enqueue_task sel x tk = Inr y"
    have "same_graph (fst x) (fst y)"
      by (rule enqueue_task_keeps [of sel "fst x" "snd x" tk "fst y" "snd y"]) (simp add: e)
    then show "same_graph h (fst y)" by (rule same_graph_trans [OF hx])
  qed simp
  then show "same_graph h h'" using keeps_graphD [OF assms 2] by (auto intro: same_graph_trans)
qed

lemma on_worker_event_keeps: "keeps_graph dispatch \<Longrightarrow> keeps_graph (on_worker_event release dispatch ev)"
  by (simp add: keeps_graph_def on_worker_event_def Let_def)

lemma take_reshards_keeps: "take_reshards q h st = Inr ((h', st'), out) \<Longrightarrow> same_graph h h'"
  by (induction q arbitrary: h st out)
     (auto simp: bind_res_eq_Inr split: if_splits dest!: same_graph_dispatched)

lemma take_group_keeps: "take_group g q h st = ((h', st'), out) \<Longrightarrow> same_graph h h'"
  by (induction q arbitrary: h st out)
     (auto simp: Let_def split: if_splits prod.splits dest!: same_graph_dispatched)

lemma take_groups_keeps: "take_groups gs h st = ((h', st'), out) \<Longrightarrow> same_graph h h'"
  by (induction gs arbitrary: h st out)
     (auto simp: Let_def simp del: take_group.simps split: option.splits list.splits prod.splits
       dest!: take_group_keeps intro: same_graph_trans)

lemma take_reshards_by_rank_keeps: "take_reshards_by_rank q h st = Inr ((h', st'), out) \<Longrightarrow> same_graph h h'"
  by (induction q arbitrary: h st out)
     (auto simp: bind_res_eq_Inr split: if_splits dest!: same_graph_dispatched)

lemma take_group_by_rank_keeps: "take_group_by_rank g q h st = ((h', st'), out) \<Longrightarrow> same_graph h h'"
  by (induction q arbitrary: h st out)
     (auto simp: Let_def split: if_splits prod.splits dest!: same_graph_dispatched)

lemma take_groups_by_rank_keeps: "take_groups_by_rank gs h st = ((h', st'), out) \<Longrightarrow> same_graph h h'"
  by (induction gs arbitrary: h st out)
     (auto simp: Let_def simp del: take_group_by_rank.simps split: option.splits list.splits prod.splits
       dest!: take_group_by_rank_keeps intro: same_graph_trans)

lemma two_pass_keeps:
  assumes "\<And>q h st h' st' out. f q h st = Inr ((h', st'), out) \<Longrightarrow> same_graph h h'"
    and "\<And>gs h st h' st' out. g gs h st = ((h', st'), out) \<Longrightarrow> same_graph h h'"
  shows "keeps_graph (\<lambda>s. case s of (h, st) \<Rightarrow>
     bind_res (f (a st) h st) (\<lambda>((h1, st1), out1). let (s2, out2) = g (b st1) h1 st1 in Inr (s2, out1 @ out2)))"
  unfolding keeps_graph_def
proof (intro allI impI)
  fix h st h' st' out
  assume *: "(case (h, st) of (h, st) \<Rightarrow>
     bind_res (f (a st) h st) (\<lambda>((h1, st1), out1). let (s2, out2) = g (b st1) h1 st1 in Inr (s2, out1 @ out2))) = Inr ((h', st'), out)"
  then obtain h1 st1 out1 where 1: "f (a st) h st = Inr ((h1, st1), out1)" by (auto simp: bind_res_eq_Inr)
  obtain h2 st2 out2 where 2: "g (b st1) h1 st1 = ((h2, st2), out2)" by (metis surj_pair)
  from * 1 2 have "h' = h2" by simp
  then show "same_graph h h'" using assms(1) [OF 1] assms(2) [OF 2] by (auto intro: same_graph_trans)
qed

lemma take_keeps: "keeps_graph take_dispatchable_tasks" "keeps_graph take_dispatchable_by_rank"
  unfolding take_dispatchable_tasks_def [abs_def] take_dispatchable_by_rank_def [abs_def]
  by (rule two_pass_keeps; fact take_reshards_keeps take_groups_keeps take_reshards_by_rank_keeps take_groups_by_rank_keeps)+

definition dynamic_ops :: "dynamic_step policy_ops" where
  "dynamic_ops =
     \<lparr>po_topology = dg_topology, po_on_request_submitted = dynamic_submit,
      po_on_tasks_runnable = dynamic_runnable, po_on_worker_event = dynamic_event,
      po_acquire_migration_hold = acquire_migration_hold, po_release_migration_hold = release_migration_hold\<rparr>"

interpretation disagg_graph: graph_policy disaggregate_ops
  by unfold_locales
     (auto simp: disaggregate_ops_def disaggregate_submit_def disaggregate_runnable_def disaggregate_event_def
       dest: keeps_graphD [OF on_tasks_runnable_keeps [OF take_keeps(1)]] keeps_graphD [OF on_worker_event_keeps [OF take_keeps(1)]])

interpretation dyn_graph: graph_policy dynamic_ops
  by unfold_locales
     (auto simp: dynamic_ops_def dynamic_submit_def dynamic_runnable_def dynamic_event_def
       dest: keeps_graphD [OF on_tasks_runnable_keeps [OF take_keeps(2)]] keeps_graphD [OF on_worker_event_keeps [OF take_keeps(2)]])


section \<open>A concrete run\<close>

text \<open>Request \<open>y\<close>: the launch of its first task makes the second runnable, which then waits for a migration.\<close>

lemma ex_graph_run:
  "case submit_request ex_log_ops ex_pool (ex_log_fail 3) (Inr (ex_pipeline ''y'')) ex_log_start of
     Inl _ \<Rightarrow> False
   | Inr (s, rid) \<Rightarrow> launched_in (sc_log s) = {} \<and> offered_in (sc_log s) = []
       \<and> (case handle_worker_event ex_log_ops ex_pool (ex_log_fail 3) (ex_launched ''y'') s of
            Inl _ \<Rightarrow> False
          | Inr s' \<Rightarrow> offered_in (sc_log s') = [''y2''] \<and> deps_of s' ''y2'' = [''y1''] \<and> sc_parked_pending s' ''y2'' = Some 1)"
  by code_simp

lemma ex_fresh: "fresh_plan (ex_pipeline ''y'') ex_log_start"
proof -
  have "plan_wf (ex_pipeline ''y'')" by code_simp
  then show ?thesis
    by (simp add: fresh_plan_def ex_log_start_def scheduler_init_def sc_log_def launched_in_def plan_keys_def)
qed

theorem scheduler_refines_dag_witness:
  "\<exists>s. orderly_reach disaggregate_ops ex_pool ex_log_start s
     \<and> offered_in (sc_log s) = [''y2''] \<and> {''y1''} \<subseteq> launched_in (sc_log s)
     \<and> dag_step\<^sup>*\<^sup>* (dag_init (\<lambda>d. t_dependencies (ex_heap d))) (dag_of s)"
proof -
  obtain s rid s' where s: "submit_request ex_log_ops ex_pool (ex_log_fail 3) (Inr (ex_pipeline ''y'')) ex_log_start = Inr (s, rid)"
    "handle_worker_event ex_log_ops ex_pool (ex_log_fail 3) (ex_launched ''y'') s = Inr s'"
    "launched_in (sc_log s) = {}" "offered_in (sc_log s') = [''y2'']" "deps_of s' ''y2'' = [''y1'']"
    using ex_graph_run by (auto split: sum.splits)
  have "orderly_reach disaggregate_ops ex_pool ex_log_start s"
    by (rule orderly_reach.submit [OF orderly_reach.start ex_fresh s(1)])
  then have r: "orderly_reach disaggregate_ops ex_pool ex_log_start s'"
    by (rule orderly_reach.event [OF _ _ s(2)]) (simp add: launch_is_new_def ex_launched_def s(3))
  note t = scheduler_refines_dag [OF disagg_graph.graph_policy_axioms r [unfolded ex_log_start_def]]
  have "set (deps_of s' ''y2'') \<subseteq> launched_in (sc_log s')"
    using t unfolding s(4) by (metis list.set_intros(1))
  then show ?thesis using r t s(4) unfolding s(5) by (metis empty_set list.simps(15))
qed

end
