(* ===== verification/WorkerPool.thy ===== *)
theory WorkerPool
  imports Scheduler MigrationEngine
begin

text \<open>
  The controller side of the worker pool (\<open>MultiprocWorkerPool\<close> in \<open>runtime_v2/multiproc_worker.py\<close>):
  the registration of dispatched tasks, the aggregation of the events of the ranks of a group into
  one event, the event queue, the table of artifact fetches, and the start of migrations. Pipes
  are traces of sent commands; the processes behind them are not modelled, their events and
  results are inputs. The operations that the source runs under a lock are single steps here.
\<close>

section \<open>State\<close>

text \<open>An event as it arrives: the record, and the references under \<open>published_outputs\<close>.\<close>

type_synonym rank_event = "worker_event \<times> worker_local_ref list"

record task_dispatch_state =
  td_group_id :: string
  td_expected_ranks :: "int set"
  td_result_owner_rank :: int
  td_events_by_kind :: "worker_event_kind \<Rightarrow> (int \<times> rank_event) list option"

text \<open>An artifact of a fetch result: already decoded, or the pickled payload.\<close>

datatype wire_artifact =
    PlainArtifact artifact_value
  | SerializedArtifact artifact_handle string

record wire_result =
  wf_fetch_id :: string
  wf_artifacts :: "wire_artifact list"
  wf_error :: "string option"

text \<open>A payload on a result pipe: the reply to a fetch, or something else.\<close>

datatype result_payload = FetchReply wire_result | OtherReply

datatype pool_command =
    DispatchCommand task "artifact_value list" int "string list" group_spec
  | FetchCommand string string string "string list"
  | EvictCommand string

record worker_pool =
  wp_handles :: "int list"
  wp_sent :: "(int \<times> pool_command) list"
  wp_task_dispatch_state :: "string \<Rightarrow> task_dispatch_state option"
  wp_event_queue :: "pool_event list"
  wp_result_queues :: "int \<Rightarrow> result_payload list option"
  wp_migration_result_queues :: "(int \<times> mig_result list) list"
  wp_engine :: engine
  wp_reader_error :: bool
  wp_inflight_fetches :: "string \<Rightarrow> int option"
  wp_completed_fetches :: "string \<Rightarrow> wire_result option"

definition worker_pool_init :: "int list \<Rightarrow> worker_pool" where
  "worker_pool_init ranks =
     \<lparr>wp_handles = ranks, wp_sent = [], wp_task_dispatch_state = (\<lambda>_. None), wp_event_queue = [],
      wp_result_queues = (\<lambda>r. if r \<in> set ranks then Some [] else None),
      wp_migration_result_queues = map (\<lambda>r. (r, [])) ranks, wp_engine = engine_init,
      wp_reader_error = False, wp_inflight_fetches = (\<lambda>_. None), wp_completed_fetches = (\<lambda>_. None)\<rparr>"

section \<open>Dispatch\<close>

definition register_task_dispatch :: "topology \<Rightarrow> task \<Rightarrow> worker_pool \<Rightarrow> worker_pool res" where
  "register_task_dispatch T t w =
     (case t_group_id t of
        None \<Rightarrow> Inl ValueError
      | Some gid \<Rightarrow>
          bind_res (get_group T gid) (\<lambda>g.
          bind_res (get_group_leader T gid) (\<lambda>leader.
            Inr (w\<lparr>wp_task_dispatch_state := (wp_task_dispatch_state w)(t_id t \<mapsto>
                   \<lparr>td_group_id = gid, td_expected_ranks = set (g_ranks g), td_result_owner_rank = leader,
                    td_events_by_kind = (\<lambda>_. None)\<rparr>)\<rparr>))))"

text \<open>\<open>self.worker_handles[rank].command_pipe_w.send(command)\<close>.\<close>

definition send_command :: "pool_command \<Rightarrow> worker_pool \<Rightarrow> int \<Rightarrow> worker_pool res" where
  "send_command c w r =
     (if r \<in> set (wp_handles w) then Inr (w\<lparr>wp_sent := wp_sent w @ [(r, c)]\<rparr>) else Inl KeyError)"

definition pool_dispatch ::
  "topology \<Rightarrow> task \<Rightarrow> artifact_value list \<Rightarrow> string list \<Rightarrow> worker_pool \<Rightarrow> worker_pool res" where
  "pool_dispatch T t inl rel w =
     (case t_group_id t of
        None \<Rightarrow> Inl ValueError
      | Some gid \<Rightarrow>
          bind_res (get_group T gid) (\<lambda>g.
          bind_res (register_task_dispatch T t w) (\<lambda>w1.
          bind_res (get_group_leader T gid) (\<lambda>leader.
            for_res (send_command (DispatchCommand t inl leader rel g)) w1 (g_ranks g)))))"

section \<open>Aggregation of events\<close>

text \<open>\<open>min(events, key=lambda event: (event.timestamp_ns, event.worker_rank))\<close> on a non-empty list.\<close>

fun earliest_event :: "rank_event \<Rightarrow> rank_event list \<Rightarrow> rank_event" where
  "earliest_event e [] = e"
| "earliest_event e (x # xs) =
     earliest_event
       (if (e_timestamp_ns (fst x), e_worker_rank (fst x)) < (e_timestamp_ns (fst e), e_worker_rank (fst e)) then x else e) xs"

definition aggregate_id :: "string \<Rightarrow> worker_event_kind \<Rightarrow> string" where
  "aggregate_id tk k = ''aggregate:'' @ tk @ '':'' @ worker_event_kind_value k"

definition build_aggregated_event ::
  "task_dispatch_state \<Rightarrow> worker_event_kind \<Rightarrow> (int \<times> rank_event) list \<Rightarrow> rank_event res" where
  "build_aggregated_event st k by_rank =
     (case by_rank of
        [] \<Rightarrow> Inl ValueError
      | (r0, e0) # rest \<Rightarrow>
          let rep = (case map_of by_rank (td_result_owner_rank st) of
                       Some e \<Rightarrow> e
                     | None \<Rightarrow> earliest_event e0 (map snd rest))
          in Inr (\<lparr>e_event_id = aggregate_id (e_task_id (fst rep)) k, e_task_id = e_task_id (fst rep),
                   e_request_id = e_request_id (fst rep), e_group_id = td_group_id st,
                   e_worker_rank = td_result_owner_rank st, e_kind = k,
                   e_timestamp_ns = Max (set (map (\<lambda>(r, e). e_timestamp_ns (fst e)) by_rank)),
                   e_message = e_message (fst rep),
                   e_metadata = dict_set (e_metadata (fst rep)) ''completed_ranks''
                                  (PyList (map PyInt (sort (map fst by_rank))))\<rparr>, snd rep))"

definition aggregate_task_event :: "rank_event \<Rightarrow> worker_pool \<Rightarrow> (worker_pool \<times> rank_event list) res" where
  "aggregate_task_event re w =
     (let ev = fst re; tk = e_task_id ev; k = e_kind ev
      in case wp_task_dispatch_state w tk of
           None \<Rightarrow> Inr (w, [])
         | Some st \<Rightarrow>
             if k = TASK_FAILED then
               Inr (w\<lparr>wp_task_dispatch_state := (wp_task_dispatch_state w)(tk := None)\<rparr>,
                    [(\<lparr>e_event_id = aggregate_id tk k, e_task_id = tk, e_request_id = e_request_id ev,
                       e_group_id = td_group_id st, e_worker_rank = e_worker_rank ev, e_kind = k,
                       e_timestamp_ns = e_timestamp_ns ev, e_message = e_message ev,
                       e_metadata = [(''failed_rank'', PyInt (e_worker_rank ev))]\<rparr>, [])])
             else
               let seen = (case td_events_by_kind st k of None \<Rightarrow> [] | Some l \<Rightarrow> l)
               in if e_worker_rank ev \<in> set (map fst seen)
                  then Inr (w\<lparr>wp_task_dispatch_state := (wp_task_dispatch_state w)
                         (tk \<mapsto> st\<lparr>td_events_by_kind := (td_events_by_kind st)(k \<mapsto> seen)\<rparr>)\<rparr>, [])
                  else
                    let seen' = seen @ [(e_worker_rank ev, re)];
                        w1 = w\<lparr>wp_task_dispatch_state := (wp_task_dispatch_state w)
                               (tk \<mapsto> st\<lparr>td_events_by_kind := (td_events_by_kind st)(k \<mapsto> seen')\<rparr>)\<rparr>
                    in if set (map fst seen') \<noteq> td_expected_ranks st then Inr (w1, [])
                       else bind_res (build_aggregated_event st k seen') (\<lambda>agg.
                         Inr (if k = TASK_EXEC_END
                              then w1\<lparr>wp_task_dispatch_state := (wp_task_dispatch_state w1)(tk := None)\<rparr> else w1,
                              [agg])))"

definition consume_event :: "pool_event \<Rightarrow> worker_pool \<Rightarrow> (worker_pool \<times> pool_event list) res" where
  "consume_event pe w =
     (case pe of
        WorkerReadyMessage r st m \<Rightarrow> Inr (w, [pe])
      | WorkerEvent ev refs \<Rightarrow>
          if e_kind ev \<in> {TASK_LAUNCH_BEGIN, TASK_LAUNCH_END, TASK_EXEC_BEGIN, TASK_EXEC_END, TASK_FAILED}
          then bind_res (aggregate_task_event (ev, refs) w) (\<lambda>(w1, out). Inr (w1, map (\<lambda>(e, rs). WorkerEvent e rs) out))
          else Inr (w, [pe]))"

definition enqueue_event :: "pool_event \<Rightarrow> worker_pool \<Rightarrow> worker_pool res" where
  "enqueue_event pe w =
     bind_res (consume_event pe w) (\<lambda>(w1, out). Inr (w1\<lparr>wp_event_queue := wp_event_queue w1 @ out\<rparr>))"

text \<open>\<open>poll\<close> drains the queue; a dead reader is reported instead.\<close>

definition pool_poll :: "worker_pool \<Rightarrow> (worker_pool \<times> pool_event list) res" where
  "pool_poll w =
     (if wp_reader_error w then Inl RuntimeError
      else Inr (w\<lparr>wp_event_queue := []\<rparr>, wp_event_queue w))"

section \<open>Artifact fetches\<close>

text \<open>\<open>fid\<close> is what \<open>str(uuid.uuid4())\<close> returns.\<close>

definition start_fetch_artifacts ::
  "topology \<Rightarrow> string \<Rightarrow> string \<Rightarrow> string \<Rightarrow> string list \<Rightarrow> worker_pool \<Rightarrow> (worker_pool \<times> string) res" where
  "start_fetch_artifacts T fid rid gid aids w =
     bind_res (get_group_leader T gid) (\<lambda>leader.
       if leader \<notin> set (wp_handles w) then Inl KeyError
       else bind_res (send_command (FetchCommand fid rid gid aids)
              (w\<lparr>wp_inflight_fetches := (wp_inflight_fetches w)(fid \<mapsto> leader)\<rparr>) leader)
              (\<lambda>w1. Inr (w1, fid)))"

fun drain_replies :: "result_payload list \<Rightarrow> worker_pool \<Rightarrow> worker_pool res" where
  "drain_replies [] w = Inr w"
| "drain_replies (OtherReply # ps) w = Inl RuntimeError"
| "drain_replies (FetchReply f # ps) w =
     (if wf_fetch_id f = [] then Inl RuntimeError
      else if wp_inflight_fetches w (wf_fetch_id f) \<noteq> None \<or> wp_completed_fetches w (wf_fetch_id f) \<noteq> None
      then drain_replies ps (w\<lparr>wp_completed_fetches := (wp_completed_fetches w)(wf_fetch_id f \<mapsto> f)\<rparr>)
      else drain_replies ps w)"

definition drain_fetch_results_for_rank :: "int \<Rightarrow> worker_pool \<Rightarrow> worker_pool res" where
  "drain_fetch_results_for_rank r w =
     (case wp_result_queues w r of
        None \<Rightarrow> Inr w
      | Some q \<Rightarrow> drain_replies q (w\<lparr>wp_result_queues := (wp_result_queues w)(r \<mapsto> [])\<rparr>))"

text \<open>\<open>decode\<close> is \<open>_deserialize_artifact_value\<close> on the payload of a pickled artifact.\<close>

definition normalize_artifact :: "(string \<Rightarrow> artifact_payload) \<Rightarrow> wire_artifact \<Rightarrow> artifact_value" where
  "normalize_artifact decode a =
     (case a of PlainArtifact v \<Rightarrow> v | SerializedArtifact h p \<Rightarrow> \<lparr>av_handle = h, av_value = decode p\<rparr>)"

definition normalize_fetch_result :: "(string \<Rightarrow> artifact_payload) \<Rightarrow> wire_result \<Rightarrow> fetch_result" where
  "normalize_fetch_result decode f =
     \<lparr>fr_fetch_id = wf_fetch_id f, fr_artifacts = map (normalize_artifact decode) (wf_artifacts f), fr_error = wf_error f\<rparr>"

definition take_completed ::
  "(string \<Rightarrow> artifact_payload) \<Rightarrow> string \<Rightarrow> worker_pool \<Rightarrow> (worker_pool \<times> fetch_result) option" where
  "take_completed decode fid w =
     (case wp_completed_fetches w fid of
        None \<Rightarrow> None
      | Some f \<Rightarrow>
          Some (w\<lparr>wp_completed_fetches := (wp_completed_fetches w)(fid := None),
                  wp_inflight_fetches := (wp_inflight_fetches w)(fid := None)\<rparr>, normalize_fetch_result decode f))"

definition poll_fetch_artifacts ::
  "(string \<Rightarrow> artifact_payload) \<Rightarrow> string \<Rightarrow> worker_pool \<Rightarrow> (worker_pool \<times> fetch_result option) res" where
  "poll_fetch_artifacts decode fid w =
     (case take_completed decode fid w of
        Some (w1, f) \<Rightarrow> Inr (w1, Some f)
      | None \<Rightarrow>
          (case wp_inflight_fetches w fid of
             None \<Rightarrow> Inr (w, None)
           | Some leader \<Rightarrow>
               bind_res (drain_fetch_results_for_rank leader w) (\<lambda>w1.
                 case take_completed decode fid w1 of
                   None \<Rightarrow> Inr (w1, None)
                 | Some (w2, f) \<Rightarrow> Inr (w2, Some f))))"

definition discard_fetch :: "string \<Rightarrow> worker_pool \<Rightarrow> worker_pool" where
  "discard_fetch fid w =
     w\<lparr>wp_inflight_fetches := (wp_inflight_fetches w)(fid := None),
       wp_completed_fetches := (wp_completed_fetches w)(fid := None)\<rparr>"

section \<open>Migrations, eviction and the reader\<close>

definition pool_begin_migration ::
  "topology \<Rightarrow> string \<Rightarrow> rat \<Rightarrow> migrate_plan \<Rightarrow> worker_pool \<Rightarrow> (worker_pool \<times> string) res" where
  "pool_begin_migration T uuid deadline mp w =
     (if wp_reader_error w then Inl RuntimeError
      else
        bind_res (get_group T (mp_src_group_id mp)) (\<lambda>sg.
        bind_res (get_group T (mp_dst_group_id mp)) (\<lambda>dg.
        let ranks = sorted_list_of_set (set (g_ranks sg) \<union> set (g_ranks dg))
        in if \<exists>r \<in> set ranks. r \<notin> set (wp_handles w) then Inl RuntimeError
           else if \<exists>a \<in> set (mp_artifacts mp). no_codec (mg_handle a) then Inl ValueError
           else if g_ranks sg = [] then Inl IndexError
           else
             bind_res (begin_migration (wp_engine w)
                 \<lparr>br_plan = mp, br_src_group = sg, br_dst_group = dg, br_ranks = ranks,
                  br_leader = hd (g_ranks sg), br_deadline = deadline, br_mid = None, br_uuid = uuid\<rparr>) (\<lambda>(e, mid).
               Inr (w\<lparr>wp_engine := e\<rparr>, mid)))))"

definition has_pending_migrations :: "worker_pool \<Rightarrow> bool" where
  "has_pending_migrations w \<longleftrightarrow> has_pending (wp_engine w)"

text \<open>
  The result queues are emptied, rank by rank, into the engine. The callbacks of the migrations
  work on the pool (they dispatch the parked tasks) and on the state \<open>'o\<close> of its client.
\<close>

definition pump_migrations ::
  "(worker_pool \<times> 'o) callback \<Rightarrow> rat \<Rightarrow> worker_pool \<times> 'o \<Rightarrow> (worker_pool \<times> 'o) res" where
  "pump_migrations cb now s =
     (case s of (w, ow) \<Rightarrow>
        if wp_reader_error w then Inl RuntimeError
        else
          let results = concat (map snd (wp_migration_result_queues w));
              w1 = w\<lparr>wp_migration_result_queues := map (\<lambda>(r, _). (r, [])) (wp_migration_result_queues w)\<rparr>
          in bind_res (pump cb results now (wp_engine w, (w1, ow))) (\<lambda>(e, (w2, ow')).
               Inr (w2\<lparr>wp_engine := e\<rparr>, ow')))"

definition pool_evict_request :: "string \<Rightarrow> worker_pool \<Rightarrow> worker_pool" where
  "pool_evict_request rid w =
     w\<lparr>wp_sent := wp_sent w @ map (\<lambda>r. (r, EvictCommand rid)) (wp_handles w)\<rparr>"

text \<open>
  One message of the reader thread: an event goes through the aggregation, the reply to a fetch
  and the answer of a migration phase to the queue of its kind and rank, and a closed pipe stops
  the reader for good.
\<close>

datatype reader_message =
    EventMessage pool_event
  | ReplyMessage int result_payload
  | MigrationMessage int mig_result
  | PipeClosed

definition reader_step :: "reader_message \<Rightarrow> worker_pool \<Rightarrow> worker_pool" where
  "reader_step m w =
     (if wp_reader_error w then w
      else case m of
        PipeClosed \<Rightarrow> w\<lparr>wp_reader_error := True\<rparr>
      | EventMessage pe \<Rightarrow>
          (case enqueue_event pe w of Inl e \<Rightarrow> w\<lparr>wp_reader_error := True\<rparr> | Inr w1 \<Rightarrow> w1)
      | ReplyMessage r p \<Rightarrow>
          (case wp_result_queues w r of
             None \<Rightarrow> w\<lparr>wp_reader_error := True\<rparr>
           | Some q \<Rightarrow> w\<lparr>wp_result_queues := (wp_result_queues w)(r \<mapsto> q @ [p])\<rparr>)
      | MigrationMessage r m \<Rightarrow>
          (case map_of (wp_migration_result_queues w) r of
             None \<Rightarrow> w\<lparr>wp_reader_error := True\<rparr>
           | Some q \<Rightarrow> w\<lparr>wp_migration_result_queues := dict_set (wp_migration_result_queues w) r (q @ [m])\<rparr>))"

text \<open>
  The synchronous fetch: a loop of polls until the reply is there or the deadline has passed. A
  round carries whether the deadline has passed at its end and what the reader received before
  the next; \<open>None\<close> means that the rounds are used up.
\<close>

fun await_fetch ::
  "(string \<Rightarrow> artifact_payload) \<Rightarrow> string \<Rightarrow> (bool \<times> reader_message list) list \<Rightarrow> worker_pool
   \<Rightarrow> (worker_pool \<times> fetch_result) res option" where
  "await_fetch decode fid [] w = None"
| "await_fetch decode fid ((late, ms) # rounds) w =
     (case poll_fetch_artifacts decode fid w of
        Inl e \<Rightarrow> Some (Inl e)
      | Inr (w1, Some f) \<Rightarrow> Some (Inr (w1, f))
      | Inr (w1, None) \<Rightarrow>
          if late then Some (Inl TimeoutError) else await_fetch decode fid rounds (fold reader_step ms w1))"

definition fetch_artifacts ::
  "topology \<Rightarrow> (string \<Rightarrow> artifact_payload) \<Rightarrow> string \<Rightarrow> string \<Rightarrow> string \<Rightarrow> string list
   \<Rightarrow> (bool \<times> reader_message list) list \<Rightarrow> worker_pool \<Rightarrow> (worker_pool \<times> fetch_result) res option" where
  "fetch_artifacts T decode fid rid gid aids rounds w =
     (case start_fetch_artifacts T fid rid gid aids w of
        Inl e \<Rightarrow> Some (Inl e)
      | Inr (w1, _) \<Rightarrow> await_fetch decode fid rounds w1)"

section \<open>One event per kind and dispatch\<close>

definition seen_ranks :: "task_dispatch_state \<Rightarrow> worker_event_kind \<Rightarrow> int set" where
  "seen_ranks st k = set (map fst (case td_events_by_kind st k of None \<Rightarrow> [] | Some l \<Rightarrow> l))"

text \<open>A kind of event is still to come for a dispatched task.\<close>

definition event_open :: "worker_pool \<Rightarrow> string \<Rightarrow> worker_event_kind \<Rightarrow> bool" where
  "event_open w tk k \<longleftrightarrow>
     (case wp_task_dispatch_state w tk of
        None \<Rightarrow> False
      | Some st \<Rightarrow> k = TASK_FAILED \<or> \<not> td_expected_ranks st \<subseteq> seen_ranks st k)"

definition stored_ok :: "worker_pool \<Rightarrow> bool" where
  "stored_ok w \<longleftrightarrow>
     (\<forall>tk st k l r e. wp_task_dispatch_state w tk = Some st \<longrightarrow> td_events_by_kind st k = Some l \<longrightarrow> (r, e) \<in> set l
        \<longrightarrow> e_task_id (fst e) = tk)"

lemma stored_okD:
  assumes "stored_ok w" "wp_task_dispatch_state w tk = Some st"
    "(x, e) \<in> set (case td_events_by_kind st k of None \<Rightarrow> [] | Some l \<Rightarrow> l)"
  shows "e_task_id (fst e) = tk"
proof (cases "td_events_by_kind st k")
  case None
  then show ?thesis using assms(3) by simp
next
  case (Some l)
  then have "(x, e) \<in> set l" using assms(3) by simp
  with assms(1,2) Some show ?thesis unfolding stored_ok_def by blast
qed

lemma earliest_event_in: "earliest_event e xs \<in> insert e (set xs)"
  by (induction xs arbitrary: e) auto

lemma build_aggregated_event_spec:
  assumes "build_aggregated_event st k l = Inr agg" and "\<And>r e. (r, e) \<in> set l \<Longrightarrow> e_task_id (fst e) = tk"
  shows "e_task_id (fst agg) = tk \<and> e_kind (fst agg) = k"
proof -
  obtain r0 e0 rest where l: "l = (r0, e0) # rest" using assms(1) by (cases l) (auto simp: build_aggregated_event_def)
  define rep where "rep = (case map_of l (td_result_owner_rank st) of Some e \<Rightarrow> e | None \<Rightarrow> earliest_event e0 (map snd rest))"
  have "\<exists>r. (r, rep) \<in> set l"
  proof (cases "map_of l (td_result_owner_rank st)")
    case None
    have "earliest_event e0 (map snd rest) \<in> insert e0 (set (map snd rest))" by (rule earliest_event_in)
    then show ?thesis using None by (auto simp: rep_def l)
  next
    case (Some e)
    then show ?thesis by (auto simp: rep_def dest: map_of_SomeD)
  qed
  then have "e_task_id (fst rep) = tk" using assms(2) by blast
  then show ?thesis using assms(1) unfolding build_aggregated_event_def by (auto simp: l rep_def Let_def)
qed

lemma build_aggregated_event_total: "l \<noteq> [] \<Longrightarrow> \<exists>agg. build_aggregated_event st k l = Inr agg"
  by (cases l) (auto simp: build_aggregated_event_def Let_def)

text \<open>Storing a new report: nothing new opens, and the kind closes when the report completes it.\<close>

lemma store_report:
  assumes st: "wp_task_dispatch_state w tk = Some st" and ok: "stored_ok w" and id: "e_task_id (fst re) = tk"
    and seen: "seen = (case td_events_by_kind st k of None \<Rightarrow> [] | Some l \<Rightarrow> l)"
    and l: "l = seen \<or> l = seen @ [(r, re)]"
    and w': "w' = w\<lparr>wp_task_dispatch_state := (wp_task_dispatch_state w)
                (tk \<mapsto> st\<lparr>td_events_by_kind := (td_events_by_kind st)(k \<mapsto> l)\<rparr>)\<rparr>"
  shows "stored_ok w'" and "event_open w' tk' k' \<Longrightarrow> event_open w tk' k'"
proof -
  have in_l: "e_task_id (fst e) = tk" if "(x, e) \<in> set l" for x e
  proof -
    have "(x, e) \<in> set seen \<or> e = re" using that l by auto
    then show ?thesis using stored_okD [OF ok st, of x e k, folded seen] id by blast
  qed
  show "stored_ok w'"
    unfolding stored_ok_def
  proof (intro allI impI)
    fix t st' j m x e
    assume a: "wp_task_dispatch_state w' t = Some st'" "td_events_by_kind st' j = Some m" "(x, e) \<in> set m"
    show "e_task_id (fst e) = t"
    proof (cases "t = tk \<and> j = k")
      case True
      then have "m = l" using a(1,2) by (auto simp: w')
      then show ?thesis using in_l a(3) True by blast
    next
      case False
      have "\<exists>st''. wp_task_dispatch_state w t = Some st'' \<and> td_events_by_kind st'' j = Some m"
        using a(1,2) False st by (auto simp: w' split: if_splits)
      then show ?thesis using ok a(3) unfolding stored_ok_def by blast
    qed
  qed
  show "event_open w tk' k'" if "event_open w' tk' k'"
    using that st l by (auto simp: event_open_def seen_ranks_def w' seen split: if_splits option.splits)
qed

lemma close_task:
  assumes "stored_ok w" "w' = w\<lparr>wp_task_dispatch_state := (wp_task_dispatch_state w)(tk := None)\<rparr>"
  shows "stored_ok w'" "event_open w' tk' k' \<Longrightarrow> event_open w tk' k'" "\<not> event_open w' tk k'"
  using assms by (auto simp: stored_ok_def event_open_def split: if_splits)

definition emits_once :: "rank_event \<Rightarrow> worker_pool \<Rightarrow> worker_pool \<Rightarrow> rank_event list \<Rightarrow> bool" where
  "emits_once re w w' out \<longleftrightarrow>
     stored_ok w' \<and> (\<forall>tk k. event_open w' tk k \<longrightarrow> event_open w tk k)
     \<and> (out = [] \<or> (\<exists>agg. out = [agg] \<and> e_task_id (fst agg) = e_task_id (fst re) \<and> e_kind (fst agg) = e_kind (fst re)
          \<and> event_open w (e_task_id (fst re)) (e_kind (fst re)) \<and> \<not> event_open w' (e_task_id (fst re)) (e_kind (fst re))))"

lemma aggregate_emits_once:
  assumes agg: "aggregate_task_event re w = Inr (w', out)" and ok: "stored_ok w"
  shows "emits_once re w w' out"
proof (cases "wp_task_dispatch_state w (e_task_id (fst re))")
  case None
  then show ?thesis using agg ok by (auto simp: aggregate_task_event_def Let_def emits_once_def)
next
  case (Some st)
  let ?tk = "e_task_id (fst re)" and ?k = "e_kind (fst re)" and ?r = "e_worker_rank (fst re)"
  define seen where "seen = (case td_events_by_kind st ?k of None \<Rightarrow> [] | Some l \<Rightarrow> l)"
  define w1 where "w1 l = w\<lparr>wp_task_dispatch_state := (wp_task_dispatch_state w)
      (?tk \<mapsto> st\<lparr>td_events_by_kind := (td_events_by_kind st)(?k \<mapsto> l)\<rparr>)\<rparr>" for l
  note store = store_report [OF Some ok refl seen_def _ w1_def]
  show ?thesis
  proof (cases "?k = TASK_FAILED")
    case True
    then have out: "\<exists>agg. out = [agg] \<and> e_task_id (fst agg) = ?tk \<and> e_kind (fst agg) = ?k"
      and w': "w' = w\<lparr>wp_task_dispatch_state := (wp_task_dispatch_state w)(?tk := None)\<rparr>"
      using agg Some by (auto simp: aggregate_task_event_def Let_def)
    have "event_open w ?tk ?k" using Some True by (simp add: event_open_def)
    then show ?thesis using out close_task [OF ok w'] unfolding emits_once_def by blast
  next
    case fk: False
    show ?thesis
    proof (cases "?r \<in> set (map fst seen)")
      case True
      then have "w' = w1 seen" "out = []"
        using agg Some fk by (auto simp: aggregate_task_event_def Let_def seen_def w1_def)
      then show ?thesis using store [of seen] by (simp add: emits_once_def)
    next
      case new: False
      let ?l = "seen @ [(?r, re)]"
      show ?thesis
      proof (cases "set (map fst ?l) = td_expected_ranks st")
        case False
        then have "w' = w1 ?l" "out = []"
          using agg Some fk new by (auto simp: aggregate_task_event_def Let_def seen_def [symmetric] w1_def)
        then show ?thesis using store [of ?l] by (simp add: emits_once_def)
      next
        case True
        then obtain ag where b: "build_aggregated_event st ?k ?l = Inr ag" "out = [ag]"
          and w': "w' = (if ?k = TASK_EXEC_END then (w1 ?l)\<lparr>wp_task_dispatch_state := (wp_task_dispatch_state (w1 ?l))(?tk := None)\<rparr>
                         else w1 ?l)"
          using agg Some fk new
          by (auto simp: aggregate_task_event_def Let_def seen_def [symmetric] w1_def bind_res_eq_Inr split: if_splits)
        have ids: "e_task_id (fst ag) = ?tk \<and> e_kind (fst ag) = ?k"
        proof (rule build_aggregated_event_spec [OF b(1)])
          fix x e assume "(x, e) \<in> set ?l"
          then have "(x, e) \<in> set seen \<or> e = re" by auto
          then show "e_task_id (fst e) = ?tk" using stored_okD [OF ok Some, of x e ?k, folded seen_def] by blast
        qed
        have "?r \<in> td_expected_ranks st" using True by auto
        then have "event_open w ?tk ?k"
          using Some new by (auto simp: event_open_def seen_ranks_def seen_def)
        moreover have "\<not> event_open (w1 ?l) ?tk ?k"
          using True fk by (auto simp: event_open_def seen_ranks_def w1_def)
        moreover have "stored_ok w' \<and> (\<forall>tk k. event_open w' tk k \<longrightarrow> event_open (w1 ?l) tk k)"
          using close_task [where tk = ?tk, OF store(1) [of ?l] refl] store(1) [of ?l] by (simp add: w')
        ultimately show ?thesis using ids b(2) store(2) [of ?l] unfolding emits_once_def by blast
      qed
    qed
  qed
qed

text \<open>
  Runs of the pool: dispatches, messages of the reader, polls and the other operations, in any
  order, with the ids of the dispatched tasks and everything put into the event queue. A pump of
  the migrations appears as changes of the engine and its queues between the dispatches that its
  callbacks make.
\<close>

inductive pool_reach :: "worker_pool \<Rightarrow> worker_pool \<Rightarrow> string list \<Rightarrow> pool_event list \<Rightarrow> bool" for w0 where
  start: "pool_reach w0 w0 [] []"
| dispatch: "pool_reach w0 w ds es \<Longrightarrow> pool_dispatch T t inl rel w = Inr w' \<Longrightarrow> pool_reach w0 w' (ds @ [t_id t]) es"
| read: "pool_reach w0 w ds es \<Longrightarrow> pool_reach w0 (reader_step m w) ds
    (es @ drop (length (wp_event_queue w)) (wp_event_queue (reader_step m w)))"
| poll: "pool_reach w0 w ds es \<Longrightarrow> pool_poll w = Inr (w', out) \<Longrightarrow> pool_reach w0 w' ds es"
| start_fetch: "pool_reach w0 w ds es \<Longrightarrow> start_fetch_artifacts T fid rid gid aids w = Inr (w', fid') \<Longrightarrow> pool_reach w0 w' ds es"
| poll_fetch: "pool_reach w0 w ds es \<Longrightarrow> poll_fetch_artifacts decode fid w = Inr (w', r) \<Longrightarrow> pool_reach w0 w' ds es"
| discard: "pool_reach w0 w ds es \<Longrightarrow> pool_reach w0 (discard_fetch fid w) ds es"
| evict: "pool_reach w0 w ds es \<Longrightarrow> pool_reach w0 (pool_evict_request rid w) ds es"
| migrate: "pool_reach w0 w ds es \<Longrightarrow> pool_begin_migration T uuid dl mp w = Inr (w', mid) \<Longrightarrow> pool_reach w0 w' ds es"
| pumped: "pool_reach w0 w ds es \<Longrightarrow> pool_reach w0 (w\<lparr>wp_engine := e, wp_migration_result_queues := q\<rparr>) ds es"

definition is_report :: "string \<Rightarrow> worker_event_kind \<Rightarrow> pool_event \<Rightarrow> bool" where
  "is_report tk k pe \<longleftrightarrow>
     (case pe of WorkerEvent ev refs \<Rightarrow> e_task_id ev = tk \<and> e_kind ev = k | WorkerReadyMessage r st m \<Rightarrow> False)"

definition reports :: "string \<Rightarrow> worker_event_kind \<Rightarrow> pool_event list \<Rightarrow> nat" where
  "reports tk k es = length (filter (is_report tk k) es)"

lemma reports_append [simp]: "reports tk k (xs @ ys) = reports tk k xs + reports tk k ys"
  by (simp add: reports_def)

definition task_kinds :: "worker_event_kind set" where
  "task_kinds = {TASK_LAUNCH_BEGIN, TASK_LAUNCH_END, TASK_EXEC_BEGIN, TASK_EXEC_END, TASK_FAILED}"

definition pool_inv :: "worker_pool \<Rightarrow> string list \<Rightarrow> pool_event list \<Rightarrow> bool" where
  "pool_inv w ds es \<longleftrightarrow>
     stored_ok w
     \<and> (\<forall>tk k. k \<in> task_kinds \<longrightarrow> reports tk k es + (if event_open w tk k then 1 else 0) \<le> count_list ds tk)"

lemma pool_inv_cong:
  "pool_inv w ds es \<Longrightarrow> wp_task_dispatch_state w' = wp_task_dispatch_state w \<Longrightarrow> pool_inv w' ds es"
  by (simp add: pool_inv_def stored_ok_def event_open_def)

lemma pool_inv_dispatch:
  assumes inv: "pool_inv w ds es" and d: "pool_dispatch T t inl rel w = Inr w'"
  shows "pool_inv w' (ds @ [t_id t]) es"
proof -
  have sends: "wp_task_dispatch_state y = wp_task_dispatch_state x"
    if "for_res (send_command c) x rs = Inr y" for c x rs y
    by (rule for_res_invariant [where P = "\<lambda>z. wp_task_dispatch_state z = wp_task_dispatch_state x", OF _ _ that])
       (auto simp: send_command_def split: if_splits)
  from d obtain g w1 c rs where "register_task_dispatch T t w = Inr w1" and s: "for_res (send_command c) w1 rs = Inr w'"
    by (auto simp: pool_dispatch_def bind_res_eq_Inr split: option.splits)
  then obtain gid R leader where w1: "wp_task_dispatch_state w1 = (wp_task_dispatch_state w)(t_id t \<mapsto>
      \<lparr>td_group_id = gid, td_expected_ranks = R, td_result_owner_rank = leader, td_events_by_kind = (\<lambda>_. None)\<rparr>)"
    by (auto simp: register_task_dispatch_def bind_res_eq_Inr split: option.splits)
  have w': "wp_task_dispatch_state w' = wp_task_dispatch_state w1" by (rule sends [OF s])
  have "stored_ok w'" using inv by (auto simp: pool_inv_def stored_ok_def w' w1 split: if_splits)
  moreover have "reports tk k es + (if event_open w' tk k then 1 else 0) \<le> count_list (ds @ [t_id t]) tk" if k: "k \<in> task_kinds" for tk k
  proof (cases "tk = t_id t")
    case True
    have "reports tk k es \<le> count_list ds tk" using inv k by (simp add: pool_inv_def) (meson le_trans le_add1)
    then show ?thesis using True by (simp add: count_list_append)
  next
    case False
    then have "event_open w' tk k = event_open w tk k" by (simp add: event_open_def w' w1)
    then show ?thesis using inv k False by (simp add: pool_inv_def count_list_append)
  qed
  ultimately show ?thesis by (simp add: pool_inv_def)
qed

lemma pool_inv_enqueue:
  assumes inv: "pool_inv w ds es" and e: "enqueue_event pe w = Inr w'"
  shows "\<exists>new. wp_event_queue w' = wp_event_queue w @ new \<and> pool_inv w' ds (es @ new)"
proof -
  from e obtain w1 out where c: "consume_event pe w = Inr (w1, out)"
    and w': "w' = w1\<lparr>wp_event_queue := wp_event_queue w1 @ out\<rparr>" by (auto simp: enqueue_event_def bind_res_eq_Inr)
  show ?thesis
  proof (cases "\<exists>ev refs. pe = WorkerEvent ev refs \<and> e_kind ev \<in> task_kinds")
    case False
    then have o: "w1 = w" "out = [pe]" using c by (auto simp: consume_event_def task_kinds_def split: pool_event.splits)
    have "reports tk k [pe] = 0" if "k \<in> task_kinds" for tk k
      using False that by (auto simp: reports_def is_report_def split: pool_event.splits)
    then have "pool_inv w ds (es @ [pe])" using inv by (simp add: pool_inv_def)
    then show ?thesis using o by (auto simp: w' intro: pool_inv_cong)
  next
    case True
    then obtain ev refs where pe: "pe = WorkerEvent ev refs" "e_kind ev \<in> task_kinds" by blast
    then obtain out' where a: "aggregate_task_event (ev, refs) w = Inr (w1, out')" and out: "out = map (\<lambda>(e, rs). WorkerEvent e rs) out'"
      using c by (auto simp: consume_event_def task_kinds_def bind_res_eq_Inr)
    have "wp_event_queue w1 = wp_event_queue w"
      using a by (auto simp: aggregate_task_event_def Let_def bind_res_eq_Inr split: option.splits if_splits)
    moreover have "emits_once (ev, refs) w w1 out'"
      by (rule aggregate_emits_once [OF a]) (use inv in \<open>simp add: pool_inv_def\<close>)
    note em = this [unfolded emits_once_def fst_conv]
    have "reports tk k (es @ out) + (if event_open w1 tk k then 1 else 0) \<le> count_list ds tk" if k: "k \<in> task_kinds" for tk k
    proof -
      have i: "reports tk k es + (if event_open w tk k then 1 else 0) \<le> count_list ds tk" using inv k by (simp add: pool_inv_def)
      consider "out' = []" | agg where "out' = [agg]" "e_task_id (fst agg) = e_task_id ev" "e_kind (fst agg) = e_kind ev"
          "event_open w (e_task_id ev) (e_kind ev)" "\<not> event_open w1 (e_task_id ev) (e_kind ev)"
        using em by blast
      then show ?thesis
      proof cases
        case 1
        then show ?thesis using i em by (auto simp: out reports_def split: if_splits)
      next
        case (2 agg)
        have "reports tk k out = (if tk = e_task_id ev \<and> k = e_kind ev then 1 else 0)"
          using 2(1-3) by (cases agg) (auto simp: out reports_def is_report_def)
        then show ?thesis using i em 2(4,5) by (auto split: if_splits)
      qed
    qed
    ultimately show ?thesis using em by (auto simp: w' pool_inv_def stored_ok_def event_open_def)
  qed
qed

lemma pool_inv_read:
  assumes inv: "pool_inv w ds es"
  shows "pool_inv (reader_step m w) ds (es @ drop (length (wp_event_queue w)) (wp_event_queue (reader_step m w)))"
proof (cases "\<exists>pe w1. \<not> wp_reader_error w \<and> m = EventMessage pe \<and> enqueue_event pe w = Inr w1")
  case True
  then obtain pe w1 where s: "reader_step m w = w1" and e: "enqueue_event pe w = Inr w1" by (auto simp: reader_step_def)
  from pool_inv_enqueue [OF inv e] show ?thesis by (auto simp: s)
next
  case False
  then have "wp_event_queue (reader_step m w) = wp_event_queue w"
    "wp_task_dispatch_state (reader_step m w) = wp_task_dispatch_state w"
    by (auto simp: reader_step_def split: reader_message.splits sum.splits option.splits)
  then show ?thesis using pool_inv_cong [OF inv] by simp
qed

lemma drain_replies_frame:
  "drain_replies ps w = Inr w' \<Longrightarrow> wp_task_dispatch_state w' = wp_task_dispatch_state w"
  by (induction ps w rule: drain_replies.induct) (auto split: if_splits)

lemma poll_fetch_frame:
  assumes "poll_fetch_artifacts decode fid w = Inr (w', r)"
  shows "wp_task_dispatch_state w' = wp_task_dispatch_state w"
  using assms drain_replies_frame
  by (fastforce simp: poll_fetch_artifacts_def take_completed_def drain_fetch_results_for_rank_def bind_res_eq_Inr
      split: option.splits)

lemma pool_inv_reach: "pool_reach w0 w ds es \<Longrightarrow> w0 = worker_pool_init ranks \<Longrightarrow> pool_inv w ds es"
proof (induction rule: pool_reach.induct)
  case start
  then show ?case by (simp add: worker_pool_init_def pool_inv_def stored_ok_def event_open_def reports_def)
next
  case (dispatch w ds es T t inl rel w')
  then show ?case using pool_inv_dispatch by blast
next
  case (read w ds es m)
  then show ?case using pool_inv_read by blast
next
  case (poll w ds es w' out)
  show ?case
    by (rule pool_inv_cong [OF poll.IH [OF poll.prems]]) (use poll.hyps in \<open>auto simp: pool_poll_def split: if_splits\<close>)
next
  case (start_fetch w ds es T fid rid gid aids w' fid')
  show ?case
    by (rule pool_inv_cong [OF start_fetch.IH [OF start_fetch.prems]]) (use start_fetch.hyps in \<open>auto simp: start_fetch_artifacts_def send_command_def bind_res_eq_Inr split: if_splits\<close>)
next
  case (poll_fetch w ds es decode fid w' r)
  show ?case
    by (rule pool_inv_cong [OF poll_fetch.IH [OF poll_fetch.prems]]) (use poll_fetch_frame poll_fetch.hyps in \<open>auto\<close>)
next
  case (discard w ds es fid)
  show ?case
    by (rule pool_inv_cong [OF discard.IH [OF discard.prems]]) (use discard.hyps in \<open>auto simp: discard_fetch_def\<close>)
next
  case (evict w ds es rid)
  show ?case
    by (rule pool_inv_cong [OF evict.IH [OF evict.prems]]) (use evict.hyps in \<open>auto simp: pool_evict_request_def\<close>)
next
  case (migrate w ds es T uuid dl mp w' mid)
  show ?case
    by (rule pool_inv_cong [OF migrate.IH [OF migrate.prems]]) (use migrate.hyps in \<open>auto simp: pool_begin_migration_def Let_def bind_res_eq_Inr split: if_splits\<close>)
next
  case (pumped w ds es e q)
  show ?case
    by (rule pool_inv_cong [OF pumped.IH [OF pumped.prems]]) simp
qed

text \<open>
  C12: In every run of the pool - dispatches, events and replies read from the pipes in any order
  and any number of times, polls, fetches, migrations, evictions - the scheduler gets, for every
  task and every kind of task event, at most one event per dispatch of the task: the reports of
  the ranks of a group are merged, repeated reports are dropped, and reports for a task that has
  ended or failed are ignored.
\<close>

theorem one_report_per_dispatch:
  assumes "pool_reach (worker_pool_init ranks) w ds es" and "k \<in> task_kinds"
  shows "reports tk k es \<le> count_list ds tk"
proof -
  have "reports tk k es + (if event_open w tk k then 1 else 0) \<le> count_list ds tk"
    using pool_inv_reach [OF assms(1) refl] assms(2) by (simp add: pool_inv_def)
  then show ?thesis by simp
qed

section \<open>The last report completes the event\<close>

abbreviation rank_of :: "rank_event \<Rightarrow> int" where
  "rank_of re \<equiv> e_worker_rank (fst re)"

definition enqueue_all :: "rank_event list \<Rightarrow> worker_pool \<Rightarrow> worker_pool res" where
  "enqueue_all evs w = for_res (\<lambda>w re. enqueue_event (WorkerEvent (fst re) (snd re)) w) w evs"

definition by_rank :: "rank_event list \<Rightarrow> (int \<times> rank_event) list" where
  "by_rank evs = map (\<lambda>re. (rank_of re, re)) evs"

definition with_reports :: "string \<Rightarrow> task_dispatch_state \<Rightarrow> worker_event_kind \<Rightarrow> rank_event list \<Rightarrow> worker_pool \<Rightarrow> worker_pool" where
  "with_reports tk st k evs w =
     (if evs = [] then w
      else w\<lparr>wp_task_dispatch_state := (wp_task_dispatch_state w)
              (tk \<mapsto> st\<lparr>td_events_by_kind := (td_events_by_kind st)(k \<mapsto> by_rank evs)\<rparr>)\<rparr>)"

lemma with_reports_queue [simp]: "wp_event_queue (with_reports tk st k evs w) = wp_event_queue w"
  by (simp add: with_reports_def)

lemma build_aggregated_owner:
  assumes "map_of l (td_result_owner_rank st) = Some re"
  shows "build_aggregated_event st k l = Inr
    (\<lparr>e_event_id = aggregate_id (e_task_id (fst re)) k, e_task_id = e_task_id (fst re),
      e_request_id = e_request_id (fst re), e_group_id = td_group_id st,
      e_worker_rank = td_result_owner_rank st, e_kind = k,
      e_timestamp_ns = Max ((\<lambda>(r, e). e_timestamp_ns (fst e)) ` set l), e_message = e_message (fst re),
      e_metadata = dict_set (e_metadata (fst re)) ''completed_ranks'' (PyList (map PyInt (sort (map fst l))))\<rparr>, snd re)"
proof (cases l)
  case Nil
  then show ?thesis using assms by simp
next
  case (Cons x rest)
  then show ?thesis unfolding build_aggregated_event_def assms by (cases x) (simp add: Let_def)
qed

lemma enqueue_new_report:
  assumes st: "wp_task_dispatch_state w tk = Some st" "td_events_by_kind st k = None"
    and k: "k \<in> task_kinds" "k \<noteq> TASK_FAILED"
    and re: "e_task_id (fst re) = tk" "e_kind (fst re) = k" "rank_of re \<notin> set (map rank_of evs)"
  shows "enqueue_event (WorkerEvent (fst re) (snd re)) (with_reports tk st k evs w) =
    (if set (map rank_of (evs @ [re])) \<noteq> td_expected_ranks st then Inr (with_reports tk st k (evs @ [re]) w)
     else bind_res (build_aggregated_event st k (by_rank (evs @ [re]))) (\<lambda>agg.
       let w1 = with_reports tk st k (evs @ [re]) w
       in Inr ((if k = TASK_EXEC_END then w1\<lparr>wp_task_dispatch_state := (wp_task_dispatch_state w1)(tk := None)\<rparr> else w1)
            \<lparr>wp_event_queue := wp_event_queue w @ [WorkerEvent (fst agg) (snd agg)]\<rparr>)))"
proof -
  define st' where "st' = (if evs = [] then st else st\<lparr>td_events_by_kind := (td_events_by_kind st)(k \<mapsto> by_rank evs)\<rparr>)"
  have w: "wp_task_dispatch_state (with_reports tk st k evs w) tk = Some st'"
    "(case td_events_by_kind st' k of None \<Rightarrow> [] | Some l \<Rightarrow> l) = by_rank evs"
    "st'\<lparr>td_events_by_kind := (td_events_by_kind st')(k \<mapsto> l)\<rparr> = st\<lparr>td_events_by_kind := (td_events_by_kind st)(k \<mapsto> l)\<rparr>"
    "td_expected_ranks st' = td_expected_ranks st" for l
    using st by (auto simp: with_reports_def st'_def by_rank_def)
  have b: "build_aggregated_event st' = build_aggregated_event st"
    by (simp add: st'_def build_aggregated_event_def fun_eq_iff split: list.splits)
  have fsts: "map fst (by_rank l) = map rank_of l" for l by (simp add: by_rank_def)
  have upd: "(with_reports tk st k evs w)\<lparr>wp_task_dispatch_state := (wp_task_dispatch_state (with_reports tk st k evs w))
      (tk \<mapsto> st\<lparr>td_events_by_kind := (td_events_by_kind st)(k \<mapsto> by_rank (evs @ [re]))\<rparr>)\<rparr> = with_reports tk st k (evs @ [re]) w"
    by (simp add: with_reports_def)
  have snoc: "by_rank evs @ [(rank_of re, re)] = by_rank (evs @ [re])" by (simp add: by_rank_def)
  have notin: "rank_of re \<notin> set (map fst (by_rank evs))" using re(3) by (simp only: fsts not_False_eq_True)
  have agg: "aggregate_task_event re (with_reports tk st k evs w) =
    (if set (map rank_of (evs @ [re])) \<noteq> td_expected_ranks st then Inr (with_reports tk st k (evs @ [re]) w, [])
     else bind_res (build_aggregated_event st k (by_rank (evs @ [re]))) (\<lambda>agg.
       let w1 = with_reports tk st k (evs @ [re]) w
       in Inr (if k = TASK_EXEC_END then w1\<lparr>wp_task_dispatch_state := (wp_task_dispatch_state w1)(tk := None)\<rparr> else w1, [agg])))"
    unfolding aggregate_task_event_def re Let_def w option.case b snoc upd fsts
    using k(2) notin [unfolded fsts] by simp
  have "e_kind (fst re) \<in> {TASK_LAUNCH_BEGIN, TASK_LAUNCH_END, TASK_EXEC_BEGIN, TASK_EXEC_END, TASK_FAILED}"
    using k(1) re(2) by (simp add: task_kinds_def)
  then show ?thesis
    unfolding enqueue_event_def consume_event_def pool_event.case prod.collapse agg
    by (cases "build_aggregated_event st k (by_rank (evs @ [re]))") (auto simp: Let_def split_beta)
qed

lemma enqueue_prefix:
  assumes st: "wp_task_dispatch_state w tk = Some st" "td_events_by_kind st k = None"
    and k: "k \<in> task_kinds" "k \<noteq> TASK_FAILED"
  shows "\<forall>re \<in> set evs. e_task_id (fst re) = tk \<and> e_kind (fst re) = k \<Longrightarrow> distinct (map rank_of evs)
    \<Longrightarrow> set (map rank_of evs) \<subset> td_expected_ranks st \<Longrightarrow> enqueue_all evs w = Inr (with_reports tk st k evs w)"
proof (induction evs rule: rev_induct)
  case Nil
  then show ?case by (simp add: enqueue_all_def with_reports_def)
next
  case (snoc re evs)
  have "enqueue_all evs w = Inr (with_reports tk st k evs w)"
    by (rule snoc.IH) (use snoc.prems in auto)
  then show ?case
    using enqueue_new_report [OF st k, of re evs] snoc.prems
    by (auto simp: enqueue_all_def for_res_append)
qed

lemma aggregation_run:
  assumes d: "pool_dispatch T t inl rel w = Inr w1" "t_group_id t = Some gid" "get_group T gid = Inr g"
    and k: "k \<in> task_kinds" "k \<noteq> TASK_FAILED"
    and evs: "\<forall>re \<in> set evs. e_task_id (fst re) = t_id t \<and> e_kind (fst re) = k"
      "distinct (map rank_of evs)" "set (map rank_of evs) = set (g_ranks g)"
  shows "(\<forall>n < length evs. \<exists>w2. enqueue_all (take n evs) w1 = Inr w2 \<and> wp_event_queue w2 = wp_event_queue w)
    \<and> (\<exists>owner \<in> set evs. rank_of owner = hd (g_ranks g) \<and>
      (\<exists>w2. enqueue_all evs w1 = Inr w2 \<and> wp_event_queue w2 = wp_event_queue w @
        [WorkerEvent ((fst owner)\<lparr>e_event_id := aggregate_id (t_id t) k, e_group_id := gid,
           e_timestamp_ns := Max ((\<lambda>re. e_timestamp_ns (fst re)) ` set evs),
           e_metadata := dict_set (e_metadata (fst owner)) ''completed_ranks''
             (PyList (map PyInt (sort (map rank_of evs))))\<rparr>) (snd owner)]))"
proof -
  obtain w0 leader where r: "register_task_dispatch T t w = Inr w0" "get_group_leader T gid = Inr leader"
    and s: "for_res (send_command (DispatchCommand t inl leader rel g)) w0 (g_ranks g) = Inr w1"
    using d by (auto simp: pool_dispatch_def bind_res_eq_Inr)
  have ne: "g_ranks g \<noteq> []" and leader: "leader = hd (g_ranks g)"
    using r(2) d(3) by (auto simp: get_group_leader_def split: list.splits)
  define st where "st = \<lparr>td_group_id = gid, td_expected_ranks = set (g_ranks g), td_result_owner_rank = leader, td_events_by_kind = (\<lambda>_. None)\<rparr>"
  have w0: "w0 = w\<lparr>wp_task_dispatch_state := (wp_task_dispatch_state w)(t_id t \<mapsto> st)\<rparr>"
    using r d(2,3) by (simp add: register_task_dispatch_def st_def)
  have "wp_event_queue w1 = wp_event_queue w \<and> wp_task_dispatch_state w1 = wp_task_dispatch_state w0"
    by (rule for_res_invariant [where P = "\<lambda>x. wp_event_queue x = wp_event_queue w \<and> wp_task_dispatch_state x = wp_task_dispatch_state w0", OF _ _ s])
       (auto simp: w0 send_command_def split: if_splits)
  then have q: "wp_event_queue w1 = wp_event_queue w" and st: "wp_task_dispatch_state w1 (t_id t) = Some st" "td_events_by_kind st k = None"
    by (auto simp: w0 st_def)
  have prefix: "enqueue_all (take n evs) w1 = Inr (with_reports (t_id t) st k (take n evs) w1)"
    and proper: "set (map rank_of (take n evs)) \<subset> set (g_ranks g)" if n: "n < length evs" for n
  proof -
    have split: "map rank_of evs = map rank_of (take n evs) @ map rank_of (drop n evs)" "drop n evs \<noteq> []"
      using n by (simp_all flip: map_append)
    have dis: "distinct (map rank_of (take n evs) @ map rank_of (drop n evs))" using evs(2) split(1) by simp
    have un: "set (map rank_of (take n evs)) \<union> set (map rank_of (drop n evs)) = set (g_ranks g)" using evs(3) split(1) by (metis set_append)
    show sub: "set (map rank_of (take n evs)) \<subset> set (g_ranks g)"
      using dis un split(2) by (cases "drop n evs") auto
    show "enqueue_all (take n evs) w1 = Inr (with_reports (t_id t) st k (take n evs) w1)"
      by (rule enqueue_prefix [OF st k])
         (use evs(1,2) sub in \<open>auto simp: st_def distinct_take take_map [symmetric] dest: in_set_takeD\<close>)
  qed
  have first: "\<forall>n < length evs. \<exists>w2. enqueue_all (take n evs) w1 = Inr w2 \<and> wp_event_queue w2 = wp_event_queue w"
    using prefix by (auto simp: with_reports_def q)
  have "evs \<noteq> []" using evs(3) ne by auto
  then obtain xs re where x: "evs = xs @ [re]" by (cases evs rule: rev_cases) auto
  have xs: "enqueue_all xs w1 = Inr (with_reports (t_id t) st k xs w1)" using prefix [of "length xs"] by (simp add: x)
  have mo: "map_of (by_rank evs) (rank_of o1) = Some o1" if "o1 \<in> set evs" for o1
    using that evs(2) by (auto simp: by_rank_def o_def intro!: map_of_is_SomeI)
  have "leader \<in> set (map rank_of evs)" using evs(3) ne leader by simp
  then obtain owner where ow: "owner \<in> set evs" "rank_of owner = leader" by auto
  have id: "e_task_id (fst owner) = t_id t" "e_kind (fst owner) = k" using evs(1) ow(1) by auto
  let ?agg = "(fst owner)\<lparr>e_event_id := aggregate_id (t_id t) k, e_group_id := gid,
           e_timestamp_ns := Max ((\<lambda>re. e_timestamp_ns (fst re)) ` set evs),
           e_metadata := dict_set (e_metadata (fst owner)) ''completed_ranks''
             (PyList (map PyInt (sort (map rank_of evs))))\<rparr>"
  have b: "build_aggregated_event st k (by_rank evs) = Inr (?agg, snd owner)"
  proof -
    have m: "map_of (by_rank evs) (td_result_owner_rank st) = Some owner" using mo [OF ow(1)] ow(2) by (simp add: st_def)
    have "(\<lambda>(r, e). e_timestamp_ns (fst e)) ` set (by_rank evs) = (\<lambda>re. e_timestamp_ns (fst re)) ` set evs"
      by (auto simp: by_rank_def image_image)
    moreover have "map fst (by_rank evs) = map rank_of evs" by (simp add: by_rank_def)
    ultimately show ?thesis
      unfolding build_aggregated_owner [OF m] using id ow(2)
      by (auto simp: st_def intro!: worker_event.equality)
  qed
  have "enqueue_all evs w1 = enqueue_event (WorkerEvent (fst re) (snd re)) (with_reports (t_id t) st k xs w1)"
    using xs by (cases "enqueue_event (WorkerEvent (fst re) (snd re)) (with_reports (t_id t) st k xs w1)")
      (simp_all add: enqueue_all_def x for_res_append)
  also have "\<dots> = (let w2 = with_reports (t_id t) st k evs w1
       in Inr ((if k = TASK_EXEC_END then w2\<lparr>wp_task_dispatch_state := (wp_task_dispatch_state w2)(t_id t := None)\<rparr> else w2)
            \<lparr>wp_event_queue := wp_event_queue w1 @ [WorkerEvent ?agg (snd owner)]\<rparr>))"
    using enqueue_new_report [OF st k, of re xs] evs b by (auto simp: x st_def Let_def)
  finally show ?thesis
    using first ow leader q by (auto simp: Let_def intro!: bexI [of _ owner])
qed

lemma completed_event:
  assumes "pool_dispatch T t inl rel w = Inr w1" "t_group_id t = Some gid" "get_group T gid = Inr g"
    and "k \<in> task_kinds" "k \<noteq> TASK_FAILED"
    and "\<forall>re \<in> set evs. e_task_id (fst re) = t_id t \<and> e_kind (fst re) = k"
      "distinct (map rank_of evs)" "set (map rank_of evs) = set (g_ranks g)"
  shows "\<exists>owner w2 ev. owner \<in> set evs \<and> rank_of owner = hd (g_ranks g) \<and> enqueue_all evs w1 = Inr w2
    \<and> wp_event_queue w2 = wp_event_queue w @ [WorkerEvent ev (snd owner)] \<and> e_task_id ev = t_id t \<and> e_kind ev = k"
proof -
  from conjunct2 [OF aggregation_run [OF assms]] obtain owner w2 where o: "owner \<in> set evs" "rank_of owner = hd (g_ranks g)"
    "enqueue_all evs w1 = Inr w2" "wp_event_queue w2 = wp_event_queue w @
        [WorkerEvent ((fst owner)\<lparr>e_event_id := aggregate_id (t_id t) k, e_group_id := gid,
           e_timestamp_ns := Max ((\<lambda>re. e_timestamp_ns (fst re)) ` set evs),
           e_metadata := dict_set (e_metadata (fst owner)) ''completed_ranks''
             (PyList (map PyInt (sort (map rank_of evs))))\<rparr>) (snd owner)]" by blast
  then show ?thesis using assms(6) by fastforce
qed

text \<open>
  C9: Once a task is dispatched to a group, the reports of one kind from its ranks, in whatever
  order they arrive, put nothing into the event queue until the last rank has reported, and then
  exactly one event: that of the leader of the group (its message, metadata and published
  outputs), with the group of the dispatch, the latest of the timestamps, and the sorted ranks.
\<close>

theorem last_report_completes:
  assumes d: "pool_dispatch T t inl rel w = Inr w1" "t_group_id t = Some gid" "get_group T gid = Inr g"
    and k: "k \<in> task_kinds" "k \<noteq> TASK_FAILED"
    and evs: "\<forall>re \<in> set evs. e_task_id (fst re) = t_id t \<and> e_kind (fst re) = k"
      "distinct (map rank_of evs)" "set (map rank_of evs) = set (g_ranks g)"
  shows "(\<forall>n < length evs. \<exists>w2. enqueue_all (take n evs) w1 = Inr w2 \<and> wp_event_queue w2 = wp_event_queue w)
    \<and> (\<exists>owner \<in> set evs. rank_of owner = hd (g_ranks g) \<and>
      (\<exists>w2. enqueue_all evs w1 = Inr w2 \<and> wp_event_queue w2 = wp_event_queue w @
        [WorkerEvent ((fst owner)\<lparr>e_event_id := aggregate_id (t_id t) k, e_group_id := gid,
           e_timestamp_ns := Max ((\<lambda>re. e_timestamp_ns (fst re)) ` set evs),
           e_metadata := dict_set (e_metadata (fst owner)) ''completed_ranks''
             (PyList (map PyInt (sort (map rank_of evs))))\<rparr>) (snd owner)]))"
  using aggregation_run [OF assms] .

section \<open>A concrete run\<close>

text \<open>Task \<open>t1\<close> on the group of ranks 0 and 1; rank 1 reports first, then twice more, rank 0 last.\<close>

definition ex_report :: "int \<Rightarrow> int \<Rightarrow> rank_event" where
  "ex_report r ts =
     (\<lparr>e_event_id = ''e'', e_task_id = ''t1'', e_request_id = ''rt1'', e_group_id = ''a'', e_worker_rank = r,
       e_kind = TASK_EXEC_END, e_timestamp_ns = ts, e_message = [], e_metadata = [(''from'', PyInt r)]\<rparr>, [])"

definition ex_dispatched :: worker_pool where
  "ex_dispatched =
     (case pool_dispatch ex_topology (ex_task ''t1'' ''a'') [] [] (worker_pool_init [0, 1]) of
        Inr w \<Rightarrow> w | Inl _ \<Rightarrow> worker_pool_init [])"

definition ex_message :: "int \<Rightarrow> int \<Rightarrow> reader_message" where
  "ex_message r ts = EventMessage (WorkerEvent (fst (ex_report r ts)) (snd (ex_report r ts)))"

lemma ex_dispatch: "pool_dispatch ex_topology (ex_task ''t1'' ''a'') [] [] (worker_pool_init [0, 1]) = Inr ex_dispatched"
proof -
  have "case pool_dispatch ex_topology (ex_task ''t1'' ''a'') [] [] (worker_pool_init [0, 1]) of Inl _ \<Rightarrow> False | Inr _ \<Rightarrow> True"
    by code_simp
  then show ?thesis by (auto simp: ex_dispatched_def split: sum.splits)
qed

theorem one_report_per_dispatch_witness:
  "\<exists>w es. pool_reach (worker_pool_init [0, 1]) w [''t1''] es \<and> length es = 1 \<and> reports ''t1'' TASK_EXEC_END es \<le> 1"
proof -
  define w1 where "w1 = reader_step (ex_message 1 5) ex_dispatched"
  define w2 where "w2 = reader_step (ex_message 1 6) w1"
  define w3 where "w3 = reader_step (ex_message 0 7) w2"
  define w4 where "w4 = reader_step (ex_message 1 8) w3"
  note defs = w1_def w2_def w3_def w4_def
  define es where "es = drop (length (wp_event_queue ex_dispatched)) (wp_event_queue w1)
      @ drop (length (wp_event_queue w1)) (wp_event_queue w2)
      @ drop (length (wp_event_queue w2)) (wp_event_queue w3) @ drop (length (wp_event_queue w3)) (wp_event_queue w4)"
  have "pool_reach (worker_pool_init [0, 1]) ex_dispatched ([] @ [t_id (ex_task ''t1'' ''a'')]) []"
    by (rule pool_reach.dispatch [OF pool_reach.start ex_dispatch])
  then have "pool_reach (worker_pool_init [0, 1]) ex_dispatched [''t1''] []" by (simp add: ex_task_def)
  from pool_reach.read [OF pool_reach.read [OF pool_reach.read [OF pool_reach.read [OF this, of "ex_message 1 5", folded w1_def],
        of "ex_message 1 6", folded w2_def], of "ex_message 0 7", folded w3_def], of "ex_message 1 8", folded w4_def]
  have r: "pool_reach (worker_pool_init [0, 1]) w4 [''t1''] es" by (simp add: es_def)
  moreover have "length es = 1" unfolding es_def defs by code_simp
  moreover have "reports ''t1'' TASK_EXEC_END es \<le> 1"
    using one_report_per_dispatch [OF r, of TASK_EXEC_END "''t1''"] by (simp add: task_kinds_def)
  ultimately show ?thesis by blast
qed

theorem last_report_completes_witness:
  "\<exists>w2. enqueue_all [ex_report 1 5, ex_report 0 7] ex_dispatched = Inr w2
     \<and> wp_event_queue w2 = [WorkerEvent (fst (ex_report 0 7)\<lparr>e_event_id := ''aggregate:t1:task_exec_end'',
          e_metadata := [(''from'', PyInt 0), (''completed_ranks'', PyList [PyInt 0, PyInt 1])]\<rparr>) []]"
proof -
  have g: "t_group_id (ex_task ''t1'' ''a'') = Some ''a''" "get_group ex_topology ''a'' = Inr (ex_group ''a'' [0, 1])"
    by code_simp+
  have "\<exists>owner \<in> set [ex_report 1 5, ex_report 0 7]. rank_of owner = 0 \<and>
      (\<exists>w2. enqueue_all [ex_report 1 5, ex_report 0 7] ex_dispatched = Inr w2 \<and> wp_event_queue w2 =
        [WorkerEvent ((fst owner)\<lparr>e_event_id := aggregate_id ''t1'' TASK_EXEC_END, e_group_id := ''a'',
           e_timestamp_ns := Max ((\<lambda>re. e_timestamp_ns (fst re)) ` set [ex_report 1 5, ex_report 0 7]),
           e_metadata := dict_set (e_metadata (fst owner)) ''completed_ranks''
             (PyList (map PyInt (sort (map rank_of [ex_report 1 5, ex_report 0 7]))))\<rparr>) (snd owner)])"
    using last_report_completes [OF ex_dispatch g, of TASK_EXEC_END "[ex_report 1 5, ex_report 0 7]"]
    by (simp add: task_kinds_def ex_report_def ex_group_def ex_task_def worker_pool_init_def) blast
  then show ?thesis by (auto simp: ex_report_def aggregate_id_def)
qed

end
