(* ===== verification/WorkerProcess.thy ===== *)
theory WorkerProcess
  imports WorkerPool SpGather
begin

text \<open>
  The worker processes behind the pool (\<open>_WorkerProcessRuntime\<close> in \<open>runtime_v2/multiproc_worker.py\<close>
  and the phases of a migration in \<open>MigrationDataPlaneMixin\<close> of \<open>runtime_v2/data_plane.py\<close>): the
  table of local artifacts, the execution of a dispatched task with its events, fetches,
  evictions, and the four phases of a migration. What PyTorch, NCCL and the pipelines do is an
  argument: the executors of the stages, gathering and sharding of a value, the codecs, pickling,
  and the tensors that arrive from the peers. Clocks and fresh ids are functions of the number of
  events sent.
\<close>

section \<open>State and environment\<close>

text \<open>\<open>(request_id, group_id, artifact_id)\<close>.\<close>

type_synonym local_key = "string \<times> string \<times> string"

text \<open>A codec, and the registry that the executors fill (\<open>runtime_v2/codec.py\<close>).\<close>

record 'v codec =
  cd_describe :: "group_spec \<Rightarrow> nat \<Rightarrow> pydict \<Rightarrow> artifact_handle \<Rightarrow> output_artifact_layout res"
  cd_extra_fields :: "'v \<Rightarrow> output_artifact_layout \<Rightarrow> tensor_field_layout list"
  cd_pack :: "'v \<Rightarrow> output_artifact_layout \<Rightarrow> pyval res"
  cd_assemble :: "pyval \<Rightarrow> (string list \<times> 'v) list \<Rightarrow> output_artifact_layout \<Rightarrow> 'v res"

type_synonym 'v registry = "string \<Rightarrow> 'v codec option"

definition registry_get :: "'v registry \<Rightarrow> string \<Rightarrow> 'v codec res" where
  "registry_get R c = dict_get R c"

definition registry_describe ::
  "'v registry \<Rightarrow> group_spec \<Rightarrow> nat \<Rightarrow> pydict \<Rightarrow> artifact_handle \<Rightarrow> output_artifact_layout res" where
  "registry_describe R g i md a =
     (if no_codec a then Inl ValueError
      else bind_res (registry_get R (the (h_codec_id a))) (\<lambda>c. cd_describe c g i md a))"

text \<open>
  \<open>we_read_tensor\<close> is \<open>_read_field\<close> with the check that the field is a tensor; \<open>we_load\<close> is what
  pickling and unpickling make of an inline input, \<open>we_dump\<close> the pickled form of an artifact.
\<close>

record ('v, 't) worker_env =
  we_executors :: "task_kind \<Rightarrow> (task \<Rightarrow> (string \<times> 'v) list \<Rightarrow> (artifact_handle \<times> 'v) list res) option"
  we_codecs :: "'v registry"
  we_materialize :: "group_spec \<Rightarrow> nat \<Rightarrow> pydict \<Rightarrow> artifact_handle \<Rightarrow> 'v \<Rightarrow> 'v res"
  we_shard :: "group_spec \<Rightarrow> nat \<Rightarrow> pydict \<Rightarrow> artifact_handle \<Rightarrow> 'v \<Rightarrow> 'v res"
  we_read_tensor :: "'v \<Rightarrow> string list \<Rightarrow> 't tensor res"
  we_tensor_value :: "'t tensor \<Rightarrow> 'v"
  we_known_dtype :: "string \<Rightarrow> bool"
  we_load :: "artifact_payload \<Rightarrow> 'v"
  we_dump :: "'v \<Rightarrow> string"
  we_error_text :: "py_error \<Rightarrow> string"
  we_kind_text :: "task_kind \<Rightarrow> string"
  we_clock :: "nat \<Rightarrow> int"
  we_started :: "nat \<Rightarrow> int"
  we_uuid :: "nat \<Rightarrow> string"

text \<open>What a worker writes to its result pipe.\<close>

datatype worker_result = FetchArtifactsResult wire_result | MigrateArtifactsRankResult mig_result

datatype worker_status = Serving | Stopped | Failed

record 'v worker =
  wk_rank :: int
  wk_group_specs :: "string \<Rightarrow> group_spec option"
  wk_fixed_session :: bool
  wk_fixed_sessions :: "string set"
  wk_active_session :: "string option"
  wk_local_artifacts :: "local_key \<Rightarrow> (artifact_handle \<times> 'v) option"
  wk_migration_schedules :: "string \<Rightarrow> artifact_migration_schedule option"
  wk_events :: "pool_event list"
  wk_results :: "worker_result list"
  wk_fetch_queue :: "(string \<times> string \<times> string \<times> string list) list"
  wk_status :: worker_status

section \<open>Groups and sessions\<close>

definition require_task_group_id :: "task \<Rightarrow> string res" where
  "require_task_group_id t = (case t_group_id t of None \<Rightarrow> Inl ValueError | Some g \<Rightarrow> Inr g)"

definition worker_group_spec :: "'v worker \<Rightarrow> string \<Rightarrow> group_spec res" where
  "worker_group_spec w gid = dict_get (wk_group_specs w) gid"

definition topology_signature :: "group_spec \<Rightarrow> int list \<times> int \<times> int \<times> int \<times> int \<times> int" where
  "topology_signature g =
     (g_ranks g, ps_tp (g_parallel g), ps_sp (g_parallel g), ps_cfg (g_parallel g), g_ulysses g, g_ring g)"

text \<open>A new group of this rank gets its session, which becomes the active one.\<close>

definition ensure_group_spec :: "group_spec \<Rightarrow> 'v worker \<Rightarrow> 'v worker res" where
  "ensure_group_spec g w =
     (case wk_group_specs w (g_id g) of
        Some e \<Rightarrow> if topology_signature e \<noteq> topology_signature g then Inl ValueError else Inr w
      | None \<Rightarrow>
          let w1 = w\<lparr>wk_group_specs := (wk_group_specs w)(g_id g \<mapsto> g)\<rparr>
          in if wk_rank w \<notin> set (g_ranks g) then Inr w1
             else Inr (w1\<lparr>wk_fixed_sessions := insert (g_id g) (wk_fixed_sessions w),
                          wk_active_session := Some (g_id g)\<rparr>))"

definition validate_task_parallel_spec :: "task \<Rightarrow> group_spec \<Rightarrow> unit res" where
  "validate_task_parallel_spec t g =
     (if ps_tp (t_parallel t) \<noteq> ps_tp (g_parallel g) \<or> ps_sp (t_parallel t) \<noteq> ps_sp (g_parallel g)
         \<or> ps_cfg (t_parallel t) \<noteq> ps_cfg (g_parallel g)
         \<or> ps_cfg_parallel (t_parallel t) \<noteq> ps_cfg_parallel (g_parallel g)
      then Inl ValueError else Inr ())"

definition activate_group_session :: "string \<Rightarrow> 'v worker \<Rightarrow> 'v worker res" where
  "activate_group_session gid w =
     (if gid \<in> wk_fixed_sessions w then Inr (w\<lparr>wk_active_session := Some gid\<rparr>)
      else if wk_fixed_session w then Inr (w\<lparr>wk_active_session := None\<rparr>)
      else Inl RuntimeError)"

definition maybe_activate_group_session :: "string \<Rightarrow> 'v worker \<Rightarrow> 'v worker res" where
  "maybe_activate_group_session gid w =
     (if wk_fixed_sessions w \<noteq> {} \<or> wk_fixed_session w then activate_group_session gid w else Inr w)"

definition request_metadata_for_task :: "task \<Rightarrow> pydict" where
  "request_metadata_for_task t =
     (case map_of (t_payload t) ''request_metadata'' of Some (PyDict d) \<Rightarrow> d | _ \<Rightarrow> [])"

section \<open>Executing a task\<close>

definition rank_index :: "group_spec \<Rightarrow> int \<Rightarrow> nat" where
  "rank_index g r = length (takeWhile (\<lambda>x. x \<noteq> r) (g_ranks g))"

text \<open>Gathering an input and sharding an output are skipped for an unknown group or a rank outside of it.\<close>

definition materialize_input_artifact ::
  "('v, 't) worker_env \<Rightarrow> 'v worker \<Rightarrow> string \<Rightarrow> pydict \<Rightarrow> artifact_handle \<Rightarrow> 'v \<Rightarrow> 'v res" where
  "materialize_input_artifact E w gid md a v =
     (case wk_group_specs w gid of
        None \<Rightarrow> Inr v
      | Some g \<Rightarrow> if wk_rank w \<notin> set (g_ranks g) then Inr v
                  else we_materialize E g (rank_index g (wk_rank w)) md a v)"

definition shard_output_artifact ::
  "('v, 't) worker_env \<Rightarrow> 'v worker \<Rightarrow> string \<Rightarrow> pydict \<Rightarrow> artifact_handle \<times> 'v \<Rightarrow> (artifact_handle \<times> 'v) res" where
  "shard_output_artifact E w gid md av =
     (case wk_group_specs w gid of
        None \<Rightarrow> Inr av
      | Some g \<Rightarrow> if wk_rank w \<notin> set (g_ranks g) then Inr av
                  else bind_res (we_shard E g (rank_index g (wk_rank w)) md (fst av) (snd av))
                         (\<lambda>v. Inr (fst av, v)))"

text \<open>
  An input is taken from the local table, or else from the inline inputs, which are then kept.
  Gathering changes the object in place, so that the table holds the gathered value.
\<close>

definition resolve_input ::
  "('v, 't) worker_env \<Rightarrow> string \<Rightarrow> pydict \<Rightarrow> artifact_value list \<Rightarrow> 'v worker \<times> (string \<times> 'v) list \<Rightarrow> artifact_handle
   \<Rightarrow> ('v worker \<times> (string \<times> 'v) list) res" where
  "resolve_input E gid md inl s a =
     (case s of (w, acc) \<Rightarrow>
        let key = (h_request_id a, gid, h_artifact_id a);
            found = (case wk_local_artifacts w key of
                       Some hv \<Rightarrow> Some hv
                     | None \<Rightarrow>
                         map_option (\<lambda>av. (av_handle av, we_load E (av_value av)))
                           (map_of (rev (map (\<lambda>av. (h_artifact_id (av_handle av), av)) inl)) (h_artifact_id a)))
        in case found of
             None \<Rightarrow> Inl KeyError
           | Some (h, v) \<Rightarrow>
               bind_res (materialize_input_artifact E w gid md a v) (\<lambda>v'.
                 Inr (w\<lparr>wk_local_artifacts := (wk_local_artifacts w)(key \<mapsto> (h, v'))\<rparr>,
                      dict_set acc (h_artifact_id a) v')))"

definition resolve_inputs ::
  "('v, 't) worker_env \<Rightarrow> task \<Rightarrow> artifact_value list \<Rightarrow> 'v worker \<Rightarrow> ('v worker \<times> (string \<times> 'v) list) res" where
  "resolve_inputs E t inl w =
     bind_res (require_task_group_id t) (\<lambda>gid.
       for_res (resolve_input E gid (request_metadata_for_task t) inl) (w, []) (t_inputs t))"

text \<open>Sending an event; an event of a task without a group raises.\<close>

definition send_event ::
  "('v, 't) worker_env \<Rightarrow> task \<Rightarrow> worker_event_kind \<Rightarrow> string \<Rightarrow> pydict \<Rightarrow> worker_local_ref list \<Rightarrow> 'v worker \<Rightarrow> 'v worker res" where
  "send_event E t k msg md refs w =
     bind_res (require_task_group_id t) (\<lambda>gid.
       let n = length (wk_events w)
       in Inr (w\<lparr>wk_events := wk_events w @ [WorkerEvent
            \<lparr>e_event_id = we_uuid E n, e_task_id = t_id t, e_request_id = t_request_id t, e_group_id = gid,
             e_worker_rank = wk_rank w, e_kind = k, e_timestamp_ns = we_clock E n, e_message = msg, e_metadata = md\<rparr> refs]\<rparr>))"

definition launch_metadata :: "int \<Rightarrow> int \<Rightarrow> pydict" where
  "launch_metadata begun sent =
     [(''queue_delay_ms'', PyFloat (if sent = 0 then 0 else max 0 (of_int (begun - sent) / 1000000))),
      (''worker_launch_begin_ns'', PyInt begun), (''dispatched_at_ns'', PyInt sent)]"

definition store_outputs :: "string \<Rightarrow> (artifact_handle \<times> 'v) list \<Rightarrow> 'v worker \<Rightarrow> 'v worker" where
  "store_outputs gid outs w =
     w\<lparr>wk_local_artifacts := fold (\<lambda>(h, v) m. m((h_request_id h, gid, h_artifact_id h) \<mapsto> (h, v))) outs (wk_local_artifacts w)\<rparr>"

definition published :: "string \<Rightarrow> int \<Rightarrow> int \<Rightarrow> (artifact_handle \<times> 'v) list \<Rightarrow> worker_local_ref list" where
  "published gid owner r outs =
     (if r = owner then map (\<lambda>(h, v). \<lparr>wr_handle = h, wr_group_id = gid, wr_worker_rank = r\<rparr>) outs else [])"

definition release_artifacts :: "string \<Rightarrow> string \<Rightarrow> string list \<Rightarrow> 'v worker \<Rightarrow> 'v worker" where
  "release_artifacts rid gid aids w =
     w\<lparr>wk_local_artifacts := fold (\<lambda>aid m. m((rid, gid, aid) := None)) aids (wk_local_artifacts w)\<rparr>"

text \<open>The body of the \<open>try\<close> up to the outputs: nothing of the worker has changed when it raises.\<close>

definition run_executor ::
  "('v, 't) worker_env \<Rightarrow> task \<Rightarrow> string \<Rightarrow> (task \<Rightarrow> (string \<times> 'v) list \<Rightarrow> (artifact_handle \<times> 'v) list res)
   \<Rightarrow> (string \<times> 'v) list \<Rightarrow> 'v worker \<Rightarrow> (artifact_handle \<times> 'v) list res" where
  "run_executor E t gid ex inputs w =
     bind_res (ex t inputs) (\<lambda>outs. map_res (shard_output_artifact E w gid (request_metadata_for_task t)) outs)"

definition run_task ::
  "('v, 't) worker_env \<Rightarrow> task \<Rightarrow> string \<Rightarrow> (task \<Rightarrow> (string \<times> 'v) list \<Rightarrow> (artifact_handle \<times> 'v) list res)
   \<Rightarrow> artifact_value list \<Rightarrow> int \<Rightarrow> string list \<Rightarrow> int \<Rightarrow> 'v worker \<Rightarrow> 'v worker res" where
  "run_task E t gid ex inl owner rel dispatched w =
     bind_res (resolve_inputs E t inl w) (\<lambda>(w1, inputs).
     bind_res (send_event E t TASK_LAUNCH_BEGIN [] (launch_metadata (we_started E (length (wk_events w))) dispatched) [] w1) (\<lambda>w2.
     bind_res (send_event E t TASK_EXEC_BEGIN [] [] [] w2) (\<lambda>w3.
       case run_executor E t gid ex inputs w3 of
         Inl e \<Rightarrow> send_event E t TASK_FAILED (we_error_text E e) [] [] w3
       | Inr outs \<Rightarrow>
           bind_res (send_event E t TASK_LAUNCH_END [] [] (published gid owner (wk_rank w) outs) (store_outputs gid outs w3)) (\<lambda>w4.
             send_event E t TASK_EXEC_END [] [] [] (release_artifacts (t_request_id t) gid rel w4)))))"

text \<open>Setting a task up; what raises here, and a missing executor, fails the task only.\<close>

definition setup_task ::
  "('v, 't) worker_env \<Rightarrow> task \<Rightarrow> group_spec option \<Rightarrow> 'v worker
   \<Rightarrow> ('v worker \<times> string \<times> (task \<Rightarrow> (string \<times> 'v) list \<Rightarrow> (artifact_handle \<times> 'v) list res) option) res" where
  "setup_task E t g w =
     bind_res (require_task_group_id t) (\<lambda>gid.
     bind_res (case g of Some gs \<Rightarrow> Inr gs | None \<Rightarrow> worker_group_spec w gid) (\<lambda>gs.
     bind_res (validate_task_parallel_spec t gs) (\<lambda>_.
     bind_res (activate_group_session gid w) (\<lambda>w1. Inr (w1, gid, we_executors E (t_kind t))))))"

definition execute_task ::
  "('v, 't) worker_env \<Rightarrow> task \<Rightarrow> artifact_value list \<Rightarrow> int \<Rightarrow> string list \<Rightarrow> int \<Rightarrow> group_spec option
   \<Rightarrow> 'v worker \<Rightarrow> 'v worker res" where
  "execute_task E t inl owner rel dispatched g w =
     bind_res (case g of None \<Rightarrow> Inr w | Some gs \<Rightarrow> ensure_group_spec gs w) (\<lambda>w1.
       if \<not> wk_fixed_session w1 \<and> wk_fixed_sessions w1 = {} then Inl RuntimeError
       else case setup_task E t g w1 of
         Inl e \<Rightarrow> send_event E t TASK_FAILED (''task setup failed: '' @ we_error_text E e) [] [] w1
       | Inr (w2, gid, None) \<Rightarrow>
           send_event E t TASK_FAILED (''worker does not support task kind '' @ we_kind_text E (t_kind t)) [] [] w2
       | Inr (w2, gid, Some ex) \<Rightarrow> run_task E t gid ex inl owner rel dispatched w2)"

section \<open>Fetches and evictions\<close>

text \<open>The first artifact that is missing ends the fetch with an error.\<close>

definition missing_artifact_text :: "string \<Rightarrow> string \<Rightarrow> string \<Rightarrow> string" where
  "missing_artifact_text rid gid aid =
     ''artifact not found: request_id='' @ rid @ '', group_id='' @ gid @ '', artifact_id='' @ aid"

fun collect_artifacts ::
  "('v, 't) worker_env \<Rightarrow> string \<Rightarrow> string \<Rightarrow> string list \<Rightarrow> 'v worker \<Rightarrow> string + wire_artifact list" where
  "collect_artifacts E rid gid [] w = Inr []"
| "collect_artifacts E rid gid (aid # aids) w =
     (case wk_local_artifacts w (rid, gid, aid) of
        None \<Rightarrow> Inl (missing_artifact_text rid gid aid)
      | Some (h, v) \<Rightarrow>
          (case collect_artifacts E rid gid aids w of
             Inl m \<Rightarrow> Inl m
           | Inr l \<Rightarrow> Inr (SerializedArtifact h (we_dump E v) # l)))"

definition handle_fetch_artifacts ::
  "('v, 't) worker_env \<Rightarrow> string \<times> string \<times> string \<times> string list \<Rightarrow> 'v worker \<Rightarrow> 'v worker" where
  "handle_fetch_artifacts E c w =
     (case c of (fid, rid, gid, aids) \<Rightarrow>
        w\<lparr>wk_results := wk_results w @ [FetchArtifactsResult
           (case collect_artifacts E rid gid aids w of
              Inl m \<Rightarrow> \<lparr>wf_fetch_id = fid, wf_artifacts = [], wf_error = Some m\<rparr>
            | Inr l \<Rightarrow> \<lparr>wf_fetch_id = fid, wf_artifacts = l, wf_error = None\<rparr>)]\<rparr>)"

text \<open>One round of the fetch thread.\<close>

definition fetch_loop_step :: "('v, 't) worker_env \<Rightarrow> 'v worker \<Rightarrow> 'v worker" where
  "fetch_loop_step E w =
     (case wk_fetch_queue w of
        [] \<Rightarrow> w
      | c # cs \<Rightarrow> handle_fetch_artifacts E c (w\<lparr>wk_fetch_queue := cs\<rparr>))"

definition handle_evict_request :: "string \<Rightarrow> 'v worker \<Rightarrow> 'v worker" where
  "handle_evict_request rid w =
     w\<lparr>wk_local_artifacts := (\<lambda>k. if fst k = rid then None else wk_local_artifacts w k)\<rparr>"

section \<open>The phases of a migration\<close>

text \<open>The command of a phase: what the engine knows, with the schedule and the pickled metadata.\<close>

record phase_command = mig_command +
  mc_phase :: phase
  mc_schedule :: "artifact_migration_schedule option"
  mc_metadata_payloads :: "pyval list"

text \<open>
  A phase that raises leaves the changes it has made before: it returns the worker and the
  result or the error. A phase first activates the session of a group.
\<close>

definition with_session :: "string \<Rightarrow> ('v worker \<Rightarrow> 'v worker \<times> 'a res) \<Rightarrow> 'v worker \<Rightarrow> 'v worker \<times> 'a res" where
  "with_session gid k w = (case maybe_activate_group_session gid w of Inl e \<Rightarrow> (w, Inl e) | Inr w1 \<Rightarrow> k w1)"

definition phase_reply :: "phase_command \<Rightarrow> 'v worker \<Rightarrow> mig_result" where
  "phase_reply c w =
     \<lparr>r_mid = mc_migrate_id c, r_phase = mc_phase c, r_rank = wk_rank w, r_error = None, r_schedule = None,
      r_metadata_payloads = [], r_src_layouts = [], r_dst_layouts = []\<rparr>"

definition source_key :: "phase_command \<Rightarrow> migrate_spec \<Rightarrow> local_key" where
  "source_key c spec =
     (mp_request_id (mc_plan c), g_id (mc_src_group c), h_artifact_id (effective_source_handle spec))"

definition describe_source ::
  "('v, 't) worker_env \<Rightarrow> phase_command \<Rightarrow> 'v worker \<Rightarrow> migrate_spec \<Rightarrow> output_artifact_layout res" where
  "describe_source E c w spec =
     bind_res (dict_get (wk_local_artifacts w) (source_key c spec)) (\<lambda>_.
     bind_res (registry_describe (we_codecs E) (mc_src_group c) (rank_index (mc_src_group c) (wk_rank w))
                 (mp_request_metadata (mc_plan c)) (effective_source_handle spec)) (\<lambda>l.
       mk_output_artifact_layout (mg_handle spec) (ol_tensors l)))"

definition describe_destination ::
  "('v, 't) worker_env \<Rightarrow> phase_command \<Rightarrow> 'v worker \<Rightarrow> migrate_spec \<Rightarrow> output_artifact_layout res" where
  "describe_destination E c w spec =
     registry_describe (we_codecs E) (mc_dst_group c) (rank_index (mc_dst_group c) (wk_rank w))
       (mp_request_metadata (mc_plan c)) (mg_handle spec)"

definition describe_migration_layouts ::
  "('v, 't) worker_env \<Rightarrow> phase_command \<Rightarrow> 'v worker \<Rightarrow> 'v worker \<times> mig_result res" where
  "describe_migration_layouts E c w =
     (let specs = mp_artifacts (mc_plan c);
          dst = (\<lambda>srcs w1.
            if wk_rank w \<notin> set (g_ranks (mc_dst_group c))
            then (w1, Inr ((phase_reply c w1)\<lparr>r_src_layouts := srcs\<rparr>))
            else with_session (g_id (mc_dst_group c)) (\<lambda>w2.
              (w2, bind_res (map_res (describe_destination E c w2) specs) (\<lambda>dsts.
                 Inr ((phase_reply c w2)\<lparr>r_src_layouts := srcs, r_dst_layouts := dsts\<rparr>)))) w1)
      in if wk_rank w \<notin> set (g_ranks (mc_src_group c)) then dst [] w
         else with_session (g_id (mc_src_group c)) (\<lambda>w1.
           case map_res (describe_source E c w1) specs of
             Inl e \<Rightarrow> (w1, Inl e)
           | Inr srcs \<Rightarrow> dst srcs w1) w)"

text \<open>Tensors outside the described layout travel from the source leader to every destination rank.\<close>

definition extra_edges :: "phase_command \<Rightarrow> string \<Rightarrow> int \<Rightarrow> tensor_field_layout \<Rightarrow> tensor_migration_edge list res" where
  "extra_edges c aid leader f =
     bind_res (mk_tensor_slice_spec (fl_path f) (map (\<lambda>_. 0) (fl_local_shape f)) (fl_local_shape f) (fl_dtype f)) (\<lambda>sl.
       map_res (\<lambda>r. mk_tensor_migration_edge aid leader r sl sl (leader = r)) (g_ranks (mc_dst_group c)))"

definition codec_of_handles :: "('v, 't) worker_env \<Rightarrow> artifact_handle \<Rightarrow> artifact_handle \<Rightarrow> 'v codec res" where
  "codec_of_handles E a b =
     (case (if no_codec a then h_codec_id b else h_codec_id a) of
        None \<Rightarrow> Inl KeyError
      | Some cid \<Rightarrow> registry_get (we_codecs E) cid)"

definition payload_entry :: "string \<Rightarrow> pyval \<Rightarrow> pyval" where
  "payload_entry aid p = PyList [PyStr aid, p]"

definition pack_source ::
  "('v, 't) worker_env \<Rightarrow> phase_command \<Rightarrow> int \<Rightarrow> 'v worker \<Rightarrow> tensor_migration_edge list \<times> pyval list \<Rightarrow> migrate_spec
   \<Rightarrow> (tensor_migration_edge list \<times> pyval list) res" where
  "pack_source E c leader w acc spec =
     (let src = effective_source_handle spec; aid = h_artifact_id (mg_handle spec)
      in bind_res (dict_get (wk_local_artifacts w) (source_key c spec)) (\<lambda>(h, v).
         bind_res (codec_of_handles E src (mg_handle spec)) (\<lambda>cd.
         bind_res (cd_describe cd (mc_src_group c) (rank_index (mc_src_group c) (wk_rank w))
                     (mp_request_metadata (mc_plan c)) src) (\<lambda>l.
         bind_res (map_res (extra_edges c aid leader) (cd_extra_fields cd v l)) (\<lambda>ess.
         bind_res (cd_pack cd v l) (\<lambda>p.
           Inr (fst acc @ concat ess, snd acc @ [payload_entry aid p])))))))"

definition replace_edges ::
  "artifact_migration_schedule \<Rightarrow> tensor_migration_edge list \<Rightarrow> artifact_migration_schedule res" where
  "replace_edges S es =
     mk_artifact_migration_schedule (ms_migrate_id S) (ms_request_id S) (ms_src_group_id S) (ms_dst_group_id S)
       (ms_src_ranks S) (ms_dst_ranks S) (ms_participant_ranks S) es"

definition build_migration_schedule_result ::
  "('v, 't) worker_env \<Rightarrow> phase_command \<Rightarrow> 'v worker \<Rightarrow> 'v worker \<times> mig_result res" where
  "build_migration_schedule_result E c w =
     (case g_ranks (mc_src_group c) of
        [] \<Rightarrow> (w, Inl IndexError)
      | leader # _ \<Rightarrow>
          if wk_rank w \<noteq> leader then (w, Inl RuntimeError)
          else with_session (g_id (mc_src_group c)) (\<lambda>w1.
            case bind_res (build_layout_migration_schedule (mig_command.truncate c)) (\<lambda>S.
                 bind_res (for_res (pack_source E c leader w1) ([], []) (mp_artifacts (mc_plan c))) (\<lambda>(es, ps).
                 bind_res (if es = [] then Inr S else replace_edges S (ms_edges S @ es)) (\<lambda>S'. Inr (S', ps)))) of
              Inl e \<Rightarrow> (w1, Inl e)
            | Inr (S, ps) \<Rightarrow>
                (w1\<lparr>wk_migration_schedules := (wk_migration_schedules w1)(mc_migrate_id c \<mapsto> S)\<rparr>,
                 Inr ((phase_reply c w1)\<lparr>r_schedule := Some S, r_metadata_payloads := ps\<rparr>))) w)"

definition accept_migration_schedule :: "phase_command \<Rightarrow> 'v worker \<Rightarrow> 'v worker \<times> mig_result res" where
  "accept_migration_schedule c w =
     (case mc_schedule c of
        None \<Rightarrow> (w, Inl ValueError)
      | Some S \<Rightarrow>
          if wk_rank w \<notin> set (ms_participant_ranks S) then (w, Inl RuntimeError)
          else (w\<lparr>wk_migration_schedules := (wk_migration_schedules w)(mc_migrate_id c \<mapsto> S)\<rparr>, Inr (phase_reply c w)))"

subsection \<open>The transfer\<close>

definition source_values :: "phase_command \<Rightarrow> 'v worker \<Rightarrow> (string \<times> 'v) list res" where
  "source_values c w =
     map_res (\<lambda>spec. bind_res (dict_get (wk_local_artifacts w) (source_key c spec)) (\<lambda>(h, v).
       Inr (h_artifact_id (mg_handle spec), v))) (mp_artifacts (mc_plan c))"

definition destination_layout ::
  "('v, 't) worker_env \<Rightarrow> phase_command \<Rightarrow> 'v worker \<Rightarrow> migrate_spec \<Rightarrow> (string \<times> output_artifact_layout) res" where
  "destination_layout E c w spec =
     bind_res (codec_of_handles E (mg_handle spec) (mg_handle spec)) (\<lambda>cd.
     bind_res (cd_describe cd (mc_dst_group c) (rank_index (mc_dst_group c) (wk_rank w))
                 (mp_request_metadata (mc_plan c)) (mg_handle spec)) (\<lambda>l.
     bind_res (map_res (\<lambda>f. parse_torch_dtype (we_known_dtype E) (fl_dtype f)) (ol_tensors l)) (\<lambda>_.
       Inr (h_artifact_id (mg_handle spec), l))))"

text \<open>An edge into a field that the layouts of the destination do not describe.\<close>

definition undeclared :: "(string \<times> output_artifact_layout) list \<Rightarrow> tensor_migration_edge \<Rightarrow> bool" where
  "undeclared ls e \<longleftrightarrow>
     (case map_of (rev ls) (me_artifact_id e) of
        None \<Rightarrow> True
      | Some l \<Rightarrow> ts_path (me_dst_slice e) \<notin> set (map fl_path (ol_tensors l)))"

text \<open>
  Everything before the first operation is posted: a source rank looks up the artifacts, a
  destination rank describes its layouts and allocates the slots.
\<close>

definition transfer_setup ::
  "('v, 't) worker_env \<Rightarrow> phase_command \<Rightarrow> 'v worker
   \<Rightarrow> 'v worker \<times> (artifact_migration_schedule \<times> (string \<times> 'v) list \<times> (string \<times> output_artifact_layout) list) res" where
  "transfer_setup E c w =
     (case mc_schedule c of
        None \<Rightarrow> (w, Inl ValueError)
      | Some S \<Rightarrow>
          if wk_rank w \<notin> set (ms_participant_ranks S) then (w, Inl RuntimeError)
          else
            let is_src = (wk_rank w \<in> set (g_ranks (mc_src_group c)));
                is_dst = (wk_rank w \<in> set (g_ranks (mc_dst_group c)));
                dst = (\<lambda>vals w1.
                  if \<not> is_dst then (w1, Inr (S, vals, []))
                  else with_session (g_id (mc_dst_group c)) (\<lambda>w2.
                    (w2, bind_res (map_res (destination_layout E c w2) (mp_artifacts (mc_plan c))) (\<lambda>ls.
                         bind_res (map_res (\<lambda>e. parse_torch_dtype (we_known_dtype E) (ts_dtype (me_dst_slice e)))
                                     (filter (\<lambda>e. me_dst_rank e = wk_rank w \<and> undeclared ls e) (ms_edges S))) (\<lambda>_.
                           Inr (S, vals, ls))))) w1)
            in if is_src
               then with_session (g_id (mc_src_group c)) (\<lambda>w1.
                 case source_values c w1 of Inl e \<Rightarrow> (w1, Inl e) | Inr vals \<Rightarrow> dst vals w1) w
               else dst [] w)"

definition post_op :: "('v, 't) worker_env \<Rightarrow> (string \<Rightarrow> 'v option) \<Rightarrow> p2p_op \<Rightarrow> unit res" where
  "post_op E vals x =
     (let source = (\<lambda>e. bind_res (dict_get vals (me_artifact_id e)) (\<lambda>v.
            we_read_tensor E v (ts_path (me_src_slice e))))
      in case x of
           LocalCopy e \<Rightarrow>
             bind_res (source e) (\<lambda>t. bind_res (tensor_slice_view (we_known_dtype E) t (me_src_slice e)) (\<lambda>_. Inr ()))
         | SendTo p e \<Rightarrow>
             bind_res (source e) (\<lambda>t.
             bind_res (parse_torch_dtype (we_known_dtype E) (ts_dtype (me_src_slice e))) (\<lambda>dt.
               if tn_dtype t \<noteq> dt then Inl RuntimeError
               else bind_res (tensor_slice_view (we_known_dtype E) t (me_src_slice e)) (\<lambda>_. Inr ())))
         | RecvFrom p e \<Rightarrow>
             bind_res (parse_torch_dtype (we_known_dtype E) (ts_dtype (me_dst_slice e))) (\<lambda>_. Inr ()))"

text \<open>Operations are posted in order; one that raises ends the posting, the earlier ones stay posted.\<close>

fun post_ops ::
  "('v, 't) worker_env \<Rightarrow> (string \<Rightarrow> 'v option) \<Rightarrow> p2p_op list \<Rightarrow> p2p_op list \<times> py_error option" where
  "post_ops E vals [] = ([], None)"
| "post_ops E vals (x # xs) =
     (case post_op E vals x of
        Inl e \<Rightarrow> ([], Some e)
      | Inr _ \<Rightarrow> (case post_ops E vals xs of (ys, err) \<Rightarrow> (x # ys, err)))"

definition transfer_posts :: "('v, 't) worker_env \<Rightarrow> phase_command \<Rightarrow> 'v worker \<Rightarrow> p2p_op list \<times> py_error option" where
  "transfer_posts E c w =
     (case snd (transfer_setup E c w) of
        Inl e \<Rightarrow> ([], Some e)
      | Inr (S, vals, ls) \<Rightarrow> post_ops E (map_of (rev vals)) (rank_ops (wk_rank w) (ms_edges S)))"

text \<open>The slots of an artifact: its described fields, then the further ones that edges bring.\<close>

definition slot_paths :: "int \<Rightarrow> artifact_migration_schedule \<Rightarrow> string \<Rightarrow> output_artifact_layout \<Rightarrow> string list list" where
  "slot_paths r S aid l =
     fold (\<lambda>p ps. if p \<in> set ps then ps else ps @ [p])
       (map fl_path (ol_tensors l)
        @ map (\<lambda>e. ts_path (me_dst_slice e)) (filter (\<lambda>e. me_dst_rank e = r \<and> me_artifact_id e = aid) (ms_edges S))) []"

fun payload_lookup :: "pyval list \<Rightarrow> string \<Rightarrow> pyval option" where
  "payload_lookup [] aid = None"
| "payload_lookup (x # xs) aid =
     (case payload_lookup xs aid of
        Some p \<Rightarrow> Some p
      | None \<Rightarrow> (case x of PyList [PyStr a, p] \<Rightarrow> if a = aid then Some p else None | _ \<Rightarrow> None))"

definition assemble_artifact ::
  "('v, 't) worker_env \<Rightarrow> phase_command \<Rightarrow> artifact_migration_schedule \<Rightarrow> (string \<times> output_artifact_layout) list \<Rightarrow> 't slots
   \<Rightarrow> int \<Rightarrow> migrate_spec \<Rightarrow> 'v res" where
  "assemble_artifact E c S ls slots r spec =
     (let aid = h_artifact_id (mg_handle spec)
      in case payload_lookup (mc_metadata_payloads c) aid of
           None \<Rightarrow> Inl RuntimeError
         | Some p \<Rightarrow>
             bind_res (codec_of_handles E (mg_handle spec) (mg_handle spec)) (\<lambda>cd.
             bind_res (dict_get (map_of (rev ls)) aid) (\<lambda>l.
               cd_assemble cd p
                 (List.map_filter (\<lambda>path. map_option (\<lambda>t. (path, we_tensor_value E t)) (slots (aid, path)))
                    (slot_paths r S aid l)) l)))"

fun assemble_artifacts ::
  "('v, 't) worker_env \<Rightarrow> phase_command \<Rightarrow> artifact_migration_schedule \<Rightarrow> (string \<times> output_artifact_layout) list \<Rightarrow> 't slots
   \<Rightarrow> migrate_spec list \<Rightarrow> 'v worker \<Rightarrow> 'v worker \<times> py_error option" where
  "assemble_artifacts E c S ls slots [] w = (w, None)"
| "assemble_artifacts E c S ls slots (spec # specs) w =
     (case assemble_artifact E c S ls slots (wk_rank w) spec of
        Inl e \<Rightarrow> (w, Some e)
      | Inr v \<Rightarrow>
          assemble_artifacts E c S ls slots specs
            (w\<lparr>wk_local_artifacts := (wk_local_artifacts w)
                 ((mp_request_id (mc_plan c), g_id (mc_dst_group c), h_artifact_id (mg_handle spec)) \<mapsto> (mg_handle spec, v))\<rparr>))"

text \<open>\<open>slots\<close> holds the tensors of the destination once every posted operation is done.\<close>

definition execute_migration_transfer ::
  "('v, 't) worker_env \<Rightarrow> 't slots \<Rightarrow> phase_command \<Rightarrow> 'v worker \<Rightarrow> 'v worker \<times> mig_result res" where
  "execute_migration_transfer E slots c w =
     (case transfer_setup E c w of
        (w1, Inl e) \<Rightarrow> (w1, Inl e)
      | (w1, Inr (S, vals, ls)) \<Rightarrow>
          (case snd (post_ops E (map_of (rev vals)) (rank_ops (wk_rank w) (ms_edges S))) of
             Some e \<Rightarrow> (w1, Inl e)
           | None \<Rightarrow>
               (case assemble_artifacts E c S ls slots
                       (if wk_rank w \<in> set (g_ranks (mc_dst_group c)) then mp_artifacts (mc_plan c) else []) w1 of
                  (w2, Some e) \<Rightarrow> (w2, Inl e)
                | (w2, None) \<Rightarrow>
                    (w2\<lparr>wk_migration_schedules := (wk_migration_schedules w2)(mc_migrate_id c := None)\<rparr>,
                     Inr (phase_reply c w2)))))"

definition handle_migrate_artifacts ::
  "('v, 't) worker_env \<Rightarrow> 't slots \<Rightarrow> phase_command \<Rightarrow> 'v worker \<Rightarrow> 'v worker" where
  "handle_migrate_artifacts E slots c w =
     (case (case mc_phase c of
              DESCRIBE_LAYOUT \<Rightarrow> describe_migration_layouts E c w
            | BUILD_SCHEDULE \<Rightarrow> build_migration_schedule_result E c w
            | ACCEPT_SCHEDULE \<Rightarrow> accept_migration_schedule c w
            | EXECUTE_TRANSFER \<Rightarrow> execute_migration_transfer E slots c w) of
        (w1, r) \<Rightarrow>
          w1\<lparr>wk_results := wk_results w1 @ [MigrateArtifactsRankResult
             (case r of Inr m \<Rightarrow> m | Inl e \<Rightarrow> (phase_reply c w1)\<lparr>r_error := Some (we_error_text E e)\<rparr>)]\<rparr>)"

section \<open>The command loop\<close>

datatype worker_command =
    PoolCommand pool_command int
  | MigrateArtifactsCommand phase_command
  | ShutdownWorkerCommand
  | RpcCommand
  | OtherCommand

definition handle_command ::
  "('v, 't) worker_env \<Rightarrow> 't slots \<Rightarrow> worker_command \<Rightarrow> 'v worker \<Rightarrow> 'v worker res" where
  "handle_command E slots cmd w =
     (case cmd of
        PoolCommand (DispatchCommand t inl owner rel g) d \<Rightarrow> execute_task E t inl owner rel d (Some g) w
      | PoolCommand (FetchCommand fid rid gid aids) d \<Rightarrow>
          Inr (w\<lparr>wk_fetch_queue := wk_fetch_queue w @ [(fid, rid, gid, aids)]\<rparr>)
      | PoolCommand (EvictCommand rid) d \<Rightarrow> Inr (handle_evict_request rid w)
      | MigrateArtifactsCommand c \<Rightarrow>
          bind_res (ensure_group_spec (mc_src_group c) w) (\<lambda>w1.
          bind_res (ensure_group_spec (mc_dst_group c) w1) (\<lambda>w2.
            Inr (handle_migrate_artifacts E slots c w2)))
      | ShutdownWorkerCommand \<Rightarrow> Inr (w\<lparr>wk_status := Stopped\<rparr>)
      | RpcCommand \<Rightarrow> Inl RuntimeError
      | OtherCommand \<Rightarrow> Inl TypeError)"

text \<open>An exception that reaches the loop ends the process after a last message.\<close>

definition worker_step :: "('v, 't) worker_env \<Rightarrow> 't slots \<Rightarrow> worker_command \<Rightarrow> 'v worker \<Rightarrow> 'v worker" where
  "worker_step E slots cmd w =
     (if wk_status w \<noteq> Serving then w
      else case handle_command E slots cmd w of
        Inr w1 \<Rightarrow> w1
      | Inl e \<Rightarrow>
          w\<lparr>wk_events := wk_events w @ [WorkerReadyMessage (wk_rank w) ''failed'' (we_error_text E e)], wk_status := Failed\<rparr>)"

section \<open>Lemmas\<close>

lemma send_event_eq:
  assumes "t_group_id t = Some gid"
  shows "send_event E t k msg md refs w = Inr (w\<lparr>wk_events := wk_events w @ [WorkerEvent
    \<lparr>e_event_id = we_uuid E (length (wk_events w)), e_task_id = t_id t, e_request_id = t_request_id t, e_group_id = gid,
     e_worker_rank = wk_rank w, e_kind = k, e_timestamp_ns = we_clock E (length (wk_events w)), e_message = msg, e_metadata = md\<rparr> refs]\<rparr>)"
  using assms by (simp add: send_event_def require_task_group_id_def Let_def)

lemma send_event_group: "send_event E t k msg md refs w = Inr w' \<Longrightarrow> \<exists>gid. t_group_id t = Some gid"
  by (auto simp: send_event_def require_task_group_id_def split: option.splits)

text \<open>What an event of a task says: its task, request, group and rank.\<close>

definition task_event :: "task \<Rightarrow> int \<Rightarrow> worker_event_kind \<Rightarrow> pool_event \<Rightarrow> bool" where
  "task_event t r k pe \<longleftrightarrow>
     (case pe of
        WorkerEvent ev refs \<Rightarrow> e_task_id ev = t_id t \<and> e_request_id ev = t_request_id t \<and> t_group_id t = Some (e_group_id ev)
          \<and> e_worker_rank ev = r \<and> e_kind ev = k
      | WorkerReadyMessage _ _ _ \<Rightarrow> False)"

lemma send_event_appends:
  assumes "send_event E t k msg md refs w = Inr w'"
  shows "\<exists>ev. w' = w\<lparr>wk_events := wk_events w @ [WorkerEvent ev refs]\<rparr> \<and> task_event t (wk_rank w) k (WorkerEvent ev refs)"
proof -
  obtain gid where g: "t_group_id t = Some gid" using send_event_group [OF assms] by blast
  then show ?thesis using assms unfolding send_event_eq [OF g] by (auto simp: task_event_def)
qed

lemma resolve_inputs_frame:
  assumes "resolve_inputs E t inl w = Inr (w', ins)"
  shows "wk_events w' = wk_events w \<and> wk_rank w' = wk_rank w"
proof -
  from assms obtain gid where "for_res (resolve_input E gid (request_metadata_for_task t) inl) (w, []) (t_inputs t) = Inr (w', ins)"
    by (auto simp: resolve_inputs_def bind_res_eq_Inr)
  then have "wk_events (fst (w', ins)) = wk_events w \<and> wk_rank (fst (w', ins)) = wk_rank w"
    by (rule for_res_invariant [where P = "\<lambda>s. wk_events (fst s) = wk_events w \<and> wk_rank (fst s) = wk_rank w", rotated -1])
       (auto simp: resolve_input_def Let_def bind_res_eq_Inr split: prod.splits option.splits)
  then show ?thesis by simp
qed

lemma setup_task_frame:
  assumes "setup_task E t g w = Inr (w', gid, ex)"
  shows "wk_events w' = wk_events w \<and> wk_rank w' = wk_rank w \<and> t_group_id t = Some gid \<and> ex = we_executors E (t_kind t)
    \<and> wk_local_artifacts w' = wk_local_artifacts w \<and> wk_group_specs w' = wk_group_specs w"
  using assms
  by (auto simp: setup_task_def activate_group_session_def require_task_group_id_def bind_res_eq_Inr split: option.splits if_splits)

lemma ensure_group_spec_frame:
  assumes "ensure_group_spec g w = Inr w'"
  shows "wk_events w' = wk_events w \<and> wk_rank w' = wk_rank w \<and> wk_local_artifacts w' = wk_local_artifacts w
    \<and> wk_results w' = wk_results w"
  using assms by (auto simp: ensure_group_spec_def Let_def split: option.splits if_splits)

lemma shard_output_artifact_fst: "shard_output_artifact E w gid md av = Inr av' \<Longrightarrow> fst av' = fst av"
  by (auto simp: shard_output_artifact_def bind_res_eq_Inr split: option.splits if_splits)

lemma run_executor_handles:
  assumes "run_executor E t gid ex ins w = Inr outs"
  shows "\<exists>raw. ex t ins = Inr raw \<and> map fst raw = map fst outs"
proof -
  from assms obtain raw where r: "ex t ins = Inr raw"
    "list_all2 (\<lambda>x y. shard_output_artifact E w gid (request_metadata_for_task t) x = Inr y) raw outs"
    by (auto simp: run_executor_def bind_res_eq_Inr map_res_all2)
  have "map fst raw = map fst outs"
    using r(2) by (induction rule: list_all2_induct) (auto dest: shard_output_artifact_fst)
  then show ?thesis using r(1) by blast
qed

lemma store_outputs_dom:
  "wk_local_artifacts (store_outputs gid outs w) k \<noteq> None \<longleftrightarrow>
     wk_local_artifacts w k \<noteq> None \<or> (\<exists>h \<in> fst ` set outs. k = (h_request_id h, gid, h_artifact_id h))"
proof -
  have "fold (\<lambda>(h, v) m. m((h_request_id h, gid, h_artifact_id h) \<mapsto> (h, v))) outs m k \<noteq> None \<longleftrightarrow>
      m k \<noteq> None \<or> (\<exists>h \<in> fst ` set outs. k = (h_request_id h, gid, h_artifact_id h))" for m
    by (induction outs arbitrary: m) auto
  then show ?thesis by (simp add: store_outputs_def)
qed

lemma release_artifacts_dom:
  "wk_local_artifacts (release_artifacts rid gid aids w) k =
     (if k \<in> (\<lambda>aid. (rid, gid, aid)) ` set aids then None else wk_local_artifacts w k)"
proof -
  have "fold (\<lambda>aid m. m((rid, gid, aid) := None)) aids m k = (if k \<in> (\<lambda>aid. (rid, gid, aid)) ` set aids then None else m k)"
    for m :: "local_key \<Rightarrow> (artifact_handle \<times> 'a) option"
    by (induction aids arbitrary: m) auto
  then show ?thesis by (simp add: release_artifacts_def)
qed

lemma worker_frames [simp]:
  "wk_events (store_outputs gid outs w) = wk_events w" "wk_rank (store_outputs gid outs w) = wk_rank w"
  "wk_events (release_artifacts rid gid aids w) = wk_events w" "wk_rank (release_artifacts rid gid aids w) = wk_rank w"
  by (simp_all add: store_outputs_def release_artifacts_def)

definition launched :: "worker_event_kind list" where
  "launched = [TASK_LAUNCH_BEGIN, TASK_EXEC_BEGIN, TASK_LAUNCH_END, TASK_EXEC_END]"

text \<open>A completed task: its outputs are in the table, the released inputs are not, the owner publishes.\<close>

definition task_completed ::
  "task \<Rightarrow> int \<Rightarrow> string list \<Rightarrow> (artifact_handle \<times> 'v) list \<Rightarrow> pool_event list \<Rightarrow> 'v worker \<Rightarrow> bool" where
  "task_completed t owner rel outs evs w \<longleftrightarrow>
     (\<exists>gid ev. t_group_id t = Some gid \<and> evs ! 2 = WorkerEvent ev (published gid owner (wk_rank w) outs)
        \<and> (\<forall>h \<in> fst ` set outs. h_artifact_id h \<notin> set rel \<longrightarrow>
              wk_local_artifacts w (h_request_id h, gid, h_artifact_id h) \<noteq> None)
        \<and> (\<forall>aid \<in> set rel. wk_local_artifacts w (t_request_id t, gid, aid) = None))"

lemma run_task_spec:
  assumes "run_task E t gid ex inl owner rel d w = Inr w'" and "t_group_id t = Some gid"
  shows "\<exists>ks evs. wk_events w' = wk_events w @ evs \<and> wk_rank w' = wk_rank w \<and> list_all2 (task_event t (wk_rank w)) ks evs
    \<and> (ks = [TASK_LAUNCH_BEGIN, TASK_EXEC_BEGIN, TASK_FAILED]
       \<or> ks = launched \<and> (\<exists>ins raw outs. ex t ins = Inr raw \<and> map fst outs = map fst raw \<and> task_completed t owner rel outs evs w'))"
proof -
  from assms(1) obtain w1 ins w2 w3 where 1: "resolve_inputs E t inl w = Inr (w1, ins)"
    and 2: "send_event E t TASK_LAUNCH_BEGIN [] (launch_metadata (we_started E (length (wk_events w))) d) [] w1 = Inr w2"
    and 3: "send_event E t TASK_EXEC_BEGIN [] [] [] w2 = Inr w3"
    and rest: "(case run_executor E t gid ex ins w3 of
         Inl e \<Rightarrow> send_event E t TASK_FAILED (we_error_text E e) [] [] w3
       | Inr outs \<Rightarrow>
           bind_res (send_event E t TASK_LAUNCH_END [] [] (published gid owner (wk_rank w) outs) (store_outputs gid outs w3)) (\<lambda>w4.
             send_event E t TASK_EXEC_END [] [] [] (release_artifacts (t_request_id t) gid rel w4))) = Inr w'"
    unfolding run_task_def by (clarsimp simp: bind_res_eq_Inr split: prod.splits)
  note w1 = resolve_inputs_frame [OF 1]
  obtain e2 where e2: "wk_events w2 = wk_events w @ [WorkerEvent e2 []]" "wk_rank w2 = wk_rank w"
      "task_event t (wk_rank w) TASK_LAUNCH_BEGIN (WorkerEvent e2 [])"
    using send_event_appends [OF 2] w1 by auto
  obtain e3 where e3: "wk_events w3 = wk_events w @ [WorkerEvent e2 [], WorkerEvent e3 []]" "wk_rank w3 = wk_rank w"
      "task_event t (wk_rank w) TASK_EXEC_BEGIN (WorkerEvent e3 [])"
    using send_event_appends [OF 3] e2 by auto
  show ?thesis
  proof (cases "run_executor E t gid ex ins w3")
    case (Inl e)
    with rest obtain e4 where "wk_events w' = wk_events w @ [WorkerEvent e2 [], WorkerEvent e3 [], WorkerEvent e4 []]"
        "wk_rank w' = wk_rank w" "task_event t (wk_rank w) TASK_FAILED (WorkerEvent e4 [])"
      using send_event_appends [of E t TASK_FAILED "we_error_text E e" "[]" "[]" w3 w'] e3 by auto
    then show ?thesis using e2 e3
      by (intro exI [of _ "[TASK_LAUNCH_BEGIN, TASK_EXEC_BEGIN, TASK_FAILED]"]
          exI [of _ "[WorkerEvent e2 [], WorkerEvent e3 [], WorkerEvent e4 []]"]) simp
  next
    case (Inr outs)
    let ?refs = "published gid owner (wk_rank w) outs"
    from rest Inr obtain w4 where 4: "send_event E t TASK_LAUNCH_END [] [] ?refs (store_outputs gid outs w3) = Inr w4"
      and 5: "send_event E t TASK_EXEC_END [] [] [] (release_artifacts (t_request_id t) gid rel w4) = Inr w'"
      by (auto simp: bind_res_eq_Inr)
    obtain e4 where e4: "w4 = (store_outputs gid outs w3)\<lparr>wk_events := wk_events w3 @ [WorkerEvent e4 ?refs]\<rparr>"
        "task_event t (wk_rank w) TASK_LAUNCH_END (WorkerEvent e4 ?refs)"
      using send_event_appends [OF 4] e3(2) by auto
    obtain e5 where e5: "w' = (release_artifacts (t_request_id t) gid rel w4)\<lparr>wk_events := wk_events w4 @ [WorkerEvent e5 []]\<rparr>"
        "task_event t (wk_rank w) TASK_EXEC_END (WorkerEvent e5 [])"
      using send_event_appends [OF 5] e3(2) e4(1) by auto
    let ?evs = "[WorkerEvent e2 [], WorkerEvent e3 [], WorkerEvent e4 ?refs, WorkerEvent e5 []]"
    have ev: "wk_events w' = wk_events w @ ?evs" and rk: "wk_rank w' = wk_rank w"
      using e3 e4(1) e5(1) by simp_all
    have "wk_local_artifacts w' k = wk_local_artifacts (release_artifacts (t_request_id t) gid rel (store_outputs gid outs w3)) k" for k
      using e4(1) e5(1) by (simp add: release_artifacts_def)
    note table = this [unfolded release_artifacts_dom]
    have stored: "wk_local_artifacts (store_outputs gid outs w3) (h_request_id h, gid, h_artifact_id h) \<noteq> None"
      if "h \<in> fst ` set outs" for h using that store_outputs_dom by blast
    have "(h_request_id h, gid, h_artifact_id h) \<notin> (\<lambda>aid. (t_request_id t, gid, aid)) ` set rel"
      if "h_artifact_id h \<notin> set rel" for h using that by auto
    then have "task_completed t owner rel outs ?evs w'"
      using assms(2) rk stored unfolding task_completed_def table
      by (intro exI [of _ gid] exI [of _ e4]) auto
    moreover obtain raw where "ex t ins = Inr raw" "map fst outs = map fst raw" using run_executor_handles [OF Inr] by metis
    moreover have "list_all2 (task_event t (wk_rank w)) launched ?evs" using e2(3) e3(3) e4(2) e5(2) by (simp add: launched_def)
    ultimately show ?thesis using ev rk by blast
  qed
qed

lemma execute_task_spec:
  assumes "execute_task E t inl owner rel d g w = Inr w'"
  shows "\<exists>ks evs. wk_events w' = wk_events w @ evs \<and> wk_rank w' = wk_rank w \<and> list_all2 (task_event t (wk_rank w)) ks evs
    \<and> (ks = [TASK_FAILED] \<or> ks = [TASK_LAUNCH_BEGIN, TASK_EXEC_BEGIN, TASK_FAILED]
       \<or> ks = launched \<and> (\<exists>ex ins raw outs. we_executors E (t_kind t) = Some ex \<and> ex t ins = Inr raw
            \<and> map fst outs = map fst raw \<and> task_completed t owner rel outs evs w'))"
proof -
  from assms obtain w1 where 1: "(case g of None \<Rightarrow> Inr w | Some gs \<Rightarrow> ensure_group_spec gs w) = Inr w1"
    and rest: "(case setup_task E t g w1 of
         Inl e \<Rightarrow> send_event E t TASK_FAILED (''task setup failed: '' @ we_error_text E e) [] [] w1
       | Inr (w2, gid, None) \<Rightarrow>
           send_event E t TASK_FAILED (''worker does not support task kind '' @ we_kind_text E (t_kind t)) [] [] w2
       | Inr (w2, gid, Some ex) \<Rightarrow> run_task E t gid ex inl owner rel d w2) = Inr w'"
    by (auto simp: execute_task_def bind_res_eq_Inr split: if_splits)
  have w1: "wk_events w1 = wk_events w" "wk_rank w1 = wk_rank w"
    using 1 ensure_group_spec_frame by (auto split: option.splits)
  have failed: ?thesis if "send_event E t TASK_FAILED msg [] [] w2 = Inr w'" "wk_events w2 = wk_events w" "wk_rank w2 = wk_rank w" for msg w2
    using send_event_appends [OF that(1)] that(2,3) by (intro exI [of _ "[TASK_FAILED]"]) auto
  show ?thesis
  proof (cases "setup_task E t g w1")
    case (Inl e)
    then show ?thesis using failed rest w1 by auto
  next
    case (Inr r)
    then obtain w2 gid ex where r: "setup_task E t g w1 = Inr (w2, gid, ex)" by (cases r) auto
    note w2 = setup_task_frame [OF r]
    show ?thesis
    proof (cases ex)
      case None
      then show ?thesis using failed rest w1 w2 r by auto
    next
      case (Some x)
      then have run: "run_task E t gid x inl owner rel d w2 = Inr w'" using rest r by simp
      have x: "we_executors E (t_kind t) = Some x" using w2 Some by simp
      from run_task_spec [OF run] w2 obtain ks evs where k: "wk_events w' = wk_events w2 @ evs" "wk_rank w' = wk_rank w2"
          "list_all2 (task_event t (wk_rank w2)) ks evs"
          "ks = [TASK_LAUNCH_BEGIN, TASK_EXEC_BEGIN, TASK_FAILED]
           \<or> ks = launched \<and> (\<exists>ins raw outs. x t ins = Inr raw \<and> map fst outs = map fst raw \<and> task_completed t owner rel outs evs w')"
        by blast
      have "wk_events w' = wk_events w @ evs \<and> wk_rank w' = wk_rank w \<and> list_all2 (task_event t (wk_rank w)) ks evs"
        using k(1-3) w1 w2 by simp
      then show ?thesis using k(4) x by blast
    qed
  qed
qed

text \<open>
  A worker reports every dispatched task that does not kill the process in one of three ways,
  all with its own rank and the identity of the task: a failure before the launch; launch and
  execution begin and then a failure; or begin and end of launch and execution. In the last case
  its table holds every output that is not released, none of the released inputs, and the event
  of the launch end publishes the outputs exactly when the rank owns the results.
\<close>

theorem task_reports_well_formed:
  assumes "execute_task E t inl owner rel d g w = Inr w'"
  shows "\<exists>ks evs. wk_events w' = wk_events w @ evs \<and> list_all2 (task_event t (wk_rank w)) ks evs
    \<and> (ks = [TASK_FAILED] \<or> ks = [TASK_LAUNCH_BEGIN, TASK_EXEC_BEGIN, TASK_FAILED]
       \<or> ks = launched \<and> (\<exists>outs. task_completed t owner rel outs evs w'))"
  using execute_task_spec [OF assms] by blast

section \<open>Answers to migration commands\<close>

text \<open>Within a phase only sessions and schedules change, and local artifacts under the key of the destination.\<close>

definition phase_keeps :: "phase_command \<Rightarrow> 'v worker \<Rightarrow> 'v worker \<Rightarrow> bool" where
  "phase_keeps c w w' \<longleftrightarrow>
     wk_rank w' = wk_rank w \<and> wk_results w' = wk_results w \<and> wk_events w' = wk_events w \<and> wk_status w' = wk_status w
     \<and> (\<forall>k. wk_local_artifacts w' k \<noteq> wk_local_artifacts w k \<longrightarrow>
          mc_phase c = EXECUTE_TRANSFER \<and> fst k = mp_request_id (mc_plan c) \<and> fst (snd k) = g_id (mc_dst_group c)
          \<and> wk_rank w \<in> set (g_ranks (mc_dst_group c)))"

definition answers :: "phase_command \<Rightarrow> 'v worker \<Rightarrow> mig_result res \<Rightarrow> bool" where
  "answers c w r \<longleftrightarrow> (\<forall>m. r = Inr m \<longrightarrow> r_mid m = mc_migrate_id c \<and> r_phase m = mc_phase c \<and> r_rank m = wk_rank w \<and> r_error m = None)"

lemma phase_keeps_refl [simp]: "phase_keeps c w w"
  by (simp add: phase_keeps_def)

lemma phase_keeps_trans: "phase_keeps c w w1 \<Longrightarrow> phase_keeps c w1 w2 \<Longrightarrow> phase_keeps c w w2"
  unfolding phase_keeps_def by metis

lemma session_keeps: "maybe_activate_group_session gid w = Inr w1 \<Longrightarrow> phase_keeps c w w1"
  by (auto simp: maybe_activate_group_session_def activate_group_session_def phase_keeps_def split: if_splits)

lemma with_session_cases:
  assumes "with_session gid k w = (w', r)"
  obtains e where "w' = w" "r = Inl e" | w1 where "maybe_activate_group_session gid w = Inr w1" "k w1 = (w', r)"
  using assms by (auto simp: with_session_def split: sum.splits)

lemma phase_reply_answers [simp]:
  "answers c w (Inr (phase_reply c w))" "wk_rank w' = wk_rank w \<Longrightarrow> answers c w (Inr (phase_reply c w'))"
  "wk_rank w' = wk_rank w \<Longrightarrow> answers c w (Inr ((phase_reply c w')\<lparr>r_src_layouts := a\<rparr>))"
  "wk_rank w' = wk_rank w \<Longrightarrow> answers c w (Inr ((phase_reply c w')\<lparr>r_src_layouts := a, r_dst_layouts := b\<rparr>))"
  "wk_rank w' = wk_rank w \<Longrightarrow> answers c w (Inr ((phase_reply c w')\<lparr>r_schedule := s, r_metadata_payloads := p\<rparr>))"
  "answers c w (Inl e)"
  by (simp_all add: answers_def phase_reply_def)

lemma phase_keeps_rank: "phase_keeps c w w' \<Longrightarrow> wk_rank w' = wk_rank w"
  by (simp add: phase_keeps_def)

definition phase_sound :: "phase_command \<Rightarrow> 'v worker \<Rightarrow> 'v worker \<times> mig_result res \<Rightarrow> bool" where
  "phase_sound c w x \<longleftrightarrow> phase_keeps c w (fst x) \<and> answers c w (snd x)"

lemma with_session_sound:
  assumes "\<And>w1. phase_keeps c w w1 \<Longrightarrow> phase_sound c w (k w1)"
  shows "phase_sound c w (with_session gid k w)"
proof (cases "maybe_activate_group_session gid w")
  case (Inl e)
  then show ?thesis by (simp add: with_session_def phase_sound_def)
next
  case (Inr w1)
  then show ?thesis using assms [OF session_keeps [OF Inr]] by (simp add: with_session_def)
qed

lemma phase_sound_trans: "phase_keeps c w w1 \<Longrightarrow> phase_sound c w1 x \<Longrightarrow> phase_sound c w x"
  unfolding phase_sound_def using phase_keeps_trans by (auto simp: answers_def phase_keeps_rank)

lemma describe_sound: "phase_sound c w (describe_migration_layouts E c w)"
proof -
  let ?specs = "mp_artifacts (mc_plan c)"
  have dst: "phase_sound c w (with_session (g_id (mc_dst_group c)) (\<lambda>w2.
      (w2, bind_res (map_res (describe_destination E c w2) ?specs) (\<lambda>dsts.
         Inr ((phase_reply c w2)\<lparr>r_src_layouts := srcs, r_dst_layouts := dsts\<rparr>)))) w1)" if "phase_keeps c w w1" for srcs w1
  proof (rule phase_sound_trans [OF that], rule with_session_sound)
    fix w2 assume k: "phase_keeps c w1 w2"
    show "phase_sound c w1 (w2, bind_res (map_res (describe_destination E c w2) ?specs) (\<lambda>dsts.
         Inr ((phase_reply c w2)\<lparr>r_src_layouts := srcs, r_dst_layouts := dsts\<rparr>)))"
      using k phase_keeps_rank [OF k] by (cases "map_res (describe_destination E c w2) ?specs") (auto simp: phase_sound_def)
  qed
  have "phase_sound c w (w1, Inr ((phase_reply c w1)\<lparr>r_src_layouts := srcs\<rparr>))" if k: "phase_keeps c w w1" for srcs w1
    using k phase_keeps_rank [OF k] by (simp add: phase_sound_def)
  then show ?thesis
    unfolding describe_migration_layouts_def Let_def
    by (auto intro!: with_session_sound split: sum.split simp: dst) (auto simp: phase_sound_def)
qed

lemma build_sound: "phase_sound c w (build_migration_schedule_result E c w)"
proof -
  have upd: "phase_sound c w (w1\<lparr>wk_migration_schedules := m\<rparr>, Inr ((phase_reply c w1)\<lparr>r_schedule := s, r_metadata_payloads := p\<rparr>))"
    if k: "phase_keeps c w w1" for w1 m s p
    using k phase_keeps_rank [OF k] by (auto simp: phase_sound_def phase_keeps_def)
  have err: "phase_sound c w (w1, Inl e)" if "phase_keeps c w w1" for w1 e
    using that by (simp add: phase_sound_def)
  show ?thesis
    unfolding build_migration_schedule_result_def
    by (auto intro!: with_session_sound upd err split: list.split sum.split)
qed

lemma accept_sound: "phase_sound c w (accept_migration_schedule c w)"
  by (auto simp: accept_migration_schedule_def phase_sound_def phase_keeps_def answers_def phase_reply_def split: option.split)

lemma with_session_keeps:
  assumes "\<And>w1. phase_keeps c w w1 \<Longrightarrow> phase_keeps c w (fst (k w1))"
  shows "phase_keeps c w (fst (with_session gid k w))"
proof (cases "maybe_activate_group_session gid w")
  case (Inr w1)
  then show ?thesis using assms [OF session_keeps [OF Inr]] by (simp add: with_session_def)
qed (simp add: with_session_def)

lemma transfer_setup_keeps: "phase_keeps c w (fst (transfer_setup E c w))"
proof -
  have dst: "phase_keeps c w (fst (with_session gid (\<lambda>w2. (w2, f w2)) w1))" if "phase_keeps c w w1" for gid f w1
    by (rule phase_keeps_trans [OF that], rule with_session_keeps) simp
  show ?thesis
    unfolding transfer_setup_def Let_def
    by (auto intro!: with_session_keeps dst split: option.split sum.split)
qed

lemma assemble_artifacts_spec:
  assumes "assemble_artifacts E c S ls slots specs w = (w', err)" and "mc_phase c = EXECUTE_TRANSFER"
    and "specs \<noteq> [] \<Longrightarrow> wk_rank w \<in> set (g_ranks (mc_dst_group c))"
  shows "phase_keeps c w w' \<and> (err = None \<longrightarrow> (\<forall>k. wk_local_artifacts w k \<noteq> None \<longrightarrow> wk_local_artifacts w' k \<noteq> None)
     \<and> (\<forall>spec \<in> set specs. wk_local_artifacts w' (mp_request_id (mc_plan c), g_id (mc_dst_group c), h_artifact_id (mg_handle spec)) \<noteq> None))"
  using assms
proof (induction specs arbitrary: w)
  case (Cons spec specs)
  show ?case
  proof (cases "assemble_artifact E c S ls slots (wk_rank w) spec")
    case (Inl e)
    then show ?thesis using Cons.prems(1) by auto
  next
    case (Inr v)
    define k where "k = (mp_request_id (mc_plan c), g_id (mc_dst_group c), h_artifact_id (mg_handle spec))"
    define w1 where "w1 = w\<lparr>wk_local_artifacts := (wk_local_artifacts w)(k \<mapsto> (mg_handle spec, v))\<rparr>"
    have k: "phase_keeps c w w1"
      using Cons.prems(2,3) by (auto simp: phase_keeps_def w1_def k_def)
    have "assemble_artifacts E c S ls slots specs w1 = (w', err)" using Cons.prems(1) Inr by (simp add: w1_def k_def)
    from Cons.IH [OF this Cons.prems(2)] Cons.prems(3) have ih: "phase_keeps c w1 w' \<and> (err = None \<longrightarrow> (\<forall>k. wk_local_artifacts w1 k \<noteq> None \<longrightarrow> wk_local_artifacts w' k \<noteq> None)
     \<and> (\<forall>spec \<in> set specs. wk_local_artifacts w' (mp_request_id (mc_plan c), g_id (mc_dst_group c), h_artifact_id (mg_handle spec)) \<noteq> None))"
      by (simp add: w1_def)
    moreover have "wk_local_artifacts w1 k \<noteq> None" "wk_local_artifacts w k' \<noteq> None \<Longrightarrow> wk_local_artifacts w1 k' \<noteq> None" for k'
      by (auto simp: w1_def)
    ultimately show ?thesis using phase_keeps_trans [OF k] by (auto simp: k_def)
  qed
qed auto

lemma execute_transfer_spec:
  assumes "execute_migration_transfer E slots c w = (w', r)" and "mc_phase c = EXECUTE_TRANSFER"
  shows "phase_sound c w (w', r) \<and> (\<forall>m. r = Inr m \<longrightarrow> wk_rank w \<in> set (g_ranks (mc_dst_group c)) \<longrightarrow>
    (\<forall>spec \<in> set (mp_artifacts (mc_plan c)).
       wk_local_artifacts w' (mp_request_id (mc_plan c), g_id (mc_dst_group c), h_artifact_id (mg_handle spec)) \<noteq> None))"
proof -
  obtain w1 x where st: "transfer_setup E c w = (w1, x)" by fastforce
  have k1: "phase_keeps c w w1" using transfer_setup_keeps [of c w E] st by simp
  show ?thesis
  proof (cases "\<exists>e. r = Inl e \<and> w' = w1")
    case True
    then show ?thesis using k1 by (auto simp: phase_sound_def)
  next
    case False
    then obtain S vals ls w2 err where x: "x = Inr (S, vals, ls)"
      and a: "assemble_artifacts E c S ls slots (if wk_rank w \<in> set (g_ranks (mc_dst_group c)) then mp_artifacts (mc_plan c) else []) w1 = (w2, err)"
      and r: "err = None \<and> w' = w2\<lparr>wk_migration_schedules := (wk_migration_schedules w2)(mc_migrate_id c := None)\<rparr> \<and> r = Inr (phase_reply c w2)
        \<or> (\<exists>e. err = Some e \<and> w' = w2 \<and> r = Inl e)"
      using assms(1) st unfolding execute_migration_transfer_def by (auto split: sum.splits option.splits prod.splits)
    have "wk_rank w1 \<in> set (g_ranks (mc_dst_group c))"
      if "(if wk_rank w \<in> set (g_ranks (mc_dst_group c)) then mp_artifacts (mc_plan c) else []) \<noteq> []"
      using that phase_keeps_rank [OF k1] by (simp split: if_splits)
    then have spec: "phase_keeps c w1 w2 \<and> (err = None \<longrightarrow> (\<forall>spec \<in> set (if wk_rank w \<in> set (g_ranks (mc_dst_group c)) then mp_artifacts (mc_plan c) else []).
        wk_local_artifacts w2 (mp_request_id (mc_plan c), g_id (mc_dst_group c), h_artifact_id (mg_handle spec)) \<noteq> None))"
      using assemble_artifacts_spec [OF a assms(2)] by blast
    then have k: "phase_keeps c w w2" using phase_keeps_trans [OF k1] by blast
    then have "phase_keeps c w (w2\<lparr>wk_migration_schedules := m\<rparr>)" for m by (auto simp: phase_keeps_def)
    then show ?thesis using r k spec phase_keeps_rank [OF k] by (auto simp: phase_sound_def)
  qed
qed

text \<open>
  A worker answers every migration command exactly once, with the id and phase of the command
  and its own rank, also when the phase raises; no phase sends events or touches artifacts, except
  that the transfer adds those of the plan under the destination group on the destination ranks,
  and a destination rank that reports a transfer without error holds all of them.
\<close>

theorem migration_command_answered:
  assumes "handle_command E slots (MigrateArtifactsCommand c) w = Inr w'"
  shows "\<exists>m. wk_results w' = wk_results w @ [MigrateArtifactsRankResult m]
    \<and> r_mid m = mc_migrate_id c \<and> r_phase m = mc_phase c \<and> r_rank m = wk_rank w
    \<and> wk_events w' = wk_events w
    \<and> (\<forall>k. wk_local_artifacts w' k \<noteq> wk_local_artifacts w k \<longrightarrow>
         mc_phase c = EXECUTE_TRANSFER \<and> fst k = mp_request_id (mc_plan c) \<and> fst (snd k) = g_id (mc_dst_group c)
         \<and> wk_rank w \<in> set (g_ranks (mc_dst_group c)))
    \<and> (mc_phase c = EXECUTE_TRANSFER \<longrightarrow> r_error m = None \<longrightarrow> wk_rank w \<in> set (g_ranks (mc_dst_group c)) \<longrightarrow>
         (\<forall>spec \<in> set (mp_artifacts (mc_plan c)).
            wk_local_artifacts w' (mp_request_id (mc_plan c), g_id (mc_dst_group c), h_artifact_id (mg_handle spec)) \<noteq> None))"
proof -
  from assms obtain w1 w2 where g: "ensure_group_spec (mc_src_group c) w = Inr w1" "ensure_group_spec (mc_dst_group c) w1 = Inr w2"
    and w': "w' = handle_migrate_artifacts E slots c w2"
    by (auto simp: handle_command_def bind_res_eq_Inr)
  have f: "wk_events w2 = wk_events w" "wk_rank w2 = wk_rank w" "wk_local_artifacts w2 = wk_local_artifacts w" "wk_results w2 = wk_results w"
    using ensure_group_spec_frame [OF g(1)] ensure_group_spec_frame [OF g(2)] by simp_all
  obtain w3 r where p: "(case mc_phase c of
              DESCRIBE_LAYOUT \<Rightarrow> describe_migration_layouts E c w2
            | BUILD_SCHEDULE \<Rightarrow> build_migration_schedule_result E c w2
            | ACCEPT_SCHEDULE \<Rightarrow> accept_migration_schedule c w2
            | EXECUTE_TRANSFER \<Rightarrow> execute_migration_transfer E slots c w2) = (w3, r)" by fastforce
  have sound: "phase_sound c w2 (w3, r)"
    using p describe_sound [of c w2 E] build_sound [of c w2 E] accept_sound [of c w2] execute_transfer_spec [of E slots c w2]
    by (auto split: phase.splits)
  define m where "m = (case r of Inr m \<Rightarrow> m | Inl e \<Rightarrow> (phase_reply c w3)\<lparr>r_error := Some (we_error_text E e)\<rparr>)"
  have w': "w' = w3\<lparr>wk_results := wk_results w3 @ [MigrateArtifactsRankResult m]\<rparr>"
    unfolding w' handle_migrate_artifacts_def p by (simp add: m_def)
  have keeps: "phase_keeps c w2 w3" and rk: "wk_rank w3 = wk_rank w2" using sound phase_keeps_rank by (auto simp: phase_sound_def)
  have m: "r_mid m = mc_migrate_id c \<and> r_phase m = mc_phase c \<and> r_rank m = wk_rank w"
    using sound rk f(2) by (cases r) (auto simp: m_def phase_sound_def answers_def phase_reply_def)
  have ok: "\<exists>m'. r = Inr m'" if "r_error m = None" using that by (cases r) (auto simp: m_def)
  have "wk_local_artifacts w3 (mp_request_id (mc_plan c), g_id (mc_dst_group c), h_artifact_id (mg_handle spec)) \<noteq> None"
    if "mc_phase c = EXECUTE_TRANSFER" "r_error m = None" "wk_rank w \<in> set (g_ranks (mc_dst_group c))" "spec \<in> set (mp_artifacts (mc_plan c))" for spec
    using execute_transfer_spec [of E slots c w2 w3 r] p that ok f(2) by auto
  then show ?thesis using m keeps f by (intro exI [of _ m]) (auto simp: w' phase_keeps_def)
qed

section \<open>Concrete runs\<close>

text \<open>Values are strings; a task writes \<open>''out''\<close> into each of its outputs.\<close>

definition ex_codec :: "string codec" where
  "ex_codec = \<lparr>cd_describe = (\<lambda>g i md a. Inr \<lparr>ol_handle = a, ol_tensors = [ex_full]\<rparr>), cd_extra_fields = (\<lambda>v l. []),
     cd_pack = (\<lambda>v l. Inr PyNone), cd_assemble = (\<lambda>p ts l. Inr ''assembled'')\<rparr>"

definition ex_env :: "(string, int) worker_env" where
  "ex_env = \<lparr>we_executors = (\<lambda>k. Some (\<lambda>t ins. Inr (map (\<lambda>h. (h, ''out'')) (t_outputs t)))),
     we_codecs = (\<lambda>c. if c = ''c'' then Some ex_codec else None),
     we_materialize = (\<lambda>g i md a v. Inr v), we_shard = (\<lambda>g i md a v. Inr v),
     we_read_tensor = (\<lambda>v p. Inr \<lparr>tn_shape = [2], tn_dtype = ''f16'', tn_data = (\<lambda>_. 0)\<rparr>),
     we_tensor_value = (\<lambda>t. ''tensor''), we_known_dtype = ex_known, we_load = (\<lambda>x. ''in''), we_dump = (\<lambda>v. v),
     we_error_text = (\<lambda>e. ''error''), we_kind_text = task_kind_value, we_clock = int, we_started = int, we_uuid = (\<lambda>n. ''u'')\<rparr>"

definition ex_worker :: "int \<Rightarrow> string worker" where
  "ex_worker r = \<lparr>wk_rank = r, wk_group_specs = (\<lambda>_. None), wk_fixed_session = True, wk_fixed_sessions = {}, wk_active_session = None,
     wk_local_artifacts = (\<lambda>k. if k = (''r'', ''s'', ''state'') then Some (ex_handle, ''held'') else None),
     wk_migration_schedules = (\<lambda>_. None), wk_events = [], wk_results = [], wk_fetch_queue = [], wk_status = Serving\<rparr>"

definition ex_wide_task :: task where
  "ex_wide_task = (ex_task ''t1'' ''a'')\<lparr>t_parallel := g_parallel (ex_group ''a'' [0, 1]), t_outputs := [ex_handle]\<rparr>"

definition ex_done_worker :: "int \<Rightarrow> string worker" where
  "ex_done_worker r =
     (case execute_task ex_env ex_wide_task [] 0 [] 0 (Some (ex_group ''a'' [0, 1])) (ex_worker r) of Inr w \<Rightarrow> w | Inl _ \<Rightarrow> ex_worker r)"

lemma ex_execute:
  "execute_task ex_env ex_wide_task [] 0 [] 0 (Some (ex_group ''a'' [0, 1])) (ex_worker 0) = Inr (ex_done_worker 0)"
  "execute_task ex_env ex_wide_task [] 0 [] 0 (Some (ex_group ''a'' [0, 1])) (ex_worker 1) = Inr (ex_done_worker 1)"
proof -
  have "case execute_task ex_env ex_wide_task [] 0 [] 0 (Some (ex_group ''a'' [0, 1])) (ex_worker 0) of Inl _ \<Rightarrow> False | Inr _ \<Rightarrow> True"
    "case execute_task ex_env ex_wide_task [] 0 [] 0 (Some (ex_group ''a'' [0, 1])) (ex_worker 1) of Inl _ \<Rightarrow> False | Inr _ \<Rightarrow> True"
    by code_simp+
  then show "execute_task ex_env ex_wide_task [] 0 [] 0 (Some (ex_group ''a'' [0, 1])) (ex_worker 0) = Inr (ex_done_worker 0)"
    "execute_task ex_env ex_wide_task [] 0 [] 0 (Some (ex_group ''a'' [0, 1])) (ex_worker 1) = Inr (ex_done_worker 1)"
    by (auto simp: ex_done_worker_def split: sum.splits)
qed

theorem task_reports_well_formed_witness:
  "\<exists>outs evs. wk_events (ex_done_worker 0) = evs \<and> list_all2 (task_event ex_wide_task 0) launched evs
     \<and> task_completed ex_wide_task 0 [] outs evs (ex_done_worker 0)"
proof -
  have "length (wk_events (ex_done_worker 0)) = 4" "wk_events (ex_worker 0) = []" "wk_rank (ex_worker 0) = 0" by code_simp+
  with task_reports_well_formed [OF ex_execute(1)] show ?thesis
    by (auto dest: list_all2_lengthD)
qed

definition ex_phase_command :: "phase \<Rightarrow> phase_command" where
  "ex_phase_command ph = \<lparr>mc_migrate_id = ''m'', mc_plan = mc_plan ex_command, mc_src_group = mc_src_group ex_command,
     mc_dst_group = mc_dst_group ex_command, mc_layout_results = mc_layout_results ex_command,
     mc_phase = ph, mc_schedule = Some ex_schedule, mc_metadata_payloads = [payload_entry ''state'' PyNone]\<rparr>"

definition ex_received :: "string worker" where
  "ex_received = (case handle_command ex_env ex_slots (MigrateArtifactsCommand (ex_phase_command EXECUTE_TRANSFER)) (ex_worker 2) of
     Inr w \<Rightarrow> w | Inl _ \<Rightarrow> ex_worker 2)"

theorem migration_command_answered_witness:
  "wk_local_artifacts ex_received (''r'', ''d'', ''state'') \<noteq> None
   \<and> (\<exists>m. wk_results ex_received = [MigrateArtifactsRankResult m] \<and> r_rank m = 2 \<and> r_error m = None)"
proof -
  let ?c = "ex_phase_command EXECUTE_TRANSFER"
  have "case handle_command ex_env ex_slots (MigrateArtifactsCommand ?c) (ex_worker 2) of
      Inl _ \<Rightarrow> False | Inr w \<Rightarrow> length (wk_results w) = 1
        \<and> (\<forall>x \<in> set (wk_results w). case x of MigrateArtifactsRankResult m \<Rightarrow> r_error m = None | _ \<Rightarrow> False)" by code_simp
  then obtain y where h: "handle_command ex_env ex_slots (MigrateArtifactsCommand ?c) (ex_worker 2) = Inr ex_received"
    and y: "wk_results ex_received = [y]" "case y of MigrateArtifactsRankResult m \<Rightarrow> r_error m = None | _ \<Rightarrow> False"
    by (auto simp: ex_received_def length_Suc_conv split: sum.splits)
  from y obtain m where m: "wk_results ex_received = [MigrateArtifactsRankResult m]" "r_error m = None" by (cases y) simp_all
  have c: "mc_phase ?c = EXECUTE_TRANSFER" "wk_rank (ex_worker 2) \<in> set (g_ranks (mc_dst_group ?c))" "wk_results (ex_worker 2) = []"
    "map (\<lambda>s. h_artifact_id (mg_handle s)) (mp_artifacts (mc_plan ?c)) = [''state'']" "mp_request_id (mc_plan ?c) = ''r''"
    "g_id (mc_dst_group ?c) = ''d''" "wk_rank (ex_worker 2) = 2" by code_simp+
  from migration_command_answered [OF h] m c(3) have a: "r_rank m = wk_rank (ex_worker 2)"
    "\<forall>spec \<in> set (mp_artifacts (mc_plan ?c)). wk_local_artifacts ex_received
        (mp_request_id (mc_plan ?c), g_id (mc_dst_group ?c), h_artifact_id (mg_handle spec)) \<noteq> None"
    using c(1,2) by auto
  then show ?thesis using c m by (auto simp: map_eq_Cons_conv)
qed

end
