(* ===== verification/Cluster.thy ===== *)
theory Cluster
  imports WorkerProcess
begin

text \<open>
  The worker pool together with its worker processes: what the ranks of a group do with one
  dispatch and what the scheduler gets from it, a fetch from the request to the answer, and a
  transfer between groups whose request has been evicted.
\<close>

section \<open>Published outputs\<close>

text \<open>The launch-end reports among the events a worker has sent since \<open>w\<close>.\<close>

fun launch_report :: "pool_event \<Rightarrow> rank_event option" where
  "launch_report (WorkerEvent ev refs) = (if e_kind ev = TASK_LAUNCH_END then Some (ev, refs) else None)"
| "launch_report (WorkerReadyMessage r st m) = None"

definition launch_ends :: "'v worker \<Rightarrow> 'v worker \<Rightarrow> rank_event list" where
  "launch_ends w w' = List.map_filter launch_report (drop (length (wk_events w)) (wk_events w'))"

lemma task_eventE:
  assumes "task_event t r k pe"
  obtains ev refs where "pe = WorkerEvent ev refs" "e_task_id ev = t_id t" "t_group_id t = Some (e_group_id ev)"
    "e_worker_rank ev = r" "e_kind ev = k"
  using assms by (cases pe) (auto simp: task_event_def)

text \<open>What a completed launch leaves: its report, the handles its executor returned, its artifacts.\<close>

definition launch_done ::
  "('v, 't) worker_env \<Rightarrow> task \<Rightarrow> string \<Rightarrow> int \<Rightarrow> string list \<Rightarrow> 'v worker \<Rightarrow> 'v worker \<Rightarrow> worker_event \<times> artifact_handle list \<Rightarrow> bool" where
  "launch_done E t gid owner rel w w' x \<longleftrightarrow>
     (case x of (ev, hs) \<Rightarrow>
        launch_ends w w' = [(ev, if wk_rank w = owner then map (\<lambda>h. \<lparr>wr_handle = h, wr_group_id = gid, wr_worker_rank = owner\<rparr>) hs else [])]
        \<and> e_task_id ev = t_id t \<and> e_worker_rank ev = wk_rank w \<and> e_kind ev = TASK_LAUNCH_END
        \<and> (\<exists>ex ins raw. we_executors E (t_kind t) = Some ex \<and> ex t ins = Inr raw \<and> hs = map fst raw)
        \<and> (\<forall>h \<in> set hs. h_artifact_id h \<notin> set rel \<longrightarrow> wk_local_artifacts w' (h_request_id h, gid, h_artifact_id h) \<noteq> None))"

lemma launch_ends_completed:
  assumes run: "execute_task E t inl owner rel d g w = Inr w'" and le: "launch_ends w w' \<noteq> []" and gid: "t_group_id t = Some gid"
  shows "\<exists>x. launch_done E t gid owner rel w w' x"
proof -
  from execute_task_spec [OF run] obtain ks evs where k: "wk_events w' = wk_events w @ evs" "wk_rank w' = wk_rank w"
    "list_all2 (task_event t (wk_rank w)) ks evs"
    and c: "ks = [TASK_FAILED] \<or> ks = [TASK_LAUNCH_BEGIN, TASK_EXEC_BEGIN, TASK_FAILED]
       \<or> ks = launched \<and> (\<exists>ex ins raw outs. we_executors E (t_kind t) = Some ex \<and> ex t ins = Inr raw
            \<and> map fst outs = map fst raw \<and> task_completed t owner rel outs evs w')" by blast
  have lr: "launch_report pe = None" if "task_event t r k' pe" "k' \<noteq> TASK_LAUNCH_END" for pe r k'
    using that by (auto elim: task_eventE)
  have les: "launch_ends w w' = List.map_filter launch_report evs" by (simp add: launch_ends_def k(1))
  have "ks \<noteq> [TASK_FAILED]" "ks \<noteq> [TASK_LAUNCH_BEGIN, TASK_EXEC_BEGIN, TASK_FAILED]"
    using le k(3) unfolding les by (auto simp: list_all2_Cons1 map_filter_simps lr)
  with c obtain ex ins raw outs where ks: "ks = launched" and ex: "we_executors E (t_kind t) = Some ex" "ex t ins = Inr raw"
      "map fst outs = map fst raw" "task_completed t owner rel outs evs w'" by blast
  from k(3) ks obtain a b p q where evs: "evs = [a, b, p, q]"
      and te: "task_event t (wk_rank w) TASK_LAUNCH_BEGIN a" "task_event t (wk_rank w) TASK_EXEC_BEGIN b"
        "task_event t (wk_rank w) TASK_LAUNCH_END p" "task_event t (wk_rank w) TASK_EXEC_END q"
    by (auto simp: launched_def list_all2_Cons1)
  from ex(4) gid k(2) obtain ev where ev: "p = WorkerEvent ev (published gid owner (wk_rank w) outs)"
      and st: "\<forall>h \<in> fst ` set outs. h_artifact_id h \<notin> set rel \<longrightarrow> wk_local_artifacts w' (h_request_id h, gid, h_artifact_id h) \<noteq> None"
    by (auto simp: task_completed_def evs)
  have "e_task_id ev = t_id t \<and> e_worker_rank ev = wk_rank w \<and> e_kind ev = TASK_LAUNCH_END"
    using te(3) by (auto simp: ev task_event_def)
  moreover have "launch_ends w w' = [(ev, published gid owner (wk_rank w) outs)]"
    using te calculation by (simp add: les evs map_filter_simps lr ev)
  moreover have "published gid owner (wk_rank w) outs
      = (if wk_rank w = owner then map (\<lambda>h. \<lparr>wr_handle = h, wr_group_id = gid, wr_worker_rank = owner\<rparr>) (map fst raw) else [])"
    unfolding ex(3) [symmetric] by (auto simp: published_def)
  moreover have "set (map fst raw) = fst ` set outs" unfolding ex(3) [symmetric] by simp
  ultimately have "launch_done E t gid owner rel w w' (ev, map fst raw)"
    using st ex(1,2) unfolding launch_done_def by auto
  then show ?thesis by blast
qed

text \<open>
  C26: When a task is dispatched to a group and every rank launches it, the scheduler gets one event
  for the launch, whatever the order in which the ranks report, and every reference it publishes
  names the group and its leader and an artifact that every rank of the group holds - provided the
  executors of the ranks agree on the artifacts they produce, and the artifact is not one of the
  inputs released with the task.
\<close>

theorem published_outputs_on_all_ranks:
  fixes ws ws' :: "int \<Rightarrow> 'v worker"
  assumes d: "pool_dispatch T t inl rel p = Inr p1" "t_group_id t = Some gid" "get_group T gid = Inr g"
    and run: "\<forall>r \<in> set (g_ranks g). wk_rank (ws r) = r
        \<and> execute_task (E r) t inl (hd (g_ranks g)) rel dt (Some g) (ws r) = Inr (ws' r) \<and> launch_ends (ws r) (ws' r) \<noteq> []"
    and spmd: "\<forall>r \<in> set (g_ranks g). \<forall>r' \<in> set (g_ranks g). \<forall>ex ex' ins ins' outs outs'.
        we_executors (E r) (t_kind t) = Some ex \<longrightarrow> we_executors (E r') (t_kind t) = Some ex' \<longrightarrow>
        ex t ins = Inr outs \<longrightarrow> ex' t ins' = Inr outs' \<longrightarrow> map fst outs = map fst outs'"
    and rs: "distinct rs" "set rs = set (g_ranks g)"
  shows "\<exists>p2 ev refs. enqueue_all (concat (map (\<lambda>r. launch_ends (ws r) (ws' r)) rs)) p1 = Inr p2
    \<and> wp_event_queue p2 = wp_event_queue p @ [WorkerEvent ev refs] \<and> e_task_id ev = t_id t \<and> e_kind ev = TASK_LAUNCH_END
    \<and> (\<forall>ref \<in> set refs. wr_group_id ref = gid \<and> wr_worker_rank ref = hd (g_ranks g)
        \<and> (h_artifact_id (wr_handle ref) \<notin> set rel \<longrightarrow> (\<forall>r \<in> set (g_ranks g).
              wk_local_artifacts (ws' r) (h_request_id (wr_handle ref), gid, h_artifact_id (wr_handle ref)) \<noteq> None)))"
proof -
  let ?R = "set (g_ranks g)" and ?o = "hd (g_ranks g)"
  have "\<exists>x. launch_done (E r) t gid ?o rel (ws r) (ws' r) x" if "r \<in> ?R" for r
    by (rule launch_ends_completed [OF _ _ d(2)]) (use run that in auto)
  then obtain f where f: "\<And>r. r \<in> ?R \<Longrightarrow> launch_done (E r) t gid ?o rel (ws r) (ws' r) (f r)" by metis
  define rep where "rep r = (fst (f r), if r = ?o then map (\<lambda>h. \<lparr>wr_handle = h, wr_group_id = gid, wr_worker_rank = ?o\<rparr>) (snd (f r)) else [])" for r
  have rk: "wk_rank (ws r) = r" if "r \<in> ?R" for r using run that by blast
  have one: "launch_ends (ws r) (ws' r) = [rep r]" "e_task_id (fst (rep r)) = t_id t" "rank_of (rep r) = r" "e_kind (fst (rep r)) = TASK_LAUNCH_END"
    and stored: "\<And>h. h \<in> set (snd (f r)) \<Longrightarrow> h_artifact_id h \<notin> set rel \<Longrightarrow> wk_local_artifacts (ws' r) (h_request_id h, gid, h_artifact_id h) \<noteq> None"
    and outs: "\<exists>ex ins raw. we_executors (E r) (t_kind t) = Some ex \<and> ex t ins = Inr raw \<and> snd (f r) = map fst raw"
    if "r \<in> ?R" for r
    using f [OF that] rk [OF that] by (auto simp: rep_def launch_done_def split: prod.splits)
  have same: "snd (f r) = snd (f r')" if r: "r \<in> ?R" "r' \<in> ?R" for r r'
  proof -
    obtain ex ins raw where a: "we_executors (E r) (t_kind t) = Some ex" "ex t ins = Inr raw" "snd (f r) = map fst raw" using outs [OF r(1)] by blast
    obtain ex' ins' raw' where b: "we_executors (E r') (t_kind t) = Some ex'" "ex' t ins' = Inr raw'" "snd (f r') = map fst raw'" using outs [OF r(2)] by blast
    from spmd [rule_format, OF r a(1) b(1) a(2) b(2)] show ?thesis by (simp add: a(3) b(3))
  qed
  let ?evs = "map rep rs"
  have evs: "concat (map (\<lambda>r. launch_ends (ws r) (ws' r)) rs) = ?evs"
  proof -
    have "map (\<lambda>r. launch_ends (ws r) (ws' r)) rs = map (\<lambda>r. [rep r]) rs" using one(1) rs(2) by simp
    then show ?thesis by (simp only: concat_map_singleton)
  qed
  have "map rank_of ?evs = rs" using one(3) rs(2) by (auto intro: map_idI)
  then have dist: "distinct (map rank_of ?evs)" "set (map rank_of ?evs) = ?R" using rs by simp_all
  have ids: "\<forall>re \<in> set ?evs. e_task_id (fst re) = t_id t \<and> e_kind (fst re) = TASK_LAUNCH_END" using one rs(2) by auto
  have k: "TASK_LAUNCH_END \<in> task_kinds" "TASK_LAUNCH_END \<noteq> TASK_FAILED" by (simp_all add: task_kinds_def)
  from completed_event [OF d k ids dist] obtain owner p2 ev where
    ow: "owner \<in> set ?evs" "rank_of owner = ?o" "enqueue_all ?evs p1 = Inr p2"
    "wp_event_queue p2 = wp_event_queue p @ [WorkerEvent ev (snd owner)]" "e_task_id ev = t_id t" "e_kind ev = TASK_LAUNCH_END"
    by blast
  obtain r where r: "r \<in> ?R" "owner = rep r" using ow(1) rs(2) by auto
  then have ro: "r = ?o" using ow(2) one(3) by simp
  have refs: "snd owner = map (\<lambda>h. \<lparr>wr_handle = h, wr_group_id = gid, wr_worker_rank = ?o\<rparr>) (snd (f r))"
    by (simp add: r(2) rep_def ro)
  have "wr_group_id ref = gid \<and> wr_worker_rank ref = ?o
        \<and> (h_artifact_id (wr_handle ref) \<notin> set rel \<longrightarrow> (\<forall>r \<in> ?R.
              wk_local_artifacts (ws' r) (h_request_id (wr_handle ref), gid, h_artifact_id (wr_handle ref)) \<noteq> None))"
    if "ref \<in> set (snd owner)" for ref
  proof -
    have ref: "wr_handle ref \<in> set (snd (f r))" "wr_group_id ref = gid" "wr_worker_rank ref = ?o" using that refs by auto
    have "wr_handle ref \<in> set (snd (f r'))" if "r' \<in> ?R" for r' using ref(1) same [OF r(1) that] by simp
    then show ?thesis using ref stored by blast
  qed
  then show ?thesis unfolding evs using ow(3-6) by blast
qed

section \<open>Fetching artifacts\<close>

lemma collect_artifacts_spec:
  "case collect_artifacts E rid gid aids w of
     Inr l \<Rightarrow> (\<forall>aid \<in> set aids. wk_local_artifacts w (rid, gid, aid) \<noteq> None)
       \<and> l = map (\<lambda>aid. case the (wk_local_artifacts w (rid, gid, aid)) of (h, v) \<Rightarrow> SerializedArtifact h (we_dump E v)) aids
   | Inl m \<Rightarrow> (\<exists>aid \<in> set aids. wk_local_artifacts w (rid, gid, aid) = None \<and> m = missing_artifact_text rid gid aid)"
  by (induction aids) (auto split: option.splits sum.splits)

text \<open>
  A fetch that the pool starts is sent to the leader of the group, and when the worker has
  handled it and its reply has been read, the next poll of the fetch returns exactly the values the
  leader holds for the requested artifacts, in the requested order, as pickling gives them back -
  or, when one is missing, no values and the error that names a missing artifact. The fetch is
  then no longer in flight.
\<close>

theorem fetch_returns_leader_artifacts:
  assumes start: "start_fetch_artifacts T fid rid gid aids p = Inr (p1, fid')" "get_group_leader T gid = Inr leader"
    and pool: "fid \<noteq> []" "wp_completed_fetches p fid = None" "wp_result_queues p leader = Some []" "\<not> wp_reader_error p"
    and worker: "wk_status w = Serving" "wk_fetch_queue w = []"
    and w': "w' = fetch_loop_step E (worker_step E slots (PoolCommand (FetchCommand fid rid gid aids) dt) w)"
  shows "(leader, FetchCommand fid rid gid aids) \<in> set (wp_sent p1) \<and> (\<exists>f p3 res.
    wk_results w' = wk_results w @ [FetchArtifactsResult f]
    \<and> poll_fetch_artifacts decode fid (reader_step (ReplyMessage leader (FetchReply f)) p1) = Inr (p3, Some res)
    \<and> wp_inflight_fetches p3 fid = None \<and> wp_completed_fetches p3 fid = None \<and> fr_fetch_id res = fid
    \<and> (if \<forall>aid \<in> set aids. wk_local_artifacts w (rid, gid, aid) \<noteq> None
       then fr_error res = None \<and> fr_artifacts res = map (\<lambda>aid. case the (wk_local_artifacts w (rid, gid, aid)) of (h, v) \<Rightarrow>
              \<lparr>av_handle = h, av_value = decode (we_dump E v)\<rparr>) aids
       else fr_artifacts res = [] \<and> (\<exists>aid \<in> set aids. wk_local_artifacts w (rid, gid, aid) = None
              \<and> fr_error res = Some (missing_artifact_text rid gid aid))))"
proof -
  have p1: "p1 = p\<lparr>wp_inflight_fetches := (wp_inflight_fetches p)(fid \<mapsto> leader), wp_sent := wp_sent p @ [(leader, FetchCommand fid rid gid aids)]\<rparr>"
    using start by (auto simp: start_fetch_artifacts_def send_command_def split: if_splits)
  define f where "f = (case collect_artifacts E rid gid aids w of
              Inl m \<Rightarrow> \<lparr>wf_fetch_id = fid, wf_artifacts = [], wf_error = Some m\<rparr>
            | Inr l \<Rightarrow> \<lparr>wf_fetch_id = fid, wf_artifacts = l, wf_error = None\<rparr>)"
  have ca: "collect_artifacts E rid gid aids (w\<lparr>wk_fetch_queue := q\<rparr>) = collect_artifacts E rid gid aids w" for q
    by (induction aids) (auto split: option.splits)
  have res: "wk_results w' = wk_results w @ [FetchArtifactsResult f]"
    using worker by (simp add: w' worker_step_def handle_command_def fetch_loop_step_def handle_fetch_artifacts_def f_def ca)
  have fid: "wf_fetch_id f = fid" by (simp add: f_def split: sum.split)
  define p3 where "p3 = p1\<lparr>wp_result_queues := (wp_result_queues p1)(leader \<mapsto> []), wp_completed_fetches := (wp_completed_fetches p1)(fid := None),
    wp_inflight_fetches := (wp_inflight_fetches p1)(fid := None)\<rparr>"
  have poll: "poll_fetch_artifacts decode fid (reader_step (ReplyMessage leader (FetchReply f)) p1) = Inr (p3, Some (normalize_fetch_result decode f))"
    using pool fid
    by (simp add: poll_fetch_artifacts_def take_completed_def reader_step_def p1 drain_fetch_results_for_rank_def p3_def)
  have "if \<forall>aid \<in> set aids. wk_local_artifacts w (rid, gid, aid) \<noteq> None
       then fr_error (normalize_fetch_result decode f) = None \<and> fr_artifacts (normalize_fetch_result decode f) = map (\<lambda>aid. case the (wk_local_artifacts w (rid, gid, aid)) of (h, v) \<Rightarrow>
              \<lparr>av_handle = h, av_value = decode (we_dump E v)\<rparr>) aids
       else fr_artifacts (normalize_fetch_result decode f) = [] \<and> (\<exists>aid \<in> set aids. wk_local_artifacts w (rid, gid, aid) = None
              \<and> fr_error (normalize_fetch_result decode f) = Some (missing_artifact_text rid gid aid))"
  proof (cases "collect_artifacts E rid gid aids w")
    case (Inl m)
    then obtain aid where a: "aid \<in> set aids" "wk_local_artifacts w (rid, gid, aid) = None" "m = missing_artifact_text rid gid aid"
      using collect_artifacts_spec [where E = E and rid = rid and gid = gid and aids = aids and w = w] by auto
    then have n: "\<not> (\<forall>aid \<in> set aids. wk_local_artifacts w (rid, gid, aid) \<noteq> None)" by blast
    show ?thesis unfolding if_not_P [OF n] using a Inl by (auto simp: f_def normalize_fetch_result_def)
  next
    case (Inr l)
    then show ?thesis using collect_artifacts_spec [where E = E and rid = rid and gid = gid and aids = aids and w = w]
      by (auto simp: f_def normalize_fetch_result_def normalize_artifact_def split: prod.splits)
  qed
  moreover have "fr_fetch_id (normalize_fetch_result decode f) = fid" by (simp add: normalize_fetch_result_def fid)
  moreover have "wp_inflight_fetches p3 fid = None" "wp_completed_fetches p3 fid = None" by (simp_all add: p3_def)
  moreover have "(leader, FetchCommand fid rid gid aids) \<in> set (wp_sent p1)" by (simp add: p1)
  ultimately show ?thesis using res poll by blast
qed

section \<open>A transfer of an evicted request\<close>

text \<open>The transfer operations the ranks post once they have evicted the request of the migration.\<close>

definition posts_after_evict ::
  "(int \<Rightarrow> ('v, 't) worker_env) \<Rightarrow> phase_command \<Rightarrow> (int \<Rightarrow> 'v worker) \<Rightarrow> int \<Rightarrow> p2p_op list" where
  "posts_after_evict E c ws r =
     filter (\<lambda>x. \<not> is_local_op x) (fst (transfer_posts (E r) c (handle_evict_request (mp_request_id (mc_plan c)) (ws r))))"

lemma evicted_source_posts_nothing:
  assumes "mc_schedule c = Some S" "wk_rank w \<in> set (ms_participant_ranks S)" "wk_rank w \<in> set (g_ranks (mc_src_group c))"
    and "mp_artifacts (mc_plan c) \<noteq> []" "wk_fixed_session w"
  shows "transfer_posts E c (handle_evict_request (mp_request_id (mc_plan c)) w) = ([], Some KeyError)"
proof -
  let ?w = "handle_evict_request (mp_request_id (mc_plan c)) w"
  obtain spec specs where specs: "mp_artifacts (mc_plan c) = spec # specs" using assms(4) by (cases "mp_artifacts (mc_plan c)") auto
  have "\<exists>w1. maybe_activate_group_session (g_id (mc_src_group c)) ?w = Inr w1"
    using assms(5) by (auto simp: maybe_activate_group_session_def activate_group_session_def handle_evict_request_def split: if_split)
  then obtain w1 where s: "maybe_activate_group_session (g_id (mc_src_group c)) ?w = Inr w1" by blast
  then have "wk_local_artifacts w1 = wk_local_artifacts ?w"
    by (auto simp: maybe_activate_group_session_def activate_group_session_def split: if_splits)
  then have "source_values c w1 = Inl KeyError"
    unfolding source_values_def specs
    by (simp add: dict_get_def source_key_def handle_evict_request_def)
  then have "snd (transfer_setup E c ?w) = Inl KeyError"
    using assms(1-3) s by (simp add: transfer_setup_def with_session_def handle_evict_request_def)
  then show ?thesis by (simp add: transfer_posts_def)
qed

lemma rendezvous_silent_sender:
  assumes "(rendezvous ^^ n) s s'" and "s a = []" and "RecvFrom a e \<in> set (s b)"
  shows "s' a = [] \<and> RecvFrom a e \<in> set (s' b)"
  using assms
proof (induction n arbitrary: s')
  case (Suc n)
  then obtain u where u: "(rendezvous ^^ n) s u" "rendezvous u s'" by auto
  have ih: "u a = []" "RecvFrom a e \<in> set (u b)" using Suc.IH [OF u(1) Suc.prems(2,3)] by auto
  from u(2) show ?case by (rule rendezvousE) (use ih in \<open>auto split: if_splits\<close>)
qed auto

text \<open>A rank outside the source group looks up no artifact: it does not notice the eviction.\<close>

lemma activate_evicted:
  "maybe_activate_group_session gid (handle_evict_request rid w) =
     bind_res (maybe_activate_group_session gid w) (\<lambda>w1. Inr (handle_evict_request rid w1))"
  by (simp add: maybe_activate_group_session_def activate_group_session_def handle_evict_request_def cong: if_cong)

lemma evicted_destination_posts_same:
  assumes "wk_rank w \<notin> set (g_ranks (mc_src_group c))"
  shows "transfer_posts E c (handle_evict_request rid w) = transfer_posts E c w"
proof -
  have d: "destination_layout E c (handle_evict_request rid w1) = destination_layout E c w1" for w1
    by (simp add: destination_layout_def handle_evict_request_def fun_eq_iff)
  have r: "wk_rank (handle_evict_request rid w) = wk_rank w" by (simp add: handle_evict_request_def)
  have "snd (transfer_setup E c (handle_evict_request rid w)) = snd (transfer_setup E c w)"
    using assms
    by (auto simp: transfer_setup_def with_session_def activate_evicted r d Let_def split: option.split sum.split)
  then show ?thesis unfolding transfer_posts_def r by simp
qed

lemma post_ops_all: "snd (post_ops E vals xs) = None \<Longrightarrow> fst (post_ops E vals xs) = xs"
  by (induction xs) (auto split: sum.splits prod.splits)

lemma destination_posts_receives:
  assumes "snd (transfer_posts E c w) = None" "mc_schedule c = Some S"
    and "e \<in> set (ms_edges S)" "\<not> me_local_copy e" "me_src_rank e \<noteq> wk_rank w" "me_dst_rank e = wk_rank w"
      "0 \<notin> set (ts_shape (me_src_slice e))"
  shows "RecvFrom (me_src_rank e) e \<in> set (fst (transfer_posts E c w))"
proof -
  obtain S' vals ls where s: "snd (transfer_setup E c w) = Inr (S', vals, ls)"
    using assms(1) by (cases "snd (transfer_setup E c w)") (auto simp: transfer_posts_def)
  then have "S' = S" using assms(2)
    by (auto simp: transfer_setup_def with_session_def Let_def bind_res_eq_Inr split: if_splits sum.splits)
  then have "fst (transfer_posts E c w) = rank_ops (wk_rank w) (ms_edges S)"
    using s assms(1) post_ops_all by (simp add: transfer_posts_def)
  moreover have "RecvFrom (me_src_rank e) e \<in> set (edge_op (wk_rank w) e)" using assms(4-7) by (auto simp: edge_op_def)
  ultimately show ?thesis using assms(3) by (auto simp: rank_ops_def sorted_edges_def)
qed

text \<open>
  C27: When the request of a migration is evicted before the transfer command is handled, the source
  ranks raise KeyError and post nothing, whereas a destination rank outside the source group does
  not notice: it posts exactly the operations it would have posted without the eviction, among
  them the receive of every edge from a source rank. No sequence of rendezvous ever completes that
  receive, so the worker never returns from the transfer. (The destination is one whose setup and
  posting raise nothing before the eviction, and the schedule has an edge to it whose slice is not empty.)
\<close>

theorem evicted_transfer_never_ends:
  assumes "mc_schedule c = Some S" "a \<in> set (ms_participant_ranks S)" "a \<in> set (g_ranks (mc_src_group c))"
    and "mp_artifacts (mc_plan c) \<noteq> []" "wk_rank (ws a) = a" "wk_fixed_session (ws a)"
    and "wk_rank (ws b) = b" "b \<notin> set (g_ranks (mc_src_group c))" "transfer_posts (E b) c (ws b) = (ops, None)"
    and "e \<in> set (ms_edges S)" "\<not> me_local_copy e" "me_src_rank e = a" "me_dst_rank e = b"
      "0 \<notin> set (ts_shape (me_src_slice e))"
  shows "transfer_posts (E a) c (handle_evict_request (mp_request_id (mc_plan c)) (ws a)) = ([], Some KeyError)
    \<and> transfer_posts (E b) c (handle_evict_request (mp_request_id (mc_plan c)) (ws b)) = (ops, None)
    \<and> RecvFrom a e \<in> set (posts_after_evict E c ws b)
    \<and> (\<forall>n s. (rendezvous ^^ n) (posts_after_evict E c ws) s \<longrightarrow> RecvFrom a e \<in> set (s b))"
proof -
  have a: "transfer_posts (E a) c (handle_evict_request (mp_request_id (mc_plan c)) (ws a)) = ([], Some KeyError)"
    by (rule evicted_source_posts_nothing) (use assms in simp_all)
  have b: "transfer_posts (E b) c (handle_evict_request (mp_request_id (mc_plan c)) (ws b)) = (ops, None)"
    using evicted_destination_posts_same [of "ws b" c "E b"] assms(7-9) by simp
  have "a \<noteq> b" using assms(3,8) by blast
  then have "RecvFrom a e \<in> set ops"
    using destination_posts_receives [of "E b" c "ws b" S e] assms(1,7,9-14) by simp
  then have recv: "RecvFrom a e \<in> set (posts_after_evict E c ws b)"
    by (simp add: posts_after_evict_def b)
  have "posts_after_evict E c ws a = []" by (simp add: posts_after_evict_def a)
  then have "RecvFrom a e \<in> set (s b)" if "(rendezvous ^^ n) (posts_after_evict E c ws) s" for n s
    using rendezvous_silent_sender [OF that] recv by blast
  then show ?thesis using a b recv by blast
qed

section \<open>Concrete runs\<close>

theorem published_outputs_on_all_ranks_witness:
  "\<exists>(p2 :: worker_pool) ev refs. wp_event_queue p2 = [WorkerEvent ev refs] \<and> refs \<noteq> []
     \<and> wk_local_artifacts (ex_done_worker 0) (''r'', ''a'', ''state'') \<noteq> None
     \<and> wk_local_artifacts (ex_done_worker 1) (''r'', ''a'', ''state'') \<noteq> None"
proof -
  let ?g = "ex_group ''a'' [0, 1]"
  define p1 where "p1 = (case pool_dispatch ex_topology ex_wide_task [] [] (worker_pool_init [0, 1]) of Inr p \<Rightarrow> p | Inl _ \<Rightarrow> worker_pool_init [])"
  have "case pool_dispatch ex_topology ex_wide_task [] [] (worker_pool_init [0, 1]) of Inl _ \<Rightarrow> False | Inr _ \<Rightarrow> True" by code_simp
  then have d: "pool_dispatch ex_topology ex_wide_task [] [] (worker_pool_init [0, 1]) = Inr p1" by (auto simp: p1_def split: sum.splits)
  have g: "t_group_id ex_wide_task = Some ''a''" "get_group ex_topology ''a'' = Inr ?g" "g_ranks ?g = [0, 1]"
    "wp_event_queue (worker_pool_init [0, 1]) = []" by code_simp+
  have le: "length (launch_ends (ex_worker 0) (ex_done_worker 0)) = 1" "length (launch_ends (ex_worker 1) (ex_done_worker 1)) = 1" by code_simp+
  have run: "\<forall>r \<in> set (g_ranks ?g). wk_rank (ex_worker r) = r
      \<and> execute_task ex_env ex_wide_task [] (hd (g_ranks ?g)) [] 0 (Some ?g) (ex_worker r) = Inr (ex_done_worker r)
      \<and> launch_ends (ex_worker r) (ex_done_worker r) \<noteq> []"
    using ex_execute le by (auto simp: g(3) ex_worker_def)
  have spmd: "\<forall>r \<in> set (g_ranks ?g). \<forall>r' \<in> set (g_ranks ?g). \<forall>ex ex' ins ins' outs outs'.
      we_executors ex_env (t_kind ex_wide_task) = Some ex \<longrightarrow> we_executors ex_env (t_kind ex_wide_task) = Some ex' \<longrightarrow>
      ex ex_wide_task ins = Inr outs \<longrightarrow> ex' ex_wide_task ins' = Inr outs' \<longrightarrow> map fst outs = map fst outs'"
    by (auto simp: ex_env_def)
  have rs: "distinct [1, 0 :: int]" "set [1, 0 :: int] = set (g_ranks ?g)" by (auto simp: g(3))
  from published_outputs_on_all_ranks [where E = "\<lambda>_. ex_env", OF d g(1,2) run spmd rs] obtain p2 ev refs where
    p2: "wp_event_queue p2 = [WorkerEvent ev refs]"
      "enqueue_all (concat (map (\<lambda>r. launch_ends (ex_worker r) (ex_done_worker r)) [1, 0])) p1 = Inr p2"
    and refs: "\<forall>ref \<in> set refs. \<forall>r \<in> set (g_ranks ?g).
        wk_local_artifacts (ex_done_worker r) (h_request_id (wr_handle ref), ''a'', h_artifact_id (wr_handle ref)) \<noteq> None"
    by (auto simp: g(4))
  have "case enqueue_all (concat (map (\<lambda>r. launch_ends (ex_worker r) (ex_done_worker r)) [1, 0])) p1 of Inl _ \<Rightarrow> False
      | Inr p2 \<Rightarrow> (case wp_event_queue p2 of [WorkerEvent ev refs] \<Rightarrow> map wr_handle refs = [ex_handle] | _ \<Rightarrow> False)"
    unfolding p1_def by code_simp
  then have "map wr_handle refs = [ex_handle]" using p2 by simp
  then obtain ref where ref: "refs = [ref]" "wr_handle ref = ex_handle" by auto
  have "h_request_id ex_handle = ''r''" "h_artifact_id ex_handle = ''state''" by code_simp+
  then have "\<forall>r \<in> {0, 1}. wk_local_artifacts (ex_done_worker r) (''r'', ''a'', ''state'') \<noteq> None"
    using refs ref by (simp add: g(3))
  then show ?thesis using p2(1) ref(1) by (intro exI [of _ p2] exI [of _ ev] exI [of _ refs]) simp
qed

text \<open>The leader of group \<open>c\<close> holds \<open>state\<close>; the pool fetches it.\<close>

definition ex_holder :: "string worker" where
  "ex_holder = (ex_worker 3)\<lparr>wk_local_artifacts := [(''r'', ''c'', ''state'') \<mapsto> (ex_handle, ''held'')]\<rparr>"

theorem fetch_returns_leader_artifacts_witness:
  "\<exists>p1 f p3 res. poll_fetch_artifacts (\<lambda>x. HostVal (PyStr x)) ''f'' (reader_step (ReplyMessage 3 (FetchReply f)) p1) = Inr (p3, Some res)
     \<and> fr_artifacts res = [\<lparr>av_handle = ex_handle, av_value = HostVal (PyStr ''held'')\<rparr>]"
proof -
  let ?p = "worker_pool_init [3]"
  define p1 where "p1 = (case start_fetch_artifacts ex_topology ''f'' ''r'' ''c'' [''state''] ?p of Inr (p, _) \<Rightarrow> p | Inl _ \<Rightarrow> ?p)"
  have "case start_fetch_artifacts ex_topology ''f'' ''r'' ''c'' [''state''] ?p of Inl _ \<Rightarrow> False | Inr _ \<Rightarrow> True" by code_simp
  then obtain fid' where s: "start_fetch_artifacts ex_topology ''f'' ''r'' ''c'' [''state''] ?p = Inr (p1, fid')"
    by (auto simp: p1_def split: sum.splits)
  have l: "get_group_leader ex_topology ''c'' = Inr 3" by code_simp
  have pool: "''f'' \<noteq> []" "wp_completed_fetches ?p ''f'' = None" "wp_result_queues ?p 3 = Some []" "\<not> wp_reader_error ?p"
    by (simp_all add: worker_pool_init_def)
  have w: "wk_status ex_holder = Serving" "wk_fetch_queue ex_holder = []" by (simp_all add: ex_holder_def ex_worker_def)
  from fetch_returns_leader_artifacts [OF s l pool w refl, of ex_env "\<lambda>_. None" 0 "\<lambda>x. HostVal (PyStr x)"]
  show ?thesis by (auto simp: ex_holder_def ex_env_def)
qed

text \<open>Rank 2 receives from rank 0, whose request has been evicted.\<close>

theorem evicted_transfer_never_ends_witness:
  "\<exists>e. RecvFrom 0 e \<in> set (posts_after_evict (\<lambda>_. ex_env) (ex_phase_command EXECUTE_TRANSFER) ex_worker 2)
     \<and> (\<nexists>n s. (rendezvous ^^ n) (posts_after_evict (\<lambda>_. ex_env) (ex_phase_command EXECUTE_TRANSFER) ex_worker) s \<and> s 2 = [])"
proof -
  let ?c = "ex_phase_command EXECUTE_TRANSFER"
  have "\<exists>e \<in> set (ms_edges ex_schedule). \<not> me_local_copy e \<and> me_src_rank e = 0 \<and> me_dst_rank e = 2
      \<and> 0 \<notin> set (ts_shape (me_src_slice e))" by code_simp
  then obtain e where e: "e \<in> set (ms_edges ex_schedule)" "\<not> me_local_copy e" "me_src_rank e = 0" "me_dst_rank e = 2"
    "0 \<notin> set (ts_shape (me_src_slice e))" by blast
  have c: "mc_schedule ?c = Some ex_schedule" by (simp add: ex_phase_command_def)
  have "snd (transfer_posts ex_env ?c (ex_worker 2)) = None" by code_simp
  then obtain ops where ops: "transfer_posts ex_env ?c (ex_worker 2) = (ops, None)"
    by (cases "transfer_posts ex_env ?c (ex_worker 2)") simp
  have "0 \<in> set (ms_participant_ranks ex_schedule)" "0 \<in> set (g_ranks (mc_src_group ?c))" "mp_artifacts (mc_plan ?c) \<noteq> []"
    "2 \<notin> set (g_ranks (mc_src_group ?c))" by code_simp+
  moreover have "wk_rank (ex_worker r) = r" "wk_fixed_session (ex_worker r)" for r by (simp_all add: ex_worker_def)
  ultimately have "RecvFrom 0 e \<in> set (posts_after_evict (\<lambda>_. ex_env) ?c ex_worker 2)
      \<and> (\<forall>n s. (rendezvous ^^ n) (posts_after_evict (\<lambda>_. ex_env) ?c ex_worker) s \<longrightarrow> RecvFrom 0 e \<in> set (s 2))"
    using evicted_transfer_never_ends [where E = "\<lambda>_. ex_env" and ws = ex_worker and a = 0 and b = 2, OF c _ _ _ _ _ _ _ ops e] by blast
  then show ?thesis by (intro exI [of _ e]) fastforce
qed

end
