(* ===== verification/Config.thy ===== *)
theory Config
  imports EdfGreedy
begin

text \<open>
  The configuration of the runtime (\<open>diffusion/data.py\<close>): the parallel configuration with its world
  size, and the part of \<open>OmniDiffusionConfig.__post_init__\<close> that checks and normalises the fields of
  runtime_v2. A field that may hold a number, a string, a list or an object is a dynamically typed
  value, and \<open>PyNone\<close> is its absence. The parser of JSON texts and \<open>repr\<close> of floats and containers
  are arguments. Strings are ASCII.
\<close>

section \<open>Conversions of Python\<close>

definition is_space :: "char \<Rightarrow> bool" where
  "is_space c \<longleftrightarrow> (of_char c :: nat) \<in> {9, 10, 11, 12, 13, 28, 29, 30, 31, 32}"

definition strip :: "string \<Rightarrow> string" where
  "strip s = rev (dropWhile is_space (rev (dropWhile is_space s)))"

text \<open>\<open>s.split(c)\<close> for a single character.\<close>

fun split_on :: "char \<Rightarrow> string \<Rightarrow> string list" where
  "split_on c [] = [[]]"
| "split_on c (x # s) =
     (if x = c then [] # split_on c s
      else case split_on c s of [] \<Rightarrow> [[x]] | w # ws \<Rightarrow> (x # w) # ws)"

definition digit_value :: "char \<Rightarrow> nat option" where
  "digit_value c = (let n = of_char c in if 48 \<le> n \<and> n \<le> 57 then Some (n - 48) else None)"

text \<open>Decimal digits after the first one; single underscores may separate digits.\<close>

fun more_digits :: "nat \<Rightarrow> string \<Rightarrow> nat option" where
  "more_digits acc [] = Some acc"
| "more_digits acc (c # cs) =
     (case digit_value c of
        Some d \<Rightarrow> more_digits (10 * acc + d) cs
      | None \<Rightarrow>
          if c = CHR ''_'' then
            (case cs of
               [] \<Rightarrow> None
             | c' # cs' \<Rightarrow> (case digit_value c' of None \<Rightarrow> None | Some d \<Rightarrow> more_digits (10 * acc + d) cs'))
          else None)"

definition digits :: "string \<Rightarrow> nat option" where
  "digits s = (case s of [] \<Rightarrow> None | c # cs \<Rightarrow> (case digit_value c of None \<Rightarrow> None | Some d \<Rightarrow> more_digits d cs))"

text \<open>\<open>int(s)\<close> on a string.\<close>

definition int_of_string :: "string \<Rightarrow> int option" where
  "int_of_string s =
     (case strip s of
        [] \<Rightarrow> None
      | c # cs \<Rightarrow>
          if c = CHR ''-'' then map_option (\<lambda>n. - int n) (digits cs)
          else if c = CHR ''+'' then map_option int (digits cs)
          else map_option int (digits (c # cs)))"

text \<open>\<open>int(v)\<close>: a string that is no number raises \<open>ValueError\<close>, a value of another type \<open>TypeError\<close>.\<close>

fun to_int :: "pyval \<Rightarrow> int res" where
  "to_int (PyInt i) = Inr i"
| "to_int (PyBool b) = Inr (if b then 1 else 0)"
| "to_int (PyFloat q) = Inr (trunc q)"
| "to_int (PyStr s) = (case int_of_string s of None \<Rightarrow> Inl ValueError | Some i \<Rightarrow> Inr i)"
| "to_int _ = Inl TypeError"

text \<open>\<open>str(v)\<close>; \<open>rp\<close> prints floats and containers.\<close>

fun to_str :: "(pyval \<Rightarrow> string) \<Rightarrow> pyval \<Rightarrow> string" where
  "to_str rp PyNone = ''None''"
| "to_str rp (PyBool b) = (if b then ''True'' else ''False'')"
| "to_str rp (PyInt i) = str_int i"
| "to_str rp (PyStr s) = s"
| "to_str rp v = rp v"

text \<open>\<open>bool(v)\<close>.\<close>

fun to_bool :: "pyval \<Rightarrow> bool" where
  "to_bool PyNone = False"
| "to_bool (PyBool b) = b"
| "to_bool (PyInt i) = (i \<noteq> 0)"
| "to_bool (PyFloat q) = (q \<noteq> 0)"
| "to_bool (PyStr s) = (s \<noteq> [])"
| "to_bool (PyList l) = (l \<noteq> [])"
| "to_bool (PyDict d) = (d \<noteq> [])"

text \<open>\<open>d.get(k, v)\<close>; a missing value is \<open>PyNone\<close> by default.\<close>

definition get_dflt :: "pydict \<Rightarrow> string \<Rightarrow> pyval \<Rightarrow> pyval" where
  "get_dflt d k v = (case map_of d k of None \<Rightarrow> v | Some x \<Rightarrow> x)"

text \<open>\<open>try: ... except (TypeError, ValueError): raise ValueError\<close>, and a guard that raises \<open>ValueError\<close>.\<close>

definition as_value_error :: "'a res \<Rightarrow> 'a res" where
  "as_value_error m = (case m of Inl e \<Rightarrow> Inl (if e = TypeError then ValueError else e) | Inr a \<Rightarrow> Inr a)"

definition require :: "bool \<Rightarrow> unit res" where
  "require b = (if b then Inr () else Inl ValueError)"

section \<open>Parallel configuration\<close>

record parallel_config =
  pc_pipeline_parallel_size :: int
  pc_data_parallel_size :: int
  pc_tensor_parallel_size :: int
  pc_enable_expert_parallel :: bool
  pc_sequence_parallel_size :: "int option"
  pc_ulysses_degree :: int
  pc_ring_degree :: int
  pc_cfg_parallel_size :: int
  pc_vae_patch_parallel_size :: int
  pc_use_hsdp :: bool
  pc_hsdp_shard_size :: int
  pc_hsdp_replicate_size :: int
  pc_world_size :: int

definition other_parallel_world_size :: "parallel_config \<Rightarrow> int" where
  "other_parallel_world_size c =
     pc_pipeline_parallel_size c * pc_data_parallel_size c * pc_tensor_parallel_size c
     * pc_ulysses_degree c * pc_ring_degree c * pc_cfg_parallel_size c"

definition parallel_post_init :: "parallel_config \<Rightarrow> parallel_config res" where
  "parallel_post_init c0 =
     (let c = (case pc_sequence_parallel_size c0 of
                 None \<Rightarrow> c0\<lparr>pc_sequence_parallel_size := Some (pc_ulysses_degree c0 * pc_ring_degree c0)\<rparr>
               | Some _ \<Rightarrow> c0);
          other = other_parallel_world_size c
      in if pc_use_hsdp c then
           bind_res (require (\<not> (1 < pc_tensor_parallel_size c \<or> 1 < pc_data_parallel_size c))) (\<lambda>_.
             if pc_hsdp_shard_size c = - 1 then
               bind_res (require (0 < pc_hsdp_replicate_size c)) (\<lambda>_.
               bind_res (require (other \<noteq> 1)) (\<lambda>_.
               bind_res (require (other mod pc_hsdp_replicate_size c = 0)) (\<lambda>_.
                 Inr (c\<lparr>pc_hsdp_shard_size := other div pc_hsdp_replicate_size c, pc_world_size := other\<rparr>))))
             else
               let hsdp = pc_hsdp_replicate_size c * pc_hsdp_shard_size c
               in if other = 1 then Inr (c\<lparr>pc_world_size := hsdp\<rparr>)
                  else bind_res (require (hsdp = other)) (\<lambda>_. Inr (c\<lparr>pc_world_size := other\<rparr>)))
         else Inr (c\<lparr>pc_world_size := other\<rparr>))"

text \<open>The validator that runs after \<open>__post_init__\<close>; a failed assertion is a validation error.\<close>

definition validate_parallel_config :: "parallel_config \<Rightarrow> unit res" where
  "validate_parallel_config c =
     require (0 < pc_pipeline_parallel_size c \<and> 0 < pc_data_parallel_size c \<and> 0 < pc_tensor_parallel_size c
       \<and> (case pc_sequence_parallel_size c of
            None \<Rightarrow> False | Some sp \<Rightarrow> 0 < sp \<and> sp = pc_ulysses_degree c * pc_ring_degree c)
       \<and> 0 < pc_ulysses_degree c \<and> 0 < pc_ring_degree c
       \<and> pc_cfg_parallel_size c \<in> {1, 2, 3} \<and> 0 < pc_vae_patch_parallel_size c
       \<and> (pc_use_hsdp c \<longrightarrow> 0 < pc_hsdp_replicate_size c \<and> 0 < pc_hsdp_shard_size c))"

definition mk_parallel_config :: "parallel_config \<Rightarrow> parallel_config res" where
  "mk_parallel_config c =
     bind_res (parallel_post_init c) (\<lambda>c1. bind_res (validate_parallel_config c1) (\<lambda>_. Inr c1))"

section \<open>Normalisation of the runtime fields\<close>

definition normalize_group_sizes :: "pyval \<Rightarrow> pyval res" where
  "normalize_group_sizes v =
     bind_res
       (case v of
          PyNone \<Rightarrow> Inr []
        | PyStr s \<Rightarrow> map_res to_int (map PyStr (filter (\<lambda>p. p \<noteq> []) (map strip (split_on (CHR '','') s))))
        | PyList xs \<Rightarrow> as_value_error (map_res to_int xs)
        | _ \<Rightarrow> Inl ValueError) (\<lambda>parsed.
     if parsed = [] then Inr PyNone
     else bind_res (require (\<forall>p \<in> set parsed. 0 < p)) (\<lambda>_. Inr (PyList (map PyInt parsed))))"

text \<open>
  The common part of the two following functions: the text is parsed, an object is replaced by its
  entry \<open>key\<close>, and the result must be a list of objects. \<open>None\<close> is an absent or blank value.
\<close>

definition resolve_objects :: "(string \<Rightarrow> pyval option) \<Rightarrow> string \<Rightarrow> pyval \<Rightarrow> pydict list option res" where
  "resolve_objects loads key v =
     (if v = PyNone then Inr None
      else if (case v of PyStr s \<Rightarrow> strip s = [] | _ \<Rightarrow> False) then Inr None
      else
        bind_res (case v of
                    PyStr s \<Rightarrow> (case loads (strip s) of None \<Rightarrow> Inl ValueError | Some x \<Rightarrow> Inr x)
                  | _ \<Rightarrow> Inr v) (\<lambda>parsed.
        bind_res (case parsed of
                    PyDict d \<Rightarrow> (case map_of d key of None \<Rightarrow> Inl ValueError | Some x \<Rightarrow> Inr x)
                  | _ \<Rightarrow> Inr parsed) (\<lambda>parsed.
        case parsed of
          PyList items \<Rightarrow>
            bind_res (map_res (\<lambda>i. case i of PyDict d \<Rightarrow> Inr d | _ \<Rightarrow> Inl ValueError) items) (\<lambda>ds. Inr (Some ds))
        | _ \<Rightarrow> Inl ValueError)))"

definition list_or_none :: "pydict list option \<Rightarrow> pyval" where
  "list_or_none l = (case l of None \<Rightarrow> PyNone | Some [] \<Rightarrow> PyNone | Some ds \<Rightarrow> PyList (map PyDict ds))"

definition normalize_groups_json :: "(string \<Rightarrow> pyval option) \<Rightarrow> pyval \<Rightarrow> pyval res" where
  "normalize_groups_json loads v =
     bind_res (resolve_objects loads ''groups'' v) (\<lambda>ds. Inr (list_or_none ds))"

definition normalize_schedule_item :: "(pyval \<Rightarrow> string) \<Rightarrow> pydict \<Rightarrow> pydict res" where
  "normalize_schedule_item rp d =
     (let gid = to_str rp (get_dflt d ''group_id'' (PyStr []))
      in bind_res (require (gid \<noteq> [])) (\<lambda>_.
         bind_res (as_value_error (to_int (get_dflt d ''start'' (PyInt 0)))) (\<lambda>start.
         bind_res (if get_dflt d ''end'' PyNone = PyNone then Inr None
                   else bind_res (as_value_error (to_int (get_dflt d ''end'' PyNone))) (\<lambda>e. Inr (Some e))) (\<lambda>end'.
         bind_res (require (0 \<le> start)) (\<lambda>_.
         bind_res (require (case end' of None \<Rightarrow> True | Some e \<Rightarrow> start < e)) (\<lambda>_.
           Inr [(''start'', PyInt start), (''end'', case end' of None \<Rightarrow> PyNone | Some e \<Rightarrow> PyInt e),
                (''group_id'', PyStr gid)]))))))"

definition normalize_dit_step_schedule_field ::
  "(string \<Rightarrow> pyval option) \<Rightarrow> (pyval \<Rightarrow> string) \<Rightarrow> pyval \<Rightarrow> pyval res" where
  "normalize_dit_step_schedule_field loads rp v =
     bind_res (resolve_objects loads ''schedule'' v) (\<lambda>ds.
       case ds of
         None \<Rightarrow> Inr PyNone
       | Some l \<Rightarrow> bind_res (map_res (normalize_schedule_item rp) l) (\<lambda>l'. Inr (list_or_none (Some l'))))"

section \<open>The configuration of a diffusion stage\<close>

text \<open>The fields of \<open>OmniDiffusionConfig\<close> that runtime_v2 reads.\<close>

record od_config =
  oc_num_gpus :: "int option"
  oc_parallel_config :: parallel_config
  oc_denoise_chunk_size :: int
  oc_postprocess_workers_per_gpu :: "int option"
  oc_scheduler_policy :: string
  oc_collective_backend :: "string option"
  oc_gfc_max_collective_mb :: int
  oc_group_sizes :: pyval
  oc_groups_json :: pyval
  oc_dit_step_schedule :: pyval
  oc_edf_greedy_sp_sizes :: pyval
  oc_cost_model_dir :: "string option"
  oc_aux_group_id :: "string option"
  oc_dit_group_id :: "string option"
  oc_wave_stress_warmup_reqs :: int
  oc_wave_stress_wave_size :: int

definition POLICY_NAMES :: "string list" where
  "POLICY_NAMES = [''fcfs'', ''srtf'', ''sjf'', ''disaggregate'', ''dynamic_step_fcfs'', ''edf_greedy'',
     ''edf_best_fit'', ''wave_stress'']"

text \<open>\<open>not x\<close> for an optional string.\<close>

definition blank :: "string option \<Rightarrow> bool" where
  "blank x \<longleftrightarrow> x = None \<or> x = Some []"

text \<open>\<open>str(x or "torch").lower()\<close>.\<close>

definition backend_name :: "string option \<Rightarrow> string" where
  "backend_name b = str_lower (if blank b then ''torch'' else the b)"

definition settle_num_gpus :: "od_config \<Rightarrow> od_config res" where
  "settle_num_gpus c =
     (let world = pc_world_size (oc_parallel_config c);
          n = (case oc_num_gpus c of None \<Rightarrow> world | Some n \<Rightarrow> n)
      in bind_res (require (\<not> n < world)) (\<lambda>_. Inr (c\<lparr>oc_num_gpus := Some n\<rparr>)))"

definition check_limits :: "od_config \<Rightarrow> od_config res" where
  "check_limits c =
     bind_res (require (\<not> oc_denoise_chunk_size c < 1)) (\<lambda>_.
     let workers = (case oc_postprocess_workers_per_gpu c of None \<Rightarrow> 2 | Some n \<Rightarrow> n)
     in bind_res (require (\<not> workers < 1)) (\<lambda>_. Inr (c\<lparr>oc_postprocess_workers_per_gpu := Some workers\<rparr>)))"

definition check_names :: "od_config \<Rightarrow> od_config res" where
  "check_names c =
     (let policy = str_lower (oc_scheduler_policy c); backend = backend_name (oc_collective_backend c)
      in bind_res (require (policy \<in> set POLICY_NAMES)) (\<lambda>_.
         bind_res (require (backend \<in> {''torch'', ''gfc''})) (\<lambda>_.
         bind_res (require (\<not> oc_gfc_max_collective_mb c < 1)) (\<lambda>_.
           Inr (c\<lparr>oc_scheduler_policy := policy, oc_collective_backend := Some backend\<rparr>)))))"

definition normalize_fields ::
  "(string \<Rightarrow> pyval option) \<Rightarrow> (pyval \<Rightarrow> string) \<Rightarrow> od_config \<Rightarrow> od_config res" where
  "normalize_fields loads rp c =
     bind_res (normalize_group_sizes (oc_group_sizes c)) (\<lambda>sizes.
     bind_res (normalize_group_sizes (oc_edf_greedy_sp_sizes c)) (\<lambda>sp_sizes.
     bind_res (normalize_groups_json loads (oc_groups_json c)) (\<lambda>groups.
     bind_res (normalize_dit_step_schedule_field loads rp (oc_dit_step_schedule c)) (\<lambda>sched.
       Inr (c\<lparr>oc_group_sizes := sizes, oc_edf_greedy_sp_sizes := sp_sizes, oc_groups_json := groups,
              oc_dit_step_schedule := sched\<rparr>)))))"

definition check_policy_fields :: "od_config \<Rightarrow> unit res" where
  "check_policy_fields c =
     bind_res (require (\<not> (oc_scheduler_policy c \<in> {''edf_greedy'', ''edf_best_fit'', ''wave_stress''}
                          \<and> oc_collective_backend c \<noteq> Some ''gfc''))) (\<lambda>_.
       if oc_scheduler_policy c \<in> {''disaggregate'', ''dynamic_step_fcfs''} then
         bind_res (require (\<not> blank (oc_aux_group_id c))) (\<lambda>_.
         bind_res (require (\<not> blank (oc_dit_group_id c))) (\<lambda>_.
           require (oc_aux_group_id c \<noteq> oc_dit_group_id c)))
       else Inr ())"

definition od_post_init ::
  "(string \<Rightarrow> pyval option) \<Rightarrow> (pyval \<Rightarrow> string) \<Rightarrow> od_config \<Rightarrow> od_config res" where
  "od_post_init loads rp c =
     bind_res (settle_num_gpus c) (\<lambda>c.
     bind_res (check_limits c) (\<lambda>c.
     bind_res (check_names c) (\<lambda>c.
     bind_res (normalize_fields loads rp c) (\<lambda>c.
     bind_res (check_policy_fields c) (\<lambda>_. Inr c)))))"

section \<open>Lemmas\<close>

lemma require_simps [simp]:
  "require b = Inr u \<longleftrightarrow> b" "require b = Inl e \<longleftrightarrow> \<not> b \<and> e = ValueError"
  by (auto simp: require_def)

lemma bind_require [simp]: "bind_res (require b) f = (if b then f () else Inl ValueError)"
  by (simp add: require_def)

lemma as_value_error_Inr [simp]: "as_value_error m = Inr a \<longleftrightarrow> m = Inr a"
  by (auto simp: as_value_error_def split: sum.splits)

lemma map_res_PyInt [simp]: "map_res to_int (map PyInt xs) = Inr xs"
  by (induction xs) auto

text \<open>The parallel configuration: the degrees multiply to the world size unless FSDP stands alone.\<close>

lemma mk_parallel_config_wf:
  assumes "mk_parallel_config c0 = Inr c"
  shows "0 < pc_tensor_parallel_size c" "pc_sequence_parallel_size c = Some (pc_ulysses_degree c * pc_ring_degree c)"
    "0 < pc_ulysses_degree c" "0 < pc_ring_degree c" "0 < pc_cfg_parallel_size c" "0 < pc_world_size c"
    "pc_world_size c = other_parallel_world_size c \<or> pc_use_hsdp c \<and> other_parallel_world_size c = 1"
proof -
  from assms obtain "parallel_post_init c0 = Inr c" and v: "validate_parallel_config c = Inr ()"
    by (auto simp: mk_parallel_config_def bind_res_eq_Inr)
  then have w: "pc_world_size c = other_parallel_world_size c
      \<or> pc_use_hsdp c \<and> other_parallel_world_size c = 1 \<and> pc_world_size c = pc_hsdp_replicate_size c * pc_hsdp_shard_size c"
    by (auto simp: parallel_post_init_def other_parallel_world_size_def Let_def split: if_splits option.splits)
  show sp: "0 < pc_tensor_parallel_size c" "pc_sequence_parallel_size c = Some (pc_ulysses_degree c * pc_ring_degree c)"
    "0 < pc_ulysses_degree c" "0 < pc_ring_degree c" "0 < pc_cfg_parallel_size c"
    using v by (auto simp: validate_parallel_config_def split: option.splits)
  show "0 < pc_world_size c"
    using w sp v by (auto simp: validate_parallel_config_def other_parallel_world_size_def)
  show "pc_world_size c = other_parallel_world_size c \<or> pc_use_hsdp c \<and> other_parallel_world_size c = 1"
    using w by blast
qed

text \<open>Printing and parsing.\<close>

lemma digit_value_char: "d < 10 \<Longrightarrow> digit_value (digit_char d) = Some d"
  by (auto simp: digit_char_def digit_value_def numeral_eq_Suc less_Suc_eq)

lemma more_digits_append:
  "set s \<subseteq> set ''0123456789'' \<Longrightarrow> more_digits a (s @ t) = (case more_digits a s of None \<Rightarrow> None | Some b \<Rightarrow> more_digits b t)"
  by (induction s arbitrary: a) (auto simp: digit_value_def)

lemma digits_str_nat: "digits (str_nat n) = Some n"
proof (induction n rule: str_nat.induct)
  case (1 n)
  show ?case
  proof (cases "n < 10")
    case True
    then show ?thesis by (simp add: str_nat_small digits_def digit_value_char)
  next
    case False
    obtain c cs where s: "str_nat (n div 10) = c # cs" by (cases "str_nat (n div 10)") auto
    then obtain d where d: "digit_value c = Some d" "more_digits d cs = Some (n div 10)"
      using 1 [OF False] by (auto simp: digits_def split: option.splits)
    have "set cs \<subseteq> set ''0123456789''" using set_str_nat [of "n div 10"] s by auto
    from more_digits_append [OF this, of d] d show ?thesis
      by (simp add: str_nat_big [OF False] s digits_def digit_value_char)
  qed
qed

lemma strip_no_space: "\<forall>c \<in> set s. \<not> is_space c \<Longrightarrow> strip s = s"
proof -
  assume "\<forall>c \<in> set s. \<not> is_space c"
  then have "dropWhile is_space s = s" "dropWhile is_space (rev s) = rev s"
    by (auto simp: dropWhile_eq_self_iff hd_rev)
  then show ?thesis by (simp add: strip_def)
qed

lemma digit_chars: "c \<in> set ''0123456789'' \<Longrightarrow> \<not> is_space c \<and> c \<noteq> CHR ''-'' \<and> c \<noteq> CHR ''+'' \<and> c \<noteq> CHR '',''"
  by (auto simp: is_space_def)

lemma strip_str_nat [simp]: "strip (str_nat n) = str_nat n"
  using set_str_nat [of n] digit_chars by (intro strip_no_space) blast

lemma int_of_str_nat [simp]: "int_of_string (str_nat n) = Some (int n)"
proof -
  obtain c cs where s: "str_nat n = c # cs" by (cases "str_nat n") auto
  then have "c \<noteq> CHR ''-'' \<and> c \<noteq> CHR ''+''" using set_str_nat [of n] digit_chars [of c] by simp
  then show ?thesis using digits_str_nat [of n] strip_str_nat [of n] s by (simp add: int_of_string_def)
qed

lemma split_on_append: "c \<notin> set w \<Longrightarrow> split_on c (w @ c # s) = w # split_on c s"
  by (induction w) auto

lemma split_on_single: "c \<notin> set w \<Longrightarrow> split_on c w = [w]"
  by (induction w) auto

text \<open>\<open>",".join(map(str, xs))\<close>.\<close>

fun join_sizes :: "nat list \<Rightarrow> string" where
  "join_sizes [] = []"
| "join_sizes [n] = str_nat n"
| "join_sizes (n # ns) = str_nat n @ CHR '','' # join_sizes ns"

lemma split_join_sizes: "ns \<noteq> [] \<Longrightarrow> split_on (CHR '','') (join_sizes ns) = map str_nat ns"
proof (induction ns rule: join_sizes.induct)
  case (2 n)
  then show ?case using set_str_nat [of n] digit_chars by (auto intro!: split_on_single)
next
  case (3 n m ns)
  have "CHR '','' \<notin> set (str_nat n)" using set_str_nat [of n] digit_chars by blast
  then show ?case using 3 by (simp add: split_on_append)
qed simp

text \<open>The comma-separated form of the group sizes is read back.\<close>

lemma parts_join_sizes:
  "ns \<noteq> [] \<Longrightarrow> filter (\<lambda>p. p \<noteq> []) (map strip (split_on (CHR '','') (join_sizes ns))) = map str_nat ns"
  by (simp add: split_join_sizes o_def filter_id_conv)

lemma map_res_str_nat: "map_res to_int (map (PyStr \<circ> str_nat) ns) = Inr (map int ns)"
  by (induction ns) auto

text \<open>Normalised fields are kept by a second normalisation.\<close>

lemma normalize_group_sizes_idem:
  "normalize_group_sizes v = Inr v' \<Longrightarrow> normalize_group_sizes v' = Inr v'"
  by (auto simp: normalize_group_sizes_def bind_res_eq_Inr as_value_error_def split: if_splits)

lemma map_res_objects [simp]:
  "map_res (\<lambda>i. case i of PyDict d \<Rightarrow> Inr d | _ \<Rightarrow> Inl ValueError) (map PyDict ds) = Inr ds"
  by (induction ds) auto

lemma resolve_list_or_none:
  "resolve_objects loads key (list_or_none l) = Inr (case l of None \<Rightarrow> None | Some [] \<Rightarrow> None | Some ds \<Rightarrow> Some ds)"
  by (auto simp: resolve_objects_def list_or_none_def split: option.splits list.splits)

lemma normalize_groups_json_idem:
  "normalize_groups_json loads v = Inr v' \<Longrightarrow> normalize_groups_json loads v' = Inr v'"
proof -
  assume "normalize_groups_json loads v = Inr v'"
  then obtain ds where "v' = list_or_none ds" by (auto simp: normalize_groups_json_def bind_res_eq_Inr)
  then show ?thesis
    by (simp add: normalize_groups_json_def resolve_list_or_none) (simp add: list_or_none_def split: option.split list.split)
qed

definition schedule_object :: "string \<Rightarrow> int \<Rightarrow> int option \<Rightarrow> pydict" where
  "schedule_object gid start e =
     [(''start'', PyInt start), (''end'', case e of None \<Rightarrow> PyNone | Some e \<Rightarrow> PyInt e), (''group_id'', PyStr gid)]"

lemma normalize_schedule_item_shape:
  assumes "normalize_schedule_item rp d = Inr d'"
  obtains gid start e where "d' = schedule_object gid start e" "gid \<noteq> []" "0 \<le> start"
    "case e of None \<Rightarrow> True | Some e \<Rightarrow> start < e"
  using assms that
  unfolding normalize_schedule_item_def Let_def bind_require schedule_object_def [symmetric]
  by (auto elim!: bind_res_InrE simp del: option.case split: if_split_asm)

lemma get_schedule_object [simp]:
  "get_dflt (schedule_object gid start e) ''group_id'' v = PyStr gid"
  "get_dflt (schedule_object gid start e) ''start'' v = PyInt start"
  "get_dflt (schedule_object gid start e) ''end'' v = (case e of None \<Rightarrow> PyNone | Some e \<Rightarrow> PyInt e)"
  by (simp_all add: get_dflt_def schedule_object_def)

lemma normalize_schedule_item_idem:
  assumes "normalize_schedule_item rp d = Inr d'"
  shows "normalize_schedule_item rp d' = Inr d'"
  using assms
proof (cases rule: normalize_schedule_item_shape)
  case (1 gid start e)
  then show ?thesis
    by (cases e) (simp_all add: normalize_schedule_item_def Let_def as_value_error_def, simp_all add: schedule_object_def)
qed

lemma normalize_schedule_items_idem:
  "map_res (normalize_schedule_item rp) l = Inr l' \<Longrightarrow> map_res (normalize_schedule_item rp) l' = Inr l'"
  unfolding map_res_all2 list_all2_conv_all_nth by (metis normalize_schedule_item_idem)

lemma normalize_schedule_idem:
  assumes "normalize_dit_step_schedule_field loads rp v = Inr v'"
  shows "normalize_dit_step_schedule_field loads rp v' = Inr v'"
proof -
  from assms consider "v' = PyNone" | l l' where "map_res (normalize_schedule_item rp) l = Inr l'" "v' = list_or_none (Some l')"
    by (auto simp: normalize_dit_step_schedule_field_def bind_res_eq_Inr split: option.splits)
  then show ?thesis
  proof cases
    case 1
    then show ?thesis by (simp add: normalize_dit_step_schedule_field_def resolve_objects_def)
  next
    case 2
    from normalize_schedule_items_idem [OF 2(1)] show ?thesis
      unfolding normalize_dit_step_schedule_field_def 2(2) resolve_list_or_none
      by (cases l') (auto simp: list_or_none_def)
  qed
qed

lemma str_lower_idem: "str_lower (str_lower s) = str_lower s"
  by (auto simp: str_lower_def Let_def)

lemma backend_name_idem: "backend_name (Some (backend_name b)) = backend_name b"
proof -
  define x where "x = (if blank b then ''torch'' else the b)"
  have "x \<noteq> []" by (auto simp: x_def blank_def)
  then have "\<not> blank (Some (str_lower x))" by (simp add: blank_def str_lower_def)
  then show ?thesis by (simp add: backend_name_def x_def [symmetric] str_lower_idem)
qed

lemma normalize_fieldsE:
  assumes "normalize_fields loads rp c = Inr c'"
  obtains a b g s where "normalize_group_sizes (oc_group_sizes c) = Inr a" "normalize_group_sizes (oc_edf_greedy_sp_sizes c) = Inr b"
    "normalize_groups_json loads (oc_groups_json c) = Inr g"
    "normalize_dit_step_schedule_field loads rp (oc_dit_step_schedule c) = Inr s"
    "c' = c\<lparr>oc_group_sizes := a, oc_edf_greedy_sp_sizes := b, oc_groups_json := g, oc_dit_step_schedule := s\<rparr>"
  using assms unfolding normalize_fields_def by (elim bind_res_InrE) simp

lemma check_namesE:
  assumes "check_names c = Inr c'"
  obtains "c' = c\<lparr>oc_scheduler_policy := str_lower (oc_scheduler_policy c), oc_collective_backend := Some (backend_name (oc_collective_backend c))\<rparr>"
    "str_lower (oc_scheduler_policy c) \<in> set POLICY_NAMES" "backend_name (oc_collective_backend c) \<in> {''torch'', ''gfc''}"
    "\<not> oc_gfc_max_collective_mb c < 1"
  using assms unfolding check_names_def Let_def bind_require by (metis Inl_Inr_False Inr_inject)

text \<open>
  Normalising a configuration that was accepted changes nothing: a configuration that is passed
  on to another process and constructed again there is accepted, and it is the same.
\<close>

theorem od_post_init_idempotent:
  assumes "od_post_init loads rp c = Inr c'"
  shows "od_post_init loads rp c' = Inr c'"
proof -
  from assms obtain c1 c2 c3 where
    s: "settle_num_gpus c = Inr c1" "check_limits c1 = Inr c2" "check_names c2 = Inr c3"
      "normalize_fields loads rp c3 = Inr c'" "check_policy_fields c' = Inr ()"
    by (auto simp: od_post_init_def bind_res_eq_Inr)
  from s(3) obtain c3: "c3 = c2\<lparr>oc_scheduler_policy := str_lower (oc_scheduler_policy c2), oc_collective_backend := Some (backend_name (oc_collective_backend c2))\<rparr>"
    and names: "str_lower (oc_scheduler_policy c2) \<in> set POLICY_NAMES" "backend_name (oc_collective_backend c2) \<in> {''torch'', ''gfc''}"
      "\<not> oc_gfc_max_collective_mb c2 < 1"
    by (rule check_namesE)
  from s(4) obtain a b g x where f: "normalize_group_sizes (oc_group_sizes c3) = Inr a" "normalize_group_sizes (oc_edf_greedy_sp_sizes c3) = Inr b"
    "normalize_groups_json loads (oc_groups_json c3) = Inr g"
    "normalize_dit_step_schedule_field loads rp (oc_dit_step_schedule c3) = Inr x"
    and c': "c' = c3\<lparr>oc_group_sizes := a, oc_edf_greedy_sp_sizes := b, oc_groups_json := g, oc_dit_step_schedule := x\<rparr>"
    by (rule normalize_fieldsE)
  have "check_names c' = Inr c'"
    using names unfolding check_names_def Let_def c' c3 by (simp add: str_lower_idem backend_name_idem)
  moreover have "check_limits c' = Inr c'"
    using s(2) unfolding check_limits_def Let_def c' c3 by (auto split: if_splits)
  moreover have "settle_num_gpus c' = Inr c'"
    using s(1,2) unfolding settle_num_gpus_def check_limits_def Let_def c' c3 by (auto split: if_splits)
  moreover have "normalize_fields loads rp c' = Inr c'"
    using f(1,2) [THEN normalize_group_sizes_idem] f(3) [THEN normalize_groups_json_idem] f(4) [THEN normalize_schedule_idem]
    by (simp add: normalize_fields_def c')
  ultimately show ?thesis using s(5) by (simp add: od_post_init_def)
qed

text \<open>
  Group sizes written as a comma-separated text mean the sizes: the text of positive numbers is
  read back as the list of them.
\<close>

theorem group_sizes_text_roundtrip:
  assumes "ns \<noteq> []" "0 \<notin> set ns"
  shows "normalize_group_sizes (PyStr (join_sizes ns)) = Inr (PyList (map PyInt (map int ns)))"
proof -
  have "\<forall>p \<in> set (map int ns). 0 < p" using assms(2) by (auto intro: Suc_leI gr0I)
  then show ?thesis
    using assms(1) map_res_str_nat [of ns]
    by (simp add: normalize_group_sizes_def parts_join_sizes [OF assms(1)] o_def)
qed

section \<open>A concrete configuration\<close>

text \<open>Four GPUs in two groups of two, the first for the encoders, the second for the transformer.\<close>

definition ex_parallel_config :: parallel_config where
  "ex_parallel_config =
     \<lparr>pc_pipeline_parallel_size = 1, pc_data_parallel_size = 1, pc_tensor_parallel_size = 1, pc_enable_expert_parallel = False,
      pc_sequence_parallel_size = Some 1, pc_ulysses_degree = 1, pc_ring_degree = 1, pc_cfg_parallel_size = 1,
      pc_vae_patch_parallel_size = 1, pc_use_hsdp = False, pc_hsdp_shard_size = - 1, pc_hsdp_replicate_size = 1,
      pc_world_size = 1\<rparr>"

definition ex_config :: od_config where
  "ex_config =
     \<lparr>oc_num_gpus = Some 4, oc_parallel_config = ex_parallel_config, oc_denoise_chunk_size = 1,
      oc_postprocess_workers_per_gpu = None, oc_scheduler_policy = ''Disaggregate'', oc_collective_backend = None,
      oc_gfc_max_collective_mb = 128, oc_group_sizes = PyStr ''2, 2'', oc_groups_json = PyNone, oc_dit_step_schedule = PyNone,
      oc_edf_greedy_sp_sizes = PyNone, oc_cost_model_dir = None, oc_aux_group_id = Some ''g0'', oc_dit_group_id = Some ''g1'',
      oc_wave_stress_warmup_reqs = 5, oc_wave_stress_wave_size = 4\<rparr>"

lemma ex_od_post_init:
  "od_post_init (\<lambda>_. None) (\<lambda>_. []) ex_config =
     Inr (ex_config\<lparr>oc_postprocess_workers_per_gpu := Some 2, oc_scheduler_policy := ''disaggregate'',
                    oc_collective_backend := Some ''torch'', oc_group_sizes := PyList [PyInt 2, PyInt 2]\<rparr>)"
  by code_simp

theorem od_post_init_idempotent_witness:
  "\<exists>c'. od_post_init (\<lambda>_. None) (\<lambda>_. []) ex_config = Inr c' \<and> od_post_init (\<lambda>_. None) (\<lambda>_. []) c' = Inr c'
     \<and> oc_group_sizes c' = PyList [PyInt 2, PyInt 2]"
  using ex_od_post_init od_post_init_idempotent [OF ex_od_post_init] by auto

theorem group_sizes_text_roundtrip_witness:
  "join_sizes [2, 4] = ''2,4'' \<and> normalize_group_sizes (PyStr ''2,4'') = Inr (PyList [PyInt 2, PyInt 4])"
proof -
  have j: "join_sizes [2, 4] = ''2,4''" by code_simp
  show ?thesis using group_sizes_text_roundtrip [of "[2, 4]"] j by simp
qed

end
