(* ===== verification/Startup.thy ===== *)
theory Startup
  imports Config
begin

text \<open>
  The start-up of the runtime (\<open>runtime_v2/runner.py\<close>): the execution groups are built from the
  configuration, in one of four ways, checked against the number of workers and made into the
  topology.
\<close>

section \<open>Groups from the configuration\<close>

text \<open>\<open>range(a, b)\<close>.\<close>

definition py_range :: "int \<Rightarrow> int \<Rightarrow> int list" where
  "py_range a b = [a..b - 1]"

definition parse_group_sizes :: "pyval \<Rightarrow> int list res" where
  "parse_group_sizes v =
     bind_res
       (case v of
          PyStr s \<Rightarrow>
            let parts = filter (\<lambda>p. p \<noteq> []) (map strip (split_on (CHR '','') s))
            in if parts = [] then Inl ValueError else map_res to_int (map PyStr parts)
        | PyList xs \<Rightarrow> map_res to_int xs
        | _ \<Rightarrow> Inl ValueError) (\<lambda>sizes.
     if sizes = [] then Inl ValueError
     else if \<exists>n \<in> set sizes. n < 1 then Inl ValueError
     else Inr sizes)"

definition parse_group_task_kinds :: "(pyval \<Rightarrow> string) \<Rightarrow> pyval \<Rightarrow> task_kind list \<Rightarrow> task_kind list res" where
  "parse_group_task_kinds rp raw dflt =
     (case raw of
        PyNone \<Rightarrow> Inr dflt
      | PyList kinds \<Rightarrow>
          bind_res (map_res (\<lambda>k. task_kind_of_value (to_str rp k)) kinds) (\<lambda>parsed.
            if parsed = [] then Inl ValueError else Inr parsed)
      | _ \<Rightarrow> Inl ValueError)"

text \<open>An optional degree, and one with a default.\<close>

definition opt_int :: "pyval \<Rightarrow> int option res" where
  "opt_int v = (if v = PyNone then Inr None else bind_res (to_int v) (\<lambda>i. Inr (Some i)))"

definition resolve_sequence_parallel_dims :: "pydict \<Rightarrow> (int \<times> int \<times> int) res" where
  "resolve_sequence_parallel_dims d =
     (let legacy = get_dflt d ''sp'' (get_dflt d ''sequence_parallel_size'' PyNone);
          ulysses = get_dflt d ''ulysses_degree'' (get_dflt d ''ulysses'' PyNone);
          ring = get_dflt d ''ring_degree'' (get_dflt d ''ring'' PyNone)
      in bind_res
           (if ulysses = PyNone \<and> ring = PyNone then
              (if legacy \<noteq> PyNone then bind_res (to_int legacy) (\<lambda>sp. Inr (sp, sp, 1)) else Inr (1, 1, 1))
            else
              bind_res (to_int (if ulysses \<noteq> PyNone then ulysses else PyInt 1)) (\<lambda>u.
              bind_res (to_int (if ring \<noteq> PyNone then ring else PyInt 1)) (\<lambda>r.
              bind_res (opt_int legacy) (\<lambda>l.
                if l \<noteq> None \<and> l \<noteq> Some (u * r) then Inl ValueError else Inr (u * r, u, r))))) (\<lambda>(sp, u, r).
         if u < 1 then Inl ValueError
         else if r < 1 then Inl ValueError
         else if sp < 1 then Inl ValueError
         else Inr (sp, u, r)))"

text \<open>The ranks of an entry, given or counted from the next free rank, and the next free rank after it.\<close>

definition resolve_ranks :: "pydict \<Rightarrow> int \<Rightarrow> (int list \<times> int) res" where
  "resolve_ranks d next_rank =
     (let ranks_raw = get_dflt d ''ranks'' PyNone; size_raw = get_dflt d ''size'' PyNone
      in if ranks_raw \<noteq> PyNone then
           (case ranks_raw of
              PyList l \<Rightarrow>
                bind_res (map_res to_int l) (\<lambda>ranks.
                if ranks = [] then Inl ValueError
                else bind_res (opt_int size_raw) (\<lambda>n.
                  if n \<noteq> None \<and> n \<noteq> Some (int (length ranks)) then Inl ValueError
                  else Inr (ranks, next_rank)))
            | _ \<Rightarrow> Inl ValueError)
         else if size_raw = PyNone then Inl ValueError
         else bind_res (to_int size_raw) (\<lambda>n.
           if n < 1 then Inl ValueError
           else Inr (py_range next_rank (next_rank + n), next_rank + n)))"

definition group_from_entry ::
  "(pyval \<Rightarrow> string) \<Rightarrow> task_kind list \<Rightarrow> nat \<Rightarrow> int list \<Rightarrow> pydict \<Rightarrow> group_spec res" where
  "group_from_entry rp dflt idx ranks d =
     (let gid = to_str rp (get_dflt d ''group_id'' (PyStr (''g'' @ str_nat idx)))
      in bind_res (to_int (get_dflt d ''tp'' (PyInt (int (length ranks))))) (\<lambda>tp.
         bind_res (resolve_sequence_parallel_dims d) (\<lambda>(sp, u, r).
         bind_res (to_int (get_dflt d ''cfg'' (PyInt 1))) (\<lambda>cfg.
         bind_res (mk_parallel_spec tp sp cfg (to_bool (get_dflt d ''cfg_parallel'' (PyBool False)))) (\<lambda>par.
         if ps_tp par * ps_sp par * ps_cfg par \<noteq> int (length ranks) then Inl ValueError
         else
           bind_res (parse_group_task_kinds rp (get_dflt d ''supported_task_kinds'' PyNone) dflt) (\<lambda>kinds.
             mk_group_spec gid ranks par kinds u r))))))"

definition add_entry ::
  "(pyval \<Rightarrow> string) \<Rightarrow> task_kind list \<Rightarrow> group_spec list \<times> int \<Rightarrow> nat \<times> pyval \<Rightarrow> (group_spec list \<times> int) res" where
  "add_entry rp dflt s e =
     (case (s, e) of ((groups, next_rank), (idx, raw)) \<Rightarrow>
        (case raw of
           PyDict d \<Rightarrow>
             bind_res (resolve_ranks d next_rank) (\<lambda>(ranks, next_rank').
             bind_res (group_from_entry rp dflt idx ranks d) (\<lambda>g.
               Inr (groups @ [g], next_rank')))
         | _ \<Rightarrow> Inl ValueError))"

definition build_groups_from_groups_json ::
  "(pyval \<Rightarrow> string) \<Rightarrow> pyval \<Rightarrow> task_kind list \<Rightarrow> group_spec list res" where
  "build_groups_from_groups_json rp groups_json dflt =
     (case groups_json of
        PyList l \<Rightarrow>
          if l = [] then Inl ValueError
          else bind_res (for_res (add_entry rp dflt) ([], 0) (zip [0..<length l] l)) (\<lambda>(groups, _). Inr groups)
      | _ \<Rightarrow> Inl ValueError)"

definition add_sized ::
  "task_kind list \<Rightarrow> group_spec list \<times> int \<Rightarrow> nat \<times> int \<Rightarrow> (group_spec list \<times> int) res" where
  "add_sized kinds s e =
     (case (s, e) of ((groups, cursor), (idx, n)) \<Rightarrow>
        bind_res (mk_parallel_spec n 1 1 False) (\<lambda>par.
        bind_res (mk_group_spec (''g'' @ str_nat idx) (py_range cursor (cursor + n)) par kinds 1 1) (\<lambda>g.
          Inr (groups @ [g], cursor + n))))"

definition build_groups_from_group_sizes :: "pyval \<Rightarrow> int \<Rightarrow> task_kind list \<Rightarrow> group_spec list res" where
  "build_groups_from_group_sizes group_sizes worker_count kinds =
     bind_res (parse_group_sizes group_sizes) (\<lambda>sizes.
     if sum_list sizes \<noteq> worker_count then Inl ValueError
     else bind_res (for_res (add_sized kinds) ([], 0) (zip [0..<length sizes] sizes)) (\<lambda>(groups, _). Inr groups))"

definition build_edf_greedy_bootstrap_groups :: "int \<Rightarrow> task_kind list \<Rightarrow> group_spec list res" where
  "build_edf_greedy_bootstrap_groups worker_count kinds =
     bind_res
       (if 1 < worker_count then
          bind_res (mk_parallel_spec 1 worker_count 1 False) (\<lambda>par.
          bind_res (mk_group_spec ''g_world'' (py_range 0 worker_count) par [DIT_PREPARE, TIMESTEP_PREPARE, DIT_STEP_CHUNK]
                      worker_count 1) (\<lambda>g. Inr [g]))
        else Inr []) (\<lambda>groups.
     for_res (\<lambda>gs rank.
         bind_res (mk_parallel_spec 1 1 1 False) (\<lambda>par.
         bind_res (mk_group_spec (''g_sp1_r'' @ str_int rank) [rank] par kinds 1 1) (\<lambda>g. Inr (gs @ [g]))))
       groups (py_range 0 worker_count))"

definition implicit_group :: "parallel_config \<Rightarrow> int list \<Rightarrow> task_kind list \<Rightarrow> group_spec list res" where
  "implicit_group pc ranks kinds =
     (let sp = (case pc_sequence_parallel_size pc of None \<Rightarrow> 1 | Some n \<Rightarrow> if n = 0 then 1 else n)
      in bind_res (mk_parallel_spec (pc_tensor_parallel_size pc) sp (pc_cfg_parallel_size pc) False) (\<lambda>par.
         bind_res (mk_group_spec ''g0'' ranks par kinds (pc_ulysses_degree pc) (pc_ring_degree pc)) (\<lambda>g. Inr [g])))"

section \<open>The topology\<close>

definition validate_group_partition :: "group_spec list \<Rightarrow> int \<Rightarrow> unit res" where
  "validate_group_partition groups worker_count =
     (let assigned = concat (map g_ranks groups)
      in if \<exists>r \<in> set assigned. r < 0 \<or> worker_count \<le> r then Inl ValueError
         else if \<exists>r \<in> set (py_range 0 worker_count). r \<notin> set assigned then Inl ValueError
         else Inr ())"

definition worker_count :: "od_config \<Rightarrow> int" where
  "worker_count c =
     (case oc_num_gpus c of None \<Rightarrow> pc_world_size (oc_parallel_config c)
      | Some n \<Rightarrow> if n = 0 then pc_world_size (oc_parallel_config c) else n)"

definition startup_workers :: "int \<Rightarrow> worker_spec list" where
  "startup_workers n = map (\<lambda>i. \<lparr>w_rank = i, w_device_id = Some i, w_label = []\<rparr>) (py_range 0 n)"

definition build_groups :: "(pyval \<Rightarrow> string) \<Rightarrow> od_config \<Rightarrow> task_kind list \<Rightarrow> group_spec list res" where
  "build_groups rp c kinds =
     (let n = worker_count c; pc = oc_parallel_config c
      in if 1 < (if pc_data_parallel_size pc = 0 then 1 else pc_data_parallel_size pc)
            \<and> oc_groups_json c = PyNone \<and> oc_group_sizes c = PyNone then Inl ValueError
         else if oc_groups_json c \<noteq> PyNone then build_groups_from_groups_json rp (oc_groups_json c) kinds
         else if oc_group_sizes c \<noteq> PyNone then build_groups_from_group_sizes (oc_group_sizes c) n kinds
         else if str_lower (oc_scheduler_policy c) \<in> {''edf_greedy'', ''edf_best_fit''}
         then build_edf_greedy_bootstrap_groups n kinds
         else implicit_group pc (map w_rank (startup_workers n)) kinds)"

definition build_topology :: "(pyval \<Rightarrow> string) \<Rightarrow> od_config \<Rightarrow> task_kind list \<Rightarrow> topology res" where
  "build_topology rp c default_task_kinds =
     (let n = worker_count c;
          kinds = (if default_task_kinds = [] then STANDARD_TASK_KINDS else default_task_kinds)
      in bind_res (build_groups rp c kinds) (\<lambda>groups.
         bind_res (validate_group_partition groups n) (\<lambda>_. mk_topology (startup_workers n) groups)))"

section \<open>Construction of a topology\<close>

lemma mk_topology_parts: "mk_topology ws gs = Inr T \<Longrightarrow> tp_workers T = ws \<and> tp_groups T = gs"
  by (auto simp: mk_topology_def Let_def bind_res_eq_Inr split: if_splits)

lemma for_res_unguarded:
  "\<forall>x \<in> set xs. \<not> bad x \<Longrightarrow> for_res (\<lambda>s x. if bad x then Inl e else f s x) s xs = for_res f s xs"
  by (induction xs arbitrary: s) (auto simp: bind_res_def split: sum.splits)

lemma index_groups_ok:
  assumes "\<forall>r. idx r = (if r \<in> R then Some (row r) else None)" "\<forall>g \<in> set gs. set (g_ranks g) \<subseteq> R"
    "\<And>r. r \<in> R \<Longrightarrow> by_rank r \<noteq> None"
  shows "\<exists>idx'. for_res (\<lambda>idx g. for_res (\<lambda>idx r. if by_rank r = None then Inl ValueError
                     else index_group_rank g idx r) idx (g_ranks g)) idx gs = Inr idx'"
  using assms(1,2)
proof (induction gs arbitrary: idx row)
  case (Cons g gs)
  have g: "set (g_ranks g) \<subseteq> R" using Cons.prems(2) by simp
  from index_group_ranks [OF g Cons.prems(1), of g] obtain i where
    i: "for_res (index_group_rank g) idx (g_ranks g) = Inr i"
      "\<forall>r. i r = (if r \<in> R then Some (row r @ replicate (count_list (g_ranks g) r) g) else None)" by blast
  have "\<forall>r \<in> set (g_ranks g). \<not> by_rank r = None" using g assms(3) by blast
  note e = for_res_unguarded [OF this, of ValueError "index_group_rank g" idx]
  from Cons.IH [OF i(2)] Cons.prems(2) show ?case by (simp add: e i(1))
qed auto

lemma mk_topology_ok:
  assumes "ws \<noteq> []" "gs \<noteq> []" "distinct (map w_rank ws)" "distinct (map g_id gs)"
    and "(\<Union>g \<in> set gs. set (g_ranks g)) = set (map w_rank ws)"
  shows "\<exists>T. mk_topology ws gs = Inr T"
proof -
  let ?R = "set (map w_rank ws)"
  let ?by = "map_of (rev (map (\<lambda>w. (w_rank w, w)) ws))"
  have dom: "?by r \<noteq> None \<longleftrightarrow> r \<in> ?R" for r by (auto simp: map_of_eq_None_iff image_image)
  have "\<forall>g \<in> set gs. set (g_ranks g) \<subseteq> ?R" using assms(5) by blast
  from index_groups_ok [where row = "\<lambda>_. []" and by_rank = ?by, OF allI [OF refl] this] obtain idx where
    loop: "for_res (\<lambda>idx g. for_res (\<lambda>idx r. if ?by r = None then Inl ValueError
              else index_group_rank g idx r) idx (g_ranks g))
            (\<lambda>r. if r \<in> ?R then Some [] else None) gs = Inr idx" using dom by blast
  from index_groups [OF loop _ dom, of "\<lambda>_. []"] have
    idx: "\<forall>r. idx r = (if r \<in> ?R then Some (rank_row gs r) else None)" by auto
  have "rank_row gs (w_rank w) \<noteq> []" if "w \<in> set ws" for w
  proof -
    have "w_rank w \<in> (\<Union>g \<in> set gs. set (g_ranks g))" unfolding assms(5) using that by simp
    then obtain g where "g \<in> set gs" "w_rank w \<in> set (g_ranks g)" by blast
    then have "g \<in> set (rank_row gs (w_rank w))" by (simp add: set_rank_row)
    then show ?thesis by auto
  qed
  then show ?thesis using assms(1-4) loop idx by (simp add: mk_topology_def Let_def)
qed

section \<open>The groups fit their parallel specifications\<close>

definition group_fits :: "group_spec \<Rightarrow> bool" where
  "group_fits g \<longleftrightarrow> group_wf g
     \<and> ps_tp (g_parallel g) * ps_sp (g_parallel g) * ps_cfg (g_parallel g) = int (length (g_ranks g))"

lemma length_py_range [simp]: "int (length (py_range a b)) = max 0 (b - a)"
  by (simp add: py_range_def)

lemma py_range_Nil [simp]: "py_range a b = [] \<longleftrightarrow> b \<le> a"
  by (auto simp: py_range_def)

lemma set_py_range [simp]: "set (py_range a b) = {a..<b}"
  by (auto simp: py_range_def)

lemma py_range_append: "a \<le> b \<Longrightarrow> b \<le> c \<Longrightarrow> py_range a b @ py_range b c = py_range a c"
  unfolding py_range_def by (cases "a = b") (auto simp: upto_split2 [of a "b - 1" "c - 1"])

lemma mk_group_spec_parts:
  "mk_group_spec gid rs par kinds u r = Inr g \<Longrightarrow> g_id g = gid \<and> g_ranks g = rs \<and> g_parallel g = par \<and> g_kinds g = kinds"
  by (auto simp: mk_group_spec_def Let_def split: if_splits)

lemma mk_parallel_spec_eq:
  "mk_parallel_spec tp sp 1 False = (if tp < 1 \<or> sp < 1 then Inl ValueError
     else Inr \<lparr>ps_tp = tp, ps_sp = sp, ps_cfg = 1, ps_cfg_parallel = False\<rparr>)"
  by (simp add: mk_parallel_spec_def Let_def)

lemma group_from_entry_fits:
  assumes "group_from_entry rp dflt idx ranks d = Inr g"
  shows "group_fits g \<and> g_ranks g = ranks"
proof -
  from assms obtain tp sp u r cfg cp par kinds where
    par: "mk_parallel_spec tp sp cfg cp = Inr par" and
    n: "ps_tp par * ps_sp par * ps_cfg par = int (length ranks)" and
    g: "mk_group_spec (to_str rp (get_dflt d ''group_id'' (PyStr (''g'' @ str_nat idx)))) ranks par kinds u r = Inr g"
    unfolding group_from_entry_def Let_def
    by (elim bind_res_InrE) (auto split: if_split_asm prod.splits elim!: bind_res_InrE)
  show ?thesis
    using mk_group_spec_wf [OF g] mk_parallel_spec_wf [OF par] mk_group_spec_parts [OF g] n by (simp add: group_fits_def)
qed

lemma groups_json_fit:
  assumes "build_groups_from_groups_json rp v kinds = Inr gs"
  shows "\<forall>g \<in> set gs. group_fits g"
proof -
  from assms obtain l n where
    loop: "for_res (add_entry rp kinds) ([], 0) (zip [0..<length l] l) = Inr (gs, n)"
    by (auto simp: build_groups_from_groups_json_def bind_res_eq_Inr split: pyval.splits if_splits)
  have "\<forall>g \<in> set (fst (gs, n)). group_fits g"
  proof (rule for_res_invariant [where P = "\<lambda>s. \<forall>g \<in> set (fst s). group_fits g", OF _ _ loop])
    fix s e s' assume "\<forall>g \<in> set (fst s). group_fits g" "add_entry rp kinds s e = Inr s'"
    then show "\<forall>g \<in> set (fst s'). group_fits g"
      using group_from_entry_fits by (fastforce simp: add_entry_def bind_res_eq_Inr split: prod.splits pyval.splits)
  qed simp
  then show ?thesis by simp
qed

definition sized_group :: "task_kind list \<Rightarrow> nat \<Rightarrow> int \<Rightarrow> int \<Rightarrow> group_spec" where
  "sized_group kinds i cursor n =
     \<lparr>g_id = ''g'' @ str_nat i, g_ranks = py_range cursor (cursor + n),
      g_parallel = \<lparr>ps_tp = n, ps_sp = 1, ps_cfg = 1, ps_cfg_parallel = False\<rparr>, g_kinds = kinds, g_ulysses = 1, g_ring = 1\<rparr>"

lemma add_sized_eq:
  "1 \<le> n \<Longrightarrow> add_sized kinds (gs, cursor) (i, n) = Inr (gs @ [sized_group kinds i cursor n], cursor + n)"
  by (simp add: add_sized_def mk_parallel_spec_eq mk_group_spec_def sized_group_def py_range_def)

lemma add_sized_loop:
  assumes "\<forall>n \<in> set ns. 1 \<le> n"
  shows "\<exists>hs. for_res (add_sized kinds) (gs, cursor) (zip [i..<i + length ns] ns) = Inr (gs @ hs, cursor + sum_list ns)
     \<and> concat (map g_ranks hs) = py_range cursor (cursor + sum_list ns)
     \<and> map g_id hs = map (\<lambda>j. ''g'' @ str_nat j) [i..<i + length ns]
     \<and> map (\<lambda>g. length (g_ranks g)) hs = map nat ns \<and> (\<forall>g \<in> set hs. group_fits g \<and> g_kinds g = kinds)"
  using assms
proof (induction ns arbitrary: gs cursor i)
  case (Cons n ns)
  let ?g = "sized_group kinds i cursor n"
  have n: "1 \<le> n" and ns: "0 \<le> sum_list ns" using Cons.prems by (auto intro!: sum_list_nonneg)
  have "\<forall>n \<in> set ns. 1 \<le> n" using Cons.prems by simp
  from Cons.IH [OF this, of "gs @ [?g]" "cursor + n" "Suc i"] obtain hs where
    hs: "for_res (add_sized kinds) (gs @ [?g], cursor + n) (zip [Suc i..<Suc i + length ns] ns)
           = Inr ((gs @ [?g]) @ hs, cursor + n + sum_list ns)"
      "concat (map g_ranks hs) = py_range (cursor + n) (cursor + n + sum_list ns)"
      "map g_id hs = map (\<lambda>j. ''g'' @ str_nat j) [Suc i..<Suc i + length ns]"
      "map (\<lambda>g. length (g_ranks g)) hs = map nat ns" "\<forall>g \<in> set hs. group_fits g \<and> g_kinds g = kinds" by blast
  have u: "[i..<i + length (n # ns)] = i # [Suc i..<Suc i + length ns]" by (simp add: upt_conv_Cons del: upt_Suc)
  have g: "group_fits ?g" "g_kinds ?g = kinds" "g_ranks ?g = py_range cursor (cursor + n)" "g_id ?g = ''g'' @ str_nat i"
    using n by (simp_all add: group_fits_def group_wf_def sized_group_def py_range_def)
  have l: "length (g_ranks ?g) = nat n" using n by (simp add: g py_range_def)
  show ?case
    unfolding u using hs g l n ns py_range_append [of cursor "cursor + n" "cursor + n + sum_list ns"]
    by (intro exI [of _ "?g # hs"]) (simp add: add_sized_eq add.assoc del: upt_Suc)
qed (simp add: py_range_def)

lemma group_sizes_build:
  assumes "parse_group_sizes v = Inr ns" "sum_list ns = n"
  obtains gs where "build_groups_from_group_sizes v n kinds = Inr gs" "gs \<noteq> []" "concat (map g_ranks gs) = py_range 0 n"
    "map g_id gs = map (\<lambda>j. ''g'' @ str_nat j) [0..<length ns]" "map (\<lambda>g. length (g_ranks g)) gs = map nat ns"
    "\<forall>g \<in> set gs. group_fits g \<and> g_kinds g = kinds"
proof -
  have ns: "ns \<noteq> []" "\<forall>n \<in> set ns. 1 \<le> n"
    using assms(1) by (auto simp: parse_group_sizes_def bind_res_eq_Inr split: if_splits)
  from add_sized_loop [OF ns(2), of kinds "[]" 0 0] obtain gs where
    gs: "for_res (add_sized kinds) ([], 0) (zip [0..<length ns] ns) = Inr (gs, n)" "concat (map g_ranks gs) = py_range 0 n"
      "map g_id gs = map (\<lambda>j. ''g'' @ str_nat j) [0..<length ns]" "map (\<lambda>g. length (g_ranks g)) gs = map nat ns"
      "\<forall>g \<in> set gs. group_fits g \<and> g_kinds g = kinds"
    using assms(2) by auto
  moreover have "gs \<noteq> []" using ns(1) gs(4) by auto
  ultimately show ?thesis
    using assms that [of gs] by (simp add: build_groups_from_group_sizes_def)
qed

lemma group_sizes_parse:
  "build_groups_from_group_sizes v n kinds = Inr gs \<Longrightarrow> \<exists>ns. parse_group_sizes v = Inr ns \<and> sum_list ns = n"
  by (auto simp: build_groups_from_group_sizes_def bind_res_eq_Inr split: if_splits)

text \<open>The bootstrap groups of the EDF policies: one group over all ranks and one for every rank.\<close>

definition single_group :: "task_kind list \<Rightarrow> int \<Rightarrow> group_spec" where
  "single_group kinds r =
     \<lparr>g_id = ''g_sp1_r'' @ str_int r, g_ranks = [r], g_parallel = \<lparr>ps_tp = 1, ps_sp = 1, ps_cfg = 1, ps_cfg_parallel = False\<rparr>,
      g_kinds = kinds, g_ulysses = 1, g_ring = 1\<rparr>"

definition world_group :: "int \<Rightarrow> group_spec" where
  "world_group n =
     \<lparr>g_id = ''g_world'', g_ranks = py_range 0 n, g_parallel = \<lparr>ps_tp = 1, ps_sp = n, ps_cfg = 1, ps_cfg_parallel = False\<rparr>,
      g_kinds = [DIT_PREPARE, TIMESTEP_PREPARE, DIT_STEP_CHUNK], g_ulysses = n, g_ring = 1\<rparr>"

lemma for_res_snoc: "for_res (\<lambda>gs r. Inr (gs @ [f r])) gs rs = Inr (gs @ map f rs)"
  by (induction rs arbitrary: gs) auto

lemma bootstrap_groups:
  "build_edf_greedy_bootstrap_groups n kinds =
     Inr ((if 1 < n then [world_group n] else []) @ map (single_group kinds) (py_range 0 n))"
proof -
  have "bind_res (mk_parallel_spec 1 1 1 False) (\<lambda>par.
      bind_res (mk_group_spec (''g_sp1_r'' @ str_int r) [r] par kinds 1 1) (\<lambda>g. Inr (gs @ [g]))) = Inr (gs @ [single_group kinds r])"
    for gs r by (simp add: mk_parallel_spec_eq mk_group_spec_def single_group_def)
  then show ?thesis
    by (simp add: build_edf_greedy_bootstrap_groups_def for_res_snoc mk_parallel_spec_eq mk_group_spec_def world_group_def
        py_range_def)
qed

lemma str_int_inj: "0 \<le> a \<Longrightarrow> 0 \<le> b \<Longrightarrow> str_int a = str_int b \<longleftrightarrow> a = b"
  by (simp add: str_int_def str_nat_inj eq_nat_nat_iff)

lemma bootstrap_fits:
  assumes "1 \<le> n" and gs: "gs = (if 1 < n then [world_group n] else []) @ map (single_group kinds) (py_range 0 n)"
  shows "gs \<noteq> []" "\<forall>g \<in> set gs. group_fits g" "distinct (map g_id gs)" "(\<Union>g \<in> set gs. set (g_ranks g)) = {0..<n}"
proof -
  show "gs \<noteq> []" using assms by (simp add: py_range_def)
  show "\<forall>g \<in> set gs. group_fits g"
    using assms(1) by (auto simp: gs group_fits_def group_wf_def single_group_def world_group_def split: if_splits)
  have "inj_on (g_id \<circ> single_group kinds) {0..<n}"
    by (auto simp: inj_on_def single_group_def str_int_inj)
  then have "distinct (map g_id (map (single_group kinds) (py_range 0 n)))"
    by (simp add: distinct_map py_range_def atLeastLessThanPlusOne_atLeastAtMost_int [symmetric])
  moreover have "''g_world'' \<notin> g_id ` single_group kinds ` {0..<n}" by (auto simp: single_group_def)
  ultimately show "distinct (map g_id gs)" by (auto simp: gs world_group_def)
  show "(\<Union>g \<in> set gs. set (g_ranks g)) = {0..<n}" using assms(1) by (auto simp: gs single_group_def world_group_def)
qed

section \<open>Properties\<close>

lemma implicit_group_wf:
  assumes "implicit_group pc ranks kinds = Inr gs"
  shows "\<exists>g. gs = [g] \<and> group_wf g \<and> g_ranks g = ranks \<and> ps_tp (g_parallel g) = pc_tensor_parallel_size pc
     \<and> ps_cfg (g_parallel g) = pc_cfg_parallel_size pc
     \<and> ps_sp (g_parallel g) = (case pc_sequence_parallel_size pc of None \<Rightarrow> 1 | Some n \<Rightarrow> if n = 0 then 1 else n)"
proof -
  define sp where "sp = (case pc_sequence_parallel_size pc of None \<Rightarrow> 1 | Some n \<Rightarrow> if n = 0 then 1 else n)"
  from assms obtain par g where
    par: "mk_parallel_spec (pc_tensor_parallel_size pc) sp (pc_cfg_parallel_size pc) False = Inr par" and
    g: "mk_group_spec ''g0'' ranks par kinds (pc_ulysses_degree pc) (pc_ring_degree pc) = Inr g" and gs: "gs = [g]"
    unfolding implicit_group_def Let_def sp_def [symmetric] by (auto simp: bind_res_eq_Inr)
  have "ps_tp par = pc_tensor_parallel_size pc" "ps_sp par = sp" "ps_cfg par = pc_cfg_parallel_size pc"
    using par by (auto simp: mk_parallel_spec_def Let_def split: if_splits)
  then show ?thesis
    using mk_group_spec_wf [OF g] mk_parallel_spec_wf [OF par] mk_group_spec_parts [OF g] gs by (simp add: sp_def)
qed

text \<open>The groups are not the implicit one.\<close>

definition explicit_groups :: "od_config \<Rightarrow> bool" where
  "explicit_groups c \<longleftrightarrow> oc_groups_json c \<noteq> PyNone \<or> oc_group_sizes c \<noteq> PyNone
     \<or> str_lower (oc_scheduler_policy c) \<in> {''edf_greedy'', ''edf_best_fit''}"

lemma build_groups_explicit:
  assumes "build_groups rp c kinds = Inr gs" "explicit_groups c" "1 \<le> worker_count c"
  shows "\<forall>g \<in> set gs. group_fits g"
proof -
  from assms(1,2) consider
    (json) "build_groups_from_groups_json rp (oc_groups_json c) kinds = Inr gs"
    | (sizes) "build_groups_from_group_sizes (oc_group_sizes c) (worker_count c) kinds = Inr gs"
    | (edf) "build_edf_greedy_bootstrap_groups (worker_count c) kinds = Inr gs"
    unfolding build_groups_def Let_def explicit_groups_def by (metis Inl_Inr_False)
  then show ?thesis
  proof cases
    case json
    then show ?thesis by (rule groups_json_fit)
  next
    case sizes
    then obtain ns where "parse_group_sizes (oc_group_sizes c) = Inr ns" "sum_list ns = worker_count c"
      using group_sizes_parse by blast
    from group_sizes_build [OF this] show ?thesis using sizes by (metis Inr_inject)
  next
    case edf
    then have "gs = (if 1 < worker_count c then [world_group (worker_count c)] else [])
        @ map (single_group kinds) (py_range 0 (worker_count c))" by (simp only: bootstrap_groups sum.inject)
    then show ?thesis by (rule bootstrap_fits(2) [OF assms(3)])
  qed
qed

lemma build_groups_implicit:
  assumes "build_groups rp c kinds = Inr gs" "\<not> explicit_groups c"
  shows "implicit_group (oc_parallel_config c) (py_range 0 (worker_count c)) kinds = Inr gs"
    "\<not> 1 < pc_data_parallel_size (oc_parallel_config c)"
  using assms
  by (auto simp: build_groups_def Let_def explicit_groups_def startup_workers_def o_def split: if_splits)

lemma implicit_group_fits:
  assumes "mk_parallel_config pc0 = Inr pc" "implicit_group pc (py_range 0 n) kinds = Inr gs" "n = pc_world_size pc"
    "\<not> pc_use_hsdp pc" "pc_pipeline_parallel_size pc = 1" "pc_data_parallel_size pc = 1"
  shows "\<forall>g \<in> set gs. group_fits g"
proof -
  note pc = mk_parallel_config_wf [OF assms(1)]
  have "int (length (py_range 0 n)) = pc_tensor_parallel_size pc * (pc_ulysses_degree pc * pc_ring_degree pc) * pc_cfg_parallel_size pc"
    using pc(6,7) assms(3-6) by (simp add: other_parallel_world_size_def mult.assoc)
  moreover have "pc_ulysses_degree pc * pc_ring_degree pc \<noteq> 0" using pc(3,4) by simp
  ultimately show ?thesis using implicit_group_wf [OF assms(2)] pc(2) by (auto simp: group_fits_def)
qed

lemma build_groups_wf:
  assumes "build_groups rp c kinds = Inr gs" "1 \<le> worker_count c"
  shows "\<forall>g \<in> set gs. group_wf g"
proof (cases "explicit_groups c")
  case True
  then show ?thesis using build_groups_explicit [OF assms(1)] assms(2) by (simp add: group_fits_def)
next
  case False
  from implicit_group_wf [OF build_groups_implicit(1) [OF assms(1) False]] show ?thesis by auto
qed

lemma validate_group_partition_iff:
  "validate_group_partition gs n = Inr () \<longleftrightarrow> (\<Union>g \<in> set gs. set (g_ranks g)) = {0..<n}"
proof -
  define A where "A = set (concat (map g_ranks gs))"
  have out: "(\<exists>r \<in> A. r < 0 \<or> n \<le> r) \<longleftrightarrow> \<not> A \<subseteq> {0..<n}" by (force simp: not_less not_le)
  have gap: "(\<exists>r \<in> {0..<n}. r \<notin> A) \<longleftrightarrow> \<not> {0..<n} \<subseteq> A" by blast
  have "validate_group_partition gs n = Inr () \<longleftrightarrow> A \<subseteq> {0..<n} \<and> {0..<n} \<subseteq> A"
    unfolding validate_group_partition_def Let_def set_py_range A_def [symmetric] out gap by simp
  then show ?thesis unfolding A_def by auto
qed

lemma build_topologyE:
  assumes "build_topology rp c dflt = Inr T"
  obtains kinds where "build_groups rp c kinds = Inr (tp_groups T)" "tp_workers T = startup_workers (worker_count c)"
    "topology_inv T" "(\<Union>g \<in> set (tp_groups T). set (g_ranks g)) = {0..<worker_count c}" "1 \<le> worker_count c"
proof -
  define kinds where "kinds = (if dflt = [] then STANDARD_TASK_KINDS else dflt)"
  from assms obtain gs where gs: "build_groups rp c kinds = Inr gs" "validate_group_partition gs (worker_count c) = Inr ()"
    and T: "mk_topology (startup_workers (worker_count c)) gs = Inr T"
    unfolding build_topology_def Let_def kinds_def [symmetric] by (elim bind_res_InrE) simp
  note p = mk_topology_parts [OF T] and inv = mk_topology_inv [OF T]
  have "startup_workers (worker_count c) \<noteq> []" using inv p by (simp add: topology_inv_def)
  then have "1 \<le> worker_count c" by (simp add: startup_workers_def)
  then show ?thesis using that gs p inv validate_group_partition_iff by simp
qed

text \<open>
  C28: A configuration that the runner accepts gives a sound topology: one worker per GPU, ranked from
  0, the groups cover exactly these ranks, the lookup tables are exact, and every group is well
  formed. A group from the configuration or the bootstrap of an EDF policy has as many ranks as its
  degrees of parallelism multiply to; the implicit single group has them if the number of GPUs is the
  world size of the parallel configuration, without pipeline stages and without FSDP.
\<close>

theorem startup_topology_sound:
  assumes "mk_parallel_config pc0 = Inr (oc_parallel_config c)" and T: "build_topology rp c dflt = Inr T"
  shows "topology_inv T \<and> map w_rank (tp_workers T) = py_range 0 (worker_count c)
     \<and> (\<Union>g \<in> set (tp_groups T). set (g_ranks g)) = {0..<worker_count c}
     \<and> (\<forall>g \<in> set (tp_groups T). group_wf g)
     \<and> (explicit_groups c \<or> worker_count c = pc_world_size (oc_parallel_config c) \<and> \<not> pc_use_hsdp (oc_parallel_config c)
          \<and> pc_pipeline_parallel_size (oc_parallel_config c) = 1
        \<longrightarrow> (\<forall>g \<in> set (tp_groups T). group_fits g))"
proof -
  from T obtain kinds where
    gs: "build_groups rp c kinds = Inr (tp_groups T)" and w: "tp_workers T = startup_workers (worker_count c)" and
    t: "topology_inv T" "(\<Union>g \<in> set (tp_groups T). set (g_ranks g)) = {0..<worker_count c}" "1 \<le> worker_count c"
    by (rule build_topologyE)
  have "map w_rank (tp_workers T) = py_range 0 (worker_count c)" by (simp add: w startup_workers_def o_def)
  moreover have "\<forall>g \<in> set (tp_groups T). group_fits g"
    if "explicit_groups c \<or> worker_count c = pc_world_size (oc_parallel_config c) \<and> \<not> pc_use_hsdp (oc_parallel_config c)
          \<and> pc_pipeline_parallel_size (oc_parallel_config c) = 1"
  proof (cases "explicit_groups c")
    case True
    then show ?thesis by (rule build_groups_explicit [OF gs _ t(3)])
  next
    case False
    note i = build_groups_implicit [OF gs False]
    have "validate_parallel_config (oc_parallel_config c) = Inr ()"
      using assms(1) by (auto simp: mk_parallel_config_def bind_res_eq_Inr)
    then have "pc_data_parallel_size (oc_parallel_config c) = 1" using i(2) by (auto simp: validate_parallel_config_def)
    then show ?thesis using implicit_group_fits [OF assms(1) i(1)] that False by blast
  qed
  ultimately show ?thesis using t build_groups_wf [OF gs t(3)] by blast
qed

text \<open>
  Group sizes that add up to the number of workers are always accepted, and their groups tile the
  ranks in order: concatenated they are the ranks from 0, and the i-th group has the i-th size and the
  name \<open>g<i>\<close>.
\<close>

theorem group_sizes_tile_ranks:
  assumes "oc_groups_json c = PyNone" "oc_group_sizes c \<noteq> PyNone"
    and "parse_group_sizes (oc_group_sizes c) = Inr ns" "sum_list ns = worker_count c"
  shows "\<exists>T. build_topology rp c dflt = Inr T \<and> concat (map g_ranks (tp_groups T)) = py_range 0 (worker_count c)
     \<and> map (\<lambda>g. length (g_ranks g)) (tp_groups T) = map nat ns
     \<and> map g_id (tp_groups T) = map (\<lambda>j. ''g'' @ str_nat j) [0..<length ns]"
proof -
  define kinds where "kinds = (if dflt = [] then STANDARD_TASK_KINDS else dflt)"
  from group_sizes_build [OF assms(3,4), of kinds] obtain gs where
    gs: "build_groups_from_group_sizes (oc_group_sizes c) (worker_count c) kinds = Inr gs" "gs \<noteq> []"
      "concat (map g_ranks gs) = py_range 0 (worker_count c)" "map g_id gs = map (\<lambda>j. ''g'' @ str_nat j) [0..<length ns]"
      "map (\<lambda>g. length (g_ranks g)) gs = map nat ns" by blast
  have cover: "(\<Union>g \<in> set gs. set (g_ranks g)) = {0..<worker_count c}"
    using arg_cong [where f = set, OF gs(3)] by simp
  have "ns \<noteq> []" "\<forall>n \<in> set ns. 1 \<le> n"
    using assms(3) by (auto simp: parse_group_sizes_def bind_res_eq_Inr split: if_splits)
  then have "1 \<le> sum_list ns" by (cases ns) (auto intro!: sum_list_nonneg add_increasing2)
  then have w: "startup_workers (worker_count c) \<noteq> []" using assms(4) by (simp add: startup_workers_def)
  have "distinct (map w_rank (startup_workers (worker_count c)))" by (simp add: startup_workers_def o_def py_range_def)
  moreover have "distinct (map g_id gs)" unfolding gs(4) by (simp add: distinct_map inj_on_def str_nat_inj)
  moreover have "(\<Union>g \<in> set gs. set (g_ranks g)) = set (map w_rank (startup_workers (worker_count c)))"
    using cover by (simp add: startup_workers_def image_image)
  ultimately obtain T where T: "mk_topology (startup_workers (worker_count c)) gs = Inr T"
    using mk_topology_ok [OF w gs(2)] by blast
  have "build_groups rp c kinds = Inr gs" using assms(1,2) gs(1) by (simp add: build_groups_def Let_def)
  then have "build_topology rp c dflt = Inr T"
    using T cover validate_group_partition_iff [of gs "worker_count c"]
    unfolding build_topology_def Let_def kinds_def [symmetric] by simp
  then show ?thesis using gs mk_topology_parts [OF T] by auto
qed

section \<open>Concrete configurations\<close>

theorem startup_topology_sound_witness:
  "\<exists>T. build_topology (\<lambda>_. []) ex_config [] = Inr T \<and> (\<Union>g \<in> set (tp_groups T). set (g_ranks g)) = {0..<4} \<and> topology_inv T"
proof -
  have "case build_topology (\<lambda>_. []) ex_config [] of Inl _ \<Rightarrow> False | Inr _ \<Rightarrow> True" by code_simp
  then obtain T where T: "build_topology (\<lambda>_. []) ex_config [] = Inr T" by (auto split: sum.splits)
  have p: "mk_parallel_config ex_parallel_config = Inr (oc_parallel_config ex_config)"
    by (simp add: mk_parallel_config_def parallel_post_init_def validate_parallel_config_def other_parallel_world_size_def
        ex_parallel_config_def ex_config_def)
  have "worker_count ex_config = 4" by (simp add: worker_count_def ex_config_def)
  then show ?thesis using startup_topology_sound [OF p T] T by auto
qed

theorem group_sizes_tile_ranks_witness:
  "\<exists>T. build_topology (\<lambda>_. []) ex_config [] = Inr T \<and> concat (map g_ranks (tp_groups T)) = [0, 1, 2, 3]
     \<and> map g_id (tp_groups T) = [''g0'', ''g1'']"
proof -
  have p: "oc_groups_json ex_config = PyNone" "oc_group_sizes ex_config \<noteq> PyNone" by (simp_all add: ex_config_def)
  have n: "parse_group_sizes (oc_group_sizes ex_config) = Inr [2, 2]" "sum_list [2, 2] = worker_count ex_config" by code_simp+
  have e: "py_range 0 (worker_count ex_config) = [0, 1, 2, 3]"
    "map (\<lambda>j. ''g'' @ str_nat j) [0..<length [2, 2 :: int]] = [''g0'', ''g1'']" by code_simp+
  from group_sizes_tile_ranks [OF p n, of "\<lambda>_. []" "[]", unfolded e] show ?thesis
    by (elim ex_forward conjE) (intro conjI)
qed

text \<open>
  The check of the groups against the workers does not see a rank that is repeated inside a group:
  a single worker is accepted as both tensor-parallel ranks of a group.
\<close>

definition ex_repeated_config :: od_config where
  "ex_repeated_config = ex_config\<lparr>oc_num_gpus := Some 1, oc_group_sizes := PyNone,
     oc_groups_json := PyList [PyDict [(''ranks'', PyList [PyInt 0, PyInt 0])]]\<rparr>"

lemma repeated_rank_accepted:
  "case build_topology (\<lambda>_. []) ex_repeated_config [] of Inl _ \<Rightarrow> False
   | Inr T \<Rightarrow> map g_ranks (tp_groups T) = [[0, 0]] \<and> map (\<lambda>g. ps_tp (g_parallel g)) (tp_groups T) = [2]"
  by code_simp

text \<open>
  More GPUs than the world size of the parallel configuration are accepted as well: the implicit
  group then spans all of them with degrees that multiply to less.
\<close>

definition ex_spare_config :: od_config where
  "ex_spare_config = ex_config\<lparr>oc_num_gpus := Some 4, oc_group_sizes := PyNone, oc_groups_json := PyNone,
     oc_scheduler_policy := ''fcfs''\<rparr>"

lemma spare_gpus_do_not_fit:
  "case build_topology (\<lambda>_. []) ex_spare_config [] of Inl _ \<Rightarrow> False
   | Inr T \<Rightarrow> pc_world_size (oc_parallel_config ex_spare_config) < worker_count ex_spare_config
       \<and> map g_ranks (tp_groups T) = [[0, 1, 2, 3]] \<and> \<not> (\<forall>g \<in> set (tp_groups T). group_fits g)"
  by code_simp

end
