(* ===== verification/WaveStress.thy ===== *)
theory WaveStress
  imports DynamicStep PolicyCommon
begin

text \<open>
  The stress policy (\<open>runtime_v2/policies/wave_stress.py\<close>): after a number of warm-up requests,
  requests are collected into waves. The requests of a wave are pinned to three overlapping groups
  and served in round robin. The policy extends the rank-aware one: it inherits the rank counters,
  the queues for other requests and the migration holds.
\<close>

section \<open>State\<close>

record wave_stress = dynamic_step +
  ws_warmup_reqs :: int
  ws_wave_size :: nat
  ws_num_seen_reqs :: int
  ws_held_plans :: "plan list"
  ws_active_wave_order :: "string list"
  ws_req_role :: "string \<Rightarrow> string option"
  ws_pingpong_chunk_idx :: "string \<Rightarrow> nat option"
  ws_rr_cursor :: nat
  ws_wave_ready_by_req :: "string \<Rightarrow> string list option"
  ws_aux_group_id :: string

definition WAVE_ROLES :: "string list" where
  "WAVE_ROLES = [''cross_g01'', ''cross_g12'', ''cross_full'', ''pingpong'']"

definition PINGPONG_CYCLE :: "string list" where
  "PINGPONG_CYCLE = [''stress_gfull'', ''stress_g01'', ''stress_g12'', ''stress_gfull'']"

definition STRESS_TASK_KINDS :: "task_kind list" where
  "STRESS_TASK_KINDS = [TEXT_ENCODE, DIT_PREPARE, TIMESTEP_PREPARE, DIT_STEP_CHUNK, VAE_DECODE, FINALIZE]"

definition ensure_stress_subgroups :: "topology \<Rightarrow> topology res" where
  "ensure_stress_subgroups T =
     for_res (\<lambda>T (gid, ranks, sp).
         bind_res (mk_parallel_spec 1 sp 1 False) (\<lambda>par.
         bind_res (mk_group_spec gid ranks par STRESS_TASK_KINDS sp 1) (\<lambda>g.
         bind_res (ensure_group T g) (\<lambda>(T', _). Inr T'))))
       T [(''stress_g01'', [0, 1], 2), (''stress_g12'', [1, 2], 2), (''stress_gfull'', [0, 1, 2, 3], 4)]"

definition wave_stress_init ::
  "topology \<Rightarrow> int \<Rightarrow> int \<Rightarrow> string option \<Rightarrow> string option \<Rightarrow> bool
   \<Rightarrow> (string \<times> string) list option \<Rightarrow> sched_item list option \<Rightarrow> wave_stress res" where
  "wave_stress_init T warmup wave_size aux backend require_gfc stages sched =
     (if require_gfc \<and> backend \<noteq> None \<and> str_lower (the backend) \<noteq> ''gfc'' then Inl RuntimeError
      else if wave_size < 2 \<or> int (length WAVE_ROLES) < wave_size then Inl ValueError
      else if length (tp_workers T) < 4 then Inl RuntimeError
      else
        bind_res (ensure_stress_subgroups T) (\<lambda>T'.
        let aux_id = (if aux = None \<or> aux = Some [] then ''stress_gfull'' else the aux)
        in bind_res (get_group T' aux_id) (\<lambda>_.
             Inr (dynamic_step.extend (dynamic_step_init T' stages sched)
               \<lparr>ws_warmup_reqs = warmup, ws_wave_size = nat wave_size, ws_num_seen_reqs = 0, ws_held_plans = [],
                ws_active_wave_order = [], ws_req_role = (\<lambda>_. None), ws_pingpong_chunk_idx = (\<lambda>_. None),
                ws_rr_cursor = 0, ws_wave_ready_by_req = (\<lambda>_. None), ws_aux_group_id = aux_id\<rparr>))))"

section \<open>Group selection and queues\<close>

definition select_group_wave :: "'a wave_stress_scheme \<Rightarrow> task \<Rightarrow> ('a wave_stress_scheme \<times> string option) res" where
  "select_group_wave st t =
     (case ws_req_role st (t_request_id t) of
        None \<Rightarrow>
          bind_res (select_group_dynamic st t) (\<lambda>from_super.
            Inr (st, if from_super \<noteq> None then from_super else Some (ws_aux_group_id st)))
      | Some role \<Rightarrow>
          if t_kind t \<noteq> DIT_STEP_CHUNK then Inr (st, Some (ws_aux_group_id st))
          else if role = ''cross_g01'' then Inr (st, Some ''stress_g01'')
          else if role = ''cross_g12'' then Inr (st, Some ''stress_g12'')
          else if role = ''cross_full'' then Inr (st, Some ''stress_gfull'')
          else if role = ''pingpong'' then
            bind_res (dict_get (ws_pingpong_chunk_idx st) (t_request_id t)) (\<lambda>idx.
              Inr (st\<lparr>ws_pingpong_chunk_idx := (ws_pingpong_chunk_idx st)(t_request_id t \<mapsto> idx + 1)\<rparr>,
                   Some (PINGPONG_CYCLE ! (idx mod length PINGPONG_CYCLE))))
          else Inl ValueError)"

text \<open>One task of the loop of \<open>_enqueue_runnable\<close>.\<close>

definition enqueue_wave_task ::
  "heap \<times> 'a wave_stress_scheme \<Rightarrow> string \<Rightarrow> (heap \<times> 'a wave_stress_scheme) res" where
  "enqueue_wave_task s tk =
     (case s of (h, st0) \<Rightarrow>
        bind_res (if t_group_id (h tk) = None then select_group_wave st0 (h tk) else Inr (st0, t_group_id (h tk))) (\<lambda>(st, gid).
        let t = (h tk)\<lparr>t_group_id := gid\<rparr>
        in bind_res (validate_task (dg_topology st) t) (\<lambda>_.
             let t' = t\<lparr>t_status := READY\<rparr>; h' = h(tk := t')
             in if t_kind t' = RESHARD
                then Inr (h', st\<lparr>dg_reshard_ready := dg_reshard_ready st @ [tk]\<rparr>)
                else if ws_req_role st (t_request_id t') \<noteq> None
                then Inr (h', st\<lparr>ws_wave_ready_by_req := push_ready (ws_wave_ready_by_req st) (t_request_id t') tk\<rparr>)
                else (case t_group_id t' of
                        None \<Rightarrow> Inl AssertionError
                      | Some g \<Rightarrow> Inr (h', st\<lparr>dg_group_ready := push_ready (dg_group_ready st) g tk\<rparr>)))))"

definition enqueue_runnable ::
  "string list \<Rightarrow> heap \<times> 'a wave_stress_scheme \<Rightarrow> (heap \<times> 'a wave_stress_scheme) res" where
  "enqueue_runnable tks s = for_res enqueue_wave_task s tks"

section \<open>Dispatch\<close>

definition wave_queue :: "'a wave_stress_scheme \<Rightarrow> string \<Rightarrow> string list" where
  "wave_queue st rid = (case ws_wave_ready_by_req st rid of None \<Rightarrow> [] | Some q \<Rightarrow> q)"

definition next_cursor :: "'a wave_stress_scheme \<Rightarrow> 'a wave_stress_scheme" where
  "next_cursor st = st\<lparr>ws_rr_cursor := (ws_rr_cursor st + 1) mod length (ws_active_wave_order st)\<rparr>"

definition task_group_id :: "task \<Rightarrow> string" where
  "task_group_id t = (case t_group_id t of None \<Rightarrow> [] | Some g \<Rightarrow> g)"

definition begin_wave_task ::
  "string \<Rightarrow> string \<Rightarrow> string list \<Rightarrow> string \<Rightarrow> int list \<Rightarrow> 'a wave_stress_scheme \<Rightarrow> 'a wave_stress_scheme" where
  "begin_wave_task rid tk q gid ranks st =
     begin_task_by_rank tk gid ranks (st\<lparr>ws_wave_ready_by_req := store_queue (ws_wave_ready_by_req st) rid q\<rparr>)"

lemma begin_wave_task_simps [simp]:
  "ws_active_wave_order (begin_wave_task rid tk q gid ranks st) = ws_active_wave_order st"
  "ws_rr_cursor (begin_wave_task rid tk q gid ranks st) = ws_rr_cursor st"
  "ws_wave_ready_by_req (begin_wave_task rid tk q gid ranks st) = store_queue (ws_wave_ready_by_req st) rid q"
  by (simp_all add: begin_wave_task_def begin_task_by_rank_def claim_ranks_def)

lemma next_cursor_simps [simp]:
  "ws_active_wave_order (next_cursor st) = ws_active_wave_order st"
  "ws_wave_ready_by_req (next_cursor st) = ws_wave_ready_by_req st"
  "ws_rr_cursor (next_cursor st) = (ws_rr_cursor st + 1) mod length (ws_active_wave_order st)"
  by (simp_all add: next_cursor_def)

text \<open>The tasks that wait for the requests of the wave; every dispatch takes one away.\<close>

definition wave_waiting :: "'a wave_stress_scheme \<Rightarrow> nat" where
  "wave_waiting st = (\<Sum>rid \<in> set (ws_active_wave_order st). length (wave_queue st rid))"

lemma wave_waiting_next [simp]: "wave_waiting (next_cursor st) = wave_waiting st"
  by (simp add: wave_waiting_def wave_queue_def)

lemma wave_waiting_begin:
  assumes "rid \<in> set (ws_active_wave_order st)" "wave_queue st rid = tk # q"
  shows "wave_waiting (begin_wave_task rid tk q gid ranks st) < wave_waiting st"
proof -
  let ?st = "begin_wave_task rid tk q gid ranks st"
  have "wave_queue ?st r = (if r = rid then q else wave_queue st r)" for r
    by (simp add: wave_queue_def store_queue_def)
  then show ?thesis
    using assms unfolding wave_waiting_def begin_wave_task_simps by (intro sum_strict_mono_ex1) auto
qed

text \<open>
  The loop of \<open>_take_wave_dispatchable\<close>: the head task of the request at the cursor goes in flight if
  its ranks are free; a full lap without a dispatch ends the loop.
\<close>

function wave_loop :: "nat \<Rightarrow> heap \<Rightarrow> 'a wave_stress_scheme \<Rightarrow> ((heap \<times> 'a wave_stress_scheme) \<times> string list) res" where
  "wave_loop attempts h st =
     (if attempts < length (ws_active_wave_order st) then
        (if length (ws_active_wave_order st) \<le> ws_rr_cursor st then Inl IndexError
         else
           (case wave_queue st (ws_active_wave_order st ! ws_rr_cursor st) of
              [] \<Rightarrow> wave_loop (attempts + 1) h (next_cursor st)
            | tk # q \<Rightarrow>
                (case get_group (dg_topology st) (task_group_id (h tk)) of
                   Inl e \<Rightarrow> Inl e
                 | Inr g \<Rightarrow>
                     if can_dispatch_ranks st (g_ranks g) then
                       (case wave_loop 0 (set_dispatched tk h)
                               (next_cursor (begin_wave_task (ws_active_wave_order st ! ws_rr_cursor st) tk q
                                  (task_group_id (h tk)) (g_ranks g) st)) of
                          Inl e \<Rightarrow> Inl e
                        | Inr (s, out) \<Rightarrow> Inr (s, tk # out))
                     else wave_loop (attempts + 1) h (next_cursor st))))
      else Inr ((h, st), []))"
  by pat_completeness auto
termination
  by (relation "measures [\<lambda>(a, h, st). wave_waiting st, \<lambda>(a, h, st). length (ws_active_wave_order st) - a]")
    (auto simp: wave_waiting_begin)

declare wave_loop.simps [simp del]

definition take_dispatchable_wave :: "'a wave_stress_scheme dispatch" where
  "take_dispatchable_wave s =
     bind_res (take_dispatchable_by_rank s) (\<lambda>((h, st), out).
     bind_res (wave_loop 0 h st) (\<lambda>(s', out'). Inr (s', out @ out')))"

section \<open>Waves\<close>

definition assign_role :: "plan \<times> string \<Rightarrow> 'a wave_stress_scheme \<Rightarrow> 'a wave_stress_scheme" where
  "assign_role pr st =
     (case pr of (p, role) \<Rightarrow>
        st\<lparr>ws_req_role := (ws_req_role st)(p_request_id p \<mapsto> role),
           ws_pingpong_chunk_idx := (if role = ''pingpong'' then (ws_pingpong_chunk_idx st)(p_request_id p \<mapsto> 0)
                                     else ws_pingpong_chunk_idx st),
           ws_active_wave_order := ws_active_wave_order st @ [p_request_id p]\<rparr>)"

definition activate_next_wave :: "heap \<times> 'a wave_stress_scheme \<Rightarrow> (heap \<times> 'a wave_stress_scheme) res" where
  "activate_next_wave s =
     (case s of (h, st) \<Rightarrow>
        if ws_active_wave_order st \<noteq> [] then Inl AssertionError
        else
          let wave_plans = take (ws_wave_size st) (ws_held_plans st);
              roles = take (ws_wave_size st) WAVE_ROLES;
              st1 = st\<lparr>ws_held_plans := drop (ws_wave_size st) (ws_held_plans st)\<rparr>
          in if length wave_plans \<noteq> length roles then Inl ValueError
             else for_res (\<lambda>s p. enqueue_runnable (root_tasks p) s)
                    (h, (fold assign_role (zip wave_plans roles) st1)\<lparr>ws_rr_cursor := 0\<rparr>) wave_plans)"

definition flush_held_plans_as_warmup :: "heap \<times> 'a wave_stress_scheme \<Rightarrow> (heap \<times> 'a wave_stress_scheme) res" where
  "flush_held_plans_as_warmup s =
     (case s of (h, st) \<Rightarrow>
        for_res (\<lambda>s p. enqueue_runnable (root_tasks p) s) (h, st\<lparr>ws_held_plans := []\<rparr>) (ws_held_plans st))"

text \<open>What \<open>_drop_request\<close> forgets of a request.\<close>

definition forget_wave_request :: "string \<Rightarrow> 'a wave_stress_scheme \<Rightarrow> 'a wave_stress_scheme" where
  "forget_wave_request rid st =
     (let st1 = st\<lparr>ws_wave_ready_by_req := (ws_wave_ready_by_req st)(rid := None)\<rparr>
      in if ws_req_role st1 rid = None then st1
         else
           let st2 = st1\<lparr>ws_req_role := (ws_req_role st1)(rid := None),
                         ws_pingpong_chunk_idx := (ws_pingpong_chunk_idx st1)(rid := None)\<rparr>
           in if rid \<notin> set (ws_active_wave_order st2) then st2
              else
                let order = remove1 rid (ws_active_wave_order st2)
                in st2\<lparr>ws_active_wave_order := order,
                       ws_rr_cursor := (if order = [] then 0 else ws_rr_cursor st2 mod length order)\<rparr>)"

definition drop_request_wave :: "string \<Rightarrow> heap \<times> 'a wave_stress_scheme \<Rightarrow> (heap \<times> 'a wave_stress_scheme) res" where
  "drop_request_wave rid s =
     (case s of (h, st) \<Rightarrow>
        let st1 = forget_wave_request rid (drop_request h rid st)
        in if ws_active_wave_order st1 \<noteq> [] then Inr (h, st1)
           else if ws_wave_size st1 \<le> length (ws_held_plans st1) then activate_next_wave (h, st1)
           else if ws_held_plans st1 \<noteq> [] then flush_held_plans_as_warmup (h, st1)
           else Inr (h, st1))"

section \<open>Entry points\<close>

definition wave_runnable :: "string list \<Rightarrow> 'a wave_stress_scheme dispatch" where
  "wave_runnable tks s = bind_res (enqueue_runnable tks s) take_dispatchable_wave"

definition wave_submit :: "plan \<Rightarrow> 'a wave_stress_scheme dispatch" where
  "wave_submit p s =
     (case s of (h, st) \<Rightarrow>
        let st1 = st\<lparr>ws_num_seen_reqs := ws_num_seen_reqs st + 1\<rparr>
        in if ws_num_seen_reqs st1 \<le> ws_warmup_reqs st1 then wave_runnable (root_tasks p) (h, st1)
           else
             let st2 = st1\<lparr>ws_held_plans := ws_held_plans st1 @ [p]\<rparr>
             in if ws_active_wave_order st2 = [] \<and> ws_wave_size st2 \<le> length (ws_held_plans st2)
                then bind_res (activate_next_wave (h, st2)) take_dispatchable_wave
                else Inr ((h, st2), []))"

definition wave_event :: "worker_event \<Rightarrow> 'a wave_stress_scheme dispatch" where
  "wave_event ev s =
     (case s of (h, st) \<Rightarrow>
        let st1 = (if e_kind ev \<in> {TASK_EXEC_END, TASK_FAILED} then release_task_by_rank (e_task_id ev) st else st)
        in bind_res (if e_kind ev \<in> {REQUEST_FINISHED, REQUEST_FAILED} then drop_request_wave (e_request_id ev) (h, st1)
                     else Inr (h, st1)) take_dispatchable_wave)"

section \<open>Queues and the invariant\<close>

text \<open>The inherited queues, the queues of the requests of the wave, and the roots of the held plans.\<close>

datatype wave_qid = GroupQ "string option" | WaveQ string | HeldQ

definition wave_queue_of :: "'a wave_stress_scheme \<Rightarrow> wave_qid \<Rightarrow> string list" where
  "wave_queue_of st x =
     (case x of GroupQ y \<Rightarrow> queue_of st y | WaveQ rid \<Rightarrow> wave_queue st rid | HeldQ \<Rightarrow> concat (map root_tasks (ws_held_plans st)))"

lemma wave_queue_of_simps [simp]:
  "wave_queue_of st (GroupQ y) = queue_of st y"
  "wave_queue_of st (WaveQ rid) = wave_queue st rid"
  "wave_queue_of st HeldQ = concat (map root_tasks (ws_held_plans st))"
  by (simp_all add: wave_queue_of_def)

definition wave_inv :: "(int \<Rightarrow> nat) \<Rightarrow> 'a wave_stress_scheme \<Rightarrow> bool" where
  "wave_inv H st \<longleftrightarrow> dyn_books H st \<and> queues_ok (wave_queue_of st) (dyn_claims st) \<and> reshards_ok st
     \<and> mark_free (dg_topology st) \<and> topology_inv (dg_topology st)
     \<and> (ws_active_wave_order st \<noteq> [] \<longrightarrow> ws_rr_cursor st < length (ws_active_wave_order st))"

lemma wave_invD:
  assumes "wave_inv H st"
  shows "dyn_books H st" "queues_ok (wave_queue_of st) (dyn_claims st)" "reshards_ok st"
    "mark_free (dg_topology st)" "topology_inv (dg_topology st)"
    "ws_active_wave_order st \<noteq> [] \<Longrightarrow> ws_rr_cursor st < length (ws_active_wave_order st)"
  using assms by (simp_all add: wave_inv_def)

lemma queues_ok_inj: "queues_ok Q cl \<Longrightarrow> inj f \<Longrightarrow> queues_ok (\<lambda>x. Q (f x)) cl"
  unfolding queues_ok_def inj_def by metis

lemma wave_inv_dyn: "wave_inv H st \<Longrightarrow> dyn_inv H st"
  using queues_ok_inj [of "wave_queue_of st" "dyn_claims st" GroupQ]
  by (simp add: wave_inv_def dyn_inv_def inj_def)

text \<open>States that agree on the fields the rank accounting reads.\<close>

definition same_base :: "'a dynamic_step_scheme \<Rightarrow> 'a dynamic_step_scheme \<Rightarrow> bool" where
  "same_base st st' \<longleftrightarrow> dg_dispatched_kind st' = dg_dispatched_kind st
     \<and> dy_dispatched_ranks_by_task st' = dy_dispatched_ranks_by_task st
     \<and> dy_outstanding_per_rank st' = dy_outstanding_per_rank st \<and> dy_reshard_holds_by_rank st' = dy_reshard_holds_by_rank st
     \<and> dg_outstanding_reshards st' = dg_outstanding_reshards st \<and> dg_topology st' = dg_topology st"

lemma same_baseD:
  assumes "same_base st st'"
  shows "dyn_claims st' = dyn_claims st" "dyn_books H st' = dyn_books H st" "reshards_ok st' = reshards_ok st"
    "can_dispatch_ranks st' rs = can_dispatch_ranks st rs" "dg_topology st' = dg_topology st"
proof -
  show cl: "dyn_claims st' = dyn_claims st" using assms by (intro ext) (simp add: same_base_def dyn_claims_def split: option.split)
  show "dyn_books H st' = dyn_books H st" using assms cl by (simp add: same_base_def dyn_books_def)
  show "reshards_ok st' = reshards_ok st" using assms by (simp add: same_base_def reshards_ok_def)
  show "can_dispatch_ranks st' rs = can_dispatch_ranks st rs" using assms by (simp add: same_base_def can_dispatch_ranks_def)
  show "dg_topology st' = dg_topology st" using assms by (simp add: same_base_def)
qed

lemma wave_inv_same_base:
  assumes "wave_inv H st" "same_base st st'" "queues_ok (wave_queue_of st') (dyn_claims st)"
    "ws_active_wave_order st' \<noteq> [] \<Longrightarrow> ws_rr_cursor st' < length (ws_active_wave_order st')"
  shows "wave_inv H st'"
  using assms(1,3,4) same_baseD [OF assms(2)] unfolding wave_inv_def by simp

lemma next_cursor_base: "same_base st (next_cursor st)" "wave_queue_of (next_cursor st) = wave_queue_of st"
  by (auto simp: same_base_def next_cursor_def wave_queue_of_def wave_queue_def queue_of_def fun_eq_iff split: wave_qid.splits option.split)

lemma wave_inv_next: "wave_inv H st \<Longrightarrow> wave_inv H (next_cursor st)"
  by (rule wave_inv_same_base [OF _ next_cursor_base(1)])
    (auto simp: next_cursor_base(2) dest: wave_invD)

interpretation wav: dispatcher dyn_claims "wave_inv H" can_dispatch_ranks wave_queue_of "\<lambda>r. H r \<noteq> 0" for H :: "int \<Rightarrow> nat"
proof unfold_locales
  fix st :: "'a wave_stress_scheme" and tk x
  assume "wave_inv H st" "tk \<in> set (wave_queue_of st x)"
  then show "dyn_claims st tk = None" using queues_okD(3) wave_invD(2) by metis
next
  fix st :: "'a wave_stress_scheme" and rs assume "wave_inv H st"
  then have "dyn_books H st" by (rule wave_invD)
  then show "can_dispatch_ranks st rs \<longleftrightarrow>
      (\<forall>r \<in> set rs. \<not> H r \<noteq> 0 \<and> (\<forall>tk b ks. dyn_claims st tk = Some (b, ks) \<longrightarrow> r \<notin> set ks))"
    using can_dispatch_ranks_iff by simp
qed

abbreviation wave_dispatched ::
  "(int \<Rightarrow> nat) \<Rightarrow> 'a wave_stress_scheme \<Rightarrow> 'a wave_stress_scheme \<Rightarrow> string list \<Rightarrow> bool" where
  "wave_dispatched H \<equiv> dispatcher.dispatched dyn_claims (wave_inv H) can_dispatch_ranks wave_queue_of"

section \<open>The inherited pass\<close>

lemma more_begin_by_rank [simp]:
  "dynamic_step.more (begin_task_by_rank tk g rs st) = dynamic_step.more st"
  "dynamic_step.more (begin_reshard_by_rank tk a b rs st) = dynamic_step.more st"
  by (simp_all add: begin_task_by_rank_def begin_reshard_by_rank_def claim_ranks_def)

lemma more_take_group:
  "take_group_by_rank g q h st = ((h', st'), out) \<Longrightarrow> dynamic_step.more st' = dynamic_step.more st"
  by (induction g q h st arbitrary: out rule: take_group_by_rank.induct) (auto split: if_splits prod.splits)

lemma more_take_groups:
  "take_groups_by_rank gs h st = ((h', st'), out) \<Longrightarrow> dynamic_step.more st' = dynamic_step.more st"
proof (induction gs h st arbitrary: out rule: take_groups_by_rank.induct)
  case (2 g gs h st)
  then show ?case
    by (auto split: option.splits list.splits prod.splits dest!: more_take_group simp del: take_group_by_rank.simps)
qed simp

lemma more_take_reshards:
  "take_reshards_by_rank q h st = Inr ((h', st'), out) \<Longrightarrow> dynamic_step.more st' = dynamic_step.more st"
proof (induction q h st arbitrary: out rule: take_reshards_by_rank.induct)
  case (2 tk q h st)
  from 2(2) show ?case
    by (auto simp: bind_res_eq_Inr split: if_splits dest!: 2(1))
qed auto

lemma more_take_dispatchable:
  "take_dispatchable_by_rank (h, st) = Inr ((h', st'), out) \<Longrightarrow> dynamic_step.more st' = dynamic_step.more st"
proof -
  assume "take_dispatchable_by_rank (h, st) = Inr ((h', st'), out)"
  then obtain h1 st1 o1 where r: "take_reshards_by_rank (dg_reshard_ready st) h st = Inr ((h1, st1), o1)"
    and "fst (take_groups_by_rank (tp_groups (dg_topology st1)) h1 st1) = (h', st')"
    by (auto simp: take_dispatchable_by_rank_def bind_res_eq_Inr Let_def case_prod_beta)
  then have "dynamic_step.more st' = dynamic_step.more st1"
    by (metis more_take_groups prod.collapse)
  then show ?thesis using more_take_reshards [OF r] by simp
qed

lemma wave_fields_more:
  fixes st st' :: "'a wave_stress_scheme"
  assumes "dynamic_step.more st' = dynamic_step.more st"
  shows "ws_active_wave_order st' = ws_active_wave_order st" "ws_rr_cursor st' = ws_rr_cursor st"
    "wave_queue st' rid = wave_queue st rid" "ws_held_plans st' = ws_held_plans st" "ws_wave_size st' = ws_wave_size st"
  using assms by (cases st; cases st'; simp add: wave_queue_def)+

lemma queues_ok_dispatch:
  assumes "queues_ok Q cl" "\<And>x. \<exists>l. Q x = l @ Q' x" "\<And>tk. tk \<notin> set out \<Longrightarrow> cl' tk = cl tk"
    "\<And>x. set out \<inter> set (Q' x) = {}"
  shows "queues_ok Q' cl'"
proof -
  note ok = queues_okD [OF assms(1)]
  have sub: "set (Q' x) \<subseteq> set (Q x)" for x using assms(2) [of x] by auto
  have "distinct (Q' x)" for x using assms(2) [of x] ok(1) [of x] by auto
  moreover have "set (Q' x) \<inter> set (Q' y) = {}" if "x \<noteq> y" for x y using ok(2) [OF that] sub by blast
  moreover have "cl' tk = None" if "tk \<in> set (Q' x)" for x tk
    using that assms(3,4) ok(3) sub by (metis disjoint_iff subsetD)
  ultimately show ?thesis unfolding queues_ok_def by blast
qed

lemma inherited_pass:
  assumes "take_dispatchable_by_rank (h, st) = Inr ((h', st'), out)" "wave_inv H st"
  shows "wave_dispatched H st st' out \<and> dg_topology st' = dg_topology st \<and> dynamic_step.more st' = dynamic_step.more st
     \<and> (\<forall>g \<in> set (tp_groups (dg_topology st)). queue_of st' (Some (g_id g)) \<noteq> [] \<longrightarrow> \<not> can_dispatch_ranks st' (g_ranks g))"
proof -
  note inv = wave_invD [OF assms(2)] and more = more_take_dispatchable [OF assms(1)]
  from take_dispatchable_by_rank_spec [OF assms(1) wave_inv_dyn [OF assms(2)]] have
    d: "dyn_dispatched H st st' out" and T: "dg_topology st' = dg_topology st" and
    idle: "\<forall>g \<in> set (tp_groups (dg_topology st)). queue_of st' (Some (g_id g)) \<noteq> [] \<longrightarrow> \<not> can_dispatch_ranks st' (g_ranks g)"
    by blast+
  note f = wave_fields_more [OF more] and D = dyn.dispatchedD [OF d] and inv' = dyn_invD [OF dyn.dispatchedD(1) [OF d]]
  have q: "wave_queue_of st' x = wave_queue_of st x" if "\<forall>y. x \<noteq> GroupQ y" for x using that f by (cases x) auto
  have suffix: "\<exists>l. set l \<subseteq> set out \<and> wave_queue_of st x = l @ wave_queue_of st' x" for x
    using D(2) q [of x] by (cases x) auto
  have none: "set out \<inter> set (wave_queue_of st' x) = {}" for x
  proof (cases "\<exists>y. x = GroupQ y")
    case True
    then show ?thesis using D(4) queues_okD(3) [OF inv'(2)] by fastforce
  next
    case False
    have "tk \<notin> set (wave_queue_of st x)" if "tk \<in> set out" for tk
    proof -
      from D(3) [OF that] obtain y where "tk \<in> set (wave_queue_of st (GroupQ y))" by auto
      then show ?thesis using queues_okD(2) [OF inv(2), of "GroupQ y" x] False by blast
    qed
    then show ?thesis using q [of x] False by auto
  qed
  have "queues_ok (wave_queue_of st') (dyn_claims st')"
    by (rule queues_ok_dispatch [OF inv(2) _ D(5) none]) (use suffix in blast)
  then have i: "wave_inv H st'" using inv' inv(4-6) T f by (simp add: wave_inv_def)
  have "\<exists>x. tk \<in> set (wave_queue_of st x)" if "tk \<in> set out" for tk
    using D(3) [OF that] wave_queue_of_simps(1) by metis
  then have "wave_dispatched H st st' out"
    unfolding wav.dispatched_def using i suffix D(4,5) by blast
  then show ?thesis using T more idle by blast
qed

section \<open>The round robin\<close>

lemma wave_queue_begin:
  "wave_queue_of (begin_wave_task rid tk q gid ranks st) x = (if x = WaveQ rid then q else wave_queue_of st x)"
  by (cases x) (simp_all add: begin_wave_task_def begin_task_by_rank_def claim_ranks_def wave_queue_def store_queue_def
      queue_of_def split: option.split)

lemma wave_begin_spec:
  assumes "wave_inv H st" "wave_queue st rid = tk # q" "get_group (dg_topology st) gid = Inr g" "can_dispatch_ranks st (g_ranks g)"
  shows "wave_dispatched H st (next_cursor (begin_wave_task rid tk q gid (g_ranks g) st)) [tk]"
proof -
  let ?b = "begin_wave_task rid tk q gid (g_ranks g) st"
  let ?w = "st\<lparr>ws_wave_ready_by_req := store_queue (ws_wave_ready_by_req st) rid q\<rparr>"
  note inv = wave_invD [OF assms(1)]
  have b: "same_base st ?w" by (simp add: same_base_def)
  have gid: "gid \<noteq> reshard_mark" using get_group_in [OF inv(5) assms(3)] inv(4) by (auto simp: mark_free_def)
  have tk: "dg_dispatched_kind st tk = None"
    using queues_okD(3) [OF inv(2), of tk "WaveQ rid"] assms(2) by (simp add: dyn_claims_None)
  have books: "dyn_books H ?b" unfolding begin_wave_task_def
    by (rule books_begin_task) (use inv(1) tk gid assms(4) same_baseD [OF b] in simp_all)
  have resh: "reshards_ok ?b" unfolding begin_wave_task_def
    by (rule reshards_ok_begin_task) (use inv(3) tk gid same_baseD [OF b] in simp_all)
  have cl: "dyn_claims ?b = (dyn_claims st)(tk \<mapsto> (False, g_ranks g))"
    unfolding begin_wave_task_def claims_begin_task [OF gid] same_baseD(1) [OF b] ..
  have T: "dg_topology ?b = dg_topology st" by (simp add: begin_wave_task_def)
  have q: "queues_ok (wave_queue_of ?b) (dyn_claims ?b)"
    by (rule queues_ok_take [OF inv(2), where y = "WaveQ rid" and out = "[tk]"]) (use assms(2) cl in \<open>auto simp: wave_queue_begin\<close>)
  have "wave_inv H ?b" using books resh q T inv(4-6) by (simp add: wave_inv_def)
  then have n: "wave_inv H (next_cursor ?b)" by (rule wave_inv_next)
  show ?thesis
    by (rule wav.dispatched_one_queue [OF n, where y = "WaveQ rid" and q' = q])
      (use assms(2,4) cl same_baseD(1) [OF next_cursor_base(1) [of ?b]] in \<open>auto simp: next_cursor_base(2) wave_queue_begin\<close>)
qed

lemma wave_loop_spec:
  assumes "wave_loop a h st = Inr ((h', st'), out)" "wave_inv H st"
  shows "wave_dispatched H st st' out \<and> dg_topology st' = dg_topology st
     \<and> ws_active_wave_order st' = ws_active_wave_order st \<and> (\<forall>y. queue_of st' y = queue_of st y)"
  using assms
proof (induction a h st arbitrary: out rule: wave_loop.induct)
  case (1 a h st)
  let ?n = "length (ws_active_wave_order st)" and ?rid = "ws_active_wave_order st ! ws_rr_cursor st"
  have same: "dg_topology (next_cursor st) = dg_topology st" "ws_active_wave_order (next_cursor st) = ws_active_wave_order st"
    "queue_of (next_cursor st) y = queue_of st y" for y
    using same_baseD(5) [OF next_cursor_base(1)] fun_cong [OF next_cursor_base(2) [of st], of "GroupQ y"] by auto
  have skip: ?case if "wave_dispatched H (next_cursor st) st' out \<and> dg_topology st' = dg_topology (next_cursor st)
      \<and> ws_active_wave_order st' = ws_active_wave_order (next_cursor st) \<and> (\<forall>y. queue_of st' y = queue_of (next_cursor st) y)"
    using that same next_cursor_base(2) [of st] same_baseD(1,4) [OF next_cursor_base(1) [of st]]
    unfolding wav.dispatched_def by simp
  show ?case
  proof (cases "a < ?n \<and> ws_rr_cursor st < ?n")
    case False
    then have "st' = st" "out = []" using 1(4) by (auto simp: wave_loop.simps split: if_splits)
    then show ?thesis using wav.dispatched_refl [OF 1(5)] by simp
  next
    case c: True
    then have c': "a < ?n" "\<not> ?n \<le> ws_rr_cursor st" by auto
    show ?thesis
    proof (cases "wave_queue st ?rid")
      case Nil
      then have "wave_loop (a + 1) h (next_cursor st) = Inr ((h', st'), out)" using 1(4) c by (simp add: wave_loop.simps [of a])
      then show ?thesis by (intro skip 1(1) [OF c' Nil] wave_inv_next [OF 1(5)])
    next
      case (Cons tk q)
      then obtain g where g: "get_group (dg_topology st) (task_group_id (h tk)) = Inr g"
        using 1(4) c by (auto simp: wave_loop.simps [of a] split: sum.splits)
      show ?thesis
      proof (cases "can_dispatch_ranks st (g_ranks g)")
        case False
        then have "wave_loop (a + 1) h (next_cursor st) = Inr ((h', st'), out)"
          using 1(4) c Cons g by (simp add: wave_loop.simps [of a])
        then show ?thesis by (intro skip 1(3) [OF c' Cons g False] wave_inv_next [OF 1(5)])
      next
        case True
        let ?st = "next_cursor (begin_wave_task ?rid tk q (task_group_id (h tk)) (g_ranks g) st)"
        obtain o1 where r: "wave_loop 0 (set_dispatched tk h) ?st = Inr ((h', st'), o1)" and out: "out = tk # o1"
          using 1(4) c Cons g True by (auto simp: wave_loop.simps [of a] split: sum.splits prod.splits)
        note b = wave_begin_spec [OF 1(5) Cons g True]
        note IH = 1(2) [OF c' Cons g True r wav.dispatchedD(1) [OF b]]
        have "queue_of ?st y = queue_of st y" for y
          by (simp add: next_cursor_base(2) wave_queue_begin flip: wave_queue_of_simps(1))
        moreover have "dg_topology ?st = dg_topology st"
          by (simp add: begin_wave_task_def next_cursor_def)
        ultimately show ?thesis
          using wav.dispatched_trans [OF 1(5) b] IH out by simp
      qed
    qed
  qed
qed


text \<open>The head task of a request of the wave waits for ranks that are not free.\<close>

definition wave_blocked :: "heap \<Rightarrow> 'a wave_stress_scheme \<Rightarrow> string \<Rightarrow> bool" where
  "wave_blocked h st rid \<longleftrightarrow>
     (case wave_queue st rid of
        [] \<Rightarrow> True
      | tk # _ \<Rightarrow>
          (case get_group (dg_topology st) (task_group_id (h tk)) of
             Inl _ \<Rightarrow> False | Inr g \<Rightarrow> \<not> can_dispatch_ranks st (g_ranks g)))"

lemma wave_blocked_next [simp]: "wave_blocked h (next_cursor st) rid = wave_blocked h st rid"
  using same_baseD(4,5) [OF next_cursor_base(1) [of st]]
  by (simp add: wave_blocked_def wave_queue_def split: list.split sum.split)

text \<open>The requests visited in the last \<open>a\<close> steps of the round are blocked.\<close>

definition lap_blocked :: "nat \<Rightarrow> heap \<Rightarrow> 'a wave_stress_scheme \<Rightarrow> bool" where
  "lap_blocked a h st \<longleftrightarrow> (\<forall>k < a. wave_blocked h st
     (ws_active_wave_order st ! ((ws_rr_cursor st + (length (ws_active_wave_order st) - 1 - k)) mod length (ws_active_wave_order st))))"

lemma lap_blocked_step:
  assumes "lap_blocked a h st" "a < length (ws_active_wave_order st)" "ws_rr_cursor st < length (ws_active_wave_order st)"
    "wave_blocked h st (ws_active_wave_order st ! ws_rr_cursor st)"
  shows "lap_blocked (a + 1) h (next_cursor st)"
  unfolding lap_blocked_def
proof (intro allI impI)
  fix k assume k: "k < a + 1"
  let ?n = "length (ws_active_wave_order st)" and ?c = "ws_rr_cursor st"
  have "((?c + 1) mod ?n + (?n - 1 - k)) mod ?n = (?c + (?n - k)) mod ?n"
  proof -
    have "((?c + 1) mod ?n + (?n - 1 - k)) mod ?n = ((?c + 1) + (?n - 1 - k)) mod ?n" by (rule mod_add_left_eq)
    moreover have "(?c + 1) + (?n - 1 - k) = ?c + (?n - k)" using assms(2) k by simp
    ultimately show ?thesis by (simp only:)
  qed
  moreover have "wave_blocked h st (ws_active_wave_order st ! ((?c + (?n - k)) mod ?n))"
  proof (cases k)
    case 0
    then show ?thesis using assms(3,4) by simp
  next
    case (Suc j)
    then have "?n - k = ?n - 1 - j" "j < a" using k by auto
    then show ?thesis using assms(1) by (simp add: lap_blocked_def)
  qed
  ultimately show "wave_blocked h (next_cursor st) (ws_active_wave_order (next_cursor st) !
      ((ws_rr_cursor (next_cursor st) + (length (ws_active_wave_order (next_cursor st)) - 1 - k))
        mod length (ws_active_wave_order (next_cursor st))))" by simp
qed

lemma lap_blocked_all:
  assumes "lap_blocked (length (ws_active_wave_order st)) h st" "ws_rr_cursor st < length (ws_active_wave_order st)"
    "rid \<in> set (ws_active_wave_order st)"
  shows "wave_blocked h st rid"
proof -
  let ?n = "length (ws_active_wave_order st)" and ?c = "ws_rr_cursor st"
  from assms(3) obtain i where i: "i < ?n" "ws_active_wave_order st ! i = rid" by (auto simp: in_set_conv_nth)
  define m where "m = (i + ?n - ?c) mod ?n"
  have m: "m < ?n" unfolding m_def using i(1) by (intro mod_less_divisor) linarith
  have "(?c + m) mod ?n = (?c + (i + ?n - ?c)) mod ?n" unfolding m_def by (rule mod_add_right_eq)
  also have "\<dots> = i" using assms(2) i by simp
  finally have "(?c + (?n - 1 - (?n - 1 - m))) mod ?n = i" using m by simp
  moreover have "?n - 1 - m < ?n" using m by simp
  ultimately show ?thesis using assms(1) i(2) unfolding lap_blocked_def by metis
qed

lemma wave_loop_no_idle:
  assumes "wave_loop a h st = Inr ((h', st'), out)" "a \<le> length (ws_active_wave_order st)" "lap_blocked a h st"
    "ws_active_wave_order st \<noteq> [] \<Longrightarrow> ws_rr_cursor st < length (ws_active_wave_order st)"
    "rid \<in> set (ws_active_wave_order st')"
  shows "wave_blocked h' st' rid"
  using assms
proof (induction a h st arbitrary: out rule: wave_loop.induct)
  case (1 a h st)
  let ?n = "length (ws_active_wave_order st)" and ?rid = "ws_active_wave_order st ! ws_rr_cursor st"
  show ?case
  proof (cases "a < ?n")
    case False
    then have "st' = st" "h' = h" "a = ?n" using 1(4,5) by (auto simp: wave_loop.simps)
    then show ?thesis using lap_blocked_all [of st h rid] 1(6-8) by (cases "ws_active_wave_order st") auto
  next
    case a: True
    then have "ws_active_wave_order st \<noteq> []" by auto
    then have n: "ws_active_wave_order st \<noteq> []" "ws_rr_cursor st < ?n" "\<not> ?n \<le> ws_rr_cursor st" using 1(7) by auto
    have cur: "ws_rr_cursor (next_cursor st2) < length (ws_active_wave_order (next_cursor st2))"
      if "ws_active_wave_order (next_cursor st2) \<noteq> []" for st2 :: "'a wave_stress_scheme" using that by simp
    show ?thesis
    proof (cases "wave_queue st ?rid")
      case Nil
      then have "wave_loop (a + 1) h (next_cursor st) = Inr ((h', st'), out)" using 1(4) a n by (simp add: wave_loop.simps [of a])
      moreover have "wave_blocked h st ?rid" using Nil by (simp add: wave_blocked_def)
      ultimately show ?thesis
        using 1(1) [OF a n(3) Nil] lap_blocked_step [OF 1(6) a n(2)] cur 1(8) a by simp
    next
      case (Cons tk q)
      then obtain g where g: "get_group (dg_topology st) (task_group_id (h tk)) = Inr g"
        using 1(4) a n by (auto simp: wave_loop.simps [of a] split: sum.splits)
      show ?thesis
      proof (cases "can_dispatch_ranks st (g_ranks g)")
        case False
        then have "wave_loop (a + 1) h (next_cursor st) = Inr ((h', st'), out)"
          using 1(4) a n Cons g by (simp add: wave_loop.simps [of a])
        moreover have "wave_blocked h st ?rid" using Cons g False by (simp add: wave_blocked_def)
        ultimately show ?thesis
          using 1(3) [OF a n(3) Cons g False] lap_blocked_step [OF 1(6) a n(2)] cur 1(8) a by simp
      next
        case True
        then obtain o1 where "wave_loop 0 (set_dispatched tk h) (next_cursor (begin_wave_task ?rid tk q (task_group_id (h tk)) (g_ranks g) st))
            = Inr ((h', st'), o1)"
          using 1(4) a n Cons g by (auto simp: wave_loop.simps [of a] split: sum.splits prod.splits)
        then show ?thesis
          using 1(2) [OF a n(3) Cons g True] cur 1(8) by (simp add: lap_blocked_def)
      qed
    qed
  qed
qed


section \<open>Enqueueing\<close>

lemma queues_ok_append:
  assumes "queues_ok Q cl" "distinct l" "\<And>tk. tk \<in> set l \<Longrightarrow> cl tk = None \<and> (\<forall>x. tk \<notin> set (Q x))"
    and "\<And>x. Q' x = Q x @ (if x = y then l else [])"
  shows "queues_ok Q' cl"
  using assms
proof (induction l arbitrary: Q)
  case Nil
  then have "Q' = Q" by auto
  then show ?case using Nil by simp
next
  case (Cons tk l)
  let ?Q = "\<lambda>x. Q x @ (if x = y then [tk] else [])"
  have "queues_ok ?Q cl" by (rule queues_ok_push [OF Cons.prems(1)]) (use Cons.prems(3) in auto)
  then show ?case by (rule Cons.IH) (use Cons.prems in auto)
qed

definition fresh_wave :: "'a wave_stress_scheme \<Rightarrow> string \<Rightarrow> bool" where
  "fresh_wave st tk \<longleftrightarrow> (\<forall>x. tk \<notin> set (wave_queue_of st x)) \<and> dg_dispatched_kind st tk = None"

text \<open>A step that changes queues only; the wave and what is held stay.\<close>

definition wave_frame :: "'a wave_stress_scheme \<Rightarrow> 'a wave_stress_scheme \<Rightarrow> bool" where
  "wave_frame st st' \<longleftrightarrow> same_base st st' \<and> ws_active_wave_order st' = ws_active_wave_order st
     \<and> ws_rr_cursor st' = ws_rr_cursor st \<and> ws_held_plans st' = ws_held_plans st \<and> ws_wave_size st' = ws_wave_size st"

lemma wave_frame_trans: "wave_frame a b \<Longrightarrow> wave_frame b c \<Longrightarrow> wave_frame a c"
  by (simp add: wave_frame_def same_base_def)

lemma wave_frame_refl [simp]: "wave_frame st st"
  by (simp add: wave_frame_def same_base_def)

lemma pingpong_frame [simp]:
  "wave_frame st (st\<lparr>ws_pingpong_chunk_idx := i\<rparr>)" "wave_queue_of (st\<lparr>ws_pingpong_chunk_idx := i\<rparr>) = wave_queue_of st"
  by (auto simp: wave_frame_def same_base_def wave_queue_of_def wave_queue_def queue_of_def fun_eq_iff
      split: wave_qid.split option.split)

lemma select_group_wave_frame:
  assumes "select_group_wave st t = Inr (st', g)"
  shows "wave_frame st st' \<and> wave_queue_of st' = wave_queue_of st"
proof (cases "ws_req_role st (t_request_id t)")
  case None
  then show ?thesis using assms unfolding select_group_wave_def by (auto elim!: bind_res_InrE)
next
  case (Some role)
  show ?thesis
  proof (cases "t_kind t = DIT_STEP_CHUNK \<and> role = ''pingpong''")
    case True
    obtain idx where "st' = st\<lparr>ws_pingpong_chunk_idx := (ws_pingpong_chunk_idx st)(t_request_id t \<mapsto> idx + 1)\<rparr>"
      using assms unfolding select_group_wave_def Some option.case conjunct1 [OF True] conjunct2 [OF True]
      by (clarsimp simp: bind_res_eq_Inr)
    then show ?thesis by simp
  next
    case False
    then have "st' = st" using assms unfolding select_group_wave_def Some option.case by (simp split: if_split_asm)
    then show ?thesis by simp
  qed
qed

lemma enqueue_wave_task_spec:
  assumes "enqueue_wave_task (h, st) tk = Inr (h', st')"
  obtains y where "wave_frame st st'" "\<And>x. wave_queue_of st' x = wave_queue_of st x @ (if x = y then [tk] else [])"
proof -
  from assms obtain st1 gid where
    s: "(if t_group_id (h tk) = None then select_group_wave st (h tk) else Inr (st, t_group_id (h tk))) = Inr (st1, gid)"
    and e: "st' = st1\<lparr>dg_reshard_ready := dg_reshard_ready st1 @ [tk]\<rparr>
      \<or> (\<exists>rid. st' = st1\<lparr>ws_wave_ready_by_req := push_ready (ws_wave_ready_by_req st1) rid tk\<rparr>)
      \<or> (\<exists>g. st' = st1\<lparr>dg_group_ready := push_ready (dg_group_ready st1) g tk\<rparr>)"
    by (auto simp: enqueue_wave_task_def bind_res_eq_Inr Let_def split: if_splits option.splits)
  then have f: "wave_frame st st1" "\<And>x. wave_queue_of st1 x = wave_queue_of st x"
    using select_group_wave_frame [of st "h tk" st1 gid] by (auto split: if_splits)
  from e consider (resh) "st' = st1\<lparr>dg_reshard_ready := dg_reshard_ready st1 @ [tk]\<rparr>"
    | (wave) rid where "st' = st1\<lparr>ws_wave_ready_by_req := push_ready (ws_wave_ready_by_req st1) rid tk\<rparr>"
    | (group) g where "st' = st1\<lparr>dg_group_ready := push_ready (dg_group_ready st1) g tk\<rparr>" by blast
  then show thesis
  proof cases
    case resh
    have "wave_queue_of st' x = wave_queue_of st1 x @ (if x = GroupQ None then [tk] else [])" for x
      by (cases x) (simp_all add: resh queue_of_push, simp_all add: wave_queue_def)
    moreover have "wave_frame st1 st'" by (simp add: resh wave_frame_def same_base_def)
    ultimately show thesis using that [of "GroupQ None"] f(2) wave_frame_trans [OF f(1)] by simp
  next
    case (wave rid)
    have "wave_queue_of st' x = wave_queue_of st1 x @ (if x = WaveQ rid then [tk] else [])" for x
      by (cases x) (auto simp: wave wave_queue_def push_ready_def queue_of_def split: option.split)
    moreover have "wave_frame st1 st'" by (simp add: wave wave_frame_def same_base_def)
    ultimately show thesis using that [of "WaveQ rid"] f(2) wave_frame_trans [OF f(1)] by simp
  next
    case (group g)
    have "wave_queue_of st' x = wave_queue_of st1 x @ (if x = GroupQ (Some g) then [tk] else [])" for x
      by (cases x) (simp_all add: group queue_of_push, simp_all add: wave_queue_def)
    moreover have "wave_frame st1 st'" by (simp add: group wave_frame_def same_base_def)
    ultimately show thesis using that [of "GroupQ (Some g)"] f(2) wave_frame_trans [OF f(1)] by simp
  qed
qed

lemma wave_inv_frame:
  assumes "wave_inv H st" "wave_frame st st'" "queues_ok (wave_queue_of st') (dyn_claims st)"
  shows "wave_inv H st'"
  by (rule wave_inv_same_base [OF assms(1) _ assms(3)]) (use assms(1,2) in \<open>auto simp: wave_frame_def dest: wave_invD\<close>)

lemma enqueue_runnable_inv:
  assumes "enqueue_runnable tks (h, st) = Inr (h', st')" "wave_inv H st" "distinct tks" "\<forall>tk \<in> set tks. fresh_wave st tk"
  shows "wave_inv H st' \<and> wave_frame st st'"
  using assms
proof (induction tks arbitrary: h st)
  case Nil
  then show ?case by (simp add: enqueue_runnable_def wave_frame_def same_base_def)
next
  case (Cons tk tks)
  from Cons.prems(1) obtain h1 st1 where e: "enqueue_wave_task (h, st) tk = Inr (h1, st1)"
    and r: "enqueue_runnable tks (h1, st1) = Inr (h', st')" by (auto simp: enqueue_runnable_def bind_res_eq_Inr)
  from e obtain y where f: "wave_frame st st1"
    and q: "\<And>x. wave_queue_of st1 x = wave_queue_of st x @ (if x = y then [tk] else [])"
    by (rule enqueue_wave_task_spec) blast
  have k: "dg_dispatched_kind st1 = dg_dispatched_kind st" using f by (simp add: wave_frame_def same_base_def)
  have "queues_ok (wave_queue_of st1) (dyn_claims st)"
    by (rule queues_ok_push [OF wave_invD(2) [OF Cons.prems(2)] _ _ q])
      (use Cons.prems(4) in \<open>auto simp: fresh_wave_def dyn_claims_None\<close>)
  then have i: "wave_inv H st1" by (rule wave_inv_frame [OF Cons.prems(2) f])
  have "\<forall>t \<in> set tks. fresh_wave st1 t" using Cons.prems(3,4) q k by (auto simp: fresh_wave_def)
  then show ?case using Cons.IH [OF r i] Cons.prems(3) f wave_frame_trans by auto
qed

lemma enqueue_fresh:
  "enqueue_runnable tks (h, st) = Inr (h', st') \<Longrightarrow> fresh_wave st t \<Longrightarrow> t \<notin> set tks \<Longrightarrow> fresh_wave st' t"
proof (induction tks arbitrary: h st)
  case (Cons tk tks)
  from Cons.prems(1) obtain h1 st1 where e: "enqueue_wave_task (h, st) tk = Inr (h1, st1)"
    and r: "enqueue_runnable tks (h1, st1) = Inr (h', st')" by (auto simp: enqueue_runnable_def bind_res_eq_Inr)
  from e have "fresh_wave st1 t"
    by (rule enqueue_wave_task_spec) (use Cons.prems(2,3) in \<open>auto simp: fresh_wave_def wave_frame_def same_base_def\<close>)
  then show ?case using Cons.IH [OF r] Cons.prems(3) by simp
qed (simp add: enqueue_runnable_def)

lemma enqueue_plans: "for_res (\<lambda>s p. enqueue_runnable (root_tasks p) s) s ps = enqueue_runnable (concat (map root_tasks ps)) s"
  by (induction ps arbitrary: s) (simp_all add: enqueue_runnable_def for_res_append)

section \<open>Waves keep the invariant\<close>

lemma fold_assign_role:
  "wave_queue_of (fold assign_role prs st) = wave_queue_of st \<and> same_base st (fold assign_role prs st)
   \<and> ws_wave_size (fold assign_role prs st) = ws_wave_size st
   \<and> ws_active_wave_order (fold assign_role prs st) = ws_active_wave_order st @ map (p_request_id \<circ> fst) prs"
proof (induction prs arbitrary: st)
  case (Cons pr prs)
  have "wave_queue_of (assign_role pr st) x = wave_queue_of st x" for x
    by (cases x) (auto simp: assign_role_def wave_queue_def queue_of_def split: prod.split option.split)
  moreover have "same_base st (assign_role pr st)" by (simp add: assign_role_def same_base_def split: prod.split)
  ultimately show ?case
    using Cons.IH [of "assign_role pr st"] by (auto simp: same_base_def assign_role_def fun_eq_iff split: prod.splits)
qed (simp add: same_base_def)

text \<open>Held plans are released: their roots leave the held tasks and are enqueued.\<close>

lemma release_held:
  assumes "wave_inv H st" "same_base st st1" "ws_held_plans st = ps @ qs"
    and q: "\<And>x. wave_queue_of st1 x = (if x = HeldQ then concat (map root_tasks qs) else wave_queue_of st x)"
    and c: "ws_active_wave_order st1 \<noteq> [] \<Longrightarrow> ws_rr_cursor st1 < length (ws_active_wave_order st1)"
    and e: "enqueue_runnable (concat (map root_tasks ps)) (h, st1) = Inr (h', st')"
  shows "wave_inv H st' \<and> wave_frame st1 st' \<and> (\<forall>t. fresh_wave st t \<longrightarrow> fresh_wave st' t)"
proof -
  note inv = wave_invD [OF assms(1)]
  let ?ps = "concat (map root_tasks ps)"
  have held: "wave_queue_of st HeldQ = ?ps @ concat (map root_tasks qs)" using assms(3) by simp
  have d: "distinct ?ps" "set ?ps \<inter> set (concat (map root_tasks qs)) = {}"
    using queues_okD(1) [OF inv(2), of HeldQ] unfolding held by auto
  have "queues_ok (wave_queue_of st1) (dyn_claims st)"
  proof (rule queues_ok_weaken [OF inv(2)])
    show "distinct (wave_queue_of st1 x)" for x
      using queues_okD(1) [OF inv(2), of x] held by (auto simp: q)
    show "set (wave_queue_of st1 x) \<subseteq> set (wave_queue_of st x)" for x using held by (auto simp: q)
  qed simp
  then have i: "wave_inv H st1" by (rule wave_inv_same_base [OF assms(1,2) _ c])
  have "fresh_wave st1 tk" if "tk \<in> set ?ps" for tk
  proof -
    have tk: "tk \<in> set (wave_queue_of st HeldQ)" using that held by simp
    then have "dyn_claims st tk = None" by (rule queues_okD(3) [OF inv(2)])
    moreover have "tk \<notin> set (wave_queue_of st1 x)" for x
      using queues_okD(2) [OF inv(2), of x HeldQ] tk that d(2) by (auto simp: q)
    ultimately show ?thesis using assms(2) by (simp add: fresh_wave_def dyn_claims_None same_base_def)
  qed
  moreover have "fresh_wave st' t" if "fresh_wave st t" for t
  proof (rule enqueue_fresh [OF e])
    have t: "t \<notin> set (wave_queue_of st x)" "dg_dispatched_kind st t = None" for x using that by (simp_all add: fresh_wave_def)
    from t(1) [of HeldQ] show "t \<notin> set ?ps" unfolding held by simp
    have "t \<notin> set (concat (map root_tasks qs))" using t(1) [of HeldQ] unfolding held by simp
    then show "fresh_wave st1 t" using t assms(2) by (simp add: fresh_wave_def q same_base_def)
  qed
  ultimately show ?thesis using enqueue_runnable_inv [OF e i d(1)] by blast
qed

lemma activate_inv:
  assumes "activate_next_wave (h, st) = Inr (h', st')" "wave_inv H st"
  shows "wave_inv H st' \<and> ws_active_wave_order st' = map p_request_id (take (ws_wave_size st) (ws_held_plans st))
     \<and> ws_held_plans st' = drop (ws_wave_size st) (ws_held_plans st) \<and> dg_topology st' = dg_topology st
     \<and> (\<forall>t. fresh_wave st t \<longrightarrow> fresh_wave st' t)"
proof -
  let ?ps = "take (ws_wave_size st) (ws_held_plans st)" and ?qs = "drop (ws_wave_size st) (ws_held_plans st)"
  define st0 where "st0 = st\<lparr>ws_held_plans := ?qs\<rparr>"
  define st1 where "st1 = (fold assign_role (zip ?ps (take (ws_wave_size st) WAVE_ROLES)) st0)\<lparr>ws_rr_cursor := 0\<rparr>"
  from assms(1) have a: "ws_active_wave_order st = []" and l: "length ?ps = length (take (ws_wave_size st) WAVE_ROLES)"
    and e: "enqueue_runnable (concat (map root_tasks ?ps)) (h, st1) = Inr (h', st')"
    by (auto simp: activate_next_wave_def Let_def enqueue_plans st1_def st0_def split: if_splits)
  note fa = fold_assign_role [of "zip ?ps (take (ws_wave_size st) WAVE_ROLES)" st0]
  have order: "ws_active_wave_order st1 = map p_request_id ?ps"
    using fa a l by (simp add: st1_def st0_def) (simp add: map_fst_zip flip: map_map)
  have "wave_queue_of st0 x = (if x = HeldQ then concat (map root_tasks ?qs) else wave_queue_of st x)" for x
    by (cases x) (simp_all add: st0_def wave_queue_def queue_of_def split: option.split)
  moreover have "wave_queue_of st1 x = wave_queue_of (fold assign_role (zip ?ps (take (ws_wave_size st) WAVE_ROLES)) st0) x" for x
    by (cases x) (simp_all add: st1_def wave_queue_def queue_of_def split: option.split)
  ultimately have q: "wave_queue_of st1 x = (if x = HeldQ then concat (map root_tasks ?qs) else wave_queue_of st x)" for x
    using fa by simp
  have held: "ws_held_plans (fold assign_role prs st2) = ws_held_plans st2" for prs and st2 :: "'a wave_stress_scheme"
    by (induction prs arbitrary: st2) (simp_all add: assign_role_def split: prod.split)
  have b: "same_base st st1" using fa by (simp add: st1_def st0_def same_base_def)
  have "wave_inv H st' \<and> wave_frame st1 st' \<and> (\<forall>t. fresh_wave st t \<longrightarrow> fresh_wave st' t)"
    by (rule release_held [OF assms(2) b _ q _ e]) (auto simp: st1_def)
  then show ?thesis using order b held [of _ st0] by (simp add: wave_frame_def st1_def st0_def same_base_def)
qed


lemma flush_inv:
  assumes "flush_held_plans_as_warmup (h, st) = Inr (h', st')" "wave_inv H st"
  shows "wave_inv H st' \<and> ws_active_wave_order st' = ws_active_wave_order st \<and> ws_held_plans st' = []
     \<and> dg_topology st' = dg_topology st"
proof -
  let ?st = "st\<lparr>ws_held_plans := []\<rparr>"
  have e: "enqueue_runnable (concat (map root_tasks (ws_held_plans st))) (h, ?st) = Inr (h', st')"
    using assms(1) by (simp add: flush_held_plans_as_warmup_def enqueue_plans)
  have q: "wave_queue_of ?st x = (if x = HeldQ then concat (map root_tasks []) else wave_queue_of st x)" for x
    by (cases x) (simp_all add: wave_queue_def queue_of_def split: option.split)
  have "wave_inv H st' \<and> wave_frame ?st st' \<and> (\<forall>t. fresh_wave st t \<longrightarrow> fresh_wave st' t)"
    by (rule release_held [OF assms(2) _ _ q _ e]) (use wave_invD(6) [OF assms(2)] in \<open>simp_all add: same_base_def\<close>)
  then show ?thesis by (simp add: wave_frame_def same_base_def)
qed

lemma drop_request_base:
  "same_base st (drop_request h rid st)" "dynamic_step.more (drop_request h rid st) = dynamic_step.more st"
  by (simp_all add: drop_request_def same_base_def)

lemma forget_wave_request_spec:
  fixes st :: "'a wave_stress_scheme"
  shows "same_base st (forget_wave_request rid st)"
    "wave_queue_of (forget_wave_request rid st) x = (if x = WaveQ rid then [] else wave_queue_of st x)"
    "ws_held_plans (forget_wave_request rid st) = ws_held_plans st" "ws_wave_size (forget_wave_request rid st) = ws_wave_size st"
    "(ws_active_wave_order st \<noteq> [] \<Longrightarrow> ws_rr_cursor st < length (ws_active_wave_order st)) \<Longrightarrow>
     ws_active_wave_order (forget_wave_request rid st) \<noteq> [] \<Longrightarrow>
     ws_rr_cursor (forget_wave_request rid st) < length (ws_active_wave_order (forget_wave_request rid st))"
  subgoal by (simp add: forget_wave_request_def Let_def same_base_def)
  subgoal by (cases x) (auto simp: forget_wave_request_def Let_def wave_queue_def queue_of_def split: option.split)
  subgoal by (simp add: forget_wave_request_def Let_def)
  subgoal by (simp add: forget_wave_request_def Let_def)
  subgoal by (auto simp: forget_wave_request_def Let_def split: if_splits)
  done

lemma forget_wave_inv:
  assumes "wave_inv H st"
  shows "wave_inv H (forget_wave_request rid (drop_request h rid st))"
    and "ws_held_plans (forget_wave_request rid (drop_request h rid st)) = ws_held_plans st"
    and "ws_wave_size (forget_wave_request rid (drop_request h rid st)) = ws_wave_size st"
    and "dg_topology (forget_wave_request rid (drop_request h rid st)) = dg_topology st"
proof -
  let ?d = "drop_request h rid st"
  note f = forget_wave_request_spec [where rid = rid and st = ?d] and m = wave_fields_more [OF drop_request_base(2) [of h rid st]]
  note inv = wave_invD [OF assms]
  have sb: "same_base st (forget_wave_request rid ?d)"
    using f(1) drop_request_base(1) [of st h rid] by (simp add: same_base_def)
  have "queues_ok (wave_queue_of (forget_wave_request rid ?d)) (dyn_claims st)"
  proof (rule queues_ok_weaken [OF inv(2)])
    show "distinct (wave_queue_of (forget_wave_request rid ?d) x)" for x
      using queues_okD(1) [OF inv(2), of x] m unfolding f(2) by (cases x) (auto simp: queue_of_drop)
    show "set (wave_queue_of (forget_wave_request rid ?d) x) \<subseteq> set (wave_queue_of st x)" for x
      using m unfolding f(2) by (cases x) (auto simp: queue_of_drop)
  qed simp
  then show "wave_inv H (forget_wave_request rid ?d)"
    by (rule wave_inv_same_base [OF assms sb]) (use f(5) m inv(6) in simp)
  show "ws_held_plans (forget_wave_request rid ?d) = ws_held_plans st" "ws_wave_size (forget_wave_request rid ?d) = ws_wave_size st"
    using f(3,4) m by simp_all
  show "dg_topology (forget_wave_request rid ?d) = dg_topology st" by (rule same_baseD(5) [OF sb])
qed

lemma drop_wave_inv:
  assumes "drop_request_wave rid (h, st) = Inr (h', st')" "wave_inv H st"
  shows "wave_inv H st' \<and> dg_topology st' = dg_topology st"
proof -
  define st1 where "st1 = forget_wave_request rid (drop_request h rid st)"
  note f = forget_wave_inv [OF assms(2), of rid h, folded st1_def]
  from assms(1) consider "st' = st1" | "activate_next_wave (h, st1) = Inr (h', st')" | "flush_held_plans_as_warmup (h, st1) = Inr (h', st')"
    by (auto simp: drop_request_wave_def Let_def st1_def [symmetric] split: if_splits)
  then show ?thesis using f activate_inv [of h st1 h' st' H] flush_inv [of h st1 h' st' H] by cases auto
qed

lemma release_wave_inv:
  assumes "wave_inv H st"
  shows "wave_inv H (release_task_by_rank tk st) \<and> dg_topology (release_task_by_rank tk st) = dg_topology st"
proof -
  let ?st = "release_task_by_rank tk st"
  note inv = wave_invD [OF assms] and d = dyn_invD [OF dyn_inv_release [OF wave_inv_dyn [OF assms], of tk]]
  have m: "dynamic_step.more ?st = dynamic_step.more st"
    by (simp add: release_task_by_rank_def Let_def split: option.split)
  note f = wave_fields_more [OF m]
  have "wave_queue_of ?st = wave_queue_of st" by (rule ext, rename_tac x, case_tac x) (simp_all add: f)
  then have "queues_ok (wave_queue_of ?st) (dyn_claims ?st)" using queues_ok_release [OF inv(2)] by (simp add: claims_release)
  then show ?thesis using d inv(5,6) f by (simp add: wave_inv_def)
qed

lemma take_wave_spec:
  assumes "take_dispatchable_wave (h, st) = Inr ((h', st'), out)" "wave_inv H st"
  shows "wave_dispatched H st st' out \<and> dg_topology st' = dg_topology st
     \<and> (\<forall>g \<in> set (tp_groups (dg_topology st)). queue_of st' (Some (g_id g)) \<noteq> [] \<longrightarrow> \<not> can_dispatch_ranks st' (g_ranks g))
     \<and> (\<forall>rid \<in> set (ws_active_wave_order st'). wave_blocked h' st' rid)"
proof -
  from assms(1) obtain h1 st1 o1 o2 where p: "take_dispatchable_by_rank (h, st) = Inr ((h1, st1), o1)"
    and l: "wave_loop 0 h1 st1 = Inr ((h', st'), o2)" and out: "out = o1 @ o2"
    by (auto simp: take_dispatchable_wave_def bind_res_eq_Inr)
  note i = inherited_pass [OF p assms(2)]
  then have inv1: "wave_inv H st1" using wav.dispatchedD(1) by blast
  note s = wave_loop_spec [OF l inv1]
  have "\<not> can_dispatch_ranks st' (g_ranks g)"
    if "g \<in> set (tp_groups (dg_topology st))" "queue_of st' (Some (g_id g)) \<noteq> []" for g
    using i s that wav.can_mono [OF inv1] by metis
  moreover have "wave_blocked h' st' rid" if "rid \<in> set (ws_active_wave_order st')" for rid
    using wave_loop_no_idle [OF l _ _ _ that] wave_invD(6) [OF inv1] by (simp add: lap_blocked_def)
  moreover have "wave_dispatched H st st' out"
    using wav.dispatched_trans [OF assms(2), of st1 o1 st' o2] i s by (simp add: out)
  ultimately show ?thesis using i s by auto
qed


section \<open>Runs of the policy\<close>

lemma wave_runnable_spec:
  assumes "wave_runnable tks (h, st) = Inr ((h', st'), out)" "wave_inv H st" "distinct tks" "\<forall>tk \<in> set tks. fresh_wave st tk"
  shows "wave_inv H st'"
proof -
  from assms(1) obtain h1 st1 where e: "enqueue_runnable tks (h, st) = Inr (h1, st1)"
    and d: "take_dispatchable_wave (h1, st1) = Inr ((h', st'), out)" by (auto simp: wave_runnable_def bind_res_eq_Inr)
  have "wave_inv H st1" using enqueue_runnable_inv [OF e assms(2-4)] by blast
  then show ?thesis using take_wave_spec [OF d] wav.dispatchedD(1) by blast
qed

text \<open>The states a submission goes on from: with the count raised, and with the plan held.\<close>

lemma wave_submit_states:
  assumes "wave_inv H st" "distinct (root_tasks p)" "\<forall>tk \<in> set (root_tasks p). fresh_wave st tk"
    and st1: "st1 = st\<lparr>ws_num_seen_reqs := ws_num_seen_reqs st + 1\<rparr>" and st2: "st2 = st1\<lparr>ws_held_plans := ws_held_plans st1 @ [p]\<rparr>"
  shows "wave_inv H st1" "wave_inv H st2" "fresh_wave st t \<Longrightarrow> t \<notin> set (root_tasks p) \<Longrightarrow> fresh_wave st2 t"
    "fresh_wave st t \<Longrightarrow> fresh_wave st1 t"
proof -
  note inv = wave_invD [OF assms(1)]
  have q1: "wave_queue_of st1 = wave_queue_of st"
    by (rule ext, rename_tac x, case_tac x) (simp_all add: st1 wave_queue_def queue_of_def split: option.split)
  have b: "same_base st st1" "same_base st st2" by (simp_all add: st1 st2 same_base_def)
  show "wave_inv H st1"
    by (rule wave_inv_same_base [OF assms(1) b(1)]) (use inv q1 in \<open>simp_all add: st1\<close>)
  have q2: "wave_queue_of st2 x = wave_queue_of st x @ (if x = HeldQ then root_tasks p else [])" for x
    by (cases x) (simp_all add: st1 st2 wave_queue_def queue_of_def split: option.split)
  have "queues_ok (wave_queue_of st2) (dyn_claims st)"
    by (rule queues_ok_append [OF inv(2) assms(2) _ q2])
      (use assms(3) in \<open>auto simp: fresh_wave_def dyn_claims_None simp del: wave_queue_of_simps\<close>)
  then show "wave_inv H st2" by (rule wave_inv_same_base [OF assms(1) b(2)]) (use inv(6) in \<open>simp add: st1 st2\<close>)
  show "fresh_wave st2 t" if "fresh_wave st t" "t \<notin> set (root_tasks p)"
    using that b(2) by (simp add: fresh_wave_def q2 same_base_def del: wave_queue_of_simps)
  show "fresh_wave st1 t" if "fresh_wave st t" using that b(1) by (simp add: fresh_wave_def q1 same_base_def)
qed

lemma wave_submit_spec:
  assumes "wave_submit p (h, st) = Inr ((h', st'), out)" "wave_inv H st" "distinct (root_tasks p)"
    "\<forall>tk \<in> set (root_tasks p). fresh_wave st tk"
  shows "wave_inv H st'"
proof -
  define st1 where "st1 = st\<lparr>ws_num_seen_reqs := ws_num_seen_reqs st + 1\<rparr>"
  define st2 where "st2 = st1\<lparr>ws_held_plans := ws_held_plans st1 @ [p]\<rparr>"
  note i = wave_submit_states [OF assms(2-4) st1_def st2_def]
  from assms(1) consider "wave_runnable (root_tasks p) (h, st1) = Inr ((h', st'), out)"
    | "bind_res (activate_next_wave (h, st2)) take_dispatchable_wave = Inr ((h', st'), out)" | "st' = st2"
    unfolding wave_submit_def prod.case Let_def st1_def [symmetric] st2_def [symmetric] by (auto split: if_splits)
  then show ?thesis
  proof cases
    case 1
    then show ?thesis using wave_runnable_spec [OF 1 i(1) assms(3)] i(4) assms(4) by blast
  next
    case 2
    then obtain h1 st3 where "activate_next_wave (h, st2) = Inr (h1, st3)" "take_dispatchable_wave (h1, st3) = Inr ((h', st'), out)"
      by (auto simp: bind_res_eq_Inr)
    then show ?thesis using activate_inv [OF _ i(2)] take_wave_spec wav.dispatchedD(1) by blast
  next
    case 3
    then show ?thesis using i(2) by simp
  qed
qed

lemma wave_event_spec:
  assumes "wave_event ev (h, st) = Inr ((h', st'), out)" "wave_inv H st"
  obtains h1 st1 where "take_dispatchable_wave (h1, st1) = Inr ((h', st'), out)" "wave_inv H st1" "dg_topology st1 = dg_topology st"
proof -
  define st0 where "st0 = (if e_kind ev \<in> {TASK_EXEC_END, TASK_FAILED} then release_task_by_rank (e_task_id ev) st else st)"
  have i: "wave_inv H st0" "dg_topology st0 = dg_topology st" using release_wave_inv [OF assms(2)] assms(2) by (auto simp: st0_def)
  from assms(1) obtain h1 st1 where
    r: "(if e_kind ev \<in> {REQUEST_FINISHED, REQUEST_FAILED} then drop_request_wave (e_request_id ev) (h, st0) else Inr (h, st0)) = Inr (h1, st1)"
    and d: "take_dispatchable_wave (h1, st1) = Inr ((h', st'), out)"
    unfolding wave_event_def Let_def st0_def [symmetric] prod.case by (elim bind_res_InrE) auto
  have "wave_inv H st1 \<and> dg_topology st1 = dg_topology st"
    using r i drop_wave_inv [of "e_request_id ev" h st0 h1 st1 H] by (auto split: if_splits)
  then show thesis using that [OF d] by blast
qed

lemma wave_hold_inv:
  assumes "wave_inv H st"
  shows "wave_inv (\<lambda>r. H r + count_list rs r) (acquire_migration_hold rs st)"
    and "(\<And>r. count_list rs r \<le> H r) \<Longrightarrow> wave_inv (\<lambda>r. H r - count_list rs r) (release_migration_hold rs st)"
proof -
  note inv = wave_invD [OF assms] and d = wave_inv_dyn [OF assms]
  let ?a = "acquire_migration_hold rs st" and ?r = "release_migration_hold rs st"
  have "wave_queue_of ?a x = wave_queue_of st x" "wave_queue_of ?r x = wave_queue_of st x" for x
    by (cases x; simp add: acquire_migration_hold_def release_migration_hold_def claim_ranks_def wave_queue_def queue_of_def split: option.split)+
  moreover have "dyn_claims ?a = dyn_claims st" "dyn_claims ?r = dyn_claims st"
    by (auto simp: dyn_claims_def acquire_migration_hold_def release_migration_hold_def claim_ranks_def fun_eq_iff split: option.split)
  ultimately have q: "queues_ok (wave_queue_of ?a) (dyn_claims ?a)" "queues_ok (wave_queue_of ?r) (dyn_claims ?r)"
    using inv(2) by (simp_all add: queues_ok_def)
  show "wave_inv (\<lambda>r. H r + count_list rs r) ?a"
    using dyn_invD [OF dyn_inv_hold [OF d, of rs]] q(1) inv(5,6)
    by (simp add: wave_inv_def acquire_migration_hold_def claim_ranks_def)
  show "wave_inv (\<lambda>r. H r - count_list rs r) ?r" if "\<And>r. count_list rs r \<le> H r"
    using dyn_invD [OF dyn_inv_unhold [OF d that]] q(2) inv(5,6)
    by (simp add: wave_inv_def release_migration_hold_def)
qed

text \<open>The calls of the scheduler, as for the rank-aware policy.\<close>

inductive wave_reach :: "wave_stress \<Rightarrow> heap \<times> wave_stress \<Rightarrow> (int \<Rightarrow> nat) \<Rightarrow> bool" for st0 where
  start: "wave_reach st0 (h, st0) (\<lambda>_. 0)"
| tasks: "wave_reach st0 (h, st) H \<Longrightarrow> wave_reach st0 (h', st) H"
| submit: "wave_reach st0 (h, st) H \<Longrightarrow> wave_submit p (h, st) = Inr (s', out) \<Longrightarrow>
     distinct (root_tasks p) \<Longrightarrow> \<forall>tk \<in> set (root_tasks p). fresh_wave st tk \<Longrightarrow> wave_reach st0 s' H"
| runnable: "wave_reach st0 (h, st) H \<Longrightarrow> wave_runnable tks (h, st) = Inr (s', out) \<Longrightarrow>
     distinct tks \<Longrightarrow> \<forall>tk \<in> set tks. fresh_wave st tk \<Longrightarrow> wave_reach st0 s' H"
| event: "wave_reach st0 (h, st) H \<Longrightarrow> wave_event ev (h, st) = Inr (s', out) \<Longrightarrow> wave_reach st0 s' H"
| hold: "wave_reach st0 (h, st) H \<Longrightarrow>
     wave_reach st0 (h, acquire_migration_hold rs st) (\<lambda>r. H r + count_list rs r)"
| unhold: "wave_reach st0 (h, st) H \<Longrightarrow> (\<And>r. count_list rs r \<le> H r) \<Longrightarrow>
     wave_reach st0 (h, release_migration_hold rs st) (\<lambda>r. H r - count_list rs r)"

lemma wave_reach_inv:
  assumes "wave_reach st0 s H" "wave_inv (\<lambda>_. 0) st0"
  shows "wave_inv H (snd s)"
  using assms(1)
proof induction
  case (submit h st H p s' out)
  then show ?case using wave_submit_spec [of p h st "fst s'" "snd s'" out H] by simp
next
  case (runnable h st H tks s' out)
  then show ?case using wave_runnable_spec [of tks h st "fst s'" "snd s'" out H] by simp
next
  case (event h st H ev s' out)
  then have "wave_event ev (h, st) = Inr ((fst s', snd s'), out)" "wave_inv H st" by simp_all
  then show ?case by (rule wave_event_spec) (use take_wave_spec wav.dispatchedD(1) in blast)
qed (use assms(2) in \<open>simp_all add: wave_hold_inv\<close>)


section \<open>Properties\<close>

lemma ensure_stress_subgroups_inv:
  assumes "ensure_stress_subgroups T = Inr T'" "topology_inv T" "mark_free T"
  shows "topology_inv T' \<and> mark_free T'"
proof (rule for_res_invariant [where P = "\<lambda>T. topology_inv T \<and> mark_free T", OF _ _ assms(1) [unfolded ensure_stress_subgroups_def]])
  fix S e S'
  assume P: "topology_inv S \<and> mark_free S"
    and e: "e \<in> set [(''stress_g01'', [0, 1], 2), (''stress_g12'', [1, 2], 2), (''stress_gfull'', [0, 1, 2, 3 :: int], 4 :: int)]"
    and r: "(case e of (gid, ranks, sp) \<Rightarrow> bind_res (mk_parallel_spec 1 sp 1 False) (\<lambda>par.
         bind_res (mk_group_spec gid ranks par STRESS_TASK_KINDS sp 1) (\<lambda>g.
         bind_res (ensure_group S g) (\<lambda>(T', _). Inr T')))) = Inr S'"
  obtain gid ranks sp where ee: "e = (gid, ranks, sp)" by (cases e)
  from r [unfolded ee prod.case] obtain par g g' where g: "mk_group_spec gid ranks par STRESS_TASK_KINDS sp 1 = Inr g"
    and n: "ensure_group S g = Inr (S', g')" by (auto elim!: bind_res_InrE)
  have "g_id g = gid" using g by (auto simp: mk_group_spec_def Let_def split: if_splits)
  then have "g_id g \<noteq> reshard_mark" using e by (auto simp: ee reshard_mark_def)
  then show "topology_inv S' \<and> mark_free S'" using ensure_group_inv [OF _ n] P by (auto simp: mark_free_def)
qed (use assms(2,3) in simp)

lemma wave_init_empty:
  assumes "wave_stress_init T w n aux be rg stages sched = Inr st"
  shows "dyn_claims st = (\<lambda>_. None)" "wave_queue_of st y = []" "ws_active_wave_order st = []"
    "\<exists>T' x. ensure_stress_subgroups T = Inr T' \<and> st = dynamic_step.extend (dynamic_step_init T' stages sched) x"
proof -
  from assms obtain T' where T': "ensure_stress_subgroups T = Inr T'"
    and st: "\<exists>x. st = dynamic_step.extend (dynamic_step_init T' stages sched) x \<and> ws_held_plans st = []
      \<and> ws_active_wave_order st = [] \<and> ws_wave_ready_by_req st = (\<lambda>_. None)"
    by (auto simp: wave_stress_init_def Let_def bind_res_eq_Inr dynamic_step.extend_def split: if_splits)
  then show "\<exists>T' x. ensure_stress_subgroups T = Inr T' \<and> st = dynamic_step.extend (dynamic_step_init T' stages sched) x" by blast
  show "dyn_claims st = (\<lambda>_. None)" "wave_queue_of st y = []" "ws_active_wave_order st = []"
    using st by (auto simp: dyn_claims_def wave_queue_of_def wave_queue_def queue_of_def dynamic_step_init_def disaggregate_init_def
        disaggregate.extend_def dynamic_step.extend_def fun_eq_iff split: wave_qid.splits option.splits)
qed

lemma wave_init_inv:
  assumes "wave_stress_init T w n aux be rg stages sched = Inr st" "topology_inv T" "mark_free T"
  shows "wave_inv (\<lambda>_. 0) st"
proof -
  note e = wave_init_empty [OF assms(1)]
  from e(4) obtain T' x where T': "ensure_stress_subgroups T = Inr T'" and x: "st = dynamic_step.extend (dynamic_step_init T' stages sched) x"
    by blast
  show ?thesis
    using e(1-3) ensure_stress_subgroups_inv [OF T' assms(2,3)]
    by (simp add: wave_inv_def dyn_books_def reshards_ok_def ledger.books_def queues_ok_def del: wave_queue_of_simps)
      (simp add: x dynamic_step_init_def disaggregate_init_def disaggregate.extend_def dynamic_step.extend_def)
qed

text \<open>
  C29: In every reachable state of the stress policy two different tasks in flight occupy disjoint
  ranks: warm-up tasks, the tasks of a wave on the three overlapping stress groups, reshards, and the
  tasks of plans that were held and released later.
\<close>

theorem wave_ranks_exclusive:
  assumes "wave_stress_init T w n aux be rg stages sched = Inr st0" "topology_inv T" "mark_free T"
    and "wave_reach st0 (h, st) H"
    and "dg_dispatched_kind st tk \<noteq> None" "dy_dispatched_ranks_by_task st tk = Some rs"
    and "dg_dispatched_kind st tk' \<noteq> None" "dy_dispatched_ranks_by_task st tk' = Some rs'" "tk \<noteq> tk'"
  shows "set rs \<inter> set rs' = {}"
proof -
  have "exclusive (dyn_claims st)"
    using wave_reach_inv [OF assms(4) wave_init_inv [OF assms(1-3)]] by (simp add: wave_inv_def dyn_books_def)
  moreover have "\<exists>b. dyn_claims st tk = Some (b, rs)" "\<exists>b. dyn_claims st tk' = Some (b, rs')"
    using assms(5-8) by (auto simp: dyn_claims_def)
  ultimately show ?thesis using exclusiveD assms(9) by blast
qed

text \<open>
  After every worker event the round robin has left no request of the wave waiting without need:
  the first waiting task of each of them has a known group, and a rank of this group is occupied by a
  task in flight or held for a migration. The same holds for the queues of the groups.
\<close>

theorem wave_event_no_idle:
  assumes "wave_stress_init T w n aux be rg stages sched = Inr st0" "topology_inv T" "mark_free T"
    and "wave_reach st0 (h, st) H" "wave_event ev (h, st) = Inr ((h', st'), out)"
  shows "(\<forall>rid \<in> set (ws_active_wave_order st'). \<forall>tk q. wave_queue st' rid = tk # q \<longrightarrow>
        (\<exists>g. get_group (dg_topology st') (task_group_id (h' tk)) = Inr g
          \<and> (\<exists>r \<in> set (g_ranks g). 0 < H r \<or> (\<exists>tk' ks. dg_dispatched_kind st' tk' \<noteq> None
                \<and> dy_dispatched_ranks_by_task st' tk' = Some ks \<and> r \<in> set ks))))
    \<and> (\<forall>g \<in> set (tp_groups (dg_topology st')). queue_of st' (Some (g_id g)) \<noteq> [] \<longrightarrow>
        (\<exists>r \<in> set (g_ranks g). 0 < H r \<or> (\<exists>tk' ks. dg_dispatched_kind st' tk' \<noteq> None
                \<and> dy_dispatched_ranks_by_task st' tk' = Some ks \<and> r \<in> set ks)))"
proof -
  have inv: "wave_inv H st" using wave_reach_inv [OF assms(4) wave_init_inv [OF assms(1-3)]] by simp
  from wave_event_spec [OF assms(5) inv] obtain h1 st1 where
    d: "take_dispatchable_wave (h1, st1) = Inr ((h', st'), out)" and i: "wave_inv H st1" by blast
  note t = take_wave_spec [OF d i]
  have b: "dyn_books H st'" using t wav.dispatchedD(1) wave_invD(1) by blast
  have busy: "\<exists>r \<in> set rs. 0 < H r \<or> (\<exists>tk' ks. dg_dispatched_kind st' tk' \<noteq> None
      \<and> dy_dispatched_ranks_by_task st' tk' = Some ks \<and> r \<in> set ks)" if "\<not> can_dispatch_ranks st' rs" for rs
    using that unfolding can_dispatch_ranks_iff [OF b] claimed_rank [symmetric] neq0_conv [symmetric] by blast
  have "\<exists>g. get_group (dg_topology st') (task_group_id (h' tk)) = Inr g \<and> \<not> can_dispatch_ranks st' (g_ranks g)"
    if "rid \<in> set (ws_active_wave_order st')" "wave_queue st' rid = tk # q" for rid tk q
    using t that by (fastforce simp: wave_blocked_def split: sum.splits)
  then show ?thesis using busy t by (metis (no_types, lifting))
qed

text \<open>
  The end of any request, also of a warm-up request, releases the held plans when no wave is active
  and too few are held: they run as warm-up requests, and no wave is formed from them.
\<close>

lemma early_flush:
  assumes "wave_inv H st" "drop_request_wave rid (h, st) = Inr (h', st')" "ws_active_wave_order st = []"
    "ws_held_plans st \<noteq> []" "length (ws_held_plans st) < ws_wave_size st"
  shows "ws_held_plans st' = [] \<and> ws_active_wave_order st' = []"
proof -
  let ?st = "forget_wave_request rid (drop_request h rid st)"
  note f = forget_wave_inv [OF assms(1), of rid h]
  have o: "ws_active_wave_order ?st = []"
    using assms(3) wave_fields_more(1) [OF drop_request_base(2) [of h rid st]] by (simp add: forget_wave_request_def Let_def)
  then have "flush_held_plans_as_warmup (h, ?st) = Inr (h', st')"
    using assms(2,4,5) f(2,3) by (simp add: drop_request_wave_def Let_def)
  then show ?thesis using flush_inv [OF _ f(1)] o by simp
qed


text \<open>A submission makes no task known but the roots of its plan.\<close>

lemma dispatched_fresh: "wave_dispatched H st st' out \<Longrightarrow> fresh_wave st t \<Longrightarrow> fresh_wave st' t"
proof -
  assume d: "wave_dispatched H st st' out" and t: "fresh_wave st t"
  have "t \<notin> set out" using wav.dispatchedD(3) [OF d] t by (auto simp: fresh_wave_def)
  then have "dyn_claims st' t = None" using wav.dispatchedD(5) [OF d] t by (simp add: fresh_wave_def dyn_claims_None)
  moreover have "t \<notin> set (wave_queue_of st' x)" for x
  proof -
    from wav.dispatchedD(2) [OF d, of x] obtain l where "wave_queue_of st x = l @ wave_queue_of st' x" by blast
    moreover have "t \<notin> set (wave_queue_of st x)" using t by (simp add: fresh_wave_def)
    ultimately show ?thesis by simp
  qed
  ultimately show ?thesis by (simp add: fresh_wave_def dyn_claims_None)
qed

lemma wave_submit_fresh:
  assumes "wave_submit p (h, st) = Inr ((h', st'), out)" "wave_inv H st" "distinct (root_tasks p)"
    "\<forall>tk \<in> set (root_tasks p). fresh_wave st tk" and t: "fresh_wave st t" "t \<notin> set (root_tasks p)"
  shows "fresh_wave st' t"
proof -
  define st1 where "st1 = st\<lparr>ws_num_seen_reqs := ws_num_seen_reqs st + 1\<rparr>"
  define st2 where "st2 = st1\<lparr>ws_held_plans := ws_held_plans st1 @ [p]\<rparr>"
  note i = wave_submit_states [OF assms(2-4) st1_def st2_def]
  from assms(1) consider
    h1 st3 where "enqueue_runnable (root_tasks p) (h, st1) = Inr (h1, st3)" "take_dispatchable_wave (h1, st3) = Inr ((h', st'), out)"
    | h1 st3 where "activate_next_wave (h, st2) = Inr (h1, st3)" "take_dispatchable_wave (h1, st3) = Inr ((h', st'), out)" | "st' = st2"
    unfolding wave_submit_def prod.case Let_def st1_def [symmetric] st2_def [symmetric] wave_runnable_def
    by (auto simp: bind_res_eq_Inr split: if_splits)
  then show ?thesis
  proof cases
    case 1
    then have "fresh_wave st3 t" using enqueue_fresh [OF 1(1) i(4) [OF t(1)] t(2)] by blast
    moreover have "wave_inv H st3" using enqueue_runnable_inv [OF 1(1) i(1) assms(3)] i(4) assms(4) by blast
    ultimately show ?thesis using take_wave_spec [OF 1(2)] dispatched_fresh by blast
  next
    case 2
    then show ?thesis using activate_inv [OF 2(1) i(2)] i(3) [OF t] take_wave_spec [OF 2(2)] dispatched_fresh by blast
  next
    case 3
    then show ?thesis using i(3) [OF t] by simp
  qed
qed

section \<open>A concrete run\<close>

text \<open>A warm-up request on group \<open>c\<close>, then a wave of two: the groups of its requests share rank 1.\<close>

definition ex_wave_task :: "string \<Rightarrow> task" where
  "ex_wave_task tk = (ex_task tk ''c'')\<lparr>t_request_id := tk, t_group_id := (if tk = ''t0'' then Some ''c'' else None)\<rparr>"

definition ex_wave_plan :: "string \<Rightarrow> plan" where
  "ex_wave_plan tk =
     \<lparr>p_request_id = tk, p_tasks = [(tk, ex_wave_task tk)], p_terminal = [tk], p_initial = [], p_metadata = []\<rparr>"

definition ex_wave0 :: wave_stress where
  "ex_wave0 = (case wave_stress_init ex_topology 1 2 None (Some ''GFC'') True None None of Inr st \<Rightarrow> st | Inl _ \<Rightarrow> undefined)"

lemma ex_wave_init: "wave_stress_init ex_topology 1 2 None (Some ''GFC'') True None None = Inr ex_wave0"
proof -
  have "case wave_stress_init ex_topology 1 2 None (Some ''GFC'') True None None of Inr st \<Rightarrow> True | Inl _ \<Rightarrow> False" by code_simp
  then show ?thesis by (auto simp: ex_wave0_def split: sum.splits)
qed

definition ex_wave_run :: "((heap \<times> wave_stress) \<times> string list) res" where
  "ex_wave_run =
     bind_res (wave_stress_init ex_topology 1 2 None (Some ''GFC'') True None None) (\<lambda>st0.
     bind_res (wave_submit (ex_wave_plan ''t0'') (ex_wave_task, st0)) (\<lambda>(s1, o1).
     bind_res (wave_submit (ex_wave_plan ''t1'') s1) (\<lambda>(s2, o2).
     bind_res (wave_submit (ex_wave_plan ''t2'') s2) (\<lambda>(s3, o3). Inr (s3, o1 @ o2 @ o3)))))"

definition ex_wave_event :: worker_event where
  "ex_wave_event = ex_event\<lparr>e_task_id := ''t0'', e_request_id := ''t0''\<rparr>"

lemma ex_wave_run_value:
  "case ex_wave_run of Inl _ \<Rightarrow> False
   | Inr ((h, st), out) \<Rightarrow> out = [''t0'', ''t1''] \<and> dy_dispatched_ranks_by_task st ''t0'' = Some [3]
       \<and> dy_dispatched_ranks_by_task st ''t1'' = Some [0, 1] \<and> dg_dispatched_kind st ''t0'' = Some ''c''
       \<and> dg_dispatched_kind st ''t1'' = Some ''stress_g01''
       \<and> (case wave_event ex_wave_event (h, st) of Inl _ \<Rightarrow> False
          | Inr ((h', st'), out') \<Rightarrow> out' = [] \<and> ws_active_wave_order st' = [''t1'', ''t2''] \<and> wave_queue st' ''t2'' = [''t2''])"
  by code_simp


lemma ex_wave_init_fresh: "fresh_wave ex_wave0 tk"
  using wave_init_empty [OF ex_wave_init] by (simp add: fresh_wave_def dyn_claims_None [symmetric] del: wave_queue_of_simps)

lemma ex_wave_roots: "root_tasks (ex_wave_plan tk) = [tk]"
  by (simp add: root_tasks_def ex_wave_plan_def ex_wave_task_def ex_task_def)

lemma ex_wave_submit:
  assumes "wave_reach ex_wave0 (h, st) H" "wave_submit (ex_wave_plan tk) (h, st) = Inr (s', out)" "fresh_wave st tk"
  shows "wave_reach ex_wave0 s' H \<and> (\<forall>t. t \<noteq> tk \<and> fresh_wave st t \<longrightarrow> fresh_wave (snd s') t)"
proof -
  have inv: "wave_inv H st"
    using wave_reach_inv [OF assms(1) wave_init_inv [OF ex_wave_init ex_topology_inv ex_mark_free]] by simp
  have f: "distinct (root_tasks (ex_wave_plan tk))" "\<forall>t \<in> set (root_tasks (ex_wave_plan tk)). fresh_wave st t"
    using assms(3) by (simp_all add: ex_wave_roots)
  have "wave_submit (ex_wave_plan tk) (h, st) = Inr ((fst s', snd s'), out)" using assms(2) by simp
  from wave_submit_fresh [OF this inv f] wave_reach.submit [OF assms(1,2) f] show ?thesis by (simp add: ex_wave_roots)
qed

lemma ex_wave_reach:
  obtains h st out where "ex_wave_run = Inr ((h, st), out)" "wave_reach ex_wave0 (h, st) (\<lambda>_. 0)"
proof -
  obtain h st out where r: "ex_wave_run = Inr ((h, st), out)" using ex_wave_run_value by (auto split: sum.splits)
  then obtain h1 st1 o1 h2 st2 o2 o3 where
    s: "wave_submit (ex_wave_plan ''t0'') (ex_wave_task, ex_wave0) = Inr ((h1, st1), o1)"
      "wave_submit (ex_wave_plan ''t1'') (h1, st1) = Inr ((h2, st2), o2)"
      "wave_submit (ex_wave_plan ''t2'') (h2, st2) = Inr ((h, st), o3)"
    unfolding ex_wave_run_def ex_wave_init by (auto simp: bind_res_eq_Inr)
  note e1 = ex_wave_submit [OF wave_reach.start s(1) ex_wave_init_fresh]
  then have f1: "fresh_wave st1 ''t1''" "fresh_wave st1 ''t2''" using ex_wave_init_fresh by simp_all
  note e2 = ex_wave_submit [OF conjunct1 [OF e1] s(2) f1(1)]
  then have "fresh_wave st2 ''t2''" using f1(2) by simp
  from ex_wave_submit [OF conjunct1 [OF e2] s(3) this] show thesis using that r by blast
qed

theorem wave_ranks_exclusive_witness:
  "\<exists>h st. wave_reach ex_wave0 (h, st) (\<lambda>_. 0) \<and> dg_dispatched_kind st ''t1'' = Some ''stress_g01'' \<and> set [3] \<inter> set [0, 1 :: int] = {}"
proof -
  obtain h st out where r: "ex_wave_run = Inr ((h, st), out)" and reach: "wave_reach ex_wave0 (h, st) (\<lambda>_. 0)" by (rule ex_wave_reach)
  have k: "dy_dispatched_ranks_by_task st ''t0'' = Some [3]" "dy_dispatched_ranks_by_task st ''t1'' = Some [0, 1]"
    "dg_dispatched_kind st ''t0'' \<noteq> None" "dg_dispatched_kind st ''t1'' = Some ''stress_g01''"
    using ex_wave_run_value [unfolded r] by simp_all
  have "dg_dispatched_kind st ''t1'' \<noteq> None" using k(4) by simp
  from wave_ranks_exclusive [OF ex_wave_init ex_topology_inv ex_mark_free reach k(3,1) this k(2)] reach k(4)
  show ?thesis by (intro exI [of _ h] exI [of _ st]) simp
qed

theorem wave_event_no_idle_witness:
  "\<exists>h st s' out. wave_reach ex_wave0 (h, st) (\<lambda>_. 0) \<and> wave_event ex_wave_event (h, st) = Inr (s', out)
     \<and> wave_queue (snd s') ''t2'' = [''t2'']
     \<and> (\<exists>tk' ks. dg_dispatched_kind (snd s') tk' \<noteq> None \<and> dy_dispatched_ranks_by_task (snd s') tk' = Some ks \<and> ks \<noteq> [])"
proof -
  obtain h st out where r: "ex_wave_run = Inr ((h, st), out)" and reach: "wave_reach ex_wave0 (h, st) (\<lambda>_. 0)" by (rule ex_wave_reach)
  obtain h' st' out' where e: "wave_event ex_wave_event (h, st) = Inr ((h', st'), out')"
    and w: "ws_active_wave_order st' = [''t1'', ''t2'']" "wave_queue st' ''t2'' = [''t2'']"
    using ex_wave_run_value [unfolded r] by (auto split: sum.splits)
  from wave_event_no_idle [OF ex_wave_init ex_topology_inv ex_mark_free reach e] w
  have "\<exists>tk' ks r. dg_dispatched_kind st' tk' \<noteq> None \<and> dy_dispatched_ranks_by_task st' tk' = Some ks \<and> r \<in> set ks" by fastforce
  then have "\<exists>tk' ks. dg_dispatched_kind st' tk' \<noteq> None \<and> dy_dispatched_ranks_by_task st' tk' = Some ks \<and> ks \<noteq> []" by force
  then show ?thesis using reach e w(2) by (intro exI [of _ h] exI [of _ st] exI [of _ "(h', st')"] exI [of _ out']) simp
qed

end
