(* ===== verification/Runner.thy ===== *)
theory Runner
  imports Startup WaveStress EdfBestFit Sjf Fcfs CostModel SchedulerRuns
begin

text \<open>
  The runner (\<open>RuntimeV2Runner\<close> in \<open>runtime_v2/runner.py\<close>): the checks of the collective backend and
  of the stage groups, the construction of the scheduler policy from its name, the wait for a
  request. The start of the worker processes is outside; the model adapter contributes its task
  kinds. A policy is one of the eight classes of the package; a caller may pass an instance of
  one of them instead of its name.
\<close>

section \<open>Policies\<close>

datatype policy =
    FCFSSchedulerPolicy "estimator option" fcfs
  | SRTFSchedulerPolicy "estimator option" srtf
  | SJFSchedulerPolicy "estimator option" sjf
  | DisaggregateSchedulerPolicy disaggregate
  | DynamicStepFCFSSchedulerPolicy dynamic_step
  | EdfGreedySchedulerPolicy "estimator option" edf
  | EdfBestFitSchedulerPolicy "estimator option" best_fit
  | WaveStressSchedulerPolicy wave_stress

text \<open>\<open>type(policy).__name__\<close>.\<close>

fun class_name :: "policy \<Rightarrow> string" where
  "class_name (FCFSSchedulerPolicy _ _) = ''FCFSSchedulerPolicy''"
| "class_name (SRTFSchedulerPolicy _ _) = ''SRTFSchedulerPolicy''"
| "class_name (SJFSchedulerPolicy _ _) = ''SJFSchedulerPolicy''"
| "class_name (DisaggregateSchedulerPolicy _) = ''DisaggregateSchedulerPolicy''"
| "class_name (DynamicStepFCFSSchedulerPolicy _) = ''DynamicStepFCFSSchedulerPolicy''"
| "class_name (EdfGreedySchedulerPolicy _ _) = ''EdfGreedySchedulerPolicy''"
| "class_name (EdfBestFitSchedulerPolicy _ _) = ''EdfBestFitSchedulerPolicy''"
| "class_name (WaveStressSchedulerPolicy _) = ''WaveStressSchedulerPolicy''"

datatype policy_arg = PolicyName string | PolicyInstance policy

definition arg_name :: "policy_arg \<Rightarrow> string" where
  "arg_name a = str_lower (case a of PolicyName n \<Rightarrow> n | PolicyInstance p \<Rightarrow> class_name p)"

text \<open>\<open>sub in s\<close>.\<close>

definition contains :: "string \<Rightarrow> string \<Rightarrow> bool" where
  "contains sub s \<longleftrightarrow> (\<exists>i \<in> set [0..<Suc (length s)]. take (length sub) (drop i s) = sub)"

text \<open>
  The estimator made from a cost model store. A missing model counts as no time; the warning that
  is logged once per model is left out.
\<close>

definition make_cost_model_estimator :: "cost_store \<Rightarrow> estimator" where
  "make_cost_model_estimator store par seq_len stage =
     (case for_parallel_spec store par None 1 of
        Inl e \<Rightarrow> if e = KeyError then Inr (Fin 0) else Inl e
      | Inr model \<Rightarrow> bind_res (estimate_ms model stage (of_int seq_len)) (\<lambda>ms. Inr (Fin ms)))"

section \<open>Checks\<close>

definition check_gfc_group :: "unit \<Rightarrow> group_spec \<Rightarrow> unit res" where
  "check_gfc_group u g =
     (if ps_tp (g_parallel g) \<noteq> 1 then Inl ValueError
      else if ps_cfg (g_parallel g) \<noteq> 1 then Inl ValueError
      else if 16 < length (g_ranks g) then Inl ValueError
      else Inr ())"

definition validate_collective_backend :: "od_config \<Rightarrow> topology \<Rightarrow> unit res" where
  "validate_collective_backend c T =
     (if backend_name (oc_collective_backend c) \<noteq> ''gfc'' then Inr ()
      else for_res check_gfc_group () (tp_groups T))"

definition check_policy_backend :: "od_config \<Rightarrow> policy_arg \<Rightarrow> unit res" where
  "check_policy_backend c a =
     (let gfc = (backend_name (oc_collective_backend c) = ''gfc''); name = arg_name a
      in if contains ''edf'' name \<and> \<not> gfc then Inl ValueError
         else if (contains ''wave_stress'' name \<or> contains ''wavestress'' name) \<and> \<not> gfc then Inl ValueError
         else Inr ())"

definition required_kinds :: "string \<Rightarrow> task_kind list" where
  "required_kinds stage =
     (if stage = STAGE_AUX then [TEXT_ENCODE, VAE_DECODE, FINALIZE]
      else [DIT_PREPARE, TIMESTEP_PREPARE, DIT_STEP_CHUNK])"

definition validate_stage_group :: "topology \<Rightarrow> string \<Rightarrow> string \<Rightarrow> unit res" where
  "validate_stage_group T gid stage =
     (case get_group T gid of
        Inl e \<Rightarrow> Inl (if e = KeyError then ValueError else e)
      | Inr g \<Rightarrow> if filter (\<lambda>k. k \<notin> set (g_kinds g)) (required_kinds stage) \<noteq> [] then Inl ValueError else Inr ())"

text \<open>Whether the policy places tasks by stage.\<close>

definition uses_stage_groups :: "policy_arg \<Rightarrow> bool" where
  "uses_stage_groups a =
     (case a of
        PolicyInstance p \<Rightarrow> contains ''Disaggregate'' (class_name p) \<or> contains ''DynamicStep'' (class_name p)
      | PolicyName n \<Rightarrow> str_lower n \<in> {''disaggregate'', ''dynamic_step_fcfs''})"

definition resolve_stage_group_ids ::
  "policy_arg \<Rightarrow> od_config \<Rightarrow> topology \<Rightarrow> (string \<times> string) list option res" where
  "resolve_stage_group_ids a c T =
     (if \<not> uses_stage_groups a then Inr None
      else if blank (oc_aux_group_id c) \<or> blank (oc_dit_group_id c) then Inl ValueError
      else if oc_aux_group_id c = oc_dit_group_id c then Inl ValueError
      else
        let aux_id = the (oc_aux_group_id c); dit_id = the (oc_dit_group_id c)
        in bind_res (validate_stage_group T aux_id STAGE_AUX) (\<lambda>_.
           bind_res (validate_stage_group T dit_id STAGE_DIT) (\<lambda>_.
             Inr (Some [(STAGE_AUX, aux_id), (STAGE_DIT, dit_id)]))))"

section \<open>Construction of the policy\<close>

text \<open>The settings that \<open>__init__\<close> reads from the configuration for the policy.\<close>

record policy_settings =
  se_estimator :: "estimator option"
  se_stage_group_ids :: "(string \<times> string) list option"
  se_dit_step_schedule :: "sched_item list"
  se_edf_greedy_sp_sizes :: "int list"
  se_collective_backend :: string
  se_warmup_reqs :: int
  se_wave_size :: int

definition has_bad_tp :: "topology \<Rightarrow> bool" where
  "has_bad_tp T \<longleftrightarrow> filter (\<lambda>g. ps_tp (g_parallel g) \<noteq> 1) (tp_groups T) \<noteq> []"

text \<open>What the runner sets in an instance of a class derived from the disaggregated or the rank-aware policy.\<close>

definition adopt_stages :: "policy_settings \<Rightarrow> 'a disaggregate_scheme \<Rightarrow> 'a disaggregate_scheme" where
  "adopt_stages se st =
     (if se_stage_group_ids se \<noteq> None \<and> se_stage_group_ids se \<noteq> Some [] \<and> dg_stage_group_ids st = None
      then st\<lparr>dg_stage_group_ids := se_stage_group_ids se\<rparr> else st)"

definition adopt_schedule :: "policy_settings \<Rightarrow> 'a disaggregate_scheme \<Rightarrow> 'a disaggregate_scheme" where
  "adopt_schedule se st =
     (if se_dit_step_schedule se \<noteq> [] \<and> dg_dit_step_schedule st = []
      then st\<lparr>dg_dit_step_schedule := se_dit_step_schedule se\<rparr> else st)"

fun adopt_settings :: "policy_settings \<Rightarrow> policy \<Rightarrow> policy" where
  "adopt_settings se (DisaggregateSchedulerPolicy st) = DisaggregateSchedulerPolicy (adopt_stages se st)"
| "adopt_settings se (DynamicStepFCFSSchedulerPolicy st) =
     DynamicStepFCFSSchedulerPolicy (adopt_schedule se (adopt_stages se st))"
| "adopt_settings se (EdfGreedySchedulerPolicy est st) = EdfGreedySchedulerPolicy est (adopt_schedule se (adopt_stages se st))"
| "adopt_settings se (EdfBestFitSchedulerPolicy est st) = EdfBestFitSchedulerPolicy est (adopt_schedule se (adopt_stages se st))"
| "adopt_settings se (WaveStressSchedulerPolicy st) = WaveStressSchedulerPolicy (adopt_schedule se (adopt_stages se st))"
| "adopt_settings se p = p"

text \<open>\<open>x or None\<close> for a tuple.\<close>

definition list_or_None :: "'a list \<Rightarrow> 'a list option" where
  "list_or_None xs = (if xs = [] then None else Some xs)"

definition build_scheduler_policy :: "topology \<Rightarrow> policy_arg \<Rightarrow> policy_settings \<Rightarrow> policy res" where
  "build_scheduler_policy T a se =
     (case a of
        PolicyInstance p \<Rightarrow> Inr (adopt_settings se p)
      | PolicyName n \<Rightarrow>
          let name = str_lower n; est = se_estimator se; sched = se_dit_step_schedule se;
              sizes = list_or_None (se_edf_greedy_sp_sizes se)
          in if name = ''fcfs'' then Inr (FCFSSchedulerPolicy est (fcfs_init T))
             else if name = ''srtf'' then Inr (SRTFSchedulerPolicy est (srtf_init T))
             else if name = ''sjf'' then Inr (SJFSchedulerPolicy est (sjf_init T))
             else if name = ''disaggregate'' then
               Inr (DisaggregateSchedulerPolicy (disaggregate_init T (se_stage_group_ids se) None))
             else if name = ''dynamic_step_fcfs'' then
               if has_bad_tp T then Inl ValueError
               else Inr (DynamicStepFCFSSchedulerPolicy (dynamic_step_init T (se_stage_group_ids se) (Some sched)))
             else if name = ''edf_greedy'' then
               if has_bad_tp T then Inl ValueError
               else bind_res (edf_init T sizes) (\<lambda>st. Inr (EdfGreedySchedulerPolicy est st))
             else if name = ''edf_best_fit'' then
               if has_bad_tp T then Inl ValueError
               else bind_res (best_fit_init T sizes) (\<lambda>st. Inr (EdfBestFitSchedulerPolicy est st))
             else if name = ''wave_stress'' then
               if has_bad_tp T then Inl ValueError
               else bind_res (wave_stress_init T (se_warmup_reqs se) (se_wave_size se) None
                                (Some (se_collective_backend se)) True (se_stage_group_ids se) (list_or_None sched))
                      (\<lambda>st. Inr (WaveStressSchedulerPolicy st))
             else Inl ValueError)"

section \<open>Start of the runner\<close>

text \<open>
  The schedule and the sizes as \<open>__post_init__\<close> of the configuration leaves them. The policy reads
  the entries of an item when it places a task; \<open>od_post_init\<close> has already converted them.
\<close>

definition item_of_dict :: "(pyval \<Rightarrow> string) \<Rightarrow> pydict \<Rightarrow> sched_item res" where
  "item_of_dict rp d =
     bind_res (case map_of d ''start'' of None \<Rightarrow> Inr None | Some v \<Rightarrow> bind_res (to_int v) (\<lambda>n. Inr (Some n))) (\<lambda>start.
     bind_res (opt_int (get_dflt d ''end'' PyNone)) (\<lambda>end'.
       Inr \<lparr>si_start = start, si_end = end', si_group = map_option (to_str rp) (map_of d ''group_id'')\<rparr>))"

definition schedule_items :: "(pyval \<Rightarrow> string) \<Rightarrow> pyval \<Rightarrow> sched_item list res" where
  "schedule_items rp v =
     (case v of
        PyNone \<Rightarrow> Inr []
      | PyList xs \<Rightarrow> map_res (\<lambda>x. case x of PyDict d \<Rightarrow> item_of_dict rp d | _ \<Rightarrow> Inl TypeError) xs
      | _ \<Rightarrow> Inl TypeError)"

definition sp_sizes :: "pyval \<Rightarrow> int list res" where
  "sp_sizes v = (case v of PyNone \<Rightarrow> Inr [] | PyList xs \<Rightarrow> map_res to_int xs | _ \<Rightarrow> Inl TypeError)"

text \<open>\<open>files\<close> is the content of a cost model directory.\<close>

definition choose_estimator ::
  "(string \<Rightarrow> (string \<times> cost_file) list) \<Rightarrow> od_config \<Rightarrow> estimator option \<Rightarrow> estimator option res" where
  "choose_estimator files c given =
     (case given of
        Some est \<Rightarrow> Inr (Some est)
      | None \<Rightarrow>
          if blank (oc_cost_model_dir c) then Inr None
          else bind_res (load_dir (files (the (oc_cost_model_dir c)))) (\<lambda>store. Inr (Some (make_cost_model_estimator store))))"

definition runner_init ::
  "(pyval \<Rightarrow> string) \<Rightarrow> (string \<Rightarrow> (string \<times> cost_file) list) \<Rightarrow> od_config \<Rightarrow> task_kind list \<Rightarrow> policy_arg
   \<Rightarrow> estimator option \<Rightarrow> policy res" where
  "runner_init rp files c kinds a given =
     bind_res (build_topology rp c kinds) (\<lambda>T.
     bind_res (validate_collective_backend c T) (\<lambda>_.
     bind_res (check_policy_backend c a) (\<lambda>_.
     bind_res (resolve_stage_group_ids a c T) (\<lambda>stages.
     bind_res (choose_estimator files c given) (\<lambda>est.
     bind_res (schedule_items rp (oc_dit_step_schedule c)) (\<lambda>sched.
     bind_res (sp_sizes (oc_edf_greedy_sp_sizes c)) (\<lambda>sizes.
       build_scheduler_policy T a
         \<lparr>se_estimator = est, se_stage_group_ids = stages, se_dit_step_schedule = sched, se_edf_greedy_sp_sizes = sizes,
          se_collective_backend = backend_name (oc_collective_backend c),
          se_warmup_reqs = oc_wave_stress_warmup_reqs c,
          se_wave_size = (if oc_wave_stress_wave_size c = 0 then 4 else oc_wave_stress_wave_size c)\<rparr>)))))))"

section \<open>Waiting for a request\<close>

datatype outcome =
    Output artifact_payload
  | RequestError string
  | TimedOut

text \<open>What \<open>wait\<close> does with a status: a terminal one is delivered once, and the request is released.\<close>

definition deliver_status ::
  "'w pool_ops \<Rightarrow> string \<Rightarrow> ('p, 'w) scheduler \<times> req_status \<Rightarrow> (('p, 'w) scheduler \<times> outcome) option" where
  "deliver_status W rid r =
     (case r of (s, x) \<Rightarrow>
        (case x of
           StatusFailed msg \<Rightarrow> Some (release_request W rid s, RequestError msg)
         | StatusFinished v \<Rightarrow> Some (release_request W rid s, Output v)
         | StatusPending \<Rightarrow> None))"

text \<open>
  The iterations to come, each with the clock when it looks at the deadline and with what its poll
  brings. A deadline is a point of the same clock; without one the loop never looks at the time.
\<close>

type_synonym wait_ticks = "(rat \<times> poll_tick) list"

definition passed :: "rat option \<Rightarrow> rat \<Rightarrow> bool" where
  "passed deadline now = (case deadline of None \<Rightarrow> False | Some d \<Rightarrow> d - now \<le> 0)"

text \<open>
  The loop, as in \<open>run_until_request_done\<close>: \<open>None\<close> means that it still runs. An exception of a
  poll becomes a \<open>RuntimeError\<close>; progress is only logged.
\<close>

fun wait_loop ::
  "'p policy_ops \<Rightarrow> 'w pool_ops \<Rightarrow> ('p, 'w) fail_op \<Rightarrow> string \<Rightarrow> rat option \<Rightarrow> wait_ticks \<Rightarrow> ('p, 'w) scheduler
   \<Rightarrow> (('p, 'w) scheduler \<times> outcome) res option" where
  "wait_loop P W fail rid deadline ticks s =
     (case get_request_status W rid s of
        Inl e \<Rightarrow> Some (Inl e)
      | Inr r \<Rightarrow>
          (case deliver_status W rid r of
             Some d \<Rightarrow> Some (Inr d)
           | None \<Rightarrow>
               (case ticks of
                  [] \<Rightarrow> None
                | (now, tick) # rest \<Rightarrow>
                    if passed deadline now then Some (Inr (fst r, TimedOut))
                    else (case poll_once P W fail tick (fst r) of
                            Inl e \<Rightarrow> Some (Inl RuntimeError)
                          | Inr s' \<Rightarrow> wait_loop P W fail rid deadline rest s'))))"

declare wait_loop.simps [simp del]

text \<open>The branch for a timeout that is not positive: one poll, whose exceptions are not converted.\<close>

definition wait_zero ::
  "'p policy_ops \<Rightarrow> 'w pool_ops \<Rightarrow> ('p, 'w) fail_op \<Rightarrow> string \<Rightarrow> wait_ticks \<Rightarrow> ('p, 'w) scheduler
   \<Rightarrow> (('p, 'w) scheduler \<times> outcome) res option" where
  "wait_zero P W fail rid ticks s =
     (case get_request_status W rid s of
        Inl e \<Rightarrow> Some (Inl e)
      | Inr r \<Rightarrow>
          (case deliver_status W rid r of
             Some d \<Rightarrow> Some (Inr d)
           | None \<Rightarrow>
               (case ticks of
                  [] \<Rightarrow> None
                | (now, tick) # rest \<Rightarrow>
                    Some (bind_res (poll_once P W fail tick (fst r)) (\<lambda>s1.
                          bind_res (get_request_status W rid s1) (\<lambda>r1.
                            Inr (case deliver_status W rid r1 of Some d \<Rightarrow> d | None \<Rightarrow> (fst r1, TimedOut))))))))"

definition no_patience :: "rat option \<Rightarrow> bool" where
  "no_patience timeout \<longleftrightarrow> (case timeout of None \<Rightarrow> False | Some t \<Rightarrow> t \<le> 0)"

text \<open>\<open>wait\<close>, called when the clock shows \<open>start\<close>.\<close>

definition wait ::
  "'p policy_ops \<Rightarrow> 'w pool_ops \<Rightarrow> ('p, 'w) fail_op \<Rightarrow> string \<Rightarrow> rat option \<Rightarrow> rat \<Rightarrow> wait_ticks
   \<Rightarrow> ('p, 'w) scheduler \<Rightarrow> (('p, 'w) scheduler \<times> outcome) res option" where
  "wait P W fail rid timeout start ticks s =
     (if no_patience timeout then wait_zero P W fail rid ticks s
      else wait_loop P W fail rid (map_option (\<lambda>t. start + t) timeout) ticks s)"

definition runner_execute ::
  "'p policy_ops \<Rightarrow> 'w pool_ops \<Rightarrow> ('p, 'w) fail_op \<Rightarrow> plan res \<Rightarrow> rat option \<Rightarrow> rat \<Rightarrow> wait_ticks
   \<Rightarrow> ('p, 'w) scheduler \<Rightarrow> (('p, 'w) scheduler \<times> outcome) res option" where
  "runner_execute P W fail compiled timeout start ticks s =
     (case submit_request P W fail compiled s of
        Inl e \<Rightarrow> Some (Inl e)
      | Inr (s1, rid) \<Rightarrow> wait P W fail rid timeout start ticks s1)"

section \<open>Accepted configurations\<close>

lemma check_gfc_loop:
  "for_res check_gfc_group u gs = Inr v \<Longrightarrow>
   \<forall>g \<in> set gs. ps_tp (g_parallel g) = 1 \<and> ps_cfg (g_parallel g) = 1 \<and> length (g_ranks g) \<le> 16"
  by (induction gs arbitrary: u) (auto simp: check_gfc_group_def bind_res_eq_Inr split: if_splits)

lemma runner_initE:
  assumes "runner_init rp files c kinds a given = Inr p"
  obtains T stages est sched sizes where "build_topology rp c kinds = Inr T"
    "validate_collective_backend c T = Inr ()" "check_policy_backend c a = Inr ()"
    "resolve_stage_group_ids a c T = Inr stages" "choose_estimator files c given = Inr est"
    "build_scheduler_policy T a
       \<lparr>se_estimator = est, se_stage_group_ids = stages, se_dit_step_schedule = sched, se_edf_greedy_sp_sizes = sizes,
        se_collective_backend = backend_name (oc_collective_backend c),
        se_warmup_reqs = oc_wave_stress_warmup_reqs c,
        se_wave_size = (if oc_wave_stress_wave_size c = 0 then 4 else oc_wave_stress_wave_size c)\<rparr> = Inr p"
  using assms unfolding runner_init_def by (elim bind_res_InrE) simp

text \<open>
  With the group-free collectives the runner starts only if every execution group is purely
  sequence parallel and small enough: its tensor and CFG degrees are 1, its sequence-parallel degree is the
  number of its ranks, and it has at most 16 of them. Policies that plan with deadlines and the stress
  policy start with this backend only.
\<close>

theorem gfc_groups_sequence_parallel:
  assumes "mk_parallel_config pc0 = Inr (oc_parallel_config c)" "explicit_groups c"
    and init: "runner_init rp files c kinds a given = Inr p"
  shows "(contains ''edf'' (arg_name a) \<or> contains ''wave_stress'' (arg_name a) \<longrightarrow> backend_name (oc_collective_backend c) = ''gfc'')
    \<and> (backend_name (oc_collective_backend c) = ''gfc'' \<longrightarrow>
        (\<exists>T. build_topology rp c kinds = Inr T \<and> (\<forall>g \<in> set (tp_groups T).
           ps_tp (g_parallel g) = 1 \<and> ps_cfg (g_parallel g) = 1
           \<and> ps_sp (g_parallel g) = int (length (g_ranks g)) \<and> length (g_ranks g) \<le> 16)))"
proof -
  from init obtain T where T: "build_topology rp c kinds = Inr T" "validate_collective_backend c T = Inr ()"
    "check_policy_backend c a = Inr ()" by (rule runner_initE) blast
  have "\<forall>g \<in> set (tp_groups T). group_fits g"
    using assms(2) T(1) by (elim build_topologyE) (auto dest: build_groups_explicit)
  moreover have "\<forall>g \<in> set (tp_groups T). ps_tp (g_parallel g) = 1 \<and> ps_cfg (g_parallel g) = 1 \<and> length (g_ranks g) \<le> 16"
    if "backend_name (oc_collective_backend c) = ''gfc''"
    using T(2) that check_gfc_loop by (simp add: validate_collective_backend_def)
  ultimately show ?thesis
    using T(1,3) by (auto simp: group_fits_def check_policy_backend_def Let_def split: if_splits)
qed

section \<open>Placement by stage\<close>

lemma validate_stage_groupE:
  assumes "validate_stage_group T gid stage = Inr ()"
  obtains g where "get_group T gid = Inr g" "set (required_kinds stage) \<subseteq> set (g_kinds g)"
  using assms by (auto simp: validate_stage_group_def filter_empty_conv split: sum.splits if_splits)

text \<open>The configuration of a policy, which no operation changes.\<close>

definition stage_config :: "'a disaggregate_scheme \<Rightarrow> topology \<times> (string \<times> string) list option" where
  "stage_config st = (dg_topology st, dg_stage_group_ids st)"

lemma stage_config_upd [simp]:
  "stage_config (st\<lparr>dg_group_ready := q\<rparr>) = stage_config st" "stage_config (st\<lparr>dg_reshard_ready := l\<rparr>) = stage_config st"
  "stage_config (begin_reshard tk a b st) = stage_config st" "stage_config (begin_task tk g st) = stage_config st"
  "stage_config (drop_request h rid st) = stage_config st"
  by (simp_all add: stage_config_def begin_reshard_def begin_task_def drop_request_def)

lemma stage_config_release [simp]: "stage_config (release_task tk st) = stage_config st"
  by (simp add: stage_config_def release_task_def Let_def split: option.split)

lemma stage_config_take_reshards:
  "take_reshards tks h st = Inr ((h', st'), out) \<Longrightarrow> stage_config st' = stage_config st"
proof (induction tks h st arbitrary: out rule: take_reshards.induct)
  case (2 tk q h st)
  then show ?case by (auto simp: bind_res_eq_Inr split: if_splits)
qed auto

lemma stage_config_take_group: "stage_config (snd (fst (take_group g tks h st))) = stage_config st"
  by (induction g tks h st rule: take_group.induct) (auto simp: split_beta Let_def)

lemma stage_config_take_groups: "stage_config (snd (fst (take_groups gs h st))) = stage_config st"
proof (induction gs arbitrary: h st)
  case (Cons g gs)
  show ?case
    by (simp add: Cons.IH stage_config_take_group split_beta Let_def del: take_group.simps split: option.split list.split)
qed simp

lemma stage_config_take:
  "take_dispatchable_tasks (h, st) = Inr ((h', st'), out) \<Longrightarrow> stage_config st' = stage_config st"
  unfolding take_dispatchable_tasks_def prod.case
  by (elim bind_res_InrE)
    (clarsimp simp: split_beta Let_def, metis stage_config_take_groups stage_config_take_reshards fst_conv snd_conv)

lemma stage_config_enqueue: "enqueue_task sel s tk = Inr s' \<Longrightarrow> stage_config (snd s') = stage_config (snd s)"
  by (cases s; cases s') (auto elim: enqueue_task_cases)

lemma stage_config_runnable:
  assumes "on_tasks_runnable sel take_dispatchable_tasks tks (h, st) = Inr (s', out)"
  shows "stage_config (snd s') = stage_config st"
proof -
  from assms obtain h1 st1 where e: "for_res (enqueue_task sel) (h, st) tks = Inr (h1, st1)"
    and d: "take_dispatchable_tasks (h1, st1) = Inr (s', out)"
    by (auto simp: on_tasks_runnable_def bind_res_eq_Inr)
  have "stage_config (snd (h1, st1)) = stage_config st"
    by (rule for_res_invariant [where P = "\<lambda>s. stage_config (snd s) = stage_config st", OF _ _ e])
      (simp_all add: stage_config_enqueue)
  moreover obtain a b where s': "s' = (a, b)" by (cases s')
  ultimately show ?thesis using stage_config_take [OF d [unfolded s']] by simp
qed

lemma stage_config_reach: "group_reach st0 s \<Longrightarrow> stage_config (snd s) = stage_config st0"
proof (induction rule: group_reach.induct)
  case (submit h st p s' out)
  then show ?case using stage_config_runnable [OF submit.hyps(2) [unfolded disaggregate_submit_def]] by simp
next
  case (runnable h st tks s' out)
  then show ?case using stage_config_runnable [OF runnable.hyps(2) [unfolded disaggregate_runnable_def]] by simp
next
  case (event h st ev s' out)
  then show ?case
    using stage_config_take [of h _ "fst s'" "snd s'" out]
    by (auto simp: disaggregate_event_def on_worker_event_def Let_def split: if_splits)
qed simp_all

text \<open>Both stages have a group that exists and supports the kinds of the stage.\<close>

definition stages_ready :: "topology \<times> (string \<times> string) list option \<Rightarrow> string \<Rightarrow> string \<Rightarrow> bool" where
  "stages_ready cfg aux dit \<longleftrightarrow>
     snd cfg = Some [(STAGE_AUX, aux), (STAGE_DIT, dit)]
     \<and> (\<exists>g. get_group (fst cfg) aux = Inr g \<and> set (required_kinds STAGE_AUX) \<subseteq> set (g_kinds g))
     \<and> (\<exists>g. get_group (fst cfg) dit = Inr g \<and> set (required_kinds STAGE_DIT) \<subseteq> set (g_kinds g))"

definition stage_of :: "task_kind \<Rightarrow> 'a \<Rightarrow> 'a \<Rightarrow> 'a" where
  "stage_of k aux dit = (if k \<in> {TEXT_ENCODE, VAE_DECODE, FINALIZE} then aux else dit)"

abbreviation select_stage :: "'a disaggregate_scheme \<Rightarrow> task \<Rightarrow> string option res" where
  "select_stage st t \<equiv> Inr (select_group_by_stage st t)"

lemma required_kinds_stage:
  "k \<noteq> RESHARD \<Longrightarrow> k \<in> set (required_kinds (stage_of k STAGE_AUX STAGE_DIT))"
  by (cases k) (simp_all add: stage_of_def required_kinds_def STAGE_AUX_def STAGE_DIT_def)

lemma enqueue_by_stage:
  assumes "stages_ready (stage_config st) aux dit" "t_kind (h tk) \<noteq> RESHARD" "t_group_id (h tk) = None"
  shows "enqueue_task select_stage (h, st) tk =
     Inr (h(tk := (h tk)\<lparr>t_group_id := Some (stage_of (t_kind (h tk)) aux dit), t_status := READY\<rparr>),
          st\<lparr>dg_group_ready := push_ready (dg_group_ready st) (stage_of (t_kind (h tk)) aux dit) tk\<rparr>)"
proof -
  have sel: "select_group_by_stage st (h tk) = Some (stage_of (t_kind (h tk)) aux dit)"
    using assms(1,2) by (cases "t_kind (h tk)")
      (simp_all add: stage_of_def select_group_by_stage_def stages_ready_def stage_config_def STAGE_AUX_def STAGE_DIT_def)
  obtain g where g: "get_group (dg_topology st) (stage_of (t_kind (h tk)) aux dit) = Inr g"
    "t_kind (h tk) \<in> set (g_kinds g)"
    using assms(1) required_kinds_stage [OF assms(2)] by (auto simp: stage_of_def stages_ready_def stage_config_def split: if_splits)
  show ?thesis
    using assms(2,3) g by (simp add: enqueue_task_def sel validate_task_def Let_def)
qed

lemma enqueue_all_by_stage:
  assumes "stages_ready (stage_config st) aux dit" "distinct tks"
    and "\<forall>tk \<in> set tks. t_kind (h tk) \<noteq> RESHARD \<and> t_group_id (h tk) = None"
  shows "\<exists>h' st'. for_res (enqueue_task select_stage) (h, st) tks = Inr (h', st')
     \<and> (\<forall>tk. tk \<notin> set tks \<longrightarrow> h' tk = h tk) \<and> (\<forall>x. set (queue_of st x) \<subseteq> set (queue_of st' x))
     \<and> (\<forall>tk \<in> set tks. h' tk = (h tk)\<lparr>t_group_id := Some (stage_of (t_kind (h tk)) aux dit), t_status := READY\<rparr>
          \<and> tk \<in> set (queue_of st' (Some (stage_of (t_kind (h tk)) aux dit))))"
  using assms
proof (induction tks arbitrary: h st)
  case (Cons tk tks)
  define g where "g = stage_of (t_kind (h tk)) aux dit"
  define h1 where "h1 = h(tk := (h tk)\<lparr>t_group_id := Some g, t_status := READY\<rparr>)"
  define st1 where "st1 = st\<lparr>dg_group_ready := push_ready (dg_group_ready st) g tk\<rparr>"
  have e: "enqueue_task select_stage (h, st) tk = Inr (h1, st1)"
    using Cons.prems unfolding h1_def st1_def g_def by (intro enqueue_by_stage) auto
  have t: "\<forall>t \<in> set tks. h1 t = h t" using Cons.prems(2) by (auto simp: h1_def)
  have 1: "stages_ready (stage_config st1) aux dit" "distinct tks"
    "\<forall>t \<in> set tks. t_kind (h1 t) \<noteq> RESHARD \<and> t_group_id (h1 t) = None"
    using Cons.prems t by (simp_all add: st1_def)
  from Cons.IH [OF 1] obtain h' st' where r: "for_res (enqueue_task select_stage) (h1, st1) tks = Inr (h', st')"
    "\<forall>t. t \<notin> set tks \<longrightarrow> h' t = h1 t" "\<forall>x. set (queue_of st1 x) \<subseteq> set (queue_of st' x)"
    "\<forall>t \<in> set tks. h' t = (h1 t)\<lparr>t_group_id := Some (stage_of (t_kind (h1 t)) aux dit), t_status := READY\<rparr>
       \<and> t \<in> set (queue_of st' (Some (stage_of (t_kind (h1 t)) aux dit)))" by (elim exE conjE)
  have q: "tk \<in> set (queue_of st' (Some g))" "\<forall>x. set (queue_of st x) \<subseteq> set (queue_of st' x)"
    using r(3) spec [OF r(3), of "Some g"] by (simp_all add: st1_def queue_of_push)
  have "h' tk = h1 tk" using r(2) Cons.prems(2) by simp
  then show ?case
    using e r(1,2,4) q t by (intro exI [of _ h'] exI [of _ st']) (auto simp: h1_def g_def)
qed simp


text \<open>
  C30: A runner that starts with the disaggregated policy can place every task of its pipelines: in every
  state the policy reaches, the tasks that become runnable without a group are accepted, the encoders
  and decoders go to the queue of the configured group for them, the denoising tasks to the other group, both
  groups exist and support the kinds they are given.
\<close>

theorem accepted_stages_place_tasks:
  assumes init: "runner_init rp files c kinds (PolicyName n) given = Inr (DisaggregateSchedulerPolicy st0)"
    and reach: "group_reach st0 (h, st)"
    and "distinct tks" "\<forall>tk \<in> set tks. t_kind (h tk) \<noteq> RESHARD \<and> t_group_id (h tk) = None"
  shows "\<exists>h' st' aux dit. oc_aux_group_id c = Some aux \<and> oc_dit_group_id c = Some dit \<and> aux \<noteq> dit
     \<and> for_res (enqueue_task select_stage) (h, st) tks = Inr (h', st')
     \<and> (\<forall>tk \<in> set tks. let gid = stage_of (t_kind (h tk)) aux dit in
          h' tk = (h tk)\<lparr>t_group_id := Some gid, t_status := READY\<rparr> \<and> tk \<in> set (queue_of st' (Some gid))
          \<and> (\<exists>g. get_group (dg_topology st) gid = Inr g \<and> t_kind (h tk) \<in> set (g_kinds g)))"
proof -
  from init obtain T stages est sched sizes where
    s: "resolve_stage_group_ids (PolicyName n) c T = Inr stages" and
    p: "build_scheduler_policy T (PolicyName n)
       \<lparr>se_estimator = est, se_stage_group_ids = stages, se_dit_step_schedule = sched, se_edf_greedy_sp_sizes = sizes,
        se_collective_backend = backend_name (oc_collective_backend c),
        se_warmup_reqs = oc_wave_stress_warmup_reqs c,
        se_wave_size = (if oc_wave_stress_wave_size c = 0 then 4 else oc_wave_stress_wave_size c)\<rparr>
       = Inr (DisaggregateSchedulerPolicy st0)" by (rule runner_initE)
  from p have n: "str_lower n = ''disaggregate''" and st0: "st0 = disaggregate_init T stages None"
    by (auto simp: build_scheduler_policy_def Let_def bind_res_eq_Inr split: if_split_asm)
  from s n obtain aux dit where ids: "oc_aux_group_id c = Some aux" "oc_dit_group_id c = Some dit" "aux \<noteq> dit"
    and v: "validate_stage_group T aux STAGE_AUX = Inr ()" "validate_stage_group T dit STAGE_DIT = Inr ()"
    and stages: "stages = Some [(STAGE_AUX, aux), (STAGE_DIT, dit)]"
    by (auto simp: resolve_stage_group_ids_def uses_stage_groups_def blank_def Let_def bind_res_eq_Inr split: if_splits)
  have "stages_ready (stage_config st0) aux dit"
    using v stages by (auto simp: st0 stages_ready_def stage_config_def disaggregate_init_def elim!: validate_stage_groupE)
  then have ready: "stages_ready (stage_config st) aux dit" using stage_config_reach [OF reach] by simp
  have g: "\<exists>g. get_group (dg_topology st) (stage_of k aux dit) = Inr g \<and> k \<in> set (g_kinds g)" if "k \<noteq> RESHARD" for k
    using ready required_kinds_stage [OF that] by (auto simp: stages_ready_def stage_config_def stage_of_def split: if_splits)
  from enqueue_all_by_stage [OF ready assms(3,4)] obtain h' st' where
    "for_res (enqueue_task select_stage) (h, st) tks = Inr (h', st')"
    "\<forall>tk \<in> set tks. h' tk = (h tk)\<lparr>t_group_id := Some (stage_of (t_kind (h tk)) aux dit), t_status := READY\<rparr>
          \<and> tk \<in> set (queue_of st' (Some (stage_of (t_kind (h tk)) aux dit)))" by (elim exE conjE)
  then show ?thesis
    using ids assms(4) g by (intro exI [of _ h'] exI [of _ st'] exI [of _ aux] exI [of _ dit]) (simp add: Let_def)
qed


section \<open>The wait loop\<close>

text \<open>Polls of a request that is pending before each of them, with time left.\<close>

inductive polls ::
  "'p policy_ops \<Rightarrow> 'w pool_ops \<Rightarrow> ('p, 'w) fail_op \<Rightarrow> string \<Rightarrow> rat option \<Rightarrow> wait_ticks
   \<Rightarrow> ('p, 'w) scheduler \<Rightarrow> ('p, 'w) scheduler \<Rightarrow> bool"
  for P W fail rid deadline where
  none: "polls P W fail rid deadline [] s s"
| poll: "get_request_status W rid s = Inr (s1, StatusPending) \<Longrightarrow> \<not> passed deadline now \<Longrightarrow>
    poll_once P W fail tick s1 = Inr s2 \<Longrightarrow> polls P W fail rid deadline ticks s2 s3 \<Longrightarrow>
    polls P W fail rid deadline ((now, tick) # ticks) s s3"

inductive_cases polls_NilE: "polls P W fail rid deadline [] s s'"
inductive_cases polls_ConsE: "polls P W fail rid deadline (t # ticks) s s'"

text \<open>The loop ends with \<open>(s', oc)\<close> after the polls that lead to \<open>s0\<close>.\<close>

definition wait_ends ::
  "'w pool_ops \<Rightarrow> string \<Rightarrow> rat option \<Rightarrow> wait_ticks \<Rightarrow> ('p, 'w) scheduler \<Rightarrow> ('p, 'w) scheduler \<times> outcome \<Rightarrow> bool" where
  "wait_ends W rid deadline later s0 d \<longleftrightarrow>
     (\<exists>s1 x. get_request_status W rid s0 = Inr (s1, x)
        \<and> (deliver_status W rid (s1, x) = Some d
           \<or> x = StatusPending \<and> d = (s1, TimedOut) \<and> (\<exists>now tick rest. later = (now, tick) # rest \<and> passed deadline now)))"

lemma deliver_status_None: "deliver_status W rid (s, x) = None \<longleftrightarrow> x = StatusPending"
  by (cases x) (simp_all add: deliver_status_def)

lemma deliver_status_pending [simp]: "deliver_status W rid (s, StatusPending) = None"
  by (simp add: deliver_status_None)

lemma wait_loop_delivers:
  "wait_loop P W fail rid deadline ticks s = Some (Inr d) \<Longrightarrow>
   \<exists>earlier later s0. ticks = earlier @ later \<and> polls P W fail rid deadline earlier s s0 \<and> wait_ends W rid deadline later s0 d"
proof (induction ticks arbitrary: s)
  case Nil
  then have "wait_ends W rid deadline [] s d"
    by (subst (asm) wait_loop.simps) (auto simp: wait_ends_def split: sum.splits option.splits)
  then show ?case using polls.none [of P W fail rid deadline s] by blast
next
  case (Cons t ticks)
  obtain now tick where t: "t = (now, tick)" by (cases t)
  from Cons.prems obtain s1 x where g: "get_request_status W rid s = Inr (s1, x)"
    by (subst (asm) wait_loop.simps) (auto split: sum.splits)
  show ?case
  proof (cases "deliver_status W rid (s1, x)")
    case (Some d')
    then have "wait_ends W rid deadline (t # ticks) s d"
      using Cons.prems g by (subst (asm) wait_loop.simps) (auto simp: wait_ends_def)
    then show ?thesis using polls.none [of P W fail rid deadline s] by blast
  next
    case None
    then have x: "x = StatusPending" by (simp add: deliver_status_None)
    show ?thesis
    proof (cases "passed deadline now")
      case True
      then have "wait_ends W rid deadline (t # ticks) s d"
        using Cons.prems g None x by (subst (asm) wait_loop.simps) (auto simp: wait_ends_def t)
      then show ?thesis using polls.none [of P W fail rid deadline s] by blast
    next
      case False
      then obtain s2 where s2: "poll_once P W fail tick s1 = Inr s2" "wait_loop P W fail rid deadline ticks s2 = Some (Inr d)"
        using Cons.prems g None by (subst (asm) wait_loop.simps) (auto simp: t split: sum.splits)
      from Cons.IH [OF s2(2)] obtain earlier later s0 where
        r: "ticks = earlier @ later" "polls P W fail rid deadline earlier s2 s0" "wait_ends W rid deadline later s0 d" by blast
      have "polls P W fail rid deadline (t # earlier) s s0"
        unfolding t by (rule polls.poll [OF g [unfolded x] False s2(1) r(2)])
      then show ?thesis using r(1,3) by (metis append_Cons)
    qed
  qed
qed

lemma wait_loop_polls:
  "polls P W fail rid deadline earlier s s0 \<Longrightarrow>
   wait_loop P W fail rid deadline (earlier @ later) s = wait_loop P W fail rid deadline later s0"
proof (induction rule: polls.induct)
  case (poll s s1 now tick s2 ticks s3)
  then show ?case by (subst wait_loop.simps) simp
qed simp

lemma wait_loop_ends: "wait_ends W rid deadline later s d \<Longrightarrow> wait_loop P W fail rid deadline later s = Some (Inr d)"
  unfolding wait_ends_def by (subst wait_loop.simps) auto

lemma wait_loop_iff:
  "wait_loop P W fail rid deadline ticks s = Some (Inr d) \<longleftrightarrow>
   (\<exists>earlier later s0. ticks = earlier @ later \<and> polls P W fail rid deadline earlier s s0 \<and> wait_ends W rid deadline later s0 d)"
  using wait_loop_delivers wait_loop_polls wait_loop_ends by metis

lemma deliver_status_releases:
  "deliver_status W rid (s, x) = Some (s', oc) \<Longrightarrow>
   s' = release_request W rid s \<and> oc \<noteq> TimedOut \<and> sc_completed_outputs s' rid = None \<and> sc_failed_requests s' rid = None"
  by (cases x) (auto simp: deliver_status_def release_request_def Let_def)

lemma deliver_status_iff:
  "deliver_status W rid (s, x) = Some (s', oc) \<longleftrightarrow> s' = release_request W rid s
     \<and> (case x of StatusPending \<Rightarrow> False | StatusFinished v \<Rightarrow> oc = Output v | StatusFailed m \<Rightarrow> oc = RequestError m)"
  by (cases x) (auto simp: deliver_status_def)

lemma wait_loop_runs:
  "wait_loop P W fail rid deadline ticks s = None \<longleftrightarrow>
   (\<exists>s0 s1. polls P W fail rid deadline ticks s s0 \<and> get_request_status W rid s0 = Inr (s1, StatusPending))"
proof (induction ticks arbitrary: s)
  case Nil
  show ?case
    by (subst wait_loop.simps) (auto simp: deliver_status_None intro: polls.none elim: polls_NilE split: sum.splits option.splits)
next
  case (Cons t ticks)
  obtain now tick where t: "t = (now, tick)" by (cases t)
  show ?case
    by (subst wait_loop.simps)
      (auto simp: t deliver_status_None Cons.IH intro: polls.poll elim!: polls_ConsE split: sum.splits option.splits)
qed

text \<open>Without patience there is at most one poll, and a request that is pending after it has timed out.\<close>

lemma polls_single:
  "polls P W fail rid None [(now, tick)] s s0 \<longleftrightarrow>
   (\<exists>s1. get_request_status W rid s = Inr (s1, StatusPending) \<and> poll_once P W fail tick s1 = Inr s0)"
  by (auto simp: passed_def intro!: polls.poll polls.none elim!: polls_ConsE polls_NilE)

lemma wait_zero_first:
  assumes "get_request_status W rid s = Inr (s1, x)"
  shows "x \<noteq> StatusPending \<Longrightarrow> wait_zero P W fail rid ticks s = map_option Inr (deliver_status W rid (s1, x))"
    "x = StatusPending \<Longrightarrow> wait_zero P W fail rid [] s = None"
    "x = StatusPending \<Longrightarrow> wait_zero P W fail rid ((now, tick) # rest) s =
       Some (bind_res (poll_once P W fail tick s1) (\<lambda>s2.
             bind_res (get_request_status W rid s2) (\<lambda>r1.
               Inr (case deliver_status W rid r1 of Some d \<Rightarrow> d | None \<Rightarrow> (fst r1, TimedOut)))))"
  using assms by (auto simp: wait_zero_def deliver_status_None split: option.split)

lemma deliver_or_time_out:
  "(case deliver_status W rid (s, x) of Some d \<Rightarrow> d | None \<Rightarrow> (fst (s, x), TimedOut)) = (s', oc) \<longleftrightarrow>
   deliver_status W rid (s, x) = Some (s', oc) \<or> x = StatusPending \<and> (s', oc) = (s, TimedOut)"
  by (cases x) (auto simp: deliver_status_def)

lemma wait_zero_iff:
  "wait_zero P W fail rid ticks s = Some (Inr (s', oc)) \<longleftrightarrow>
   (\<exists>earlier later s0 s1 x. ticks = earlier @ later \<and> length earlier \<le> 1 \<and> polls P W fail rid None earlier s s0
      \<and> get_request_status W rid s0 = Inr (s1, x)
      \<and> (deliver_status W rid (s1, x) = Some (s', oc) \<or> x = StatusPending \<and> (s', oc) = (s1, TimedOut) \<and> earlier \<noteq> []))"
  (is "_ \<longleftrightarrow> ?R")
proof (cases "get_request_status W rid s")
  case (Inl e)
  have "False" if "polls P W fail rid None earlier s s0" "get_request_status W rid s0 = Inr (s1, x)" for earlier s0 s1 x
    using that(1) by cases (use Inl that(2) in simp_all)
  then show ?thesis using Inl by (auto simp: wait_zero_def)
next
  case (Inr r)
  obtain s1 x where r: "r = (s1, x)" by (cases r)
  note g = Inr [unfolded r]
  show ?thesis
  proof (cases "x = StatusPending")
    case False
    have e: "earlier = [] \<and> s0 = s" if "polls P W fail rid None earlier s s0" for earlier s0
      using that by cases (use g False in simp_all)
    have "?R \<longleftrightarrow> deliver_status W rid (s1, x) = Some (s', oc)"
    proof
      assume ?R
      then show "deliver_status W rid (s1, x) = Some (s', oc)" using e g by fastforce
    next
      assume "deliver_status W rid (s1, x) = Some (s', oc)"
      then have "ticks = [] @ ticks \<and> length [] \<le> (1 :: nat) \<and> polls P W fail rid None [] s s
          \<and> get_request_status W rid s = Inr (s1, x) \<and> deliver_status W rid (s1, x) = Some (s', oc)"
        using g polls.none [of P W fail rid None s] by simp
      then show ?R by blast
    qed
    then show ?thesis using wait_zero_first(1) [OF g False] by auto
  next
    case x: True
    show ?thesis
    proof (cases ticks)
      case Nil
      have "\<not> ?R" using g x Nil by (auto elim!: polls_NilE)
      then show ?thesis using wait_zero_first(2) [OF g x] Nil by simp
    next
      case (Cons t rest)
      obtain now tick where t: "t = (now, tick)" by (cases t)
      have "?R \<longleftrightarrow> (\<exists>s2 s3 y. poll_once P W fail tick s1 = Inr s2 \<and> get_request_status W rid s2 = Inr (s3, y)
          \<and> (deliver_status W rid (s3, y) = Some (s', oc) \<or> y = StatusPending \<and> (s', oc) = (s3, TimedOut)))"
      proof
        assume ?R
        then obtain earlier later s0 s2 y where e: "ticks = earlier @ later" "length earlier \<le> 1" "polls P W fail rid None earlier s s0"
          "get_request_status W rid s0 = Inr (s2, y)"
          "deliver_status W rid (s2, y) = Some (s', oc) \<or> y = StatusPending \<and> (s', oc) = (s2, TimedOut) \<and> earlier \<noteq> []" by blast
        have "earlier \<noteq> []" using e(3-5) g x by (auto elim!: polls_NilE)
        then have "earlier = [(now, tick)]" using e(1,2) Cons t by (cases earlier) auto
        then show "\<exists>s2 s3 y. poll_once P W fail tick s1 = Inr s2 \<and> get_request_status W rid s2 = Inr (s3, y)
          \<and> (deliver_status W rid (s3, y) = Some (s', oc) \<or> y = StatusPending \<and> (s', oc) = (s3, TimedOut))"
          using e(3-5) g by (auto simp: polls_single)
      next
        assume "\<exists>s2 s3 y. poll_once P W fail tick s1 = Inr s2 \<and> get_request_status W rid s2 = Inr (s3, y)
          \<and> (deliver_status W rid (s3, y) = Some (s', oc) \<or> y = StatusPending \<and> (s', oc) = (s3, TimedOut))"
        then obtain s2 s3 y where e: "poll_once P W fail tick s1 = Inr s2" "get_request_status W rid s2 = Inr (s3, y)"
          "deliver_status W rid (s3, y) = Some (s', oc) \<or> y = StatusPending \<and> (s', oc) = (s3, TimedOut)" by blast
        have "polls P W fail rid None [(now, tick)] s s2" using g x e(1) by (simp add: polls_single)
        then have "ticks = [(now, tick)] @ rest \<and> length [(now, tick)] \<le> 1 \<and> polls P W fail rid None [(now, tick)] s s2
            \<and> get_request_status W rid s2 = Inr (s3, y) \<and> [(now, tick)] \<noteq> []"
          using e(2) Cons t by simp
        then show ?R using e(3) by blast
      qed
      also have "\<dots> \<longleftrightarrow> wait_zero P W fail rid ticks s = Some (Inr (s', oc))"
        unfolding Cons t wait_zero_first(3) [OF g x] option.inject bind_res_eq_Inr sum.inject
        by (simp add: deliver_or_time_out)
      finally show ?thesis by blast
    qed
  qed
qed

lemma wait_zero_runs:
  "wait_zero P W fail rid ticks s = None \<longleftrightarrow> ticks = [] \<and> (\<exists>s1. get_request_status W rid s = Inr (s1, StatusPending))"
  by (cases ticks) (auto simp: wait_zero_def deliver_status_None split: sum.splits option.splits)

text \<open>
  C31: What waiting for a request does, for every timeout and every sequence of polls. \<open>wait\<close> returns or
  raises an outcome of the request exactly at the first status that is not pending, with the output or
  the message of this status, and releases the request: a delivered outcome is not delivered again. It
  raises a timeout exactly if the request is pending when an iteration finds the deadline passed, or,
  for a timeout that is not positive, pending after the single poll such a call makes; without a
  timeout it never does. It still runs only while the request is pending.
\<close>

theorem wait_delivers_outcome:
  "(wait P W fail rid timeout start ticks s = Some (Inr (s', oc)) \<longleftrightarrow>
       (\<exists>earlier later s0 s1 x. ticks = earlier @ later \<and> (no_patience timeout \<longrightarrow> length earlier \<le> 1)
          \<and> polls P W fail rid (if no_patience timeout then None else map_option (\<lambda>t. start + t) timeout) earlier s s0
          \<and> get_request_status W rid s0 = Inr (s1, x)
          \<and> (oc = TimedOut \<and> x = StatusPending \<and> s' = s1
               \<and> (if no_patience timeout then earlier \<noteq> []
                  else \<exists>now tick rest t. later = (now, tick) # rest \<and> timeout = Some t \<and> start + t \<le> now)
             \<or> s' = release_request W rid s1
               \<and> (case x of StatusPending \<Rightarrow> False | StatusFinished v \<Rightarrow> oc = Output v | StatusFailed m \<Rightarrow> oc = RequestError m))))
    \<and> (wait P W fail rid timeout start ticks s = None \<longleftrightarrow>
        (no_patience timeout \<longrightarrow> ticks = [])
        \<and> (\<exists>s0 s1. polls P W fail rid (if no_patience timeout then None else map_option (\<lambda>t. start + t) timeout) ticks s s0
             \<and> get_request_status W rid s0 = Inr (s1, StatusPending)))
    \<and> (wait P W fail rid timeout start ticks s = Some (Inr (s', oc)) \<and> oc \<noteq> TimedOut \<longrightarrow>
        sc_completed_outputs s' rid = None \<and> sc_failed_requests s' rid = None)
    \<and> (timeout = None \<longrightarrow> wait P W fail rid timeout start ticks s \<noteq> Some (Inr (s', TimedOut)))"
proof (cases "no_patience timeout")
  case True
  have w: "wait P W fail rid timeout start ticks s = wait_zero P W fail rid ticks s" by (simp add: wait_def True)
  have "timeout \<noteq> None" using True by (cases timeout) (simp_all add: no_patience_def)
  then show ?thesis
    unfolding w wait_zero_iff wait_zero_runs deliver_status_iff
    using True by (auto simp: release_request_def Let_def elim!: polls_NilE intro: polls.none)
next
  case False
  let ?d = "map_option (\<lambda>t. start + t) timeout"
  have w: "wait P W fail rid timeout start ticks s = wait_loop P W fail rid ?d ticks s" by (simp add: wait_def False)
  have p: "passed ?d now \<longleftrightarrow> (\<exists>t. timeout = Some t \<and> start + t \<le> now)" for now
    by (cases timeout) (auto simp: passed_def)
  have 1: "wait_ends W rid ?d later s0 (s', oc) \<longleftrightarrow>
      (\<exists>s1 x. get_request_status W rid s0 = Inr (s1, x)
        \<and> (oc = TimedOut \<and> x = StatusPending \<and> s' = s1
             \<and> (\<exists>now tick rest t. later = (now, tick) # rest \<and> timeout = Some t \<and> start + t \<le> now)
           \<or> s' = release_request W rid s1
             \<and> (case x of StatusPending \<Rightarrow> False | StatusFinished v \<Rightarrow> oc = Output v | StatusFailed m \<Rightarrow> oc = RequestError m)))"
    for later s0 oc unfolding wait_ends_def deliver_status_iff p by blast
  have 2: "sc_completed_outputs s' rid = None \<and> sc_failed_requests s' rid = None"
    if "wait_ends W rid ?d later s0 (s', oc)" "oc \<noteq> TimedOut" for later s0
    using that deliver_status_releases unfolding wait_ends_def by fast
  have 3: "\<not> wait_ends W rid None later s0 (s', TimedOut)" for later s0
    using deliver_status_releases unfolding wait_ends_def passed_def by fastforce
  show ?thesis
    unfolding w wait_loop_runs wait_loop_iff 1 [symmetric] using False 2 3 by (auto simp: 1)
qed


section \<open>Concrete runs\<close>

text \<open>Consecutive sequence-parallel groups under the group-free collectives, for the greedy EDF policy.\<close>

definition ex_sp_entry :: "int \<Rightarrow> pyval" where
  "ex_sp_entry n = PyDict [(''size'', PyInt n), (''sp'', PyInt n), (''tp'', PyInt 1)]"

definition ex_gfc_config :: "int \<Rightarrow> int list \<Rightarrow> od_config" where
  "ex_gfc_config gpus sizes = ex_config\<lparr>oc_num_gpus := Some gpus, oc_scheduler_policy := ''edf_greedy'',
     oc_collective_backend := Some ''gfc'', oc_group_sizes := PyNone, oc_groups_json := PyList (map ex_sp_entry sizes)\<rparr>"

lemma ex_gfc_start:
  "case runner_init (\<lambda>_. []) (\<lambda>_. []) (ex_gfc_config 4 [2, 2]) [] (PolicyName ''edf_greedy'') None of
     Inr (EdfGreedySchedulerPolicy None st) \<Rightarrow>
       map (\<lambda>g. (g_ranks g, ps_sp (g_parallel g))) (tp_groups (dg_topology st)) = [([0, 1], 2), ([2, 3], 2)]
   | _ \<Rightarrow> False"
  by code_simp

theorem gfc_groups_sequence_parallel_witness:
  "\<exists>p T. runner_init (\<lambda>_. []) (\<lambda>_. []) (ex_gfc_config 4 [2, 2]) [] (PolicyName ''edf_greedy'') None = Inr p
     \<and> build_topology (\<lambda>_. []) (ex_gfc_config 4 [2, 2]) [] = Inr T
     \<and> \<not> (\<exists>g \<in> set (tp_groups T). ps_tp (g_parallel g) \<noteq> 1 \<or> ps_sp (g_parallel g) \<noteq> int (length (g_ranks g)))"
proof -
  let ?c = "ex_gfc_config 4 [2, 2]"
  have p: "mk_parallel_config ex_parallel_config = Inr (oc_parallel_config ?c)"
    by (simp add: mk_parallel_config_def parallel_post_init_def validate_parallel_config_def other_parallel_world_size_def
        ex_parallel_config_def ex_config_def ex_gfc_config_def)
  have e: "explicit_groups ?c" by (simp add: explicit_groups_def ex_gfc_config_def)
  have b: "backend_name (oc_collective_backend ?c) = ''gfc''" by code_simp
  obtain q where q: "runner_init (\<lambda>_. []) (\<lambda>_. []) ?c [] (PolicyName ''edf_greedy'') None = Inr q"
    using ex_gfc_start by (auto split: sum.splits)
  from gfc_groups_sequence_parallel [OF p e q] b obtain T where
    T: "build_topology (\<lambda>_. []) ?c [] = Inr T" "\<forall>g \<in> set (tp_groups T). ps_tp (g_parallel g) = 1
      \<and> ps_cfg (g_parallel g) = 1 \<and> ps_sp (g_parallel g) = int (length (g_ranks g)) \<and> length (g_ranks g) \<le> 16" by blast
  show ?thesis using q T by blast
qed

text \<open>
  The check of the group sizes sees the configured groups only. On 17 GPUs in groups of 16 and 1 the
  runner starts, and the greedy EDF policy dispatches the first denoising task on a new group of
  all 17 ranks.
\<close>

lemma on_demand_group_exceeds_gfc_cap:
  "case runner_init (\<lambda>_. []) (\<lambda>_. []) (ex_gfc_config 17 [16, 1]) [] (PolicyName ''edf_greedy'') None of
     Inr (EdfGreedySchedulerPolicy _ st) \<Rightarrow>
       (case edf_runnable (edf_take_dispatchable None) [''t1''] (ex_edf_heap, st) of
          Inr ((h, st'), out) \<Rightarrow> out = [''t1'']
            \<and> map_option length (dy_dispatched_ranks_by_task st' ''t1'') = Some 17
            \<and> list_ex (\<lambda>g. length (g_ranks g) = 17) (tp_groups (dg_topology st'))
        | _ \<Rightarrow> False)
   | _ \<Rightarrow> False"
  by code_simp


text \<open>An encoder task and a denoising task for the two groups of the example configuration.\<close>

definition ex_stage_heap :: heap where
  "ex_stage_heap tk = (ex_task tk [])\<lparr>t_group_id := None, t_kind := (if tk = ''e'' then TEXT_ENCODE else DIT_STEP_CHUNK)\<rparr>"

lemma ex_stage_start:
  "case runner_init (\<lambda>_. []) (\<lambda>_. []) ex_config [] (PolicyName ''disaggregate'') None of
     Inr (DisaggregateSchedulerPolicy st) \<Rightarrow> True | _ \<Rightarrow> False"
  by code_simp

theorem accepted_stages_place_tasks_witness:
  "\<exists>st h' st'. runner_init (\<lambda>_. []) (\<lambda>_. []) ex_config [] (PolicyName ''disaggregate'') None = Inr (DisaggregateSchedulerPolicy st)
     \<and> for_res (enqueue_task select_stage) (ex_stage_heap, st) [''e'', ''d''] = Inr (h', st')
     \<and> t_group_id (h' ''e'') = Some ''g0'' \<and> t_group_id (h' ''d'') = Some ''g1'' \<and> ''d'' \<in> set (queue_of st' (Some ''g1''))"
proof -
  obtain st where st: "runner_init (\<lambda>_. []) (\<lambda>_. []) ex_config [] (PolicyName ''disaggregate'') None = Inr (DisaggregateSchedulerPolicy st)"
    using ex_stage_start by (auto split: sum.splits policy.splits)
  have "\<forall>tk \<in> set [''e'', ''d'']. t_kind (ex_stage_heap tk) \<noteq> RESHARD \<and> t_group_id (ex_stage_heap tk) = None"
    "distinct [''e'', ''d'']" by (simp_all add: ex_stage_heap_def)
  note d = accepted_stages_place_tasks [OF st group_reach.start this(2,1)]
  from d obtain h' st' aux dit where
    r: "oc_aux_group_id ex_config = Some aux" "oc_dit_group_id ex_config = Some dit"
    "for_res (enqueue_task select_stage) (ex_stage_heap, st) [''e'', ''d''] = Inr (h', st')"
    "\<forall>tk \<in> set [''e'', ''d'']. let gid = stage_of (t_kind (ex_stage_heap tk)) aux dit in
       h' tk = (ex_stage_heap tk)\<lparr>t_group_id := Some gid, t_status := READY\<rparr> \<and> tk \<in> set (queue_of st' (Some gid))
       \<and> (\<exists>g. get_group (dg_topology st) gid = Inr g \<and> t_kind (ex_stage_heap tk) \<in> set (g_kinds g))"
    by (elim exE conjE)
  have "aux = ''g0''" "dit = ''g1''" using r(1,2) by (simp_all add: ex_config_def)
  moreover have "stage_of (t_kind (ex_stage_heap ''e'')) aux dit = aux" "stage_of (t_kind (ex_stage_heap ''d'')) aux dit = dit"
    by (simp_all add: stage_of_def ex_stage_heap_def)
  ultimately show ?thesis using st r(3,4) by (simp add: Let_def)
qed

text \<open>A request whose first task fails during the first poll of its caller.\<close>

definition ex_failing_tick :: poll_tick where
  "ex_failing_tick = \<lparr>pt_pump1 = [], pt_pump2 = [], pt_events = [WorkerEvent ex_task_failure []]\<rparr>"

lemma ex_wait_run:
  "case submit_request disaggregate_ops ex_pool (ex_fail 3) (Inr (ex_pipeline ''x'')) ex_start of
     Inl _ \<Rightarrow> False
   | Inr (s, rid) \<Rightarrow>
       (case wait disaggregate_ops ex_pool (ex_fail 3) ''x'' (Some 5) 100 [(101, ex_failing_tick), (106, ex_failing_tick)] s of
          Some (Inr (s', RequestError msg)) \<Rightarrow> msg = ''out of memory'' | _ \<Rightarrow> False)"
  by code_simp

lemma failed_outcome:
  "case w of Some (Inr (s', RequestError msg)) \<Rightarrow> msg = m | _ \<Rightarrow> False \<Longrightarrow> \<exists>s'. w = Some (Inr (s', RequestError m))"
proof (cases w)
  case (Some x)
  then show "case w of Some (Inr (s', RequestError msg)) \<Rightarrow> msg = m | _ \<Rightarrow> False \<Longrightarrow> ?thesis"
    by (cases x; cases "snd (projr x)"; cases "projr x") simp_all
qed simp

theorem wait_delivers_outcome_witness:
  "\<exists>s s' s0 s1. wait disaggregate_ops ex_pool (ex_fail 3) ''x'' (Some 5) 100 [(101, ex_failing_tick), (106, ex_failing_tick)] s
       = Some (Inr (s', RequestError ''out of memory''))
     \<and> get_request_status ex_pool ''x'' s0 = Inr (s1, StatusFailed ''out of memory'')
     \<and> s' = release_request ex_pool ''x'' s1 \<and> sc_failed_requests s' ''x'' = None"
proof -
  let ?ticks = "[(101, ex_failing_tick), (106, ex_failing_tick)]"
  obtain s rid where s: "submit_request disaggregate_ops ex_pool (ex_fail 3) (Inr (ex_pipeline ''x'')) ex_start = Inr (s, rid)"
    using ex_wait_run by (cases "submit_request disaggregate_ops ex_pool (ex_fail 3) (Inr (ex_pipeline ''x'')) ex_start") auto
  obtain s' where w: "wait disaggregate_ops ex_pool (ex_fail 3) ''x'' (Some 5) 100 ?ticks s
      = Some (Inr (s', RequestError ''out of memory''))"
    using failed_outcome ex_wait_run [unfolded s sum.case prod.case] by blast
  note d = wait_delivers_outcome [of disaggregate_ops ex_pool "ex_fail 3" "''x''" "Some 5" 100 ?ticks s s' "RequestError ''out of memory''"]
  from d w obtain s0 s1 x where x: "get_request_status ex_pool ''x'' s0 = Inr (s1, x)" "s' = release_request ex_pool ''x'' s1"
    "case x of StatusPending \<Rightarrow> False | StatusFinished v \<Rightarrow> RequestError ''out of memory'' = Output v
       | StatusFailed m \<Rightarrow> RequestError ''out of memory'' = RequestError m" by blast
  have "x = StatusFailed ''out of memory''" using x(3) by (cases x) simp_all
  moreover have "sc_failed_requests s' ''x'' = None" using d w by blast
  ultimately show ?thesis using w x by blast
qed


text \<open>
  The table of tasks in flight holds the id of the group, or a mark for reshards. Nothing keeps a
  configuration from using this mark as the id of a group: when the first task of such a group ends, it
  is released as a reshard, the group stays booked, and its next task is never dispatched.
\<close>

definition ex_mark_config :: od_config where
  "ex_mark_config = ex_config\<lparr>oc_group_sizes := PyNone, oc_aux_group_id := Some ''__reshard__'',
     oc_groups_json := PyList [PyDict [(''group_id'', PyStr ''__reshard__''), (''size'', PyInt 2)],
                               PyDict [(''group_id'', PyStr ''g1''), (''size'', PyInt 2)]]\<rparr>"

definition ex_mark_heap :: heap where
  "ex_mark_heap tk = (ex_task tk [])\<lparr>t_group_id := None, t_kind := TEXT_ENCODE\<rparr>"

lemma reshard_mark_blocks_group:
  "case runner_init (\<lambda>_. []) (\<lambda>_. []) ex_mark_config [] (PolicyName ''disaggregate'') None of
     Inr (DisaggregateSchedulerPolicy st) \<Rightarrow>
       (case disaggregate_runnable [''e1''] (ex_mark_heap, st) of
          Inr ((h1, st1), out1) \<Rightarrow>
            (case disaggregate_event (ex_task_event ''e1'' TASK_EXEC_END) (h1, st1) of
               Inr ((h2, st2), out2) \<Rightarrow>
                 (case disaggregate_runnable [''e2''] (h2, st2) of
                    Inr ((h3, st3), out3) \<Rightarrow> out1 = [''e1''] \<and> out3 = []
                      \<and> dg_dispatched_kind st3 ''e1'' = None \<and> cget (dg_outstanding_per_group st3) ''__reshard__'' = 1
                  | _ \<Rightarrow> False)
             | _ \<Rightarrow> False)
        | _ \<Rightarrow> False)
   | _ \<Rightarrow> False"
  by code_simp


end
