(* ===== verification/Codec.thy ===== *)
theory Codec
  imports Config ShardLayout
begin

text \<open>
  The layout codecs (\<open>runtime_v2/codec.py\<close>): how an artifact value is split into tensors and a skeleton
  without them, and put together again on another rank. Values are Python objects with identity, so
  they live in an explicit store: \<open>copy.copy\<close> allocates, assignments to attributes update in place and are
  visible through every reference. Pickling keeps the objects and their sharing; the bytes are
  modelled by the store and the root. Attributes of tensors and of plain values are left out.
\<close>

section \<open>Objects\<close>

datatype device = Cpu | Cuda nat

record tensor_obj =
  to_id :: nat
  to_device :: device
  to_shape :: "int list"
  to_dtype :: string

datatype val = NoneV | AtomV pyval | TensorV tensor_obj | RefV nat

text \<open>Dictionaries with string keys, lists, tuples, instances of data classes and other instances.\<close>

datatype obj =
    DictObj "(string \<times> val) list"
  | ListObj "val list"
  | TupleObj "val list"
  | DataObj "(string \<times> val) list"
  | InstObj "(string \<times> val) list"

type_synonym objs = "obj list"

definition deref :: "objs \<Rightarrow> val \<Rightarrow> obj option" where
  "deref H v = (case v of RefV a \<Rightarrow> if a < length H then Some (H ! a) else None | _ \<Rightarrow> None)"

text \<open>The position that \<open>xs[int(part)]\<close> addresses, negative indices included.\<close>

definition list_position :: "'a list \<Rightarrow> string \<Rightarrow> nat res" where
  "list_position xs part =
     (case int_of_string part of
        None \<Rightarrow> Inl ValueError
      | Some i \<Rightarrow>
          let j = (if i < 0 then i + int (length xs) else i)
          in if 0 \<le> j \<and> j < int (length xs) then Inr (nat j) else Inl IndexError)"

definition attr_get :: "(string \<times> val) list \<Rightarrow> string \<Rightarrow> val res" where
  "attr_get d part = (case map_of d part of None \<Rightarrow> Inl AttributeError | Some v \<Rightarrow> Inr v)"

section \<open>Fields\<close>

text \<open>One step of the loop of \<open>_read_field\<close>.\<close>

definition get_part :: "objs \<Rightarrow> val \<Rightarrow> string \<Rightarrow> val res" where
  "get_part H v part =
     (case deref H v of
        None \<Rightarrow> Inl AttributeError
      | Some (DictObj d) \<Rightarrow> dict_get (map_of d) part
      | Some (ListObj xs) \<Rightarrow> bind_res (list_position xs part) (\<lambda>i. Inr (xs ! i))
      | Some (TupleObj xs) \<Rightarrow> bind_res (list_position xs part) (\<lambda>i. Inr (xs ! i))
      | Some (DataObj d) \<Rightarrow> attr_get d part
      | Some (InstObj d) \<Rightarrow> attr_get d part)"

definition read_field :: "objs \<Rightarrow> val \<Rightarrow> string list \<Rightarrow> val res" where
  "read_field H v path = for_res (get_part H) v path"

text \<open>The assignment at the end of \<open>_write_field\<close>.\<close>

definition set_part :: "objs \<Rightarrow> val \<Rightarrow> string \<Rightarrow> val \<Rightarrow> objs res" where
  "set_part H v leaf x =
     (case v of
        RefV a \<Rightarrow>
          (case deref H v of
             Some (DictObj d) \<Rightarrow> Inr (H[a := DictObj (dict_set d leaf x)])
           | Some (ListObj xs) \<Rightarrow> bind_res (list_position xs leaf) (\<lambda>i. Inr (H[a := ListObj (xs[i := x])]))
           | Some (DataObj d) \<Rightarrow> Inr (H[a := DataObj (dict_set d leaf x)])
           | Some (InstObj d) \<Rightarrow> Inr (H[a := InstObj (dict_set d leaf x)])
           | _ \<Rightarrow> Inl AttributeError)
      | _ \<Rightarrow> Inl AttributeError)"

definition write_field :: "objs \<Rightarrow> val \<Rightarrow> string list \<Rightarrow> val \<Rightarrow> objs res" where
  "write_field H v path x =
     (if path = [] then Inl ValueError
      else bind_res (read_field H v (butlast path)) (\<lambda>c. set_part H c (last path) x))"

section \<open>Packing and assembly\<close>

text \<open>\<open>copy.copy\<close>: a new object with the same parts; a tuple or a plain value is its own copy.\<close>

definition copy_value :: "objs \<Rightarrow> val \<Rightarrow> objs \<times> val" where
  "copy_value H v =
     (case deref H v of
        None \<Rightarrow> (H, v)
      | Some (TupleObj xs) \<Rightarrow> (H, v)
      | Some ob \<Rightarrow> (H @ [ob], RefV (length H)))"

definition iter_value_attrs :: "objs \<Rightarrow> val \<Rightarrow> (string \<times> val) list" where
  "iter_value_attrs H v = (case deref H v of Some (DataObj d) \<Rightarrow> d | Some (DictObj d) \<Rightarrow> d | _ \<Rightarrow> [])"

definition is_tensor :: "val \<Rightarrow> bool" where
  "is_tensor v = (case v of TensorV _ \<Rightarrow> True | _ \<Rightarrow> False)"

definition assert_no_undeclared_tensor_fields :: "objs \<Rightarrow> val \<Rightarrow> tensor_field_layout list \<Rightarrow> unit res" where
  "assert_no_undeclared_tensor_fields H v fls =
     (if \<exists>(n, x) \<in> set (iter_value_attrs H v). is_tensor x \<and> [n] \<notin> set (map fl_path fls)
      then Inl RuntimeError else Inr ())"

definition strip_tensor_fields :: "objs \<Rightarrow> val \<Rightarrow> tensor_field_layout list \<Rightarrow> (objs \<times> val) res" where
  "strip_tensor_fields H v fls =
     (let (H1, skeleton) = copy_value H v
      in bind_res (for_res (\<lambda>H f. write_field H skeleton (fl_path f) NoneV) H1 fls) (\<lambda>H2. Inr (H2, skeleton)))"

definition inject_tensor_fields ::
  "objs \<Rightarrow> val \<Rightarrow> (string list \<times> val) list \<Rightarrow> tensor_field_layout list \<Rightarrow> objs res" where
  "inject_tensor_fields H skeleton tensors fls =
     for_res (\<lambda>H f.
        case map_of tensors (fl_path f) of
          None \<Rightarrow> Inl KeyError
        | Some x \<Rightarrow> if x = NoneV then Inl KeyError else write_field H skeleton (fl_path f) x) H fls"

definition pack_metadata :: "objs \<Rightarrow> val \<Rightarrow> tensor_field_layout list \<Rightarrow> (objs \<times> val) res" where
  "pack_metadata H v fls =
     bind_res (assert_no_undeclared_tensor_fields H v fls) (\<lambda>_. strip_tensor_fields H v fls)"

definition migration_extra_fields :: "objs \<Rightarrow> val \<Rightarrow> tensor_field_layout list \<Rightarrow> tensor_field_layout list" where
  "migration_extra_fields H v fls = []"

definition assemble ::
  "objs \<times> val \<Rightarrow> (string list \<times> val) list \<Rightarrow> tensor_field_layout list \<Rightarrow> (objs \<times> val) res" where
  "assemble metadata tensors fls =
     (case metadata of (H, skeleton) \<Rightarrow>
        bind_res (inject_tensor_fields H skeleton tensors fls) (\<lambda>H'. Inr (H', skeleton)))"

definition extract_tensors :: "objs \<Rightarrow> val \<Rightarrow> tensor_field_layout list \<Rightarrow> (string list \<times> val) list res" where
  "extract_tensors H v fls =
     map_res (\<lambda>f. bind_res (read_field H v (fl_path f)) (\<lambda>x. Inr (fl_path f, x))) fls"

section \<open>The registry\<close>

text \<open>A codec object: its identity and its \<open>codec_id\<close>.\<close>

record codec_ref =
  cr_object :: nat
  cr_codec_id :: string

definition register_codec :: "codec_ref \<Rightarrow> (string \<Rightarrow> codec_ref option) \<Rightarrow> (string \<Rightarrow> codec_ref option) res" where
  "register_codec c R =
     (if cr_codec_id c = [] then Inl ValueError
      else case R (cr_codec_id c) of
        Some e \<Rightarrow> if cr_object e = cr_object c then Inr R else Inl ValueError
      | None \<Rightarrow> Inr (R(cr_codec_id c \<mapsto> c)))"

section \<open>Single-level fields\<close>

text \<open>Objects with named parts, and the replacement of the parts.\<close>

fun parts :: "obj \<Rightarrow> (string \<times> val) list option" where
  "parts (DictObj d) = Some d"
| "parts (DataObj d) = Some d"
| "parts (InstObj d) = Some d"
| "parts _ = None"

fun with_parts :: "obj \<Rightarrow> (string \<times> val) list \<Rightarrow> obj" where
  "with_parts (DictObj _) d = DictObj d"
| "with_parts (DataObj _) d = DataObj d"
| "with_parts (InstObj _) d = InstObj d"
| "with_parts ob d = ob"

lemma parts_with_parts [simp]:
  "parts ob = Some d \<Longrightarrow> parts (with_parts ob d') = Some d'" "with_parts (with_parts ob d) d' = with_parts ob d'"
  "parts ob = Some d \<Longrightarrow> with_parts ob d = ob"
  by (cases ob; simp)+

lemma read_single:
  "a < length H \<Longrightarrow> parts (H ! a) = Some d \<Longrightarrow> map_of d n = Some x \<Longrightarrow> read_field H (RefV a) [n] = Inr x"
  by (cases "H ! a") (auto simp: read_field_def get_part_def deref_def attr_get_def dict_get_def)

lemma write_single:
  "a < length H \<Longrightarrow> parts (H ! a) = Some d \<Longrightarrow>
   write_field H (RefV a) [n] x = Inr (H[a := with_parts (H ! a) (dict_set d n x)])"
  by (cases "H ! a") (auto simp: write_field_def read_field_def set_part_def deref_def)

lemma dict_set_map:
  "distinct (map fst d) \<Longrightarrow> k \<in> fst ` set d \<Longrightarrow>
   dict_set d k x = map (\<lambda>(k', y). (k', if k' = k then x else y)) d"
proof (induction d k x rule: dict_set.induct)
  case (2 k' v' d k v)
  show ?case
  proof (cases "k' = k")
    case True
    have "map (\<lambda>(k', y). (k', if k' = k then v else y)) d = d"
      by (rule map_idI) (use 2(2) True in \<open>force split: prod.splits\<close>)
    then show ?thesis using True by simp
  qed (use 2 in auto)
qed simp

text \<open>Writing several existing parts.\<close>

definition set_all :: "string set \<Rightarrow> (string \<Rightarrow> 'a) \<Rightarrow> (string \<times> 'a) list \<Rightarrow> (string \<times> 'a) list" where
  "set_all N g d = map (\<lambda>(k, y). (k, if k \<in> N then g k else y)) d"

lemma set_all_simps [simp]:
  "set_all {} g d = d" "map fst (set_all N g d) = map fst d" "fst ` set (set_all N g d) = fst ` set d"
  "set_all N g (set_all M f d) = set_all (N \<union> M) (\<lambda>k. if k \<in> N then g k else f k) d"
  by (auto simp: set_all_def o_def case_prod_beta image_image intro!: map_idI)

lemma dict_set_all: "distinct (map fst d) \<Longrightarrow> k \<in> fst ` set d \<Longrightarrow> dict_set d k x = set_all {k} (\<lambda>_. x) d"
  by (simp add: dict_set_map set_all_def)

text \<open>The names of the declared fields that are single parts.\<close>

definition declared_names :: "tensor_field_layout list \<Rightarrow> string set" where
  "declared_names fls = {n. [n] \<in> set (map fl_path fls)}"

lemma write_loop:
  assumes "a < length H" "parts (H ! a) = Some d" "distinct (map fst d)"
    and "\<forall>f \<in> set fls. \<exists>n. fl_path f = [n] \<and> n \<in> fst ` set d"
  shows "for_res (\<lambda>H f. write_field H (RefV a) (fl_path f) (g (fl_path f))) H fls
    = Inr (H[a := with_parts (H ! a) (set_all (declared_names fls) (\<lambda>k. g [k]) d)])"
  using assms
proof (induction fls arbitrary: H d)
  case Nil
  then show ?case by (simp add: declared_names_def)
next
  case (Cons f fls)
  then obtain n where n: "fl_path f = [n]" "n \<in> fst ` set d" by auto
  let ?d = "set_all {n} (\<lambda>_. g [n]) d"
  let ?H = "H[a := with_parts (H ! a) ?d]"
  have w: "write_field H (RefV a) (fl_path f) (g (fl_path f)) = Inr ?H"
    using write_single [OF Cons.prems(1,2)] dict_set_all [OF Cons.prems(3) n(2)] by (simp add: n(1))
  have "for_res (\<lambda>H f. write_field H (RefV a) (fl_path f) (g (fl_path f))) ?H fls
      = Inr (?H[a := with_parts (?H ! a) (set_all (declared_names fls) (\<lambda>k. g [k]) ?d)])"
    using Cons.prems by (intro Cons.IH) auto
  moreover have "set_all (declared_names fls) (\<lambda>k. g [k]) ?d = set_all (declared_names (f # fls)) (\<lambda>k. g [k]) d"
    by (auto simp: n(1) declared_names_def set_all_def)
  ultimately show ?case using w Cons.prems(1) by simp
qed

lemma inject_loop:
  assumes "a < length H" "parts (H ! a) = Some d" "distinct (map fst d)"
    and "\<forall>f \<in> set fls. \<exists>n. fl_path f = [n] \<and> n \<in> fst ` set d"
    and "\<forall>f \<in> set fls. map_of ts (fl_path f) = Some (g (fl_path f)) \<and> g (fl_path f) \<noteq> NoneV"
  shows "inject_tensor_fields H (RefV a) ts fls
    = Inr (H[a := with_parts (H ! a) (set_all (declared_names fls) (\<lambda>k. g [k]) d)])"
proof -
  have "inject_tensor_fields H (RefV a) ts fls = for_res (\<lambda>H f. write_field H (RefV a) (fl_path f) (g (fl_path f))) H fls"
    unfolding inject_tensor_fields_def using assms(5) by (induction fls arbitrary: H) simp_all
  then show ?thesis using write_loop [OF assms(1-4)] by simp
qed

lemma extract_single:
  assumes "a < length H" "parts (H ! a) = Some d"
    and "\<forall>f \<in> set fls. \<exists>n t. fl_path f = [n] \<and> map_of d n = Some (TensorV t)"
  shows "\<exists>ts. extract_tensors H (RefV a) fls = Inr ts
     \<and> (\<forall>f \<in> set fls. map_of ts (fl_path f) = map_of d (hd (fl_path f)))"
  using assms(3)
proof (induction fls)
  case (Cons f fls)
  then obtain ts n t where ts: "extract_tensors H (RefV a) fls = Inr ts"
    "\<forall>f \<in> set fls. map_of ts (fl_path f) = map_of d (hd (fl_path f))"
    and n: "fl_path f = [n]" "map_of d n = Some (TensorV t)" by auto
  have "read_field H (RefV a) [n] = Inr (TensorV t)" by (rule read_single [OF assms(1,2) n(2)])
  then have "extract_tensors H (RefV a) (f # fls) = Inr (([n], TensorV t) # ts)"
    using ts(1) by (simp add: extract_tensors_def n(1))
  then show ?case using ts(2) n by auto
qed (simp add: extract_tensors_def)


section \<open>Round trip\<close>

text \<open>A tensor that arrives on another device, with the same contents.\<close>

definition on_device :: "device \<Rightarrow> val \<Rightarrow> val" where
  "on_device dev x = (case x of TensorV t \<Rightarrow> TensorV (t\<lparr>to_device := dev\<rparr>) | _ \<Rightarrow> x)"

lemma on_device_NoneV [simp]: "on_device dev x = NoneV \<longleftrightarrow> x = NoneV"
  by (simp add: on_device_def split: val.splits)

lemma strip_single:
  assumes "a < length H" "parts (H ! a) = Some d" "distinct (map fst d)"
    and "\<forall>f \<in> set fls. \<exists>n. fl_path f = [n] \<and> n \<in> fst ` set d"
  shows "strip_tensor_fields H (RefV a) fls
    = Inr (H @ [with_parts (H ! a) (set_all (declared_names fls) (\<lambda>_. NoneV) d)], RefV (length H))"
proof -
  have c: "copy_value H (RefV a) = (H @ [H ! a], RefV (length H))"
    using assms(1,2) by (cases "H ! a") (simp_all add: copy_value_def deref_def)
  have "for_res (\<lambda>H' f. write_field H' (RefV (length H)) (fl_path f) ((\<lambda>_. NoneV) (fl_path f))) (H @ [H ! a]) fls
      = Inr ((H @ [H ! a])[length H := with_parts ((H @ [H ! a]) ! length H) (set_all (declared_names fls) (\<lambda>_. NoneV) d)])"
    by (rule write_loop) (use assms in simp_all)
  then show ?thesis by (simp add: strip_tensor_fields_def c Let_def)
qed

text \<open>
  C33: A codec takes an artifact apart and puts it together again without loss. For a data class, dictionary
  or other instance whose declared fields are attributes that hold tensors: packing raises exactly if a
  data class or dictionary has a tensor that is not declared; otherwise the skeleton is a new object without
  the declared tensors, the source value is left as it was, and assembling the skeleton with the extracted tensors, on
  whatever device they arrive, gives the source value with its declared tensors on that device.
\<close>

theorem codec_roundtrip:
  assumes "a < length H" "parts (H ! a) = Some d" "distinct (map fst d)"
    and fls: "\<forall>f \<in> set fls. \<exists>n t. fl_path f = [n] \<and> map_of d n = Some (TensorV t)"
  shows "if \<exists>(n, x) \<in> set (iter_value_attrs H (RefV a)). is_tensor x \<and> [n] \<notin> set (map fl_path fls)
     then pack_metadata H (RefV a) fls = Inl RuntimeError
     else \<exists>H1 b ts. pack_metadata H (RefV a) fls = Inr (H1, RefV b) \<and> take (length H) H1 = H \<and> length H \<le> b
       \<and> H1 ! b = with_parts (H ! a) (map (\<lambda>(n, x). (n, if n \<in> declared_names fls then NoneV else x)) d)
       \<and> extract_tensors H (RefV a) fls = Inr ts
       \<and> (\<forall>dev. \<exists>H2. assemble (H1, RefV b) (map (\<lambda>(p, x). (p, on_device dev x)) ts) fls = Inr (H2, RefV b)
            \<and> take (length H) H2 = H
            \<and> H2 ! b = with_parts (H ! a) (map (\<lambda>(n, x). (n, if n \<in> declared_names fls then on_device dev x else x)) d))"
proof (cases "\<exists>(n, x) \<in> set (iter_value_attrs H (RefV a)). is_tensor x \<and> [n] \<notin> set (map fl_path fls)")
  case True
  then show ?thesis by (simp add: pack_metadata_def assert_no_undeclared_tensor_fields_def)
next
  case False
  let ?b = "length H"
  let ?sk = "set_all (declared_names fls) (\<lambda>_. NoneV) d"
  let ?H1 = "H @ [with_parts (H ! a) ?sk]"
  have keys: "\<forall>f \<in> set fls. \<exists>n. fl_path f = [n] \<and> n \<in> fst ` set d"
    by (rule ballI, drule bspec [OF fls]) (force dest: map_of_SomeD)
  have p: "pack_metadata H (RefV a) fls = Inr (?H1, RefV ?b)"
    using False strip_single [OF assms(1-3) keys] by (simp add: pack_metadata_def assert_no_undeclared_tensor_fields_def)
  obtain ts where ts: "extract_tensors H (RefV a) fls = Inr ts"
    "\<forall>f \<in> set fls. map_of ts (fl_path f) = map_of d (hd (fl_path f))" using extract_single [OF assms(1,2) fls] by blast
  have as: "assemble (?H1, RefV ?b) (map (\<lambda>(p, x). (p, on_device dev x)) ts) fls
      = Inr (?H1[?b := with_parts (H ! a) (map (\<lambda>(n, x). (n, if n \<in> declared_names fls then on_device dev x else x)) d)], RefV ?b)" for dev
  proof -
    define g where "g p = on_device dev (the (map_of d (hd p)))" for p
    have g: "\<forall>f \<in> set fls. map_of (map (\<lambda>(p, x). (p, on_device dev x)) ts) (fl_path f) = Some (g (fl_path f)) \<and> g (fl_path f) \<noteq> NoneV"
    proof
      fix f assume f: "f \<in> set fls"
      then obtain n t where n: "fl_path f = [n]" "map_of d n = Some (TensorV t)" using fls by blast
      have "map_of ts [n] = Some (TensorV t)" using ts(2) f n by force
      then show "map_of (map (\<lambda>(p, x). (p, on_device dev x)) ts) (fl_path f) = Some (g (fl_path f)) \<and> g (fl_path f) \<noteq> NoneV"
        by (simp add: n g_def map_of_map)
    qed
    have "inject_tensor_fields ?H1 (RefV ?b) (map (\<lambda>(p, x). (p, on_device dev x)) ts) fls
        = Inr (?H1[?b := with_parts (?H1 ! ?b) (set_all (declared_names fls) (\<lambda>k. g [k]) ?sk)])"
      by (rule inject_loop [OF _ _ _ _ g]) (use assms(2,3) keys in simp_all)
    moreover have "set_all (declared_names fls) (\<lambda>k. g [k]) ?sk
        = map (\<lambda>(n, x). (n, if n \<in> declared_names fls then on_device dev x else x)) d"
      using assms(3) by (auto simp: set_all_def g_def)
    ultimately show ?thesis by (simp add: assemble_def)
  qed
  show ?thesis
    unfolding if_not_P [OF False] using p ts(1) as
    by (intro exI [of _ ?H1] exI [of _ ?b] exI [of _ ts]) (simp add: set_all_def)
qed


section \<open>Concrete values\<close>

definition ex_tensor :: "nat \<Rightarrow> device \<Rightarrow> tensor_obj" where
  "ex_tensor i dev = \<lparr>to_id = i, to_device = dev, to_shape = [2], to_dtype = ''torch.float32''\<rparr>"

definition ex_field :: "string list \<Rightarrow> tensor_field_layout" where
  "ex_field path = \<lparr>fl_path = path, fl_local_shape = [2], fl_dtype = ''torch.float32'', fl_layout = REPLICATED_TENSOR_LAYOUT,
     fl_global_shape = [2], fl_global_offset = [0]\<rparr>"

definition ex_state_objs :: objs where
  "ex_state_objs = [DataObj [(''prompt'', AtomV (PyStr ''p'')), (''latents'', TensorV (ex_tensor 7 (Cuda 0))), (''scheduler'', RefV 1)],
     InstObj [(''last_sample'', TensorV (ex_tensor 8 (Cuda 0)))]]"

theorem codec_roundtrip_witness:
  "\<exists>H1 b H2. pack_metadata ex_state_objs (RefV 0) [ex_field [''latents'']] = Inr (H1, RefV b) \<and> take 2 H1 = ex_state_objs
     \<and> assemble (H1, RefV b) [([''latents''], TensorV (ex_tensor 7 (Cuda 3)))] [ex_field [''latents'']] = Inr (H2, RefV b)
     \<and> H2 ! b = DataObj [(''prompt'', AtomV (PyStr ''p'')), (''latents'', TensorV (ex_tensor 7 (Cuda 3))), (''scheduler'', RefV 1)]"
proof -
  let ?d = "[(''prompt'', AtomV (PyStr ''p'')), (''latents'', TensorV (ex_tensor 7 (Cuda 0))), (''scheduler'', RefV 1)]"
  let ?fls = "[ex_field [''latents'']]"
  have H: "0 < length ex_state_objs" "parts (ex_state_objs ! 0) = Some ?d" "distinct (map fst ?d)"
    "\<forall>f \<in> set ?fls. \<exists>n t. fl_path f = [n] \<and> map_of ?d n = Some (TensorV t)"
    by (simp_all add: ex_state_objs_def ex_field_def)
  have no: "\<not> (\<exists>(n, x) \<in> set (iter_value_attrs ex_state_objs (RefV 0)). is_tensor x \<and> [n] \<notin> set (map fl_path ?fls))"
    by (simp add: iter_value_attrs_def deref_def ex_state_objs_def is_tensor_def ex_field_def)
  have ts: "extract_tensors ex_state_objs (RefV 0) ?fls = Inr [([''latents''], TensorV (ex_tensor 7 (Cuda 0)))]"
    by code_simp
  from codec_roundtrip [OF H, unfolded if_not_P [OF no] ts] obtain H1 b H2 where
    r: "pack_metadata ex_state_objs (RefV 0) ?fls = Inr (H1, RefV b)" "take (length ex_state_objs) H1 = ex_state_objs"
    "assemble (H1, RefV b) (map (\<lambda>(p, x). (p, on_device (Cuda 3) x)) [([''latents''], TensorV (ex_tensor 7 (Cuda 0)))]) ?fls = Inr (H2, RefV b)"
    "H2 ! b = with_parts (ex_state_objs ! 0) (map (\<lambda>(n, x). (n, if n \<in> declared_names ?fls then on_device (Cuda 3) x else x)) ?d)"
    by blast
  have m: "on_device (Cuda 3) (TensorV (ex_tensor 7 (Cuda 0))) = TensorV (ex_tensor 7 (Cuda 3))"
    by (simp add: on_device_def ex_tensor_def)
  have l: "length ex_state_objs = 2" by (simp add: ex_state_objs_def)
  have "H2 ! b = DataObj [(''prompt'', AtomV (PyStr ''p'')), (''latents'', TensorV (ex_tensor 7 (Cuda 3))), (''scheduler'', RefV 1)]"
    using r(4) m by (simp add: ex_state_objs_def declared_names_def ex_field_def)
  then show ?thesis using r(1,2,3) unfolding l list.map prod.case m by blast
qed

text \<open>
  Nested fields are outside this: the copy is shallow, so stripping a part of a nested object also takes it
  from the source value.
\<close>

lemma nested_strip_clears_source:
  "case strip_tensor_fields ex_state_objs (RefV 0) [ex_field [''scheduler'', ''last_sample'']] of
     Inl _ \<Rightarrow> False
   | Inr (H1, sk) \<Rightarrow> read_field ex_state_objs (RefV 0) [''scheduler'', ''last_sample''] = Inr (TensorV (ex_tensor 8 (Cuda 0)))
       \<and> read_field H1 (RefV 0) [''scheduler'', ''last_sample''] = Inr NoneV"
  by code_simp


end
