(* ===== verification/StateCodec.thy ===== *)
theory StateCodec
  imports Codec
begin

text \<open>
  The codecs of the runtime states (\<open>adapters/wan.py\<close>; the ones of \<open>adapters/qwen_image.py\<close> are the same): besides the declared tensors a state
  carries the diffusion scheduler, an object whose attributes hold tensors of its own, such as the
  history of a multi-step solver. Packing takes the tensors that are on a device out of a copy of the scheduler, the
  migration sends them as extra fields, and assembly writes them back and moves everything to the device of the destination.
  Packing only assigns to attributes of new copies and builds new lists, and assembly works on objects that were just unpickled,
  so values are trees here. Objects that are not lists, tuples or dictionaries themselves are not traversed.
\<close>

section \<open>Values\<close>

datatype sval =
    SNone
  | SAtom pyval
  | SDevice device
  | STensor tensor_obj
  | SList "sval list"
  | STuple "sval list"
  | SDict "(string \<times> sval) list"
  | SInst "(string \<times> sval) list"

type_synonym attrs = "(string \<times> sval) list"

definition is_cuda :: "tensor_obj \<Rightarrow> bool" where
  "is_cuda t \<longleftrightarrow> to_device t \<noteq> Cpu"

fun cuda_tensor :: "sval \<Rightarrow> bool" where
  "cuda_tensor (STensor t) = is_cuda t"
| "cuda_tensor _ = False"

fun tensor_tree_to_device :: "device \<Rightarrow> sval \<Rightarrow> sval" where
  "tensor_tree_to_device dev (STensor t) = STensor (t\<lparr>to_device := dev\<rparr>)"
| "tensor_tree_to_device dev (SList xs) = SList (map (tensor_tree_to_device dev) xs)"
| "tensor_tree_to_device dev (STuple xs) = STuple (map (tensor_tree_to_device dev) xs)"
| "tensor_tree_to_device dev (SDict d) = SDict (map (\<lambda>kx. (fst kx, tensor_tree_to_device dev (snd kx))) d)"
| "tensor_tree_to_device dev v = v"

section \<open>Packing\<close>

definition null_item :: "sval \<Rightarrow> sval" where
  "null_item x = (if cuda_tensor x then SNone else x)"

text \<open>What an attribute of the scheduler becomes in the skeleton, and the scan that follows.\<close>

definition skeleton_attr :: "sval \<Rightarrow> sval" where
  "skeleton_attr v =
     (case v of
        STensor t \<Rightarrow> if is_cuda t then SNone else v
      | SList xs \<Rightarrow> if list_ex cuda_tensor xs then SList (map null_item xs) else v
      | _ \<Rightarrow> v)"

definition leftover :: "sval \<Rightarrow> bool" where
  "leftover v = (case v of STensor t \<Rightarrow> is_cuda t | SList xs \<Rightarrow> list_ex cuda_tensor xs | _ \<Rightarrow> False)"

definition scheduler_skeleton :: "sval \<Rightarrow> sval res" where
  "scheduler_skeleton v =
     (case v of
        SNone \<Rightarrow> Inr SNone
      | SInst d \<Rightarrow>
          let sk = map (\<lambda>(n, x). (n, skeleton_attr x)) d
          in if list_ex (\<lambda>(n, x). leftover x) sk then Inl RuntimeError else Inr (SInst sk)
      | _ \<Rightarrow> Inl TypeError)"

definition getattr_none :: "attrs \<Rightarrow> string \<Rightarrow> sval" where
  "getattr_none d n = (case map_of d n of None \<Rightarrow> SNone | Some v \<Rightarrow> v)"

text \<open>
  \<open>OmniDiffusionRequest.__post_init__\<close> (\<open>diffusion/request.py\<close>), which runs whenever a request is
  constructed, also by \<open>dataclasses.replace\<close>: it turns classifier-free guidance on when a prompt comes
  with a negative one, and tells a guidance scale that was given from the default zero, which it
  replaces by one. A prompt is a string or a dictionary; a negative prompt that is a tensor has no
  truth value.
\<close>

definition getattr :: "attrs \<Rightarrow> string \<Rightarrow> sval res" where
  "getattr d n = (case map_of d n of None \<Rightarrow> Inl AttributeError | Some v \<Rightarrow> Inr v)"

definition pyval_truth :: "pyval \<Rightarrow> bool" where
  "pyval_truth v =
     (case v of PyNone \<Rightarrow> False | PyBool b \<Rightarrow> b | PyInt n \<Rightarrow> n \<noteq> 0 | PyFloat q \<Rightarrow> q \<noteq> 0 | PyStr s \<Rightarrow> s \<noteq> []
      | PyList xs \<Rightarrow> xs \<noteq> [] | PyDict d \<Rightarrow> d \<noteq> [])"

definition sval_truth :: "sval \<Rightarrow> bool res" where
  "sval_truth v =
     (case v of SNone \<Rightarrow> Inr False | SAtom x \<Rightarrow> Inr (pyval_truth x) | STensor _ \<Rightarrow> Inl RuntimeError
      | SList xs \<Rightarrow> Inr (xs \<noteq> []) | STuple xs \<Rightarrow> Inr (xs \<noteq> []) | SDict d \<Rightarrow> Inr (d \<noteq> []) | _ \<Rightarrow> Inr True)"

definition sval_number :: "sval \<Rightarrow> rat res" where
  "sval_number v =
     (case v of
        SAtom x \<Rightarrow> (case x of PyInt n \<Rightarrow> Inr (of_int n) | PyFloat q \<Rightarrow> Inr q | PyBool b \<Rightarrow> Inr (if b then 1 else 0)
                    | _ \<Rightarrow> Inl TypeError)
      | _ \<Rightarrow> Inl TypeError)"

fun any_negative_prompt :: "sval list \<Rightarrow> bool res" where
  "any_negative_prompt [] = Inr False"
| "any_negative_prompt (p # ps) =
     bind_res
       (case p of
          SAtom x \<Rightarrow> (case x of PyStr _ \<Rightarrow> Inr False
                      | PyDict d \<Rightarrow> Inr (case map_of d ''negative_prompt'' of None \<Rightarrow> False | Some v \<Rightarrow> pyval_truth v)
                      | _ \<Rightarrow> Inl AttributeError)
        | SDict d \<Rightarrow> sval_truth (getattr_none d ''negative_prompt'')
        | _ \<Rightarrow> Inl AttributeError)
       (\<lambda>b. if b then Inr True else any_negative_prompt ps)"

definition init_sampling_params :: "sval \<Rightarrow> attrs \<Rightarrow> attrs res" where
  "init_sampling_params prompts sp =
     bind_res (getattr sp ''guidance_scale'') (\<lambda>scale.
     bind_res (sval_number scale) (\<lambda>g.
     bind_res (if g \<le> 1 then Inr False
               else case prompts of SList ps \<Rightarrow> any_negative_prompt ps | STuple ps \<Rightarrow> any_negative_prompt ps | _ \<Rightarrow> Inl TypeError) (\<lambda>neg.
     let sp1 = (if neg then dict_set sp ''do_classifier_free_guidance'' (SAtom (PyBool True)) else sp)
     in if g = 0 then Inr (dict_set sp1 ''guidance_scale'' (SAtom (PyFloat 1)))
        else
          let sp2 = dict_set sp1 ''guidance_scale_provided'' (SAtom (PyBool True))
          in bind_res (getattr sp2 ''guidance_scale_2'') (\<lambda>scale_2.
             Inr (if scale_2 = SNone then dict_set sp2 ''guidance_scale_2'' scale else sp2)))))"

definition request_post_init :: "attrs \<Rightarrow> attrs res" where
  "request_post_init rd =
     bind_res (getattr rd ''sampling_params'') (\<lambda>v.
       case v of
         SInst sp \<Rightarrow>
           bind_res (getattr rd ''prompts'') (\<lambda>prompts.
           bind_res (init_sampling_params prompts sp) (\<lambda>sp'. Inr (dict_set rd ''sampling_params'' (SInst sp'))))
       | _ \<Rightarrow> Inl AttributeError)"

text \<open>
  A request that carries a random generator is replaced by a new request without it, which
  initialises itself again; any other request stays as it is.
\<close>

definition strip_generator :: "sval \<Rightarrow> sval res" where
  "strip_generator v =
     (case v of
        SInst rd \<Rightarrow>
          (case getattr_none rd ''sampling_params'' of
             SInst sp \<Rightarrow>
               if getattr_none sp ''generator'' = SNone then Inr v
               else bind_res (request_post_init (dict_set rd ''sampling_params'' (SInst (dict_set sp ''generator'' SNone))))
                      (\<lambda>rd'. Inr (SInst rd'))
           | _ \<Rightarrow> Inr v)
      | _ \<Rightarrow> Inr v)"

definition is_stensor :: "sval \<Rightarrow> bool" where
  "is_stensor v = (case v of STensor _ \<Rightarrow> True | _ \<Rightarrow> False)"

definition pack_state :: "attrs \<Rightarrow> tensor_field_layout list \<Rightarrow> attrs res" where
  "pack_state st fls =
     (if \<exists>(n, x) \<in> set st. is_stensor x \<and> [n] \<notin> set (map fl_path fls) then Inl RuntimeError
      else
        bind_res (scheduler_skeleton (getattr_none st ''scheduler'')) (\<lambda>sk.
        let names = map (hd \<circ> fl_path) fls
        in if \<not> set (names @ [''device'', ''scheduler'']) \<subseteq> fst ` set st then Inl TypeError
           else
             let st1 = map (\<lambda>(n, x). (n, if n = ''device'' then SNone else if n = ''scheduler'' then sk
                                         else if n \<in> set names then SNone else x)) st
             in case map_of st1 ''request'' of
                  None \<Rightarrow> Inl AttributeError
                | Some r \<Rightarrow> bind_res (strip_generator r) (\<lambda>r'. Inr (dict_set st1 ''request'' r'))))"

section \<open>Extra fields\<close>

text \<open>The tensors on a device in a list, with their positions from \<open>i\<close> on.\<close>

fun list_tensors :: "nat \<Rightarrow> sval list \<Rightarrow> (string list \<times> tensor_obj) list" where
  "list_tensors i [] = []"
| "list_tensors i (x # xs) =
     (case x of STensor t \<Rightarrow> if is_cuda t then [([str_nat i], t)] else [] | _ \<Rightarrow> []) @ list_tensors (Suc i) xs"

definition attr_tensors :: "sval \<Rightarrow> (string list \<times> tensor_obj) list" where
  "attr_tensors v =
     (case v of
        STensor t \<Rightarrow> if is_cuda t then [([], t)] else []
      | SList xs \<Rightarrow> list_tensors 0 xs
      | _ \<Rightarrow> [])"

definition scheduler_tensors :: "attrs \<Rightarrow> (string list \<times> tensor_obj) list" where
  "scheduler_tensors d = concat (map (\<lambda>(n, v). map (\<lambda>(p, t). (n # p, t)) (attr_tensors v)) d)"

definition state_extra_fields :: "attrs \<Rightarrow> tensor_field_layout list \<Rightarrow> tensor_field_layout list res" where
  "state_extra_fields st fls =
     (case getattr_none st ''scheduler'' of
        SNone \<Rightarrow> Inr []
      | SInst d \<Rightarrow>
          bind_res (map_res (\<lambda>(p, t). replicated_tensor_field (''scheduler'' # p) (to_shape t) (to_dtype t)) (scheduler_tensors d))
            (\<lambda>l. Inr (filter (\<lambda>f. fl_path f \<notin> set (map fl_path fls)) l))
      | _ \<Rightarrow> Inl TypeError)"

section \<open>Assembly\<close>

text \<open>\<open>_write_field\<close> on trees.\<close>

fun write_tree :: "sval \<Rightarrow> string list \<Rightarrow> sval \<Rightarrow> sval res" where
  "write_tree v [] x = Inl ValueError"
| "write_tree v [leaf] x =
     (case v of
        SDict d \<Rightarrow> Inr (SDict (dict_set d leaf x))
      | SList xs \<Rightarrow> bind_res (list_position xs leaf) (\<lambda>i. Inr (SList (xs[i := x])))
      | SInst d \<Rightarrow> Inr (SInst (dict_set d leaf x))
      | _ \<Rightarrow> Inl AttributeError)"
| "write_tree v (p # q # ps) x =
     (case v of
        SDict d \<Rightarrow> (case map_of d p of None \<Rightarrow> Inl KeyError
                      | Some c \<Rightarrow> bind_res (write_tree c (q # ps) x) (\<lambda>c'. Inr (SDict (dict_set d p c'))))
      | SList xs \<Rightarrow> bind_res (list_position xs p) (\<lambda>i. bind_res (write_tree (xs ! i) (q # ps) x) (\<lambda>c'. Inr (SList (xs[i := c']))))
      | STuple xs \<Rightarrow> bind_res (list_position xs p) (\<lambda>i. bind_res (write_tree (xs ! i) (q # ps) x) (\<lambda>c'. Inr (STuple (xs[i := c']))))
      | SInst d \<Rightarrow> (case map_of d p of None \<Rightarrow> Inl AttributeError
                      | Some c \<Rightarrow> bind_res (write_tree c (q # ps) x) (\<lambda>c'. Inr (SInst (dict_set d p c'))))
      | _ \<Rightarrow> Inl AttributeError)"

definition write_all :: "sval \<Rightarrow> (string list \<times> sval) list \<Rightarrow> sval res" where
  "write_all v ws = for_res (\<lambda>v (p, x). write_tree v p x) v ws"

definition move_scheduler_tensors :: "device \<Rightarrow> sval \<Rightarrow> sval res" where
  "move_scheduler_tensors dev v =
     (case v of
        SNone \<Rightarrow> Inr SNone
      | SInst d \<Rightarrow> Inr (SInst (map (\<lambda>(n, x). (n, tensor_tree_to_device dev x)) d))
      | _ \<Rightarrow> Inl TypeError)"

text \<open>The end of \<open>assemble\<close>: the device, the tensors of the scheduler, and its timesteps.\<close>

definition rebind_state :: "device \<Rightarrow> sval \<Rightarrow> attrs res" where
  "rebind_state dev v =
     (case v of
        SInst d \<Rightarrow>
          let d1 = dict_set d ''device'' (SDevice dev)
          in bind_res (move_scheduler_tensors dev (getattr_none d1 ''scheduler'')) (\<lambda>s.
             let t = getattr_none d1 ''timesteps''
             in Inr (dict_set d1 ''scheduler''
                  (case s of SInst sd \<Rightarrow> if t = SNone then s else SInst (dict_set sd ''timesteps'' t) | _ \<Rightarrow> s)))
      | _ \<Rightarrow> Inl AttributeError)"

definition assemble_state :: "device option \<Rightarrow> attrs \<Rightarrow> (string list \<times> sval) list \<Rightarrow> tensor_field_layout list \<Rightarrow> attrs res" where
  "assemble_state device skeleton tensors fls =
     (case device of
        None \<Rightarrow> Inl ValueError
      | Some dev \<Rightarrow>
          bind_res (for_res (\<lambda>v f. case map_of tensors (fl_path f) of
                               None \<Rightarrow> Inl KeyError
                             | Some x \<Rightarrow> if x = SNone then Inl KeyError else write_tree v (fl_path f) x) (SInst skeleton) fls) (\<lambda>v1.
          bind_res (for_res (\<lambda>v (p, x). if p \<in> set (map fl_path fls) then Inr v else write_tree v p x) v1 tensors) (\<lambda>v2.
            rebind_state dev v2)))"

section \<open>Dictionaries and writes\<close>

lemma dict_set_id: "map_of d k = Some x \<Longrightarrow> dict_set d k x = d"
  by (induction d k x rule: dict_set.induct) (auto split: if_splits)

lemma dict_set_twice [simp]: "dict_set (dict_set d k x) k y = dict_set d k y"
  by (induction d k x rule: dict_set.induct) auto

lemma dict_set_at: "k \<notin> fst ` set pre \<Longrightarrow> dict_set (pre @ (k, x) # post) k y = pre @ (k, y) # post"
  by (induction pre) auto

lemma map_of_at: "k \<notin> fst ` set pre \<Longrightarrow> map_of (pre @ (k, x) # post) k = Some x"
  by (simp add: map_add_def split: option.splits) (metis map_of_eq_None_iff option.distinct(1))

lemma write_all_simps [simp]:
  "write_all v [] = Inr v" "write_all v ((p, x) # ws) = bind_res (write_tree v p x) (\<lambda>v'. write_all v' ws)"
  by (simp_all add: write_all_def)

lemma write_all_append: "write_all v (us @ ws) = bind_res (write_all v us) (\<lambda>v'. write_all v' ws)"
  by (induction us arbitrary: v) (auto simp: bind_res_def split: sum.splits)

text \<open>Writes below one attribute are writes into its value.\<close>

lemma write_all_below:
  "map_of d k = Some c \<Longrightarrow> \<forall>w \<in> set ws. fst w \<noteq> [] \<Longrightarrow>
   write_all (SInst d) (map (\<lambda>(p, x). (k # p, x)) ws) = bind_res (write_all c ws) (\<lambda>c'. Inr (SInst (dict_set d k c')))"
proof (induction ws arbitrary: d c)
  case (Cons w ws)
  obtain q ps x where w: "w = (q # ps, x)" using Cons.prems(2) by (cases w; cases "fst w") auto
  show ?case
  proof (cases "write_tree c (q # ps) x")
    case (Inr c')
    have "map_of (dict_set d k c') k = Some c'" by (simp add: map_of_dict_set)
    from Cons.IH [OF this] Cons.prems(2) show ?thesis
      by (simp add: w Inr Cons.prems(1))
  qed (simp add: w Cons.prems(1))
qed (simp add: dict_set_id)

section \<open>The scheduler\<close>

text \<open>The scan finds nothing: the skeleton has no tensor on a device as an attribute or in a list.\<close>

lemma skeleton_attr_clean [simp]: "\<not> leftover (skeleton_attr v)"
  by (auto simp: leftover_def skeleton_attr_def null_item_def list_ex_iff split: sval.splits)

lemma scheduler_skeleton_total: "scheduler_skeleton (SInst d) = Inr (SInst (map (\<lambda>(n, x). (n, skeleton_attr x)) d))"
proof -
  have "\<not> list_ex (\<lambda>(n, x). leftover x) (map (\<lambda>(n, x). (n, skeleton_attr x)) d)" by (auto simp: list_ex_iff)
  then show ?thesis by (simp add: scheduler_skeleton_def Let_def)
qed

definition arrived :: "device \<Rightarrow> string list \<times> tensor_obj \<Rightarrow> string list \<times> sval" where
  "arrived dev = (\<lambda>(p, t). (p, STensor (t\<lparr>to_device := dev\<rparr>)))"

lemma arrived_pair [simp]: "arrived dev (p, t) = (p, STensor (t\<lparr>to_device := dev\<rparr>))"
  by (simp add: arrived_def)

definition restore_item :: "device \<Rightarrow> sval \<Rightarrow> sval" where
  "restore_item dev x = (if cuda_tensor x then tensor_tree_to_device dev x else x)"

definition restore_attr :: "device \<Rightarrow> sval \<Rightarrow> sval" where
  "restore_attr dev v = (case v of STensor _ \<Rightarrow> restore_item dev v | SList xs \<Rightarrow> SList (map (restore_item dev) xs) | _ \<Rightarrow> v)"

lemma restore_then_move: "tensor_tree_to_device dev (restore_attr dev v) = tensor_tree_to_device dev v"
proof -
  have "tensor_tree_to_device dev (restore_item dev x) = tensor_tree_to_device dev x" for x
    by (cases x) (simp_all add: restore_item_def)
  then show ?thesis by (simp add: restore_attr_def split: sval.splits)
qed

lemma list_position_at: "list_position (pre @ x # post) (str_nat (length pre)) = Inr (length pre)"
  by (simp add: list_position_def)

lemma write_list:
  "write_all (SList (pre @ map null_item xs)) (map (arrived dev) (list_tensors (length pre) xs)) = Inr (SList (pre @ map (restore_item dev) xs))"
proof (induction xs arbitrary: pre)
  case (Cons x xs)
  have IH: "write_all (SList ((pre @ [y]) @ map null_item xs)) (map (arrived dev) (list_tensors (Suc (length pre)) xs))
      = Inr (SList ((pre @ [y]) @ map (restore_item dev) xs))" for y using Cons.IH [of "pre @ [y]"] by simp
  show ?case
  proof (cases "cuda_tensor x")
    case True
    then obtain t where t: "x = STensor t" "is_cuda t" by (cases x) auto
    have "null_item x = SNone" "restore_item dev x = STensor (t\<lparr>to_device := dev\<rparr>)"
      using True by (simp_all add: t null_item_def restore_item_def)
    then show ?thesis
      using IH [of "STensor (t\<lparr>to_device := dev\<rparr>)"] by (simp add: t(1)) (simp add: t list_position_at)
  next
    case False
    then have "list_tensors (length pre) (x # xs) = list_tensors (Suc (length pre)) xs" by (cases x) auto
    moreover have "null_item x = x" "restore_item dev x = x" using False by (simp_all add: null_item_def restore_item_def)
    ultimately show ?thesis using IH [of x] by simp
  qed
qed simp

lemma list_tensors_empty: "\<not> list_ex cuda_tensor xs \<Longrightarrow> list_tensors i xs = []"
proof (induction xs arbitrary: i)
  case (Cons x xs)
  then show ?case by (cases x) auto
qed simp

lemma list_tensors_paths: "w \<in> set (list_tensors i xs) \<Longrightarrow> fst w \<noteq> []"
  by (induction xs arbitrary: i) (auto split: sval.splits if_splits)

text \<open>Writing the tensors of one attribute back.\<close>

lemma write_attr:
  assumes "map_of d n = Some (skeleton_attr v)"
  shows "write_all (SInst d) (map (arrived dev) (map (\<lambda>(p, t). (n # p, t)) (attr_tensors v))) = Inr (SInst (dict_set d n (restore_attr dev v)))"
proof (cases v)
  case (STensor t)
  then show ?thesis using assms by (simp add: attr_tensors_def skeleton_attr_def restore_attr_def restore_item_def arrived_def dict_set_id)
next
  case (SList xs)
  have m: "map (arrived dev) (map (\<lambda>(p, t). (n # p, t)) (list_tensors 0 xs)) = map (\<lambda>(p, x). (n # p, x)) (map (arrived dev) (list_tensors 0 xs))"
    by (auto simp: arrived_def)
  show ?thesis
  proof (cases "list_ex cuda_tensor xs")
    case True
    then have "map_of d n = Some (SList ([] @ map null_item xs))" using assms by (simp add: SList skeleton_attr_def)
    moreover have "\<forall>w \<in> set (map (arrived dev) (list_tensors 0 xs)). fst w \<noteq> []"
      using list_tensors_paths by (fastforce simp: arrived_def)
    ultimately show ?thesis
      using write_list [of "[]" xs dev] write_all_below [of d n] unfolding SList attr_tensors_def sval.case m
      by (simp add: restore_attr_def del: map_map)
  next
    case False
    then have "map (restore_item dev) xs = xs" by (auto simp: restore_item_def list_ex_iff intro: map_idI)
    then show ?thesis using assms False by (simp add: SList attr_tensors_def list_tensors_empty skeleton_attr_def restore_attr_def dict_set_id)
  qed
qed (use assms in \<open>simp_all add: attr_tensors_def skeleton_attr_def restore_attr_def dict_set_id\<close>)

lemma write_scheduler:
  "distinct (map fst (pre @ d)) \<Longrightarrow>
   write_all (SInst (pre @ map (\<lambda>(n, x). (n, skeleton_attr x)) d)) (map (arrived dev) (scheduler_tensors d))
     = Inr (SInst (pre @ map (\<lambda>(n, x). (n, restore_attr dev x)) d))"
proof (induction d arbitrary: pre)
  case (Cons nv d)
  obtain n v where nv: "nv = (n, v)" by (cases nv)
  have n: "n \<notin> fst ` set pre" using Cons.prems by (auto simp: nv)
  have "write_all (SInst (pre @ map (\<lambda>(n, x). (n, skeleton_attr x)) (nv # d))) (map (arrived dev) (map (\<lambda>(p, t). (n # p, t)) (attr_tensors v)))
      = Inr (SInst (pre @ (n, restore_attr dev v) # map (\<lambda>(n, x). (n, skeleton_attr x)) d))"
    using write_attr [OF map_of_at [OF n]] by (simp add: nv dict_set_at [OF n])
  moreover have "write_all (SInst ((pre @ [(n, restore_attr dev v)]) @ map (\<lambda>(n, x). (n, skeleton_attr x)) d)) (map (arrived dev) (scheduler_tensors d))
      = Inr (SInst ((pre @ [(n, restore_attr dev v)]) @ map (\<lambda>(n, x). (n, restore_attr dev x)) d))"
    using Cons.prems by (intro Cons.IH) (simp add: nv)
  ultimately show ?case by (simp add: nv scheduler_tensors_def write_all_append)
qed (simp add: scheduler_tensors_def)


section \<open>The whole state\<close>

lemma map_of_entries: "map_of (map (\<lambda>(n, x). (n, G n x)) d) k = map_option (G k) (map_of d k)"
  by (induction d) auto

lemma dict_set_entries:
  "distinct (map fst d) \<Longrightarrow> k \<in> fst ` set d \<Longrightarrow>
   dict_set (map (\<lambda>(n, x). (n, G n x)) d) k y = map (\<lambda>(n, x). (n, if n = k then y else G n x)) d"
  by (subst dict_set_map) (auto simp: o_def case_prod_beta image_image)

lemma inject_tree:
  assumes "distinct (map fst d)" "\<forall>f \<in> set fls. \<exists>n. fl_path f = [n] \<and> n \<in> fst ` set d"
    and "\<forall>f \<in> set fls. map_of ts (fl_path f) = Some (g (fl_path f)) \<and> g (fl_path f) \<noteq> SNone"
  shows "for_res (\<lambda>v f. case map_of ts (fl_path f) of None \<Rightarrow> Inl KeyError
      | Some x \<Rightarrow> if x = SNone then Inl KeyError else write_tree v (fl_path f) x) (SInst d) fls
    = Inr (SInst (set_all (declared_names fls) (\<lambda>k. g [k]) d))"
  using assms
proof (induction fls arbitrary: d)
  case Nil
  then show ?case by (simp add: declared_names_def)
next
  case (Cons f fls)
  then obtain n where n: "fl_path f = [n]" "n \<in> fst ` set d" by auto
  let ?d = "set_all {n} (\<lambda>_. g [n]) d"
  have w: "write_tree (SInst d) (fl_path f) (g (fl_path f)) = Inr (SInst ?d)"
    by (simp add: n dict_set_all [OF Cons.prems(1) n(2)])
  have "set_all (declared_names fls) (\<lambda>k. g [k]) ?d = set_all (declared_names (f # fls)) (\<lambda>k. g [k]) d"
    by (auto simp: n(1) declared_names_def set_all_def)
  then show ?case using w Cons.IH [of ?d] Cons.prems by simp
qed

lemma skip_declared:
  "for_res (\<lambda>v (p, x). if p \<in> D then Inr v else write_tree v p x) v ts = write_all v (filter (\<lambda>w. fst w \<notin> D) ts)"
  by (induction ts arbitrary: v) (auto simp: bind_res_def split: sum.splits)

lemma scheduler_tensors_paths: "w \<in> set (scheduler_tensors d) \<Longrightarrow> fst w \<noteq> []"
  by (auto simp: scheduler_tensors_def)

lemma map_of_paths: "p \<in> set (map fl_path fls) \<Longrightarrow> map_of (map (\<lambda>f. (fl_path f, h (fl_path f))) fls @ B) p = Some (h p)"
  by (induction fls) auto

lemma rebind_entries:
  fixes st sd :: attrs and dev :: device and G :: "string \<Rightarrow> sval \<Rightarrow> sval"
  assumes "distinct (map fst st)" "{''device'', ''scheduler''} \<subseteq> fst ` set st" "map_of st ''scheduler'' = Some s" "map_of st ''timesteps'' = Some ts"
    and "G ''scheduler'' s = SInst sd"
  defines "m \<equiv> map (\<lambda>(n, x). (n, tensor_tree_to_device dev x)) sd"
  shows "rebind_state dev (SInst (map (\<lambda>(n, x). (n, G n x)) st)) =
    Inr (map (\<lambda>(n, x). (n, if n = ''scheduler'' then SInst (if G ''timesteps'' ts = SNone then m else dict_set m ''timesteps'' (G ''timesteps'' ts))
           else if n = ''device'' then SDevice dev else G n x)) st)"
proof -
  have k: "''device'' \<in> fst ` set st" "''scheduler'' \<in> fst ` set st" using assms(2) by simp_all
  have d1: "dict_set (map (\<lambda>(n, x). (n, G n x)) st) ''device'' (SDevice dev)
      = map (\<lambda>(n, x). (n, if n = ''device'' then SDevice dev else G n x)) st" by (rule dict_set_entries [OF assms(1) k(1)])
  let ?d = "map (\<lambda>(n, x). (n, if n = ''device'' then SDevice dev else G n x)) st"
  have s: "move_scheduler_tensors dev (getattr_none ?d ''scheduler'') = Inr (SInst m)" "getattr_none ?d ''timesteps'' = G ''timesteps'' ts"
    by (simp_all add: getattr_none_def map_of_entries assms(3-5) move_scheduler_tensors_def m_def)
  have "(case SInst m of SInst sd \<Rightarrow> if G ''timesteps'' ts = SNone then SInst m else SInst (dict_set sd ''timesteps'' (G ''timesteps'' ts)) | _ \<Rightarrow> SInst m)
      = SInst (if G ''timesteps'' ts = SNone then m else dict_set m ''timesteps'' (G ''timesteps'' ts))" by simp
  then show ?thesis
    unfolding rebind_state_def sval.case Let_def d1 s bind_res_simps by (simp only: dict_set_entries [OF assms(1) k(2)])
qed

text \<open>
  C32: A runtime state survives its migration with its scheduler: if every tensor among its fields is declared, packing succeeds and leaves no
  tensor among the fields and none on a device among the attributes of the scheduler or in their lists; and assembling it with
  the declared tensors and those that the extra fields name, as they arrive on the destination, gives the source state
  with every tensor, also those of the scheduler and of its lists, in its place and on the device of the destination, and the scheduler shares the
  timesteps of the state. The random generator is left behind; a request that had one arrives as \<open>strip_generator\<close> makes it, initialised again (which must
  not raise), see \<open>migration_initialises_request_again\<close> for what that changes.
\<close>

theorem scheduler_state_roundtrip:
  fixes st sd :: attrs and dev :: device
  defines "arrives \<equiv> \<lambda>x. tensor_tree_to_device dev x"
  assumes d: "distinct (map fst st)" "distinct (map fst sd)"
    and dv: "map_of st ''device'' = Some (SDevice src)" and sc: "map_of st ''scheduler'' = Some (SInst sd)"
    and rq: "map_of st ''request'' = Some r" "\<not> is_stensor r" "strip_generator r = Inr r'" and ts: "map_of st ''timesteps'' = Some ts"
    and fls: "\<forall>f \<in> set fls. \<exists>n t. fl_path f = [n] \<and> map_of st n = Some (STensor t)"
    and decl: "\<forall>n x. (n, x) \<in> set st \<and> is_stensor x \<longrightarrow> [n] \<in> set (map fl_path fls)"
  shows "\<exists>sk s. pack_state st fls = Inr sk \<and> \<not> (\<exists>n x. (n, x) \<in> set sk \<and> is_stensor x)
     \<and> map_of sk ''scheduler'' = Some (SInst s) \<and> \<not> (\<exists>n x. (n, x) \<in> set s \<and> leftover x)
     \<and> assemble_state (Some dev) sk
          (map (\<lambda>f. (fl_path f, arrives (the (map_of st (hd (fl_path f)))))) fls
           @ map (\<lambda>(p, t). (''scheduler'' # p, arrives (STensor t))) (scheduler_tensors sd)) fls
        = Inr (map (\<lambda>(n, x). (n,
            if n = ''scheduler''
            then SInst (let m = map (\<lambda>(k, v). (k, arrives v)) sd in if ts = SNone then m else dict_set m ''timesteps'' (if is_stensor ts then arrives ts else ts))
            else if n = ''device'' then SDevice dev
            else if is_stensor x then arrives x
            else if n = ''request'' then r' else x)) st)"
proof -
  let ?N = "declared_names fls" and ?D = "set (map fl_path fls)"
  let ?sks = "map (\<lambda>(n, x). (n, skeleton_attr x)) sd"
  have uniq: "map_of st n = Some x" if "(n, x) \<in> set st" for n x using d(1) that by simp
  have N: "n \<in> ?N \<longleftrightarrow> is_stensor x" if "map_of st n = Some x" for n x
    using decl map_of_SomeD [OF that] fls that by (force simp: declared_names_def is_stensor_def)
  have names: "set (map (hd \<circ> fl_path) fls) = ?N" using fls by (force simp: declared_names_def)
  have key: "n \<in> fst ` set st" if "map_of st n = Some x" for n x using map_of_SomeD [OF that] by force
  have "?N \<subseteq> fst ` set st"
  proof
    fix n assume "n \<in> ?N"
    then obtain f where f: "f \<in> set fls" "fl_path f = [n]" by (auto simp: declared_names_def)
    then obtain t where "map_of st n = Some (STensor t)" using bspec [OF fls f(1)] by auto
    then show "n \<in> fst ` set st" by (rule key)
  qed
  then have keys: "''device'' \<in> fst ` set st" "''scheduler'' \<in> fst ` set st" "''request'' \<in> fst ` set st" "?N \<subseteq> fst ` set st"
    using key [OF dv] key [OF sc] key [OF rq(1)] by simp_all
  have notN: "''device'' \<notin> ?N" "''scheduler'' \<notin> ?N" "''request'' \<notin> ?N"
    using N [OF dv] N [OF sc] N [OF rq(1)] rq(2) by (simp_all add: is_stensor_def)
  define F where "F n x = (if n = ''request'' then r' else if n = ''device'' then SNone else if n = ''scheduler'' then SInst ?sks
      else if n \<in> ?N then SNone else x)" for n x
  let ?sk = "map (\<lambda>(n, x). (n, F n x)) st"
  have pack: "pack_state st fls = Inr ?sk"
  proof -
    have no: "\<not> (\<exists>(n, x) \<in> set st. is_stensor x \<and> [n] \<notin> ?D)" using decl by blast
    have sub: "set (map (hd \<circ> fl_path) fls @ [''device'', ''scheduler'']) \<subseteq> fst ` set st" using keys names by auto
    have s: "scheduler_skeleton (getattr_none st ''scheduler'') = Inr (SInst ?sks)" by (simp add: getattr_none_def sc scheduler_skeleton_total)
    have eq: "map (\<lambda>(n, x). (n, if n = ''request'' then r' else if n = ''device'' then SNone
        else if n = ''scheduler'' then SInst ?sks else if n \<in> ?N then SNone else x)) st = ?sk" by (simp add: F_def)
    let ?st1 = "map (\<lambda>(n, x). (n, if n = ''device'' then SNone else if n = ''scheduler'' then SInst ?sks
        else if n \<in> set (map (hd \<circ> fl_path) fls) then SNone else x)) st"
    have "map_of ?st1 ''request'' = Some r" unfolding map_of_entries rq(1) names using notN by simp
    moreover have "dict_set ?st1 ''request'' r' = ?sk"
      unfolding dict_set_entries [OF d(1) keys(3)] names by (simp only: eq)
    ultimately show ?thesis
      unfolding pack_state_def if_not_P [OF no] s bind_res_simps Let_def using sub rq(3) by simp
  qed
  define g where "g p = arrives (the (map_of st (hd p)))" for p
  let ?E = "map (\<lambda>(p, t). (''scheduler'' # p, arrives (STensor t))) (scheduler_tensors sd)"
  let ?T = "map (\<lambda>f. (fl_path f, g (fl_path f))) fls @ ?E"
  have inj: "for_res (\<lambda>v f. case map_of ?T (fl_path f) of None \<Rightarrow> Inl KeyError
      | Some x \<Rightarrow> if x = SNone then Inl KeyError else write_tree v (fl_path f) x) (SInst ?sk) fls
    = Inr (SInst (set_all ?N (\<lambda>k. g [k]) ?sk))"
  proof (rule inject_tree)
    show "distinct (map fst ?sk)" using d(1) by (simp add: o_def case_prod_beta)
    show "\<forall>f \<in> set fls. \<exists>n. fl_path f = [n] \<and> n \<in> fst ` set ?sk" using fls by (force dest: map_of_SomeD simp: image_image case_prod_beta)
    show "\<forall>f \<in> set fls. map_of ?T (fl_path f) = Some (g (fl_path f)) \<and> g (fl_path f) \<noteq> SNone"
    proof
      fix f assume f: "f \<in> set fls"
      then have "map_of ?T (fl_path f) = Some (g (fl_path f))" by (intro map_of_paths) simp
      moreover obtain n t where "fl_path f = [n]" "map_of st n = Some (STensor t)" using fls f by blast
      ultimately show "map_of ?T (fl_path f) = Some (g (fl_path f)) \<and> g (fl_path f) \<noteq> SNone" by (simp add: g_def arrives_def)
    qed
  qed
  define G where "G n x = (if n \<in> ?N then arrives x else F n x)" for n x
  have all: "set_all ?N (\<lambda>k. g [k]) ?sk = map (\<lambda>(n, x). (n, G n x)) st"
    by (auto simp: set_all_def g_def G_def uniq)
  have E: "filter (\<lambda>w. fst w \<notin> ?D) ?T = map (\<lambda>(p, x). (''scheduler'' # p, x)) (map (arrived dev) (scheduler_tensors sd))"
  proof -
    have "filter (\<lambda>w. fst w \<notin> ?D) ?E = ?E"
      using fls scheduler_tensors_paths by (intro filter_True) force
    moreover have "filter (\<lambda>w. fst w \<notin> ?D) (map (\<lambda>f. (fl_path f, g (fl_path f))) fls) = []" by (auto simp: filter_empty_conv)
    moreover have "?E = map (\<lambda>(p, x). (''scheduler'' # p, x)) (map (arrived dev) (scheduler_tensors sd))" by (auto simp: arrived_def arrives_def)
    ultimately show ?thesis by (simp only: filter_append append_Nil)
  qed
  let ?rs = "map (\<lambda>(n, x). (n, restore_attr dev x)) sd"
  define G' where "G' n x = (if n = ''scheduler'' then SInst ?rs else G n x)" for n x
  have w: "write_all (SInst (map (\<lambda>(n, x). (n, G n x)) st)) (filter (\<lambda>w. fst w \<notin> ?D) ?T) = Inr (SInst (map (\<lambda>(n, x). (n, G' n x)) st))"
  proof -
    have c: "map_of (map (\<lambda>(n, x). (n, G n x)) st) ''scheduler'' = Some (SInst ?sks)"
      using notN by (simp add: map_of_entries sc G_def F_def)
    have p: "\<forall>w \<in> set (map (arrived dev) (scheduler_tensors sd)). fst w \<noteq> []"
      using scheduler_tensors_paths by (fastforce simp: arrived_def)
    have "write_all (SInst ([] @ ?sks)) (map (arrived dev) (scheduler_tensors sd)) = Inr (SInst ([] @ ?rs))"
      by (rule write_scheduler) (use d(2) in simp)
    then show ?thesis
      unfolding E write_all_below [OF c p] append_Nil by (simp only: bind_res_simps dict_set_entries [OF d(1) keys(2)] G'_def)
  qed
  have tsN: "''timesteps'' \<in> ?N \<longleftrightarrow> is_stensor ts" by (rule N [OF ts])
  have "rebind_state dev (SInst (map (\<lambda>(n, x). (n, G' n x)) st)) = Inr (map (\<lambda>(n, x). (n, if n = ''scheduler''
      then SInst (if G' ''timesteps'' ts = SNone then map (\<lambda>(n, x). (n, tensor_tree_to_device dev x)) ?rs
                  else dict_set (map (\<lambda>(n, x). (n, tensor_tree_to_device dev x)) ?rs) ''timesteps'' (G' ''timesteps'' ts))
      else if n = ''device'' then SDevice dev else G' n x)) st)"
    by (rule rebind_entries [OF d(1) _ sc ts]) (use keys in \<open>simp_all add: G'_def\<close>)
  moreover have "assemble_state (Some dev) ?sk ?T fls = rebind_state dev (SInst (map (\<lambda>(n, x). (n, G' n x)) st))"
    unfolding assemble_state_def option.case inj bind_res_simps all skip_declared w ..
  moreover have rs: "map (\<lambda>(n, x). (n, tensor_tree_to_device dev x)) ?rs = map (\<lambda>(k, v). (k, arrives v)) sd"
    by (simp add: o_def case_prod_beta restore_then_move arrives_def)
  have gts: "G' ''timesteps'' ts = (if is_stensor ts then arrives ts else ts)" by (simp add: G'_def G_def F_def tsN)
  have none: "is_stensor x \<Longrightarrow> arrives x \<noteq> SNone \<and> x \<noteq> SNone" for x by (cases x) (simp_all add: is_stensor_def arrives_def)
  have final: "(if G' ''timesteps'' ts = SNone then m else dict_set m ''timesteps'' (G' ''timesteps'' ts))
      = (if ts = SNone then m else dict_set m ''timesteps'' (if is_stensor ts then arrives ts else ts))" for m
    unfolding gts using none [of ts] by (cases "is_stensor ts") simp_all
  have entry: "G' n x = (if is_stensor x then arrives x else if n = ''request'' then r' else x)"
    if "(n, x) \<in> set st" "n \<noteq> ''scheduler''" "n \<noteq> ''device''" for n x
    using N [OF uniq [OF that(1)]] that uniq [OF that(1)] rq by (auto simp: G'_def G_def F_def)
  ultimately have asm: "assemble_state (Some dev) ?sk ?T fls = Inr (map (\<lambda>(n, x). (n,
            if n = ''scheduler''
            then SInst (let m = map (\<lambda>(k, v). (k, arrives v)) sd in if ts = SNone then m else dict_set m ''timesteps'' (if is_stensor ts then arrives ts else ts))
            else if n = ''device'' then SDevice dev
            else if is_stensor x then arrives x
            else if n = ''request'' then r' else x)) st)"
    unfolding rs final Let_def by (simp only:) (auto simp: entry)
  have "\<not> is_stensor r'"
    using rq(2,3) by (auto simp: strip_generator_def is_stensor_def bind_res_eq_Inr split: sval.splits if_splits)
  then have "\<not> (\<exists>n x. (n, x) \<in> set ?sk \<and> is_stensor x)"
    using N uniq by (auto simp: F_def is_stensor_def split: if_splits)
  moreover have "map_of ?sk ''scheduler'' = Some (SInst ?sks)" by (simp add: map_of_entries sc F_def)
  moreover have "\<not> (\<exists>n x. (n, x) \<in> set ?sks \<and> leftover x)" by auto
  ultimately show ?thesis using pack asm [unfolded g_def] by blast
qed


section \<open>A concrete state\<close>

definition ex_scheduler :: "device \<Rightarrow> attrs" where
  "ex_scheduler dev = [(''order'', SAtom (PyInt 2)), (''last_sample'', STensor (ex_tensor 1 dev)),
     (''model_outputs'', SList [SNone, STensor (ex_tensor 2 dev)])]"

text \<open>A request without a guidance scale and with a seeded generator, and what becomes of it.\<close>

definition ex_diffusion_request :: "sval \<Rightarrow> rat \<Rightarrow> bool \<Rightarrow> sval \<Rightarrow> attrs" where
  "ex_diffusion_request gen scale given scale_2 =
     [(''prompts'', SList [SAtom (PyStr ''a cat'')]),
      (''sampling_params'', SInst [(''do_classifier_free_guidance'', SAtom (PyBool False)), (''generator'', gen),
         (''guidance_scale'', SAtom (PyFloat scale)), (''guidance_scale_provided'', SAtom (PyBool given)), (''guidance_scale_2'', scale_2)])]"

text \<open>
  The first initialisation records that no scale was given and sets it to one; the second one, in the
  migration, takes that one for a scale that was given and copies it to the second scale.
\<close>

lemma migration_initialises_request_again:
  "request_post_init (ex_diffusion_request (SAtom (PyInt 7)) 0 False SNone) = Inr (ex_diffusion_request (SAtom (PyInt 7)) 1 False SNone)"
  "strip_generator (SInst (ex_diffusion_request (SAtom (PyInt 7)) 1 False SNone))
     = Inr (SInst (ex_diffusion_request SNone 1 True (SAtom (PyFloat 1))))"
  by code_simp+

definition ex_state :: "device \<Rightarrow> attrs \<Rightarrow> attrs" where
  "ex_state dev rd = [(''request'', SInst rd), (''device'', SDevice dev),
     (''latents'', STensor (ex_tensor 3 dev)), (''timesteps'', SNone), (''scheduler'', SInst (ex_scheduler dev))]"

theorem scheduler_state_roundtrip_witness:
  "\<exists>sk. pack_state (ex_state (Cuda 0) (ex_diffusion_request (SAtom (PyInt 7)) 1 False SNone)) [ex_field [''latents'']] = Inr sk
    \<and> assemble_state (Some (Cuda 1)) sk
        [([''latents''], STensor (ex_tensor 3 (Cuda 1))), ([''scheduler'', ''last_sample''], STensor (ex_tensor 1 (Cuda 1))),
         ([''scheduler'', ''model_outputs'', ''1''], STensor (ex_tensor 2 (Cuda 1)))] [ex_field [''latents'']]
      = Inr (ex_state (Cuda 1) (ex_diffusion_request SNone 1 True (SAtom (PyFloat 1))))"
proof -
  let ?rq = "ex_diffusion_request (SAtom (PyInt 7)) 1 False SNone" and ?rq' = "ex_diffusion_request SNone 1 True (SAtom (PyFloat 1))"
  let ?st = "ex_state (Cuda 0) ?rq" and ?sd = "ex_scheduler (Cuda 0)" and ?fls = "[ex_field [''latents'']]"
  have d: "distinct (map fst ?st)" "distinct (map fst ?sd)" by (simp_all add: ex_state_def ex_scheduler_def)
  have m: "map_of ?st ''device'' = Some (SDevice (Cuda 0))" "map_of ?st ''scheduler'' = Some (SInst ?sd)"
    "map_of ?st ''request'' = Some (SInst ?rq)" "map_of ?st ''timesteps'' = Some SNone" by (simp_all add: ex_state_def)
  have r: "\<not> is_stensor (SInst ?rq)" by (simp add: is_stensor_def)
  have f: "\<forall>f \<in> set ?fls. \<exists>n t. fl_path f = [n] \<and> map_of ?st n = Some (STensor t)" by (simp add: ex_field_def ex_state_def)
  have decl: "\<forall>n x. (n, x) \<in> set ?st \<and> is_stensor x \<longrightarrow> [n] \<in> set (map fl_path ?fls)"
    by (auto simp: ex_state_def ex_field_def is_stensor_def)
  have t: "map (\<lambda>f. (fl_path f, tensor_tree_to_device (Cuda 1) (the (map_of ?st (hd (fl_path f)))))) ?fls
      @ map (\<lambda>(p, t). (''scheduler'' # p, tensor_tree_to_device (Cuda 1) (STensor t))) (scheduler_tensors ?sd)
    = [([''latents''], STensor (ex_tensor 3 (Cuda 1))), ([''scheduler'', ''last_sample''], STensor (ex_tensor 1 (Cuda 1))),
         ([''scheduler'', ''model_outputs'', ''1''], STensor (ex_tensor 2 (Cuda 1)))]" by code_simp
  have e: "map (\<lambda>(n, x). (n,
            if n = ''scheduler''
            then SInst (let m = map (\<lambda>(k, v). (k, tensor_tree_to_device (Cuda 1) v)) ?sd
              in if SNone = SNone then m else dict_set m ''timesteps'' (if is_stensor SNone then tensor_tree_to_device (Cuda 1) SNone else SNone))
            else if n = ''device'' then SDevice (Cuda 1)
            else if is_stensor x then tensor_tree_to_device (Cuda 1) x
            else if n = ''request'' then SInst ?rq' else x)) ?st = ex_state (Cuda 1) ?rq'" by code_simp
  from scheduler_state_roundtrip [OF d m(1,2,3) r migration_initialises_request_again(2) m(4) f decl, of "Cuda 1", unfolded t e]
  show ?thesis by blast
qed

text \<open>
  A tensor that lies deeper, in a dictionary or a tuple of an attribute, is neither taken out nor noticed by the
  scan: it stays in the skeleton.
\<close>

lemma nested_device_tensor_stays:
  "scheduler_skeleton (SInst [(''cache'', SDict [(''k'', STensor (ex_tensor 4 (Cuda 0)))])])
     = Inr (SInst [(''cache'', SDict [(''k'', STensor (ex_tensor 4 (Cuda 0)))])])"
  by code_simp

end
