(* ===== verification/WanAdapter.thy ===== *)
theory WanAdapter
  imports Config DitPlan DataPlane
begin

text \<open>
  The adapter of the Wan video models (\<open>runtime_v2/adapters/wan.py\<close>): the request, the latent geometry,
  the task compiler, the layouts of the artifacts, and what the executors make of a request: sizes,
  shapes of tensors and the use of guidance per step. The numbers in the tensors are outside. The pipeline is a record of
  the attributes that the adapter reads; the diffusion scheduler contributes its timesteps. Scales and patch
  sizes are positive.
\<close>

section \<open>Requests\<close>

text \<open>
  The sampling parameters that the adapters read. Latents of the request are given by their shape; \<open>sp_generators\<close>
  is the length of \<open>generator\<close> if that is a list.
\<close>

record sampling_params =
  sp_num_inference_steps :: "int option"
  sp_max_sequence_length :: "int option"
  sp_height :: "int option"
  sp_width :: "int option"
  sp_num_frames :: "int option"
  sp_num_outputs_per_prompt :: "int option"
  sp_guidance_scale :: rat
  sp_guidance_scale_provided :: bool
  sp_guidance_scale_2 :: "rat option"
  sp_true_cfg_scale :: "rat option"
  sp_boundary_ratio :: "rat option"
  sp_output_type :: "string option"
  sp_sigmas :: "rat list option"
  sp_latents :: "int list option"
  sp_generators :: "int option"

datatype prompt = TextPrompt string | DictPrompt pydict

record diffusion_request =
  dq_prompts :: "prompt list"
  dq_sampling_params :: sampling_params
  dq_request_ids :: "string list"

record runtime_request =
  rq_diffusion_request :: diffusion_request
  rq_request_id :: string
  rq_denoise_chunk_size :: int
  rq_priority :: int
  rq_group_id :: "string option"

text \<open>\<open>x or d\<close> for an optional number, and for an optional string.\<close>

definition or_int :: "int option \<Rightarrow> int \<Rightarrow> int" where
  "or_int x d = (case x of None \<Rightarrow> d | Some n \<Rightarrow> if n = 0 then d else n)"

definition or_str :: "string option \<Rightarrow> string \<Rightarrow> string" where
  "or_str x d = (case x of None \<Rightarrow> d | Some s \<Rightarrow> if s = [] then d else s)"

text \<open>\<open>__post_init__\<close> of the runtime request; \<open>uuid\<close> is a fresh identifier.\<close>

definition mk_runtime_request :: "string \<Rightarrow> runtime_request \<Rightarrow> runtime_request res" where
  "mk_runtime_request uuid r =
     (if rq_denoise_chunk_size r < 1 then Inl ValueError
      else
        let ids = (if dq_request_ids (rq_diffusion_request r) = [] then [uuid] else dq_request_ids (rq_diffusion_request r));
            rid = (if rq_request_id r = [] then hd ids else rq_request_id r)
        in Inr (r\<lparr>rq_request_id := rid,
                  rq_diffusion_request := (rq_diffusion_request r)\<lparr>dq_request_ids := ids[0 := rid]\<rparr>\<rparr>))"

definition extract_prompt :: "(pyval \<Rightarrow> string) \<Rightarrow> diffusion_request \<Rightarrow> (string \<times> pyval) res" where
  "extract_prompt rp req =
     (case dq_prompts req of
        [TextPrompt s] \<Rightarrow> Inr (s, PyNone)
      | [DictPrompt d] \<Rightarrow> Inr (to_str rp (get_dflt d ''prompt'' (PyStr [])), get_dflt d ''negative_prompt'' PyNone)
      | _ \<Rightarrow> Inl ValueError)"

text \<open>The entry \<open>image\<close> of the multi-modal data of the first prompt.\<close>

definition raw_image :: "diffusion_request \<Rightarrow> pyval res" where
  "raw_image req =
     (case dq_prompts req of
        [] \<Rightarrow> Inl IndexError
      | TextPrompt _ # _ \<Rightarrow> Inr PyNone
      | DictPrompt d # _ \<Rightarrow>
          (case get_dflt d ''multi_modal_data'' (PyDict []) of
             PyDict m \<Rightarrow> Inr (get_dflt m ''image'' PyNone)
           | _ \<Rightarrow> Inl AttributeError))"

text \<open>The executor accepts missing multi-modal data as well.\<close>

definition executor_image :: "diffusion_request \<Rightarrow> pyval res" where
  "executor_image req =
     (case dq_prompts req of
        [] \<Rightarrow> Inl IndexError
      | TextPrompt _ # _ \<Rightarrow> Inr PyNone
      | DictPrompt d # _ \<Rightarrow>
          (case get_dflt d ''multi_modal_data'' (PyDict []) of
             PyDict m \<Rightarrow> Inr (get_dflt m ''image'' PyNone)
           | PyNone \<Rightarrow> Inr PyNone
           | _ \<Rightarrow> Inl AttributeError))"

definition image_given :: "pyval \<Rightarrow> bool" where
  "image_given raw = (case raw of PyList l \<Rightarrow> l \<noteq> [] \<and> hd l \<noteq> PyNone | _ \<Rightarrow> raw \<noteq> PyNone)"

section \<open>Latent geometry\<close>

record latent_geometry =
  lg_vae_scale_spatial :: int
  lg_vae_scale_temporal :: int
  lg_patch_t :: int
  lg_patch_h :: int
  lg_patch_w :: int

definition geometry_from_configs :: "int \<Rightarrow> int \<Rightarrow> int list \<Rightarrow> latent_geometry res" where
  "geometry_from_configs spatial temporal patch =
     (case patch of
        t # h # w # _ \<Rightarrow> Inr \<lparr>lg_vae_scale_spatial = spatial, lg_vae_scale_temporal = temporal,
                              lg_patch_t = t, lg_patch_h = h, lg_patch_w = w\<rparr>
      | _ \<Rightarrow> Inl IndexError)"

definition default_geometry :: latent_geometry where
  "default_geometry = \<lparr>lg_vae_scale_spatial = 16, lg_vae_scale_temporal = 4, lg_patch_t = 1, lg_patch_h = 2, lg_patch_w = 2\<rparr>"

text \<open>\<open>load\<close> reads the configuration files of a model; every exception leads to the default.\<close>

definition resolve_latent_geometry :: "(string \<Rightarrow> (int \<times> int \<times> int list) res) \<Rightarrow> string option \<Rightarrow> latent_geometry" where
  "resolve_latent_geometry load model =
     (if blank model then default_geometry
      else case bind_res (load (the model)) (\<lambda>(s, t, p). geometry_from_configs s t p) of
        Inl _ \<Rightarrow> default_geometry
      | Inr g \<Rightarrow> g)"

definition dit_latent_seq_len :: "latent_geometry \<Rightarrow> int \<Rightarrow> int \<Rightarrow> int \<Rightarrow> int" where
  "dit_latent_seq_len g height width num_frames =
     (let h_lat = max 1 (height div lg_vae_scale_spatial g);
          w_lat = max 1 (width div lg_vae_scale_spatial g);
          f_lat = max 1 ((num_frames + lg_vae_scale_temporal g - 1) div lg_vae_scale_temporal g)
      in max 1 ((f_lat div lg_patch_t g) * (h_lat div lg_patch_h g) * (w_lat div lg_patch_w g)))"

section \<open>Task compiler\<close>

record wan_compiler =
  wc_default_denoise_chunk_size :: int
  wc_latent_geometry :: latent_geometry
  wc_default_guidance_scale :: rat
  wc_scheduler_timesteps :: "int \<Rightarrow> rat list option"
  wc_boundary_ratio :: "rat option"
  wc_num_train_timesteps :: int

definition guidance_low :: "rat \<Rightarrow> sampling_params \<Rightarrow> rat" where
  "guidance_low dflt sp = (if sp_guidance_scale_provided sp then sp_guidance_scale sp else dflt)"

definition guidance_high :: "rat \<Rightarrow> sampling_params \<Rightarrow> rat" where
  "guidance_high dflt sp = (case sp_guidance_scale_2 sp of Some g \<Rightarrow> g | None \<Rightarrow> guidance_low dflt sp)"

text \<open>The boundary between the two experts: from the pipeline, else from the request, else 0.875.\<close>

definition boundary_ratio :: "rat option \<Rightarrow> sampling_params \<Rightarrow> rat" where
  "boundary_ratio own sp =
     (case own of Some r \<Rightarrow> r | None \<Rightarrow> (case sp_boundary_ratio sp of Some r \<Rightarrow> r | None \<Rightarrow> 7 / 8))"

definition dit_step_do_true_cfg :: "wan_compiler \<Rightarrow> sampling_params \<Rightarrow> int \<Rightarrow> rat \<Rightarrow> rat \<Rightarrow> bool list" where
  "dit_step_do_true_cfg c sp num_steps low high =
     (if low > 1 \<and> high > 1 then replicate (nat num_steps) True
      else if low \<le> 1 \<and> high \<le> 1 then replicate (nat num_steps) False
      else
        let boundary_timestep = boundary_ratio (wc_boundary_ratio c) sp * of_int (wc_num_train_timesteps c)
        in case wc_scheduler_timesteps c num_steps of
             None \<Rightarrow> replicate (nat num_steps) True
           | Some ts \<Rightarrow> map (\<lambda>t. (if t < boundary_timestep then high else low) > 1) ts)"

definition estimate_dit_latent_seq_len :: "wan_compiler \<Rightarrow> sampling_params \<Rightarrow> int" where
  "estimate_dit_latent_seq_len c sp =
     dit_latent_seq_len (wc_latent_geometry c) (or_int (sp_height sp) 480) (or_int (sp_width sp) 832) (or_int (sp_num_frames sp) 81)"

definition wan_metadata :: "wan_compiler \<Rightarrow> sampling_params \<Rightarrow> bool \<Rightarrow> pydict" where
  "wan_metadata c sp has_image =
     [(''height'', PyInt (max 1 (or_int (sp_height sp) 480))),
      (''width'', PyInt (max 1 (or_int (sp_width sp) 832))),
      (''num_frames'', PyInt (max 1 (or_int (sp_num_frames sp) 81))),
      (''num_outputs_per_prompt'', PyInt (or_int (sp_num_outputs_per_prompt sp) 1)),
      (''do_true_cfg'', PyBool (guidance_low (wc_default_guidance_scale c) sp > 1 \<or> guidance_high (wc_default_guidance_scale c) sp > 1)),
      (''has_image'', PyBool has_image),
      (''output_type'', PyStr (or_str (sp_output_type sp) ''np''))]"

text \<open>The arguments of \<open>build_chunked_dit_plan\<close>; \<open>obj\<close> is the request object, which the plan carries.\<close>

definition wan_plan_args :: "wan_compiler \<Rightarrow> pyval \<Rightarrow> runtime_request \<Rightarrow> bool \<Rightarrow> plan_args" where
  "wan_plan_args c obj r has_image =
     (let sp = dq_sampling_params (rq_diffusion_request r); num_steps = or_int (sp_num_inference_steps sp) 40;
          low = guidance_low (wc_default_guidance_scale c) sp; high = guidance_high (wc_default_guidance_scale c) sp
      in \<lparr>pa_request_id = rq_request_id r, pa_request_value = obj, pa_request_type = ''wan_runtime_v2'',
          pa_num_steps = num_steps,
          pa_chunk_size = (if rq_denoise_chunk_size r = 0 then wc_default_denoise_chunk_size c else rq_denoise_chunk_size r),
          pa_priority = rq_priority r, pa_group_id = rq_group_id r,
          pa_text_seq_len = or_int (sp_max_sequence_length sp) 512, pa_latent_seq_len = estimate_dit_latent_seq_len c sp,
          pa_state_codec_id = ''wan.runtime_state.v1'', pa_decoded_codec_id = Some ''wan.decoded.v1'',
          pa_metadata = Some (wan_metadata c sp has_image), pa_stage_group_ids = None, pa_dit_step_schedule = None,
          pa_do_true_cfg = Some (dit_step_do_true_cfg c sp num_steps low high)\<rparr>)"

definition wan_compile_request :: "(pyval \<Rightarrow> string) \<Rightarrow> wan_compiler \<Rightarrow> pyval \<Rightarrow> runtime_request \<Rightarrow> plan res" where
  "wan_compile_request rp c obj r =
     (let req = rq_diffusion_request r; sp = dq_sampling_params req
      in if or_int (sp_num_inference_steps sp) 40 < 1 then Inl ValueError
         else if or_int (sp_max_sequence_length sp) 512 < 1 then Inl ValueError
         else
           bind_res (extract_prompt rp req) (\<lambda>_.
           bind_res (raw_image req) (\<lambda>raw.
             build_chunked_dit_plan (wan_plan_args c obj r (image_given raw)))))"

section \<open>Layouts of the artifacts\<close>

text \<open>
  What the adapter reads of the pipeline. \<open>wp_text_hidden\<close> lists the values that the attributes of the
  text encoder and of the transformer configuration may give for the size of the embeddings, in the order of
  the search; \<open>wp_transformer\<close> and \<open>wp_transformer_2\<close> say which transformers are loaded.
\<close>

record wan_pipeline =
  wp_vae_scale_spatial :: int
  wp_vae_scale_temporal :: int
  wp_patch_h :: int
  wp_in_channels :: int
  wp_out_channels :: int
  wp_z_dim :: int
  wp_expand_timesteps :: bool
  wp_text_hidden :: "int option list"
  wp_transformer :: bool
  wp_transformer_2 :: bool
  wp_transformer_dtype :: "string option"
  wp_transformer_2_dtype :: "string option"
  wp_text_encoder_dtype :: "string option"
  wp_vae_dtype :: string
  wp_boundary_ratio :: "rat option"
  wp_num_train_timesteps :: int
  wp_default_guidance_scale :: rat

definition metadata_int :: "pydict \<Rightarrow> string \<Rightarrow> int \<Rightarrow> int res" where
  "metadata_int md key dflt =
     bind_res (to_int (get_dflt md key (PyInt dflt))) (\<lambda>n. if n < 1 then Inl ValueError else Inr n)"

definition transformer_dtype :: "wan_pipeline \<Rightarrow> string" where
  "transformer_dtype p =
     (case wp_transformer_dtype p of Some d \<Rightarrow> d
      | None \<Rightarrow> (case wp_transformer_2_dtype p of Some d \<Rightarrow> d
          | None \<Rightarrow> (case wp_text_encoder_dtype p of Some d \<Rightarrow> d | None \<Rightarrow> ''torch.float32'')))"

definition text_hidden_size :: "wan_pipeline \<Rightarrow> int res" where
  "text_hidden_size p = (case List.find (\<lambda>x. x \<noteq> None) (wp_text_hidden p) of Some (Some n) \<Rightarrow> Inr n | _ \<Rightarrow> Inl ValueError)"

text \<open>\<open>max(m, n // m * m)\<close>, and the rounding of the frames to one more than a multiple of the temporal scale.\<close>

definition round_size :: "int \<Rightarrow> int \<Rightarrow> int" where
  "round_size m n = max m (n div m * m)"

definition round_frames :: "int \<Rightarrow> int \<Rightarrow> int" where
  "round_frames t n = max (if n mod t \<noteq> 1 then n div t * t + 1 else n) 1"

definition normalized_size :: "wan_pipeline \<Rightarrow> pydict \<Rightarrow> (int \<times> int \<times> int) res" where
  "normalized_size p md =
     bind_res (metadata_int md ''height'' 480) (\<lambda>height.
     bind_res (metadata_int md ''width'' 832) (\<lambda>width.
     bind_res (metadata_int md ''num_frames'' 81) (\<lambda>num_frames.
       let m = wp_vae_scale_spatial p * wp_patch_h p
       in Inr (round_size m height, round_size m width, round_frames (wp_vae_scale_temporal p) num_frames))))"

definition latent_shape :: "wan_pipeline \<Rightarrow> pydict \<Rightarrow> int list res" where
  "latent_shape p md =
     bind_res (metadata_int md ''num_outputs_per_prompt'' 1) (\<lambda>batch.
     bind_res (normalized_size p md) (\<lambda>(height, width, num_frames).
       let channels = (if to_bool (get_dflt md ''has_image'' (PyBool False)) \<and> wp_expand_timesteps p
                       then wp_out_channels p else wp_in_channels p)
       in Inr [batch, channels, (num_frames - 1) div wp_vae_scale_temporal p + 1,
               height div wp_vae_scale_spatial p, width div wp_vae_scale_spatial p]))"

definition starts_with :: "string \<Rightarrow> string \<Rightarrow> bool" where
  "starts_with pre s \<longleftrightarrow> take (length pre) s = pre"

definition has_timesteps :: "string \<Rightarrow> bool" where
  "has_timesteps aid \<longleftrightarrow> aid = ''state_timestep'' \<or> starts_with ''state_denoised'' aid"

definition has_latents :: "string \<Rightarrow> bool" where
  "has_latents aid \<longleftrightarrow> aid = ''state_latent'' \<or> has_timesteps aid"

text \<open>The fields of a state, as names with shapes and types, before they become layouts.\<close>

type_synonym field_decl = "string \<times> int list \<times> string"

definition latent_decls :: "wan_pipeline \<Rightarrow> pydict \<Rightarrow> field_decl list res" where
  "latent_decls p md =
     bind_res (latent_shape p md) (\<lambda>s.
       Inr ((''latents'', s, ''torch.float32'')
         # (if to_bool (get_dflt md ''has_image'' (PyBool False)) \<and> wp_expand_timesteps p
            then [(''latent_condition'', s, ''torch.float32''), (''first_frame_mask'', [1, 1] @ drop 2 s, ''torch.float32'')]
            else [])))"

definition state_decls :: "wan_pipeline \<Rightarrow> pydict \<Rightarrow> string \<Rightarrow> field_decl list res" where
  "state_decls p md aid =
     bind_res (metadata_int md ''num_outputs_per_prompt'' 1) (\<lambda>batch.
     bind_res (metadata_int md ''text_seq_len'' 512) (\<lambda>text_seq_len.
     bind_res (metadata_int md ''num_steps'' 1) (\<lambda>num_steps.
     bind_res (text_hidden_size p) (\<lambda>hidden.
     bind_res (if has_latents aid then latent_decls p md else Inr []) (\<lambda>latent_fields.
       Inr ([(''prompt_embeds'', [batch, text_seq_len, hidden], transformer_dtype p)]
         @ (if to_bool (get_dflt md ''do_true_cfg'' (PyBool False))
            then [(''negative_prompt_embeds'', [batch, text_seq_len, hidden], transformer_dtype p)] else [])
         @ latent_fields
         @ (if has_timesteps aid then [(''timesteps'', [num_steps], ''torch.int64'')] else [])))))))"

definition field_of_decl :: "field_decl \<Rightarrow> tensor_field_layout res" where
  "field_of_decl x = (case x of (name, shape, dtype) \<Rightarrow> replicated_tensor_field [name] shape dtype)"

text \<open>\<open>_validate\<close> of the two codecs.\<close>

definition validate_artifact :: "string \<Rightarrow> group_spec \<Rightarrow> int \<Rightarrow> artifact_handle \<Rightarrow> unit res" where
  "validate_artifact codec_id g group_rank a =
     (if group_rank < 0 \<or> int (length (g_ranks g)) \<le> group_rank then Inl ValueError
      else if h_codec_id a \<noteq> Some codec_id then Inl ValueError
      else Inr ())"

definition describe_wan_state :: "wan_pipeline \<Rightarrow> group_spec \<Rightarrow> int \<Rightarrow> pydict \<Rightarrow> artifact_handle \<Rightarrow> output_artifact_layout res" where
  "describe_wan_state p g group_rank md a =
     bind_res (validate_artifact ''wan.runtime_state.v1'' g group_rank a) (\<lambda>_.
     bind_res (state_decls p md (h_artifact_id a)) (\<lambda>decls.
     bind_res (map_res field_of_decl decls) (\<lambda>fs. mk_output_artifact_layout a fs)))"

definition describe_wan_decoded :: "wan_pipeline \<Rightarrow> group_spec \<Rightarrow> int \<Rightarrow> pydict \<Rightarrow> artifact_handle \<Rightarrow> output_artifact_layout res" where
  "describe_wan_decoded p g group_rank md a =
     bind_res (validate_artifact ''wan.decoded.v1'' g group_rank a) (\<lambda>_.
     bind_res (if get_dflt md ''output_type'' PyNone = PyStr ''latent''
               then bind_res (latent_shape p md) (\<lambda>s. field_of_decl (''value'', s, ''torch.float32''))
               else bind_res (metadata_int md ''num_outputs_per_prompt'' 1) (\<lambda>batch.
                    bind_res (normalized_size p md) (\<lambda>(height, width, num_frames).
                      field_of_decl (''value'', [batch, 3, num_frames, height, width], wp_vae_dtype p)))) (\<lambda>f.
       mk_output_artifact_layout a [f]))"

section \<open>Executors\<close>

text \<open>The state of a request on a worker; a tensor is represented by its shape, \<open>wn_scheduler\<close> says that a scheduler is attached.\<close>

record wan_state =
  wn_height :: int
  wn_width :: int
  wn_num_frames :: int
  wn_num_steps :: int
  wn_output_type :: string
  wn_guidance_low :: rat
  wn_guidance_high :: rat
  wn_boundary_timestep :: rat
  wn_prompt_embeds :: "int list"
  wn_negative_prompt_embeds :: "int list option"
  wn_latents :: "int list option"
  wn_latent_condition :: "int list option"
  wn_first_frame_mask :: "int list option"
  wn_timesteps :: "rat list option"
  wn_scheduler :: bool

text \<open>\<open>hidden\<close> is the size of the embeddings that the text encoder produces.\<close>

definition wan_text_encode ::
  "(pyval \<Rightarrow> string) \<Rightarrow> wan_pipeline \<Rightarrow> int \<Rightarrow> diffusion_request \<Rightarrow> wan_state res" where
  "wan_text_encode rp p hidden req =
     bind_res (extract_prompt rp req) (\<lambda>(_, negative).
     let sp = dq_sampling_params req; m = wp_vae_scale_spatial p * wp_patch_h p;
         height = or_int (sp_height sp) 480 div m * m; width = or_int (sp_width sp) 832 div m * m;
         low = guidance_low (wp_default_guidance_scale p) sp; high = guidance_high (wp_default_guidance_scale p) sp;
         embeds = [or_int (sp_num_outputs_per_prompt sp) 1, or_int (sp_max_sequence_length sp) 512, hidden]
     in if height mod 16 \<noteq> 0 \<or> width mod 16 \<noteq> 0 then Inl ValueError
        else if (case negative of PyNone \<Rightarrow> False | PyStr _ \<Rightarrow> False | PyList _ \<Rightarrow> False | _ \<Rightarrow> True) then Inl ValueError
        else Inr \<lparr>wn_height = height, wn_width = width,
                  wn_num_frames = round_frames (wp_vae_scale_temporal p) (or_int (sp_num_frames sp) 81),
                  wn_num_steps = or_int (sp_num_inference_steps sp) 40, wn_output_type = or_str (sp_output_type sp) ''np'',
                  wn_guidance_low = low, wn_guidance_high = high,
                  wn_boundary_timestep = boundary_ratio (wp_boundary_ratio p) sp * of_int (wp_num_train_timesteps p),
                  wn_prompt_embeds = embeds,
                  wn_negative_prompt_embeds = (if low > 1 \<or> high > 1 then Some embeds else None),
                  wn_latents = None, wn_latent_condition = None, wn_first_frame_mask = None, wn_timesteps = None,
                  wn_scheduler = False\<rparr>)"

text \<open>The shape of fresh latents.\<close>

definition prepare_latents_shape :: "wan_pipeline \<Rightarrow> int \<Rightarrow> wan_state \<Rightarrow> int list" where
  "prepare_latents_shape p channels st =
     [hd (wn_prompt_embeds st), channels, (wn_num_frames st - 1) div wp_vae_scale_temporal p + 1,
      wn_height st div wp_vae_scale_spatial p, wn_width st div wp_vae_scale_spatial p]"

text \<open>\<open>prepare_latents\<close> keeps latents that the request brings along, whatever their shape.\<close>

definition generators_fit :: "int option \<Rightarrow> int \<Rightarrow> bool" where
  "generators_fit generators batch_size = (case generators of None \<Rightarrow> True | Some n \<Rightarrow> n = batch_size)"

definition prepare_latents :: "wan_pipeline \<Rightarrow> sampling_params \<Rightarrow> int \<Rightarrow> wan_state \<Rightarrow> int list res" where
  "prepare_latents p sp channels st =
     (case sp_latents sp of
        Some latents \<Rightarrow> Inr latents
      | None \<Rightarrow>
          if \<not> generators_fit (sp_generators sp) (hd (wn_prompt_embeds st)) then Inl ValueError
          else Inr (prepare_latents_shape p channels st))"

text \<open>
  The image of a prompt is a path, which is opened even if the image is not used afterwards, or an object that the prompt carries:
  an image of PIL, or a batch of RGB images as a tensor, given by its size, height and width. \<open>il_open\<close> raises if the file
  cannot be opened.
\<close>

datatype image_object = PilImage | TensorImage int int int | NotAnImage

record image_library =
  il_open :: "string \<Rightarrow> unit res"
  il_object :: "pyval \<Rightarrow> image_object"

definition first_image :: "pyval \<Rightarrow> pyval" where
  "first_image raw = (case raw of PyList l \<Rightarrow> if l = [] then PyNone else hd l | _ \<Rightarrow> raw)"

definition load_image :: "image_library \<Rightarrow> pyval \<Rightarrow> image_object option res" where
  "load_image lib raw =
     (case first_image raw of
        PyNone \<Rightarrow> Inr None
      | PyStr path \<Rightarrow> bind_res (il_open lib path) (\<lambda>_. Inr (Some PilImage))
      | x \<Rightarrow> Inr (Some (il_object lib x)))"

text \<open>The shape of the video of one frame; a PIL image is resized first.\<close>

definition image_video :: "int \<Rightarrow> int \<Rightarrow> image_object \<Rightarrow> int list res" where
  "image_video height width img =
     (case img of
        PilImage \<Rightarrow> Inr [1, 3, 1, height, width]
      | TensorImage b h w \<Rightarrow> Inr [b, 3, 1, h, w]
      | NotAnImage \<Rightarrow> Inl AttributeError)"

text \<open>
  \<open>encode\<close> maps the shape of a video to the shape of its latents under the VAE. The latents of the image are repeated
  along the batch; the mask reads three dimensions of the latents.
\<close>

definition wan_latent_prepare ::
  "wan_pipeline \<Rightarrow> image_library \<Rightarrow> (int list \<Rightarrow> int list) \<Rightarrow> diffusion_request \<Rightarrow> wan_state \<Rightarrow> wan_state res" where
  "wan_latent_prepare p lib encode req st =
     bind_res (executor_image req) (\<lambda>raw.
     bind_res (load_image lib raw) (\<lambda>img.
     if wp_expand_timesteps p \<and> img \<noteq> None then
       bind_res (prepare_latents p (dq_sampling_params req) (wp_out_channels p) st) (\<lambda>lat.
       bind_res (image_video (wn_height st) (wn_width st) (the img)) (\<lambda>v.
         let e = encode v
         in if length lat < 5 then Inl IndexError
            else Inr (st\<lparr>wn_latents := Some lat, wn_latent_condition := Some ((hd e * hd (wn_prompt_embeds st)) # tl e),
                         wn_first_frame_mask := Some [1, 1, lat ! 2, lat ! 3, lat ! 4]\<rparr>)))
     else
       bind_res (prepare_latents p (dq_sampling_params req) (wp_in_channels p) st) (\<lambda>lat.
         Inr (st\<lparr>wn_latents := Some lat\<rparr>))))"

definition wan_timestep_prepare :: "(int \<Rightarrow> rat list) \<Rightarrow> wan_state \<Rightarrow> wan_state" where
  "wan_timestep_prepare timesteps st = st\<lparr>wn_timesteps := Some (timesteps (wn_num_steps st)), wn_scheduler := True\<rparr>"

text \<open>
  The guidance of a denoising step. A chunk gives the flags of its steps in the order of their execution; each step needs one of the
  two transformers. The steps keep the shape of the latents, and the last one detaches the scheduler.
\<close>

definition step_guidance :: "wan_state \<Rightarrow> rat \<Rightarrow> rat" where
  "step_guidance st t = (if t < wn_boundary_timestep st then wn_guidance_high st else wn_guidance_low st)"

definition step_do_true_cfg :: "wan_state \<Rightarrow> rat \<Rightarrow> bool" where
  "step_do_true_cfg st t \<longleftrightarrow> step_guidance st t > 1 \<and> wn_negative_prompt_embeds st \<noteq> None"

definition has_transformer :: "wan_pipeline \<Rightarrow> bool" where
  "has_transformer p \<longleftrightarrow> wp_transformer p \<or> wp_transformer_2 p"

definition wan_denoise :: "wan_pipeline \<Rightarrow> step_range \<Rightarrow> wan_state \<Rightarrow> (bool list \<times> wan_state) res" where
  "wan_denoise p r st =
     (case wn_timesteps st of
        None \<Rightarrow> Inl RuntimeError
      | Some ts \<Rightarrow>
          if wn_latents st = None \<or> \<not> wn_scheduler st then Inl RuntimeError
          else
            let first = max 0 (sr_start r); stop = min (sr_end r) (int (length ts))
            in if first < stop \<and> \<not> has_transformer p then Inl RuntimeError
               else Inr (map (\<lambda>i. step_do_true_cfg st (ts ! nat i)) [first..stop - 1],
                    if int (length ts) \<le> stop then st\<lparr>wn_scheduler := False\<rparr> else st))"

section \<open>Sizes\<close>

lemma round_size_div:
  assumes "0 < s" "0 < q" "s * q \<le> n"
  shows "round_size (s * q) n = n div (s * q) * (s * q)" "round_size (s * q) n div s div q = n div s div q"
proof -
  have m: "0 < s * q" using assms by simp
  have "s * q \<le> n div (s * q) * (s * q)"
    using assms(3) m pos_imp_zdiv_pos_iff [OF m, of n] mult_right_mono [of 1 "n div (s * q)" "s * q"] by simp
  then show 1: "round_size (s * q) n = n div (s * q) * (s * q)" by (simp add: round_size_def)
  have "n div (s * q) * (s * q) div s = n div (s * q) * q" using assms(1) by (simp add: mult.assoc [symmetric] mult.commute)
  then show "round_size (s * q) n div s div q = n div s div q"
    using assms(1,2) by (simp add: 1 zdiv_zmult2_eq)
qed

lemma latent_frames:
  assumes "0 < t" "1 \<le> n"
  shows "(round_frames t n - 1) div t + 1 = n div t + (1 :: int)"
proof (cases "n mod t = 1")
  case True
  then have "n - 1 = n div t * t" using div_mult_mod_eq [of n t] by linarith
  moreover have "round_frames t n = n" using True assms by (simp add: round_frames_def)
  ultimately show ?thesis using assms by simp
next
  case False
  have "0 \<le> n div t * t" using assms by (simp add: pos_imp_zdiv_nonneg_iff)
  then have "round_frames t n = n div t * t + 1" using False by (simp add: round_frames_def)
  then show ?thesis using assms by simp
qed

lemma ceiling_frames:
  assumes "0 < t" "1 \<le> n"
  shows "max 1 ((n + t - 1) div t) = n div t + (if t dvd n then 0 else (1 :: int))"
proof (cases "t dvd n")
  case True
  then obtain k where k: "n = t * k" by (auto simp: dvd_def)
  then have "1 \<le> k" using assms by (metis int_one_le_iff_zero_less zero_less_mult_pos less_le_trans zero_less_one)
  moreover have "(t * k + t - 1) div t = k"
    using assms(1) div_mult_self2 [of t "t - 1" k] by (simp add: algebra_simps div_pos_pos_trivial)
  ultimately show ?thesis using True k assms(1) by simp
next
  case False
  let ?r = "n mod t"
  have r: "1 \<le> ?r" "?r < t" using False assms by (simp_all add: dvd_eq_mod_eq_0 pos_mod_sign order.not_eq_order_implies_strict int_one_le_iff_zero_less)
  have "n + t - 1 = (?r - 1) + t * (n div t + 1)" using div_mult_mod_eq [of n t] by (simp add: algebra_simps)
  then have "(n + t - 1) div t = (?r - 1) div t + (n div t + 1)"
    using div_mult_self2 [OF less_imp_neq [OF assms(1), symmetric], of "?r - 1" "n div t + 1"] by (simp only: add.commute)
  moreover have "(?r - 1) div t = 0" using r by (intro div_pos_pos_trivial) simp_all
  ultimately have "(n + t - 1) div t = n div t + 1" by simp
  moreover have "0 \<le> n div t" using assms by (simp add: pos_imp_zdiv_nonneg_iff)
  ultimately show ?thesis using False by simp
qed

lemma metadata_int_Inr: "map_of md k = Some (PyInt n) \<Longrightarrow> 1 \<le> n \<Longrightarrow> metadata_int md k d = Inr n"
  by (simp add: metadata_int_def get_dflt_def)

text \<open>What the layouts read from the metadata of a compiled plan.\<close>

lemma plan_metadata_wan:
  fixes c :: wan_compiler and r :: runtime_request and sp :: sampling_params and obj :: pyval and img :: bool
  defines "sp \<equiv> dq_sampling_params (rq_diffusion_request r)" and "md \<equiv> plan_metadata (wan_plan_args c obj r img)"
  shows "map_of md ''height'' = Some (PyInt (max 1 (or_int (sp_height sp) 480)))"
    "map_of md ''width'' = Some (PyInt (max 1 (or_int (sp_width sp) 832)))"
    "map_of md ''num_frames'' = Some (PyInt (max 1 (or_int (sp_num_frames sp) 81)))"
    "map_of md ''num_outputs_per_prompt'' = Some (PyInt (or_int (sp_num_outputs_per_prompt sp) 1))"
    "map_of md ''do_true_cfg'' = Some (PyBool (guidance_low (wc_default_guidance_scale c) sp > 1 \<or> guidance_high (wc_default_guidance_scale c) sp > 1))"
    "map_of md ''has_image'' = Some (PyBool img)"
    "map_of md ''text_seq_len'' = Some (PyInt (or_int (sp_max_sequence_length sp) 512))"
    "map_of md ''num_steps'' = Some (PyInt (or_int (sp_num_inference_steps sp) 40))"
  by (simp_all add: md_def sp_def plan_metadata_def wan_plan_args_def wan_metadata_def Let_def map_of_dict_set)


text \<open>The number of tokens of the transformer for latents of a shape.\<close>

definition latent_tokens :: "latent_geometry \<Rightarrow> int list \<Rightarrow> int" where
  "latent_tokens g s = (s ! 2 div lg_patch_t g) * (s ! 3 div lg_patch_h g) * (s ! 4 div lg_patch_w g)"

text \<open>The geometry of the compiler is that of the pipeline, with square patches of one frame.\<close>

definition geometry_of :: "wan_pipeline \<Rightarrow> latent_geometry \<Rightarrow> bool" where
  "geometry_of p g \<longleftrightarrow> lg_vae_scale_spatial g = wp_vae_scale_spatial p \<and> lg_vae_scale_temporal g = wp_vae_scale_temporal p
     \<and> lg_patch_t g = 1 \<and> lg_patch_h g = wp_patch_h p \<and> lg_patch_w g = wp_patch_h p
     \<and> 0 < wp_vae_scale_spatial p \<and> 0 < wp_vae_scale_temporal p \<and> 0 < wp_patch_h p"

text \<open>The requested size is at least one patch of the transformer, and at least one output is asked for.\<close>

definition wan_sizes_ok :: "wan_pipeline \<Rightarrow> sampling_params \<Rightarrow> bool" where
  "wan_sizes_ok p sp \<longleftrightarrow> wp_vae_scale_spatial p * wp_patch_h p \<le> or_int (sp_height sp) 480
     \<and> wp_vae_scale_spatial p * wp_patch_h p \<le> or_int (sp_width sp) 832
     \<and> 1 \<le> or_int (sp_num_frames sp) 81 \<and> 1 \<le> or_int (sp_num_outputs_per_prompt sp) 1"

lemma latent_shape_wan:
  fixes c :: wan_compiler and r :: runtime_request
  defines "sp \<equiv> dq_sampling_params (rq_diffusion_request r)"
  assumes g: "geometry_of p g" and ok: "wan_sizes_ok p sp"
  shows "latent_shape p (plan_metadata (wan_plan_args c obj r img)) = Inr
    [or_int (sp_num_outputs_per_prompt sp) 1, if img \<and> wp_expand_timesteps p then wp_out_channels p else wp_in_channels p,
     or_int (sp_num_frames sp) 81 div wp_vae_scale_temporal p + 1,
     round_size (wp_vae_scale_spatial p * wp_patch_h p) (or_int (sp_height sp) 480) div wp_vae_scale_spatial p,
     round_size (wp_vae_scale_spatial p * wp_patch_h p) (or_int (sp_width sp) 832) div wp_vae_scale_spatial p]"
proof -
  have m: "1 \<le> wp_vae_scale_spatial p * wp_patch_h p" using g by (simp add: geometry_of_def int_one_le_iff_zero_less)
  have s: "max 1 (or_int (sp_height sp) 480) = or_int (sp_height sp) 480" "max 1 (or_int (sp_width sp) 832) = or_int (sp_width sp) 832"
    "max 1 (or_int (sp_num_frames sp) 81) = or_int (sp_num_frames sp) 81" "1 \<le> or_int (sp_height sp) 480" "1 \<le> or_int (sp_width sp) 832"
    "1 \<le> or_int (sp_num_frames sp) 81" "1 \<le> or_int (sp_num_outputs_per_prompt sp) 1"
    using ok m unfolding wan_sizes_ok_def by linarith+
  note md = plan_metadata_wan [where c = c and r = r and obj = obj and img = img, folded sp_def, unfolded s(1-3)]
  show ?thesis
    using latent_frames [of "wp_vae_scale_temporal p" "or_int (sp_num_frames sp) 81"] g s(6)
    by (simp add: latent_shape_def normalized_size_def Let_def metadata_int_Inr [OF md(1) s(4)] metadata_int_Inr [OF md(2) s(5)]
        metadata_int_Inr [OF md(3) s(6)] metadata_int_Inr [OF md(4) s(7)] get_dflt_def md(6) geometry_of_def)
qed

text \<open>
  C36: The sequence length with which a Wan request is priced is the number of tokens of its latents exactly
  if the temporal scale of the VAE does not divide the number of frames. If it divides it, the frames are rounded up to one more
  than a multiple, and the estimate is short by the tokens of one latent frame.
\<close>

theorem wan_seq_len_exact:
  fixes c :: wan_compiler and r :: runtime_request
  defines "sp \<equiv> dq_sampling_params (rq_diffusion_request r)"
  assumes g: "geometry_of p (wc_latent_geometry c)" and ok: "wan_sizes_ok p sp"
  shows "\<exists>s. latent_shape p (plan_metadata (wan_plan_args c obj r img)) = Inr s
    \<and> (let n = latent_tokens (wc_latent_geometry c) s; estimate = pa_latent_seq_len (wan_plan_args c obj r img)
       in (estimate = n \<longleftrightarrow> \<not> wp_vae_scale_temporal p dvd or_int (sp_num_frames sp) 81)
        \<and> (wp_vae_scale_temporal p dvd or_int (sp_num_frames sp) 81 \<longrightarrow>
             n - estimate = (s ! 3 div wp_patch_h p) * (s ! 4 div wp_patch_h p)))"
proof -
  let ?t = "wp_vae_scale_temporal p" and ?s = "wp_vae_scale_spatial p" and ?q = "wp_patch_h p"
  let ?F = "or_int (sp_num_frames sp) 81" and ?H = "or_int (sp_height sp) 480" and ?W = "or_int (sp_width sp) 832"
  have pos: "0 < ?t" "0 < ?s" "0 < ?q" and l: "lg_vae_scale_spatial (wc_latent_geometry c) = ?s"
    "lg_vae_scale_temporal (wc_latent_geometry c) = ?t" "lg_patch_t (wc_latent_geometry c) = 1"
    "lg_patch_h (wc_latent_geometry c) = ?q" "lg_patch_w (wc_latent_geometry c) = ?q"
    using g by (simp_all add: geometry_of_def)
  have size: "?s * ?q \<le> ?H" "?s * ?q \<le> ?W" "1 \<le> ?F" using ok by (simp_all add: wan_sizes_ok_def)
  define a where "a = ?H div ?s div ?q"
  define b where "b = ?W div ?s div ?q"
  have "1 \<le> n div ?s div ?q" if "?s * ?q \<le> n" for n
    using that pos pos_imp_zdiv_pos_iff [of "?s * ?q" n] by (simp add: zdiv_zmult2_eq int_one_le_iff_zero_less)
  then have ab: "1 \<le> a" "1 \<le> b" using size by (simp_all add: a_def b_def)
  have "?s \<le> ?s * ?q" using pos mult_left_mono [of 1 ?q ?s] by simp
  then have "?s \<le> ?H" "?s \<le> ?W" using size by linarith+
  then have max: "max 1 (?H div ?s) = ?H div ?s" "max 1 (?W div ?s) = ?W div ?s"
    using pos pos_imp_zdiv_pos_iff [of ?s] by (simp_all add: max_absorb2 int_one_le_iff_zero_less)
  define e where "e = (if ?t dvd ?F then 0 else (1 :: int))"
  have f: "0 \<le> ?F div ?t" "1 \<le> ?F div ?t + e"
    using pos size(3) ceiling_frames [OF pos(1) size(3)] by (simp_all add: e_def pos_imp_zdiv_nonneg_iff)
  have "1 \<le> (?F div ?t + e) * (a * b)" using f(2) ab by (metis int_one_le_iff_zero_less mult_pos_pos)
  then have est: "pa_latent_seq_len (wan_plan_args c obj r img) = (?F div ?t + e) * (a * b)"
    using ceiling_frames [OF pos(1) size(3)]
    by (simp add: wan_plan_args_def estimate_dit_latent_seq_len_def dit_latent_seq_len_def Let_def l max sp_def [symmetric]
        e_def [symmetric] a_def [symmetric] b_def [symmetric] mult.assoc max_absorb2)
  have sh: "latent_shape p (plan_metadata (wan_plan_args c obj r img)) = Inr
      [or_int (sp_num_outputs_per_prompt sp) 1, if img \<and> wp_expand_timesteps p then wp_out_channels p else wp_in_channels p,
       ?F div ?t + 1, round_size (?s * ?q) ?H div ?s, round_size (?s * ?q) ?W div ?s]"
    using latent_shape_wan [OF g ok [unfolded sp_def]] unfolding sp_def .
  have r: "round_size (?s * ?q) ?H div ?s div ?q = a" "round_size (?s * ?q) ?W div ?s div ?q = b"
    using round_size_div(2) [OF pos(2,3)] size by (simp_all add: a_def b_def)
  let ?l = "[or_int (sp_num_outputs_per_prompt sp) 1, if img \<and> wp_expand_timesteps p then wp_out_channels p else wp_in_channels p,
      ?F div ?t + 1, round_size (?s * ?q) ?H div ?s, round_size (?s * ?q) ?W div ?s]"
  have tok: "latent_tokens (wc_latent_geometry c) ?l = (?F div ?t + 1) * (a * b)"
    by (simp add: latent_tokens_def l r mult.assoc)
  have "(?l ! 3 div ?q) * (?l ! 4 div ?q) = a * b" by (simp add: r)
  moreover have "a * b \<noteq> 0" using ab by simp
  ultimately show ?thesis
    unfolding Let_def using sh by (intro exI [of _ ?l]) (simp only: est tok e_def, simp add: algebra_simps)
qed


section \<open>Guidance\<close>

text \<open>The compiler was built for the pipeline (\<open>build_task_compiler\<close>); \<open>ts\<close> are the timesteps of the diffusion scheduler.\<close>

definition compiler_of :: "wan_pipeline \<Rightarrow> (int \<Rightarrow> rat list) \<Rightarrow> wan_compiler \<Rightarrow> bool" where
  "compiler_of p ts c \<longleftrightarrow> wc_default_guidance_scale c = wp_default_guidance_scale p \<and> wc_boundary_ratio c = wp_boundary_ratio p
     \<and> wc_num_train_timesteps c = wp_num_train_timesteps p
     \<and> (\<forall>n l. wc_scheduler_timesteps c n = Some l \<longrightarrow> l = ts n)"

lemma text_encodeE:
  assumes "wan_text_encode rp p hidden req = Inr st"
  defines "sp \<equiv> dq_sampling_params req"
  shows "wn_num_steps st = or_int (sp_num_inference_steps sp) 40"
    "wn_guidance_low st = guidance_low (wp_default_guidance_scale p) sp"
    "wn_guidance_high st = guidance_high (wp_default_guidance_scale p) sp"
    "wn_boundary_timestep st = boundary_ratio (wp_boundary_ratio p) sp * of_int (wp_num_train_timesteps p)"
    "wn_prompt_embeds st = [or_int (sp_num_outputs_per_prompt sp) 1, or_int (sp_max_sequence_length sp) 512, hidden]"
    "wn_negative_prompt_embeds st = (if wn_guidance_low st > 1 \<or> wn_guidance_high st > 1 then Some (wn_prompt_embeds st) else None)"
    "wn_height st = or_int (sp_height sp) 480 div (wp_vae_scale_spatial p * wp_patch_h p) * (wp_vae_scale_spatial p * wp_patch_h p)"
    "wn_width st = or_int (sp_width sp) 832 div (wp_vae_scale_spatial p * wp_patch_h p) * (wp_vae_scale_spatial p * wp_patch_h p)"
    "wn_num_frames st = round_frames (wp_vae_scale_temporal p) (or_int (sp_num_frames sp) 81)"
    "wn_latents st = None" "wn_latent_condition st = None" "wn_first_frame_mask st = None" "wn_timesteps st = None"
  using assms(1) unfolding wan_text_encode_def sp_def
  by (auto simp: Let_def bind_res_eq_Inr split: if_splits)

lemma step_cfg_plain:
  assumes "wan_text_encode rp p hidden req = Inr st"
  shows "step_do_true_cfg (st\<lparr>wn_latents := l, wn_latent_condition := cd, wn_first_frame_mask := m, wn_timesteps := ts,
       wn_scheduler := b\<rparr>) t
     \<longleftrightarrow> step_guidance st t > 1"
  using text_encodeE(6) [OF assms] by (auto simp: step_do_true_cfg_def step_guidance_def)

lemma executor_image_raw: "raw_image req = Inr raw \<Longrightarrow> executor_image req = Inr raw"
  by (auto simp: raw_image_def executor_image_def split: list.splits prompt.splits pyval.splits)

lemma first_image_given: "first_image raw = PyNone \<longleftrightarrow> \<not> image_given raw"
  by (auto simp: first_image_def image_given_def split: pyval.split)

lemma load_image_None: "load_image lib raw = Inr i \<Longrightarrow> i = None \<longleftrightarrow> \<not> image_given raw"
  by (cases "first_image raw") (auto simp: load_image_def first_image_given [symmetric] bind_res_eq_Inr)

lemma latent_prepare_upd:
  "wan_latent_prepare p lib encode req st = Inr st' \<Longrightarrow>
   wn_latents st' \<noteq> None
   \<and> st' = st\<lparr>wn_latents := wn_latents st', wn_latent_condition := wn_latent_condition st', wn_first_frame_mask := wn_first_frame_mask st'\<rparr>"
  unfolding wan_latent_prepare_def by (auto simp: bind_res_eq_Inr Let_def split: if_splits)

lemma latent_prepare_plain:
  assumes "raw_image req = Inr raw" "\<not> (image_given raw \<and> wp_expand_timesteps p)" "load_image lib raw = Inr i"
    and "sp_latents (dq_sampling_params req) = None" "generators_fit (sp_generators (dq_sampling_params req)) (hd (wn_prompt_embeds st))"
  shows "wan_latent_prepare p lib encode req st = Inr (st\<lparr>wn_latents := Some (prepare_latents_shape p (wp_in_channels p) st)\<rparr>)"
proof -
  have "\<not> (wp_expand_timesteps p \<and> i \<noteq> None)" using load_image_None [OF assms(3)] assms(2) by blast
  then show ?thesis
    by (simp add: wan_latent_prepare_def executor_image_raw [OF assms(1)] assms(3-5) prepare_latents_def del: de_Morgan_conj)
qed

text \<open>The flags of the compiler and the guidance that the executor chooses.\<close>

lemma flags_match:
  assumes c: "compiler_of p ts c" and st: "wan_text_encode rp p hidden (rq_diffusion_request r) = Inr st"
    and n: "length (ts (wn_num_steps st)) = nat (wn_num_steps st)" and i: "i < length (ts (wn_num_steps st))"
    and "pa_do_true_cfg (wan_plan_args c obj r img) = Some flags"
  shows "length flags = nat (wn_num_steps st)"
    and "step_guidance st (ts (wn_num_steps st) ! i) > 1 \<longrightarrow> flags ! i"
    and "wc_scheduler_timesteps c (wn_num_steps st) \<noteq> None \<Longrightarrow> flags ! i \<longleftrightarrow> step_guidance st (ts (wn_num_steps st) ! i) > 1"
proof -
  note e = text_encodeE [OF st]
  have f: "flags = dit_step_do_true_cfg c (dq_sampling_params (rq_diffusion_request r)) (wn_num_steps st)
      (wn_guidance_low st) (wn_guidance_high st)"
    using assms(5) c by (simp add: wan_plan_args_def Let_def e(1-3) compiler_of_def)
  have b: "boundary_ratio (wc_boundary_ratio c) (dq_sampling_params (rq_diffusion_request r)) * of_int (wc_num_train_timesteps c)
      = wn_boundary_timestep st" using c by (simp add: e(4) compiler_of_def)
  have t: "l = ts (wn_num_steps st)" if "wc_scheduler_timesteps c (wn_num_steps st) = Some l" for l
    using c that by (simp add: compiler_of_def)
  show "length flags = nat (wn_num_steps st)"
    using n t by (auto simp: f dit_step_do_true_cfg_def Let_def split: option.split)
  show "step_guidance st (ts (wn_num_steps st) ! i) > 1 \<longrightarrow> flags ! i"
    using n i t by (auto simp: f b dit_step_do_true_cfg_def step_guidance_def Let_def split: option.split)
  show "wc_scheduler_timesteps c (wn_num_steps st) \<noteq> None \<Longrightarrow> flags ! i \<longleftrightarrow> step_guidance st (ts (wn_num_steps st) ! i) > 1"
    using n i t by (auto simp: f b dit_step_do_true_cfg_def step_guidance_def Let_def split: option.split)
qed

text \<open>
  C35: The compiler predicts which denoising steps run with classifier-free guidance, and thereby twice the
  work: for every chunk of the plan, the flags it attached to the steps are the choices the executor makes,
  step by step, for the state that the earlier stages prepared. If the timesteps of the diffusion scheduler are
  not known in advance, no step with guidance is missed. Every chunk but the last leaves a state that the next one accepts.
  A chunk fails only if it has a step to run and no transformer is loaded.
\<close>

theorem wan_guidance_predicted:
  assumes c: "compiler_of p ts c" and st: "wan_text_encode rp p hidden (rq_diffusion_request r) = Inr st"
    and "wan_latent_prepare p lib encode (rq_diffusion_request r) st = Inr st1"
    and n: "length (ts (wn_num_steps st)) = nat (wn_num_steps st)"
    and flags: "pa_do_true_cfg (wan_plan_args c obj r img) = Some flags"
    and rng: "0 \<le> sr_start sr" "sr_end sr \<le> wn_num_steps st"
  shows "if sr_start sr < sr_end sr \<and> \<not> has_transformer p then wan_denoise p sr (wan_timestep_prepare ts st1) = Inl RuntimeError
     else \<exists>fs st2. wan_denoise p sr (wan_timestep_prepare ts st1) = Inr (fs, st2)
     \<and> (sr_end sr < wn_num_steps st \<longrightarrow> st2 = wan_timestep_prepare ts st1)
     \<and> list_all2 (\<longrightarrow>) fs (map (\<lambda>i. flags ! nat i) [sr_start sr..sr_end sr - 1])
     \<and> (wc_scheduler_timesteps c (wn_num_steps st) \<noteq> None \<longrightarrow> fs = map (\<lambda>i. flags ! nat i) [sr_start sr..sr_end sr - 1])"
proof -
  obtain l cd m where st1: "st1 = st\<lparr>wn_latents := Some l, wn_latent_condition := cd, wn_first_frame_mask := m\<rparr>"
    using latent_prepare_upd [OF assms(3)] by (metis not_Some_eq)
  let ?ts = "ts (wn_num_steps st)"
  let ?st = "wan_timestep_prepare ts st1"
  have s: "?st = st\<lparr>wn_latents := Some l, wn_latent_condition := cd, wn_first_frame_mask := m, wn_timesteps := Some ?ts, wn_scheduler := True\<rparr>"
    by (simp add: wan_timestep_prepare_def st1)
  have le: "sr_start sr < sr_end sr \<Longrightarrow> sr_end sr \<le> int (length ?ts)" using n rng by linarith
  show ?thesis
  proof (cases "sr_start sr < sr_end sr \<and> \<not> has_transformer p")
    case True
    then show ?thesis using rng le by (simp add: wan_denoise_def s Let_def)
  next
    case ok: False
    have fs: "wan_denoise p sr ?st = Inr (map (\<lambda>i. step_guidance st (?ts ! nat i) > 1) [sr_start sr..sr_end sr - 1],
        if int (length ?ts) \<le> min (sr_end sr) (int (length ?ts)) then ?st\<lparr>wn_scheduler := False\<rparr> else ?st)"
    proof (cases "sr_end sr \<le> int (length ?ts)")
      case True
      then show ?thesis using rng ok by (auto simp add: wan_denoise_def s step_cfg_plain [OF st] Let_def)
    next
      case False
      then have "sr_end sr \<le> 0" "int (length ?ts) = 0" using n rng by linarith+
      then show ?thesis using rng by (simp add: wan_denoise_def s Let_def)
    qed
    have i: "nat i < length ?ts" if "i \<in> set [sr_start sr..sr_end sr - 1]" for i
      using that rng n by auto
    have "sr_end sr < wn_num_steps st \<Longrightarrow> \<not> int (length ?ts) \<le> min (sr_end sr) (int (length ?ts))" using n rng by auto
    then show ?thesis
      unfolding if_not_P [OF ok]
      using fs flags_match(2,3) [OF c st n i flags] by (auto simp: list_all2_map1 list_all2_map2 list_all2_same)
  qed
qed


section \<open>Compilation\<close>

text \<open>
  The Wan compiler accepts exactly the valid requests. For a runtime request that could be constructed
  and a diffusion scheduler with one timestep per step, it returns a plan if the numbers of steps and of tokens are positive,
  there is exactly one prompt and its multi-modal data is a mapping, and raises otherwise. The plan carries the id of the
  request, which is also the first of the ids of the diffusion request.
\<close>

theorem wan_compile_accepts:
  fixes r :: runtime_request
  defines "req \<equiv> rq_diffusion_request r"
  defines "steps \<equiv> or_int (sp_num_inference_steps (dq_sampling_params req)) 40"
  assumes r: "mk_runtime_request uuid r0 = Inr r" and ts: "\<forall>l. wc_scheduler_timesteps c steps = Some l \<longrightarrow> length l = nat steps"
  shows "if 1 \<le> steps \<and> 1 \<le> or_int (sp_max_sequence_length (dq_sampling_params req)) 512
           \<and> length (dq_prompts req) = 1 \<and> (\<exists>raw. raw_image req = Inr raw)
     then \<exists>pl. wan_compile_request rp c obj r = Inr pl \<and> p_request_id pl = rq_request_id r \<and> hd (dq_request_ids req) = rq_request_id r
     else \<exists>e. wan_compile_request rp c obj r = Inl e"
proof (cases "1 \<le> steps \<and> 1 \<le> or_int (sp_max_sequence_length (dq_sampling_params req)) 512
    \<and> length (dq_prompts req) = 1 \<and> (\<exists>raw. raw_image req = Inr raw)")
  case True
  then obtain raw where raw: "raw_image req = Inr raw" by blast
  let ?a = "wan_plan_args c obj r (image_given raw)"
  obtain q where q: "extract_prompt rp req = Inr q"
    using True by (cases "dq_prompts req"; cases "hd (dq_prompts req)") (auto simp: extract_prompt_def)
  have chunk: "1 \<le> rq_denoise_chunk_size r" and id: "hd (dq_request_ids req) = rq_request_id r"
    using r by (auto simp: mk_runtime_request_def Let_def req_def hd_conv_nth split: if_splits)
  have "\<exists>pl. build_chunked_dit_plan ?a = Inr pl"
  proof (rule plan_exists_aux)
    show "case pa_do_true_cfg ?a of None \<Rightarrow> True | Some f \<Rightarrow> int (length f) = pa_num_steps ?a"
      using ts True
      by (auto simp: wan_plan_args_def Let_def dit_step_do_true_cfg_def req_def [symmetric] steps_def [symmetric] split: option.split)
  qed (use True chunk in \<open>simp_all add: wan_plan_args_def Let_def req_def [symmetric] steps_def [symmetric]
        estimate_dit_latent_seq_len_def dit_latent_seq_len_def\<close>)
  then obtain pl where pl: "build_chunked_dit_plan ?a = Inr pl" by blast
  then have "wan_compile_request rp c obj r = Inr pl"
    using True q raw by (simp add: wan_compile_request_def Let_def req_def [symmetric] steps_def [symmetric])
  moreover have "p_request_id pl = rq_request_id r"
    using pl by (auto simp: build_chunked_dit_plan_def Let_def bind_res_eq_Inr wan_plan_args_def split: if_splits)
  ultimately show ?thesis using True id by auto
next
  case False
  have "\<exists>e. wan_compile_request rp c obj r = Inl e"
  proof (rule ccontr)
    assume "\<not> ?thesis"
    then obtain pl where pl: "wan_compile_request rp c obj r = Inr pl" by (cases "wan_compile_request rp c obj r") auto
    then have "\<exists>q. extract_prompt rp req = Inr q"
      by (auto simp: wan_compile_request_def Let_def req_def bind_res_eq_Inr split: if_splits)
    then have "length (dq_prompts req) = 1"
      by (cases "dq_prompts req"; cases "tl (dq_prompts req)") (auto simp: extract_prompt_def split: prompt.splits)
    with pl False show False
      by (auto simp: wan_compile_request_def Let_def req_def steps_def bind_res_eq_Inr split: if_splits)
  qed
  then show ?thesis unfolding if_not_P [OF False] .
qed


section \<open>Declared layouts and the tensors of a state\<close>

text \<open>The tensors that a state holds, in the order of their declaration, with their shapes.\<close>

definition opt_tensor :: "string \<Rightarrow> int list option \<Rightarrow> (string \<times> int list) list" where
  "opt_tensor name x = (case x of None \<Rightarrow> [] | Some s \<Rightarrow> [(name, s)])"

definition state_tensors :: "wan_state \<Rightarrow> (string \<times> int list) list" where
  "state_tensors st =
     [(''prompt_embeds'', wn_prompt_embeds st)] @ opt_tensor ''negative_prompt_embeds'' (wn_negative_prompt_embeds st)
     @ opt_tensor ''latents'' (wn_latents st) @ opt_tensor ''latent_condition'' (wn_latent_condition st)
     @ opt_tensor ''first_frame_mask'' (wn_first_frame_mask st)
     @ opt_tensor ''timesteps'' (map_option (\<lambda>ts. [int (length ts)]) (wn_timesteps st))"

definition declared :: "field_decl list res \<Rightarrow> (string \<times> int list) list option" where
  "declared d = (case d of Inl _ \<Rightarrow> None | Inr l \<Rightarrow> Some (map (\<lambda>(n, s, dt). (n, s)) l))"

text \<open>A request that was compiled for the pipeline, and the shapes the pipeline works with.\<close>

definition wan_setup :: "wan_pipeline \<Rightarrow> (int \<Rightarrow> rat list) \<Rightarrow> wan_compiler \<Rightarrow> int \<Rightarrow> sampling_params \<Rightarrow> bool" where
  "wan_setup p ts c hidden sp \<longleftrightarrow> compiler_of p ts c \<and> geometry_of p (wc_latent_geometry c) \<and> wan_sizes_ok p sp
     \<and> text_hidden_size p = Inr hidden \<and> 1 \<le> or_int (sp_max_sequence_length sp) 512
     \<and> 1 \<le> or_int (sp_num_inference_steps sp) 40
     \<and> length (ts (or_int (sp_num_inference_steps sp) 40)) = nat (or_int (sp_num_inference_steps sp) 40)"

lemma prepared_shape:
  fixes c :: wan_compiler and r :: runtime_request
  assumes "wan_setup p ts c hidden (dq_sampling_params (rq_diffusion_request r))"
    and "wan_text_encode rp p hidden (rq_diffusion_request r) = Inr st"
  shows "latent_shape p (plan_metadata (wan_plan_args c obj r img))
    = Inr (prepare_latents_shape p (if img \<and> wp_expand_timesteps p then wp_out_channels p else wp_in_channels p) st)"
proof -
  define sp where "sp = dq_sampling_params (rq_diffusion_request r)"
  note e = text_encodeE [OF assms(2), folded sp_def]
  have g: "geometry_of p (wc_latent_geometry c)" and ok: "wan_sizes_ok p sp"
    using assms(1) by (simp_all add: wan_setup_def sp_def)
  have pos: "0 < wp_vae_scale_spatial p" "0 < wp_patch_h p" "0 < wp_vae_scale_temporal p" using g by (simp_all add: geometry_of_def)
  have "round_size (wp_vae_scale_spatial p * wp_patch_h p) (or_int (sp_height sp) 480) = wn_height st"
    "round_size (wp_vae_scale_spatial p * wp_patch_h p) (or_int (sp_width sp) 832) = wn_width st"
    using round_size_div(1) [OF pos(1,2)] ok by (simp_all add: e(7,8) wan_sizes_ok_def)
  moreover have "(wn_num_frames st - 1) div wp_vae_scale_temporal p + 1 = or_int (sp_num_frames sp) 81 div wp_vae_scale_temporal p + 1"
    using latent_frames [OF pos(3)] ok by (simp add: e(9) wan_sizes_ok_def)
  ultimately show ?thesis
    using latent_shape_wan [OF g ok [unfolded sp_def], where obj = obj and img = img and c = c] unfolding sp_def [symmetric]
    by (simp add: prepare_latents_shape_def e(5))
qed

lemma state_decls_wan:
  fixes c :: wan_compiler and r :: runtime_request and obj :: pyval and img :: bool
  assumes "wan_setup p ts c hidden (dq_sampling_params (rq_diffusion_request r))"
    and "wan_text_encode rp p hidden (rq_diffusion_request r) = Inr st"
  defines "lat \<equiv> prepare_latents_shape p (if img \<and> wp_expand_timesteps p then wp_out_channels p else wp_in_channels p) st"
  shows "declared (state_decls p (plan_metadata (wan_plan_args c obj r img)) aid) = Some (state_tensors st
     @ (if has_latents aid then (''latents'', lat)
          # (if img \<and> wp_expand_timesteps p then [(''latent_condition'', lat), (''first_frame_mask'', [1, 1] @ drop 2 lat)] else []) else [])
     @ (if has_timesteps aid then [(''timesteps'', [wn_num_steps st])] else []))"
proof -
  define sp where "sp = dq_sampling_params (rq_diffusion_request r)"
  note e = text_encodeE [OF assms(2), folded sp_def]
  note w = assms(1) [folded sp_def, unfolded wan_setup_def]
  have one: "1 \<le> or_int (sp_num_outputs_per_prompt sp) 1" using w by (simp add: wan_sizes_ok_def)
  note md = plan_metadata_wan [where c = c and r = r and obj = obj and img = img, folded sp_def]
  have cfg: "guidance_low (wc_default_guidance_scale c) sp = wn_guidance_low st" "guidance_high (wc_default_guidance_scale c) sp = wn_guidance_high st"
    using w by (simp_all add: e(2,3) compiler_of_def)
  have l: "latent_shape p (plan_metadata (wan_plan_args c obj r img)) = Inr lat"
    unfolding lat_def by (rule prepared_shape [OF assms(1,2)])
  show ?thesis
    using w one
    by (simp add: state_decls_def latent_decls_def l metadata_int_Inr [OF md(4)] metadata_int_Inr [OF md(7)] metadata_int_Inr [OF md(8)]
        get_dflt_def md(5,6) cfg declared_def state_tensors_def opt_tensor_def e(1,5,6,10-13))
qed

text \<open>
  C37: With image conditioning the declared layout is wrong: the condition of the first frame is encoded from a single image
  and has one latent frame, but its layout declares as many frames as the latents have. As soon as the video has as many frames
  as the temporal scale of the VAE, the slice that a migration takes of this tensor exceeds it, and the source
  rank raises.
\<close>

theorem wan_image_condition_not_migratable:
  fixes c :: wan_compiler and r :: runtime_request and obj :: pyval and T :: "'v tensor"
  assumes "wan_setup p ts c hidden (dq_sampling_params (rq_diffusion_request r))"
    and "wan_text_encode rp p hidden (rq_diffusion_request r) = Inr st" "raw_image (rq_diffusion_request r) = Inr raw"
    and img: "image_given raw" "wp_expand_timesteps p"
    and "wan_latent_prepare p lib encode (rq_diffusion_request r) st = Inr st1"
    and vae: "\<And>b f h w. encode [b, 3, f, h, w] =
      [b, wp_z_dim p, (f - 1) div wp_vae_scale_temporal p + 1, h div wp_vae_scale_spatial p, w div wp_vae_scale_spatial p]"
    and frames: "wp_vae_scale_temporal p \<le> or_int (sp_num_frames (dq_sampling_params (rq_diffusion_request r))) 81"
    and T: "wn_latent_condition st1 = Some (tn_shape T)" "parse_torch_dtype known ''torch.float32'' = Inr (tn_dtype T)"
  shows "\<exists>s. declared (state_decls p (plan_metadata (wan_plan_args c obj r True)) ''state_latent'') = Some s
     \<and> (\<exists>shape. map_of s ''latent_condition'' = Some shape
       \<and> tensor_slice_view known T \<lparr>ts_path = [''latent_condition''], ts_offset = zeros shape, ts_shape = shape, ts_dtype = ''torch.float32''\<rparr>
           = Inl RuntimeError)"
proof -
  note e = text_encodeE [OF assms(2)]
  let ?lat = "prepare_latents_shape p (wp_out_channels p) st"
  have pos: "0 < wp_vae_scale_temporal p" using assms(1) by (simp add: wan_setup_def geometry_of_def)
  have "1 \<le> or_int (sp_num_frames (dq_sampling_params (rq_diffusion_request r))) 81 div wp_vae_scale_temporal p"
    using frames pos pos_imp_zdiv_pos_iff [OF pos] by (simp add: int_one_le_iff_zero_less)
  then have f: "1 < (wn_num_frames st - 1) div wp_vae_scale_temporal p + 1"
    using latent_frames [OF pos] assms(1) by (simp add: e(9) wan_setup_def wan_sizes_ok_def)
  obtain a x y where shape: "tn_shape T = [a, wp_z_dim p, 1, x, y]"
  proof -
    obtain i where i: "load_image lib raw = Inr i" "i \<noteq> None"
      using assms(6) executor_image_raw [OF assms(3)] load_image_None [of lib raw] img
      by (auto simp: wan_latent_prepare_def bind_res_eq_Inr)
    obtain lat v where v: "image_video (wn_height st) (wn_width st) (the i) = Inr v"
      "st1 = st\<lparr>wn_latents := Some lat, wn_latent_condition := Some ((hd (encode v) * hd (wn_prompt_embeds st)) # tl (encode v)),
         wn_first_frame_mask := Some [1, 1, lat ! 2, lat ! 3, lat ! 4]\<rparr>"
      using assms(6) executor_image_raw [OF assms(3)] i img
      by (auto simp: wan_latent_prepare_def bind_res_eq_Inr Let_def split: if_splits)
    obtain b h w where "v = [b, 3, 1, h, w]" using v(1) by (auto simp: image_video_def split: image_object.splits)
    then show ?thesis using T(1) by (intro that [of "b * hd (wn_prompt_embeds st)" "h div wp_vae_scale_spatial p" "w div wp_vae_scale_spatial p"])
      (simp add: v(2) vae)
  qed
  have "map_of (state_tensors st @ [(''latents'', ?lat), (''latent_condition'', ?lat), (''first_frame_mask'', [1, 1] @ drop 2 ?lat)])
      ''latent_condition'' = Some ?lat"
    by (simp add: state_tensors_def opt_tensor_def e(6,10-13))
  moreover have "declared (state_decls p (plan_metadata (wan_plan_args c obj r True)) ''state_latent'') = Some
      (state_tensors st @ [(''latents'', ?lat), (''latent_condition'', ?lat), (''first_frame_mask'', [1, 1] @ drop 2 ?lat)])"
    by (simp add: state_decls_wan [OF assms(1,2)] img(2) has_latents_def has_timesteps_def starts_with_def)
  moreover have "tensor_slice_view known T \<lparr>ts_path = [''latent_condition''], ts_offset = zeros ?lat, ts_shape = ?lat, ts_dtype = ''torch.float32''\<rparr>
      = Inl RuntimeError"
  proof -
    have "\<exists>i < length (tn_shape T). zeros ?lat ! i + ?lat ! i > tn_shape T ! i"
      using f by (intro exI [of _ 2]) (simp add: shape prepare_latents_shape_def zeros_def)
    then show ?thesis using T(2) by (simp add: tensor_slice_view_def)
  qed
  ultimately show ?thesis by blast
qed

text \<open>
  Latents that a request brings along are kept as they are, but the codec declares the shape of fresh ones: with any other shape the
  declared layout is not that of the state.
\<close>

lemma own_latents_mismatch:
  fixes c :: wan_compiler and r :: runtime_request and obj :: pyval
  assumes "wan_setup p ts c hidden (dq_sampling_params (rq_diffusion_request r))"
    and "wan_text_encode rp p hidden (rq_diffusion_request r) = Inr st" "raw_image (rq_diffusion_request r) = Inr raw"
    and "\<not> (image_given raw \<and> wp_expand_timesteps p)"
    and "wan_latent_prepare p lib encode (rq_diffusion_request r) st = Inr st1"
    and own: "sp_latents (dq_sampling_params (rq_diffusion_request r)) = Some s" "s \<noteq> prepare_latents_shape p (wp_in_channels p) st"
  shows "declared (state_decls p (plan_metadata (wan_plan_args c obj r (image_given raw))) ''state_latent'') \<noteq> Some (state_tensors st1)"
proof -
  note e = text_encodeE [OF assms(2)]
  have st1: "st1 = st\<lparr>wn_latents := Some s\<rparr>"
    using assms(4-6) executor_image_raw [OF assms(3)] load_image_None
    by (fastforce simp: wan_latent_prepare_def prepare_latents_def bind_res_eq_Inr split: if_splits)
  show ?thesis
    using own(2)
    by (simp add: state_decls_wan [OF assms(1,2)] st1 assms(4) has_latents_def has_timesteps_def starts_with_def
        state_tensors_def opt_tensor_def e(10-13) del: de_Morgan_conj)
qed

text \<open>
  A request that is lower than one patch is rounded up in the layout and down to nothing by the executor.
\<close>

lemma small_request_mismatch:
  assumes "0 < m" "0 < n" "n < m"
  shows "round_size m n = m \<and> n div m * m = (0 :: int)"
  using assms by (simp add: round_size_def)

section \<open>A concrete request\<close>

definition ex_wan_pipeline :: wan_pipeline where
  "ex_wan_pipeline = \<lparr>wp_vae_scale_spatial = 16, wp_vae_scale_temporal = 4, wp_patch_h = 2, wp_in_channels = 48, wp_out_channels = 48,
     wp_z_dim = 48, wp_expand_timesteps = True, wp_text_hidden = [None, Some 4096], wp_transformer = True, wp_transformer_2 = False,
     wp_transformer_dtype = Some ''torch.bfloat16'',
     wp_transformer_2_dtype = None, wp_text_encoder_dtype = None, wp_vae_dtype = ''torch.float32'', wp_boundary_ratio = None,
     wp_num_train_timesteps = 1000, wp_default_guidance_scale = 4\<rparr>"

definition ex_timesteps :: "int \<Rightarrow> rat list" where
  "ex_timesteps n = map (\<lambda>i. of_int (n - i) * 1000 / of_int n) [0..n - 1]"

definition ex_wan_compiler :: wan_compiler where
  "ex_wan_compiler = \<lparr>wc_default_denoise_chunk_size = 1, wc_latent_geometry = default_geometry, wc_default_guidance_scale = 4,
     wc_scheduler_timesteps = (\<lambda>n. Some (ex_timesteps n)), wc_boundary_ratio = None, wc_num_train_timesteps = 1000\<rparr>"

definition ex_sampling :: sampling_params where
  "ex_sampling = \<lparr>sp_num_inference_steps = Some 4, sp_max_sequence_length = None, sp_height = None, sp_width = None,
     sp_num_frames = Some 80, sp_num_outputs_per_prompt = Some 1, sp_guidance_scale = 1, sp_guidance_scale_provided = False,
     sp_guidance_scale_2 = Some 1, sp_true_cfg_scale = None, sp_boundary_ratio = Some (1/2), sp_output_type = None, sp_sigmas = None,
     sp_latents = None, sp_generators = None\<rparr>"

definition ex_wan_request :: "prompt \<Rightarrow> runtime_request" where
  "ex_wan_request q = \<lparr>rq_diffusion_request = \<lparr>dq_prompts = [q], dq_sampling_params = ex_sampling, dq_request_ids = [''w'']\<rparr>,
     rq_request_id = ''w'', rq_denoise_chunk_size = 2, rq_priority = 0, rq_group_id = None\<rparr>"

definition ex_image_prompt :: prompt where
  "ex_image_prompt = DictPrompt [(''prompt'', PyStr ''p''), (''multi_modal_data'', PyDict [(''image'', PyStr ''i.png'')])]"

text \<open>Every file but the image of the request is missing.\<close>

definition ex_images :: image_library where
  "ex_images = \<lparr>il_open = (\<lambda>path. if path = ''i.png'' then Inr () else Inl OSError), il_object = (\<lambda>_. NotAnImage)\<rparr>"

definition ex_vae_encode :: "int list \<Rightarrow> int list" where
  "ex_vae_encode s = [s ! 0, 48, (s ! 2 - 1) div 4 + 1, s ! 3 div 16, s ! 4 div 16]"

lemma ex_wan_setup: "wan_setup ex_wan_pipeline ex_timesteps ex_wan_compiler 4096 (dq_sampling_params (rq_diffusion_request (ex_wan_request q)))"
  by (simp add: wan_setup_def compiler_of_def geometry_of_def wan_sizes_ok_def ex_wan_pipeline_def ex_wan_compiler_def ex_wan_request_def
      ex_sampling_def default_geometry_def or_int_def text_hidden_size_def ex_timesteps_def)

lemma ex_wan_sp: "dq_sampling_params (rq_diffusion_request (ex_wan_request q)) = ex_sampling" "sp_latents ex_sampling = None"
    "generators_fit (sp_generators ex_sampling) n"
  by (simp_all add: ex_wan_request_def ex_sampling_def generators_fit_def)

lemma ex_wan_images: "load_image ex_images PyNone = Inr None" "load_image ex_images (PyStr ''i.png'') = Inr (Some PilImage)"
  by (simp_all add: load_image_def first_image_def ex_images_def)

lemma ex_wan_encode:
  "\<exists>st. wan_text_encode (\<lambda>_. []) ex_wan_pipeline 4096 (rq_diffusion_request (ex_wan_request (TextPrompt ''p''))) = Inr st
     \<and> wn_num_steps st = 4"
  "\<exists>st. wan_text_encode (\<lambda>_. []) ex_wan_pipeline 4096 (rq_diffusion_request (ex_wan_request ex_image_prompt)) = Inr st"
  by (simp_all add: wan_text_encode_def extract_prompt_def ex_wan_request_def ex_image_prompt_def ex_sampling_def ex_wan_pipeline_def
      or_int_def Let_def get_dflt_def)


theorem wan_seq_len_exact_witness:
  "\<exists>s. latent_shape ex_wan_pipeline (plan_metadata (wan_plan_args ex_wan_compiler PyNone (ex_wan_request (TextPrompt ''p'')) False)) = Inr s
    \<and> latent_tokens default_geometry s
        - pa_latent_seq_len (wan_plan_args ex_wan_compiler PyNone (ex_wan_request (TextPrompt ''p'')) False)
      = (s ! 3 div 2) * (s ! 4 div 2)"
proof -
  let ?r = "ex_wan_request (TextPrompt ''p'')"
  have w: "geometry_of ex_wan_pipeline (wc_latent_geometry ex_wan_compiler)" "wan_sizes_ok ex_wan_pipeline (dq_sampling_params (rq_diffusion_request ?r))"
    using ex_wan_setup [of "TextPrompt ''p''"] by (simp_all add: wan_setup_def)
  have "or_int (sp_num_frames (dq_sampling_params (rq_diffusion_request ?r))) 81 = 80" "wp_vae_scale_temporal ex_wan_pipeline = 4"
    "wp_patch_h ex_wan_pipeline = 2" "wc_latent_geometry ex_wan_compiler = default_geometry"
    by (simp_all add: ex_wan_request_def ex_sampling_def or_int_def ex_wan_pipeline_def ex_wan_compiler_def)
  then show ?thesis
    using wan_seq_len_exact [OF w, where obj = PyNone and img = False] by (auto simp: Let_def)
qed

theorem wan_guidance_predicted_witness:
  "\<exists>st st1 flags fs st2. wan_text_encode (\<lambda>_. []) ex_wan_pipeline 4096 (rq_diffusion_request (ex_wan_request (TextPrompt ''p''))) = Inr st
    \<and> wan_latent_prepare ex_wan_pipeline ex_images ex_vae_encode (rq_diffusion_request (ex_wan_request (TextPrompt ''p''))) st = Inr st1
    \<and> pa_do_true_cfg (wan_plan_args ex_wan_compiler PyNone (ex_wan_request (TextPrompt ''p'')) False) = Some flags
    \<and> wan_denoise ex_wan_pipeline \<lparr>sr_start = 2, sr_end = 4\<rparr> (wan_timestep_prepare ex_timesteps st1) = Inr (fs, st2)
    \<and> fs = map (\<lambda>i. flags ! nat i) [2..3]"
proof -
  let ?r = "ex_wan_request (TextPrompt ''p'')"
  have c: "compiler_of ex_wan_pipeline ex_timesteps ex_wan_compiler" using ex_wan_setup by (simp add: wan_setup_def)
  obtain st where st: "wan_text_encode (\<lambda>_. []) ex_wan_pipeline 4096 (rq_diffusion_request ?r) = Inr st" "wn_num_steps st = 4"
    using ex_wan_encode(1) by blast
  have raw: "raw_image (rq_diffusion_request ?r) = Inr PyNone" by (simp add: ex_wan_request_def raw_image_def)
  obtain st1 where st1: "wan_latent_prepare ex_wan_pipeline ex_images ex_vae_encode (rq_diffusion_request ?r) st = Inr st1"
    using latent_prepare_plain [OF raw _ ex_wan_images(1)] by (simp add: ex_wan_sp image_given_def)
  obtain flags where f: "pa_do_true_cfg (wan_plan_args ex_wan_compiler PyNone ?r False) = Some flags"
    by (simp add: wan_plan_args_def Let_def)
  have n: "length (ex_timesteps (wn_num_steps st)) = nat (wn_num_steps st)" by (simp add: ex_timesteps_def st(2))
  have "wc_scheduler_timesteps ex_wan_compiler (wn_num_steps st) \<noteq> None" by (simp add: ex_wan_compiler_def)
  then show ?thesis
    using wan_guidance_predicted [OF c st(1) st1 n f, of "\<lparr>sr_start = 2, sr_end = 4\<rparr>"] st st1 f
    by (auto simp: has_transformer_def ex_wan_pipeline_def)
qed

theorem wan_compile_accepts_witness:
  "\<exists>r pl. mk_runtime_request ''u'' (ex_wan_request (TextPrompt ''p'')) = Inr r
    \<and> wan_compile_request (\<lambda>_. []) ex_wan_compiler PyNone r = Inr pl \<and> p_request_id pl = ''w''"
proof -
  let ?r = "ex_wan_request (TextPrompt ''p'')"
  have r: "mk_runtime_request ''u'' ?r = Inr ?r" by (simp add: mk_runtime_request_def ex_wan_request_def Let_def)
  have sp: "dq_sampling_params (rq_diffusion_request ?r) = ex_sampling" "dq_prompts (rq_diffusion_request ?r) = [TextPrompt ''p'']"
    "raw_image (rq_diffusion_request ?r) = Inr PyNone" "rq_request_id ?r = ''w''"
    "or_int (sp_num_inference_steps ex_sampling) 40 = 4" "or_int (sp_max_sequence_length ex_sampling) 512 = 512"
    by (simp_all add: ex_wan_request_def raw_image_def ex_sampling_def or_int_def)
  have "\<forall>l. wc_scheduler_timesteps ex_wan_compiler (or_int (sp_num_inference_steps (dq_sampling_params (rq_diffusion_request ?r))) 40) = Some l
      \<longrightarrow> length l = nat (or_int (sp_num_inference_steps (dq_sampling_params (rq_diffusion_request ?r))) 40)"
    by (simp add: sp ex_wan_compiler_def ex_timesteps_def)
  from wan_compile_accepts [OF r this, of "\<lambda>_. []" PyNone] show ?thesis using r by (auto simp: sp)
qed

theorem wan_image_condition_not_migratable_witness:
  "\<exists>st st1 (T :: int tensor). wan_latent_prepare ex_wan_pipeline ex_images ex_vae_encode (rq_diffusion_request (ex_wan_request ex_image_prompt)) st = Inr st1
    \<and> wn_latent_condition st1 = Some (tn_shape T)
    \<and> (\<exists>shape. tensor_slice_view (\<lambda>_. True) T
        \<lparr>ts_path = [''latent_condition''], ts_offset = zeros shape, ts_shape = shape, ts_dtype = ''torch.float32''\<rparr> = Inl RuntimeError)"
proof -
  let ?r = "ex_wan_request ex_image_prompt"
  obtain st where st: "wan_text_encode (\<lambda>_. []) ex_wan_pipeline 4096 (rq_diffusion_request ?r) = Inr st"
    using ex_wan_encode(2) by blast
  have raw: "raw_image (rq_diffusion_request ?r) = Inr (PyStr ''i.png'')" by (simp add: ex_wan_request_def raw_image_def ex_image_prompt_def get_dflt_def)
  have img: "image_given (PyStr ''i.png'')" "wp_expand_timesteps ex_wan_pipeline" by (simp_all add: image_given_def ex_wan_pipeline_def)
  obtain st1 cond where st1: "wan_latent_prepare ex_wan_pipeline ex_images ex_vae_encode (rq_diffusion_request ?r) st = Inr st1"
    "wn_latent_condition st1 = Some cond"
    by (simp add: wan_latent_prepare_def executor_image_raw [OF raw] img Let_def ex_wan_images ex_wan_sp prepare_latents_def
        image_video_def prepare_latents_shape_def)
  have vae: "ex_vae_encode [b, 3, f, h, w] = [b, wp_z_dim ex_wan_pipeline, (f - 1) div wp_vae_scale_temporal ex_wan_pipeline + 1,
      h div wp_vae_scale_spatial ex_wan_pipeline, w div wp_vae_scale_spatial ex_wan_pipeline]" for b f h w
    by (simp add: ex_vae_encode_def ex_wan_pipeline_def)
  have fr: "wp_vae_scale_temporal ex_wan_pipeline \<le> or_int (sp_num_frames (dq_sampling_params (rq_diffusion_request ?r))) 81"
    by (simp add: ex_wan_pipeline_def ex_wan_request_def ex_sampling_def or_int_def)
  obtain d where d: "parse_torch_dtype (\<lambda>_. True) ''torch.float32'' = Inr d" by (simp add: parse_torch_dtype_def)
  obtain T :: "int tensor" where T: "tn_shape T = cond" "tn_dtype T = d" by (metis tensor.select_convs)
  show ?thesis
    using wan_image_condition_not_migratable [OF ex_wan_setup st raw img st1(1) vae fr, of T "\<lambda>_. True" PyNone] st1 d T by auto
qed

end
