(* ===== verification/LatentPacking.thy ===== *)
theory LatentPacking
  imports DataPlane
begin

text \<open>
  The packing of image latents into the token sequence of the transformer and back
  (\<open>_pack_latents\<close> and \<open>_unpack_latents\<close> of \<open>models/qwen_image/pipeline_qwen_image.py\<close>).
  The tensor operations that the two use are given by the row-major order of the elements: \<open>view\<close> and \<open>reshape\<close> keep the
  position of an element in this order, \<open>permute\<close> reorders the axes. Tensors are contiguous, so that \<open>view\<close> is always possible
  if the number of elements agrees.
\<close>

section \<open>Row-major positions\<close>

fun flat_index :: "int list \<Rightarrow> int list \<Rightarrow> int" where
  "flat_index (s # ss) (i # is) = i * prod_list ss + flat_index ss is"
| "flat_index _ _ = 0"

fun unflat_index :: "int list \<Rightarrow> int \<Rightarrow> int list" where
  "unflat_index [] n = []"
| "unflat_index (s # ss) n = (n div prod_list ss) # unflat_index ss (n mod prod_list ss)"

definition in_shape :: "int list \<Rightarrow> int list \<Rightarrow> bool" where
  "in_shape ss is \<longleftrightarrow> list_all2 (\<lambda>s i. 0 \<le> i \<and> i < s) ss is"

lemma in_shape_simps [simp]:
  "in_shape [] is \<longleftrightarrow> is = []"
  "in_shape (s # ss) is \<longleftrightarrow> (\<exists>i js. is = i # js \<and> 0 \<le> i \<and> i < s \<and> in_shape ss js)"
  by (auto simp: in_shape_def list_all2_Cons1)

lemma in_shape_bounds: "in_shape ss is \<Longrightarrow> 0 \<le> flat_index ss is \<and> flat_index ss is < prod_list ss"
proof (induction ss arbitrary: "is")
  case (Cons s ss)
  then obtain i js where *: "is = i # js" "0 \<le> i" "i < s" "in_shape ss js" by auto
  have IH: "0 \<le> flat_index ss js" "flat_index ss js < prod_list ss" using Cons.IH [OF *(4)] by auto
  have "(i + 1) * prod_list ss \<le> s * prod_list ss" using * IH by (intro mult_right_mono) auto
  then show ?case using * IH by (simp add: distrib_right)
qed simp

lemma unflat_flat [simp]: "in_shape ss is \<Longrightarrow> unflat_index ss (flat_index ss is) = is"
proof (induction ss arbitrary: "is")
  case (Cons s ss)
  then obtain i js where *: "is = i # js" "in_shape ss js" by auto
  have "0 \<le> flat_index ss js" "flat_index ss js < prod_list ss" using in_shape_bounds [OF *(2)] by auto
  then have "(i * prod_list ss + flat_index ss js) div prod_list ss = i"
    "(i * prod_list ss + flat_index ss js) mod prod_list ss = flat_index ss js"
    by (simp_all add: div_add1_eq)
  then show ?case using * Cons.IH by simp
qed simp

lemma prod_list_pos: "\<forall>s \<in> set ss. (0 :: int) < s \<Longrightarrow> 0 < prod_list ss"
  by (induction ss) auto

lemma flat_unflat [simp]: "0 \<le> n \<Longrightarrow> n < prod_list ss \<Longrightarrow> \<forall>s \<in> set ss. 0 < s \<Longrightarrow> flat_index ss (unflat_index ss n) = n"
proof (induction ss arbitrary: n)
  case (Cons s ss)
  have "0 < prod_list ss" using Cons.prems(3) prod_list_pos [of ss] by simp
  then show ?case using Cons.IH [of "n mod prod_list ss"] Cons.prems(3) by simp
qed simp

lemma in_shape_unflat: "0 \<le> n \<Longrightarrow> n < prod_list ss \<Longrightarrow> \<forall>s \<in> set ss. 0 < s \<Longrightarrow> in_shape ss (unflat_index ss n)"
proof (induction ss arbitrary: n)
  case (Cons s ss)
  have p: "0 < prod_list ss" using Cons.prems(3) prod_list_pos [of ss] by simp
  have "n div prod_list ss * prod_list ss \<le> n" using p pos_mod_sign [of "prod_list ss" n] div_mult_mod_eq [of n "prod_list ss"] by linarith
  then have "n div prod_list ss * prod_list ss < s * prod_list ss" using Cons.prems(2) by simp
  then have "n div prod_list ss < s" using p by (simp add: mult_less_cancel_right)
  then show ?case using Cons.IH [of "n mod prod_list ss"] Cons.prems p by (simp add: pos_imp_zdiv_nonneg_iff)
qed simp

section \<open>Views and permutations\<close>

definition reshape :: "'v tensor \<Rightarrow> int list \<Rightarrow> 'v tensor res" where
  "reshape T s =
     (if prod_list s = prod_list (tn_shape T)
      then Inr (T\<lparr>tn_shape := s, tn_data := (\<lambda>idx. tn_data T (unflat_index (tn_shape T) (flat_index s idx)))\<rparr>)
      else Inl RuntimeError)"

definition axis_position :: "nat list \<Rightarrow> nat \<Rightarrow> nat" where
  "axis_position perm a = length (takeWhile (\<lambda>x. x \<noteq> a) perm)"

definition unpermute :: "nat list \<Rightarrow> int list \<Rightarrow> int list" where
  "unpermute perm idx = map (\<lambda>a. idx ! axis_position perm a) [0..<length perm]"

definition permute :: "'v tensor \<Rightarrow> nat list \<Rightarrow> 'v tensor" where
  "permute T perm = T\<lparr>tn_shape := map (\<lambda>a. tn_shape T ! a) perm, tn_data := (\<lambda>idx. tn_data T (unpermute perm idx))\<rparr>"

section \<open>Packing\<close>

definition pack_latents :: "'v tensor \<Rightarrow> int \<Rightarrow> int \<Rightarrow> int \<Rightarrow> int \<Rightarrow> 'v tensor res" where
  "pack_latents T batch_size num_channels_latents height width =
     bind_res (reshape T [batch_size, num_channels_latents, height div 2, 2, width div 2, 2]) (\<lambda>V.
       reshape (permute V [0, 2, 4, 1, 3, 5]) [batch_size, (height div 2) * (width div 2), num_channels_latents * 4])"

definition unpack_latents :: "'v tensor \<Rightarrow> int \<Rightarrow> int \<Rightarrow> int \<Rightarrow> 'v tensor res" where
  "unpack_latents T height width vae_scale_factor =
     (case tn_shape T of
        [batch_size, num_patches, channels] \<Rightarrow>
          let h = 2 * (height div (vae_scale_factor * 2)); w = 2 * (width div (vae_scale_factor * 2))
          in bind_res (reshape T [batch_size, h div 2, w div 2, channels div 4, 2, 2]) (\<lambda>V.
               reshape (permute V [0, 3, 1, 4, 2, 5]) [batch_size, channels div (2 * 2), 1, h, w])
      | _ \<Rightarrow> Inl ValueError)"

lemma permute_inverse: "length k = 6 \<Longrightarrow> unpermute [0, 2, 4, 1, 3, 5] (unpermute [0, 3, 1, 4, 2, 5] k) = k"
  by (auto simp: unpermute_def axis_position_def upt_rec numeral_eq_Suc length_Suc_conv)

lemma in_shape_permuted:
  "in_shape [b, c, h, 2, w, 2] k \<Longrightarrow> in_shape [b, h, w, c, 2, 2] (unpermute [0, 3, 1, 4, 2, 5] k)"
  by (auto simp: unpermute_def axis_position_def upt_rec numeral_eq_Suc)

text \<open>A token holds the \<open>2 \<times> 2\<close> patch of every channel: rows of patches first, then channels, then the positions in the patch.\<close>

lemma pack_latents_element:
  fixes T :: "'v tensor"
  assumes T: "tn_shape T = [b, 1, c, 2 * h, 2 * w]" and pos: "0 < b" "0 < c" "0 < h" "0 < w"
    and idx: "in_shape [b, c, h, 2, w, 2] [i, j, y, dy, x, dx]"
  shows "\<exists>P. pack_latents T b c (2 * h) (2 * w) = Inr P \<and> tn_shape P = [b, h * w, c * 4]
    \<and> tn_data P [i, y * w + x, j * 4 + dy * 2 + dx] = tn_data T [i, 0, j, 2 * y + dy, 2 * x + dx]"
proof -
  let ?s = "[b, h, w, c, 2, 2]"
  have f: "flat_index [b, h * w, c * 4] [i, y * w + x, j * 4 + dy * 2 + dx] = flat_index ?s [i, y, x, j, dy, dx]"
    by (simp add: algebra_simps)
  have u: "unflat_index ?s (flat_index ?s [i, y, x, j, dy, dx]) = [i, y, x, j, dy, dx]" using idx by (intro unflat_flat) simp
  have p: "unpermute [0, 2, 4, 1, 3, 5] [i, y, x, j, dy, dx] = [i, j, y, dy, x, dx]"
    by (simp add: unpermute_def axis_position_def upt_rec numeral_eq_Suc)
  have g: "flat_index [b, c, h, 2, w, 2] [i, j, y, dy, x, dx] = flat_index [b, 1, c, 2 * h, 2 * w] [i, 0, j, 2 * y + dy, 2 * x + dx]"
    by (simp add: algebra_simps)
  have v: "unflat_index [b, 1, c, 2 * h, 2 * w] (flat_index [b, 1, c, 2 * h, 2 * w] [i, 0, j, 2 * y + dy, 2 * x + dx])
      = [i, 0, j, 2 * y + dy, 2 * x + dx]" using idx by (intro unflat_flat) auto
  show ?thesis
    unfolding pack_latents_def reshape_def permute_def
    using f u p g v T by (simp add: bind_res_def algebra_simps del: flat_index.simps unflat_index.simps)
qed
text \<open>
  C38: Packing the latents into tokens and unpacking them loses nothing: for every image size whose latents are not empty,
  both succeed, and unpacking returns the element of every channel, row and column of the latents, with the
  axis of the frames behind that of the channels. The token sequence has one token per \<open>2 \<times> 2\<close> patch.
\<close>

theorem qwen_pack_roundtrip:
  fixes T :: "'v tensor"
  defines "h v n \<equiv> 2 * (n div (v * 2))"
  assumes T: "tn_shape T = [b, 1, c, h v H, h v W]" and pos: "0 < b" "0 < c" "0 < v" "v * 2 \<le> H" "v * 2 \<le> W"
  shows "\<exists>P U. pack_latents T b c (h v H) (h v W) = Inr P
     \<and> tn_shape P = [b, (h v H div 2) * (h v W div 2), c * 4]
     \<and> unpack_latents P H W v = Inr U \<and> tn_shape U = [b, c, 1, h v H, h v W]
     \<and> (\<forall>i j y x. in_shape [b, c, 1, h v H, h v W] [i, j, 0, y, x] \<longrightarrow> tn_data U [i, j, 0, y, x] = tn_data T [i, 0, j, y, x])"
proof -
  define m n where "m = H div (v * 2)" "n = W div (v * 2)"
  have mn: "0 < m" "0 < n" using pos by (simp_all add: m_n_def pos_imp_zdiv_pos_iff)
  have hv: "h v H = 2 * m" "h v W = 2 * n" by (simp_all add: h_def m_n_def)
  let ?s1 = "[b, c, m, 2, n, 2]" and ?s2 = "[b, m, n, c, 2, 2]" and ?p = "[b, m * n, c * 4]"
  let ?t = "[b, 1, c, 2 * m, 2 * n]" and ?u = "[b, c, 1, 2 * m, 2 * n]"
  define D1 where "D1 = (\<lambda>idx. tn_data T (unflat_index ?t (flat_index ?s1 idx)))"
  define D2 where "D2 = (\<lambda>idx. D1 (unpermute [0, 2, 4, 1, 3, 5] (unflat_index ?s2 (flat_index ?p idx))))"
  define D3 where "D3 = (\<lambda>idx. D2 (unflat_index ?p (flat_index ?s2 idx)))"
  define D4 where "D4 = (\<lambda>idx. D3 (unpermute [0, 3, 1, 4, 2, 5] (unflat_index ?s1 (flat_index ?u idx))))"
  have P: "pack_latents T b c (h v H) (h v W) = Inr (T\<lparr>tn_shape := ?p, tn_data := D2\<rparr>)"
    by (simp add: pack_latents_def reshape_def permute_def T hv D1_def D2_def algebra_simps del: flat_index.simps unflat_index.simps)
  have U: "unpack_latents (T\<lparr>tn_shape := ?p, tn_data := D2\<rparr>) H W v = Inr (T\<lparr>tn_shape := ?u, tn_data := D4\<rparr>)"
    by (simp add: unpack_latents_def reshape_def permute_def Let_def m_n_def [symmetric] D3_def D4_def algebra_simps
        del: flat_index.simps unflat_index.simps)
  have "D4 [i, j, 0, y, x] = tn_data T [i, 0, j, y, x]" if idx: "in_shape ?u [i, j, 0, y, x]" for i j y x
  proof -
    define N where "N = flat_index ?u [i, j, 0, y, x]"
    define k where "k = unflat_index ?s1 N"
    have N: "0 \<le> N" "N < prod_list ?u" using in_shape_bounds [OF idx] by (simp_all only: N_def)
    have prods: "prod_list ?s1 = prod_list ?u" "prod_list ?s2 = prod_list ?p" by simp_all
    have N1: "N < prod_list ?s1" using N(2) by (simp only: prods)
    have s1: "\<forall>s \<in> set ?s1. 0 < s" using pos mn by simp
    have k: "in_shape ?s1 k" "flat_index ?s1 k = N"
      unfolding k_def by (rule in_shape_unflat [OF N(1) N1 s1], rule flat_unflat [OF N(1) N1 s1])
    let ?k = "unpermute [0, 3, 1, 4, 2, 5] k"
    have k2: "in_shape ?s2 ?k" using in_shape_permuted [OF k(1)] .
    have "flat_index ?p (unflat_index ?p (flat_index ?s2 ?k)) = flat_index ?s2 ?k"
    proof (rule flat_unflat)
      show "\<forall>s \<in> set ?p. 0 < s" using pos mn by simp
    qed (use in_shape_bounds [OF k2] in \<open>simp_all only: prods(2)\<close>)
    then have "D3 ?k = D1 (unpermute [0, 2, 4, 1, 3, 5] ?k)" by (simp only: D3_def D2_def unflat_flat [OF k2])
    also have "unpermute [0, 2, 4, 1, 3, 5] ?k = k" using k(1) by (intro permute_inverse) auto
    also have "D1 k = tn_data T (unflat_index ?t N)" by (simp only: D1_def k(2))
    also have "N = flat_index ?t [i, 0, j, y, x]" by (simp add: N_def)
    also have "unflat_index ?t (flat_index ?t [i, 0, j, y, x]) = [i, 0, j, y, x]" using idx by (intro unflat_flat) auto
    finally show ?thesis by (simp only: D4_def k_def N_def)
  qed
  then show ?thesis using P U by (intro exI conjI) (auto simp: hv)
qed

theorem qwen_pack_roundtrip_witness:
  "\<exists>P U. pack_latents \<lparr>tn_shape = [1, 1, 16, 4, 2], tn_dtype = ''bfloat16'', tn_data = (\<lambda>idx. idx ! 2 * 100 + idx ! 3 * 10 + idx ! 4)\<rparr> 1 16 4 2 = Inr P
     \<and> tn_shape P = [1, 2, 64] \<and> unpack_latents P 40 16 8 = Inr U \<and> tn_data U [0, 15, 0, 3, 1] = 1531"
proof -
  let ?T = "\<lparr>tn_shape = [1, 1, 16, 4, 2], tn_dtype = ''bfloat16'', tn_data = (\<lambda>idx. idx ! 2 * 100 + idx ! 3 * 10 + idx ! 4)\<rparr>"
  have T: "tn_shape ?T = [1, 1, 16, 2 * (40 div (8 * 2)), 2 * (16 div (8 * 2))]" by simp
  obtain P U where "pack_latents ?T 1 16 (2 * (40 div (8 * 2))) (2 * (16 div (8 * 2))) = Inr P"
    "tn_shape P = [1, (2 * (40 div (8 * 2)) div 2) * (2 * (16 div (8 * 2)) div 2), 16 * 4]" "unpack_latents P 40 16 8 = Inr U"
    "\<forall>i j y x. in_shape [1, 16, 1, 2 * (40 div (8 * 2)), 2 * (16 div (8 * 2))] [i, j, 0, y, x]
      \<longrightarrow> tn_data U [i, j, 0, y, x] = tn_data ?T [i, 0, j, y, x]"
    using qwen_pack_roundtrip [OF T] by auto
  moreover from this(4) [rule_format, of 0 15 3 1] have "tn_data U [0, 15, 0, 3, 1] = 1531" by simp
  ultimately show ?thesis by auto
qed

end
