(* ===== verification/QwenAdapter.thy ===== *)
theory QwenAdapter
  imports WanAdapter LatentPacking
begin

text \<open>
  The adapter of the Qwen-Image models (\<open>runtime_v2/adapters/qwen_image.py\<close>): padding and trimming of prompt embeddings, the timesteps,
  the task compiler, the layouts of the artifacts and the executors. Requests are those of the Wan adapter,
  which declares the same fields. An embedding is a list of vectors per output, the other tensors are represented by
  their shapes. The text encoder, the decoder of the VAE and the diffusion scheduler are parameters.
\<close>

section \<open>Prompt embeddings\<close>

definition calculate_shift :: "rat \<Rightarrow> rat \<Rightarrow> rat \<Rightarrow> rat \<Rightarrow> rat \<Rightarrow> rat res" where
  "calculate_shift image_seq_len base_seq_len max_seq_len base_shift max_shift =
     (if max_seq_len - base_seq_len = 0 then Inl ZeroDivisionError
      else
        let m = (max_shift - base_shift) / (max_seq_len - base_seq_len);
            b = base_shift - m * base_seq_len
        in Inr (image_seq_len * m + b))"

text \<open>\<open>embeds.shape[1]\<close>, and \<open>x[:n]\<close> along the second axis.\<close>

definition seq_dim :: "'a list list \<Rightarrow> int" where
  "seq_dim e = (case e of [] \<Rightarrow> 0 | r # _ \<Rightarrow> int (length r))"

definition slice_to :: "int \<Rightarrow> 'a list \<Rightarrow> 'a list" where
  "slice_to n r = take (nat (if n < 0 then int (length r) + n else n)) r"

definition pad_prompt_to_len ::
  "'v \<Rightarrow> 'v list list \<Rightarrow> int list list option \<Rightarrow> int \<Rightarrow> 'v list list \<times> int list list option" where
  "pad_prompt_to_len z embeds msk target_len =
     (let cur = seq_dim embeds; pad = nat (target_len - cur)
      in if target_len \<le> cur then (embeds, msk)
         else (map (\<lambda>r. r @ replicate pad z) embeds, map_option (map (\<lambda>r. r @ replicate pad 0)) msk))"

definition trim_prompt_to_seq_lens ::
  "'v list list option \<Rightarrow> int list list option \<Rightarrow> int list option \<Rightarrow> 'v list list option \<times> int list list option" where
  "trim_prompt_to_seq_lens embeds msk seq_lens =
     (case (embeds, seq_lens) of
        (Some e, Some (l # ls)) \<Rightarrow>
          let real = Max (set (l # ls))
          in if seq_dim e \<le> real then (Some e, msk)
             else (Some (map (slice_to real) e), map_option (map (slice_to real)) msk)
      | _ \<Rightarrow> (embeds, msk))"

text \<open>
  \<open>encode_prompt\<close> of the pipeline for one prompt; \<open>enc\<close> gives the hidden states of its tokens. The mask of a single prompt
  has no padding.
\<close>

definition encode_prompt :: "(string \<Rightarrow> 'v list) \<Rightarrow> string \<Rightarrow> int \<Rightarrow> int \<Rightarrow> 'v list list \<times> int list list" where
  "encode_prompt enc prompt num_images_per_prompt max_sequence_length =
     (let row = slice_to max_sequence_length (enc prompt);
          mask = slice_to max_sequence_length (replicate (length (enc prompt)) 1)
      in (replicate (nat num_images_per_prompt) row, replicate (nat num_images_per_prompt) mask))"

section \<open>Task compiler\<close>

definition or_rat :: "rat option \<Rightarrow> rat \<Rightarrow> rat" where
  "or_rat x d = (case x of None \<Rightarrow> d | Some n \<Rightarrow> if n = 0 then d else n)"

definition extract_single_prompt :: "(pyval \<Rightarrow> string) \<Rightarrow> diffusion_request \<Rightarrow> (string \<times> string option) res" where
  "extract_single_prompt rp req =
     (case dq_prompts req of
        [TextPrompt s] \<Rightarrow> Inr (s, None)
      | [DictPrompt d] \<Rightarrow>
          let p = get_dflt d ''prompt'' PyNone; neg = get_dflt d ''negative_prompt'' PyNone
          in Inr (to_str rp (if to_bool p then p else PyStr []), if neg = PyNone then None else Some (to_str rp neg))
      | _ \<Rightarrow> Inl ValueError)"

text \<open>Comparing a missing number with zero raises.\<close>

definition num_images :: "sampling_params \<Rightarrow> int res" where
  "num_images sp = (case sp_num_outputs_per_prompt sp of None \<Rightarrow> Inl TypeError | Some n \<Rightarrow> Inr (if n > 0 then n else 1))"

definition estimate_packed_latent_seq_len :: "sampling_params \<Rightarrow> int" where
  "estimate_packed_latent_seq_len sp =
     (let height = max 1 (or_int (sp_height sp) 1024); width = max 1 (or_int (sp_width sp) 1024);
          packed_h = max 1 (height div (8 * 2)); packed_w = max 1 (width div (8 * 2))
      in max 1 (packed_h * packed_w))"

definition qwen_metadata :: "sampling_params \<Rightarrow> int \<Rightarrow> string option \<Rightarrow> pydict" where
  "qwen_metadata sp n negative =
     [(''height'', PyInt (max 1 (or_int (sp_height sp) 1024))),
      (''width'', PyInt (max 1 (or_int (sp_width sp) 1024))),
      (''num_images_per_prompt'', PyInt n),
      (''do_true_cfg'', PyBool (or_rat (sp_true_cfg_scale sp) 4 > 1 \<and> negative \<noteq> None)),
      (''output_type'', PyStr (or_str (sp_output_type sp) ''pil''))]"

definition qwen_plan_args :: "int \<Rightarrow> pyval \<Rightarrow> runtime_request \<Rightarrow> int \<Rightarrow> string option \<Rightarrow> plan_args" where
  "qwen_plan_args default_chunk obj r n negative =
     (let sp = dq_sampling_params (rq_diffusion_request r)
      in \<lparr>pa_request_id = rq_request_id r, pa_request_value = obj, pa_request_type = ''qwen_image_runtime_v2'',
          pa_num_steps = or_int (sp_num_inference_steps sp) 50,
          pa_chunk_size = (if rq_denoise_chunk_size r = 0 then default_chunk else rq_denoise_chunk_size r),
          pa_priority = rq_priority r, pa_group_id = rq_group_id r,
          pa_text_seq_len = or_int (sp_max_sequence_length sp) 512, pa_latent_seq_len = estimate_packed_latent_seq_len sp,
          pa_state_codec_id = ''qwen_image.runtime_state.v1'', pa_decoded_codec_id = Some ''qwen_image.decoded.v1'',
          pa_metadata = Some (qwen_metadata sp n negative), pa_stage_group_ids = None, pa_dit_step_schedule = None,
          pa_do_true_cfg = None\<rparr>)"

definition qwen_compile_request :: "(pyval \<Rightarrow> string) \<Rightarrow> int \<Rightarrow> pyval \<Rightarrow> runtime_request \<Rightarrow> plan res" where
  "qwen_compile_request rp default_chunk obj r =
     (let req = rq_diffusion_request r; sp = dq_sampling_params req
      in if or_int (sp_num_inference_steps sp) 50 < 1 then Inl ValueError
         else if or_int (sp_max_sequence_length sp) 512 < 1 then Inl ValueError
         else
           bind_res (extract_single_prompt rp req) (\<lambda>(_, negative).
           bind_res (num_images sp) (\<lambda>n.
             build_chunked_dit_plan (qwen_plan_args default_chunk obj r n negative))))"

section \<open>Layouts of the artifacts\<close>

text \<open>The diffusion scheduler: its configuration, which arguments \<open>set_timesteps\<close> accepts, and the timesteps it computes.\<close>

record qwen_scheduler =
  qs_base_image_seq_len :: "rat option"
  qs_max_image_seq_len :: "rat option"
  qs_base_shift :: "rat option"
  qs_max_shift :: "rat option"
  qs_accepts_timesteps :: bool
  qs_accepts_sigmas :: bool
  qs_from_timesteps :: "rat list \<Rightarrow> rat \<Rightarrow> rat list"
  qs_from_sigmas :: "rat list \<Rightarrow> rat \<Rightarrow> rat list"
  qs_from_steps :: "int \<Rightarrow> rat \<Rightarrow> rat list"

text \<open>\<open>qp_prompt_hidden\<close> lists the candidates for the size of the embeddings in the order of the search.\<close>

record qwen_pipeline =
  qp_default_sample_size :: int
  qp_vae_scale_factor :: int
  qp_in_channels :: int
  qp_guidance_embeds :: bool
  qp_prompt_hidden :: "int option list"
  qp_text_encoder_dtype :: "string option"
  qp_transformer_dtype :: "string option"
  qp_vae_dtype :: string
  qp_sched :: qwen_scheduler

definition prompt_dtype :: "qwen_pipeline \<Rightarrow> string" where
  "prompt_dtype p =
     (case qp_text_encoder_dtype p of Some d \<Rightarrow> d
      | None \<Rightarrow> (case qp_transformer_dtype p of Some d \<Rightarrow> d | None \<Rightarrow> ''torch.float32''))"

definition prompt_hidden_size :: "qwen_pipeline \<Rightarrow> int res" where
  "prompt_hidden_size p = (case List.find (\<lambda>x. x \<noteq> None) (qp_prompt_hidden p) of Some (Some n) \<Rightarrow> Inr n | _ \<Rightarrow> Inl ValueError)"

definition qwen_state_decls :: "qwen_pipeline \<Rightarrow> pydict \<Rightarrow> string \<Rightarrow> field_decl list res" where
  "qwen_state_decls p md aid =
     bind_res (metadata_int md ''num_images_per_prompt'' 1) (\<lambda>batch.
     bind_res (metadata_int md ''text_seq_len'' 512) (\<lambda>text_seq_len.
     bind_res (metadata_int md ''latent_seq_len'' 1) (\<lambda>latent_seq_len.
     bind_res (metadata_int md ''num_steps'' 1) (\<lambda>num_steps.
     bind_res (prompt_hidden_size p) (\<lambda>hidden.
       Inr ([(''prompt_embeds'', [batch, text_seq_len, hidden], prompt_dtype p),
             (''prompt_embeds_mask'', [batch, text_seq_len], ''torch.int64'')]
         @ (if to_bool (get_dflt md ''do_true_cfg'' (PyBool False))
            then [(''negative_prompt_embeds'', [batch, text_seq_len, hidden], prompt_dtype p),
                  (''negative_prompt_embeds_mask'', [batch, text_seq_len], ''torch.int64'')] else [])
         @ (if has_latents aid
            then (''latents'', [batch, latent_seq_len, qp_in_channels p], prompt_dtype p)
              # (if qp_guidance_embeds p then [(''guidance'', [batch], ''torch.float32'')] else []) else [])
         @ (if has_timesteps aid then [(''timesteps'', [num_steps], ''torch.float32'')] else [])))))))"

definition describe_qwen_state :: "qwen_pipeline \<Rightarrow> group_spec \<Rightarrow> int \<Rightarrow> pydict \<Rightarrow> artifact_handle \<Rightarrow> output_artifact_layout res" where
  "describe_qwen_state p g group_rank md a =
     bind_res (validate_artifact ''qwen_image.runtime_state.v1'' g group_rank a) (\<lambda>_.
     bind_res (qwen_state_decls p md (h_artifact_id a)) (\<lambda>decls.
     bind_res (map_res field_of_decl decls) (\<lambda>fs. mk_output_artifact_layout a fs)))"

definition qwen_decoded_decl :: "qwen_pipeline \<Rightarrow> pydict \<Rightarrow> field_decl res" where
  "qwen_decoded_decl p md =
     bind_res (metadata_int md ''num_images_per_prompt'' 1) (\<lambda>batch.
     bind_res (metadata_int md ''height'' 1024) (\<lambda>height.
     bind_res (metadata_int md ''width'' 1024) (\<lambda>width.
       if get_dflt md ''output_type'' PyNone = PyStr ''latent''
       then bind_res (metadata_int md ''latent_seq_len'' 1) (\<lambda>latent_seq_len.
              Inr (''value'', [batch, latent_seq_len, qp_in_channels p],
                   case qp_text_encoder_dtype p of Some d \<Rightarrow> d | None \<Rightarrow> ''torch.float32''))
       else Inr (''value'', [batch, 3, height, width], qp_vae_dtype p))))"

definition describe_qwen_decoded :: "qwen_pipeline \<Rightarrow> group_spec \<Rightarrow> int \<Rightarrow> pydict \<Rightarrow> artifact_handle \<Rightarrow> output_artifact_layout res" where
  "describe_qwen_decoded p g group_rank md a =
     bind_res (validate_artifact ''qwen_image.decoded.v1'' g group_rank a) (\<lambda>_.
     bind_res (qwen_decoded_decl p md) (\<lambda>d.
     bind_res (field_of_decl d) (\<lambda>f. mk_output_artifact_layout a [f])))"

section \<open>Executors\<close>

record 'v qwen_state =
  qn_height :: int
  qn_width :: int
  qn_num_steps :: int
  qn_output_type :: string
  qn_max_sequence_length :: int
  qn_guidance_scale :: rat
  qn_true_cfg_scale :: rat
  qn_prompt_embeds :: "'v list list"
  qn_prompt_embeds_mask :: "int list list option"
  qn_negative_prompt_embeds :: "'v list list option"
  qn_negative_prompt_embeds_mask :: "int list list option"
  qn_latents :: "int list option"
  qn_img_shapes :: "(int \<times> int \<times> int) list list"
  qn_txt_seq_lens :: "int list option"
  qn_negative_txt_seq_lens :: "int list option"
  qn_guidance :: "int list option"
  qn_timesteps :: "rat list option"
  qn_scheduler :: bool
  qn_do_true_cfg :: bool

text \<open>\<open>z\<close> is the zero vector that pads an embedding. Of \<open>check_inputs\<close> only the bound on the sequence length can raise.\<close>

definition qwen_text_encode ::
  "(pyval \<Rightarrow> string) \<Rightarrow> qwen_pipeline \<Rightarrow> 'v \<Rightarrow> (string \<Rightarrow> 'v list) \<Rightarrow> diffusion_request \<Rightarrow> 'v qwen_state res" where
  "qwen_text_encode rp p z enc req =
     bind_res (extract_single_prompt rp req) (\<lambda>(prompt, negative).
     let sp = dq_sampling_params req; size = qp_default_sample_size p * qp_vae_scale_factor p;
         num_steps = or_int (sp_num_inference_steps sp) 50; msl = or_int (sp_max_sequence_length sp) 512;
         true_cfg_scale = or_rat (sp_true_cfg_scale sp) 4; do_true_cfg = (true_cfg_scale > 1 \<and> negative \<noteq> None)
     in if num_steps < 1 then Inl ValueError
        else
          bind_res (num_images sp) (\<lambda>n.
          if msl > 1024 then Inl ValueError
          else
            let (e, m) = encode_prompt enc prompt n msl; (e1, m1) = pad_prompt_to_len z e (Some m) msl;
                neg = (if do_true_cfg
                       then (let (ne, nm) = encode_prompt enc (the negative) n msl; (ne1, nm1) = pad_prompt_to_len z ne (Some nm) msl
                             in (Some ne1, nm1))
                       else (None, None))
            in Inr \<lparr>qn_height = or_int (sp_height sp) size, qn_width = or_int (sp_width sp) size, qn_num_steps = num_steps,
                    qn_output_type = or_str (sp_output_type sp) ''pil'', qn_max_sequence_length = msl,
                    qn_guidance_scale = (if sp_guidance_scale_provided sp then sp_guidance_scale sp else 1),
                    qn_true_cfg_scale = true_cfg_scale, qn_prompt_embeds = e1, qn_prompt_embeds_mask = m1,
                    qn_negative_prompt_embeds = fst neg, qn_negative_prompt_embeds_mask = snd neg,
                    qn_latents = None, qn_img_shapes = [], qn_txt_seq_lens = None, qn_negative_txt_seq_lens = None,
                    qn_guidance = None, qn_timesteps = None, qn_scheduler = False, qn_do_true_cfg = do_true_cfg\<rparr>))"

text \<open>A tensor of a given shape without interest in its elements.\<close>

definition shape_only :: "int list \<Rightarrow> unit tensor" where
  "shape_only s = \<lparr>tn_shape = s, tn_dtype = [], tn_data = (\<lambda>_. ())\<rparr>"

definition prepare_qwen_latents :: "qwen_pipeline \<Rightarrow> sampling_params \<Rightarrow> int \<Rightarrow> int \<Rightarrow> int \<Rightarrow> int \<Rightarrow> int list res" where
  "prepare_qwen_latents p sp batch_size num_channels_latents height width =
     (let h = 2 * (height div (qp_vae_scale_factor p * 2)); w = 2 * (width div (qp_vae_scale_factor p * 2))
      in case sp_latents sp of
           Some latents \<Rightarrow> Inr latents
         | None \<Rightarrow>
             if \<not> generators_fit (sp_generators sp) batch_size then Inl ValueError
             else bind_res (pack_latents (shape_only [batch_size, 1, num_channels_latents, h, w]) batch_size num_channels_latents h w)
               (\<lambda>T. Inr (tn_shape T)))"

definition qwen_latent_prepare :: "qwen_pipeline \<Rightarrow> sampling_params \<Rightarrow> 'v qwen_state \<Rightarrow> 'v qwen_state res" where
  "qwen_latent_prepare p sp st =
     (let batch = int (length (qn_prompt_embeds st))
      in bind_res (prepare_qwen_latents p sp batch (qp_in_channels p div 4) (qn_height st) (qn_width st)) (\<lambda>lat.
           if qp_guidance_embeds p \<and> lat = [] then Inl IndexError
           else Inr (st\<lparr>qn_latents := Some lat,
             qn_img_shapes := [[(1, qn_height st div qp_vae_scale_factor p div 2, qn_width st div qp_vae_scale_factor p div 2)]],
             qn_txt_seq_lens := map_option (map sum_list) (qn_prompt_embeds_mask st),
             qn_negative_txt_seq_lens := map_option (map sum_list) (qn_negative_prompt_embeds_mask st),
             qn_guidance := (if qp_guidance_embeds p then Some [hd lat] else None)\<rparr>)))"

definition retrieve_timesteps ::
  "qwen_scheduler \<Rightarrow> int \<Rightarrow> rat list option \<Rightarrow> rat list option \<Rightarrow> rat \<Rightarrow> (rat list \<times> int) res" where
  "retrieve_timesteps sc num_inference_steps timesteps sigmas mu =
     (case (timesteps, sigmas) of
        (Some _, Some _) \<Rightarrow> Inl ValueError
      | (Some ts, None) \<Rightarrow>
          if \<not> qs_accepts_timesteps sc then Inl ValueError
          else let l = qs_from_timesteps sc ts mu in Inr (l, int (length l))
      | (None, Some s) \<Rightarrow>
          if \<not> qs_accepts_sigmas sc then Inl ValueError
          else let l = qs_from_sigmas sc s mu in Inr (l, int (length l))
      | (None, None) \<Rightarrow> Inr (qs_from_steps sc num_inference_steps mu, num_inference_steps))"

text \<open>\<open>np.linspace(1.0, 1 / n, n)\<close>.\<close>

definition default_sigmas :: "int \<Rightarrow> rat list" where
  "default_sigmas n = map (\<lambda>i. 1 + of_int i * ((1 / of_int n - 1) / of_int (n - 1))) [0..n - 1]"

definition qwen_timestep_prepare :: "qwen_pipeline \<Rightarrow> rat list option \<Rightarrow> 'v qwen_state \<Rightarrow> 'v qwen_state res" where
  "qwen_timestep_prepare p sigmas st =
     (case qn_latents st of
        None \<Rightarrow> Inl RuntimeError
      | Some lat \<Rightarrow>
          let sc = qp_sched p; dflt = (\<lambda>x d. case x of None \<Rightarrow> d | Some v \<Rightarrow> v);
              s = (case sigmas of None \<Rightarrow> default_sigmas (qn_num_steps st) | Some l \<Rightarrow> l)
          in if length lat < 2 then Inl IndexError
             else bind_res (calculate_shift (of_int (lat ! 1)) (dflt (qs_base_image_seq_len sc) 256) (dflt (qs_max_image_seq_len sc) 4096)
                         (dflt (qs_base_shift sc) (1 / 2)) (dflt (qs_max_shift sc) (115 / 100))) (\<lambda>mu.
             bind_res (retrieve_timesteps sc (qn_num_steps st) None (Some s) mu) (\<lambda>(ts, n).
               Inr (st\<lparr>qn_timesteps := Some ts, qn_num_steps := n, qn_scheduler := True\<rparr>))))"

text \<open>A chunk gives the embeddings with which it calls the transformer, and the steps it runs.\<close>

definition qwen_denoise :: "step_range \<Rightarrow> 'v qwen_state \<Rightarrow>
    (('v list list option \<times> int list list option) \<times> ('v list list option \<times> int list list option) \<times> int list \<times> 'v qwen_state) res" where
  "qwen_denoise r st =
     (case qn_timesteps st of
        None \<Rightarrow> Inl RuntimeError
      | Some ts \<Rightarrow>
          if qn_latents st = None \<or> \<not> qn_scheduler st then Inl RuntimeError
          else
            let first = max 0 (sr_start r); stop = min (sr_end r) (int (length ts))
            in Inr (trim_prompt_to_seq_lens (Some (qn_prompt_embeds st)) (qn_prompt_embeds_mask st) (qn_txt_seq_lens st),
                    trim_prompt_to_seq_lens (qn_negative_prompt_embeds st) (qn_negative_prompt_embeds_mask st) (qn_negative_txt_seq_lens st),
                    [first..stop - 1],
                    if int (length ts) \<le> stop then st\<lparr>qn_scheduler := False\<rparr> else st))"

text \<open>\<open>decode\<close> maps the shape of latents to the shape of the decoded video; the executor takes its first frame.\<close>

definition qwen_decode :: "qwen_pipeline \<Rightarrow> (int list \<Rightarrow> int list) \<Rightarrow> 'v qwen_state \<Rightarrow> int list res" where
  "qwen_decode p decode st =
     (case qn_latents st of
        None \<Rightarrow> Inl RuntimeError
      | Some lat \<Rightarrow>
          if qn_output_type st = ''latent'' then Inr lat
          else bind_res (unpack_latents (shape_only lat) (qn_height st) (qn_width st) (qp_vae_scale_factor p)) (\<lambda>T.
            let v = decode (tn_shape T) in Inr (take 2 v @ drop 3 v)))"


section \<open>Padding and trimming\<close>

text \<open>A prompt has no more vectors than the sequence length; \<open>row\<close> is what is left of it.\<close>

abbreviation prompt_row :: "(string \<Rightarrow> 'v list) \<Rightarrow> string \<Rightarrow> int \<Rightarrow> 'v list" where
  "prompt_row enc s msl \<equiv> take (nat msl) (enc s)"

lemma encode_prompt_eq:
  "1 \<le> msl \<Longrightarrow> encode_prompt enc s n msl =
     (replicate (nat n) (prompt_row enc s msl), replicate (nat n) (replicate (length (prompt_row enc s msl)) 1))"
  by (simp add: encode_prompt_def slice_to_def Let_def min.commute)

lemma seq_dim_replicate: "1 \<le> n \<Longrightarrow> seq_dim (replicate (nat n) r) = int (length r)"
  by (cases "nat n") (simp_all add: seq_dim_def)

lemma pad_encoded:
  fixes enc :: "string \<Rightarrow> 'v list" and s :: string
  assumes "1 \<le> n" "1 \<le> msl"
  defines "k \<equiv> nat msl - length (prompt_row enc s msl)"
  shows "pad_prompt_to_len z (fst (encode_prompt enc s n msl)) (Some (snd (encode_prompt enc s n msl))) msl =
     (replicate (nat n) (prompt_row enc s msl @ replicate k z),
      Some (replicate (nat n) (replicate (length (prompt_row enc s msl)) 1 @ replicate k 0)))"
  using assms by (simp add: encode_prompt_eq pad_prompt_to_len_def seq_dim_replicate Let_def nat_diff_distrib)

lemma padded_length: "1 \<le> msl \<Longrightarrow> length (prompt_row enc s msl) + (nat msl - length (prompt_row enc s msl)) = nat msl"
  by simp

lemma trim_replicated:
  assumes "1 \<le> n"
  shows "trim_prompt_to_seq_lens (Some (replicate (nat n) (r @ replicate k z)))
      (Some (replicate (nat n) (replicate (length r) 1 @ replicate k 0)))
      (Some (map sum_list (replicate (nat n) (replicate (length r) 1 @ replicate k 0))))
    = (Some (replicate (nat n) r), Some (replicate (nat n) (replicate (length r) 1)))"
proof -
  obtain m where m: "nat n = Suc m" using assms by (cases "nat n") auto
  have mx: "Max (insert x (set (replicate m x))) = x" for x :: int
  proof -
    have "insert x (set (replicate m x)) = {x}" by auto
    then show ?thesis by (simp only: Max_singleton)
  qed
  show ?thesis
    unfolding m by (simp add: Let_def mx trim_prompt_to_seq_lens_def sum_list_replicate seq_dim_def slice_to_def)
qed

lemma trim_padded:
  fixes enc :: "string \<Rightarrow> 'v list" and s :: string and z :: 'v
  assumes "1 \<le> n" "1 \<le> msl"
  defines "e \<equiv> encode_prompt enc s n msl"
  defines "q \<equiv> pad_prompt_to_len z (fst e) (Some (snd e)) msl"
  shows "trim_prompt_to_seq_lens (Some (fst q)) (snd q) (map_option (map sum_list) (snd q)) = (Some (fst e), Some (snd e))"
proof -
  let ?row = "prompt_row enc s msl"
  define k where "k = nat msl - length ?row"
  have q: "q = (replicate (nat n) (?row @ replicate k z), Some (replicate (nat n) (replicate (length ?row) 1 @ replicate k 0)))"
    unfolding q_def e_def k_def by (rule pad_encoded [OF assms(1,2)])
  have e: "e = (replicate (nat n) ?row, replicate (nat n) (replicate (length ?row) 1))"
    unfolding e_def by (rule encode_prompt_eq [OF assms(2)])
  show ?thesis unfolding q e fst_conv snd_conv option.map by (rule trim_replicated [OF assms(1)])
qed


section \<open>Layouts and states\<close>

text \<open>
  The pipeline has the scale factor and the sample size that the compiler assumes, the image is at least one
  patch high and wide, and the request brings no latents along.
\<close>

definition qwen_setup :: "qwen_pipeline \<Rightarrow> int \<Rightarrow> sampling_params \<Rightarrow> bool" where
  "qwen_setup p hidden sp \<longleftrightarrow> qp_vae_scale_factor p = 8 \<and> qp_default_sample_size p = 128 \<and> 4 dvd qp_in_channels p
     \<and> prompt_hidden_size p = Inr hidden \<and> 16 \<le> or_int (sp_height sp) 1024 \<and> 16 \<le> or_int (sp_width sp) 1024
     \<and> 1 \<le> or_int (sp_num_inference_steps sp) 50 \<and> 1 \<le> or_int (sp_max_sequence_length sp) 512 \<and> sp_latents sp = None"

text \<open>The scheduler accepts noise levels and returns one timestep for each.\<close>

definition qwen_sched_ok :: "qwen_scheduler \<Rightarrow> bool" where
  "qwen_sched_ok sc \<longleftrightarrow> qs_accepts_sigmas sc
     \<and> (case qs_base_image_seq_len sc of None \<Rightarrow> 256 | Some b \<Rightarrow> b) \<noteq> (case qs_max_image_seq_len sc of None \<Rightarrow> 4096 | Some m \<Rightarrow> m)
     \<and> (\<forall>s mu. length (qs_from_sigmas sc s mu) = length s)"

text \<open>The tensors that a state holds, in the order of their declaration.\<close>

definition qwen_tensors :: "int \<Rightarrow> 'v qwen_state \<Rightarrow> (string \<times> int list) list" where
  "qwen_tensors hidden st =
     (let shape2 = (\<lambda>e. [int (length e), seq_dim e]); shape3 = (\<lambda>e. [int (length e), seq_dim e, hidden])
      in [(''prompt_embeds'', shape3 (qn_prompt_embeds st))] @ opt_tensor ''prompt_embeds_mask'' (map_option shape2 (qn_prompt_embeds_mask st))
         @ opt_tensor ''negative_prompt_embeds'' (map_option shape3 (qn_negative_prompt_embeds st))
         @ opt_tensor ''negative_prompt_embeds_mask'' (map_option shape2 (qn_negative_prompt_embeds_mask st))
         @ opt_tensor ''latents'' (qn_latents st) @ opt_tensor ''guidance'' (qn_guidance st)
         @ opt_tensor ''timesteps'' (map_option (\<lambda>ts. [int (length ts)]) (qn_timesteps st)))"

lemma num_images_pos: "num_images sp = Inr n \<Longrightarrow> 1 \<le> n"
  by (auto simp: num_images_def split: option.splits if_splits)

lemma prepare_qwen_latents_shape:
  "sp_latents sp = None \<Longrightarrow> generators_fit (sp_generators sp) b \<Longrightarrow> prepare_qwen_latents p sp b c H W =
     Inr [b, (H div (qp_vae_scale_factor p * 2)) * (W div (qp_vae_scale_factor p * 2)), c * 4]"
  by (simp add: prepare_qwen_latents_def pack_latents_def reshape_def permute_def shape_only_def Let_def algebra_simps)

text \<open>The metadata of the plan.\<close>

lemma plan_metadata_qwen:
  fixes r :: runtime_request and d n :: int and obj :: pyval and neg :: "string option"
  defines "sp \<equiv> dq_sampling_params (rq_diffusion_request r)"
  defines "md \<equiv> plan_metadata (qwen_plan_args d obj r n neg)"
  shows "map_of md ''height'' = Some (PyInt (max 1 (or_int (sp_height sp) 1024)))"
    "map_of md ''width'' = Some (PyInt (max 1 (or_int (sp_width sp) 1024)))"
    "map_of md ''num_images_per_prompt'' = Some (PyInt n)"
    "map_of md ''do_true_cfg'' = Some (PyBool (or_rat (sp_true_cfg_scale sp) 4 > 1 \<and> neg \<noteq> None))"
    "map_of md ''output_type'' = Some (PyStr (or_str (sp_output_type sp) ''pil''))"
    "map_of md ''text_seq_len'' = Some (PyInt (or_int (sp_max_sequence_length sp) 512))"
    "map_of md ''latent_seq_len'' = Some (PyInt (estimate_packed_latent_seq_len sp))"
    "map_of md ''num_steps'' = Some (PyInt (or_int (sp_num_inference_steps sp) 50))"
  by (simp_all add: md_def sp_def plan_metadata_def qwen_plan_args_def qwen_metadata_def Let_def map_of_dict_set)

text \<open>The state after the text encoder, with the padded embeddings.\<close>

lemma qwen_encoded:
  fixes rp :: "pyval \<Rightarrow> string" and enc :: "string \<Rightarrow> 'v list" and z :: 'v
  assumes "qwen_text_encode rp p z enc req = Inr st" "extract_single_prompt rp req = Inr (prompt, neg)"
    and n: "num_images (dq_sampling_params req) = Inr n" and msl: "1 \<le> or_int (sp_max_sequence_length (dq_sampling_params req)) 512"
  defines "sp \<equiv> dq_sampling_params req"
  defines "e \<equiv> \<lambda>s. encode_prompt enc s n (or_int (sp_max_sequence_length sp) 512)"
  defines "q \<equiv> \<lambda>s. pad_prompt_to_len z (fst (e s)) (Some (snd (e s))) (or_int (sp_max_sequence_length sp) 512)"
  defines "cfg \<equiv> or_rat (sp_true_cfg_scale sp) 4 > 1 \<and> neg \<noteq> None"
  shows "qn_prompt_embeds st = fst (q prompt)" "qn_prompt_embeds_mask st = snd (q prompt)"
    "qn_negative_prompt_embeds st = (if cfg then Some (fst (q (the neg))) else None)"
    "qn_negative_prompt_embeds_mask st = (if cfg then snd (q (the neg)) else None)"
    "qn_height st = or_int (sp_height sp) (qp_default_sample_size p * qp_vae_scale_factor p)"
    "qn_width st = or_int (sp_width sp) (qp_default_sample_size p * qp_vae_scale_factor p)"
    "qn_num_steps st = or_int (sp_num_inference_steps sp) 50" "qn_output_type st = or_str (sp_output_type sp) ''pil''"
    "qn_latents st = None" "qn_guidance st = None" "qn_timesteps st = None" "qn_do_true_cfg st = cfg"
  using assms(1-4)
  by (auto simp: qwen_text_encode_def Let_def q_def e_def cfg_def sp_def split: if_splits prod.splits)


lemma opt_tensor_simps [simp]: "opt_tensor k None = []" "opt_tensor k (Some s) = [(k, s)]"
  by (simp_all add: opt_tensor_def)

lemma padded_dims:
  fixes enc :: "string \<Rightarrow> 'v list" and s :: string and z :: 'v
  assumes "1 \<le> n" "1 \<le> msl"
  defines "q \<equiv> pad_prompt_to_len z (fst (encode_prompt enc s n msl)) (Some (snd (encode_prompt enc s n msl))) msl"
  shows "int (length (fst q)) = n" "seq_dim (fst q) = msl" "map_option (\<lambda>m. [int (length m), seq_dim m]) (snd q) = Some [n, msl]"
proof -
  have "int (length (prompt_row enc s msl) + (nat msl - length (prompt_row enc s msl))) = msl"
    using assms(2) by (simp add: padded_length)
  then show "int (length (fst q)) = n" "seq_dim (fst q) = msl" "map_option (\<lambda>m. [int (length m), seq_dim m]) (snd q) = Some [n, msl]"
    unfolding q_def pad_encoded [OF assms(1,2)] using assms(1) by (simp_all add: seq_dim_replicate)
qed

lemma qwen_decls:
  fixes rp :: "pyval \<Rightarrow> string" and enc :: "string \<Rightarrow> 'v list" and z :: 'v and r :: runtime_request and d :: int and obj :: pyval
  defines "req \<equiv> rq_diffusion_request r"
  defines "sp \<equiv> dq_sampling_params req"
  assumes set: "qwen_setup p hidden sp" and st: "qwen_text_encode rp p z enc req = Inr st"
    and ext: "extract_single_prompt rp req = Inr (prompt, neg)" and n: "num_images sp = Inr n"
  shows "declared (qwen_state_decls p (plan_metadata (qwen_plan_args d obj r n neg)) aid) = Some (qwen_tensors hidden st
     @ (if has_latents aid then (''latents'', [n, estimate_packed_latent_seq_len sp, qp_in_channels p])
          # (if qp_guidance_embeds p then [(''guidance'', [n])] else []) else [])
     @ (if has_timesteps aid then [(''timesteps'', [or_int (sp_num_inference_steps sp) 50])] else []))"
proof -
  note e = qwen_encoded [OF st ext n [unfolded sp_def]] 
  have w: "1 \<le> or_int (sp_max_sequence_length sp) 512" "1 \<le> or_int (sp_num_inference_steps sp) 50" "prompt_hidden_size p = Inr hidden"
    using set by (simp_all add: qwen_setup_def)
  note e' = e [folded sp_def, OF w(1)]
  note n1 = num_images_pos [OF n]
  note dims = padded_dims [OF n1 w(1)]
  have est: "1 \<le> estimate_packed_latent_seq_len sp" by (simp add: estimate_packed_latent_seq_len_def Let_def)
  note md = plan_metadata_qwen [where r = r and d = d and obj = obj and n = n and neg = neg, folded req_def, folded sp_def]
  show ?thesis
    by (simp add: qwen_state_decls_def metadata_int_Inr [OF md(3) n1] metadata_int_Inr [OF md(6) w(1)] metadata_int_Inr [OF md(7) est]
        metadata_int_Inr [OF md(8) w(2)] w(3) get_dflt_def md(4) declared_def qwen_tensors_def Let_def e' dims)
qed


lemma estimate_exact:
  "16 \<le> or_int (sp_height sp) 1024 \<Longrightarrow> 16 \<le> or_int (sp_width sp) 1024 \<Longrightarrow>
   estimate_packed_latent_seq_len sp = (or_int (sp_height sp) 1024 div 16) * (or_int (sp_width sp) 1024 div 16)"
proof -
  assume a: "16 \<le> or_int (sp_height sp) 1024" "16 \<le> or_int (sp_width sp) 1024"
  then have "1 \<le> or_int (sp_height sp) 1024 div 16" "1 \<le> or_int (sp_width sp) 1024 div 16" by linarith+
  moreover from this have "1 \<le> (or_int (sp_height sp) 1024 div 16) * (or_int (sp_width sp) 1024 div 16)"
    by (metis int_one_le_iff_zero_less mult_pos_pos)
  ultimately show ?thesis using a by (simp add: estimate_packed_latent_seq_len_def Let_def)
qed

text \<open>The state after the latents were prepared.\<close>

lemma qwen_prepared:
  fixes rp :: "pyval \<Rightarrow> string" and enc :: "string \<Rightarrow> 'v list" and z :: 'v
  assumes "qwen_setup p hidden (dq_sampling_params req)" and st: "qwen_text_encode rp p z enc req = Inr st"
    and ext: "extract_single_prompt rp req = Inr (prompt, neg)" and n: "num_images (dq_sampling_params req) = Inr n"
    and gen: "generators_fit (sp_generators (dq_sampling_params req)) n"
  defines "sp \<equiv> dq_sampling_params req"
  shows "qwen_latent_prepare p sp st = Inr (st\<lparr>qn_latents := Some [n, estimate_packed_latent_seq_len sp, qp_in_channels p],
      qn_img_shapes := [[(1, qn_height st div 8 div 2, qn_width st div 8 div 2)]],
      qn_txt_seq_lens := map_option (map sum_list) (qn_prompt_embeds_mask st),
      qn_negative_txt_seq_lens := map_option (map sum_list) (qn_negative_prompt_embeds_mask st),
      qn_guidance := (if qp_guidance_embeds p then Some [n] else None)\<rparr>)"
proof -
  have w: "1 \<le> or_int (sp_max_sequence_length sp) 512" "qp_vae_scale_factor p = 8" "qp_default_sample_size p = 128" "4 dvd qp_in_channels p"
    "16 \<le> or_int (sp_height sp) 1024" "16 \<le> or_int (sp_width sp) 1024" "sp_latents sp = None" "generators_fit (sp_generators sp) n"
    using assms(1) gen by (simp_all add: qwen_setup_def sp_def)
  note e = qwen_encoded [OF st ext n w(1) [unfolded sp_def], folded sp_def]
  have "int (length (qn_prompt_embeds st)) = n"
    unfolding e(1) by (rule padded_dims(1) [OF num_images_pos [OF n] w(1)])
  then show ?thesis
    using w by (simp add: qwen_latent_prepare_def Let_def prepare_qwen_latents_shape estimate_exact e(5,6))
qed

text \<open>If the latents can be prepared, a list of generators has one for each image.\<close>

lemma qwen_generators:
  fixes rp :: "pyval \<Rightarrow> string" and enc :: "string \<Rightarrow> 'v list" and z :: 'v
  assumes "qwen_setup p hidden (dq_sampling_params req)" and st: "qwen_text_encode rp p z enc req = Inr st"
    and ext: "extract_single_prompt rp req = Inr (prompt, neg)" and n: "num_images (dq_sampling_params req) = Inr n"
    and "qwen_latent_prepare p (dq_sampling_params req) st = Inr st1"
  shows "generators_fit (sp_generators (dq_sampling_params req)) n"
proof -
  have w: "1 \<le> or_int (sp_max_sequence_length (dq_sampling_params req)) 512" "sp_latents (dq_sampling_params req) = None"
    using assms(1) by (simp_all add: qwen_setup_def)
  have "int (length (qn_prompt_embeds st)) = n"
    unfolding qwen_encoded(1) [OF st ext n w(1)] by (rule padded_dims(1) [OF num_images_pos [OF n] w(1)])
  then show ?thesis
    using assms(5) w(2) by (auto simp: qwen_latent_prepare_def prepare_qwen_latents_def Let_def bind_res_eq_Inr split: if_splits)
qed

lemma default_sigmas_length [simp]: "length (default_sigmas n) = nat n"
  by (simp add: default_sigmas_def)

lemma qwen_timesteps_prepared:
  assumes "qwen_sched_ok (qp_sched p)" "qn_latents st = Some lat" "2 \<le> length lat"
  shows "\<exists>ts. qwen_timestep_prepare p sigmas st = Inr (st\<lparr>qn_timesteps := Some ts, qn_num_steps := int (length ts), qn_scheduler := True\<rparr>)
    \<and> length ts = (case sigmas of None \<Rightarrow> nat (qn_num_steps st) | Some l \<Rightarrow> length l)"
proof -
  define s where "s = (case sigmas of None \<Rightarrow> default_sigmas (qn_num_steps st) | Some l \<Rightarrow> l)"
  have ok: "qs_accepts_sigmas (qp_sched p)" "length (qs_from_sigmas (qp_sched p) l mu) = length l" for l mu
    using assms(1) by (simp_all add: qwen_sched_ok_def)
  obtain mu where mu: "calculate_shift (of_int (lat ! 1)) (case qs_base_image_seq_len (qp_sched p) of None \<Rightarrow> 256 | Some v \<Rightarrow> v)
      (case qs_max_image_seq_len (qp_sched p) of None \<Rightarrow> 4096 | Some v \<Rightarrow> v) (case qs_base_shift (qp_sched p) of None \<Rightarrow> 1 / 2 | Some v \<Rightarrow> v)
      (case qs_max_shift (qp_sched p) of None \<Rightarrow> 115 / 100 | Some v \<Rightarrow> v) = Inr mu"
    using assms(1) by (simp add: calculate_shift_def qwen_sched_ok_def Let_def)
  show ?thesis
    unfolding qwen_timestep_prepare_def assms(2) option.case Let_def mu s_def [symmetric]
    by (intro exI [of _ "qs_from_sigmas (qp_sched p) s mu"]) (use assms(3) in \<open>simp add: retrieve_timesteps_def ok Let_def s_def split: option.split\<close>)
qed

text \<open>
  Padding is invisible to the transformer: every chunk of a request calls it with exactly the embeddings and masks that the
  text encoder produced for the prompt and, with guidance, for the negative prompt, although the state
  stores and migrates them padded.
\<close>

theorem qwen_prompt_unpadded:
  fixes rp :: "pyval \<Rightarrow> string" and enc :: "string \<Rightarrow> 'v list" and z :: 'v and req :: diffusion_request
  defines "sp \<equiv> dq_sampling_params req"
  assumes set: "qwen_setup p hidden sp" "qwen_sched_ok (qp_sched p)" and st: "qwen_text_encode rp p z enc req = Inr st"
    and ext: "extract_single_prompt rp req = Inr (prompt, neg)" and n: "num_images sp = Inr n"
    and st1: "qwen_latent_prepare p sp st = Inr st1" "qwen_timestep_prepare p (sp_sigmas sp) st1 = Inr st2"
    and dn: "qwen_denoise sr st2 = Inr (x, y, steps, st3)"
  shows "(let e = (\<lambda>s. encode_prompt enc s n (or_int (sp_max_sequence_length sp) 512))
    in x = (Some (fst (e prompt)), Some (snd (e prompt)))
     \<and> y = (if qn_do_true_cfg st2 then (Some (fst (e (the neg))), Some (snd (e (the neg)))) else (None, None))
     \<and> (qn_do_true_cfg st2 \<longleftrightarrow> or_rat (sp_true_cfg_scale sp) 4 > 1 \<and> neg \<noteq> None))"
proof -
  have w: "1 \<le> or_int (sp_max_sequence_length sp) 512" using set by (simp add: qwen_setup_def)
  note e = qwen_encoded [OF st ext n [unfolded sp_def] w [unfolded sp_def], folded sp_def]
  note trim = trim_padded [OF num_images_pos [OF n] w, where enc = enc and z = z]
  have gen: "generators_fit (sp_generators sp) n"
    using qwen_generators [OF set(1) [unfolded sp_def] st ext n [unfolded sp_def]] st1(1) by (simp add: sp_def)
  have p1: "st1 = st\<lparr>qn_latents := Some [n, estimate_packed_latent_seq_len sp, qp_in_channels p],
      qn_img_shapes := [[(1, qn_height st div 8 div 2, qn_width st div 8 div 2)]],
      qn_txt_seq_lens := map_option (map sum_list) (qn_prompt_embeds_mask st),
      qn_negative_txt_seq_lens := map_option (map sum_list) (qn_negative_prompt_embeds_mask st),
      qn_guidance := (if qp_guidance_embeds p then Some [n] else None)\<rparr>"
    using qwen_prepared [OF set(1) [unfolded sp_def] st ext n [unfolded sp_def] gen [unfolded sp_def], folded sp_def] st1(1) by simp
  have lat: "qn_latents st1 = Some [n, estimate_packed_latent_seq_len sp, qp_in_channels p]" by (simp add: p1)
  have len2: "2 \<le> length [n, estimate_packed_latent_seq_len sp, qp_in_channels p]" by simp
  obtain ts where p2: "st2 = st1\<lparr>qn_timesteps := Some ts, qn_num_steps := int (length ts), qn_scheduler := True\<rparr>"
    using qwen_timesteps_prepared [OF set(2) lat len2, of "sp_sigmas sp"] st1(2) by auto
  have xy: "x = trim_prompt_to_seq_lens (Some (qn_prompt_embeds st)) (qn_prompt_embeds_mask st) (map_option (map sum_list) (qn_prompt_embeds_mask st))"
    "y = trim_prompt_to_seq_lens (qn_negative_prompt_embeds st) (qn_negative_prompt_embeds_mask st)
           (map_option (map sum_list) (qn_negative_prompt_embeds_mask st))"
    using dn by (simp_all add: qwen_denoise_def p2 p1 Let_def)
  have cfg: "qn_do_true_cfg st2 \<longleftrightarrow> or_rat (sp_true_cfg_scale sp) 4 > 1 \<and> neg \<noteq> None" using e(12) by (simp add: p2 p1)
  let ?e = "\<lambda>s. encode_prompt enc s n (or_int (sp_max_sequence_length sp) 512)"
  have "y = (if qn_do_true_cfg st2 then (Some (fst (?e (the neg))), Some (snd (?e (the neg)))) else (None, None))"
  proof (cases "or_rat (sp_true_cfg_scale sp) 4 > 1 \<and> neg \<noteq> None")
    case True
    then show ?thesis unfolding xy e(3,4) if_P [OF True] using trim cfg by simp
  next
    case False
    then show ?thesis unfolding xy e(3,4) if_not_P [OF False] using cfg by (simp add: trim_prompt_to_seq_lens_def)
  qed
  moreover have "x = (Some (fst (?e prompt)), Some (snd (?e prompt)))" unfolding xy(1) e(1,2) by (rule trim)
  ultimately show ?thesis unfolding Let_def using cfg by simp
qed

text \<open>
  C39: The decoded image fits its declared layout exactly if its height and width are multiples of 16, for a request of at least 16 by 16 pixels
  that brings no latents along. The packing rounds every
  other size down, the layout does not, and the slice that a migration between the decoding and the final group takes then exceeds the tensor: the source
  rank raises.
\<close>

theorem qwen_decoded_layout_exact:
  fixes rp :: "pyval \<Rightarrow> string" and enc :: "string \<Rightarrow> 'v list" and z :: 'v and r :: runtime_request and d :: int and obj :: pyval
    and T :: "'w tensor"
  defines "req \<equiv> rq_diffusion_request r"
  defines "sp \<equiv> dq_sampling_params req"
  assumes set: "qwen_setup p hidden sp" and st: "qwen_text_encode rp p z enc req = Inr st"
    and ext: "extract_single_prompt rp req = Inr (prompt, neg)" and n: "num_images sp = Inr n"
    and st1: "qwen_latent_prepare p sp st = Inr st1" and out: "qn_output_type st \<noteq> ''latent''"
    and vae: "\<And>b c h w. decode [b, c, 1, h, w] = [b, 3, 1, 8 * h, 8 * w]"
    and T: "qwen_decode p decode st1 = Inr (tn_shape T)" "parse_torch_dtype known (qp_vae_dtype p) = Inr (tn_dtype T)"
  shows "\<exists>shape dt. qwen_decoded_decl p (plan_metadata (qwen_plan_args d obj r n neg)) = Inr (''value'', shape, dt)
     \<and> (shape = tn_shape T \<longleftrightarrow> 16 dvd or_int (sp_height sp) 1024 \<and> 16 dvd or_int (sp_width sp) 1024)
     \<and> (shape \<noteq> tn_shape T \<longrightarrow>
          tensor_slice_view known T \<lparr>ts_path = [''value''], ts_offset = zeros shape, ts_shape = shape, ts_dtype = dt\<rparr> = Inl RuntimeError)"
proof -
  let ?H = "or_int (sp_height sp) 1024" and ?W = "or_int (sp_width sp) 1024"
  have w: "1 \<le> or_int (sp_max_sequence_length sp) 512" "qp_vae_scale_factor p = 8" "qp_default_sample_size p = 128" "4 dvd qp_in_channels p"
    "16 \<le> ?H" "16 \<le> ?W"
    using set by (simp_all add: qwen_setup_def)
  note e = qwen_encoded [OF st ext n [unfolded sp_def] w(1) [unfolded sp_def], folded sp_def]
  note n1 = num_images_pos [OF n]
  have hw: "qn_height st = ?H" "qn_width st = ?W" by (simp_all add: e(5,6) w(2,3))
  have gen: "generators_fit (sp_generators sp) n"
    using qwen_generators [OF set(1) [unfolded sp_def] st ext n [unfolded sp_def]] st1 by (simp add: sp_def)
  have p1: "qn_latents st1 = Some [n, (?H div 16) * (?W div 16), qp_in_channels p]" "qn_height st1 = ?H" "qn_width st1 = ?W"
    "qn_output_type st1 = qn_output_type st"
    using qwen_prepared [OF set(1) [unfolded sp_def] st ext n [unfolded sp_def] gen [unfolded sp_def], folded sp_def] st1 w(5,6) hw
    by (auto simp: estimate_exact)
  have shape: "tn_shape T = [n, 3, 8 * (2 * (?H div 16)), 8 * (2 * (?W div 16))]"
    using T(1) out w(2,4) by (auto simp: qwen_decode_def p1 unpack_latents_def shape_only_def reshape_def permute_def Let_def vae algebra_simps)
  note md = plan_metadata_qwen [where r = r and d = d and obj = obj and n = n and neg = neg, folded req_def, folded sp_def]
  have max: "max 1 ?H = ?H" "max 1 ?W = ?W" "1 \<le> ?H" "1 \<le> ?W" using w by simp_all
  have decl: "qwen_decoded_decl p (plan_metadata (qwen_plan_args d obj r n neg)) = Inr (''value'', [n, 3, ?H, ?W], qp_vae_dtype p)"
    using out
    by (simp add: qwen_decoded_decl_def metadata_int_Inr [OF md(3) n1] metadata_int_Inr [OF md(1)[unfolded max] max(3)]
        metadata_int_Inr [OF md(2)[unfolded max] max(4)] get_dflt_def md(5) e(8))
  have dv: "k = 16 * (k div 16) \<longleftrightarrow> 16 dvd k" "16 * (k div 16) \<le> k" for k :: int by presburger+
  have eq: "[n, 3, ?H, ?W] = tn_shape T \<longleftrightarrow> 16 dvd ?H \<and> 16 dvd ?W" by (simp add: shape dv(1))
  have "tensor_slice_view known T \<lparr>ts_path = [''value''], ts_offset = zeros [n, 3, ?H, ?W], ts_shape = [n, 3, ?H, ?W], ts_dtype = qp_vae_dtype p\<rparr>
      = Inl RuntimeError" if "[n, 3, ?H, ?W] \<noteq> tn_shape T"
  proof -
    have "\<exists>i < length (tn_shape T). zeros [n, 3, ?H, ?W] ! i + [n, 3, ?H, ?W] ! i > tn_shape T ! i"
    proof (cases "16 dvd ?H")
      case False
      then have "16 * (?H div 16) < ?H" using dv [of ?H] by linarith
      then show ?thesis by (intro exI [of _ 2]) (simp add: shape zeros_def)
    next
      case True
      then have "16 * (?W div 16) < ?W" using dv [of ?W] that eq by linarith
      then show ?thesis by (intro exI [of _ 3]) (simp add: shape zeros_def)
    qed
    then show ?thesis using T(2) by (simp add: tensor_slice_view_def)
  qed
  then show ?thesis using decl eq by (intro exI conjI) auto
qed


text \<open>
  C40: Noise levels of a request's own must be as many as its steps. The scheduler returns a timestep for each of them, but the plan and
  the layout of the timesteps count the steps: the declared layout is that of the tensor exactly if the two numbers agree, and with
  more noise levels than steps the chunks of the plan never reach the last one, so that the state that goes to the decoder is not fully denoised and still
  carries its scheduler. The request brings no latents along, and as many generators as images if it brings a list of them.
\<close>

theorem qwen_custom_sigmas:
  fixes rp :: "pyval \<Rightarrow> string" and enc :: "string \<Rightarrow> 'v list" and z :: 'v and r :: runtime_request and d :: int and obj :: pyval
  defines "req \<equiv> rq_diffusion_request r"
  defines "sp \<equiv> dq_sampling_params req"
  assumes set: "qwen_setup p hidden sp" "qwen_sched_ok (qp_sched p)" and st: "qwen_text_encode rp p z enc req = Inr st"
    and ext: "extract_single_prompt rp req = Inr (prompt, neg)" and n: "num_images sp = Inr n" "generators_fit (sp_generators sp) n" and sig: "sp_sigmas sp = Some sigmas"
  shows "\<exists>st1 st2. qwen_latent_prepare p sp st = Inr st1 \<and> qwen_timestep_prepare p (sp_sigmas sp) st1 = Inr st2
     \<and> (declared (qwen_state_decls p (plan_metadata (qwen_plan_args d obj r n neg)) ''state_timestep'') = Some (qwen_tensors hidden st2)
         \<longleftrightarrow> int (length sigmas) = or_int (sp_num_inference_steps sp) 50)
     \<and> (or_int (sp_num_inference_steps sp) 50 < int (length sigmas) \<and> 0 \<le> sr_start sr \<and> sr_end sr \<le> or_int (sp_num_inference_steps sp) 50 \<longrightarrow>
          (\<exists>x y. qwen_denoise sr st2 = Inr (x, y, [sr_start sr..sr_end sr - 1], st2)) \<and> qn_scheduler st2)"
proof -
  have w: "1 \<le> or_int (sp_max_sequence_length sp) 512" using set by (simp add: qwen_setup_def)
  note e = qwen_encoded [OF st ext n(1) [unfolded sp_def] w [unfolded sp_def], folded sp_def]
  note p1 = qwen_prepared [OF set(1) [unfolded sp_def] st ext n(1) [unfolded sp_def] n(2) [unfolded sp_def], folded sp_def]
  obtain st1 where st1: "qwen_latent_prepare p sp st = Inr st1"
    "st1 = st\<lparr>qn_latents := Some [n, estimate_packed_latent_seq_len sp, qp_in_channels p],
      qn_img_shapes := [[(1, qn_height st div 8 div 2, qn_width st div 8 div 2)]],
      qn_txt_seq_lens := map_option (map sum_list) (qn_prompt_embeds_mask st),
      qn_negative_txt_seq_lens := map_option (map sum_list) (qn_negative_prompt_embeds_mask st),
      qn_guidance := (if qp_guidance_embeds p then Some [n] else None)\<rparr>" using p1 by blast
  have lat: "qn_latents st1 = Some [n, estimate_packed_latent_seq_len sp, qp_in_channels p]" by (simp add: st1(2))
  have len2: "2 \<le> length [n, estimate_packed_latent_seq_len sp, qp_in_channels p]" by simp
  obtain ts where ts: "qwen_timestep_prepare p (sp_sigmas sp) st1
      = Inr (st1\<lparr>qn_timesteps := Some ts, qn_num_steps := int (length ts), qn_scheduler := True\<rparr>)" "length ts = length sigmas"
    using qwen_timesteps_prepared [OF set(2) lat len2, of "sp_sigmas sp"] by (auto simp: sig)
  let ?st2 = "st1\<lparr>qn_timesteps := Some ts, qn_num_steps := int (length ts), qn_scheduler := True\<rparr>"
  have base: "qwen_tensors hidden ?st2 = qwen_tensors hidden st @ (''latents'', [n, estimate_packed_latent_seq_len sp, qp_in_channels p])
      # (if qp_guidance_embeds p then [(''guidance'', [n])] else []) @ [(''timesteps'', [int (length ts)])]"
    by (simp add: qwen_tensors_def Let_def st1(2) e(9-11))
  note dec = qwen_decls [OF set(1) [unfolded sp_def req_def] st [unfolded req_def] ext [unfolded req_def] n(1) [unfolded sp_def req_def],
      folded req_def, folded sp_def]
  have "declared (qwen_state_decls p (plan_metadata (qwen_plan_args d obj r n neg)) ''state_timestep'') = Some (qwen_tensors hidden ?st2)
      \<longleftrightarrow> int (length sigmas) = or_int (sp_num_inference_steps sp) 50"
    unfolding base dec by (auto simp: has_latents_def has_timesteps_def ts(2))
  moreover have "\<exists>x y. qwen_denoise sr ?st2 = Inr (x, y, [sr_start sr..sr_end sr - 1], ?st2)"
    if "0 \<le> sr_start sr" "sr_end sr < int (length sigmas)"
    using that lat by (simp add: qwen_denoise_def Let_def ts(2))
  ultimately show ?thesis using st1(1) ts(1) by (intro exI [of _ st1] exI [of _ ?st2]) auto
qed

section \<open>Compilation\<close>

text \<open>The Qwen-Image compiler accepts a request exactly under these conditions; a missing number of outputs raises.\<close>

lemma qwen_compile_accepts:
  fixes r :: runtime_request
  defines "sp \<equiv> dq_sampling_params (rq_diffusion_request r)"
  assumes "mk_runtime_request uuid r0 = Inr r"
  shows "(\<exists>pl. qwen_compile_request rp d obj r = Inr pl) \<longleftrightarrow>
    1 \<le> or_int (sp_num_inference_steps sp) 50 \<and> 1 \<le> or_int (sp_max_sequence_length sp) 512
    \<and> length (dq_prompts (rq_diffusion_request r)) = 1 \<and> sp_num_outputs_per_prompt sp \<noteq> None"
proof -
  have chunk: "1 \<le> rq_denoise_chunk_size r"
    using assms(2) by (auto simp: mk_runtime_request_def Let_def split: if_splits)
  have plan: "\<exists>pl. build_chunked_dit_plan (qwen_plan_args d obj r n neg) = Inr pl"
    if "1 \<le> or_int (sp_num_inference_steps sp) 50" "1 \<le> or_int (sp_max_sequence_length sp) 512" for n neg
    using that chunk by (intro plan_exists_aux)
      (simp_all add: qwen_plan_args_def Let_def sp_def estimate_packed_latent_seq_len_def)
  have ext: "(\<exists>q. extract_single_prompt rp (rq_diffusion_request r) = Inr q) \<longleftrightarrow> length (dq_prompts (rq_diffusion_request r)) = 1"
    by (cases "dq_prompts (rq_diffusion_request r)"; cases "tl (dq_prompts (rq_diffusion_request r))"; cases "hd (dq_prompts (rq_diffusion_request r))")
      (auto simp: extract_single_prompt_def Let_def)
  have img: "(\<exists>n. num_images sp = Inr n) \<longleftrightarrow> sp_num_outputs_per_prompt sp \<noteq> None"
    by (auto simp: num_images_def split: option.splits)
  show ?thesis
    unfolding ext [symmetric] img [symmetric] qwen_compile_request_def sp_def [symmetric] Let_def
    using plan by (auto simp: bind_res_eq_Inr not_less split: prod.splits)
qed


section \<open>A concrete image request\<close>

definition ex_qwen_pipeline :: qwen_pipeline where
  "ex_qwen_pipeline = \<lparr>qp_default_sample_size = 128, qp_vae_scale_factor = 8, qp_in_channels = 64, qp_guidance_embeds = False,
     qp_prompt_hidden = [None, Some 3584], qp_text_encoder_dtype = Some ''torch.bfloat16'', qp_transformer_dtype = None,
     qp_vae_dtype = ''torch.bfloat16'',
     qp_sched = \<lparr>qs_base_image_seq_len = None, qs_max_image_seq_len = None, qs_base_shift = None, qs_max_shift = None,
       qs_accepts_timesteps = False, qs_accepts_sigmas = True, qs_from_timesteps = (\<lambda>_ _. []),
       qs_from_sigmas = (\<lambda>s mu. map (\<lambda>x. x * 1000) s), qs_from_steps = (\<lambda>_ _. [])\<rparr>\<rparr>"

definition ex_qwen_sampling :: "rat list option \<Rightarrow> sampling_params" where
  "ex_qwen_sampling sigmas = ex_sampling\<lparr>sp_height := Some 1000, sp_max_sequence_length := Some 8, sp_sigmas := sigmas\<rparr>"

definition ex_qwen_request :: "rat list option \<Rightarrow> runtime_request" where
  "ex_qwen_request sigmas = \<lparr>rq_diffusion_request = \<lparr>
     dq_prompts = [DictPrompt [(''prompt'', PyStr ''a cat''), (''negative_prompt'', PyStr ''blurry'')]],
     dq_sampling_params = ex_qwen_sampling sigmas, dq_request_ids = [''q'']\<rparr>,
     rq_request_id = ''q'', rq_denoise_chunk_size = 2, rq_priority = 0, rq_group_id = None\<rparr>"

text \<open>An encoder that gives one number per character.\<close>

definition ex_encoder :: "string \<Rightarrow> int list" where
  "ex_encoder s = map (\<lambda>c. of_nat (of_char c :: nat)) s"

lemma ex_qwen:
  "qwen_setup ex_qwen_pipeline 3584 (dq_sampling_params (rq_diffusion_request (ex_qwen_request sigmas)))"
  "qwen_sched_ok (qp_sched ex_qwen_pipeline)"
  "extract_single_prompt (\<lambda>_. []) (rq_diffusion_request (ex_qwen_request sigmas)) = Inr (''a cat'', Some ''blurry'')"
  "num_images (dq_sampling_params (rq_diffusion_request (ex_qwen_request sigmas))) = Inr 1"
  "sp_sigmas (dq_sampling_params (rq_diffusion_request (ex_qwen_request sigmas))) = sigmas"
  "or_int (sp_num_inference_steps (dq_sampling_params (rq_diffusion_request (ex_qwen_request sigmas)))) 50 = 4"
  "or_int (sp_height (dq_sampling_params (rq_diffusion_request (ex_qwen_request sigmas)))) 1024 = 1000"
  "or_int (sp_max_sequence_length (dq_sampling_params (rq_diffusion_request (ex_qwen_request sigmas)))) 512 = 8"
  "or_rat (sp_true_cfg_scale (dq_sampling_params (rq_diffusion_request (ex_qwen_request sigmas)))) 4 = 4"
  by (simp_all add: qwen_setup_def qwen_sched_ok_def ex_qwen_pipeline_def ex_qwen_request_def ex_qwen_sampling_def ex_sampling_def or_int_def
      prompt_hidden_size_def extract_single_prompt_def get_dflt_def num_images_def or_rat_def)

lemma ex_qwen_sp: "dq_sampling_params (rq_diffusion_request (ex_qwen_request sigmas)) = ex_qwen_sampling sigmas"
    "generators_fit (sp_generators (dq_sampling_params (rq_diffusion_request (ex_qwen_request sigmas)))) n"
    "sp_sigmas (ex_qwen_sampling sigmas) = sigmas"
  by (simp_all add: ex_qwen_request_def ex_qwen_sampling_def ex_sampling_def generators_fit_def)

lemma ex_qwen_encode:
  "\<exists>st. qwen_text_encode (\<lambda>_. []) ex_qwen_pipeline 0 ex_encoder (rq_diffusion_request (ex_qwen_request sigmas)) = Inr st
     \<and> qn_output_type st = ''pil''"
  unfolding qwen_text_encode_def Let_def ex_qwen
  by (simp add: ex_qwen_request_def ex_qwen_sampling_def ex_sampling_def or_str_def case_prod_beta)


theorem qwen_prompt_unpadded_witness:
  "\<exists>st st1 st2 x y steps st3. qwen_text_encode (\<lambda>_. []) ex_qwen_pipeline 0 ex_encoder (rq_diffusion_request (ex_qwen_request None)) = Inr st
    \<and> qwen_latent_prepare ex_qwen_pipeline (ex_qwen_sampling None) st = Inr st1 \<and> qwen_timestep_prepare ex_qwen_pipeline None st1 = Inr st2
    \<and> qwen_denoise \<lparr>sr_start = 0, sr_end = 2\<rparr> st2 = Inr (x, y, steps, st3)
    \<and> fst x = Some [[97, 32, 99, 97, 116]] \<and> fst y = Some [[98, 108, 117, 114, 114, 121]]"
proof -
  obtain st where st: "qwen_text_encode (\<lambda>_. []) ex_qwen_pipeline 0 ex_encoder (rq_diffusion_request (ex_qwen_request None)) = Inr st"
    using ex_qwen_encode by blast
  obtain st1 where st1: "qwen_latent_prepare ex_qwen_pipeline (ex_qwen_sampling None) st = Inr st1" "\<exists>lat. qn_latents st1 = Some lat \<and> 2 \<le> length lat"
    by (auto simp: qwen_prepared [OF ex_qwen(1) st ex_qwen(3,4) ex_qwen_sp(2), unfolded ex_qwen_sp(1)])
  then obtain lat where lat: "qn_latents st1 = Some lat" "2 \<le> length lat" by blast
  obtain ts where st2: "qwen_timestep_prepare ex_qwen_pipeline None st1
      = Inr (st1\<lparr>qn_timesteps := Some ts, qn_num_steps := int (length ts), qn_scheduler := True\<rparr>)"
    using qwen_timesteps_prepared [OF ex_qwen(2) lat] by blast
  let ?st2 = "st1\<lparr>qn_timesteps := Some ts, qn_num_steps := int (length ts), qn_scheduler := True\<rparr>"
  have st2': "qwen_timestep_prepare ex_qwen_pipeline (sp_sigmas (dq_sampling_params (rq_diffusion_request (ex_qwen_request None)))) st1 = Inr ?st2"
    by (simp only: ex_qwen(5) st2)
  have st1': "qwen_latent_prepare ex_qwen_pipeline (dq_sampling_params (rq_diffusion_request (ex_qwen_request None))) st = Inr st1"
    by (simp only: ex_qwen_sp st1)
  obtain x y steps st3 where dn: "qwen_denoise \<lparr>sr_start = 0, sr_end = 2\<rparr> ?st2 = Inr (x, y, steps, st3)"
    using lat by (simp add: qwen_denoise_def Let_def)
  have "fst x = Some (fst (encode_prompt ex_encoder ''a cat'' 1 8)) \<and> fst y = Some (fst (encode_prompt ex_encoder ''blurry'' 1 8))"
    using qwen_prompt_unpadded [OF ex_qwen(1,2) st ex_qwen(3,4) st1' st2' dn] by (simp add: ex_qwen Let_def)
  moreover have "fst (encode_prompt ex_encoder ''a cat'' 1 8) = [[97, 32, 99, 97, 116]]"
    "fst (encode_prompt ex_encoder ''blurry'' 1 8) = [[98, 108, 117, 114, 114, 121]]"
    by (simp_all add: encode_prompt_eq ex_encoder_def)
  ultimately show ?thesis
    using st st1(1) st2 dn
    by (intro exI [of _ st] exI [of _ st1] exI [of _ ?st2] exI [of _ x] exI [of _ y] exI [of _ steps] exI [of _ st3]) simp
qed

theorem qwen_decoded_layout_exact_witness:
  "\<exists>st st1 (T :: int tensor) shape dt. qwen_text_encode (\<lambda>_. []) ex_qwen_pipeline 0 ex_encoder (rq_diffusion_request (ex_qwen_request None)) = Inr st
    \<and> qwen_latent_prepare ex_qwen_pipeline (ex_qwen_sampling None) st = Inr st1
    \<and> qwen_decode ex_qwen_pipeline (\<lambda>s. [s ! 0, 3, 1, 8 * s ! 3, 8 * s ! 4]) st1 = Inr (tn_shape T)
    \<and> qwen_decoded_decl ex_qwen_pipeline (plan_metadata (qwen_plan_args 1 PyNone (ex_qwen_request None) 1 (Some ''blurry''))) = Inr (''value'', shape, dt)
    \<and> tensor_slice_view (\<lambda>_. True) T \<lparr>ts_path = [''value''], ts_offset = zeros shape, ts_shape = shape, ts_dtype = dt\<rparr> = Inl RuntimeError"
proof -
  let ?dec = "\<lambda>s :: int list. [s ! 0, 3, 1, 8 * s ! 3, 8 * s ! 4]"
  obtain st where st: "qwen_text_encode (\<lambda>_. []) ex_qwen_pipeline 0 ex_encoder (rq_diffusion_request (ex_qwen_request None)) = Inr st"
    "qn_output_type st = ''pil''" using ex_qwen_encode by blast
  have out: "qn_output_type st \<noteq> ''latent''" by (simp add: st(2))
  note p = qwen_prepared [OF ex_qwen(1) st(1) ex_qwen(3,4) ex_qwen_sp(2), unfolded ex_qwen_sp(1)]
  obtain st1 where st1: "qwen_latent_prepare ex_qwen_pipeline (ex_qwen_sampling None) st = Inr st1" using p by blast
  have st1': "qwen_latent_prepare ex_qwen_pipeline (dq_sampling_params (rq_diffusion_request (ex_qwen_request None))) st = Inr st1"
    by (simp only: ex_qwen_sp st1)
  have "\<exists>s. qwen_decode ex_qwen_pipeline ?dec st1 = Inr s"
    using p st1 qwen_encoded(5,6) [OF st(1) ex_qwen(3,4)]
    by (auto simp: qwen_decode_def unpack_latents_def shape_only_def reshape_def permute_def Let_def estimate_packed_latent_seq_len_def
        ex_qwen ex_qwen_pipeline_def ex_qwen_request_def ex_qwen_sampling_def ex_sampling_def or_int_def)
  then obtain s where s: "qwen_decode ex_qwen_pipeline ?dec st1 = Inr s" by blast
  obtain dt where dt: "parse_torch_dtype (\<lambda>_. True) (qp_vae_dtype ex_qwen_pipeline) = Inr dt" by (simp add: parse_torch_dtype_def Let_def)
  define T :: "int tensor" where "T = \<lparr>tn_shape = s, tn_dtype = dt, tn_data = (\<lambda>_. 0)\<rparr>"
  have T: "qwen_decode ex_qwen_pipeline ?dec st1 = Inr (tn_shape T)" "parse_torch_dtype (\<lambda>_. True) (qp_vae_dtype ex_qwen_pipeline) = Inr (tn_dtype T)"
    by (simp_all add: T_def s dt)
  have vae: "?dec [b, c, 1, h, w] = [b, 3, 1, 8 * h, 8 * w]" for b c h w by simp
  obtain shape dt' where "qwen_decoded_decl ex_qwen_pipeline (plan_metadata (qwen_plan_args 1 PyNone (ex_qwen_request None) 1 (Some ''blurry'')))
      = Inr (''value'', shape, dt')"
    "tensor_slice_view (\<lambda>_. True) T \<lparr>ts_path = [''value''], ts_offset = zeros shape, ts_shape = shape, ts_dtype = dt'\<rparr> = Inl RuntimeError"
    using qwen_decoded_layout_exact [OF ex_qwen(1) st(1) ex_qwen(3,4) st1' out vae T, of 1 PyNone] by (auto simp: ex_qwen(7))
  then show ?thesis using st(1) st1 T(1) by blast
qed

theorem qwen_custom_sigmas_witness:
  "\<exists>st st1 st2 x y. qwen_text_encode (\<lambda>_. []) ex_qwen_pipeline 0 ex_encoder (rq_diffusion_request (ex_qwen_request (Some (replicate 6 1)))) = Inr st
    \<and> qwen_latent_prepare ex_qwen_pipeline (ex_qwen_sampling (Some (replicate 6 1))) st = Inr st1
    \<and> qwen_timestep_prepare ex_qwen_pipeline (Some (replicate 6 1)) st1 = Inr st2
    \<and> qwen_denoise \<lparr>sr_start = 2, sr_end = 4\<rparr> st2 = Inr (x, y, [2..3], st2) \<and> qn_scheduler st2"
proof -
  let ?s = "Some (replicate 6 1) :: rat list option"
  obtain st where st: "qwen_text_encode (\<lambda>_. []) ex_qwen_pipeline 0 ex_encoder (rq_diffusion_request (ex_qwen_request ?s)) = Inr st"
    using ex_qwen_encode by blast
  from qwen_custom_sigmas [OF ex_qwen(1,2) st ex_qwen(3,4) ex_qwen_sp(2) ex_qwen(5), of 1 PyNone "\<lparr>sr_start = 2, sr_end = 4\<rparr>"]
  show ?thesis using st unfolding ex_qwen_sp(1,3) ex_qwen(6) [unfolded ex_qwen_sp(1)] by auto
qed

end
