(* ===== verification/StateLayouts.thy ===== *)
theory StateLayouts
  imports QwenAdapter
begin

text \<open>
  What the migration relies on in an adapter, whatever the model. The stages of a request run one after the other, and each leaves a state that may
  be migrated to another group. The locale states what the stages do on their own: which tensors each of them adds, and which fields
  the codec declares for an artifact. Its lemmas follow the stages through a request: every stage of a plan is reached, the fields that are declared
  for its state are the tensors that the state then holds, and the data plane can slice each of them. The adapters of the two models provide
  the stages.
\<close>

section \<open>Stages of a request\<close>

text \<open>The last stage that ran; denoising with the chunks that ran so far.\<close>

datatype stage = TextStage | LatentStage | TimestepStage | DenoiseStage "step_range list"

fun run_chunks :: "(step_range \<Rightarrow> 'st \<Rightarrow> 'st res) \<Rightarrow> step_range list \<Rightarrow> 'st \<Rightarrow> 'st res" where
  "run_chunks f [] st = Inr st"
| "run_chunks f (c # cs) st = bind_res (f c st) (run_chunks f cs)"

fun state_at ::
  "'st res \<Rightarrow> ('st \<Rightarrow> 'st res) \<Rightarrow> ('st \<Rightarrow> 'st res) \<Rightarrow> (step_range \<Rightarrow> 'st \<Rightarrow> 'st res) \<Rightarrow> stage \<Rightarrow> 'st res" where
  "state_at enc prep tims den TextStage = enc"
| "state_at enc prep tims den LatentStage = bind_res enc prep"
| "state_at enc prep tims den TimestepStage = bind_res (bind_res enc prep) tims"
| "state_at enc prep tims den (DenoiseStage cs) = bind_res (bind_res (bind_res enc prep) tims) (run_chunks den cs)"

text \<open>The artifact that carries the state of a stage.\<close>

fun artifact_of :: "stage \<Rightarrow> string \<Rightarrow> bool" where
  "artifact_of TextStage aid = (aid = ''state_text'')"
| "artifact_of LatentStage aid = (aid = ''state_latent'')"
| "artifact_of TimestepStage aid = (aid = ''state_timestep'')"
| "artifact_of (DenoiseStage cs) aid = starts_with ''state_denoised'' aid"

text \<open>The chunks that ran are the first ones of a plan for the given number of steps.\<close>

fun stage_of_plan :: "int \<Rightarrow> stage \<Rightarrow> bool" where
  "stage_of_plan steps (DenoiseStage cs) \<longleftrightarrow> (\<exists>k rest. tiles k 0 steps (cs @ rest))"
| "stage_of_plan steps _ = True"

lemma tiles_less: "tiles k s e rs \<Longrightarrow> rs \<noteq> [] \<Longrightarrow> s < e"
proof (induction rs arbitrary: s)
  case (Cons r rs)
  then show ?case by (cases rs) force+
qed simp

lemma artifact_fields:
  assumes "artifact_of stage aid"
  shows "has_latents aid \<longleftrightarrow> stage \<noteq> TextStage" "has_timesteps aid \<longleftrightarrow> stage \<noteq> TextStage \<and> stage \<noteq> LatentStage"
  using assms by (cases stage; simp add: has_latents_def has_timesteps_def starts_with_def)+

text \<open>The slice that takes a whole field, and the tensors of a state that has the declared types.\<close>

definition whole_field :: "field_decl \<Rightarrow> tensor_slice_spec" where
  "whole_field x = (case x of (n, s, dt) \<Rightarrow> \<lparr>ts_path = [n], ts_offset = zeros s, ts_shape = s, ts_dtype = dt\<rparr>)"

definition holds_tensors ::
  "(string \<Rightarrow> bool) \<Rightarrow> (string \<Rightarrow> 'v tensor) \<Rightarrow> (string \<times> int list) list \<Rightarrow> field_decl list \<Rightarrow> bool" where
  "holds_tensors known H held l \<longleftrightarrow> (\<forall>(n, s) \<in> set held. tn_shape (H n) = s)
     \<and> (\<forall>(n, s, dt) \<in> set l. parse_torch_dtype known dt = Inr (tn_dtype (H n)))"

definition slices :: "(string \<Rightarrow> bool) \<Rightarrow> (string \<Rightarrow> 'v tensor) \<Rightarrow> field_decl list \<Rightarrow> bool" where
  "slices known H l \<longleftrightarrow> (\<forall>(n, s, dt) \<in> set l. case tensor_slice_view known (H n) (whole_field (n, s, dt)) of
     Inl _ \<Rightarrow> False | Inr V \<Rightarrow> tn_shape V = tn_shape (H n))"

lemma whole_field_view:
  assumes "tn_shape T = s" "parse_torch_dtype known dt = Inr (tn_dtype T)"
  shows "\<exists>V. tensor_slice_view known T (whole_field (n, s, dt)) = Inr V \<and> tn_shape V = tn_shape T"
  using assms by (auto simp: tensor_slice_view_def whole_field_def view_at_def zeros_def)

lemma held_slices:
  assumes "map (\<lambda>(n, s, dt). (n, s)) l = held" "holds_tensors known H held l"
  shows "slices known H l"
proof -
  have "case tensor_slice_view known (H n) (whole_field (n, s, dt)) of Inl _ \<Rightarrow> False | Inr V \<Rightarrow> tn_shape V = tn_shape (H n)"
    if x: "(n, s, dt) \<in> set l" for n s dt
  proof -
    have "(n, s) \<in> set held" using x by (force simp: assms(1) [symmetric])
    then have "tn_shape (H n) = s" "parse_torch_dtype known dt = Inr (tn_dtype (H n))"
      using x assms(2) by (auto simp: holds_tensors_def)
    from whole_field_view [OF this, of n] show ?thesis by auto
  qed
  then show ?thesis by (auto simp: slices_def)
qed

section \<open>The contract\<close>

text \<open>
  The fields of the three groups are those that a request asks for. The codec declares them by the name of the artifact; each stage adds
  those of its group and a chunk adds nothing. A state that is ready can be denoised, and remains so until the last step has run.
\<close>

locale staged_adapter =
  fixes encode_text :: "'r \<Rightarrow> 'st res"
    and prepare_noise :: "'r \<Rightarrow> 'st \<Rightarrow> 'st res"
    and set_timesteps :: "'r \<Rightarrow> 'st \<Rightarrow> 'st res"
    and denoise_chunk :: "'r \<Rightarrow> step_range \<Rightarrow> 'st \<Rightarrow> 'st res"
    and tensors :: "'r \<Rightarrow> 'st \<Rightarrow> (string \<times> int list) list"
    and decls :: "'r \<Rightarrow> string \<Rightarrow> field_decl list res"
    and text_fields :: "'r \<Rightarrow> (string \<times> int list) list"
    and latent_fields :: "'r \<Rightarrow> (string \<times> int list) list"
    and time_fields :: "'r \<Rightarrow> (string \<times> int list) list"
    and steps :: "'r \<Rightarrow> int"
    and ready :: "'r \<Rightarrow> 'st \<Rightarrow> bool"
    and admissible :: "'r \<Rightarrow> bool"
  assumes declares: "admissible r \<Longrightarrow> declared (decls r aid) = Some (text_fields r
      @ (if has_latents aid then latent_fields r else []) @ (if has_timesteps aid then time_fields r else []))"
    and encodes: "admissible r \<Longrightarrow> \<exists>st. encode_text r = Inr st \<and> tensors r st = text_fields r"
    and prepares: "admissible r \<Longrightarrow> encode_text r = Inr st \<Longrightarrow>
      \<exists>st1. prepare_noise r st = Inr st1 \<and> tensors r st1 = tensors r st @ latent_fields r"
    and sets_timesteps: "admissible r \<Longrightarrow> encode_text r = Inr st \<Longrightarrow> prepare_noise r st = Inr st1 \<Longrightarrow>
      \<exists>st2. set_timesteps r st1 = Inr st2 \<and> tensors r st2 = tensors r st1 @ time_fields r \<and> ready r st2"
    and denoises: "admissible r \<Longrightarrow> ready r st \<Longrightarrow>
      \<exists>st'. denoise_chunk r c st = Inr st' \<and> tensors r st' = tensors r st \<and> (sr_end c < steps r \<longrightarrow> ready r st')"
begin

lemma chunks_run:
  assumes "admissible r" "ready r st" "tiles k s (steps r) (cs @ rest)"
  shows "\<exists>st'. run_chunks (denoise_chunk r) cs st = Inr st' \<and> tensors r st' = tensors r st"
  using assms(2,3)
proof (induction cs arbitrary: st s)
  case (Cons c cs)
  obtain st1 where st1: "denoise_chunk r c st = Inr st1" "tensors r st1 = tensors r st" "sr_end c < steps r \<longrightarrow> ready r st1"
    using denoises [OF assms(1) Cons.prems(1)] by blast
  have t: "tiles k (sr_end c) (steps r) (cs @ rest)" using Cons.prems(2) by simp
  show ?case
  proof (cases cs)
    case Nil
    then show ?thesis using st1 by simp
  next
    case (Cons c' cs')
    then have "sr_end c < steps r" using tiles_less [OF t] by simp
    then obtain st2 where "run_chunks (denoise_chunk r) cs st1 = Inr st2" "tensors r st2 = tensors r st1"
      using Cons.IH [OF _ t] st1(3) by blast
    then show ?thesis using st1(1,2) by simp
  qed
qed simp

lemma stage_reached:
  assumes "admissible r" "stage_of_plan (steps r) stage"
  shows "\<exists>st. state_at (encode_text r) (prepare_noise r) (set_timesteps r) (denoise_chunk r) stage = Inr st
    \<and> tensors r st = text_fields r @ (if stage = TextStage then [] else latent_fields r)
        @ (if stage = TextStage \<or> stage = LatentStage then [] else time_fields r)"
proof -
  obtain st where st: "encode_text r = Inr st" "tensors r st = text_fields r" using encodes [OF assms(1)] by blast
  obtain st1 where st1: "prepare_noise r st = Inr st1" "tensors r st1 = tensors r st @ latent_fields r"
    using prepares [OF assms(1) st(1)] by blast
  obtain st2 where st2: "set_timesteps r st1 = Inr st2" "tensors r st2 = tensors r st1 @ time_fields r" "ready r st2"
    using sets_timesteps [OF assms(1) st(1) st1(1)] by blast
  show ?thesis
  proof (cases stage)
    case (DenoiseStage cs)
    then obtain k rest where "tiles k 0 (steps r) (cs @ rest)" using assms(2) by auto
    from chunks_run [OF assms(1) st2(3) this] show ?thesis using DenoiseStage st st1 st2 by auto
  qed (use st st1 st2 in simp_all)
qed

lemma every_stage_migrates:
  assumes "admissible r" "stage_of_plan (steps r) stage" "artifact_of stage aid"
  shows "\<exists>l st. decls r aid = Inr l
    \<and> state_at (encode_text r) (prepare_noise r) (set_timesteps r) (denoise_chunk r) stage = Inr st
    \<and> map (\<lambda>(n, s, dt). (n, s)) l = tensors r st
    \<and> (\<forall>H. holds_tensors known H (tensors r st) l \<longrightarrow> slices known H l)"
proof -
  obtain st where st: "state_at (encode_text r) (prepare_noise r) (set_timesteps r) (denoise_chunk r) stage = Inr st"
    "tensors r st = text_fields r @ (if stage = TextStage then [] else latent_fields r)
        @ (if stage = TextStage \<or> stage = LatentStage then [] else time_fields r)"
    using stage_reached [OF assms(1,2)] by blast
  have "declared (decls r aid) = Some (tensors r st)"
    unfolding declares [OF assms(1)] st(2) artifact_fields [OF assms(3)] by simp
  then obtain l where l: "decls r aid = Inr l" "map (\<lambda>(n, s, dt). (n, s)) l = tensors r st"
    by (cases "decls r aid") (auto simp: declared_def)
  show ?thesis using l st(1) held_slices [OF l(2)] by blast
qed

end

section \<open>Wan\<close>

text \<open>A request with everything that its stages use.\<close>

record wan_run =
  wr_pipeline :: wan_pipeline
  wr_timesteps :: "int \<Rightarrow> rat list"
  wr_compiler :: wan_compiler
  wr_hidden :: int
  wr_printer :: "pyval \<Rightarrow> string"
  wr_request :: runtime_request
  wr_images :: image_library
  wr_encode :: "int list \<Rightarrow> int list"

abbreviation wr_sp :: "wan_run \<Rightarrow> sampling_params" where
  "wr_sp w \<equiv> dq_sampling_params (rq_diffusion_request (wr_request w))"

definition wan_encoded :: "wan_run \<Rightarrow> wan_state res" where
  "wan_encoded w = wan_text_encode (wr_printer w) (wr_pipeline w) (wr_hidden w) (rq_diffusion_request (wr_request w))"

definition wan_prepared :: "wan_run \<Rightarrow> wan_state \<Rightarrow> wan_state res" where
  "wan_prepared w st = wan_latent_prepare (wr_pipeline w) (wr_images w) (wr_encode w) (rq_diffusion_request (wr_request w)) st"

definition wan_timed :: "wan_run \<Rightarrow> wan_state \<Rightarrow> wan_state res" where
  "wan_timed w st = Inr (wan_timestep_prepare (wr_timesteps w) st)"

definition wan_chunk :: "wan_run \<Rightarrow> step_range \<Rightarrow> wan_state \<Rightarrow> wan_state res" where
  "wan_chunk w c st = bind_res (wan_denoise (wr_pipeline w) c st) (\<lambda>(_, st'). Inr st')"

definition wan_decls :: "wan_run \<Rightarrow> string \<Rightarrow> field_decl list res" where
  "wan_decls w aid =
     bind_res (raw_image (rq_diffusion_request (wr_request w))) (\<lambda>raw.
       state_decls (wr_pipeline w) (plan_metadata (wan_plan_args (wr_compiler w) PyNone (wr_request w) (image_given raw))) aid)"

text \<open>The fields that a request asks for.\<close>

definition wan_text_fields :: "wan_run \<Rightarrow> (string \<times> int list) list" where
  "wan_text_fields w =
     (let e = [or_int (sp_num_outputs_per_prompt (wr_sp w)) 1, or_int (sp_max_sequence_length (wr_sp w)) 512, wr_hidden w];
          d = wp_default_guidance_scale (wr_pipeline w)
      in (''prompt_embeds'', e)
         # (if guidance_low d (wr_sp w) > 1 \<or> guidance_high d (wr_sp w) > 1 then [(''negative_prompt_embeds'', e)] else []))"

definition wan_latent_fields :: "wan_run \<Rightarrow> (string \<times> int list) list" where
  "wan_latent_fields w =
     (let p = wr_pipeline w; s = wp_vae_scale_spatial p; m = s * wp_patch_h p
      in [(''latents'', [or_int (sp_num_outputs_per_prompt (wr_sp w)) 1, wp_in_channels p,
            or_int (sp_num_frames (wr_sp w)) 81 div wp_vae_scale_temporal p + 1,
            round_size m (or_int (sp_height (wr_sp w)) 480) div s, round_size m (or_int (sp_width (wr_sp w)) 832) div s])])"

definition wan_steps :: "wan_run \<Rightarrow> int" where
  "wan_steps w = or_int (sp_num_inference_steps (wr_sp w)) 40"

definition wan_ready :: "wan_run \<Rightarrow> wan_state \<Rightarrow> bool" where
  "wan_ready w st \<longleftrightarrow> (\<exists>ts. wn_timesteps st = Some ts \<and> int (length ts) = wan_steps w) \<and> wn_latents st \<noteq> None \<and> wn_scheduler st"

text \<open>
  The requests in question: compiled for this pipeline, which has a transformer; at least one patch high and wide, with at least one frame and one
  output (\<^const>\<open>wan_setup\<close>); accepted by the text encoder; no image conditioning, and an image path can be opened; no latents of
  its own, and as many generators as outputs if it brings a list of them.
\<close>

definition wan_admissible :: "wan_run \<Rightarrow> bool" where
  "wan_admissible w \<longleftrightarrow>
     wan_setup (wr_pipeline w) (wr_timesteps w) (wr_compiler w) (wr_hidden w) (wr_sp w) \<and> has_transformer (wr_pipeline w)
     \<and> (\<exists>st. wan_encoded w = Inr st)
     \<and> (\<exists>raw i. raw_image (rq_diffusion_request (wr_request w)) = Inr raw \<and> \<not> (image_given raw \<and> wp_expand_timesteps (wr_pipeline w))
          \<and> load_image (wr_images w) raw = Inr i)
     \<and> sp_latents (wr_sp w) = None \<and> generators_fit (sp_generators (wr_sp w)) (or_int (sp_num_outputs_per_prompt (wr_sp w)) 1)"

lemma wan_encoded_fields: "wan_encoded w = Inr st \<Longrightarrow> state_tensors st = wan_text_fields w"
  unfolding wan_encoded_def
  by (auto simp: state_tensors_def opt_tensor_def wan_text_fields_def Let_def text_encodeE)

lemma wan_latents_asked:
  assumes "wan_admissible w" "wan_encoded w = Inr st"
  shows "[(''latents'', prepare_latents_shape (wr_pipeline w) (wp_in_channels (wr_pipeline w)) st)] = wan_latent_fields w"
proof -
  have s: "wan_setup (wr_pipeline w) (wr_timesteps w) (wr_compiler w) (wr_hidden w) (wr_sp w)" using assms(1) by (simp add: wan_admissible_def)
  then have g: "geometry_of (wr_pipeline w) (wc_latent_geometry (wr_compiler w))" "wan_sizes_ok (wr_pipeline w) (wr_sp w)"
    by (simp_all add: wan_setup_def)
  show ?thesis
    using prepared_shape [OF s assms(2) [unfolded wan_encoded_def], where obj = PyNone and img = False]
      latent_shape_wan [OF g, where c = "wr_compiler w" and obj = PyNone and img = False]
    by (simp add: wan_latent_fields_def Let_def)
qed

lemma wan_declares:
  assumes "wan_admissible w"
  shows "declared (wan_decls w aid) = Some (wan_text_fields w
    @ (if has_latents aid then wan_latent_fields w else []) @ (if has_timesteps aid then [(''timesteps'', [wan_steps w])] else []))"
proof -
  let ?req = "rq_diffusion_request (wr_request w)"
  obtain st raw where a: "wan_setup (wr_pipeline w) (wr_timesteps w) (wr_compiler w) (wr_hidden w) (dq_sampling_params ?req)"
    "wan_encoded w = Inr st" "raw_image ?req = Inr raw" "\<not> (image_given raw \<and> wp_expand_timesteps (wr_pipeline w))"
    using assms by (auto simp: wan_admissible_def)
  show ?thesis
    unfolding wan_decls_def a(3) wan_latents_asked [OF assms a(2), symmetric] wan_encoded_fields [OF a(2), symmetric] wan_steps_def
    by (simp add: state_decls_wan [OF a(1) a(2) [unfolded wan_encoded_def]] a(4) text_encodeE(1) [OF a(2) [unfolded wan_encoded_def]]
        del: de_Morgan_conj)
qed

lemma wan_prepares:
  assumes "wan_admissible w" "wan_encoded w = Inr st"
  shows "wan_prepared w st = Inr (st\<lparr>wn_latents := Some (prepare_latents_shape (wr_pipeline w) (wp_in_channels (wr_pipeline w)) st)\<rparr>)"
proof -
  note e = text_encodeE [OF assms(2) [unfolded wan_encoded_def]]
  obtain raw i where "raw_image (rq_diffusion_request (wr_request w)) = Inr raw" "\<not> (image_given raw \<and> wp_expand_timesteps (wr_pipeline w))"
    "load_image (wr_images w) raw = Inr i" using assms(1) by (auto simp: wan_admissible_def)
  from latent_prepare_plain [OF this] show ?thesis using assms(1) by (simp add: wan_prepared_def wan_admissible_def e(5))
qed

lemma wan_denoises:
  assumes "wan_admissible w" "wan_ready w st"
  shows "\<exists>st'. wan_chunk w c st = Inr st' \<and> state_tensors st' = state_tensors st \<and> (sr_end c < wan_steps w \<longrightarrow> wan_ready w st')"
proof -
  have "has_transformer (wr_pipeline w)" using assms(1) by (simp add: wan_admissible_def)
  then show ?thesis
    using assms(2) by (auto simp: wan_chunk_def wan_denoise_def wan_ready_def Let_def state_tensors_def)
qed

interpretation wan_stages: staged_adapter wan_encoded wan_prepared wan_timed wan_chunk "\<lambda>w. state_tensors" wan_decls
  wan_text_fields wan_latent_fields "\<lambda>w. [(''timesteps'', [wan_steps w])]" wan_steps wan_ready wan_admissible
proof
  show "\<exists>st. wan_encoded w = Inr st \<and> state_tensors st = wan_text_fields w" if "wan_admissible w" for w
    using that wan_encoded_fields by (auto simp: wan_admissible_def)
  show "\<exists>st1. wan_prepared w st = Inr st1 \<and> state_tensors st1 = state_tensors st @ wan_latent_fields w"
    if "wan_admissible w" "wan_encoded w = Inr st" for w st
    using wan_prepares [OF that] text_encodeE(10-13) [OF that(2) [unfolded wan_encoded_def]]
    by (simp add: wan_latents_asked [OF that, symmetric] state_tensors_def opt_tensor_def)
  show "\<exists>st2. wan_timed w st1 = Inr st2 \<and> state_tensors st2 = state_tensors st1 @ [(''timesteps'', [wan_steps w])] \<and> wan_ready w st2"
    if "wan_admissible w" "wan_encoded w = Inr st" "wan_prepared w st = Inr st1" for w st st1
  proof -
    note e = text_encodeE [OF that(2) [unfolded wan_encoded_def]]
    have "int (length (wr_timesteps w (wan_steps w))) = wan_steps w" using that(1) by (auto simp: wan_admissible_def wan_setup_def wan_steps_def)
    then show ?thesis
      using wan_prepares [OF that(1,2)] that(3) e
      by (auto simp: wan_timed_def wan_timestep_prepare_def wan_ready_def state_tensors_def opt_tensor_def wan_steps_def)
  qed
qed (use wan_declares wan_denoises in blast)+

section \<open>Qwen-Image\<close>

record 'v qwen_run =
  qr_pipeline :: qwen_pipeline
  qr_hidden :: int
  qr_printer :: "pyval \<Rightarrow> string"
  qr_zero :: 'v
  qr_encoder :: "string \<Rightarrow> 'v list"
  qr_request :: runtime_request
  qr_default_chunk :: int

abbreviation qr_sp :: "'v qwen_run \<Rightarrow> sampling_params" where
  "qr_sp w \<equiv> dq_sampling_params (rq_diffusion_request (qr_request w))"

definition qwen_encoded_at :: "'v qwen_run \<Rightarrow> 'v qwen_state res" where
  "qwen_encoded_at w = qwen_text_encode (qr_printer w) (qr_pipeline w) (qr_zero w) (qr_encoder w) (rq_diffusion_request (qr_request w))"

definition qwen_prepared_at :: "'v qwen_run \<Rightarrow> 'v qwen_state \<Rightarrow> 'v qwen_state res" where
  "qwen_prepared_at w st = qwen_latent_prepare (qr_pipeline w) (qr_sp w) st"

definition qwen_timed_at :: "'v qwen_run \<Rightarrow> 'v qwen_state \<Rightarrow> 'v qwen_state res" where
  "qwen_timed_at w st = qwen_timestep_prepare (qr_pipeline w) (sp_sigmas (qr_sp w)) st"

definition qwen_chunk :: "'v qwen_run \<Rightarrow> step_range \<Rightarrow> 'v qwen_state \<Rightarrow> 'v qwen_state res" where
  "qwen_chunk w c st = bind_res (qwen_denoise c st) (\<lambda>(_, _, _, st'). Inr st')"

definition qwen_run_decls :: "'v qwen_run \<Rightarrow> string \<Rightarrow> field_decl list res" where
  "qwen_run_decls w aid =
     bind_res (extract_single_prompt (qr_printer w) (rq_diffusion_request (qr_request w))) (\<lambda>(_, negative).
     bind_res (num_images (qr_sp w)) (\<lambda>n.
       qwen_state_decls (qr_pipeline w) (plan_metadata (qwen_plan_args (qr_default_chunk w) PyNone (qr_request w) n negative)) aid))"

definition qwen_images :: "'v qwen_run \<Rightarrow> int" where
  "qwen_images w = (case num_images (qr_sp w) of Inl _ \<Rightarrow> 0 | Inr n \<Rightarrow> n)"

definition qwen_guided :: "'v qwen_run \<Rightarrow> bool" where
  "qwen_guided w \<longleftrightarrow> or_rat (sp_true_cfg_scale (qr_sp w)) 4 > 1
     \<and> (case extract_single_prompt (qr_printer w) (rq_diffusion_request (qr_request w)) of Inl _ \<Rightarrow> False | Inr (_, negative) \<Rightarrow> negative \<noteq> None)"

definition qwen_text_fields :: "'v qwen_run \<Rightarrow> (string \<times> int list) list" where
  "qwen_text_fields w =
     (let m = [qwen_images w, or_int (sp_max_sequence_length (qr_sp w)) 512]; e = m @ [qr_hidden w]
      in [(''prompt_embeds'', e), (''prompt_embeds_mask'', m)]
         @ (if qwen_guided w then [(''negative_prompt_embeds'', e), (''negative_prompt_embeds_mask'', m)] else []))"

definition qwen_latent_fields :: "'v qwen_run \<Rightarrow> (string \<times> int list) list" where
  "qwen_latent_fields w =
     (''latents'', [qwen_images w, (or_int (sp_height (qr_sp w)) 1024 div 16) * (or_int (sp_width (qr_sp w)) 1024 div 16),
        qp_in_channels (qr_pipeline w)])
     # (if qp_guidance_embeds (qr_pipeline w) then [(''guidance'', [qwen_images w])] else [])"

definition qwen_steps :: "'v qwen_run \<Rightarrow> int" where
  "qwen_steps w = or_int (sp_num_inference_steps (qr_sp w)) 50"

definition qwen_ready :: "'v qwen_run \<Rightarrow> 'v qwen_state \<Rightarrow> bool" where
  "qwen_ready w st \<longleftrightarrow> (\<exists>ts. qn_timesteps st = Some ts \<and> int (length ts) = qwen_steps w) \<and> qn_latents st \<noteq> None \<and> qn_scheduler st"

text \<open>The requests in question: as \<^const>\<open>qwen_setup\<close> says, without noise levels of their own, and with generators that fit.\<close>

definition qwen_admissible :: "'v qwen_run \<Rightarrow> bool" where
  "qwen_admissible w \<longleftrightarrow> qwen_setup (qr_pipeline w) (qr_hidden w) (qr_sp w) \<and> qwen_sched_ok (qp_sched (qr_pipeline w))
     \<and> sp_sigmas (qr_sp w) = None \<and> (\<exists>st. qwen_encoded_at w = Inr st) \<and> generators_fit (sp_generators (qr_sp w)) (qwen_images w)"

lemma qwen_admissibleD:
  fixes w :: "'v qwen_run"
  assumes "qwen_admissible w"
  obtains st prompt neg where "qwen_setup (qr_pipeline w) (qr_hidden w) (qr_sp w)" "qwen_sched_ok (qp_sched (qr_pipeline w))"
    "sp_sigmas (qr_sp w) = None" "qwen_encoded_at w = Inr st"
    "extract_single_prompt (qr_printer w) (rq_diffusion_request (qr_request w)) = Inr (prompt, neg)"
    "num_images (qr_sp w) = Inr (qwen_images w)" "generators_fit (sp_generators (qr_sp w)) (qwen_images w)"
    "qwen_guided w \<longleftrightarrow> or_rat (sp_true_cfg_scale (qr_sp w)) 4 > 1 \<and> neg \<noteq> None"
proof -
  obtain st where st: "qwen_encoded_at w = Inr st" using assms by (auto simp: qwen_admissible_def)
  obtain prompt neg where ext: "extract_single_prompt (qr_printer w) (rq_diffusion_request (qr_request w)) = Inr (prompt, neg)"
    using st unfolding qwen_encoded_at_def qwen_text_encode_def by (elim bind_res_InrE) auto
  obtain n where n: "num_images (qr_sp w) = Inr n"
    using st unfolding qwen_encoded_at_def qwen_text_encode_def ext by (auto simp: Let_def bind_res_eq_Inr split: if_splits)
  show ?thesis
    using assms by (intro that [OF _ _ _ st ext]) (auto simp: qwen_admissible_def qwen_images_def n qwen_guided_def ext)
qed

lemma qwen_encoded_fields:
  fixes w :: "'v qwen_run"
  assumes "qwen_admissible w" "qwen_encoded_at w = Inr st"
  shows "qwen_tensors (qr_hidden w) st = qwen_text_fields w"
proof -
  obtain st' prompt neg where a: "qwen_setup (qr_pipeline w) (qr_hidden w) (qr_sp w)"
    "extract_single_prompt (qr_printer w) (rq_diffusion_request (qr_request w)) = Inr (prompt, neg)"
    "num_images (qr_sp w) = Inr (qwen_images w)" "qwen_guided w \<longleftrightarrow> or_rat (sp_true_cfg_scale (qr_sp w)) 4 > 1 \<and> neg \<noteq> None"
    using qwen_admissibleD [OF assms(1)] by metis
  have w: "1 \<le> or_int (sp_max_sequence_length (qr_sp w)) 512" using a(1) by (simp add: qwen_setup_def)
  note e = qwen_encoded [OF assms(2) [unfolded qwen_encoded_at_def] a(2,3) w]
  note dims = padded_dims [OF num_images_pos [OF a(3)] w]
  show ?thesis by (simp add: qwen_tensors_def qwen_text_fields_def Let_def e dims a(4))
qed

lemma qwen_latents_asked:
  fixes w :: "'v qwen_run"
  assumes "qwen_admissible w"
  shows "qwen_latent_fields w = (''latents'', [qwen_images w, estimate_packed_latent_seq_len (qr_sp w), qp_in_channels (qr_pipeline w)])
     # (if qp_guidance_embeds (qr_pipeline w) then [(''guidance'', [qwen_images w])] else [])"
proof -
  have "16 \<le> or_int (sp_height (qr_sp w)) 1024" "16 \<le> or_int (sp_width (qr_sp w)) 1024"
    using assms by (simp_all add: qwen_admissible_def qwen_setup_def)
  then show ?thesis by (simp add: qwen_latent_fields_def estimate_exact)
qed

lemma qwen_declares:
  fixes w :: "'v qwen_run"
  assumes "qwen_admissible w"
  shows "declared (qwen_run_decls w aid) = Some (qwen_text_fields w
    @ (if has_latents aid then qwen_latent_fields w else []) @ (if has_timesteps aid then [(''timesteps'', [qwen_steps w])] else []))"
proof -
  obtain st prompt neg where a: "qwen_setup (qr_pipeline w) (qr_hidden w) (qr_sp w)" "qwen_encoded_at w = Inr st"
    "extract_single_prompt (qr_printer w) (rq_diffusion_request (qr_request w)) = Inr (prompt, neg)"
    "num_images (qr_sp w) = Inr (qwen_images w)"
    using qwen_admissibleD [OF assms] by metis
  show ?thesis
    unfolding qwen_run_decls_def a(3,4) qwen_latents_asked [OF assms] qwen_encoded_fields [OF assms a(2), symmetric] qwen_steps_def
    by (simp add: qwen_decls [OF a(1) a(2) [unfolded qwen_encoded_at_def] a(3,4)])
qed

lemma qwen_prepares:
  fixes w :: "'v qwen_run"
  assumes "qwen_admissible w" "qwen_encoded_at w = Inr st"
  shows "\<exists>st1. qwen_prepared_at w st = Inr st1 \<and> qwen_tensors (qr_hidden w) st1 = qwen_tensors (qr_hidden w) st @ qwen_latent_fields w
    \<and> qn_latents st1 = Some [qwen_images w, estimate_packed_latent_seq_len (qr_sp w), qp_in_channels (qr_pipeline w)]
    \<and> qn_num_steps st1 = qwen_steps w \<and> qn_timesteps st1 = None"
proof -
  obtain st' prompt neg where a: "qwen_setup (qr_pipeline w) (qr_hidden w) (qr_sp w)"
    "extract_single_prompt (qr_printer w) (rq_diffusion_request (qr_request w)) = Inr (prompt, neg)"
    "num_images (qr_sp w) = Inr (qwen_images w)" "generators_fit (sp_generators (qr_sp w)) (qwen_images w)"
    using qwen_admissibleD [OF assms(1)] by metis
  have w: "1 \<le> or_int (sp_max_sequence_length (qr_sp w)) 512" using a(1) by (simp add: qwen_setup_def)
  note e = qwen_encoded [OF assms(2) [unfolded qwen_encoded_at_def] a(2,3) w]
  show ?thesis
    by (simp add: qwen_prepared_at_def qwen_prepared [OF a(1) assms(2) [unfolded qwen_encoded_at_def] a(2-4)] qwen_tensors_def Let_def
        qwen_latents_asked [OF assms(1)] e(7,9-11) qwen_steps_def)
qed

lemma qwen_times:
  fixes w :: "'v qwen_run"
  assumes "qwen_admissible w" "qwen_encoded_at w = Inr st" "qwen_prepared_at w st = Inr st1"
  shows "\<exists>st2. qwen_timed_at w st1 = Inr st2
    \<and> qwen_tensors (qr_hidden w) st2 = qwen_tensors (qr_hidden w) st1 @ [(''timesteps'', [qwen_steps w])] \<and> qwen_ready w st2"
proof -
  have a: "qwen_sched_ok (qp_sched (qr_pipeline w))" "sp_sigmas (qr_sp w) = None" "1 \<le> qwen_steps w"
    using assms(1) by (simp_all add: qwen_admissible_def qwen_setup_def qwen_steps_def)
  obtain lat where p: "qn_latents st1 = Some lat" "2 \<le> length lat" "qn_num_steps st1 = qwen_steps w" "qn_timesteps st1 = None"
    using qwen_prepares [OF assms(1,2)] assms(3) by auto
  obtain ts where ts: "qwen_timed_at w st1 = Inr (st1\<lparr>qn_timesteps := Some ts, qn_num_steps := int (length ts), qn_scheduler := True\<rparr>)"
    "length ts = nat (qwen_steps w)"
    using qwen_timesteps_prepared [OF a(1) p(1,2), of None] by (auto simp: qwen_timed_at_def a(2) p(3))
  show ?thesis using a(3) by (simp add: ts(1) qwen_tensors_def Let_def p(4) qwen_ready_def p(1) ts(2))
qed

lemma qwen_denoises:
  fixes w :: "'v qwen_run"
  assumes "qwen_ready w st"
  shows "\<exists>st'. qwen_chunk w c st = Inr st' \<and> qwen_tensors (qr_hidden w) st' = qwen_tensors (qr_hidden w) st
    \<and> (sr_end c < qwen_steps w \<longrightarrow> qwen_ready w st')"
  using assms by (auto simp: qwen_chunk_def qwen_denoise_def qwen_ready_def Let_def qwen_tensors_def)

interpretation qwen_stages: staged_adapter qwen_encoded_at qwen_prepared_at qwen_timed_at qwen_chunk "\<lambda>w. qwen_tensors (qr_hidden w)"
  qwen_run_decls qwen_text_fields qwen_latent_fields "\<lambda>w. [(''timesteps'', [qwen_steps w])]" qwen_steps qwen_ready qwen_admissible
proof
  show "\<exists>st. qwen_encoded_at w = Inr st \<and> qwen_tensors (qr_hidden w) st = qwen_text_fields w" if "qwen_admissible w" for w :: "'a qwen_run"
    using qwen_encoded_fields [OF that] that by (auto simp: qwen_admissible_def)
qed (use qwen_declares qwen_prepares qwen_times qwen_denoises in blast)+

section \<open>What the data plane gains\<close>

text \<open>
  C34: The state of a Wan request can be migrated after every stage of its plan: every stage succeeds, the chunks of a plan in their order
  included; the codec declares the tensors that the state then holds, with their names, order and shapes, and nothing else; and if
  the element types agree as well, slicing a whole declared field out of the tensor of its name does not raise and gives all of it. This
  is for requests that the text encoder accepts, at least one patch high and wide and with at least one frame and one output, without
  image conditioning and without latents of their own, whose image path, if any, can be opened and whose generators fit, on the
  pipeline they were compiled for, with a transformer and one timestep per step.
\<close>

theorem wan_states_migrate:
  assumes "wan_admissible w" "stage_of_plan (wan_steps w) stage" "artifact_of stage aid"
  shows "\<exists>l st. wan_decls w aid = Inr l \<and> state_at (wan_encoded w) (wan_prepared w) (wan_timed w) (wan_chunk w) stage = Inr st
    \<and> map (\<lambda>(n, s, dt). (n, s)) l = state_tensors st
    \<and> (\<forall>H :: string \<Rightarrow> 'v tensor. holds_tensors known H (state_tensors st) l \<longrightarrow> slices known H l)"
  by (rule wan_stages.every_stage_migrates [OF assms])

text \<open>The same for Qwen-Image.\<close>

theorem qwen_states_migrate:
  fixes w :: "'v qwen_run"
  assumes "qwen_admissible w" "stage_of_plan (qwen_steps w) stage" "artifact_of stage aid"
  shows "\<exists>l st. qwen_run_decls w aid = Inr l
    \<and> state_at (qwen_encoded_at w) (qwen_prepared_at w) (qwen_timed_at w) (qwen_chunk w) stage = Inr st
    \<and> map (\<lambda>(n, s, dt). (n, s)) l = qwen_tensors (qr_hidden w) st
    \<and> (\<forall>H. holds_tensors known H (qwen_tensors (qr_hidden w) st) l \<longrightarrow> slices known H l)"
  by (rule qwen_stages.every_stage_migrates [OF assms])

section \<open>Concrete runs\<close>

definition ex_wan_run :: wan_run where
  "ex_wan_run = \<lparr>wr_pipeline = ex_wan_pipeline, wr_timesteps = ex_timesteps, wr_compiler = ex_wan_compiler, wr_hidden = 4096,
     wr_printer = (\<lambda>_. []), wr_request = ex_wan_request (TextPrompt ''p''), wr_images = ex_images, wr_encode = ex_vae_encode\<rparr>"

text \<open>The first chunk of the two of the plan.\<close>

definition ex_stage :: stage where
  "ex_stage = DenoiseStage [\<lparr>sr_start = 0, sr_end = 2\<rparr>]"

lemma ex_stage_of_plan: "stage_of_plan 4 ex_stage" "artifact_of ex_stage ''state_denoised:0''"
proof -
  have "tiles 2 0 4 ([\<lparr>sr_start = 0, sr_end = 2\<rparr>] @ [\<lparr>sr_start = 2, sr_end = 4\<rparr>])" by simp
  then show "stage_of_plan 4 ex_stage" unfolding ex_stage_def stage_of_plan.simps by blast
  show "artifact_of ex_stage ''state_denoised:0''" by (simp add: ex_stage_def starts_with_def)
qed

lemma ex_wan_admissible: "wan_admissible ex_wan_run" "wan_steps ex_wan_run = 4"
proof -
  have "raw_image (rq_diffusion_request (ex_wan_request (TextPrompt ''p''))) = Inr PyNone" by (simp add: ex_wan_request_def raw_image_def)
  moreover have "\<exists>st. wan_text_encode (\<lambda>_. []) ex_wan_pipeline 4096 (rq_diffusion_request (ex_wan_request (TextPrompt ''p''))) = Inr st"
    using ex_wan_encode(1) by blast
  moreover have "has_transformer ex_wan_pipeline" by (simp add: has_transformer_def ex_wan_pipeline_def)
  ultimately show "wan_admissible ex_wan_run"
    using ex_wan_setup [of "TextPrompt ''p''"]
    by (simp add: wan_admissible_def ex_wan_run_def image_given_def wan_encoded_def ex_wan_images ex_wan_sp)
  show "wan_steps ex_wan_run = 4" by (simp add: wan_steps_def ex_wan_run_def ex_wan_sp ex_sampling_def or_int_def)
qed

lemma tensors_exist:
  assumes "map (\<lambda>(n, s, dt). (n, s)) l = held" "distinct (map fst l)"
  shows "\<exists>H :: string \<Rightarrow> int tensor. holds_tensors (\<lambda>_. True) H held l"
proof -
  define H :: "string \<Rightarrow> int tensor" where
    "H n = (case the (map_of l n) of (s, dt) \<Rightarrow> \<lparr>tn_shape = s, tn_dtype = projr (parse_torch_dtype (\<lambda>_. True) dt), tn_data = (\<lambda>_. 0)\<rparr>)" for n
  have "map_of l n = Some (s, dt)" if "(n, s, dt) \<in> set l" for n s dt using that assms(2) by simp
  then have "tn_shape (H n) = s \<and> parse_torch_dtype (\<lambda>_. True) dt = Inr (tn_dtype (H n))" if "(n, s, dt) \<in> set l" for n s dt
    using that by (simp add: H_def parse_torch_dtype_def Let_def)
  then have "holds_tensors (\<lambda>_. True) H held l" unfolding holds_tensors_def assms(1) [symmetric] by fastforce
  then show ?thesis by blast
qed

theorem wan_states_migrate_witness:
  "\<exists>l st. wan_decls ex_wan_run ''state_denoised:0'' = Inr l
    \<and> state_at (wan_encoded ex_wan_run) (wan_prepared ex_wan_run) (wan_timed ex_wan_run) (wan_chunk ex_wan_run) ex_stage = Inr st
    \<and> map fst l = [''prompt_embeds'', ''negative_prompt_embeds'', ''latents'', ''timesteps'']
    \<and> (\<exists>H :: string \<Rightarrow> int tensor. holds_tensors (\<lambda>_. True) H (state_tensors st) l \<and> slices (\<lambda>_. True) H l)"
proof -
  have p: "stage_of_plan (wan_steps ex_wan_run) ex_stage" by (simp only: ex_wan_admissible(2) ex_stage_of_plan(1))
  from wan_states_migrate [OF ex_wan_admissible(1) p ex_stage_of_plan(2), of "\<lambda>_. True", where 'v = int]
  obtain l st where l: "wan_decls ex_wan_run ''state_denoised:0'' = Inr l"
    "state_at (wan_encoded ex_wan_run) (wan_prepared ex_wan_run) (wan_timed ex_wan_run) (wan_chunk ex_wan_run) ex_stage = Inr st"
    "map (\<lambda>(n, s, dt). (n, s)) l = state_tensors st"
    "\<forall>H :: string \<Rightarrow> int tensor. holds_tensors (\<lambda>_. True) H (state_tensors st) l \<longrightarrow> slices (\<lambda>_. True) H l"
    by blast
  have "map fst l = map fst (state_tensors st)" unfolding l(3) [symmetric] by (simp add: o_def case_prod_beta)
  also have "state_tensors st = wan_text_fields ex_wan_run @ wan_latent_fields ex_wan_run @ [(''timesteps'', [wan_steps ex_wan_run])]"
    using wan_stages.stage_reached [OF ex_wan_admissible(1) p] l(2) by (simp add: ex_stage_def)
  also have "map fst \<dots> = [''prompt_embeds'', ''negative_prompt_embeds'', ''latents'', ''timesteps'']"
    by (simp add: wan_text_fields_def wan_latent_fields_def Let_def ex_wan_run_def ex_wan_sp guidance_low_def ex_sampling_def ex_wan_pipeline_def)
  finally have names: "map fst l = [''prompt_embeds'', ''negative_prompt_embeds'', ''latents'', ''timesteps'']" .
  then have "distinct (map fst l)" by simp
  from tensors_exist [OF l(3) this] obtain H :: "string \<Rightarrow> int tensor" where H: "holds_tensors (\<lambda>_. True) H (state_tensors st) l" by blast
  then have "slices (\<lambda>_. True) H l" by (rule l(4) [rule_format])
  with H l(1,2) names show ?thesis by (intro exI [of _ l] exI [of _ st] conjI exI [of _ H])
qed

definition ex_qwen_run :: "int qwen_run" where
  "ex_qwen_run = \<lparr>qr_pipeline = ex_qwen_pipeline, qr_hidden = 3584, qr_printer = (\<lambda>_. []), qr_zero = 0, qr_encoder = ex_encoder,
     qr_request = ex_qwen_request None, qr_default_chunk = 1\<rparr>"

lemma ex_qwen_admissible: "qwen_admissible ex_qwen_run" "qwen_steps ex_qwen_run = 4"
proof -
  have "\<exists>st. qwen_text_encode (\<lambda>_. []) ex_qwen_pipeline 0 ex_encoder (rq_diffusion_request (ex_qwen_request None)) = Inr st"
    using ex_qwen_encode by blast
  then show "qwen_admissible ex_qwen_run" "qwen_steps ex_qwen_run = 4"
    using ex_qwen(1) [of None] ex_qwen(2)
    by (simp_all add: qwen_admissible_def ex_qwen_run_def ex_qwen(5,6) qwen_encoded_at_def ex_qwen_sp(2) qwen_steps_def)
qed

theorem qwen_states_migrate_witness:
  "\<exists>l st. qwen_run_decls ex_qwen_run ''state_denoised:0'' = Inr l
    \<and> state_at (qwen_encoded_at ex_qwen_run) (qwen_prepared_at ex_qwen_run) (qwen_timed_at ex_qwen_run) (qwen_chunk ex_qwen_run) ex_stage = Inr st
    \<and> map (\<lambda>(n, s, dt). (n, s)) l = qwen_tensors 3584 st"
proof -
  have "qr_hidden ex_qwen_run = 3584" by (simp add: ex_qwen_run_def)
  then show ?thesis
    using qwen_states_migrate [OF ex_qwen_admissible(1), unfolded ex_qwen_admissible(2), OF ex_stage_of_plan, of "\<lambda>_. True"] by auto
qed

end
