(* ===== verification/Spec2Isabelle.thy ===== *)
theory Spec2Isabelle
  imports Prelude Protocol Topology MigrationEngine ShardLayout DataPlane SpGather DitPlan RankLedger Disaggregate DynamicStep CostModel PolicyCommon EdfGreedy EdfBestFit WorkAccount Srtf Sjf Fcfs Scheduler SchedulerSteps SchedulerRuns TaskGraph WorkerPool WorkerProcess Cluster Config Startup WaveStress Runner Codec StateCodec WanAdapter LatentPacking QwenAdapter StateLayouts
begin

text \<open>
  GF-DiT is a serving runtime for diffusion transformers. This development verifies its core, the
  package \<open>src/vllm_omni/diffusion/runtime_v2\<close>: the controller that compiles a request into a
  graph of tasks, schedules the tasks on groups of GPU ranks under an exchangeable policy, moves
  the state of a request between groups, and collects the output.

  \<^bold>\<open>How the parts interact.\<close> A request is compiled to a plan (\<open>adapters/common.py\<close>): tasks, their
  dependencies, the artifacts they read and write. The global scheduler (\<open>scheduler.py\<close>) keeps
  the plans, the counters of open dependencies, the artifact store and the reference counts. It
  offers runnable tasks to a policy (\<open>policies/\<close>), which answers with the tasks to dispatch now
  and books the ranks or groups they occupy on the topology (\<open>topology.py\<close>). A dispatched task
  goes to the worker pool (\<open>multiproc_worker.py\<close>), whose ranks report launch and end; the pool
  merges the reports of a group into one event for the scheduler. An artifact that lies on another
  group is moved first, by a migration of four phases that the migration engine
  (\<open>migration_engine.py\<close>) drives; the workers compute the transfer schedule and execute it in the
  data plane (\<open>data_plane.py\<close>). Policies that compare run times price tasks with the cost model
  (\<open>cost_model.py\<close>, \<open>policies/common.py\<close>).

  \<^bold>\<open>Theories, in the order of their dependencies.\<close>

  \<^item> Prelude: results with Python's exceptions as values, monadic loops over lists, insertion
    ordered dictionaries, counters, stable minima and sorts.

  \<^item> Protocol (\<open>protocol.py\<close>): the data classes as records and the enumerations as datatypes; each
    \<open>__post_init__\<close> is a constructor function with its checks in the order of the source.

  \<^item> Topology (\<open>topology.py\<close>): construction, registration of groups at run time, lookups; the
    indexes of every reachable topology are exact, so that the lookups of its members succeed.

  \<^item> MigrationEngine (\<open>migration_engine.py\<close>): the handshake as a state machine. By rule induction
    over all runs: commands in flight never share a rank, every rank sees commands ordered by
    migration and phase, every migration gets exactly one callback; the oldest one sends its next
    phase as soon as its replies are in.

  \<^item> ShardLayout, SpGather, DataPlane (\<open>adapters/common.py\<close>, \<open>data_plane.py\<close>): shard bounds, the
    construction of transfer schedules, posting orders and delivery. Shards partition a tensor,
    gathering undoes sharding, an executed schedule delivers the global contents, and the posting
    orders cannot deadlock under rendezvous.

  \<^item> DitPlan (\<open>build_chunked_dit_plan\<close> in \<open>adapters/common.py\<close>): a compiled plan is one pipeline whose
    chunks tile the denoising steps.

  \<^item> RankLedger: the contracts of the policies as locales: a ledger of claimed ranks, and a
    dispatcher that claims, releases and never oversubscribes. They are interpreted on the
    counters and on the policies.

  \<^item> Disaggregate, DynamicStep (\<open>policies/disaggregate.py\<close>): the two queueing policies; groups and
    ranks are exclusive, the free view is exact, dispatch is FIFO and leaves no idle group.

  \<^item> CostModel, PolicyCommon, EdfGreedy, EdfBestFit (\<open>cost_model.py\<close>, \<open>policies/common.py\<close>,
    \<open>policies/edf_greedy.py\<close>, \<open>policies/edf_best_fit.py\<close>): pricing, deadline order, placement, the
    planning passes of best fit.

  \<^item> WorkAccount, Srtf, Sjf, Fcfs (\<open>policies/srtf.py\<close>, \<open>policies/sjf.py\<close>, \<open>policies/fcfs.py\<close>): the shared
    work accounts and the three request-level policies. Locales state what a dispatch needs from
    the choice of the next request, and are interpreted for SRTF and SJF.

  \<^item> Scheduler (\<open>scheduler.py\<close>): the global scheduler, one definition per method, over a record of
    operations of the policy and one of the worker pool.

  \<^item> SchedulerSteps: every operation as a sequence of elementary steps, and the termination of the
    recursion from a failing task through its synthetic event to further dispatches.

  \<^item> SchedulerRuns: all runs of the scheduler, with a log of the calls of the policy. Terminal
    notices reach the policy at most once. A failure removes all state of its request, and in every
    later run the request stays failed and late reports of its tasks change nothing.

  \<^item> TaskGraph: an abstract task graph whose steps launch tasks, offer ready ones and drop
    requests, and the refinement: every run of the scheduler is a run of the task graph. What the
    scheduler needs from a policy is a locale, interpreted on the two policies of
    \<open>policies/disaggregate.py\<close>.

  \<^item> WorkerPool (\<open>MultiprocWorkerPool\<close> in \<open>multiproc_worker.py\<close>): the controller side of the worker
    pool. The reports of a group become one event, after the last report, at most one per dispatch.

  \<^item> WorkerProcess (\<open>_WorkerProcessRuntime\<close> in \<open>multiproc_worker.py\<close>, \<open>MigrationDataPlaneMixin\<close> in
    \<open>data_plane.py\<close>): one rank's side: the command handlers, the local artifact store, the four
    phases of a migration. Every command is answered with a well-formed report.

  \<^item> Cluster: the ranks of a group together: outputs that are published lie on all ranks, a fetch
    returns the artifacts of the leader, and a transfer whose source was evicted never ends.

  \<^item> WaveStress (\<open>policies/wave_stress.py\<close>): the stress policy, which collects requests into waves
    and serves them in round robin on three overlapping groups. Ranks are exclusive, and no
    request of a wave waits while the ranks of its next task are free.

  \<^item> Config (\<open>data.py\<close>): the parallel configuration and the runtime fields of the diffusion
    configuration with their normalisation; constructing an accepted one again changes nothing.

  \<^item> Startup (\<open>runner.py\<close>): the execution groups from the four forms of configuration and the
    topology; a topology that is accepted is sound.

  \<^item> Runner (\<open>runner.py\<close>): the checks at start, the construction of the policy from its name, and
    the wait for a request. An accepted configuration places every task of the disaggregated
    policy, the group-free collectives get groups they support, and \<open>wait\<close> delivers the first
    terminal status, for every timeout.

  \<^item> Codec (\<open>codec.py\<close>): the base codec over an explicit store of Python objects, since its copies are
    shallow; taking an artifact apart and assembling it elsewhere loses nothing.

  \<^item> StateCodec (\<open>adapters/wan.py\<close>, repeated in \<open>adapters/qwen_image.py\<close>): packing, extra fields and
    assembly of a runtime state with its diffusion scheduler, on trees; the tensors of the scheduler
    arrive in their places, also those in its lists. Packing drops the generator of the request
    and thereby initialises the request again.

  \<^item> WanAdapter (\<open>adapters/wan.py\<close>): requests, latent geometry, the task compiler, layouts and the
    executors over the shapes of tensors, with the latents and the image that a request may bring
    along. The predicted guidance is the executed one; the estimate
    of the sequence length and the layout of the image condition are shown where they are wrong.

  \<^item> LatentPacking (\<open>models/qwen_image/pipeline_qwen_image.py\<close>): latents as tokens and back.

  \<^item> QwenAdapter (\<open>adapters/qwen_image.py\<close>): padding and trimming of embeddings, timesteps, compiler,
    layouts, executors. Padding is invisible to the transformer; the layouts of decoded images and of
    custom noise levels are shown where they are wrong.

  \<^item> StateLayouts: what a migration needs of an adapter, as a locale over its stages: which tensors
    each of them adds and which fields the codec declares. It is interpreted on both adapters, and gives
    that after every stage, through all chunks of a plan, the state holds the declared tensors.

  \<^bold>\<open>Modelling decisions.\<close> Python's integers are \<open>int\<close>; floats are exact rationals (reals where a
  square root is taken), so rounding is not covered. Dictionaries are maps, or association lists
  where their order is observed. Task objects, which the scheduler, the policies and the plan
  share by reference, live in a heap from task ids to records, and every component updates that
  heap. An exception is a value that ends the operation; where the source catches it, the model
  goes on with the handler. The closures registered with a migration are data that name the
  captured variables, and firing one is an operation. Operations under a lock are single steps;
  clocks, fresh ids and what arrives on a pipe are arguments. Logging and tracing are left out.

  \<^bold>\<open>Bounds.\<close> Loops over lists are structural. The recursion of the scheduler from a failed dispatch
  back into the event handler carries its depth; SchedulerSteps shows that a depth above the
  number of tasks that have not failed is enough and that more depth changes nothing. Loops that
  wait for the outside (\<open>run_until_request_done\<close>, \<open>wait\<close>, \<open>fetch_artifacts\<close>) run over a list of ticks,
  for \<open>wait\<close> with the time of each, and return \<open>None\<close> when it is used up.

  \<^bold>\<open>Not modelled.\<close> Of the worker processes, what drives PyTorch, CUDA streams, NCCL, pickling and
  the profiler (process start, pipeline initialisation, stream and buffer handling in
  \<open>multiproc_worker.py\<close> and \<open>data_plane.py\<close>); the fields of the configuration in \<open>data.py\<close> that the
  runtime does not read; of the adapters, the contents of tensors, the calls of transformers, text
  encoders and VAEs (parameters of the model where their shapes matter), random numbers, and the
  assembly of an adapter from its parts; the registry of adapters; the collective
  kernels of \<open>GroupFree-Collective\<close>, which are device code; and the remainder of \<open>vllm_omni\<close>, the serving
  front end and the models, which runtime_v2 only calls or is called from.
\<close>

end
